(* ===== verification/Fos_Base.thy ===== *)
theory Fos_Base
  imports Main "HOL-Library.Word"
begin

text \<open>
  The prelude of the development: machine words, the results of kernel code that can
  panic, the rounding and address macros of \<^verbatim>\<open>inc/types.h\<close> and
  \<^verbatim>\<open>inc/mmu.h\<close>, the layout constants of \<^verbatim>\<open>inc/memlayout.h\<close>,
  and the generic lemmas on words and lists that the components share.
\<close>

unbundle bit_operations_syntax

section \<open>Machine words and results\<close>

type_synonym u8 = "8 word"
type_synonym u16 = "16 word"
type_synonym u32 = "32 word"
type_synonym u64 = "64 word"

text \<open>
  A kernel function that does not return normally ends in one of these ways: a call of
  \<^verbatim>\<open>panic()\<close> or a failed \<^verbatim>\<open>assert()\<close>, a read or write through a NULL
  pointer, an access outside an array, a list macro applied to an element that is
  not on the list (removal) or already on it (insertion), or a loop over addresses whose
  counter passes \<open>2^32\<close> and starts again at the bottom of the address space, or a memory
  access of the kernel to a page that is not present. These are
  undefined or corrupting behaviours of C, which the model reports instead of choosing a
  value. \<open>No_Fuel\<close> is the bound on a recursion that the source leaves open.
\<close>

datatype fault = Panic | Null_Deref | Out_Of_Bounds | Bad_Link | Counter_Wrap | Page_Fault | No_Fuel

type_synonym 'a result = "fault + 'a"

definition andthen :: "'a result \<Rightarrow> ('a \<Rightarrow> 'b result) \<Rightarrow> 'b result" where
  "andthen m f = (case m of Inl e \<Rightarrow> Inl e | Inr a \<Rightarrow> f a)"

section \<open>Rounding, \<^verbatim>\<open>inc/types.h\<close>\<close>

definition ROUNDDOWN :: "u32 \<Rightarrow> u32 \<Rightarrow> u32" where
  "ROUNDDOWN a n = a - a mod n"

definition ROUNDUP :: "u32 \<Rightarrow> u32 \<Rightarrow> u32" where
  "ROUNDUP a n = ROUNDDOWN (a + n - 1) n"

section \<open>Pages and page tables, \<^verbatim>\<open>inc/mmu.h\<close>\<close>

definition PAGE_SIZE :: u32 where "PAGE_SIZE = 4096"
definition PTSIZE :: u32 where "PTSIZE = 4194304"

definition PPN :: "u32 \<Rightarrow> u32" where
  "PPN la = drop_bit 12 la"

definition PDX :: "u32 \<Rightarrow> u32" where
  "PDX la = (drop_bit 22 la) AND 0x3FF"

definition PTX :: "u32 \<Rightarrow> u32" where
  "PTX la = (drop_bit 12 la) AND 0x3FF"

definition PGOFF :: "u32 \<Rightarrow> u32" where
  "PGOFF la = la AND 0xFFF"

definition PGADDR :: "u32 \<Rightarrow> u32 \<Rightarrow> u32 \<Rightarrow> u32" where
  "PGADDR d t off = push_bit 22 d OR push_bit 12 t OR off"

definition EXTRACT_ADDRESS :: "u32 \<Rightarrow> u32" where
  "EXTRACT_ADDRESS entry = entry AND NOT 0xFFF"

definition CONSTRUCT_ENTRY :: "u32 \<Rightarrow> u32 \<Rightarrow> u32" where
  "CONSTRUCT_ENTRY phys_frame_address permissions = phys_frame_address OR permissions"

definition PERM_PRESENT :: u32 where "PERM_PRESENT = 0x001"
definition PERM_WRITEABLE :: u32 where "PERM_WRITEABLE = 0x002"
definition PERM_USER :: u32 where "PERM_USER = 0x004"
definition PERM_USED :: u32 where "PERM_USED = 0x020"
definition PERM_MODIFIED :: u32 where "PERM_MODIFIED = 0x040"
definition PERM_BUFFERED :: u32 where "PERM_BUFFERED = 0x200"
definition PERM_AVAILABLE :: u32 where "PERM_AVAILABLE = 0xE00"

section \<open>The address space, \<^verbatim>\<open>inc/memlayout.h\<close>\<close>

definition KERNEL_BASE :: u32 where "KERNEL_BASE = 0xF0000000"
definition KERNEL_HEAP_START :: u32 where "KERNEL_HEAP_START = 0xF6000000"
definition KERNEL_HEAP_MAX :: u32 where "KERNEL_HEAP_MAX = 0xFFFFF000"
definition NUM_OF_KHEAP_PAGES :: u32 where
  "NUM_OF_KHEAP_PAGES = (KERNEL_HEAP_MAX - KERNEL_HEAP_START) div PAGE_SIZE"
definition USER_HEAP_START :: u32 where "USER_HEAP_START = 0x80000000"
definition USER_HEAP_MAX :: u32 where "USER_HEAP_MAX = 0xA0000000"
definition NUM_OF_UHEAP_PAGES :: u32 where
  "NUM_OF_UHEAP_PAGES = (USER_HEAP_MAX - USER_HEAP_START) div PAGE_SIZE"
definition VPT :: u32 where "VPT = KERNEL_BASE - PTSIZE"
definition KERNEL_STACK_TOP :: u32 where "KERNEL_STACK_TOP = VPT"
definition KERNEL_STACK_SIZE :: u32 where "KERNEL_STACK_SIZE = 8 * PAGE_SIZE"
definition USER_LIMIT :: u32 where "USER_LIMIT = KERNEL_STACK_TOP - PTSIZE"
definition UVPT :: u32 where "UVPT = USER_LIMIT - PTSIZE"
definition UENVS :: u32 where "UENVS = UVPT - 2 * PTSIZE"
definition USER_TOP :: u32 where "USER_TOP = UENVS"
definition USTACKTOP :: u32 where "USTACKTOP = USER_TOP - 2 * PAGE_SIZE"

text \<open>\<^verbatim>\<open>CHECK_IF_KERNEL_ADDRESS\<close> of \<^verbatim>\<open>kern/mem/memory_manager.h\<close>.\<close>

definition CHECK_IF_KERNEL_ADDRESS :: "u32 \<Rightarrow> bool" where
  "CHECK_IF_KERNEL_ADDRESS va \<longleftrightarrow> USER_TOP \<le> va \<and> va \<le> 0xFFFFFFFF"

text \<open>Error codes of \<^verbatim>\<open>inc/error.h\<close>.\<close>

definition E_BAD_ENV :: int where "E_BAD_ENV = - 2"
definition E_INVAL :: int where "E_INVAL = - 3"
definition E_NO_MEM :: int where "E_NO_MEM = - 4"
definition E_NO_FREE_ENV :: int where "E_NO_FREE_ENV = - 5"
definition E_EOF :: int where "E_EOF = - 7"
definition E_NO_PAGE_FILE_SPACE :: int where "E_NO_PAGE_FILE_SPACE = - 8"
definition E_PAGE_NOT_EXIST_IN_PF :: int where "E_PAGE_NOT_EXIST_IN_PF = - 9"
definition E_TABLE_NOT_EXIST_IN_PF :: int where "E_TABLE_NOT_EXIST_IN_PF = - 10"
definition E_NO_SEMAPHORE :: int where "E_NO_SEMAPHORE = - 11"
definition E_SEMAPHORE_EXISTS :: int where "E_SEMAPHORE_EXISTS = - 12"
definition E_SEMAPHORE_NOT_EXISTS :: int where "E_SEMAPHORE_NOT_EXISTS = - 13"
definition E_NO_SHARE :: int where "E_NO_SHARE = - 14"
definition E_SHARED_MEM_EXISTS :: int where "E_SHARED_MEM_EXISTS = - 15"
definition E_SHARED_MEM_NOT_EXISTS :: int where "E_SHARED_MEM_NOT_EXISTS = - 16"
definition E_ENV_CREATION_ERROR :: int where "E_ENV_CREATION_ERROR = - 17"
definition E_NO_VM :: int where "E_NO_VM = - 20"

named_theorems perm_defs \<open>the permission bits as numerals\<close>
named_theorems layout_defs \<open>the address-space constants as numerals\<close>
named_theorems addr_defs \<open>the address macros\<close>

declare PERM_PRESENT_def [perm_defs] PERM_WRITEABLE_def [perm_defs] PERM_USER_def [perm_defs]
  PERM_USED_def [perm_defs] PERM_MODIFIED_def [perm_defs] PERM_BUFFERED_def [perm_defs]
  PERM_AVAILABLE_def [perm_defs]

declare PAGE_SIZE_def [layout_defs] PTSIZE_def [layout_defs] KERNEL_BASE_def [layout_defs]
  KERNEL_HEAP_START_def [layout_defs] KERNEL_HEAP_MAX_def [layout_defs]
  NUM_OF_KHEAP_PAGES_def [layout_defs] USER_HEAP_START_def [layout_defs]
  USER_HEAP_MAX_def [layout_defs] NUM_OF_UHEAP_PAGES_def [layout_defs] VPT_def [layout_defs]
  KERNEL_STACK_TOP_def [layout_defs] KERNEL_STACK_SIZE_def [layout_defs]
  USER_LIMIT_def [layout_defs] UVPT_def [layout_defs] UENVS_def [layout_defs]
  USER_TOP_def [layout_defs] USTACKTOP_def [layout_defs]

declare PPN_def [addr_defs] PDX_def [addr_defs] PTX_def [addr_defs] PGOFF_def [addr_defs]
  PGADDR_def [addr_defs] EXTRACT_ADDRESS_def [addr_defs] CONSTRUCT_ENTRY_def [addr_defs]

section \<open>Results\<close>

lemma andthen_simps [simp]:
  "andthen (Inl e) f = Inl e"
  "andthen (Inr a) f = f a"
  by (simp_all add: andthen_def)

lemma andthen_eq_Inr [simp]:
  "andthen m f = Inr b \<longleftrightarrow> (\<exists>a. m = Inr a \<and> f a = Inr b)"
  by (cases m) simp_all

lemma andthen_eq_Inl:
  "andthen m f = Inl e \<longleftrightarrow> m = Inl e \<or> (\<exists>a. m = Inr a \<and> f a = Inl e)"
  by (cases m) auto

lemma andthen_assoc: "andthen (andthen m f) g = andthen m (\<lambda>a. andthen (f a) g)"
  by (cases m) simp_all

lemma andthen_cong [fundef_cong]:
  "m = m' \<Longrightarrow> (\<And>a. m' = Inr a \<Longrightarrow> f a = f' a) \<Longrightarrow> andthen m f = andthen m' f'"
  by (cases m') auto

section \<open>Words read as naturals\<close>

lemma unat_lt_2p32 [simp]: "unat (a :: u32) < 4294967296"
  using unsigned_less [of a, where 'a = nat] by simp

lemma unat_le_2p32 [simp]: "unat (a :: u32) \<le> 4294967295"
  using unat_lt_2p32 [of a] by linarith

lemma unat_add_u32:
  "unat (a :: u32) + unat b < 4294967296 \<Longrightarrow> unat (a + b) = unat a + unat b"
  by (simp add: unat_word_ariths)

lemma unat_sub_u32: "(b :: u32) \<le> a \<Longrightarrow> unat (a - b) = unat a - unat b"
  by (rule unat_sub)

lemma unat_sub_u32': "unat b \<le> unat (a :: u32) \<Longrightarrow> unat (a - b) = unat a - unat b"
  by (simp add: unat_sub word_le_nat_alt)

lemma u32_eq_iff: "(a :: u32) = b \<longleftrightarrow> unat a = unat b"
  by (simp add: word_unat_eq_iff)

section \<open>Rounding\<close>

lemma ROUNDDOWN_unat: "unat (ROUNDDOWN a n) = unat a div unat n * unat n"
proof -
  have "unat (a mod n) \<le> unat a"
    by (simp add: unat_mod)
  then have "unat (ROUNDDOWN a n) = unat a - unat a mod unat n"
    by (simp add: ROUNDDOWN_def unat_sub_u32' unat_mod)
  then show ?thesis
    by (simp add: minus_mod_eq_div_mult)
qed

lemma ROUNDDOWN_le: "ROUNDDOWN a n \<le> a"
  by (simp add: word_le_nat_alt ROUNDDOWN_unat)

lemma ROUNDDOWN_dvd: "unat n dvd unat (ROUNDDOWN a n)"
  by (simp add: ROUNDDOWN_unat)

lemma ROUNDDOWN_idem: "unat n dvd unat a \<Longrightarrow> ROUNDDOWN a n = a"
  by (simp add: u32_eq_iff ROUNDDOWN_unat)

lemma ROUNDUP_unat:
  assumes "0 < unat n" and "unat a + (unat n - 1) < 4294967296"
  shows "unat (ROUNDUP a n) = (unat a + (unat n - 1)) div unat n * unat n"
proof -
  have 1: "unat (n - 1) = unat n - 1"
    using assms(1) by (simp add: unat_sub_u32')
  have "unat (a + n - 1) = unat a + (unat n - 1)"
    using assms(2) by (simp only: add_diff_eq [symmetric]) (simp add: unat_add_u32 1)
  then show ?thesis
    by (simp add: ROUNDUP_def ROUNDDOWN_unat)
qed

lemma ROUNDUP_dvd: "unat n dvd unat (ROUNDUP a n)"
  by (simp add: ROUNDUP_def ROUNDDOWN_dvd)

lemma unat_PAGE_SIZE [simp]: "unat PAGE_SIZE = 4096"
  by (simp add: PAGE_SIZE_def)

text \<open>Above the last page the round-up wraps to address 0.\<close>

lemma ROUNDUP_wraps:
  assumes "unat a > 4294963200"
  shows "ROUNDUP a PAGE_SIZE = 0"
proof -
  have 1: "unat (PAGE_SIZE - 1) = 4095"
    by (simp add: PAGE_SIZE_def)
  have "unat (a + PAGE_SIZE - 1) = (unat a + 4095) mod 4294967296"
    by (simp only: add_diff_eq [symmetric]) (simp add: unat_word_ariths 1)
  also have "\<dots> = unat a + 4095 - 4294967296"
  proof -
    have "unat a + 4095 = (unat a + 4095 - 4294967296) + 4294967296"
      using assms by linarith
    then have "(unat a + 4095) mod 4294967296 = (unat a + 4095 - 4294967296) mod 4294967296"
      by (metis mod_add_self2)
    moreover have "unat a + 4095 - 4294967296 < 4294967296"
      using unat_lt_2p32 [of a] by linarith
    ultimately show ?thesis
      by simp
  qed
  also have "\<dots> < 4096"
    using unat_lt_2p32 [of a] by linarith
  finally show ?thesis
    by (simp add: u32_eq_iff ROUNDUP_def ROUNDDOWN_unat)
qed

section \<open>The three parts of an address\<close>

lemma unat_mask_and: "unat ((a :: u32) AND mask n) = unat a mod 2 ^ n"
proof -
  have "a AND mask n = take_bit n a"
    by (simp add: take_bit_eq_mask)
  then show ?thesis
    by (simp add: unsigned_take_bit_eq take_bit_nat_def)
qed

lemma unat_drop_bit_u32: "unat (drop_bit n (a :: u32)) = unat a div 2 ^ n"
proof -
  have "take_bit 32 (unat a) = unat a"
    by (rule take_bit_nat_eq_self) simp
  then show ?thesis
    by (simp add: unsigned_drop_bit_eq drop_bit_nat_def)
qed

lemma unat_PDX: "unat (PDX a) = unat a div 4194304"
proof -
  have m: "(0x3FF :: u32) = mask 10"
    by (simp add: mask_eq_exp_minus_1)
  have "unat (PDX a) = unat a div 4194304 mod 1024"
    unfolding PDX_def m unat_mask_and unat_drop_bit_u32 by simp
  moreover have "unat a div 4194304 < 1024"
    using unat_lt_2p32 [of a] by (intro less_mult_imp_div_less) linarith
  ultimately show ?thesis by simp
qed

lemma unat_PTX: "unat (PTX a) = unat a div 4096 mod 1024"
proof -
  have m: "(0x3FF :: u32) = mask 10"
    by (simp add: mask_eq_exp_minus_1)
  show ?thesis
    unfolding PTX_def m unat_mask_and unat_drop_bit_u32 by simp
qed

lemma unat_PGOFF: "unat (PGOFF a) = unat a mod 4096"
proof -
  have m: "(0xFFF :: u32) = mask 12"
    by (simp add: mask_eq_exp_minus_1)
  show ?thesis
    unfolding PGOFF_def m unat_mask_and by simp
qed

lemma address_parts:
  "unat a = unat (PDX a) * 4194304 + unat (PTX a) * 4096 + unat (PGOFF a)"
proof -
  have "unat a = unat a div 4096 * 4096 + unat a mod 4096"
    by simp
  moreover have "unat a div 4096 = unat a div 4096 div 1024 * 1024 + unat a div 4096 mod 1024"
    by (simp del: div_mult2_eq)
  moreover have "unat a div 4096 div 1024 = unat a div 4194304"
    by (simp flip: div_mult2_eq)
  ultimately show ?thesis
    unfolding unat_PDX unat_PTX unat_PGOFF by linarith
qed

lemma same_page:
  "PDX a = PDX b \<Longrightarrow> PTX a = PTX b \<Longrightarrow> 4096 dvd unat a \<Longrightarrow> 4096 dvd unat b \<Longrightarrow> a = b"
proof -
  assume "PDX a = PDX b" "PTX a = PTX b" "4096 dvd unat a" "4096 dvd unat b"
  then have "unat (PDX a) = unat (PDX b)" "unat (PTX a) = unat (PTX b)"
    "unat (PGOFF a) = 0" "unat (PGOFF b) = 0"
    by (simp_all only: unat_PGOFF dvd_eq_mod_eq_0)
  then have "unat a = unat b"
    using address_parts [of a] address_parts [of b] by linarith
  then show "a = b"
    by (simp only: u32_eq_iff)
qed

section \<open>Loops over pages\<close>

text \<open>
  The loops \<^verbatim>\<open>for (uint32 i = sva; i < eva; i += PAGE_SIZE)\<close>, without and with an
  early return from the body.
\<close>

function for_pages :: "u32 \<Rightarrow> u32 \<Rightarrow> (u32 \<Rightarrow> 's \<Rightarrow> 's result) \<Rightarrow> 's \<Rightarrow> 's result" where
  "for_pages i eva body s =
     (if i < eva then
        andthen (body i s) (\<lambda>s.
          if i < i + PAGE_SIZE then for_pages (i + PAGE_SIZE) eva body s else Inl Counter_Wrap)
      else Inr s)"
  by pat_completeness auto

termination
  by (relation "measure (\<lambda>(i, eva, body, s). unat eva - unat i)")
    (auto simp: word_less_nat_alt)

function scan_pages :: "u32 \<Rightarrow> u32 \<Rightarrow> (u32 \<Rightarrow> bool result) \<Rightarrow> bool result" where
  "scan_pages i eva hit =
     (if i < eva then
        andthen (hit i) (\<lambda>h.
          if h then Inr True
          else if i < i + PAGE_SIZE then scan_pages (i + PAGE_SIZE) eva hit else Inl Counter_Wrap)
      else Inr False)"
  by pat_completeness auto

termination
  by (relation "measure (\<lambda>(i, eva, hit). unat eva - unat i)")
    (auto simp: word_less_nat_alt)

declare for_pages.simps [simp del] scan_pages.simps [simp del]

fun for_each :: "('a \<Rightarrow> 's \<Rightarrow> 's result) \<Rightarrow> 'a list \<Rightarrow> 's \<Rightarrow> 's result" where
  "for_each body [] s = Inr s"
| "for_each body (x # xs) s = andthen (body x s) (for_each body xs)"

fun scan_each :: "('a \<Rightarrow> bool result) \<Rightarrow> 'a list \<Rightarrow> bool result" where
  "scan_each hit [] = Inr False"
| "scan_each hit (x # xs) = andthen (hit x) (\<lambda>h. if h then Inr True else scan_each hit xs)"

text \<open>The \<open>n\<close> pages from \<open>sva\<close> on.\<close>

fun page_list :: "u32 \<Rightarrow> nat \<Rightarrow> u32 list" where
  "page_list i 0 = []"
| "page_list i (Suc n) = i # page_list (i + PAGE_SIZE) n"

lemma page_list_eq: "page_list i n = map (\<lambda>k. i + of_nat k * PAGE_SIZE) [0..<n]"
proof (induction n arbitrary: i)
  case (Suc n)
  have "[0..<Suc n] = 0 # map Suc [0..<n]"
    by (simp add: map_Suc_upt upt_conv_Cons del: upt_Suc)
  then show ?case
    by (simp add: Suc algebra_simps del: upt_Suc)
qed simp

lemma page_step:
  assumes "unat i + 4096 * Suc n < 4294967296"
  shows "unat (i + PAGE_SIZE) = unat i + 4096" and "i < i + PAGE_SIZE"
    and "i + of_nat (Suc n) * PAGE_SIZE = (i + PAGE_SIZE) + of_nat n * PAGE_SIZE"
    and "i < i + of_nat (Suc n) * PAGE_SIZE"
proof -
  show 1: "unat (i + PAGE_SIZE) = unat i + 4096"
    using assms by (subst unat_add_u32) simp_all
  then show "i < i + PAGE_SIZE"
    by (simp add: word_less_nat_alt)
  show "i + of_nat (Suc n) * PAGE_SIZE = (i + PAGE_SIZE) + of_nat n * PAGE_SIZE"
    by (simp add: algebra_simps)
  have "unat (of_nat (Suc n) * PAGE_SIZE) = Suc n * 4096"
    using assms by (simp add: unat_word_ariths unat_of_nat del: of_nat_Suc)
  then have "unat (i + of_nat (Suc n) * PAGE_SIZE) = unat i + Suc n * 4096"
    using assms by (subst unat_add_u32) (simp_all del: of_nat_Suc)
  then show "i < i + of_nat (Suc n) * PAGE_SIZE"
    by (simp add: word_less_nat_alt del: of_nat_Suc)
qed

lemma for_pages_list:
  "unat i + 4096 * n < 4294967296 \<Longrightarrow>
   for_pages i (i + of_nat n * PAGE_SIZE) body s = for_each body (page_list i n) s"
proof (induction n arbitrary: i s)
  case 0
  then show ?case by (simp add: for_pages.simps)
next
  case (Suc n)
  note st = page_step [OF Suc.prems]
  have "for_pages i (i + of_nat (Suc n) * PAGE_SIZE) body s =
      andthen (body i s) (for_pages (i + PAGE_SIZE) (i + of_nat (Suc n) * PAGE_SIZE) body)"
    using st(2,4) by (subst for_pages.simps) simp
  also have "\<dots> = andthen (body i s) (for_each body (page_list (i + PAGE_SIZE) n))"
    using Suc.IH [of "i + PAGE_SIZE"] Suc.prems by (simp only: st(3)) (simp add: st(1) cong: andthen_cong)
  finally show ?case by simp
qed

lemma scan_pages_list:
  "unat i + 4096 * n < 4294967296 \<Longrightarrow>
   scan_pages i (i + of_nat n * PAGE_SIZE) hit = scan_each hit (page_list i n)"
proof (induction n arbitrary: i)
  case 0
  then show ?case by (simp add: scan_pages.simps)
next
  case (Suc n)
  note st = page_step [OF Suc.prems]
  have "scan_pages i (i + of_nat (Suc n) * PAGE_SIZE) hit =
      andthen (hit i) (\<lambda>h. if h then Inr True
        else scan_pages (i + PAGE_SIZE) (i + of_nat (Suc n) * PAGE_SIZE) hit)"
    using st(2,4) by (subst scan_pages.simps) simp
  also have "\<dots> = andthen (hit i) (\<lambda>h. if h then Inr True else scan_each hit (page_list (i + PAGE_SIZE) n))"
    using Suc.IH [of "i + PAGE_SIZE"] Suc.prems by (simp only: st(3)) (simp add: st(1) cong: if_cong)
  finally show ?case by simp
qed

lemma scan_each_True:
  "scan_each hit xs = Inr False \<longleftrightarrow> (\<forall>x\<in>set xs. hit x = Inr False)"
  by (induction xs) auto

lemma for_each_append: "for_each body (xs @ ys) s = andthen (for_each body xs s) (for_each body ys)"
  by (induction xs arbitrary: s) (auto simp: andthen_def split: sum.splits)

end
