(* ===== verification/Fos_Queue.thy ===== *)
theory Fos_Queue
  imports Fos_Base
begin

text \<open>
  The intrusive doubly linked lists of \<^verbatim>\<open>inc/queue.h\<close>, at the level of the
  pointers the macros assign. A struct is named by a number (its address), a link field by
  \<open>nat option\<close> with \<open>None\<close> for NULL; the link fields of all structs are one heap
  \<open>nat \<Rightarrow> links\<close>, so two lists over the same structs share it as they do in the
  kernel. The relation \<open>dll\<close> says which list of elements a head represents; every macro
  is shown to refine the corresponding operation on HOL lists. The second half states that
  contract as a locale, which the macros and the plain list operations both satisfy; the
  other theories use the plain list operations.
\<close>

section \<open>List heads, links and macros\<close>

record links =
  le_next :: "nat option"
  le_prev :: "nat option"

record qhead =
  lh_first :: "nat option"
  lh_last :: "nat option"
  ptr_next :: "nat option"
  lh_size :: u32

type_synonym heap = "nat \<Rightarrow> links"

definition set_next :: "heap \<Rightarrow> nat \<Rightarrow> nat option \<Rightarrow> heap" where
  "set_next h x v = h(x := (h x)\<lparr>le_next := v\<rparr>)"

definition set_prev :: "heap \<Rightarrow> nat \<Rightarrow> nat option \<Rightarrow> heap" where
  "set_prev h x v = h(x := (h x)\<lparr>le_prev := v\<rparr>)"

definition LIST_INIT :: "qhead \<Rightarrow> qhead" where
  "LIST_INIT q = q\<lparr>lh_first := None, lh_last := None, lh_size := 0\<rparr>"

definition LIST_EMPTY :: "qhead \<Rightarrow> bool" where
  "LIST_EMPTY q \<longleftrightarrow> lh_first q = None"

definition LIST_INSERT_AFTER ::
    "heap \<Rightarrow> qhead \<Rightarrow> nat option \<Rightarrow> nat option \<Rightarrow> (heap \<times> qhead) result" where
  "LIST_INSERT_AFTER h q listelm elm =
     (case (listelm, elm) of
        (Some l, Some e) \<Rightarrow>
          (let h = set_next h e (le_next (h l));
               h = (case le_next (h l) of None \<Rightarrow> h | Some n \<Rightarrow> set_prev h n (Some e));
               h = set_next h l (Some e);
               h = set_prev h e (Some l);
               q = (if le_next (h e) = None then q\<lparr>lh_last := Some e\<rparr> else q)
           in Inr (h, q\<lparr>lh_size := lh_size q + 1\<rparr>))
      | _ \<Rightarrow> Inl Panic)"

definition LIST_INSERT_BEFORE ::
    "heap \<Rightarrow> qhead \<Rightarrow> nat option \<Rightarrow> nat option \<Rightarrow> (heap \<times> qhead) result" where
  "LIST_INSERT_BEFORE h q listelm elm =
     (case (listelm, elm) of
        (Some l, Some e) \<Rightarrow>
          (let h = set_prev h e (le_prev (h l));
               h = set_next h e (Some l);
               (h, q) = (case le_prev (h l) of
                           Some p \<Rightarrow> (set_next h p (Some e), q)
                         | None \<Rightarrow> (h, q\<lparr>lh_first := Some e\<rparr>));
               h = set_prev h l (Some e)
           in Inr (h, q\<lparr>lh_size := lh_size q + 1\<rparr>))
      | _ \<Rightarrow> Inl Panic)"

definition LIST_INSERT_HEAD :: "heap \<Rightarrow> qhead \<Rightarrow> nat option \<Rightarrow> (heap \<times> qhead) result" where
  "LIST_INSERT_HEAD h q elm =
     (case elm of
        None \<Rightarrow> Inl Panic
      | Some e \<Rightarrow>
          (let h = set_next h e (lh_first q);
               (h, q) = (case lh_first q of
                           Some f \<Rightarrow> (set_prev h f (Some e), q)
                         | None \<Rightarrow> (h, q\<lparr>lh_last := Some e\<rparr>));
               q = q\<lparr>lh_first := Some e\<rparr>;
               h = set_prev h e None
           in Inr (h, q\<lparr>lh_size := lh_size q + 1\<rparr>)))"

definition LIST_INSERT_TAIL :: "heap \<Rightarrow> qhead \<Rightarrow> nat option \<Rightarrow> (heap \<times> qhead) result" where
  "LIST_INSERT_TAIL h q elm =
     (case elm of
        None \<Rightarrow> Inl Panic
      | Some e \<Rightarrow>
          (let h = set_prev h e (lh_last q);
               (h, q) = (case lh_last q of
                           Some l \<Rightarrow> (set_next h l (Some e), q)
                         | None \<Rightarrow> (h, q\<lparr>lh_first := Some e\<rparr>));
               q = q\<lparr>lh_last := Some e\<rparr>;
               h = set_next h e None
           in Inr (h, q\<lparr>lh_size := lh_size q + 1\<rparr>)))"

definition LIST_REMOVE :: "heap \<Rightarrow> qhead \<Rightarrow> nat option \<Rightarrow> (heap \<times> qhead) result" where
  "LIST_REMOVE h q elm =
     (case elm of
        None \<Rightarrow> Inl Panic
      | Some e \<Rightarrow>
          (let (h, q) = (case le_next (h e) of
                           Some n \<Rightarrow> (set_prev h n (le_prev (h e)), q)
                         | None \<Rightarrow> (h, q\<lparr>lh_last := le_prev (h e)\<rparr>));
               (h, q) = (case le_prev (h e) of
                           Some p \<Rightarrow> (set_next h p (le_next (h e)), q)
                         | None \<Rightarrow> (h, q\<lparr>lh_first := le_next (h e)\<rparr>));
               h = set_next h e None;
               h = set_prev h e None
           in Inr (h, q\<lparr>lh_size := lh_size q - 1\<rparr>)))"

text \<open>
  \<^verbatim>\<open>LIST_CONCAT\<close> writes through \<^verbatim>\<open>LIST_LAST(list1)\<close> without a check.
\<close>

definition LIST_CONCAT :: "heap \<Rightarrow> qhead \<Rightarrow> qhead \<Rightarrow> (heap \<times> qhead \<times> qhead) result" where
  "LIST_CONCAT h q1 q2 =
     andthen
       (if lh_first q1 = None then
          Inr (h, q1\<lparr>lh_first := lh_first q2, lh_last := lh_last q2\<rparr>, q2)
        else (case lh_first q2 of
          None \<Rightarrow> Inr (h, q1, q2)
        | Some f2 \<Rightarrow> (case lh_last q1 of
              None \<Rightarrow> Inl Null_Deref
            | Some l1 \<Rightarrow>
                Inr (set_prev (set_next h l1 (Some f2)) f2 (Some l1),
                     q1\<lparr>lh_last := lh_last q2\<rparr>, LIST_INIT q2))))
       (\<lambda>(h, q1, q2). Inr (h, q1\<lparr>lh_size := lh_size q1 + lh_size q2\<rparr>, q2))"

text \<open>
  \<^verbatim>\<open>LIST_FOREACH\<close>: the successor is read into \<^verbatim>\<open>___ptr_next\<close> of the head
  before the body runs, so the body may remove the current element. A step of the loop
  consumes one unit of fuel; \<open>None\<close> is "did not end within the fuel".
\<close>

fun LIST_FOREACH ::
    "nat \<Rightarrow> (nat \<Rightarrow> heap \<times> qhead \<times> 'a \<Rightarrow> (heap \<times> qhead \<times> 'a) result) \<Rightarrow> nat option \<Rightarrow>
     heap \<times> qhead \<times> 'a \<Rightarrow> (heap \<times> qhead \<times> 'a) result option" where
  "LIST_FOREACH 0 body var st = None"
| "LIST_FOREACH (Suc n) body var (h, q, a) =
     (let nxt = (case var of None \<Rightarrow> None | Some v \<Rightarrow> le_next (h v));
          q = q\<lparr>ptr_next := nxt\<rparr>
      in case var of
           None \<Rightarrow> Some (Inr (h, q, a))
         | Some v \<Rightarrow>
             (case body v (h, q, a) of
                Inl e \<Rightarrow> Some (Inl e)
              | Inr (h', q', a') \<Rightarrow> LIST_FOREACH n body (ptr_next q') (h', q', a')))"

section \<open>Which list a head represents\<close>

fun first_opt :: "nat list \<Rightarrow> nat option \<Rightarrow> nat option" where
  "first_opt [] n = n"
| "first_opt (x # xs) n = Some x"

definition last_opt :: "nat option \<Rightarrow> nat list \<Rightarrow> nat option" where
  "last_opt p xs = (if xs = [] then p else Some (last xs))"

fun seg :: "heap \<Rightarrow> nat option \<Rightarrow> nat list \<Rightarrow> nat option \<Rightarrow> bool" where
  "seg h p [] n \<longleftrightarrow> True"
| "seg h p (x # xs) n \<longleftrightarrow>
     le_prev (h x) = p \<and> le_next (h x) = first_opt xs n \<and> seg h (Some x) xs n"

definition dll :: "heap \<Rightarrow> qhead \<Rightarrow> nat list \<Rightarrow> bool" where
  "dll h q xs \<longleftrightarrow> distinct xs \<and> seg h None xs None \<and>
     lh_first q = first_opt xs None \<and> lh_last q = last_opt None xs \<and>
     lh_size q = of_nat (length xs)"

lemma last_opt_simps [simp]:
  "last_opt p [] = p"
  "last_opt p (x # xs) = last_opt (Some x) xs"
  "last_opt p (xs @ [x]) = Some x"
  by (auto simp: last_opt_def)

lemma first_opt_append [simp]: "first_opt (xs @ ys) n = first_opt xs (first_opt ys n)"
  by (cases xs) auto

lemma last_opt_append [simp]: "last_opt p (xs @ ys) = last_opt (last_opt p xs) ys"
  by (auto simp: last_opt_def)

lemma first_opt_None [simp]: "first_opt xs None = None \<longleftrightarrow> xs = []"
  by (cases xs) auto

lemma last_opt_None [simp]: "last_opt None xs = None \<longleftrightarrow> xs = []"
  by (auto simp: last_opt_def)

lemma seg_append [simp]:
  "seg h p (xs @ ys) n \<longleftrightarrow> seg h p xs (first_opt ys n) \<and> seg h (last_opt p xs) ys n"
  by (induction xs arbitrary: p) auto

lemma seg_other: "x \<notin> set xs \<Longrightarrow> seg (h(x := v)) p xs n = seg h p xs n"
  by (induction xs arbitrary: p) auto

lemma links_set [simp]:
  "x \<noteq> y \<Longrightarrow> set_next h x v y = h y"
  "x \<noteq> y \<Longrightarrow> set_prev h x v y = h y"
  "le_next (set_next h x v x) = v"
  "le_prev (set_next h x v x) = le_prev (h x)"
  "le_prev (set_prev h x v x) = v"
  "le_next (set_prev h x v x) = le_next (h x)"
  by (auto simp: set_next_def set_prev_def)

lemma links_set_same [simp]:
  "le_prev (set_next h x v y) = le_prev (h y)"
  "le_next (set_prev h x v y) = le_next (h y)"
  by (auto simp: set_next_def set_prev_def)

lemma seg_set [simp]:
  "x \<notin> set xs \<Longrightarrow> seg (set_next h x v) p xs n = seg h p xs n"
  "x \<notin> set xs \<Longrightarrow> seg (set_prev h x v) p xs n = seg h p xs n"
  by (simp_all add: set_next_def set_prev_def seg_other)

section \<open>Every macro refines the operation on lists\<close>

lemma dll_empty: "dll h (LIST_INIT q) []"
  by (simp add: dll_def LIST_INIT_def)

lemma dll_LIST_EMPTY: "dll h q xs \<Longrightarrow> LIST_EMPTY q \<longleftrightarrow> xs = []"
  by (simp add: dll_def LIST_EMPTY_def)

lemma dll_cong: "(\<And>x. x \<in> set xs \<Longrightarrow> h' x = h x) \<Longrightarrow> dll h q xs \<Longrightarrow> dll h' q xs"
proof -
  have "(\<And>x. x \<in> set xs \<Longrightarrow> h' x = h x) \<Longrightarrow> seg h' p xs n = seg h p xs n" for p n
    by (induction xs arbitrary: p) auto
  then show "(\<And>x. x \<in> set xs \<Longrightarrow> h' x = h x) \<Longrightarrow> dll h q xs \<Longrightarrow> dll h' q xs"
    by (simp add: dll_def)
qed

lemma LIST_INSERT_HEAD_refines:
  assumes "dll h q xs" and "e \<notin> set xs"
  shows "\<exists>h' q'. LIST_INSERT_HEAD h q (Some e) = Inr (h', q') \<and> dll h' q' (e # xs) \<and>
           (\<forall>y. y \<notin> set (e # xs) \<longrightarrow> h' y = h y)"
  using assms
  by (cases xs) (auto simp: LIST_INSERT_HEAD_def dll_def last_opt_def)

lemma LIST_INSERT_TAIL_refines:
  assumes "dll h q xs" and "e \<notin> set xs"
  shows "\<exists>h' q'. LIST_INSERT_TAIL h q (Some e) = Inr (h', q') \<and> dll h' q' (xs @ [e]) \<and>
           (\<forall>y. y \<notin> set (xs @ [e]) \<longrightarrow> h' y = h y)"
  using assms
  by (cases xs rule: rev_cases) (auto simp: LIST_INSERT_TAIL_def dll_def)

lemma LIST_INSERT_AFTER_refines:
  assumes "dll h q (xs @ l # ys)" and "e \<notin> set (xs @ l # ys)"
  shows "\<exists>h' q'. LIST_INSERT_AFTER h q (Some l) (Some e) = Inr (h', q') \<and>
           dll h' q' (xs @ l # e # ys) \<and> (\<forall>y. y \<notin> set (xs @ l # e # ys) \<longrightarrow> h' y = h y)"
  using assms
  by (cases ys) (auto simp: LIST_INSERT_AFTER_def dll_def Let_def last_opt_def)

lemma LIST_INSERT_BEFORE_refines:
  assumes "dll h q (xs @ l # ys)" and "e \<notin> set (xs @ l # ys)"
  shows "\<exists>h' q'. LIST_INSERT_BEFORE h q (Some l) (Some e) = Inr (h', q') \<and>
           dll h' q' (xs @ e # l # ys) \<and> (\<forall>y. y \<notin> set (xs @ e # l # ys) \<longrightarrow> h' y = h y)"
  using assms
  by (cases xs rule: rev_cases) (auto simp: LIST_INSERT_BEFORE_def dll_def)

lemma LIST_REMOVE_refines:
  assumes "dll h q (xs @ e # ys)"
  shows "\<exists>h' q'. LIST_REMOVE h q (Some e) = Inr (h', q') \<and> dll h' q' (xs @ ys) \<and>
           le_next (h' e) = None \<and> le_prev (h' e) = None \<and>
           (\<forall>y. y \<notin> set (xs @ e # ys) \<longrightarrow> h' y = h y)"
  using assms
  by (cases ys; cases xs rule: rev_cases)
    (auto simp: LIST_REMOVE_def dll_def)

text \<open>
  Concatenation links the two lists correctly. When both are non-empty, though, the second
  head is reset before its size is added, so the recorded size does not grow.
\<close>

lemma LIST_CONCAT_links:
  assumes "dll h q1 xs" and "dll h q2 ys" and "xs \<noteq> []" and "ys \<noteq> []"
    and "set xs \<inter> set ys = {}"
  shows "\<exists>h' q1' q2'. LIST_CONCAT h q1 q2 = Inr (h', q1', q2') \<and>
           distinct (xs @ ys) \<and> seg h' None (xs @ ys) None \<and>
           lh_first q1' = first_opt (xs @ ys) None \<and> lh_last q1' = last_opt None (xs @ ys) \<and>
           lh_size q1' = of_nat (length xs) \<and> dll h' q2' []"
proof -
  obtain f ys' where ys: "ys = f # ys'"
    using assms(4) by (cases ys) auto
  obtain xs' l where xs: "xs = xs' @ [l]"
    using assms(3) by (cases xs rule: rev_cases) auto
  have "f \<noteq> l" and "f \<notin> set xs'" and "l \<notin> set ys'"
    using assms(5) by (auto simp: xs ys)
  with assms show ?thesis
    by (cases xs') (auto simp: xs ys LIST_CONCAT_def dll_def LIST_INIT_def last_opt_def)
qed

text \<open>
  The loop visits exactly the elements of the list, in order, also when its body removes
  some of them: the elements chosen by \<open>P\<close> are gone after the loop. One unit of fuel per
  element and one for the last test are enough.
\<close>

definition remove_body ::
    "(nat \<Rightarrow> bool) \<Rightarrow> (nat \<Rightarrow> 'a \<Rightarrow> 'a) \<Rightarrow> nat \<Rightarrow> heap \<times> qhead \<times> 'a \<Rightarrow>
     (heap \<times> qhead \<times> 'a) result" where
  "remove_body P f v st =
     (case st of (h, q, a) \<Rightarrow>
        if P v then andthen (LIST_REMOVE h q (Some v)) (\<lambda>(h, q). Inr (h, q, f v a))
        else Inr (h, q, f v a))"

lemma dll_ptr_next [simp]: "dll h (q\<lparr>ptr_next := v\<rparr>) xs = dll h q xs"
  by (simp add: dll_def)

lemma LIST_REMOVE_ptr_next:
  "LIST_REMOVE h q (Some v) = Inr (h', q') \<Longrightarrow> ptr_next q' = ptr_next q"
  by (auto simp: LIST_REMOVE_def Let_def split: option.splits)

lemma dll_split_next:
  "dll h q (xs @ v # ys) \<Longrightarrow> le_next (h v) = first_opt ys None"
  by (simp add: dll_def)

lemma LIST_FOREACH_remove_suffix:
  assumes "dll h q (xs @ ys)"
  shows "\<exists>h' q'. LIST_FOREACH (Suc (length ys)) (remove_body P f) (first_opt ys None) (h, q, a) =
            Some (Inr (h', q', fold f ys a)) \<and> dll h' q' (xs @ filter (\<lambda>y. \<not> P y) ys)"
  using assms
proof (induction ys arbitrary: h q a xs)
  case Nil
  then show ?case by simp
next
  case (Cons v ys)
  let ?q = "q\<lparr>ptr_next := first_opt ys None\<rparr>"
  have nxt: "le_next (h v) = first_opt ys None"
    using Cons.prems by (rule dll_split_next)
  have q: "dll h ?q (xs @ v # ys)"
    using Cons.prems by simp
  show ?case
  proof (cases "P v")
    case True
    obtain h' q' where rm: "LIST_REMOVE h ?q (Some v) = Inr (h', q')"
      and d: "dll h' q' (xs @ ys)"
      using LIST_REMOVE_refines [OF q] by blast
    have "ptr_next q' = first_opt ys None"
      using LIST_REMOVE_ptr_next [OF rm] by simp
    with Cons.IH [OF d, of "f v a"] rm True show ?thesis
      by (auto simp: nxt remove_body_def simp del: LIST_FOREACH.simps(2)
        simp: LIST_FOREACH.simps(2) [of _ _ "Some v"])
  next
    case False
    have "dll h ?q ((xs @ [v]) @ ys)"
      using q by simp
    from Cons.IH [OF this, of "f v a"] False show ?thesis
      by (auto simp: nxt remove_body_def simp del: LIST_FOREACH.simps(2)
        simp: LIST_FOREACH.simps(2) [of _ _ "Some v"])
  qed
qed

lemma LIST_FOREACH_remove:
  assumes "dll h q xs"
  shows "\<exists>h' q'. LIST_FOREACH (Suc (length xs)) (remove_body P f) (lh_first q) (h, q, a) =
            Some (Inr (h', q', fold f xs a)) \<and> dll h' q' (filter (\<lambda>y. \<not> P y) xs)"
proof -
  have "lh_first q = first_opt xs None"
    using assms by (simp add: dll_def)
  then show ?thesis
    using LIST_FOREACH_remove_suffix [of h q "[]" xs P f a] assms by simp
qed

section \<open>The list contract as an interface\<close>

text \<open>
  The operations on plain lists that the other theories use. Inserting an element that is
  already on the list, or removing one that is not, would corrupt the links.
\<close>

definition list_insert_head :: "nat list \<Rightarrow> nat option \<Rightarrow> nat list result" where
  "list_insert_head xs elm =
     (case elm of None \<Rightarrow> Inl Panic | Some e \<Rightarrow> if e \<in> set xs then Inl Bad_Link else Inr (e # xs))"

definition list_insert_tail :: "nat list \<Rightarrow> nat option \<Rightarrow> nat list result" where
  "list_insert_tail xs elm =
     (case elm of None \<Rightarrow> Inl Panic | Some e \<Rightarrow> if e \<in> set xs then Inl Bad_Link else Inr (xs @ [e]))"

fun insert_after_in :: "nat \<Rightarrow> nat \<Rightarrow> nat list \<Rightarrow> nat list" where
  "insert_after_in l e [] = []"
| "insert_after_in l e (x # xs) = (if x = l then x # e # xs else x # insert_after_in l e xs)"

fun insert_before_in :: "nat \<Rightarrow> nat \<Rightarrow> nat list \<Rightarrow> nat list" where
  "insert_before_in l e [] = []"
| "insert_before_in l e (x # xs) = (if x = l then e # x # xs else x # insert_before_in l e xs)"

definition list_insert_after :: "nat list \<Rightarrow> nat option \<Rightarrow> nat option \<Rightarrow> nat list result" where
  "list_insert_after xs listelm elm =
     (case (listelm, elm) of
        (Some l, Some e) \<Rightarrow>
          if l \<in> set xs \<and> e \<notin> set xs then Inr (insert_after_in l e xs) else Inl Bad_Link
      | _ \<Rightarrow> Inl Panic)"

definition list_insert_before :: "nat list \<Rightarrow> nat option \<Rightarrow> nat option \<Rightarrow> nat list result" where
  "list_insert_before xs listelm elm =
     (case (listelm, elm) of
        (Some l, Some e) \<Rightarrow>
          if l \<in> set xs \<and> e \<notin> set xs then Inr (insert_before_in l e xs) else Inl Bad_Link
      | _ \<Rightarrow> Inl Panic)"

definition list_remove :: "nat list \<Rightarrow> nat option \<Rightarrow> nat list result" where
  "list_remove xs elm =
     (case elm of None \<Rightarrow> Inl Panic | Some e \<Rightarrow> if e \<in> set xs then Inr (remove1 e xs) else Inl Bad_Link)"

definition list_first :: "nat list \<Rightarrow> nat option" where
  "list_first xs = first_opt xs None"

definition list_last :: "nat list \<Rightarrow> nat option" where
  "list_last xs = last_opt None xs"

text \<open>
  Insertion at the head and removal from the tail, the way the scheduler uses its queues,
  over any implementation of the lists.
\<close>

fun enqueue_all :: "('s \<Rightarrow> nat option \<Rightarrow> 's result) \<Rightarrow> nat list \<Rightarrow> 's \<Rightarrow> 's result" where
  "enqueue_all ins [] s = Inr s"
| "enqueue_all ins (e # es) s = andthen (ins s (Some e)) (enqueue_all ins es)"

definition dequeue_last ::
    "('s \<Rightarrow> nat option) \<Rightarrow> ('s \<Rightarrow> nat option \<Rightarrow> 's result) \<Rightarrow> 's \<Rightarrow> (nat option \<times> 's) result" where
  "dequeue_last lst rm s =
     (case lst s of
        None \<Rightarrow> Inr (None, s)
      | Some e \<Rightarrow> andthen (rm s (Some e)) (\<lambda>s'. Inr (Some e, s')))"

fun drain ::
    "('s \<Rightarrow> nat option) \<Rightarrow> ('s \<Rightarrow> nat option \<Rightarrow> 's result) \<Rightarrow> nat \<Rightarrow> 's \<Rightarrow> (nat option list \<times> 's) result"
  where
  "drain lst rm 0 s = Inr ([], s)"
| "drain lst rm (Suc n) s =
     andthen (dequeue_last lst rm s) (\<lambda>(e, s).
     andthen (drain lst rm n s) (\<lambda>(es, s). Inr (e # es, s)))"

locale list_impl =
  fixes rep :: "'s \<Rightarrow> nat list \<Rightarrow> bool"
    and ins_head :: "'s \<Rightarrow> nat option \<Rightarrow> 's result"
    and ins_tail :: "'s \<Rightarrow> nat option \<Rightarrow> 's result"
    and ins_after :: "'s \<Rightarrow> nat option \<Rightarrow> nat option \<Rightarrow> 's result"
    and ins_before :: "'s \<Rightarrow> nat option \<Rightarrow> nat option \<Rightarrow> 's result"
    and rm :: "'s \<Rightarrow> nat option \<Rightarrow> 's result"
    and fst_of :: "'s \<Rightarrow> nat option"
    and lst_of :: "'s \<Rightarrow> nat option"
  assumes rep_distinct: "rep s xs \<Longrightarrow> distinct xs"
    and rep_first: "rep s xs \<Longrightarrow> fst_of s = first_opt xs None"
    and rep_last: "rep s xs \<Longrightarrow> lst_of s = last_opt None xs"
    and rep_ins_head:
      "rep s xs \<Longrightarrow> e \<notin> set xs \<Longrightarrow> \<exists>s'. ins_head s (Some e) = Inr s' \<and> rep s' (e # xs)"
    and rep_ins_tail:
      "rep s xs \<Longrightarrow> e \<notin> set xs \<Longrightarrow> \<exists>s'. ins_tail s (Some e) = Inr s' \<and> rep s' (xs @ [e])"
    and rep_ins_after:
      "rep s (xs @ l # ys) \<Longrightarrow> e \<notin> set (xs @ l # ys) \<Longrightarrow>
       \<exists>s'. ins_after s (Some l) (Some e) = Inr s' \<and> rep s' (xs @ l # e # ys)"
    and rep_ins_before:
      "rep s (xs @ l # ys) \<Longrightarrow> e \<notin> set (xs @ l # ys) \<Longrightarrow>
       \<exists>s'. ins_before s (Some l) (Some e) = Inr s' \<and> rep s' (xs @ e # l # ys)"
    and rep_rm:
      "rep s xs \<Longrightarrow> e \<in> set xs \<Longrightarrow> \<exists>s'. rm s (Some e) = Inr s' \<and> rep s' (remove1 e xs)"
    and null_panics: "ins_head s None = Inl Panic" "ins_tail s None = Inl Panic" "rm s None = Inl Panic"
begin

lemma enqueue_all_rep:
  "rep s xs \<Longrightarrow> distinct es \<Longrightarrow> set es \<inter> set xs = {} \<Longrightarrow>
   \<exists>s'. enqueue_all ins_head es s = Inr s' \<and> rep s' (rev es @ xs)"
proof (induction es arbitrary: s xs)
  case Nil
  then show ?case by simp
next
  case (Cons e es)
  obtain s1 where s1: "ins_head s (Some e) = Inr s1" "rep s1 (e # xs)"
    using rep_ins_head [OF Cons.prems(1)] Cons.prems(3) by fastforce
  have "set es \<inter> set (e # xs) = {}"
    using Cons.prems(2,3) by auto
  from Cons.IH [OF s1(2) _ this] Cons.prems(2) s1(1) show ?case
    by simp
qed

lemma dequeue_last_empty: "rep s [] \<Longrightarrow> dequeue_last lst_of rm s = Inr (None, s)"
  by (simp add: dequeue_last_def rep_last)

lemma dequeue_last_rep:
  assumes "rep s (xs @ [e])"
  shows "\<exists>s'. dequeue_last lst_of rm s = Inr (Some e, s') \<and> rep s' xs"
proof -
  have "e \<notin> set xs"
    using rep_distinct [OF assms] by simp
  then have "remove1 e (xs @ [e]) = xs"
    by (simp add: remove1_append)
  with rep_rm [OF assms, of e] rep_last [OF assms] show ?thesis
    by (auto simp: dequeue_last_def)
qed

lemma drain_rep:
  "rep s (ys @ rev es) \<Longrightarrow> \<exists>s'. drain lst_of rm (length es) s = Inr (map Some es, s') \<and> rep s' ys"
proof (induction es arbitrary: s)
  case Nil
  then show ?case by simp
next
  case (Cons e es)
  have "rep s ((ys @ rev es) @ [e])"
    using Cons.prems by simp
  then obtain s1 where s1: "dequeue_last lst_of rm s = Inr (Some e, s1)" "rep s1 (ys @ rev es)"
    using dequeue_last_rep by blast
  from Cons.IH [OF s1(2)] s1(1) show ?case
    by auto
qed

lemma fifo:
  assumes "rep s []" and "distinct es"
  shows "\<exists>s1 s2. enqueue_all ins_head es s = Inr s1 \<and>
           drain lst_of rm (length es) s1 = Inr (map Some es, s2) \<and> rep s2 []"
proof -
  obtain s1 where s1: "enqueue_all ins_head es s = Inr s1" "rep s1 (rev es)"
    using enqueue_all_rep [OF assms(1,2)] by auto
  obtain s2 where "drain lst_of rm (length es) s1 = Inr (map Some es, s2)" "rep s2 []"
    using drain_rep [of s1 "[]" es] s1(2) by auto
  with s1(1) show ?thesis by blast
qed

end

definition dll_rep :: "heap \<times> qhead \<Rightarrow> nat list \<Rightarrow> bool" where
  "dll_rep s xs \<longleftrightarrow> (case s of (h, q) \<Rightarrow> dll h q xs)"

definition plain_rep :: "nat list \<Rightarrow> nat list \<Rightarrow> bool" where
  "plain_rep s xs \<longleftrightarrow> s = xs \<and> distinct xs"

lemma insert_in_append:
  "l \<notin> set xs \<Longrightarrow> insert_after_in l e (xs @ l # ys) = xs @ l # e # ys"
  "l \<notin> set xs \<Longrightarrow> insert_before_in l e (xs @ l # ys) = xs @ e # l # ys"
  by (induction xs) auto

lemma dll_rep_remove:
  assumes "dll_rep (h, q) xs" and "e \<in> set xs"
  shows "\<exists>s'. LIST_REMOVE h q (Some e) = Inr s' \<and> dll_rep s' (remove1 e xs)"
proof -
  obtain ys zs where xs: "xs = ys @ e # zs" and "e \<notin> set ys"
    using assms(2) by (meson split_list_first)
  with assms(1) LIST_REMOVE_refines [of h q ys e zs] show ?thesis
    by (auto simp: dll_rep_def remove1_append)
qed

interpretation dll_list: list_impl dll_rep
  "\<lambda>(h, q). LIST_INSERT_HEAD h q" "\<lambda>(h, q). LIST_INSERT_TAIL h q"
  "\<lambda>(h, q). LIST_INSERT_AFTER h q" "\<lambda>(h, q). LIST_INSERT_BEFORE h q" "\<lambda>(h, q). LIST_REMOVE h q"
  "\<lambda>(h, q). lh_first q" "\<lambda>(h, q). lh_last q"
proof (unfold_locales, goal_cases)
  case (4 s xs e)
  then show ?case
    using LIST_INSERT_HEAD_refines by (fastforce simp: dll_rep_def split: prod.splits)
next
  case (5 s xs e)
  then show ?case
    using LIST_INSERT_TAIL_refines by (fastforce simp: dll_rep_def split: prod.splits)
next
  case (6 s xs l ys e)
  then show ?case
    using LIST_INSERT_AFTER_refines by (fastforce simp: dll_rep_def split: prod.splits)
next
  case (7 s xs l ys e)
  then show ?case
    using LIST_INSERT_BEFORE_refines by (fastforce simp: dll_rep_def split: prod.splits)
next
  case (8 s xs e)
  then show ?case
    using dll_rep_remove by (fastforce split: prod.splits)
qed (auto simp: dll_rep_def dll_def LIST_INSERT_HEAD_def LIST_INSERT_TAIL_def LIST_REMOVE_def
    split: prod.splits)

interpretation plain_list: list_impl plain_rep
  list_insert_head list_insert_tail list_insert_after list_insert_before list_remove
  list_first list_last
  by unfold_locales
    (auto simp: plain_rep_def list_insert_head_def list_insert_tail_def list_insert_after_def
      list_insert_before_def insert_in_append list_remove_def list_first_def list_last_def)

end
