(* ===== verification/Dyn_Alloc.thy ===== *)
theory Dyn_Alloc
  imports Fos_Queue
begin

text \<open>
  The block allocator of \<^verbatim>\<open>lib/dynamic_allocator.c\<close>, which hands out ranges of
  virtual addresses to the kernel heap and to every user heap. The nodes
  \<^verbatim>\<open>MemBlockNodes[i]\<close> are numbered; a node carries a range
  \<^verbatim>\<open>[sva, sva + size)\<close> and is on at most one of three lists. Ranges are read as
  intervals of naturals; the free list is \<open>canonical\<close> when its intervals are non-empty,
  sorted and pairwise apart by at least one address, i.e. merged as far as possible. A
  canonical list is determined by the addresses it covers, so every operation is specified
  by its effect on that set of addresses.
\<close>

section \<open>State and operations\<close>

record dyn =
  blk_sva :: "nat \<Rightarrow> u32"
  blk_size :: "nat \<Rightarrow> u32"
  AvailableMemBlocksList :: "nat list"
  FreeMemBlocksList :: "nat list"
  AllocMemBlocksList :: "nat list"

text \<open>What \<^verbatim>\<open>print_mem_block_lists\<close> prints of a list: its ranges, and whether it is sorted.\<close>

fun print_scan :: "dyn \<Rightarrow> nat option \<Rightarrow> bool \<Rightarrow> nat list \<Rightarrow> (u32 \<times> u32) list \<times> bool" where
  "print_scan d lastBlk srt [] = ([], srt)"
| "print_scan d lastBlk srt (blk # bs) =
     (let srt = (case lastBlk of None \<Rightarrow> srt
                 | Some l \<Rightarrow> if blk_sva d blk < blk_sva d l + blk_size d l then False else srt);
          (out, s) = print_scan d (Some blk) srt bs
      in ((blk_sva d blk, blk_sva d blk + blk_size d blk) # out, s))"

definition print_mem_block_lists ::
    "dyn \<Rightarrow> ((u32 \<times> u32) list \<times> bool) \<times> ((u32 \<times> u32) list \<times> bool)" where
  "print_mem_block_lists d =
     (print_scan d None True (FreeMemBlocksList d), print_scan d None True (AllocMemBlocksList d))"

fun init_loop :: "nat list \<Rightarrow> nat list \<Rightarrow> nat list result" where
  "init_loop [] xs = Inr xs"
| "init_loop (i # is) xs = andthen (list_insert_head xs (Some i)) (init_loop is)"

definition initialize_MemBlocksList :: "nat \<Rightarrow> dyn \<Rightarrow> dyn result" where
  "initialize_MemBlocksList numOfBlocks d =
     andthen (init_loop [0..<numOfBlocks] []) (\<lambda>av. Inr (d\<lparr>AvailableMemBlocksList := av\<rparr>))"

text \<open>The list argument of \<^verbatim>\<open>find_block\<close> is ignored by the code.\<close>

fun find_loop :: "dyn \<Rightarrow> u32 \<Rightarrow> nat list \<Rightarrow> nat option" where
  "find_loop d va [] = None"
| "find_loop d va (blk # bs) = (if blk_sva d blk = va then Some blk else find_loop d va bs)"

definition find_block :: "nat list \<Rightarrow> u32 \<Rightarrow> dyn \<Rightarrow> nat option" where
  "find_block blockList va d = find_loop d va (AllocMemBlocksList d)"

fun alloc_gap :: "dyn \<Rightarrow> u32 \<Rightarrow> nat list \<Rightarrow> nat option" where
  "alloc_gap d v (blk # nxt # bs) =
     (if blk_sva d blk < v \<and> v < blk_sva d nxt then Some blk else alloc_gap d v (nxt # bs))"
| "alloc_gap d v bs = None"

definition insert_sorted_allocList :: "nat \<Rightarrow> dyn \<Rightarrow> dyn result" where
  "insert_sorted_allocList newblk d =
     (let al = AllocMemBlocksList d; v = blk_sva d newblk in
      if al = [] \<or> v < blk_sva d (hd al) then
        andthen (list_insert_head al (Some newblk)) (\<lambda>al. Inr (d\<lparr>AllocMemBlocksList := al\<rparr>))
      else if blk_sva d (last al) < v then
        andthen (list_insert_tail al (Some newblk)) (\<lambda>al. Inr (d\<lparr>AllocMemBlocksList := al\<rparr>))
      else (case alloc_gap d v al of
        None \<Rightarrow> Inr d
      | Some blk \<Rightarrow>
          andthen (list_insert_after al (Some blk) (Some newblk))
            (\<lambda>al. Inr (d\<lparr>AllocMemBlocksList := al\<rparr>))))"

text \<open>
  Splitting a larger block: the new node taken from the available list gets the low part.
  \<^verbatim>\<open>LIST_REMOVE\<close> of a NULL node panics.
\<close>

definition FF_split :: "u32 \<Rightarrow> nat option \<Rightarrow> nat \<Rightarrow> dyn \<Rightarrow> (nat option \<times> dyn) result" where
  "FF_split versize newblk blk d =
     andthen (list_remove (AvailableMemBlocksList d) newblk) (\<lambda>av.
       (case newblk of
          None \<Rightarrow> Inl Panic
        | Some n \<Rightarrow>
            (let d = d\<lparr>AvailableMemBlocksList := av\<rparr>;
                 d = d\<lparr>blk_size := (blk_size d)(n := versize)\<rparr>;
                 d = d\<lparr>blk_size := (blk_size d)(blk := blk_size d blk - versize)\<rparr>;
                 newveradd = blk_sva d blk;
                 d = d\<lparr>blk_sva := (blk_sva d)(blk := blk_sva d blk + blk_size d n)\<rparr>;
                 d = d\<lparr>blk_sva := (blk_sva d)(n := newveradd)\<rparr>
             in Inr (Some n, d))))"

definition take_exact :: "nat \<Rightarrow> dyn \<Rightarrow> (nat option \<times> dyn) result" where
  "take_exact blk d =
     andthen (list_remove (FreeMemBlocksList d) (Some blk))
       (\<lambda>fr. Inr (Some blk, d\<lparr>FreeMemBlocksList := fr\<rparr>))"

fun FF_loop :: "u32 \<Rightarrow> nat option \<Rightarrow> nat list \<Rightarrow> dyn \<Rightarrow> (nat option \<times> dyn) result" where
  "FF_loop versize newblk [] d = Inr (None, d)"
| "FF_loop versize newblk (blk # bs) d =
     (if blk_size d blk = versize then take_exact blk d
      else if versize < blk_size d blk then FF_split versize newblk blk d
      else FF_loop versize newblk bs d)"

definition alloc_block_FF :: "u32 \<Rightarrow> dyn \<Rightarrow> (nat option \<times> dyn) result" where
  "alloc_block_FF sz d =
     FF_loop sz (list_first (AvailableMemBlocksList d)) (FreeMemBlocksList d) d"

text \<open>
  Best fit runs four loops. \<open>g_size\<close> and \<open>g_addr\<close> stand for what the locals
  \<^verbatim>\<open>newsize\<close> and \<^verbatim>\<open>newveradd\<close> hold before they are assigned.
\<close>

fun BF_exact :: "u32 \<Rightarrow> nat list \<Rightarrow> dyn \<Rightarrow> nat option" where
  "BF_exact versize [] d = None"
| "BF_exact versize (blk # bs) d =
     (if blk_size d blk = versize then Some blk else BF_exact versize bs d)"

fun BF_first :: "u32 \<Rightarrow> nat list \<Rightarrow> dyn \<Rightarrow> u32 \<times> u32 \<Rightarrow> u32 \<times> u32" where
  "BF_first versize [] d g = g"
| "BF_first versize (blk # bs) d g =
     (if versize < blk_size d blk then (blk_size d blk, blk_sva d blk)
      else BF_first versize bs d g)"

fun BF_min :: "u32 \<Rightarrow> nat list \<Rightarrow> dyn \<Rightarrow> u32 \<times> u32 \<Rightarrow> u32 \<times> u32" where
  "BF_min versize [] d g = g"
| "BF_min versize (blk # bs) d g =
     BF_min versize bs d
       (if blk_size d blk < fst g \<and> versize < blk_size d blk
        then (blk_size d blk, blk_sva d blk) else g)"

definition BF_split :: "u32 \<Rightarrow> nat option \<Rightarrow> u32 \<Rightarrow> nat \<Rightarrow> dyn \<Rightarrow> (nat option \<times> dyn) result" where
  "BF_split versize newblk newveradd blk d =
     andthen (list_remove (AvailableMemBlocksList d) newblk) (\<lambda>av.
       (case newblk of
          None \<Rightarrow> Inl Panic
        | Some n \<Rightarrow>
            (let d = d\<lparr>AvailableMemBlocksList := av\<rparr>;
                 d = d\<lparr>blk_size := (blk_size d)(n := versize)\<rparr>;
                 d = d\<lparr>blk_sva := (blk_sva d)(n := newveradd)\<rparr>;
                 d = d\<lparr>blk_size := (blk_size d)(blk := blk_size d blk - versize)\<rparr>;
                 d = d\<lparr>blk_sva := (blk_sva d)(blk := blk_sva d blk + blk_size d n)\<rparr>
             in Inr (Some n, d))))"

fun BF_take :: "u32 \<Rightarrow> nat option \<Rightarrow> u32 \<times> u32 \<Rightarrow> nat list \<Rightarrow> dyn \<Rightarrow> (nat option \<times> dyn) result"
  where
  "BF_take versize newblk g [] d = Inr (None, d)"
| "BF_take versize newblk g (blk # bs) d =
     (if blk_size d blk = fst g \<and> blk_sva d blk = snd g
      then BF_split versize newblk (snd g) blk d
      else BF_take versize newblk g bs d)"

definition alloc_block_BF :: "u32 \<Rightarrow> u32 \<Rightarrow> u32 \<Rightarrow> dyn \<Rightarrow> (nat option \<times> dyn) result" where
  "alloc_block_BF g_size g_addr sz d =
     (let newblk = list_first (AvailableMemBlocksList d); fr = FreeMemBlocksList d in
      case BF_exact sz fr d of
        Some blk \<Rightarrow> take_exact blk d
      | None \<Rightarrow>
          (let g = BF_first sz fr d (g_size, g_addr);
               g = BF_min sz fr d g
           in BF_take sz newblk g fr d))"

text \<open>Next fit: the body is that of first fit, \<^verbatim>\<open>last_allocate\<close> is never used.\<close>

definition alloc_block_NF :: "u32 \<Rightarrow> dyn \<Rightarrow> (nat option \<times> dyn) result" where
  "alloc_block_NF sz d =
     FF_loop sz (list_first (AvailableMemBlocksList d)) (FreeMemBlocksList d) d"

definition addToAvailMemBlocksList :: "nat \<Rightarrow> dyn \<Rightarrow> dyn result" where
  "addToAvailMemBlocksList b d =
     (let d = d\<lparr>blk_sva := (blk_sva d)(b := 0), blk_size := (blk_size d)(b := 0)\<rparr> in
      andthen (list_insert_tail (AvailableMemBlocksList d) (Some b))
        (\<lambda>av. Inr (d\<lparr>AvailableMemBlocksList := av\<rparr>)))"

text \<open>Growing block \<open>it\<close> downwards or upwards by the inserted block \<open>b\<close>.\<close>

definition merge_next :: "nat \<Rightarrow> nat \<Rightarrow> dyn \<Rightarrow> dyn result" where
  "merge_next b it d =
     (let d = d\<lparr>blk_sva := (blk_sva d)(it := blk_sva d b)\<rparr>;
          d = d\<lparr>blk_size := (blk_size d)(it := blk_size d it + blk_size d b)\<rparr>
      in addToAvailMemBlocksList b d)"

definition merge_prev :: "nat \<Rightarrow> nat \<Rightarrow> dyn \<Rightarrow> dyn result" where
  "merge_prev b p d =
     (let d = d\<lparr>blk_size := (blk_size d)(p := blk_size d p + blk_size d b)\<rparr>
      in addToAvailMemBlocksList b d)"

definition place_before :: "nat \<Rightarrow> nat \<Rightarrow> dyn \<Rightarrow> dyn result" where
  "place_before b it d =
     andthen (list_insert_before (FreeMemBlocksList d) (Some it) (Some b))
       (\<lambda>fr. Inr (d\<lparr>FreeMemBlocksList := fr\<rparr>))"

definition merge_step :: "nat \<Rightarrow> nat option \<Rightarrow> nat \<Rightarrow> dyn \<Rightarrow> dyn result" where
  "merge_step b prev it d =
     (case prev of
        None \<Rightarrow>
          if blk_size d b + blk_sva d b = blk_sva d it then merge_next b it d
          else place_before b it d
      | Some p \<Rightarrow>
          if blk_sva d p + blk_size d p + blk_size d b = blk_sva d it then
            (let d = d\<lparr>blk_size := (blk_size d)(p := blk_size d p + blk_size d b + blk_size d it)\<rparr> in
             andthen (list_remove (FreeMemBlocksList d) (Some it)) (\<lambda>fr.
             andthen (addToAvailMemBlocksList b (d\<lparr>FreeMemBlocksList := fr\<rparr>))
               (addToAvailMemBlocksList it)))
          else if blk_sva d p + blk_size d p = blk_sva d b then merge_prev b p d
          else if blk_size d b + blk_sva d b = blk_sva d it then merge_next b it d
          else place_before b it d)"

fun merge_loop :: "nat \<Rightarrow> nat option \<Rightarrow> nat list \<Rightarrow> dyn \<Rightarrow> dyn result" where
  "merge_loop b prev [] d = Inr d"
| "merge_loop b prev (it # its) d =
     (if blk_sva d b < blk_sva d it then merge_step b prev it d
      else merge_loop b (Some it) its d)"

definition insert_sorted_with_merge_freeList :: "nat \<Rightarrow> dyn \<Rightarrow> dyn result" where
  "insert_sorted_with_merge_freeList b d =
     (let fr = FreeMemBlocksList d; lst = last fr in
      if fr = [] then
        andthen (list_insert_head fr (Some b)) (\<lambda>fr. Inr (d\<lparr>FreeMemBlocksList := fr\<rparr>))
      else if blk_sva d lst < blk_sva d b then
        (if blk_sva d lst + blk_size d lst = blk_sva d b then merge_prev b lst d
         else andthen (list_insert_after fr (Some lst) (Some b))
                (\<lambda>fr. Inr (d\<lparr>FreeMemBlocksList := fr\<rparr>)))
      else merge_loop b None fr d)"

section \<open>Canonical interval lists\<close>

definition cover :: "(nat \<times> nat) list \<Rightarrow> nat set" where
  "cover ps = (\<Union>p\<in>set ps. {fst p..<snd p})"

definition canonical :: "(nat \<times> nat) list \<Rightarrow> bool" where
  "canonical ps \<longleftrightarrow> (\<forall>p\<in>set ps. fst p < snd p) \<and> sorted_wrt (\<lambda>p q. snd p < fst q) ps"

lemma cover_simps [simp]:
  "cover [] = {}"
  "cover (p # ps) = {fst p..<snd p} \<union> cover ps"
  "cover (ps @ qs) = cover ps \<union> cover qs"
  by (auto simp: cover_def)

lemma canonical_Nil [simp]: "canonical []"
  by (simp add: canonical_def)

lemma canonical_Cons [simp]:
  "canonical (p # ps) \<longleftrightarrow> fst p < snd p \<and> (\<forall>q\<in>set ps. snd p < fst q) \<and> canonical ps"
  by (auto simp: canonical_def)

lemma canonical_append [simp]:
  "canonical (ps @ qs) \<longleftrightarrow>
     canonical ps \<and> canonical qs \<and> (\<forall>p\<in>set ps. \<forall>q\<in>set qs. snd p < fst q)"
  by (auto simp: canonical_def sorted_wrt_append)

lemma canonical_above: "canonical (p # ps) \<Longrightarrow> x \<in> cover ps \<Longrightarrow> snd p < x"
  by (fastforce simp: cover_def)

lemma canonical_empty: "canonical ps \<Longrightarrow> cover ps = {} \<longleftrightarrow> ps = []"
  by (cases ps) auto

lemma canonical_head:
  assumes "canonical (p # ps)"
  shows "fst p = (LEAST x. x \<in> cover (p # ps))"
    and "snd p = (LEAST x. fst p \<le> x \<and> x \<notin> cover (p # ps))"
proof -
  show "fst p = (LEAST x. x \<in> cover (p # ps))"
    using assms canonical_above [OF assms]
    by (intro Least_equality [symmetric]) fastforce+
  show "snd p = (LEAST x. fst p \<le> x \<and> x \<notin> cover (p # ps))"
  proof (rule Least_equality [symmetric])
    show "fst p \<le> snd p \<and> snd p \<notin> cover (p # ps)"
      using assms canonical_above [OF assms, of "snd p"] by auto
  qed auto
qed

text \<open>A canonical list is determined by the set it covers.\<close>

lemma canonical_unique:
  "canonical ps \<Longrightarrow> canonical qs \<Longrightarrow> cover ps = cover qs \<Longrightarrow> ps = qs"
proof (induction ps arbitrary: qs)
  case Nil
  then show ?case
    using canonical_empty [of qs] by simp
next
  case (Cons p ps)
  then obtain q qs' where qs: "qs = q # qs'"
    using canonical_empty [of "p # ps"] by (cases qs) auto
  have can: "canonical (q # qs')"
    using Cons.prems(2) by (simp only: qs)
  have f: "fst p = fst q"
    by (simp only: canonical_head(1) [OF Cons.prems(1)] canonical_head(1) [OF can]
        Cons.prems(3) qs)
  have s: "snd p = snd q"
    by (simp only: canonical_head(2) [OF Cons.prems(1)] canonical_head(2) [OF can]
        Cons.prems(3) f qs)
  have p: "p = q"
    using f s by (simp add: prod_eq_iff)
  have "cover ps = cover (p # ps) - {fst p..<snd p}"
    using canonical_above [OF Cons.prems(1)] by fastforce
  also have "\<dots> = cover qs'"
    using canonical_above [OF can] Cons.prems(3) by (fastforce simp: qs p)
  finally have "ps = qs'"
    using Cons.IH Cons.prems(1) can by simp
  then show ?case
    by (simp add: qs p)
qed

lemma canonical_fit:
  "canonical ps \<Longrightarrow> 0 < s \<Longrightarrow> {a..<a + s} \<subseteq> cover ps \<Longrightarrow>
   \<exists>p\<in>set ps. fst p \<le> a \<and> a + s \<le> snd p"
proof (induction ps)
  case Nil
  then show ?case by simp
next
  case (Cons p ps)
  have a: "a \<in> cover (p # ps)"
    by (rule subsetD [OF Cons.prems(3)]) (use Cons.prems(2) in simp)
  show ?case
  proof (cases "a < snd p")
    case True
    then have "fst p \<le> a"
      using a canonical_above [OF Cons.prems(1), of a] by auto
    moreover have "a + s \<le> snd p"
    proof (rule ccontr)
      assume "\<not> a + s \<le> snd p"
      then have "snd p \<in> cover (p # ps)"
        by (intro subsetD [OF Cons.prems(3)]) (use True in simp)
      then show False
        using canonical_above [OF Cons.prems(1), of "snd p"] by auto
    qed
    ultimately show ?thesis by auto
  next
    case False
    have "x \<in> cover ps" if "x \<in> {a..<a + s}" for x
      using that Cons.prems(3) False by (auto dest!: subsetD [of _ _ x])
    then have "{a..<a + s} \<subseteq> cover ps" by blast
    with Cons.IH Cons.prems(1,2) show ?thesis by simp
  qed
qed

section \<open>The ranges of a list of nodes\<close>

definition ivs :: "(nat \<Rightarrow> u32) \<Rightarrow> (nat \<Rightarrow> u32) \<Rightarrow> nat list \<Rightarrow> (nat \<times> nat) list" where
  "ivs f g bs = map (\<lambda>b. (unat (f b), unat (f b) + unat (g b))) bs"

lemma ivs_simps [simp]:
  "ivs f g [] = []"
  "ivs f g (b # bs) = (unat (f b), unat (f b) + unat (g b)) # ivs f g bs"
  "ivs f g (bs @ cs) = ivs f g bs @ ivs f g cs"
  by (simp_all add: ivs_def)

lemma ivs_upd [simp]:
  "n \<notin> set bs \<Longrightarrow> ivs (f(n := v)) g bs = ivs f g bs"
  "n \<notin> set bs \<Longrightarrow> ivs f (g(n := v)) bs = ivs f g bs"
  by (auto simp: ivs_def)

lemma set_ivs: "set (ivs f g bs) = (\<lambda>b. (unat (f b), unat (f b) + unat (g b))) ` set bs"
  by (simp add: ivs_def)

definition free_ivs :: "dyn \<Rightarrow> (nat \<times> nat) list" where
  "free_ivs d = ivs (blk_sva d) (blk_size d) (FreeMemBlocksList d)"

definition free_set :: "dyn \<Rightarrow> nat set" where
  "free_set d = cover (free_ivs d)"

definition span :: "dyn \<Rightarrow> nat \<Rightarrow> nat set" where
  "span d b = {unat (blk_sva d b)..<unat (blk_sva d b) + unat (blk_size d b)}"

definition dyn_inv :: "dyn \<Rightarrow> bool" where
  "dyn_inv d \<longleftrightarrow>
     distinct (AvailableMemBlocksList d @ FreeMemBlocksList d @ AllocMemBlocksList d) \<and>
     canonical (free_ivs d) \<and> (\<forall>p\<in>set (free_ivs d). snd p < 4294967296)"

lemma free_set_spans: "free_set d = (\<Union>b\<in>set (FreeMemBlocksList d). span d b)"
  by (simp add: free_set_def cover_def free_ivs_def set_ivs span_def)

section \<open>First fit and best fit\<close>

lemma canonical_drop:
  assumes "canonical (ps @ (a, e) # qs)"
  shows "canonical (ps @ qs)" and "cover (ps @ qs) = cover (ps @ (a, e) # qs) - {a..<e}"
proof -
  show "canonical (ps @ qs)"
    using assms by auto
  have "x < a" if "x \<in> cover ps" for x
    using assms that by (fastforce simp: cover_def)
  moreover have "e < x" if "x \<in> cover qs" for x
    using assms that canonical_above [of "(a, e)" qs x] by simp
  ultimately show "cover (ps @ qs) = cover (ps @ (a, e) # qs) - {a..<e}"
    by fastforce
qed

lemma canonical_shrink:
  assumes "canonical (ps @ (a, e) # qs)" and "a < m" and "m < e"
  shows "canonical (ps @ (m, e) # qs)"
    and "cover (ps @ (m, e) # qs) = cover (ps @ (a, e) # qs) - {a..<m}"
proof -
  show "canonical (ps @ (m, e) # qs)"
    using assms by fastforce
  have "x < a" if "x \<in> cover ps" for x
    using assms that by (fastforce simp: cover_def)
  moreover have "e < x" if "x \<in> cover qs" for x
    using assms that canonical_above [of "(a, e)" qs x] by simp
  ultimately show "cover (ps @ (m, e) # qs) = cover (ps @ (a, e) # qs) - {a..<m}"
    using assms(2,3) by fastforce
qed

text \<open>
  What handing out node \<open>n\<close> with \<open>s\<close> bytes means: its range was free, is exactly what
  leaves the free set, and nothing that was allocated changes.
\<close>

definition took :: "u32 \<Rightarrow> nat \<Rightarrow> dyn \<Rightarrow> dyn \<Rightarrow> bool" where
  "took s n d d' \<longleftrightarrow>
     dyn_inv d' \<and> blk_size d' n = s \<and> span d' n \<subseteq> free_set d \<and>
     free_set d' = free_set d - span d' n \<and>
     n \<notin> set (AvailableMemBlocksList d' @ FreeMemBlocksList d' @ AllocMemBlocksList d') \<and>
     insert n (set (AvailableMemBlocksList d') \<union> set (FreeMemBlocksList d')) =
       set (AvailableMemBlocksList d) \<union> set (FreeMemBlocksList d) \<and>
     AllocMemBlocksList d' = AllocMemBlocksList d \<and>
     (\<forall>m. m \<notin> set (AvailableMemBlocksList d) \<longrightarrow> m \<notin> set (FreeMemBlocksList d) \<longrightarrow>
        blk_sva d' m = blk_sva d m \<and> blk_size d' m = blk_size d m)"

lemma take_exact_took:
  assumes "dyn_inv d" and "b \<in> set (FreeMemBlocksList d)"
  shows "\<exists>d'. take_exact b d = Inr (Some b, d') \<and> took (blk_size d b) b d d' \<and>
           blk_sva d' b = blk_sva d b"
proof -
  obtain xs ys where fr: "FreeMemBlocksList d = xs @ b # ys" and nb: "b \<notin> set xs"
    using assms(2) by (meson split_list_first)
  let ?d = "d\<lparr>FreeMemBlocksList := xs @ ys\<rparr>"
  have run: "take_exact b d = Inr (Some b, ?d)"
    using nb by (simp add: take_exact_def list_remove_def fr remove1_append)
  have can: "canonical (ivs (blk_sva d) (blk_size d) xs @
      (unat (blk_sva d b), unat (blk_sva d b) + unat (blk_size d b)) # ivs (blk_sva d) (blk_size d) ys)"
    using assms(1) by (simp add: dyn_inv_def free_ivs_def fr)
  have "took (blk_size d b) b d ?d"
    using assms(1) canonical_drop [OF can]
    by (auto simp: took_def dyn_inv_def free_set_def free_ivs_def fr span_def)
  with run show ?thesis
    by auto
qed

lemma FF_split_took:
  assumes "dyn_inv d" and "b \<in> set (FreeMemBlocksList d)" and "0 < s" and "s < blk_size d b"
    and av: "AvailableMemBlocksList d = n # av"
  shows "\<exists>d'. FF_split s (Some n) b d = Inr (Some n, d') \<and> took s n d d' \<and>
           blk_sva d' n = blk_sva d b"
proof -
  obtain xs ys where fr: "FreeMemBlocksList d = xs @ b # ys"
    using assms(2) by (meson split_list)
  have dist: "n \<notin> set xs" "n \<notin> set ys" "n \<noteq> b" "b \<notin> set xs" "b \<notin> set ys"
    using assms(1) by (auto simp: dyn_inv_def fr av)
  let ?f = "blk_sva d" and ?g = "blk_size d"
  let ?a = "unat (?f b)" and ?e = "unat (?f b) + unat (?g b)"
  have lt: "unat s < unat (?g b)" and pos: "0 < unat s"
    using assms(3,4) by (simp_all add: word_less_nat_alt)
  have e: "?e < 4294967296"
    using assms(1) by (auto simp: dyn_inv_def free_ivs_def fr)
  have m: "unat (?f b + s) = ?a + unat s" "unat (?g b - s) = unat (?g b) - unat s"
    using e lt by (simp_all add: unat_add_u32 unat_sub_u32')
  let ?d = "d\<lparr>AvailableMemBlocksList := av,
       blk_size := ?g(n := s, b := ?g b - s), blk_sva := ?f(b := ?f b + s, n := ?f b)\<rparr>"
  have run: "FF_split s (Some n) b d = Inr (Some n, ?d)"
    using dist(3) by (simp add: FF_split_def list_remove_def av)
  have can: "canonical (ivs ?f ?g xs @ (?a, ?e) # ivs ?f ?g ys)"
    using assms(1) by (simp add: dyn_inv_def free_ivs_def fr)
  have iv: "free_ivs ?d = ivs ?f ?g xs @ (?a + unat s, ?e) # ivs ?f ?g ys"
    using dist lt by (simp add: free_ivs_def fr m)
  have "?a < ?a + unat s" "?a + unat s < ?e"
    using pos lt by simp_all
  note sh = canonical_shrink [OF can this]
  have "\<forall>p\<in>set (free_ivs d). snd p < 4294967296"
    using assms(1) by (simp add: dyn_inv_def)
  then have "\<forall>p\<in>set (free_ivs ?d). snd p < 4294967296"
    using e by (simp only: iv) (auto simp: free_ivs_def fr)
  moreover have "canonical (free_ivs ?d)"
    using sh(1) by (simp only: iv)
  moreover have "distinct (av @ (xs @ b # ys) @ AllocMemBlocksList d)"
    using assms(1) by (auto simp: dyn_inv_def fr av)
  ultimately have inv: "dyn_inv ?d"
    by (simp add: dyn_inv_def fr)
  have set: "free_set ?d = free_set d - span ?d n"
    using sh(2) dist(3) by (simp only: free_set_def iv) (simp add: free_ivs_def fr span_def)
  have sub: "span ?d n \<subseteq> free_set d"
    using lt dist(3) by (auto simp: span_def free_set_def free_ivs_def fr)
  have "took s n d ?d"
    unfolding took_def using inv set sub dist assms(1) by (auto simp: fr av dyn_inv_def)
  with run show ?thesis
    by auto
qed

lemma BF_split_FF:
  "n \<noteq> b \<Longrightarrow> BF_split s (Some n) (blk_sva d b) b d = FF_split s (Some n) b d"
  by (simp add: BF_split_def FF_split_def fun_upd_twist)

lemma fits_block:
  assumes "dyn_inv d" and "0 < s" and "{a..<a + unat s} \<subseteq> free_set d"
  shows "\<exists>b\<in>set (FreeMemBlocksList d). s \<le> blk_size d b \<and> unat (blk_sva d b) \<le> a \<and>
           a + unat s \<le> unat (blk_sva d b) + unat (blk_size d b)"
proof -
  have "canonical (free_ivs d)" and "0 < unat s"
    using assms(1,2) by (simp_all add: dyn_inv_def word_less_nat_alt)
  from canonical_fit [OF this, of a] assms(3) obtain b where
    "b \<in> set (FreeMemBlocksList d)" and
    "unat (blk_sva d b) \<le> a" "a + unat s \<le> unat (blk_sva d b) + unat (blk_size d b)"
    by (auto simp: free_set_def free_ivs_def set_ivs)
  then show ?thesis
    by (intro bexI [of _ b]) (auto simp: word_le_nat_alt)
qed

lemma block_free: "b \<in> set (FreeMemBlocksList d) \<Longrightarrow> span d b \<subseteq> free_set d"
  by (auto simp: free_set_spans)

lemma free_sorted:
  assumes "dyn_inv d" and "FreeMemBlocksList d = xs @ b # ys" and "c \<in> set ys"
  shows "unat (blk_sva d b) \<le> unat (blk_sva d c)"
proof -
  have "unat (blk_sva d b) + unat (blk_size d b) < unat (blk_sva d c)"
    using assms by (auto simp: dyn_inv_def free_ivs_def set_ivs)
  then show ?thesis
    by simp
qed

lemma FF_small:
  "\<forall>b\<in>set bs. blk_size d b < s \<Longrightarrow> FF_loop s newblk bs d = Inr (None, d)"
  by (induction bs) auto

lemma FF_at:
  "\<forall>b\<in>set xs. blk_size d b < s \<Longrightarrow> s \<le> blk_size d b \<Longrightarrow>
   FF_loop s newblk (xs @ b # ys) d =
     (if blk_size d b = s then take_exact b d else FF_split s newblk b d)"
  by (induction xs) auto

text \<open>Either taking a block exactly or splitting it hands out its low end.\<close>

lemma take_or_split:
  assumes "dyn_inv d" and "0 < s" and "AvailableMemBlocksList d \<noteq> []"
    and "b \<in> set (FreeMemBlocksList d)" and "s \<le> blk_size d b"
  shows "\<exists>n d'. (if blk_size d b = s then take_exact b d
                 else FF_split s (list_first (AvailableMemBlocksList d)) b d) = Inr (Some n, d') \<and>
           took s n d d' \<and> blk_sva d' n = blk_sva d b"
proof (cases "blk_size d b = s")
  case True
  with take_exact_took [OF assms(1,4)] show ?thesis by auto
next
  case False
  then have "s < blk_size d b"
    using assms(5) by simp
  moreover obtain n av where "AvailableMemBlocksList d = n # av"
    using assms(3) by (cases "AvailableMemBlocksList d") auto
  ultimately show ?thesis
    using FF_split_took [OF assms(1,4,2)] False by (auto simp: list_first_def)
qed

lemma alloc_block_FF_fits:
  assumes "dyn_inv d" and "0 < s" and "AvailableMemBlocksList d \<noteq> []"
    and "\<exists>b\<in>set (FreeMemBlocksList d). s \<le> blk_size d b"
  shows "\<exists>n d'. alloc_block_FF s d = Inr (Some n, d') \<and> took s n d d' \<and>
           (\<forall>a. {a..<a + unat s} \<subseteq> free_set d \<longrightarrow> unat (blk_sva d' n) \<le> a)"
proof -
  obtain xs b ys where fr: "FreeMemBlocksList d = xs @ b # ys"
    and b: "s \<le> blk_size d b" and xs: "\<forall>c\<in>set xs. \<not> s \<le> blk_size d c"
    using split_list_first_prop [OF assms(4)] by blast
  have "b \<in> set (FreeMemBlocksList d)"
    by (simp add: fr)
  then obtain n d' where run: "(if blk_size d b = s then take_exact b d
        else FF_split s (list_first (AvailableMemBlocksList d)) b d) = Inr (Some n, d')"
    and t: "took s n d d'" and n: "blk_sva d' n = blk_sva d b"
    using take_or_split [OF assms(1-3) _ b] by blast
  have least: "unat (blk_sva d b) \<le> a" if fit: "{a..<a + unat s} \<subseteq> free_set d" for a
  proof -
    obtain c where c: "c \<in> set (FreeMemBlocksList d)" "s \<le> blk_size d c" "unat (blk_sva d c) \<le> a"
      using fits_block [OF assms(1,2) fit] by blast
    then consider "c = b" | "c \<in> set ys"
      using xs by (auto simp: fr)
    then show ?thesis
      using c(3) free_sorted [OF assms(1) fr] by cases (auto intro: order_trans)
  qed
  have "alloc_block_FF s d = Inr (Some n, d')"
    using xs b run by (simp add: alloc_block_FF_def fr FF_at not_le)
  with t n least show ?thesis
    by auto
qed

lemma no_fit_iff:
  assumes "dyn_inv d" and "0 < s"
  shows "(\<forall>b\<in>set (FreeMemBlocksList d). blk_size d b < s) \<longleftrightarrow>
         (\<forall>a. \<not> {a..<a + unat s} \<subseteq> free_set d)"
proof
  assume small: "\<forall>b\<in>set (FreeMemBlocksList d). blk_size d b < s"
  show "\<forall>a. \<not> {a..<a + unat s} \<subseteq> free_set d"
    using small fits_block [OF assms] by (meson not_less)
next
  assume no: "\<forall>a. \<not> {a..<a + unat s} \<subseteq> free_set d"
  show "\<forall>b\<in>set (FreeMemBlocksList d). blk_size d b < s"
  proof
    fix b
    assume "b \<in> set (FreeMemBlocksList d)"
    then have "span d b \<subseteq> free_set d"
      by (rule block_free)
    moreover have "\<not> {unat (blk_sva d b)..<unat (blk_sva d b) + unat s} \<subseteq> free_set d"
      using no by blast
    ultimately show "blk_size d b < s"
      by (auto simp: span_def word_less_nat_alt subset_iff not_less)
  qed
qed

lemma alloc_block_FF_none:
  assumes "dyn_inv d" and "0 < s" and "\<forall>a. \<not> {a..<a + unat s} \<subseteq> free_set d"
  shows "alloc_block_FF s d = Inr (None, d)"
  using assms(3) no_fit_iff [OF assms(1,2)] by (simp add: alloc_block_FF_def FF_small)

lemma BF_exact_None: "BF_exact s bs d = None \<longleftrightarrow> (\<forall>b\<in>set bs. blk_size d b \<noteq> s)"
  by (induction bs) auto

lemma BF_exact_Some: "BF_exact s bs d = Some b \<Longrightarrow> b \<in> set bs \<and> blk_size d b = s"
  by (induction bs) (auto split: if_splits)

lemma BF_first_none: "\<forall>b\<in>set bs. \<not> s < blk_size d b \<Longrightarrow> BF_first s bs d g = g"
  by (induction bs) auto

lemma BF_min_none: "\<forall>b\<in>set bs. \<not> s < blk_size d b \<Longrightarrow> BF_min s bs d g = g"
  by (induction bs) auto

lemma BF_first_some:
  "\<exists>b\<in>set bs. s < blk_size d b \<Longrightarrow>
   \<exists>b\<in>set bs. s < blk_size d b \<and> BF_first s bs d g = (blk_size d b, blk_sva d b)"
  by (induction bs) auto

lemma BF_min_some:
  assumes "\<exists>b\<in>B. s < blk_size d b \<and> g = (blk_size d b, blk_sva d b)" and "set bs \<subseteq> B"
  shows "\<exists>b\<in>B. s < blk_size d b \<and> BF_min s bs d g = (blk_size d b, blk_sva d b) \<and>
           blk_size d b \<le> fst g \<and> (\<forall>c\<in>set bs. s < blk_size d c \<longrightarrow> blk_size d b \<le> blk_size d c)"
  using assms
proof (induction bs arbitrary: g)
  case Nil
  then show ?case by auto
next
  case (Cons c bs)
  let ?g = "if blk_size d c < fst g \<and> s < blk_size d c then (blk_size d c, blk_sva d c) else g"
  have "\<exists>b\<in>B. s < blk_size d b \<and> ?g = (blk_size d b, blk_sva d b)"
    using Cons.prems by auto
  moreover have "set bs \<subseteq> B"
    using Cons.prems(2) by simp
  ultimately obtain b where b: "b \<in> B" "s < blk_size d b"
    "BF_min s bs d ?g = (blk_size d b, blk_sva d b)" "blk_size d b \<le> fst ?g"
    "\<forall>c\<in>set bs. s < blk_size d c \<longrightarrow> blk_size d b \<le> blk_size d c"
    using Cons.IH [of ?g] by blast
  have "blk_size d b \<le> fst g" and "s < blk_size d c \<longrightarrow> blk_size d b \<le> blk_size d c"
    using b(4) by (auto split: if_splits)
  with b show ?case
    by (intro bexI [of _ b]) auto
qed

lemma BF_take_at:
  "b \<in> set bs \<Longrightarrow> g = (blk_size d b, blk_sva d b) \<Longrightarrow>
   \<exists>c\<in>set bs. blk_size d c = blk_size d b \<and> blk_sva d c = blk_sva d b \<and>
     BF_take s newblk g bs d = BF_split s newblk (blk_sva d c) c d"
  by (induction bs) (auto split: if_splits)

lemma BF_take_none:
  "\<forall>b\<in>set bs. \<not> (blk_size d b = fst g \<and> blk_sva d b = snd g) \<Longrightarrow>
   BF_take s newblk g bs d = Inr (None, d)"
  by (induction bs) auto

lemma alloc_block_BF_fits:
  assumes "dyn_inv d" and "0 < s" and av: "AvailableMemBlocksList d \<noteq> []"
    and fit: "\<exists>b\<in>set (FreeMemBlocksList d). s \<le> blk_size d b"
  shows "\<exists>n d'. alloc_block_BF gs ga s d = Inr (Some n, d') \<and> took s n d d' \<and>
           (\<exists>b\<in>set (FreeMemBlocksList d). blk_sva d' n = blk_sva d b \<and> s \<le> blk_size d b \<and>
             (\<forall>c\<in>set (FreeMemBlocksList d). s \<le> blk_size d c \<longrightarrow> blk_size d b \<le> blk_size d c))"
proof (cases "BF_exact s (FreeMemBlocksList d) d")
  case (Some b)
  then have b: "b \<in> set (FreeMemBlocksList d)" "blk_size d b = s"
    using BF_exact_Some [OF Some] by auto
  from take_exact_took [OF assms(1) b(1)] obtain d' where
    "take_exact b d = Inr (Some b, d')" "took s b d d'" "blk_sva d' b = blk_sva d b"
    using b(2) by auto
  with Some b show ?thesis
    by (auto simp: alloc_block_BF_def)
next
  case None
  let ?fr = "FreeMemBlocksList d"
  have ne: "blk_size d b \<noteq> s" if "b \<in> set ?fr" for b
    using None that by (auto simp: BF_exact_None)
  have "\<exists>b\<in>set ?fr. s < blk_size d b"
    using fit ne by (metis le_less)
  note BF_first_some [OF this, of "(gs, ga)"]
  note BF_min_some [OF this order_refl]
  then obtain b where b: "b \<in> set ?fr" "s < blk_size d b"
    and g: "BF_min s ?fr d (BF_first s ?fr d (gs, ga)) = (blk_size d b, blk_sva d b)"
    and min: "\<forall>c\<in>set ?fr. s < blk_size d c \<longrightarrow> blk_size d b \<le> blk_size d c"
    by blast
  obtain c where c: "c \<in> set ?fr" "blk_size d c = blk_size d b" "blk_sva d c = blk_sva d b"
    and tk: "BF_take s (list_first (AvailableMemBlocksList d)) (blk_size d b, blk_sva d b) ?fr d =
      BF_split s (list_first (AvailableMemBlocksList d)) (blk_sva d c) c d"
    using BF_take_at [OF b(1) refl,
        where s = s and newblk = "list_first (AvailableMemBlocksList d)"] by blast
  obtain n av' where avn: "AvailableMemBlocksList d = n # av'"
    using av by (cases "AvailableMemBlocksList d") auto
  have "n \<noteq> c"
    using assms(1) c(1) by (auto simp: dyn_inv_def avn)
  then have run: "alloc_block_BF gs ga s d = FF_split s (Some n) c d"
    using tk by (simp add: alloc_block_BF_def None g Let_def avn list_first_def BF_split_FF)
  have "s < blk_size d c"
    using b(2) c(2) by simp
  from FF_split_took [OF assms(1) c(1) assms(2) this avn] obtain d' where
    "FF_split s (Some n) c d = Inr (Some n, d')" "took s n d d'" "blk_sva d' n = blk_sva d c"
    by blast
  moreover have "s \<le> blk_size d c' \<longrightarrow> blk_size d c \<le> blk_size d c'" if "c' \<in> set ?fr" for c'
    using min ne [OF that] that c(2) by (auto simp: le_less)
  ultimately show ?thesis
    using run c(1) \<open>s < blk_size d c\<close> by (auto intro!: bexI [of _ c])
qed

text \<open>
  When nothing fits, the locals are still unassigned in the last loop: the call fails only if
  their stale contents do not name a free block.
\<close>

lemma alloc_block_BF_none:
  assumes "\<forall>b\<in>set (FreeMemBlocksList d). blk_size d b < s"
    and "\<forall>b\<in>set (FreeMemBlocksList d). \<not> (blk_size d b = gs \<and> blk_sva d b = ga)"
  shows "alloc_block_BF gs ga s d = Inr (None, d)"
proof -
  have "BF_exact s (FreeMemBlocksList d) d = None"
    using assms(1) by (auto simp: BF_exact_None)
  moreover have small: "\<forall>b\<in>set (FreeMemBlocksList d). \<not> s < blk_size d b"
    using assms(1) by (auto dest: less_imp_not_less)
  ultimately show ?thesis
    using BF_take_none [of "FreeMemBlocksList d" d "(gs, ga)"] assms(2)
    by (simp add: alloc_block_BF_def BF_first_none BF_min_none)
qed

lemma alloc_block_BF_stale:
  assumes "dyn_inv d" and small: "\<forall>b\<in>set (FreeMemBlocksList d). blk_size d b < s"
    and b: "b \<in> set (FreeMemBlocksList d)" "blk_size d b = gs" "blk_sva d b = ga"
    and av: "AvailableMemBlocksList d = n # av"
  shows "\<exists>d'. alloc_block_BF gs ga s d = Inr (Some n, d') \<and> blk_sva d' n = ga \<and> blk_size d' n = s"
proof -
  have "BF_exact s (FreeMemBlocksList d) d = None"
    using small by (auto simp: BF_exact_None)
  moreover have "\<forall>b\<in>set (FreeMemBlocksList d). \<not> s < blk_size d b"
    using small by (auto dest: less_imp_not_less)
  moreover obtain c where "c \<in> set (FreeMemBlocksList d)" "blk_sva d c = ga"
    and "BF_take s (Some n) (gs, ga) (FreeMemBlocksList d) d = BF_split s (Some n) (blk_sva d c) c d"
    using BF_take_at [OF b(1), of "(gs, ga)" d, where s = s and newblk = "Some n"] b(2,3) by auto
  moreover from this have "n \<noteq> c"
    using assms(1) by (auto simp: dyn_inv_def av)
  ultimately show ?thesis
    by (simp add: alloc_block_BF_def BF_first_none BF_min_none av list_first_def BF_split_def
        list_remove_def)
qed

section \<open>Giving a block back\<close>

definition gave :: "nat \<Rightarrow> dyn \<Rightarrow> dyn \<Rightarrow> bool" where
  "gave b d d' \<longleftrightarrow>
     dyn_inv d' \<and> free_set d' = free_set d \<union> span d b \<and>
     AllocMemBlocksList d' = AllocMemBlocksList d \<and>
     set (AvailableMemBlocksList d') \<union> set (FreeMemBlocksList d') =
       insert b (set (AvailableMemBlocksList d) \<union> set (FreeMemBlocksList d)) \<and>
     (\<forall>m. m \<notin> insert b (set (AvailableMemBlocksList d) \<union> set (FreeMemBlocksList d)) \<longrightarrow>
        blk_sva d' m = blk_sva d m \<and> blk_size d' m = blk_size d m)"

definition fresh_block :: "nat \<Rightarrow> dyn \<Rightarrow> bool" where
  "fresh_block b d \<longleftrightarrow>
     b \<notin> set (AvailableMemBlocksList d @ FreeMemBlocksList d @ AllocMemBlocksList d) \<and>
     0 < blk_size d b \<and> unat (blk_sva d b) + unat (blk_size d b) < 4294967296 \<and>
     span d b \<inter> free_set d = {}"

lemma canonical_strict_last:
  "canonical ps \<Longrightarrow> \<forall>p\<in>set ps. snd p \<le> s \<Longrightarrow> ps \<noteq> [] \<longrightarrow> snd (last ps) \<noteq> s \<Longrightarrow>
   \<forall>p\<in>set ps. snd p < s"
  by (cases ps rule: rev_cases) fastforce+

lemma canonical_strict_hd:
  "canonical ps \<Longrightarrow> \<forall>p\<in>set ps. e \<le> fst p \<Longrightarrow> ps \<noteq> [] \<longrightarrow> fst (hd ps) \<noteq> e \<Longrightarrow>
   \<forall>p\<in>set ps. e < fst p"
  by (cases ps) fastforce+

abbreviation bstart :: "dyn \<Rightarrow> nat \<Rightarrow> nat" where
  "bstart d b \<equiv> unat (blk_sva d b)"

abbreviation bend :: "dyn \<Rightarrow> nat \<Rightarrow> nat" where
  "bend d b \<equiv> unat (blk_sva d b) + unat (blk_size d b)"

lemma canonical_ivs:
  "canonical (ivs f g bs) \<longleftrightarrow>
     (\<forall>b\<in>set bs. 0 < unat (g b)) \<and>
     sorted_wrt (\<lambda>b c. unat (f b) + unat (g b) < unat (f c)) bs"
  by (auto simp: canonical_def ivs_def sorted_wrt_map)

lemma dyn_inv_iff:
  "dyn_inv d \<longleftrightarrow>
     distinct (AvailableMemBlocksList d @ FreeMemBlocksList d @ AllocMemBlocksList d) \<and>
     (\<forall>b\<in>set (FreeMemBlocksList d). 0 < unat (blk_size d b) \<and> bend d b < 4294967296) \<and>
     sorted_wrt (\<lambda>b c. bend d b < bstart d c) (FreeMemBlocksList d)"
  by (auto simp: dyn_inv_def free_ivs_def canonical_ivs set_ivs)

lemma bend_word:
  "bend d b < 4294967296 \<Longrightarrow> unat (blk_sva d b + blk_size d b) = bend d b"
  by (rule unat_add_u32)

lemma addToAvail_run:
  "b \<notin> set (AvailableMemBlocksList d) \<Longrightarrow>
   addToAvailMemBlocksList b d =
     Inr (d\<lparr>blk_sva := (blk_sva d)(b := 0), blk_size := (blk_size d)(b := 0),
            AvailableMemBlocksList := AvailableMemBlocksList d @ [b]\<rparr>)"
  by (simp add: addToAvailMemBlocksList_def list_insert_tail_def)

lemma place_gave:
  assumes "dyn_inv d" and "fresh_block b d" and "FreeMemBlocksList d = xs @ ys"
    and "\<forall>c\<in>set xs. bend d c < bstart d b" and "\<forall>c\<in>set ys. bend d b < bstart d c"
  shows "gave b d (d\<lparr>FreeMemBlocksList := xs @ b # ys\<rparr>)"
proof -
  have "free_set (d\<lparr>FreeMemBlocksList := xs @ b # ys\<rparr>) = free_set d \<union> span d b"
    by (auto simp: free_set_def free_ivs_def span_def assms(3))
  moreover have "dyn_inv (d\<lparr>FreeMemBlocksList := xs @ b # ys\<rparr>)"
    using assms by (auto simp: dyn_inv_iff fresh_block_def sorted_wrt_append word_gt_0_no)
      (simp_all add: word_less_nat_alt)
  ultimately show ?thesis
    by (auto simp: gave_def assms(3))
qed

lemma merge_prev_gave:
  assumes "dyn_inv d" and "fresh_block b d" and fr: "FreeMemBlocksList d = xs @ p # ys"
    and eq: "blk_sva d p + blk_size d p = blk_sva d b"
    and ys: "\<forall>c\<in>set ys. bend d b < bstart d c"
  shows "\<exists>d'. merge_prev b p d = Inr d' \<and> gave b d d'"
proof -
  let ?d = "d\<lparr>blk_sva := (blk_sva d)(b := 0),
      blk_size := (blk_size d)(p := blk_size d p + blk_size d b, b := 0),
      AvailableMemBlocksList := AvailableMemBlocksList d @ [b]\<rparr>"
  have nb: "b \<noteq> p" "b \<notin> set xs" "b \<notin> set ys" "b \<notin> set (AvailableMemBlocksList d)"
    "b \<notin> set (AllocMemBlocksList d)"
    using assms(2) by (auto simp: fresh_block_def fr)
  have np: "p \<notin> set xs" "p \<notin> set ys"
    using assms(1) by (auto simp: dyn_inv_def fr)
  have run: "merge_prev b p d = Inr ?d"
    using nb by (simp add: merge_prev_def addToAvail_run)
  have ep: "bend d p = bstart d b" and eb: "bend d b < 4294967296"
    using assms(1,2) bend_word [of d p] eq by (auto simp: dyn_inv_iff fr fresh_block_def)
  then have sz: "unat (blk_size d p + blk_size d b) = unat (blk_size d p) + unat (blk_size d b)"
    by (intro unat_add_u32) linarith
  let ?xs = "ivs (blk_sva d) (blk_size d) xs" and ?ys = "ivs (blk_sva d) (blk_size d) ys"
  have old: "free_ivs d = ?xs @ (bstart d p, bstart d b) # ?ys"
    using ep by (simp add: free_ivs_def fr)
  have new: "free_ivs ?d = ?xs @ (bstart d p, bend d b) # ?ys"
    using nb np ep by (simp add: free_ivs_def fr sz)
  have "free_set ?d = free_set d \<union> span d b"
    using ep by (auto simp: free_set_def old new span_def)
  moreover have "dyn_inv ?d"
    using assms(1) nb ys eb by (auto simp: dyn_inv_def old new fr set_ivs)
  ultimately have "gave b d ?d"
    using nb by (auto simp: gave_def fr)
  with run show ?thesis
    by blast
qed

lemma merge_next_gave:
  assumes "dyn_inv d" and "fresh_block b d" and fr: "FreeMemBlocksList d = xs @ it # ys"
    and eq: "blk_size d b + blk_sva d b = blk_sva d it"
    and xs: "\<forall>c\<in>set xs. bend d c < bstart d b"
  shows "\<exists>d'. merge_next b it d = Inr d' \<and> gave b d d'"
proof -
  let ?d = "d\<lparr>blk_sva := (blk_sva d)(it := blk_sva d b, b := 0),
      blk_size := (blk_size d)(it := blk_size d it + blk_size d b, b := 0),
      AvailableMemBlocksList := AvailableMemBlocksList d @ [b]\<rparr>"
  have nb: "b \<noteq> it" "b \<notin> set xs" "b \<notin> set ys" "b \<notin> set (AvailableMemBlocksList d)"
    "b \<notin> set (AllocMemBlocksList d)"
    using assms(2) by (auto simp: fresh_block_def fr)
  have np: "it \<notin> set xs" "it \<notin> set ys"
    using assms(1) by (auto simp: dyn_inv_def fr)
  have run: "merge_next b it d = Inr ?d"
    using nb by (simp add: merge_next_def addToAvail_run)
  have ep: "bstart d it = bend d b" and eb: "bend d it < 4294967296"
    using assms(1,2) bend_word [of d b] eq
    by (auto simp: dyn_inv_iff fr fresh_block_def add.commute)
  then have sz: "unat (blk_size d it + blk_size d b) = unat (blk_size d it) + unat (blk_size d b)"
    by (intro unat_add_u32) linarith
  let ?xs = "ivs (blk_sva d) (blk_size d) xs" and ?ys = "ivs (blk_sva d) (blk_size d) ys"
  have old: "free_ivs d = ?xs @ (bend d b, bend d it) # ?ys"
    using ep by (simp add: free_ivs_def fr)
  have new: "free_ivs ?d = ?xs @ (bstart d b, bend d it) # ?ys"
    using nb np ep by (simp add: free_ivs_def fr sz)
  have "free_set ?d = free_set d \<union> span d b"
    using ep by (auto simp: free_set_def old new span_def)
  moreover have "dyn_inv ?d"
    using assms(1) nb xs eb by (auto simp: dyn_inv_def old new fr set_ivs)
  ultimately have "gave b d ?d"
    using nb by (auto simp: gave_def fr)
  with run show ?thesis
    by blast
qed

lemma merge_both_gave:
  assumes "dyn_inv d" and "fresh_block b d" and fr: "FreeMemBlocksList d = xs @ p # it # ys"
    and eq: "blk_sva d p + blk_size d p + blk_size d b = blk_sva d it"
    and p: "bend d p \<le> bstart d b" and it: "bend d b \<le> bstart d it"
  shows "\<exists>d'. merge_step b (Some p) it d = Inr d' \<and> gave b d d'"
proof -
  let ?d = "d\<lparr>blk_sva := (blk_sva d)(b := 0, it := 0),
      blk_size := (blk_size d)(p := blk_size d p + blk_size d b + blk_size d it, b := 0, it := 0),
      FreeMemBlocksList := xs @ p # ys,
      AvailableMemBlocksList := AvailableMemBlocksList d @ [b, it]\<rparr>"
  have nb: "b \<noteq> p" "b \<noteq> it" "b \<notin> set xs" "b \<notin> set ys" "b \<notin> set (AvailableMemBlocksList d)"
    "b \<notin> set (AllocMemBlocksList d)"
    using assms(2) by (auto simp: fresh_block_def fr)
  have np: "p \<noteq> it" "p \<notin> set xs" "p \<notin> set ys" "it \<notin> set xs" "it \<notin> set ys"
    "it \<notin> set (AvailableMemBlocksList d)" "it \<notin> set (AllocMemBlocksList d)"
    using assms(1) by (auto simp: dyn_inv_def fr)
  have "remove1 it (xs @ p # it # ys) = xs @ p # ys"
    using np by (simp add: remove1_append)
  then have run: "merge_step b (Some p) it d = Inr ?d"
    using nb np eq by (simp add: merge_step_def addToAvail_run list_remove_def fr)
  have lt: "bend d it < 4294967296" "bend d b < 4294967296" "bend d p < 4294967296"
    using assms(1,2) by (auto simp: dyn_inv_iff fr fresh_block_def)
  have "unat (blk_sva d p + blk_size d p + blk_size d b) = bend d p + unat (blk_size d b)"
    using lt p by (subst unat_add_u32) (simp_all add: bend_word)
  then have ep: "bend d p = bstart d b" "bstart d it = bend d b"
    using eq p it by simp_all
  have sz: "unat (blk_size d p + blk_size d b + blk_size d it) =
      unat (blk_size d p) + unat (blk_size d b) + unat (blk_size d it)"
    using lt ep by (simp add: unat_add_u32)
  let ?xs = "ivs (blk_sva d) (blk_size d) xs" and ?ys = "ivs (blk_sva d) (blk_size d) ys"
  have old: "free_ivs d = ?xs @ (bstart d p, bstart d b) # (bend d b, bend d it) # ?ys"
    using ep by (simp add: free_ivs_def fr)
  have new: "free_ivs ?d = ?xs @ (bstart d p, bend d it) # ?ys"
    using nb np ep by (simp add: free_ivs_def fr sz)
  have "free_set ?d = free_set d \<union> span d b"
    using ep by (auto simp: free_set_def old new span_def)
  moreover have "dyn_inv ?d"
    using assms(1) nb np by (auto simp: dyn_inv_def old new fr set_ivs)
  ultimately have "gave b d ?d"
    using nb np by (auto simp: gave_def fr)
  with run show ?thesis
    by blast
qed

text \<open>Where the block belongs: every free block ends before it or starts after it.\<close>

lemma fresh_block_apart:
  assumes "dyn_inv d" and "fresh_block b d" and "c \<in> set (FreeMemBlocksList d)"
  shows "bend d c \<le> bstart d b \<or> bend d b \<le> bstart d c"
proof -
  have "span d c \<inter> span d b = {}"
    using assms(2,3) block_free [of c d] by (auto simp: fresh_block_def)
  moreover have "0 < unat (blk_size d c)" and "0 < unat (blk_size d b)"
    using assms by (auto simp: dyn_inv_iff fresh_block_def word_less_nat_alt)
  ultimately show ?thesis
    by (auto simp: span_def not_le dest!: equalityD1)
qed

lemma place_before_run:
  assumes "b \<notin> set (xs @ it # ys)" and "it \<notin> set xs" and "FreeMemBlocksList d = xs @ it # ys"
  shows "place_before b it d = Inr (d\<lparr>FreeMemBlocksList := xs @ b # it # ys\<rparr>)"
  using assms by (simp add: place_before_def list_insert_before_def insert_in_append)

lemma fresh_block_sides:
  assumes "dyn_inv d" and "fresh_block b d" and "c \<in> set (FreeMemBlocksList d)"
  shows "\<not> blk_sva d b < blk_sva d c \<Longrightarrow> bend d c \<le> bstart d b"
    and "blk_sva d b < blk_sva d c \<Longrightarrow> bend d b \<le> bstart d c"
proof -
  have pos: "0 < unat (blk_size d c)" "0 < unat (blk_size d b)"
    using assms by (auto simp: dyn_inv_iff fresh_block_def word_less_nat_alt)
  show "\<not> blk_sva d b < blk_sva d c \<Longrightarrow> bend d c \<le> bstart d b"
    using fresh_block_apart [OF assms] pos by (auto simp: word_less_nat_alt)
  show "blk_sva d b < blk_sva d c \<Longrightarrow> bend d b \<le> bstart d c"
    using fresh_block_apart [OF assms] pos by (auto simp: word_less_nat_alt)
qed

lemma merge_loop_at:
  "\<forall>c\<in>set xs. \<not> blk_sva d b < blk_sva d c \<Longrightarrow> blk_sva d b < blk_sva d it \<Longrightarrow>
   merge_loop b prev (xs @ it # ys) d = merge_step b (last_opt prev xs) it d"
  by (induction xs arbitrary: prev) auto

lemma free_chain:
  assumes "dyn_inv d" and "FreeMemBlocksList d = xs @ c # ys"
  shows "\<forall>e\<in>set xs. bend d e < bstart d c" and "\<forall>e\<in>set ys. bend d c < bstart d e"
  using assms by (auto simp: dyn_inv_iff sorted_wrt_append)

lemma merge_step_gave:
  assumes inv: "dyn_inv d" and fresh: "fresh_block b d"
    and fr: "FreeMemBlocksList d = xs @ it # ys"
    and xs: "\<forall>c\<in>set xs. \<not> blk_sva d b < blk_sva d c" and it: "blk_sva d b < blk_sva d it"
  shows "\<exists>d'. merge_step b (last_opt None xs) it d = Inr d' \<and> gave b d d'"
proof -
  have le_it: "bend d b \<le> bstart d it"
    using fresh_block_sides(2) [OF inv fresh _ it] by (simp add: fr)
  have le_xs: "bend d c \<le> bstart d b" if "c \<in> set xs" for c
    using fresh_block_sides(1) [OF inv fresh, of c] that xs by (simp add: fr)
  have ndist: "b \<notin> set (xs @ it # ys)" "it \<notin> set xs"
    using fresh inv by (auto simp: fresh_block_def dyn_inv_def fr)
  have "bend d b < 4294967296"
    using fresh by (simp add: fresh_block_def)
  then have "unat (blk_size d b + blk_sva d b) = bend d b"
    using bend_word [of d b] by (simp add: add.commute)
  then have eb: "blk_size d b + blk_sva d b \<noteq> blk_sva d it \<Longrightarrow> bend d b < bstart d it"
    using le_it by (simp only: u32_eq_iff)
  have it_ys: "\<forall>c\<in>set (it # ys). bend d b < bstart d c" if "bend d b < bstart d it"
    using free_chain(2) [OF inv fr] that by fastforce
  have "\<forall>c\<in>set (it # ys). bend d b \<le> bstart d c"
    using free_chain(2) [OF inv fr] le_it by fastforce
  show ?thesis
  proof (cases xs rule: rev_cases)
    case Nil
    show ?thesis
    proof (cases "blk_size d b + blk_sva d b = blk_sva d it")
      case True
      with merge_next_gave [OF inv fresh, of "[]" it ys] show ?thesis
        by (simp add: merge_step_def Nil fr)
    next
      case False
      with place_gave [OF inv fresh, of "[]" "it # ys"] it_ys [OF eb] place_before_run [of b "[]" it ys d]
        ndist show ?thesis
        by (simp add: merge_step_def Nil fr)
    qed
  next
    case (snoc xs' p)
    have frp: "FreeMemBlocksList d = xs' @ p # it # ys"
      by (simp add: fr snoc)
    have le_p: "bend d p \<le> bstart d b"
      using le_xs by (simp add: snoc)
    then have "bend d p < 4294967296"
      by (meson le_less_trans unat_lt_2p32)
    then have ep: "blk_sva d p + blk_size d p \<noteq> blk_sva d b \<Longrightarrow> bend d p < bstart d b"
      using le_p by (auto simp: u32_eq_iff bend_word le_less)
    have lt_xs: "\<forall>c\<in>set xs. bend d c < bstart d b" if "bend d p < bstart d b"
      using free_chain(1) [OF inv frp] that by (auto simp: snoc)
    consider (both) "blk_sva d p + blk_size d p + blk_size d b = blk_sva d it"
      | (prev) "blk_sva d p + blk_size d p + blk_size d b \<noteq> blk_sva d it"
          "blk_sva d p + blk_size d p = blk_sva d b"
      | (nxt) "blk_sva d p + blk_size d p + blk_size d b \<noteq> blk_sva d it"
          "blk_sva d p + blk_size d p \<noteq> blk_sva d b" "blk_size d b + blk_sva d b = blk_sva d it"
      | (none) "blk_sva d p + blk_size d p + blk_size d b \<noteq> blk_sva d it"
          "blk_sva d p + blk_size d p \<noteq> blk_sva d b" "blk_size d b + blk_sva d b \<noteq> blk_sva d it"
      by blast
    then show ?thesis
    proof cases
      case both
      with merge_both_gave [OF inv fresh frp both le_p le_it] show ?thesis
        by (simp add: snoc)
    next
      case prev
      then have "blk_size d b + blk_sva d b \<noteq> blk_sva d it"
        by (simp add: add.commute)
      with merge_prev_gave [OF inv fresh frp prev(2)] prev it_ys [OF eb] show ?thesis
        by (simp add: snoc merge_step_def)
    next
      case nxt
      with merge_next_gave [OF inv fresh fr nxt(3)] lt_xs [OF ep] show ?thesis
        by (simp add: snoc merge_step_def)
    next
      case none
      with place_gave [OF inv fresh fr] lt_xs [OF ep] it_ys [OF eb] place_before_run [OF ndist fr]
      show ?thesis
        by (simp add: snoc merge_step_def)
    qed
  qed
qed

lemma insert_free_gave:
  assumes inv: "dyn_inv d" and fresh: "fresh_block b d"
  shows "\<exists>d'. insert_sorted_with_merge_freeList b d = Inr d' \<and> gave b d d'"
proof (cases "FreeMemBlocksList d" rule: rev_cases)
  case Nil
  with place_gave [OF inv fresh, of "[]" "[]"] show ?thesis
    by (simp add: insert_sorted_with_merge_freeList_def list_insert_head_def)
next
  case (snoc xs p)
  have mem: "p \<in> set (FreeMemBlocksList d)"
    by (simp add: snoc)
  show ?thesis
  proof (cases "blk_sva d p < blk_sva d b")
    case True
    then have le_p: "bend d p \<le> bstart d b"
      using fresh_block_sides(1) [OF inv fresh mem] by (simp add: not_less)
    then have "bend d p < 4294967296"
      by (meson le_less_trans unat_lt_2p32)
    then have ep: "blk_sva d p + blk_size d p \<noteq> blk_sva d b \<Longrightarrow> bend d p < bstart d b"
      using le_p by (auto simp: u32_eq_iff bend_word le_less)
    have lt_xs: "\<forall>c\<in>set (xs @ [p]). bend d c < bstart d b" if "bend d p < bstart d b"
      using free_chain(1) [OF inv snoc] that by fastforce
    have nd: "b \<notin> set (xs @ [p])" "p \<notin> set xs"
      using fresh inv by (auto simp: fresh_block_def dyn_inv_def snoc)
    show ?thesis
    proof (cases "blk_sva d p + blk_size d p = blk_sva d b")
      case eq: True
      with merge_prev_gave [OF inv fresh snoc eq] True show ?thesis
        by (simp add: insert_sorted_with_merge_freeList_def snoc)
    next
      case False
      with place_gave [OF inv fresh, of "xs @ [p]" "[]"] lt_xs [OF ep] True nd show ?thesis
        by (simp add: insert_sorted_with_merge_freeList_def snoc list_insert_after_def
            insert_in_append)
    qed
  next
    case False
    have "blk_sva d b \<noteq> blk_sva d p"
      using fresh_block_apart [OF inv fresh mem] fresh inv mem
      by (auto simp: fresh_block_def dyn_inv_iff word_less_nat_alt)
    then have "blk_sva d b < blk_sva d p"
      using False by simp
    then have ex: "\<exists>c\<in>set (FreeMemBlocksList d). blk_sva d b < blk_sva d c"
      using mem by blast
    obtain xs' it ys where fr: "FreeMemBlocksList d = xs' @ it # ys"
      and it: "blk_sva d b < blk_sva d it" and xs': "\<forall>c\<in>set xs'. \<not> blk_sva d b < blk_sva d c"
      using split_list_first_prop [OF ex] by blast
    have "insert_sorted_with_merge_freeList b d = merge_loop b None (FreeMemBlocksList d) d"
      using False by (simp add: insert_sorted_with_merge_freeList_def snoc)
    also have "\<dots> = merge_step b (last_opt None xs') it d"
      by (simp only: fr merge_loop_at [OF xs' it])
    finally have "insert_sorted_with_merge_freeList b d = merge_step b (last_opt None xs') it d" .
    with merge_step_gave [OF inv fresh fr xs' it] show ?thesis
      by simp
  qed
qed

text \<open>
  Handing a block out and giving it back restores the free list, interval for interval.
\<close>

lemma took_gave_restores:
  assumes "dyn_inv d" and "took s n d d'" and "gave n d' d''"
  shows "free_ivs d'' = free_ivs d"
proof (rule canonical_unique)
  show "canonical (free_ivs d'')" and "canonical (free_ivs d)"
    using assms by (simp_all add: gave_def dyn_inv_def)
  show "cover (free_ivs d'') = cover (free_ivs d)"
    using assms(2,3) by (auto simp: took_def gave_def free_set_def)
qed

lemma took_fresh:
  assumes "dyn_inv d" and "took s n d d'" and "0 < s"
  shows "fresh_block n d'"
proof -
  have t: "blk_size d' n = s" "span d' n \<subseteq> free_set d" "free_set d' = free_set d - span d' n"
    "n \<notin> set (AvailableMemBlocksList d' @ FreeMemBlocksList d' @ AllocMemBlocksList d')"
    using assms(2) unfolding took_def by blast+
  have pos: "0 < unat s"
    using assms(3) by (simp add: word_less_nat_alt)
  let ?e = "unat (blk_sva d' n) + unat s - 1"
  have "?e \<in> span d' n"
    using pos by (auto simp: span_def t(1))
  then have "?e \<in> free_set d"
    using t(2) by blast
  then obtain p where "p \<in> set (free_ivs d)" "?e < snd p"
    by (auto simp: free_set_def cover_def)
  moreover have "\<forall>p\<in>set (free_ivs d). snd p < 4294967296"
    using assms(1) by (simp add: dyn_inv_def)
  ultimately have "unat (blk_sva d' n) + unat s < 4294967296"
    using pos by fastforce
  with t assms(3) show ?thesis
    by (auto simp: fresh_block_def)
qed

section \<open>The list of allocated blocks\<close>

definition alloc_sorted :: "dyn \<Rightarrow> bool" where
  "alloc_sorted d \<longleftrightarrow> sorted_wrt (\<lambda>a b. blk_sva d a < blk_sva d b) (AllocMemBlocksList d)"

lemma alloc_gap_at:
  "sorted_wrt (\<lambda>a b. blk_sva d a < blk_sva d b) (xs @ a # c # ys) \<Longrightarrow>
   blk_sva d a < v \<Longrightarrow> v < blk_sva d c \<Longrightarrow> alloc_gap d v (xs @ a # c # ys) = Some a"
proof (induction xs)
  case (Cons x xs)
  then have "\<not> v < blk_sva d (hd (xs @ a # c # ys))"
    by (cases xs) (auto simp: not_less)
  moreover obtain y zs where "xs @ a # c # ys = y # zs"
    by (cases xs) auto
  ultimately show ?case
    using Cons by auto
qed simp

lemma alloc_gap_above: "\<forall>b\<in>set bs. \<not> blk_sva d b < v \<Longrightarrow> alloc_gap d v bs = None"
  by (induction d v bs rule: alloc_gap.induct) auto

lemma alloc_gap_equal:
  "sorted_wrt (\<lambda>a b. blk_sva d a < blk_sva d b) bs \<Longrightarrow> a \<in> set bs \<Longrightarrow> blk_sva d a = v \<Longrightarrow>
   alloc_gap d v bs = None"
proof (induction bs)
  case (Cons x bs)
  show ?case
  proof (cases bs)
    case (Cons y zs)
    have "\<not> (blk_sva d x < v \<and> v < blk_sva d y)"
      using Cons.prems(1,2,3) Cons by auto
    moreover have "alloc_gap d v bs = None"
    proof (cases "a = x")
      case True
      have "\<not> blk_sva d b < v" if "b \<in> set bs" for b
        using Cons.prems(1,3) that True by auto
      then show ?thesis
        by (simp add: alloc_gap_above)
    next
      case False
      with Cons.IH Cons.prems show ?thesis by simp
    qed
    ultimately show ?thesis
      by (simp add: Cons)
  qed simp
qed simp

lemma insert_alloc_dropped:
  assumes "alloc_sorted d" and "a \<in> set (AllocMemBlocksList d)" and "blk_sva d a = blk_sva d b"
  shows "insert_sorted_allocList b d = Inr d"
proof -
  let ?al = "AllocMemBlocksList d"
  obtain xs ys where al: "?al = xs @ a # ys"
    using assms(2) by (meson split_list)
  have "\<not> blk_sva d b < blk_sva d (hd ?al)"
    using assms(1,3) by (cases xs) (auto simp: alloc_sorted_def al)
  moreover have "\<not> blk_sva d (last ?al) < blk_sva d b"
    using assms(1,3) by (cases ys rule: rev_cases) (auto simp: alloc_sorted_def al sorted_wrt_append)
  moreover have "alloc_gap d (blk_sva d b) ?al = None"
    using alloc_gap_equal [of d ?al a] assms by (simp add: alloc_sorted_def)
  ultimately show ?thesis
    using assms(2) by (auto simp: insert_sorted_allocList_def Let_def)
qed

lemma alloc_sorted_upd:
  "alloc_sorted (d\<lparr>AllocMemBlocksList := al\<rparr>) \<longleftrightarrow>
     sorted_wrt (\<lambda>a b. blk_sva d a < blk_sva d b) al"
  by (simp add: alloc_sorted_def)

lemma sorted_wrt_insert:
  "sorted_wrt R (xs @ ys) \<Longrightarrow> \<forall>a\<in>set xs. R a b \<Longrightarrow> \<forall>a\<in>set ys. R b a \<Longrightarrow>
   sorted_wrt R (xs @ b # ys)"
  by (simp add: sorted_wrt_append)

lemma insert_alloc_at:
  assumes al: "AllocMemBlocksList d = xs @ ys"
    and s: "sorted_wrt (\<lambda>a b. blk_sva d a < blk_sva d b) (xs @ ys)"
    and xs: "\<forall>a\<in>set xs. blk_sva d a < blk_sva d b" and ys: "\<forall>a\<in>set ys. blk_sva d b < blk_sva d a"
    and nb: "b \<notin> set (AllocMemBlocksList d)"
  shows "insert_sorted_allocList b d = Inr (d\<lparr>AllocMemBlocksList := xs @ b # ys\<rparr>)"
proof (cases xs rule: rev_cases)
  case Nil
  then show ?thesis
    using ys nb
    by (cases ys) (auto simp: insert_sorted_allocList_def al list_insert_head_def)
next
  case (snoc xs' a)
  have hd: "\<not> blk_sva d b < blk_sva d (hd (xs' @ a # ys))"
    using xs by (cases xs') (auto simp: snoc dest: less_imp_not_less)
  show ?thesis
  proof (cases ys)
    case Nil
    with hd xs nb show ?thesis
      by (simp add: insert_sorted_allocList_def al snoc list_insert_tail_def Let_def)
  next
    case (Cons c ys')
    have "\<not> blk_sva d (last (xs' @ a # c # ys')) < blk_sva d b"
      using ys by (auto simp: Cons not_less intro: less_imp_le)
    moreover have "alloc_gap d (blk_sva d b) (xs' @ a # c # ys') = Some a"
      using s xs ys by (intro alloc_gap_at) (simp_all add: snoc Cons)
    moreover have "a \<notin> set xs'"
      using s by (auto simp: snoc sorted_wrt_append)
    ultimately show ?thesis
      using hd nb
      by (simp add: insert_sorted_allocList_def al snoc Cons list_insert_after_def Let_def
          insert_in_append)
  qed
qed

lemma insert_alloc_sorted:
  assumes srt: "alloc_sorted d" and nb: "b \<notin> set (AllocMemBlocksList d)"
    and new: "\<forall>a\<in>set (AllocMemBlocksList d). blk_sva d a \<noteq> blk_sva d b"
  shows "\<exists>xs ys. AllocMemBlocksList d = xs @ ys \<and>
           insert_sorted_allocList b d = Inr (d\<lparr>AllocMemBlocksList := xs @ b # ys\<rparr>) \<and>
           alloc_sorted (d\<lparr>AllocMemBlocksList := xs @ b # ys\<rparr>)"
proof -
  let ?R = "\<lambda>a b. blk_sva d a < blk_sva d b"
  let ?xs = "takeWhile (\<lambda>a. ?R a b) (AllocMemBlocksList d)"
  let ?ys = "dropWhile (\<lambda>a. ?R a b) (AllocMemBlocksList d)"
  have al: "AllocMemBlocksList d = ?xs @ ?ys"
    by simp
  have s: "sorted_wrt ?R (?xs @ ?ys)"
    using srt by (simp add: alloc_sorted_def)
  have xs: "\<forall>a\<in>set ?xs. ?R a b"
    using set_takeWhileD by fastforce
  have ys: "\<forall>a\<in>set ?ys. ?R b a"
  proof (cases ?ys)
    case (Cons y zs)
    then have "\<not> ?R y b"
      using hd_dropWhile [of "\<lambda>a. ?R a b" "AllocMemBlocksList d"] by simp
    moreover have "y \<in> set (AllocMemBlocksList d)"
      using Cons by (metis list.set_intros(1) set_dropWhileD)
    ultimately have "?R b y"
      using new by force
    with s show ?thesis
      by (auto simp: Cons sorted_wrt_append dest: less_trans)
  qed (simp only: list.set ball_empty)
  have srt': "alloc_sorted (d\<lparr>AllocMemBlocksList := ?xs @ b # ?ys\<rparr>)"
    using sorted_wrt_insert [OF s xs ys] by (simp only: alloc_sorted_upd)
  have "insert_sorted_allocList b d = Inr (d\<lparr>AllocMemBlocksList := ?xs @ b # ?ys\<rparr>)"
    using insert_alloc_at [OF al s xs ys] nb by (simp only: not_False_eq_True simp_thms)
  with al srt' show ?thesis
    by blast
qed

lemma find_loop_Some: "find_loop d va bs = Some b \<Longrightarrow> b \<in> set bs \<and> blk_sva d b = va"
  by (induction bs) (auto split: if_splits)

lemma find_loop_None: "find_loop d va bs = None \<longleftrightarrow> (\<forall>b\<in>set bs. blk_sva d b \<noteq> va)"
  by (induction bs) auto

lemma find_block_iff:
  assumes "alloc_sorted d"
  shows "find_block l va d = Some b \<longleftrightarrow> b \<in> set (AllocMemBlocksList d) \<and> blk_sva d b = va"
proof
  show "find_block l va d = Some b \<Longrightarrow> b \<in> set (AllocMemBlocksList d) \<and> blk_sva d b = va"
    by (simp add: find_block_def find_loop_Some)
next
  assume b: "b \<in> set (AllocMemBlocksList d) \<and> blk_sva d b = va"
  then obtain c where c: "find_block l va d = Some c"
    using find_loop_None [of d va "AllocMemBlocksList d"] by (auto simp: find_block_def)
  then have "c \<in> set (AllocMemBlocksList d) \<and> blk_sva d c = va"
    by (simp add: find_block_def find_loop_Some)
  with b assms have "c = b"
    by (auto simp: alloc_sorted_def sorted_wrt_iff_nth_less in_set_conv_nth) (metis linorder_neqE_nat less_irrefl)
  with c show "find_block l va d = Some b" by simp
qed

lemma init_loop_run:
  "distinct is \<Longrightarrow> set is \<inter> set xs = {} \<Longrightarrow> init_loop is xs = Inr (rev is @ xs)"
  by (induction "is" arbitrary: xs) (auto simp: list_insert_head_def)

lemma initialize_run:
  "initialize_MemBlocksList n d = Inr (d\<lparr>AvailableMemBlocksList := rev [0..<n]\<rparr>)"
  by (simp add: initialize_MemBlocksList_def init_loop_run)

section \<open>Properties\<close>

text \<open>C1: First fit in a free list that is sorted and merged: when some range of the requested
  size is free, the call returns the node of the lowest such range, which leaves the free
  set and nothing else does; the allocated blocks are untouched and the free list stays
  sorted and merged.\<close>

theorem first_fit_lowest:
  assumes "dyn_inv d" and "0 < s" and "AvailableMemBlocksList d \<noteq> []"
    and "{a..<a + unat s} \<subseteq> free_set d"
  shows "\<exists>n d'. alloc_block_FF s d = Inr (Some n, d') \<and> took s n d d' \<and>
           (\<forall>a. {a..<a + unat s} \<subseteq> free_set d \<longrightarrow> unat (blk_sva d' n) \<le> a)"
  using alloc_block_FF_fits [OF assms(1-3)] fits_block [OF assms(1,2,4)] by blast

definition dyn_example :: dyn where
  "dyn_example = \<lparr>blk_sva = (\<lambda>i. if i = 2 then 0x1000 else if i = 3 then 0x5000 else 0x9000),
     blk_size = (\<lambda>i. if i = 2 then 0x1000 else if i = 3 then 0x3000 else 0x2000),
     AvailableMemBlocksList = [1, 0], FreeMemBlocksList = [2, 3],
     AllocMemBlocksList = [4]\<rparr>"

lemma dyn_example_inv: "dyn_inv dyn_example"
  by (simp add: dyn_inv_iff dyn_example_def)

theorem first_fit_lowest_witness:
  "\<exists>n d'. alloc_block_FF 0x2000 dyn_example = Inr (Some n, d') \<and> took 0x2000 n dyn_example d' \<and>
     (\<forall>a. {a..<a + unat (0x2000 :: u32)} \<subseteq> free_set dyn_example \<longrightarrow> unat (blk_sva d' n) \<le> a)"
  by (rule first_fit_lowest [OF dyn_example_inv, where a = "0x5000"])
    (auto simp: dyn_example_def free_set_def free_ivs_def)

text \<open>First fit returns NULL, changing nothing, when no range of the requested size is
  free.\<close>

theorem first_fit_fails:
  assumes "dyn_inv d" and "0 < s" and "\<forall>a. \<not> {a..<a + unat s} \<subseteq> free_set d"
  shows "alloc_block_FF s d = Inr (None, d)"
  using assms by (rule alloc_block_FF_none)

theorem first_fit_fails_witness:
  "alloc_block_FF 0x4000 dyn_example = Inr (None, dyn_example)"
proof (rule first_fit_fails [OF dyn_example_inv])
  have "\<forall>b\<in>set (FreeMemBlocksList dyn_example). blk_size dyn_example b < 0x4000"
    by (simp add: dyn_example_def)
  then show "\<forall>a. \<not> {a..<a + unat (0x4000 :: u32)} \<subseteq> free_set dyn_example"
    using no_fit_iff [OF dyn_example_inv, where s = "0x4000"] by simp
qed simp

text \<open>C2: Best fit returns the low end of a free block of minimal sufficient size, takes exactly
  the requested range out of the free set and keeps the free list sorted and merged.\<close>

theorem best_fit_minimal:
  assumes "dyn_inv d" and "0 < s" and "AvailableMemBlocksList d \<noteq> []"
    and "\<exists>b\<in>set (FreeMemBlocksList d). s \<le> blk_size d b"
  shows "\<exists>n d'. alloc_block_BF gs ga s d = Inr (Some n, d') \<and> took s n d d' \<and>
           (\<exists>b\<in>set (FreeMemBlocksList d). blk_sva d' n = blk_sva d b \<and> s \<le> blk_size d b \<and>
             (\<forall>c\<in>set (FreeMemBlocksList d). s \<le> blk_size d c \<longrightarrow> blk_size d b \<le> blk_size d c))"
  using assms by (rule alloc_block_BF_fits)

theorem best_fit_minimal_witness:
  "\<exists>n d'. alloc_block_BF 7 8 0x1000 dyn_example = Inr (Some n, d') \<and>
     took 0x1000 n dyn_example d' \<and>
     (\<exists>b\<in>set (FreeMemBlocksList dyn_example). blk_sva d' n = blk_sva dyn_example b \<and>
       0x1000 \<le> blk_size dyn_example b \<and>
       (\<forall>c\<in>set (FreeMemBlocksList dyn_example). 0x1000 \<le> blk_size dyn_example c \<longrightarrow>
          blk_size dyn_example b \<le> blk_size dyn_example c))"
  by (rule best_fit_minimal [OF dyn_example_inv]) (simp_all add: dyn_example_def)

text \<open>Best fit with a request larger than every free block, when the stack slots of the
  unassigned locals happen to hold the size and address of a free block: the call does
  not fail, it returns a node of the requested size at that address, more than was free.\<close>

theorem best_fit_stale_locals:
  assumes "dyn_inv d" and "\<forall>b\<in>set (FreeMemBlocksList d). blk_size d b < s"
    and "b \<in> set (FreeMemBlocksList d)" and "AvailableMemBlocksList d = n # av"
  shows "\<exists>d'. alloc_block_BF (blk_size d b) (blk_sva d b) s d = Inr (Some n, d') \<and>
           blk_sva d' n = blk_sva d b \<and> blk_size d' n = s"
  using alloc_block_BF_stale [OF assms(1-3) refl refl assms(4)] .

theorem best_fit_stale_locals_witness:
  "\<exists>d'. alloc_block_BF 0x1000 0x1000 0x8000 dyn_example = Inr (Some 1, d') \<and>
     blk_sva d' 1 = 0x1000 \<and> blk_size d' 1 = 0x8000"
  using best_fit_stale_locals [OF dyn_example_inv, where s = "0x8000" and b = "2" and n = "1" and av = "[0]"]
  by (simp add: dyn_example_def)

text \<open>C3: Giving a block back: inserting a block that overlaps no free range adds exactly its
  range to the free set; the free list stays sorted, with neighbours merged (on neither
  side, one side or both), the nodes that merging frees go back to the available list, and
  no allocated block changes.\<close>

theorem free_insert_merges:
  assumes "dyn_inv d" and "fresh_block b d"
  shows "\<exists>d'. insert_sorted_with_merge_freeList b d = Inr d' \<and> gave b d d'"
  using assms by (rule insert_free_gave)

definition dyn_example_gap :: dyn where
  "dyn_example_gap = \<lparr>blk_sva = (\<lambda>i. if i = 2 then 0x1000 else if i = 3 then 0x5000 else 0x2000),
     blk_size = (\<lambda>i. if i = 2 then 0x1000 else if i = 3 then 0x3000 else 0x3000),
     AvailableMemBlocksList = [1, 0], FreeMemBlocksList = [2, 3],
     AllocMemBlocksList = []\<rparr>"

theorem free_insert_merges_witness:
  "\<exists>d'. insert_sorted_with_merge_freeList 4 dyn_example_gap = Inr d' \<and> gave 4 dyn_example_gap d'"
  by (rule free_insert_merges)
    (auto simp: dyn_inv_iff fresh_block_def dyn_example_gap_def span_def free_set_def free_ivs_def)

text \<open>C4: Allocating by first fit and giving the block back restores the free list interval for
  interval: no fragmentation is left behind.\<close>

theorem alloc_free_roundtrip:
  assumes "dyn_inv d" and "0 < s" and "AvailableMemBlocksList d \<noteq> []"
    and "\<exists>b\<in>set (FreeMemBlocksList d). s \<le> blk_size d b"
  shows "\<exists>n d' d''. alloc_block_FF s d = Inr (Some n, d') \<and>
           insert_sorted_with_merge_freeList n d' = Inr d'' \<and> free_ivs d'' = free_ivs d"
proof -
  obtain n d' where run: "alloc_block_FF s d = Inr (Some n, d')" and t: "took s n d d'"
    using alloc_block_FF_fits [OF assms] by blast
  have "dyn_inv d'"
    using t by (simp add: took_def)
  from insert_free_gave [OF this took_fresh [OF assms(1) t assms(2)]] obtain d'' where
    "insert_sorted_with_merge_freeList n d' = Inr d''" "gave n d' d''"
    by blast
  with run took_gave_restores [OF assms(1) t] show ?thesis
    by blast
qed

theorem alloc_free_roundtrip_witness:
  "\<exists>n d' d''. alloc_block_FF 0x2000 dyn_example = Inr (Some n, d') \<and>
     insert_sorted_with_merge_freeList n d' = Inr d'' \<and> free_ivs d'' = free_ivs dyn_example"
  by (rule alloc_free_roundtrip [OF dyn_example_inv]) (simp_all add: dyn_example_def)

text \<open>The allocated list stays sorted by address when a block with a new address is
  recorded; a block whose address is already recorded is silently not recorded.\<close>

theorem alloc_list_insert:
  assumes "alloc_sorted d" and "b \<notin> set (AllocMemBlocksList d)"
  shows "if \<exists>a\<in>set (AllocMemBlocksList d). blk_sva d a = blk_sva d b
         then insert_sorted_allocList b d = Inr d
         else \<exists>xs ys. AllocMemBlocksList d = xs @ ys \<and>
                insert_sorted_allocList b d = Inr (d\<lparr>AllocMemBlocksList := xs @ b # ys\<rparr>) \<and>
                alloc_sorted (d\<lparr>AllocMemBlocksList := xs @ b # ys\<rparr>)"
  using insert_alloc_dropped [OF assms(1)] insert_alloc_sorted [OF assms] by auto

theorem alloc_list_insert_witness:
  "insert_sorted_allocList 5 dyn_example = Inr dyn_example"
  using alloc_list_insert [of dyn_example 5] by (simp add: dyn_example_def alloc_sorted_def)

end
