(* ===== verification/Memory_Manager.thy ===== *)
theory Memory_Manager
  imports Dyn_Alloc
begin

text \<open>
  Physical frames and page tables: \<^verbatim>\<open>kern/mem/memory_manager.c\<close>,
  \<^verbatim>\<open>kern/mem/paging_helpers.c\<close> and the frame/address conversions of
  \<^verbatim>\<open>kern/mem/memory_manager.h\<close>. A \<^verbatim>\<open>struct FrameInfo*\<close> is the index of the
  frame in \<^verbatim>\<open>frames_info\<close>. A page directory or page table is named by the kernel
  virtual address through which the kernel reads and writes it, \<open>tables s p i\<close> being entry
  \<open>i\<close> of the table at \<open>p\<close>; the kernel uses one address per table (the kernel heap address of a
  user table, the static address of a kernel table). \<open>ram s f\<close> is the contents of frame \<open>f\<close>,
  used for the pages of user programs. The kernel is built with \<^verbatim>\<open>USE_KHEAP\<close> 1.
\<close>

section \<open>State\<close>

record kmem =
  number_of_frames :: nat
  references :: "nat \<Rightarrow> u16"
  frame_va :: "nat \<Rightarrow> u32"
  frame_environment :: "nat \<Rightarrow> nat option"
  isBuffered :: "nat \<Rightarrow> u8"
  free_frame_list :: "nat list"
  modified_frame_list :: "nat list"
  tables :: "u32 \<Rightarrow> u32 \<Rightarrow> u32"
  ram :: "nat \<Rightarrow> nat \<Rightarrow> u8"
  ptr_page_directory :: u32
  env_page_directory :: "nat \<Rightarrow> u32"
  kheap :: dyn
  KHeapPlacementStrategy :: u32
  stale_newsize :: u32
  stale_newveradd :: u32

definition TABLE_IN_MEMORY :: nat where "TABLE_IN_MEMORY = 0"
definition TABLE_NOT_EXIST :: nat where "TABLE_NOT_EXIST = 1"

definition to_physical_address :: "nat \<Rightarrow> u32" where
  "to_physical_address f = push_bit 12 (of_nat f)"

definition to_frame_info :: "u32 \<Rightarrow> kmem \<Rightarrow> nat result" where
  "to_frame_info physical_address s =
     (if number_of_frames s \<le> unat (PPN physical_address) then Inl Panic
      else Inr (unat (PPN physical_address)))"

definition STATIC_KERNEL_PHYSICAL_ADDRESS :: "u32 \<Rightarrow> u32 result" where
  "STATIC_KERNEL_PHYSICAL_ADDRESS kva =
     (if kva < KERNEL_BASE then Inl Panic else Inr (kva - KERNEL_BASE))"

definition STATIC_KERNEL_VIRTUAL_ADDRESS :: "u32 \<Rightarrow> kmem \<Rightarrow> u32 result" where
  "STATIC_KERNEL_VIRTUAL_ADDRESS pa s =
     (if number_of_frames s \<le> unat (PPN pa) then Inl Panic else Inr (pa + KERNEL_BASE))"

text \<open>Entry \<open>i\<close> of the table at \<open>p\<close>: reading, writing, and both through a NULL pointer.\<close>

definition table_read :: "u32 \<Rightarrow> u32 \<Rightarrow> kmem \<Rightarrow> u32 result" where
  "table_read p i s = (if p = 0 then Inl Null_Deref else Inr (tables s p i))"

definition set_entry :: "u32 \<Rightarrow> u32 \<Rightarrow> u32 \<Rightarrow> kmem \<Rightarrow> kmem" where
  "set_entry p i v s = s\<lparr>tables := (tables s)(p := (tables s p)(i := v))\<rparr>"

definition table_write :: "u32 \<Rightarrow> u32 \<Rightarrow> u32 \<Rightarrow> kmem \<Rightarrow> kmem result" where
  "table_write p i v s = (if p = 0 then Inl Null_Deref else Inr (set_entry p i v s))"

section \<open>Frames\<close>

definition initialize_frame_info :: "nat \<Rightarrow> kmem \<Rightarrow> kmem" where
  "initialize_frame_info f s =
     s\<lparr>references := (references s)(f := 0), frame_va := (frame_va s)(f := 0),
       frame_environment := (frame_environment s)(f := None), isBuffered := (isBuffered s)(f := 0)\<rparr>"

definition kheap_virtual_address :: "u32 \<Rightarrow> kmem \<Rightarrow> u32 result" where
  "kheap_virtual_address physical_address s =
     andthen (to_frame_info physical_address s) (\<lambda>f. Inr (frame_va s f))"

definition table_address :: "u32 \<Rightarrow> u32 \<Rightarrow> kmem \<Rightarrow> u32 result" where
  "table_address virtual_address page_directory_entry s =
     (if \<not> CHECK_IF_KERNEL_ADDRESS virtual_address
      then kheap_virtual_address (EXTRACT_ADDRESS page_directory_entry) s
      else STATIC_KERNEL_VIRTUAL_ADDRESS (EXTRACT_ADDRESS page_directory_entry) s)"

text \<open>
  The result is the return code and the value stored in \<^verbatim>\<open>*ptr_page_table\<close>. A directory
  entry that is neither present nor 0 leads to \<^verbatim>\<open>fault_handler(NULL)\<close>, which reads
  through its NULL trap frame.
\<close>

definition get_page_table :: "u32 \<Rightarrow> u32 \<Rightarrow> kmem \<Rightarrow> (nat \<times> u32) result" where
  "get_page_table dir virtual_address s =
     andthen (table_read dir (PDX virtual_address) s) (\<lambda>page_directory_entry.
       if page_directory_entry AND PERM_PRESENT = PERM_PRESENT then
         andthen (table_address virtual_address page_directory_entry s)
           (\<lambda>p. Inr (TABLE_IN_MEMORY, p))
       else if page_directory_entry \<noteq> 0 then Inl Null_Deref
       else Inr (TABLE_NOT_EXIST, 0))"

definition pt_clear_page_table_entry :: "u32 \<Rightarrow> u32 \<Rightarrow> kmem \<Rightarrow> kmem result" where
  "pt_clear_page_table_entry dir virtual_address s =
     andthen (get_page_table dir virtual_address s) (\<lambda>(ret, p).
       if ret = TABLE_IN_MEMORY then table_write p (PTX virtual_address) 0 s
       else Inl Panic)"

definition allocate_frame :: "kmem \<Rightarrow> (nat \<times> kmem) result" where
  "allocate_frame s =
     (case list_first (free_frame_list s) of
        None \<Rightarrow> Inl Panic
      | Some f \<Rightarrow>
          andthen (list_remove (free_frame_list s) (Some f)) (\<lambda>fl.
            let s = s\<lparr>free_frame_list := fl\<rparr> in
            andthen
              (if isBuffered s f \<noteq> 0 then
                 (case frame_environment s f of
                    None \<Rightarrow> Inl Null_Deref
                  | Some e \<Rightarrow> pt_clear_page_table_entry (env_page_directory s e) (frame_va s f) s)
               else Inr s)
              (\<lambda>s. Inr (f, initialize_frame_info f s))))"

definition free_frame :: "nat \<Rightarrow> kmem \<Rightarrow> kmem result" where
  "free_frame f s =
     (let s = initialize_frame_info f s in
      andthen (list_insert_head (free_frame_list s) (Some f))
        (\<lambda>fl. Inr (s\<lparr>free_frame_list := fl\<rparr>)))"

definition decrement_references :: "nat \<Rightarrow> kmem \<Rightarrow> kmem result" where
  "decrement_references f s =
     (let s = s\<lparr>references := (references s)(f := references s f - 1)\<rparr> in
      if references s f = 0 then free_frame f s else Inr s)"

section \<open>Initialisation\<close>

text \<open>
  \<open>free_mem\<close> is \<^verbatim>\<open>ptr_free_mem\<close>. Only the first 1024 bytes of the zero and temporary
  pages are cleared.
\<close>

definition PHYS_IO_MEM :: u32 where "PHYS_IO_MEM = 0x0A0000"
definition PHYS_EXTENDED_MEM :: u32 where "PHYS_EXTENDED_MEM = 0x100000"

definition mark_used :: "nat \<Rightarrow> kmem \<Rightarrow> kmem" where
  "mark_used i s = s\<lparr>references := (references s)(i := 1)\<rparr>"

definition put_free :: "nat \<Rightarrow> kmem \<Rightarrow> kmem result" where
  "put_free i s =
     (let s = initialize_frame_info i s in
      andthen (list_insert_head (free_frame_list s) (Some i))
        (\<lambda>fl. Inr (s\<lparr>free_frame_list := fl\<rparr>)))"

definition initialize_frames :: "u32 \<Rightarrow> kmem \<Rightarrow> kmem result" where
  "initialize_frames free_mem s =
     (let s = s\<lparr>free_frame_list := [], modified_frame_list := []\<rparr>;
          s = mark_used 2 (mark_used 1 (mark_used 0 s));
          s = s\<lparr>ram := (ram s)(1 := (\<lambda>j. if j < 1024 then 0 else ram s 1 j),
                             2 := (\<lambda>j. if j < 1024 then 0 else ram s 2 j))\<rparr>;
          range_end = ROUNDUP PHYS_IO_MEM PAGE_SIZE
      in andthen (for_each put_free [3..<unat range_end div 4096] s) (\<lambda>s.
         let s = fold mark_used [unat PHYS_IO_MEM div 4096..<unat PHYS_EXTENDED_MEM div 4096] s in
         andthen (STATIC_KERNEL_PHYSICAL_ADDRESS free_mem) (\<lambda>pa.
         let range_end = ROUNDUP pa PAGE_SIZE;
             s = fold mark_used [unat PHYS_EXTENDED_MEM div 4096..<unat range_end div 4096] s
         in for_each put_free [unat range_end div 4096..<number_of_frames s] s)))"

section \<open>Mapping\<close>

text \<open>
  \<^verbatim>\<open>get_frame_info\<close> returns the frame and the table pointer it stores. An entry that is
  not 0 counts as a mapping, present or not.
\<close>

definition get_frame_info :: "u32 \<Rightarrow> u32 \<Rightarrow> kmem \<Rightarrow> (nat option \<times> u32) result" where
  "get_frame_info dir virtual_address s =
     andthen (get_page_table dir virtual_address s) (\<lambda>(ret, p).
       if p \<noteq> 0 then
         (let page_table_entry = tables s p (PTX virtual_address) in
          if page_table_entry \<noteq> 0 then
            andthen (to_frame_info (EXTRACT_ADDRESS page_table_entry) s) (\<lambda>f. Inr (Some f, p))
          else Inr (None, p))
       else Inr (None, p))"

definition unmap_frame :: "u32 \<Rightarrow> u32 \<Rightarrow> kmem \<Rightarrow> kmem result" where
  "unmap_frame dir virtual_address s =
     andthen (get_frame_info dir virtual_address s) (\<lambda>(fi, p).
       case fi of
         None \<Rightarrow> Inr s
       | Some f \<Rightarrow>
           andthen (decrement_references f s) (\<lambda>s.
             table_write p (PTX virtual_address) 0 s))"

text \<open>
  \<^verbatim>\<open>create_page_table\<close> allocates through the kernel heap, whose allocation maps frames
  again. The operations that may create a table take it as the argument \<open>cpt\<close>; the kernel
  heap theory ties the knot.
\<close>

definition map_frame_with ::
    "(u32 \<Rightarrow> u32 \<Rightarrow> kmem \<Rightarrow> (u32 \<times> kmem) result) \<Rightarrow> u32 \<Rightarrow> nat \<Rightarrow> u32 \<Rightarrow> u32 \<Rightarrow> kmem \<Rightarrow> kmem result"
  where
  "map_frame_with cpt dir f virtual_address perm s =
     (let physical_address = to_physical_address f in
      andthen (get_page_table dir virtual_address s) (\<lambda>(ret, p).
      andthen (if ret = TABLE_NOT_EXIST then cpt dir virtual_address s else Inr (p, s)) (\<lambda>(p, s).
      andthen (table_read p (PTX virtual_address) s) (\<lambda>page_table_entry.
        if page_table_entry AND PERM_PRESENT = PERM_PRESENT \<and>
           EXTRACT_ADDRESS page_table_entry = physical_address then Inr s
        else
          andthen (if page_table_entry AND PERM_PRESENT = PERM_PRESENT
                   then unmap_frame dir virtual_address s else Inr s) (\<lambda>s.
            let s = s\<lparr>references := (references s)(f := references s f + 1)\<rparr> in
            table_write p (PTX virtual_address)
              (CONSTRUCT_ENTRY physical_address (perm OR PERM_PRESENT)) s)))))"

definition loadtime_map_frame_with ::
    "(u32 \<Rightarrow> u32 \<Rightarrow> kmem \<Rightarrow> (u32 \<times> kmem) result) \<Rightarrow> u32 \<Rightarrow> nat \<Rightarrow> u32 \<Rightarrow> u32 \<Rightarrow> kmem \<Rightarrow> kmem result"
  where
  "loadtime_map_frame_with cpt dir f virtual_address perm s =
     (let physical_address = to_physical_address f in
      andthen (table_read dir (PDX virtual_address) s) (\<lambda>page_directory_entry.
      andthen (table_address virtual_address page_directory_entry s) (\<lambda>p.
      andthen (if page_directory_entry = 0 then cpt dir virtual_address s else Inr (p, s)) (\<lambda>(p, s).
        let s = s\<lparr>references := (references s)(f := references s f + 1)\<rparr> in
        table_write p (PTX virtual_address)
          (CONSTRUCT_ENTRY physical_address (perm OR PERM_PRESENT)) s))))"

record freeFramesCounters =
  freeBuffered :: u32
  freeNotBuffered :: u32
  modified :: u32

definition calculate_available_frames :: "kmem \<Rightarrow> freeFramesCounters" where
  "calculate_available_frames s =
     \<lparr>freeBuffered = of_nat (length (filter (\<lambda>f. isBuffered s f \<noteq> 0) (free_frame_list s))),
      freeNotBuffered = of_nat (length (filter (\<lambda>f. isBuffered s f = 0) (free_frame_list s))),
      modified = of_nat (length (modified_frame_list s))\<rparr>"

section \<open>Paging helpers\<close>

definition pt_set_page_permissions :: "u32 \<Rightarrow> u32 \<Rightarrow> u32 \<Rightarrow> u32 \<Rightarrow> kmem \<Rightarrow> kmem result" where
  "pt_set_page_permissions dir va pset clear s =
     andthen (get_page_table dir va s) (\<lambda>(ret, p).
       if p \<noteq> 0 then
         (let i = PTX va; e = tables s p i in
          if pset \<noteq> 0 \<and> clear = 0 then Inr (set_entry p i (e OR pset) s)
          else if clear \<noteq> 0 \<and> pset = 0 then Inr (set_entry p i (e AND NOT clear) s)
          else if clear \<noteq> 0 \<and> pset \<noteq> 0 then Inr (set_entry p i ((e OR pset) AND NOT clear) s)
          else Inr s)
       else Inl Panic)"

definition pt_get_page_permissions :: "u32 \<Rightarrow> u32 \<Rightarrow> kmem \<Rightarrow> u32 result" where
  "pt_get_page_permissions dir virtual_address s =
     andthen (get_page_table dir virtual_address s) (\<lambda>(ret, p).
       if ret = TABLE_IN_MEMORY then
         andthen (table_read p (PTX virtual_address) s) (\<lambda>e. Inr (e AND 0xFFF))
       else Inr (- 1))"

definition virtual_to_physical :: "u32 \<Rightarrow> u32 \<Rightarrow> kmem \<Rightarrow> u32 result" where
  "virtual_to_physical dir virtual_address s =
     andthen (get_page_table dir virtual_address s) (\<lambda>(ret, p).
       if ret = TABLE_IN_MEMORY then
         andthen (table_read p (PTX virtual_address) s)
           (\<lambda>entry. let frame_number = drop_bit 12 entry in Inr (frame_number * PAGE_SIZE))
       else Inr (- 1))"

definition pd_is_table_used :: "u32 \<Rightarrow> u32 \<Rightarrow> kmem \<Rightarrow> u32" where
  "pd_is_table_used dir virtual_address s =
     (if tables s dir (PDX virtual_address) AND PERM_USED = PERM_USED then 1 else 0)"

definition pd_set_table_unused :: "u32 \<Rightarrow> u32 \<Rightarrow> kmem \<Rightarrow> kmem" where
  "pd_set_table_unused dir virtual_address s =
     set_entry dir (PDX virtual_address) (tables s dir (PDX virtual_address) AND NOT PERM_USED) s"

definition pd_clear_page_dir_entry :: "u32 \<Rightarrow> u32 \<Rightarrow> kmem \<Rightarrow> kmem" where
  "pd_clear_page_dir_entry dir virtual_address s = set_entry dir (PDX virtual_address) 0 s"

definition kheap_physical_address :: "u32 \<Rightarrow> kmem \<Rightarrow> u32 result" where
  "kheap_physical_address virtual_address s =
     virtual_to_physical (ptr_page_directory s) virtual_address s"

section \<open>Page table entries\<close>

lemma take_bit_small: "unat (w :: u32) < 2 ^ n \<Longrightarrow> take_bit n w = w"
  by (simp add: word_unat_eq_iff unsigned_take_bit_eq take_bit_nat_eq_self)

lemma take_bit_small_iff: "take_bit n (w :: u32) = w \<longleftrightarrow> unat w < 2 ^ n"
proof
  assume "take_bit n w = w"
  then have "take_bit n (unat w) = unat w"
    by (metis unsigned_take_bit_eq)
  then show "unat w < 2 ^ n"
    by (metis take_bit_nat_less_exp)
qed (rule take_bit_small)

lemma perm_small: "(perm :: u32) < 4096 \<longleftrightarrow> take_bit 12 perm = perm"
  by (simp add: take_bit_small_iff word_less_nat_alt)

lemma perm_bits: "(perm :: u32) < 4096 \<Longrightarrow> \<not> bit perm (n + 12)"
  by (metis perm_small bit_take_bit_iff not_add_less2)

lemma frame_bits: "f < 1048576 \<Longrightarrow> bit (f :: nat) n \<Longrightarrow> n < 20"
proof -
  assume "f < 1048576" and b: "bit f n"
  then have "take_bit 20 f = f"
    by (intro take_bit_nat_eq_self) simp
  then show "n < 20"
    using b by (metis bit_take_bit_iff)
qed

lemma unat_frame: "f < 1048576 \<Longrightarrow> unat (of_nat f :: u32) = f"
  by (simp add: unat_of_nat)

lemma mask_12: "(0xFFF :: u32) = mask 12"
  by (simp add: mask_eq_exp_minus_1)

lemma entry_parts:
  assumes "f < 1048576" and "perm < 4096"
  shows "EXTRACT_ADDRESS (CONSTRUCT_ENTRY (to_physical_address f) perm) = to_physical_address f"
    and "CONSTRUCT_ENTRY (to_physical_address f) perm AND 0xFFF = perm"
    and "PPN (CONSTRUCT_ENTRY (to_physical_address f) perm) = of_nat f"
    and "PPN (to_physical_address f) = of_nat f"
proof -
  have p: "n < 12" if "bit perm n" for n
    using perm_bits [OF assms(2), of "n - 12"] that by (cases "n < 12") simp_all
  note q = frame_bits [OF assms(1)]
  show "EXTRACT_ADDRESS (CONSTRUCT_ENTRY (to_physical_address f) perm) = to_physical_address f"
    unfolding EXTRACT_ADDRESS_def CONSTRUCT_ENTRY_def to_physical_address_def mask_12
    by (rule bit_eqI) (auto simp: bit_simps not_less dest: p)
  show "CONSTRUCT_ENTRY (to_physical_address f) perm AND 0xFFF = perm"
    unfolding CONSTRUCT_ENTRY_def to_physical_address_def mask_12
    by (rule bit_eqI) (auto simp: bit_simps not_less dest: p)
  show "PPN (CONSTRUCT_ENTRY (to_physical_address f) perm) = of_nat f"
    unfolding PPN_def CONSTRUCT_ENTRY_def to_physical_address_def
    by (rule bit_eqI) (auto simp: bit_simps dest: p q)
  show "PPN (to_physical_address f) = of_nat f"
    unfolding PPN_def to_physical_address_def
    by (rule bit_eqI) (auto simp: bit_simps dest: q)
qed

lemma PPN_EXTRACT: "PPN (EXTRACT_ADDRESS e) = PPN e"
  unfolding PPN_def EXTRACT_ADDRESS_def mask_12
  by (rule bit_eqI) (auto simp: bit_simps dest: bit_imp_le_length)

lemma entry_present:
  "CONSTRUCT_ENTRY pa (perm OR PERM_PRESENT) AND PERM_PRESENT = PERM_PRESENT"
  unfolding CONSTRUCT_ENTRY_def perm_defs by (rule bit_eqI) (auto simp: bit_simps)

lemma present_nonzero: "e AND PERM_PRESENT = PERM_PRESENT \<Longrightarrow> e \<noteq> 0"
  by (auto simp: perm_defs)

lemma perm_or_present: "perm < 4096 \<Longrightarrow> (perm OR PERM_PRESENT) < 4096"
  unfolding perm_small by (simp add: perm_defs)

lemma PTX_lt: "unat (PTX va) < 1024"
proof -
  have "(0x3FF :: u32) = mask 10"
    by (simp add: mask_eq_exp_minus_1)
  then have "PTX va = take_bit 10 (drop_bit 12 va)"
    by (simp add: PTX_def take_bit_eq_mask)
  then have "unat (PTX va) = take_bit 10 (unat (drop_bit 12 va))"
    by (simp add: unsigned_take_bit_eq)
  then show ?thesis
    by (simp add: take_bit_nat_def)
qed

section \<open>Looking a table up\<close>

lemma set_entry_simps [simp]:
  "tables (set_entry p i v s) = (tables s)(p := (tables s p)(i := v))"
  "references (set_entry p i v s) = references s"
  "number_of_frames (set_entry p i v s) = number_of_frames s"
  "frame_va (set_entry p i v s) = frame_va s"
  "free_frame_list (set_entry p i v s) = free_frame_list s"
  "isBuffered (set_entry p i v s) = isBuffered s"
  "ptr_page_directory (set_entry p i v s) = ptr_page_directory s"
  "kheap (set_entry p i v s) = kheap s"
  by (simp_all add: set_entry_def)

lemma table_write_ok [simp]: "p \<noteq> 0 \<Longrightarrow> table_write p i v s = Inr (set_entry p i v s)"
  by (simp add: table_write_def)

lemma table_read_ok [simp]: "p \<noteq> 0 \<Longrightarrow> table_read p i s = Inr (tables s p i)"
  by (simp add: table_read_def)

text \<open>The lookup depends only on the directory entry and the frame behind it.\<close>

definition pde_frame :: "u32 \<Rightarrow> u32 \<Rightarrow> kmem \<Rightarrow> nat" where
  "pde_frame dir va s = unat (PPN (tables s dir (PDX va)))"

lemma get_page_table_cong:
  assumes "tables s' dir (PDX va) = tables s dir (PDX va)"
    and "number_of_frames s' = number_of_frames s"
    and "frame_va s' (pde_frame dir va s) = frame_va s (pde_frame dir va s)"
  shows "get_page_table dir va s' = get_page_table dir va s"
  using assms
  by (auto simp: get_page_table_def table_read_def table_address_def kheap_virtual_address_def
      to_frame_info_def STATIC_KERNEL_VIRTUAL_ADDRESS_def pde_frame_def PPN_EXTRACT)

lemma get_page_table_in_memory:
  assumes "get_page_table dir va s = Inr (ret, p)" and "p \<noteq> 0"
  shows "ret = TABLE_IN_MEMORY" and "dir \<noteq> 0"
  using assms by (auto simp: get_page_table_def table_read_def split: if_splits)

lemma codes_differ [simp]: "TABLE_IN_MEMORY \<noteq> TABLE_NOT_EXIST" "TABLE_NOT_EXIST \<noteq> TABLE_IN_MEMORY"
  by (simp_all add: TABLE_IN_MEMORY_def TABLE_NOT_EXIST_def)

text \<open>A state in which \<open>va\<close> has its table at \<open>p\<close>.\<close>

definition table_at :: "u32 \<Rightarrow> u32 \<Rightarrow> u32 \<Rightarrow> kmem \<Rightarrow> bool" where
  "table_at dir va p s \<longleftrightarrow>
     get_page_table dir va s = Inr (TABLE_IN_MEMORY, p) \<and> p \<noteq> 0 \<and> p \<noteq> dir"

lemma get_frame_info_at:
  "table_at dir va p s \<Longrightarrow>
   get_frame_info dir va s =
     (if tables s p (PTX va) = 0 then Inr (None, p)
      else if number_of_frames s \<le> unat (PPN (tables s p (PTX va))) then Inl Panic
      else Inr (Some (unat (PPN (tables s p (PTX va)))), p))"
  by (simp add: table_at_def get_frame_info_def to_frame_info_def PPN_EXTRACT)

lemma virtual_to_physical_at:
  "table_at dir va p s \<Longrightarrow>
   virtual_to_physical dir va s = Inr (PPN (tables s p (PTX va)) * PAGE_SIZE)"
  by (simp add: table_at_def virtual_to_physical_def Let_def PPN_def)

lemma pt_get_page_permissions_at:
  "table_at dir va p s \<Longrightarrow> pt_get_page_permissions dir va s = Inr (tables s p (PTX va) AND 0xFFF)"
  by (simp add: table_at_def pt_get_page_permissions_def)

lemma table_at_set_entry:
  "table_at dir va p s \<Longrightarrow> q \<noteq> dir \<Longrightarrow> table_at dir va p (set_entry q i v s)"
  using get_page_table_cong [of "set_entry q i v s" dir va s] by (simp add: table_at_def)

lemma table_at_references [simp]:
  "table_at dir va p (s\<lparr>references := r\<rparr>) = table_at dir va p s"
  using get_page_table_cong [of "s\<lparr>references := r\<rparr>" dir va s] by (simp add: table_at_def)

lemma table_at_ne: "table_at dir va p s \<Longrightarrow> p \<noteq> dir"
  by (simp add: table_at_def)

lemma to_physical_mult: "f < 1048576 \<Longrightarrow> of_nat f * PAGE_SIZE = to_physical_address f"
  by (simp add: to_physical_address_def push_bit_eq_mult PAGE_SIZE_def)

section \<open>Reference counts\<close>

text \<open>
  \<open>mappings s T f\<close> are the entries of the tables \<open>T\<close> that point to frame \<open>f\<close>. The invariant
  \<open>counted\<close> says that the reference count of every frame is the number of its mappings
  plus \<open>base f\<close>, a constant for what was pinned at boot.
\<close>

definition mappings :: "kmem \<Rightarrow> u32 set \<Rightarrow> nat \<Rightarrow> (u32 \<times> u32) set" where
  "mappings s T f =
     {(p, i). p \<in> T \<and> unat i < 1024 \<and> tables s p i \<noteq> 0 \<and> unat (PPN (tables s p i)) = f}"

definition counted :: "u32 set \<Rightarrow> (nat \<Rightarrow> nat) \<Rightarrow> kmem \<Rightarrow> bool" where
  "counted T base s \<longleftrightarrow>
     (\<forall>f<number_of_frames s. unat (references s f) = card (mappings s T f) + base f)"

definition frames_wf :: "kmem \<Rightarrow> bool" where
  "frames_wf s \<longleftrightarrow> number_of_frames s \<le> 1048576 \<and> distinct (free_frame_list s) \<and>
     (\<forall>f\<in>set (free_frame_list s). f < number_of_frames s \<and> references s f = 0)"

lemma finite_mappings [simp]: "finite (mappings s T f)"
  by (rule finite)

lemma mappings_set_entry:
  assumes "p \<in> T" and "unat i < 1024"
  shows "mappings (set_entry p i v s) T f =
           (mappings s T f - {(p, i)}) \<union> (if v \<noteq> 0 \<and> unat (PPN v) = f then {(p, i)} else {})"
proof -
  have upd: "tables (set_entry p i v s) q j = (if q = p \<and> j = i then v else tables s q j)" for q j
    by simp
  show ?thesis
    using assms by (auto simp: mappings_def upd simp del: set_entry_simps)
qed

lemma card_mappings_set_entry:
  assumes "p \<in> T" and "unat i < 1024"
  shows "card (mappings (set_entry p i v s) T f) +
             (if tables s p i \<noteq> 0 \<and> unat (PPN (tables s p i)) = f then 1 else 0) =
         card (mappings s T f) + (if v \<noteq> 0 \<and> unat (PPN v) = f then 1 else 0)"
proof -
  let ?m = "mappings s T f"
  have mem: "(p, i) \<in> ?m \<longleftrightarrow> tables s p i \<noteq> 0 \<and> unat (PPN (tables s p i)) = f"
    using assms by (simp add: mappings_def)
  have "card (?m - {(p, i)}) + (if (p, i) \<in> ?m then 1 else 0) = card ?m"
    using card.remove [OF finite_mappings, of "(p, i)" s T f] by (cases "(p, i) \<in> ?m") simp_all
  moreover have "card (mappings (set_entry p i v s) T f) =
      card (?m - {(p, i)}) + (if v \<noteq> 0 \<and> unat (PPN v) = f then 1 else 0)"
    by (simp add: mappings_set_entry [OF assms] card.insert_remove)
  ultimately show ?thesis
    using mem by simp
qed

lemma mappings_cong: "tables s' = tables s \<Longrightarrow> mappings s' T f = mappings s T f"
  by (simp add: mappings_def)

text \<open>Dropping one reference: the frame is freed exactly when it was the last one.\<close>

lemma decrement_ok:
  assumes "frames_wf s" and "f < number_of_frames s" and "0 < references s f"
  shows "\<exists>s'. decrement_references f s = Inr s' \<and> frames_wf s' \<and> tables s' = tables s \<and>
           number_of_frames s' = number_of_frames s \<and>
           references s' = (references s)(f := references s f - 1) \<and>
           (f \<in> set (free_frame_list s') \<longleftrightarrow> references s f = 1) \<and>
           set (free_frame_list s') - {f} = set (free_frame_list s) \<and>
           (\<forall>g. g \<noteq> f \<longrightarrow> frame_va s' g = frame_va s g)"
proof -
  have nf: "f \<notin> set (free_frame_list s)"
    using assms by (auto simp: frames_wf_def)
  have one: "references s f - 1 = 0 \<longleftrightarrow> references s f = 1"
    by simp
  have upd: "(references s)(f := 0) = (references s)(f := references s f - 1)"
    if "references s f = 1"
    using that by simp
  show ?thesis
  proof (cases "references s f = 1")
    case True
    then show ?thesis
      using assms nf
      by (auto simp: decrement_references_def free_frame_def initialize_frame_info_def
          list_insert_head_def frames_wf_def)
  next
    case False
    then have "references s f - 1 \<noteq> 0"
      using one by simp
    then show ?thesis
      using assms nf False by (auto simp: decrement_references_def frames_wf_def)
  qed
qed

lemma refs_pred: "0 < r \<Longrightarrow> unat (r - 1 :: u16) = unat r - 1"
  by (metis unat_minus_one word_neq_0_conv)

lemma refs_succ: "unat (r :: u16) < 65535 \<Longrightarrow> unat (r + 1) = unat r + 1"
  by (simp add: unat_word_ariths)

lemma counted_pos:
  assumes "counted T base s" and "p \<in> T" and "unat i < 1024" and "tables s p i \<noteq> 0"
    and "unat (PPN (tables s p i)) < number_of_frames s"
  shows "0 < references s (unat (PPN (tables s p i)))"
proof -
  have "(p, i) \<in> mappings s T (unat (PPN (tables s p i)))"
    using assms(2-4) by (simp add: mappings_def)
  then have "0 < card (mappings s T (unat (PPN (tables s p i))))"
    by (auto simp: card_gt_0_iff)
  then have "0 < unat (references s (unat (PPN (tables s p i))))"
    using assms(1,5) by (simp add: counted_def)
  then show ?thesis
    by (simp add: word_less_nat_alt)
qed

lemma unmap_frame_ok:
  assumes "frames_wf s" and cnt: "counted T base s" and at: "table_at dir va p s" and "p \<in> T"
    and e: "tables s p (PTX va) \<noteq> 0" and g: "g = unat (PPN (tables s p (PTX va)))"
    and lt: "g < number_of_frames s"
  shows "\<exists>s'. unmap_frame dir va s = Inr s' \<and> frames_wf s' \<and> counted T base s' \<and>
           tables s' = tables (set_entry p (PTX va) 0 s) \<and>
           number_of_frames s' = number_of_frames s \<and>
           references s' = (references s)(g := references s g - 1) \<and>
           (g \<in> set (free_frame_list s') \<longleftrightarrow> references s g = 1) \<and>
           set (free_frame_list s') - {g} = set (free_frame_list s) \<and>
           (\<forall>h. h \<noteq> g \<longrightarrow> frame_va s' h = frame_va s h)"
proof -
  have pos: "0 < references s g"
    using counted_pos [OF cnt \<open>p \<in> T\<close> PTX_lt e] lt g by simp
  from decrement_ok [OF assms(1) lt pos] obtain s1 where s1:
    "decrement_references g s = Inr s1" "frames_wf s1" "tables s1 = tables s"
    "number_of_frames s1 = number_of_frames s" "references s1 = (references s)(g := references s g - 1)"
    "g \<in> set (free_frame_list s1) \<longleftrightarrow> references s g = 1"
    "set (free_frame_list s1) - {g} = set (free_frame_list s)"
    "\<forall>h. h \<noteq> g \<longrightarrow> frame_va s1 h = frame_va s h"
    by blast
  let ?s = "set_entry p (PTX va) 0 s1"
  have p0: "p \<noteq> 0"
    using at by (simp add: table_at_def)
  have run: "unmap_frame dir va s = Inr ?s"
    using lt e s1(1) p0 by (simp add: unmap_frame_def get_frame_info_at [OF at] g)
  have "counted T base ?s"
    unfolding counted_def
  proof (intro allI impI)
    fix f
    assume "f < number_of_frames ?s"
    then have f: "f < number_of_frames s"
      by (simp add: s1(4))
    have "card (mappings ?s T f) + (if g = f then 1 else 0) = card (mappings s T f)"
      using card_mappings_set_entry [OF \<open>p \<in> T\<close> PTX_lt, where va1 = va and v = 0 and s = s1 and f = f]
        mappings_cong [OF s1(3)] e
      by (simp add: s1(3) g)
    moreover have "unat (references s f) = card (mappings s T f) + base f"
      using cnt f by (simp add: counted_def)
    ultimately show "unat (references ?s f) = card (mappings ?s T f) + base f"
      using refs_pred [OF pos] by (auto simp: s1(5) split: if_splits)
  qed
  moreover have "frames_wf ?s"
    using s1(2) by (simp add: frames_wf_def)
  ultimately show ?thesis
    using run s1(3-8) by auto
qed

section \<open>Mapping a frame\<close>

definition mapped_entry :: "nat \<Rightarrow> u32 \<Rightarrow> u32" where
  "mapped_entry f perm = CONSTRUCT_ENTRY (to_physical_address f) (perm OR PERM_PRESENT)"

lemma mapped_entry_parts:
  assumes "f < 1048576" and "perm < 4096"
  shows "EXTRACT_ADDRESS (mapped_entry f perm) = to_physical_address f"
    and "mapped_entry f perm AND 0xFFF = perm OR PERM_PRESENT"
    and "PPN (mapped_entry f perm) = of_nat f"
    and "unat (PPN (mapped_entry f perm)) = f"
    and "mapped_entry f perm \<noteq> 0"
    and "mapped_entry f perm AND PERM_PRESENT = PERM_PRESENT"
proof -
  note e = entry_parts [OF assms(1) perm_or_present [OF assms(2)]]
  show "EXTRACT_ADDRESS (mapped_entry f perm) = to_physical_address f"
    and "mapped_entry f perm AND 0xFFF = perm OR PERM_PRESENT"
    and ppn: "PPN (mapped_entry f perm) = of_nat f"
    using e by (simp_all only: mapped_entry_def)
  show "unat (PPN (mapped_entry f perm)) = f"
    using assms(1) by (simp add: ppn unat_frame)
  show "mapped_entry f perm AND PERM_PRESENT = PERM_PRESENT"
    by (simp only: mapped_entry_def entry_present)
  then show "mapped_entry f perm \<noteq> 0"
    by (rule present_nonzero)
qed

lemma add_mapping_counted:
  assumes cnt: "counted T base s" and "p \<in> T" and "tables s p (PTX va) = 0" and "f < 1048576"
    and perm: "perm < 4096" and r: "unat (references s f) < 65535"
  shows "counted T base (set_entry p (PTX va) (mapped_entry f perm)
           (s\<lparr>references := (references s)(f := references s f + 1)\<rparr>))"
  unfolding counted_def
proof (intro allI impI)
  fix h
  let ?s = "s\<lparr>references := (references s)(f := references s f + 1)\<rparr>"
  let ?t = "set_entry p (PTX va) (mapped_entry f perm) ?s"
  assume "h < number_of_frames ?t"
  then have "unat (references s h) = card (mappings s T h) + base h"
    using cnt by (simp add: counted_def)
  moreover have "card (mappings ?t T h) = card (mappings s T h) + (if f = h then 1 else 0)"
    using card_mappings_set_entry [OF \<open>p \<in> T\<close> PTX_lt,
        where va1 = va and v = "mapped_entry f perm" and s = ?s and f = h]
      mappings_cong [of ?s s T h] assms(3) mapped_entry_parts [OF assms(4) perm]
    by simp
  ultimately show "unat (references ?t h) = card (mappings ?t T h) + base h"
    using refs_succ [OF r] by auto
qed

lemma map_frame_fresh:
  assumes at: "table_at dir va p s" and e: "tables s p (PTX va) = 0"
  shows "map_frame_with cpt dir f va perm s =
           Inr (set_entry p (PTX va) (mapped_entry f perm)
             (s\<lparr>references := (references s)(f := references s f + 1)\<rparr>))"
  using at e by (simp add: map_frame_with_def table_at_def mapped_entry_def Let_def perm_defs)

lemma map_frame_same:
  assumes at: "table_at dir va p s" and "tables s p (PTX va) AND PERM_PRESENT = PERM_PRESENT"
    and "EXTRACT_ADDRESS (tables s p (PTX va)) = to_physical_address f"
  shows "map_frame_with cpt dir f va perm s = Inr s"
  using assms by (simp add: map_frame_with_def table_at_def Let_def)

lemma map_frame_replace:
  assumes wf: "frames_wf s" and cnt: "counted T base s" and at: "table_at dir va p s" and "p \<in> T"
    and pres: "tables s p (PTX va) AND PERM_PRESENT = PERM_PRESENT"
    and g: "g = unat (PPN (tables s p (PTX va)))" and lt: "g < number_of_frames s"
    and ne: "EXTRACT_ADDRESS (tables s p (PTX va)) \<noteq> to_physical_address f" "f \<noteq> g"
    and f: "f < number_of_frames s" "f \<notin> set (free_frame_list s)"
      "unat (references s f) < 65535" and perm: "perm < 4096"
  shows "\<exists>s'. map_frame_with cpt dir f va perm s = Inr s' \<and> frames_wf s' \<and> counted T base s' \<and>
           tables s' = tables (set_entry p (PTX va) (mapped_entry f perm) s) \<and>
           (g \<in> set (free_frame_list s') \<longleftrightarrow> references s g = 1)"
proof -
  have f20: "f < 1048576"
    using wf f(1) by (auto simp: frames_wf_def)
  obtain s1 where s1: "unmap_frame dir va s = Inr s1" "frames_wf s1" "counted T base s1"
    "tables s1 = tables (set_entry p (PTX va) 0 s)" "number_of_frames s1 = number_of_frames s"
    "references s1 = (references s)(g := references s g - 1)"
    "g \<in> set (free_frame_list s1) \<longleftrightarrow> references s g = 1"
    "set (free_frame_list s1) - {g} = set (free_frame_list s)"
    using unmap_frame_ok [OF wf cnt at \<open>p \<in> T\<close> present_nonzero [OF pres] g lt] by blast
  let ?s = "set_entry p (PTX va) (mapped_entry f perm)
      (s1\<lparr>references := (references s1)(f := references s1 f + 1)\<rparr>)"
  have "map_frame_with cpt dir f va perm s = Inr ?s"
    using at pres ne(1) s1(1)
    by (simp add: map_frame_with_def table_at_def mapped_entry_def Let_def)
  moreover have "counted T base ?s"
    using f ne(2) s1 by (intro add_mapping_counted [OF s1(3) \<open>p \<in> T\<close> _ f20 perm]) simp_all
  moreover have "f \<notin> set (free_frame_list s1)"
    using s1(8) f(2) ne(2) by auto
  then have "frames_wf ?s"
    using s1(2) by (auto simp: frames_wf_def)
  ultimately show ?thesis
    using s1(4,7) by auto
qed

section \<open>Allocating and freeing frames\<close>

lemma allocate_frame_ok:
  assumes "free_frame_list s = f # fl" and "isBuffered s f = 0"
  shows "allocate_frame s = Inr (f, initialize_frame_info f (s\<lparr>free_frame_list := fl\<rparr>))"
  using assms by (simp add: allocate_frame_def list_first_def list_remove_def)

lemma allocate_frame_empty: "free_frame_list s = [] \<Longrightarrow> allocate_frame s = Inl Panic"
  by (simp add: allocate_frame_def list_first_def)

lemma allocate_frame_keeps:
  assumes "frames_wf s" and "counted T base s" and "free_frame_list s = f # fl"
  shows "frames_wf (initialize_frame_info f (s\<lparr>free_frame_list := fl\<rparr>))"
    and "counted T base (initialize_frame_info f (s\<lparr>free_frame_list := fl\<rparr>))"
proof -
  show "frames_wf (initialize_frame_info f (s\<lparr>free_frame_list := fl\<rparr>))"
    using assms(1,3) by (auto simp: frames_wf_def initialize_frame_info_def)
  have "references s f = 0"
    using assms(1,3) by (simp add: frames_wf_def)
  then have "(references s)(f := 0) = references s"
    by (simp add: fun_upd_idem)
  then show "counted T base (initialize_frame_info f (s\<lparr>free_frame_list := fl\<rparr>))"
    using assms(2) by (simp add: counted_def initialize_frame_info_def mappings_def)
qed

section \<open>The state after initialisation\<close>

lemma put_free_all:
  "distinct is \<Longrightarrow> set is \<inter> set (free_frame_list s) = {} \<Longrightarrow>
   \<exists>s'. for_each put_free is s = Inr s' \<and> free_frame_list s' = rev is @ free_frame_list s \<and>
     references s' = (\<lambda>i. if i \<in> set is then 0 else references s i) \<and>
     number_of_frames s' = number_of_frames s"
proof (induction "is" arbitrary: s)
  case Nil
  then show ?case by simp
next
  case (Cons i "is")
  let ?s = "initialize_frame_info i s\<lparr>free_frame_list := i # free_frame_list s\<rparr>"
  have step: "put_free i s = Inr ?s"
    using Cons.prems by (simp add: put_free_def initialize_frame_info_def list_insert_head_def)
  have "set is \<inter> set (free_frame_list ?s) = {}"
    using Cons.prems by auto
  from Cons.IH [OF _ this] Cons.prems(1) obtain s' where
    "for_each put_free is ?s = Inr s'" "free_frame_list s' = rev is @ free_frame_list ?s"
    "references s' = (\<lambda>j. if j \<in> set is then 0 else references ?s j)"
    "number_of_frames s' = number_of_frames ?s"
    by auto
  with step show ?case
    by (auto simp: initialize_frame_info_def)
qed

lemma mark_used_all:
  "free_frame_list (fold mark_used is s) = free_frame_list s"
  "number_of_frames (fold mark_used is s) = number_of_frames s"
  "references (fold mark_used is s) = (\<lambda>i. if i \<in> set is then 1 else references s i)"
  by (induction "is" arbitrary: s) (auto simp: mark_used_def)

definition kernel_end_frame :: "u32 \<Rightarrow> nat" where
  "kernel_end_frame free_mem = unat (ROUNDUP (free_mem - KERNEL_BASE) PAGE_SIZE) div 4096"

lemma initialize_frames_ok:
  assumes "KERNEL_BASE \<le> free_mem" and "256 \<le> kernel_end_frame free_mem"
  shows "\<exists>s'. initialize_frames free_mem s = Inr s' \<and>
           number_of_frames s' = number_of_frames s \<and> distinct (free_frame_list s') \<and>
           set (free_frame_list s') =
             {3..<160} \<union> {kernel_end_frame free_mem..<number_of_frames s} \<and>
           (\<forall>i\<in>set (free_frame_list s'). references s' i = 0) \<and>
           (\<forall>i<kernel_end_frame free_mem. i \<notin> set (free_frame_list s') \<longrightarrow> references s' i = 1)"
proof -
  let ?k = "kernel_end_frame free_mem"
  define s0 where "s0 = (let s = s\<lparr>free_frame_list := [], modified_frame_list := []\<rparr>;
          s = mark_used 2 (mark_used 1 (mark_used 0 s))
      in s\<lparr>ram := (ram s)(1 := (\<lambda>j. if j < 1024 then 0 else ram s 1 j),
                        2 := (\<lambda>j. if j < 1024 then 0 else ram s 2 j))\<rparr>)"
  have s0: "free_frame_list s0 = []" "number_of_frames s0 = number_of_frames s"
    "\<forall>i<3. references s0 i = 1"
    by (auto simp: s0_def mark_used_def Let_def less_Suc_eq numeral_3_eq_3)
  have r1: "unat (ROUNDUP PHYS_IO_MEM PAGE_SIZE) div 4096 = 160"
    by (simp add: PHYS_IO_MEM_def PAGE_SIZE_def ROUNDUP_def ROUNDDOWN_def)
  obtain s1 where s1: "for_each put_free [3..<160] s0 = Inr s1"
    "free_frame_list s1 = rev [3..<160] @ free_frame_list s0"
    "references s1 = (\<lambda>i. if i \<in> set [3..<160] then 0 else references s0 i)"
    "number_of_frames s1 = number_of_frames s0"
    using put_free_all [of "[3..<160]" s0] s0(1) by (auto simp del: upt_rec_numeral)
  define s2 where "s2 = fold mark_used [256..<?k] (fold mark_used [160..<256] s1)"
  have s2: "free_frame_list s2 = rev [3..<160]" "number_of_frames s2 = number_of_frames s"
    "references s2 = (\<lambda>i. if i \<in> {256..<?k} then 1 else if i \<in> {160..<256} then 1
                          else if i \<in> {3..<160} then 0 else references s0 i)"
    by (auto simp: s2_def mark_used_all s1(2-4) s0(1,2) fun_eq_iff simp del: upt_rec_numeral)
  have "distinct [?k..<number_of_frames s2]" and
    "set [?k..<number_of_frames s2] \<inter> set (free_frame_list s2) = {}"
    using assms(2) by (auto simp: s2(1) simp del: upt_rec_numeral)
  from put_free_all [OF this] obtain s3 where s3:
    "for_each put_free [?k..<number_of_frames s2] s2 = Inr s3"
    "free_frame_list s3 = rev [?k..<number_of_frames s2] @ free_frame_list s2"
    "references s3 = (\<lambda>i. if i \<in> set [?k..<number_of_frames s2] then 0 else references s2 i)"
    "number_of_frames s3 = number_of_frames s2"
    by blast
  have u: "unat PHYS_IO_MEM div 4096 = 160" "unat PHYS_EXTENDED_MEM div 4096 = 256"
    by (simp_all add: PHYS_IO_MEM_def PHYS_EXTENDED_MEM_def)
  have "initialize_frames free_mem s = Inr s3"
    using assms(1) s1(1) s3(1)
    by (simp only: initialize_frames_def Let_def s0_def [unfolded Let_def, symmetric] r1 u
        STATIC_KERNEL_PHYSICAL_ADDRESS_def)
      (simp add: s2_def [symmetric] kernel_end_frame_def [symmetric] not_less
        del: upt_rec_numeral)
  moreover have "distinct (free_frame_list s3)" and
    "set (free_frame_list s3) = {3..<160} \<union> {?k..<number_of_frames s}"
    using assms(2) by (auto simp: s3(2) s2 simp del: upt_rec_numeral)
  ultimately show ?thesis
    using s3 s2 s0(3) assms(2) by (auto simp del: upt_rec_numeral)
qed

section \<open>Properties\<close>

definition kmem_example :: kmem where
  "kmem_example = \<lparr>number_of_frames = 300,
     references = (\<lambda>f. if f = 20 \<or> f = 25 then 1 else 0),
     frame_va = (\<lambda>f. if f = 20 then 0xF6001000 else 0),
     frame_environment = (\<lambda>f. None), isBuffered = (\<lambda>f. 0),
     free_frame_list = [30, 31], modified_frame_list = [],
     tables = (\<lambda>p i. if p = 0xF0200000 \<and> i = 2 then 0x14007 else 0),
     ram = (\<lambda>f j. 0), ptr_page_directory = 0xF0100000, env_page_directory = (\<lambda>e. 0xF0200000),
     kheap = dyn_example, KHeapPlacementStrategy = 1, stale_newsize = 0, stale_newveradd = 0\<rparr>"

lemma kmem_example_table: "table_at 0xF0200000 0x800000 0xF6001000 kmem_example"
  by (simp add: table_at_def get_page_table_def table_read_def table_address_def
      kheap_virtual_address_def to_frame_info_def kmem_example_def perm_defs addr_defs
      CHECK_IF_KERNEL_ADDRESS_def layout_defs)

lemma kmem_example_wf: "frames_wf kmem_example"
  by (simp add: frames_wf_def kmem_example_def)

lemma kmem_example_counted:
  "counted {0xF6001000} (\<lambda>f. if f = 20 \<or> f = 25 then 1 else 0) kmem_example"
  by (simp add: counted_def mappings_def kmem_example_def)

text \<open>C8: Mapping a frame at an address that has a page table but no page: the address then
  translates to the frame's physical address with exactly the requested permissions plus
  the present bit, and every reference count still equals the number of mappings.\<close>

theorem map_frame_installs:
  assumes "frames_wf s" and "counted T base s" and "table_at dir va p s" and "p \<in> T"
    and "tables s p (PTX va) = 0" and "f < number_of_frames s" and "f \<notin> set (free_frame_list s)"
    and "unat (references s f) < 65535" and "perm < 4096"
  shows "\<exists>s'. map_frame_with cpt dir f va perm s = Inr s' \<and> frames_wf s' \<and> counted T base s' \<and>
           virtual_to_physical dir va s' = Inr (to_physical_address f) \<and>
           pt_get_page_permissions dir va s' = Inr (perm OR PERM_PRESENT) \<and>
           get_frame_info dir va s' = Inr (Some f, p)"
proof -
  have f20: "f < 1048576"
    using assms(1,6) by (auto simp: frames_wf_def)
  let ?s = "set_entry p (PTX va) (mapped_entry f perm)
      (s\<lparr>references := (references s)(f := references s f + 1)\<rparr>)"
  have at: "table_at dir va p ?s"
    using assms(3) table_at_ne [OF assms(3)] by (intro table_at_set_entry) simp_all
  have "frames_wf ?s"
    using assms(1,7) by (auto simp: frames_wf_def)
  then show ?thesis
    using map_frame_fresh [OF assms(3,5)]
      add_mapping_counted [OF assms(2,4,5) f20 assms(9,8)] assms(6)
    by (simp add: virtual_to_physical_at [OF at] pt_get_page_permissions_at [OF at]
        get_frame_info_at [OF at] mapped_entry_parts [OF f20 assms(9)] to_physical_mult [OF f20]
        not_le f20 unat_frame)
qed

theorem map_frame_installs_witness:
  "\<exists>s'. map_frame_with (\<lambda>d v s. Inl Panic) 0xF0200000 25 0x800000 6 kmem_example = Inr s' \<and>
     frames_wf s' \<and> counted {0xF6001000} (\<lambda>f. if f = 20 \<or> f = 25 then 1 else 0) s' \<and>
     virtual_to_physical 0xF0200000 0x800000 s' = Inr (to_physical_address 25) \<and>
     pt_get_page_permissions 0xF0200000 0x800000 s' = Inr (6 OR PERM_PRESENT) \<and>
     get_frame_info 0xF0200000 0x800000 s' = Inr (Some 25, 0xF6001000)"
  by (rule map_frame_installs [OF kmem_example_wf kmem_example_counted kmem_example_table])
    (simp_all add: kmem_example_def)

text \<open>Mapping another frame over a mapped page drops one reference of the frame that was
  mapped there, puts that frame on the free list exactly when this was its last reference,
  and installs the new frame; the reference counts stay exact.\<close>

theorem map_frame_replaces:
  assumes "frames_wf s" and "counted T base s" and "table_at dir va p s" and "p \<in> T"
    and "tables s p (PTX va) AND PERM_PRESENT = PERM_PRESENT"
    and "g = unat (PPN (tables s p (PTX va)))" and "g < number_of_frames s"
    and "EXTRACT_ADDRESS (tables s p (PTX va)) \<noteq> to_physical_address f" "f \<noteq> g"
    and "f < number_of_frames s" "f \<notin> set (free_frame_list s)"
      "unat (references s f) < 65535" and "perm < 4096"
  shows "\<exists>s'. map_frame_with cpt dir f va perm s = Inr s' \<and> frames_wf s' \<and> counted T base s' \<and>
           tables s' = tables (set_entry p (PTX va) (mapped_entry f perm) s) \<and>
           (g \<in> set (free_frame_list s') \<longleftrightarrow> references s g = 1)"
  using assms by (rule map_frame_replace)

definition kmem_example_mapped :: kmem where
  "kmem_example_mapped = set_entry 0xF6001000 0 0x1E007
     (kmem_example\<lparr>references := (\<lambda>f. if f = 20 \<or> f = 25 \<or> f = 30 then 1 else 0),
        free_frame_list := [31]\<rparr>)"

lemma kmem_example_mapped_facts:
  "frames_wf kmem_example_mapped"
  "table_at 0xF0200000 0x800000 0xF6001000 kmem_example_mapped"
  "counted {0xF6001000} (\<lambda>f. if f = 20 \<or> f = 25 then 1 else 0) kmem_example_mapped"
proof -
  show "frames_wf kmem_example_mapped"
    by (simp add: frames_wf_def kmem_example_mapped_def kmem_example_def)
  show "table_at 0xF0200000 0x800000 0xF6001000 kmem_example_mapped"
    by (simp add: table_at_def get_page_table_def table_read_def table_address_def
        kheap_virtual_address_def to_frame_info_def kmem_example_mapped_def kmem_example_def
        perm_defs addr_defs CHECK_IF_KERNEL_ADDRESS_def layout_defs)
  have "mappings kmem_example_mapped {0xF6001000} f = (if f = 30 then {(0xF6001000, 0)} else {})" for f
    by (auto simp: mappings_def kmem_example_mapped_def kmem_example_def addr_defs
        split: if_splits)
  then show "counted {0xF6001000} (\<lambda>f. if f = 20 \<or> f = 25 then 1 else 0) kmem_example_mapped"
    by (simp add: counted_def) (simp add: kmem_example_mapped_def kmem_example_def)
qed

theorem map_frame_replaces_witness:
  "\<exists>s'. map_frame_with (\<lambda>d v s. Inl Panic) 0xF0200000 25 0x800000 6 kmem_example_mapped = Inr s' \<and>
     frames_wf s' \<and> counted {0xF6001000} (\<lambda>f. if f = 20 \<or> f = 25 then 1 else 0) s' \<and>
     tables s' = tables (set_entry 0xF6001000 (PTX 0x800000) (mapped_entry 25 6) kmem_example_mapped) \<and>
     (30 \<in> set (free_frame_list s') \<longleftrightarrow> references kmem_example_mapped 30 = 1)"
  by (rule map_frame_replaces [OF kmem_example_mapped_facts(1,3,2)])
    (simp_all add: kmem_example_mapped_def kmem_example_def perm_defs addr_defs
      to_physical_address_def)

text \<open>C9: Where the page table of a page exists and the entry of the page is empty, mapping a frame that has
  other references there (and fewer than the counter can hold) and unmapping the page again restores the memory
  state exactly. Without the table the mapping first creates one, which the unmapping does not take back.\<close>

theorem map_unmap_restores:
  assumes at: "table_at dir va p s" and e: "tables s p (PTX va) = 0"
    and f: "f < number_of_frames s" "number_of_frames s \<le> 1048576"
    and r: "references s f \<noteq> 0" "references s f \<noteq> 65535" and perm: "perm < 4096"
  shows "andthen (map_frame_with cpt dir f va perm s) (unmap_frame dir va) = Inr s"
proof -
  have f20: "f < 1048576"
    using f by simp
  let ?s = "set_entry p (PTX va) (mapped_entry f perm)
      (s\<lparr>references := (references s)(f := references s f + 1)\<rparr>)"
  have at': "table_at dir va p ?s"
    using at table_at_ne [OF at] by (intro table_at_set_entry) simp_all
  have p0: "p \<noteq> 0"
    using at by (simp add: table_at_def)
  have "(tables s p)(PTX va := 0) = tables s p"
    using e by (simp add: fun_upd_idem)
  then have "unmap_frame dir va ?s = Inr s"
    using f(1) r(1) p0
    by (simp add: unmap_frame_def get_frame_info_at [OF at'] mapped_entry_parts [OF f20 perm]
        decrement_references_def not_le f20 unat_frame) (simp add: set_entry_def fun_upd_idem)
  then show ?thesis
    by (simp add: map_frame_fresh [OF at e])
qed

theorem map_unmap_restores_witness:
  "andthen (map_frame_with (\<lambda>d v s. Inl Panic) 0xF0200000 25 0x800000 6 kmem_example)
     (unmap_frame 0xF0200000 0x800000) = Inr kmem_example"
  by (rule map_unmap_restores [OF kmem_example_table]) (simp_all add: kmem_example_def)

text \<open>After initialisation the free list holds, once each, exactly the frames from 3 up to
  the I/O hole and the frames above the kernel image, all with no references; every other
  frame below the end of the kernel has one reference.\<close>

theorem initialize_frames_partition:
  assumes "KERNEL_BASE \<le> free_mem" and "256 \<le> kernel_end_frame free_mem"
  shows "\<exists>s'. initialize_frames free_mem s = Inr s' \<and>
           number_of_frames s' = number_of_frames s \<and> distinct (free_frame_list s') \<and>
           set (free_frame_list s') =
             {3..<160} \<union> {kernel_end_frame free_mem..<number_of_frames s} \<and>
           (\<forall>i\<in>set (free_frame_list s'). references s' i = 0) \<and>
           (\<forall>i<kernel_end_frame free_mem. i \<notin> set (free_frame_list s') \<longrightarrow> references s' i = 1)"
  using assms by (rule initialize_frames_ok)

theorem initialize_frames_partition_witness:
  "\<exists>s'. initialize_frames 0xF0200000 kmem_example = Inr s' \<and>
     number_of_frames s' = number_of_frames kmem_example \<and> distinct (free_frame_list s') \<and>
     set (free_frame_list s') =
       {3..<160} \<union> {kernel_end_frame 0xF0200000..<number_of_frames kmem_example} \<and>
     (\<forall>i\<in>set (free_frame_list s'). references s' i = 0) \<and>
     (\<forall>i<kernel_end_frame 0xF0200000. i \<notin> set (free_frame_list s') \<longrightarrow> references s' i = 1)"
  by (rule initialize_frames_partition)
    (simp_all add: kernel_end_frame_def KERNEL_BASE_def ROUNDUP_def ROUNDDOWN_def PAGE_SIZE_def)

text \<open>A page-table entry that holds only flag bits, which \<^verbatim>\<open>pt_set_page_permissions\<close>
  leaves behind on a page that is not mapped, is taken for a mapping of frame 0: unmapping
  the page drops a reference of frame 0.\<close>

theorem flags_alias_frame_0:
  assumes "table_at dir va p s" and "tables s p (PTX va) = 0"
    and "perm \<noteq> 0" and "perm < 4096" and "0 < number_of_frames s"
  shows "\<exists>s'. pt_set_page_permissions dir va perm 0 s = Inr s' \<and>
           get_frame_info dir va s' = Inr (Some 0, p)"
proof -
  let ?s = "set_entry p (PTX va) perm s"
  have at: "table_at dir va p ?s"
    using assms(1) by (intro table_at_set_entry) (simp_all add: table_at_def)
  have "pt_set_page_permissions dir va perm 0 s = Inr ?s"
    using assms(1,2,3) by (simp add: pt_set_page_permissions_def table_at_def Let_def)
  moreover have "PPN perm = 0"
    using assms(4) perm_bits [OF assms(4)]
    by (intro bit_eqI) (simp add: PPN_def bit_drop_bit_eq add.commute)
  ultimately show ?thesis
    using assms(3,5) by (simp add: get_frame_info_at [OF at])
qed

theorem flags_alias_frame_0_witness:
  "\<exists>s'. pt_set_page_permissions 0xF0200000 0x800000 2 0 kmem_example = Inr s' \<and>
     get_frame_info 0xF0200000 0x800000 s' = Inr (Some 0, 0xF6001000)"
  by (rule flags_alias_frame_0 [OF kmem_example_table]) (simp_all add: kmem_example_def)

end
