(* ===== verification/Chunk_Ops.thy ===== *)
theory Chunk_Ops
  imports Memory_Manager
begin

text \<open>
  Operations on ranges of pages, \<^verbatim>\<open>kern/mem/chunk_operations.c\<close>. The result pairs the
  return value with the state. As in the memory manager, what may create a page table takes
  that operation as the argument \<open>cpt\<close>. \<^verbatim>\<open>free_user_mem\<close> is in the theory
  \<open>User_Mem\<close>, since it also works on the working set and the page file.
\<close>

section \<open>Operations\<close>

definition is_mapped :: "u32 \<Rightarrow> kmem \<Rightarrow> u32 \<Rightarrow> bool result" where
  "is_mapped dir s va = andthen (get_frame_info dir va s) (\<lambda>(fi, p). Inr (fi \<noteq> None))"

definition cut_paste_page ::
    "(u32 \<Rightarrow> u32 \<Rightarrow> kmem \<Rightarrow> (u32 \<times> kmem) result) \<Rightarrow> u32 \<Rightarrow> u32 \<times> u32 \<Rightarrow> kmem \<Rightarrow> kmem result" where
  "cut_paste_page cpt dir sd s =
     (let (source_va, dest_va) = sd in
      andthen (get_page_table dir dest_va s) (\<lambda>(_, pd).
      andthen (if pd = 0 then cpt dir dest_va s else Inr (pd, s)) (\<lambda>(_, s).
      andthen (get_page_table dir source_va s) (\<lambda>(_, ps).
      andthen (table_read ps (PTX source_va) s) (\<lambda>e.
      andthen (get_frame_info dir source_va s) (\<lambda>(fi, _).
        case fi of
          None \<Rightarrow> Inl Null_Deref
        | Some f \<Rightarrow>
            andthen (map_frame_with cpt dir f dest_va (e AND 0xFFF) s)
              (unmap_frame dir source_va)))))))"

definition cut_paste_pages_with ::
    "(u32 \<Rightarrow> u32 \<Rightarrow> kmem \<Rightarrow> (u32 \<times> kmem) result) \<Rightarrow> u32 \<Rightarrow> u32 \<Rightarrow> u32 \<Rightarrow> u32 \<Rightarrow> kmem \<Rightarrow> (int \<times> kmem) result"
  where
  "cut_paste_pages_with cpt dir source_va dest_va num_of_pages s =
     (let source_va = ROUNDDOWN source_va PAGE_SIZE;
          dest_va = ROUNDDOWN dest_va PAGE_SIZE;
          n = unat num_of_pages
      in andthen (scan_each (is_mapped dir s) (page_list dest_va n)) (\<lambda>found.
           if found then Inr (- 1, s)
           else andthen
             (for_each (cut_paste_page cpt dir) (zip (page_list source_va n) (page_list dest_va n)) s)
             (\<lambda>s. Inr (0, s))))"

text \<open>
  \<^verbatim>\<open>copy_paste_chunk\<close>: the first loop looks for a destination page that is mapped and not
  writable, the second provides the destination pages, the third copies the bytes through
  the addresses of the current address space, here the one of \<open>dir\<close>.
\<close>

definition dest_read_only :: "u32 \<Rightarrow> kmem \<Rightarrow> u32 \<Rightarrow> bool result" where
  "dest_read_only dir s i =
     andthen (get_frame_info dir i s) (\<lambda>(fi, p).
       case fi of
         None \<Rightarrow> Inr False
       | Some f \<Rightarrow> Inr (tables s p (PTX i) AND PERM_WRITEABLE \<noteq> PERM_WRITEABLE))"

definition copy_page_setup ::
    "(u32 \<Rightarrow> u32 \<Rightarrow> kmem \<Rightarrow> (u32 \<times> kmem) result) \<Rightarrow> u32 \<Rightarrow> u32 \<Rightarrow> u32 \<times> kmem \<Rightarrow> (u32 \<times> kmem) result"
  where
  "copy_page_setup cpt dir i st =
     (let (source_ptr, s) = st in
      andthen (get_page_table dir i s) (\<lambda>(ret, pd).
      andthen (if ret \<noteq> TABLE_IN_MEMORY then cpt dir i s else Inr (pd, s)) (\<lambda>(pd, s).
      andthen (get_frame_info dir i s) (\<lambda>(fi, pd).
      andthen (get_page_table dir source_ptr s) (\<lambda>(_, ps).
      andthen (table_read ps (PTX source_ptr) s) (\<lambda>e.
        let source_perm = e AND PERM_USER in
        andthen
          (case fi of
             None \<Rightarrow>
               andthen (allocate_frame s) (\<lambda>(f, s).
               andthen (get_page_table dir source_ptr s) (\<lambda>(_, ps).
               andthen (table_read ps (PTX source_ptr) s) (\<lambda>e.
                 map_frame_with cpt dir f i ((e AND PERM_USER) OR PERM_WRITEABLE) s)))
           | Some f \<Rightarrow> pt_set_page_permissions dir i source_perm 0 s)
          (\<lambda>s. Inr (source_ptr + PAGE_SIZE, s))))))))"

definition page_frame :: "u32 \<Rightarrow> u32 \<Rightarrow> kmem \<Rightarrow> nat result" where
  "page_frame dir va s =
     andthen (get_page_table dir va s) (\<lambda>(ret, p).
       if p = 0 then Inl Page_Fault
       else (let e = tables s p (PTX va) in
             if e AND PERM_PRESENT = PERM_PRESENT then Inr (unat (PPN e)) else Inl Page_Fault))"

definition copy_byte :: "u32 \<Rightarrow> u32 \<times> u32 \<Rightarrow> kmem \<Rightarrow> kmem result" where
  "copy_byte dir sd s =
     (let (src, dst) = sd in
      andthen (page_frame dir src s) (\<lambda>fs.
      andthen (page_frame dir dst s) (\<lambda>fd.
        Inr (s\<lparr>ram := (ram s)(fd := (ram s fd)(unat (PGOFF dst) := ram s fs (unat (PGOFF src))))\<rparr>))))"

definition copy_paste_chunk_with ::
    "(u32 \<Rightarrow> u32 \<Rightarrow> kmem \<Rightarrow> (u32 \<times> kmem) result) \<Rightarrow> u32 \<Rightarrow> u32 \<Rightarrow> u32 \<Rightarrow> u32 \<Rightarrow> kmem \<Rightarrow> (int \<times> kmem) result"
  where
  "copy_paste_chunk_with cpt dir source_va dest_va sz s =
     andthen (scan_pages dest_va (dest_va + sz) (dest_read_only dir s)) (\<lambda>found.
       if found then Inr (- 1, s)
       else
         andthen (for_pages dest_va (dest_va + sz) (copy_page_setup cpt dir) (source_va, s)) (\<lambda>(_, s).
           let n = (if dest_va < dest_va + sz then unat sz else 0) in
           andthen
             (for_each (copy_byte dir)
               (map (\<lambda>k. (source_va + of_nat k, dest_va + of_nat k)) [0..<n]) s)
             (\<lambda>s. Inr (0, s))))"

definition share_page ::
    "(u32 \<Rightarrow> u32 \<Rightarrow> kmem \<Rightarrow> (u32 \<times> kmem) result) \<Rightarrow> u32 \<Rightarrow> u32 \<Rightarrow> u32 \<times> u32 \<Rightarrow> kmem \<Rightarrow> kmem result" where
  "share_page cpt dir perms sd s =
     (let (source_va, dest_va) = sd in
      andthen (get_page_table dir dest_va s) (\<lambda>(_, pd).
      andthen (if pd = 0 then cpt dir dest_va s else Inr (pd, s)) (\<lambda>(_, s).
      andthen (get_page_table dir source_va s) (\<lambda>(_, ps).
      andthen (table_read ps (PTX source_va) s) (\<lambda>e.
      andthen (get_frame_info dir source_va s) (\<lambda>(fi, _).
        case fi of
          None \<Rightarrow> Inl Null_Deref
        | Some f \<Rightarrow> map_frame_with cpt dir f dest_va perms s))))))"

definition share_chunk_with ::
    "(u32 \<Rightarrow> u32 \<Rightarrow> kmem \<Rightarrow> (u32 \<times> kmem) result) \<Rightarrow> u32 \<Rightarrow> u32 \<Rightarrow> u32 \<Rightarrow> u32 \<Rightarrow> u32 \<Rightarrow> kmem \<Rightarrow>
     (int \<times> kmem) result"
  where
  "share_chunk_with cpt dir source_va dest_va sz perms s =
     (let dest_en_va = ROUNDUP (dest_va + sz) PAGE_SIZE;
          source_va = ROUNDDOWN source_va PAGE_SIZE;
          dest_va = ROUNDDOWN dest_va PAGE_SIZE;
          newSize = dest_en_va - dest_va;
          n = unat (newSize div PAGE_SIZE)
      in andthen (scan_pages dest_va dest_en_va (is_mapped dir s)) (\<lambda>found.
           if found then Inr (- 1, s)
           else andthen
             (for_each (share_page cpt dir perms) (zip (page_list source_va n) (page_list dest_va n)) s)
             (\<lambda>s. Inr (0, s))))"

definition chunk_page ::
    "(u32 \<Rightarrow> u32 \<Rightarrow> kmem \<Rightarrow> (u32 \<times> kmem) result) \<Rightarrow> u32 \<Rightarrow> u32 \<Rightarrow> u32 \<Rightarrow> kmem \<Rightarrow> kmem result" where
  "chunk_page cpt dir perms i s =
     andthen (get_page_table dir i s) (\<lambda>(ret, p).
     andthen (if ret = TABLE_NOT_EXIST then cpt dir i s else Inr (p, s)) (\<lambda>(_, s).
     andthen (allocate_frame s) (\<lambda>(f, s).
     andthen (map_frame_with cpt dir f i perms s) (\<lambda>s.
       Inr (s\<lparr>frame_va := (frame_va s)(f := i)\<rparr>)))))"

definition allocate_chunk_with ::
    "(u32 \<Rightarrow> u32 \<Rightarrow> kmem \<Rightarrow> (u32 \<times> kmem) result) \<Rightarrow> u32 \<Rightarrow> u32 \<Rightarrow> u32 \<Rightarrow> u32 \<Rightarrow> kmem \<Rightarrow> (int \<times> kmem) result"
  where
  "allocate_chunk_with cpt dir va sz perms s =
     (let sva = ROUNDDOWN va PAGE_SIZE;
          eva = ROUNDUP (va + sz) PAGE_SIZE
      in andthen (scan_pages sva eva (is_mapped dir s)) (\<lambda>found.
           if found then Inr (- 1, s)
           else andthen (for_pages sva eva (chunk_page cpt dir perms) s) (\<lambda>s. Inr (0, s))))"

text \<open>The two counters behind the pointer arguments, and the table of the previous page.\<close>

definition count_table :: "u32 \<Rightarrow> kmem \<Rightarrow> u32 \<Rightarrow> u32 \<times> u32 \<Rightarrow> (u32 \<times> u32) result" where
  "count_table dir s i st =
     (let (num_tables, glopal_ptr) = st in
      andthen (get_page_table dir i s) (\<lambda>(_, second_ptr).
        Inr (if second_ptr \<noteq> glopal_ptr \<and> second_ptr \<noteq> 0 then num_tables + 1 else num_tables,
             second_ptr)))"

definition count_page :: "u32 \<Rightarrow> kmem \<Rightarrow> u32 \<Rightarrow> u32 \<Rightarrow> u32 result" where
  "count_page dir s i num_pages =
     andthen (is_mapped dir s i) (\<lambda>m. Inr (if m then num_pages + 1 else num_pages))"

definition calculate_allocated_space ::
    "u32 \<Rightarrow> u32 \<Rightarrow> u32 \<Rightarrow> u32 \<Rightarrow> u32 \<Rightarrow> kmem \<Rightarrow> (u32 \<times> u32) result" where
  "calculate_allocated_space dir sva eva num_tables num_pages s =
     (let sva = ROUNDDOWN sva PAGE_SIZE; eva = ROUNDUP eva PAGE_SIZE in
      andthen (for_pages sva eva (count_table dir s) (num_tables, 0)) (\<lambda>(num_tables, _).
      andthen (for_pages sva eva (count_page dir s) num_pages) (\<lambda>num_pages.
        Inr (num_tables, num_pages))))"

definition count_unmapped :: "u32 \<Rightarrow> kmem \<Rightarrow> u32 \<Rightarrow> u32 \<Rightarrow> u32 result" where
  "count_unmapped dir s i num_pages =
     andthen (is_mapped dir s i) (\<lambda>m. Inr (if m then num_pages else num_pages + 1))"

definition count_missing_table :: "u32 \<Rightarrow> kmem \<Rightarrow> u32 \<Rightarrow> u32 \<times> u32 \<Rightarrow> (u32 \<times> u32) result" where
  "count_missing_table dir s i st =
     (let (num_tables, glopal_ptr) = st in
      andthen (get_page_table dir i s) (\<lambda>(ret, _).
        Inr (if ret = TABLE_NOT_EXIST \<and> PDX i \<noteq> PDX glopal_ptr then num_tables + 1 else num_tables,
             i)))"

definition calculate_required_frames :: "u32 \<Rightarrow> u32 \<Rightarrow> u32 \<Rightarrow> kmem \<Rightarrow> u32 result" where
  "calculate_required_frames dir sva sz s =
     (let svm = ROUNDDOWN sva PAGE_SIZE; eva = ROUNDUP (sva + sz) PAGE_SIZE in
      andthen (for_pages svm eva (count_unmapped dir s) 0) (\<lambda>num_pages.
      andthen (get_page_table dir svm s) (\<lambda>(ret1, _).
      andthen (for_pages svm eva (count_missing_table dir s)
          (if ret1 = TABLE_NOT_EXIST then 1 else 0, svm)) (\<lambda>(num_tables, _).
        Inr (num_pages + num_tables)))))"

section \<open>Allocating a chunk\<close>

text \<open>
  What one page of \<^verbatim>\<open>allocate_chunk\<close> does to the state when its table \<open>p\<close> exists: the
  first free frame \<open>f\<close> is taken, reset, mapped and told its address.
\<close>

definition page_state :: "u32 \<Rightarrow> u32 \<Rightarrow> u32 \<Rightarrow> kmem \<Rightarrow> kmem" where
  "page_state perms p i s =
     (let f = hd (free_frame_list s);
          s1 = initialize_frame_info f (s\<lparr>free_frame_list := tl (free_frame_list s)\<rparr>);
          s2 = set_entry p (PTX i) (mapped_entry f perms)
                 (s1\<lparr>references := (references s1)(f := references s1 f + 1)\<rparr>)
      in s2\<lparr>frame_va := (frame_va s2)(f := i)\<rparr>)"

fun chunk_state :: "u32 \<Rightarrow> (u32 \<Rightarrow> u32) \<Rightarrow> u32 list \<Rightarrow> kmem \<Rightarrow> kmem" where
  "chunk_state perms tp [] s = s"
| "chunk_state perms tp (i # is) s = chunk_state perms tp is (page_state perms (tp i) i s)"

lemma page_state_simps [simp]:
  "free_frame_list (page_state perms p i s) = tl (free_frame_list s)"
  "number_of_frames (page_state perms p i s) = number_of_frames s"
  "tables (page_state perms p i s) =
     (tables s)(p := (tables s p)(PTX i := mapped_entry (hd (free_frame_list s)) perms))"
  "references (page_state perms p i s) = (references s)(hd (free_frame_list s) := 1)"
  "frame_va (page_state perms p i s) = (frame_va s)(hd (free_frame_list s) := i)"
  "isBuffered (page_state perms p i s) = (isBuffered s)(hd (free_frame_list s) := 0)"
  "kheap (page_state perms p i s) = kheap s"
  "ptr_page_directory (page_state perms p i s) = ptr_page_directory s"
  by (simp_all add: page_state_def initialize_frame_info_def Let_def)

lemma chunk_state_simps [simp]:
  "kheap (chunk_state perms tp is s) = kheap s"
  "ptr_page_directory (chunk_state perms tp is s) = ptr_page_directory s"
  "number_of_frames (chunk_state perms tp is s) = number_of_frames s"
  by (induction "is" arbitrary: s) simp_all

definition chunk_ready :: "u32 \<Rightarrow> (u32 \<Rightarrow> u32) \<Rightarrow> u32 list \<Rightarrow> kmem \<Rightarrow> bool" where
  "chunk_ready dir tp is s \<longleftrightarrow>
     (\<forall>i\<in>set is. table_at dir i (tp i) s \<and> tables s (tp i) (PTX i) = 0 \<and>
        pde_frame dir i s \<notin> set (free_frame_list s)) \<and>
     distinct (map (\<lambda>i. (tp i, PTX i)) is) \<and> length is \<le> length (free_frame_list s) \<and>
     distinct (free_frame_list s) \<and> (\<forall>f\<in>set (free_frame_list s). isBuffered s f = 0)"

lemma table_at_cong:
  "tables s' dir (PDX va) = tables s dir (PDX va) \<Longrightarrow> number_of_frames s' = number_of_frames s \<Longrightarrow>
   frame_va s' (pde_frame dir va s) = frame_va s (pde_frame dir va s) \<Longrightarrow>
   table_at dir va p s' = table_at dir va p s"
  using get_page_table_cong [of s' dir va s] by (simp add: table_at_def)

lemma chunk_page_ok:
  assumes at: "table_at dir i p s" and e: "tables s p (PTX i) = 0"
    and pf: "pde_frame dir i s \<notin> set (free_frame_list s)"
    and fl: "free_frame_list s \<noteq> []" and nb: "\<forall>f\<in>set (free_frame_list s). isBuffered s f = 0"
  shows "chunk_page cpt dir perms i s = Inr (page_state perms p i s)"
proof -
  obtain f fl' where f: "free_frame_list s = f # fl'"
    using fl by (cases "free_frame_list s") auto
  let ?s1 = "initialize_frame_info f (s\<lparr>free_frame_list := fl'\<rparr>)"
  have al: "allocate_frame s = Inr (f, ?s1)"
    using nb by (intro allocate_frame_ok) (simp_all add: f)
  have "table_at dir i p ?s1"
    using at pf by (subst table_at_cong [of _ _ _ s]) (auto simp: initialize_frame_info_def f)
  moreover have "tables ?s1 p (PTX i) = 0"
    using e by (simp add: initialize_frame_info_def)
  ultimately have "map_frame_with cpt dir f i perms ?s1 =
      Inr (set_entry p (PTX i) (mapped_entry f perms)
        (?s1\<lparr>references := (references ?s1)(f := references ?s1 f + 1)\<rparr>))"
    by (rule map_frame_fresh)
  then show ?thesis
    using at al by (simp add: chunk_page_def table_at_def page_state_def f Let_def)
qed

lemma chunk_ready_step:
  assumes rdy: "chunk_ready dir tp (i # is) s"
  shows "chunk_ready dir tp is (page_state perms (tp i) i s)"
proof -
  obtain f fl where f: "free_frame_list s = f # fl"
    using rdy by (cases "free_frame_list s") (auto simp: chunk_ready_def)
  have at_i: "table_at dir i (tp i) s"
    using rdy by (simp add: chunk_ready_def)
  have pd: "pde_frame dir j (page_state perms (tp i) i s) = pde_frame dir j s" for j
    using table_at_ne [OF at_i] by (simp add: pde_frame_def)
  have pages: "table_at dir j (tp j) (page_state perms (tp i) i s)"
    "tables (page_state perms (tp i) i s) (tp j) (PTX j) = 0"
    "pde_frame dir j s \<notin> set fl" if j: "j \<in> set is" for j
  proof -
    have old: "table_at dir j (tp j) s" "tables s (tp j) (PTX j) = 0"
      "pde_frame dir j s \<noteq> f" "pde_frame dir j s \<notin> set fl"
      using rdy j by (simp_all add: chunk_ready_def f)
    show "pde_frame dir j s \<notin> set fl"
      by (fact old(4))
    show "table_at dir j (tp j) (page_state perms (tp i) i s)"
      using old(1,3) table_at_ne [OF at_i] by (subst table_at_cong [of _ _ _ s]) (simp_all add: f)
    have "(tp i, PTX i) \<notin> set (map (\<lambda>i. (tp i, PTX i)) is)"
      using rdy by (simp add: chunk_ready_def)
    moreover have "(tp j, PTX j) \<in> set (map (\<lambda>i. (tp i, PTX i)) is)"
      unfolding set_map by (rule imageI [OF j])
    ultimately have "(tp j, PTX j) \<noteq> (tp i, PTX i)"
      by metis
    then show "tables (page_state perms (tp i) i s) (tp j) (PTX j) = 0"
      using old(2) by auto
  qed
  have rest: "distinct (map (\<lambda>i. (tp i, PTX i)) is)" "length is \<le> length fl" "distinct fl"
    "f \<notin> set fl" "\<forall>g\<in>set fl. isBuffered s g = 0"
    using rdy by (simp_all add: chunk_ready_def f)
  show ?thesis
    unfolding chunk_ready_def pd
  proof (intro conjI ballI)
    show "distinct (free_frame_list (page_state perms (tp i) i s))"
      "length is \<le> length (free_frame_list (page_state perms (tp i) i s))"
      "distinct (map (\<lambda>i. (tp i, PTX i)) is)"
      using rest(1-3) by (simp_all add: f)
  next
    fix j
    assume "j \<in> set is"
    then show "table_at dir j (tp j) (page_state perms (tp i) i s)"
      "tables (page_state perms (tp i) i s) (tp j) (PTX j) = 0"
      "pde_frame dir j s \<notin> set (free_frame_list (page_state perms (tp i) i s))"
      using pages by (simp_all only: page_state_simps f list.sel simp_thms)
  next
    fix g
    assume "g \<in> set (free_frame_list (page_state perms (tp i) i s))"
    then show "isBuffered (page_state perms (tp i) i s) g = 0"
      using rest(4,5) by (auto simp: f)
  qed
qed

lemma chunk_pages_ok:
  "chunk_ready dir tp is s \<Longrightarrow>
   for_each (chunk_page cpt dir perms) is s = Inr (chunk_state perms tp is s)"
proof (induction "is" arbitrary: s)
  case Nil
  then show ?case by simp
next
  case (Cons i "is")
  have "chunk_page cpt dir perms i s = Inr (page_state perms (tp i) i s)"
    using Cons.prems by (intro chunk_page_ok) (auto simp: chunk_ready_def)
  with Cons.IH [OF chunk_ready_step [OF Cons.prems]] show ?case
    by simp
qed

definition chunk_effect :: "u32 \<Rightarrow> (u32 \<Rightarrow> u32) \<Rightarrow> u32 list \<Rightarrow> kmem \<Rightarrow> kmem \<Rightarrow> bool" where
  "chunk_effect perms tp is s s' \<longleftrightarrow>
     free_frame_list s' = drop (length is) (free_frame_list s) \<and>
     (\<forall>k<length is. tables s' (tp (is ! k)) (PTX (is ! k)) =
        mapped_entry (free_frame_list s ! k) perms) \<and>
     (\<forall>k<length is. references s' (free_frame_list s ! k) = 1 \<and>
        frame_va s' (free_frame_list s ! k) = is ! k) \<and>
     (\<forall>p j. (p, j) \<notin> (\<lambda>i. (tp i, PTX i)) ` set is \<longrightarrow> tables s' p j = tables s p j) \<and>
     (\<forall>f. f \<notin> set (take (length is) (free_frame_list s)) \<longrightarrow>
        references s' f = references s f \<and> frame_va s' f = frame_va s f)"

lemma chunk_state_effect:
  "distinct (map (\<lambda>i. (tp i, PTX i)) is) \<Longrightarrow> length is \<le> length (free_frame_list s) \<Longrightarrow>
   distinct (free_frame_list s) \<Longrightarrow> chunk_effect perms tp is s (chunk_state perms tp is s)"
proof (induction "is" arbitrary: s)
  case Nil
  then show ?case by (simp add: chunk_effect_def)
next
  case (Cons i "is")
  obtain f fl where f: "free_frame_list s = f # fl"
    using Cons.prems(2) by (cases "free_frame_list s") auto
  let ?s = "page_state perms (tp i) i s"
  have "distinct (map (\<lambda>i. (tp i, PTX i)) is)" "length is \<le> length (free_frame_list ?s)"
    "distinct (free_frame_list ?s)"
    using Cons.prems by (simp_all add: f)
  note IH = Cons.IH [OF this, unfolded chunk_effect_def]
  have notin: "(tp i, PTX i) \<notin> (\<lambda>i. (tp i, PTX i)) ` set is"
    using Cons.prems(1) by simp
  have fn: "f \<notin> set (take (length is) fl)"
    using Cons.prems(3) by (auto simp: f dest: in_set_takeD)
  let ?t = "chunk_state perms tp is ?s"
  have "tables ?t (tp i) (PTX i) = tables ?s (tp i) (PTX i)"
    using IH notin by blast
  moreover have "references ?t f = references ?s f" "frame_va ?t f = frame_va ?s f"
    using IH fn by (simp_all add: f)
  ultimately show ?case
    using IH by (auto simp: chunk_effect_def f nth_Cons split: nat.splits)
qed

definition chunk_pages :: "u32 \<Rightarrow> u32 \<Rightarrow> u32 list" where
  "chunk_pages va sz =
     page_list (ROUNDDOWN va PAGE_SIZE)
       ((unat (ROUNDUP (va + sz) PAGE_SIZE) - unat (ROUNDDOWN va PAGE_SIZE)) div 4096)"

lemma aligned_range:
  assumes "4096 dvd unat sva" and "4096 dvd unat eva" and "sva \<le> eva"
  shows "eva = sva + of_nat ((unat eva - unat sva) div 4096) * PAGE_SIZE"
    and "unat sva + 4096 * ((unat eva - unat sva) div 4096) < 4294967296"
proof -
  let ?n = "(unat eva - unat sva) div 4096"
  have "4096 dvd unat eva - unat sva"
    using assms(1,2) by (rule dvd_diff_nat [rotated])
  then have n: "4096 * ?n = unat eva - unat sva"
    by simp
  have le: "unat sva \<le> unat eva"
    using assms(3) by (simp add: word_le_nat_alt)
  show lt: "unat sva + 4096 * ?n < 4294967296"
    using n le unat_lt_2p32 [of eva] by linarith
  have "(of_nat ?n * PAGE_SIZE :: u32) = of_nat (4096 * ?n)"
    by (simp add: PAGE_SIZE_def mult.commute)
  moreover have "4096 * ?n < 4294967296"
    using n unat_lt_2p32 [of eva] by linarith
  ultimately have "unat (of_nat ?n * PAGE_SIZE) = ?n * 4096"
    by (simp only: unat_of_nat) simp
  then have "unat (sva + of_nat ?n * PAGE_SIZE) = unat sva + ?n * 4096"
    using lt unat_add_u32 [of sva "of_nat ?n * PAGE_SIZE"] by linarith
  then have "unat (sva + of_nat ?n * PAGE_SIZE) = unat eva"
    using n le by linarith
  then show "eva = sva + of_nat ?n * PAGE_SIZE"
    by (simp add: u32_eq_iff)
qed

lemma aligned_pages:
  assumes "4096 dvd unat sva" and "4096 dvd unat eva"
  shows "for_pages sva eva body s = for_each body (page_list sva ((unat eva - unat sva) div 4096)) s"
    and "scan_pages sva eva hit = scan_each hit (page_list sva ((unat eva - unat sva) div 4096))"
proof -
  let ?n = "(unat eva - unat sva) div 4096"
  consider "sva \<le> eva" | "\<not> sva \<le> eva" by blast
  then have "for_pages sva eva body s = for_each body (page_list sva ?n) s \<and>
    scan_pages sva eva hit = scan_each hit (page_list sva ?n)"
  proof cases
    case 1
    note r = aligned_range [OF assms 1]
    show ?thesis
      using for_pages_list [OF r(2), of body s] scan_pages_list [OF r(2), of hit]
      by (simp only: r(1) [symmetric] simp_thms)
  next
    case 2
    then have "unat eva - unat sva = 0" and "\<not> sva < eva"
      by (simp_all add: word_le_nat_alt word_less_nat_alt)
    then show ?thesis
      by (simp add: for_pages.simps [of sva] scan_pages.simps [of sva])
  qed
  then show "for_pages sva eva body s = for_each body (page_list sva ?n) s"
    and "scan_pages sva eva hit = scan_each hit (page_list sva ?n)"
    by blast+
qed

lemma allocate_chunk_pages:
  "allocate_chunk_with cpt dir va sz perms s =
     andthen (scan_each (is_mapped dir s) (chunk_pages va sz)) (\<lambda>found.
       if found then Inr (- 1, s)
       else andthen (for_each (chunk_page cpt dir perms) (chunk_pages va sz) s) (\<lambda>s. Inr (0, s)))"
proof -
  have "4096 dvd unat (ROUNDDOWN va PAGE_SIZE)" "4096 dvd unat (ROUNDUP (va + sz) PAGE_SIZE)"
    using ROUNDDOWN_dvd [of PAGE_SIZE va] ROUNDUP_dvd [of PAGE_SIZE "va + sz"] by simp_all
  then show ?thesis
    by (simp only: allocate_chunk_with_def Let_def chunk_pages_def aligned_pages)
qed

lemma is_mapped_at:
  "table_at dir i p s \<Longrightarrow> tables s p (PTX i) = 0 \<Longrightarrow> is_mapped dir s i = Inr False"
  by (simp add: is_mapped_def get_frame_info_at)

lemma allocate_chunk_ready:
  assumes "chunk_ready dir tp (chunk_pages va sz) s"
  shows "allocate_chunk_with cpt dir va sz perms s =
           Inr (0, chunk_state perms tp (chunk_pages va sz) s)"
proof -
  have "is_mapped dir s i = Inr False" if "i \<in> set (chunk_pages va sz)" for i
  proof (rule is_mapped_at)
    show "table_at dir i (tp i) s" "tables s (tp i) (PTX i) = 0"
      using assms [unfolded chunk_ready_def, THEN conjunct1, THEN bspec, OF that] by blast+
  qed
  then have "scan_each (is_mapped dir s) (chunk_pages va sz) = Inr False"
    by (simp add: scan_each_True)
  then show ?thesis
    using chunk_pages_ok [OF assms] by (simp add: allocate_chunk_pages)
qed

lemma scan_each_hit:
  "\<forall>x\<in>set xs. \<exists>b. hit x = Inr b \<Longrightarrow> x \<in> set xs \<Longrightarrow> hit x = Inr True \<Longrightarrow>
   scan_each hit xs = Inr True"
proof (induction xs)
  case (Cons y ys)
  obtain b where b: "hit y = Inr b"
    using Cons.prems(1) by auto
  show ?case
  proof (cases b)
    case False
    then have "x \<in> set ys"
      using Cons.prems(2,3) b by auto
    then have "scan_each hit ys = Inr True"
      using Cons.prems(1,3) by (intro Cons.IH) simp_all
    with b False show ?thesis by simp
  qed (simp add: b)
qed simp

section \<open>Moving pages\<close>

definition move_page :: "(u32 \<Rightarrow> u32) \<Rightarrow> u32 \<times> u32 \<Rightarrow> kmem \<Rightarrow> kmem" where
  "move_page tp sd s =
     (case sd of (sv, dv) \<Rightarrow>
        set_entry (tp sv) (PTX sv) 0 (set_entry (tp dv) (PTX dv) (tables s (tp sv) (PTX sv)) s))"

definition move_ready :: "u32 \<Rightarrow> (u32 \<Rightarrow> u32) \<Rightarrow> (u32 \<times> u32) list \<Rightarrow> kmem \<Rightarrow> bool" where
  "move_ready dir tp ps s \<longleftrightarrow> number_of_frames s \<le> 1048576 \<and>
     (\<forall>(sv, dv)\<in>set ps. table_at dir sv (tp sv) s \<and> table_at dir dv (tp dv) s \<and>
        tables s (tp dv) (PTX dv) = 0 \<and>
        tables s (tp sv) (PTX sv) AND PERM_PRESENT = PERM_PRESENT \<and>
        unat (PPN (tables s (tp sv) (PTX sv))) < number_of_frames s \<and>
        references s (unat (PPN (tables s (tp sv) (PTX sv)))) \<noteq> 0 \<and>
        references s (unat (PPN (tables s (tp sv) (PTX sv)))) \<noteq> 65535) \<and>
     distinct (map (\<lambda>(sv, dv). (tp sv, PTX sv)) ps @ map (\<lambda>(sv, dv). (tp dv, PTX dv)) ps)"

text \<open>An entry is rebuilt from its frame and its low 12 bits.\<close>

lemma mapped_entry_rebuild:
  assumes "e AND PERM_PRESENT = PERM_PRESENT"
  shows "mapped_entry (unat (PPN e)) (e AND 0xFFF) = e"
proof (rule bit_eqI)
  fix n
  assume "possible_bit TYPE(32 word) n"
  then have n: "n < 32"
    by simp
  have 0: "bit e 0"
    using assms by (auto simp: perm_defs bit_0 even_word_def and_one_eq odd_iff_mod_2_eq_one)
  have "of_nat (unat (PPN e)) = PPN e"
    by simp
  then show "bit (mapped_entry (unat (PPN e)) (e AND 0xFFF)) n = bit e n"
    using 0 n
    by (cases "n = 0") (auto simp: mapped_entry_def CONSTRUCT_ENTRY_def to_physical_address_def PPN_def
        perm_defs mask_12 bit_simps)
qed

lemma cut_paste_page_ok:
  assumes sv: "table_at dir sv ps s" and dv: "table_at dir dv pd s"
    and slot: "(ps, PTX sv) \<noteq> (pd, PTX dv)" and free: "tables s pd (PTX dv) = 0"
    and e: "tables s ps (PTX sv) = e" and pres: "e AND PERM_PRESENT = PERM_PRESENT"
    and f: "unat (PPN e) = f" "f < number_of_frames s"
    and r: "references s f \<noteq> 0" "references s f \<noteq> 65535"
  shows "cut_paste_page cpt dir (sv, dv) s =
           Inr (set_entry ps (PTX sv) 0 (set_entry pd (PTX dv) e s))"
proof -
  have e0: "e \<noteq> 0"
    using pres by (rule present_nonzero)
  have nz: "ps \<noteq> 0" "pd \<noteq> 0"
    using sv dv by (simp_all add: table_at_def)
  have gp: "get_page_table dir sv s = Inr (TABLE_IN_MEMORY, ps)"
    "get_page_table dir dv s = Inr (TABLE_IN_MEMORY, pd)"
    using sv dv by (simp_all add: table_at_def)
  let ?s1 = "set_entry pd (PTX dv) e (s\<lparr>references := (references s)(f := references s f + 1)\<rparr>)"
  have map: "map_frame_with cpt dir f dv (e AND 0xFFF) s = Inr ?s1"
    using map_frame_fresh [OF dv free] mapped_entry_rebuild [OF pres] f(1) by simp
  have at: "table_at dir sv ps ?s1"
    using sv table_at_ne [OF dv] by (intro table_at_set_entry) simp_all
  have "tables ?s1 ps (PTX sv) = e"
    using e slot by auto
  then have "get_frame_info dir sv ?s1 = Inr (Some f, ps)"
    using f e0 by (simp add: get_frame_info_at [OF at])
  then have "unmap_frame dir sv ?s1 = Inr (set_entry ps (PTX sv) 0 (set_entry pd (PTX dv) e s))"
    using r(1) nz(1)
    by (simp add: unmap_frame_def decrement_references_def) (simp add: set_entry_def)
  moreover have "get_frame_info dir sv s = Inr (Some f, ps)"
    using f e e0 by (simp add: get_frame_info_at [OF sv])
  ultimately show ?thesis
    using nz e map by (simp add: cut_paste_page_def gp)
qed

lemma move_page_other:
  "(q, j) \<noteq> (tp sv, PTX sv) \<Longrightarrow> (q, j) \<noteq> (tp dv, PTX dv) \<Longrightarrow>
   tables (move_page tp (sv, dv) s) q j = tables s q j"
  by (auto simp: move_page_def)

lemma table_at_move_page:
  assumes "table_at dir va p s" and "tp sv \<noteq> dir" and "tp dv \<noteq> dir"
  shows "table_at dir va p (move_page tp (sv, dv) s)"
  using assms by (simp add: move_page_def table_at_set_entry)

lemma move_ready_step:
  assumes rdy: "move_ready dir tp ((sv, dv) # ps) s"
  shows "move_ready dir tp ps (move_page tp (sv, dv) s)"
proof -
  let ?s = "move_page tp (sv, dv) s"
  have ne: "tp sv \<noteq> dir" "tp dv \<noteq> dir"
    using rdy table_at_ne by (auto simp: move_ready_def)
  have same: "references ?s = references s" "number_of_frames ?s = number_of_frames s"
    by (simp_all add: move_page_def)
  have slots: "tables ?s (tp a) (PTX a) = tables s (tp a) (PTX a) \<and>
      tables ?s (tp b) (PTX b) = tables s (tp b) (PTX b)" if "(a, b) \<in> set ps" for a b
  proof -
    have a: "(tp a, PTX a) \<in> set (map (\<lambda>(sv, dv). (tp sv, PTX sv)) ps)"
      using that by force
    have b: "(tp b, PTX b) \<in> set (map (\<lambda>(sv, dv). (tp dv, PTX dv)) ps)"
      using that by force
    have n: "(tp sv, PTX sv) \<notin> set (map (\<lambda>(sv, dv). (tp sv, PTX sv)) ps)"
      "(tp sv, PTX sv) \<notin> set (map (\<lambda>(sv, dv). (tp dv, PTX dv)) ps)"
      "(tp dv, PTX dv) \<notin> set (map (\<lambda>(sv, dv). (tp sv, PTX sv)) ps)"
      "(tp dv, PTX dv) \<notin> set (map (\<lambda>(sv, dv). (tp dv, PTX dv)) ps)"
      using rdy by (auto simp: move_ready_def)
    have apart: "x \<in> A \<Longrightarrow> y \<notin> A \<Longrightarrow> x \<noteq> y" for x y :: "u32 \<times> u32" and A
      by blast
    show ?thesis
      using move_page_other [OF apart [OF a n(1)] apart [OF a n(3)], of s]
        move_page_other [OF apart [OF b n(2)] apart [OF b n(4)], of s] by (rule conjI)
  qed
  have dist: "distinct (map (\<lambda>(sv, dv). (tp sv, PTX sv)) ps @ map (\<lambda>(sv, dv). (tp dv, PTX dv)) ps)"
    using rdy by (auto simp: move_ready_def)
  show ?thesis
    unfolding move_ready_def same
  proof (intro conjI ballI dist)
    show "number_of_frames s \<le> 1048576"
      using rdy by (simp add: move_ready_def)
  next
    fix x
    assume "x \<in> set ps"
    moreover obtain a b where x: "x = (a, b)" by fastforce
    ultimately have ab: "(a, b) \<in> set ps" by simp
    then have old: "table_at dir a (tp a) s" "table_at dir b (tp b) s" "tables s (tp b) (PTX b) = 0"
      "tables s (tp a) (PTX a) AND PERM_PRESENT = PERM_PRESENT"
      "unat (PPN (tables s (tp a) (PTX a))) < number_of_frames s"
      "references s (unat (PPN (tables s (tp a) (PTX a)))) \<noteq> 0"
      "references s (unat (PPN (tables s (tp a) (PTX a)))) \<noteq> 65535"
      using rdy by (auto simp: move_ready_def)
    show "case x of (sv, dv) \<Rightarrow> table_at dir sv (tp sv) ?s \<and> table_at dir dv (tp dv) ?s \<and>
        tables ?s (tp dv) (PTX dv) = 0 \<and>
        tables ?s (tp sv) (PTX sv) AND PERM_PRESENT = PERM_PRESENT \<and>
        unat (PPN (tables ?s (tp sv) (PTX sv))) < number_of_frames s \<and>
        references s (unat (PPN (tables ?s (tp sv) (PTX sv)))) \<noteq> 0 \<and>
        references s (unat (PPN (tables ?s (tp sv) (PTX sv)))) \<noteq> 65535"
      using old slots [OF ab] table_at_move_page [OF old(1), of tp sv dv] table_at_move_page [OF old(2), of tp sv dv] ne
      by (simp add: x)
  qed
qed

lemma move_pages_ok:
  "move_ready dir tp ps s \<Longrightarrow>
   for_each (cut_paste_page cpt dir) ps s = Inr (fold (move_page tp) ps s)"
proof (induction ps arbitrary: s)
  case Nil
  then show ?case by simp
next
  case (Cons x ps)
  obtain sv dv where x: "x = (sv, dv)" by fastforce
  have "(tp sv, PTX sv) \<noteq> (tp dv, PTX dv)"
    using Cons.prems by (auto simp: move_ready_def x)
  then have "cut_paste_page cpt dir (sv, dv) s = Inr (move_page tp (sv, dv) s)"
    using Cons.prems unfolding move_page_def x
    by (simp add: move_ready_def cut_paste_page_ok [OF _ _ _ _ refl _ refl])
  with Cons.IH [OF move_ready_step] Cons.prems show ?case
    by (simp add: x)
qed

lemma move_state_effect:
  "distinct (map (\<lambda>(sv, dv). (tp sv, PTX sv)) ps @ map (\<lambda>(sv, dv). (tp dv, PTX dv)) ps) \<Longrightarrow>
   (\<forall>(sv, dv)\<in>set ps.
      tables (fold (move_page tp) ps s) (tp dv) (PTX dv) = tables s (tp sv) (PTX sv) \<and>
      tables (fold (move_page tp) ps s) (tp sv) (PTX sv) = 0) \<and>
   (\<forall>q j. (q, j) \<notin> (\<lambda>(sv, dv). (tp sv, PTX sv)) ` set ps \<union> (\<lambda>(sv, dv). (tp dv, PTX dv)) ` set ps \<longrightarrow>
      tables (fold (move_page tp) ps s) q j = tables s q j) \<and>
   references (fold (move_page tp) ps s) = references s \<and>
   free_frame_list (fold (move_page tp) ps s) = free_frame_list s"
proof (induction ps arbitrary: s)
  case Nil
  then show ?case by simp
next
  case (Cons x ps)
  obtain sv dv where x: "x = (sv, dv)" by fastforce
  let ?s = "move_page tp (sv, dv) s" and ?t = "fold (move_page tp) ps (move_page tp (sv, dv) s)"
  let ?S = "(\<lambda>(sv, dv). (tp sv, PTX sv)) ` set ps" and ?D = "(\<lambda>(sv, dv). (tp dv, PTX dv)) ` set ps"
  have n: "(tp sv, PTX sv) \<notin> ?S \<union> ?D" "(tp dv, PTX dv) \<notin> ?S \<union> ?D"
    "(tp sv, PTX sv) \<noteq> (tp dv, PTX dv)"
    using Cons.prems by (auto simp: x)
  have IH: "(\<forall>(a, b)\<in>set ps. tables ?t (tp b) (PTX b) = tables ?s (tp a) (PTX a) \<and>
      tables ?t (tp a) (PTX a) = 0)"
    "\<forall>q j. (q, j) \<notin> ?S \<union> ?D \<longrightarrow> tables ?t q j = tables ?s q j"
    "references ?t = references ?s" "free_frame_list ?t = free_frame_list ?s"
    using Cons.IH [of ?s] Cons.prems by (simp_all add: x)
  have new: "tables ?s (tp dv) (PTX dv) = tables s (tp sv) (PTX sv)" "tables ?s (tp sv) (PTX sv) = 0"
    using n(3) by (auto simp: move_page_def)
  have old: "tables ?s (tp a) (PTX a) = tables s (tp a) (PTX a)" if "(a, b) \<in> set ps" for a b
  proof (rule move_page_other)
    have "(tp a, PTX a) \<in> ?S"
      using that by force
    then show "(tp a, PTX a) \<noteq> (tp sv, PTX sv)" "(tp a, PTX a) \<noteq> (tp dv, PTX dv)"
      using n by fastforce+
  qed
  have "references ?s = references s" "free_frame_list ?s = free_frame_list s"
    by (simp_all add: move_page_def)
  moreover have "tables ?t q j = tables s q j"
    if "(q, j) \<notin> insert (tp sv, PTX sv) ?S \<union> insert (tp dv, PTX dv) ?D" for q j
    using that IH(2) by (simp add: move_page_other del: set_entry_simps)
  ultimately show ?case
    using IH n(1,2) new old by (fastforce simp: x)
qed

lemma move_pages_tables: "fold (move_page tp) ps s = s\<lparr>tables := tables (fold (move_page tp) ps s)\<rparr>"
proof -
  have "\<exists>t. fold (move_page tp) ps s = s\<lparr>tables := t\<rparr>"
  proof (induction ps arbitrary: s)
    case Nil
    show ?case
      by (intro exI [of _ "tables s"]) simp
  next
    case (Cons x ps)
    have "\<exists>t. move_page tp x s = s\<lparr>tables := t\<rparr>"
      by (cases x) (simp add: move_page_def set_entry_def, blast)
    then obtain t where t: "move_page tp x s = s\<lparr>tables := t\<rparr>"
      by blast
    show ?case
      using Cons [of "s\<lparr>tables := t\<rparr>"] by (simp add: t)
  qed
  then show ?thesis
    by auto
qed

section \<open>Properties\<close>

text \<open>C13: Moving pages: when all source pages are mapped, to frames whose reference counts can go up and down
  by one, all destination pages have a table and are free, and source and destination do not overlap, every
  destination entry becomes the source entry, every source entry becomes 0, no other entry of any table
  changes, and nothing but the tables changes: not the reference counts, the free list, the contents of memory
  or the directories.\<close>

theorem cut_paste_moves:
  assumes "move_ready dir tp (zip (page_list sv (unat n)) (page_list dv (unat n))) s"
    and "ROUNDDOWN sva PAGE_SIZE = sv" and "ROUNDDOWN dva PAGE_SIZE = dv"
  shows "\<exists>s'. cut_paste_pages_with cpt dir sva dva n s = Inr (0, s') \<and>
           (\<forall>(a, b)\<in>set (zip (page_list sv (unat n)) (page_list dv (unat n))).
              tables s' (tp b) (PTX b) = tables s (tp a) (PTX a) \<and> tables s' (tp a) (PTX a) = 0) \<and>
           (\<forall>q j. (\<forall>(a, b)\<in>set (zip (page_list sv (unat n)) (page_list dv (unat n))).
              (q, j) \<noteq> (tp a, PTX a) \<and> (q, j) \<noteq> (tp b, PTX b)) \<longrightarrow> tables s' q j = tables s q j) \<and>
           s' = s\<lparr>tables := tables s'\<rparr>"
proof -
  let ?ps = "zip (page_list sv (unat n)) (page_list dv (unat n))"
  have len: "length (page_list i k) = k" for i k
    by (simp add: page_list_eq)
  have "is_mapped dir s b = Inr False" if "b \<in> set (page_list dv (unat n))" for b
  proof -
    from that obtain k where "k < unat n" "b = page_list dv (unat n) ! k"
      by (metis in_set_conv_nth len)
    then have "(page_list sv (unat n) ! k, b) \<in> set ?ps"
      by (auto simp: set_zip len)
    then have "table_at dir b (tp b) s" "tables s (tp b) (PTX b) = 0"
      using assms(1) by (auto simp: move_ready_def)
    then show ?thesis by (rule is_mapped_at)
  qed
  then have "scan_each (is_mapped dir s) (page_list dv (unat n)) = Inr False"
    by (simp add: scan_each_True)
  then have "cut_paste_pages_with cpt dir sva dva n s = Inr (0, fold (move_page tp) ?ps s)"
    using move_pages_ok [OF assms(1)] by (simp add: cut_paste_pages_with_def assms(2,3) Let_def)
  moreover have "distinct (map (\<lambda>(sv, dv). (tp sv, PTX sv)) ?ps @ map (\<lambda>(sv, dv). (tp dv, PTX dv)) ?ps)"
    using assms(1) by (simp add: move_ready_def)
  then have "(\<forall>(a, b)\<in>set ?ps. tables (fold (move_page tp) ?ps s) (tp b) (PTX b) = tables s (tp a) (PTX a) \<and>
        tables (fold (move_page tp) ?ps s) (tp a) (PTX a) = 0)"
    and "\<forall>q j. (\<forall>(a, b)\<in>set ?ps. (q, j) \<noteq> (tp a, PTX a) \<and> (q, j) \<noteq> (tp b, PTX b)) \<longrightarrow>
        tables (fold (move_page tp) ?ps s) q j = tables s q j"
    using move_state_effect [of tp ?ps s] by (blast, fastforce)
  ultimately show ?thesis
    using move_pages_tables by blast
qed

theorem cut_paste_moves_witness:
  "\<exists>s'. cut_paste_pages_with (\<lambda>d v s. Inl Panic) 0xF0200000 0x800000 0x802000 1
       (kmem_example_mapped\<lparr>references := (\<lambda>f. 1)\<rparr>) = Inr (0, s') \<and>
     (\<forall>(a, b)\<in>set (zip (page_list 0x800000 (unat (1 :: u32))) (page_list 0x802000 (unat (1 :: u32)))).
        tables s' 0xF6001000 (PTX b) = tables kmem_example_mapped 0xF6001000 (PTX a) \<and>
        tables s' 0xF6001000 (PTX a) = 0) \<and>
     tables s' 0xF6001000 5 = tables kmem_example_mapped 0xF6001000 5 \<and>
     references s' = (\<lambda>f. 1) \<and> free_frame_list s' = [31]"
proof -
  let ?s = "kmem_example_mapped\<lparr>references := (\<lambda>f. 1)\<rparr>"
  have "move_ready 0xF0200000 (\<lambda>i. 0xF6001000)
      (zip (page_list 0x800000 (unat (1 :: u32))) (page_list 0x802000 (unat (1 :: u32)))) ?s"
    by (simp add: move_ready_def table_at_def get_page_table_def table_read_def table_address_def
        kheap_virtual_address_def to_frame_info_def kmem_example_mapped_def kmem_example_def
        perm_defs addr_defs CHECK_IF_KERNEL_ADDRESS_def layout_defs)
  moreover have "ROUNDDOWN 0x800000 PAGE_SIZE = 0x800000" "ROUNDDOWN 0x802000 PAGE_SIZE = 0x802000"
    by (simp_all add: ROUNDDOWN_def PAGE_SIZE_def)
  ultimately obtain s' where s': "cut_paste_pages_with (\<lambda>d v s. Inl Panic) 0xF0200000 0x800000 0x802000 1 ?s = Inr (0, s')"
      "\<forall>(a, b)\<in>set (zip (page_list 0x800000 (unat (1 :: u32))) (page_list 0x802000 (unat (1 :: u32)))).
         tables s' 0xF6001000 (PTX b) = tables ?s 0xF6001000 (PTX a) \<and> tables s' 0xF6001000 (PTX a) = 0"
      "\<forall>q j. (\<forall>(a, b)\<in>set (zip (page_list 0x800000 (unat (1 :: u32))) (page_list 0x802000 (unat (1 :: u32)))).
         (q, j) \<noteq> (0xF6001000, PTX a) \<and> (q, j) \<noteq> (0xF6001000, PTX b)) \<longrightarrow> tables s' q j = tables ?s q j"
      "s' = ?s\<lparr>tables := tables s'\<rparr>"
    using cut_paste_moves by blast
  have "PTX (0x800000 :: u32) \<noteq> 5" "PTX (0x802000 :: u32) \<noteq> 5"
    by (simp_all add: addr_defs)
  then have "tables s' 0xF6001000 5 = tables ?s 0xF6001000 5"
    using s'(3) by simp
  moreover have "references s' = (\<lambda>f. 1)" "free_frame_list s' = [31]"
    using arg_cong [OF s'(4), of references] arg_cong [OF s'(4), of free_frame_list]
    by (simp_all add: kmem_example_mapped_def)
  ultimately show ?thesis
    using s'(1,2) by auto
qed

text \<open>Allocating a chunk: when every page of the range has a table and is free and there are
  enough free frames, the call returns 0; page k of the range is mapped to the k-th free
  frame with the requested permissions plus present, that frame has one reference and
  records the page as its address, exactly these frames leave the free list, and no other
  entry, count or frame address changes.\<close>

theorem allocate_chunk_maps:
  assumes "chunk_ready dir tp (chunk_pages va sz) s"
  shows "\<exists>s'. allocate_chunk_with cpt dir va sz perms s = Inr (0, s') \<and>
           chunk_effect perms tp (chunk_pages va sz) s s'"
  using allocate_chunk_ready [OF assms] chunk_state_effect assms
  by (auto simp: chunk_ready_def)

lemma example_chunk_pages: "chunk_pages 0x800000 0x1800 = [0x800000, 0x801000]"
proof -
  have two: "page_list i 2 = [i, i + PAGE_SIZE]" for i
    by (simp add: numeral_2_eq_2)
  show ?thesis
    by (simp add: chunk_pages_def ROUNDDOWN_def ROUNDUP_def PAGE_SIZE_def)
      (simp add: two PAGE_SIZE_def)
qed

theorem allocate_chunk_maps_witness:
  "\<exists>s'. allocate_chunk_with (\<lambda>d v s. Inl Panic) 0xF0200000 0x800000 0x1800 6 kmem_example = Inr (0, s') \<and>
     chunk_effect 6 (\<lambda>i. 0xF6001000) (chunk_pages 0x800000 0x1800) kmem_example s'"
  by (rule allocate_chunk_maps)
    (simp add: example_chunk_pages chunk_ready_def table_at_def get_page_table_def table_read_def
      table_address_def kheap_virtual_address_def to_frame_info_def kmem_example_def
      perm_defs addr_defs CHECK_IF_KERNEL_ADDRESS_def layout_defs pde_frame_def)

text \<open>Allocating a chunk over a range in which some page is already mapped fails with -1 and
  changes nothing.\<close>

theorem allocate_chunk_conflict:
  assumes "\<forall>i\<in>set (chunk_pages va sz). \<exists>b. is_mapped dir s i = Inr b"
    and "i \<in> set (chunk_pages va sz)" and "is_mapped dir s i = Inr True"
  shows "allocate_chunk_with cpt dir va sz perms s = Inr (- 1, s)"
  using scan_each_hit [OF assms] by (simp add: allocate_chunk_pages)

theorem allocate_chunk_conflict_witness:
  "allocate_chunk_with (\<lambda>d v s. Inl Panic) 0xF0200000 0x800000 0x1800 6 kmem_example_mapped =
     Inr (- 1, kmem_example_mapped)"
proof (rule allocate_chunk_conflict [where i = "0x800000"])
  have m: "is_mapped 0xF0200000 kmem_example_mapped 0x800000 = Inr True"
    "is_mapped 0xF0200000 kmem_example_mapped 0x801000 = Inr False"
    by (simp_all add: is_mapped_def get_frame_info_def get_page_table_def table_read_def
        table_address_def kheap_virtual_address_def to_frame_info_def kmem_example_mapped_def
        kmem_example_def perm_defs addr_defs CHECK_IF_KERNEL_ADDRESS_def layout_defs)
  then show "is_mapped 0xF0200000 kmem_example_mapped 0x800000 = Inr True"
    by simp
  show "\<forall>i\<in>set (chunk_pages 0x800000 0x1800). \<exists>b. is_mapped 0xF0200000 kmem_example_mapped i = Inr b"
    using m by (auto simp: example_chunk_pages)
qed (simp add: example_chunk_pages)

text \<open>A chunk whose end lies in the last page of the address space or is exactly the end of
  it rounds up to address 0: the call returns 0, success, and allocates nothing.\<close>

theorem allocate_chunk_wraps:
  assumes "unat (va + sz) > 4294963200"
  shows "allocate_chunk_with cpt dir va sz perms s = Inr (0, s)"
  using ROUNDUP_wraps [OF assms] by (simp add: allocate_chunk_pages chunk_pages_def)

theorem allocate_chunk_wraps_witness:
  "allocate_chunk_with (\<lambda>d v s. Inl Panic) 0xF0100000 0xFFFFE000 0x1800 2 kmem_example = Inr (0, kmem_example)"
  by (rule allocate_chunk_wraps) simp

end
