(* ===== verification/Kheap.thy ===== *)
theory Kheap
  imports Chunk_Ops
begin

text \<open>
  The kernel heap, \<^verbatim>\<open>kern/mem/kheap.c\<close>, and \<^verbatim>\<open>create_page_table\<close> of
  \<^verbatim>\<open>kern/mem/memory_manager.c\<close>, which allocates from it. Creating a table allocates a
  page of the heap, which maps a frame, which may create a table: the recursion is cut by
  fuel. The directory of the kernel has a table for every heap address from the boot on, and
  then one level is enough (\<open>create_page_table_fuel\<close>). The operations of the memory manager
  and of the chunks get their final form here, with the table creation plugged in.
\<close>

section \<open>Operations\<close>

definition KHP_PLACE_FIRSTFIT :: u32 where "KHP_PLACE_FIRSTFIT = 1"
definition KHP_PLACE_BESTFIT :: u32 where "KHP_PLACE_BESTFIT = 2"
definition KHP_PLACE_NEXTFIT :: u32 where "KHP_PLACE_NEXTFIT = 3"

definition sizeof_MemBlock :: u32 where "sizeof_MemBlock = 16"

definition initialize_dyn_block_system_with ::
    "(u32 \<Rightarrow> u32 \<Rightarrow> kmem \<Rightarrow> (u32 \<times> kmem) result) \<Rightarrow> kmem \<Rightarrow> kmem result" where
  "initialize_dyn_block_system_with cpt s =
     (let d = (kheap s)\<lparr>AllocMemBlocksList := [], FreeMemBlocksList := []\<rparr>;
          max_cnt = NUM_OF_KHEAP_PAGES;
          size_all_struct = ROUNDUP (sizeof_MemBlock * max_cnt) PAGE_SIZE
      in andthen (allocate_chunk_with cpt (ptr_page_directory s) KERNEL_HEAP_START size_all_struct
                    PERM_WRITEABLE (s\<lparr>kheap := d\<rparr>)) (\<lambda>(_, s).
         andthen (initialize_MemBlocksList (unat max_cnt) (kheap s)) (\<lambda>d.
           let ourBlock = list_last (AvailableMemBlocksList d) in
           andthen (list_remove (AvailableMemBlocksList d) ourBlock) (\<lambda>av.
             case ourBlock of
               None \<Rightarrow> Inl Panic
             | Some b \<Rightarrow>
                 (let d = d\<lparr>AvailableMemBlocksList := av\<rparr>;
                      sz = (KERNEL_HEAP_MAX - KERNEL_HEAP_START) - size_all_struct;
                      d = d\<lparr>blk_size := (blk_size d)(b := sz)\<rparr>;
                      d = d\<lparr>blk_sva := (blk_sva d)(b := KERNEL_HEAP_MAX - blk_size d b)\<rparr>
                  in andthen (list_insert_tail (FreeMemBlocksList d) (Some b))
                       (\<lambda>fr. Inr (s\<lparr>kheap := d\<lparr>FreeMemBlocksList := fr\<rparr>\<rparr>)))))))"

text \<open>
  The common tail of the two strategies: the block is recorded and its range is backed by
  frames. The value is the address, or \<open>None\<close> when the branch falls through.
\<close>

definition back_block ::
    "(u32 \<Rightarrow> u32 \<Rightarrow> kmem \<Rightarrow> (u32 \<times> kmem) result) \<Rightarrow> u32 \<Rightarrow> nat option \<times> dyn \<Rightarrow> kmem \<Rightarrow>
     (u32 option \<times> kmem) result" where
  "back_block cpt sz vd s =
     (case vd of
        (None, d) \<Rightarrow> Inr (None, s\<lparr>kheap := d\<rparr>)
      | (Some v, d) \<Rightarrow>
          andthen (insert_sorted_allocList v d) (\<lambda>d.
            let ali = blk_sva d v in
            andthen (allocate_chunk_with cpt (ptr_page_directory s) ali sz PERM_WRITEABLE
                       (s\<lparr>kheap := d\<rparr>)) (\<lambda>(amira, s).
              Inr (if amira = 0 then Some ali else None, s))))"

definition kmalloc_with ::
    "(u32 \<Rightarrow> u32 \<Rightarrow> kmem \<Rightarrow> (u32 \<times> kmem) result) \<Rightarrow> u32 \<Rightarrow> kmem \<Rightarrow> (u32 \<times> kmem) result" where
  "kmalloc_with cpt sz s =
     (let sz = ROUNDUP sz PAGE_SIZE in
      andthen
        (if KHeapPlacementStrategy s = KHP_PLACE_FIRSTFIT
         then andthen (alloc_block_FF sz (kheap s)) (\<lambda>vd. back_block cpt sz vd s)
         else Inr (None, s)) (\<lambda>(r, s).
      case r of
        Some p \<Rightarrow> Inr (p, s)
      | None \<Rightarrow>
          andthen
            (if KHeapPlacementStrategy s = KHP_PLACE_BESTFIT
             then andthen (alloc_block_BF (stale_newsize s) (stale_newveradd s) sz (kheap s))
                    (\<lambda>vd. back_block cpt sz vd s)
             else Inr (None, s)) (\<lambda>(r, s).
          case r of Some p \<Rightarrow> Inr (p, s) | None \<Rightarrow> Inr (0, s))))"

definition create_page_table_body ::
    "(u32 \<Rightarrow> kmem \<Rightarrow> (u32 \<times> kmem) result) \<Rightarrow> u32 \<Rightarrow> u32 \<Rightarrow> kmem \<Rightarrow> (u32 \<times> kmem) result" where
  "create_page_table_body km dir virtual_address s =
     andthen (km PAGE_SIZE s) (\<lambda>(p, s).
       if p = 0 then Inl Panic
       else
         andthen (kheap_physical_address p s) (\<lambda>pa.
         andthen (table_write dir (PDX virtual_address)
                    (CONSTRUCT_ENTRY pa (PERM_PRESENT OR PERM_USER OR PERM_WRITEABLE)) s) (\<lambda>s.
           Inr (p, s\<lparr>tables := (tables s)(p := (\<lambda>i. 0))\<rparr>))))"

fun create_page_table_n :: "nat \<Rightarrow> u32 \<Rightarrow> u32 \<Rightarrow> kmem \<Rightarrow> (u32 \<times> kmem) result" where
  "create_page_table_n 0 dir va s = Inl No_Fuel"
| "create_page_table_n (Suc n) dir va s =
     create_page_table_body (kmalloc_with (create_page_table_n n)) dir va s"

definition table_fuel :: nat where "table_fuel = 2"

definition create_page_table :: "u32 \<Rightarrow> u32 \<Rightarrow> kmem \<Rightarrow> (u32 \<times> kmem) result" where
  "create_page_table = create_page_table_n table_fuel"

definition kmalloc :: "u32 \<Rightarrow> kmem \<Rightarrow> (u32 \<times> kmem) result" where
  "kmalloc = kmalloc_with create_page_table"

definition map_frame :: "u32 \<Rightarrow> nat \<Rightarrow> u32 \<Rightarrow> u32 \<Rightarrow> kmem \<Rightarrow> kmem result" where
  "map_frame = map_frame_with create_page_table"

definition loadtime_map_frame :: "u32 \<Rightarrow> nat \<Rightarrow> u32 \<Rightarrow> u32 \<Rightarrow> kmem \<Rightarrow> kmem result" where
  "loadtime_map_frame = loadtime_map_frame_with create_page_table"

definition allocate_chunk :: "u32 \<Rightarrow> u32 \<Rightarrow> u32 \<Rightarrow> u32 \<Rightarrow> kmem \<Rightarrow> (int \<times> kmem) result" where
  "allocate_chunk = allocate_chunk_with create_page_table"

definition share_chunk :: "u32 \<Rightarrow> u32 \<Rightarrow> u32 \<Rightarrow> u32 \<Rightarrow> u32 \<Rightarrow> kmem \<Rightarrow> (int \<times> kmem) result" where
  "share_chunk = share_chunk_with create_page_table"

definition initialize_dyn_block_system :: "kmem \<Rightarrow> kmem result" where
  "initialize_dyn_block_system = initialize_dyn_block_system_with create_page_table"

definition kfree :: "u32 \<Rightarrow> kmem \<Rightarrow> kmem result" where
  "kfree virtual_address s =
     (let virtualAddress = ROUNDDOWN virtual_address 4096 in
      case find_block (AllocMemBlocksList (kheap s)) virtualAddress (kheap s) of
        None \<Rightarrow> Inr s
      | Some v1 \<Rightarrow>
          andthen (list_remove (AllocMemBlocksList (kheap s)) (Some v1)) (\<lambda>al.
            let s = s\<lparr>kheap := (kheap s)\<lparr>AllocMemBlocksList := al\<rparr>\<rparr>;
                eva = virtualAddress + blk_size (kheap s) v1
            in andthen (for_pages virtualAddress eva (unmap_frame (ptr_page_directory s)) s) (\<lambda>s.
               andthen (insert_sorted_with_merge_freeList v1 (kheap s)) (\<lambda>d.
                 Inr (s\<lparr>kheap := d\<rparr>)))))"

definition kfreeall :: "kmem \<Rightarrow> kmem result" where "kfreeall s = Inl Panic"
definition kshrink :: "u32 \<Rightarrow> kmem \<Rightarrow> kmem result" where "kshrink newSize s = Inl Panic"
definition kexpand :: "u32 \<Rightarrow> kmem \<Rightarrow> kmem result" where "kexpand newSize s = Inl Panic"

definition krealloc :: "u32 \<Rightarrow> u32 \<Rightarrow> kmem \<Rightarrow> (u32 \<times> kmem) result" where
  "krealloc virtual_address new_size s = Inl Panic"

section \<open>Sets of whole pages\<close>

definition page_sat :: "nat set \<Rightarrow> bool" where
  "page_sat S \<longleftrightarrow> (\<forall>x y. x div 4096 = y div 4096 \<longrightarrow> x \<in> S \<longrightarrow> y \<in> S)"

lemma page_sat_interval:
  assumes "4096 dvd a" and "4096 dvd b"
  shows "page_sat {a..<b}"
proof -
  obtain a' b' where ab: "a = 4096 * a'" "b = 4096 * b'"
    using assms by (auto elim!: dvdE)
  have in_iff: "a \<le> x \<and> x < b \<longleftrightarrow> a' \<le> x div 4096 \<and> x div 4096 < b'" for x
    by (simp add: ab less_eq_div_iff_mult_less_eq div_less_iff_less_mult mult.commute)
  show ?thesis
    unfolding page_sat_def by (simp add: in_iff)
qed

lemma pred_div:
  assumes "\<not> 4096 dvd (n :: nat)"
  shows "n \<noteq> 0" and "(n - 1) div 4096 = n div 4096"
proof -
  show "n \<noteq> 0"
    using assms by (metis dvd_0_right)
  have decomp: "(r + q * 4096) div 4096 = q" if "r < 4096" for r q :: nat
    using that by simp
  have r: "0 < n mod 4096"
    using assms by (simp add: dvd_eq_mod_eq_0)
  then have "n - 1 = (n mod 4096 - 1) + n div 4096 * 4096"
    using div_mult_mod_eq [of n 4096] by linarith
  moreover have "n mod 4096 - 1 < 4096"
    using mod_less_divisor [of 4096 n] by linarith
  ultimately show "(n - 1) div 4096 = n div 4096"
    using decomp by (simp only:)
qed

lemma page_sat_ops:
  "page_sat S \<Longrightarrow> page_sat T \<Longrightarrow> page_sat (S \<union> T)"
  "page_sat S \<Longrightarrow> page_sat T \<Longrightarrow> page_sat (S - T)"
  unfolding page_sat_def by (blast, metis Diff_iff)

text \<open>The intervals of a canonical list that covers whole pages are made of whole pages.\<close>

lemma page_sat_bounds:
  assumes "canonical ps" and "page_sat (cover ps)" and "p \<in> set ps"
  shows "4096 dvd fst p" and "4096 dvd snd p"
proof -
  obtain xs ys where ps: "ps = xs @ p # ys"
    using assms(3) by (meson split_list)
  have pos: "fst p < snd p" and xs: "\<forall>q\<in>set xs. snd q < fst p"
    and ys: "\<forall>q\<in>set ys. snd p < fst q"
    using assms(1) by (simp_all add: ps)
  have in1: "fst p \<in> cover ps" "snd p - 1 \<in> cover ps"
    using pos by (auto simp: ps)
  have out: "snd p \<notin> cover ps" "fst p \<noteq> 0 \<Longrightarrow> fst p - 1 \<notin> cover ps"
    using xs ys pos by (fastforce simp: ps cover_def)+
  show "4096 dvd fst p"
  proof (rule ccontr)
    assume n: "\<not> 4096 dvd fst p"
    show False
      using assms(2) in1(1) out(2) [OF pred_div(1) [OF n]] pred_div(2) [OF n]
      unfolding page_sat_def by metis
  qed
  show "4096 dvd snd p"
  proof (rule ccontr)
    assume n: "\<not> 4096 dvd snd p"
    show False
      using assms(2) in1(2) out(1) pred_div(2) [OF n] unfolding page_sat_def by metis
  qed
qed

section \<open>The heap invariant\<close>

definition heap_range :: "nat set" where
  "heap_range = {unat KERNEL_HEAP_START..<unat KERNEL_HEAP_MAX}"

definition heap_pages :: "u32 set" where
  "heap_pages = {i. 4096 dvd unat i \<and> unat i \<in> heap_range}"

text \<open>
  The allocated blocks are recorded by increasing address, are made of whole pages of the
  range \<open>R\<close> of the heap, and overlap neither each other nor the free ranges.
\<close>

definition alloc_wf :: "nat set \<Rightarrow> dyn \<Rightarrow> bool" where
  "alloc_wf R d \<longleftrightarrow> alloc_sorted d \<and>
     (\<forall>b\<in>set (AllocMemBlocksList d). 0 < blk_size d b \<and> 4096 dvd unat (blk_sva d b) \<and>
        4096 dvd unat (blk_size d b) \<and> span d b \<subseteq> R \<and> span d b \<inter> free_set d = {}) \<and>
     (\<forall>b\<in>set (AllocMemBlocksList d). \<forall>c\<in>set (AllocMemBlocksList d).
        b \<noteq> c \<longrightarrow> span d b \<inter> span d c = {})"

text \<open>
  The kernel directory has the table \<open>kt i\<close> for every heap page \<open>i\<close>, and no page of a free
  range is mapped.
\<close>

definition heap_paging :: "(u32 \<Rightarrow> u32) \<Rightarrow> nat set \<Rightarrow> kmem \<Rightarrow> bool" where
  "heap_paging kt F s \<longleftrightarrow>
     (\<forall>i\<in>heap_pages. table_at (ptr_page_directory s) i (kt i) s \<and>
        pde_frame (ptr_page_directory s) i s \<notin> set (free_frame_list s)) \<and>
     inj_on (\<lambda>i. (kt i, PTX i)) heap_pages \<and> distinct (free_frame_list s) \<and>
     (\<forall>f\<in>set (free_frame_list s). isBuffered s f = 0) \<and>
     (\<forall>i\<in>heap_pages. unat i \<in> F \<longrightarrow> tables s (kt i) (PTX i) = 0)"

definition kheap_inv :: "(u32 \<Rightarrow> u32) \<Rightarrow> kmem \<Rightarrow> bool" where
  "kheap_inv kt s \<longleftrightarrow> dyn_inv (kheap s) \<and> page_sat (free_set (kheap s)) \<and>
     free_set (kheap s) \<subseteq> heap_range \<and> alloc_wf heap_range (kheap s) \<and>
     heap_paging kt (free_set (kheap s)) s"

lemma page_list_length [simp]: "length (page_list a n) = n"
  by (simp add: page_list_eq)

lemma page_list_nth:
  assumes "unat a + 4096 * n < 4294967296" and "k < n"
  shows "unat (page_list a n ! k) = unat a + 4096 * k"
proof -
  have k: "4096 * k < 4294967296" "unat a + 4096 * k < 4294967296"
    using assms by linarith+
  have "(of_nat k * PAGE_SIZE :: u32) = of_nat (4096 * k)"
    by (simp add: PAGE_SIZE_def mult.commute)
  then have "unat (of_nat k * PAGE_SIZE) = 4096 * k"
    using k(1) by (simp only: unat_of_nat) simp
  moreover have "page_list a n ! k = a + of_nat k * PAGE_SIZE"
    using assms(2) by (simp add: page_list_eq)
  ultimately show ?thesis
    using k(2) unat_add_u32 [of a "of_nat k * PAGE_SIZE"] by simp
qed

lemma page_list_mem:
  assumes "unat a + 4096 * n < 4294967296"
  shows "i \<in> set (page_list a n) \<longleftrightarrow> (\<exists>k<n. unat i = unat a + 4096 * k)"
proof
  assume "i \<in> set (page_list a n)"
  then show "\<exists>k<n. unat i = unat a + 4096 * k"
    using page_list_nth [OF assms] by (metis in_set_conv_nth page_list_length)
next
  assume "\<exists>k<n. unat i = unat a + 4096 * k"
  then obtain k where k: "k < n" "unat i = unat a + 4096 * k" by blast
  then have "i = page_list a n ! k"
    using page_list_nth [OF assms k(1)] by (simp add: u32_eq_iff)
  then show "i \<in> set (page_list a n)"
    using k(1) by simp
qed

lemma page_list_distinct:
  "unat a + 4096 * n < 4294967296 \<Longrightarrow> distinct (page_list a n)"
  unfolding distinct_conv_nth page_list_length
  by (metis add_left_cancel mult_cancel1 page_list_nth zero_neq_numeral)

lemma chunk_pages_aligned:
  assumes "4096 dvd unat a" and "4096 dvd unat sz" and "unat a + unat sz + 4095 < 4294967296"
  shows "chunk_pages a sz = page_list a (unat sz div 4096)"
proof -
  have e: "unat (a + sz) = unat a + unat sz"
    using assms(3) by (intro unat_add_u32) simp
  have "4096 dvd unat a + unat sz"
    using assms(1,2) by (rule dvd_add)
  then obtain m where m: "unat a + unat sz = 4096 * m"
    by (auto elim!: dvdE)
  have "unat (ROUNDUP (a + sz) PAGE_SIZE) = (4096 * m + 4095) div 4096 * 4096"
    using assms(3) m e by (subst ROUNDUP_unat) simp_all
  also have "(4096 * m + 4095) div 4096 = m"
    by simp
  finally have "unat (ROUNDUP (a + sz) PAGE_SIZE) = unat a + unat sz"
    using m by simp
  moreover have "ROUNDDOWN a PAGE_SIZE = a"
    using assms(1) by (intro ROUNDDOWN_idem) simp
  ultimately show ?thesis
    by (simp add: chunk_pages_def)
qed

text \<open>Mapping pages of the heap keeps the tables in place.\<close>

lemma chunk_effect_paging:
  assumes pg: "heap_paging kt F s" and eff: "chunk_effect perms kt is s s'"
    and "is": "set is \<subseteq> heap_pages" and F': "F' \<subseteq> F" "\<forall>i\<in>set is. unat i \<notin> F'"
    and same: "ptr_page_directory s' = ptr_page_directory s" "number_of_frames s' = number_of_frames s"
    and nb: "\<forall>f\<in>set (free_frame_list s'). isBuffered s' f = 0"
  shows "heap_paging kt F' s'"
proof -
  let ?dir = "ptr_page_directory s"
  have old: "table_at ?dir i (kt i) s" "pde_frame ?dir i s \<notin> set (free_frame_list s)"
    if "i \<in> heap_pages" for i
    using pg that by (simp_all add: heap_paging_def)
  have inj: "inj_on (\<lambda>i. (kt i, PTX i)) heap_pages"
    using pg by (simp add: heap_paging_def)
  have "(?dir, j) \<notin> (\<lambda>i. (kt i, PTX i)) ` set is" for j
    using "is" old(1) table_at_ne by fastforce
  then have dir: "tables s' ?dir j = tables s ?dir j" for j
    using eff by (simp add: chunk_effect_def)
  have pd: "pde_frame ?dir i s' = pde_frame ?dir i s" for i
    by (simp add: pde_frame_def dir)
  have at: "table_at ?dir i (kt i) s'" if "i \<in> heap_pages" for i
  proof -
    have "pde_frame ?dir i s \<notin> set (take (length is) (free_frame_list s))"
      using old(2) [OF that] by (meson in_set_takeD)
    then have "frame_va s' (pde_frame ?dir i s) = frame_va s (pde_frame ?dir i s)"
      using eff by (simp add: chunk_effect_def)
    then show ?thesis
      using old(1) [OF that] dir same(2) by (subst table_at_cong [of _ _ _ s]) simp_all
  qed
  have fl: "free_frame_list s' = drop (length is) (free_frame_list s)"
    using eff by (simp add: chunk_effect_def)
  have zero: "tables s' (kt i) (PTX i) = 0" if i: "i \<in> heap_pages" "unat i \<in> F'" for i
  proof -
    have "i \<notin> set is"
      using i(2) F'(2) by blast
    then have "(kt i, PTX i) \<notin> (\<lambda>i. (kt i, PTX i)) ` set is"
      using inj_on_image_mem_iff [OF inj i(1) "is"] by simp
    then have "tables s' (kt i) (PTX i) = tables s (kt i) (PTX i)"
      using eff by (simp add: chunk_effect_def)
    also have "\<dots> = 0"
      using pg i F'(1) by (auto simp: heap_paging_def)
    finally show ?thesis .
  qed
  have "distinct (free_frame_list s')"
    using pg by (simp add: fl heap_paging_def)
  moreover have "pde_frame ?dir i s \<notin> set (free_frame_list s')" if "i \<in> heap_pages" for i
    using old(2) [OF that] by (auto simp: fl dest: in_set_dropD)
  ultimately show ?thesis
    unfolding heap_paging_def same(1) pd using at zero inj nb by blast
qed

section \<open>Allocation\<close>

lemma chunk_state_unbuffered:
  "\<forall>f. isBuffered s f = 0 \<longrightarrow> isBuffered (chunk_state perms tp is s) f = 0"
  by (induction "is" arbitrary: s) auto

lemma took_keeps_alloc_wf:
  assumes wf: "alloc_wf R d" and t: "took sz n d d'" and sz: "0 < sz" "4096 dvd unat sz"
    and a: "4096 dvd unat (blk_sva d' n)" and inv: "dyn_inv d" and rng: "free_set d \<subseteq> R"
  shows "\<exists>d''. insert_sorted_allocList n d' = Inr d'' \<and> alloc_wf R d'' \<and>
           blk_sva d'' = blk_sva d' \<and> blk_size d'' = blk_size d' \<and>
           FreeMemBlocksList d'' = FreeMemBlocksList d' \<and>
           AvailableMemBlocksList d'' = AvailableMemBlocksList d' \<and>
           set (AllocMemBlocksList d'') = insert n (set (AllocMemBlocksList d)) \<and>
           distinct (AllocMemBlocksList d'')"
proof -
  have tk: "blk_size d' n = sz" "span d' n \<subseteq> free_set d" "free_set d' = free_set d - span d' n"
    "n \<notin> set (AllocMemBlocksList d')" "AllocMemBlocksList d' = AllocMemBlocksList d"
    using t by (auto simp: took_def)
  have old: "blk_sva d' m = blk_sva d m \<and> blk_size d' m = blk_size d m"
    if m: "m \<in> set (AllocMemBlocksList d)" for m
  proof -
    have "m \<notin> set (AvailableMemBlocksList d)" "m \<notin> set (FreeMemBlocksList d)"
      using inv m by (auto simp: dyn_inv_def)
    then show ?thesis
      using t by (simp add: took_def)
  qed
  then have spans: "span d' m = span d m" if "m \<in> set (AllocMemBlocksList d)" for m
    using that by (simp add: span_def)
  have pos: "0 < unat sz"
    using sz(1) by (simp add: word_less_nat_alt)
  have st: "unat (blk_sva d' n) \<in> span d' n"
    using pos by (simp add: span_def tk(1))
  have srt: "alloc_sorted d'"
    using wf old unfolding alloc_wf_def alloc_sorted_def tk(5)
    by (auto intro: sorted_wrt_mono_rel [rotated])
  have new: "\<forall>m\<in>set (AllocMemBlocksList d'). blk_sva d' m \<noteq> blk_sva d' n"
  proof
    fix m
    assume "m \<in> set (AllocMemBlocksList d')"
    then have m: "m \<in> set (AllocMemBlocksList d)"
      by (simp add: tk(5))
    have disj: "span d m \<inter> free_set d = {}" and "0 < unat (blk_size d m)"
      using wf m by (auto simp: alloc_wf_def word_less_nat_alt)
    then have "unat (blk_sva d m) \<in> span d m"
      by (simp add: span_def)
    then have "unat (blk_sva d m) \<notin> free_set d"
      using disj by blast
    moreover have "unat (blk_sva d' n) \<in> free_set d"
      using st tk(2) by blast
    ultimately show "blk_sva d' m \<noteq> blk_sva d' n"
      using old [OF m] by auto
  qed
  obtain xs ys where al: "AllocMemBlocksList d' = xs @ ys"
    and run: "insert_sorted_allocList n d' = Inr (d'\<lparr>AllocMemBlocksList := xs @ n # ys\<rparr>)"
    and srt': "alloc_sorted (d'\<lparr>AllocMemBlocksList := xs @ n # ys\<rparr>)"
    using insert_alloc_sorted [OF srt tk(4) new] by blast
  let ?d = "d'\<lparr>AllocMemBlocksList := xs @ n # ys\<rparr>"
  have set: "set (AllocMemBlocksList ?d) = insert n (set (AllocMemBlocksList d))"
    using al tk(5) by auto
  have fs: "free_set ?d = free_set d - span d' n"
    using tk(3) by (simp add: free_set_def free_ivs_def)
  have sp: "span ?d = span d'"
    by (simp add: span_def fun_eq_iff)
  have n_ok: "span d' n \<subseteq> R" "span d' n \<inter> (free_set d - span d' n) = {}"
    using tk(2) rng by auto
  have m_ok: "0 < blk_size d' m" "4096 dvd unat (blk_sva d' m)" "4096 dvd unat (blk_size d' m)"
    "span d' m \<subseteq> R" "span d' m \<inter> free_set d = {}" "span d' m \<inter> span d' n = {}"
    if m: "m \<in> set (AllocMemBlocksList d)" for m
  proof -
    have b: "0 < blk_size d m" "4096 dvd unat (blk_sva d m)" "4096 dvd unat (blk_size d m)"
      "span d m \<subseteq> R" "span d m \<inter> free_set d = {}"
      using wf m by (simp_all add: alloc_wf_def)
    then show "0 < blk_size d' m" "4096 dvd unat (blk_sva d' m)" "4096 dvd unat (blk_size d' m)"
      "span d' m \<subseteq> R" "span d' m \<inter> free_set d = {}"
      using old [OF m] spans [OF m] by simp_all
    then show "span d' m \<inter> span d' n = {}"
      using tk(2) by blast
  qed
  have pair: "span d' m \<inter> span d' k = {}"
    if "m \<in> set (AllocMemBlocksList d)" "k \<in> set (AllocMemBlocksList d)" "m \<noteq> k" for m k
    using wf that spans by (simp add: alloc_wf_def)
  have apart: "span d' m \<inter> (free_set d - span d' n) = {}" if "m \<in> set (AllocMemBlocksList d)" for m
    using m_ok(5) [OF that] by blast
  have "alloc_wf R ?d"
    unfolding alloc_wf_def set fs sp
  proof (intro conjI ballI impI)
    show "alloc_sorted ?d" by (fact srt')
  next
    fix b
    assume "b \<in> insert n (set (AllocMemBlocksList d))"
    then show "0 < blk_size ?d b" "4096 dvd unat (blk_sva ?d b)" "4096 dvd unat (blk_size ?d b)"
      "span d' b \<subseteq> R" "span d' b \<inter> (free_set d - span d' n) = {}"
      using m_ok(1-4) [of b] apart [of b] n_ok sz a tk(1) by (cases "b = n"; simp)+
  next
    fix b c
    assume "b \<in> insert n (set (AllocMemBlocksList d))" "c \<in> insert n (set (AllocMemBlocksList d))"
      "b \<noteq> c"
    then consider "b = n" "c \<in> set (AllocMemBlocksList d)" | "c = n" "b \<in> set (AllocMemBlocksList d)"
      | "b \<in> set (AllocMemBlocksList d)" "c \<in> set (AllocMemBlocksList d)"
      by blast
    then show "span d' b \<inter> span d' c = {}"
      by cases (use m_ok(6) pair \<open>b \<noteq> c\<close> in \<open>simp_all add: Int_commute\<close>)
  qed
  moreover have "distinct (AllocMemBlocksList ?d)"
    using al tk(4) t by (auto simp: took_def dyn_inv_def)
  ultimately show ?thesis
    using run set by auto
qed

text \<open>The lowest address of a free range of whole pages starts a page.\<close>

lemma lowest_fit_aligned:
  assumes inv: "dyn_inv d" and sat: "page_sat (free_set d)" and s: "0 < s"
    and fit: "span d' n \<subseteq> free_set d" "blk_size d' n = s"
    and low: "\<forall>a. {a..<a + unat s} \<subseteq> free_set d \<longrightarrow> unat (blk_sva d' n) \<le> a"
  shows "4096 dvd unat (blk_sva d' n)"
proof -
  let ?a = "unat (blk_sva d' n)"
  have can: "canonical (free_ivs d)"
    using inv by (simp add: dyn_inv_def)
  have "{?a..<?a + unat s} \<subseteq> free_set d"
    using fit by (simp add: span_def)
  then obtain p where p: "p \<in> set (free_ivs d)" "fst p \<le> ?a" "?a + unat s \<le> snd p"
    using canonical_fit [OF can, of "unat s" ?a] s
    by (auto simp: free_set_def word_less_nat_alt)
  have "{fst p..<fst p + unat s} \<subseteq> {fst p..<snd p}"
    using p(2,3) by auto
  moreover have "{fst p..<snd p} \<subseteq> free_set d"
    using p(1) by (auto simp: free_set_def cover_def)
  ultimately have "?a \<le> fst p"
    using low by (meson order_trans)
  then have "?a = fst p"
    using p(2) by simp
  moreover have "4096 dvd fst p"
    using page_sat_bounds(1) [OF can _ p(1)] sat by (simp add: free_set_def)
  ultimately show ?thesis
    by simp
qed

lemma table_at_kheap [simp]: "table_at dir i p (s\<lparr>kheap := d\<rparr>) = table_at dir i p s"
  by (rule table_at_cong) simp_all

lemma chunk_effect_kheap [simp]: "chunk_effect perms tp is (s\<lparr>kheap := d\<rparr>) s' = chunk_effect perms tp is s s'"
  by (simp add: chunk_effect_def)

lemma kmalloc_first_fit:
  assumes inv: "kheap_inv kt s" and ff: "KHeapPlacementStrategy s = KHP_PLACE_FIRSTFIT"
    and rs: "rs = ROUNDUP sz PAGE_SIZE" "0 < rs"
    and av: "AvailableMemBlocksList (kheap s) \<noteq> []"
    and fit: "{a..<a + unat rs} \<subseteq> free_set (kheap s)"
    and frames: "unat rs div 4096 \<le> length (free_frame_list s)"
  shows "\<exists>p s' b. (\<forall>cpt. kmalloc_with cpt sz s = Inr (p, s')) \<and> kheap_inv kt s' \<and>
           number_of_frames s' = number_of_frames s \<and>
           ptr_page_directory s' = ptr_page_directory s \<and>
           b \<in> set (AllocMemBlocksList (kheap s')) \<and>
           blk_sva (kheap s') b = p \<and> blk_size (kheap s') b = rs \<and>
           span (kheap s') b \<subseteq> free_set (kheap s) \<and>
           free_set (kheap s') = free_set (kheap s) - span (kheap s') b \<and>
           (\<forall>a. {a..<a + unat rs} \<subseteq> free_set (kheap s) \<longrightarrow> unat p \<le> a) \<and>
           chunk_effect PERM_WRITEABLE kt (page_list p (unat rs div 4096)) s s'"
proof -
  let ?d = "kheap s"
  have k: "dyn_inv ?d" "page_sat (free_set ?d)" "free_set ?d \<subseteq> heap_range" "alloc_wf heap_range ?d"
    "heap_paging kt (free_set ?d) s"
    using inv by (simp_all add: kheap_inv_def)
  have ex: "\<exists>b\<in>set (FreeMemBlocksList ?d). rs \<le> blk_size ?d b"
    using fits_block [OF k(1) rs(2) fit] by blast
  obtain n d1 where ff1: "alloc_block_FF rs ?d = Inr (Some n, d1)" and t: "took rs n ?d d1"
    and low: "\<forall>a. {a..<a + unat rs} \<subseteq> free_set ?d \<longrightarrow> unat (blk_sva d1 n) \<le> a"
    using alloc_block_FF_fits [OF k(1) rs(2) av ex] by blast
  have tk: "blk_size d1 n = rs" "span d1 n \<subseteq> free_set ?d" "free_set d1 = free_set ?d - span d1 n"
    "dyn_inv d1"
    using t by (auto simp: took_def)
  let ?p = "blk_sva d1 n"
  have al: "4096 dvd unat ?p"
    using lowest_fit_aligned [OF k(1,2) rs(2) tk(2,1) low] .
  have rs_al: "4096 dvd unat rs"
    using ROUNDUP_dvd [of PAGE_SIZE sz] by (simp add: rs(1))
  have pos: "0 < unat rs"
    using rs(2) by (simp add: word_less_nat_alt)
  obtain d2 where ins: "insert_sorted_allocList n d1 = Inr d2" and wf2: "alloc_wf heap_range d2"
    and d2: "blk_sva d2 = blk_sva d1" "blk_size d2 = blk_size d1"
      "FreeMemBlocksList d2 = FreeMemBlocksList d1"
      "AvailableMemBlocksList d2 = AvailableMemBlocksList d1"
      "set (AllocMemBlocksList d2) = insert n (set (AllocMemBlocksList ?d))"
      "distinct (AllocMemBlocksList d2)"
    using took_keeps_alloc_wf [OF k(4) t rs(2) rs_al al k(1,3)] by blast
  have fs2: "free_set d2 = free_set ?d - span d2 n" "span d2 n = span d1 n"
    using tk(3) d2 by (simp_all add: free_set_def free_ivs_def span_def)
  have end_le: "unat ?p + unat rs \<le> unat KERNEL_HEAP_MAX"
  proof -
    have "unat ?p + unat rs - 1 \<in> span d1 n"
      using pos by (auto simp: span_def tk(1))
    then have "unat ?p + unat rs - 1 < unat KERNEL_HEAP_MAX"
      using tk(2) k(3) by (auto simp: heap_range_def)
    then show ?thesis by simp
  qed
  then have bnd: "unat ?p + unat rs + 4095 < 4294967296"
    by (simp add: KERNEL_HEAP_MAX_def)
  have mult: "4096 * (unat rs div 4096) = unat rs"
    using rs_al by simp
  let ?ps = "page_list ?p (unat rs div 4096)"
  have bnd': "unat ?p + 4096 * (unat rs div 4096) < 4294967296"
    using bnd mult by linarith
  have cp: "chunk_pages ?p rs = ?ps"
    using chunk_pages_aligned [OF al rs_al bnd] .
  have mem: "unat i \<in> span d1 n \<and> i \<in> heap_pages" if i: "i \<in> set ?ps" for i
  proof -
    obtain j where j: "j < unat rs div 4096" "unat i = unat ?p + 4096 * j"
      using page_list_mem [OF bnd', THEN iffD1, OF i] by blast
    have "4096 * j < unat rs"
      using j(1) mult by linarith
    then have sp: "unat i \<in> span d1 n"
      using j(2) by (simp add: span_def tk(1))
    moreover have "4096 dvd unat i"
      using al j(2) by simp
    ultimately show ?thesis
      using tk(2) k(3) by (auto simp: heap_pages_def)
  qed
  let ?s1 = "s\<lparr>kheap := d2\<rparr>"
  have sub: "set ?ps \<subseteq> heap_pages"
    using mem by blast
  have inj: "inj_on (\<lambda>i. (kt i, PTX i)) (set ?ps)"
    using k(5) inj_on_subset [OF _ sub] by (auto simp: heap_paging_def)
  have rdy: "chunk_ready (ptr_page_directory s) kt ?ps ?s1"
  proof -
    have "tables s (kt i) (PTX i) = 0" if "i \<in> set ?ps" for i
      using mem [OF that] tk(2) k(5) by (auto simp: heap_paging_def)
    moreover have "table_at (ptr_page_directory s) i (kt i) s \<and>
        pde_frame (ptr_page_directory s) i s \<notin> set (free_frame_list s)" if "i \<in> set ?ps" for i
      using mem [OF that] k(5) by (auto simp: heap_paging_def)
    moreover have "distinct (map (\<lambda>i. (kt i, PTX i)) ?ps)"
      using inj page_list_distinct [OF bnd'] by (simp add: distinct_map)
    moreover have "distinct (free_frame_list s)" "\<forall>f\<in>set (free_frame_list s). isBuffered s f = 0"
      using k(5) by (auto simp: heap_paging_def)
    ultimately show ?thesis
      using frames by (auto simp: chunk_ready_def pde_frame_def)
  qed
  let ?s2 = "chunk_state PERM_WRITEABLE kt ?ps ?s1"
  have "allocate_chunk_with cpt (ptr_page_directory s) ?p rs PERM_WRITEABLE ?s1 = Inr (0, ?s2)" for cpt
    using allocate_chunk_ready [of "ptr_page_directory s" kt ?p rs ?s1] rdy by (simp add: cp)
  then have run: "kmalloc_with cpt sz s = Inr (?p, ?s2)" for cpt
    using ff ff1 ins by (simp add: kmalloc_with_def back_block_def rs(1) [symmetric] d2(1) Let_def)
  have eff: "chunk_effect PERM_WRITEABLE kt ?ps s ?s2"
    using chunk_state_effect [of kt ?ps ?s1 PERM_WRITEABLE] rdy by (simp add: chunk_ready_def)
  have fl2: "free_frame_list ?s2 = drop (length ?ps) (free_frame_list s)"
    using eff by (simp add: chunk_effect_def)
  have nb: "\<forall>f\<in>set (free_frame_list ?s2). isBuffered ?s2 f = 0"
    using chunk_state_unbuffered [of ?s1 PERM_WRITEABLE kt ?ps] k(5)
    by (auto simp: fl2 heap_paging_def dest!: in_set_dropD)
  have "heap_paging kt (free_set d2) ?s2"
    by (rule chunk_effect_paging [OF k(5) eff sub _ _ _ _ nb]) (use mem fs2 in auto)
  moreover have "dyn_inv d2"
  proof -
    have "n \<notin> set (AvailableMemBlocksList d1)" "n \<notin> set (FreeMemBlocksList d1)"
      "AllocMemBlocksList d1 = AllocMemBlocksList ?d"
      using t by (auto simp: took_def)
    then show ?thesis
      using tk(4) d2 by (auto simp: dyn_inv_def free_ivs_def)
  qed
  moreover have "page_sat (free_set d2)"
  proof -
    have "4096 dvd unat ?p + unat rs"
      using al rs_al by (rule dvd_add)
    then show ?thesis
      using page_sat_ops(2) [OF k(2) page_sat_interval [OF al]] fs2 by (simp add: span_def tk(1))
  qed
  ultimately have "kheap_inv kt ?s2"
    using wf2 k(3) fs2 by (auto simp: kheap_inv_def)
  then show ?thesis
    using run eff fs2 low tk d2 by (intro exI [of _ ?p] exI [of _ ?s2] exI [of _ n]) simp
qed

section \<open>Release\<close>

text \<open>Unmapping a page whose frame \<open>g\<close> has no other reference.\<close>

definition freed_page :: "(u32 \<Rightarrow> u32) \<Rightarrow> u32 \<times> nat \<Rightarrow> kmem \<Rightarrow> kmem" where
  "freed_page tp ig s =
     (case ig of (i, g) \<Rightarrow>
        set_entry (tp i) (PTX i) 0
          ((initialize_frame_info g s)\<lparr>free_frame_list := g # free_frame_list s\<rparr>))"

lemma freed_page_simps [simp]:
  "free_frame_list (freed_page tp (i, g) s) = g # free_frame_list s"
  "number_of_frames (freed_page tp (i, g) s) = number_of_frames s"
  "tables (freed_page tp (i, g) s) = (tables s)(tp i := (tables s (tp i))(PTX i := 0))"
  "references (freed_page tp (i, g) s) = (references s)(g := 0)"
  "frame_va (freed_page tp (i, g) s) = (frame_va s)(g := 0)"
  "isBuffered (freed_page tp (i, g) s) = (isBuffered s)(g := 0)"
  "kheap (freed_page tp (i, g) s) = kheap s"
  "ptr_page_directory (freed_page tp (i, g) s) = ptr_page_directory s"
  by (simp_all add: freed_page_def initialize_frame_info_def)

definition unmap_ready :: "u32 \<Rightarrow> (u32 \<Rightarrow> u32) \<Rightarrow> (u32 \<times> nat) list \<Rightarrow> kmem \<Rightarrow> bool" where
  "unmap_ready dir tp igs s \<longleftrightarrow>
     (\<forall>(i, g)\<in>set igs. table_at dir i (tp i) s \<and> tables s (tp i) (PTX i) \<noteq> 0 \<and>
        unat (PPN (tables s (tp i) (PTX i))) = g \<and> g < number_of_frames s \<and>
        references s g = 1 \<and> g \<notin> set (free_frame_list s) \<and>
        pde_frame dir i s \<notin> snd ` set igs) \<and>
     distinct (map snd igs) \<and> distinct (map (\<lambda>(i, g). (tp i, PTX i)) igs)"

lemma unmap_last:
  assumes at: "table_at dir i p s" and "tables s p (PTX i) \<noteq> 0"
    and "unat (PPN (tables s p (PTX i))) = g" and "g < number_of_frames s"
    and "references s g = 1" and "g \<notin> set (free_frame_list s)" and "tp i = p"
  shows "unmap_frame dir i s = Inr (freed_page tp (i, g) s)"
proof -
  have "p \<noteq> 0"
    using at by (simp add: table_at_def)
  then show ?thesis
    using assms
    by (simp add: unmap_frame_def get_frame_info_at [OF at] decrement_references_def free_frame_def
        list_insert_head_def freed_page_def) (simp add: initialize_frame_info_def)
qed

lemma unmap_ready_step:
  assumes rdy: "unmap_ready dir tp ((i, g) # igs) s"
  shows "unmap_ready dir tp igs (freed_page tp (i, g) s)"
proof -
  let ?s = "freed_page tp (i, g) s"
  have head: "tp i \<noteq> dir" "g \<notin> snd ` set igs"
    "(tp i, PTX i) \<notin> set (map (\<lambda>(i, g). (tp i, PTX i)) igs)"
    using rdy table_at_ne by (auto simp: unmap_ready_def)
  have dist: "distinct (map snd igs)" "distinct (map (\<lambda>(i, g). (tp i, PTX i)) igs)"
    using rdy by (simp_all add: unmap_ready_def)
  have pd: "pde_frame dir j ?s = pde_frame dir j s" for j
    using head(1) by (simp add: pde_frame_def)
  have "table_at dir j (tp j) ?s \<and> tables ?s (tp j) (PTX j) \<noteq> 0 \<and>
      unat (PPN (tables ?s (tp j) (PTX j))) = h \<and> h < number_of_frames ?s \<and>
      references ?s h = 1 \<and> h \<notin> set (free_frame_list ?s) \<and> pde_frame dir j ?s \<notin> snd ` set igs"
    if jh: "(j, h) \<in> set igs" for j h
  proof -
    have old: "table_at dir j (tp j) s" "tables s (tp j) (PTX j) \<noteq> 0"
      "unat (PPN (tables s (tp j) (PTX j))) = h" "h < number_of_frames s"
      "references s h = 1" "h \<notin> set (free_frame_list s)"
      "pde_frame dir j s \<noteq> g" "pde_frame dir j s \<notin> snd ` set igs"
      using rdy jh by (auto simp: unmap_ready_def)
    have hg: "h \<noteq> g"
      using head(2) jh by force
    have "(tp j, PTX j) \<in> set (map (\<lambda>(i, g). (tp i, PTX i)) igs)"
      using jh by force
    then have "(tp j, PTX j) \<noteq> (tp i, PTX i)"
      using head(3) by metis
    then have e: "tables ?s (tp j) (PTX j) = tables s (tp j) (PTX j)"
      by auto
    have "table_at dir j (tp j) ?s"
      using old(1,7) head(1) by (subst table_at_cong [of _ _ _ s]) simp_all
    then show ?thesis
      using old hg by (simp only: e pd) simp
  qed
  then show ?thesis
    using dist unfolding unmap_ready_def by blast
qed

lemma unmap_pages_ok:
  "unmap_ready dir tp igs s \<Longrightarrow>
   for_each (unmap_frame dir) (map fst igs) s = Inr (fold (freed_page tp) igs s)"
proof (induction igs arbitrary: s)
  case Nil
  then show ?case by simp
next
  case (Cons x igs)
  obtain i g where x: "x = (i, g)" by fastforce
  have "table_at dir i (tp i) s" "tables s (tp i) (PTX i) \<noteq> 0"
    "unat (PPN (tables s (tp i) (PTX i))) = g" "g < number_of_frames s"
    "references s g = 1" "g \<notin> set (free_frame_list s)"
    using Cons.prems by (simp_all add: unmap_ready_def x)
  then have "unmap_frame dir i s = Inr (freed_page tp (i, g) s)"
    by (rule unmap_last) simp
  with Cons.IH [OF unmap_ready_step] Cons.prems show ?case
    by (simp add: x)
qed

definition unmap_effect :: "(u32 \<Rightarrow> u32) \<Rightarrow> (u32 \<times> nat) list \<Rightarrow> kmem \<Rightarrow> kmem \<Rightarrow> bool" where
  "unmap_effect tp igs s s' \<longleftrightarrow>
     free_frame_list s' = rev (map snd igs) @ free_frame_list s \<and>
     (\<forall>q j. tables s' q j =
        (if (q, j) \<in> (\<lambda>(i, g). (tp i, PTX i)) ` set igs then 0 else tables s q j)) \<and>
     (\<forall>g. references s' g = (if g \<in> snd ` set igs then 0 else references s g)) \<and>
     (\<forall>g. frame_va s' g = (if g \<in> snd ` set igs then 0 else frame_va s g)) \<and>
     (\<forall>g. isBuffered s' g = (if g \<in> snd ` set igs then 0 else isBuffered s g)) \<and>
     kheap s' = kheap s \<and> ptr_page_directory s' = ptr_page_directory s \<and>
     number_of_frames s' = number_of_frames s"

lemma unmap_state_effect: "unmap_effect tp igs s (fold (freed_page tp) igs s)"
proof (induction igs arbitrary: s)
  case Nil
  then show ?case by (simp add: unmap_effect_def)
next
  case (Cons x igs)
  obtain i g where x: "x = (i, g)" by fastforce
  have *: "tables (freed_page tp (i, g) s) q j = (if (q, j) = (tp i, PTX i) then 0 else tables s q j)"
    for q j by simp
  show ?case
    using Cons.IH [of "freed_page tp (i, g) s"]
    by (auto simp: unmap_effect_def x * simp del: freed_page_simps(3))
qed

lemma unmap_effect_paging:
  assumes pg: "heap_paging kt F s" and eff: "unmap_effect kt igs s s'"
    and sub: "fst ` set igs \<subseteq> heap_pages" and F': "\<forall>i\<in>heap_pages. unat i \<in> F' \<longrightarrow> unat i \<in> F \<or> i \<in> fst ` set igs"
    and pde: "\<forall>i\<in>heap_pages. pde_frame (ptr_page_directory s) i s \<notin> snd ` set igs"
    and dist: "distinct (map snd igs)" "snd ` set igs \<inter> set (free_frame_list s) = {}"
  shows "heap_paging kt F' s'"
proof -
  let ?dir = "ptr_page_directory s"
  have same: "ptr_page_directory s' = ?dir" "number_of_frames s' = number_of_frames s"
    using eff by (simp_all add: unmap_effect_def)
  have old: "table_at ?dir i (kt i) s" "pde_frame ?dir i s \<notin> set (free_frame_list s)"
    if "i \<in> heap_pages" for i
    using pg that by (simp_all add: heap_paging_def)
  have "(?dir, j) \<notin> (\<lambda>(i, g). (kt i, PTX i)) ` set igs" for j
    using sub old(1) table_at_ne by fastforce
  then have dir: "tables s' ?dir j = tables s ?dir j" for j
    using eff by (simp add: unmap_effect_def)
  have pd: "pde_frame ?dir i s' = pde_frame ?dir i s" for i
    by (simp add: pde_frame_def dir)
  have at: "table_at ?dir i (kt i) s'" if "i \<in> heap_pages" for i
  proof -
    have "frame_va s' (pde_frame ?dir i s) = frame_va s (pde_frame ?dir i s)"
      using eff pde that by (simp add: unmap_effect_def)
    then show ?thesis
      using old(1) [OF that] dir same(2) by (subst table_at_cong [of _ _ _ s]) simp_all
  qed
  have fl: "free_frame_list s' = rev (map snd igs) @ free_frame_list s"
    using eff by (simp add: unmap_effect_def)
  have "tables s' (kt i) (PTX i) = 0" if i: "i \<in> heap_pages" "unat i \<in> F'" for i
  proof (cases "i \<in> fst ` set igs")
    case True
    then have "(kt i, PTX i) \<in> (\<lambda>(i, g). (kt i, PTX i)) ` set igs"
      by force
    then show ?thesis
      using eff by (simp add: unmap_effect_def)
  next
    case False
    then have "tables s (kt i) (PTX i) = 0"
      using F' pg i by (auto simp: heap_paging_def)
    then show ?thesis
      using eff by (simp add: unmap_effect_def)
  qed
  moreover have "distinct (free_frame_list s')"
    using pg dist by (auto simp: fl heap_paging_def)
  moreover have "pde_frame ?dir i s \<notin> set (free_frame_list s')" if "i \<in> heap_pages" for i
    using old(2) [OF that] pde that by (simp add: fl)
  moreover have "\<forall>f\<in>set (free_frame_list s'). isBuffered s' f = 0"
    using pg eff by (auto simp: fl heap_paging_def unmap_effect_def)
  moreover have "inj_on (\<lambda>i. (kt i, PTX i)) heap_pages"
    using pg by (simp add: heap_paging_def)
  ultimately show ?thesis
    unfolding heap_paging_def same(1) pd using at by blast
qed

lemma gave_keeps_alloc_wf:
  assumes wf: "alloc_wf R d" and b: "b \<in> set (AllocMemBlocksList d)" and inv: "dyn_inv d"
    and g: "gave b (d\<lparr>AllocMemBlocksList := remove1 b (AllocMemBlocksList d)\<rparr>) d'"
  shows "alloc_wf R d'" and "set (AllocMemBlocksList d') = set (AllocMemBlocksList d) - {b}"
    and "free_set d' = free_set d \<union> span d b"
proof -
  let ?d = "d\<lparr>AllocMemBlocksList := remove1 b (AllocMemBlocksList d)\<rparr>"
  have dist: "distinct (AllocMemBlocksList d)"
    using inv by (simp add: dyn_inv_def)
  have al: "AllocMemBlocksList d' = remove1 b (AllocMemBlocksList d)"
    using g by (simp add: gave_def)
  show set: "set (AllocMemBlocksList d') = set (AllocMemBlocksList d) - {b}"
    using dist by (simp add: al set_remove1_eq)
  have "free_set ?d = free_set d" "span ?d = span d"
    by (simp_all add: free_set_def free_ivs_def span_def fun_eq_iff)
  then show fs: "free_set d' = free_set d \<union> span d b"
    using g by (simp add: gave_def)
  have old: "blk_sva d' m = blk_sva d m \<and> blk_size d' m = blk_size d m"
    if "m \<in> set (AllocMemBlocksList d) - {b}" for m
    using g that inv by (auto simp: gave_def dyn_inv_def)
  then have sp: "span d' m = span d m" if "m \<in> set (AllocMemBlocksList d) - {b}" for m
    using that by (simp add: span_def)
  have "sorted_wrt (\<lambda>a c. blk_sva d a < blk_sva d c) (remove1 b (AllocMemBlocksList d))"
  proof -
    obtain xs ys where "AllocMemBlocksList d = xs @ b # ys" "b \<notin> set xs"
      using b by (meson split_list_first)
    then show ?thesis
      using wf by (simp add: alloc_wf_def alloc_sorted_def sorted_wrt_append remove1_append)
  qed
  then have "alloc_sorted d'"
    unfolding alloc_sorted_def al
    by (rule sorted_wrt_mono_rel [rotated]) (use old set al in auto)
  moreover have "span d m \<inter> (free_set d \<union> span d b) = {}"
    if "m \<in> set (AllocMemBlocksList d) - {b}" for m
    using wf that b by (simp add: alloc_wf_def Int_Un_distrib)
  ultimately show "alloc_wf R d'"
    using wf old sp unfolding alloc_wf_def set fs by simp
qed

lemma kfree_ok:
  assumes inv: "kheap_inv kt s" and b: "b \<in> set (AllocMemBlocksList (kheap s))"
    and p: "ROUNDDOWN va 4096 = blk_sva (kheap s) b"
    and igs: "map fst igs = page_list (blk_sva (kheap s) b) (unat (blk_size (kheap s) b) div 4096)"
    and rdy: "unmap_ready (ptr_page_directory s) kt igs s"
    and pde: "\<forall>i\<in>heap_pages. pde_frame (ptr_page_directory s) i s \<notin> snd ` set igs"
  shows "\<exists>s'. kfree va s = Inr s' \<and> kheap_inv kt s' \<and>
           free_set (kheap s') = free_set (kheap s) \<union> span (kheap s) b \<and>
           set (AllocMemBlocksList (kheap s')) = set (AllocMemBlocksList (kheap s)) - {b} \<and>
           unmap_effect kt igs s (s'\<lparr>kheap := kheap s\<rparr>)"
proof -
  let ?d = "kheap s" and ?p = "blk_sva (kheap s) b" and ?sz = "blk_size (kheap s) b"
  have k: "dyn_inv ?d" "page_sat (free_set ?d)" "free_set ?d \<subseteq> heap_range" "alloc_wf heap_range ?d"
    "heap_paging kt (free_set ?d) s"
    using inv by (simp_all add: kheap_inv_def)
  have bk: "0 < ?sz" "4096 dvd unat ?p" "4096 dvd unat ?sz" "span ?d b \<subseteq> heap_range"
    "span ?d b \<inter> free_set ?d = {}"
    using k(4) b by (simp_all add: alloc_wf_def)
  have pos: "0 < unat ?sz"
    using bk(1) by (simp add: word_less_nat_alt)
  have "unat ?p + unat ?sz - 1 \<in> span ?d b"
    using pos by (auto simp: span_def)
  then have "unat ?p + unat ?sz - 1 < unat KERNEL_HEAP_MAX"
    using bk(4) by (auto simp: heap_range_def)
  then have end_lt: "unat ?p + unat ?sz < 4294967296"
    by (simp add: KERNEL_HEAP_MAX_def)
  have mult: "4096 * (unat ?sz div 4096) = unat ?sz"
    using bk(3) by simp
  let ?ps = "page_list ?p (unat ?sz div 4096)"
  have bnd: "unat ?p + 4096 * (unat ?sz div 4096) < 4294967296"
    using end_lt mult by linarith
  have mem: "unat i \<in> span ?d b \<and> i \<in> heap_pages" if i: "i \<in> set ?ps" for i
  proof -
    obtain j where j: "j < unat ?sz div 4096" "unat i = unat ?p + 4096 * j"
      using page_list_mem [OF bnd, THEN iffD1, OF i] by blast
    have "4096 * j < unat ?sz"
      using j(1) mult by linarith
    then have sp: "unat i \<in> span ?d b"
      using j(2) by (simp add: span_def)
    moreover have "4096 dvd unat i"
      using bk(2) j(2) by simp
    ultimately show ?thesis
      using bk(4) by (auto simp: heap_pages_def)
  qed
  have e: "unat (?p + ?sz) = unat ?p + unat ?sz"
    using end_lt by (rule unat_add_u32)
  let ?al = "remove1 b (AllocMemBlocksList ?d)"
  let ?s1 = "s\<lparr>kheap := ?d\<lparr>AllocMemBlocksList := ?al\<rparr>\<rparr>"
  have "4096 dvd unat (?p + ?sz)"
    using bk(2,3) by (simp add: e)
  then have loop: "for_pages ?p (?p + ?sz) (unmap_frame (ptr_page_directory s)) ?s1 =
      for_each (unmap_frame (ptr_page_directory s)) (map fst igs) ?s1"
    using aligned_pages(1) [OF bk(2), of "?p + ?sz"] by (simp add: e igs)
  have rdy1: "unmap_ready (ptr_page_directory s) kt igs ?s1"
    using rdy by (simp add: unmap_ready_def pde_frame_def)
  let ?s2 = "fold (freed_page kt) igs ?s1"
  have eff: "unmap_effect kt igs ?s1 ?s2"
    by (rule unmap_state_effect)
  have kh2: "kheap ?s2 = ?d\<lparr>AllocMemBlocksList := ?al\<rparr>"
    using eff by (simp add: unmap_effect_def)
  have dist: "distinct (AllocMemBlocksList ?d)"
    using k(1) by (simp add: dyn_inv_def)
  have inv2: "dyn_inv (kheap ?s2)"
    using k(1) by (auto simp: kh2 dyn_inv_def free_ivs_def dest: notin_set_remove1)
  have fresh: "fresh_block b (kheap ?s2)"
    using k(1) b dist bk end_lt
    by (auto simp: kh2 fresh_block_def dyn_inv_def span_def free_set_def free_ivs_def set_remove1_eq)
  obtain d3 where ins: "insert_sorted_with_merge_freeList b (kheap ?s2) = Inr d3"
    and gv: "gave b (kheap ?s2) d3"
    using insert_free_gave [OF inv2 fresh] by blast
  note g3 = gave_keeps_alloc_wf [OF k(4) b k(1) gv [unfolded kh2]]
  let ?s3 = "?s2\<lparr>kheap := d3\<rparr>"
  have "find_block (AllocMemBlocksList ?d) ?p ?d = Some b"
    using find_block_iff [of ?d] k(4) b by (simp add: alloc_wf_def)
  then have run: "kfree va s = Inr ?s3"
    using b loop unmap_pages_ok [OF rdy1] ins
    by (simp add: kfree_def p list_remove_def Let_def)
  have eff3: "unmap_effect kt igs s (?s3\<lparr>kheap := ?d\<rparr>)"
    using eff by (simp add: unmap_effect_def)
  have "heap_paging kt (free_set d3) (?s3\<lparr>kheap := ?d\<rparr>)"
  proof (rule unmap_effect_paging [OF k(5) eff3 _ _ pde])
    show "fst ` set igs \<subseteq> heap_pages"
      using mem igs by (metis image_set subsetI)
    show "distinct (map snd igs)" "snd ` set igs \<inter> set (free_frame_list s) = {}"
      using rdy by (auto simp: unmap_ready_def)
    show "\<forall>i\<in>heap_pages. unat i \<in> free_set d3 \<longrightarrow> unat i \<in> free_set ?d \<or> i \<in> fst ` set igs"
    proof (intro ballI impI)
      fix i
      assume i: "i \<in> heap_pages" "unat i \<in> free_set d3"
      have "i \<in> set ?ps" if sp: "unat i \<in> span ?d b"
      proof -
        have "4096 dvd unat i"
          using i(1) by (simp add: heap_pages_def)
        then have "4096 dvd unat i - unat ?p"
          using bk(2) by (rule dvd_diff_nat)
        then obtain j where j: "unat i - unat ?p = 4096 * j"
          by (auto elim: dvdE)
        then have "unat i = unat ?p + 4096 * j" and "4096 * j < unat ?sz"
          using sp by (auto simp: span_def)
        moreover from this(2) have "j < unat ?sz div 4096"
          using mult by linarith
        ultimately show ?thesis
          using page_list_mem [OF bnd, of i] by blast
      qed
      then show "unat i \<in> free_set ?d \<or> i \<in> fst ` set igs"
        using i(2) g3(3) igs by (metis Un_iff image_set)
    qed
  qed
  then have "heap_paging kt (free_set d3) ?s3"
    by (simp add: heap_paging_def pde_frame_def)
  moreover have "page_sat (free_set d3)"
  proof -
    have "4096 dvd unat ?p + unat ?sz"
      using bk(2,3) by (rule dvd_add)
    then show ?thesis
      using page_sat_ops(1) [OF k(2) page_sat_interval [OF bk(2)]] g3(3) by (simp add: span_def)
  qed
  ultimately have "kheap_inv kt ?s3"
    using gv g3 k(3) bk(4) by (auto simp: kheap_inv_def gave_def)
  then show ?thesis
    using run g3(2,3) eff3 by (intro exI [of _ ?s3]) simp
qed

section \<open>Creating a page table\<close>

lemma heap_page_entry:
  assumes pg: "heap_paging kt F s'" and eff: "chunk_effect PERM_WRITEABLE kt is s s'"
    and i: "k < length is" "is ! k \<in> heap_pages" and wf: "frames_wf s"
    and len: "length is \<le> length (free_frame_list s)" and nf: "number_of_frames s' = number_of_frames s"
  shows "kheap_physical_address (is ! k) s' = Inr (to_physical_address (free_frame_list s ! k))"
    and "kheap_virtual_address (to_physical_address (free_frame_list s ! k)) s' = Inr (is ! k)"
    and "tables s' (kt (is ! k)) (PTX (is ! k)) = mapped_entry (free_frame_list s ! k) PERM_WRITEABLE"
    and "free_frame_list s ! k < number_of_frames s" and "free_frame_list s ! k < 1048576"
proof -
  let ?f = "free_frame_list s ! k"
  have "?f \<in> set (free_frame_list s)"
    using i(1) len by simp
  then show lt: "?f < number_of_frames s"
    using wf by (simp add: frames_wf_def)
  then show f20: "?f < 1048576"
    using wf by (simp add: frames_wf_def)
  have w: "PERM_WRITEABLE < 4096"
    by (simp add: PERM_WRITEABLE_def)
  have at: "table_at (ptr_page_directory s') (is ! k) (kt (is ! k)) s'"
    using pg i(2) by (simp add: heap_paging_def)
  show e: "tables s' (kt (is ! k)) (PTX (is ! k)) = mapped_entry ?f PERM_WRITEABLE"
    using eff i(1) by (simp add: chunk_effect_def)
  show "kheap_physical_address (is ! k) s' = Inr (to_physical_address ?f)"
    by (simp add: kheap_physical_address_def virtual_to_physical_at [OF at] e
        mapped_entry_parts(3) [OF f20 w] to_physical_mult [OF f20])
  have "frame_va s' ?f = is ! k"
    using eff i(1) by (simp add: chunk_effect_def)
  then show "kheap_virtual_address (to_physical_address ?f) s' = Inr (is ! k)"
    using lt f20 by (simp add: kheap_virtual_address_def to_frame_info_def entry_parts(4)
        [where perm = 0] unat_frame nf)
qed

lemma ROUNDUP_PAGE_SIZE: "ROUNDUP PAGE_SIZE PAGE_SIZE = PAGE_SIZE"
  by (simp add: PAGE_SIZE_def ROUNDUP_def ROUNDDOWN_def)

lemma create_page_table_ok:
  assumes inv: "kheap_inv kt s" and ff: "KHeapPlacementStrategy s = KHP_PLACE_FIRSTFIT"
    and av: "AvailableMemBlocksList (kheap s) \<noteq> []"
    and fit: "{a..<a + 4096} \<subseteq> free_set (kheap s)"
    and frame: "free_frame_list s = f # fl" and wf: "frames_wf s"
    and dir: "dir \<noteq> 0" "unat dir \<notin> free_set (kheap s)"
    and user: "\<not> CHECK_IF_KERNEL_ADDRESS va"
  shows "\<exists>p s'. (\<forall>n. create_page_table_n (Suc n) dir va s = Inr (p, s')) \<and>
           table_at dir va p s' \<and> (\<forall>j. tables s' p j = 0) \<and>
           tables s' dir (PDX va) =
             CONSTRUCT_ENTRY (to_physical_address f) (PERM_PRESENT OR PERM_USER OR PERM_WRITEABLE) \<and>
           unat p \<in> free_set (kheap s) \<and> free_frame_list s' = fl"
proof -
  have pos: "0 < PAGE_SIZE"
    by (simp add: PAGE_SIZE_def)
  obtain p s1 b where km: "\<And>cpt. kmalloc_with cpt PAGE_SIZE s = Inr (p, s1)"
    and inv1: "kheap_inv kt s1" and nf: "number_of_frames s1 = number_of_frames s"
    and b: "b \<in> set (AllocMemBlocksList (kheap s1))"
      "blk_sva (kheap s1) b = p" "blk_size (kheap s1) b = PAGE_SIZE" "span (kheap s1) b \<subseteq> free_set (kheap s)"
    and eff: "chunk_effect PERM_WRITEABLE kt (page_list p (unat PAGE_SIZE div 4096)) s s1"
    using kmalloc_first_fit [OF inv ff ROUNDUP_PAGE_SIZE [symmetric] pos av, of a] fit frame
    by auto
  have one: "page_list p (unat PAGE_SIZE div 4096) = [p]"
    by simp
  have pin: "unat p \<in> free_set (kheap s)"
    using b by (auto simp: span_def)
  moreover have "4096 dvd unat p"
    using inv1 b(1,2) by (auto simp: kheap_inv_def alloc_wf_def)
  ultimately have hp: "p \<in> heap_pages"
    using inv by (auto simp: heap_pages_def kheap_inv_def)
  have pg: "heap_paging kt (free_set (kheap s1)) s1"
    using inv1 by (simp add: kheap_inv_def)
  note he = heap_page_entry [OF pg eff [unfolded one], of 0, simplified, OF hp wf _ nf]
  have p0: "p \<noteq> 0"
    using hp by (auto simp: heap_pages_def heap_range_def KERNEL_HEAP_START_def)
  have pd: "p \<noteq> dir"
    using pin dir(2) by auto
  let ?e = "CONSTRUCT_ENTRY (to_physical_address f) (PERM_PRESENT OR PERM_USER OR PERM_WRITEABLE)"
  let ?s2 = "set_entry dir (PDX va) ?e s1"
  let ?s3 = "?s2\<lparr>tables := (tables ?s2)(p := (\<lambda>i. 0))\<rparr>"
  have f: "kheap_physical_address p s1 = Inr (to_physical_address f)"
    "kheap_virtual_address (to_physical_address f) s1 = Inr p" "f < 1048576"
    using he by (simp_all add: frame)
  have perm: "(PERM_PRESENT OR PERM_USER OR PERM_WRITEABLE) < 4096"
    by (simp add: perm_defs)
  have run: "create_page_table_n (Suc n) dir va s = Inr (p, ?s3)" for n
    using p0 dir(1) by (simp add: create_page_table_body_def km f(1))
  have ext: "EXTRACT_ADDRESS ?e = to_physical_address f"
    by (rule entry_parts(1) [OF f(3) perm])
  have pres: "?e AND PERM_PRESENT = PERM_PRESENT"
    unfolding CONSTRUCT_ENTRY_def perm_defs by (rule bit_eqI) (auto simp: bit_simps)
  have "tables ?s3 dir (PDX va) = ?e"
    using pd by simp
  moreover have "kheap_virtual_address (to_physical_address f) ?s3 = Inr p"
    using f(2) by (simp add: kheap_virtual_address_def to_frame_info_def)
  ultimately have "get_page_table dir va ?s3 = Inr (TABLE_IN_MEMORY, p)"
    using dir(1) user pres by (simp add: get_page_table_def table_address_def ext)
  then have "table_at dir va p ?s3"
    using p0 pd by (simp add: table_at_def)
  moreover have "free_frame_list ?s3 = fl"
    using eff by (simp add: chunk_effect_def frame)
  ultimately show ?thesis
    using run pin pd by (intro exI [of _ p] exI [of _ ?s3]) simp
qed

section \<open>Allocate and release\<close>

lemma kmalloc_kfree:
  assumes inv: "kheap_inv kt s" and ff: "KHeapPlacementStrategy s = KHP_PLACE_FIRSTFIT"
    and rs: "rs = ROUNDUP sz PAGE_SIZE" "0 < rs"
    and av: "AvailableMemBlocksList (kheap s) \<noteq> []"
    and fit: "{a..<a + unat rs} \<subseteq> free_set (kheap s)"
    and frames: "unat rs div 4096 \<le> length (free_frame_list s)" and wf: "frames_wf s"
    and pde: "\<forall>i\<in>heap_pages. pde_frame (ptr_page_directory s) i s \<notin> set (free_frame_list s)"
  shows "\<exists>p s1 s2. kmalloc sz s = Inr (p, s1) \<and> kfree p s1 = Inr s2 \<and> kheap_inv kt s2 \<and>
           free_ivs (kheap s2) = free_ivs (kheap s) \<and>
           set (free_frame_list s2) = set (free_frame_list s) \<and> tables s2 = tables s"
proof -
  obtain p s1 b where km: "\<And>cpt. kmalloc_with cpt sz s = Inr (p, s1)" and inv1: "kheap_inv kt s1"
    and same: "number_of_frames s1 = number_of_frames s" "ptr_page_directory s1 = ptr_page_directory s"
    and b: "b \<in> set (AllocMemBlocksList (kheap s1))" "blk_sva (kheap s1) b = p"
      "blk_size (kheap s1) b = rs" "span (kheap s1) b \<subseteq> free_set (kheap s)"
    and fs: "free_set (kheap s1) = free_set (kheap s) - span (kheap s1) b"
    and eff: "chunk_effect PERM_WRITEABLE kt (page_list p (unat rs div 4096)) s s1"
    using kmalloc_first_fit [OF inv ff rs av fit frames] by blast
  let ?n = "unat rs div 4096" and ?dir = "ptr_page_directory s"
  let ?ps = "page_list p ?n" and ?gs = "take ?n (free_frame_list s)"
  let ?igs = "zip ?ps ?gs"
  have len: "length ?gs = ?n"
    using frames by simp
  have pg1: "heap_paging kt (free_set (kheap s1)) s1" and pg: "heap_paging kt (free_set (kheap s)) s"
    using inv1 inv by (simp_all add: kheap_inv_def)
  have bk: "4096 dvd unat p" "4096 dvd unat rs" "span (kheap s1) b \<subseteq> heap_range"
    using inv1 b(1-3) by (auto simp: kheap_inv_def alloc_wf_def)
  have pos: "0 < unat rs"
    using rs(2) by (simp add: word_less_nat_alt)
  have "unat p + unat rs - 1 \<in> span (kheap s1) b"
    using pos b(2,3) by (auto simp: span_def)
  then have "unat p + unat rs - 1 < unat KERNEL_HEAP_MAX"
    using bk(3) by (auto simp: heap_range_def)
  then have "unat p + unat rs < 4294967296"
    by (simp add: KERNEL_HEAP_MAX_def)
  then have bnd: "unat p + 4096 * ?n < 4294967296"
    using bk(2) by simp
  have hp: "i \<in> heap_pages \<and> unat i \<in> free_set (kheap s)" if i: "i \<in> set ?ps" for i
  proof -
    obtain j where j: "j < ?n" "unat i = unat p + 4096 * j"
      using page_list_mem [OF bnd, THEN iffD1, OF i] by blast
    have "4096 * j < unat rs"
      using j(1) bk(2) by (metis dvd_mult_div_cancel mult_less_cancel1 zero_less_numeral)
    then have "unat i \<in> span (kheap s1) b"
      using j(2) b(2,3) by (simp add: span_def)
    moreover have "4096 dvd unat i"
      using bk(1) j(2) by simp
    ultimately show ?thesis
      using bk(3) b(4) by (auto simp: heap_pages_def)
  qed
  have entry: "tables s1 (kt (?ps ! k)) (PTX (?ps ! k)) = mapped_entry (free_frame_list s ! k) PERM_WRITEABLE"
    "free_frame_list s ! k < number_of_frames s1" "free_frame_list s ! k < 1048576"
    "references s1 (free_frame_list s ! k) = 1"
    if k: "k < ?n" for k
  proof -
    have "?ps ! k \<in> heap_pages"
      using hp k by simp
    note he = heap_page_entry [OF pg1 eff _ this wf _ same(1)]
    show "tables s1 (kt (?ps ! k)) (PTX (?ps ! k)) = mapped_entry (free_frame_list s ! k) PERM_WRITEABLE"
      "free_frame_list s ! k < number_of_frames s1" "free_frame_list s ! k < 1048576"
      using he(3,4,5) k frames same(1) by simp_all
    show "references s1 (free_frame_list s ! k) = 1"
      using eff k by (simp add: chunk_effect_def)
  qed
  have dfree: "distinct (free_frame_list s)"
    using pg by (simp add: heap_paging_def)
  have fl1: "free_frame_list s1 = drop ?n (free_frame_list s)"
    using eff by (simp add: chunk_effect_def)
  have fst_igs: "map fst ?igs = ?ps" and snd_igs: "map snd ?igs = ?gs"
    using len by simp_all
  have img: "snd ` set ?igs = set ?gs" "fst ` set ?igs = set ?ps"
    by (metis snd_igs set_map) (metis fst_igs set_map)
  have "(?dir, j) \<notin> (\<lambda>i. (kt i, PTX i)) ` set ?ps" for j
    using hp pg table_at_ne by (fastforce simp: heap_paging_def)
  then have pd: "pde_frame ?dir i s1 = pde_frame ?dir i s" for i
    using eff by (simp add: pde_frame_def chunk_effect_def)
  have pde1: "\<forall>i\<in>heap_pages. pde_frame (ptr_page_directory s1) i s1 \<notin> snd ` set ?igs"
    using pde by (auto simp: same(2) pd img dest!: in_set_takeD)
  have slots: "map (\<lambda>(i, g). (kt i, PTX i)) ?igs = map (\<lambda>i. (kt i, PTX i)) ?ps"
    using len by (simp add: list_eq_iff_nth_eq)
  have slot_set: "(\<lambda>(i, g). (kt i, PTX i)) ` set ?igs = (\<lambda>i. (kt i, PTX i)) ` set ?ps"
    using arg_cong [OF slots, of set] by (simp only: set_map)
  have rdy: "unmap_ready (ptr_page_directory s1) kt ?igs s1"
    unfolding unmap_ready_def
  proof (intro conjI ballI)
    show "distinct (map snd ?igs)"
      using dfree by (simp only: snd_igs distinct_take)
    have "set ?ps \<subseteq> heap_pages"
      using hp by blast
    moreover have "inj_on (\<lambda>i. (kt i, PTX i)) heap_pages"
      using pg by (simp add: heap_paging_def)
    ultimately have "inj_on (\<lambda>i. (kt i, PTX i)) (set ?ps)"
      by (rule inj_on_subset [rotated])
    then show "distinct (map (\<lambda>(i, g). (kt i, PTX i)) ?igs)"
      using page_list_distinct [OF bnd] by (simp add: slots distinct_map)
  next
    fix x
    assume "x \<in> set ?igs"
    then obtain k where k: "k < ?n" and x: "x = (?ps ! k, free_frame_list s ! k)"
      using len by (auto simp: set_zip)
    have i: "?ps ! k \<in> heap_pages"
      using hp k by simp
    have "free_frame_list s ! k \<in> set ?gs"
      using k frames by (metis len nth_mem nth_take)
    then have "free_frame_list s ! k \<notin> set (free_frame_list s1)"
      using dfree by (metis fl1 append_take_drop_id disjoint_iff distinct_append)
    moreover have "table_at (ptr_page_directory s1) (?ps ! k) (kt (?ps ! k)) s1"
      using pg1 i by (simp add: heap_paging_def)
    moreover have "PERM_WRITEABLE < 4096"
      by (simp add: PERM_WRITEABLE_def)
    ultimately show "case x of (i, g) \<Rightarrow>
        table_at (ptr_page_directory s1) i (kt i) s1 \<and> tables s1 (kt i) (PTX i) \<noteq> 0 \<and>
        unat (PPN (tables s1 (kt i) (PTX i))) = g \<and> g < number_of_frames s1 \<and>
        references s1 g = 1 \<and> g \<notin> set (free_frame_list s1) \<and>
        pde_frame (ptr_page_directory s1) i s1 \<notin> snd ` set ?igs"
      using entry [OF k] pde1 i mapped_entry_parts(4,5) [OF entry(3) [OF k], of PERM_WRITEABLE]
      by (simp only: x prod.case) simp
  qed
  have "ROUNDDOWN p 4096 = p"
    using bk(1) by (intro ROUNDDOWN_idem) simp
  from kfree_ok [OF inv1 b(1), of p ?igs] this rdy pde1 obtain s2 where
    fr: "kfree p s1 = Inr s2" "kheap_inv kt s2"
    "free_set (kheap s2) = free_set (kheap s1) \<union> span (kheap s1) b"
    "unmap_effect kt ?igs s1 (s2\<lparr>kheap := kheap s1\<rparr>)"
    using fst_igs b(2,3) by auto
  have "free_set (kheap s2) = free_set (kheap s)"
    using fr(3) fs b(4) by auto
  then have "free_ivs (kheap s2) = free_ivs (kheap s)"
    using inv fr(2) canonical_unique by (auto simp: kheap_inv_def dyn_inv_def free_set_def)
  moreover have "set (free_frame_list s2) = set (free_frame_list s)"
  proof -
    have "free_frame_list s2 = rev ?gs @ drop ?n (free_frame_list s)"
      using fr(4) by (simp add: unmap_effect_def fl1 snd_igs)
    then show ?thesis
      by (metis append_take_drop_id set_append set_rev)
  qed
  moreover have "tables s2 q j = tables s q j" for q j
  proof (cases "(q, j) \<in> (\<lambda>(i, g). (kt i, PTX i)) ` set ?igs")
    case True
    then have z: "tables s2 q j = 0"
      using fr(4) by (simp add: unmap_effect_def)
    have "(q, j) \<in> (\<lambda>i. (kt i, PTX i)) ` set ?ps"
      using True by (simp only: slot_set)
    then obtain i where "i \<in> set ?ps" "q = kt i" "j = PTX i"
      by blast
    then show ?thesis
      using z hp pg by (auto simp: heap_paging_def)
  next
    case False
    then have "tables s2 q j = tables s1 q j"
      using fr(4) by (simp add: unmap_effect_def)
    moreover have "(q, j) \<notin> (\<lambda>i. (kt i, PTX i)) ` set ?ps"
      using False unfolding slot_set .
    then have "tables s1 q j = tables s q j"
      using eff unfolding chunk_effect_def by blast
    ultimately show ?thesis
      by simp
  qed
  ultimately show ?thesis
    using km fr(1,2) by (auto simp: kmalloc_def fun_eq_iff)
qed

section \<open>A concrete heap\<close>

definition kheap_example_dyn :: dyn where
  "kheap_example_dyn = \<lparr>blk_sva = (\<lambda>i. if i = 0 then 0xF6100000 else 0),
     blk_size = (\<lambda>i. if i = 0 then 0x10000 else 0),
     AvailableMemBlocksList = [2, 1], FreeMemBlocksList = [0], AllocMemBlocksList = []\<rparr>"

definition kheap_example :: kmem where
  "kheap_example = \<lparr>number_of_frames = 2000, references = (\<lambda>f. 0), frame_va = (\<lambda>f. 0),
     frame_environment = (\<lambda>f. None), isBuffered = (\<lambda>f. 0),
     free_frame_list = [1500, 1501, 1502], modified_frame_list = [],
     tables = (\<lambda>p i. if p = 0xF0100000 then mapped_entry (unat i) PERM_WRITEABLE else 0),
     ram = (\<lambda>f j. 0), ptr_page_directory = 0xF0100000, env_page_directory = (\<lambda>e. 0),
     kheap = kheap_example_dyn, KHeapPlacementStrategy = KHP_PLACE_FIRSTFIT,
     stale_newsize = 0, stale_newveradd = 0\<rparr>"

definition kheap_example_kt :: "u32 \<Rightarrow> u32" where
  "kheap_example_kt i = to_physical_address (unat (PDX i)) + KERNEL_BASE"

lemma unat_to_physical: "f < 1048576 \<Longrightarrow> unat (to_physical_address f) = f * 4096"
proof -
  assume "f < 1048576"
  moreover have "to_physical_address f = of_nat (f * 4096)"
    by (simp add: to_physical_address_def push_bit_eq_mult mult.commute)
  ultimately show ?thesis
    by (simp only: unat_of_nat) simp
qed

lemma heap_page_PDX:
  assumes "i \<in> heap_pages"
  shows "984 \<le> unat (PDX i)" and "unat (PDX i) < 1024" and "CHECK_IF_KERNEL_ADDRESS i"
proof -
  have lo: "4127195136 \<le> unat i"
    using assms by (simp add: heap_pages_def heap_range_def KERNEL_HEAP_START_def)
  then have "4127195136 div 4194304 \<le> unat i div 4194304"
    by (rule div_le_mono)
  then show "984 \<le> unat (PDX i)"
    by (simp add: unat_PDX)
  show "unat (PDX i) < 1024"
    unfolding unat_PDX using unat_lt_2p32 [of i] by (intro less_mult_imp_div_less) linarith
  show "CHECK_IF_KERNEL_ADDRESS i"
    using lo unat_lt_2p32 [of i]
    by (simp add: CHECK_IF_KERNEL_ADDRESS_def layout_defs word_le_nat_alt)
qed

lemma kheap_example_table:
  assumes i: "i \<in> heap_pages"
  shows "table_at 0xF0100000 i (kheap_example_kt i) kheap_example"
    and "pde_frame 0xF0100000 i kheap_example < 1024"
    and "unat (kheap_example_kt i) = unat (PDX i) * 4096 + 4026531840"
proof -
  note p = heap_page_PDX [OF i]
  have f: "unat (PDX i) < 1048576" and w: "PERM_WRITEABLE < 4096"
    using p(2) by (simp_all add: PERM_WRITEABLE_def)
  note e = mapped_entry_parts [OF f w]
  show u: "unat (kheap_example_kt i) = unat (PDX i) * 4096 + 4026531840"
    using p(2) unat_to_physical [OF f] unat_add_u32 [of "to_physical_address (unat (PDX i))" KERNEL_BASE]
    by (simp add: kheap_example_kt_def KERNEL_BASE_def)
  have entry: "tables kheap_example 0xF0100000 (PDX i) = mapped_entry (unat (PDX i)) PERM_WRITEABLE"
    by (simp add: kheap_example_def)
  show "pde_frame 0xF0100000 i kheap_example < 1024"
    using p(2) by (simp add: pde_frame_def entry e(4))
  have "unat (PPN (to_physical_address (unat (PDX i)))) = unat (PDX i)"
    using entry_parts(4) [OF f, of 0] by simp
  moreover have "\<not> number_of_frames kheap_example \<le> unat (PDX i)"
    using p(2) by (simp add: kheap_example_def)
  ultimately have "get_page_table 0xF0100000 i kheap_example =
      Inr (TABLE_IN_MEMORY, kheap_example_kt i)"
    using p(3) by (simp add: get_page_table_def entry e table_address_def
        STATIC_KERNEL_VIRTUAL_ADDRESS_def kheap_example_kt_def)
  moreover have "unat (kheap_example_kt i) \<noteq> 0" "unat (kheap_example_kt i) \<noteq> unat (0xF0100000 :: u32)"
    using u p(1) by simp_all
  then have "kheap_example_kt i \<noteq> 0" "kheap_example_kt i \<noteq> 0xF0100000"
    by (metis unat_0, metis)
  ultimately show "table_at 0xF0100000 i (kheap_example_kt i) kheap_example"
    by (simp add: table_at_def)
qed

lemma kheap_example_free: "free_set kheap_example_dyn = {4128243712..<4128309248}"
  by (simp add: free_set_def free_ivs_def kheap_example_dyn_def)

lemma kheap_example_paging:
  "heap_paging kheap_example_kt (free_set kheap_example_dyn) kheap_example"
  unfolding heap_paging_def
proof (intro conjI ballI impI)
  fix i
  assume i: "i \<in> heap_pages"
  show "table_at (ptr_page_directory kheap_example) i (kheap_example_kt i) kheap_example"
    "pde_frame (ptr_page_directory kheap_example) i kheap_example
       \<notin> set (free_frame_list kheap_example)"
    using kheap_example_table [OF i] by (auto simp: kheap_example_def)
  have "kheap_example_kt i \<noteq> 0xF0100000"
    using kheap_example_table(1) [OF i] by (simp add: table_at_def)
  then show "tables kheap_example (kheap_example_kt i) (PTX i) = 0"
    by (simp add: kheap_example_def)
next
  show "inj_on (\<lambda>i. (kheap_example_kt i, PTX i)) heap_pages"
  proof (rule inj_onI)
    fix i j
    assume ij: "i \<in> heap_pages" "j \<in> heap_pages"
      "(kheap_example_kt i, PTX i) = (kheap_example_kt j, PTX j)"
    then have "unat (PDX i) = unat (PDX j)"
      using kheap_example_table(3) [of i] kheap_example_table(3) [of j] by simp
    then have "PDX i = PDX j"
      by (simp only: u32_eq_iff)
    then show "i = j"
      using ij by (auto simp: heap_pages_def intro: same_page)
  qed
qed (simp_all add: kheap_example_def)

lemma kheap_example_inv: "kheap_inv kheap_example_kt kheap_example"
proof -
  have "kheap kheap_example = kheap_example_dyn"
    by (simp add: kheap_example_def)
  moreover have "page_sat {4128243712..<4128309248}"
    by (rule page_sat_interval) simp_all
  ultimately show ?thesis
    using kheap_example_paging
    by (simp add: kheap_inv_def kheap_example_free)
      (auto simp: dyn_inv_iff alloc_wf_def alloc_sorted_def kheap_example_dyn_def heap_range_def
        KERNEL_HEAP_START_def KERNEL_HEAP_MAX_def)
qed

section \<open>Properties\<close>

text \<open>C5: Kernel allocation under first fit: a request that fits in the free ranges and for
  which there are enough free frames returns the lowest address where it fits; the block is
  recorded with the size rounded up to pages, exactly its range leaves the free set, every
  page of it is mapped writeable to a fresh frame that knows its address, and the heap
  invariant is kept.\<close>

theorem kmalloc_lowest_fit:
  assumes "kheap_inv kt s" and "KHeapPlacementStrategy s = KHP_PLACE_FIRSTFIT"
    and "rs = ROUNDUP sz PAGE_SIZE" "0 < rs"
    and "AvailableMemBlocksList (kheap s) \<noteq> []"
    and "{a..<a + unat rs} \<subseteq> free_set (kheap s)"
    and "unat rs div 4096 \<le> length (free_frame_list s)"
  shows "\<exists>p s' b. kmalloc sz s = Inr (p, s') \<and> kheap_inv kt s' \<and>
           b \<in> set (AllocMemBlocksList (kheap s')) \<and>
           blk_sva (kheap s') b = p \<and> blk_size (kheap s') b = rs \<and>
           span (kheap s') b \<subseteq> free_set (kheap s) \<and>
           free_set (kheap s') = free_set (kheap s) - span (kheap s') b \<and>
           (\<forall>a. {a..<a + unat rs} \<subseteq> free_set (kheap s) \<longrightarrow> unat p \<le> a) \<and>
           chunk_effect PERM_WRITEABLE kt (page_list p (unat rs div 4096)) s s'"
  using kmalloc_first_fit [OF assms] unfolding kmalloc_def by blast

theorem kmalloc_lowest_fit_witness:
  "\<exists>p s' b. kmalloc 5000 kheap_example = Inr (p, s') \<and> kheap_inv kheap_example_kt s' \<and>
     b \<in> set (AllocMemBlocksList (kheap s')) \<and>
     blk_sva (kheap s') b = p \<and> blk_size (kheap s') b = 8192 \<and>
     span (kheap s') b \<subseteq> free_set (kheap kheap_example) \<and>
     free_set (kheap s') = free_set (kheap kheap_example) - span (kheap s') b \<and>
     (\<forall>a. {a..<a + unat (8192 :: u32)} \<subseteq> free_set (kheap kheap_example) \<longrightarrow> unat p \<le> a) \<and>
     chunk_effect PERM_WRITEABLE kheap_example_kt (page_list p (unat (8192 :: u32) div 4096))
       kheap_example s'"
proof (rule kmalloc_lowest_fit [OF kheap_example_inv])
  have "free_set (kheap kheap_example) = {4128243712..<4128309248}"
    by (simp add: kheap_example_def kheap_example_free)
  then show "{4128243712..<4128243712 + unat (8192 :: u32)} \<subseteq> free_set (kheap kheap_example)"
    by auto
qed (simp_all add: kheap_example_def kheap_example_dyn_def ROUNDUP_def ROUNDDOWN_def PAGE_SIZE_def)

text \<open>C6: Allocating and freeing leaves no trace: after \<^verbatim>\<open>kfree\<close> of the address that
  \<^verbatim>\<open>kmalloc\<close> returned, the free list has the same intervals, the same frames are free and
  every page table is as before.\<close>

theorem kmalloc_kfree_roundtrip:
  assumes "kheap_inv kt s" and "KHeapPlacementStrategy s = KHP_PLACE_FIRSTFIT"
    and "rs = ROUNDUP sz PAGE_SIZE" "0 < rs"
    and "AvailableMemBlocksList (kheap s) \<noteq> []"
    and "{a..<a + unat rs} \<subseteq> free_set (kheap s)"
    and "unat rs div 4096 \<le> length (free_frame_list s)" and "frames_wf s"
    and "\<forall>i\<in>heap_pages. pde_frame (ptr_page_directory s) i s \<notin> set (free_frame_list s)"
  shows "\<exists>p s1 s2. kmalloc sz s = Inr (p, s1) \<and> kfree p s1 = Inr s2 \<and> kheap_inv kt s2 \<and>
           free_ivs (kheap s2) = free_ivs (kheap s) \<and>
           set (free_frame_list s2) = set (free_frame_list s) \<and> tables s2 = tables s"
  using assms by (rule kmalloc_kfree)

theorem kmalloc_kfree_roundtrip_witness:
  "\<exists>p s1 s2. kmalloc 5000 kheap_example = Inr (p, s1) \<and> kfree p s1 = Inr s2 \<and>
     kheap_inv kheap_example_kt s2 \<and> free_ivs (kheap s2) = free_ivs (kheap kheap_example) \<and>
     set (free_frame_list s2) = set (free_frame_list kheap_example) \<and>
     tables s2 = tables kheap_example"
proof (rule kmalloc_kfree_roundtrip [OF kheap_example_inv])
  have "free_set (kheap kheap_example) = {4128243712..<4128309248}"
    by (simp add: kheap_example_def kheap_example_free)
  then show "{4128243712..<4128243712 + unat (8192 :: u32)} \<subseteq> free_set (kheap kheap_example)"
    by auto
  show "\<forall>i\<in>heap_pages. pde_frame (ptr_page_directory kheap_example) i kheap_example
      \<notin> set (free_frame_list kheap_example)"
    using kheap_example_paging by (simp add: heap_paging_def)
qed (simp_all add: kheap_example_def kheap_example_dyn_def ROUNDUP_def ROUNDDOWN_def PAGE_SIZE_def
    frames_wf_def)

text \<open>C7: Creating a page table for a user address: the new table is an empty page of the kernel
  heap, the directory entry holds its frame with present, user and write permission, looking
  the address up afterwards finds the table, and the recursion through the kernel heap needs
  only one level whatever the fuel.\<close>

theorem create_page_table_links:
  assumes "kheap_inv kt s" and "KHeapPlacementStrategy s = KHP_PLACE_FIRSTFIT"
    and "AvailableMemBlocksList (kheap s) \<noteq> []"
    and "{a..<a + 4096} \<subseteq> free_set (kheap s)"
    and "free_frame_list s = f # fl" and "frames_wf s"
    and "dir \<noteq> 0" "unat dir \<notin> free_set (kheap s)"
    and "\<not> CHECK_IF_KERNEL_ADDRESS va"
  shows "\<exists>p s'. (\<forall>n. create_page_table_n (Suc n) dir va s = Inr (p, s')) \<and>
           table_at dir va p s' \<and> (\<forall>j. tables s' p j = 0) \<and>
           tables s' dir (PDX va) =
             CONSTRUCT_ENTRY (to_physical_address f) (PERM_PRESENT OR PERM_USER OR PERM_WRITEABLE) \<and>
           unat p \<in> free_set (kheap s) \<and> free_frame_list s' = fl"
  using assms by (rule create_page_table_ok)

theorem create_page_table_links_witness:
  "\<exists>p s'. (\<forall>n. create_page_table_n (Suc n) 0xF0200000 0x800000 kheap_example = Inr (p, s')) \<and>
     table_at 0xF0200000 0x800000 p s' \<and> (\<forall>j. tables s' p j = 0) \<and>
     tables s' 0xF0200000 (PDX 0x800000) =
       CONSTRUCT_ENTRY (to_physical_address 1500) (PERM_PRESENT OR PERM_USER OR PERM_WRITEABLE) \<and>
     unat p \<in> free_set (kheap kheap_example) \<and> free_frame_list s' = [1501, 1502]"
proof (rule create_page_table_links [OF kheap_example_inv])
  have f: "free_set (kheap kheap_example) = {4128243712..<4128309248}"
    by (simp add: kheap_example_def kheap_example_free)
  show "{4128243712..<4128243712 + 4096} \<subseteq> free_set (kheap kheap_example)"
    "unat (0xF0200000 :: u32) \<notin> free_set (kheap kheap_example)"
    by (auto simp: f)
qed (simp_all add: kheap_example_def kheap_example_dyn_def frames_wf_def
    CHECK_IF_KERNEL_ADDRESS_def layout_defs)

text \<open>The conversion from physical to kernel heap addresses drops the offset within the page:
  every address of a frame is converted to the same virtual address, that of the page.\<close>

theorem kheap_virtual_address_drops_offset:
  "kheap_virtual_address pa s = kheap_virtual_address (EXTRACT_ADDRESS pa) s"
  by (simp add: kheap_virtual_address_def to_frame_info_def PPN_EXTRACT)

end
