(* ===== verification/Working_Set.thy ===== *)
theory Working_Set
  imports Kheap
begin

text \<open>
  The environment structure \<^verbatim>\<open>struct Env\<close> of \<^verbatim>\<open>inc/environment_definitions.h\<close>,
  as far as the kernel's memory and scheduling code uses it, and the page and table working
  sets of \<^verbatim>\<open>kern/mem/working_set_manager.c\<close>. The array behind
  \<^verbatim>\<open>ptr_pageWorkingSet\<close> is a list; an index that passes the code's assertion but lies
  outside the array is a fault. The page directory of environment \<open>e\<close> is
  \<open>env_page_directory\<close> of the memory state, where the frame allocator needs it.
\<close>

section \<open>Environments\<close>

record wse =
  ws_va :: u32
  ws_empty :: u8
  ws_time_stamp :: u32
  ws_sweeps_counter :: u32

record env =
  env_id :: "32 word"
  env_parent_id :: "32 word"
  env_status :: nat
  env_runs :: u32
  env_cr3 :: u32
  disk_env_pgdir :: u32
  disk_env_pgdir_PA :: u32
  disk_env_tabledir :: u32
  disk_env_tabledir_PA :: u32
  page_WS_max_size :: u32
  ptr_pageWorkingSet :: "wse list"
  ptr_tws :: "wse list"
  page_last_WS_index :: u32
  table_last_WS_index :: u32
  pageFaultsCounter :: u32
  tableFaultsCounter :: u32
  nPageIn :: u32
  nPageOut :: u32
  nNewPageAdded :: u32
  initNumStackPages :: u32
  nClocks :: u32

definition ENV_FREE :: nat where "ENV_FREE = 0"
definition ENV_READY :: nat where "ENV_READY = 1"
definition ENV_RUNNABLE :: nat where "ENV_RUNNABLE = 2"
definition ENV_BLOCKED :: nat where "ENV_BLOCKED = 3"
definition ENV_NEW :: nat where "ENV_NEW = 4"
definition ENV_EXIT :: nat where "ENV_EXIT = 5"
definition ENV_UNKNOWN :: nat where "ENV_UNKNOWN = 6"

definition TWS_MAX_SIZE :: nat where "TWS_MAX_SIZE = 50"

section \<open>The page working set\<close>

definition ws_used :: "wse \<Rightarrow> bool" where
  "ws_used w \<longleftrightarrow> ws_empty w = 0"

definition env_page_ws_get_size :: "env \<Rightarrow> u32 result" where
  "env_page_ws_get_size e =
     (if length (ptr_pageWorkingSet e) < unat (page_WS_max_size e) then Inl Out_Of_Bounds
      else Inr (of_nat (length (filter ws_used
             (take (unat (page_WS_max_size e)) (ptr_pageWorkingSet e))))))"

definition ws_update :: "u32 \<Rightarrow> (wse \<Rightarrow> wse) \<Rightarrow> env \<Rightarrow> env result" where
  "ws_update i f e =
     (if unat i < length (ptr_pageWorkingSet e)
      then Inr (e\<lparr>ptr_pageWorkingSet :=
                   (ptr_pageWorkingSet e)[unat i := f (ptr_pageWorkingSet e ! unat i)]\<rparr>)
      else Inl Out_Of_Bounds)"

definition ws_read :: "u32 \<Rightarrow> env \<Rightarrow> wse result" where
  "ws_read i e =
     (if unat i < length (ptr_pageWorkingSet e) then Inr (ptr_pageWorkingSet e ! unat i)
      else Inl Out_Of_Bounds)"

definition env_page_ws_clear_entry :: "u32 \<Rightarrow> env \<Rightarrow> env result" where
  "env_page_ws_clear_entry entry_index e =
     (if entry_index < page_WS_max_size e
      then ws_update entry_index (\<lambda>w. w\<lparr>ws_va := 0, ws_empty := 1, ws_time_stamp := 0\<rparr>) e
      else Inl Panic)"

definition env_page_ws_set_entry :: "u32 \<Rightarrow> u32 \<Rightarrow> env \<Rightarrow> env result" where
  "env_page_ws_set_entry entry_index virtual_address e =
     (if entry_index < page_WS_max_size e \<and> virtual_address < USER_TOP
      then ws_update entry_index
             (\<lambda>w. w\<lparr>ws_va := ROUNDDOWN virtual_address PAGE_SIZE, ws_empty := 0,
                    ws_time_stamp := 0x80000000\<rparr>) e
      else Inl Panic)"

definition env_page_ws_get_virtual_address :: "u32 \<Rightarrow> env \<Rightarrow> u32 result" where
  "env_page_ws_get_virtual_address entry_index e =
     (if entry_index < page_WS_max_size e
      then andthen (ws_read entry_index e) (\<lambda>w. Inr (ROUNDDOWN (ws_va w) PAGE_SIZE))
      else Inl Panic)"

definition env_page_ws_get_time_stamp :: "u32 \<Rightarrow> env \<Rightarrow> u32 result" where
  "env_page_ws_get_time_stamp entry_index e =
     (if entry_index < page_WS_max_size e
      then andthen (ws_read entry_index e) (\<lambda>w. Inr (ws_time_stamp w)) else Inl Panic)"

definition env_page_ws_is_entry_empty :: "u32 \<Rightarrow> env \<Rightarrow> u8 result" where
  "env_page_ws_is_entry_empty entry_index e =
     andthen (ws_read entry_index e) (\<lambda>w. Inr (ws_empty w))"

text \<open>The first entry of the page, empty or not, is cleared.\<close>

fun ws_find :: "u32 \<Rightarrow> nat \<Rightarrow> wse list \<Rightarrow> nat option" where
  "ws_find page i [] = None"
| "ws_find page i (w # ws) =
     (if ROUNDDOWN (ws_va w) PAGE_SIZE = page then Some i else ws_find page (Suc i) ws)"

definition env_page_ws_invalidate :: "u32 \<Rightarrow> env \<Rightarrow> env result" where
  "env_page_ws_invalidate virtual_address e =
     (if length (ptr_pageWorkingSet e) < unat (page_WS_max_size e) then Inl Out_Of_Bounds
      else (case ws_find (ROUNDDOWN virtual_address PAGE_SIZE) 0
                   (take (unat (page_WS_max_size e)) (ptr_pageWorkingSet e)) of
              None \<Rightarrow> Inr e
            | Some i \<Rightarrow> env_page_ws_clear_entry (of_nat i) e))"

text \<open>
  What \<^verbatim>\<open>env_page_ws_print\<close> prints of an entry under the algorithms that use the array:
  nothing but the marker for an empty one, else address, used, modified, buffered, time
  stamp, sweeps, and whether the index is the last one used.
\<close>

definition ws_print_entry ::
    "u32 \<Rightarrow> kmem \<Rightarrow> env \<Rightarrow> nat \<Rightarrow> ((u32 \<times> bool \<times> bool \<times> bool \<times> u32 \<times> u32) option \<times> bool) result" where
  "ws_print_entry dir s e i =
     andthen (ws_read (of_nat i) e) (\<lambda>w.
       let mark = (of_nat i = page_last_WS_index e) in
       if ws_empty w \<noteq> 0 then Inr (None, mark)
       else andthen (pt_get_page_permissions dir (ws_va w) s) (\<lambda>perm.
         Inr (Some (ws_va w, perm AND PERM_USED \<noteq> 0, perm AND PERM_MODIFIED \<noteq> 0,
                    perm AND PERM_BUFFERED \<noteq> 0, ws_time_stamp w, ws_sweeps_counter w), mark)))"

fun collect :: "(nat \<Rightarrow> 'a result) \<Rightarrow> nat list \<Rightarrow> 'a list result" where
  "collect f [] = Inr []"
| "collect f (i # is) = andthen (f i) (\<lambda>x. andthen (collect f is) (\<lambda>xs. Inr (x # xs)))"

definition env_page_ws_print ::
    "u32 \<Rightarrow> kmem \<Rightarrow> env \<Rightarrow> ((u32 \<times> bool \<times> bool \<times> bool \<times> u32 \<times> u32) option \<times> bool) list result" where
  "env_page_ws_print dir s e = collect (ws_print_entry dir s e) [0..<unat (page_WS_max_size e)]"

section \<open>The table working set\<close>

definition TABLE_SPAN :: u32 where "TABLE_SPAN = PAGE_SIZE * 1024"

definition tws_update :: "nat \<Rightarrow> (wse \<Rightarrow> wse) \<Rightarrow> env \<Rightarrow> env" where
  "tws_update i f e = e\<lparr>ptr_tws := (ptr_tws e)[i := f (ptr_tws e ! i)]\<rparr>"

definition env_table_ws_get_size :: "env \<Rightarrow> u32" where
  "env_table_ws_get_size e = of_nat (length (filter ws_used (take TWS_MAX_SIZE (ptr_tws e))))"

definition env_table_ws_clear_entry :: "nat \<Rightarrow> env \<Rightarrow> env result" where
  "env_table_ws_clear_entry entry_index e =
     (if entry_index < TWS_MAX_SIZE
      then Inr (tws_update entry_index (\<lambda>w. w\<lparr>ws_va := 0, ws_empty := 1, ws_time_stamp := 0\<rparr>) e)
      else Inl Panic)"

definition env_table_ws_set_entry :: "nat \<Rightarrow> u32 \<Rightarrow> env \<Rightarrow> env result" where
  "env_table_ws_set_entry entry_index virtual_address e =
     (if entry_index < TWS_MAX_SIZE \<and> virtual_address < USER_TOP
      then Inr (tws_update entry_index
             (\<lambda>w. w\<lparr>ws_va := ROUNDDOWN virtual_address TABLE_SPAN, ws_empty := 0,
                    ws_time_stamp := 0x80000000\<rparr>) e)
      else Inl Panic)"

fun tws_find :: "u32 \<Rightarrow> nat \<Rightarrow> wse list \<Rightarrow> nat option" where
  "tws_find t i [] = None"
| "tws_find t i (w # ws) =
     (if ROUNDDOWN (ws_va w) TABLE_SPAN = t then Some i else tws_find t (Suc i) ws)"

definition env_table_ws_invalidate :: "u32 \<Rightarrow> env \<Rightarrow> env result" where
  "env_table_ws_invalidate virtual_address e =
     (case tws_find (ROUNDDOWN virtual_address TABLE_SPAN) 0 (take TWS_MAX_SIZE (ptr_tws e)) of
        None \<Rightarrow> Inr e
      | Some i \<Rightarrow> env_table_ws_clear_entry i e)"

definition env_table_ws_get_virtual_address :: "nat \<Rightarrow> env \<Rightarrow> u32 result" where
  "env_table_ws_get_virtual_address entry_index e =
     (if entry_index < TWS_MAX_SIZE
      then Inr (ROUNDDOWN (ws_va (ptr_tws e ! entry_index)) TABLE_SPAN) else Inl Panic)"

definition env_table_ws_get_time_stamp :: "nat \<Rightarrow> env \<Rightarrow> u32 result" where
  "env_table_ws_get_time_stamp entry_index e =
     (if entry_index < TWS_MAX_SIZE then Inr (ws_time_stamp (ptr_tws e ! entry_index)) else Inl Panic)"

definition env_table_ws_is_entry_empty :: "nat \<Rightarrow> env \<Rightarrow> u8" where
  "env_table_ws_is_entry_empty entry_index e = ws_empty (ptr_tws e ! entry_index)"

text \<open>What \<^verbatim>\<open>env_table_ws_print\<close> prints: address, used bit, time stamp.\<close>

definition env_table_ws_print :: "u32 \<Rightarrow> kmem \<Rightarrow> env \<Rightarrow> ((u32 \<times> u32 \<times> u32) option \<times> bool) list" where
  "env_table_ws_print dir s e =
     map (\<lambda>i. let w = ptr_tws e ! i in
        (if ws_empty w \<noteq> 0 then None
         else Some (ws_va w, pd_is_table_used dir (ws_va w) s, ws_time_stamp w),
         of_nat i = table_last_WS_index e)) [0..<TWS_MAX_SIZE]"

definition cut_paste_WS :: "env \<Rightarrow> env result" where "cut_paste_WS e = Inl Panic"
definition double_WS_Size :: "env \<Rightarrow> env result" where "double_WS_Size e = Inl Panic"
definition half_WS_Size :: "env \<Rightarrow> env result" where "half_WS_Size e = Inl Panic"

section \<open>Size of the working set\<close>

text \<open>A working set whose array has exactly the announced size.\<close>

definition ws_wf :: "env \<Rightarrow> bool" where
  "ws_wf e \<longleftrightarrow> length (ptr_pageWorkingSet e) = unat (page_WS_max_size e)"

definition ws_count :: "env \<Rightarrow> nat" where
  "ws_count e = length (filter ws_used (ptr_pageWorkingSet e))"

lemma filter_count_update:
  "i < length xs \<Longrightarrow>
   length (filter P (xs[i := x])) + (if P (xs ! i) then 1 else 0) =
   length (filter P xs) + (if P x then 1 else 0)"
proof (induction xs arbitrary: i)
  case (Cons y ys)
  show ?case
  proof (cases i)
    case 0
    then show ?thesis by simp
  next
    case (Suc n)
    then show ?thesis
      using Cons.IH [of n] Cons.prems by (cases "P y") auto
  qed
qed simp

lemma ws_count_le: "ws_wf e \<Longrightarrow> ws_count e \<le> unat (page_WS_max_size e)"
  by (metis ws_count_def ws_wf_def length_filter_le)

lemma get_size_ok: "ws_wf e \<Longrightarrow> env_page_ws_get_size e = Inr (of_nat (ws_count e))"
  by (simp add: env_page_ws_get_size_def ws_wf_def ws_count_def)

lemma clear_entry_ok:
  assumes "ws_wf e" and "i < page_WS_max_size e"
  shows "\<exists>e'. env_page_ws_clear_entry i e = Inr e' \<and> ws_wf e' \<and>
           page_WS_max_size e' = page_WS_max_size e \<and>
           ptr_pageWorkingSet e' = (ptr_pageWorkingSet e)[unat i :=
             (ptr_pageWorkingSet e ! unat i)\<lparr>ws_va := 0, ws_empty := 1, ws_time_stamp := 0\<rparr>] \<and>
           e' = e\<lparr>ptr_pageWorkingSet := ptr_pageWorkingSet e'\<rparr> \<and>
           ws_count e' + (if ws_used (ptr_pageWorkingSet e ! unat i) then 1 else 0) = ws_count e"
proof -
  have i: "unat i < length (ptr_pageWorkingSet e)"
    using assms by (simp add: ws_wf_def word_less_nat_alt)
  then show ?thesis
    using assms filter_count_update [OF i, of ws_used
        "(ptr_pageWorkingSet e ! unat i)\<lparr>ws_va := 0, ws_empty := 1, ws_time_stamp := 0\<rparr>"]
    by (auto simp: env_page_ws_clear_entry_def ws_update_def ws_wf_def ws_count_def ws_used_def)
qed

lemma set_entry_ok:
  assumes "ws_wf e" and "i < page_WS_max_size e" and "va < USER_TOP"
  shows "\<exists>e'. env_page_ws_set_entry i va e = Inr e' \<and> ws_wf e' \<and>
           page_WS_max_size e' = page_WS_max_size e \<and>
           ptr_pageWorkingSet e' = (ptr_pageWorkingSet e)[unat i :=
             (ptr_pageWorkingSet e ! unat i)\<lparr>ws_va := ROUNDDOWN va PAGE_SIZE, ws_empty := 0,
                ws_time_stamp := 0x80000000\<rparr>] \<and>
           e' = e\<lparr>ptr_pageWorkingSet := ptr_pageWorkingSet e'\<rparr> \<and>
           ws_count e' = ws_count e + (if ws_used (ptr_pageWorkingSet e ! unat i) then 0 else 1)"
proof -
  have i: "unat i < length (ptr_pageWorkingSet e)"
    using assms by (simp add: ws_wf_def word_less_nat_alt)
  then show ?thesis
    using assms filter_count_update [OF i, of ws_used
        "(ptr_pageWorkingSet e ! unat i)\<lparr>ws_va := ROUNDDOWN va PAGE_SIZE, ws_empty := 0,
                ws_time_stamp := 0x80000000\<rparr>"]
    by (auto simp: env_page_ws_set_entry_def ws_update_def ws_wf_def ws_count_def ws_used_def
        split: if_splits)
qed

end
