(* ===== verification/Page_File.thy ===== *)
theory Page_File
  imports Working_Set
begin

text \<open>
  The page file: the transfers of \<^verbatim>\<open>lib/disk.c\<close> and all of
  \<^verbatim>\<open>kern/disk/pagefile_manager.c\<close>. The machine state \<open>vm\<close> puts the kernel's memory
  state, the disk and the environments together; an environment is an index into
  \<open>venv\<close>. The disk is an array of 512-byte sectors; \<open>disk_stop\<close> says after how many sectors
  the drive reports an error (\<open>None\<close>: never), which is the only thing the code learns from
  the drive. User addresses are read and written through the directory of the environment,
  whose address space is the loaded one when these functions run.
\<close>

section \<open>State\<close>

record disk =
  disk_free_frame_list :: "nat list"
  disk_sectors :: "nat \<Rightarrow> nat \<Rightarrow> u8"
  disk_stop :: "nat option"

record vm =
  vmem :: kmem
  vdisk :: disk
  venv :: "nat \<Rightarrow> env"

definition edir :: "nat \<Rightarrow> vm \<Rightarrow> u32" where
  "edir n v = env_page_directory (vmem v) n"

definition set_mem :: "vm \<Rightarrow> kmem \<Rightarrow> vm" where
  "set_mem v s = v\<lparr>vmem := s\<rparr>"

definition on_mem :: "(kmem \<Rightarrow> kmem result) \<Rightarrow> vm \<Rightarrow> vm result" where
  "on_mem f v = andthen (f (vmem v)) (\<lambda>s. Inr (v\<lparr>vmem := s\<rparr>))"

definition on_env :: "nat \<Rightarrow> (env \<Rightarrow> env) \<Rightarrow> vm \<Rightarrow> vm" where
  "on_env n f v = v\<lparr>venv := (venv v)(n := f (venv v n))\<rparr>"

section \<open>Sector transfers, \<^verbatim>\<open>lib/disk.c\<close>\<close>

definition SECTSIZE :: nat where "SECTSIZE = 512"
definition SECTOR_SIZE :: u32 where "SECTOR_SIZE = 512"
definition PAGE_FILE_START_SECTOR :: u32 where
  "PAGE_FILE_START_SECTOR = push_bit 20 20 div SECTOR_SIZE"
definition SECTOR_PER_PAGE :: u32 where "SECTOR_PER_PAGE = PAGE_SIZE div SECTOR_SIZE"
definition PAGE_FILE_SIZE :: u32 where "PAGE_FILE_SIZE = push_bit 20 520"
definition PAGES_PER_FILE :: nat where "PAGES_PER_FILE = unat (PAGE_FILE_SIZE div PAGE_SIZE)"

text \<open>The sector the four address registers select.\<close>

definition ide_lba :: "u32 \<Rightarrow> nat" where
  "ide_lba secno =
     unat ((secno AND 0xFF) OR push_bit 8 (drop_bit 8 secno AND 0xFF) OR
           push_bit 16 (drop_bit 16 secno AND 0xFF) OR push_bit 24 (drop_bit 24 secno AND 0x0F))"

definition ide_sectors :: "u32 \<Rightarrow> disk \<Rightarrow> nat" where
  "ide_sectors nsecs d =
     (case disk_stop d of None \<Rightarrow> unat nsecs | Some k \<Rightarrow> min k (unat nsecs))"

text \<open>The value, the number of bytes transferred, and the bytes.\<close>

definition ide_read :: "u32 \<Rightarrow> u32 \<Rightarrow> disk \<Rightarrow> (int \<times> nat \<times> (nat \<Rightarrow> u8)) result" where
  "ide_read secno nsecs d =
     (if nsecs \<le> 256 then
        (let k = ide_sectors nsecs d in
         Inr (if k < unat nsecs then - 1 else 0, k * SECTSIZE,
              \<lambda>j. disk_sectors d (ide_lba secno + j div SECTSIZE) (j mod SECTSIZE)))
      else Inl Panic)"

definition ide_write :: "u32 \<Rightarrow> (nat \<Rightarrow> u8) \<Rightarrow> u32 \<Rightarrow> disk \<Rightarrow> (int \<times> disk) result" where
  "ide_write secno src nsecs d =
     (if nsecs \<le> 256 then
        (let k = ide_sectors nsecs d in
         Inr (if k < unat nsecs then - 1 else 0,
              d\<lparr>disk_sectors := (\<lambda>b j.
                 if ide_lba secno \<le> b \<and> b < ide_lba secno + k \<and> j < SECTSIZE
                 then src ((b - ide_lba secno) * SECTSIZE + j) else disk_sectors d b j)\<rparr>))
      else Inl Panic)"

section \<open>The memory behind a transfer\<close>

text \<open>
  The processor sets the accessed bit of the entry it goes through, and the modified bit on a
  store.
\<close>

definition touch :: "u32 \<Rightarrow> u32 \<Rightarrow> u32 \<Rightarrow> kmem \<Rightarrow> kmem result" where
  "touch dir va bits s =
     andthen (get_page_table dir va s) (\<lambda>(_, p).
       if p = 0 then Inl Page_Fault
       else Inr (set_entry p (PTX va) (tables s p (PTX va) OR bits) s))"

definition store_page :: "u32 \<Rightarrow> u32 \<Rightarrow> nat \<Rightarrow> (nat \<Rightarrow> u8) \<Rightarrow> kmem \<Rightarrow> kmem result" where
  "store_page dir va count data s =
     (if count = 0 then Inr s
      else andthen (page_frame dir va s) (\<lambda>f.
        touch dir va (PERM_USED OR PERM_MODIFIED)
          (s\<lparr>ram := (ram s)(f := (\<lambda>j. if j < count then data j else ram s f j))\<rparr>)))"

text \<open>\<open>PAGE_SIZE\<close> bytes from \<open>va\<close> on, which may reach into the next page.\<close>

definition load_bytes :: "u32 \<Rightarrow> u32 \<Rightarrow> kmem \<Rightarrow> ((nat \<Rightarrow> u8) \<times> kmem) result" where
  "load_bytes dir va s =
     (let last_va = va + PAGE_SIZE - 1 in
      andthen (page_frame dir va s) (\<lambda>f1.
      andthen (page_frame dir last_va s) (\<lambda>f2.
      andthen (touch dir va PERM_USED s) (\<lambda>s'.
      andthen (touch dir last_va PERM_USED s') (\<lambda>s'.
        Inr (\<lambda>j. if unat (PGOFF va) + j < 4096 then ram s f1 (unat (PGOFF va) + j)
                 else ram s f2 (unat (PGOFF va) + j - 4096), s'))))))"

definition read_disk_page :: "u32 \<Rightarrow> u32 \<Rightarrow> u32 \<Rightarrow> vm \<Rightarrow> (int \<times> vm) result" where
  "read_disk_page dfn dir va v =
     (let df_start_sector = PAGE_FILE_START_SECTOR + dfn * SECTOR_PER_PAGE in
      andthen (ide_read df_start_sector SECTOR_PER_PAGE (vdisk v)) (\<lambda>(success, count, data).
      andthen (on_mem (store_page dir va count data) v) (\<lambda>v. Inr (success, v))))"

definition write_disk_page :: "u32 \<Rightarrow> (nat \<Rightarrow> u8) \<Rightarrow> vm \<Rightarrow> (int \<times> vm) result" where
  "write_disk_page dfn data v =
     (let df_start_sector = PAGE_FILE_START_SECTOR + dfn * SECTOR_PER_PAGE in
      andthen (ide_write df_start_sector data SECTOR_PER_PAGE (vdisk v)) (\<lambda>(success, d).
        if success \<noteq> 0 then Inl Panic else Inr (success, v\<lparr>vdisk := d\<rparr>)))"

section \<open>Disk frames\<close>

text \<open>
  A disk frame is its number in \<^verbatim>\<open>disk_frames_info\<close>, of which the code only uses the list
  links.
\<close>

definition put_disk_frame :: "nat \<Rightarrow> disk \<Rightarrow> disk result" where
  "put_disk_frame i d =
     andthen (list_insert_head (disk_free_frame_list d) (Some i))
       (\<lambda>fl. Inr (d\<lparr>disk_free_frame_list := fl\<rparr>))"

definition initialize_disk_page_file :: "disk \<Rightarrow> disk result" where
  "initialize_disk_page_file d =
     for_each put_disk_frame [1..<PAGES_PER_FILE] (d\<lparr>disk_free_frame_list := []\<rparr>)"

text \<open>\<^verbatim>\<open>initialize_paging\<close> of \<^verbatim>\<open>kern/mem/memory_manager.c\<close>, which ends with the page file.\<close>

definition initialize_paging :: "u32 \<Rightarrow> vm \<Rightarrow> vm result" where
  "initialize_paging free_mem v =
     andthen (initialize_frames free_mem (vmem v)) (\<lambda>s.
     andthen (initialize_disk_page_file (vdisk v)) (\<lambda>d. Inr ((set_mem v s)\<lparr>vdisk := d\<rparr>)))"

definition allocate_disk_frame :: "vm \<Rightarrow> (int \<times> u32 \<times> vm) result" where
  "allocate_disk_frame v =
     (case list_first (disk_free_frame_list (vdisk v)) of
        None \<Rightarrow> Inr (E_NO_PAGE_FILE_SPACE, 0, v)
      | Some f \<Rightarrow>
          andthen (list_remove (disk_free_frame_list (vdisk v)) (Some f)) (\<lambda>fl.
            Inr (0, of_nat f, v\<lparr>vdisk := (vdisk v)\<lparr>disk_free_frame_list := fl\<rparr>\<rparr>)))"

definition free_disk_frame :: "u32 \<Rightarrow> vm \<Rightarrow> vm result" where
  "free_disk_frame dfn v =
     (if dfn = 0 then Inr v
      else if PAGES_PER_FILE \<le> unat dfn then Inl Out_Of_Bounds
      else andthen (put_disk_frame (unat dfn) (vdisk v)) (\<lambda>d. Inr (v\<lparr>vdisk := d\<rparr>)))"

definition pf_calculate_free_frames :: "vm \<Rightarrow> u32" where
  "pf_calculate_free_frames v = of_nat (length (disk_free_frame_list (vdisk v)))"

section \<open>Disk page tables\<close>

definition clear_table :: "u32 \<Rightarrow> kmem \<Rightarrow> kmem" where
  "clear_table p s = s\<lparr>tables := (tables s)(p := (\<lambda>i. 0))\<rparr>"

text \<open>The return code, the table pointer it stores, and the memory state.\<close>

definition get_disk_page_table :: "u32 \<Rightarrow> u32 \<Rightarrow> bool \<Rightarrow> kmem \<Rightarrow> (int \<times> u32 \<times> kmem) result" where
  "get_disk_page_table dpd virtual_address create s =
     andthen (table_read dpd (PDX virtual_address) s) (\<lambda>entry.
     andthen (table_address virtual_address entry s) (\<lambda>p.
       if entry = 0 then
         (if create then
            andthen (kmalloc PAGE_SIZE s) (\<lambda>(p, s).
              if p = 0 then Inr (E_NO_VM, 0, s)
              else
                andthen (kheap_physical_address p s) (\<lambda>pa.
                  Inr (0, p, clear_table p
                    (set_entry dpd (PDX virtual_address) (CONSTRUCT_ENTRY pa PERM_PRESENT) s))))
          else Inr (0, 0, s))
       else Inr (0, p, s)))"

definition get_disk_page_directory :: "nat \<Rightarrow> vm \<Rightarrow> (int \<times> vm) result" where
  "get_disk_page_directory n v =
     (if disk_env_pgdir (venv v n) \<noteq> 0 then Inr (0, v)
      else andthen (kmalloc PAGE_SIZE (vmem v)) (\<lambda>(p, s).
        if p = 0 then Inr (E_NO_VM, set_mem v s)
        else andthen (kheap_physical_address p s) (\<lambda>pa.
          Inr (0, on_env n (\<lambda>e. e\<lparr>disk_env_pgdir := p, disk_env_pgdir_PA := pa\<rparr>)
                    (set_mem v (clear_table p s))))))"

text \<open>
  The disk frame of a page, allocated if it has none; shared by the two functions that add a
  page. Their results for the directory and the table are not looked at: a NULL table
  pointer is followed.
\<close>

definition pf_disk_frame :: "nat \<Rightarrow> u32 \<Rightarrow> vm \<Rightarrow> (int \<times> u32 \<times> vm) result" where
  "pf_disk_frame n virtual_address v =
     (if virtual_address < KERNEL_BASE then
        andthen (get_disk_page_directory n v) (\<lambda>(_, v).
        andthen (get_disk_page_table (disk_env_pgdir (venv v n)) virtual_address True (vmem v))
          (\<lambda>(_, p, s).
          let v = set_mem v s in
          andthen (table_read p (PTX virtual_address) s) (\<lambda>dfn.
            if dfn = 0 then
              andthen (allocate_disk_frame v) (\<lambda>(r, dfn, v).
                if r = E_NO_PAGE_FILE_SPACE then Inr (E_NO_PAGE_FILE_SPACE, 0, v)
                else Inr (0, dfn, set_mem v (set_entry p (PTX virtual_address) dfn (vmem v))))
            else Inr (0, dfn, v))))
      else Inl Panic)"

text \<open>
  The source of the data is the zero page, the temporary page or a user address; \<open>src\<close> reads
  it when the page is written.
\<close>

definition pf_add_env_page ::
    "nat \<Rightarrow> u32 \<Rightarrow> (kmem \<Rightarrow> ((nat \<Rightarrow> u8) \<times> kmem) result) \<Rightarrow> vm \<Rightarrow> (int \<times> vm) result" where
  "pf_add_env_page n virtual_address src v =
     andthen (pf_disk_frame n virtual_address v) (\<lambda>(r, dfn, v).
       if r = E_NO_PAGE_FILE_SPACE then Inr (E_NO_PAGE_FILE_SPACE, v)
       else andthen (src (vmem v)) (\<lambda>(data, s). write_disk_page dfn data (set_mem v s)))"

definition kernel_page :: "nat \<Rightarrow> kmem \<Rightarrow> ((nat \<Rightarrow> u8) \<times> kmem) result" where
  "kernel_page f s = Inr (ram s f, s)"

definition sizeof_WorkingSetElement :: u32 where "sizeof_WorkingSetElement = 24"

text \<open>\<^verbatim>\<open>USTACKBOTTOM\<close>, whose product is computed in 32 bits.\<close>

definition USTACKBOTTOM :: u32 where
  "USTACKBOTTOM = ROUNDUP (USER_HEAP_MAX + sizeof_WorkingSetElement * USER_TOP div PAGE_SIZE) PAGE_SIZE"

definition pf_add_empty_env_page :: "nat \<Rightarrow> u32 \<Rightarrow> u8 \<Rightarrow> vm \<Rightarrow> (int \<times> vm) result" where
  "pf_add_empty_env_page n virtual_address initializeByZero v =
     (if initializeByZero \<noteq> 0 then
        (let v = (if USTACKBOTTOM < virtual_address \<and>
                     virtual_address < USTACKTOP - initNumStackPages (venv v n) * PAGE_SIZE
                  then on_env n (\<lambda>e. e\<lparr>nNewPageAdded := nNewPageAdded e + 1\<rparr>) v else v)
         in pf_add_env_page n virtual_address (kernel_page 1) v)
      else andthen (pf_disk_frame n virtual_address v) (\<lambda>(r, _, v). Inr (r, v)))"

section \<open>Updating, reading, removing\<close>

definition pf_write_through :: "nat \<Rightarrow> u32 \<Rightarrow> nat option \<Rightarrow> vm \<Rightarrow> (int \<times> vm) result" where
  "pf_write_through n virtual_address fi v =
     andthen (get_disk_page_table (disk_env_pgdir (venv v n)) virtual_address False (vmem v))
       (\<lambda>(_, p, s).
       andthen (table_read p (PTX virtual_address) s) (\<lambda>dfn.
       case fi of
         None \<Rightarrow> Inl Null_Deref
       | Some f \<Rightarrow>
           andthen (map_frame (edir n v) f USER_LIMIT 0 s) (\<lambda>s.
           andthen (load_bytes (edir n v) (ROUNDDOWN USER_LIMIT PAGE_SIZE) s) (\<lambda>(data, s).
           andthen (write_disk_page dfn data (set_mem v s)) (\<lambda>(ret, v).
             let s = vmem v; s = s\<lparr>references := (references s)(f := references s f + 1)\<rparr> in
             andthen (unmap_frame (edir n v) USER_LIMIT s) (\<lambda>s.
               let s = s\<lparr>references := (references s)(f := references s f - 1)\<rparr> in
               Inr (ret, on_env n (\<lambda>e. e\<lparr>nPageOut := nPageOut e + 1\<rparr>) (set_mem v s))))))))"

definition user_growable :: "u32 \<Rightarrow> bool" where
  "user_growable VA \<longleftrightarrow>
     (USER_HEAP_START \<le> VA \<and> VA < USER_HEAP_MAX) \<or> (USTACKBOTTOM \<le> VA \<and> VA < USTACKTOP)"

definition pf_update_env_page :: "nat \<Rightarrow> u32 \<Rightarrow> nat option \<Rightarrow> vm \<Rightarrow> (int \<times> vm) result" where
  "pf_update_env_page n virtual_address fi v =
     (if virtual_address < KERNEL_BASE then
        andthen (get_disk_page_directory n v) (\<lambda>(_, v).
        andthen (get_disk_page_table (disk_env_pgdir (venv v n)) virtual_address False (vmem v))
          (\<lambda>(_, p, s).
          let v = set_mem v s in
          if p = 0 \<or> tables s p (PTX virtual_address) = 0 then
            (if user_growable virtual_address then
               andthen (get_frame_info (edir n v) virtual_address s) (\<lambda>(fi', _).
                 if fi' = fi then
                   andthen (pf_add_env_page n virtual_address (load_bytes (edir n v) virtual_address) v)
                     (\<lambda>(ret, v).
                     if ret = E_NO_PAGE_FILE_SPACE then Inl Panic
                     else Inr (ret, on_env n (\<lambda>e. e\<lparr>nNewPageAdded := nNewPageAdded e + 1\<rparr>) v))
                 else
                   andthen (pf_add_empty_env_page n virtual_address 0 v) (\<lambda>(ret, v).
                     if ret = E_NO_PAGE_FILE_SPACE then Inl Panic
                     else pf_write_through n virtual_address fi
                            (on_env n (\<lambda>e. e\<lparr>nNewPageAdded := nNewPageAdded e + 1\<rparr>) v)))
             else Inl Panic)
          else pf_write_through n virtual_address fi v))
      else Inl Panic)"

definition pf_read_env_page :: "nat \<Rightarrow> u32 \<Rightarrow> vm \<Rightarrow> (int \<times> vm) result" where
  "pf_read_env_page n virtual_address v =
     (let virtual_address = ROUNDDOWN virtual_address PAGE_SIZE in
      if disk_env_pgdir (venv v n) = 0 then Inr (E_PAGE_NOT_EXIST_IN_PF, v)
      else
        andthen (get_disk_page_table (disk_env_pgdir (venv v n)) virtual_address False (vmem v))
          (\<lambda>(_, p, s).
          let v = set_mem v s in
          if p = 0 then Inr (E_PAGE_NOT_EXIST_IN_PF, v)
          else
            (let dfn = tables s p (PTX virtual_address) in
             if dfn = 0 then Inr (E_PAGE_NOT_EXIST_IN_PF, v)
             else
               andthen (read_disk_page dfn (edir n v) virtual_address v) (\<lambda>(disk_read_error, v).
               andthen (on_mem (pt_set_page_permissions (edir n v) virtual_address 0 PERM_MODIFIED) v)
                 (\<lambda>v. Inr (disk_read_error, on_env n (\<lambda>e. e\<lparr>nPageIn := nPageIn e + 1\<rparr>) v))))))"

definition pf_remove_env_page :: "nat \<Rightarrow> u32 \<Rightarrow> vm \<Rightarrow> vm result" where
  "pf_remove_env_page n virtual_address v =
     (if disk_env_pgdir (venv v n) = 0 then Inr v
      else
        andthen (get_disk_page_table (disk_env_pgdir (venv v n)) virtual_address False (vmem v))
          (\<lambda>(_, p, s).
          let v = set_mem v s in
          if p = 0 then Inr v
          else
            (let dfn = tables s p (PTX virtual_address) in
             free_disk_frame dfn (set_mem v (set_entry p (PTX virtual_address) 0 s)))))"

section \<open>The table file\<close>

definition get_disk_table_directory :: "nat \<Rightarrow> vm \<Rightarrow> (int \<times> vm) result" where
  "get_disk_table_directory n v =
     (if disk_env_tabledir (venv v n) \<noteq> 0 then Inr (0, v)
      else andthen (kmalloc PAGE_SIZE (vmem v)) (\<lambda>(p, s).
        if p = 0 then Inr (E_NO_VM, set_mem v s)
        else andthen (kheap_physical_address p s) (\<lambda>pa.
          Inr (0, on_env n (\<lambda>e. e\<lparr>disk_env_tabledir := p, disk_env_tabledir_PA := pa\<rparr>)
                    (set_mem v (clear_table p s))))))"

text \<open>A table as the bytes of its little-endian words, and back.\<close>

definition table_byte :: "(u32 \<Rightarrow> u32) \<Rightarrow> nat \<Rightarrow> u8" where
  "table_byte t j = ucast (drop_bit (8 * (j mod 4)) (t (of_nat (j div 4))))"

definition byte_word :: "(nat \<Rightarrow> u8) \<Rightarrow> nat \<Rightarrow> u32" where
  "byte_word b i =
     ucast (b (4 * i)) OR push_bit 8 (ucast (b (4 * i + 1))) OR
     push_bit 16 (ucast (b (4 * i + 2))) OR push_bit 24 (ucast (b (4 * i + 3)))"

definition pf_write_env_table :: "nat \<Rightarrow> u32 \<Rightarrow> u32 \<Rightarrow> vm \<Rightarrow> (int \<times> vm) result" where
  "pf_write_env_table n virtual_address tableKVirtualAddress v =
     (if virtual_address < KERNEL_BASE then
        andthen (get_disk_table_directory n v) (\<lambda>(_, v).
          let td = disk_env_tabledir (venv v n) in
          andthen (table_read td (PDX virtual_address) (vmem v)) (\<lambda>dfn.
          andthen
            (if dfn = 0 then
               andthen (allocate_disk_frame v) (\<lambda>(r, dfn, v).
                 if r = E_NO_PAGE_FILE_SPACE then Inr (r, 0, v)
                 else Inr (0, dfn, set_mem v (set_entry td (PDX virtual_address) dfn (vmem v))))
             else Inr (0, dfn, v)) (\<lambda>(r, dfn, v).
            if r = E_NO_PAGE_FILE_SPACE then Inr (r, v)
            else write_disk_page dfn (table_byte (tables (vmem v) tableKVirtualAddress)) v)))
      else Inl Panic)"

definition pf_read_env_table :: "nat \<Rightarrow> u32 \<Rightarrow> u32 \<Rightarrow> vm \<Rightarrow> (int \<times> vm) result" where
  "pf_read_env_table n virtual_address tableKVirtualAddress v =
     (let td = disk_env_tabledir (venv v n) in
      if td = 0 then Inr (E_TABLE_NOT_EXIST_IN_PF, v)
      else
        (let dfn = tables (vmem v) td (PDX virtual_address) in
         if dfn = 0 then Inr (E_TABLE_NOT_EXIST_IN_PF, v)
         else
           andthen (ide_read (PAGE_FILE_START_SECTOR + dfn * SECTOR_PER_PAGE) SECTOR_PER_PAGE (vdisk v))
             (\<lambda>(r, count, data).
             let s = vmem v; t = tables s tableKVirtualAddress in
             Inr (r, set_mem v (s\<lparr>tables := (tables s)(tableKVirtualAddress :=
                     (\<lambda>i. if 4 * unat i < count then byte_word data (unat i) else t i))\<rparr>)))))"

definition pf_remove_table_entry :: "nat \<Rightarrow> nat \<Rightarrow> vm \<Rightarrow> vm result" where
  "pf_remove_table_entry n i v =
     (let td = disk_env_tabledir (venv v n); dfn = tables (vmem v) td (of_nat i) in
      free_disk_frame dfn (set_mem v (set_entry td (of_nat i) 0 (vmem v))))"

definition pf_remove_env_all_tables :: "nat \<Rightarrow> vm \<Rightarrow> vm result" where
  "pf_remove_env_all_tables n v =
     (if disk_env_tabledir (venv v n) = 0 then Inr v
      else for_each (pf_remove_table_entry n) [0..<unat (PDX USER_TOP)] v)"

definition pf_remove_env_table :: "nat \<Rightarrow> u32 \<Rightarrow> vm \<Rightarrow> vm result" where
  "pf_remove_env_table n virtual_address v =
     (if disk_env_tabledir (venv v n) = 0 then Inr v
      else pf_remove_table_entry n (unat (PDX virtual_address)) v)"

section \<open>All pages of an environment\<close>

definition pf_free_pte :: "u32 \<Rightarrow> nat \<Rightarrow> vm \<Rightarrow> vm result" where
  "pf_free_pte pt pteno v =
     (let dfn = tables (vmem v) pt (of_nat pteno) in
      free_disk_frame dfn (set_mem v (set_entry pt (of_nat pteno) 0 (vmem v))))"

definition pf_free_table :: "nat \<Rightarrow> nat \<Rightarrow> vm \<Rightarrow> vm result" where
  "pf_free_table n pdeno v =
     (let dpd = disk_env_pgdir (venv v n) in
      andthen (table_read dpd (of_nat pdeno) (vmem v)) (\<lambda>pde.
        if pde AND PERM_PRESENT = 0 then Inr v
        else
          andthen (kheap_virtual_address (EXTRACT_ADDRESS pde) (vmem v)) (\<lambda>pt.
          if pt = 0 then Inl Null_Deref
          else
            andthen (for_each (pf_free_pte pt) [0..<1024] v) (\<lambda>v.
              on_mem (kfree pt) (set_mem v (set_entry dpd (of_nat pdeno) 0 (vmem v)))))))"

definition pf_free_env :: "nat \<Rightarrow> vm \<Rightarrow> vm result" where
  "pf_free_env n v =
     andthen (for_each (pf_free_table n) [0..<unat (PDX USER_TOP)] v) (\<lambda>v.
     andthen (on_mem (kfree (disk_env_pgdir (venv v n))) v) (\<lambda>v.
       let v = on_env n (\<lambda>e. e\<lparr>disk_env_pgdir := 0, disk_env_pgdir_PA := 0\<rparr>) v in
       if disk_env_tabledir (venv v n) = 0 then Inr v
       else
         andthen (pf_remove_env_all_tables n v) (\<lambda>v.
         andthen (on_mem (kfree (disk_env_tabledir (venv v n))) v) (\<lambda>v.
           Inr (on_env n (\<lambda>e. e\<lparr>disk_env_tabledir := 0, disk_env_tabledir_PA := 0\<rparr>) v)))))"

definition pf_count_table :: "nat \<Rightarrow> vm \<Rightarrow> nat \<Rightarrow> u32 \<Rightarrow> u32 result" where
  "pf_count_table n v pdIndex counter =
     andthen (table_read (disk_env_pgdir (venv v n)) (of_nat pdIndex) (vmem v)) (\<lambda>pde.
       if pde AND PERM_PRESENT = 0 then Inr counter
       else
         andthen (kheap_virtual_address (EXTRACT_ADDRESS pde) (vmem v)) (\<lambda>pt.
           if pt = 0 then Inl Null_Deref
           else Inr (counter +
             of_nat (length (filter (\<lambda>i. tables (vmem v) pt (of_nat i) \<noteq> 0) [0..<1024])))))"

definition pf_calculate_allocated_pages :: "nat \<Rightarrow> vm \<Rightarrow> u32 result" where
  "pf_calculate_allocated_pages n v = for_each (pf_count_table n v) [0..<unat (PDX USER_TOP)] 0"

section \<open>Transfers of pages\<close>

lemma ide_lba_eq: "ide_lba secno = unat secno mod 268435456"
proof -
  have "(secno AND 0xFF) OR push_bit 8 (drop_bit 8 secno AND 0xFF) OR
        push_bit 16 (drop_bit 16 secno AND 0xFF) OR push_bit 24 (drop_bit 24 secno AND 0x0F)
        = secno AND mask 28"
  proof -
    have 8: "(0xFF :: u32) = mask 8" and 4: "(0x0F :: u32) = mask 4"
      by (simp_all add: mask_eq_exp_minus_1)
    show ?thesis
      unfolding 8 4
    proof (rule bit_eqI)
      fix n :: nat
      consider "n < 8" | "8 \<le> n \<and> n < 16" | "16 \<le> n \<and> n < 24" | "24 \<le> n"
        by linarith
      then show "bit ((secno AND mask 8) OR push_bit 8 (drop_bit 8 secno AND mask 8) OR
          push_bit 16 (drop_bit 16 secno AND mask 8) OR push_bit 24 (drop_bit 24 secno AND mask 4)) n
          = bit (secno AND mask 28) n"
        by cases (auto simp: bit_simps)
    qed
  qed
  then show ?thesis
    by (simp only: ide_lba_def unat_mask_and) simp
qed

lemma PAGES_PER_FILE_eq: "PAGES_PER_FILE = 133120"
  by (simp add: PAGES_PER_FILE_def PAGE_FILE_SIZE_def PAGE_SIZE_def push_bit_eq_mult unat_div)

lemma SECTOR_PER_PAGE_eq: "SECTOR_PER_PAGE = 8"
  by (simp add: SECTOR_PER_PAGE_def PAGE_SIZE_def SECTOR_SIZE_def word_unat_eq_iff unat_div)

lemma PAGE_FILE_START_SECTOR_eq: "PAGE_FILE_START_SECTOR = 40960"
  by (simp add: PAGE_FILE_START_SECTOR_def SECTOR_SIZE_def push_bit_eq_mult word_unat_eq_iff unat_div)

text \<open>The first sector of a disk page, and the bytes of the page.\<close>

definition page_sector :: "u32 \<Rightarrow> nat" where
  "page_sector dfn = ide_lba (PAGE_FILE_START_SECTOR + dfn * SECTOR_PER_PAGE)"

definition disk_page :: "vm \<Rightarrow> u32 \<Rightarrow> nat \<Rightarrow> u8" where
  "disk_page v dfn j =
     disk_sectors (vdisk v) (page_sector dfn + j div SECTSIZE) (j mod SECTSIZE)"

lemma page_sector_eq:
  assumes "unat dfn < PAGES_PER_FILE"
  shows "page_sector dfn = 40960 + 8 * unat dfn"
proof -
  have d: "unat dfn < 133120"
    using assms by (simp add: PAGES_PER_FILE_eq)
  then have 1: "unat (dfn * 8) = unat dfn * 8"
    by (simp add: unat_word_ariths)
  then have "unat (40960 + dfn * 8) = 40960 + unat dfn * 8"
    using d by (subst unat_add_u32) simp_all
  then show ?thesis
    using d by (simp add: page_sector_def ide_lba_eq PAGE_FILE_START_SECTOR_eq SECTOR_PER_PAGE_eq)
qed

lemma write_disk_page_ok:
  assumes "disk_stop (vdisk v) = None"
  shows "\<exists>v'. write_disk_page dfn data v = Inr (0, v') \<and> vmem v' = vmem v \<and> venv v' = venv v \<and>
           disk_stop (vdisk v') = None \<and>
           disk_free_frame_list (vdisk v') = disk_free_frame_list (vdisk v) \<and>
           (\<forall>j<4096. disk_page v' dfn j = data j) \<and>
           (unat dfn < PAGES_PER_FILE \<longrightarrow> (\<forall>dfn'. unat dfn' < PAGES_PER_FILE \<longrightarrow> dfn' \<noteq> dfn \<longrightarrow>
              (\<forall>j<4096. disk_page v' dfn' j = disk_page v dfn' j)))"
proof -
  let ?w = "\<lambda>b j. if page_sector dfn \<le> b \<and> b < page_sector dfn + 8 \<and> j < SECTSIZE
                 then data ((b - page_sector dfn) * SECTSIZE + j) else disk_sectors (vdisk v) b j"
  let ?v = "v\<lparr>vdisk := (vdisk v)\<lparr>disk_sectors := ?w\<rparr>\<rparr>"
  have "write_disk_page dfn data v = Inr (0, ?v)"
    using assms
    by (simp add: write_disk_page_def ide_write_def ide_sectors_def SECTOR_PER_PAGE_eq
        page_sector_def word_le_nat_alt Let_def cong: if_cong)
  moreover have "disk_page ?v dfn j = data j" if "j < 4096" for j
  proof -
    have "j div 512 < 8"
      using that by (simp add: less_mult_imp_div_less)
    then show ?thesis
      by (simp add: disk_page_def SECTSIZE_def)
  qed
  moreover have "disk_page ?v dfn' j = disk_page v dfn' j"
    if "unat dfn < PAGES_PER_FILE" and "unat dfn' < PAGES_PER_FILE" and ne: "dfn' \<noteq> dfn" and "j < 4096" for dfn' j
  proof -
    have "unat dfn' \<noteq> unat dfn"
      using ne by (simp add: u32_eq_iff)
    moreover have "j div 512 < 8"
      using that(4) by (simp add: less_mult_imp_div_less)
    ultimately have "\<not> (page_sector dfn \<le> page_sector dfn' + j div 512 \<and>
        page_sector dfn' + j div 512 < page_sector dfn + 8)"
      unfolding page_sector_eq [OF that(1)] page_sector_eq [OF that(2)] by linarith
    then show ?thesis
      by (auto simp: disk_page_def SECTSIZE_def)
  qed
  ultimately show ?thesis
    using assms by (intro exI [of _ ?v]) simp
qed

lemma read_disk_page_data:
  assumes "disk_stop (vdisk v) = None"
  shows "ide_read (PAGE_FILE_START_SECTOR + dfn * SECTOR_PER_PAGE) SECTOR_PER_PAGE (vdisk v) =
           Inr (0, 4096, disk_page v dfn)"
  using assms
  by (simp add: ide_read_def ide_sectors_def SECTOR_PER_PAGE_eq SECTSIZE_def word_le_nat_alt
      disk_page_def page_sector_def fun_eq_iff)

section \<open>The free list of the page file\<close>

lemma put_disk_frames:
  assumes "distinct (rev is @ disk_free_frame_list d)"
  shows "for_each put_disk_frame is d = Inr (d\<lparr>disk_free_frame_list := rev is @ disk_free_frame_list d\<rparr>)"
  using assms
proof (induction "is" arbitrary: d)
  case (Cons i "is")
  let ?d = "d\<lparr>disk_free_frame_list := i # disk_free_frame_list d\<rparr>"
  have "put_disk_frame i d = Inr ?d"
    using Cons.prems by (simp add: put_disk_frame_def list_insert_head_def)
  moreover have "for_each put_disk_frame is ?d = Inr (?d\<lparr>disk_free_frame_list := rev is @ i # disk_free_frame_list d\<rparr>)"
    using Cons.IH [of ?d] Cons.prems by simp
  ultimately show ?case by simp
qed simp

lemma initialize_disk_free:
  "initialize_disk_page_file d = Inr (d\<lparr>disk_free_frame_list := rev [1..<PAGES_PER_FILE]\<rparr>)"
  using put_disk_frames [of "[1..<PAGES_PER_FILE]" "d\<lparr>disk_free_frame_list := []\<rparr>"]
  by (simp add: initialize_disk_page_file_def)

text \<open>The free list holds distinct frames of the page file, and never frame 0.\<close>

definition disk_wf :: "disk \<Rightarrow> bool" where
  "disk_wf d \<longleftrightarrow>
     distinct (disk_free_frame_list d) \<and>
     (\<forall>f\<in>set (disk_free_frame_list d). 0 < f \<and> f < PAGES_PER_FILE)"

lemma allocate_disk_frame_ok:
  assumes "disk_free_frame_list (vdisk v) = f # fl"
  shows "allocate_disk_frame v =
           Inr (0, of_nat f, v\<lparr>vdisk := (vdisk v)\<lparr>disk_free_frame_list := fl\<rparr>\<rparr>)"
  using assms by (simp add: allocate_disk_frame_def list_first_def list_remove_def)

lemma disk_frame_word:
  assumes "disk_wf d" and "f \<in> set (disk_free_frame_list d)"
  shows "unat (of_nat f :: u32) = f" and "(of_nat f :: u32) \<noteq> 0"
proof -
  have "0 < f" "f < 133120"
    using assms by (auto simp: disk_wf_def PAGES_PER_FILE_eq)
  then show u: "unat (of_nat f :: u32) = f"
    by (simp add: unat_of_nat)
  then show "(of_nat f :: u32) \<noteq> 0"
    using \<open>0 < f\<close> by (metis unat_0 less_irrefl)
qed

lemma free_disk_frame_ok:
  assumes "dfn \<noteq> 0" and "unat dfn < PAGES_PER_FILE"
    and "unat dfn \<notin> set (disk_free_frame_list (vdisk v))"
  shows "free_disk_frame dfn v =
           Inr (v\<lparr>vdisk := (vdisk v)\<lparr>disk_free_frame_list :=
                unat dfn # disk_free_frame_list (vdisk v)\<rparr>\<rparr>)"
  using assms by (simp add: free_disk_frame_def put_disk_frame_def list_insert_head_def)

lemma free_disk_frame_keeps_wf:
  assumes "disk_wf (vdisk v)" and "free_disk_frame dfn v = Inr v'"
  shows "disk_wf (vdisk v')"
  using assms
  by (auto simp: free_disk_frame_def put_disk_frame_def list_insert_head_def disk_wf_def
      unat_gt_0 split: if_splits)

section \<open>Pages of an environment\<close>

text \<open>The disk page table of \<open>va\<close> exists, at \<open>p\<close>.\<close>

definition disk_table_at :: "nat \<Rightarrow> u32 \<Rightarrow> u32 \<Rightarrow> vm \<Rightarrow> bool" where
  "disk_table_at n va p v \<longleftrightarrow>
     (let dpd = disk_env_pgdir (venv v n); s = vmem v; e = tables s dpd (PDX va) in
      dpd \<noteq> 0 \<and> \<not> CHECK_IF_KERNEL_ADDRESS va \<and> e \<noteq> 0 \<and> unat (PPN e) < number_of_frames s \<and>
      frame_va s (unat (PPN e)) = p \<and> p \<noteq> 0 \<and> p \<noteq> dpd)"

lemma get_disk_page_table_at:
  "disk_table_at n va p v \<Longrightarrow>
   get_disk_page_table (disk_env_pgdir (venv v n)) va c (vmem v) = Inr (0, p, vmem v)"
  by (simp add: disk_table_at_def get_disk_page_table_def table_address_def kheap_virtual_address_def
      to_frame_info_def PPN_EXTRACT Let_def)

lemma disk_table_user:
  "disk_table_at n va p v \<Longrightarrow> va < KERNEL_BASE"
  by (auto simp: disk_table_at_def CHECK_IF_KERNEL_ADDRESS_def layout_defs Let_def not_le
      word_less_nat_alt word_le_nat_alt)

lemma disk_table_at_cong:
  assumes "disk_env_pgdir (venv v' n) = disk_env_pgdir (venv v n)"
    and "tables (vmem v') (disk_env_pgdir (venv v n)) (PDX va) = tables (vmem v) (disk_env_pgdir (venv v n)) (PDX va)"
    and "number_of_frames (vmem v') = number_of_frames (vmem v)"
    and "frame_va (vmem v') = frame_va (vmem v)"
  shows "disk_table_at n va p v' = disk_table_at n va p v"
  using assms by (simp add: disk_table_at_def Let_def)

lemma set_entry_more [simp]:
  "env_page_directory (set_entry p i x s) = env_page_directory s"
  "ram (set_entry p i x s) = ram s"
  "frame_environment (set_entry p i x s) = frame_environment s"
  "modified_frame_list (set_entry p i x s) = modified_frame_list s"
  by (simp_all add: set_entry_def)

lemma set_entry_twice [simp]: "set_entry p i y (set_entry p i x s) = set_entry p i y s"
  by (simp add: set_entry_def)

lemma set_mem_simps [simp]:
  "vmem (set_mem v s) = s" "vdisk (set_mem v s) = vdisk v" "venv (set_mem v s) = venv v"
  "set_mem v (vmem v) = v" "set_mem (set_mem v s) s' = set_mem v s'"
  by (simp_all add: set_mem_def)

lemma on_env_simps [simp]:
  "vmem (on_env n f v) = vmem v" "vdisk (on_env n f v) = vdisk v"
  "venv (on_env n f v) = (venv v)(n := f (venv v n))"
  by (simp_all add: on_env_def)

lemma pf_disk_frame_at:
  assumes "disk_table_at n va p v"
  shows "pf_disk_frame n va v =
    (if tables (vmem v) p (PTX va) \<noteq> 0 then Inr (0, tables (vmem v) p (PTX va), v)
     else andthen (allocate_disk_frame v) (\<lambda>(r, dfn, v).
            if r = E_NO_PAGE_FILE_SPACE then Inr (E_NO_PAGE_FILE_SPACE, 0, v)
            else Inr (0, dfn, set_mem v (set_entry p (PTX va) dfn (vmem v)))))"
proof -
  have "disk_env_pgdir (venv v n) \<noteq> 0" "p \<noteq> 0"
    using assms by (auto simp: disk_table_at_def Let_def)
  then show ?thesis
    using get_disk_page_table_at [OF assms] disk_table_user [OF assms]
    by (simp add: pf_disk_frame_def get_disk_page_directory_def)
qed

lemma pf_disk_frame_fresh:
  assumes at: "disk_table_at n va p v" and e: "tables (vmem v) p (PTX va) = 0"
    and fl: "disk_free_frame_list (vdisk v) = f # fl" and wf: "disk_wf (vdisk v)"
  shows "pf_disk_frame n va v =
           Inr (0, of_nat f, set_mem (v\<lparr>vdisk := (vdisk v)\<lparr>disk_free_frame_list := fl\<rparr>\<rparr>)
                               (set_entry p (PTX va) (of_nat f) (vmem v)))"
  using e by (simp add: pf_disk_frame_at [OF at] allocate_disk_frame_ok [OF fl] E_NO_PAGE_FILE_SPACE_def)

lemma page_frame_at:
  "table_at dir va q s \<Longrightarrow> tables s q (PTX va) AND PERM_PRESENT = PERM_PRESENT \<Longrightarrow>
   page_frame dir va s = Inr (unat (PPN (tables s q (PTX va))))"
  by (simp add: page_frame_def table_at_def Let_def)

lemma touch_at:
  "table_at dir va q s \<Longrightarrow>
   touch dir va bits s = Inr (set_entry q (PTX va) (tables s q (PTX va) OR bits) s)"
  by (simp add: touch_def table_at_def)

lemma table_at_ram [simp]: "table_at dir va q (s\<lparr>ram := r\<rparr>) = table_at dir va q s"
  by (rule table_at_cong) simp_all

lemma pt_clear_permissions_at:
  "table_at dir va q s \<Longrightarrow> c \<noteq> 0 \<Longrightarrow>
   pt_set_page_permissions dir va 0 c s = Inr (set_entry q (PTX va) (tables s q (PTX va) AND NOT c) s)"
  by (simp add: pt_set_page_permissions_def table_at_def Let_def)

lemma touched_entry: "(e OR (PERM_USED OR PERM_MODIFIED)) AND NOT PERM_MODIFIED = (e OR PERM_USED) AND NOT PERM_MODIFIED"
  by (rule bit_eqI) (auto simp: bit_simps)

text \<open>Reading a page of the page file into the page mapped at \<open>va\<close>.\<close>

lemma pf_read_env_page_ok:
  assumes at: "disk_table_at n va p v" and al: "ROUNDDOWN va PAGE_SIZE = va"
    and d: "tables (vmem v) p (PTX va) = dfn" "dfn \<noteq> 0" and ok: "disk_stop (vdisk v) = None"
    and q: "table_at (edir n v) va q (vmem v)" and e: "tables (vmem v) q (PTX va) = e"
    and pr: "e AND PERM_PRESENT = PERM_PRESENT"
  shows "pf_read_env_page n va v =
    Inr (0, on_env n (\<lambda>e. e\<lparr>nPageIn := nPageIn e + 1\<rparr>) (set_mem v
      (set_entry q (PTX va) ((e OR PERM_USED) AND NOT PERM_MODIFIED)
        ((vmem v)\<lparr>ram := (ram (vmem v))(unat (PPN e) :=
            (\<lambda>j. if j < 4096 then disk_page v dfn j else ram (vmem v) (unat (PPN e)) j))\<rparr>))))"
proof -
  let ?f = "unat (PPN e)"
  let ?s = "(vmem v)\<lparr>ram := (ram (vmem v))(?f :=
            (\<lambda>j. if j < 4096 then disk_page v dfn j else ram (vmem v) ?f j))\<rparr>"
  have qd: "q \<noteq> edir n v"
    using q by (simp add: table_at_def)
  have st: "store_page (edir n v) va 4096 (disk_page v dfn) (vmem v) =
      Inr (set_entry q (PTX va) (e OR (PERM_USED OR PERM_MODIFIED)) ?s)"
    using q pr e by (simp add: store_page_def page_frame_at [OF q] touch_at)
  have rd: "read_disk_page dfn (edir n v) va v =
      Inr (0, v\<lparr>vmem := set_entry q (PTX va) (e OR (PERM_USED OR PERM_MODIFIED)) ?s\<rparr>)"
    using read_disk_page_data [OF ok, of dfn]
    by (simp add: read_disk_page_def Let_def on_mem_def st)
  have q': "table_at (edir n v) va q (set_entry q (PTX va) (e OR (PERM_USED OR PERM_MODIFIED)) ?s)"
    using q by (intro table_at_set_entry [OF _ qd]) simp
  have m: "PERM_MODIFIED \<noteq> 0"
    by (simp add: PERM_MODIFIED_def)
  have "disk_env_pgdir (venv v n) \<noteq> 0" "p \<noteq> 0"
    using at by (auto simp: disk_table_at_def Let_def)
  then show ?thesis
    using get_disk_page_table_at [OF at, of False] d
    by (simp add: pf_read_env_page_def al Let_def rd)
      (simp add: edir_def set_mem_def on_mem_def
        pt_clear_permissions_at [OF q' [unfolded edir_def] m] touched_entry)
qed

lemma pf_read_env_page_absent:
  assumes "disk_table_at n va p v" and "ROUNDDOWN va PAGE_SIZE = va" and "tables (vmem v) p (PTX va) = 0"
  shows "pf_read_env_page n va v = Inr (E_PAGE_NOT_EXIST_IN_PF, v)"
proof -
  have "disk_env_pgdir (venv v n) \<noteq> 0"
    using assms(1) by (simp add: disk_table_at_def Let_def)
  then show ?thesis
    using assms get_disk_page_table_at [OF assms(1), of False]
    by (simp add: pf_read_env_page_def Let_def)
qed

section \<open>Adding, reading back, removing\<close>

lemma table_at_other_table:
  "table_at dir va q s \<Longrightarrow> p \<noteq> dir \<Longrightarrow> table_at dir va q (set_entry p i x s)"
  by (rule table_at_set_entry)

text \<open>The disk frame that a page has in the page file after it was added: its own, or the first of the free ones.\<close>

definition page_disk_frame :: "u32 \<Rightarrow> u32 \<Rightarrow> vm \<Rightarrow> vm \<Rightarrow> bool" where
  "page_disk_frame p i v v1 \<longleftrightarrow>
     (if tables (vmem v) p i \<noteq> 0
      then tables (vmem v1) p i = tables (vmem v) p i \<and> disk_free_frame_list (vdisk v1) = disk_free_frame_list (vdisk v)
      else tables (vmem v1) p i = of_nat (hd (disk_free_frame_list (vdisk v))) \<and>
        disk_free_frame_list (vdisk v1) = tl (disk_free_frame_list (vdisk v)))"

lemma add_then_read:
  assumes at: "disk_table_at n va p v" and al: "ROUNDDOWN va PAGE_SIZE = va"
    and wf: "disk_wf (vdisk v)" and ok: "disk_stop (vdisk v) = None"
    and sp: "tables (vmem v) p (PTX va) \<noteq> 0 \<or> disk_free_frame_list (vdisk v) \<noteq> []"
    and q: "table_at (edir n v) va q (vmem v)" and pq: "p \<noteq> q" "p \<noteq> edir n v"
    and e: "tables (vmem v) q (PTX va) = e" and pr: "e AND PERM_PRESENT = PERM_PRESENT"
  shows "\<exists>v1 v2. pf_add_env_page n va (kernel_page k) v = Inr (0, v1) \<and>
           pf_read_env_page n va v1 = Inr (0, v2) \<and>
           (\<forall>j<4096. ram (vmem v2) (unat (PPN e)) j = ram (vmem v) k j) \<and>
           tables (vmem v2) q (PTX va) = (e OR PERM_USED) AND NOT PERM_MODIFIED \<and>
           nPageIn (venv v2 n) = nPageIn (venv v n) + 1 \<and> page_disk_frame p (PTX va) v v1"
proof -
  have "\<exists>dfn va'. pf_disk_frame n va v = Inr (0, dfn, va') \<and> dfn \<noteq> 0 \<and> page_disk_frame p (PTX va) v va' \<and>
      vmem va' = set_entry p (PTX va) dfn (vmem v) \<and> venv va' = venv v \<and> disk_stop (vdisk va') = None"
  proof (cases "tables (vmem v) p (PTX va) = 0")
    case True
    then obtain f fl where fl: "disk_free_frame_list (vdisk v) = f # fl"
      using sp by (cases "disk_free_frame_list (vdisk v)") auto
    have "(of_nat f :: u32) \<noteq> 0"
      by (rule disk_frame_word(2) [OF wf]) (simp add: fl)
    then show ?thesis
      using pf_disk_frame_fresh [OF at True fl wf] ok True fl by (simp add: page_disk_frame_def)
  next
    case False
    then show ?thesis
      using ok by (intro exI [of _ "tables (vmem v) p (PTX va)"] exI [of _ v])
        (simp add: pf_disk_frame_at [OF at] set_entry_def page_disk_frame_def)
  qed
  then obtain dfn w where pd_w: "page_disk_frame p (PTX va) v w"
    and w: "pf_disk_frame n va v = Inr (0, dfn, w)" "dfn \<noteq> 0"
    "vmem w = set_entry p (PTX va) dfn (vmem v)" "venv w = venv v" "disk_stop (vdisk w) = None"
    by blast
  obtain v1 where v1: "write_disk_page dfn (ram (vmem w) k) w = Inr (0, v1)" "vmem v1 = vmem w"
    "venv v1 = venv w" "disk_stop (vdisk v1) = None" "\<forall>j<4096. disk_page v1 dfn j = ram (vmem w) k j"
    "disk_free_frame_list (vdisk v1) = disk_free_frame_list (vdisk w)"
    using write_disk_page_ok [OF w(5), of dfn "ram (vmem w) k"] by blast
  have add: "pf_add_env_page n va (kernel_page k) v = Inr (0, v1)"
    using v1(1) by (simp add: pf_add_env_page_def w(1) kernel_page_def E_NO_PAGE_FILE_SPACE_def)
  have pd: "p \<noteq> disk_env_pgdir (venv v n)"
    using at by (simp add: disk_table_at_def Let_def)
  have at1: "disk_table_at n va p v1"
    using at pd by (subst disk_table_at_cong [of _ _ v]) (simp_all add: v1 w)
  have ed: "edir n v1 = edir n v"
    by (simp add: edir_def v1 w)
  have q1: "table_at (edir n v1) va q (vmem v1)"
    unfolding ed v1(2) w(3) by (rule table_at_other_table [OF q pq(2)])
  have e1: "tables (vmem v1) q (PTX va) = e"
    using pq e by (simp add: v1 w)
  have d1: "tables (vmem v1) p (PTX va) = dfn"
    by (simp add: v1 w)
  have "\<exists>v2. pf_read_env_page n va v1 = Inr (0, v2) \<and>
           (\<forall>j<4096. ram (vmem v2) (unat (PPN e)) j = ram (vmem v) k j) \<and>
           tables (vmem v2) q (PTX va) = (e OR PERM_USED) AND NOT PERM_MODIFIED \<and>
           nPageIn (venv v2 n) = nPageIn (venv v n) + 1"
    by (rule exI, rule conjI [OF pf_read_env_page_ok [OF at1 al d1 w(2) v1(4) q1 e1 pr]])
      (use v1(5) in \<open>simp add: v1(2,3) w(3,4)\<close>)
  moreover have "page_disk_frame p (PTX va) v v1"
    using pd_w v1(2,6) by (simp add: page_disk_frame_def)
  ultimately show ?thesis
    using add by blast
qed

lemma add_then_remove:
  assumes at: "disk_table_at n va p v" and wf: "disk_wf (vdisk v)"
    and e: "tables (vmem v) p (PTX va) = 0" and sp: "disk_free_frame_list (vdisk v) \<noteq> []"
  shows "\<exists>v1 f. pf_add_empty_env_page n va 0 v = Inr (0, v1) \<and>
           disk_free_frame_list (vdisk v) = f # disk_free_frame_list (vdisk v1) \<and>
           disk_wf (vdisk v1) \<and> tables (vmem v1) p (PTX va) = of_nat f \<and>
           pf_add_empty_env_page n va 0 v1 = Inr (0, v1) \<and>
           pf_remove_env_page n va v1 = Inr v"
proof -
  obtain f fl where fl: "disk_free_frame_list (vdisk v) = f # fl"
    using sp by (cases "disk_free_frame_list (vdisk v)") auto
  let ?v1 = "set_mem (v\<lparr>vdisk := (vdisk v)\<lparr>disk_free_frame_list := fl\<rparr>\<rparr>)
               (set_entry p (PTX va) (of_nat f) (vmem v))"
  note fw = disk_frame_word [OF wf, of f, unfolded fl, simplified]
  have pd: "p \<noteq> disk_env_pgdir (venv v n)" "p \<noteq> 0" "disk_env_pgdir (venv v n) \<noteq> 0"
    using at by (simp_all add: disk_table_at_def Let_def)
  have add: "pf_add_empty_env_page n va 0 v = Inr (0, ?v1)"
    using pf_disk_frame_fresh [OF at e fl wf] by (simp add: pf_add_empty_env_page_def)
  have at1: "disk_table_at n va p ?v1"
    using at pd by (subst disk_table_at_cong [of _ _ v]) simp_all
  have again: "pf_add_empty_env_page n va 0 ?v1 = Inr (0, ?v1)"
    using fw(2) by (simp add: pf_add_empty_env_page_def pf_disk_frame_at [OF at1])
  have f: "f < PAGES_PER_FILE" "f \<notin> set fl"
    using wf by (auto simp: disk_wf_def fl)
  have same: "set_entry p (PTX va) 0 (vmem v) = vmem v"
    using e by (simp add: set_entry_def fun_upd_idem)
  have "pf_remove_env_page n va ?v1 = free_disk_frame (of_nat f) (set_mem ?v1 (vmem v))"
    using get_disk_page_table_at [OF at1, of False] pd same
    by (simp add: pf_remove_env_page_def Let_def)
  also have "\<dots> = Inr v"
    using f fw by (subst free_disk_frame_ok) (simp_all add: set_mem_def flip: fl)
  finally show ?thesis
    using add again wf by (intro exI [of _ ?v1] exI [of _ f]) (simp add: fl disk_wf_def)
qed

section \<open>The table file\<close>

lemma bit_table_byte:
  "k < 4 \<Longrightarrow> unat i < 1024 \<Longrightarrow> bit (table_byte t (4 * unat i + k)) m \<longleftrightarrow> m < 8 \<and> bit (t i) (8 * k + m)"
proof -
  assume k: "k < 4"
  then have "(4 * unat i + k) mod 4 = k" "(4 * unat i + k) div 4 = unat i"
    by (simp_all add: mod_mult_self4)
  then show ?thesis
    by (auto simp: table_byte_def bit_simps)
qed

lemma byte_word_table: "unat i < 1024 \<Longrightarrow> byte_word (table_byte t) (unat i) = t i"
proof (rule bit_eqI)
  fix m :: nat
  assume i: "unat i < 1024" and m: "possible_bit TYPE(u32) m"
  note b = bit_table_byte [of _ i t]
  have b': "bit (table_byte t (4 * unat i)) j \<longleftrightarrow> j < 8 \<and> bit (t i) j"
    "bit (table_byte t (4 * unat i + 1)) j \<longleftrightarrow> j < 8 \<and> bit (t i) (8 + j)"
    "bit (table_byte t (4 * unat i + 2)) j \<longleftrightarrow> j < 8 \<and> bit (t i) (16 + j)"
    "bit (table_byte t (4 * unat i + 3)) j \<longleftrightarrow> j < 8 \<and> bit (t i) (24 + j)" for j
    using b [of 0] b [of 1] b [of 2] b [of 3] i by simp_all
  have "m < 32"
    using m by simp
  then consider "m < 8" | "8 \<le> m \<and> m < 16" | "16 \<le> m \<and> m < 24" | "24 \<le> m \<and> m < 32"
    by linarith
  then show "bit (byte_word (table_byte t) (unat i)) m = bit (t i) m"
    unfolding byte_word_def bit_or_iff bit_push_bit_iff
    by cases (auto simp: b' [simplified] bit_simps)
qed

lemma write_then_read_table:
  assumes "\<not> CHECK_IF_KERNEL_ADDRESS va" and td: "disk_env_tabledir (venv v n) = td" "td \<noteq> 0"
    and dfn: "tables (vmem v) td (PDX va) = dfn" "dfn \<noteq> 0" and ok: "disk_stop (vdisk v) = None"
  shows "\<exists>v1 v2. pf_write_env_table n va t v = Inr (0, v1) \<and>
           pf_read_env_table n va t' v1 = Inr (0, v2) \<and>
           (\<forall>i<1024. tables (vmem v2) t' i = tables (vmem v) t i)"
proof -
  have va: "va < KERNEL_BASE"
    using assms(1) by (auto simp: CHECK_IF_KERNEL_ADDRESS_def layout_defs not_le word_less_nat_alt
        word_le_nat_alt)
  obtain v1 where v1: "write_disk_page dfn (table_byte (tables (vmem v) t)) v = Inr (0, v1)"
    "vmem v1 = vmem v" "venv v1 = venv v" "disk_stop (vdisk v1) = None"
    "\<forall>j<4096. disk_page v1 dfn j = table_byte (tables (vmem v) t) j"
    using write_disk_page_ok [OF ok, of dfn "table_byte (tables (vmem v) t)"] by blast
  have w: "pf_write_env_table n va t v = Inr (0, v1)"
    using va td dfn v1(1)
    by (simp add: pf_write_env_table_def get_disk_table_directory_def E_NO_PAGE_FILE_SPACE_def)
  have "byte_word (disk_page v1 dfn) (unat i) = tables (vmem v) t i" if "i < 1024" for i
  proof -
    have i: "unat i < 1024"
      using that by (simp add: word_less_nat_alt)
    then have "byte_word (disk_page v1 dfn) (unat i) = byte_word (table_byte (tables (vmem v) t)) (unat i)"
      using v1(5) by (simp add: byte_word_def)
    then show ?thesis
      by (simp only: byte_word_table [OF i])
  qed
  moreover have "4 * unat i < 4096" if "i < 1024" for i :: u32
    using that by (simp add: word_less_nat_alt)
  ultimately show ?thesis
    using w read_disk_page_data [OF v1(4), of dfn] td dfn
    by (simp add: pf_read_env_table_def v1(2,3) Let_def)
qed

section \<open>Example\<close>

text \<open>
  An environment with directory \<open>0xF0200000\<close>, its table for page \<open>0x800000\<close> at
  \<open>0xF6001000\<close> with the page mapped to frame 30, its disk directory at \<open>0xF6002000\<close> and the
  disk table at \<open>0xF6003000\<close> (frame 22), and its table directory at \<open>0xF6004000\<close>.
\<close>

definition env_example :: env where
  "env_example = \<lparr>env_id = 1, env_parent_id = 0, env_status = ENV_RUNNABLE, env_runs = 0, env_cr3 = 0,
     disk_env_pgdir = 0xF6002000, disk_env_pgdir_PA = 0x15000, disk_env_tabledir = 0xF6004000,
     disk_env_tabledir_PA = 0x17000, page_WS_max_size = 2,
     ptr_pageWorkingSet = [\<lparr>ws_va = 0x800000, ws_empty = 0, ws_time_stamp = 0, ws_sweeps_counter = 0\<rparr>,
       \<lparr>ws_va = 0, ws_empty = 1, ws_time_stamp = 0, ws_sweeps_counter = 0\<rparr>],
     ptr_tws = [], page_last_WS_index = 1, table_last_WS_index = 0, pageFaultsCounter = 0,
     tableFaultsCounter = 0, nPageIn = 0, nPageOut = 0, nNewPageAdded = 0, initNumStackPages = 1,
     nClocks = 0\<rparr>"

definition vm_example :: vm where
  "vm_example = \<lparr>vmem = kmem_example\<lparr>
       frame_va := (\<lambda>f. if f = 20 then 0xF6001000 else if f = 22 then 0xF6003000 else 0),
       tables := (\<lambda>p i. if p = 0xF0200000 \<and> i = 2 then 0x14007
                       else if p = 0xF6001000 \<and> i = 0 then 0x19047
                       else if p = 0xF6002000 \<and> i = 2 then 0x16001
                       else if p = 0xF6004000 \<and> i = 2 then 7 else 0)\<rparr>,
     vdisk = \<lparr>disk_free_frame_list = [5, 6], disk_sectors = (\<lambda>b j. 0), disk_stop = None\<rparr>,
     venv = (\<lambda>n. env_example)\<rparr>"

lemma vm_example_facts:
  "disk_table_at 0 0x800000 0xF6003000 vm_example"
  "table_at (edir 0 vm_example) 0x800000 0xF6001000 (vmem vm_example)"
  "disk_wf (vdisk vm_example)"
  "ROUNDDOWN 0x800000 PAGE_SIZE = 0x800000"
  by (simp_all add: disk_table_at_def vm_example_def env_example_def kmem_example_def addr_defs
      CHECK_IF_KERNEL_ADDRESS_def layout_defs Let_def table_at_def get_page_table_def
      table_read_def table_address_def kheap_virtual_address_def to_frame_info_def perm_defs
      disk_wf_def PAGES_PER_FILE_eq edir_def ROUNDDOWN_def)

section \<open>Properties\<close>

text \<open>On a drive that reports no error, writing a disk page stores exactly its 4096 bytes in
  the page's eight sectors and leaves every other page of the page file as it was.\<close>

theorem disk_write_isolated:
  assumes "disk_stop (vdisk v) = None" and "unat dfn < PAGES_PER_FILE"
    and "unat dfn' < PAGES_PER_FILE" and "j < 4096"
  shows "\<exists>v'. write_disk_page dfn data v = Inr (0, v') \<and>
           disk_page v' dfn' j = (if dfn' = dfn then data j else disk_page v dfn' j)"
  using write_disk_page_ok [OF assms(1), of dfn data] assms(2-) by auto

theorem disk_write_isolated_witness:
  "\<exists>v'. write_disk_page 9 (\<lambda>j. of_nat j) vm_example = Inr (0, v') \<and>
     disk_page v' 9 7 = (if (9 :: u32) = 9 then of_nat 7 else disk_page vm_example 9 7)"
  by (rule disk_write_isolated) (simp_all add: vm_example_def PAGES_PER_FILE_eq)

text \<open>Initialising the page file puts every disk frame but frame 0 on the free list, once:
  133119 free frames.\<close>

theorem initialize_disk_frames:
  "\<exists>d'. initialize_disk_page_file d = Inr d' \<and> disk_wf d' \<and>
     set (disk_free_frame_list d') = {1..<PAGES_PER_FILE} \<and>
     pf_calculate_free_frames (v\<lparr>vdisk := d'\<rparr>) = 133119"
  by (simp add: initialize_disk_free disk_wf_def pf_calculate_free_frames_def PAGES_PER_FILE_eq
      del: upt_conv_Cons upt_rec_numeral)

text \<open>C28: A page added to the page file is what a later page-in of that page reads: the mapped
  frame then holds the bytes that were added, its entry is marked unmodified, and the page-in
  is counted. The disk frame is the page's own, and the free list stays as it is; when the page has none, it
  is the first of the free list, which loses it. The disk and memory tables of the page exist, the drive
  works, and the page is present in memory.\<close>

theorem page_file_add_read:
  assumes "disk_table_at n va p v" and "ROUNDDOWN va PAGE_SIZE = va"
    and "disk_wf (vdisk v)" and "disk_stop (vdisk v) = None"
    and "tables (vmem v) p (PTX va) \<noteq> 0 \<or> disk_free_frame_list (vdisk v) \<noteq> []"
    and "table_at (edir n v) va q (vmem v)" and "p \<noteq> q" and "p \<noteq> edir n v"
    and "tables (vmem v) q (PTX va) = e" and "e AND PERM_PRESENT = PERM_PRESENT"
  shows "\<exists>v1 v2. pf_add_env_page n va (kernel_page k) v = Inr (0, v1) \<and>
           pf_read_env_page n va v1 = Inr (0, v2) \<and>
           (\<forall>j<4096. ram (vmem v2) (unat (PPN e)) j = ram (vmem v) k j) \<and>
           tables (vmem v2) q (PTX va) = (e OR PERM_USED) AND NOT PERM_MODIFIED \<and>
           nPageIn (venv v2 n) = nPageIn (venv v n) + 1 \<and>
           (if tables (vmem v) p (PTX va) \<noteq> 0
            then tables (vmem v1) p (PTX va) = tables (vmem v) p (PTX va) \<and>
              disk_free_frame_list (vdisk v1) = disk_free_frame_list (vdisk v)
            else tables (vmem v1) p (PTX va) = of_nat (hd (disk_free_frame_list (vdisk v))) \<and>
              disk_free_frame_list (vdisk v1) = tl (disk_free_frame_list (vdisk v)))"
  using add_then_read [OF assms] by (simp add: page_disk_frame_def)

theorem page_file_add_read_witness:
  "\<exists>v1 v2. pf_add_env_page 0 0x800000 (kernel_page 1) vm_example = Inr (0, v1) \<and>
     pf_read_env_page 0 0x800000 v1 = Inr (0, v2) \<and>
     (\<forall>j<4096. ram (vmem v2) (unat (PPN 0x19047)) j = ram (vmem vm_example) 1 j) \<and>
     tables (vmem v2) 0xF6001000 (PTX 0x800000) = (0x19047 OR PERM_USED) AND NOT PERM_MODIFIED \<and>
     nPageIn (venv v2 0) = nPageIn (venv vm_example 0) + 1 \<and>
     disk_free_frame_list (vdisk v1) = tl (disk_free_frame_list (vdisk vm_example))"
proof -
  have new: "tables (vmem vm_example) 0xF6003000 (PTX 0x800000) = 0"
    by (simp add: vm_example_def kmem_example_def addr_defs)
  have "disk_stop (vdisk vm_example) = None" "disk_free_frame_list (vdisk vm_example) \<noteq> []"
    "(0xF6003000 :: u32) \<noteq> 0xF6001000" "0xF6003000 \<noteq> edir 0 vm_example"
    "tables (vmem vm_example) 0xF6001000 (PTX 0x800000) = 0x19047"
    by (simp_all add: vm_example_def edir_def kmem_example_def addr_defs)
  moreover have "(0x19047 :: u32) AND PERM_PRESENT = PERM_PRESENT"
    by (simp add: perm_defs)
  ultimately obtain v1 v2 where "pf_add_env_page 0 0x800000 (kernel_page 1) vm_example = Inr (0, v1)"
      "pf_read_env_page 0 0x800000 v1 = Inr (0, v2)"
      "\<forall>j<4096. ram (vmem v2) (unat (PPN 0x19047)) j = ram (vmem vm_example) 1 j"
      "tables (vmem v2) 0xF6001000 (PTX 0x800000) = (0x19047 OR PERM_USED) AND NOT PERM_MODIFIED"
      "nPageIn (venv v2 0) = nPageIn (venv vm_example 0) + 1"
      "disk_free_frame_list (vdisk v1) = tl (disk_free_frame_list (vdisk vm_example))"
    using page_file_add_read [OF vm_example_facts(1) vm_example_facts(4) vm_example_facts(3) _ _
        vm_example_facts(2), where k = 1 and e = "0x19047"] new by auto
  then show ?thesis
    by blast
qed

text \<open>Adding an empty page takes the first free disk frame, adding it again changes nothing,
  and removing it restores the whole state: the free list of the disk and the page's entry.\<close>

theorem page_file_add_remove:
  assumes "disk_table_at n va p v" and "disk_wf (vdisk v)"
    and "tables (vmem v) p (PTX va) = 0" and "disk_free_frame_list (vdisk v) \<noteq> []"
  shows "\<exists>v1 f. pf_add_empty_env_page n va 0 v = Inr (0, v1) \<and>
           disk_free_frame_list (vdisk v) = f # disk_free_frame_list (vdisk v1) \<and>
           disk_wf (vdisk v1) \<and> tables (vmem v1) p (PTX va) = of_nat f \<and>
           pf_add_empty_env_page n va 0 v1 = Inr (0, v1) \<and>
           pf_remove_env_page n va v1 = Inr v"
  using assms by (rule add_then_remove)

theorem page_file_add_remove_witness:
  "\<exists>v1 f. pf_add_empty_env_page 0 0x800000 0 vm_example = Inr (0, v1) \<and>
     disk_free_frame_list (vdisk vm_example) = f # disk_free_frame_list (vdisk v1) \<and>
     disk_wf (vdisk v1) \<and> tables (vmem v1) 0xF6003000 (PTX 0x800000) = of_nat f \<and>
     pf_add_empty_env_page 0 0x800000 0 v1 = Inr (0, v1) \<and>
     pf_remove_env_page 0 0x800000 v1 = Inr vm_example"
  by (rule page_file_add_remove [OF vm_example_facts(1) vm_example_facts(3)])
    (simp_all add: vm_example_def kmem_example_def addr_defs)

text \<open>A page table written to the table file is read back word for word.\<close>

theorem table_file_roundtrip:
  assumes "\<not> CHECK_IF_KERNEL_ADDRESS va" and "disk_env_tabledir (venv v n) = td" and "td \<noteq> 0"
    and "tables (vmem v) td (PDX va) = dfn" and "dfn \<noteq> 0" and "disk_stop (vdisk v) = None"
  shows "\<exists>v1 v2. pf_write_env_table n va t v = Inr (0, v1) \<and>
           pf_read_env_table n va t' v1 = Inr (0, v2) \<and>
           (\<forall>i<1024. tables (vmem v2) t' i = tables (vmem v) t i)"
  using assms by (rule write_then_read_table)

theorem table_file_roundtrip_witness:
  "\<exists>v1 v2. pf_write_env_table 0 0x800000 0xF6001000 vm_example = Inr (0, v1) \<and>
     pf_read_env_table 0 0x800000 0xF6005000 v1 = Inr (0, v2) \<and>
     (\<forall>i<1024. tables (vmem v2) 0xF6005000 i = tables (vmem vm_example) 0xF6001000 i)"
  by (rule table_file_roundtrip [where td = "0xF6004000" and dfn = 7])
    (simp_all add: vm_example_def env_example_def kmem_example_def addr_defs
      CHECK_IF_KERNEL_ADDRESS_def layout_defs)

end
