(* ===== verification/Fault_Handler.thy ===== *)
theory Fault_Handler
  imports Page_File
begin

text \<open>
  Page and table faults: \<^verbatim>\<open>kern/trap/fault_handler.c\<close>, \<^verbatim>\<open>fault_handler\<close> of
  \<^verbatim>\<open>kern/trap/trap.c\<close> and \<^verbatim>\<open>update_WS_time_stamps\<close> of
  \<^verbatim>\<open>kern/cpu/sched.c\<close>. The faulting environment is the current one, an index into
  \<open>venv\<close>. The clock loop is a recursion on rounds over the working set; the fuel of two rounds
  is proved to be enough for every full working set whose pages are mapped.
\<close>

section \<open>Settings\<close>

definition PG_REP_LRU_TIME_APPROX :: u32 where "PG_REP_LRU_TIME_APPROX = 1"
definition PG_REP_LRU_LISTS_APPROX :: u32 where "PG_REP_LRU_LISTS_APPROX = 2"
definition PG_REP_CLOCK :: u32 where "PG_REP_CLOCK = 3"
definition PG_REP_FIFO :: u32 where "PG_REP_FIFO = 4"
definition PG_REP_MODIFIEDCLOCK :: u32 where "PG_REP_MODIFIEDCLOCK = 5"
definition PG_REP_NchanceCLOCK :: u32 where "PG_REP_NchanceCLOCK = 6"
definition PG_REP_DYNAMIC_LOCAL :: u32 where "PG_REP_DYNAMIC_LOCAL = 7"

record settings =
  PageRepAlgoType :: u32
  EnableModifiedBuffer :: u32
  EnableBuffering :: u32
  ModifiedBufferLength :: u32
  page_WS_max_sweeps :: u32
  last_fault_va :: u32
  num_repeated_fault :: u8

definition setPageReplacmentAlgorithmLRU :: "u32 \<Rightarrow> settings \<Rightarrow> settings result" where
  "setPageReplacmentAlgorithmLRU LRU_TYPE g =
     (if LRU_TYPE = PG_REP_LRU_TIME_APPROX \<or> LRU_TYPE = PG_REP_LRU_LISTS_APPROX
      then Inr (g\<lparr>PageRepAlgoType := LRU_TYPE\<rparr>) else Inl Panic)"

definition setPageReplacmentAlgorithmCLOCK :: "settings \<Rightarrow> settings" where
  "setPageReplacmentAlgorithmCLOCK g = g\<lparr>PageRepAlgoType := PG_REP_CLOCK\<rparr>"
definition setPageReplacmentAlgorithmFIFO :: "settings \<Rightarrow> settings" where
  "setPageReplacmentAlgorithmFIFO g = g\<lparr>PageRepAlgoType := PG_REP_FIFO\<rparr>"
definition setPageReplacmentAlgorithmModifiedCLOCK :: "settings \<Rightarrow> settings" where
  "setPageReplacmentAlgorithmModifiedCLOCK g = g\<lparr>PageRepAlgoType := PG_REP_MODIFIEDCLOCK\<rparr>"
definition setPageReplacmentAlgorithmDynamicLocal :: "settings \<Rightarrow> settings" where
  "setPageReplacmentAlgorithmDynamicLocal g = g\<lparr>PageRepAlgoType := PG_REP_DYNAMIC_LOCAL\<rparr>"
definition setPageReplacmentAlgorithmNchanceCLOCK :: "u32 \<Rightarrow> settings \<Rightarrow> settings" where
  "setPageReplacmentAlgorithmNchanceCLOCK PageWSMaxSweeps g =
     g\<lparr>PageRepAlgoType := PG_REP_NchanceCLOCK, page_WS_max_sweeps := PageWSMaxSweeps\<rparr>"

definition isPageReplacmentAlgorithmLRU :: "u32 \<Rightarrow> settings \<Rightarrow> bool" where
  "isPageReplacmentAlgorithmLRU LRU_TYPE g \<longleftrightarrow> PageRepAlgoType g = LRU_TYPE"
definition isPageReplacmentAlgorithmCLOCK :: "settings \<Rightarrow> bool" where
  "isPageReplacmentAlgorithmCLOCK g \<longleftrightarrow> PageRepAlgoType g = PG_REP_CLOCK"
definition isPageReplacmentAlgorithmFIFO :: "settings \<Rightarrow> bool" where
  "isPageReplacmentAlgorithmFIFO g \<longleftrightarrow> PageRepAlgoType g = PG_REP_FIFO"
definition isPageReplacmentAlgorithmModifiedCLOCK :: "settings \<Rightarrow> bool" where
  "isPageReplacmentAlgorithmModifiedCLOCK g \<longleftrightarrow> PageRepAlgoType g = PG_REP_MODIFIEDCLOCK"
definition isPageReplacmentAlgorithmDynamicLocal :: "settings \<Rightarrow> bool" where
  "isPageReplacmentAlgorithmDynamicLocal g \<longleftrightarrow> PageRepAlgoType g = PG_REP_DYNAMIC_LOCAL"
definition isPageReplacmentAlgorithmNchanceCLOCK :: "settings \<Rightarrow> bool" where
  "isPageReplacmentAlgorithmNchanceCLOCK g \<longleftrightarrow> PageRepAlgoType g = PG_REP_NchanceCLOCK"

definition enableModifiedBuffer :: "u32 \<Rightarrow> settings \<Rightarrow> settings" where
  "enableModifiedBuffer enableIt g = g\<lparr>EnableModifiedBuffer := enableIt\<rparr>"
definition isModifiedBufferEnabled :: "settings \<Rightarrow> u8" where
  "isModifiedBufferEnabled g = ucast (EnableModifiedBuffer g)"
definition enableBuffering :: "u32 \<Rightarrow> settings \<Rightarrow> settings" where
  "enableBuffering enableIt g = g\<lparr>EnableBuffering := enableIt\<rparr>"
definition isBufferingEnabled :: "settings \<Rightarrow> u8" where
  "isBufferingEnabled g = ucast (EnableBuffering g)"
definition setModifiedBufferLength :: "u32 \<Rightarrow> settings \<Rightarrow> settings" where
  "setModifiedBufferLength len g = g\<lparr>ModifiedBufferLength := len\<rparr>"
definition getModifiedBufferLength :: "settings \<Rightarrow> u32" where
  "getModifiedBufferLength g = ModifiedBufferLength g"

section \<open>Placement\<close>

definition table_fault_handler :: "nat \<Rightarrow> u32 \<Rightarrow> vm \<Rightarrow> vm result" where
  "table_fault_handler n fault_va v =
     on_mem (\<lambda>s. andthen (create_page_table (edir n v) fault_va s) (\<lambda>(_, s). Inr s)) v"

definition on_env_res :: "nat \<Rightarrow> (env \<Rightarrow> env result) \<Rightarrow> vm \<Rightarrow> vm result" where
  "on_env_res n f v = andthen (f (venv v n)) (\<lambda>e. Inr (v\<lparr>venv := (venv v)(n := e)\<rparr>))"

definition ws_place :: "nat \<Rightarrow> u32 \<Rightarrow> u32 \<Rightarrow> vm \<Rightarrow> vm result" where
  "ws_place n last_index fault_va v =
     andthen (on_env_res n (env_page_ws_set_entry last_index fault_va) v) (\<lambda>v.
       Inr (on_env n (\<lambda>e. e\<lparr>page_last_WS_index := page_last_WS_index e + 1\<rparr>) v))"

text \<open>
  The body that \<^verbatim>\<open>placment\<close> and the placement branch of \<^verbatim>\<open>page_fault_handler\<close>
  share word for word.
\<close>

definition place_page :: "nat \<Rightarrow> u32 \<Rightarrow> vm \<Rightarrow> vm result" where
  "place_page n fault_va v =
     (let last_index = page_last_WS_index (venv v n) in
      andthen (allocate_frame (vmem v)) (\<lambda>(f, s).
      andthen (map_frame (edir n v) f fault_va (PERM_MODIFIED OR PERM_WRITEABLE OR PERM_USER) s) (\<lambda>s.
      andthen (pf_read_env_page n fault_va (set_mem v s)) (\<lambda>(ret_page, v).
      andthen
        (if ret_page = 0 then ws_place n last_index fault_va v
         else if ret_page = E_PAGE_NOT_EXIST_IN_PF then
           (if user_growable fault_va then ws_place n last_index fault_va v
            else andthen (on_mem (unmap_frame (edir n v) fault_va) v) (\<lambda>v. Inl Panic))
         else Inr v) (\<lambda>v.
        Inr (if page_last_WS_index (venv v n) = page_WS_max_size (venv v n)
             then on_env n (\<lambda>e. e\<lparr>page_last_WS_index := 0\<rparr>) v else v))))))"

definition placment :: "nat \<Rightarrow> u32 \<Rightarrow> vm \<Rightarrow> vm result" where
  "placment n fault_va v =
     andthen (env_page_ws_get_size (venv v n)) (\<lambda>ret.
       if ret < page_WS_max_size (venv v n) then place_page n fault_va v else Inr v)"

section \<open>Clock replacement\<close>

definition clock_evict :: "nat \<Rightarrow> u32 \<Rightarrow> nat \<Rightarrow> u32 \<Rightarrow> nat option \<Rightarrow> u32 \<Rightarrow> vm \<Rightarrow> vm result" where
  "clock_evict n fault_va i vitual_add ptr_rep perm v =
     andthen
       (if perm AND PERM_MODIFIED \<noteq> PERM_MODIFIED then Inr v
        else andthen (pf_update_env_page n vitual_add ptr_rep v) (\<lambda>(_, v). Inr v)) (\<lambda>v.
     andthen (on_env_res n (env_page_ws_clear_entry (of_nat i)) v) (\<lambda>v.
     andthen (on_mem (unmap_frame (edir n v) vitual_add) v) (\<lambda>v.
       placment n fault_va (on_env n (\<lambda>e. e\<lparr>page_last_WS_index := of_nat i\<rparr>) v))))"

text \<open>One of the two \<open>for\<close> loops, over the indices it visits; it stops at its first victim.\<close>

fun clock_scan :: "nat \<Rightarrow> u32 \<Rightarrow> nat list \<Rightarrow> vm \<Rightarrow> (bool \<times> vm) result" where
  "clock_scan n fault_va [] v = Inr (False, v)"
| "clock_scan n fault_va (i # is) v =
     andthen (env_page_ws_get_virtual_address (of_nat i) (venv v n)) (\<lambda>vitual_add.
     andthen (get_frame_info (edir n v) vitual_add (vmem v)) (\<lambda>(ptr_rep, _).
     andthen (pt_get_page_permissions (edir n v) vitual_add (vmem v)) (\<lambda>perm.
       if perm AND PERM_USED \<noteq> PERM_USED then
         andthen (clock_evict n fault_va i vitual_add ptr_rep perm v) (\<lambda>v. Inr (True, v))
       else
         andthen (on_mem (pt_set_page_permissions (edir n v) vitual_add 0 PERM_USED) v)
           (clock_scan n fault_va is))))"

text \<open>The \<open>while\<close> loop: each round goes from the hand to the end and then from 0 to the hand.\<close>

fun clock_rounds :: "nat \<Rightarrow> nat \<Rightarrow> u32 \<Rightarrow> vm \<Rightarrow> vm result" where
  "clock_rounds 0 n fault_va v = Inl No_Fuel"
| "clock_rounds (Suc k) n fault_va v =
     andthen (clock_scan n fault_va
         [unat (page_last_WS_index (venv v n))..<unat (page_WS_max_size (venv v n))] v) (\<lambda>(flag, v).
     andthen (if flag then Inr (True, v)
              else clock_scan n fault_va [0..<unat (page_last_WS_index (venv v n))] v) (\<lambda>(found, v).
       if found then Inr v else clock_rounds k n fault_va v))"

definition clock_fuel :: nat where "clock_fuel = 2"

definition page_fault_handler :: "nat \<Rightarrow> u32 \<Rightarrow> vm \<Rightarrow> vm result" where
  "page_fault_handler n fault_va v =
     andthen (env_page_ws_get_size (venv v n)) (\<lambda>ret.
       if ret < page_WS_max_size (venv v n) then place_page n fault_va v
       else clock_rounds clock_fuel n fault_va v)"

definition page_fault_handler_with_buffering :: "nat \<Rightarrow> u32 \<Rightarrow> vm \<Rightarrow> vm result" where
  "page_fault_handler_with_buffering n fault_va v = Inl Panic"

section \<open>Dispatch of a fault\<close>

definition count_fault :: "u32 \<Rightarrow> settings \<Rightarrow> settings result" where
  "count_fault fault_va g =
     (if last_fault_va g = fault_va then
        (let g = g\<lparr>num_repeated_fault := num_repeated_fault g + 1\<rparr> in
         if num_repeated_fault g = 3 then Inl Panic else Inr (g\<lparr>last_fault_va := fault_va\<rparr>))
      else Inr (g\<lparr>num_repeated_fault := 0, last_fault_va := fault_va\<rparr>))"

text \<open>\<open>tf_cs\<close> is the saved code segment and \<open>fault_va\<close> what \<^verbatim>\<open>rcr2()\<close> returns.\<close>

definition fault_handler :: "u16 \<Rightarrow> u32 \<Rightarrow> nat \<Rightarrow> settings \<Rightarrow> vm \<Rightarrow> (settings \<times> vm) result" where
  "fault_handler tf_cs fault_va n g v =
     (let userTrap = (tf_cs AND 3 = 3) in
      andthen (count_fault fault_va g) (\<lambda>g.
        if \<not> userTrap \<and> fault_va < KERNEL_STACK_TOP - KERNEL_STACK_SIZE \<and> USER_LIMIT \<le> fault_va
        then Inl Panic
        else if userTrap \<and> USTACKTOP \<le> fault_va then Inl Panic
        else
          andthen (table_read (edir n v) (PDX fault_va) (vmem v)) (\<lambda>pde.
            if pde AND PERM_PRESENT \<noteq> PERM_PRESENT then
              andthen
                (table_fault_handler n fault_va
                  (on_env n (\<lambda>e. e\<lparr>tableFaultsCounter := tableFaultsCounter e + 1\<rparr>) v))
                (\<lambda>v. Inr (g, v))
            else
              andthen (pt_get_page_permissions (edir n v) fault_va (vmem v)) (\<lambda>perms.
                if perms AND PERM_PRESENT \<noteq> 0 then Inl Panic
                else
                  (let v = on_env n (\<lambda>e. e\<lparr>pageFaultsCounter := pageFaultsCounter e + 1\<rparr>) v in
                   andthen
                     (if isBufferingEnabled g \<noteq> 0 then page_fault_handler_with_buffering n fault_va v
                      else page_fault_handler n fault_va v)
                     (\<lambda>v. Inr (g, v)))))))"

section \<open>Time stamps\<close>

definition stamp_entry :: "nat \<Rightarrow> nat \<Rightarrow> vm \<Rightarrow> vm result" where
  "stamp_entry n i v =
     andthen (ws_read (of_nat i) (venv v n)) (\<lambda>w.
       if ws_empty w = 1 then Inr v
       else
         andthen (pt_get_page_permissions (edir n v) (ws_va w) (vmem v)) (\<lambda>perm.
           if perm AND PERM_USED \<noteq> 0 then
             andthen (on_env_res n (ws_update (of_nat i)
                 (\<lambda>w. w\<lparr>ws_time_stamp := drop_bit 2 (ws_time_stamp w) OR 0x80000000\<rparr>)) v)
               (on_mem (pt_set_page_permissions (edir n v) (ws_va w) 0 PERM_USED))
           else
             on_env_res n (ws_update (of_nat i)
                 (\<lambda>w. w\<lparr>ws_time_stamp := drop_bit 2 (ws_time_stamp w)\<rparr>)) v))"

definition stamp_table :: "nat \<Rightarrow> nat \<Rightarrow> vm \<Rightarrow> vm" where
  "stamp_table n t v =
     (let e = venv v n; w = ptr_tws e ! t in
      if ws_empty w = 1 then v
      else if pd_is_table_used (edir n v) (ws_va w) (vmem v) \<noteq> 0 then
        set_mem
          (on_env n (tws_update t (\<lambda>w. w\<lparr>ws_time_stamp := drop_bit 2 (ws_time_stamp w) OR 0x80000000\<rparr>)) v)
          (pd_set_table_unused (edir n v) (ws_va w) (vmem v))
      else on_env n (tws_update t (\<lambda>w. w\<lparr>ws_time_stamp := drop_bit 2 (ws_time_stamp w)\<rparr>)) v)"

definition update_WS_time_stamps :: "nat option \<Rightarrow> vm \<Rightarrow> vm result" where
  "update_WS_time_stamps curenv v =
     (case curenv of
        None \<Rightarrow> Inr v
      | Some n \<Rightarrow>
          andthen (for_each (stamp_entry n) [0..<unat (page_WS_max_size (venv v n))] v)
            (\<lambda>v. Inr (fold (stamp_table n) [0..<TWS_MAX_SIZE] v)))"

section \<open>The clock as second chance\<close>

text \<open>
  The textbook algorithm: the entries in the order of the hand, the first one without the used
  bit is the victim, or the entry at the hand when all are used.
\<close>

definition clock_order :: "nat \<Rightarrow> nat \<Rightarrow> nat list" where
  "clock_order h m = [h..<m] @ [0..<h]"

definition clock_victim :: "(nat \<Rightarrow> bool) \<Rightarrow> nat \<Rightarrow> nat \<Rightarrow> nat" where
  "clock_victim u h m = (case dropWhile u (clock_order h m) of [] \<Rightarrow> h | i # _ \<Rightarrow> i)"

definition clock_passed :: "(nat \<Rightarrow> bool) \<Rightarrow> nat \<Rightarrow> nat \<Rightarrow> nat list" where
  "clock_passed u h m = takeWhile u (clock_order h m)"

text \<open>Page \<open>i\<close> of the working set, its entry in table \<open>tp i\<close>, and its used bit.\<close>

definition ws_page :: "nat \<Rightarrow> vm \<Rightarrow> nat \<Rightarrow> u32" where
  "ws_page n v i = ROUNDDOWN (ws_va (ptr_pageWorkingSet (venv v n) ! i)) PAGE_SIZE"

definition ws_entry :: "nat \<Rightarrow> (nat \<Rightarrow> u32) \<Rightarrow> vm \<Rightarrow> nat \<Rightarrow> u32" where
  "ws_entry n tp v i = tables (vmem v) (tp i) (PTX (ws_page n v i))"

definition page_used :: "nat \<Rightarrow> (nat \<Rightarrow> u32) \<Rightarrow> vm \<Rightarrow> nat \<Rightarrow> bool" where
  "page_used n tp v i \<longleftrightarrow> ws_entry n tp v i AND PERM_USED = PERM_USED"

definition clear_used :: "nat \<Rightarrow> (nat \<Rightarrow> u32) \<Rightarrow> nat \<Rightarrow> vm \<Rightarrow> vm" where
  "clear_used n tp i v =
     set_mem v (set_entry (tp i) (PTX (ws_page n v i)) (ws_entry n tp v i AND NOT PERM_USED) (vmem v))"

text \<open>Every page of the working set has its table, an entry of its own there, and a frame.\<close>

definition ws_mapped :: "nat \<Rightarrow> (nat \<Rightarrow> u32) \<Rightarrow> vm \<Rightarrow> bool" where
  "ws_mapped n tp v \<longleftrightarrow>
     (let m = unat (page_WS_max_size (venv v n)) in
      length (ptr_pageWorkingSet (venv v n)) = m \<and>
      (\<forall>i<m. table_at (edir n v) (ws_page n v i) (tp i) (vmem v) \<and>
         ws_entry n tp v i AND PERM_PRESENT = PERM_PRESENT \<and>
         unat (PPN (ws_entry n tp v i)) < number_of_frames (vmem v)) \<and>
      (\<forall>i<m. \<forall>j<m. tp i = tp j \<and> PTX (ws_page n v i) = PTX (ws_page n v j) \<longrightarrow> i = j))"

lemma clear_used_simps [simp]:
  "venv (clear_used n tp i v) = venv v"
  "edir k (clear_used n tp i v) = edir k v"
  "ws_page n (clear_used n tp i v) = ws_page n v"
  "number_of_frames (vmem (clear_used n tp i v)) = number_of_frames (vmem v)"
  by (simp_all add: clear_used_def edir_def ws_page_def fun_eq_iff)

lemma clear_used_entry:
  assumes "ws_mapped n tp v" and "i < unat (page_WS_max_size (venv v n))"
    and "j < unat (page_WS_max_size (venv v n))"
  shows "ws_entry n tp (clear_used n tp i v) j =
           (if j = i then ws_entry n tp v i AND NOT PERM_USED else ws_entry n tp v j)"
  using assms by (auto simp: ws_entry_def clear_used_def ws_mapped_def Let_def ws_page_def)

lemma PPN_clear_perm: "perm < 4096 \<Longrightarrow> PPN (e AND NOT perm) = PPN e"
  unfolding PPN_def
  by (rule bit_eqI) (auto simp: bit_simps add.commute [of 12] perm_bits dest: bit_imp_le_length)

lemma used_bit: "PPN (e AND NOT PERM_USED) = PPN e"
  "(e AND NOT PERM_USED) AND PERM_PRESENT = e AND PERM_PRESENT"
  "\<not> ((e AND NOT PERM_USED) AND PERM_USED = PERM_USED)"
proof -
  have u: "PERM_USED = push_bit 5 1"
    by (simp add: PERM_USED_def)
  have pm: "PERM_PRESENT = 1"
    by (simp add: PERM_PRESENT_def)
  show "PPN (e AND NOT PERM_USED) = PPN e"
    by (rule PPN_clear_perm) (simp add: PERM_USED_def)
  show "(e AND NOT PERM_USED) AND PERM_PRESENT = e AND PERM_PRESENT"
    unfolding u pm by (rule bit_eqI) (auto simp: bit_simps)
  have "(e AND NOT PERM_USED) AND PERM_USED = 0"
    by (rule bit_eqI) (auto simp: bit_simps)
  then show "\<not> ((e AND NOT PERM_USED) AND PERM_USED = PERM_USED)"
    by (simp add: PERM_USED_def)
qed

lemma clear_used_mapped:
  assumes w: "ws_mapped n tp v" and i: "i < unat (page_WS_max_size (venv v n))"
  shows "ws_mapped n tp (clear_used n tp i v)"
proof -
  let ?v = "clear_used n tp i v"
  have "table_at (edir n v) (ws_page n v j) (tp j) (vmem ?v)"
    if "j < unat (page_WS_max_size (venv v n))" for j
  proof -
    have "tp i \<noteq> edir n v"
      using w i by (auto simp: ws_mapped_def table_at_def Let_def)
    then show ?thesis
      using w that unfolding clear_used_def ws_mapped_def Let_def
      by (auto intro: table_at_set_entry)
  qed
  then show ?thesis
    using w unfolding ws_mapped_def Let_def
    by (simp add: clear_used_entry [OF w i] used_bit)
qed

lemma clear_used_bits:
  assumes "ws_mapped n tp v" and "i < unat (page_WS_max_size (venv v n))"
    and "j < unat (page_WS_max_size (venv v n))"
  shows "page_used n tp (clear_used n tp i v) j \<longleftrightarrow> j \<noteq> i \<and> page_used n tp v j"
  by (simp add: page_used_def clear_used_entry [OF assms] used_bit)

lemma and_0xFFF: "(e AND 0xFFF) AND PERM_USED = e AND PERM_USED"
  "(e AND 0xFFF) AND PERM_MODIFIED = e AND PERM_MODIFIED"
  by (simp_all add: perm_defs and.assoc)

lemma unat_index: "i < unat (m :: u32) \<Longrightarrow> unat (of_nat i :: u32) = i"
  by (metis le_unat_uoi less_or_eq_imp_le)

lemma ws_lookup:
  assumes w: "ws_mapped n tp v" and i: "i < unat (page_WS_max_size (venv v n))"
  shows "env_page_ws_get_virtual_address (of_nat i) (venv v n) = Inr (ws_page n v i)"
    and "get_frame_info (edir n v) (ws_page n v i) (vmem v) =
           Inr (Some (unat (PPN (ws_entry n tp v i))), tp i)"
    and "pt_get_page_permissions (edir n v) (ws_page n v i) (vmem v) = Inr (ws_entry n tp v i AND 0xFFF)"
    and "on_mem (pt_set_page_permissions (edir n v) (ws_page n v i) 0 PERM_USED) v = Inr (clear_used n tp i v)"
proof -
  have at: "table_at (edir n v) (ws_page n v i) (tp i) (vmem v)"
    and pr: "ws_entry n tp v i AND PERM_PRESENT = PERM_PRESENT"
    and lt: "unat (PPN (ws_entry n tp v i)) < number_of_frames (vmem v)"
    and len: "length (ptr_pageWorkingSet (venv v n)) = unat (page_WS_max_size (venv v n))"
    using w i by (simp_all add: ws_mapped_def Let_def)
  show "env_page_ws_get_virtual_address (of_nat i) (venv v n) = Inr (ws_page n v i)"
    using i len
    by (simp add: env_page_ws_get_virtual_address_def ws_read_def unat_index [OF i] word_less_nat_alt
        ws_page_def)
  show "get_frame_info (edir n v) (ws_page n v i) (vmem v) =
           Inr (Some (unat (PPN (ws_entry n tp v i))), tp i)"
    using present_nonzero [OF pr] lt by (simp add: get_frame_info_at [OF at] ws_entry_def)
  show "pt_get_page_permissions (edir n v) (ws_page n v i) (vmem v) = Inr (ws_entry n tp v i AND 0xFFF)"
    by (simp add: pt_get_page_permissions_at [OF at] ws_entry_def)
  have "PERM_USED \<noteq> 0"
    by (simp add: PERM_USED_def)
  then show "on_mem (pt_set_page_permissions (edir n v) (ws_page n v i) 0 PERM_USED) v = Inr (clear_used n tp i v)"
    by (simp add: on_mem_def pt_clear_permissions_at [OF at] clear_used_def ws_entry_def set_mem_def)
qed

definition evict_entry :: "nat \<Rightarrow> (nat \<Rightarrow> u32) \<Rightarrow> u32 \<Rightarrow> nat \<Rightarrow> vm \<Rightarrow> vm result" where
  "evict_entry n tp fault_va i v =
     clock_evict n fault_va i (ws_page n v i) (Some (unat (PPN (ws_entry n tp v i))))
       (ws_entry n tp v i AND 0xFFF) v"

lemma clock_scan_step:
  assumes w: "ws_mapped n tp v" and i: "i < unat (page_WS_max_size (venv v n))"
  shows "clock_scan n fault_va (i # is) v =
    (if page_used n tp v i then clock_scan n fault_va is (clear_used n tp i v)
     else andthen (evict_entry n tp fault_va i v) (\<lambda>v. Inr (True, v)))"
  by (simp add: ws_lookup [OF w i] page_used_def and_0xFFF evict_entry_def)

lemma fold_clear_facts:
  assumes "ws_mapped n tp v" and "\<forall>i\<in>set is. i < unat (page_WS_max_size (venv v n))"
  shows "ws_mapped n tp (fold (clear_used n tp) is v)"
    and "venv (fold (clear_used n tp) is v) = venv v"
    and "\<forall>j<unat (page_WS_max_size (venv v n)).
           page_used n tp (fold (clear_used n tp) is v) j \<longleftrightarrow> j \<notin> set is \<and> page_used n tp v j"
  using assms
proof (induction "is" arbitrary: v)
  case (Cons i "is")
  {
    case 1
    then show ?case
      using Cons.IH(1) [of "clear_used n tp i v"] by (simp add: clear_used_mapped)
  next
    case 2
    then show ?case
      using Cons.IH(2) [of "clear_used n tp i v"] by (simp add: clear_used_mapped)
  next
    case 3
    then show ?case
      using Cons.IH(3) [of "clear_used n tp i v"]
      by (simp add: clear_used_mapped clear_used_bits) blast
  }
qed simp_all

lemma clock_scan_second_chance:
  assumes "ws_mapped n tp v" and "\<forall>i\<in>set is. i < unat (page_WS_max_size (venv v n))" and "distinct is"
  shows "clock_scan n fault_va is v =
    (case dropWhile (page_used n tp v) is of
       [] \<Rightarrow> Inr (False, fold (clear_used n tp) is v)
     | i # _ \<Rightarrow> andthen (evict_entry n tp fault_va i
                  (fold (clear_used n tp) (takeWhile (page_used n tp v) is) v)) (\<lambda>v. Inr (True, v)))"
  using assms
proof (induction "is" arbitrary: v)
  case (Cons i "is")
  have w: "ws_mapped n tp v" and i: "i < unat (page_WS_max_size (venv v n))"
    using Cons.prems by simp_all
  show ?case
  proof (cases "page_used n tp v i")
    case True
    let ?v = "clear_used n tp i v"
    have same: "\<forall>j\<in>set is. page_used n tp ?v j = page_used n tp v j"
      using Cons.prems by (auto simp: clear_used_bits [OF w i])
    have d: "dropWhile (page_used n tp ?v) is = dropWhile (page_used n tp v) is"
      and t: "takeWhile (page_used n tp ?v) is = takeWhile (page_used n tp v) is"
      using same by (auto intro: dropWhile_cong takeWhile_cong)
    show ?thesis
      using Cons.IH [of ?v] Cons.prems clear_used_mapped [OF w i] True
      by (simp add: clock_scan_step [OF w i] d t del: clock_scan.simps cong: list.case_cong)
  next
    case False
    then show ?thesis
      by (simp add: clock_scan_step [OF w i] del: clock_scan.simps)
  qed
qed simp

lemma clock_scan_append:
  "clock_scan n fault_va (is @ js) v =
     andthen (clock_scan n fault_va is v) (\<lambda>(flag, v).
       if flag then Inr (True, v) else clock_scan n fault_va js v)"
proof (induction "is" arbitrary: v)
  case (Cons i "is")
  show ?case
    by (auto simp: andthen_def Cons split: sum.split prod.split)
qed simp

lemma clock_order_props:
  assumes "h < m"
  shows "set (clock_order h m) = {..<m}" and "distinct (clock_order h m)"
    and "clock_order h m = h # [Suc h..<m] @ [0..<h]"
  using assms by (auto simp: clock_order_def upt_conv_Cons)

lemma clock_rounds_second_chance:
  assumes w: "ws_mapped n tp v" and m: "m = unat (page_WS_max_size (venv v n))"
    and h: "h = unat (page_last_WS_index (venv v n))" "h < m"
  shows "clock_rounds (Suc (Suc k)) n fault_va v =
    evict_entry n tp fault_va (clock_victim (page_used n tp v) h m)
      (fold (clear_used n tp) (clock_passed (page_used n tp v) h m) v)"
proof -
  note ord = clock_order_props [OF h(2)]
  let ?w = "fold (clear_used n tp) (clock_order h m) v"
  have in_m: "\<forall>i\<in>set (clock_order h m). i < unat (page_WS_max_size (venv v n))"
    using ord(1) by (simp add: m)
  have sub: "set [h..<m] \<subseteq> {..<m}" "set [0..<h] \<subseteq> {..<m}"
    using h(2) by auto
  have h_same: "unat (page_last_WS_index (venv (fold (clear_used n tp) is v) n)) = h"
    if "set is \<subseteq> {..<m}" for "is"
    using that h(1) m by (subst fold_clear_facts(2) [OF w]) auto
  have round: "clock_rounds (Suc k) n fault_va v' =
      andthen (clock_scan n fault_va (clock_order h m) v') (\<lambda>(found, v).
        if found then Inr v else clock_rounds k n fault_va v)"
    if w': "ws_mapped n tp v'" and v': "venv v' = venv v" for k v'
  proof -
    have idx: "unat (page_last_WS_index (venv (fold (clear_used n tp) [h..<m] v') n)) = h"
      using sub h(1) m v' by (subst fold_clear_facts(2) [OF w']) auto
    have r: "\<forall>i\<in>set [h..<m]. i < unat (page_WS_max_size (venv v' n))"
      by (simp add: v' m)
    show ?thesis
      unfolding clock_order_def clock_scan_append clock_rounds.simps(2)
      using clock_scan_second_chance [OF w' r, of fault_va]
      by (simp add: v' h(1) [symmetric] m [symmetric])
        (auto simp: andthen_def idx split: list.split sum.split prod.split)
  qed
  note scan = clock_scan_second_chance [OF w in_m ord(2), of fault_va]
  show ?thesis
  proof (cases "dropWhile (page_used n tp v) (clock_order h m)")
    case (Cons i rest)
    then show ?thesis
      using scan round [OF w refl, of "Suc k"]
      by (simp add: clock_victim_def clock_passed_def andthen_assoc del: clock_rounds.simps)
        (simp add: andthen_def split: sum.split del: clock_rounds.simps)
  next
    case Nil
    then have all: "\<forall>j\<in>set (clock_order h m). page_used n tp v j"
      by (simp add: dropWhile_eq_Nil_conv)
    then have tw: "takeWhile (page_used n tp v) (clock_order h m) = clock_order h m"
      by (simp add: takeWhile_eq_all_conv)
    note f = fold_clear_facts [OF w in_m]
    have cleared: "\<not> page_used n tp ?w h"
      using f(3) h(2) m ord(1) by auto
    have in_m': "\<forall>i\<in>set (clock_order h m). i < unat (page_WS_max_size (venv ?w n))"
      using in_m f(2) by simp
    have "clock_scan n fault_va (clock_order h m) ?w =
        andthen (evict_entry n tp fault_va h ?w) (\<lambda>v. Inr (True, v))"
      using clock_scan_second_chance [OF f(1) in_m' ord(2), of fault_va] cleared by (simp add: ord(3))
    moreover have "clock_victim (page_used n tp v) h m = h"
      by (simp only: clock_victim_def Nil list.case)
    moreover have "clock_passed (page_used n tp v) h m = clock_order h m"
      by (simp only: clock_passed_def tw)
    moreover have "clock_scan n fault_va (clock_order h m) v = Inr (False, ?w)"
      by (simp only: scan Nil list.case)
    ultimately show ?thesis
      using round [OF w refl, of "Suc k"] round [OF f(1,2), of k]
      by (simp add: andthen_assoc del: clock_rounds.simps)
        (simp add: andthen_def split: sum.split del: clock_rounds.simps)
  qed
qed

section \<open>Placement of a page\<close>

lemma round_page_parts:
  "PDX (ROUNDDOWN a PAGE_SIZE) = PDX a" "PTX (ROUNDDOWN a PAGE_SIZE) = PTX a"
  "ROUNDDOWN (ROUNDDOWN a PAGE_SIZE) PAGE_SIZE = ROUNDDOWN a PAGE_SIZE"
proof -
  have u: "unat (ROUNDDOWN a PAGE_SIZE) = unat a div 4096 * 4096"
    by (simp add: ROUNDDOWN_unat)
  have "unat a div 4096 * 4096 div 4194304 = unat a div 4096 * 4096 div (4096 * 1024)"
    by simp
  also have "\<dots> = unat a div 4096 div 1024"
    by (simp only: div_mult2_eq nonzero_mult_div_cancel_right)
  also have "\<dots> = unat a div 4194304"
    by (simp flip: div_mult2_eq)
  finally show "PDX (ROUNDDOWN a PAGE_SIZE) = PDX a"
    by (simp only: u32_eq_iff unat_PDX u)
  show "PTX (ROUNDDOWN a PAGE_SIZE) = PTX a"
    by (simp add: u32_eq_iff unat_PTX u)
  show "ROUNDDOWN (ROUNDDOWN a PAGE_SIZE) PAGE_SIZE = ROUNDDOWN a PAGE_SIZE"
    by (rule ROUNDDOWN_idem) (simp add: u)
qed

lemma table_at_round:
  assumes "fva < USER_TOP"
  shows "table_at dir (ROUNDDOWN fva PAGE_SIZE) q s = table_at dir fva q s"
proof -
  have "ROUNDDOWN fva PAGE_SIZE < USER_TOP"
    using ROUNDDOWN_le [of fva PAGE_SIZE] assms by simp
  then show ?thesis
    using assms
    by (simp add: table_at_def get_page_table_def round_page_parts table_address_def
        CHECK_IF_KERNEL_ADDRESS_def not_le [symmetric])
qed

definition not_in_page_file :: "nat \<Rightarrow> u32 \<Rightarrow> vm \<Rightarrow> bool" where
  "not_in_page_file n va v \<longleftrightarrow>
     disk_env_pgdir (venv v n) = 0 \<or> (\<exists>p. disk_table_at n va p v \<and> tables (vmem v) p (PTX va) = 0)"

lemma pf_read_env_page_round: "pf_read_env_page n (ROUNDDOWN a PAGE_SIZE) v = pf_read_env_page n a v"
  by (simp add: pf_read_env_page_def round_page_parts)

lemma not_in_page_file_read:
  "not_in_page_file n (ROUNDDOWN a PAGE_SIZE) v \<Longrightarrow>
   pf_read_env_page n a v = Inr (E_PAGE_NOT_EXIST_IN_PF, v)"
  using pf_read_env_page_absent [of n "ROUNDDOWN a PAGE_SIZE" _ v]
  by (subst pf_read_env_page_round [symmetric])
    (auto simp: not_in_page_file_def round_page_parts, simp add: pf_read_env_page_def)

text \<open>
  A full environment view for a placement: the table of the page exists at \<open>q\<close> with no entry
  for it, and the first free frame backs neither that table nor the disk table.
\<close>

definition place_ready :: "nat \<Rightarrow> u32 \<Rightarrow> u32 \<Rightarrow> nat \<Rightarrow> nat list \<Rightarrow> vm \<Rightarrow> bool" where
  "place_ready n fva q f fl v \<longleftrightarrow>
     (let e = venv v n; s = vmem v in
      table_at (edir n v) fva q s \<and> tables s q (PTX fva) = 0 \<and>
      free_frame_list s = f # fl \<and> isBuffered s f = 0 \<and> f < 1048576 \<and> f < number_of_frames s \<and>
      pde_frame (edir n v) fva s \<noteq> f \<and> fva < USER_TOP \<and>
      length (ptr_pageWorkingSet e) = unat (page_WS_max_size e) \<and>
      page_last_WS_index e < page_WS_max_size e)"

definition place_entry :: "nat \<Rightarrow> u32" where
  "place_entry f = mapped_entry f (PERM_MODIFIED OR PERM_WRITEABLE OR PERM_USER)"

definition placed_mem :: "u32 \<Rightarrow> u32 \<Rightarrow> nat \<Rightarrow> nat list \<Rightarrow> kmem \<Rightarrow> kmem" where
  "placed_mem fva q f fl s =
     (let s = initialize_frame_info f (s\<lparr>free_frame_list := fl\<rparr>) in
      set_entry q (PTX fva) (place_entry f) (s\<lparr>references := (references s)(f := references s f + 1)\<rparr>))"

lemma placed_mem_simps:
  "tables (placed_mem fva q f fl s) = (tables s)(q := (tables s q)(PTX fva := place_entry f))"
  "free_frame_list (placed_mem fva q f fl s) = fl"
  "references (placed_mem fva q f fl s) = (references s)(f := 1)"
  "frame_va (placed_mem fva q f fl s) = (frame_va s)(f := 0)"
  "number_of_frames (placed_mem fva q f fl s) = number_of_frames s"
  "env_page_directory (placed_mem fva q f fl s) = env_page_directory s"
  "ram (placed_mem fva q f fl s) = ram s"
  by (simp_all add: placed_mem_def initialize_frame_info_def Let_def)

lemma place_maps:
  assumes r: "place_ready n fva q f fl v"
  shows "allocate_frame (vmem v) = Inr (f, initialize_frame_info f ((vmem v)\<lparr>free_frame_list := fl\<rparr>))"
    and "map_frame (edir n v) f fva (PERM_MODIFIED OR PERM_WRITEABLE OR PERM_USER)
           (initialize_frame_info f ((vmem v)\<lparr>free_frame_list := fl\<rparr>)) = Inr (placed_mem fva q f fl (vmem v))"
    and "table_at (edir n v) fva q (placed_mem fva q f fl (vmem v))"
proof -
  let ?s = "initialize_frame_info f ((vmem v)\<lparr>free_frame_list := fl\<rparr>)"
  have at: "table_at (edir n v) fva q (vmem v)" and pf: "pde_frame (edir n v) fva (vmem v) \<noteq> f"
    and z: "tables (vmem v) q (PTX fva) = 0"
    using r by (simp_all add: place_ready_def Let_def)
  show "allocate_frame (vmem v) = Inr (f, ?s)"
    using r by (intro allocate_frame_ok) (simp_all add: place_ready_def Let_def)
  have at1: "table_at (edir n v) fva q ?s"
    using at pf by (subst table_at_cong [of _ _ _ "vmem v"]) (simp_all add: initialize_frame_info_def)
  show "map_frame (edir n v) f fva (PERM_MODIFIED OR PERM_WRITEABLE OR PERM_USER) ?s =
      Inr (placed_mem fva q f fl (vmem v))"
    unfolding map_frame_def
    using z by (subst map_frame_fresh [OF at1]) (simp_all add: placed_mem_def place_entry_def
        initialize_frame_info_def)
  have "q \<noteq> edir n v"
    using at by (simp add: table_at_def)
  then show "table_at (edir n v) fva q (placed_mem fva q f fl (vmem v))"
    using at pf by (subst table_at_cong [of _ _ _ "vmem v"]) (simp_all add: placed_mem_simps)
qed

lemma set_entry_ws:
  assumes "length (ptr_pageWorkingSet e) = unat (page_WS_max_size e)"
    and "i < page_WS_max_size e" and "fva < USER_TOP"
  shows "env_page_ws_set_entry i fva e =
    Inr (e\<lparr>ptr_pageWorkingSet := (ptr_pageWorkingSet e)[unat i :=
      (ptr_pageWorkingSet e ! unat i)\<lparr>ws_va := ROUNDDOWN fva PAGE_SIZE, ws_empty := 0,
         ws_time_stamp := 0x80000000\<rparr>]\<rparr>)"
  using assms by (simp add: env_page_ws_set_entry_def ws_update_def word_less_nat_alt)

text \<open>The working set after a placement: the page is at the hand, which moves on.\<close>

definition placed_env :: "u32 \<Rightarrow> env \<Rightarrow> env" where
  "placed_env fva e =
     (let i = page_last_WS_index e in
      e\<lparr>ptr_pageWorkingSet := (ptr_pageWorkingSet e)[unat i :=
           (ptr_pageWorkingSet e ! unat i)\<lparr>ws_va := ROUNDDOWN fva PAGE_SIZE, ws_empty := 0,
              ws_time_stamp := 0x80000000\<rparr>],
        page_last_WS_index := (if i + 1 = page_WS_max_size e then 0 else i + 1)\<rparr>)"

lemma place_in_ws:
  assumes "length (ptr_pageWorkingSet (venv w n)) = unat (page_WS_max_size (venv w n))"
    and "page_last_WS_index (venv w n) < page_WS_max_size (venv w n)" and "fva < USER_TOP"
  shows "\<exists>w'. ws_place n (page_last_WS_index (venv w n)) fva w = Inr w' \<and>
     (if page_last_WS_index (venv w' n) = page_WS_max_size (venv w' n)
      then on_env n (\<lambda>e. e\<lparr>page_last_WS_index := 0\<rparr>) w' else w') = on_env n (placed_env fva) w"
  using set_entry_ws [OF assms]
  by (simp add: ws_place_def on_env_res_def placed_env_def on_env_def Let_def)

lemma place_page_new:
  assumes r: "place_ready n fva q f fl v" and g: "user_growable fva"
    and ab: "not_in_page_file n (ROUNDDOWN fva PAGE_SIZE) (set_mem v (placed_mem fva q f fl (vmem v)))"
  shows "place_page n fva v = Inr (on_env n (placed_env fva) (set_mem v (placed_mem fva q f fl (vmem v))))"
proof -
  let ?w = "set_mem v (placed_mem fva q f fl (vmem v))"
  have ws: "length (ptr_pageWorkingSet (venv ?w n)) = unat (page_WS_max_size (venv ?w n))"
    "page_last_WS_index (venv ?w n) < page_WS_max_size (venv ?w n)" "fva < USER_TOP"
    using r by (simp_all add: place_ready_def Let_def)
  obtain w' where "ws_place n (page_last_WS_index (venv ?w n)) fva ?w = Inr w'"
    "(if page_last_WS_index (venv w' n) = page_WS_max_size (venv w' n)
      then on_env n (\<lambda>e. e\<lparr>page_last_WS_index := 0\<rparr>) w' else w') = on_env n (placed_env fva) ?w"
    using place_in_ws [OF ws] by blast
  then show ?thesis
    using not_in_page_file_read [OF ab] g
    by (simp add: place_page_def place_maps [OF r] E_PAGE_NOT_EXIST_IN_PF_def cong: if_cong)
qed

text \<open>The page-file tables of the page survive the placement of frame \<open>f\<close> in table \<open>q\<close>.\<close>

definition disk_apart :: "nat \<Rightarrow> u32 \<Rightarrow> u32 \<Rightarrow> nat \<Rightarrow> vm \<Rightarrow> bool" where
  "disk_apart n va q f v \<longleftrightarrow>
     disk_env_pgdir (venv v n) \<noteq> q \<and>
     unat (PPN (tables (vmem v) (disk_env_pgdir (venv v n)) (PDX va))) \<noteq> f"

lemma disk_table_at_placed:
  assumes "disk_apart n va q f v"
  shows "disk_table_at n va p (set_mem v (placed_mem fva q f fl (vmem v))) = disk_table_at n va p v"
  using assms by (auto simp: disk_table_at_def disk_apart_def placed_mem_simps Let_def)

lemma not_in_page_file_placed:
  assumes "disk_env_pgdir (venv v n) = 0 \<or>
      (\<exists>p. disk_table_at n va p v \<and> disk_apart n va q f v \<and> p \<noteq> q \<and> tables (vmem v) p (PTX va) = 0)"
  shows "not_in_page_file n va (set_mem v (placed_mem fva q f fl (vmem v)))"
  using assms
proof
  assume "\<exists>p. disk_table_at n va p v \<and> disk_apart n va q f v \<and> p \<noteq> q \<and> tables (vmem v) p (PTX va) = 0"
  then obtain p where p: "disk_table_at n va p v" "disk_apart n va q f v" "p \<noteq> q"
    "tables (vmem v) p (PTX va) = 0"
    by blast
  then have "tables (placed_mem fva q f fl (vmem v)) p (PTX va) = 0"
    by (simp add: placed_mem_simps)
  then show ?thesis
    using p(1) disk_table_at_placed [OF p(2)] by (auto simp: not_in_page_file_def)
qed (simp add: not_in_page_file_def)

lemma place_page_illegal:
  assumes r: "place_ready n fva q f fl v" and g: "\<not> user_growable fva" and nf: "f \<notin> set fl"
    and ab: "not_in_page_file n (ROUNDDOWN fva PAGE_SIZE) (set_mem v (placed_mem fva q f fl (vmem v)))"
  shows "place_page n fva v = Inl Panic"
proof -
  let ?s = "placed_mem fva q f fl (vmem v)"
  have f: "f < 1048576" "f < number_of_frames (vmem v)"
    using r by (simp_all add: place_ready_def Let_def)
  have perm: "(PERM_MODIFIED OR PERM_WRITEABLE OR PERM_USER) < 4096"
    by (simp add: perm_defs)
  note e = mapped_entry_parts [OF f(1) perm]
  have "get_frame_info (edir n v) fva ?s = Inr (Some f, q)"
    using f(2) e by (simp add: get_frame_info_at [OF place_maps(3) [OF r]] placed_mem_simps place_entry_def)
  then have "\<exists>s'. unmap_frame (edir n v) fva ?s = Inr s'"
    using nf place_maps(3) [OF r]
    by (simp add: unmap_frame_def decrement_references_def placed_mem_simps free_frame_def
        list_insert_head_def initialize_frame_info_def table_at_def Let_def)
  then obtain s' where s': "unmap_frame (edir n v) fva ?s = Inr s'"
    by blast
  have ed: "edir n (set_mem v ?s) = edir n v"
    by (simp add: edir_def placed_mem_simps)
  show ?thesis
    using not_in_page_file_read [OF ab] g
    by (simp add: place_page_def place_maps [OF r] E_PAGE_NOT_EXIST_IN_PF_def on_mem_def ed s'
        cong: if_cong)
qed

lemma place_page_in:
  assumes r: "place_ready n fva q f fl v"
    and pf: "disk_table_at n (ROUNDDOWN fva PAGE_SIZE) p v" "disk_apart n (ROUNDDOWN fva PAGE_SIZE) q f v" "p \<noteq> q"
    and d: "tables (vmem v) p (PTX fva) = dfn" "dfn \<noteq> 0" and ok: "disk_stop (vdisk v) = None"
  shows "\<exists>v'. place_page n fva v = Inr v' \<and>
           (\<forall>j<4096. ram (vmem v') f j = disk_page v dfn j) \<and>
           tables (vmem v') q (PTX fva) = (place_entry f OR PERM_USED) AND NOT PERM_MODIFIED \<and>
           vdisk v' = vdisk v \<and> free_frame_list (vmem v') = fl \<and>
           venv v' n = placed_env fva ((venv v n)\<lparr>nPageIn := nPageIn (venv v n) + 1\<rparr>)"
proof -
  let ?pg = "ROUNDDOWN fva PAGE_SIZE"
  let ?w = "set_mem v (placed_mem fva q f fl (vmem v))"
  have f: "f < 1048576" and user: "fva < USER_TOP"
    using r by (simp_all add: place_ready_def Let_def)
  have perm: "(PERM_MODIFIED OR PERM_WRITEABLE OR PERM_USER) < 4096"
    by (simp add: perm_defs)
  note e = mapped_entry_parts [OF f perm, folded place_entry_def]
  have at: "disk_table_at n ?pg p ?w"
    using pf by (simp add: disk_table_at_placed)
  have dfn: "tables (vmem ?w) p (PTX ?pg) = dfn"
    using d pf(3) by (simp add: placed_mem_simps round_page_parts)
  have q: "table_at (edir n ?w) ?pg q (vmem ?w)"
    using place_maps(3) [OF r] user by (simp add: table_at_round edir_def placed_mem_simps)
  have en: "tables (vmem ?w) q (PTX ?pg) = place_entry f"
    by (simp add: placed_mem_simps round_page_parts)
  let ?r = "on_env n (\<lambda>e. e\<lparr>nPageIn := nPageIn e + 1\<rparr>) (set_mem ?w
      (set_entry q (PTX ?pg) ((place_entry f OR PERM_USED) AND NOT PERM_MODIFIED)
        ((vmem ?w)\<lparr>ram := (ram (vmem ?w))(f :=
            (\<lambda>j. if j < 4096 then disk_page ?w dfn j else ram (vmem ?w) f j))\<rparr>)))"
  have rd: "pf_read_env_page n fva ?w = Inr (0, ?r)"
    using pf_read_env_page_ok [OF at round_page_parts(3) dfn d(2) _ q en e(6), unfolded e(4)] ok
    by (simp add: pf_read_env_page_round)
  have ws: "length (ptr_pageWorkingSet (venv ?r n)) = unat (page_WS_max_size (venv ?r n))"
    "page_last_WS_index (venv ?r n) < page_WS_max_size (venv ?r n)"
    using r by (simp_all add: place_ready_def Let_def)
  obtain w' where w': "ws_place n (page_last_WS_index (venv ?r n)) fva ?r = Inr w'"
    "(if page_last_WS_index (venv w' n) = page_WS_max_size (venv w' n)
      then on_env n (\<lambda>e. e\<lparr>page_last_WS_index := 0\<rparr>) w' else w') = on_env n (placed_env fva) ?r"
    using place_in_ws [OF ws user] by blast
  have "place_page n fva v = Inr (on_env n (placed_env fva) ?r)"
    using w' by (simp add: place_page_def place_maps [OF r] rd cong: if_cong)
  moreover have "disk_page ?w dfn = disk_page v dfn"
    by (simp add: disk_page_def fun_eq_iff)
  ultimately show ?thesis
    by (simp add: placed_mem_simps round_page_parts)
qed

text \<open>A working set that is not full, and one that is.\<close>

lemma handler_places:
  assumes "ws_wf (venv v n)" and "ws_count (venv v n) < unat (page_WS_max_size (venv v n))"
  shows "page_fault_handler n fva v = place_page n fva v"
  using assms get_size_ok [OF assms(1)] unat_index [OF assms(2)]
  by (simp add: page_fault_handler_def word_less_nat_alt)

lemma handler_replaces:
  assumes "ws_wf (venv v n)" and "ws_count (venv v n) = unat (page_WS_max_size (venv v n))"
  shows "page_fault_handler n fva v = clock_rounds clock_fuel n fva v"
  using assms get_size_ok [OF assms(1)]
  by (simp add: page_fault_handler_def)

section \<open>Examples\<close>

text \<open>
  The environment of \<open>vm_example\<close> with one free entry, and with both entries in use: page 0
  referenced, page 1 not.
\<close>

definition vm_full :: vm where
  "vm_full = vm_example\<lparr>
     vmem := (vmem vm_example)\<lparr>tables :=
       (\<lambda>p i. if p = 0xF0200000 \<and> i = 2 then 0x14007
             else if p = 0xF6001000 \<and> i = 0 then 0x19027
             else if p = 0xF6001000 \<and> i = 1 then 0x1A007 else 0)\<rparr>,
     venv := (\<lambda>n. env_example\<lparr>page_last_WS_index := 0, ptr_pageWorkingSet :=
       [\<lparr>ws_va = 0x800000, ws_empty = 0, ws_time_stamp = 0, ws_sweeps_counter = 0\<rparr>,
        \<lparr>ws_va = 0x801000, ws_empty = 0, ws_time_stamp = 0, ws_sweeps_counter = 0\<rparr>]\<rparr>)\<rparr>"

lemma vm_full_mapped: "ws_mapped 0 (\<lambda>i. 0xF6001000) vm_full"
proof -
  have two: "(\<forall>i<2. Q i) \<longleftrightarrow> Q 0 \<and> Q (1 :: nat)" for Q
    by (auto simp: less_2_cases_iff)
  show ?thesis
    by (simp add: ws_mapped_def vm_full_def vm_example_def env_example_def kmem_example_def Let_def two
        ws_page_def ws_entry_def ROUNDDOWN_def layout_defs addr_defs table_at_def edir_def
        get_page_table_def table_read_def perm_defs table_address_def kheap_virtual_address_def
        to_frame_info_def CHECK_IF_KERNEL_ADDRESS_def)
qed

lemma vm_full_used: "page_used 0 (\<lambda>i. 0xF6001000) vm_full 0" "\<not> page_used 0 (\<lambda>i. 0xF6001000) vm_full 1"
  by (simp_all add: page_used_def ws_entry_def ws_page_def vm_full_def vm_example_def env_example_def
      kmem_example_def ROUNDDOWN_def layout_defs addr_defs perm_defs)

text \<open>A page of the user heap with its table at \<open>0xF6007000\<close>, and its disk frame 9.\<close>

definition vm_fault :: vm where
  "vm_fault = vm_example\<lparr>vmem := (vmem vm_example)\<lparr>
       tables := (\<lambda>p i. if p = 0xF0200000 \<and> i = 0x200 then 0x17007
                       else if p = 0xF6002000 \<and> i = 0x200 then 0x16001
                       else if p = 0xF6003000 \<and> i = 0 then 9 else 0),
       frame_va := (\<lambda>f. if f = 23 then 0xF6007000 else if f = 22 then 0xF6003000 else 0)\<rparr>\<rparr>"

lemma vm_fault_ready: "place_ready 0 0x80000010 0xF6007000 30 [31] vm_fault"
  by (simp add: place_ready_def vm_fault_def vm_example_def env_example_def kmem_example_def Let_def
      layout_defs addr_defs table_at_def edir_def get_page_table_def table_read_def perm_defs
      table_address_def kheap_virtual_address_def to_frame_info_def CHECK_IF_KERNEL_ADDRESS_def
      pde_frame_def)

lemma vm_fault_facts:
  "disk_table_at 0 (ROUNDDOWN 0x80000010 PAGE_SIZE) 0xF6003000 vm_fault"
  "disk_apart 0 (ROUNDDOWN 0x80000010 PAGE_SIZE) 0xF6007000 30 vm_fault"
  "ws_wf (venv vm_fault 0)" "ws_count (venv vm_fault 0) < unat (page_WS_max_size (venv vm_fault 0))"
  "tables (vmem vm_fault) 0xF6003000 (PTX 0x80000010) = 9" "disk_stop (vdisk vm_fault) = None"
  by (simp_all add: disk_table_at_def disk_apart_def vm_fault_def vm_example_def env_example_def
      kmem_example_def addr_defs CHECK_IF_KERNEL_ADDRESS_def layout_defs ROUNDDOWN_def
      ws_wf_def ws_count_def ws_used_def)

section \<open>Properties\<close>

text \<open>C14: On a full working set the fault handler is second-chance replacement: it clears the
  used bit of every page from the hand up to the victim, and evicts the first page in that
  circular order whose used bit is clear, or the page at the hand when every page was used. Two
  rounds of the loop are enough, so the loop ends.\<close>

theorem clock_is_second_chance:
  assumes "ws_mapped n tp v" and "m = unat (page_WS_max_size (venv v n))"
    and "ws_count (venv v n) = m" and "h = unat (page_last_WS_index (venv v n))" and "h < m"
  shows "page_fault_handler n fva v =
    evict_entry n tp fva (clock_victim (page_used n tp v) h m)
      (fold (clear_used n tp) (clock_passed (page_used n tp v) h m) v)"
proof -
  have "ws_wf (venv v n)"
    using assms(1) by (simp add: ws_mapped_def ws_wf_def Let_def)
  then show ?thesis
    using handler_replaces [of v n fva] assms(2,3)
      clock_rounds_second_chance [OF assms(1,2,4,5), of 0 fva]
    by (simp add: clock_fuel_def numeral_2_eq_2 del: clock_rounds.simps)
qed

theorem clock_is_second_chance_witness:
  "page_fault_handler 0 0x802000 vm_full =
     evict_entry 0 (\<lambda>i. 0xF6001000) 0x802000 1 (clear_used 0 (\<lambda>i. 0xF6001000) 0 vm_full)"
proof -
  have o: "clock_order 0 2 = [0, 1]"
    by (simp add: clock_order_def numeral_2_eq_2)
  have v: "clock_victim (page_used 0 (\<lambda>i. 0xF6001000) vm_full) 0 2 = 1"
    "clock_passed (page_used 0 (\<lambda>i. 0xF6001000) vm_full) 0 2 = [0]"
    using vm_full_used by (simp_all add: clock_victim_def clock_passed_def o)
  show ?thesis
    using clock_is_second_chance [OF vm_full_mapped, where m = 2 and h = 0 and fva = "0x802000"]
    unfolding v
    by (simp add: vm_full_def vm_example_def env_example_def ws_count_def ws_used_def)
qed

text \<open>A fault on a page that is neither in memory nor in the page file, with room in the
  working set: inside the user heap or the user stack the page gets the first free frame with
  user, write and modified permissions and the working-set entry at the hand, which moves on
  circularly; anywhere else the handler panics. The entry at the hand is overwritten even
  when it is in use.\<close>

theorem fault_new_page:
  assumes "ws_wf (venv v n)" and "ws_count (venv v n) < unat (page_WS_max_size (venv v n))"
    and "place_ready n fva q f fl v" and "f \<notin> set fl"
    and "disk_env_pgdir (venv v n) = 0 \<or>
      (\<exists>p. disk_table_at n (ROUNDDOWN fva PAGE_SIZE) p v \<and>
           disk_apart n (ROUNDDOWN fva PAGE_SIZE) q f v \<and> p \<noteq> q \<and>
           tables (vmem v) p (PTX (ROUNDDOWN fva PAGE_SIZE)) = 0)"
  shows "page_fault_handler n fva v =
    (if user_growable fva
     then Inr (on_env n (placed_env fva) (set_mem v (placed_mem fva q f fl (vmem v))))
     else Inl Panic)"
  using assms(3,4) place_page_new [OF assms(3) _ not_in_page_file_placed [OF assms(5)]]
    place_page_illegal [OF assms(3) _ assms(4) not_in_page_file_placed [OF assms(5)]]
  by (simp add: handler_places [OF assms(1,2)])

theorem fault_new_page_witness:
  "let v = vm_fault\<lparr>venv := (\<lambda>n. env_example\<lparr>disk_env_pgdir := 0\<rparr>)\<rparr>
   in page_fault_handler 0 0x80000010 v =
        Inr (on_env 0 (placed_env 0x80000010) (set_mem v (placed_mem 0x80000010 0xF6007000 30 [31] (vmem v))))"
proof -
  let ?v = "vm_fault\<lparr>venv := (\<lambda>n. env_example\<lparr>disk_env_pgdir := 0\<rparr>)\<rparr>"
  have "place_ready 0 0x80000010 0xF6007000 30 [31] ?v"
    using vm_fault_ready
    by (simp add: place_ready_def Let_def edir_def vm_fault_def vm_example_def env_example_def)
  moreover have "user_growable 0x80000010"
    by (simp add: user_growable_def layout_defs)
  ultimately show ?thesis
    using fault_new_page [of ?v 0 "0x80000010" "0xF6007000" 30 "[31]"]
    by (simp add: ws_wf_def ws_count_def ws_used_def env_example_def)
qed

text \<open>C15: A fault on a page that is in the page file, with room in the working set, brings it in:
  the first free frame holds the page's bytes on disk and is mapped at the page unmodified, the
  disk is unchanged, the page is entered at the hand, and the page-in is counted.\<close>

theorem fault_reads_page_in:
  assumes "ws_wf (venv v n)" and "ws_count (venv v n) < unat (page_WS_max_size (venv v n))"
    and "place_ready n fva q f fl v" and "disk_table_at n (ROUNDDOWN fva PAGE_SIZE) p v"
    and "disk_apart n (ROUNDDOWN fva PAGE_SIZE) q f v" and "p \<noteq> q"
    and "tables (vmem v) p (PTX fva) = dfn" and "dfn \<noteq> 0" and "disk_stop (vdisk v) = None"
  shows "\<exists>v'. page_fault_handler n fva v = Inr v' \<and>
           (\<forall>j<4096. ram (vmem v') f j = disk_page v dfn j) \<and>
           tables (vmem v') q (PTX fva) = (place_entry f OR PERM_USED) AND NOT PERM_MODIFIED \<and>
           vdisk v' = vdisk v \<and> free_frame_list (vmem v') = fl \<and>
           venv v' n = placed_env fva ((venv v n)\<lparr>nPageIn := nPageIn (venv v n) + 1\<rparr>)"
  using place_page_in [OF assms(3-9)] by (simp add: handler_places [OF assms(1,2)])

theorem fault_reads_page_in_witness:
  "\<exists>v'. page_fault_handler 0 0x80000010 vm_fault = Inr v' \<and>
     (\<forall>j<4096. ram (vmem v') 30 j = disk_page vm_fault 9 j) \<and>
     tables (vmem v') 0xF6007000 (PTX 0x80000010) = (place_entry 30 OR PERM_USED) AND NOT PERM_MODIFIED \<and>
     vdisk v' = vdisk vm_fault \<and> free_frame_list (vmem v') = [31] \<and>
     venv v' 0 = placed_env 0x80000010 ((venv vm_fault 0)\<lparr>nPageIn := nPageIn (venv vm_fault 0) + 1\<rparr>)"
  by (rule fault_reads_page_in [OF vm_fault_facts(3,4) vm_fault_ready vm_fault_facts(1,2) _
        vm_fault_facts(5) _ vm_fault_facts(6)]) simp_all

text \<open>The check for repeated faults lets the first three faults in a row on one address
  through and panics on the fourth, whatever was faulted before.\<close>

theorem repeated_fault_panics:
  assumes "va \<noteq> last_fault_va g"
  shows "andthen (andthen (count_fault va g) (count_fault va)) (count_fault va) =
           Inr (g\<lparr>last_fault_va := va, num_repeated_fault := 2\<rparr>) \<and>
         andthen (andthen (andthen (count_fault va g) (count_fault va)) (count_fault va))
           (count_fault va) = Inl Panic"
  using assms by (simp add: count_fault_def Let_def)

theorem repeated_fault_panics_witness:
  "let g = \<lparr>PageRepAlgoType = 3, EnableModifiedBuffer = 0, EnableBuffering = 0, ModifiedBufferLength = 0,
       page_WS_max_sweeps = 0, last_fault_va = 0, num_repeated_fault = 0\<rparr>
   in andthen (andthen (count_fault 0x800000 g) (count_fault 0x800000)) (count_fault 0x800000) =
        Inr (g\<lparr>last_fault_va := 0x800000, num_repeated_fault := 2\<rparr>) \<and>
      andthen (andthen (andthen (count_fault 0x800000 g) (count_fault 0x800000)) (count_fault 0x800000))
        (count_fault 0x800000) = Inl Panic"
  unfolding Let_def by (rule repeated_fault_panics) simp

end
