(* ===== verification/Kclock.thy ===== *)
theory Kclock
  imports Fos_Base
begin

text \<open>
  The interval timer and the interrupt controller: \<^verbatim>\<open>kern/cpu/kclock.c\<close>,
  \<^verbatim>\<open>inc/timerreg.h\<close> and \<^verbatim>\<open>kern/cpu/picirq.c\<close>. What a function does to the
  hardware is the list of its port writes, oldest first; what it reads from the counter is an
  argument.
\<close>

record timer =
  irq_mask_8259A :: u16
  didinit :: bool
  ports :: "(u16 \<times> u8) list"

definition outb :: "u16 \<Rightarrow> u8 \<Rightarrow> timer \<Rightarrow> timer" where
  "outb port data t = t\<lparr>ports := ports t @ [(port, data)]\<rparr>"

section \<open>The interrupt controller\<close>

definition IO_PIC1 :: u16 where "IO_PIC1 = 0x20"
definition IO_PIC2 :: u16 where "IO_PIC2 = 0xA0"
definition IRQ_SLAVE :: nat where "IRQ_SLAVE = 2"
definition IRQ_OFFSET :: u8 where "IRQ_OFFSET = 32"

definition irq_setmask_8259A :: "u16 \<Rightarrow> timer \<Rightarrow> timer" where
  "irq_setmask_8259A m t =
     (let t = t\<lparr>irq_mask_8259A := m\<rparr> in
      if \<not> didinit t then t
      else outb (IO_PIC2 + 1) (ucast (drop_bit 8 m)) (outb (IO_PIC1 + 1) (ucast m) t))"

definition pic_init :: "timer \<Rightarrow> timer" where
  "pic_init t =
     (let t = t\<lparr>didinit := True\<rparr>;
          t = fold (\<lambda>(p, d). outb p d)
                [(IO_PIC1 + 1, 0xFF), (IO_PIC2 + 1, 0xFF),
                 (IO_PIC1, 0x11), (IO_PIC1 + 1, IRQ_OFFSET), (IO_PIC1 + 1, push_bit IRQ_SLAVE 1),
                 (IO_PIC1 + 1, 0x3),
                 (IO_PIC2, 0x11), (IO_PIC2 + 1, IRQ_OFFSET + 8), (IO_PIC2 + 1, of_nat IRQ_SLAVE),
                 (IO_PIC2 + 1, 0x01),
                 (IO_PIC1, 0x68), (IO_PIC1, 0x0a), (IO_PIC2, 0x68), (IO_PIC2, 0x0a)] t
      in if irq_mask_8259A t \<noteq> 0xFFFF then irq_setmask_8259A (irq_mask_8259A t) t else t)"

section \<open>The timer\<close>

definition TIMER_CNTR0 :: u16 where "TIMER_CNTR0 = 0x40"
definition TIMER_MODE :: u16 where "TIMER_MODE = 0x43"
definition TIMER_SEL0 :: u8 where "TIMER_SEL0 = 0x00"
definition TIMER_RATEGEN :: u8 where "TIMER_RATEGEN = 0x04"
definition TIMER_16BIT :: u8 where "TIMER_16BIT = 0x30"
definition TIMER_LATCH :: u8 where "TIMER_LATCH = 0x00"

definition TIMER_FREQ :: int where "TIMER_FREQ = 1193182"
definition TIMER_DIV :: "int \<Rightarrow> int" where
  "TIMER_DIV x = (TIMER_FREQ + x div 2) div x"
definition QUANTUM_LIMIT :: int where
  "QUANTUM_LIMIT = 1000 * push_bit 16 1 div TIMER_FREQ"
definition IS_VALID_QUANTUM :: "u8 \<Rightarrow> bool" where
  "IS_VALID_QUANTUM quantum_in_ms \<longleftrightarrow> uint quantum_in_ms < QUANTUM_LIMIT"

definition kclock_write_cnt0_LSB_first :: "u16 \<Rightarrow> timer \<Rightarrow> timer" where
  "kclock_write_cnt0_LSB_first val t =
     outb TIMER_CNTR0 (ucast (drop_bit 8 val AND 0x00FF)) (outb TIMER_CNTR0 (ucast (val AND 0x00FF)) t)"

definition kclock_read_cnt0 :: "u8 \<Rightarrow> u8 \<Rightarrow> u16" where
  "kclock_read_cnt0 cnt0_lo cnt0_hi = push_bit 8 (ucast cnt0_hi) OR ucast cnt0_lo"

text \<open>The mode register read back, the two bytes of the counter; the mode is restored.\<close>

definition kclock_read_cnt0_latch :: "u8 \<Rightarrow> u8 \<Rightarrow> u8 \<Rightarrow> timer \<Rightarrow> u16 \<times> timer" where
  "kclock_read_cnt0_latch old_mode cnt0_lo cnt0_hi t =
     (let t = outb TIMER_MODE (TIMER_SEL0 OR TIMER_LATCH) t in
      (push_bit 8 (ucast cnt0_hi) OR ucast cnt0_lo, outb TIMER_MODE old_mode t))"

definition set_mode :: "timer \<Rightarrow> timer" where
  "set_mode = outb TIMER_MODE (TIMER_SEL0 OR TIMER_RATEGEN OR TIMER_16BIT)"

definition unmask_timer :: "timer \<Rightarrow> timer" where
  "unmask_timer t = irq_setmask_8259A (irq_mask_8259A t AND NOT 1) t"

text \<open>A quantum of 0 passes the check and divides by zero, which ends the kernel.\<close>

definition kclock_start :: "u8 \<Rightarrow> timer \<Rightarrow> timer result" where
  "kclock_start quantum_in_ms t =
     (let t = set_mode t in
      if IS_VALID_QUANTUM quantum_in_ms then
        (if quantum_in_ms = 0 then Inl Panic
         else Inr (unmask_timer (kclock_write_cnt0_LSB_first
                (of_int (TIMER_DIV (1000 div uint quantum_in_ms))) (set_mode t))))
      else Inl Panic)"

definition kclock_stop :: "timer \<Rightarrow> timer" where
  "kclock_stop t = irq_setmask_8259A 0xFFFF (set_mode t)"

definition kclock_resume :: "u8 \<Rightarrow> u8 \<Rightarrow> timer \<Rightarrow> timer" where
  "kclock_resume cnt0_lo cnt0_hi t =
     (let cnt0 = kclock_read_cnt0 cnt0_lo cnt0_hi;
          cnt0 = (if cnt0 < 20 then 20 else cnt0);
          cnt0 = (if cnt0 mod 2 = 1 then cnt0 + 1 else cnt0)
      in unmask_timer (kclock_write_cnt0_LSB_first cnt0 (set_mode t)))"

definition kclock_start_counter :: "u8 \<Rightarrow> timer \<Rightarrow> timer" where
  "kclock_start_counter cnt0 t = unmask_timer (kclock_write_cnt0_LSB_first (ucast cnt0) (set_mode t))"

definition kclock_set_quantum :: "u8 \<Rightarrow> timer \<Rightarrow> timer result" where
  "kclock_set_quantum quantum_in_ms t =
     (if IS_VALID_QUANTUM quantum_in_ms then
        (if quantum_in_ms = 0 then Inl Panic
         else
           (let cnt = TIMER_DIV (1000 div uint quantum_in_ms);
                cnt = (if cnt mod 2 = 1 then cnt + 1 else cnt)
            in Inr (kclock_stop (kclock_write_cnt0_LSB_first (of_int cnt) (set_mode t)))))
      else Inl Panic)"

section \<open>What the counter is loaded with\<close>

text \<open>The value of the last two writes to the counter port.\<close>

fun cntr0_writes :: "(u16 \<times> u8) list \<Rightarrow> u8 list" where
  "cntr0_writes [] = []"
| "cntr0_writes ((p, d) # ps) = (if p = TIMER_CNTR0 then d # cntr0_writes ps else cntr0_writes ps)"

definition loaded :: "timer \<Rightarrow> int option" where
  "loaded t = (case rev (cntr0_writes (ports t)) of hi # lo # _ \<Rightarrow> Some (uint lo + 256 * uint hi) | _ \<Rightarrow> None)"

lemma cntr0_writes_append [simp]: "cntr0_writes (ps @ qs) = cntr0_writes ps @ cntr0_writes qs"
  by (induction ps) auto

lemma uint_halves: "uint (ucast (val AND 0xFF) :: u8) + 256 * uint (ucast (drop_bit 8 val AND 0xFF) :: u8) = uint (val :: u16)"
proof -
  have m: "(0xFF :: u16) = mask 8"
    by (simp add: mask_eq_exp_minus_1)
  have v: "0 \<le> uint val" "uint val < 65536"
    using uint_lt2p [of val] by simp_all
  have lo: "uint (ucast (val AND 0xFF) :: u8) = uint val mod 256"
    unfolding m take_bit_eq_mask [symmetric]
    by (simp add: unsigned_ucast_eq unsigned_take_bit_eq) (simp add: take_bit_eq_mod)
  have hi: "uint (ucast (drop_bit 8 val AND 0xFF) :: u8) = uint val div 256 mod 256"
    unfolding m take_bit_eq_mask [symmetric]
    by (simp add: unsigned_ucast_eq unsigned_take_bit_eq unsigned_drop_bit_eq)
      (use v in \<open>simp add: take_bit_eq_mod drop_bit_eq_div div_less_iff_less_mult\<close>)
  have "uint val div 256 mod 256 = uint val div 256"
    by (rule mod_pos_pos_trivial) (use v in \<open>simp_all add: div_less_iff_less_mult pos_imp_zdiv_nonneg_iff\<close>)
  then show ?thesis
    unfolding lo hi using mod_mult_div_eq [of "uint val" 256] by linarith
qed

lemma loaded_after_write:
  "loaded (kclock_write_cnt0_LSB_first val t) = Some (uint val)"
  by (simp add: loaded_def kclock_write_cnt0_LSB_first_def outb_def uint_halves)

lemma set_mode_ports [simp]: "cntr0_writes (ports (set_mode t)) = cntr0_writes (ports t)"
  by (simp add: set_mode_def outb_def TIMER_MODE_def TIMER_CNTR0_def)

lemma setmask_ports [simp]: "cntr0_writes (ports (irq_setmask_8259A m t)) = cntr0_writes (ports t)"
  by (simp add: irq_setmask_8259A_def outb_def IO_PIC1_def IO_PIC2_def TIMER_CNTR0_def Let_def)

lemma loaded_unchanged [simp]: "loaded (kclock_stop t) = loaded t" "loaded (unmask_timer t) = loaded t"
  by (simp_all add: loaded_def kclock_stop_def unmask_timer_def)

section \<open>Properties\<close>

lemma int_div_bound:
  assumes "0 < d" and "a < c * (d :: int)"
  shows "a div d < c"
proof -
  have "a div d * d < c * d"
    using assms div_mult_mod_eq [of a d] pos_mod_sign [of d a] by linarith
  then show ?thesis
    using assms(1) by (simp add: mult_less_cancel_right)
qed

lemma valid_quantum: "IS_VALID_QUANTUM q \<longleftrightarrow> uint q < 54"
  by (simp add: IS_VALID_QUANTUM_def QUANTUM_LIMIT_def TIMER_FREQ_def)

text \<open>A quantum of 1 to 52 milliseconds loads the timer with an even count that is the period
  of \<open>1000 div q\<close> interrupts a second rounded to even, and fits the 16 bits; the interrupt
  mask is then fully set.\<close>

theorem quantum_loads_counter:
  assumes "1 \<le> uint q" and "uint q \<le> 52"
  shows "\<exists>t' c. kclock_set_quantum q t = Inr t' \<and> loaded t' = Some c \<and> even c \<and> c < 65536 \<and>
           (c = TIMER_DIV (1000 div uint q) \<or> c = TIMER_DIV (1000 div uint q) + 1) \<and>
           irq_mask_8259A t' = 0xFFFF"
proof -
  define d where "d = 1000 div uint q"
  have "1000 div 52 \<le> d"
    unfolding d_def by (rule zdiv_mono2) (use assms in simp_all)
  then have d: "19 \<le> d"
    by simp
  define c where "c = TIMER_DIV d"
  have "0 \<le> c"
    using d by (simp add: c_def TIMER_DIV_def TIMER_FREQ_def pos_imp_zdiv_nonneg_iff)
  moreover have "c < 65535"
  proof -
    have "d div 2 \<le> d"
      using d by simp
    then have "1193182 + d div 2 < 65535 * d"
      using d by linarith
    then have "(1193182 + d div 2) div d < 65535"
      using d by (intro int_div_bound) linarith+
    then show ?thesis
      by (simp add: c_def TIMER_DIV_def TIMER_FREQ_def)
  qed
  moreover define e where "e = (if c mod 2 = 1 then c + 1 else c)"
  moreover have "e = (if even c then c else c + 1)"
    by (simp add: e_def odd_iff_mod_2_eq_one)
  ultimately have e: "0 \<le> e" "e < 65536" "even e" "e = c \<or> e = c + 1"
    by (cases "even c"; simp)+
  let ?t = "kclock_write_cnt0_LSB_first (of_int e) (set_mode t)"
  have "kclock_set_quantum q t = Inr (kclock_stop ?t)"
    using assms
    by (auto simp: kclock_set_quantum_def valid_quantum e_def c_def d_def Let_def)
  moreover have "loaded ?t = Some e"
    using e by (simp add: loaded_after_write unsigned_of_int take_bit_int_eq_self)
  moreover have "irq_mask_8259A (kclock_stop ?t) = 0xFFFF"
    by (simp add: kclock_stop_def irq_setmask_8259A_def outb_def Let_def)
  ultimately show ?thesis
    using e by (simp add: c_def d_def)
qed

theorem quantum_loads_counter_witness:
  "\<exists>t' c. kclock_set_quantum 10 \<lparr>irq_mask_8259A = 0xFFFB, didinit = True, ports = []\<rparr> = Inr t' \<and>
     loaded t' = Some c \<and> even c \<and> c < 65536 \<and>
     (c = TIMER_DIV (1000 div uint (10 :: u8)) \<or> c = TIMER_DIV (1000 div uint (10 :: u8)) + 1) \<and>
     irq_mask_8259A t' = 0xFFFF"
  by (rule quantum_loads_counter) simp_all

text \<open>The two ends of the range that \<^verbatim>\<open>IS_VALID_QUANTUM\<close> accepts are wrong: a quantum
  of 53 milliseconds needs a count of 66288, of which the timer is loaded with the low 16 bits,
  752 (less than a millisecond), and a quantum of 0 divides by zero.\<close>

theorem quantum_limit_wraps:
  "IS_VALID_QUANTUM 53 \<and> IS_VALID_QUANTUM 0 \<and> TIMER_DIV (1000 div 53) = 66288 \<and>
   (\<exists>t'. kclock_set_quantum 53 t = Inr t' \<and> loaded t' = Some 752) \<and>
   kclock_set_quantum 0 t = Inl Panic"
  by (simp add: valid_quantum kclock_set_quantum_def TIMER_DIV_def TIMER_FREQ_def loaded_after_write)

end
