(* ===== verification/Sched.thy ===== *)
theory Sched
  imports Fault_Handler Kclock
begin

text \<open>
  The scheduler, \<^verbatim>\<open>kern/cpu/sched.c\<close>, with \<^verbatim>\<open>env_run\<close> and
  \<^verbatim>\<open>cleanup_buffers\<close> of \<^verbatim>\<open>kern/proc/user_environment.c\<close>. The queues are
  lists of environment indices, the head of the queue first; a ready queue is filled at its head
  and emptied at its tail. \<^verbatim>\<open>fos_scheduler\<close> does not return to its caller: what it
  does instead, running an environment or going back to the command prompt, is part of the result.
  The hooks \<^verbatim>\<open>chk1\<close> and \<^verbatim>\<open>chk2\<close> of the test code are left out, as is the
  printing. \<^verbatim>\<open>LIST_FOREACH\<close> reads the successor before the body runs, so a loop that
  removes its element visits every element the list had (\<open>LIST_FOREACH_remove\<close>).
\<close>

section \<open>State\<close>

record sched =
  svm :: vm
  stimer :: timer
  sset :: settings
  env_new_queue :: "nat list"
  env_exit_queue :: "nat list"
  env_ready_queues :: "nat list list"
  ready_queues_ptr :: u32
  quantums :: "u8 list"
  quantums_ptr :: u32
  num_of_ready_queues :: nat
  scheduler_status :: int
  scheduler_method :: nat
  curenv :: "nat option"
  old_pf_counter :: u32

definition SCH_RR :: nat where "SCH_RR = 0"
definition SCH_MLFQ :: nat where "SCH_MLFQ = 1"
definition SCH_STOPPED :: int where "SCH_STOPPED = 0"
definition SCH_STARTED :: int where "SCH_STARTED = 1"
definition CLOCK_INTERVAL_IN_MS :: u8 where "CLOCK_INTERVAL_IN_MS = 10"
definition sizeof_Env_Queue :: u32 where "sizeof_Env_Queue = 16"

datatype control = Returned | Running nat | Prompt

definition env_of :: "sched \<Rightarrow> nat \<Rightarrow> env" where
  "env_of s n = venv (svm s) n"

definition set_status :: "nat \<Rightarrow> nat \<Rightarrow> sched \<Rightarrow> sched" where
  "set_status n st s = s\<lparr>svm := on_env n (\<lambda>e. e\<lparr>env_status := st\<rparr>) (svm s)\<rparr>"

section \<open>Queues\<close>

definition enqueue :: "nat list \<Rightarrow> nat option \<Rightarrow> nat list result" where
  "enqueue queue env = (case env of None \<Rightarrow> Inr queue | Some e \<Rightarrow> list_insert_head queue (Some e))"

definition dequeue :: "nat list \<Rightarrow> (nat option \<times> nat list) result" where
  "dequeue queue =
     (case list_last queue of
        None \<Rightarrow> Inr (None, queue)
      | Some e \<Rightarrow> andthen (list_remove queue (Some e)) (\<lambda>q. Inr (Some e, q)))"

definition queue_size :: "nat list \<Rightarrow> nat" where "queue_size queue = length queue"

definition remove_from_queue :: "nat list \<Rightarrow> nat option \<Rightarrow> nat list result" where
  "remove_from_queue queue e = (case e of None \<Rightarrow> Inr queue | Some _ \<Rightarrow> list_remove queue e)"

definition find_env_in_queue :: "sched \<Rightarrow> nat list \<Rightarrow> u32 \<Rightarrow> nat option" where
  "find_env_in_queue s queue envID = find (\<lambda>n. env_id (env_of s n) = envID) queue"

definition ready_queue :: "nat \<Rightarrow> sched \<Rightarrow> nat list result" where
  "ready_queue i s =
     (if i < length (env_ready_queues s) then Inr (env_ready_queues s ! i) else Inl Out_Of_Bounds)"

definition set_ready :: "nat \<Rightarrow> nat list \<Rightarrow> sched \<Rightarrow> sched" where
  "set_ready i q s = s\<lparr>env_ready_queues := (env_ready_queues s)[i := q]\<rparr>"

section \<open>Inserting and removing\<close>

definition sched_insert_ready :: "nat option \<Rightarrow> sched \<Rightarrow> sched result" where
  "sched_insert_ready env s =
     (case env of
        None \<Rightarrow> Inr s
      | Some e \<Rightarrow>
          (let s = set_status e ENV_READY s in
           andthen (ready_queue 0 s) (\<lambda>q.
           andthen (enqueue q (Some e)) (\<lambda>q. Inr (set_ready 0 q s)))))"

fun remove_ready_loop :: "nat \<Rightarrow> nat list \<Rightarrow> sched \<Rightarrow> sched result" where
  "remove_ready_loop e [] s = Inr s"
| "remove_ready_loop e (i # is) s =
     andthen (ready_queue i s) (\<lambda>q.
       if find_env_in_queue s q (env_id (env_of s e)) \<noteq> None then
         andthen (list_remove q (Some e)) (\<lambda>q. Inr (set_status e ENV_UNKNOWN (set_ready i q s)))
       else remove_ready_loop e is s)"

definition sched_remove_ready :: "nat option \<Rightarrow> sched \<Rightarrow> sched result" where
  "sched_remove_ready env s =
     (case env of None \<Rightarrow> Inr s | Some e \<Rightarrow> remove_ready_loop e [0..<num_of_ready_queues s] s)"

definition sched_insert_new :: "nat option \<Rightarrow> sched \<Rightarrow> sched result" where
  "sched_insert_new env s =
     (case env of
        None \<Rightarrow> Inr s
      | Some e \<Rightarrow>
          (let s = set_status e ENV_NEW s in
           andthen (enqueue (env_new_queue s) (Some e)) (\<lambda>q. Inr (s\<lparr>env_new_queue := q\<rparr>))))"

definition sched_remove_new :: "nat option \<Rightarrow> sched \<Rightarrow> sched result" where
  "sched_remove_new env s =
     (case env of
        None \<Rightarrow> Inr s
      | Some e \<Rightarrow>
          andthen (list_remove (env_new_queue s) (Some e)) (\<lambda>q.
            Inr (set_status e ENV_UNKNOWN (s\<lparr>env_new_queue := q\<rparr>))))"

definition cleanup_frame :: "nat \<Rightarrow> nat \<Rightarrow> kmem \<Rightarrow> kmem result" where
  "cleanup_frame e f m =
     (if frame_environment m f = Some e then
        andthen (pt_clear_page_table_entry (env_page_directory m e) (frame_va m f) m) (\<lambda>m.
        andthen (list_remove (modified_frame_list m) (Some f)) (\<lambda>ml.
          free_frame f (m\<lparr>modified_frame_list := ml\<rparr>)))
      else Inr m)"

definition cleanup_buffers :: "nat \<Rightarrow> vm \<Rightarrow> vm result" where
  "cleanup_buffers e v = on_mem (for_each (cleanup_frame e) (modified_frame_list (vmem v))) v"

definition sched_insert_exit :: "nat option \<Rightarrow> sched \<Rightarrow> sched result" where
  "sched_insert_exit env s =
     (case env of
        None \<Rightarrow> Inr s
      | Some e \<Rightarrow>
          andthen (if isBufferingEnabled (sset s) \<noteq> 0
                   then andthen (cleanup_buffers e (svm s)) (\<lambda>v. Inr (s\<lparr>svm := v\<rparr>)) else Inr s) (\<lambda>s.
            let s = set_status e ENV_EXIT s in
            andthen (enqueue (env_exit_queue s) (Some e)) (\<lambda>q. Inr (s\<lparr>env_exit_queue := q\<rparr>))))"

definition sched_remove_exit :: "nat option \<Rightarrow> sched \<Rightarrow> sched result" where
  "sched_remove_exit env s =
     (case env of
        None \<Rightarrow> Inr s
      | Some e \<Rightarrow>
          andthen (list_remove (env_exit_queue s) (Some e)) (\<lambda>q.
            Inr (set_status e ENV_UNKNOWN (s\<lparr>env_exit_queue := q\<rparr>))))"

section \<open>Running\<close>

text \<open>\<open>cnt\<close> is the counter value that \<^verbatim>\<open>kclock_resume\<close> reads.\<close>

definition env_run :: "u8 \<times> u8 \<Rightarrow> nat \<Rightarrow> sched \<Rightarrow> control \<times> sched" where
  "env_run cnt e s =
     (let s = (if curenv s \<noteq> Some e
               then s\<lparr>curenv := Some e,
                      svm := on_env e (\<lambda>n. n\<lparr>env_runs := env_runs n + 1\<rparr>) (svm s)\<rparr> else s);
          s = set_status e ENV_RUNNABLE s
      in (Running e, s\<lparr>stimer := kclock_resume (fst cnt) (snd cnt) (stimer s)\<rparr>))"

definition fos_scheduler_MLFQ :: "sched \<Rightarrow> (nat option \<times> sched) result" where
  "fos_scheduler_MLFQ s = Inl Panic"

definition pick_RR :: "sched \<Rightarrow> (nat option \<times> sched) result" where
  "pick_RR s =
     andthen (ready_queue 0 s) (\<lambda>q.
     andthen (enqueue q (curenv s)) (\<lambda>q.
     andthen (dequeue q) (\<lambda>(next_env, q).
       let s = set_ready 0 q s in
       if quantums s = [] then Inl Out_Of_Bounds
       else andthen (kclock_set_quantum (quantums s ! 0) (stimer s))
              (\<lambda>t. Inr (next_env, s\<lparr>stimer := t\<rparr>)))))"

definition fos_scheduler :: "u8 \<times> u8 \<Rightarrow> sched \<Rightarrow> (control \<times> sched) result" where
  "fos_scheduler cnt s =
     (let s = s\<lparr>scheduler_status := SCH_STARTED\<rparr> in
      andthen
        (if scheduler_method s = SCH_RR then pick_RR s
         else if scheduler_method s = SCH_MLFQ then fos_scheduler_MLFQ s
         else Inr (None, s)) (\<lambda>(next_env, s).
        case next_env of
          Some e \<Rightarrow> Inr (env_run cnt e s)
        | None \<Rightarrow> Inr (Prompt, s\<lparr>curenv := None, scheduler_status := SCH_STOPPED\<rparr>)))"

section \<open>Initialisation\<close>

definition sched_delete_ready_queues :: "sched \<Rightarrow> sched result" where
  "sched_delete_ready_queues s =
     andthen (if ready_queues_ptr s \<noteq> 0 then on_mem (kfree (ready_queues_ptr s)) (svm s) else Inr (svm s)) (\<lambda>v.
     andthen (if quantums_ptr s \<noteq> 0 then on_mem (kfree (quantums_ptr s)) v else Inr v) (\<lambda>v.
       Inr (s\<lparr>svm := v\<rparr>)))"

definition sched_init_RR :: "u8 \<Rightarrow> sched \<Rightarrow> sched result" where
  "sched_init_RR quantum s =
     (let s = s\<lparr>num_of_ready_queues := 1\<rparr> in
      andthen (sched_delete_ready_queues s) (\<lambda>s.
      andthen (kmalloc sizeof_Env_Queue (vmem (svm s))) (\<lambda>(rq, m).
      andthen (kmalloc (of_nat (num_of_ready_queues s)) m) (\<lambda>(qp, m).
        if qp = 0 then Inl Null_Deref
        else
          andthen (kclock_set_quantum quantum (stimer s)) (\<lambda>t.
            Inr (s\<lparr>svm := set_mem (svm s) m, stimer := t, ready_queues_ptr := rq, quantums_ptr := qp,
                   quantums := [quantum], env_ready_queues := (if rq = 0 then [] else [[]]),
                   scheduler_status := SCH_STOPPED, scheduler_method := SCH_RR\<rparr>))))))"

definition sched_init_MLFQ :: "nat \<Rightarrow> u8 list \<Rightarrow> sched \<Rightarrow> sched result" where
  "sched_init_MLFQ numOfLevels quantumOfEachLevel s =
     andthen (sched_delete_ready_queues s) (\<lambda>s. Inl Panic)"

definition sched_init :: "sched \<Rightarrow> sched result" where
  "sched_init s =
     andthen (sched_init_RR CLOCK_INTERVAL_IN_MS (s\<lparr>old_pf_counter := 0\<rparr>)) (\<lambda>s.
       Inr (s\<lparr>env_new_queue := [], env_exit_queue := [], scheduler_status := SCH_STOPPED\<rparr>))"

definition isSchedMethodRR :: "sched \<Rightarrow> bool" where
  "isSchedMethodRR s \<longleftrightarrow> scheduler_method s = SCH_RR"
definition isSchedMethodMLFQ :: "sched \<Rightarrow> bool" where
  "isSchedMethodMLFQ s \<longleftrightarrow> scheduler_method s = SCH_MLFQ"

section \<open>Commands on environments\<close>

definition sched_print_all :: "sched \<Rightarrow> nat list \<times> nat list list \<times> nat list" where
  "sched_print_all s = (env_new_queue s, take (num_of_ready_queues s) (env_ready_queues s), env_exit_queue s)"

definition new_to_ready :: "nat \<Rightarrow> sched \<Rightarrow> sched result" where
  "new_to_ready e s = andthen (sched_remove_new (Some e) s) (sched_insert_ready (Some e))"

definition start_if_stopped :: "u8 \<times> u8 \<Rightarrow> sched \<Rightarrow> (control \<times> sched) result" where
  "start_if_stopped cnt s =
     (if scheduler_status s = SCH_STOPPED then fos_scheduler cnt s else Inr (Returned, s))"

definition sched_run_all :: "u8 \<times> u8 \<Rightarrow> sched \<Rightarrow> (control \<times> sched) result" where
  "sched_run_all cnt s =
     andthen (for_each new_to_ready (env_new_queue s) s) (start_if_stopped cnt)"

definition sched_new_env :: "nat option \<Rightarrow> sched \<Rightarrow> sched result" where
  "sched_new_env e s = sched_insert_new e s"

definition sched_run_env :: "u8 \<times> u8 \<Rightarrow> u32 \<Rightarrow> sched \<Rightarrow> (control \<times> sched) result" where
  "sched_run_env cnt envId s =
     (case find_env_in_queue s (env_new_queue s) envId of
        None \<Rightarrow> Inr (Returned, s)
      | Some e \<Rightarrow> andthen (new_to_ready e s) (start_if_stopped cnt))"

text \<open>
  The first loop of \<^verbatim>\<open>sched_exit_env\<close> has no \<^verbatim>\<open>break\<close>: after it, the loop
  variable is NULL, found or not.
\<close>

definition exit_new_entry :: "u32 \<Rightarrow> nat \<Rightarrow> bool \<times> sched \<Rightarrow> (bool \<times> sched) result" where
  "exit_new_entry envId e st =
     (let (found, s) = st in
      if env_id (env_of s e) = envId
      then andthen (sched_remove_new (Some e) s) (\<lambda>s. Inr (True, s)) else Inr (found, s))"

fun exit_ready_loop :: "u32 \<Rightarrow> nat list \<Rightarrow> sched \<Rightarrow> (nat option \<times> sched) result" where
  "exit_ready_loop envId [] s = Inr (None, s)"
| "exit_ready_loop envId (i # is) s =
     andthen (ready_queue i s) (\<lambda>q.
       case find_env_in_queue s q envId of
         Some e \<Rightarrow> andthen (list_remove q (Some e)) (\<lambda>q. Inr (Some e, set_ready i q s))
       | None \<Rightarrow> exit_ready_loop envId is s)"

definition cur_id :: "sched \<Rightarrow> u32 result" where
  "cur_id s = (case curenv s of None \<Rightarrow> Inl Null_Deref | Some c \<Rightarrow> Inr (env_id (env_of s c)))"

definition sched_exit_env :: "u8 \<times> u8 \<Rightarrow> u32 \<Rightarrow> sched \<Rightarrow> (control \<times> sched) result" where
  "sched_exit_env cnt envId s =
     andthen (for_each (exit_new_entry envId) (env_new_queue s) (False, s)) (\<lambda>(found, s).
     andthen
       (if found then Inr (True, None, s)
        else andthen (exit_ready_loop envId [0..<num_of_ready_queues s] s) (\<lambda>(p, s).
          Inr (p \<noteq> None, p, s))) (\<lambda>(found, ptr_env, s).
     andthen
       (if found then Inr (True, ptr_env)
        else andthen (cur_id s) (\<lambda>c. Inr (if c = envId then (True, curenv s) else (False, None))))
       (\<lambda>(found, ptr_env).
     if found then
       andthen (sched_insert_exit ptr_env s) (\<lambda>s.
       andthen (cur_id s) (\<lambda>c.
         if c = envId then fos_scheduler cnt (s\<lparr>curenv := None\<rparr>) else Inr (Returned, s)))
     else Inr (Returned, s))))"

definition env_exit :: "u8 \<times> u8 \<Rightarrow> sched \<Rightarrow> (control \<times> sched) result" where
  "env_exit cnt s =
     andthen (cur_id s) (\<lambda>c.
     andthen (sched_exit_env cnt c s) (\<lambda>(k, s).
       if k = Returned then fos_scheduler cnt s else Inr (k, s)))"

definition exit_ready_entry :: "nat \<Rightarrow> nat \<Rightarrow> sched \<Rightarrow> sched result" where
  "exit_ready_entry i e s =
     andthen (ready_queue i s) (\<lambda>q.
     andthen (list_remove q (Some e)) (\<lambda>q. sched_insert_exit (Some e) (set_ready i q s)))"

definition exit_ready_queue :: "nat \<Rightarrow> sched \<Rightarrow> sched result" where
  "exit_ready_queue i s = andthen (ready_queue i s) (\<lambda>q. for_each (exit_ready_entry i) q s)"

definition sched_exit_all_ready_envs :: "sched \<Rightarrow> sched result" where
  "sched_exit_all_ready_envs s = for_each exit_ready_queue [0..<num_of_ready_queues s] s"

text \<open>\<^verbatim>\<open>env_free\<close> releases the shared working set and then panics.\<close>

definition env_free :: "nat \<Rightarrow> sched \<Rightarrow> sched result" where "env_free e s = Inl Panic"

definition kill_new_entry :: "u32 \<Rightarrow> nat \<Rightarrow> bool \<times> sched \<Rightarrow> (bool \<times> sched) result" where
  "kill_new_entry envId e st =
     (let (found, s) = st in
      if env_id (env_of s e) = envId
      then andthen (sched_remove_new (Some e) s) (\<lambda>s. andthen (env_free e s) (\<lambda>s. Inr (True, s)))
      else Inr (found, s))"

definition kill_exit_entry :: "u32 \<Rightarrow> nat \<Rightarrow> bool \<times> sched \<Rightarrow> (bool \<times> sched) result" where
  "kill_exit_entry envId e st =
     (let (found, s) = st in
      if env_id (env_of s e) = envId
      then andthen (sched_remove_exit (Some e) s) (\<lambda>s. andthen (env_free e s) (\<lambda>s. Inr (True, s)))
      else Inr (found, s))"

text \<open>The assertion compares the identifier with the status code \<open>ENV_RUNNABLE\<close>.\<close>

definition sched_kill_env :: "u8 \<times> u8 \<Rightarrow> u32 \<Rightarrow> sched \<Rightarrow> (control \<times> sched) result" where
  "sched_kill_env cnt envId s =
     andthen (for_each (kill_new_entry envId) (env_new_queue s) (False, s)) (\<lambda>(found, s).
     andthen
       (if found then Inr (True, s)
        else andthen (exit_ready_loop envId [0..<num_of_ready_queues s] s) (\<lambda>(p, s).
          case p of None \<Rightarrow> Inr (False, s) | Some e \<Rightarrow> andthen (env_free e s) (\<lambda>s. Inr (True, s))))
       (\<lambda>(found, s).
     andthen
       (if found then Inr (True, s)
        else for_each (kill_exit_entry envId) (env_exit_queue s) (False, s)) (\<lambda>(found, s).
     if found then Inr (Returned, s)
     else
       (case curenv s of
          None \<Rightarrow> Inl Null_Deref
        | Some c \<Rightarrow>
            if env_id (env_of s c) = envId then
              (if env_id (env_of s c) = of_nat ENV_RUNNABLE
               then andthen (env_free c s) (\<lambda>s. fos_scheduler cnt (s\<lparr>curenv := None\<rparr>))
               else Inl Panic)
            else Inr (Returned, s)))))"

definition kill_all_new :: "nat \<Rightarrow> sched \<Rightarrow> sched result" where
  "kill_all_new e s = andthen (sched_remove_new (Some e) s) (env_free e)"

definition kill_all_ready :: "nat \<Rightarrow> nat \<Rightarrow> sched \<Rightarrow> sched result" where
  "kill_all_ready i e s =
     andthen (ready_queue i s) (\<lambda>q.
     andthen (list_remove q (Some e)) (\<lambda>q. env_free e (set_ready i q s)))"

definition kill_all_exit :: "nat \<Rightarrow> sched \<Rightarrow> sched result" where
  "kill_all_exit e s = andthen (sched_remove_exit (Some e) s) (env_free e)"

definition sched_kill_all :: "u8 \<times> u8 \<Rightarrow> sched \<Rightarrow> (control \<times> sched) result" where
  "sched_kill_all cnt s =
     andthen (for_each kill_all_new (env_new_queue s) s) (\<lambda>s.
     andthen (for_each (\<lambda>i s. andthen (ready_queue i s) (\<lambda>q. for_each (kill_all_ready i) q s))
                [0..<num_of_ready_queues s] s) (\<lambda>s.
     andthen (for_each kill_all_exit (env_exit_queue s) s) (\<lambda>s.
       fos_scheduler cnt (s\<lparr>curenv := None\<rparr>))))"

definition clock_interrupt_handler :: "u8 \<times> u8 \<Rightarrow> sched \<Rightarrow> (control \<times> sched) result" where
  "clock_interrupt_handler cnt s =
     andthen
       (if isPageReplacmentAlgorithmLRU PG_REP_LRU_TIME_APPROX (sset s)
        then andthen (update_WS_time_stamps (curenv s) (svm s)) (\<lambda>v. Inr (s\<lparr>svm := v\<rparr>)) else Inr s)
       (fos_scheduler cnt)"

section \<open>Round robin\<close>

lemma set_status_simps [simp]:
  "env_new_queue (set_status n st s) = env_new_queue s"
  "env_exit_queue (set_status n st s) = env_exit_queue s"
  "env_ready_queues (set_status n st s) = env_ready_queues s"
  "curenv (set_status n st s) = curenv s"
  "num_of_ready_queues (set_status n st s) = num_of_ready_queues s"
  "scheduler_status (set_status n st s) = scheduler_status s"
  "scheduler_method (set_status n st s) = scheduler_method s"
  "quantums (set_status n st s) = quantums s"
  "stimer (set_status n st s) = stimer s"
  "sset (set_status n st s) = sset s"
  "env_of (set_status n st s) m = (if m = n then (env_of s n)\<lparr>env_status := st\<rparr> else env_of s m)"
  by (simp_all add: set_status_def env_of_def)

lemma env_of_simps [simp]:
  "env_of (s\<lparr>env_new_queue := q\<rparr>) = env_of s"
  "env_of (s\<lparr>env_exit_queue := q\<rparr>) = env_of s"
  "env_of (s\<lparr>env_ready_queues := rq\<rparr>) = env_of s"
  "env_of (s\<lparr>curenv := c\<rparr>) = env_of s"
  "env_of (s\<lparr>stimer := t\<rparr>) = env_of s"
  "env_of (s\<lparr>scheduler_status := st\<rparr>) = env_of s"
  by (simp_all add: env_of_def fun_eq_iff)

definition cur_list :: "sched \<Rightarrow> nat list" where
  "cur_list s = (case curenv s of None \<Rightarrow> [] | Some c \<Rightarrow> [c])"

text \<open>One ready queue \<open>q\<close> under round robin, with a quantum the timer accepts.\<close>

definition rr_state :: "nat list \<Rightarrow> sched \<Rightarrow> bool" where
  "rr_state q s \<longleftrightarrow>
     scheduler_method s = SCH_RR \<and> env_ready_queues s = [q] \<and> num_of_ready_queues s = 1 \<and>
     (\<exists>b. quantums s = [b] \<and> 0 < uint b \<and> uint b < 54) \<and> distinct (cur_list s @ q)"

lemma first_opt_last_opt [simp]:
  "list_last [] = None" "list_last (xs @ [x]) = Some x"
  "xs \<noteq> [] \<Longrightarrow> list_last xs = Some (last xs)"
proof -
  have snoc: "last_opt d (ys @ [x]) = Some x" for d and ys :: "nat list" and x
    by (induction ys arbitrary: d) auto
  show "list_last [] = None" "list_last (xs @ [x]) = Some x"
    by (simp_all add: list_last_def snoc)
  show "xs \<noteq> [] \<Longrightarrow> list_last xs = Some (last xs)"
    by (metis append_butlast_last_id list_last_def snoc)
qed

lemma dequeue_last:
  "xs \<noteq> [] \<Longrightarrow> distinct xs \<Longrightarrow> dequeue xs = Inr (Some (last xs), butlast xs)"
proof -
  assume "xs \<noteq> []" and d: "distinct xs"
  then obtain ys y where xs: "xs = ys @ [y]"
    by (metis append_butlast_last_id)
  then have "y \<notin> set ys"
    using d by simp
  then show ?thesis
    by (simp add: dequeue_def list_remove_def xs remove1_append)
qed

lemma quantum_ok:
  assumes "0 < uint b" and "uint b < 54"
  shows "\<exists>t'. kclock_set_quantum b t = Inr t'"
proof -
  have "b \<noteq> 0"
    using assms(1) by auto
  then show ?thesis
    using assms by (simp add: kclock_set_quantum_def valid_quantum Let_def)
qed

text \<open>What a scheduling decision does to the running environment and the ready queue.\<close>

lemma fos_scheduler_RR:
  assumes rr: "rr_state q s"
  shows "\<exists>s'. fos_scheduler cnt s =
           Inr (if cur_list s @ q = [] then Prompt else Running (last (cur_list s @ q)), s') \<and>
     rr_state (butlast (cur_list s @ q)) s' \<and>
     curenv s' = (if cur_list s @ q = [] then None else Some (last (cur_list s @ q))) \<and>
     env_new_queue s' = env_new_queue s \<and> env_exit_queue s' = env_exit_queue s \<and>
     (\<forall>n. env_id (env_of s' n) = env_id (env_of s n)) \<and>
     (\<forall>n. curenv s' \<noteq> Some n \<longrightarrow> env_of s' n = env_of s n)"
proof -
  let ?l = "cur_list s @ q"
  obtain b where b: "quantums s = [b]" "0 < uint b" "uint b < 54"
    using rr by (auto simp: rr_state_def)
  have m: "scheduler_method s = SCH_RR" "env_ready_queues s = [q]" "num_of_ready_queues s = 1"
    "distinct ?l"
    using rr by (simp_all add: rr_state_def)
  obtain t where t: "kclock_set_quantum b (stimer s) = Inr t"
    using quantum_ok [OF b(2,3)] by blast
  have enq: "enqueue q (curenv s) = Inr ?l"
    using m(4) by (cases "curenv s") (simp_all add: enqueue_def cur_list_def list_insert_head_def)
  show ?thesis
  proof (cases "?l = []")
    case True
    then have "q = []" "curenv s = None"
      by (auto simp: cur_list_def split: option.splits)
    then show ?thesis
      using m t b enq
      by (simp add: fos_scheduler_def pick_RR_def ready_queue_def set_ready_def dequeue_def
          rr_state_def cur_list_def Let_def)
  next
    case False
    define e where "e = last ?l"
    have l: "?l = butlast ?l @ [e]"
      using False by (simp add: e_def)
    have d: "distinct (e # butlast ?l)"
      using m(4) by (subst (asm) l) auto
    have deq: "dequeue ?l = Inr (Some e, butlast ?l)"
      using dequeue_last [OF False m(4)] by (simp add: e_def)
    have pick: "pick_RR (s\<lparr>scheduler_status := SCH_STARTED\<rparr>) =
        Inr (Some e, s\<lparr>scheduler_status := SCH_STARTED, env_ready_queues := [butlast ?l], stimer := t\<rparr>)"
      using m t b enq deq by (simp add: pick_RR_def ready_queue_def set_ready_def)
    have run: "fos_scheduler cnt s = Inr (env_run cnt e
        (s\<lparr>scheduler_status := SCH_STARTED, env_ready_queues := [butlast ?l], stimer := t\<rparr>))"
      using m(1) pick by (simp add: fos_scheduler_def Let_def)
    let ?s' = "snd (env_run cnt e
        (s\<lparr>scheduler_status := SCH_STARTED, env_ready_queues := [butlast ?l], stimer := t\<rparr>))"
    have f: "fst (env_run cnt e
        (s\<lparr>scheduler_status := SCH_STARTED, env_ready_queues := [butlast ?l], stimer := t\<rparr>)) = Running e"
      by (simp add: env_run_def Let_def)
    have s': "curenv ?s' = Some e" "env_ready_queues ?s' = [butlast ?l]" "scheduler_method ?s' = SCH_RR"
      "num_of_ready_queues ?s' = 1" "quantums ?s' = [b]" "env_new_queue ?s' = env_new_queue s"
      "env_exit_queue ?s' = env_exit_queue s"
      using m b by (simp_all add: env_run_def Let_def)
    have ids: "env_id (env_of ?s' n) = env_id (env_of s n)" for n
      by (simp add: env_run_def Let_def) (simp add: env_of_def)
    have others: "env_of ?s' n = env_of s n" if "n \<noteq> e" for n
      using that by (simp add: env_run_def Let_def) (simp add: env_of_def)
    have "rr_state (butlast ?l) ?s'"
      using s' b d by (simp add: rr_state_def cur_list_def)
    then show ?thesis
      using run f s' ids others False
      by (intro exI [of _ ?s']) (auto simp: e_def prod_eq_iff)
  qed
qed

text \<open>A run of clock interrupts, with the counter value each of them reads.\<close>

fun rr_trace :: "(u8 \<times> u8) list \<Rightarrow> sched \<Rightarrow> (control list \<times> sched) result" where
  "rr_trace [] s = Inr ([], s)"
| "rr_trace (cnt # cnts) s =
     andthen (clock_interrupt_handler cnt s) (\<lambda>(c, s). andthen (rr_trace cnts s) (\<lambda>(cs, s). Inr (c # cs, s)))"

text \<open>When the replacement algorithm keeps no time stamps, an interrupt only calls the scheduler, which does not change the algorithm.\<close>

abbreviation no_time_stamps :: "sched \<Rightarrow> bool" where
  "no_time_stamps s \<equiv> \<not> isPageReplacmentAlgorithmLRU PG_REP_LRU_TIME_APPROX (sset s)"

lemma fos_scheduler_sset: "fos_scheduler cnt s = Inr (k, s') \<Longrightarrow> sset s' = sset s"
  by (auto simp: fos_scheduler_def pick_RR_def fos_scheduler_MLFQ_def env_run_def set_ready_def andthen_def Let_def
      split: if_splits sum.splits option.splits prod.splits)

lemma clock_interrupt_RR:
  assumes "rr_state q s" and "no_time_stamps s"
  shows "\<exists>s'. clock_interrupt_handler cnt s =
           Inr (if cur_list s @ q = [] then Prompt else Running (last (cur_list s @ q)), s') \<and>
     rr_state (butlast (cur_list s @ q)) s' \<and> no_time_stamps s' \<and>
     curenv s' = (if cur_list s @ q = [] then None else Some (last (cur_list s @ q))) \<and>
     env_new_queue s' = env_new_queue s \<and> env_exit_queue s' = env_exit_queue s"
proof -
  obtain s' where s': "fos_scheduler cnt s =
        Inr (if cur_list s @ q = [] then Prompt else Running (last (cur_list s @ q)), s')"
      "rr_state (butlast (cur_list s @ q)) s'"
      "curenv s' = (if cur_list s @ q = [] then None else Some (last (cur_list s @ q)))"
      "env_new_queue s' = env_new_queue s" "env_exit_queue s' = env_exit_queue s"
    using fos_scheduler_RR [OF assms(1), of cnt] by blast
  have "no_time_stamps s'"
    using fos_scheduler_sset [OF s'(1)] assms(2) by simp
  moreover have "clock_interrupt_handler cnt s = fos_scheduler cnt s"
    using assms(2) by (simp add: clock_interrupt_handler_def)
  ultimately show ?thesis
    using s' by simp
qed

lemma rr_trace_rotates:
  assumes "rr_state q s" and "no_time_stamps s" and "cur_list s @ q = ys @ zs" and "ys \<noteq> []" and "length cnts = length zs"
  shows "\<exists>s'. rr_trace cnts s = Inr (map Running (rev zs), s') \<and> no_time_stamps s' \<and>
           (\<exists>q'. rr_state q' s' \<and> cur_list s' @ q' = zs @ ys) \<and>
           env_new_queue s' = env_new_queue s \<and> env_exit_queue s' = env_exit_queue s"
  using assms
proof (induction zs arbitrary: q s ys cnts rule: rev_induct)
  case Nil
  then show ?case by auto
next
  case (snoc z zs)
  obtain cnt cnts' where c: "cnts = cnt # cnts'" "length cnts' = length zs"
    using snoc.prems(5) by (cases cnts) auto
  have l: "cur_list s @ q = (ys @ zs) @ [z]"
    using snoc.prems(3) by simp
  obtain s1 where s1: "clock_interrupt_handler cnt s = Inr (Running z, s1)" "rr_state (ys @ zs) s1" "no_time_stamps s1"
    "curenv s1 = Some z" "env_new_queue s1 = env_new_queue s" "env_exit_queue s1 = env_exit_queue s"
    using clock_interrupt_RR [OF snoc.prems(1,2), of cnt] unfolding l by (auto simp: butlast_append)
  have l1: "cur_list s1 @ (ys @ zs) = (z # ys) @ zs"
    using s1(4) by (simp add: cur_list_def)
  obtain s2 where s2: "rr_trace cnts' s1 = Inr (map Running (rev zs), s2)" "no_time_stamps s2"
    "\<exists>q'. rr_state q' s2 \<and> cur_list s2 @ q' = zs @ (z # ys)"
    "env_new_queue s2 = env_new_queue s1" "env_exit_queue s2 = env_exit_queue s1"
    using snoc.IH [OF s1(2,3) l1 _ c(2)] by auto
  show ?case
    using s1 s2 by (simp add: c(1))
qed

lemma rr_full_round:
  assumes rr: "rr_state q s" and nt: "no_time_stamps s" and c: "curenv s = Some c" and n: "length cnts = Suc (length q)"
  shows "\<exists>s'. rr_trace cnts s = Inr (map Running (rev q) @ [Running c], s') \<and>
           rr_state q s' \<and> curenv s' = Some c \<and>
           env_new_queue s' = env_new_queue s \<and> env_exit_queue s' = env_exit_queue s"
proof -
  have l: "cur_list s @ q = [c] @ q"
    using c by (simp add: cur_list_def)
  obtain cs cl where cs: "cnts = cs @ [cl]" "length cs = length q"
    using n by (metis length_Suc_conv_rev)
  obtain s1 q1 where s1: "rr_trace cs s = Inr (map Running (rev q), s1)" "rr_state q1 s1" "no_time_stamps s1"
    "cur_list s1 @ q1 = q @ [c]" "env_new_queue s1 = env_new_queue s" "env_exit_queue s1 = env_exit_queue s"
    using rr_trace_rotates [OF rr nt l _ cs(2)] by auto
  obtain s2 where s2: "clock_interrupt_handler cl s1 = Inr (Running c, s2)" "rr_state q s2" "curenv s2 = Some c"
    "env_new_queue s2 = env_new_queue s1" "env_exit_queue s2 = env_exit_queue s1"
    using clock_interrupt_RR [OF s1(2,3), of cl] unfolding s1(4) by auto
  have app: "rr_trace (as @ bs) t = andthen (rr_trace as t) (\<lambda>(x, t). andthen (rr_trace bs t) (\<lambda>(y, t). Inr (x @ y, t)))" for as bs t
  proof (induction as arbitrary: t)
    case Nil
    then show ?case by (auto simp: andthen_def split: sum.split)
  next
    case (Cons a as)
    show ?case
      by (auto simp: Cons andthen_def split: sum.split prod.split)
  qed
  show ?thesis
    using s1 s2 by (simp add: cs(1) app)
qed

section \<open>Loading, starting and exiting\<close>

text \<open>The queues are disjoint and the running environment is on none of them.\<close>

definition sched_inv :: "sched \<Rightarrow> bool" where
  "sched_inv s \<longleftrightarrow>
     (\<exists>q. rr_state q s \<and> distinct (cur_list s @ q @ env_new_queue s @ env_exit_queue s))"

lemma rr_state_ready: "rr_state q s \<Longrightarrow> ready_queue 0 s = Inr q"
  by (simp add: rr_state_def ready_queue_def)

lemma sched_inv_enqueue_ready:
  assumes "rr_state q s" and "e \<notin> set (cur_list s @ q)"
  shows "sched_insert_ready (Some e) s = Inr (set_ready 0 (e # q) (set_status e ENV_READY s))"
    and "rr_state (e # q) (set_ready 0 (e # q) (set_status e ENV_READY s))"
  using assms
  by (auto simp: sched_insert_ready_def rr_state_def ready_queue_def enqueue_def list_insert_head_def
      set_ready_def cur_list_def Let_def)

lemma rr_state_cong:
  "rr_state q (s\<lparr>env_new_queue := x\<rparr>) = rr_state q s"
  "rr_state q (s\<lparr>env_exit_queue := x\<rparr>) = rr_state q s"
  "rr_state q (set_status n st s) = rr_state q s"
  by (simp_all add: rr_state_def cur_list_def)

lemma cur_list_cong [simp]:
  "cur_list (s\<lparr>env_new_queue := x\<rparr>) = cur_list s"
  "cur_list (s\<lparr>env_exit_queue := x\<rparr>) = cur_list s"
  "cur_list (set_status n st s) = cur_list s"
  "cur_list (set_ready i rq s) = cur_list s"
  by (simp_all add: cur_list_def set_ready_def)

lemma new_to_ready_ok:
  assumes q: "rr_state q s" and e: "e \<in> set (env_new_queue s)"
    and d: "distinct (cur_list s @ q @ env_new_queue s @ env_exit_queue s)"
  shows "\<exists>s'. new_to_ready e s = Inr s' \<and> rr_state (e # q) s' \<and>
           env_new_queue s' = remove1 e (env_new_queue s) \<and> env_exit_queue s' = env_exit_queue s \<and>
           curenv s' = curenv s \<and> env_status (env_of s' e) = ENV_READY \<and>
           (\<forall>n. n \<noteq> e \<longrightarrow> env_of s' n = env_of s n) \<and>
           scheduler_status s' = scheduler_status s \<and>
           distinct (cur_list s' @ (e # q) @ env_new_queue s' @ env_exit_queue s')"
proof -
  let ?s1 = "set_status e ENV_UNKNOWN (s\<lparr>env_new_queue := remove1 e (env_new_queue s)\<rparr>)"
  have "sched_remove_new (Some e) s = Inr ?s1"
    using e by (simp add: sched_remove_new_def list_remove_def)
  moreover have q1: "rr_state q ?s1"
    using q by (simp add: rr_state_cong)
  moreover have fresh: "e \<notin> set (cur_list ?s1 @ q)"
    using d e by auto
  moreover note ins = sched_inv_enqueue_ready [OF q1 fresh]
  ultimately have "new_to_ready e s = Inr (set_ready 0 (e # q) (set_status e ENV_READY ?s1))"
    by (simp add: new_to_ready_def)
  moreover have "distinct (cur_list s @ (e # q) @ remove1 e (env_new_queue s) @ env_exit_queue s)"
    using d e by (auto dest: notin_set_remove1)
  moreover have "env_of (set_ready 0 (e # q) (set_status e ENV_READY ?s1)) n = env_of s n" if "n \<noteq> e" for n
    using that by (simp add: set_ready_def)
  ultimately show ?thesis
    using ins(2)
    by (intro exI [of _ "set_ready 0 (e # q) (set_status e ENV_READY ?s1)"])
      (simp add: set_ready_def cur_list_def)
qed

lemma run_all_loop:
  assumes "rr_state q s" and "distinct (cur_list s @ q @ env_new_queue s @ env_exit_queue s)"
    and "set es \<subseteq> set (env_new_queue s)" and "distinct es"
  shows "\<exists>s'. for_each new_to_ready es s = Inr s' \<and> rr_state (rev es @ q) s' \<and>
           set (env_new_queue s') = set (env_new_queue s) - set es \<and>
           env_exit_queue s' = env_exit_queue s \<and> curenv s' = curenv s \<and>
           scheduler_status s' = scheduler_status s \<and>
           (\<forall>n. env_status (env_of s' n) = (if n \<in> set es then ENV_READY else env_status (env_of s n))) \<and>
           distinct (cur_list s' @ (rev es @ q) @ env_new_queue s' @ env_exit_queue s')"
  using assms
proof (induction es arbitrary: q s)
  case (Cons e es)
  have e: "e \<in> set (env_new_queue s)"
    using Cons.prems(3) by simp
  obtain s1 where s1: "new_to_ready e s = Inr s1" "rr_state (e # q) s1"
    "env_new_queue s1 = remove1 e (env_new_queue s)" "env_exit_queue s1 = env_exit_queue s"
    "curenv s1 = curenv s" "env_status (env_of s1 e) = ENV_READY"
    "\<forall>n. n \<noteq> e \<longrightarrow> env_of s1 n = env_of s n" "scheduler_status s1 = scheduler_status s"
    "distinct (cur_list s1 @ (e # q) @ env_new_queue s1 @ env_exit_queue s1)"
    using new_to_ready_ok [OF Cons.prems(1) e Cons.prems(2)] by blast
  have n1: "set (env_new_queue s1) = set (env_new_queue s) - {e}"
    using Cons.prems(2) by (simp add: s1(3))
  have sub: "set es \<subseteq> set (env_new_queue s1)"
    using Cons.prems(3,4) n1 by auto
  obtain s2 where s2: "for_each new_to_ready es s1 = Inr s2" "rr_state (rev es @ e # q) s2"
    "set (env_new_queue s2) = set (env_new_queue s1) - set es"
    "env_exit_queue s2 = env_exit_queue s1" "curenv s2 = curenv s1"
    "scheduler_status s2 = scheduler_status s1"
    "\<forall>n. env_status (env_of s2 n) = (if n \<in> set es then ENV_READY else env_status (env_of s1 n))"
    "distinct (cur_list s2 @ (rev es @ e # q) @ env_new_queue s2 @ env_exit_queue s2)"
    using Cons.IH [OF s1(2,9) sub] Cons.prems(4) by auto
  have "env_status (env_of s2 n) = (if n \<in> set (e # es) then ENV_READY else env_status (env_of s n))" for n
    using s2(7) s1(6,7) by (cases "n = e") auto
  then show ?case
    using s1 s2 n1 by (intro exI [of _ s2]) auto
qed auto

text \<open>Starting all loaded environments while another one runs.\<close>

lemma run_all_ok:
  assumes q: "rr_state q s" and d: "distinct (cur_list s @ q @ env_new_queue s @ env_exit_queue s)"
    and st: "scheduler_status s \<noteq> SCH_STOPPED"
  shows "\<exists>s'. sched_run_all cnt s = Inr (Returned, s') \<and> env_new_queue s' = [] \<and>
           rr_state (rev (env_new_queue s) @ q) s' \<and> curenv s' = curenv s \<and>
           env_exit_queue s' = env_exit_queue s \<and>
           (\<forall>n\<in>set (env_new_queue s). env_status (env_of s' n) = ENV_READY)"
proof -
  obtain s' where s': "for_each new_to_ready (env_new_queue s) s = Inr s'"
    "rr_state (rev (env_new_queue s) @ q) s'" "set (env_new_queue s') = {}"
    "env_exit_queue s' = env_exit_queue s" "curenv s' = curenv s" "scheduler_status s' = scheduler_status s"
    "\<forall>n. env_status (env_of s' n) = (if n \<in> set (env_new_queue s) then ENV_READY else env_status (env_of s n))"
    using run_all_loop [OF q d subset_refl] d by auto
  then show ?thesis
    using st by (simp add: sched_run_all_def start_if_stopped_def)
qed

lemma exit_new_loop:
  assumes "rr_state q s" and "set es \<subseteq> set (env_new_queue s)" and "distinct es"
    and "distinct (env_new_queue s)"
  shows "\<exists>s'. for_each (exit_new_entry envId) es (f, s) =
             Inr (f \<or> (\<exists>n\<in>set es. env_id (env_of s n) = envId), s') \<and> rr_state q s' \<and>
           env_new_queue s' = filter (\<lambda>n. \<not> (n \<in> set es \<and> env_id (env_of s n) = envId)) (env_new_queue s) \<and>
           env_exit_queue s' = env_exit_queue s \<and> curenv s' = curenv s \<and>
           sset s' = sset s \<and>
           (\<forall>n. env_id (env_of s' n) = env_id (env_of s n))"
  using assms
proof (induction es arbitrary: f s)
  case Nil
  then show ?case by simp
next
  case (Cons e es)
  show ?case
  proof (cases "env_id (env_of s e) = envId")
    case True
    let ?s1 = "set_status e ENV_UNKNOWN (s\<lparr>env_new_queue := remove1 e (env_new_queue s)\<rparr>)"
    have e: "e \<in> set (env_new_queue s)"
      using Cons.prems(2) by simp
    have step: "exit_new_entry envId e (f, s) = Inr (True, ?s1)"
      using e True by (simp add: exit_new_entry_def sched_remove_new_def list_remove_def)
    have q1: "rr_state q ?s1"
      using Cons.prems(1) by (simp add: rr_state_cong)
    have sub: "set es \<subseteq> set (env_new_queue ?s1)" "distinct es" "distinct (env_new_queue ?s1)"
      using Cons.prems(2-4) by auto
    have ids: "env_id (env_of ?s1 n) = env_id (env_of s n)" for n
      by simp
    obtain s' where "for_each (exit_new_entry envId) es (True, ?s1) =
        Inr (True \<or> (\<exists>n\<in>set es. env_id (env_of ?s1 n) = envId), s')" "rr_state q s'"
      "env_new_queue s' = filter (\<lambda>n. \<not> (n \<in> set es \<and> env_id (env_of ?s1 n) = envId)) (env_new_queue ?s1)"
      "env_exit_queue s' = env_exit_queue ?s1" "curenv s' = curenv ?s1" "sset s' = sset ?s1"
      "\<forall>n. env_id (env_of s' n) = env_id (env_of ?s1 n)"
      using Cons.IH [OF q1 sub, of True] by blast
    moreover have "filter (\<lambda>n. \<not> (n \<in> set es \<and> env_id (env_of s n) = envId)) (remove1 e (env_new_queue s)) =
        filter (\<lambda>n. \<not> (n \<in> set (e # es) \<and> env_id (env_of s n) = envId)) (env_new_queue s)"
      using True Cons.prems(4) by (auto simp: distinct_remove1_removeAll removeAll_filter_not_eq intro: filter_cong)
    ultimately show ?thesis
      using step True ids by (intro exI [of _ s']) simp
  next
    case False
    have "exit_new_entry envId e (f, s) = Inr (f, s)"
      using False by (simp add: exit_new_entry_def)
    moreover have "filter (\<lambda>n. \<not> (n \<in> set (e # es) \<and> env_id (env_of s n) = envId)) (env_new_queue s) =
        filter (\<lambda>n. \<not> (n \<in> set es \<and> env_id (env_of s n) = envId)) (env_new_queue s)"
      using False by (intro filter_cong) auto
    ultimately show ?thesis
      using Cons.IH [of s f] Cons.prems False by simp
  qed
qed

lemma insert_exit_ok:
  assumes q: "rr_state q s" and e: "e \<notin> set (env_exit_queue s)" and b: "isBufferingEnabled (sset s) = 0"
  shows "sched_insert_exit (Some e) s =
           Inr (set_status e ENV_EXIT s\<lparr>env_exit_queue := e # env_exit_queue s\<rparr>)"
  using assms by (simp add: sched_insert_exit_def enqueue_def list_insert_head_def Let_def)

text \<open>The three places an environment can be found in by \<^verbatim>\<open>sched_exit_env\<close>.\<close>

lemma exit_new_env:
  assumes q: "rr_state q s" and d: "distinct (env_new_queue s)"
    and e: "n \<in> set (env_new_queue s)" "env_id (env_of s n) = envId"
    and c: "curenv s = Some c" "env_id (env_of s c) \<noteq> envId"
  shows "\<exists>s'. sched_exit_env cnt envId s = Inr (Returned, s') \<and> rr_state q s' \<and>
           env_new_queue s' = filter (\<lambda>n. env_id (env_of s n) \<noteq> envId) (env_new_queue s) \<and>
           env_exit_queue s' = env_exit_queue s \<and> curenv s' = Some c"
proof -
  have ex: "(False \<or> (\<exists>m\<in>set (env_new_queue s). env_id (env_of s m) = envId)) = True"
    using e by auto
  obtain s' where s': "for_each (exit_new_entry envId) (env_new_queue s) (False, s) = Inr (True, s')"
    "rr_state q s'" "env_exit_queue s' = env_exit_queue s" "curenv s' = curenv s"
    "env_new_queue s' = filter (\<lambda>m. \<not> (m \<in> set (env_new_queue s) \<and> env_id (env_of s m) = envId)) (env_new_queue s)"
    "\<forall>n. env_id (env_of s' n) = env_id (env_of s n)"
    using exit_new_loop [OF q subset_refl d d, of envId False] unfolding ex by blast
  have "filter (\<lambda>m. \<not> (m \<in> set (env_new_queue s) \<and> env_id (env_of s m) = envId)) (env_new_queue s) =
      filter (\<lambda>n. env_id (env_of s n) \<noteq> envId) (env_new_queue s)"
    by (intro filter_cong) auto
  then show ?thesis
    using s' c by (simp add: sched_exit_env_def sched_insert_exit_def cur_id_def)
qed

lemma exit_not_new:
  assumes q: "rr_state q s" and d: "distinct (env_new_queue s)"
    and no: "\<forall>n\<in>set (env_new_queue s). env_id (env_of s n) \<noteq> envId"
  shows "for_each (exit_new_entry envId) (env_new_queue s) (False, s) = Inr (False, s)"
proof -
  have "for_each (exit_new_entry envId) es (False, s) = Inr (False, s)"
    if "\<forall>n\<in>set es. env_id (env_of s n) \<noteq> envId" for es
    using that by (induction es) (simp_all add: exit_new_entry_def)
  then show ?thesis
    using no by blast
qed

lemma exit_ready_env:
  assumes q: "rr_state q s" and d: "distinct (cur_list s @ q @ env_new_queue s @ env_exit_queue s)"
    and no: "\<forall>n\<in>set (env_new_queue s). env_id (env_of s n) \<noteq> envId"
    and f: "find (\<lambda>n. env_id (env_of s n) = envId) q = Some e" and b: "isBufferingEnabled (sset s) = 0"
    and c: "curenv s = Some c" "env_id (env_of s c) \<noteq> envId"
  shows "sched_exit_env cnt envId s = Inr (Returned,
           set_status e ENV_EXIT (set_ready 0 (remove1 e q) s)\<lparr>env_exit_queue := e # env_exit_queue s\<rparr>)"
proof -
  have dn: "distinct (env_new_queue s)"
    using d by simp
  have e: "e \<in> set q"
    using f by (auto simp: find_Some_iff)
  have ec: "e \<noteq> c"
    using d e c(1) by (auto simp: cur_list_def)
  have lp: "exit_ready_loop envId [0..<num_of_ready_queues s] s = Inr (Some e, set_ready 0 (remove1 e q) s)"
    using q e f by (simp add: rr_state_def ready_queue_def find_env_in_queue_def list_remove_def)
  let ?s1 = "set_ready 0 (remove1 e q) s"
  have x: "env_exit_queue ?s1 = env_exit_queue s" "sset ?s1 = sset s" "curenv ?s1 = curenv s"
    "env_of ?s1 = env_of s"
    by (simp_all add: set_ready_def)
  have "e \<notin> set (env_exit_queue ?s1)"
    using d e by (auto simp: x)
  then have ins: "sched_insert_exit (Some e) ?s1 =
      Inr (set_status e ENV_EXIT ?s1\<lparr>env_exit_queue := e # env_exit_queue ?s1\<rparr>)"
    using b x(2) by (simp add: sched_insert_exit_def enqueue_def list_insert_head_def Let_def)
  show ?thesis
    using c ec by (simp add: sched_exit_env_def exit_not_new [OF q dn no] lp ins cur_id_def x)
qed

section \<open>Reachable schedules\<close>

text \<open>
  The events that change the queues: a program is loaded into an environment that is on no
  queue, one or all loaded environments are started, an environment exits, the ready ones are
  all sent to the exit queue, the clock ticks.
\<close>

inductive sched_step :: "sched \<Rightarrow> sched \<Rightarrow> bool" where
  load: "sched_new_env (Some e) s = Inr s' \<Longrightarrow>
    e \<notin> set (cur_list s @ concat (env_ready_queues s) @ env_new_queue s @ env_exit_queue s) \<Longrightarrow>
    sched_step s s'"
| run_env: "sched_run_env cnt envId s = Inr (k, s') \<Longrightarrow> sched_step s s'"
| run_all: "sched_run_all cnt s = Inr (k, s') \<Longrightarrow> sched_step s s'"
| exit: "sched_exit_env cnt envId s = Inr (k, s') \<Longrightarrow> sched_step s s'"
| tick: "clock_interrupt_handler cnt s = Inr (k, s') \<Longrightarrow> sched_step s s'"

inductive sched_reachable :: "sched \<Rightarrow> sched \<Rightarrow> bool" for s0 where
  start: "sched_reachable s0 s0"
| step: "sched_reachable s0 s \<Longrightarrow> sched_step s s' \<Longrightarrow> sched_reachable s0 s'"

definition all_envs :: "nat list \<Rightarrow> sched \<Rightarrow> nat list" where
  "all_envs q s = cur_list s @ q @ env_new_queue s @ env_exit_queue s"

lemma sched_inv_iff: "sched_inv s \<longleftrightarrow> (\<exists>q. rr_state q s \<and> distinct (all_envs q s))"
  by (simp add: sched_inv_def all_envs_def)

lemma rr_state_svm [simp]:
  "rr_state q (s\<lparr>svm := v\<rparr>) = rr_state q s" "cur_list (s\<lparr>svm := v\<rparr>) = cur_list s"
  "all_envs q (s\<lparr>svm := v\<rparr>) = all_envs q s"
  by (simp_all add: rr_state_def cur_list_def all_envs_def)

lemma fos_scheduler_inv:
  assumes q: "rr_state q s" and d: "distinct (all_envs q s)" and r: "fos_scheduler cnt s = Inr (k, s')"
  shows "sched_inv s'"
proof -
  let ?l = "cur_list s @ q"
  have s': "rr_state (butlast ?l) s'" "curenv s' = (if ?l = [] then None else Some (last ?l))"
    "env_new_queue s' = env_new_queue s" "env_exit_queue s' = env_exit_queue s"
    using fos_scheduler_RR [OF q, of cnt] r by (auto split: if_splits)
  have "distinct (all_envs (butlast ?l) s')"
  proof (cases "?l = []")
    case True
    then show ?thesis
      using d s' by (auto simp: all_envs_def cur_list_def)
  next
    case False
    then have l: "?l = butlast ?l @ [last ?l]"
      by simp
    have "distinct ((butlast ?l @ [last ?l]) @ env_new_queue s @ env_exit_queue s)"
      using d unfolding all_envs_def by (subst l [symmetric]) simp
    then show ?thesis
      using False s' by (simp add: all_envs_def cur_list_def del: append_butlast_last_id)
  qed
  then show ?thesis
    using s'(1) by (auto simp: sched_inv_iff)
qed

lemma start_if_stopped_inv:
  assumes "rr_state q s" and "distinct (all_envs q s)" and "start_if_stopped cnt s = Inr (k, s')"
  shows "sched_inv s'"
  using assms fos_scheduler_inv [OF assms(1,2)]
  by (auto simp: start_if_stopped_def sched_inv_iff split: if_splits)

lemma insert_exit_fields:
  assumes "sched_insert_exit (Some e) s = Inr s'"
  shows "env_new_queue s' = env_new_queue s" and "env_exit_queue s' = e # env_exit_queue s"
    and "curenv s' = curenv s" and "rr_state q s' = rr_state q s"
  using assms
  by (auto simp: sched_insert_exit_def enqueue_def list_insert_head_def rr_state_def cur_list_def
      Let_def split: if_splits)

lemma drop_cur_inv:
  assumes "rr_state q s" and "distinct (all_envs q s)"
  shows "rr_state q (s\<lparr>curenv := None\<rparr>)" and "distinct (all_envs q (s\<lparr>curenv := None\<rparr>))"
  using assms by (auto simp: rr_state_def all_envs_def cur_list_def)

text \<open>The tail of \<^verbatim>\<open>sched_exit_env\<close> once the environment has left its place.\<close>

lemma exit_tail_inv:
  assumes q: "rr_state q s" and d: "distinct (all_envs q s)"
    and p: "case p of None \<Rightarrow> True | Some e \<Rightarrow> e \<notin> set (q @ env_new_queue s) \<and>
              (e \<in> set (cur_list s) \<longrightarrow> cur_id s = Inr envId)"
    and r: "andthen (sched_insert_exit p s) (\<lambda>s. andthen (cur_id s) (\<lambda>c.
         if c = envId then fos_scheduler cnt (s\<lparr>curenv := None\<rparr>) else Inr (Returned, s))) = Inr (k, s')"
  shows "sched_inv s'"
proof -
  obtain s1 c where s1: "sched_insert_exit p s = Inr s1" "cur_id s1 = Inr c"
    "(if c = envId then fos_scheduler cnt (s1\<lparr>curenv := None\<rparr>) else Inr (Returned, s1)) = Inr (k, s')"
    using r by auto
  have q1: "rr_state q s1"
    using s1(1) q insert_exit_fields(4) [of _ s s1] by (cases p) (auto simp: sched_insert_exit_def)
  show ?thesis
  proof (cases p)
    case None
    then have "s1 = s"
      using s1(1) by (simp add: sched_insert_exit_def)
    then show ?thesis
      using s1(3) q d fos_scheduler_inv [OF drop_cur_inv [OF q d]]
      by (auto simp: sched_inv_iff split: if_splits)
  next
    case (Some e)
    note f = insert_exit_fields [OF s1(1) [unfolded Some]]
    have id1: "e \<in> set (cur_list s) \<Longrightarrow> c = envId"
    proof -
      assume "e \<in> set (cur_list s)"
      then have "cur_id s = Inr envId" "curenv s = Some e"
        using p Some by (auto simp: cur_list_def split: option.splits)
      moreover have "env_id (env_of s1 n) = env_id (env_of s n)" for n
        using s1(1) Some
        by (auto simp: sched_insert_exit_def enqueue_def list_insert_head_def Let_def cleanup_buffers_def
            on_mem_def env_of_def set_status_def split: if_splits)
      ultimately show "c = envId"
        using s1(2) f(3) by (auto simp: cur_id_def)
    qed
    have ne: "e \<notin> set (env_exit_queue s)"
      using s1(1) Some by (auto simp: sched_insert_exit_def enqueue_def list_insert_head_def Let_def split: if_splits)
    show ?thesis
    proof (cases "c = envId")
      case True
      have "distinct (all_envs q (s1\<lparr>curenv := None\<rparr>))"
        using d p Some ne f by (auto simp: all_envs_def cur_list_def)
      then show ?thesis
        using True s1(3) q1 fos_scheduler_inv [of q "s1\<lparr>curenv := None\<rparr>"]
        by (auto simp: rr_state_def cur_list_def)
    next
      case False
      then have "e \<notin> set (cur_list s)"
        using id1 by auto
      then have "distinct (all_envs q s1)"
        using d p Some ne f by (auto simp: all_envs_def cur_list_def)
      then show ?thesis
        using False s1(3) q1 by (auto simp: sched_inv_iff)
    qed
  qed
qed

lemma find_mem: "find P xs = Some x \<Longrightarrow> x \<in> set xs"
  by (auto simp: find_Some_iff)

lemma exit_env_inv:
  assumes q: "rr_state q s" and d: "distinct (all_envs q s)"
    and r: "sched_exit_env cnt envId s = Inr (k, s')"
  shows "sched_inv s'"
proof -
  have dn: "distinct (env_new_queue s)"
    using d by (simp add: all_envs_def)
  obtain s1 where s1: "for_each (exit_new_entry envId) (env_new_queue s) (False, s) =
      Inr (\<exists>n\<in>set (env_new_queue s). env_id (env_of s n) = envId, s1)"
    "rr_state q s1" "env_new_queue s1 =
       filter (\<lambda>n. \<not> (n \<in> set (env_new_queue s) \<and> env_id (env_of s n) = envId)) (env_new_queue s)"
    "env_exit_queue s1 = env_exit_queue s" "curenv s1 = curenv s"
    using exit_new_loop [OF q subset_refl dn dn, of envId False] by auto
  have d1: "distinct (all_envs q s1)"
    using d s1 by (auto simp: all_envs_def cur_list_def)
  show ?thesis
  proof (cases "\<exists>n\<in>set (env_new_queue s). env_id (env_of s n) = envId")
    case True
    then show ?thesis
      using r s1(1) exit_tail_inv [OF s1(2) d1, where p = None and envId = envId]
      by (simp add: sched_exit_env_def)
  next
    case False
    have one: "[0..<num_of_ready_queues s1] = [0]"
      using s1(2) by (simp add: rr_state_def)
    show ?thesis
    proof (cases "find (\<lambda>n. env_id (env_of s1 n) = envId) q")
      case (Some e)
      have e: "e \<in> set q"
        using Some by (rule find_mem)
      let ?s2 = "set_ready 0 (remove1 e q) s1"
      have lp: "exit_ready_loop envId [0] s1 = Inr (Some e, ?s2)"
        using rr_state_ready [OF s1(2)] Some e by (simp add: find_env_in_queue_def list_remove_def)
      have q2: "rr_state (remove1 e q) ?s2"
        using s1(2) by (auto simp: rr_state_def set_ready_def cur_list_def)
      have d2: "distinct (all_envs (remove1 e q) ?s2)"
        using d1 by (auto simp: all_envs_def set_ready_def cur_list_def dest: notin_set_remove1)
      have "e \<notin> set (remove1 e q @ env_new_queue ?s2) \<and> e \<notin> set (cur_list ?s2)"
        using d1 e by (auto simp: all_envs_def set_ready_def cur_list_def)
      then show ?thesis
        using r s1(1) False lp exit_tail_inv [OF q2 d2, where p = "Some e" and envId = envId]
        by (simp add: sched_exit_env_def one del: exit_ready_loop.simps)
    next
      case None
      then have lp: "exit_ready_loop envId [0] s1 = Inr (None, s1)"
        using rr_state_ready [OF s1(2)] by (simp add: find_env_in_queue_def)
      obtain c where c: "curenv s1 = Some c"
        using r s1(1) False lp
        by (auto simp: sched_exit_env_def one cur_id_def simp del: exit_ready_loop.simps split: option.splits)
      have "c \<notin> set (q @ env_new_queue s1)"
        using d1 c by (auto simp: all_envs_def cur_list_def)
      then show ?thesis
        using r s1(1,2) d1 False lp c exit_tail_inv [OF s1(2) d1, where p = "Some c" and envId = envId]
        by (auto simp: sched_exit_env_def one cur_id_def cur_list_def sched_inv_iff
            simp del: exit_ready_loop.simps split: if_splits)
    qed
  qed
qed

lemma sched_step_inv:
  assumes "sched_step s s'" and "sched_inv s"
  shows "sched_inv s'"
  using assms
proof (induction rule: sched_step.induct)
  case (load e s s')
  then obtain q where q: "rr_state q s" "distinct (all_envs q s)"
    by (auto simp: sched_inv_iff)
  have "env_ready_queues s = [q]"
    using q(1) by (simp add: rr_state_def)
  then have fresh: "e \<notin> set (all_envs q s)"
    using load(2) by (simp add: all_envs_def)
  have s': "s' = set_status e ENV_NEW s\<lparr>env_new_queue := e # env_new_queue s\<rparr>"
    using load(1) fresh
    by (simp add: sched_new_env_def sched_insert_new_def enqueue_def list_insert_head_def all_envs_def Let_def)
  have "rr_state q s'" "distinct (all_envs q s')"
    using q fresh by (auto simp: s' rr_state_cong all_envs_def cur_list_def)
  then show ?case
    by (auto simp: sched_inv_iff)
next
  case (run_env cnt envId s k s')
  then obtain q where q: "rr_state q s" "distinct (all_envs q s)"
    by (auto simp: sched_inv_iff)
  show ?case
  proof (cases "find_env_in_queue s (env_new_queue s) envId")
    case None
    then show ?thesis
      using run_env by (simp add: sched_run_env_def)
  next
    case (Some e)
    have e: "e \<in> set (env_new_queue s)"
      using Some unfolding find_env_in_queue_def by (rule find_mem)
    obtain s1 where s1: "new_to_ready e s = Inr s1" "rr_state (e # q) s1"
      "distinct (all_envs (e # q) s1)"
      using new_to_ready_ok [OF q(1) e q(2) [unfolded all_envs_def]] unfolding all_envs_def by blast
    then show ?thesis
      using run_env(1) Some start_if_stopped_inv [OF s1(2,3)] by (simp add: sched_run_env_def)
  qed
next
  case (run_all cnt s k s')
  then obtain q where q: "rr_state q s" "distinct (all_envs q s)"
    by (auto simp: sched_inv_iff)
  have dn: "distinct (env_new_queue s)"
    using q(2) by (simp add: all_envs_def)
  obtain s1 where s1: "for_each new_to_ready (env_new_queue s) s = Inr s1"
    "rr_state (rev (env_new_queue s) @ q) s1" "distinct (all_envs (rev (env_new_queue s) @ q) s1)"
    using run_all_loop [OF q(1) q(2) [unfolded all_envs_def] subset_refl dn] unfolding all_envs_def by blast
  then show ?case
    using run_all(1) start_if_stopped_inv [OF s1(2,3)] by (simp add: sched_run_all_def)
next
  case (exit cnt envId s k s')
  then obtain q where "rr_state q s" "distinct (all_envs q s)"
    by (auto simp: sched_inv_iff)
  then show ?case
    using exit(1) by (rule exit_env_inv)
next
  case (tick cnt s k s')
  then obtain q where q: "rr_state q s" "distinct (all_envs q s)"
    by (auto simp: sched_inv_iff)
  obtain v where "fos_scheduler cnt (s\<lparr>svm := v\<rparr>) = Inr (k, s')"
  proof (cases "isPageReplacmentAlgorithmLRU PG_REP_LRU_TIME_APPROX (sset s)")
    case True
    then show ?thesis
      using tick(1) that by (auto simp: clock_interrupt_handler_def)
  next
    case False
    then have "fos_scheduler cnt (s\<lparr>svm := svm s\<rparr>) = Inr (k, s')"
      using tick(1) by (simp add: clock_interrupt_handler_def)
    then show ?thesis
      by (rule that)
  qed
  then show ?case
    using fos_scheduler_inv [of q "s\<lparr>svm := v\<rparr>" cnt k s'] q by simp
qed

lemma sched_reachable_inv: "sched_reachable s0 s \<Longrightarrow> sched_inv s0 \<Longrightarrow> sched_inv s"
  by (induction rule: sched_reachable.induct) (auto intro: sched_step_inv)

section \<open>Example\<close>

text \<open>Environment 0 runs, 1 and 2 are ready, 3 and 4 are loaded; environment \<open>n\<close> has id \<open>100 + n\<close>.\<close>

definition sched_example :: sched where
  "sched_example = \<lparr>svm = vm_example\<lparr>venv := (\<lambda>n. env_example\<lparr>env_id := 100 + of_nat n\<rparr>)\<rparr>,
     stimer = \<lparr>irq_mask_8259A = 0xFFFB, didinit = True, ports = []\<rparr>,
     sset = \<lparr>PageRepAlgoType = PG_REP_CLOCK, EnableModifiedBuffer = 0, EnableBuffering = 0,
       ModifiedBufferLength = 0, page_WS_max_sweeps = 0, last_fault_va = 0, num_repeated_fault = 0\<rparr>,
     env_new_queue = [4, 3], env_exit_queue = [], env_ready_queues = [[2, 1]], ready_queues_ptr = 0,
     quantums = [10], quantums_ptr = 0, num_of_ready_queues = 1, scheduler_status = SCH_STARTED,
     scheduler_method = SCH_RR, curenv = Some 0, old_pf_counter = 0\<rparr>"

lemma sched_example_facts:
  "rr_state [2, 1] sched_example" "curenv sched_example = Some 0"
  "distinct (all_envs [2, 1] sched_example)"
  "env_new_queue sched_example = [4, 3]" "env_exit_queue sched_example = []"
  "env_id (env_of sched_example 3) = 103" "env_id (env_of sched_example 0) = 100"
  "scheduler_status sched_example \<noteq> SCH_STOPPED"
  by (simp_all add: rr_state_def sched_example_def cur_list_def all_envs_def env_of_def SCH_STARTED_def
      SCH_STOPPED_def)

section \<open>Properties\<close>

text \<open>C20: Round robin is fair and exact: under the round robin scheduler with a quantum of 1 to 53, with an
  environment running and others ready, and with a replacement algorithm that keeps no time stamps (the handler
  would first update them), one clock interrupt per environment, each through the interrupt handler, runs each of
  them once, in the order of their waiting time and the interrupted one last, after which the running environment
  and the ready queue are as before.\<close>

theorem round_robin_fair:
  assumes "rr_state q s" and "\<not> isPageReplacmentAlgorithmLRU PG_REP_LRU_TIME_APPROX (sset s)" and "curenv s = Some c"
    and "length cnts = Suc (length q)"
  shows "\<exists>s'. rr_trace cnts s = Inr (map Running (rev q) @ [Running c], s') \<and>
           rr_state q s' \<and> curenv s' = Some c \<and>
           env_new_queue s' = env_new_queue s \<and> env_exit_queue s' = env_exit_queue s"
  using assms by (rule rr_full_round)

theorem round_robin_fair_witness:
  "\<exists>s'. rr_trace [(0, 1), (2, 3), (4, 5)] sched_example =
       Inr (map Running (rev [2, 1]) @ [Running 0], s') \<and>
     rr_state [2, 1] s' \<and> curenv s' = Some 0 \<and>
     env_new_queue s' = env_new_queue sched_example \<and> env_exit_queue s' = env_exit_queue sched_example"
  by (rule round_robin_fair [OF sched_example_facts(1) _ sched_example_facts(2)])
    (simp_all add: sched_example_def isPageReplacmentAlgorithmLRU_def PG_REP_CLOCK_def PG_REP_LRU_TIME_APPROX_def)

text \<open>C19: In every state reached by loading, starting and exiting environments and by clock
  interrupts, the ready, new and exit queues are disjoint lists without repetition, the running
  environment is on none of them, and the next scheduling decision does not fail.\<close>

theorem queues_stay_disjoint:
  assumes "sched_reachable s0 s" and "sched_inv s0"
  shows "sched_inv s \<and> (\<exists>k s'. fos_scheduler cnt s = Inr (k, s') \<and> k \<noteq> Returned)"
proof -
  have inv: "sched_inv s"
    using assms by (rule sched_reachable_inv)
  then obtain q where "rr_state q s"
    by (auto simp: sched_inv_iff)
  then show ?thesis
    using inv fos_scheduler_RR [of q s cnt] by (auto split: if_splits)
qed

theorem queues_stay_disjoint_witness:
  "sched_inv sched_example \<and> (\<exists>k s'. fos_scheduler (7, 0) sched_example = Inr (k, s') \<and> k \<noteq> Returned)"
  using sched_example_facts(1,3)
  by (intro queues_stay_disjoint [OF sched_reachable.start]) (auto simp: sched_inv_iff)

text \<open>Starting all loaded environments moves the whole queue of loaded ones to the ready
  queue, behind those already waiting, with the environment loaded last in front of the others:
  they run in the reverse of the order in which they were loaded.\<close>

theorem run_all_reverses:
  assumes "rr_state q s" and "distinct (all_envs q s)" and "scheduler_status s \<noteq> SCH_STOPPED"
  shows "\<exists>s'. sched_run_all cnt s = Inr (Returned, s') \<and> env_new_queue s' = [] \<and>
           rr_state (rev (env_new_queue s) @ q) s' \<and> curenv s' = curenv s \<and>
           env_exit_queue s' = env_exit_queue s \<and>
           (\<forall>n\<in>set (env_new_queue s). env_status (env_of s' n) = ENV_READY)"
  using assms by (auto simp: all_envs_def intro!: run_all_ok)

theorem run_all_reverses_witness:
  "\<exists>s'. sched_run_all (0, 0) sched_example = Inr (Returned, s') \<and> env_new_queue s' = [] \<and>
     rr_state ([3, 4] @ [2, 1]) s' \<and> curenv s' = curenv sched_example \<and>
     env_exit_queue s' = env_exit_queue sched_example \<and>
     (\<forall>n\<in>set [4, 3]. env_status (env_of s' n) = ENV_READY)"
  using run_all_reverses [OF sched_example_facts(1,3,8), of "(0, 0)"]
  by (simp add: sched_example_facts(4))

text \<open>An environment that is asked to exit while it is still on the queue of loaded ones is
  removed from that queue and put on no other: it does not reach the exit queue and is lost.\<close>

theorem exit_loses_new:
  assumes "rr_state q s" and "distinct (all_envs q s)"
    and "n \<in> set (env_new_queue s)" and "env_id (env_of s n) = envId"
    and "curenv s = Some c" and "env_id (env_of s c) \<noteq> envId"
  shows "\<exists>s'. sched_exit_env cnt envId s = Inr (Returned, s') \<and> n \<notin> set (all_envs q s') \<and>
           rr_state q s' \<and> env_exit_queue s' = env_exit_queue s \<and> curenv s' = Some c"
proof -
  have dn: "distinct (env_new_queue s)"
    using assms(2) by (simp add: all_envs_def)
  obtain s' where "sched_exit_env cnt envId s = Inr (Returned, s')" "rr_state q s'"
    "env_new_queue s' = filter (\<lambda>n. env_id (env_of s n) \<noteq> envId) (env_new_queue s)"
    "env_exit_queue s' = env_exit_queue s" "curenv s' = Some c"
    using exit_new_env [OF assms(1) dn assms(3-6), of cnt] by blast
  then show ?thesis
    using assms(2-5) by (intro exI [of _ s']) (auto simp: all_envs_def cur_list_def)
qed

theorem exit_loses_new_witness:
  "\<exists>s'. sched_exit_env (0, 0) 103 sched_example = Inr (Returned, s') \<and> 3 \<notin> set (all_envs [2, 1] s') \<and>
     rr_state [2, 1] s' \<and> env_exit_queue s' = env_exit_queue sched_example \<and> curenv s' = Some 0"
  by (rule exit_loses_new [OF sched_example_facts(1,3) _ sched_example_facts(6,2)])
    (simp_all add: sched_example_facts)

end
