(* ===== verification/Env_Table.thy ===== *)
theory Env_Table
  imports Sched
begin

text \<open>
  The table of environments: allocation, identifiers and initialisation of
  \<^verbatim>\<open>struct Env\<close> in \<^verbatim>\<open>kern/proc/user_environment.c\<close>, with the
  constants of \<^verbatim>\<open>inc/environment_definitions.h\<close> and the two logarithm helpers of
  \<^verbatim>\<open>kern/tests/utilities.c\<close> they are computed with. The saved registers
  \<^verbatim>\<open>env_tf\<close> and the three LRU lists of an environment are not modelled; the
  initial placement algorithm of the kernel is the clock, which does not use the lists.
\<close>

section \<open>Constants\<close>

fun count_shifts :: "nat \<Rightarrow> nat" where
  "count_shifts x = (if x div 2 = 0 then 0 else Suc (count_shifts (x div 2)))"

declare count_shifts.simps [simp del]

definition nearest_pow2_ceil :: "u32 \<Rightarrow> u32" where
  "nearest_pow2_ceil x = (if x \<le> 1 then 1 else push_bit (count_shifts (unat (x - 1))) 2)"

definition log2_ceil :: "u32 \<Rightarrow> nat" where
  "log2_ceil x = (if x \<le> 1 then 1 else 2 + count_shifts (unat (x - 1)))"

definition sizeof_Env :: u32 where "sizeof_Env = 1520"
definition NENV :: nat where "NENV = unat (PTSIZE div 4 div sizeof_Env)"
definition NEARPOW2NENV :: u32 where "NEARPOW2NENV = nearest_pow2_ceil (of_nat NENV)"
definition ENVGENSHIFT :: nat where "ENVGENSHIFT = log2_ceil (of_nat NENV)"

definition ENVX :: "32 word \<Rightarrow> nat" where
  "ENVX envid = unat (envid AND (NEARPOW2NENV - 1))"

definition USER_PAGES_WS_START :: u32 where "USER_PAGES_WS_START = USER_HEAP_MAX"

section \<open>Allocation\<close>

record etab =
  esched :: sched
  env_free_list :: "nat list"

definition on_vm :: "(vm \<Rightarrow> vm result) \<Rightarrow> etab \<Rightarrow> etab result" where
  "on_vm f t = andthen (f (svm (esched t))) (\<lambda>v. Inr (t\<lparr>esched := (esched t)\<lparr>svm := v\<rparr>\<rparr>))"

definition upd_env :: "nat \<Rightarrow> (env \<Rightarrow> env) \<Rightarrow> etab \<Rightarrow> etab" where
  "upd_env n f t = t\<lparr>esched := (esched t)\<lparr>svm := on_env n f (svm (esched t))\<rparr>\<rparr>"

definition tenv :: "etab \<Rightarrow> nat \<Rightarrow> env" where
  "tenv t n = env_of (esched t) n"

definition init_env :: "nat \<Rightarrow> etab \<Rightarrow> etab result" where
  "init_env iEnv t =
     (let t = upd_env iEnv (\<lambda>e. e\<lparr>env_status := ENV_FREE, env_id := 0\<rparr>) t in
      andthen (list_insert_head (env_free_list t) (Some iEnv)) (\<lambda>fl. Inr (t\<lparr>env_free_list := fl\<rparr>)))"

definition env_init :: "etab \<Rightarrow> etab result" where
  "env_init t = for_each init_env (rev [0..<NENV]) t"

definition allocate_environment :: "etab \<Rightarrow> int \<times> nat option \<times> etab" where
  "allocate_environment t =
     (case list_first (env_free_list t) of
        None \<Rightarrow> (E_NO_FREE_ENV, None, t)
      | Some e \<Rightarrow> (0, Some e, upd_env e (\<lambda>x. x\<lparr>env_status := ENV_UNKNOWN\<rparr>) t))"

definition zero_env :: env where
  "zero_env = \<lparr>env_id = 0, env_parent_id = 0, env_status = 0, env_runs = 0, env_cr3 = 0,
     disk_env_pgdir = 0, disk_env_pgdir_PA = 0, disk_env_tabledir = 0, disk_env_tabledir_PA = 0,
     page_WS_max_size = 0, ptr_pageWorkingSet = [],
     ptr_tws = replicate TWS_MAX_SIZE \<lparr>ws_va = 0, ws_empty = 0, ws_time_stamp = 0, ws_sweeps_counter = 0\<rparr>,
     page_last_WS_index = 0, table_last_WS_index = 0, pageFaultsCounter = 0, tableFaultsCounter = 0,
     nPageIn = 0, nPageOut = 0, nNewPageAdded = 0, initNumStackPages = 0, nClocks = 0\<rparr>"

definition free_environment :: "nat \<Rightarrow> etab \<Rightarrow> etab result" where
  "free_environment e t =
     (let t = upd_env e (\<lambda>_. zero_env\<lparr>env_status := ENV_FREE\<rparr>) t in
      andthen (list_insert_head (env_free_list t) (Some e)) (\<lambda>fl. Inr (t\<lparr>env_free_list := fl\<rparr>)))"

text \<open>
  The error code and the environment stored through the pointer. The index part of the
  identifier is not compared with the size of the array.
\<close>

definition envid2env :: "32 word \<Rightarrow> bool \<Rightarrow> etab \<Rightarrow> (int \<times> nat option) result" where
  "envid2env envid checkperm t =
     (if envid = 0 then Inr (0, curenv (esched t))
      else
        (let e = ENVX envid in
         if NENV \<le> e then Inl Out_Of_Bounds
         else if env_status (tenv t e) = ENV_FREE \<or> env_id (tenv t e) \<noteq> envid then Inr (E_BAD_ENV, None)
         else if checkperm \<and> curenv (esched t) \<noteq> Some e then
           (case curenv (esched t) of
              None \<Rightarrow> Inl Null_Deref
            | Some c \<Rightarrow>
                if env_parent_id (tenv t e) \<noteq> env_id (tenv t c) then Inr (E_BAD_ENV, None)
                else Inr (0, Some e))
         else Inr (0, Some e)))"

section \<open>Initialisation\<close>

definition create_user_page_WS :: "u32 \<Rightarrow> kmem \<Rightarrow> (u32 \<times> kmem) result" where
  "create_user_page_WS numOfElements s =
     andthen (kmalloc (sizeof_WorkingSetElement * numOfElements) s) (\<lambda>(p, s).
       if p = 0 then Inl Panic else Inr (p, s))"

definition create_user_directory :: "kmem \<Rightarrow> (u32 \<times> kmem) result" where
  "create_user_directory s =
     andthen (kmalloc PAGE_SIZE s) (\<lambda>(p, s). if p = 0 then Inl Panic else Inr (p, s))"

text \<open>\<open>p\<close> is the kernel address of the working set array, \<open>dva\<close> follows it in user space.\<close>

definition share_pws_page :: "u32 \<Rightarrow> u32 \<Rightarrow> u32 \<times> kmem \<Rightarrow> (u32 \<times> kmem) result" where
  "share_pws_page dir sva st =
     (let (dva, s) = st in
      andthen (kheap_physical_address sva s) (\<lambda>pa.
      andthen (get_page_table dir dva s) (\<lambda>(ret, pt).
      andthen (if ret = TABLE_NOT_EXIST then create_page_table dir dva s else Inr (pt, s)) (\<lambda>(pt, s).
      andthen (table_write pt (PTX dva) (CONSTRUCT_ENTRY pa (PERM_USER OR PERM_PRESENT)) s) (\<lambda>s.
        Inr (dva + PAGE_SIZE, s))))))"

definition share_pws_at_user_space :: "nat \<Rightarrow> u32 \<Rightarrow> vm \<Rightarrow> vm result" where
  "share_pws_at_user_space n p v =
     on_mem (\<lambda>s. andthen
       (for_pages p (p + sizeof_WorkingSetElement * page_WS_max_size (venv v n))
         (share_pws_page (edir n v)) (USER_PAGES_WS_START, s)) (\<lambda>(_, s). Inr s)) v"

definition unshare_pws_table :: "u32 \<Rightarrow> u32 \<Rightarrow> kmem \<Rightarrow> kmem result" where
  "unshare_pws_table dir tsva s =
     andthen (get_page_table dir tsva s) (\<lambda>(_, uws_table).
     andthen (kfree uws_table s) (table_write dir (PDX tsva) 0))"

definition unshare_pws_at_user_space :: "nat \<Rightarrow> vm \<Rightarrow> vm result" where
  "unshare_pws_at_user_space n v =
     (let nBytes = sizeof_WorkingSetElement * page_WS_max_size (venv v n);
          tsva = ROUNDDOWN USER_PAGES_WS_START PTSIZE;
          tabs = (if USER_PAGES_WS_START + nBytes < USER_PAGES_WS_START then 0
                  else (unat nBytes + 4194303) div 4194304)
      in on_mem (for_each (unshare_pws_table (edir n v))
                  (map (\<lambda>k. tsva + of_nat k * PTSIZE) [0..<tabs])) v)"

definition env_generation :: "32 word \<Rightarrow> 32 word" where
  "env_generation old_id =
     (let generation = (old_id + push_bit ENVGENSHIFT 1) AND NOT (NEARPOW2NENV - 1) in
      if sint generation \<le> 0 then push_bit ENVGENSHIFT 1 else generation)"

definition complete_environment_initialization :: "nat \<Rightarrow> etab \<Rightarrow> etab result" where
  "complete_environment_initialization n t =
     (let dir = env_page_directory (vmem (svm (esched t))) n; cr3 = env_cr3 (tenv t n) in
      andthen (on_vm (on_mem (table_write dir (PDX VPT) (cr3 OR PERM_PRESENT OR PERM_WRITEABLE))) t) (\<lambda>t.
      andthen (on_vm (on_mem (table_write dir (PDX UVPT) (cr3 OR PERM_PRESENT OR PERM_USER))) t) (\<lambda>t.
        let t = upd_env n (\<lambda>e. e\<lparr>disk_env_pgdir := 0, disk_env_pgdir_PA := 0, disk_env_tabledir := 0,
                               disk_env_tabledir_PA := 0,
                               env_id := env_generation (env_id e) OR of_nat n\<rparr>) t;
            parent = (case curenv (esched t) of None \<Rightarrow> 0 | Some c \<Rightarrow> env_id (tenv t c));
            t = upd_env n (\<lambda>e. e\<lparr>env_parent_id := parent, env_status := ENV_NEW, env_runs := 0\<rparr>) t
        in andthen (list_remove (env_free_list t) (Some n)) (\<lambda>fl. Inr (t\<lparr>env_free_list := fl\<rparr>)))))"

definition blank_wse :: wse where
  "blank_wse = \<lparr>ws_va = 0, ws_empty = 1, ws_time_stamp = 0, ws_sweeps_counter = 0\<rparr>"

definition init_directory :: "u32 \<Rightarrow> kmem \<Rightarrow> kmem" where
  "init_directory dir s =
     s\<lparr>tables := (tables s)(dir := (\<lambda>i. if i < PDX USER_TOP then 0
         else if i < 1024 then tables s (ptr_page_directory s) i else tables s dir i))\<rparr>"

definition initialize_environment :: "nat \<Rightarrow> u32 \<Rightarrow> u32 \<Rightarrow> etab \<Rightarrow> etab result" where
  "initialize_environment n ptr_user_page_directory phys_user_page_directory t =
     (let t = upd_env n (\<lambda>e. e\<lparr>env_cr3 := phys_user_page_directory\<rparr>) t in
      andthen (on_vm (on_mem (\<lambda>s. Inr (init_directory ptr_user_page_directory
         (s\<lparr>env_page_directory := (env_page_directory s)(n := ptr_user_page_directory)\<rparr>)))) t) (\<lambda>t.
      andthen (create_user_page_WS (page_WS_max_size (tenv t n)) (vmem (svm (esched t)))) (\<lambda>(p, m).
      andthen (on_vm (\<lambda>v. share_pws_at_user_space n p (set_mem v m)) t) (\<lambda>t.
        complete_environment_initialization n
          (upd_env n (\<lambda>e. e\<lparr>ptr_pageWorkingSet := replicate (unat (page_WS_max_size e)) blank_wse,
             page_last_WS_index := 0, ptr_tws := replicate TWS_MAX_SIZE blank_wse,
             table_last_WS_index := 0, pageFaultsCounter := 0, tableFaultsCounter := 0, nClocks := 0,
             nPageIn := 0, nPageOut := 0, nNewPageAdded := 0\<rparr>) t)))))"

section \<open>Identifiers\<close>

lemma env_constants: "NENV = 689" "NEARPOW2NENV = 1024" "ENVGENSHIFT = 11"
proof -
  show n: "NENV = 689"
    by (simp add: NENV_def PTSIZE_def sizeof_Env_def unat_div)
  have "count_shifts 688 = 9"
    by (simp add: count_shifts.simps)
  then show "NEARPOW2NENV = 1024" "ENVGENSHIFT = 11"
    by (simp_all add: NEARPOW2NENV_def ENVGENSHIFT_def n nearest_pow2_ceil_def log2_ceil_def push_bit_eq_mult
        word_le_nat_alt)
qed

lemma sint_pos_iff: "0 < sint (w :: 32 word) \<longleftrightarrow> w \<noteq> 0 \<and> \<not> bit w 31"
proof -
  have "bit w 31 \<longleftrightarrow> sint w < 0"
    using bit_last_iff [of w] by simp
  moreover have "sint w = 0 \<longleftrightarrow> w = 0"
    by (simp add: signed_eq_0_iff)
  ultimately show ?thesis
    by auto
qed

lemma index_bits: "n < 1024 \<Longrightarrow> bit (of_nat n :: 32 word) k \<Longrightarrow> k < 10"
proof -
  assume n: "n < 1024" and b: "bit (of_nat n :: 32 word) k"
  have "take_bit 10 (of_nat n :: 32 word) = of_nat n"
    by (rule take_bit_small) (use n in \<open>simp add: unat_of_nat\<close>)
  then show "k < 10"
    using b by (metis bit_take_bit_iff)
qed

lemma generation_facts:
  shows "env_generation old AND 1023 = 0" and "0 < sint (env_generation old)"
proof -
  let ?g = "(old + push_bit 11 1) AND NOT 1023 :: 32 word"
  have 0: "?g AND 1023 = 0" "(push_bit 11 1 :: 32 word) AND 1023 = 0"
    by (simp_all add: and.assoc push_bit_eq_mult)
  have 1: "0 < sint (push_bit 11 1 :: 32 word)"
    by (simp add: push_bit_eq_mult)
  show "env_generation old AND 1023 = 0" "0 < sint (env_generation old)"
    using 0 1 by (simp_all add: env_generation_def env_constants Let_def del: push_bit_of_1 cong: if_cong)
qed

lemma id_facts:
  fixes n :: nat and old :: "32 word"
  assumes "n < NENV"
  defines "i \<equiv> env_generation old OR of_nat n"
  shows "ENVX i = n" and "0 < sint i" and "i \<noteq> 0"
proof -
  have n: "n < 1024"
    using assms(1) by (simp add: env_constants)
  have m: "(1023 :: 32 word) = mask 10"
    by (simp add: mask_eq_exp_minus_1)
  have low: "\<not> bit (env_generation old) k" if "k < 10" for k
  proof -
    have "\<not> bit (env_generation old AND mask 10) k"
      using generation_facts(1) [of old] by (simp only: m [symmetric] bit_0_eq) simp
    then show ?thesis
      using that by (simp add: bit_and_iff bit_mask_iff)
  qed
  have "i AND 1023 = of_nat n"
    unfolding i_def m
    by (rule bit_eqI) (auto simp: bit_and_iff bit_or_iff bit_mask_iff low dest: index_bits [OF n])
  then show "ENVX i = n"
    using n by (simp add: ENVX_def env_constants unat_of_nat)
  have g: "\<not> bit (env_generation old) 31" "env_generation old \<noteq> 0"
    using generation_facts(2) [of old] by (auto simp: sint_pos_iff)
  have "\<not> bit (of_nat n :: 32 word) 31"
    using index_bits [OF n, of 31] by auto
  then have "\<not> bit i 31"
    using g by (simp add: i_def bit_or_iff)
  moreover show "i \<noteq> 0"
    using g(2) by (simp add: i_def or_eq_0_iff)
  ultimately show "0 < sint i"
    by (simp add: sint_pos_iff)
qed

lemma upd_env_simps [simp]:
  "env_free_list (upd_env n f t) = env_free_list t"
  "tenv (upd_env n f t) m = (if m = n then f (tenv t n) else tenv t m)"
  "curenv (esched (upd_env n f t)) = curenv (esched t)"
  "vmem (svm (esched (upd_env n f t))) = vmem (svm (esched t))"
  by (simp_all add: upd_env_def tenv_def env_of_def)

definition put_mem :: "kmem \<Rightarrow> etab \<Rightarrow> etab" where
  "put_mem m t = t\<lparr>esched := (esched t)\<lparr>svm := set_mem (svm (esched t)) m\<rparr>\<rparr>"

lemma put_mem_simps [simp]:
  "tenv (put_mem m t) = tenv t" "env_free_list (put_mem m t) = env_free_list t"
  "curenv (esched (put_mem m t)) = curenv (esched t)" "vmem (svm (esched (put_mem m t))) = m"
  "tenv (t\<lparr>env_free_list := fl\<rparr>) = tenv t"
  by (simp_all add: put_mem_def tenv_def env_of_def fun_eq_iff)

lemma on_vm_mem_write:
  "dir \<noteq> 0 \<Longrightarrow> on_vm (on_mem (table_write dir i x)) t =
     Inr (put_mem (set_entry dir i x (vmem (svm (esched t)))) t)"
  by (simp add: on_vm_def on_mem_def set_mem_def put_mem_def)

lemma complete_ok:
  assumes n: "n < NENV" and dir: "env_page_directory (vmem (svm (esched t))) n \<noteq> 0"
    and fl: "n \<in> set (env_free_list t)"
  shows "\<exists>t'. complete_environment_initialization n t = Inr t' \<and>
           env_id (tenv t' n) = env_generation (env_id (tenv t n)) OR of_nat n \<and>
           env_status (tenv t' n) = ENV_NEW \<and> env_free_list t' = remove1 n (env_free_list t) \<and>
           curenv (esched t') = curenv (esched t) \<and> (\<forall>m. m \<noteq> n \<longrightarrow> tenv t' m = tenv t m)"
  using dir fl
  by (simp add: complete_environment_initialization_def on_vm_mem_write list_remove_def Let_def)

lemma lookup_ok:
  assumes "n < NENV" and "ENVX i = n" and "i \<noteq> 0" and "env_id (tenv t n) = i"
    and "env_status (tenv t n) \<noteq> ENV_FREE"
  shows "envid2env i False t = Inr (0, Some n)"
  using assms by (simp add: envid2env_def Let_def)

text \<open>An identifier from user space whose index part is not below \<open>NENV\<close>.\<close>

lemma envid2env_past_array: "envid2env 1023 c t = Inl Out_Of_Bounds"
  by (simp add: envid2env_def ENVX_def env_constants)

section \<open>Example\<close>

definition etab_example :: etab where
  "etab_example = \<lparr>esched = sched_example, env_free_list = [5, 6]\<rparr>"

lemma etab_example_facts:
  "env_free_list etab_example = [5, 6]"
  "env_page_directory (vmem (svm (esched etab_example))) n = 0xF0200000"
  "env_id (tenv etab_example 5) = 105"
  by (simp_all add: etab_example_def sched_example_def vm_example_def kmem_example_def
      tenv_def env_of_def)

section \<open>Properties\<close>

text \<open>C27: Initialising an environment gives it a positive identifier whose index part is its place
  in the array, takes it off the free list, and the identifier looks it up again; the
  identifier it had before no longer does.\<close>

theorem env_id_roundtrip:
  assumes "n < NENV" and "env_page_directory (vmem (svm (esched t))) n \<noteq> 0"
    and "n \<in> set (env_free_list t)" and "env_id (tenv t n) = old"
  shows "\<exists>t' i. complete_environment_initialization n t = Inr t' \<and> env_id (tenv t' n) = i \<and>
           0 < sint i \<and> ENVX i = n \<and> envid2env i False t' = Inr (0, Some n) \<and>
           (old \<noteq> i \<and> old \<noteq> 0 \<and> ENVX old = n \<longrightarrow> envid2env old False t' = Inr (E_BAD_ENV, None)) \<and>
           env_free_list t' = remove1 n (env_free_list t)"
proof -
  obtain t' where t': "complete_environment_initialization n t = Inr t'"
    "env_id (tenv t' n) = env_generation (env_id (tenv t n)) OR of_nat n"
    "env_status (tenv t' n) = ENV_NEW" "env_free_list t' = remove1 n (env_free_list t)"
    using complete_ok [OF assms(1-3)] by blast
  note i = id_facts [OF assms(1), of old]
  have "envid2env (env_generation old OR of_nat n) False t' = Inr (0, Some n)"
    using t'(2,3) assms(4) i by (intro lookup_ok [OF assms(1) i(1,3)]) (simp_all add: ENV_NEW_def ENV_FREE_def)
  moreover have "old \<noteq> env_generation old OR of_nat n \<and> old \<noteq> 0 \<and> ENVX old = n \<longrightarrow>
      envid2env old False t' = Inr (E_BAD_ENV, None)"
    using t'(2) assms(1,4) by (auto simp: envid2env_def)
  ultimately show ?thesis
    using t' i assms(4) by auto
qed

theorem env_id_roundtrip_witness:
  "\<exists>t' i. complete_environment_initialization 5 etab_example = Inr t' \<and> env_id (tenv t' 5) = i \<and>
     0 < sint i \<and> ENVX i = 5 \<and> envid2env i False t' = Inr (0, Some 5) \<and>
     (105 \<noteq> i \<and> 105 \<noteq> (0 :: 32 word) \<and> ENVX 105 = 5 \<longrightarrow> envid2env 105 False t' = Inr (E_BAD_ENV, None)) \<and>
     env_free_list t' = remove1 5 (env_free_list etab_example)"
  by (rule env_id_roundtrip)
    (simp_all add: env_constants etab_example_facts)

text \<open>Freeing an environment clears its identifier too, so that the generation starts again:
  every environment made in this slot after a free gets the same identifier, and an identifier
  kept from before the free finds the new environment.\<close>

theorem freed_id_is_reused:
  assumes "n < NENV" and "n \<notin> set (env_free_list t)"
    and "env_page_directory (vmem (svm (esched t))) n \<noteq> 0" and "env_id (tenv t n) = 2048 OR of_nat n"
  shows "\<exists>t1 t2. free_environment n t = Inr t1 \<and> complete_environment_initialization n t1 = Inr t2 \<and>
           env_id (tenv t2 n) = 2048 OR of_nat n \<and>
           envid2env (2048 OR of_nat n) False t2 = Inr (0, Some n)"
proof -
  let ?t1 = "upd_env n (\<lambda>_. zero_env\<lparr>env_status := ENV_FREE\<rparr>) t\<lparr>env_free_list := n # env_free_list t\<rparr>"
  have f: "free_environment n t = Inr ?t1"
    using assms(2) by (simp add: free_environment_def list_insert_head_def Let_def)
  have st: "tenv ?t1 m = (if m = n then zero_env\<lparr>env_status := ENV_FREE\<rparr> else tenv t m)"
    "env_page_directory (vmem (svm (esched ?t1))) = env_page_directory (vmem (svm (esched t)))" for m
    by (simp_all add: tenv_def env_of_def upd_env_def)
  have g: "env_generation 0 = 2048"
    by (simp add: env_generation_def env_constants push_bit_eq_mult)
  obtain t2 where t2: "complete_environment_initialization n ?t1 = Inr t2"
    "env_id (tenv t2 n) = env_generation 0 OR of_nat n" "env_status (tenv t2 n) = ENV_NEW"
    using complete_ok [OF assms(1), of ?t1] assms(3) by (auto simp: st zero_env_def)
  note i = id_facts [OF assms(1), of 0, unfolded g]
  have "envid2env (2048 OR of_nat n) False t2 = Inr (0, Some n)"
    using t2(2,3) by (intro lookup_ok [OF assms(1) i(1,3)]) (simp_all add: ENV_NEW_def ENV_FREE_def g)
  then show ?thesis
    using f t2 g by (intro exI [of _ ?t1] exI [of _ t2]) simp
qed

theorem freed_id_is_reused_witness:
  "let t = upd_env 7 (\<lambda>e. e\<lparr>env_id := 2055\<rparr>) etab_example in
   \<exists>t1 t2. free_environment 7 t = Inr t1 \<and> complete_environment_initialization 7 t1 = Inr t2 \<and>
     env_id (tenv t2 7) = 2055 \<and> envid2env 2055 False t2 = Inr (0, Some 7)"
proof -
  have "(2048 OR of_nat 7 :: 32 word) = 2055"
    by simp
  then show ?thesis
    using freed_id_is_reused [of 7 "upd_env 7 (\<lambda>e. e\<lparr>env_id := 2055\<rparr>) etab_example"]
    by (simp add: env_constants etab_example_facts)
qed

end
