(* ===== verification/Semaphore.thy ===== *)
theory Semaphore
  imports Env_Table "HOL-Library.Multiset"
begin

text \<open>
  Semaphores, \<^verbatim>\<open>kern/conc/semaphore_manager.c\<close>. The array is a list of
  \<^verbatim>\<open>MAX_SEMAPHORES\<close> objects; names are strings without their terminating NUL. The
  functions do not check whether a name was found, and then index the array with the (negative)
  error code.
\<close>

section \<open>State\<close>

record semaphore =
  ownerID :: "32 word"
  sem_name :: string
  env_queue :: "nat list"
  sem_value :: "32 word"
  sem_empty :: u8

record sems =
  ssched :: sched
  semaphores :: "semaphore list"
  MAX_SEMAPHORES :: u32

definition sizeof_Semaphore :: u32 where "sizeof_Semaphore = 92"
definition SEM_NAME_LEN :: nat where "SEM_NAME_LEN = 64"

definition free_semaphore :: semaphore where
  "free_semaphore = \<lparr>ownerID = 0, sem_name = [], env_queue = [], sem_value = 0, sem_empty = 1\<rparr>"

section \<open>Objects\<close>

definition create_semaphores_array :: "u32 \<Rightarrow> sems \<Rightarrow> sems result" where
  "create_semaphores_array numOfSemaphores s =
     andthen (kmalloc (numOfSemaphores * sizeof_Semaphore) (vmem (svm (ssched s)))) (\<lambda>(p, m).
       if p = 0 then Inl Panic
       else if 4294967296 \<le> unat numOfSemaphores * unat sizeof_Semaphore then Inl Out_Of_Bounds
       else Inr (s\<lparr>ssched := (ssched s)\<lparr>svm := set_mem (svm (ssched s)) m\<rparr>,
                   MAX_SEMAPHORES := numOfSemaphores,
                   semaphores := replicate (unat numOfSemaphores) free_semaphore\<rparr>))"

fun first_index :: "('a \<Rightarrow> bool) \<Rightarrow> nat \<Rightarrow> 'a list \<Rightarrow> nat option" where
  "first_index P i [] = None"
| "first_index P i (x # xs) = (if P x then Some i else first_index P (Suc i) xs)"

definition set_sem :: "nat \<Rightarrow> (semaphore \<Rightarrow> semaphore) \<Rightarrow> sems \<Rightarrow> sems" where
  "set_sem i f s = s\<lparr>semaphores := (semaphores s)[i := f (semaphores s ! i)]\<rparr>"

text \<open>When the array is full it should be doubled; \<^verbatim>\<open>krealloc\<close> panics.\<close>

definition allocate_semaphore_object :: "sems \<Rightarrow> (int \<times> sems) result" where
  "allocate_semaphore_object s =
     (case first_index (\<lambda>x. sem_empty x \<noteq> 0) 0 (take (unat (MAX_SEMAPHORES s)) (semaphores s)) of
        None \<Rightarrow> andthen (krealloc 0 (2 * MAX_SEMAPHORES s) (vmem (svm (ssched s)))) (\<lambda>_. Inl Panic)
      | Some i \<Rightarrow> Inr (int i, set_sem i (\<lambda>x. x\<lparr>sem_empty := 0\<rparr>) s))"

definition get_semaphore_object_ID :: "32 word \<Rightarrow> string \<Rightarrow> sems \<Rightarrow> int" where
  "get_semaphore_object_ID owner name s =
     (case first_index (\<lambda>x. sem_empty x = 0 \<and> ownerID x = owner \<and> sem_name x = name) 0
             (take (unat (MAX_SEMAPHORES s)) (semaphores s)) of
        None \<Rightarrow> E_SEMAPHORE_NOT_EXISTS
      | Some i \<Rightarrow> int i)"

definition free_semaphore_object :: "u32 \<Rightarrow> sems \<Rightarrow> int \<times> sems" where
  "free_semaphore_object semaphoreObjectID s =
     (if MAX_SEMAPHORES s \<le> semaphoreObjectID then (E_SEMAPHORE_NOT_EXISTS, s)
      else (0, set_sem (unat semaphoreObjectID) (\<lambda>_. free_semaphore) s))"

section \<open>Operations\<close>

definition createSemaphore :: "32 word \<Rightarrow> string \<Rightarrow> u32 \<Rightarrow> sems \<Rightarrow> (int \<times> sems) result" where
  "createSemaphore ownerEnvID semaphoreName initialValue s =
     (let sem_exist = get_semaphore_object_ID ownerEnvID semaphoreName s in
      if sem_exist = E_SEMAPHORE_EXISTS then Inr (E_SEMAPHORE_EXISTS, s)
      else
        andthen (allocate_semaphore_object s) (\<lambda>(obj, s).
          if obj = E_NO_SEMAPHORE then Inr (E_NO_SEMAPHORE, s)
          else if SEM_NAME_LEN \<le> length semaphoreName then Inl Out_Of_Bounds
          else Inr (obj, set_sem (nat obj) (\<lambda>x. x\<lparr>ownerID := ownerEnvID, sem_name := semaphoreName,
                                                    sem_value := initialValue\<rparr>) s)))"

definition sem_index :: "int \<Rightarrow> sems \<Rightarrow> nat result" where
  "sem_index sem s =
     (if 0 \<le> sem \<and> nat sem < length (semaphores s) then Inr (nat sem) else Inl Out_Of_Bounds)"

definition waitSemaphore :: "u8 \<times> u8 \<Rightarrow> 32 word \<Rightarrow> string \<Rightarrow> sems \<Rightarrow> (control \<times> sems) result" where
  "waitSemaphore cnt ownerEnvID semaphoreName s =
     (let myenv = curenv (ssched s) in
      andthen (sem_index (get_semaphore_object_ID ownerEnvID semaphoreName s) s) (\<lambda>i.
        let s = set_sem i (\<lambda>x. x\<lparr>sem_value := sem_value x - 1\<rparr>) s;
            res = sem_value (semaphores s ! i)
        in andthen
          (if sint res < 0 then
             andthen (enqueue (env_queue (semaphores s ! i)) myenv) (\<lambda>q.
             case myenv of
               None \<Rightarrow> Inl Null_Deref
             | Some e \<Rightarrow>
                 Inr ((set_sem i (\<lambda>x. x\<lparr>env_queue := q\<rparr>) s)
                        \<lparr>ssched := (set_status e ENV_BLOCKED (ssched s))\<lparr>curenv := None\<rparr>\<rparr>))
           else Inr s) (\<lambda>s.
        andthen (fos_scheduler cnt (ssched s)) (\<lambda>(k, c). Inr (k, s\<lparr>ssched := c\<rparr>)))))"

definition signalSemaphore :: "32 word \<Rightarrow> string \<Rightarrow> sems \<Rightarrow> sems result" where
  "signalSemaphore ownerEnvID semaphoreName s =
     andthen (sem_index (get_semaphore_object_ID ownerEnvID semaphoreName s) s) (\<lambda>i.
       let s = set_sem i (\<lambda>x. x\<lparr>sem_value := sem_value x + 1\<rparr>) s;
           res = sem_value (semaphores s ! i)
       in if sint res \<le> 0 then
            andthen (dequeue (env_queue (semaphores s ! i))) (\<lambda>(myenv, q).
              let s = set_sem i (\<lambda>x. x\<lparr>env_queue := q\<rparr>) s in
              andthen (sched_insert_ready myenv (ssched s)) (\<lambda>c.
                case myenv of
                  None \<Rightarrow> Inl Null_Deref
                | Some e \<Rightarrow> Inr (s\<lparr>ssched := set_status e ENV_READY c\<rparr>)))
          else Inr s)"

section \<open>Looking a semaphore up\<close>

lemma first_index_Some:
  "first_index P i xs = Some k \<longleftrightarrow>
     (\<exists>j. k = i + j \<and> j < length xs \<and> P (xs ! j) \<and> (\<forall>l<j. \<not> P (xs ! l)))"
proof (induction xs arbitrary: i)
  case (Cons x xs)
  show ?case
  proof (cases "P x")
    case True
    have "j = 0" if "\<forall>l<j. \<not> P ((x # xs) ! l)" for j
      using that True by (cases j) force+
    then show ?thesis
      using True by auto
  next
    case False
    have "(\<exists>j. k = Suc i + j \<and> j < length xs \<and> P (xs ! j) \<and> (\<forall>l<j. \<not> P (xs ! l))) \<longleftrightarrow>
        (\<exists>j. k = i + j \<and> j < length (x # xs) \<and> P ((x # xs) ! j) \<and> (\<forall>l<j. \<not> P ((x # xs) ! l)))"
      (is "?l \<longleftrightarrow> ?r")
    proof
      assume ?l
      then obtain j where "k = Suc i + j" "j < length xs" "P (xs ! j)" "\<forall>l<j. \<not> P (xs ! l)"
        by blast
      then show ?r
        using False by (intro exI [of _ "Suc j"]) (auto simp: nth_Cons less_Suc_eq_0_disj split: nat.splits)
    next
      assume ?r
      then obtain j where j: "k = i + j" "j < length (x # xs)" "P ((x # xs) ! j)"
        "\<forall>l<j. \<not> P ((x # xs) ! l)"
        by blast
      then obtain j' where "j = Suc j'"
        using False by (cases j) auto
      then show ?l
        using j by (intro exI [of _ j']) auto
    qed
    then show ?thesis
      using False Cons.IH by simp
  qed
qed simp

lemma first_index_None: "first_index P i xs = None \<longleftrightarrow> (\<forall>x\<in>set xs. \<not> P x)"
  by (induction xs arbitrary: i) auto

section \<open>No environment is lost\<close>

text \<open>
  A used semaphore has as many blocked environments as its value is below zero; the
  environments of the scheduler's queues and of all semaphore queues are distinct, and come
  from the array of \<^verbatim>\<open>NENV\<close> environments.
\<close>

definition sem_ok :: "semaphore \<Rightarrow> bool" where
  "sem_ok x \<longleftrightarrow>
     (if sem_empty x = 0 then int (length (env_queue x)) = max 0 (- sint (sem_value x))
      else env_queue x = [])"

definition blocked :: "sems \<Rightarrow> nat list" where
  "blocked s = concat (map env_queue (semaphores s))"

definition sem_inv :: "sems \<Rightarrow> bool" where
  "sem_inv s \<longleftrightarrow>
     length (semaphores s) = unat (MAX_SEMAPHORES s) \<and> (\<forall>x\<in>set (semaphores s). sem_ok x) \<and>
     (\<exists>q. rr_state q (ssched s) \<and> distinct (all_envs q (ssched s) @ blocked s) \<and>
        set (all_envs q (ssched s) @ blocked s) \<subseteq> {..<NENV})"

lemma mset_concat_update:
  "i < length xs \<Longrightarrow>
   mset (concat (map f (xs[i := x]))) + mset (f (xs ! i)) = mset (concat (map f xs)) + mset (f x)"
proof (induction xs arbitrary: i)
  case (Cons y ys)
  then show ?case
    by (cases i) (auto simp: ac_simps)
qed simp

lemma fos_scheduler_mset:
  assumes q: "rr_state q s"
  shows "\<exists>k s' q'. fos_scheduler cnt s = Inr (k, s') \<and> rr_state q' s' \<and>
           mset (all_envs q' s') = mset (all_envs q s)"
proof -
  let ?l = "cur_list s @ q"
  obtain s' where s': "fos_scheduler cnt s = Inr (if ?l = [] then Prompt else Running (last ?l), s')"
    "rr_state (butlast ?l) s'" "curenv s' = (if ?l = [] then None else Some (last ?l))"
    "env_new_queue s' = env_new_queue s" "env_exit_queue s' = env_exit_queue s"
    using fos_scheduler_RR [OF q, of cnt] by auto
  have "mset (cur_list s' @ butlast ?l) = mset ?l"
  proof (cases "?l = []")
    case True
    then show ?thesis
      using s'(3) by (simp add: cur_list_def)
  next
    case False
    then have "mset ?l = mset (butlast ?l) + {#last ?l#}"
      by (metis append_butlast_last_id mset.simps mset_append)
    then show ?thesis
      using s'(3) False by (simp add: cur_list_def del: mset_append)
  qed
  then have "mset (all_envs (butlast ?l) s') = mset (all_envs q s)"
    using s'(4,5) by (simp add: all_envs_def ac_simps)
  then show ?thesis
    using s'(1,2) by blast
qed

lemma mset_distinct_subset:
  assumes "mset xs = mset ys"
  shows "distinct xs \<longleftrightarrow> distinct ys" and "set xs = set ys"
  using assms by (auto dest: mset_eq_imp_distinct_iff mset_eq_setD)

lemma sem_inv_by_mset:
  assumes "sem_inv s" and "rr_state q (ssched s)" and "rr_state q' (ssched s')"
    and "mset (all_envs q' (ssched s') @ blocked s') = mset (all_envs q (ssched s) @ blocked s)"
    and "length (semaphores s') = unat (MAX_SEMAPHORES s')" and "\<forall>x\<in>set (semaphores s'). sem_ok x"
  shows "sem_inv s'"
proof -
  obtain q0 where q0: "rr_state q0 (ssched s)" "distinct (all_envs q0 (ssched s) @ blocked s)"
    "set (all_envs q0 (ssched s) @ blocked s) \<subseteq> {..<NENV}"
    using assms(1) by (auto simp: sem_inv_def)
  have "q0 = q"
    using q0(1) assms(2) by (simp add: rr_state_def)
  then show ?thesis
    using q0 mset_distinct_subset [OF assms(4)] assms(3,5,6) unfolding sem_inv_def by blast
qed

lemma set_sem_simps [simp]:
  "ssched (set_sem i f s) = ssched s" "MAX_SEMAPHORES (set_sem i f s) = MAX_SEMAPHORES s"
  "semaphores (set_sem i f s) = (semaphores s)[i := f (semaphores s ! i)]"
  by (simp_all add: set_sem_def)

text \<open>The bound on the number of environments keeps the counter away from its minimum.\<close>

lemma sem_value_bound:
  assumes "sem_inv s" and "i < length (semaphores s)" and "sem_empty (semaphores s ! i) = 0"
  shows "- 25000 < sint (sem_value (semaphores s ! i))"
proof -
  let ?x = "semaphores s ! i"
  obtain q where d: "distinct (all_envs q (ssched s) @ blocked s)"
    and sub: "set (all_envs q (ssched s) @ blocked s) \<subseteq> {..<NENV}"
    using assms(1) by (auto simp: sem_inv_def)
  have mem: "env_queue ?x \<in> set (map env_queue (semaphores s))"
    using assms(2) by simp
  have "distinct (env_queue ?x)"
    using d mem by (simp add: blocked_def distinct_concat_iff)
  moreover have "set (env_queue ?x) \<subseteq> {..<NENV}"
  proof -
    have "?x \<in> set (semaphores s)"
      using assms(2) by simp
    then have "set (env_queue ?x) \<subseteq> set (blocked s)"
      unfolding blocked_def by auto
    then show ?thesis
      using sub by auto
  qed
  ultimately have "length (env_queue ?x) \<le> NENV"
    by (metis card_lessThan card_mono distinct_card finite_lessThan)
  moreover have "sem_ok ?x"
    using assms(1,2) by (simp add: sem_inv_def)
  ultimately show ?thesis
    using assms(3) by (auto simp: sem_ok_def env_constants split: if_splits)
qed

lemma sint_dec: "- 25000 < sint (v :: 32 word) \<Longrightarrow> sint (v - 1) = sint v - 1"
  using sint_range_size [of v] by (simp add: sint_word_ariths signed_take_bit_int_eq_self word_size)

lemma sint_inc: "sint (v :: 32 word) < 2147483647 \<Longrightarrow> sint (v + 1) = sint v + 1"
  using sint_range_size [of v] by (simp add: sint_word_ariths signed_take_bit_int_eq_self word_size)

section \<open>Waiting and signalling\<close>

text \<open>Semaphore \<open>i\<close> is the one the owner and the name find.\<close>

definition sem_found :: "32 word \<Rightarrow> string \<Rightarrow> nat \<Rightarrow> sems \<Rightarrow> bool" where
  "sem_found owner name i s \<longleftrightarrow> get_semaphore_object_ID owner name s = int i"

lemma sem_found_facts:
  assumes "sem_found owner name i s" and "length (semaphores s) = unat (MAX_SEMAPHORES s)"
  shows "i < length (semaphores s)" and "sem_empty (semaphores s ! i) = 0"
    and "sem_index (get_semaphore_object_ID owner name s) s = Inr i"
    and "ownerID (semaphores s ! i) = owner" and "sem_name (semaphores s ! i) = name"
proof -
  obtain k where k: "first_index (\<lambda>x. sem_empty x = 0 \<and> ownerID x = owner \<and> sem_name x = name) 0
      (semaphores s) = Some k" and "int k = int i"
    using assms by (auto simp: sem_found_def get_semaphore_object_ID_def E_SEMAPHORE_NOT_EXISTS_def
        split: option.splits)
  then have "i < length (semaphores s) \<and> sem_empty (semaphores s ! i) = 0 \<and>
      ownerID (semaphores s ! i) = owner \<and> sem_name (semaphores s ! i) = name"
    by (auto simp: first_index_Some)
  then show "i < length (semaphores s)" "sem_empty (semaphores s ! i) = 0"
    "sem_index (get_semaphore_object_ID owner name s) s = Inr i"
    "ownerID (semaphores s ! i) = owner" "sem_name (semaphores s ! i) = name"
    using assms(1) by (auto simp: sem_index_def sem_found_def)
qed

lemma blocked_update:
  "i < length (semaphores s) \<Longrightarrow> mset (blocked (set_sem i f s)) + mset (env_queue (semaphores s ! i)) =
     mset (blocked s) + mset (env_queue (f (semaphores s ! i)))"
  using mset_concat_update [of i "semaphores s" env_queue] by (simp add: blocked_def)

lemma sem_ok_update:
  "\<forall>x\<in>set xs. sem_ok x \<Longrightarrow> i < length xs \<Longrightarrow> sem_ok y \<Longrightarrow> \<forall>x\<in>set (xs[i := y]). sem_ok x"
  using set_update_subset_insert [of xs i y] by auto

lemma wait_ok:
  assumes inv: "sem_inv s" and f: "sem_found owner name i s" and c: "curenv (ssched s) = Some e"
  shows "\<exists>k s'. waitSemaphore cnt owner name s = Inr (k, s') \<and> sem_inv s' \<and>
           sem_value (semaphores s' ! i) = sem_value (semaphores s ! i) - 1 \<and>
           env_queue (semaphores s' ! i) =
             (if sint (sem_value (semaphores s ! i)) \<le> 0 then e # env_queue (semaphores s ! i)
              else env_queue (semaphores s ! i)) \<and>
           (sint (sem_value (semaphores s ! i)) \<le> 0 \<longrightarrow> env_status (env_of (ssched s') e) = ENV_BLOCKED) \<and>
           (\<exists>q q'. rr_state q (ssched s) \<and> rr_state q' (ssched s') \<and>
             mset (all_envs q' (ssched s') @ blocked s') = mset (all_envs q (ssched s) @ blocked s))"
proof -
  obtain q where len: "length (semaphores s) = unat (MAX_SEMAPHORES s)"
    and ok: "\<forall>x\<in>set (semaphores s). sem_ok x" and q: "rr_state q (ssched s)"
    and d: "distinct (all_envs q (ssched s) @ blocked s)"
    using inv by (auto simp: sem_inv_def)
  note fd = sem_found_facts [OF f len]
  let ?x = "semaphores s ! i"
  have okx: "sem_ok ?x"
    using ok fd(1) by simp
  have v: "sint (sem_value ?x - 1) = sint (sem_value ?x) - 1"
    by (rule sint_dec) (rule sem_value_bound [OF inv fd(1,2)])
  show ?thesis
  proof (cases "sint (sem_value ?x) \<le> 0")
    case False
    let ?s = "set_sem i (\<lambda>x. x\<lparr>sem_value := sem_value x - 1\<rparr>) s"
    obtain k c' q' where fs: "fos_scheduler cnt (ssched s) = Inr (k, c')" "rr_state q' c'"
      "mset (all_envs q' c') = mset (all_envs q (ssched s))"
      using fos_scheduler_mset [OF q, of cnt] by blast
    let ?s' = "?s\<lparr>ssched := c'\<rparr>"
    have w: "waitSemaphore cnt owner name s = Inr (k, ?s')"
      using False fd v fs(1) by (simp add: waitSemaphore_def)
    have "mset (blocked ?s') = mset (blocked s)"
      using blocked_update [OF fd(1), of "\<lambda>x. x\<lparr>sem_value := sem_value x - 1\<rparr>"] by (simp add: blocked_def)
    then have ms: "mset (all_envs q' (ssched ?s') @ blocked ?s') = mset (all_envs q (ssched s) @ blocked s)"
      using fs(3) by simp
    have "sem_ok (?x\<lparr>sem_value := sem_value ?x - 1\<rparr>)"
      using okx False v fd(2) by (simp add: sem_ok_def)
    then have "sem_inv ?s'"
      using sem_inv_by_mset [OF inv q _ ms] fs(2) len sem_ok_update [OF ok fd(1)] by simp
    then show ?thesis
      using w False fd(1) fs(2) q ms by (intro exI [of _ k] exI [of _ ?s']) auto
  next
    case True
    have cl: "cur_list (ssched s) = [e]"
      using c by (simp add: cur_list_def)
    have mem: "?x \<in> set (semaphores s)"
      using fd(1) by simp
    have "e \<notin> set (blocked s)"
      using d cl by (auto simp: all_envs_def)
    then have ne: "e \<notin> set (env_queue ?x)"
      using mem unfolding blocked_def by auto
    let ?g = "\<lambda>x. x\<lparr>sem_value := sem_value x - 1, env_queue := e # env_queue x\<rparr>"
    let ?c = "(set_status e ENV_BLOCKED (ssched s))\<lparr>curenv := None\<rparr>"
    have qc: "rr_state q ?c"
      using q by (auto simp: rr_state_def cur_list_def)
    obtain k c' where fs: "fos_scheduler cnt ?c = Inr (k, c')"
      "rr_state (butlast (cur_list ?c @ q)) c'"
      "curenv c' = (if cur_list ?c @ q = [] then None else Some (last (cur_list ?c @ q)))"
      "env_new_queue c' = env_new_queue ?c" "env_exit_queue c' = env_exit_queue ?c"
      "\<forall>n. curenv c' \<noteq> Some n \<longrightarrow> env_of c' n = env_of ?c n"
      using fos_scheduler_RR [OF qc, of cnt] by auto
    obtain q' where q': "rr_state q' c'" "mset (all_envs q' c') = mset (all_envs q ?c)"
      using fos_scheduler_mset [OF qc, of cnt] fs(1) by auto
    let ?s' = "(set_sem i ?g s)\<lparr>ssched := c'\<rparr>"
    have sint1: "sint (sem_value ?x - 1) < 0"
      using v True by simp
    have w: "waitSemaphore cnt owner name s = Inr (k, ?s')"
      using True fd v fs(1) c ne
      by (simp add: waitSemaphore_def enqueue_def list_insert_head_def set_sem_def Let_def)
    have b: "mset (blocked ?s') = add_mset e (mset (blocked s))"
      using blocked_update [OF fd(1), of ?g] by (simp add: blocked_def)
    have cc: "cur_list ?c = []"
      by (simp add: cur_list_def)
    have "mset (all_envs q (ssched s)) = add_mset e (mset (all_envs q ?c))"
      by (simp add: all_envs_def cl cc)
    then have ms: "mset (all_envs q' (ssched ?s') @ blocked ?s') = mset (all_envs q (ssched s) @ blocked s)"
      using q'(2) b by simp
    have "sem_ok (?g ?x)"
      using okx True v fd(2) by (simp add: sem_ok_def)
    then have inv': "sem_inv ?s'"
      using sem_inv_by_mset [OF inv q _ ms] q'(1) len sem_ok_update [OF ok fd(1)] by simp
    have "curenv c' \<noteq> Some e"
    proof
      assume "curenv c' = Some e"
      then have "e \<in> set q"
        using fs(3) by (auto simp: cur_list_def split: if_splits)
      then show False
        using d cl by (auto simp: all_envs_def)
    qed
    then have "env_status (env_of c' e) = ENV_BLOCKED"
      using fs(6) by simp
    then show ?thesis
      using w True fd(1) inv' q q'(1) ms by (intro exI [of _ k] exI [of _ ?s']) auto
  qed
qed

lemma signal_ok:
  assumes inv: "sem_inv s" and f: "sem_found owner name i s"
    and mx: "sint (sem_value (semaphores s ! i)) < 2147483647"
  shows "\<exists>s'. signalSemaphore owner name s = Inr s' \<and> sem_inv s' \<and>
           sem_value (semaphores s' ! i) = sem_value (semaphores s ! i) + 1 \<and>
           (if sint (sem_value (semaphores s ! i)) < 0
            then env_queue (semaphores s ! i) \<noteq> [] \<and>
              env_queue (semaphores s' ! i) = butlast (env_queue (semaphores s ! i)) \<and>
              env_status (env_of (ssched s') (last (env_queue (semaphores s ! i)))) = ENV_READY \<and>
              (\<exists>q. rr_state q (ssched s) \<and>
                rr_state (last (env_queue (semaphores s ! i)) # q) (ssched s'))
            else ssched s' = ssched s \<and> env_queue (semaphores s' ! i) = env_queue (semaphores s ! i)) \<and>
           (\<exists>q q'. rr_state q (ssched s) \<and> rr_state q' (ssched s') \<and>
             mset (all_envs q' (ssched s') @ blocked s') = mset (all_envs q (ssched s) @ blocked s))"
proof -
  obtain q where len: "length (semaphores s) = unat (MAX_SEMAPHORES s)"
    and ok: "\<forall>x\<in>set (semaphores s). sem_ok x" and q: "rr_state q (ssched s)"
    and d: "distinct (all_envs q (ssched s) @ blocked s)"
    using inv by (auto simp: sem_inv_def)
  note fd = sem_found_facts [OF f len]
  let ?x = "semaphores s ! i"
  have mem: "?x \<in> set (semaphores s)"
    using fd(1) by simp
  have okx: "sem_ok ?x"
    using ok mem by simp
  note v = sint_inc [OF mx]
  show ?thesis
  proof (cases "sint (sem_value ?x) < 0")
    case False
    let ?s' = "set_sem i (\<lambda>x. x\<lparr>sem_value := sem_value x + 1\<rparr>) s"
    have w: "signalSemaphore owner name s = Inr ?s'"
      using False fd v by (simp add: signalSemaphore_def)
    have "mset (blocked ?s') = mset (blocked s)"
      using blocked_update [OF fd(1), of "\<lambda>x. x\<lparr>sem_value := sem_value x + 1\<rparr>"] by simp
    then have ms: "mset (all_envs q (ssched ?s') @ blocked ?s') = mset (all_envs q (ssched s) @ blocked s)"
      by simp
    have "sem_ok (?x\<lparr>sem_value := sem_value ?x + 1\<rparr>)"
      using okx False v fd(2) by (simp add: sem_ok_def)
    then have "sem_inv ?s'"
      using sem_inv_by_mset [OF inv q _ ms] q len sem_ok_update [OF ok fd(1)] by simp
    then show ?thesis
      using w False fd(1) q ms by (intro exI [of _ ?s']) auto
  next
    case True
    have "int (length (env_queue ?x)) = - sint (sem_value ?x)"
      using okx True fd(2) by (simp add: sem_ok_def)
    then have ne: "env_queue ?x \<noteq> []"
      using True by auto
    define e where "e = last (env_queue ?x)"
    have el: "env_queue ?x = butlast (env_queue ?x) @ [e]"
      using ne by (simp add: e_def)
    have sub: "set (env_queue ?x) \<subseteq> set (blocked s)"
      using mem unfolding blocked_def by auto
    have dq: "distinct (env_queue ?x)"
      using d mem by (simp add: blocked_def distinct_concat_iff)
    have "e \<in> set (blocked s)"
      using sub ne by (auto simp: e_def)
    then have fresh: "e \<notin> set (cur_list (ssched s) @ q)"
      using d by (auto simp: all_envs_def)
    note ins = sched_inv_enqueue_ready [OF q fresh]
    let ?c = "set_ready 0 (e # q) (set_status e ENV_READY (ssched s))"
    let ?g = "\<lambda>x. x\<lparr>sem_value := sem_value x + 1, env_queue := butlast (env_queue x)\<rparr>"
    let ?s' = "(set_sem i ?g s)\<lparr>ssched := set_status e ENV_READY ?c\<rparr>"
    have "sint (sem_value ?x + 1) \<le> 0"
      using v True by simp
    then have w: "signalSemaphore owner name s = Inr ?s'"
      using fd ins(1) dequeue_last [OF ne dq, folded e_def]
      by (simp add: signalSemaphore_def set_sem_def Let_def)
    have q': "rr_state (e # q) (ssched ?s')"
      using ins(2) by (simp add: rr_state_cong)
    have "mset (env_queue ?x) = add_mset e (mset (butlast (env_queue ?x)))"
      by (subst el) simp
    then have b: "add_mset e (mset (blocked ?s')) = mset (blocked s)"
      using blocked_update [OF fd(1), of ?g] by (simp add: blocked_def)
    have "mset (all_envs (e # q) (ssched ?s')) = add_mset e (mset (all_envs q (ssched s)))"
      by (simp add: all_envs_def) (simp add: set_ready_def)
    then have ms: "mset (all_envs (e # q) (ssched ?s') @ blocked ?s') = mset (all_envs q (ssched s) @ blocked s)"
      unfolding mset_append b [symmetric] by simp
    have "sem_ok (?g ?x)"
      using okx True v fd(2) ne by (simp add: sem_ok_def)
    then have inv': "sem_inv ?s'"
      using sem_inv_by_mset [OF inv q q' ms] len sem_ok_update [OF ok fd(1)] by simp
    have st: "env_status (env_of (ssched ?s') e) = ENV_READY"
      by simp
    have ix: "semaphores ?s' ! i = ?g ?x"
      using fd(1) by simp
    obtain s' where s': "signalSemaphore owner name s = Inr s'" "sem_inv s'"
      "rr_state (e # q) (ssched s')" "env_status (env_of (ssched s') e) = ENV_READY"
      "semaphores s' ! i = ?g ?x"
      "mset (all_envs (e # q) (ssched s') @ blocked s') = mset (all_envs q (ssched s) @ blocked s)"
      using w inv' q' st ix ms by blast
    have sx: "sem_value (semaphores s' ! i) = sem_value ?x + 1"
      "env_queue (semaphores s' ! i) = butlast (env_queue ?x)"
      by (simp_all add: s'(5))
    show ?thesis
      unfolding if_P [OF True] e_def [symmetric] using s'(1-4,6) sx ne q by blast
  qed
qed


section \<open>Every place of an environment\<close>

text \<open>
  The environments that run, are ready, loaded, exited or blocked on a semaphore, and the steps
  that move them between these places: the clock, creating a semaphore, waiting by the running
  environment, signalling.
\<close>

definition placed :: "sems \<Rightarrow> nat multiset" where
  "placed s = mset (cur_list (ssched s) @ concat (env_ready_queues (ssched s)) @
     env_new_queue (ssched s) @ env_exit_queue (ssched s) @ blocked s)"

inductive sem_step :: "sems \<Rightarrow> sems \<Rightarrow> bool" where
  tick: "clock_interrupt_handler cnt (ssched s) = Inr (k, c) \<Longrightarrow> sem_step s (s\<lparr>ssched := c\<rparr>)"
| create: "createSemaphore owner name v s = Inr (r, s') \<Longrightarrow> 0 \<le> sint v \<Longrightarrow> sem_step s s'"
| wait: "waitSemaphore cnt owner name s = Inr (k, s') \<Longrightarrow> curenv (ssched s) \<noteq> None \<Longrightarrow> sem_step s s'"
| signal: "signalSemaphore owner name s = Inr s' \<Longrightarrow> sem_step s s'"

inductive sem_reachable :: "sems \<Rightarrow> sems \<Rightarrow> bool" for s0 where
  start: "sem_reachable s0 s0"
| step: "sem_reachable s0 s \<Longrightarrow> sem_step s s' \<Longrightarrow> sem_reachable s0 s'"

lemma placed_rr: "rr_state q (ssched s) \<Longrightarrow> placed s = mset (all_envs q (ssched s) @ blocked s)"
  by (simp add: placed_def all_envs_def rr_state_def)

text \<open>An operation that returns has found its semaphore.\<close>

lemma sem_index_found:
  "sem_index (get_semaphore_object_ID owner name s) s = Inr i \<Longrightarrow> sem_found owner name i s"
  by (auto simp: sem_index_def sem_found_def split: if_splits)

lemma wait_found:
  assumes "waitSemaphore cnt owner name s = Inr r"
  obtains i where "sem_found owner name i s"
  using assms that
  by (auto simp: waitSemaphore_def Let_def andthen_def dest!: sem_index_found split: sum.splits)

lemma signal_found:
  assumes "signalSemaphore owner name s = Inr s'" and "sem_inv s"
  obtains i where "sem_found owner name i s" "sint (sem_value (semaphores s ! i)) < 2147483647"
proof -
  have len: "length (semaphores s) = unat (MAX_SEMAPHORES s)"
    using assms(2) by (simp add: sem_inv_def)
  obtain i where ix: "sem_index (get_semaphore_object_ID owner name s) s = Inr i"
    using assms(1) by (auto simp: signalSemaphore_def andthen_def split: sum.splits)
  note fd = sem_index_found [OF ix]
  note ff = sem_found_facts [OF fd len]
  let ?x = "semaphores s ! i"
  have "sint (sem_value ?x) \<noteq> 2147483647"
  proof
    assume mx: "sint (sem_value ?x) = 2147483647"
    have sv: "sem_value ?x = 2147483647"
      by (rule signed_word_eqI) (use mx in simp)
    have "sem_ok ?x"
      using assms(2) ff(1) by (simp add: sem_inv_def)
    then have "env_queue ?x = []"
      using mx by (simp add: sem_ok_def split: if_splits)
    then have "signalSemaphore owner name s = Inl Null_Deref"
      using ix ff(1) sv
      by (simp add: signalSemaphore_def dequeue_def list_last_def sched_insert_ready_def)
    then show False
      using assms(1) by simp
  qed
  then have "sint (sem_value ?x) < 2147483647"
    using sint_lt [of "sem_value ?x"] by simp
  then show thesis
    using that fd by blast
qed


lemma search_never_exists: "get_semaphore_object_ID owner name s \<noteq> E_SEMAPHORE_EXISTS"
  by (auto simp: get_semaphore_object_ID_def E_SEMAPHORE_EXISTS_def E_SEMAPHORE_NOT_EXISTS_def
      split: option.splits)

lemma create_eq:
  assumes "length (semaphores s) = unat (MAX_SEMAPHORES s)" and "length name < SEM_NAME_LEN"
    and "i < length (semaphores s)" and "sem_empty (semaphores s ! i) \<noteq> 0"
    and "\<forall>j<i. sem_empty (semaphores s ! j) = 0"
  shows "createSemaphore owner name v s = Inr (int i, set_sem i (\<lambda>x. x\<lparr>sem_empty := 0, ownerID := owner, sem_name := name,
           sem_value := v\<rparr>) s)"
proof -
  have ix: "first_index (\<lambda>x. sem_empty x \<noteq> 0) 0 (semaphores s) = Some i"
    using assms(3-5) by (auto simp: first_index_Some)
  have "allocate_semaphore_object s = Inr (int i, set_sem i (\<lambda>x. x\<lparr>sem_empty := 0\<rparr>) s)"
    unfolding allocate_semaphore_object_def using ix assms(1) by simp
  moreover have "int i \<noteq> E_NO_SEMAPHORE"
    by (simp add: E_NO_SEMAPHORE_def)
  ultimately show ?thesis
    using assms(2,3) search_never_exists [of owner name s]
    by (simp add: createSemaphore_def Let_def set_sem_def)
qed

lemma create_found:
  assumes "createSemaphore owner name v s = Inr (r, s')"
    and "length (semaphores s) = unat (MAX_SEMAPHORES s)"
  obtains i where "length name < SEM_NAME_LEN" "i < length (semaphores s)"
    "sem_empty (semaphores s ! i) \<noteq> 0" "\<forall>j<i. sem_empty (semaphores s ! j) = 0" "r = int i"
proof -
  obtain i where ix: "first_index (\<lambda>x. sem_empty x \<noteq> 0) 0 (semaphores s) = Some i"
    using assms search_never_exists [of owner name s]
    by (cases "first_index (\<lambda>x. sem_empty x \<noteq> 0) 0 (semaphores s)")
      (simp_all add: createSemaphore_def allocate_semaphore_object_def krealloc_def)
  then have i: "i < length (semaphores s)" "sem_empty (semaphores s ! i) \<noteq> 0"
    "\<forall>j<i. sem_empty (semaphores s ! j) = 0"
    by (auto simp: first_index_Some)
  have "length name < SEM_NAME_LEN"
    using assms ix search_never_exists [of owner name s]
    by (simp add: createSemaphore_def allocate_semaphore_object_def E_NO_SEMAPHORE_def split: if_splits)
  then show thesis
    using that [OF _ i] create_eq [OF assms(2) _ i] assms(1) by simp
qed

lemma placed_set_sem:
  assumes "i < length (semaphores s)" and "env_queue (f (semaphores s ! i)) = env_queue (semaphores s ! i)"
  shows "placed (set_sem i f s) = placed s"
  using blocked_update [OF assms(1), of f] assms(2) by (simp add: placed_def)

lemma create_inv:
  assumes inv: "sem_inv s" and c: "createSemaphore owner name v s = Inr (r, s')" and v: "0 \<le> sint v"
  shows "sem_inv s' \<and> placed s' = placed s"
proof -
  obtain q where len: "length (semaphores s) = unat (MAX_SEMAPHORES s)"
    and ok: "\<forall>x\<in>set (semaphores s). sem_ok x" and q: "rr_state q (ssched s)"
    using inv by (auto simp: sem_inv_def)
  obtain i where i: "length name < SEM_NAME_LEN" "i < length (semaphores s)"
    "sem_empty (semaphores s ! i) \<noteq> 0" "\<forall>j<i. sem_empty (semaphores s ! j) = 0"
    using create_found [OF c len] by metis
  let ?f = "\<lambda>x. x\<lparr>sem_empty := 0, ownerID := owner, sem_name := name, sem_value := v\<rparr>"
  have s': "s' = set_sem i ?f s"
    using create_eq [OF len i] c by simp
  have p: "placed s' = placed s"
    using i(2) by (simp add: s' placed_set_sem)
  have qs: "rr_state q (ssched s')"
    using q by (simp add: s')
  have "sem_ok (semaphores s ! i)"
    using ok i(2) by simp
  then have "sem_ok (?f (semaphores s ! i))"
    using i(3) v by (simp add: sem_ok_def)
  then have "\<forall>x\<in>set (semaphores s'). sem_ok x"
    using sem_ok_update [OF ok i(2)] by (simp add: s')
  moreover have "mset (all_envs q (ssched s') @ blocked s') = mset (all_envs q (ssched s) @ blocked s)"
    using p placed_rr [OF q] placed_rr [OF qs] by simp
  moreover have "length (semaphores s') = unat (MAX_SEMAPHORES s')"
    using len by (simp add: s')
  ultimately show ?thesis
    using sem_inv_by_mset [OF inv q qs] p by blast
qed

lemma tick_mset:
  assumes q: "rr_state q s" and t: "clock_interrupt_handler cnt s = Inr (k, c)"
  shows "\<exists>q'. rr_state q' c \<and> mset (all_envs q' c) = mset (all_envs q s)"
proof -
  obtain v where v: "fos_scheduler cnt (s\<lparr>svm := v\<rparr>) = Inr (k, c)"
  proof (cases "isPageReplacmentAlgorithmLRU PG_REP_LRU_TIME_APPROX (sset s)")
    case True
    then show ?thesis
      using t that by (auto simp: clock_interrupt_handler_def)
  next
    case False
    then have "fos_scheduler cnt (s\<lparr>svm := svm s\<rparr>) = Inr (k, c)"
      using t by (simp add: clock_interrupt_handler_def)
    then show ?thesis
      by (rule that)
  qed
  have "rr_state q (s\<lparr>svm := v\<rparr>)" and "all_envs q (s\<lparr>svm := v\<rparr>) = all_envs q s"
    using q by simp_all
  then show ?thesis
    using fos_scheduler_mset [of q "s\<lparr>svm := v\<rparr>" cnt] v by auto
qed

lemma sem_step_inv: "sem_step s s' \<Longrightarrow> sem_inv s \<Longrightarrow> sem_inv s' \<and> placed s' = placed s"
proof (induction rule: sem_step.induct)
  case (tick cnt s k c)
  then obtain q where q: "rr_state q (ssched s)" and len: "length (semaphores s) = unat (MAX_SEMAPHORES s)"
    and ok: "\<forall>x\<in>set (semaphores s). sem_ok x"
    by (auto simp: sem_inv_def)
  obtain q' where q': "rr_state q' c" "mset (all_envs q' c) = mset (all_envs q (ssched s))"
    using tick_mset [OF q tick(1)] by blast
  have b: "blocked (s\<lparr>ssched := c\<rparr>) = blocked s"
    by (simp add: blocked_def)
  have "sem_inv (s\<lparr>ssched := c\<rparr>)"
    using sem_inv_by_mset [OF tick(2) q, of q' "s\<lparr>ssched := c\<rparr>"] q' b len ok by simp
  moreover have "placed (s\<lparr>ssched := c\<rparr>) = placed s"
    using q q' b by (simp add: placed_rr)
  ultimately show ?case ..
next
  case (create owner name v s r s')
  then show ?case
    by (intro create_inv)
next
  case (wait cnt owner name s k s')
  obtain i where f: "sem_found owner name i s"
    by (rule wait_found [OF wait(1)])
  obtain e where e: "curenv (ssched s) = Some e"
    using wait(2) by auto
  show ?case
    using wait_ok [OF wait(3) f e, of cnt] wait(1) by (auto simp: placed_rr)
next
  case (signal owner name s s')
  obtain i where f: "sem_found owner name i s" "sint (sem_value (semaphores s ! i)) < 2147483647"
    by (rule signal_found [OF signal(1,2)])
  show ?case
    using signal_ok [OF signal(2) f] signal(1) by (auto simp: placed_rr)
qed

lemma sem_reachable_inv: "sem_reachable s0 s \<Longrightarrow> sem_inv s0 \<Longrightarrow> sem_inv s \<and> placed s = placed s0"
  by (induction rule: sem_reachable.induct) (auto dest: sem_step_inv)


section \<open>Example\<close>

text \<open>Environments 5 and 6 wait on semaphore \<open>A\<close> of environment 100; the second object is free.\<close>

definition sems_example :: sems where
  "sems_example = \<lparr>ssched = sched_example,
     semaphores = [\<lparr>ownerID = 100, sem_name = ''A'', env_queue = [6, 5], sem_value = - 2, sem_empty = 0\<rparr>,
       free_semaphore],
     MAX_SEMAPHORES = 2\<rparr>"

lemma sems_example_facts:
  "ssched sems_example = sched_example" "MAX_SEMAPHORES sems_example = 2"
  "semaphores sems_example =
    [\<lparr>ownerID = 100, sem_name = ''A'', env_queue = [6, 5], sem_value = - 2, sem_empty = 0\<rparr>, free_semaphore]"
  "blocked sems_example = [6, 5]" "sem_found 100 ''A'' 0 sems_example"
  by (simp_all add: sems_example_def blocked_def free_semaphore_def sem_found_def
      get_semaphore_object_ID_def)

lemma sems_example_inv: "sem_inv sems_example"
proof -
  have "sint (- 2 :: 32 word) = - 2"
    by simp
  then have "\<forall>x\<in>set (semaphores sems_example). sem_ok x"
    by (simp add: sems_example_facts sem_ok_def free_semaphore_def)
  moreover have "distinct (all_envs [2, 1] sched_example @ blocked sems_example)"
    "set (all_envs [2, 1] sched_example @ blocked sems_example) \<subseteq> {..<NENV}"
    by (simp_all add: all_envs_def cur_list_def sched_example_facts sems_example_facts env_constants)
  ultimately show ?thesis
    unfolding sem_inv_def using sched_example_facts(1) by (auto simp: sems_example_facts)
qed

section \<open>Properties\<close>

text \<open>Waiting by the running environment: the value drops by one and the scheduler runs; when
  the value was not positive the caller is blocked and put at the entry end of the semaphore's
  queue, otherwise the queue is unchanged. The invariant of semaphores and queues is kept.\<close>

theorem wait_blocks:
  assumes "sem_inv s" and "sem_found owner name i s" and "curenv (ssched s) = Some e"
  shows "\<exists>k s'. waitSemaphore cnt owner name s = Inr (k, s') \<and> sem_inv s' \<and>
           sem_value (semaphores s' ! i) = sem_value (semaphores s ! i) - 1 \<and>
           (if sint (sem_value (semaphores s ! i)) \<le> 0
            then env_queue (semaphores s' ! i) = e # env_queue (semaphores s ! i) \<and>
              env_status (env_of (ssched s') e) = ENV_BLOCKED
            else env_queue (semaphores s' ! i) = env_queue (semaphores s ! i))"
  using wait_ok [OF assms, of cnt]
  by (cases "sint (sem_value (semaphores s ! i)) \<le> 0") auto

theorem wait_blocks_witness:
  "\<exists>k s'. waitSemaphore (0, 0) 100 ''A'' sems_example = Inr (k, s') \<and> sem_inv s' \<and>
     sem_value (semaphores s' ! 0) = - 3 \<and> env_queue (semaphores s' ! 0) = [0, 6, 5] \<and>
     env_status (env_of (ssched s') 0) = ENV_BLOCKED"
proof -
  have "curenv (ssched sems_example) = Some 0"
    by (simp add: sems_example_facts sched_example_facts)
  from wait_blocks [OF sems_example_inv sems_example_facts(5) this, of "(0, 0)"] show ?thesis
    by (auto simp: sems_example_facts)
qed

text \<open>Signalling: the value grows by one; when it was negative the environment that has
  waited longest leaves the semaphore's queue and becomes ready, at the entry end of the ready
  queue, otherwise nothing else changes. The invariant of semaphores and queues is kept.\<close>

theorem signal_wakes_longest:
  assumes "sem_inv s" and "sem_found owner name i s"
    and "sint (sem_value (semaphores s ! i)) < 2147483647"
  shows "\<exists>s'. signalSemaphore owner name s = Inr s' \<and> sem_inv s' \<and>
           sem_value (semaphores s' ! i) = sem_value (semaphores s ! i) + 1 \<and>
           (if sint (sem_value (semaphores s ! i)) < 0
            then env_queue (semaphores s ! i) \<noteq> [] \<and>
              env_queue (semaphores s' ! i) = butlast (env_queue (semaphores s ! i)) \<and>
              env_status (env_of (ssched s') (last (env_queue (semaphores s ! i)))) = ENV_READY \<and>
              (\<exists>q. rr_state q (ssched s) \<and>
                rr_state (last (env_queue (semaphores s ! i)) # q) (ssched s'))
            else ssched s' = ssched s \<and> env_queue (semaphores s' ! i) = env_queue (semaphores s ! i))"
  using signal_ok [OF assms]
  by (cases "sint (sem_value (semaphores s ! i)) < 0") auto

theorem signal_wakes_longest_witness:
  "\<exists>s'. signalSemaphore 100 ''A'' sems_example = Inr s' \<and> sem_inv s' \<and>
     sem_value (semaphores s' ! 0) = - 1 \<and> env_queue (semaphores s' ! 0) = [6] \<and>
     env_status (env_of (ssched s') 5) = ENV_READY"
  using signal_wakes_longest [OF sems_example_inv sems_example_facts(5)]
  by (auto simp: sems_example_facts)

text \<open>C21: No environment is lost or duplicated: through any sequence of clock interrupts, creations of
  semaphores with a value that is not negative (below \<open>2 ^ 31\<close>), waits and signals, the environments that run, are ready, loaded, exited or blocked
  stay the same, each in exactly one of these places, and every semaphore has as many waiting
  environments as its value is below zero.\<close>

theorem no_environment_lost:
  assumes "sem_reachable s0 s" and "sem_inv s0"
  shows "placed s = placed s0 \<and> (\<forall>n. count (placed s) n \<le> 1) \<and>
         (\<forall>x\<in>set (semaphores s). sem_empty x = 0 \<longrightarrow>
            int (length (env_queue x)) = max 0 (- sint (sem_value x)))"
proof -
  have inv: "sem_inv s" and p: "placed s = placed s0"
    using sem_reachable_inv [OF assms] by auto
  obtain q where q: "rr_state q (ssched s)" "distinct (all_envs q (ssched s) @ blocked s)"
    using inv by (auto simp: sem_inv_def)
  have "count (placed s) n \<le> 1" for n
    unfolding placed_rr [OF q(1)] using q(2) by (simp add: distinct_count_atmost_1)
  then show ?thesis
    using p inv by (auto simp: sem_inv_def sem_ok_def)
qed

theorem no_environment_lost_witness:
  "\<exists>s. sem_reachable sems_example s \<and> s \<noteq> sems_example \<and> placed s = placed sems_example \<and>
     count (placed s) 5 \<le> 1"
proof -
  obtain s' where s': "signalSemaphore 100 ''A'' sems_example = Inr s'"
    "sem_value (semaphores s' ! 0) = - 1"
    using signal_ok [OF sems_example_inv sems_example_facts(5)] by (auto simp: sems_example_facts)
  then have "sem_reachable sems_example s'"
    by (blast intro: sem_reachable.intros sem_step.signal)
  moreover have "s' \<noteq> sems_example"
    using s'(2) by (auto simp: sems_example_facts)
  ultimately show ?thesis
    using no_environment_lost [OF _ sems_example_inv, of s'] by blast
qed

text \<open>Creating a semaphore with the owner and the name of an existing one does not report that it
  exists: it takes the first free object, so two objects have the same owner and name. With no
  free object the kernel panics.\<close>

theorem duplicate_semaphore:
  assumes "sem_inv s" and "sem_found owner name i s" and "length name < SEM_NAME_LEN"
  shows "if \<exists>x\<in>set (semaphores s). sem_empty x \<noteq> 0
         then \<exists>j s'. createSemaphore owner name v s = Inr (int j, s') \<and> j \<noteq> i \<and>
                (\<forall>k\<in>{i, j}. ownerID (semaphores s' ! k) = owner \<and> sem_name (semaphores s' ! k) = name \<and>
                   sem_empty (semaphores s' ! k) = 0)
         else createSemaphore owner name v s = Inl Panic"
proof -
  have len: "length (semaphores s) = unat (MAX_SEMAPHORES s)"
    using assms(1) by (simp add: sem_inv_def)
  note fd = sem_found_facts [OF assms(2) len]
  show ?thesis
  proof (cases "\<exists>x\<in>set (semaphores s). sem_empty x \<noteq> 0")
    case True
    then have "first_index (\<lambda>x. sem_empty x \<noteq> 0) 0 (semaphores s) \<noteq> None"
      by (simp add: first_index_None)
    then obtain j where j: "j < length (semaphores s)" "sem_empty (semaphores s ! j) \<noteq> 0"
      "\<forall>l<j. sem_empty (semaphores s ! l) = 0"
      by (auto simp: first_index_Some)
    have "j \<noteq> i"
      using j(2) fd(2) by auto
    then show ?thesis
      using True create_eq [OF len assms(3) j, of owner v] fd(1,2,4,5) j(1) by simp
  next
    case False
    then have "first_index (\<lambda>x. sem_empty x \<noteq> 0) 0 (semaphores s) = None"
      by (simp add: first_index_None)
    then show ?thesis
      using False len search_never_exists [of owner name s]
      by (simp add: createSemaphore_def allocate_semaphore_object_def krealloc_def)
  qed
qed

theorem duplicate_semaphore_witness:
  "\<exists>j s'. createSemaphore 100 ''A'' 1 sems_example = Inr (int j, s') \<and> j \<noteq> 0 \<and>
     sem_name (semaphores s' ! j) = ''A''"
  using duplicate_semaphore [OF sems_example_inv sems_example_facts(5), of 1]
  by (auto simp: sems_example_facts free_semaphore_def SEM_NAME_LEN_def)

text \<open>Waiting on or signalling a semaphore that does not exist uses the error code -13 as the
  index of the array: both access memory outside it.\<close>

theorem missing_semaphore:
  assumes "\<forall>x\<in>set (semaphores s). \<not> (sem_empty x = 0 \<and> ownerID x = owner \<and> sem_name x = name)"
  shows "get_semaphore_object_ID owner name s = - 13 \<and>
         waitSemaphore cnt owner name s = Inl Out_Of_Bounds \<and>
         signalSemaphore owner name s = Inl Out_Of_Bounds"
proof -
  have "first_index (\<lambda>x. sem_empty x = 0 \<and> ownerID x = owner \<and> sem_name x = name) 0
      (take (unat (MAX_SEMAPHORES s)) (semaphores s)) = None"
    using assms by (auto simp: first_index_None dest: in_set_takeD)
  then have "get_semaphore_object_ID owner name s = - 13"
    by (simp add: get_semaphore_object_ID_def E_SEMAPHORE_NOT_EXISTS_def)
  then show ?thesis
    by (simp add: waitSemaphore_def signalSemaphore_def sem_index_def)
qed

theorem missing_semaphore_witness: "signalSemaphore 100 ''B'' sems_example = Inl Out_Of_Bounds"
  using missing_semaphore [of sems_example 100 "''B''"] by (simp add: sems_example_facts free_semaphore_def)

end
