(* ===== verification/Shared_Mem.thy ===== *)
theory Shared_Mem
  imports Semaphore
begin

text \<open>
  Shared memory objects, \<^verbatim>\<open>kern/mem/shared_memory_manager.c\<close>. The frames of an object
  are kept in a storage that has the shape of a page directory: the frame with index \<open>k\<close> is
  entry \<open>k\<close> of the pages of a pretended address space. A name is a string without its NUL.
\<close>

section \<open>State\<close>

record share =
  share_owner :: "32 word"
  share_name :: string
  share_size :: u32
  share_references :: u32
  isWritable :: u8
  share_empty :: u8
  framesStorage :: u32

record sharing =
  hsched :: sched
  shares :: "share list"
  MAX_SHARES :: u32

definition sizeof_Share :: u32 where "sizeof_Share = 84"
definition SHARE_NAME_LEN :: nat where "SHARE_NAME_LEN = 64"

definition free_share :: share where
  "free_share = \<lparr>share_owner = 0, share_name = [], share_size = 0, share_references = 0,
     isWritable = 0, share_empty = 1, framesStorage = 0\<rparr>"

definition hmem :: "sharing \<Rightarrow> kmem" where
  "hmem s = vmem (svm (hsched s))"

definition put_hmem :: "kmem \<Rightarrow> sharing \<Rightarrow> sharing" where
  "put_hmem m s = s\<lparr>hsched := (hsched s)\<lparr>svm := set_mem (svm (hsched s)) m\<rparr>\<rparr>"

definition set_share :: "nat \<Rightarrow> (share \<Rightarrow> share) \<Rightarrow> sharing \<Rightarrow> sharing" where
  "set_share i f s = s\<lparr>shares := (shares s)[i := f (shares s ! i)]\<rparr>"

text \<open>The page directory of the calling environment.\<close>

definition my_directory :: "sharing \<Rightarrow> u32 result" where
  "my_directory s =
     (case curenv (hsched s) of
        None \<Rightarrow> Inl Null_Deref
      | Some e \<Rightarrow> Inr (env_page_directory (hmem s) e))"

section \<open>The storage of frames\<close>

definition create_frames_storage :: "kmem \<Rightarrow> (u32 \<times> kmem) result" where
  "create_frames_storage m =
     andthen (kmalloc PAGE_SIZE m) (\<lambda>(p, m). if p = 0 then Inl Panic else Inr (p, m))"

definition add_frame_to_storage :: "u32 \<Rightarrow> nat \<Rightarrow> u32 \<Rightarrow> kmem \<Rightarrow> kmem result" where
  "add_frame_to_storage frames_storage f index m =
     (let va = index * PAGE_SIZE in
      andthen (get_page_table frames_storage va m) (\<lambda>(r, p).
      andthen (if r = TABLE_NOT_EXIST then create_page_table frames_storage va m else Inr (p, m)) (\<lambda>(p, m).
        table_write p (PTX va) (CONSTRUCT_ENTRY (to_physical_address f) (0 OR PERM_PRESENT)) m)))"

definition get_frame_from_storage :: "u32 \<Rightarrow> u32 \<Rightarrow> kmem \<Rightarrow> nat option result" where
  "get_frame_from_storage frames_storage index m =
     (let va = index * PAGE_SIZE in
      andthen (get_frame_info frames_storage va m) (\<lambda>(f, _). Inr f))"

definition clear_storage_entry :: "u32 \<Rightarrow> nat \<Rightarrow> kmem \<Rightarrow> kmem result" where
  "clear_storage_entry frames_storage i m =
     andthen (table_read frames_storage (of_nat i) m) (\<lambda>e.
       if e \<noteq> 0 then
         andthen (kheap_virtual_address (EXTRACT_ADDRESS e) m) (\<lambda>va.
         andthen (kfree va m) (table_write frames_storage (of_nat i) 0))
       else Inr m)"

definition clear_frames_storage :: "u32 \<Rightarrow> kmem \<Rightarrow> kmem result" where
  "clear_frames_storage frames_storage m =
     for_each (clear_storage_entry frames_storage) [0..<1024] m"

section \<open>Objects\<close>

definition create_shares_array :: "u32 \<Rightarrow> sharing \<Rightarrow> sharing result" where
  "create_shares_array numOfElements s =
     andthen (kmalloc (numOfElements * sizeof_Share) (hmem s)) (\<lambda>(p, m).
       if p = 0 then Inl Panic
       else if 4294967296 \<le> unat numOfElements * unat sizeof_Share then Inl Out_Of_Bounds
       else Inr ((put_hmem m s)\<lparr>MAX_SHARES := numOfElements,
                                shares := replicate (unat numOfElements) free_share\<rparr>))"

definition allocate_share_object :: "sharing \<Rightarrow> (int \<times> sharing) result" where
  "allocate_share_object s =
     (case first_index (\<lambda>x. share_empty x \<noteq> 0) 0 (take (unat (MAX_SHARES s)) (shares s)) of
        None \<Rightarrow> Inr (E_NO_SHARE, s)
      | Some i \<Rightarrow>
          (let s = set_share i (\<lambda>x. x\<lparr>share_empty := 0\<rparr>) s in
           andthen (create_frames_storage (hmem s)) (\<lambda>(p, m).
             let m = m\<lparr>tables := (tables m)(p := (\<lambda>j. 0))\<rparr> in
             Inr (int i, set_share i (\<lambda>x. x\<lparr>framesStorage := p\<rparr>) (put_hmem m s)))))"

definition get_share_object_ID :: "32 word \<Rightarrow> string \<Rightarrow> sharing \<Rightarrow> int" where
  "get_share_object_ID owner name s =
     (case first_index (\<lambda>x. share_empty x = 0 \<and> share_owner x = owner \<and> share_name x = name) 0
             (take (unat (MAX_SHARES s)) (shares s)) of
        None \<Rightarrow> E_SHARED_MEM_NOT_EXISTS
      | Some i \<Rightarrow> int i)"

definition free_share_object :: "u32 \<Rightarrow> sharing \<Rightarrow> (int \<times> sharing) result" where
  "free_share_object sharedObjectID s =
     (if MAX_SHARES s \<le> sharedObjectID then Inr (E_SHARED_MEM_NOT_EXISTS, s)
      else
        (let i = unat sharedObjectID; p = framesStorage (shares s ! i) in
         andthen (clear_frames_storage p (hmem s)) (\<lambda>m.
         andthen (kfree p m) (\<lambda>m.
           Inr (0, set_share i (\<lambda>_. free_share) (put_hmem m s))))))"

definition getSizeOfSharedObject :: "32 word \<Rightarrow> string \<Rightarrow> sharing \<Rightarrow> int" where
  "getSizeOfSharedObject owner shareName s =
     (let shareObjectID = get_share_object_ID owner shareName s in
      if shareObjectID = E_SHARED_MEM_NOT_EXISTS then E_SHARED_MEM_NOT_EXISTS
      else sint (share_size (shares s ! nat shareObjectID)))"

text \<open>
  Creating: every page of the range gets a new frame, mapped in the caller and recorded in the
  storage. The counter of the loop is the index of the frame.
\<close>

definition create_share_page :: "u32 \<Rightarrow> u32 \<Rightarrow> u32 \<Rightarrow> u32 \<times> kmem \<Rightarrow> (u32 \<times> kmem) result" where
  "create_share_page dir storage i cm =
     (let (counter, m) = cm in
      andthen (allocate_frame m) (\<lambda>(f, m).
      andthen (map_frame dir f i (PERM_USER OR PERM_PRESENT OR PERM_WRITEABLE) m) (\<lambda>m.
      andthen (add_frame_to_storage storage f counter m) (\<lambda>m. Inr (counter + 1, m)))))"

definition createSharedObject ::
    "32 word \<Rightarrow> string \<Rightarrow> u32 \<Rightarrow> u8 \<Rightarrow> u32 \<Rightarrow> sharing \<Rightarrow> (int \<times> sharing) result" where
  "createSharedObject owner shareName sz writable virtual_address s =
     (if get_share_object_ID owner shareName s \<noteq> E_SHARED_MEM_NOT_EXISTS
      then Inr (E_SHARED_MEM_EXISTS, s)
      else
        andthen (allocate_share_object s) (\<lambda>(ret, s).
          if ret = E_NO_SHARE then Inr (E_NO_SHARE, s)
          else
            (let i = nat ret; storage = framesStorage (shares s ! i) in
             andthen
               (for_pages virtual_address (virtual_address + sz)
                  (\<lambda>i cm. andthen (my_directory s) (\<lambda>dir. create_share_page dir storage i cm))
                  (0, hmem s)) (\<lambda>(counter, m).
               if SHARE_NAME_LEN \<le> length shareName then Inl Out_Of_Bounds
               else Inr (ret, set_share i (\<lambda>x. x\<lparr>share_owner := owner, share_size := sz,
                           isWritable := writable, share_references := 1, share_name := shareName\<rparr>)
                         (put_hmem m s))))))"

text \<open>
  Getting: the size of the object is read before the result of the search is tested.
\<close>

definition get_share_page :: "u32 \<Rightarrow> u32 \<Rightarrow> u8 \<Rightarrow> u32 \<Rightarrow> u32 \<times> kmem \<Rightarrow> (u32 \<times> kmem) result" where
  "get_share_page dir storage writable i cm =
     (let (counter, m) = cm in
      andthen (get_frame_from_storage storage counter m) (\<lambda>fo.
        let permission = (if writable = 1 then PERM_PRESENT OR PERM_USER OR PERM_WRITEABLE
                          else PERM_PRESENT OR PERM_USER)
        in case fo of
             None \<Rightarrow> Inl Null_Deref
           | Some f \<Rightarrow>
               andthen (map_frame dir f i permission m) (\<lambda>m. Inr (counter + 1, m))))"

definition getSharedObject :: "32 word \<Rightarrow> string \<Rightarrow> u32 \<Rightarrow> sharing \<Rightarrow> (int \<times> sharing) result" where
  "getSharedObject owner shareName virtual_address s =
     (let ret = get_share_object_ID owner shareName s in
      if ret < 0 \<or> length (shares s) \<le> nat ret then Inl Out_Of_Bounds
      else
        (let i = nat ret; myshare = shares s ! i;
             end_va = ROUNDUP (share_size myshare) PAGE_SIZE + virtual_address
         in if ret \<noteq> E_SHARED_MEM_NOT_EXISTS then
              andthen
                (for_pages virtual_address end_va
                   (\<lambda>i cm. andthen (my_directory s)
                      (\<lambda>dir. get_share_page dir (framesStorage myshare) (isWritable myshare) i cm))
                   (0, hmem s)) (\<lambda>(counter, m).
                Inr (ret, set_share i (\<lambda>x. x\<lparr>share_references := share_references x + 1\<rparr>)
                            (put_hmem m s)))
            else Inr (E_SHARED_MEM_NOT_EXISTS, s)))"

definition freeSharedObject :: "32 word \<Rightarrow> u32 \<Rightarrow> sharing \<Rightarrow> (int \<times> sharing) result" where
  "freeSharedObject sharedObjectID startVA s = Inl Panic"

section \<open>Searching and creating\<close>

lemma share_ID_cases:
  assumes "length (shares s) = unat (MAX_SHARES s)"
  shows "if \<exists>x\<in>set (shares s). share_empty x = 0 \<and> share_owner x = owner \<and> share_name x = name
         then \<exists>i<length (shares s). get_share_object_ID owner name s = int i \<and>
                share_empty (shares s ! i) = 0 \<and> share_owner (shares s ! i) = owner \<and>
                share_name (shares s ! i) = name
         else get_share_object_ID owner name s = E_SHARED_MEM_NOT_EXISTS"
proof -
  let ?P = "\<lambda>x. share_empty x = 0 \<and> share_owner x = owner \<and> share_name x = name"
  show ?thesis
  proof (cases "first_index ?P 0 (shares s)")
    case None
    then have no: "\<not> (\<exists>x\<in>set (shares s). ?P x)"
      by (auto simp: first_index_None)
    have "get_share_object_ID owner name s = E_SHARED_MEM_NOT_EXISTS"
      using None assms by (simp add: get_share_object_ID_def)
    then show ?thesis
      unfolding if_not_P [OF no] .
  next
    case (Some i)
    then have i: "i < length (shares s)" "?P (shares s ! i)"
      by (auto simp: first_index_Some)
    then have ex: "\<exists>x\<in>set (shares s). ?P x"
      by (intro bexI [of _ "shares s ! i"]) simp_all
    have "get_share_object_ID owner name s = int i"
      using Some assms by (simp add: get_share_object_ID_def)
    then show ?thesis
      unfolding if_P [OF ex] using i by blast
  qed
qed

section \<open>Mapping a shared object\<close>

text \<open>
  The frames \<open>fs\<close> are in the storage from index \<open>c\<close> on, behind the tables \<open>sp\<close>; the pages \<open>is\<close>
  of the caller have their tables at \<open>tp\<close> and are free; the caller's tables are not those of
  the storage.
\<close>

definition stored :: "u32 \<Rightarrow> (u32 \<Rightarrow> u32) \<Rightarrow> u32 \<Rightarrow> nat list \<Rightarrow> kmem \<Rightarrow> bool" where
  "stored st sp c fs m \<longleftrightarrow>
     (\<forall>k<length fs. table_at st ((c + of_nat k) * PAGE_SIZE) (sp ((c + of_nat k) * PAGE_SIZE)) m \<and>
        tables m (sp ((c + of_nat k) * PAGE_SIZE)) (PTX ((c + of_nat k) * PAGE_SIZE)) =
          mapped_entry (fs ! k) 0 \<and> fs ! k < number_of_frames m)"

definition get_ready :: "u32 \<Rightarrow> (u32 \<Rightarrow> u32) \<Rightarrow> u32 \<Rightarrow> (u32 \<Rightarrow> u32) \<Rightarrow> u32 list \<Rightarrow> kmem \<Rightarrow> bool" where
  "get_ready dir tp st sp is m \<longleftrightarrow>
     (\<forall>i\<in>set is. table_at dir i (tp i) m \<and> tables m (tp i) (PTX i) = 0 \<and>
        tp i \<noteq> st \<and> (\<forall>v. tp i \<noteq> sp v)) \<and>
     distinct (map (\<lambda>i. (tp i, PTX i)) is) \<and> number_of_frames m \<le> 1048576"

definition shared_page :: "(u32 \<Rightarrow> u32) \<Rightarrow> u32 \<Rightarrow> u32 \<times> nat \<Rightarrow> kmem \<Rightarrow> kmem" where
  "shared_page tp perm x m =
     set_entry (tp (fst x)) (PTX (fst x)) (mapped_entry (snd x) perm)
       (m\<lparr>references := (references m)(snd x := references m (snd x) + 1)\<rparr>)"

definition share_perm :: "u8 \<Rightarrow> u32" where
  "share_perm writable =
     (if writable = 1 then PERM_PRESENT OR PERM_USER OR PERM_WRITEABLE else PERM_PRESENT OR PERM_USER)"

lemma share_perm_small: "share_perm w < 4096"
  by (simp add: share_perm_def perm_defs)

lemma stored_hd:
  assumes "stored st sp c (f # fs) m" and "number_of_frames m \<le> 1048576"
  shows "get_frame_from_storage st c m = Inr (Some f)"
proof -
  let ?v = "c * PAGE_SIZE"
  have at: "table_at st ?v (sp ?v) m" "tables m (sp ?v) (PTX ?v) = mapped_entry f 0"
    "f < number_of_frames m"
    using assms(1) unfolding stored_def by (auto dest: spec [of _ 0])
  have "f < 1048576"
    using at(3) assms(2) by simp
  then have "unat (PPN (mapped_entry f 0)) = f" "mapped_entry f 0 \<noteq> 0"
    using mapped_entry_parts [of f 0] by simp_all
  then show ?thesis
    using get_frame_info_at [OF at(1)] at(2,3) by (simp add: get_frame_from_storage_def Let_def)
qed

lemma stored_tl: "stored st sp c (f # fs) m \<Longrightarrow> stored st sp (c + 1) fs m"
  unfolding stored_def
proof (intro allI impI)
  fix k
  assume all: "\<forall>k<length (f # fs). table_at st ((c + of_nat k) * PAGE_SIZE) (sp ((c + of_nat k) * PAGE_SIZE)) m \<and>
      tables m (sp ((c + of_nat k) * PAGE_SIZE)) (PTX ((c + of_nat k) * PAGE_SIZE)) =
        mapped_entry ((f # fs) ! k) 0 \<and> (f # fs) ! k < number_of_frames m" and k: "k < length fs"
  have "(c + 1 + of_nat k) * PAGE_SIZE = (c + of_nat (Suc k)) * PAGE_SIZE"
    by (simp add: algebra_simps)
  then show "table_at st ((c + 1 + of_nat k) * PAGE_SIZE) (sp ((c + 1 + of_nat k) * PAGE_SIZE)) m \<and>
      tables m (sp ((c + 1 + of_nat k) * PAGE_SIZE)) (PTX ((c + 1 + of_nat k) * PAGE_SIZE)) =
        mapped_entry (fs ! k) 0 \<and> fs ! k < number_of_frames m"
    using all [rule_format, of "Suc k"] k by (simp only: length_Cons nth_Cons_Suc Suc_less_eq simp_thms)
qed

lemma shared_page_simps [simp]:
  "tables (shared_page tp perm x m) =
     (tables m)(tp (fst x) := (tables m (tp (fst x)))(PTX (fst x) := mapped_entry (snd x) perm))"
  "references (shared_page tp perm x m) = (references m)(snd x := references m (snd x) + 1)"
  "number_of_frames (shared_page tp perm x m) = number_of_frames m"
  "free_frame_list (shared_page tp perm x m) = free_frame_list m"
  "frame_va (shared_page tp perm x m) = frame_va m"
  "env_page_directory (shared_page tp perm x m) = env_page_directory m"
  by (simp_all add: shared_page_def)

lemma table_at_shared_page:
  "table_at dir va p m \<Longrightarrow> tp (fst x) \<noteq> dir \<Longrightarrow> table_at dir va p (shared_page tp perm x m)"
  unfolding shared_page_def by (simp add: table_at_set_entry)

lemma stored_shared_page:
  assumes "stored st sp c fs m" and "tp (fst x) \<noteq> st" and "\<forall>v. tp (fst x) \<noteq> sp v"
  shows "stored st sp c fs (shared_page tp perm x m)"
proof -
  have "sp v \<noteq> tp (fst x)" for v
    using assms(3) by metis
  then show ?thesis
    using assms(1,2) by (simp add: stored_def table_at_shared_page)
qed

lemma get_ready_step:
  assumes "get_ready dir tp st sp (i # is) m"
  shows "get_ready dir tp st sp is (shared_page tp perm (i, f) m)"
proof -
  have nd: "tp i \<noteq> dir"
    using assms table_at_ne [of dir i "tp i" m] by (simp add: get_ready_def)
  have "tables (shared_page tp perm (i, f) m) (tp j) (PTX j) = 0" if j: "j \<in> set is" for j
  proof -
    have "(tp i, PTX i) \<notin> (\<lambda>i. (tp i, PTX i)) ` set is"
      using assms by (simp add: get_ready_def)
    moreover have "(tp j, PTX j) \<in> (\<lambda>i. (tp i, PTX i)) ` set is"
      using j by simp
    ultimately have "(tp j, PTX j) \<noteq> (tp i, PTX i)"
      by metis
    moreover have "tables m (tp j) (PTX j) = 0"
      using assms j by (simp add: get_ready_def)
    ultimately show ?thesis
      by auto
  qed
  then show ?thesis
    using assms nd unfolding get_ready_def by (simp add: table_at_shared_page)
qed

lemma get_share_pages:
  "stored st sp c fs m \<Longrightarrow> get_ready dir tp st sp is m \<Longrightarrow> length is = length fs \<Longrightarrow>
   for_each (get_share_page dir st w) is (c, m) =
     Inr (c + of_nat (length fs), fold (shared_page tp (share_perm w)) (zip is fs) m)"
proof (induction fs arbitrary: "is" c m)
  case Nil
  then show ?case by simp
next
  case (Cons f fs)
  obtain i js where "is": "is = i # js"
    using Cons.prems(3) by (cases "is") auto
  have i: "table_at dir i (tp i) m" "tables m (tp i) (PTX i) = 0" "tp i \<noteq> st" "\<forall>v. tp i \<noteq> sp v"
    "number_of_frames m \<le> 1048576"
    using Cons.prems(2) by (simp_all add: "is" get_ready_def)
  have "get_share_page dir st w i (c, m) = Inr (c + 1, shared_page tp (share_perm w) (i, f) m)"
    using stored_hd [OF Cons.prems(1) i(5)] map_frame_fresh [OF i(1,2)]
    by (simp add: get_share_page_def map_frame_def shared_page_def share_perm_def Let_def)
  moreover have "stored st sp (c + 1) fs (shared_page tp (share_perm w) (i, f) m)"
    using stored_tl [OF Cons.prems(1)] i(3,4) by (intro stored_shared_page) simp_all
  moreover have "get_ready dir tp st sp js (shared_page tp (share_perm w) (i, f) m)"
    using Cons.prems(2) by (intro get_ready_step) (simp add: "is")
  moreover have "length js = length fs"
    using Cons.prems(3) by (simp add: "is")
  ultimately show ?case
    using Cons.IH [of "c + 1" "shared_page tp (share_perm w) (i, f) m" js] by (simp add: "is" algebra_simps)
qed


text \<open>What the whole loop leaves.\<close>

lemma shared_pages_effect:
  assumes "distinct (map (\<lambda>i. (tp i, PTX i)) is)" and "length is = length fs"
  shows "\<forall>k<length is. tables (fold (shared_page tp perm) (zip is fs) m) (tp (is ! k)) (PTX (is ! k)) =
           mapped_entry (fs ! k) perm"
    and "\<forall>p j. (p, j) \<notin> (\<lambda>i. (tp i, PTX i)) ` set is \<longrightarrow>
           tables (fold (shared_page tp perm) (zip is fs) m) p j = tables m p j"
    and "\<forall>g. references (fold (shared_page tp perm) (zip is fs) m) g =
           references m g + of_nat (count_list fs g)"
    and "free_frame_list (fold (shared_page tp perm) (zip is fs) m) = free_frame_list m"
proof -
  let ?F = "\<lambda>is fs m. fold (shared_page tp perm) (zip is fs) m"
  have "(\<forall>k<length is. tables (?F is fs m) (tp (is ! k)) (PTX (is ! k)) = mapped_entry (fs ! k) perm) \<and>
    (\<forall>p j. (p, j) \<notin> (\<lambda>i. (tp i, PTX i)) ` set is \<longrightarrow> tables (?F is fs m) p j = tables m p j) \<and>
    (\<forall>g. references (?F is fs m) g = references m g + of_nat (count_list fs g)) \<and>
    free_frame_list (?F is fs m) = free_frame_list m"
    using assms
  proof (induction fs arbitrary: "is" m)
    case Nil
    then show ?case by simp
  next
    case (Cons f fs)
    obtain i js where "is": "is = i # js"
      using Cons.prems(2) by (cases "is") auto
    have d: "distinct (map (\<lambda>i. (tp i, PTX i)) js)" "length js = length fs"
      "(tp i, PTX i) \<notin> (\<lambda>i. (tp i, PTX i)) ` set js"
      using Cons.prems by (simp_all add: "is")
    let ?m = "shared_page tp perm (i, f) m"
    note IH = Cons.IH [OF d(1,2), of ?m]
    have "tables (?F js fs ?m) (tp i) (PTX i) = mapped_entry f perm"
      using IH d(3) by simp
    then show ?case
      using IH by (auto simp: "is" nth_Cons split: nat.splits)
  qed
  then show "\<forall>k<length is. tables (?F is fs m) (tp (is ! k)) (PTX (is ! k)) = mapped_entry (fs ! k) perm"
    and "\<forall>p j. (p, j) \<notin> (\<lambda>i. (tp i, PTX i)) ` set is \<longrightarrow> tables (?F is fs m) p j = tables m p j"
    and "\<forall>g. references (?F is fs m) g = references m g + of_nat (count_list fs g)"
    and "free_frame_list (?F is fs m) = free_frame_list m"
    by blast+
qed

lemma fold_shared_table_at:
  "table_at dir va p m \<Longrightarrow> \<forall>x\<in>set xs. tp (fst x) \<noteq> dir \<Longrightarrow>
   table_at dir va p (fold (shared_page tp perm) xs m)"
  by (induction xs arbitrary: m) (simp_all add: table_at_shared_page)

lemma fold_shared_frames [simp]:
  "number_of_frames (fold (shared_page tp perm) xs m) = number_of_frames m"
  by (induction xs arbitrary: m) simp_all

lemma put_hmem_simps [simp]:
  "hmem (put_hmem m s) = m" "shares (put_hmem m s) = shares s" "MAX_SHARES (put_hmem m s) = MAX_SHARES s"
  "hmem (set_share i f s) = hmem s" "curenv (hsched (put_hmem m s)) = curenv (hsched s)"
  "shares (set_share i f s) = (shares s)[i := f (shares s ! i)]"
  by (simp_all add: put_hmem_def hmem_def set_mem_def set_share_def)

lemma get_shared_ok:
  assumes id: "get_share_object_ID owner name s = int i" "i < length (shares s)"
    and cur: "curenv (hsched s) = Some e" and dir: "env_page_directory (hmem s) e = dir"
    and n: "n = unat (ROUNDUP (share_size (shares s ! i)) PAGE_SIZE) div 4096" "unat va + 4096 * n < 4294967296"
    and st: "stored (framesStorage (shares s ! i)) sp 0 fs (hmem s)" "length fs = n"
    and rdy: "get_ready dir tp (framesStorage (shares s ! i)) sp (page_list va n) (hmem s)"
  shows "getSharedObject owner name va s =
           Inr (int i, set_share i (\<lambda>x. x\<lparr>share_references := share_references x + 1\<rparr>)
             (put_hmem (fold (shared_page tp (share_perm (isWritable (shares s ! i)))) (zip (page_list va n) fs)
                (hmem s)) s))"
proof -
  let ?x = "shares s ! i" and ?sz = "ROUNDUP (share_size (shares s ! i)) PAGE_SIZE"
  have d: "4096 dvd unat ?sz"
    using ROUNDUP_dvd [of PAGE_SIZE "share_size ?x"] by simp
  have "unat (of_nat n * PAGE_SIZE :: u32) = n * 4096"
    using n(2) by (simp add: unat_word_ariths unat_of_nat)
  then have "?sz = of_nat n * PAGE_SIZE"
    using d n(1) by (simp add: u32_eq_iff)
  then have ev: "?sz + va = va + of_nat n * PAGE_SIZE"
    by simp
  have body: "(\<lambda>i cm. andthen (my_directory s) (\<lambda>dir. get_share_page dir (framesStorage ?x) (isWritable ?x) i cm)) =
      get_share_page dir (framesStorage ?x) (isWritable ?x)"
    using cur dir by (simp add: my_directory_def)
  have l: "length (page_list va n) = length fs"
    using st(2) by simp
  show ?thesis
    using id get_share_pages [OF st(1) rdy l]
    by (simp add: getSharedObject_def E_SHARED_MEM_NOT_EXISTS_def Let_def body ev for_pages_list [OF n(2)])
qed

lemma create_share_errors:
  assumes "length (shares s) = unat (MAX_SHARES s)"
  shows "(\<exists>x\<in>set (shares s). share_empty x = 0 \<and> share_owner x = owner \<and> share_name x = name) \<Longrightarrow>
           createSharedObject owner name sz w va s = Inr (E_SHARED_MEM_EXISTS, s)"
    and "\<not> (\<exists>x\<in>set (shares s). share_empty x = 0 \<and> share_owner x = owner \<and> share_name x = name) \<Longrightarrow>
           \<forall>x\<in>set (shares s). share_empty x = 0 \<Longrightarrow>
           createSharedObject owner name sz w va s = Inr (E_NO_SHARE, s)"
proof -
  assume ex: "\<exists>x\<in>set (shares s). share_empty x = 0 \<and> share_owner x = owner \<and> share_name x = name"
  obtain i where "get_share_object_ID owner name s = int i"
    using share_ID_cases [OF assms, of owner name] unfolding if_P [OF ex] by blast
  then show "createSharedObject owner name sz w va s = Inr (E_SHARED_MEM_EXISTS, s)"
    by (simp add: createSharedObject_def E_SHARED_MEM_NOT_EXISTS_def)
next
  assume no: "\<not> (\<exists>x\<in>set (shares s). share_empty x = 0 \<and> share_owner x = owner \<and> share_name x = name)"
    and full: "\<forall>x\<in>set (shares s). share_empty x = 0"
  have "get_share_object_ID owner name s = E_SHARED_MEM_NOT_EXISTS"
    using share_ID_cases [OF assms, of owner name] unfolding if_not_P [OF no] .
  moreover have "first_index (\<lambda>x. share_empty x \<noteq> 0) 0 (shares s) = None"
    using full by (simp add: first_index_None)
  ultimately show "createSharedObject owner name sz w va s = Inr (E_NO_SHARE, s)"
    using assms by (simp add: createSharedObject_def allocate_share_object_def)
qed

section \<open>Example\<close>

text \<open>
  Object 0, named \<open>x\<close> and owned by environment 100, has the frames 40 and 41; the storage is at
  \<open>0xF6002000\<close> with its table at \<open>0xF6003000\<close> (frame 22).
\<close>

definition sharing_kmem :: kmem where
  "sharing_kmem = kmem_example\<lparr>
     frame_va := (\<lambda>f. if f = 20 then 0xF6001000 else if f = 22 then 0xF6003000 else 0),
     tables := (\<lambda>p i. if p = 0xF0200000 \<and> i = 2 then 0x14007
                     else if p = 0xF6002000 \<and> i = 0 then 0x16007
                     else if p = 0xF6003000 \<and> i = 0 then 0x28001
                     else if p = 0xF6003000 \<and> i = 1 then 0x29001 else 0)\<rparr>"

definition sharing_example :: sharing where
  "sharing_example =
     \<lparr>hsched = sched_example\<lparr>svm := vm_example\<lparr>vmem := sharing_kmem\<rparr>\<rparr>,
      shares = [\<lparr>share_owner = 100, share_name = ''x'', share_size = 5000, share_references = 1,
        isWritable = 0, share_empty = 0, framesStorage = 0xF6002000\<rparr>],
      MAX_SHARES = 1\<rparr>"

lemma sharing_example_facts:
  "hmem sharing_example = sharing_kmem" "curenv (hsched sharing_example) = Some 0"
  "shares sharing_example = [\<lparr>share_owner = 100, share_name = ''x'', share_size = 5000, share_references = 1,
        isWritable = 0, share_empty = 0, framesStorage = 0xF6002000\<rparr>]"
  "env_page_directory sharing_kmem 0 = 0xF0200000" "MAX_SHARES sharing_example = 1"
  "get_share_object_ID 100 ''x'' sharing_example = int 0"
  by (simp_all add: sharing_example_def hmem_def sched_example_def sharing_kmem_def kmem_example_def
      get_share_object_ID_def)

lemma sharing_kmem_tables:
  "table_at 0xF0200000 0x800000 0xF6001000 sharing_kmem" "table_at 0xF0200000 0x801000 0xF6001000 sharing_kmem"
  "table_at 0xF6002000 0 0xF6003000 sharing_kmem" "table_at 0xF6002000 0x1000 0xF6003000 sharing_kmem"
  by (simp_all add: table_at_def get_page_table_def table_read_def table_address_def
      kheap_virtual_address_def to_frame_info_def sharing_kmem_def kmem_example_def perm_defs addr_defs
      CHECK_IF_KERNEL_ADDRESS_def layout_defs)

lemma sharing_stored: "stored 0xF6002000 (\<lambda>v. 0xF6003000) 0 [40, 41] sharing_kmem"
proof -
  have "tables sharing_kmem 0xF6003000 (PTX 0) = mapped_entry 40 0"
    "tables sharing_kmem 0xF6003000 (PTX 0x1000) = mapped_entry 41 0" "number_of_frames sharing_kmem = 300"
    by (simp_all add: sharing_kmem_def kmem_example_def mapped_entry_def to_physical_address_def
        CONSTRUCT_ENTRY_def perm_defs addr_defs)
  then show ?thesis
    using sharing_kmem_tables(3,4) by (auto simp: stored_def less_Suc_eq PAGE_SIZE_def)
qed

lemma sharing_ready:
  "get_ready 0xF0200000 (\<lambda>i. 0xF6001000) 0xF6002000 (\<lambda>v. 0xF6003000) (page_list 0x800000 2) sharing_kmem"
proof -
  have "page_list 0x800000 2 = [0x800000, 0x801000]"
    by (simp add: numeral_2_eq_2 PAGE_SIZE_def)
  moreover have "PTX 0x800000 \<noteq> PTX 0x801000" "number_of_frames sharing_kmem \<le> 1048576"
    "tables sharing_kmem 0xF6001000 i = 0" for i
    by (simp_all add: sharing_kmem_def kmem_example_def addr_defs)
  ultimately show ?thesis
    using sharing_kmem_tables(1,2) by (simp add: get_ready_def)
qed


section \<open>Properties\<close>

text \<open>C23: Getting a shared object whose frames are in its storage, at a range of free pages of the running
  environment whose page tables exist and are not those of the storage: page k of the range maps frame k of the
  object, writable exactly when the object is, each frame gains one reference per page, the object gains one,
  and no other entry and no free frame changes. (A page whose table is missing would take a frame for the table.)\<close>

theorem get_shared_maps:
  assumes "get_share_object_ID owner name s = int i" and "i < length (shares s)"
    and "curenv (hsched s) = Some e" and "env_page_directory (hmem s) e = dir"
    and "n = unat (ROUNDUP (share_size (shares s ! i)) PAGE_SIZE) div 4096"
    and "unat va + 4096 * n < 4294967296"
    and "stored (framesStorage (shares s ! i)) sp 0 fs (hmem s)" and "length fs = n"
    and "get_ready dir tp (framesStorage (shares s ! i)) sp (page_list va n) (hmem s)"
  shows "\<exists>s'. getSharedObject owner name va s = Inr (int i, s') \<and>
           (\<forall>k<n. get_frame_info dir (page_list va n ! k) (hmem s') =
              Inr (Some (fs ! k), tp (page_list va n ! k)) \<and>
              pt_get_page_permissions dir (page_list va n ! k) (hmem s') =
                Inr (if isWritable (shares s ! i) = 1 then PERM_PRESENT OR PERM_USER OR PERM_WRITEABLE
                     else PERM_PRESENT OR PERM_USER)) \<and>
           (\<forall>g. references (hmem s') g = references (hmem s) g + of_nat (count_list fs g)) \<and>
           (\<forall>p j. (p, j) \<notin> (\<lambda>i. (tp i, PTX i)) ` set (page_list va n) \<longrightarrow>
              tables (hmem s') p j = tables (hmem s) p j) \<and>
           free_frame_list (hmem s') = free_frame_list (hmem s) \<and>
           share_references (shares s' ! i) = share_references (shares s ! i) + 1"
proof -
  let ?is = "page_list va n" and ?perm = "share_perm (isWritable (shares s ! i))"
  let ?m = "fold (shared_page tp ?perm) (zip ?is fs) (hmem s)"
  let ?s = "set_share i (\<lambda>x. x\<lparr>share_references := share_references x + 1\<rparr>) (put_hmem ?m s)"
  have run: "getSharedObject owner name va s = Inr (int i, ?s)"
    using assms by (rule get_shared_ok)
  have d: "distinct (map (\<lambda>i. (tp i, PTX i)) ?is)" and l: "length ?is = length fs"
    and nf: "number_of_frames (hmem s) \<le> 1048576"
    using assms(8,9) by (simp_all add: get_ready_def)
  note eff = shared_pages_effect [OF d l, of ?perm "hmem s"]
  have page: "get_frame_info dir (?is ! k) ?m = Inr (Some (fs ! k), tp (?is ! k)) \<and>
      pt_get_page_permissions dir (?is ! k) ?m =
        Inr (if isWritable (shares s ! i) = 1 then PERM_PRESENT OR PERM_USER OR PERM_WRITEABLE
             else PERM_PRESENT OR PERM_USER)" if k: "k < n" for k
  proof -
    have mem: "?is ! k \<in> set ?is"
      using k by simp
    have at: "table_at dir (?is ! k) (tp (?is ! k)) (hmem s)"
      using assms(9) mem unfolding get_ready_def by blast
    have "tp (fst x) \<noteq> dir" if "x \<in> set (zip ?is fs)" for x
    proof -
      have "fst x \<in> set ?is"
        using that set_zip_leftD [of "fst x" "snd x" ?is fs] by simp
      then have "table_at dir (fst x) (tp (fst x)) (hmem s)"
        using assms(9) unfolding get_ready_def by blast
      then show ?thesis
        by (rule table_at_ne)
    qed
    then have at': "table_at dir (?is ! k) (tp (?is ! k)) ?m"
      using at by (intro fold_shared_table_at) simp_all
    have e: "tables ?m (tp (?is ! k)) (PTX (?is ! k)) = mapped_entry (fs ! k) ?perm"
      using eff(1) k by simp
    have lt: "fs ! k < number_of_frames (hmem s)"
      using assms(7,8) k by (simp add: stored_def)
    then have "fs ! k < 1048576"
      using nf by simp
    note parts = mapped_entry_parts [OF this share_perm_small]
    show ?thesis
      using get_frame_info_at [OF at'] pt_get_page_permissions_at [OF at'] e parts(2,4,5) lt
      by (simp add: share_perm_def perm_defs)
  qed
  show ?thesis
    using run page eff(2-4) assms(2) by (intro exI [of _ ?s]) simp
qed

theorem get_shared_maps_witness:
  "\<exists>s'. getSharedObject 100 ''x'' 0x800000 sharing_example = Inr (0, s') \<and>
     get_frame_info 0xF0200000 0x801000 (hmem s') = Inr (Some 41, 0xF6001000) \<and>
     references (hmem s') 40 = 1"
proof -
  have sz: "unat (ROUNDUP 5000 PAGE_SIZE) div 4096 = 2"
    by (simp add: ROUNDUP_def ROUNDDOWN_def PAGE_SIZE_def)
  have nth: "page_list 0x800000 2 ! 1 = 0x801000"
    by (simp add: numeral_2_eq_2 PAGE_SIZE_def)
  obtain s' where "getSharedObject 100 ''x'' 0x800000 sharing_example = Inr (int 0, s')"
    "\<forall>k<2. get_frame_info 0xF0200000 (page_list 0x800000 2 ! k) (hmem s') = Inr (Some ([40, 41] ! k), 0xF6001000)"
    "\<forall>g. references (hmem s') g = references sharing_kmem g + of_nat (count_list [40, 41] g)"
    using get_shared_maps [OF sharing_example_facts(6), where e = 0 and dir = "0xF0200000" and n = 2
        and va = "0x800000" and fs = "[40, 41]" and sp = "\<lambda>v. 0xF6003000" and tp = "\<lambda>i. 0xF6001000"]
      sharing_stored sharing_ready sz by (auto simp: sharing_example_facts)
  then show ?thesis
    using nth by (auto simp: sharing_kmem_def kmem_example_def dest: spec [of _ 1])
qed

text \<open>A frame added to the storage of a shared object at an index is found at that index
  afterwards; the other indices of the same table find what they found before.\<close>

theorem storage_add_get:
  assumes "number_of_frames m \<le> 1048576" and "f < number_of_frames m"
    and "table_at st (index * PAGE_SIZE) p m"
  shows "\<exists>m'. add_frame_to_storage st f index m = Inr m' \<and>
           get_frame_from_storage st index m' = Inr (Some f) \<and>
           (\<forall>j. table_at st (j * PAGE_SIZE) p m \<and> PTX (j * PAGE_SIZE) \<noteq> PTX (index * PAGE_SIZE) \<longrightarrow>
              get_frame_from_storage st j m' = get_frame_from_storage st j m)"
proof -
  let ?v = "index * PAGE_SIZE"
  let ?m = "set_entry p (PTX ?v) (mapped_entry f 0) m"
  have add: "add_frame_to_storage st f index m = Inr ?m"
    using assms(3) by (simp add: add_frame_to_storage_def table_at_def mapped_entry_def Let_def)
  have keep: "table_at st (j * PAGE_SIZE) p ?m" if "table_at st (j * PAGE_SIZE) p m" for j
    using that table_at_ne [OF assms(3)] by (simp add: table_at_set_entry)
  have "f < 1048576"
    using assms(1,2) by simp
  then have "get_frame_from_storage st index ?m = Inr (Some f)"
    using get_frame_info_at [OF keep [OF assms(3)]] assms(2) mapped_entry_parts [of f 0]
    by (simp add: get_frame_from_storage_def Let_def)
  moreover have "get_frame_from_storage st j ?m = get_frame_from_storage st j m"
    if "table_at st (j * PAGE_SIZE) p m" "PTX (j * PAGE_SIZE) \<noteq> PTX ?v" for j
    using get_frame_info_at [OF keep [OF that(1)]] get_frame_info_at [OF that(1)] that(2)
    by (simp add: get_frame_from_storage_def Let_def)
  ultimately show ?thesis
    using add by blast
qed

theorem storage_add_get_witness:
  "\<exists>m'. add_frame_to_storage 0xF6002000 50 1 sharing_kmem = Inr m' \<and>
     get_frame_from_storage 0xF6002000 1 m' = Inr (Some 50) \<and>
     get_frame_from_storage 0xF6002000 0 m' = get_frame_from_storage 0xF6002000 0 sharing_kmem"
proof -
  have n: "number_of_frames sharing_kmem \<le> 1048576" "50 < number_of_frames sharing_kmem"
    by (simp_all add: sharing_kmem_def kmem_example_def)
  have at: "table_at 0xF6002000 (1 * PAGE_SIZE) 0xF6003000 sharing_kmem"
    using sharing_kmem_tables(4) by (simp add: PAGE_SIZE_def)
  have "table_at 0xF6002000 (0 * PAGE_SIZE) 0xF6003000 sharing_kmem"
    using sharing_kmem_tables(3) by simp
  moreover have "PTX (0 * PAGE_SIZE) \<noteq> PTX (1 * PAGE_SIZE)"
    by (simp add: addr_defs PAGE_SIZE_def)
  ultimately show ?thesis
    using storage_add_get [OF n at] by blast
qed

text \<open>Creating a shared object whose owner and name are in use reports that it exists, and with no
  free object reports that none is left; in both cases nothing changes.\<close>

theorem create_shared_refused:
  assumes "length (shares s) = unat (MAX_SHARES s)" and "\<forall>x\<in>set (shares s). share_empty x = 0"
  shows "createSharedObject owner name sz w va s =
    (if \<exists>x\<in>set (shares s). share_owner x = owner \<and> share_name x = name
     then Inr (E_SHARED_MEM_EXISTS, s) else Inr (E_NO_SHARE, s))"
  using create_share_errors [OF assms(1), of owner name sz w va] assms(2)
  by (cases "\<exists>x\<in>set (shares s). share_owner x = owner \<and> share_name x = name") auto

theorem create_shared_refused_witness:
  "createSharedObject 100 ''y'' 1 1 0x800000 sharing_example = Inr (E_NO_SHARE, sharing_example)"
  using create_shared_refused [of sharing_example 100 "''y''" 1 1 "0x800000"]
  by (simp add: sharing_example_facts)

text \<open>Getting a shared object that does not exist reads the object at index -16 before the result
  of the search is tested.\<close>

theorem get_missing_share:
  assumes "length (shares s) = unat (MAX_SHARES s)"
    and "\<forall>x\<in>set (shares s). share_owner x = owner \<longrightarrow> share_name x \<noteq> name"
  shows "get_share_object_ID owner name s = - 16 \<and> getSharedObject owner name va s = Inl Out_Of_Bounds"
proof -
  have no: "\<not> (\<exists>x\<in>set (shares s). share_empty x = 0 \<and> share_owner x = owner \<and> share_name x = name)"
    using assms(2) by blast
  have "get_share_object_ID owner name s = - 16"
    using share_ID_cases [OF assms(1), of owner name]
    unfolding if_not_P [OF no] by (simp add: E_SHARED_MEM_NOT_EXISTS_def)
  then show ?thesis
    by (simp add: getSharedObject_def)
qed

theorem get_missing_share_witness: "getSharedObject 100 ''y'' 0x800000 sharing_example = Inl Out_Of_Bounds"
  using get_missing_share [of sharing_example 100 "''y''"] by (simp add: sharing_example_facts)

end
