(* ===== verification/User_Mem.thy ===== *)
theory User_Mem
  imports Fault_Handler
begin

text \<open>
  Releasing user memory, the second part of \<^verbatim>\<open>kern/mem/chunk_operations.c\<close>: the pages
  of the range that are in the working set are unmapped, all pages of the range are removed from
  the page file, and page tables that hold no entry are given back.
\<close>

section \<open>Operations\<close>

text \<open>The address is read from the entry before its empty flag is tested.\<close>

definition free_ws_entry :: "nat \<Rightarrow> u32 \<Rightarrow> u32 \<Rightarrow> nat \<Rightarrow> vm \<Rightarrow> vm result" where
  "free_ws_entry n sva eva j v =
     andthen (env_page_ws_get_virtual_address (of_nat j) (venv v n)) (\<lambda>va.
     andthen (env_page_ws_is_entry_empty (of_nat j) (venv v n)) (\<lambda>ret.
       if ret = 0 \<and> sva \<le> va \<and> va < eva then
         (let v = on_env n (\<lambda>e. e\<lparr>page_last_WS_index := of_nat j\<rparr>) v in
          andthen (on_mem (unmap_frame (edir n v) va) v)
            (on_env_res n (env_page_ws_clear_entry (of_nat j))))
       else Inr v))"

definition free_user_pages :: "nat \<Rightarrow> u32 \<Rightarrow> u32 \<Rightarrow> vm \<Rightarrow> vm result" where
  "free_user_pages n sva eva v =
     for_each (free_ws_entry n sva eva) [0..<unat (page_WS_max_size (venv v n))] v"

definition table_is_empty :: "u32 \<Rightarrow> kmem \<Rightarrow> bool" where
  "table_is_empty p s \<longleftrightarrow> list_all (\<lambda>j. tables s p (of_nat j) = 0) [0..<1024]"

definition free_empty_table :: "u32 \<Rightarrow> u32 \<Rightarrow> kmem \<Rightarrow> kmem result" where
  "free_empty_table dir i s =
     andthen (get_page_table dir i s) (\<lambda>(ret, p).
       if ret = TABLE_IN_MEMORY then
         andthen (table_read p 0 s) (\<lambda>_.
           if table_is_empty p s then andthen (kfree p s) (table_write dir (PDX i) 0) else Inr s)
       else Inr s)"

definition free_user_table :: "nat \<Rightarrow> u32 \<Rightarrow> vm \<Rightarrow> vm result" where
  "free_user_table n i v =
     andthen (pf_remove_env_page n i v) (\<lambda>v. on_mem (free_empty_table (edir n v) i) v)"

definition free_user_mem :: "nat \<Rightarrow> u32 \<Rightarrow> u32 \<Rightarrow> vm \<Rightarrow> vm result" where
  "free_user_mem n virtual_address sz v =
     (let virtual_address = ROUNDDOWN virtual_address PAGE_SIZE;
          sz = ROUNDUP sz PAGE_SIZE
      in andthen (free_user_pages n virtual_address (virtual_address + sz) v)
           (for_pages virtual_address (virtual_address + sz) (free_user_table n)))"

definition allocate_user_mem :: "nat \<Rightarrow> u32 \<Rightarrow> u32 \<Rightarrow> vm \<Rightarrow> vm result" where
  "allocate_user_mem n virtual_address sz v = Inr v"

definition free_user_mem_with_buffering :: "nat \<Rightarrow> u32 \<Rightarrow> u32 \<Rightarrow> vm \<Rightarrow> vm result" where
  "free_user_mem_with_buffering n virtual_address sz v = Inl Panic"

definition move_user_mem :: "nat \<Rightarrow> u32 \<Rightarrow> u32 \<Rightarrow> u32 \<Rightarrow> vm \<Rightarrow> vm result" where
  "move_user_mem n src_virtual_address dst_virtual_address sz v = Inl Panic"

section \<open>The pages of the working set\<close>

text \<open>The entries of the working set in the range, and what releasing one of them does.\<close>

definition ws_in_range :: "nat \<Rightarrow> u32 \<Rightarrow> u32 \<Rightarrow> vm \<Rightarrow> nat \<Rightarrow> bool" where
  "ws_in_range n sva eva v j \<longleftrightarrow>
     ws_used (ptr_pageWorkingSet (venv v n) ! j) \<and> sva \<le> ws_page n v j \<and> ws_page n v j < eva"

definition empty_wse :: "wse \<Rightarrow> wse" where
  "empty_wse w = w\<lparr>ws_va := 0, ws_empty := 1, ws_time_stamp := 0\<rparr>"

definition release_entry :: "nat \<Rightarrow> (u32 \<Rightarrow> u32) \<Rightarrow> (nat \<Rightarrow> nat) \<Rightarrow> nat \<Rightarrow> vm \<Rightarrow> vm" where
  "release_entry n tp fr j v =
     on_env n (\<lambda>e. e\<lparr>page_last_WS_index := of_nat j,
         ptr_pageWorkingSet := (ptr_pageWorkingSet e)[j := empty_wse (ptr_pageWorkingSet e ! j)]\<rparr>)
       (set_mem v (freed_page tp (ws_page n v j, fr j) (vmem v)))"

definition release_list :: "nat \<Rightarrow> (nat \<Rightarrow> nat) \<Rightarrow> vm \<Rightarrow> nat list \<Rightarrow> (u32 \<times> nat) list" where
  "release_list n fr v js = map (\<lambda>j. (ws_page n v j, fr j)) js"

lemma release_entry_simps [simp]:
  "vmem (release_entry n tp fr j v) = freed_page tp (ws_page n v j, fr j) (vmem v)"
  "vdisk (release_entry n tp fr j v) = vdisk v"
  "page_WS_max_size (venv (release_entry n tp fr j v) n) = page_WS_max_size (venv v n)"
  "length (ptr_pageWorkingSet (venv (release_entry n tp fr j v) n)) = length (ptr_pageWorkingSet (venv v n))"
  "edir n (release_entry n tp fr j v) = edir n v"
  by (simp_all add: release_entry_def edir_def freed_page_def initialize_frame_info_def)

lemma release_entry_other:
  "k \<noteq> j \<Longrightarrow> ptr_pageWorkingSet (venv (release_entry n tp fr j v) n) ! k = ptr_pageWorkingSet (venv v n) ! k"
  by (simp add: release_entry_def)

lemma ws_in_range_other:
  assumes "k \<noteq> j"
  shows "ws_in_range n sva eva (release_entry n tp fr j v) k = ws_in_range n sva eva v k"
    and "ws_page n (release_entry n tp fr j v) k = ws_page n v k"
  using release_entry_other [OF assms] by (simp_all add: ws_in_range_def ws_page_def)

lemma free_ws_entry_out:
  assumes "ws_wf (venv v n)" and "j < unat (page_WS_max_size (venv v n))" and "\<not> ws_in_range n sva eva v j"
  shows "free_ws_entry n sva eva j v = Inr v"
  using assms
  by (auto simp: free_ws_entry_def env_page_ws_get_virtual_address_def env_page_ws_is_entry_empty_def
      ws_read_def ws_wf_def ws_in_range_def ws_used_def ws_page_def unat_index word_less_nat_alt)

lemma free_ws_entry_in:
  assumes wf: "ws_wf (venv v n)" and j: "j < unat (page_WS_max_size (venv v n))"
    and r: "ws_in_range n sva eva v j"
    and u: "unmap_frame (edir n v) (ws_page n v j) (vmem v) = Inr (freed_page tp (ws_page n v j, fr j) (vmem v))"
  shows "free_ws_entry n sva eva j v = Inr (release_entry n tp fr j v)"
proof -
  have ed: "edir n (on_env n f v) = edir n v" for f
    by (simp add: edir_def)
  have rd: "env_page_ws_get_virtual_address (of_nat j) (venv v n) = Inr (ws_page n v j)"
    "env_page_ws_is_entry_empty (of_nat j) (venv v n) = Inr 0"
    using wf j r
    by (simp_all add: env_page_ws_get_virtual_address_def env_page_ws_is_entry_empty_def ws_read_def
        ws_wf_def ws_in_range_def ws_used_def ws_page_def unat_index [OF j] word_less_nat_alt)
  let ?v1 = "on_env n (\<lambda>e. e\<lparr>page_last_WS_index := of_nat j\<rparr>) v"
  let ?v2 = "set_mem ?v1 (freed_page tp (ws_page n v j, fr j) (vmem v))"
  have "on_mem (unmap_frame (edir n v) (ws_page n v j)) ?v1 = Inr ?v2"
    using u by (simp add: on_mem_def)
  moreover have "on_env_res n (env_page_ws_clear_entry (of_nat j)) ?v2 = Inr (release_entry n tp fr j v)"
    using wf j
    by (simp add: on_env_res_def env_page_ws_clear_entry_def ws_update_def ws_wf_def unat_index [OF j]
        word_less_nat_alt release_entry_def empty_wse_def on_env_def set_mem_def)
  ultimately show ?thesis
    using rd r by (simp add: free_ws_entry_def Let_def ed ws_in_range_def)
qed

lemma free_ws_entries:
  "distinct js \<Longrightarrow> ws_wf (venv v n) \<Longrightarrow> \<forall>j\<in>set js. j < unat (page_WS_max_size (venv v n)) \<Longrightarrow>
   unmap_ready (edir n v) tp (release_list n fr v (filter (ws_in_range n sva eva v) js)) (vmem v) \<Longrightarrow>
   for_each (free_ws_entry n sva eva) js v =
     Inr (fold (release_entry n tp fr) (filter (ws_in_range n sva eva v) js) v)"
proof (induction js arbitrary: v)
  case Nil
  then show ?case by simp
next
  case (Cons j js)
  note j = Cons.prems(3) [rule_format, OF list.set_intros(1)]
  show ?case
  proof (cases "ws_in_range n sva eva v j")
    case False
    then show ?thesis
      using Cons free_ws_entry_out [OF Cons.prems(2) j False] by simp
  next
    case True
    let ?v = "release_entry n tp fr j v"
    let ?js = "filter (ws_in_range n sva eva v) js"
    have rdy: "unmap_ready (edir n v) tp ((ws_page n v j, fr j) # release_list n fr v ?js) (vmem v)"
      using Cons.prems(4) True by (simp add: release_list_def)
    have "unmap_frame (edir n v) (ws_page n v j) (vmem v) = Inr (freed_page tp (ws_page n v j, fr j) (vmem v))"
      using rdy by (intro unmap_last [where p = "tp (ws_page n v j)"]) (simp_all add: unmap_ready_def)
    note run = free_ws_entry_in [where fr = fr, OF Cons.prems(2) j True this]
    have ne: "k \<noteq> j" if "k \<in> set js" for k
      using Cons.prems(1) that by auto
    have sel: "filter (ws_in_range n sva eva ?v) js = ?js"
      using ne by (intro filter_cong) (simp_all add: ws_in_range_other)
    have rl: "release_list n fr ?v ?js = release_list n fr v ?js"
      using ne by (auto simp: release_list_def ws_in_range_other)
    have "unmap_ready (edir n ?v) tp (release_list n fr ?v (filter (ws_in_range n sva eva ?v) js)) (vmem ?v)"
      using unmap_ready_step [OF rdy] by (simp add: sel rl)
    then have "for_each (free_ws_entry n sva eva) js ?v =
        Inr (fold (release_entry n tp fr) (filter (ws_in_range n sva eva ?v) js) ?v)"
      using Cons.prems(1-3) by (intro Cons.IH) (simp_all add: ws_wf_def)
    then show ?thesis
      using run True by (simp add: sel)
  qed
qed

lemma release_entries_effect:
  assumes "distinct js" and "\<forall>j\<in>set js. j < length (ptr_pageWorkingSet (venv v n))"
  shows "vmem (fold (release_entry n tp fr) js v) = fold (freed_page tp) (release_list n fr v js) (vmem v)"
    and "ptr_pageWorkingSet (venv (fold (release_entry n tp fr) js v) n) =
      map (\<lambda>k. if k \<in> set js then empty_wse (ptr_pageWorkingSet (venv v n) ! k)
               else ptr_pageWorkingSet (venv v n) ! k) [0..<length (ptr_pageWorkingSet (venv v n))]"
    and "page_last_WS_index (venv (fold (release_entry n tp fr) js v) n) =
      (if js = [] then page_last_WS_index (venv v n) else of_nat (last js))"
    and "vdisk (fold (release_entry n tp fr) js v) = vdisk v"
proof -
  have "vmem (fold (release_entry n tp fr) js v) = fold (freed_page tp) (release_list n fr v js) (vmem v) \<and>
    ptr_pageWorkingSet (venv (fold (release_entry n tp fr) js v) n) =
      map (\<lambda>k. if k \<in> set js then empty_wse (ptr_pageWorkingSet (venv v n) ! k)
               else ptr_pageWorkingSet (venv v n) ! k) [0..<length (ptr_pageWorkingSet (venv v n))] \<and>
    page_last_WS_index (venv (fold (release_entry n tp fr) js v) n) =
      (if js = [] then page_last_WS_index (venv v n) else of_nat (last js)) \<and>
    vdisk (fold (release_entry n tp fr) js v) = vdisk v"
    using assms
  proof (induction js arbitrary: v)
    case Nil
    then show ?case by (simp add: release_list_def map_nth)
  next
    case (Cons j js)
    let ?v = "release_entry n tp fr j v"
    have ne: "j \<notin> set js" "distinct js" and j: "j < length (ptr_pageWorkingSet (venv v n))"
      using Cons.prems by simp_all
    have rl: "release_list n fr ?v js = release_list n fr v js"
      unfolding release_list_def
    proof (rule map_cong [OF refl])
      fix k
      assume "k \<in> set js"
      then have "k \<noteq> j"
        using ne(1) by blast
      then show "(ws_page n ?v k, fr k) = (ws_page n v k, fr k)"
        by (simp add: ws_in_range_other)
    qed
    have hd: "page_last_WS_index (venv ?v n) = of_nat j"
      by (simp add: release_entry_def)
    have ws: "ptr_pageWorkingSet (venv ?v n) ! k =
        (if k = j then empty_wse (ptr_pageWorkingSet (venv v n) ! k) else ptr_pageWorkingSet (venv v n) ! k)"
      for k
      using j by (simp add: release_entry_def)
    have "\<forall>k\<in>set js. k < length (ptr_pageWorkingSet (venv ?v n))"
      using Cons.prems(2) by simp
    note IH = Cons.IH [OF ne(2) this]
    have "map (\<lambda>k. if k \<in> set js then empty_wse (ptr_pageWorkingSet (venv ?v n) ! k)
             else ptr_pageWorkingSet (venv ?v n) ! k) [0..<length (ptr_pageWorkingSet (venv ?v n))] =
        map (\<lambda>k. if k \<in> set (j # js) then empty_wse (ptr_pageWorkingSet (venv v n) ! k)
             else ptr_pageWorkingSet (venv v n) ! k) [0..<length (ptr_pageWorkingSet (venv v n))]"
      using ne(1) by (auto simp: ws)
    then show ?case
      using IH hd by (auto simp: rl) (simp_all add: release_list_def)
  qed
  then show "vmem (fold (release_entry n tp fr) js v) = fold (freed_page tp) (release_list n fr v js) (vmem v)"
    and "ptr_pageWorkingSet (venv (fold (release_entry n tp fr) js v) n) =
      map (\<lambda>k. if k \<in> set js then empty_wse (ptr_pageWorkingSet (venv v n) ! k)
               else ptr_pageWorkingSet (venv v n) ! k) [0..<length (ptr_pageWorkingSet (venv v n))]"
    and "page_last_WS_index (venv (fold (release_entry n tp fr) js v) n) =
      (if js = [] then page_last_WS_index (venv v n) else of_nat (last js))"
    and "vdisk (fold (release_entry n tp fr) js v) = vdisk v"
    by blast+
qed

section \<open>Empty page tables\<close>

lemma table_is_empty_iff: "table_is_empty p s \<longleftrightarrow> (\<forall>j<1024. tables s p (of_nat j) = 0)"
  by (auto simp: table_is_empty_def list_all_iff)

lemma free_empty_table_used:
  "table_at dir i p s \<Longrightarrow> tables s p (PTX j) \<noteq> 0 \<Longrightarrow> free_empty_table dir i s = Inr s"
proof -
  assume at: "table_at dir i p s" and e: "tables s p (PTX j) \<noteq> 0"
  have "of_nat (unat (PTX j)) = PTX j" "unat (PTX j) < 1024"
    using PTX_lt by simp_all
  then have "\<not> table_is_empty p s"
    using e unfolding table_is_empty_iff by metis
  then show "free_empty_table dir i s = Inr s"
    using at by (simp add: free_empty_table_def table_at_def)
qed

section \<open>Properties\<close>

text \<open>C18: Releasing the pages of a range that are in the working set, each the only mapping of its
  frame: their entries are unmapped and their frames freed, exactly their working set entries
  become empty, and the hand is left at the last entry released, wherever the next used entry
  is. Neither the page file nor anything else in memory changes.\<close>

theorem free_user_pages_exact:
  assumes "ws_wf (venv v n)" and "m = unat (page_WS_max_size (venv v n))"
    and "js = filter (ws_in_range n sva eva v) [0..<m]"
    and "unmap_ready (edir n v) tp (map (\<lambda>j. (ws_page n v j, fr j)) js) (vmem v)"
  shows "\<exists>v'. free_user_pages n sva eva v = Inr v' \<and>
           unmap_effect tp (map (\<lambda>j. (ws_page n v j, fr j)) js) (vmem v) (vmem v') \<and>
           ptr_pageWorkingSet (venv v' n) =
             map (\<lambda>k. if k \<in> set js then empty_wse (ptr_pageWorkingSet (venv v n) ! k)
                      else ptr_pageWorkingSet (venv v n) ! k) [0..<m] \<and>
           page_last_WS_index (venv v' n) =
             (if js = [] then page_last_WS_index (venv v n) else of_nat (last js)) \<and>
           vdisk v' = vdisk v"
proof -
  have l: "length (ptr_pageWorkingSet (venv v n)) = m"
    using assms(1,2) by (simp add: ws_wf_def)
  let ?v = "fold (release_entry n tp fr) js v"
  have "free_user_pages n sva eva v = Inr ?v"
    using free_ws_entries [of "[0..<m]" v n tp fr sva eva] assms
    by (simp add: free_user_pages_def release_list_def)
  moreover have d: "distinct js" "\<forall>j\<in>set js. j < length (ptr_pageWorkingSet (venv v n))"
    using assms(3) l by auto
  note eff = release_entries_effect [OF d, of tp fr]
  have "unmap_effect tp (map (\<lambda>j. (ws_page n v j, fr j)) js) (vmem v) (vmem ?v)"
    using unmap_state_effect by (simp add: eff(1) release_list_def)
  ultimately show ?thesis
    using eff(2-4) l by blast
qed

text \<open>Entry 0 of the working set is the page \<open>0x800000\<close>, mapped to frame 25; entry 1 is empty.\<close>

lemma vm_example_ws:
  "ws_wf (venv vm_example 0)" "unat (page_WS_max_size (venv vm_example 0)) = 2"
  "ws_page 0 vm_example 0 = 0x800000"
  "filter (ws_in_range 0 0x800000 0x801000 vm_example) [0..<2] = [0]"
  by (simp_all add: ws_wf_def vm_example_def env_example_def ws_page_def ROUNDDOWN_def
      ws_in_range_def ws_used_def upt_rec PAGE_SIZE_def)

lemma vm_example_unmap:
  "unmap_ready (edir 0 vm_example) (\<lambda>_. 0xF6001000) (map (\<lambda>j. (ws_page 0 vm_example j, 25)) [0]) (vmem vm_example)"
proof -
  have "tables (vmem vm_example) 0xF6001000 (PTX 0x800000) = 0x19047"
    "number_of_frames (vmem vm_example) = 300" "references (vmem vm_example) 25 = 1"
    "free_frame_list (vmem vm_example) = [30, 31]"
    by (simp_all add: vm_example_def kmem_example_def addr_defs)
  moreover have "pde_frame (edir 0 vm_example) 0x800000 (vmem vm_example) = 20"
    by (simp add: pde_frame_def vm_example_def kmem_example_def edir_def addr_defs)
  ultimately show ?thesis
    using vm_example_facts(2) by (simp add: unmap_ready_def vm_example_ws) (simp add: addr_defs)
qed

theorem free_user_pages_exact_witness:
  "\<exists>v'. free_user_pages 0 0x800000 0x801000 vm_example = Inr v' \<and>
     free_frame_list (vmem v') = [25, 30, 31] \<and> ws_empty (ptr_pageWorkingSet (venv v' 0) ! 0) = 1 \<and>
     page_last_WS_index (venv v' 0) = 0"
proof -
  obtain v' where v': "free_user_pages 0 0x800000 0x801000 vm_example = Inr v'"
    "unmap_effect (\<lambda>_. 0xF6001000) (map (\<lambda>j. (ws_page 0 vm_example j, 25)) [0]) (vmem vm_example) (vmem v')"
    "ptr_pageWorkingSet (venv v' 0) =
       map (\<lambda>k. if k \<in> set [0] then empty_wse (ptr_pageWorkingSet (venv vm_example 0) ! k)
                else ptr_pageWorkingSet (venv vm_example 0) ! k) [0..<2]"
    "page_last_WS_index (venv v' 0) = of_nat (last [0])"
    using free_user_pages_exact [OF vm_example_ws(1) vm_example_ws(2) [symmetric]
        vm_example_ws(4) [symmetric] vm_example_unmap] by auto
  moreover have "free_frame_list (vmem vm_example) = [30, 31]"
    by (simp add: vm_example_def kmem_example_def)
  ultimately show ?thesis
    by (auto simp: unmap_effect_def empty_wse_def upt_rec)
qed

end
