(* ===== verification/Syscalls.thy ===== *)
theory Syscalls
  imports Shared_Mem User_Mem
begin

text \<open>
  System calls, \<^verbatim>\<open>kern/trap/syscall.c\<close>: the handlers on the state of the whole kernel,
  each calling the component it belongs to, and the table that maps numbers to handlers. The
  calls that read or write the console, the clock registers or the lists of the list-based
  replacement are only decoded.
\<close>

section \<open>The kernel\<close>

record kernel =
  ketab :: etab
  ksemaphores :: "semaphore list"
  kMAX_SEMAPHORES :: u32
  kshares :: "share list"
  kMAX_SHARES :: u32
  UHeapPlacementStrategy :: u32
  tf_eflags :: "nat \<Rightarrow> u32"
  bypassInstrLength :: u8
  tstcnt :: u32

definition ksched :: "kernel \<Rightarrow> sched" where "ksched k = esched (ketab k)"

definition put_sched :: "sched \<Rightarrow> kernel \<Rightarrow> kernel" where
  "put_sched c k = k\<lparr>ketab := (ketab k)\<lparr>esched := c\<rparr>\<rparr>"

definition kvm :: "kernel \<Rightarrow> vm" where "kvm k = svm (ksched k)"

definition put_kvm :: "vm \<Rightarrow> kernel \<Rightarrow> kernel" where
  "put_kvm v k = put_sched ((ksched k)\<lparr>svm := v\<rparr>) k"

definition put_kmem :: "kmem \<Rightarrow> kernel \<Rightarrow> kernel" where
  "put_kmem m k = put_kvm (set_mem (kvm k) m) k"

text \<open>Access through \<^verbatim>\<open>curenv\<close>.\<close>

definition cur :: "kernel \<Rightarrow> nat result" where
  "cur k = (case curenv (ksched k) of None \<Rightarrow> Inl Null_Deref | Some e \<Rightarrow> Inr e)"

definition on_sems :: "(sems \<Rightarrow> ('a \<times> sems) result) \<Rightarrow> kernel \<Rightarrow> ('a \<times> kernel) result" where
  "on_sems f k =
     andthen (f \<lparr>ssched = ksched k, semaphores = ksemaphores k, MAX_SEMAPHORES = kMAX_SEMAPHORES k\<rparr>)
       (\<lambda>(r, s). Inr (r, (put_sched (ssched s) k)
          \<lparr>ksemaphores := semaphores s, kMAX_SEMAPHORES := MAX_SEMAPHORES s\<rparr>))"

definition on_sharing :: "(sharing \<Rightarrow> ('a \<times> sharing) result) \<Rightarrow> kernel \<Rightarrow> ('a \<times> kernel) result" where
  "on_sharing f k =
     andthen (f \<lparr>hsched = ksched k, shares = kshares k, MAX_SHARES = kMAX_SHARES k\<rparr>)
       (\<lambda>(r, s). Inr (r, (put_sched (hsched s) k)\<lparr>kshares := shares s, kMAX_SHARES := MAX_SHARES s\<rparr>))"

definition on_sched :: "(sched \<Rightarrow> ('a \<times> sched) result) \<Rightarrow> kernel \<Rightarrow> ('a \<times> kernel) result" where
  "on_sched f k = andthen (f (ksched k)) (\<lambda>(r, c). Inr (r, put_sched c k))"

section \<open>Memory\<close>

text \<open>
  The frame is taken before the arguments are checked, cleared through the temporary mapping at
  \<^verbatim>\<open>USER_LIMIT\<close>, and mapped.
\<close>

definition clear_new_frame :: "u32 \<Rightarrow> nat \<Rightarrow> kmem \<Rightarrow> kmem result" where
  "clear_new_frame dir f m =
     andthen (map_frame dir f USER_LIMIT PERM_WRITEABLE m) (\<lambda>m.
     andthen (store_page dir USER_LIMIT 4096 (\<lambda>j. 0) m) (\<lambda>m.
       let m = m\<lparr>references := (references m)(f := references m f + 1)\<rparr> in
       andthen (unmap_frame dir USER_LIMIT m) (\<lambda>m.
         Inr (m\<lparr>references := (references m)(f := references m f - 1)\<rparr>))))"

definition sys_allocate_page :: "u32 \<Rightarrow> u32 \<Rightarrow> kernel \<Rightarrow> (int \<times> kernel) result" where
  "sys_allocate_page va perm k =
     andthen (allocate_frame (vmem (kvm k))) (\<lambda>(f, m).
       if USER_TOP \<le> va \<or> va mod PAGE_SIZE \<noteq> 0 then Inr (E_INVAL, put_kmem m k)
       else if perm AND (NOT PERM_AVAILABLE AND NOT PERM_WRITEABLE) \<noteq> PERM_USER
       then Inr (E_INVAL, put_kmem m k)
       else
         andthen (cur k) (\<lambda>e.
         let dir = env_page_directory m e in
         andthen (clear_new_frame dir f m) (\<lambda>m.
         andthen (map_frame dir f va perm m) (\<lambda>m. Inr (0, put_kmem m k)))))"

definition sys_map_frame :: "kernel \<Rightarrow> (int \<times> kernel) result" where
  "sys_map_frame k = Inl Panic"

definition sys_unmap_frame :: "kernel \<Rightarrow> (int \<times> kernel) result" where
  "sys_unmap_frame k = Inl Panic"

definition sys_calculate_required_frames :: "u32 \<Rightarrow> u32 \<Rightarrow> kernel \<Rightarrow> u32 result" where
  "sys_calculate_required_frames start_virtual_address sz k =
     andthen (cur k) (\<lambda>e. calculate_required_frames (env_page_directory (vmem (kvm k)) e)
       start_virtual_address sz (vmem (kvm k)))"

definition sys_calculate_free_frames :: "kernel \<Rightarrow> u32" where
  "sys_calculate_free_frames k =
     (let counters = calculate_available_frames (vmem (kvm k))
      in freeBuffered counters + freeNotBuffered counters)"

definition sys_calculate_modified_frames :: "kernel \<Rightarrow> u32" where
  "sys_calculate_modified_frames k = modified (calculate_available_frames (vmem (kvm k)))"

definition sys_calculate_notmod_frames :: "kernel \<Rightarrow> u32" where
  "sys_calculate_notmod_frames k = freeBuffered (calculate_available_frames (vmem (kvm k)))"

definition sys_clearFFL :: "kernel \<Rightarrow> kernel result" where
  "sys_clearFFL k =
     andthen (for_each (\<lambda>i m. andthen (allocate_frame m) (\<lambda>(f, m). Inr m))
                [0..<length (free_frame_list (vmem (kvm k)))] (vmem (kvm k)))
       (\<lambda>m. Inr (put_kmem m k))"

definition sys_pf_calculate_allocated_pages :: "kernel \<Rightarrow> u32 result" where
  "sys_pf_calculate_allocated_pages k = andthen (cur k) (\<lambda>e. pf_calculate_allocated_pages e (kvm k))"

definition sys_free_user_mem :: "u32 \<Rightarrow> u32 \<Rightarrow> kernel \<Rightarrow> kernel result" where
  "sys_free_user_mem virtual_address sz k =
     andthen (cur k) (\<lambda>e.
     andthen (if isBufferingEnabled (sset (ksched k)) \<noteq> 0
              then free_user_mem_with_buffering e virtual_address sz (kvm k)
              else free_user_mem e virtual_address sz (kvm k)) (\<lambda>v. Inr (put_kvm v k)))"

definition sys_allocate_user_mem :: "u32 \<Rightarrow> u32 \<Rightarrow> kernel \<Rightarrow> kernel result" where
  "sys_allocate_user_mem virtual_address sz k =
     andthen (cur k) (\<lambda>e. andthen (allocate_user_mem e virtual_address sz (kvm k))
       (\<lambda>v. Inr (put_kvm v k)))"

definition sys_allocate_chunk :: "u32 \<Rightarrow> u32 \<Rightarrow> u32 \<Rightarrow> kernel \<Rightarrow> kernel result" where
  "sys_allocate_chunk virtual_address sz perms k =
     andthen (cur k) (\<lambda>e.
     andthen (allocate_chunk (env_page_directory (vmem (kvm k)) e) virtual_address sz perms (vmem (kvm k)))
       (\<lambda>(_, m). Inr (put_kmem m k)))"

definition sys_move_user_mem :: "u32 \<Rightarrow> u32 \<Rightarrow> u32 \<Rightarrow> kernel \<Rightarrow> kernel result" where
  "sys_move_user_mem src_virtual_address dst_virtual_address sz k =
     andthen (cur k) (\<lambda>e.
     andthen (move_user_mem e src_virtual_address dst_virtual_address sz (kvm k)) (\<lambda>v. Inr (put_kvm v k)))"

definition sys_get_heap_strategy :: "kernel \<Rightarrow> u32" where
  "sys_get_heap_strategy k = UHeapPlacementStrategy k"

definition sys_set_uheap_strategy :: "u32 \<Rightarrow> kernel \<Rightarrow> kernel" where
  "sys_set_uheap_strategy heapStrategy k = k\<lparr>UHeapPlacementStrategy := heapStrategy\<rparr>"

section \<open>Interrupts\<close>

definition FL_IF :: u32 where "FL_IF = 0x200"

definition sys_disable_interrupt :: "kernel \<Rightarrow> kernel result" where
  "sys_disable_interrupt k =
     andthen (cur k) (\<lambda>e. Inr (k\<lparr>tf_eflags := (tf_eflags k)(e := tf_eflags k e AND NOT FL_IF)\<rparr>))"

definition sys_enable_interrupt :: "kernel \<Rightarrow> kernel result" where
  "sys_enable_interrupt k =
     andthen (cur k) (\<lambda>e. Inr (k\<lparr>tf_eflags := (tf_eflags k)(e := tf_eflags k e OR FL_IF)\<rparr>))"

section \<open>Semaphores and shared objects\<close>

definition sys_createSemaphore :: "string \<Rightarrow> u32 \<Rightarrow> kernel \<Rightarrow> (int \<times> kernel) result" where
  "sys_createSemaphore semaphoreName initialValue k =
     andthen (cur k) (\<lambda>e. on_sems (createSemaphore (env_id (venv (kvm k) e)) semaphoreName initialValue) k)"

definition sys_waitSemaphore ::
    "u8 \<times> u8 \<Rightarrow> 32 word \<Rightarrow> string \<Rightarrow> kernel \<Rightarrow> (control \<times> kernel) result" where
  "sys_waitSemaphore cnt ownerEnvID semaphoreName k = on_sems (waitSemaphore cnt ownerEnvID semaphoreName) k"

definition sys_signalSemaphore :: "32 word \<Rightarrow> string \<Rightarrow> kernel \<Rightarrow> kernel result" where
  "sys_signalSemaphore ownerEnvID semaphoreName k =
     andthen (on_sems (\<lambda>s. andthen (signalSemaphore ownerEnvID semaphoreName s) (\<lambda>s. Inr ((), s))) k)
       (\<lambda>(_, k). Inr k)"

definition sys_getSemaphoreValue :: "32 word \<Rightarrow> string \<Rightarrow> kernel \<Rightarrow> u32 result" where
  "sys_getSemaphoreValue ownerEnvID semaphoreName k =
     (let semID = get_semaphore_object_ID ownerEnvID semaphoreName
            \<lparr>ssched = ksched k, semaphores = ksemaphores k, MAX_SEMAPHORES = kMAX_SEMAPHORES k\<rparr>
      in if 0 \<le> semID \<and> semID < int (unat (kMAX_SEMAPHORES k))
         then Inr (sem_value (ksemaphores k ! nat semID)) else Inl Panic)"

definition sys_createSharedObject ::
    "string \<Rightarrow> u32 \<Rightarrow> u8 \<Rightarrow> u32 \<Rightarrow> kernel \<Rightarrow> (int \<times> kernel) result" where
  "sys_createSharedObject shareName sz writable virtual_address k =
     andthen (cur k) (\<lambda>e.
       on_sharing (createSharedObject (env_id (venv (kvm k) e)) shareName sz writable virtual_address) k)"

definition sys_getSizeOfSharedObject :: "32 word \<Rightarrow> string \<Rightarrow> kernel \<Rightarrow> int" where
  "sys_getSizeOfSharedObject owner shareName k =
     getSizeOfSharedObject owner shareName
       \<lparr>hsched = ksched k, shares = kshares k, MAX_SHARES = kMAX_SHARES k\<rparr>"

definition sys_getSharedObject :: "32 word \<Rightarrow> string \<Rightarrow> u32 \<Rightarrow> kernel \<Rightarrow> (int \<times> kernel) result" where
  "sys_getSharedObject owner shareName virtual_address k =
     on_sharing (getSharedObject owner shareName virtual_address) k"

definition sys_freeSharedObject :: "32 word \<Rightarrow> u32 \<Rightarrow> kernel \<Rightarrow> (int \<times> kernel) result" where
  "sys_freeSharedObject sharedObjectID startVA k = on_sharing (freeSharedObject sharedObjectID startVA) k"

definition sys_getMaxShares :: "kernel \<Rightarrow> u32" where
  "sys_getMaxShares k = kMAX_SHARES k"

section \<open>Environments\<close>

definition sys_getenvid :: "kernel \<Rightarrow> 32 word result" where
  "sys_getenvid k = andthen (cur k) (\<lambda>e. Inr (env_id (venv (kvm k) e)))"

text \<open>The difference of \<^verbatim>\<open>curenv\<close> and the array: meaningless when there is no environment.\<close>

definition sys_getenvindex :: "kernel \<Rightarrow> nat result" where
  "sys_getenvindex k = cur k"

definition sys_getparentenvid :: "kernel \<Rightarrow> 32 word result" where
  "sys_getparentenvid k = andthen (cur k) (\<lambda>e. Inr (env_parent_id (venv (kvm k) e)))"

definition sys_destroy_env :: "u8 \<times> u8 \<Rightarrow> 32 word \<Rightarrow> kernel \<Rightarrow> (int \<times> control \<times> kernel) result" where
  "sys_destroy_env cnt envid k =
     andthen (if envid = 0 then Inr (0, curenv (ksched k)) else envid2env envid False (ketab k))
       (\<lambda>(r, eo).
       if r < 0 then Inr (r, Returned, k)
       else
         andthen (cur k) (\<lambda>c.
           case eo of
             None \<Rightarrow> Inl Null_Deref
           | Some e \<Rightarrow>
               andthen (on_sched (sched_kill_env cnt (env_id (venv (kvm k) e))) k)
                 (\<lambda>(ctl, k). Inr (0, ctl, k))))"

definition sys_exit_env :: "u8 \<times> u8 \<Rightarrow> kernel \<Rightarrow> (control \<times> kernel) result" where
  "sys_exit_env cnt k = on_sched (env_exit cnt) k"

definition sys_run_env :: "u8 \<times> u8 \<Rightarrow> 32 word \<Rightarrow> kernel \<Rightarrow> (control \<times> kernel) result" where
  "sys_run_env cnt envId k = on_sched (sched_run_env cnt envId) k"

section \<open>Test counters\<close>

definition sys_bypassPageFault :: "u8 \<Rightarrow> kernel \<Rightarrow> kernel" where
  "sys_bypassPageFault instrLength k = k\<lparr>bypassInstrLength := instrLength\<rparr>"

definition rsttst :: "kernel \<Rightarrow> kernel" where "rsttst k = k\<lparr>tstcnt := 0\<rparr>"
definition inctst :: "kernel \<Rightarrow> kernel" where "inctst k = k\<lparr>tstcnt := tstcnt k + 1\<rparr>"
definition gettst :: "kernel \<Rightarrow> u32" where "gettst k = tstcnt k"

definition tst :: "u32 \<Rightarrow> u32 \<Rightarrow> u32 \<Rightarrow> char \<Rightarrow> u32 \<Rightarrow> kernel \<Rightarrow> kernel result" where
  "tst n v1 v2 c inverted k =
     (let chk = (if c = CHR ''l'' then n < v1 \<or> inverted \<noteq> 0
                 else if c = CHR ''g'' then v1 < n \<or> inverted \<noteq> 0
                 else if c = CHR ''e'' then n = v1 \<or> inverted \<noteq> 0
                 else if c = CHR ''b'' then v1 \<le> n \<and> n \<le> v1
                 else False)
      in if \<not> chk then Inl Panic else Inr (k\<lparr>tstcnt := tstcnt k + 1\<rparr>))"

definition chktst :: "u32 \<Rightarrow> kernel \<Rightarrow> kernel result" where
  "chktst n k = (if tstcnt k = n then Inr k else Inl Panic)"

section \<open>The dispatcher\<close>

datatype sysno =
    SYS_cputs | SYS_cgetc | SYS_getenvid | SYS_getenvindex | SYS_getparentenvid |
    SYS_allocate_page | SYS_map_frame | SYS_unmap_frame | SYS_calc_req_frames |
    SYS_calc_free_frames | SYS_calc_modified_frames | SYS_calc_notmod_frames |
    SYS_pf_calc_allocated_pages | SYS_calculate_pages_tobe_removed_ready_exit |
    SYS_scarce_memory | SYS_free_user_mem | SYS_allocate_user_mem | SYS_allocate_chunk_in_mem |
    SYS_move_user_mem | SYS_disableINTR | SYS_enableINTR | SYS_cputc | SYS_clearFFL |
    SYS_create_semaphore | SYS_wait_semaphore | SYS_signal_semaphore | SYS_get_semaphore_value
    | SYS_create_shared_object | SYS_get_size_of_shared_object | SYS_get_shared_object |
    SYS_free_shared_object | SYS_get_max_shares | SYS_create_env | SYS_run_env |
    SYS_destroy_env | SYS_exit_env | SYS_get_virtual_time | SYS_rcr2 | SYS_bypassPageFault |
    SYS_testNum | SYS_rsttst | SYS_chktst | SYS_inctst | SYS_gettst | SYS_get_heap_strategy |
    SYS_set_heap_strategy | SYS_check_LRU_lists | SYS_check_LRU_lists_free | NSYSCALLS

definition sysno_list :: "sysno list" where
  "sysno_list = [
    SYS_cputs, SYS_cgetc, SYS_getenvid, SYS_getenvindex, SYS_getparentenvid, SYS_allocate_page,
    SYS_map_frame, SYS_unmap_frame, SYS_calc_req_frames, SYS_calc_free_frames,
    SYS_calc_modified_frames, SYS_calc_notmod_frames, SYS_pf_calc_allocated_pages,
    SYS_calculate_pages_tobe_removed_ready_exit, SYS_scarce_memory, SYS_free_user_mem,
    SYS_allocate_user_mem, SYS_allocate_chunk_in_mem, SYS_move_user_mem, SYS_disableINTR,
    SYS_enableINTR, SYS_cputc, SYS_clearFFL, SYS_create_semaphore, SYS_wait_semaphore,
    SYS_signal_semaphore, SYS_get_semaphore_value, SYS_create_shared_object,
    SYS_get_size_of_shared_object, SYS_get_shared_object, SYS_free_shared_object,
    SYS_get_max_shares, SYS_create_env, SYS_run_env, SYS_destroy_env, SYS_exit_env,
    SYS_get_virtual_time, SYS_rcr2, SYS_bypassPageFault, SYS_testNum, SYS_rsttst, SYS_chktst,
    SYS_inctst, SYS_gettst, SYS_get_heap_strategy, SYS_set_heap_strategy, SYS_check_LRU_lists,
    SYS_check_LRU_lists_free, NSYSCALLS
    ]"

definition sysno_of :: "u32 \<Rightarrow> sysno option" where
  "sysno_of n = (if unat n < length sysno_list then Some (sysno_list ! unat n) else None)"

text \<open>
  What a call returns to the user, and whether the processor returned to its caller. Strings are
  read from the addresses in the arguments by \<open>str\<close>. The handlers that are not modelled (console,
  creation of environments, clock registers, replacement lists, the helpers of the kernel tests)
  are the argument \<open>other\<close>.
\<close>

type_synonym sysret = "(u32 \<times> control \<times> kernel) result"

definition ret_val :: "u32 \<Rightarrow> kernel \<Rightarrow> sysret" where
  "ret_val r k = Inr (r, Returned, k)"

definition ret_int :: "(int \<times> kernel) result \<Rightarrow> sysret" where
  "ret_int x = andthen x (\<lambda>(r, k). ret_val (of_int r) k)"

definition ret_none :: "kernel result \<Rightarrow> sysret" where
  "ret_none x = andthen x (ret_val 0)"

definition ret_ctl :: "(control \<times> kernel) result \<Rightarrow> sysret" where
  "ret_ctl x = andthen x (\<lambda>(c, k). Inr (0, c, k))"

definition run_handler ::
    "(u32 \<Rightarrow> string) \<Rightarrow> (sysno \<Rightarrow> kernel \<Rightarrow> sysret) \<Rightarrow> u8 \<times> u8 \<Rightarrow> sysno \<Rightarrow>
     u32 \<Rightarrow> u32 \<Rightarrow> u32 \<Rightarrow> u32 \<Rightarrow> u32 \<Rightarrow> kernel \<Rightarrow> sysret" where
  "run_handler str other cnt no a1 a2 a3 a4 a5 k =
     (case no of
        SYS_calc_req_frames \<Rightarrow> andthen (sys_calculate_required_frames a1 a2 k) (\<lambda>r. ret_val r k)
      | SYS_calc_free_frames \<Rightarrow> ret_val (sys_calculate_free_frames k) k
      | SYS_calc_modified_frames \<Rightarrow> ret_val (sys_calculate_modified_frames k) k
      | SYS_calc_notmod_frames \<Rightarrow> ret_val (sys_calculate_notmod_frames k) k
      | SYS_pf_calc_allocated_pages \<Rightarrow> andthen (sys_pf_calculate_allocated_pages k) (\<lambda>r. ret_val r k)
      | SYS_free_user_mem \<Rightarrow> ret_none (sys_free_user_mem a1 a2 k)
      | SYS_allocate_page \<Rightarrow> andthen (sys_allocate_page a1 a2 k) (\<lambda>(_, k). ret_val 0 k)
      | SYS_map_frame \<Rightarrow> andthen (sys_map_frame k) (\<lambda>(_, k). ret_val 0 k)
      | SYS_unmap_frame \<Rightarrow> andthen (sys_unmap_frame k) (\<lambda>(_, k). ret_val 0 k)
      | SYS_allocate_chunk_in_mem \<Rightarrow> ret_none (sys_allocate_chunk a1 a2 a3 k)
      | SYS_disableINTR \<Rightarrow> ret_none (sys_disable_interrupt k)
      | SYS_enableINTR \<Rightarrow> ret_none (sys_enable_interrupt k)
      | SYS_clearFFL \<Rightarrow> ret_none (sys_clearFFL k)
      | SYS_create_semaphore \<Rightarrow> ret_int (sys_createSemaphore (str a1) a2 k)
      | SYS_wait_semaphore \<Rightarrow> ret_ctl (sys_waitSemaphore cnt a1 (str a2) k)
      | SYS_signal_semaphore \<Rightarrow> ret_none (sys_signalSemaphore a1 (str a2) k)
      | SYS_get_semaphore_value \<Rightarrow> andthen (sys_getSemaphoreValue a1 (str a2) k) (\<lambda>r. ret_val r k)
      | SYS_create_shared_object \<Rightarrow> ret_int (sys_createSharedObject (str a1) a2 (ucast a3) a4 k)
      | SYS_get_shared_object \<Rightarrow> ret_int (sys_getSharedObject a1 (str a2) a3 k)
      | SYS_free_shared_object \<Rightarrow> ret_int (sys_freeSharedObject a1 a2 k)
      | SYS_get_size_of_shared_object \<Rightarrow> ret_val (of_int (sys_getSizeOfSharedObject a1 (str a2) k)) k
      | SYS_get_max_shares \<Rightarrow> ret_val (sys_getMaxShares k) k
      | SYS_run_env \<Rightarrow> ret_ctl (sys_run_env cnt a1 k)
      | SYS_getenvindex \<Rightarrow> andthen (sys_getenvindex k) (\<lambda>r. ret_val (of_nat r) k)
      | SYS_getenvid \<Rightarrow> andthen (sys_getenvid k) (\<lambda>r. ret_val r k)
      | SYS_getparentenvid \<Rightarrow> andthen (sys_getparentenvid k) (\<lambda>r. ret_val r k)
      | SYS_destroy_env \<Rightarrow> andthen (sys_destroy_env cnt a1 k) (\<lambda>(r, c, k). Inr (of_int r, c, k))
      | SYS_exit_env \<Rightarrow> ret_ctl (sys_exit_env cnt k)
      | SYS_move_user_mem \<Rightarrow> ret_none (sys_move_user_mem a1 a2 a3 k)
      | SYS_bypassPageFault \<Rightarrow> ret_val 0 (sys_bypassPageFault (ucast a1) k)
      | SYS_rsttst \<Rightarrow> ret_val 0 (rsttst k)
      | SYS_inctst \<Rightarrow> ret_val 0 (inctst k)
      | SYS_chktst \<Rightarrow> ret_none (chktst a1 k)
      | SYS_gettst \<Rightarrow> ret_val (gettst k) k
      | SYS_testNum \<Rightarrow> ret_none (tst a1 a2 a3 (char_of (unat a4)) a5 k)
      | SYS_get_heap_strategy \<Rightarrow> ret_val (sys_get_heap_strategy k) k
      | SYS_set_heap_strategy \<Rightarrow> ret_val 0 (sys_set_uheap_strategy a1 k)
      | SYS_allocate_user_mem \<Rightarrow> ret_val (of_int (- E_INVAL)) k
      | NSYSCALLS \<Rightarrow> ret_val (of_int (- E_INVAL)) k
      | _ \<Rightarrow> other no k)"

definition syscall ::
    "(u32 \<Rightarrow> string) \<Rightarrow> (sysno \<Rightarrow> kernel \<Rightarrow> sysret) \<Rightarrow> u8 \<times> u8 \<Rightarrow> u32 \<Rightarrow>
     u32 \<Rightarrow> u32 \<Rightarrow> u32 \<Rightarrow> u32 \<Rightarrow> u32 \<Rightarrow> kernel \<Rightarrow> sysret" where
  "syscall str other cnt syscallno a1 a2 a3 a4 a5 k =
     (case sysno_of syscallno of
        None \<Rightarrow> ret_val (of_int (- E_INVAL)) k
      | Some no \<Rightarrow> run_handler str other cnt no a1 a2 a3 a4 a5 k)"


section \<open>Allocating a page\<close>

text \<open>
  The state after a page of zeros was mapped: \<open>q\<close> is the table of the temporary mapping, \<open>p\<close>
  the table of the page.
\<close>

definition page_ready :: "u32 \<Rightarrow> u32 \<Rightarrow> u32 \<Rightarrow> u32 \<Rightarrow> nat \<Rightarrow> nat list \<Rightarrow> kmem \<Rightarrow> bool" where
  "page_ready dir va p q f fl m \<longleftrightarrow>
     free_frame_list m = f # fl \<and> isBuffered m f = 0 \<and> f < number_of_frames m \<and>
     number_of_frames m \<le> 1048576 \<and>
     table_at dir va p m \<and> tables m p (PTX va) = 0 \<and>
     table_at dir USER_LIMIT q m \<and> tables m q (PTX USER_LIMIT) = 0 \<and> p \<noteq> q \<and>
     pde_frame dir va m \<noteq> f \<and> pde_frame dir USER_LIMIT m \<noteq> f"

lemma PPN_or_perm: "perm < 4096 \<Longrightarrow> PPN (e OR perm) = PPN e"
  unfolding PPN_def
  by (rule bit_eqI) (auto simp: bit_simps add.commute [of 12] perm_bits dest: bit_imp_le_length)

lemma clear_new_frame_ok:
  assumes at: "table_at dir USER_LIMIT q m" and e: "tables m q (PTX USER_LIMIT) = 0"
    and f: "f < number_of_frames m" "number_of_frames m \<le> 1048576" and r: "references m f = 0"
  shows "clear_new_frame dir f m =
    Inr (m\<lparr>ram := (ram m)(f := (\<lambda>j. if j < 4096 then 0 else ram m f j))\<rparr>)"
proof -
  let ?i = "PTX USER_LIMIT" and ?bits = "PERM_USED OR PERM_MODIFIED"
  let ?e = "mapped_entry f PERM_WRITEABLE"
  have f20: "f < 1048576"
    using f by simp
  have small: "PERM_WRITEABLE < 4096" "?bits < 4096"
    by (simp_all add: perm_defs)
  note parts = mapped_entry_parts [OF f20 small(1)]
  have ppn: "unat (PPN (?e OR ?bits)) = f" and nz: "?e OR ?bits \<noteq> 0"
    using parts(4) PPN_or_perm [OF small(2)] by (simp_all add: or_eq_0_iff parts(5))
  have qd: "q \<noteq> dir" and q0: "q \<noteq> 0"
    using at by (simp_all add: table_at_def)
  let ?m1 = "set_entry q ?i ?e (m\<lparr>references := (references m)(f := references m f + 1)\<rparr>)"
  have m1: "map_frame dir f USER_LIMIT PERM_WRITEABLE m = Inr ?m1"
    unfolding map_frame_def by (rule map_frame_fresh [OF at e])
  have at1: "table_at dir USER_LIMIT q ?m1"
    using at qd by (simp add: table_at_set_entry)
  have pf: "page_frame dir USER_LIMIT ?m1 = Inr f"
    using page_frame_at [OF at1] parts(4,6) by simp
  let ?ram = "(ram m)(f := (\<lambda>j. if j < 4096 then 0 else ram m f j))"
  let ?m2 = "set_entry q ?i (?e OR ?bits) (?m1\<lparr>ram := ?ram\<rparr>)"
  have at2: "table_at dir USER_LIMIT q (?m1\<lparr>ram := ?ram\<rparr>)"
    using at1 by simp
  have m2: "store_page dir USER_LIMIT 4096 (\<lambda>j. 0) ?m1 = Inr ?m2"
    using pf touch_at [OF at2, of ?bits] by (simp add: store_page_def cong: if_cong)
  let ?m3 = "?m2\<lparr>references := (references m)(f := 2)\<rparr>"
  have at3: "table_at dir USER_LIMIT q ?m3"
    using at2 qd by (simp add: table_at_set_entry)
  have g: "get_frame_info dir USER_LIMIT ?m3 = Inr (Some f, q)"
    using get_frame_info_at [OF at3] ppn nz f(1) by simp
  have dec: "decrement_references f ?m3 = Inr (?m3\<lparr>references := (references m)(f := 1)\<rparr>)"
    by (simp add: decrement_references_def Let_def)
  have m4: "unmap_frame dir USER_LIMIT ?m3 =
      Inr (set_entry q ?i 0 (?m3\<lparr>references := (references m)(f := 1)\<rparr>))"
    using g dec q0 by (simp add: unmap_frame_def)
  have undo: "set_entry q ?i 0 (?m3\<lparr>references := (references m)(f := 1)\<rparr>)
      \<lparr>references := (references m)(f := 0)\<rparr> = m\<lparr>ram := ?ram\<rparr>"
    using e r by (simp add: set_entry_def fun_upd_idem)
  show ?thesis
    using m1 m2 m4 undo r by (simp add: clear_new_frame_def Let_def)
qed

lemma allocate_page_steps:
  assumes "allocate_frame (vmem (kvm k)) = Inr (f, m1)" "clear_new_frame dir f m1 = Inr m2"
    "map_frame dir f va perm m2 = Inr m3"
    and "curenv (ksched k) = Some e" "env_page_directory m1 e = dir"
    and "va < USER_TOP" "va mod PAGE_SIZE = 0"
      "perm AND (NOT PERM_AVAILABLE AND NOT PERM_WRITEABLE) = PERM_USER"
  shows "sys_allocate_page va perm k = Inr (0, put_kmem m3 k)"
  using assms by (simp add: sys_allocate_page_def cur_def not_le [symmetric])

lemma allocate_page_ok:
  assumes rdy: "page_ready dir va p q f fl (vmem (kvm k))" and c: "curenv (ksched k) = Some e"
    and dir: "env_page_directory (vmem (kvm k)) e = dir"
    and ok: "va < USER_TOP" "va mod PAGE_SIZE = 0"
      "perm AND (NOT PERM_AVAILABLE AND NOT PERM_WRITEABLE) = PERM_USER"
  shows "\<exists>m. sys_allocate_page va perm k = Inr (0, put_kmem m k) \<and>
           tables m = (tables (vmem (kvm k)))(p := (tables (vmem (kvm k)) p)(PTX va := mapped_entry f perm)) \<and>
           (\<forall>j<4096. ram m f j = 0) \<and> references m f = 1 \<and> free_frame_list m = fl"
proof -
  let ?m = "vmem (kvm k)"
  have r: "free_frame_list ?m = f # fl" "isBuffered ?m f = 0" "f < number_of_frames ?m"
    "number_of_frames ?m \<le> 1048576" "table_at dir va p ?m" "tables ?m p (PTX va) = 0"
    "table_at dir USER_LIMIT q ?m" "tables ?m q (PTX USER_LIMIT) = 0"
    "pde_frame dir va ?m \<noteq> f" "pde_frame dir USER_LIMIT ?m \<noteq> f"
    using rdy by (simp_all add: page_ready_def)
  let ?m1 = "initialize_frame_info f (?m\<lparr>free_frame_list := fl\<rparr>)"
  have al: "allocate_frame ?m = Inr (f, ?m1)"
    by (rule allocate_frame_ok [OF r(1,2)])
  have s1: "tables ?m1 = tables ?m" "number_of_frames ?m1 = number_of_frames ?m" "references ?m1 f = 0"
    "env_page_directory ?m1 = env_page_directory ?m" "free_frame_list ?m1 = fl"
    by (simp_all add: initialize_frame_info_def)
  have at1: "table_at dir i t ?m1" if "table_at dir i t ?m" "pde_frame dir i ?m \<noteq> f" for i t
    using that by (subst table_at_cong [of _ _ _ ?m]) (simp_all add: initialize_frame_info_def)
  let ?m2 = "?m1\<lparr>ram := (ram ?m1)(f := (\<lambda>j. if j < 4096 then 0 else ram ?m1 f j))\<rparr>"
  have cl: "clear_new_frame dir f ?m1 = Inr ?m2"
    using r s1 at1 [OF r(7,10)] by (intro clear_new_frame_ok) simp_all
  have at2: "table_at dir va p ?m2" "tables ?m2 p (PTX va) = 0"
    using at1 [OF r(5,9)] r(6) s1 by simp_all
  let ?m3 = "set_entry p (PTX va) (mapped_entry f perm) (?m2\<lparr>references := (references ?m2)(f := references ?m2 f + 1)\<rparr>)"
  have "map_frame dir f va perm ?m2 = Inr ?m3"
    unfolding map_frame_def by (rule map_frame_fresh [OF at2])
  then have "sys_allocate_page va perm k = Inr (0, put_kmem ?m3 k)"
    using allocate_page_steps [OF al cl _ c _ ok] dir s1(4) by simp
  moreover have "tables ?m3 = (tables ?m)(p := (tables ?m p)(PTX va := mapped_entry f perm)) \<and>
      (\<forall>j<4096. ram ?m3 f j = 0) \<and> references ?m3 f = 1 \<and> free_frame_list ?m3 = fl"
    using s1 by simp
  ultimately show ?thesis
    by blast
qed

section \<open>Example\<close>

text \<open>
  The table of the temporary mapping is at \<open>0xF0019000\<close> (frame 25), and the page table of the
  user heap at \<open>0xF6001000\<close> (frame 20).
\<close>

definition kernel_kmem :: kmem where
  "kernel_kmem = kmem_example\<lparr>
     tables := (\<lambda>p i. if p = 0xF0200000 \<and> i = 2 then 0x14007
                     else if p = 0xF0200000 \<and> i = 958 then 0x19003 else 0)\<rparr>"

definition kernel_example :: kernel where
  "kernel_example =
     \<lparr>ketab = \<lparr>esched = sched_example\<lparr>svm := vm_example\<lparr>vmem := kernel_kmem\<rparr>\<rparr>, env_free_list = [5, 6]\<rparr>,
      ksemaphores = [], kMAX_SEMAPHORES = 0, kshares = [], kMAX_SHARES = 0,
      UHeapPlacementStrategy = 1, tf_eflags = (\<lambda>e. 0), bypassInstrLength = 0, tstcnt = 0\<rparr>"

lemma kernel_example_facts:
  "vmem (kvm kernel_example) = kernel_kmem" "curenv (ksched kernel_example) = Some 0"
  "env_page_directory kernel_kmem 0 = 0xF0200000" "free_frame_list kernel_kmem = [30, 31]"
  by (simp_all add: kernel_example_def kvm_def ksched_def sched_example_def kernel_kmem_def kmem_example_def)

lemma isBuffered_kernel: "isBuffered kernel_kmem f = 0"
  by (simp add: kernel_kmem_def kmem_example_def)

lemma kernel_kmem_ready: "page_ready 0xF0200000 0x800000 0xF6001000 0xF0019000 30 [31] kernel_kmem"
  by (simp add: page_ready_def table_at_def get_page_table_def table_read_def table_address_def
      kheap_virtual_address_def to_frame_info_def STATIC_KERNEL_VIRTUAL_ADDRESS_def pde_frame_def
      kernel_kmem_def kmem_example_def perm_defs addr_defs CHECK_IF_KERNEL_ADDRESS_def layout_defs)


section \<open>Properties\<close>

text \<open>A successful \<^verbatim>\<open>__sys_allocate_page\<close> returns 0 and hands the current environment the
  first free frame, filled with zeros through the temporary mapping at \<^verbatim>\<open>USER_LIMIT\<close>: the only
  page-table entry that differs afterwards is the entry of \<open>va\<close> (the temporary mapping is gone),
  and the frame has exactly one reference.\<close>

theorem allocate_page_zeroed:
  assumes "page_ready dir va p q f fl (vmem (kvm k))" and "curenv (ksched k) = Some e"
    and "env_page_directory (vmem (kvm k)) e = dir"
    and "va < USER_TOP" "va mod PAGE_SIZE = 0"
      "perm AND (NOT PERM_AVAILABLE AND NOT PERM_WRITEABLE) = PERM_USER"
  shows "\<exists>m. sys_allocate_page va perm k = Inr (0, put_kmem m k) \<and>
           tables m = (tables (vmem (kvm k)))(p := (tables (vmem (kvm k)) p)(PTX va := mapped_entry f perm)) \<and>
           (\<forall>j<4096. ram m f j = 0) \<and> references m f = 1 \<and> free_frame_list m = fl"
  using assms by (rule allocate_page_ok)

theorem allocate_page_zeroed_witness:
  "\<exists>m. sys_allocate_page 0x800000 6 kernel_example = Inr (0, put_kmem m kernel_example) \<and>
     references m 30 = 1 \<and> free_frame_list m = [31] \<and> (\<forall>j<4096. ram m 30 j = 0)"
  using allocate_page_zeroed [of "0xF0200000" "0x800000" "0xF6001000" "0xF0019000" 30 "[31]"
      kernel_example 0 6] kernel_kmem_ready
  by (fastforce simp: kernel_example_facts PAGE_SIZE_def perm_defs addr_defs layout_defs)

text \<open>When the address or the permissions are refused, \<^verbatim>\<open>__sys_allocate_page\<close> has already taken
  the first frame off the free list: the frame is on no list and mapped nowhere, so it is lost, and
  the dispatcher drops the error and returns 0 to the program.\<close>

theorem allocate_page_leaks:
  assumes "free_frame_list (vmem (kvm k)) = f # fl" and "isBuffered (vmem (kvm k)) f = 0"
    and "USER_TOP \<le> va \<or> va mod PAGE_SIZE \<noteq> 0 \<or>
         perm AND (NOT PERM_AVAILABLE AND NOT PERM_WRITEABLE) \<noteq> PERM_USER"
  shows "\<exists>m. sys_allocate_page va perm k = Inr (E_INVAL, put_kmem m k) \<and>
           syscall str other cnt 5 va perm a3 a4 a5 k = Inr (0, Returned, put_kmem m k) \<and>
           free_frame_list m = fl \<and> tables m = tables (vmem (kvm k)) \<and> references m f = 0"
proof -
  let ?m = "initialize_frame_info f (vmem (kvm k)\<lparr>free_frame_list := fl\<rparr>)"
  have r: "sys_allocate_page va perm k = Inr (E_INVAL, put_kmem ?m k)"
    using assms(3) allocate_frame_ok [OF assms(1,2)]
    by (auto simp: sys_allocate_page_def not_le [symmetric])
  moreover have "sysno_of 5 = Some SYS_allocate_page"
    by (simp add: sysno_of_def sysno_list_def)
  then have "syscall str other cnt 5 va perm a3 a4 a5 k = Inr (0, Returned, put_kmem ?m k)"
    using r by (simp add: syscall_def run_handler_def ret_val_def)
  moreover have "free_frame_list ?m = fl \<and> tables ?m = tables (vmem (kvm k)) \<and> references ?m f = 0"
    by (simp add: initialize_frame_info_def)
  ultimately show ?thesis
    by blast
qed

theorem allocate_page_leaks_witness:
  "\<exists>m. syscall (\<lambda>_. []) (\<lambda>_. ret_val 0) (0, 0) 5 0x800001 6 0 0 0 kernel_example =
     Inr (0, Returned, put_kmem m kernel_example) \<and> free_frame_list m = [31]"
proof -
  have "(0x800001 :: u32) mod PAGE_SIZE \<noteq> 0"
    by (simp add: PAGE_SIZE_def)
  then show ?thesis
    using allocate_page_leaks [of kernel_example 30 "[31]" "0x800001" 6 "\<lambda>_. []" "\<lambda>_. ret_val 0"
        "(0, 0)" 0 0 0] kernel_example_facts isBuffered_kernel [of 30]
    by auto
qed

text \<open>A system call whose number is not in the table, and \<^verbatim>\<open>SYS_allocate_user_mem\<close>, which
  has a number but no case in the dispatcher, change nothing and return 3: \<^verbatim>\<open>E_INVAL\<close> is already
  negative, so its negation is a positive result and no error to its caller.\<close>

theorem syscall_unknown_positive:
  assumes "48 \<le> n \<or> n = 16"
  shows "syscall str other cnt n a1 a2 a3 a4 a5 k = Inr (3, Returned, k)"
proof -
  have "sysno_of n \<in> {None, Some NSYSCALLS, Some SYS_allocate_user_mem}"
  proof (cases "n = 16")
    case True
    then show ?thesis
      by (simp add: sysno_of_def sysno_list_def)
  next
    case False
    then have "48 \<le> unat n"
      using assms by (simp add: word_le_nat_alt)
    then show ?thesis
      by (cases "unat n = 48") (simp_all add: sysno_of_def sysno_list_def)
  qed
  then show ?thesis
    by (elim insertE emptyE) (simp_all add: syscall_def run_handler_def ret_val_def E_INVAL_def)
qed

theorem syscall_unknown_positive_witness:
  "syscall (\<lambda>_. []) (\<lambda>_. ret_val 0) (0, 0) 1000 1 2 3 4 5 kernel_example =
     Inr (3, Returned, kernel_example)"
  by (rule syscall_unknown_positive) simp

end
