(* ===== verification/Block_Heap.thy ===== *)
theory Block_Heap
  imports Kheap
begin

text \<open>
  The interface between a heap and its block allocator. A heap takes blocks by one of the
  strategies of \<^verbatim>\<open>lib/dynamic_allocator.c\<close>, records them in the list of allocated blocks,
  and gives them back with merging. The locale states what a strategy promises; taking a block and
  recording it keeps the heap well formed for every strategy that keeps the promise, and all three
  strategies do.
\<close>

section \<open>Well-formed heaps\<close>

definition heap_wf :: "nat set \<Rightarrow> dyn \<Rightarrow> bool" where
  "heap_wf R d \<longleftrightarrow> dyn_inv d \<and> page_sat (free_set d) \<and> free_set d \<subseteq> R \<and> alloc_wf R d"

lemma heap_wfD:
  assumes "heap_wf R d"
  shows "dyn_inv d" and "page_sat (free_set d)" and "free_set d \<subseteq> R" and "alloc_wf R d"
  using assms by (simp_all add: heap_wf_def)

lemma page_sat_span:
  assumes "4096 dvd unat (blk_sva d n)" and "4096 dvd unat (blk_size d n)"
  shows "page_sat (span d n)"
  unfolding span_def using assms by (intro page_sat_interval) simp_all

lemma block_aligned:
  assumes "heap_wf R d" and "b \<in> set (FreeMemBlocksList d)"
  shows "4096 dvd unat (blk_sva d b)"
proof -
  have "(unat (blk_sva d b), unat (blk_sva d b) + unat (blk_size d b)) \<in> set (free_ivs d)"
    using assms(2) by (simp add: free_ivs_def set_ivs)
  then show ?thesis
    using page_sat_bounds(1) [of "free_ivs d"] heap_wfD(1,2) [OF assms(1)]
    by (force simp: dyn_inv_def free_set_def)
qed

lemma alloc_spans:
  assumes "heap_wf R d" and "b \<in> set (AllocMemBlocksList d)"
  shows "0 < blk_size d b" and "4096 dvd unat (blk_sva d b)" and "4096 dvd unat (blk_size d b)"
    and "span d b \<subseteq> R" and "span d b \<inter> free_set d = {}"
  using assms by (simp_all add: heap_wf_def alloc_wf_def)

section \<open>The interface of a strategy\<close>

locale block_strategy =
  fixes alloc :: "u32 \<Rightarrow> dyn \<Rightarrow> (nat option \<times> dyn) result"
  assumes fits: "dyn_inv d \<Longrightarrow> 0 < s \<Longrightarrow> AvailableMemBlocksList d \<noteq> [] \<Longrightarrow>
      \<exists>b\<in>set (FreeMemBlocksList d). s \<le> blk_size d b \<Longrightarrow>
      \<exists>n d'. alloc s d = Inr (Some n, d') \<and> took s n d d' \<and>
        (\<exists>b\<in>set (FreeMemBlocksList d). blk_sva d' n = blk_sva d b)"
begin

lemma take_and_record:
  assumes wf: "heap_wf R d" and s: "0 < s" "4096 dvd unat s"
    and av: "AvailableMemBlocksList d \<noteq> []" and ex: "\<exists>b\<in>set (FreeMemBlocksList d). s \<le> blk_size d b"
  shows "\<exists>n d1 d2. alloc s d = Inr (Some n, d1) \<and> insert_sorted_allocList n d1 = Inr d2 \<and>
           heap_wf R d2 \<and> n \<in> set (AllocMemBlocksList d2) \<and> blk_size d2 n = s \<and>
           blk_sva d2 n = blk_sva d1 n \<and> span d2 n \<subseteq> free_set d \<and>
           free_set d2 = free_set d - span d2 n \<and> n \<notin> set (AllocMemBlocksList d) \<and>
           set (AllocMemBlocksList d2) = insert n (set (AllocMemBlocksList d))"
proof -
  note k = heap_wfD [OF wf]
  obtain n d1 b where run: "alloc s d = Inr (Some n, d1)" and t: "took s n d d1"
    and b: "b \<in> set (FreeMemBlocksList d)" "blk_sva d1 n = blk_sva d b"
    using fits [OF k(1) s(1) av ex] by blast
  have tk: "blk_size d1 n = s" "span d1 n \<subseteq> free_set d" "free_set d1 = free_set d - span d1 n"
    "dyn_inv d1"
    using t by (auto simp: took_def)
  have "n \<in> set (AvailableMemBlocksList d) \<union> set (FreeMemBlocksList d)"
    using t by (auto simp: took_def)
  then have new: "n \<notin> set (AllocMemBlocksList d)"
    using k(1) by (auto simp: dyn_inv_def)
  have al: "4096 dvd unat (blk_sva d1 n)"
    using block_aligned [OF wf b(1)] b(2) by simp
  obtain d2 where ins: "insert_sorted_allocList n d1 = Inr d2" and wf2: "alloc_wf R d2"
    and d2: "blk_sva d2 = blk_sva d1" "blk_size d2 = blk_size d1"
      "FreeMemBlocksList d2 = FreeMemBlocksList d1"
      "AvailableMemBlocksList d2 = AvailableMemBlocksList d1"
      "set (AllocMemBlocksList d2) = insert n (set (AllocMemBlocksList d))"
      "distinct (AllocMemBlocksList d2)"
    using took_keeps_alloc_wf [OF k(4) t s al k(1,3)] by blast
  have fs: "free_set d2 = free_set d - span d2 n" and sp: "span d2 n = span d1 n"
    using tk(3) d2 by (simp_all add: free_set_def free_ivs_def span_def)
  have "dyn_inv d2"
    using t d2 by (auto simp: took_def dyn_inv_def free_ivs_def)
  moreover have "page_sat (free_set d2)"
    using k(2) page_sat_span [of d2 n] al s(2) tk(1) d2 by (simp add: fs page_sat_ops)
  ultimately have "heap_wf R d2"
    using wf2 k(3) fs by (auto simp: heap_wf_def)
  then show ?thesis
    using run ins tk(1,2) d2 fs sp new by auto
qed

end

lemma strategy_FF: "block_strategy alloc_block_FF"
proof
  fix d s
  assume a: "dyn_inv d" "0 < s" "AvailableMemBlocksList d \<noteq> []"
    "\<exists>b\<in>set (FreeMemBlocksList d). s \<le> blk_size d b"
  obtain xs b ys where fr: "FreeMemBlocksList d = xs @ b # ys"
    and b: "s \<le> blk_size d b" and xs: "\<forall>c\<in>set xs. \<not> s \<le> blk_size d c"
    using split_list_first_prop [OF a(4)] by blast
  have "b \<in> set (FreeMemBlocksList d)"
    by (simp add: fr)
  from take_or_split [OF a(1-3) this b] this show
    "\<exists>n d'. alloc_block_FF s d = Inr (Some n, d') \<and> took s n d d' \<and>
        (\<exists>b\<in>set (FreeMemBlocksList d). blk_sva d' n = blk_sva d b)"
    using xs b by (cases "blk_size d b = s") (simp_all add: alloc_block_FF_def fr FF_at not_le, blast+)
qed

interpretation first_fit: block_strategy alloc_block_FF
  by (rule strategy_FF)

interpretation next_fit: block_strategy alloc_block_NF
proof -
  have "alloc_block_NF = alloc_block_FF"
    by (simp add: fun_eq_iff alloc_block_NF_def alloc_block_FF_def)
  then show "block_strategy alloc_block_NF"
    using strategy_FF by simp
qed

interpretation best_fit: block_strategy "alloc_block_BF gs ga" for gs ga
  by unfold_locales (use alloc_block_BF_fits in blast)

section \<open>Giving a block back\<close>

lemma give_back:
  assumes wf: "heap_wf R d" and R: "R \<subseteq> {..<4294967295}" and b: "b \<in> set (AllocMemBlocksList d)"
  shows "\<exists>d'. insert_sorted_with_merge_freeList b
             (d\<lparr>AllocMemBlocksList := remove1 b (AllocMemBlocksList d)\<rparr>) = Inr d' \<and>
           heap_wf R d' \<and> free_set d' = free_set d \<union> span d b \<and>
           set (AllocMemBlocksList d') = set (AllocMemBlocksList d) - {b}"
proof -
  let ?d = "d\<lparr>AllocMemBlocksList := remove1 b (AllocMemBlocksList d)\<rparr>"
  note k = heap_wfD [OF wf] and bk = alloc_spans [OF wf b]
  have dist: "distinct (AllocMemBlocksList d)"
    using k(1) by (simp add: dyn_inv_def)
  have pos: "0 < unat (blk_size d b)"
    using bk(1) by (simp add: word_less_nat_alt)
  have "unat (blk_sva d b) + unat (blk_size d b) - 1 \<in> span d b"
    using pos by (auto simp: span_def)
  then have "unat (blk_sva d b) + unat (blk_size d b) - 1 < 4294967295"
    using bk(4) R by blast
  then have end_lt: "unat (blk_sva d b) + unat (blk_size d b) < 4294967296"
    by linarith
  have inv: "dyn_inv ?d"
    using k(1) by (auto simp: dyn_inv_def free_ivs_def dest: notin_set_remove1)
  have "fresh_block b ?d"
    using k(1) b dist bk end_lt
    by (auto simp: fresh_block_def dyn_inv_def span_def free_set_def free_ivs_def set_remove1_eq)
  from insert_free_gave [OF inv this] obtain d' where
    ins: "insert_sorted_with_merge_freeList b ?d = Inr d'" and gv: "gave b ?d d'"
    by blast
  note g = gave_keeps_alloc_wf [OF k(4) b k(1) gv]
  have "dyn_inv d'"
    using gv by (simp add: gave_def)
  moreover have "page_sat (free_set d')"
    using k(2) page_sat_span bk(2,3) by (simp add: g(3) page_sat_ops)
  ultimately have "heap_wf R d'"
    using g k(3) bk(4) by (auto simp: heap_wf_def)
  then show ?thesis
    using ins g by blast
qed

end
