(* ===== verification/User_Sys.thy ===== *)
theory User_Sys
  imports Syscalls
begin

text \<open>
  The system call stubs of \<^verbatim>\<open>lib/syscall.c\<close>: what a user program calls. A stub puts the
  number and the arguments into registers and traps; the value in the register afterwards is its
  result. The trap itself is in theory \<^verbatim>\<open>Trap\<close>; here the dispatcher is applied.
\<close>

section \<open>Entering the kernel\<close>

text \<open>What a call depends on besides the state of the kernel: the strings in user memory, the
  handlers that are not modelled, and the bytes read from the interval counter.\<close>

record os =
  os_str :: "u32 \<Rightarrow> string"
  os_other :: "sysno \<Rightarrow> kernel \<Rightarrow> sysret"
  os_cnt :: "u8 \<times> u8"

definition sysno_num :: "sysno \<Rightarrow> u32" where
  "sysno_num no = of_nat (length (takeWhile (\<lambda>x. x \<noteq> no) sysno_list))"

definition syscall_stub ::
    "os \<Rightarrow> sysno \<Rightarrow> u32 \<Rightarrow> u32 \<Rightarrow> u32 \<Rightarrow> u32 \<Rightarrow> u32 \<Rightarrow> kernel \<Rightarrow> sysret" where
  "syscall_stub os num a1 a2 a3 a4 a5 =
     syscall (os_str os) (os_other os) (os_cnt os) (sysno_num num) a1 a2 a3 a4 a5"

text \<open>A \<^verbatim>\<open>char\<close> is signed on this machine: it is sign-extended to a word.\<close>

definition char_arg :: "char \<Rightarrow> u32" where
  "char_arg c = scast (of_nat (of_char c) :: 8 word)"

section \<open>The stubs\<close>

definition sys_cputs_stub :: "os \<Rightarrow> u32 \<Rightarrow> u32 \<Rightarrow> u8 \<Rightarrow> kernel \<Rightarrow> sysret" where
  "sys_cputs_stub os s len printProgName = syscall_stub os SYS_cputs s len (ucast printProgName) 0 0"

definition sys_cgetc_stub :: "os \<Rightarrow> kernel \<Rightarrow> sysret" where
  "sys_cgetc_stub os = syscall_stub os SYS_cgetc 0 0 0 0 0"

definition sys_allocate_page_stub :: "os \<Rightarrow> u32 \<Rightarrow> u32 \<Rightarrow> kernel \<Rightarrow> sysret" where
  "sys_allocate_page_stub os va perm = syscall_stub os SYS_allocate_page va perm 0 0 0"

definition sys_map_frame_stub :: "os \<Rightarrow> u32 \<Rightarrow> u32 \<Rightarrow> u32 \<Rightarrow> u32 \<Rightarrow> u32 \<Rightarrow> kernel \<Rightarrow> sysret" where
  "sys_map_frame_stub os srcenv srcva dstenv dstva perm = syscall_stub os SYS_map_frame srcenv srcva dstenv dstva perm"

definition sys_unmap_frame_stub :: "os \<Rightarrow> u32 \<Rightarrow> u32 \<Rightarrow> kernel \<Rightarrow> sysret" where
  "sys_unmap_frame_stub os envid va = syscall_stub os SYS_unmap_frame envid va 0 0 0"

definition sys_calculate_required_frames_stub :: "os \<Rightarrow> u32 \<Rightarrow> u32 \<Rightarrow> kernel \<Rightarrow> sysret" where
  "sys_calculate_required_frames_stub os start_virtual_address sz = syscall_stub os SYS_calc_req_frames start_virtual_address sz 0 0 0"

definition sys_calculate_free_frames_stub :: "os \<Rightarrow> kernel \<Rightarrow> sysret" where
  "sys_calculate_free_frames_stub os = syscall_stub os SYS_calc_free_frames 0 0 0 0 0"

definition sys_calculate_modified_frames_stub :: "os \<Rightarrow> kernel \<Rightarrow> sysret" where
  "sys_calculate_modified_frames_stub os = syscall_stub os SYS_calc_modified_frames 0 0 0 0 0"

definition sys_calculate_notmod_frames_stub :: "os \<Rightarrow> kernel \<Rightarrow> sysret" where
  "sys_calculate_notmod_frames_stub os = syscall_stub os SYS_calc_notmod_frames 0 0 0 0 0"

definition sys_free_user_mem_stub :: "os \<Rightarrow> u32 \<Rightarrow> u32 \<Rightarrow> kernel \<Rightarrow> sysret" where
  "sys_free_user_mem_stub os virtual_address sz = syscall_stub os SYS_free_user_mem virtual_address sz 0 0 0"

definition sys_allocate_user_mem_stub :: "os \<Rightarrow> u32 \<Rightarrow> u32 \<Rightarrow> kernel \<Rightarrow> sysret" where
  "sys_allocate_user_mem_stub os virtual_address sz = syscall_stub os SYS_allocate_user_mem virtual_address sz 0 0 0"

definition sys_allocate_chunk_stub :: "os \<Rightarrow> u32 \<Rightarrow> u32 \<Rightarrow> u32 \<Rightarrow> kernel \<Rightarrow> sysret" where
  "sys_allocate_chunk_stub os virtual_address sz perms = syscall_stub os SYS_allocate_chunk_in_mem virtual_address sz perms 0 0"

definition sys_pf_calculate_allocated_pages_stub :: "os \<Rightarrow> kernel \<Rightarrow> sysret" where
  "sys_pf_calculate_allocated_pages_stub os = syscall_stub os SYS_pf_calc_allocated_pages 0 0 0 0 0"

definition sys_calculate_pages_tobe_removed_ready_exit_stub :: "os \<Rightarrow> u32 \<Rightarrow> kernel \<Rightarrow> sysret" where
  "sys_calculate_pages_tobe_removed_ready_exit_stub os WS_or_MEMORY_flag = syscall_stub os SYS_calculate_pages_tobe_removed_ready_exit WS_or_MEMORY_flag 0 0 0 0"

definition sys_scarce_memory_stub :: "os \<Rightarrow> kernel \<Rightarrow> sysret" where
  "sys_scarce_memory_stub os = syscall_stub os SYS_scarce_memory 0 0 0 0 0"

definition sys_disable_interrupt_stub :: "os \<Rightarrow> kernel \<Rightarrow> sysret" where
  "sys_disable_interrupt_stub os = syscall_stub os SYS_disableINTR 0 0 0 0 0"

definition sys_enable_interrupt_stub :: "os \<Rightarrow> kernel \<Rightarrow> sysret" where
  "sys_enable_interrupt_stub os = syscall_stub os SYS_enableINTR 0 0 0 0 0"

definition sys_cputc_stub :: "os \<Rightarrow> char \<Rightarrow> kernel \<Rightarrow> sysret" where
  "sys_cputc_stub os c = syscall_stub os SYS_cputc (char_arg c) 0 0 0 0"

definition sys_clear_ffl_stub :: "os \<Rightarrow> kernel \<Rightarrow> sysret" where
  "sys_clear_ffl_stub os = syscall_stub os SYS_clearFFL 0 0 0 0 0"

definition sys_createSemaphore_stub :: "os \<Rightarrow> u32 \<Rightarrow> u32 \<Rightarrow> kernel \<Rightarrow> sysret" where
  "sys_createSemaphore_stub os semaphoreName initialValue = syscall_stub os SYS_create_semaphore semaphoreName initialValue 0 0 0"

definition sys_getSemaphoreValue_stub :: "os \<Rightarrow> u32 \<Rightarrow> u32 \<Rightarrow> kernel \<Rightarrow> sysret" where
  "sys_getSemaphoreValue_stub os ownerEnvID semaphoreName = syscall_stub os SYS_get_semaphore_value ownerEnvID semaphoreName 0 0 0"

definition sys_waitSemaphore_stub :: "os \<Rightarrow> u32 \<Rightarrow> u32 \<Rightarrow> kernel \<Rightarrow> sysret" where
  "sys_waitSemaphore_stub os ownerEnvID semaphoreName = syscall_stub os SYS_wait_semaphore ownerEnvID semaphoreName 0 0 0"

definition sys_signalSemaphore_stub :: "os \<Rightarrow> u32 \<Rightarrow> u32 \<Rightarrow> kernel \<Rightarrow> sysret" where
  "sys_signalSemaphore_stub os ownerEnvID semaphoreName = syscall_stub os SYS_signal_semaphore ownerEnvID semaphoreName 0 0 0"

definition sys_createSharedObject_stub :: "os \<Rightarrow> u32 \<Rightarrow> u32 \<Rightarrow> u8 \<Rightarrow> u32 \<Rightarrow> kernel \<Rightarrow> sysret" where
  "sys_createSharedObject_stub os shareName sz writable virtual_address = syscall_stub os SYS_create_shared_object shareName sz (ucast writable) virtual_address 0"

definition sys_getSizeOfSharedObject_stub :: "os \<Rightarrow> u32 \<Rightarrow> u32 \<Rightarrow> kernel \<Rightarrow> sysret" where
  "sys_getSizeOfSharedObject_stub os owner shareName = syscall_stub os SYS_get_size_of_shared_object owner shareName 0 0 0"

definition sys_getSharedObject_stub :: "os \<Rightarrow> u32 \<Rightarrow> u32 \<Rightarrow> u32 \<Rightarrow> kernel \<Rightarrow> sysret" where
  "sys_getSharedObject_stub os owner shareName virtual_address = syscall_stub os SYS_get_shared_object owner shareName virtual_address 0 0"

definition sys_freeSharedObject_stub :: "os \<Rightarrow> u32 \<Rightarrow> u32 \<Rightarrow> kernel \<Rightarrow> sysret" where
  "sys_freeSharedObject_stub os sharedObjectID startVA = syscall_stub os SYS_free_shared_object sharedObjectID startVA 0 0 0"

definition sys_getMaxShares_stub :: "os \<Rightarrow> kernel \<Rightarrow> sysret" where
  "sys_getMaxShares_stub os = syscall_stub os SYS_get_max_shares 0 0 0 0 0"

definition sys_create_env_stub :: "os \<Rightarrow> u32 \<Rightarrow> u32 \<Rightarrow> u32 \<Rightarrow> u32 \<Rightarrow> kernel \<Rightarrow> sysret" where
  "sys_create_env_stub os programName page_WS_size LRU_second_list_size percent_WS_pages_to_remove = syscall_stub os SYS_create_env programName page_WS_size LRU_second_list_size percent_WS_pages_to_remove 0"

definition sys_run_env_stub :: "os \<Rightarrow> u32 \<Rightarrow> kernel \<Rightarrow> sysret" where
  "sys_run_env_stub os envId = syscall_stub os SYS_run_env envId 0 0 0 0"

definition sys_destroy_env_stub :: "os \<Rightarrow> u32 \<Rightarrow> kernel \<Rightarrow> sysret" where
  "sys_destroy_env_stub os envid = syscall_stub os SYS_destroy_env envid 0 0 0 0"

definition sys_getenvid_stub :: "os \<Rightarrow> kernel \<Rightarrow> sysret" where
  "sys_getenvid_stub os = syscall_stub os SYS_getenvid 0 0 0 0 0"

definition sys_getenvindex_stub :: "os \<Rightarrow> kernel \<Rightarrow> sysret" where
  "sys_getenvindex_stub os = syscall_stub os SYS_getenvindex 0 0 0 0 0"

definition sys_getparentenvid_stub :: "os \<Rightarrow> kernel \<Rightarrow> sysret" where
  "sys_getparentenvid_stub os = syscall_stub os SYS_getparentenvid 0 0 0 0 0"

definition sys_exit_env_stub :: "os \<Rightarrow> kernel \<Rightarrow> sysret" where
  "sys_exit_env_stub os = syscall_stub os SYS_exit_env 0 0 0 0 0"

definition sys_move_user_mem_stub :: "os \<Rightarrow> u32 \<Rightarrow> u32 \<Rightarrow> u32 \<Rightarrow> kernel \<Rightarrow> sysret" where
  "sys_move_user_mem_stub os src_virtual_address dst_virtual_address sz = syscall_stub os SYS_move_user_mem src_virtual_address dst_virtual_address sz 0 0"

definition sys_rcr2_stub :: "os \<Rightarrow> kernel \<Rightarrow> sysret" where
  "sys_rcr2_stub os = syscall_stub os SYS_rcr2 0 0 0 0 0"

definition sys_bypassPageFault_stub :: "os \<Rightarrow> u8 \<Rightarrow> kernel \<Rightarrow> sysret" where
  "sys_bypassPageFault_stub os instrLength = syscall_stub os SYS_bypassPageFault (ucast instrLength) 0 0 0 0"

definition rsttst_stub :: "os \<Rightarrow> kernel \<Rightarrow> sysret" where
  "rsttst_stub os = syscall_stub os SYS_rsttst 0 0 0 0 0"

definition tst_stub :: "os \<Rightarrow> u32 \<Rightarrow> u32 \<Rightarrow> u32 \<Rightarrow> char \<Rightarrow> u32 \<Rightarrow> kernel \<Rightarrow> sysret" where
  "tst_stub os n v1 v2 c inverted = syscall_stub os SYS_testNum n v1 v2 (char_arg c) inverted"

definition chktst_stub :: "os \<Rightarrow> u32 \<Rightarrow> kernel \<Rightarrow> sysret" where
  "chktst_stub os n = syscall_stub os SYS_chktst n 0 0 0 0"

definition inctst_stub :: "os \<Rightarrow> kernel \<Rightarrow> sysret" where
  "inctst_stub os = syscall_stub os SYS_inctst 0 0 0 0 0"

definition gettst_stub :: "os \<Rightarrow> kernel \<Rightarrow> sysret" where
  "gettst_stub os = syscall_stub os SYS_gettst 0 0 0 0 0"

definition sys_set_uheap_strategy_stub :: "os \<Rightarrow> u32 \<Rightarrow> kernel \<Rightarrow> sysret" where
  "sys_set_uheap_strategy_stub os heapStrategy = syscall_stub os SYS_set_heap_strategy heapStrategy 0 0 0 0"

definition sys_check_LRU_lists_stub :: "os \<Rightarrow> u32 \<Rightarrow> u32 \<Rightarrow> u32 \<Rightarrow> u32 \<Rightarrow> kernel \<Rightarrow> sysret" where
  "sys_check_LRU_lists_stub os active_list_content second_list_content actual_active_list_size actual_second_list_size = syscall_stub os SYS_check_LRU_lists active_list_content second_list_content actual_active_list_size actual_second_list_size 0"

definition sys_check_LRU_lists_free_stub :: "os \<Rightarrow> u32 \<Rightarrow> u32 \<Rightarrow> kernel \<Rightarrow> sysret" where
  "sys_check_LRU_lists_free_stub os list_content list_size = syscall_stub os SYS_check_LRU_lists_free list_content list_size 0 0 0"

section \<open>The placement strategy\<close>

definition UHP_PLACE_FIRSTFIT :: u32 where "UHP_PLACE_FIRSTFIT = 1"
definition UHP_PLACE_BESTFIT :: u32 where "UHP_PLACE_BESTFIT = 2"
definition UHP_PLACE_NEXTFIT :: u32 where "UHP_PLACE_NEXTFIT = 3"
definition UHP_PLACE_WORSTFIT :: u32 where "UHP_PLACE_WORSTFIT = 4"

definition sys_isUHeapPlacementStrategyFIRSTFIT :: "os \<Rightarrow> kernel \<Rightarrow> sysret" where
  "sys_isUHeapPlacementStrategyFIRSTFIT os k =
     andthen (syscall_stub os SYS_get_heap_strategy 0 0 0 0 0 k) (\<lambda>(ret, c, k).
       Inr (if ret = UHP_PLACE_FIRSTFIT then 1 else 0, c, k))"

definition sys_isUHeapPlacementStrategyBESTFIT :: "os \<Rightarrow> kernel \<Rightarrow> sysret" where
  "sys_isUHeapPlacementStrategyBESTFIT os k =
     andthen (syscall_stub os SYS_get_heap_strategy 0 0 0 0 0 k) (\<lambda>(ret, c, k).
       Inr (if ret = UHP_PLACE_BESTFIT then 1 else 0, c, k))"

definition sys_isUHeapPlacementStrategyNEXTFIT :: "os \<Rightarrow> kernel \<Rightarrow> sysret" where
  "sys_isUHeapPlacementStrategyNEXTFIT os k =
     andthen (syscall_stub os SYS_get_heap_strategy 0 0 0 0 0 k) (\<lambda>(ret, c, k).
       Inr (if ret = UHP_PLACE_NEXTFIT then 1 else 0, c, k))"

definition sys_isUHeapPlacementStrategyWORSTFIT :: "os \<Rightarrow> kernel \<Rightarrow> sysret" where
  "sys_isUHeapPlacementStrategyWORSTFIT os k =
     andthen (syscall_stub os SYS_get_heap_strategy 0 0 0 0 0 k) (\<lambda>(ret, c, k).
       Inr (if ret = UHP_PLACE_WORSTFIT then 1 else 0, c, k))"

section \<open>The stubs reach their handlers\<close>

lemma sysno_cases: "no \<in> set sysno_list"
  by (cases no) (simp_all add: sysno_list_def)

lemma takeWhile_index:
  assumes "distinct xs" and "i < length xs"
  shows "length (takeWhile (\<lambda>x. x \<noteq> xs ! i) xs) = i"
proof -
  have "takeWhile (\<lambda>x. x \<noteq> xs ! i) xs = take i xs"
    using assms by (intro takeWhile_eq_take_P_nth) (auto simp: nth_eq_iff_index_eq)
  then show ?thesis
    using assms(2) by simp
qed

lemma distinct_sysno_list: "distinct sysno_list"
  by (simp add: sysno_list_def)

lemma sysno_of_num: "sysno_of (sysno_num no) = Some no"
proof -
  obtain i where i: "i < length sysno_list" "sysno_list ! i = no"
    using sysno_cases [of no] by (auto simp: in_set_conv_nth)
  have "length sysno_list = 49"
    by (simp add: sysno_list_def)
  then have "unat (sysno_num no) = i"
    using takeWhile_index [OF distinct_sysno_list i(1)] i
    by (simp add: sysno_num_def unat_of_nat)
  then show ?thesis
    using i by (simp add: sysno_of_def)
qed

lemma stub_run:
  "syscall_stub os no a1 a2 a3 a4 a5 k = run_handler (os_str os) (os_other os) (os_cnt os) no a1 a2 a3 a4 a5 k"
  by (simp add: syscall_stub_def syscall_def sysno_of_num)

lemma firstfit_stub:
  "sys_isUHeapPlacementStrategyFIRSTFIT os k =
     Inr (if UHeapPlacementStrategy k = UHP_PLACE_FIRSTFIT then 1 else 0, Returned, k)"
  by (simp add: sys_isUHeapPlacementStrategyFIRSTFIT_def stub_run run_handler_def ret_val_def
      sys_get_heap_strategy_def)

lemma free_user_mem_stub:
  "sys_free_user_mem_stub os va sz k = ret_none (sys_free_user_mem va sz k)"
  by (simp add: sys_free_user_mem_stub_def stub_run run_handler_def)

lemma createSharedObject_stub:
  "sys_createSharedObject_stub os nm sz w va k =
     ret_int (sys_createSharedObject (os_str os nm) sz w va k)"
proof -
  have "ucast (ucast w :: u32) = w"
    by (rule bit_word_eqI) (simp add: bit_simps)
  then show ?thesis
    by (simp add: sys_createSharedObject_stub_def stub_run run_handler_def)
qed

lemma getSizeOfSharedObject_stub:
  "sys_getSizeOfSharedObject_stub os owner nm k =
     Inr (of_int (sys_getSizeOfSharedObject owner (os_str os nm) k), Returned, k)"
  by (simp add: sys_getSizeOfSharedObject_stub_def stub_run run_handler_def ret_val_def)

lemma getSharedObject_stub:
  "sys_getSharedObject_stub os owner nm va k =
     ret_int (sys_getSharedObject owner (os_str os nm) va k)"
  by (simp add: sys_getSharedObject_stub_def stub_run run_handler_def)

lemma allocate_chunk_stub:
  "sys_allocate_chunk_stub os va sz perms k = ret_none (sys_allocate_chunk va sz perms k)"
  by (simp add: sys_allocate_chunk_stub_def stub_run run_handler_def)

section \<open>Properties\<close>

text \<open>The numbers of the stubs and the table of the dispatcher agree: a stub reaches exactly
  the handler of its name, with its arguments in order, and no two calls share a number.\<close>

theorem stub_reaches_handler:
  "syscall_stub os no a1 a2 a3 a4 a5 k =
     run_handler (os_str os) (os_other os) (os_cnt os) no a1 a2 a3 a4 a5 k \<and>
   sysno_of (sysno_num no) = Some no \<and> (sysno_num no = sysno_num no' \<longleftrightarrow> no = no')"
proof (intro conjI iffI)
  show "no = no'" if "sysno_num no = sysno_num no'"
    using sysno_of_num that by (metis option.inject)
  show "sysno_num no = sysno_num no'" if "no = no'"
    by (rule arg_cong [OF that])
qed (rule stub_run, rule sysno_of_num)

end
