(* ===== verification/U_Heap.thy ===== *)
theory U_Heap
  imports User_Sys Block_Heap
begin

text \<open>
  The heap of a user program, \<^verbatim>\<open>lib/uheap.c\<close>: the same block lists as the kernel heap, in
  the memory of the program. Allocation only reserves addresses; frames come with the page faults.
  The state of the process is its lists, the flag of the first call, and the kernel below the
  stubs. The calls made here return to their caller (\<open>firstfit_stub\<close> and its neighbours), so the
  control value of a stub is dropped.
\<close>

section \<open>State and operations\<close>

record uproc =
  udyn :: dyn
  FirstTimeFlag :: bool
  ukernel :: kernel

definition ucall :: "(kernel \<Rightarrow> sysret) \<Rightarrow> uproc \<Rightarrow> (u32 \<times> uproc) result" where
  "ucall f p = andthen (f (ukernel p)) (\<lambda>(r, _, k). Inr (r, p\<lparr>ukernel := k\<rparr>))"

definition USER_DYN_BLKS_ARRAY :: u32 where
  "USER_DYN_BLKS_ARRAY =
     ROUNDDOWN (USER_HEAP_START - sizeof_MemBlock * NUM_OF_UHEAP_PAGES) PAGE_SIZE - PAGE_SIZE"

definition initialize_user_dyn_block_system :: "os \<Rightarrow> uproc \<Rightarrow> uproc result" where
  "initialize_user_dyn_block_system os p =
     (let p = p\<lparr>udyn := (udyn p)\<lparr>AllocMemBlocksList := [], FreeMemBlocksList := []\<rparr>\<rparr>;
          max_cnt = NUM_OF_UHEAP_PAGES;
          size_all_struct = ROUNDUP (sizeof_MemBlock * max_cnt) PAGE_SIZE
      in andthen (ucall (sys_allocate_chunk_stub os USER_DYN_BLKS_ARRAY size_all_struct
                    (PERM_USER OR PERM_WRITEABLE)) p) (\<lambda>(_, p).
         andthen (initialize_MemBlocksList (unat max_cnt) (udyn p)) (\<lambda>d.
           let ourBlock = list_last (AvailableMemBlocksList d) in
           andthen (list_remove (AvailableMemBlocksList d) ourBlock) (\<lambda>av.
             case ourBlock of
               None \<Rightarrow> Inl Panic
             | Some b \<Rightarrow>
                 (let d = d\<lparr>AvailableMemBlocksList := av\<rparr>;
                      d = d\<lparr>blk_size := (blk_size d)(b := USER_HEAP_MAX - USER_HEAP_START)\<rparr>;
                      d = d\<lparr>blk_sva := (blk_sva d)(b := USER_HEAP_START)\<rparr>
                  in andthen (list_insert_tail (FreeMemBlocksList d) (Some b))
                       (\<lambda>fr. Inr (p\<lparr>udyn := d\<lparr>FreeMemBlocksList := fr\<rparr>\<rparr>)))))))"

definition InitializeUHeap :: "os \<Rightarrow> uproc \<Rightarrow> uproc result" where
  "InitializeUHeap os p =
     (if FirstTimeFlag p
      then andthen (initialize_user_dyn_block_system os p) (\<lambda>p. Inr (p\<lparr>FirstTimeFlag := False\<rparr>))
      else Inr p)"

definition malloc :: "os \<Rightarrow> u32 \<Rightarrow> uproc \<Rightarrow> (u32 \<times> uproc) result" where
  "malloc os sz p =
     andthen (InitializeUHeap os p) (\<lambda>p.
       if sz = 0 then Inr (0, p)
       else
         (let sz = ROUNDUP sz PAGE_SIZE in
          andthen (ucall (sys_isUHeapPlacementStrategyFIRSTFIT os) p) (\<lambda>(ff, p).
            if ff \<noteq> 0 then
              andthen (alloc_block_FF sz (udyn p)) (\<lambda>(myBlock, d).
                case myBlock of
                  None \<Rightarrow> Inr (0, p\<lparr>udyn := d\<rparr>)
                | Some b \<Rightarrow>
                    andthen (insert_sorted_allocList b d) (\<lambda>d. Inr (blk_sva d b, p\<lparr>udyn := d\<rparr>)))
            else Inr (0, p))))"

definition free :: "os \<Rightarrow> u32 \<Rightarrow> uproc \<Rightarrow> uproc result" where
  "free os virtual_address p =
     (case find_block (AllocMemBlocksList (udyn p)) virtual_address (udyn p) of
        None \<Rightarrow> Inl Null_Deref
      | Some b \<Rightarrow>
          andthen (ucall (sys_free_user_mem_stub os virtual_address (blk_size (udyn p) b)) p) (\<lambda>(_, p).
          andthen (list_remove (AllocMemBlocksList (udyn p)) (Some b)) (\<lambda>al.
          andthen (insert_sorted_with_merge_freeList b ((udyn p)\<lparr>AllocMemBlocksList := al\<rparr>)) (\<lambda>d.
            Inr (p\<lparr>udyn := d\<rparr>)))))"

definition smalloc :: "os \<Rightarrow> u32 \<Rightarrow> u32 \<Rightarrow> u8 \<Rightarrow> uproc \<Rightarrow> (u32 \<times> uproc) result" where
  "smalloc os sharedVarName sz writable p =
     andthen (InitializeUHeap os p) (\<lambda>p.
       if sz = 0 then Inr (0, p)
       else
         (let sz = ROUNDUP sz PAGE_SIZE in
          andthen (ucall (sys_isUHeapPlacementStrategyFIRSTFIT os) p) (\<lambda>(ff, p).
            if ff \<noteq> 0 then
              andthen (alloc_block_FF sz (udyn p)) (\<lambda>(v1, d).
                let p = p\<lparr>udyn := d\<rparr> in
                case v1 of
                  None \<Rightarrow> Inr (0, p)
                | Some b \<Rightarrow>
                    andthen (ucall (sys_createSharedObject_stub os sharedVarName sz writable
                               (blk_sva d b)) p) (\<lambda>(ret, p).
                      Inr (if 0 \<le> sint ret then blk_sva d b else 0, p)))
            else Inr (0, p))))"

definition sget :: "os \<Rightarrow> u32 \<Rightarrow> u32 \<Rightarrow> uproc \<Rightarrow> (u32 \<times> uproc) result" where
  "sget os ownerEnvID sharedVarName p =
     andthen (InitializeUHeap os p) (\<lambda>p.
     andthen (ucall (sys_getSizeOfSharedObject_stub os ownerEnvID sharedVarName) p) (\<lambda>(ret, p).
       if ret = 0 then Inr (0, p)
       else
         andthen (ucall (sys_isUHeapPlacementStrategyFIRSTFIT os) p) (\<lambda>(ff, p).
           if ff \<noteq> 0 then
             andthen (alloc_block_FF ret (udyn p)) (\<lambda>(v1, d).
               let p = p\<lparr>udyn := d\<rparr> in
               case v1 of
                 None \<Rightarrow> Inr (0, p)
               | Some b \<Rightarrow>
                   andthen (ucall (sys_getSharedObject_stub os ownerEnvID sharedVarName (blk_sva d b)) p)
                     (\<lambda>(ret1, p). Inr (if 0 \<le> sint ret1 then blk_sva d b else 0, p)))
           else Inr (0, p))))"

definition realloc :: "os \<Rightarrow> u32 \<Rightarrow> u32 \<Rightarrow> uproc \<Rightarrow> (u32 \<times> uproc) result" where
  "realloc os virtual_address new_size p = andthen (InitializeUHeap os p) (\<lambda>p. Inl Panic)"

definition sfree :: "u32 \<Rightarrow> uproc \<Rightarrow> uproc result" where "sfree virtual_address p = Inl Panic"
definition expand :: "u32 \<Rightarrow> uproc \<Rightarrow> uproc result" where "expand newSize p = Inl Panic"
definition shrink :: "u32 \<Rightarrow> uproc \<Rightarrow> uproc result" where "shrink newSize p = Inl Panic"
definition freeHeap :: "u32 \<Rightarrow> uproc \<Rightarrow> uproc result" where "freeHeap virtual_address p = Inl Panic"

section \<open>The heap of a running process\<close>

definition uheap_range :: "nat set" where
  "uheap_range = {unat USER_HEAP_START..<unat USER_HEAP_MAX}"

text \<open>The process has made its first call, and first fit is the strategy of the kernel.\<close>

definition uproc_inv :: "uproc \<Rightarrow> bool" where
  "uproc_inv p \<longleftrightarrow> \<not> FirstTimeFlag p \<and> heap_wf uheap_range (udyn p) \<and>
     UHeapPlacementStrategy (ukernel p) = UHP_PLACE_FIRSTFIT"

lemma uheap_range_bound: "uheap_range \<subseteq> {..<4294967295}"
  by (auto simp: uheap_range_def USER_HEAP_MAX_def)

lemma uproc_invD:
  assumes "uproc_inv p"
  shows "\<not> FirstTimeFlag p" and "heap_wf uheap_range (udyn p)" and "dyn_inv (udyn p)"
    and "UHeapPlacementStrategy (ukernel p) = UHP_PLACE_FIRSTFIT"
    and "InitializeUHeap os p = Inr p"
    and "ucall (sys_isUHeapPlacementStrategyFIRSTFIT os) p = Inr (1, p)"
  using assms by (simp_all add: uproc_inv_def heap_wf_def InitializeUHeap_def ucall_def firstfit_stub)

lemma uproc_inv_udyn:
  assumes "uproc_inv p" and "heap_wf uheap_range d"
  shows "uproc_inv (p\<lparr>udyn := d\<rparr>)"
  using assms by (simp add: uproc_inv_def)

lemma malloc_run:
  assumes inv: "uproc_inv p" and rs: "rs = ROUNDUP sz PAGE_SIZE" "0 < rs" and sz: "sz \<noteq> 0"
    and av: "AvailableMemBlocksList (udyn p) \<noteq> []" and fit: "{a..<a + unat rs} \<subseteq> free_set (udyn p)"
  shows "\<exists>v b d. malloc os sz p = Inr (v, p\<lparr>udyn := d\<rparr>) \<and> heap_wf uheap_range d \<and>
           b \<in> set (AllocMemBlocksList d) \<and> blk_sva d b = v \<and> blk_size d b = rs \<and>
           span d b \<subseteq> free_set (udyn p) \<and> free_set d = free_set (udyn p) - span d b \<and>
           b \<notin> set (AllocMemBlocksList (udyn p)) \<and>
           set (AllocMemBlocksList d) = insert b (set (AllocMemBlocksList (udyn p))) \<and>
           (\<forall>a. {a..<a + unat rs} \<subseteq> free_set (udyn p) \<longrightarrow> unat v \<le> a)"
proof -
  note k = uproc_invD [OF inv]
  have dvd: "4096 dvd unat rs"
    using ROUNDUP_dvd [of PAGE_SIZE sz] by (simp add: rs(1))
  have ex: "\<exists>b\<in>set (FreeMemBlocksList (udyn p)). rs \<le> blk_size (udyn p) b"
    using fits_block [OF k(3) rs(2) fit] by blast
  obtain n d1 d2 where ff: "alloc_block_FF rs (udyn p) = Inr (Some n, d1)"
    and ins: "insert_sorted_allocList n d1 = Inr d2"
    and d2: "heap_wf uheap_range d2" "n \<in> set (AllocMemBlocksList d2)" "blk_size d2 n = rs"
      "blk_sva d2 n = blk_sva d1 n" "span d2 n \<subseteq> free_set (udyn p)"
      "free_set d2 = free_set (udyn p) - span d2 n" "n \<notin> set (AllocMemBlocksList (udyn p))"
      "set (AllocMemBlocksList d2) = insert n (set (AllocMemBlocksList (udyn p)))"
    using first_fit.take_and_record [OF k(2) rs(2) dvd av ex] by blast
  have low: "\<forall>a. {a..<a + unat rs} \<subseteq> free_set (udyn p) \<longrightarrow> unat (blk_sva d2 n) \<le> a"
    unfolding d2(4) using alloc_block_FF_fits [OF k(3) rs(2) av ex] ff by auto
  have "malloc os sz p = Inr (blk_sva d2 n, p\<lparr>udyn := d2\<rparr>)"
    using sz by (simp add: malloc_def k(5,6) rs(1) [symmetric] ff ins)
  then show ?thesis
    using d2 low by (intro exI [of _ "blk_sva d2 n"] exI [of _ n] exI [of _ d2]) simp
qed

lemma malloc_too_large:
  assumes inv: "uproc_inv p" and rs: "rs = ROUNDUP sz PAGE_SIZE" "0 < rs" and sz: "sz \<noteq> 0"
    and no: "\<forall>a. \<not> {a..<a + unat rs} \<subseteq> free_set (udyn p)"
  shows "malloc os sz p = Inr (0, p)"
proof -
  note k = uproc_invD [OF inv]
  have "alloc_block_FF rs (udyn p) = Inr (None, udyn p)"
    using alloc_block_FF_none [OF k(3) rs(2) no] .
  then show ?thesis
    using sz by (simp add: malloc_def k(5,6) rs(1) [symmetric])
qed

text \<open>What \<^verbatim>\<open>free\<close> needs of the kernel is that it releases the range of the block.\<close>

lemma free_run:
  assumes inv: "uproc_inv p" and b: "b \<in> set (AllocMemBlocksList (udyn p))"
    and va: "blk_sva (udyn p) b = va"
    and krn: "sys_free_user_mem va (blk_size (udyn p) b) (ukernel p) = Inr k'"
  shows "\<exists>d. free os va p = Inr (p\<lparr>udyn := d, ukernel := k'\<rparr>) \<and> heap_wf uheap_range d \<and>
           free_set d = free_set (udyn p) \<union> span (udyn p) b \<and>
           set (AllocMemBlocksList d) = set (AllocMemBlocksList (udyn p)) - {b}"
proof -
  note k = uproc_invD [OF inv]
  have fnd: "find_block (AllocMemBlocksList (udyn p)) va (udyn p) = Some b"
    using find_block_iff [of "udyn p"] k(2) b va by (simp add: heap_wf_def alloc_wf_def)
  have cl: "ucall (sys_free_user_mem_stub os va (blk_size (udyn p) b)) p = Inr (0, p\<lparr>ukernel := k'\<rparr>)"
    by (simp add: ucall_def free_user_mem_stub krn ret_none_def ret_val_def)
  obtain d where d: "insert_sorted_with_merge_freeList b
        ((udyn p)\<lparr>AllocMemBlocksList := remove1 b (AllocMemBlocksList (udyn p))\<rparr>) = Inr d"
    "heap_wf uheap_range d" "free_set d = free_set (udyn p) \<union> span (udyn p) b"
    "set (AllocMemBlocksList d) = set (AllocMemBlocksList (udyn p)) - {b}"
    using give_back [OF k(2) uheap_range_bound b] by blast
  have "free os va p = Inr (p\<lparr>udyn := d, ukernel := k'\<rparr>)"
    using b by (simp add: free_def fnd cl list_remove_def d(1))
  with d show ?thesis
    by blast
qed

text \<open>An address inside a free range is no recorded block.\<close>

lemma find_block_free:
  assumes "heap_wf R d" and "unat va \<in> free_set d"
  shows "find_block l va d = None"
proof (cases "find_block l va d")
  case (Some b)
  then have b: "b \<in> set (AllocMemBlocksList d)" "blk_sva d b = va"
    using find_loop_Some by (auto simp: find_block_def)
  have "unat va \<in> span d b"
    using alloc_spans(1) [OF assms(1) b(1)] b(2) by (auto simp: span_def word_less_nat_alt)
  then show ?thesis
    using alloc_spans(5) [OF assms(1) b(1)] assms(2) by blast
qed

section \<open>Requests that round to nothing\<close>

text \<open>A request of no bytes splits the first free block: the new node is an empty block there.\<close>

lemma alloc_nothing:
  assumes wf: "heap_wf R d" and fr: "FreeMemBlocksList d = b # fr" and av: "AvailableMemBlocksList d = n # av"
  shows "\<exists>d1 d2. alloc_block_FF 0 d = Inr (Some n, d1) \<and> insert_sorted_allocList n d1 = Inr d2 \<and>
           blk_sva d2 n = blk_sva d b \<and> blk_size d2 n = 0 \<and> free_set d2 = free_set d \<and>
           set (AllocMemBlocksList d2) = insert n (set (AllocMemBlocksList d))"
proof -
  note k = heap_wfD [OF wf]
  have nb: "n \<noteq> b" "n \<notin> set fr" "n \<notin> set (AllocMemBlocksList d)" "b \<notin> set (AllocMemBlocksList d)"
    using k(1) by (auto simp: dyn_inv_def fr av)
  have pos: "0 < blk_size d b"
    using k(1) by (simp add: dyn_inv_def free_ivs_def fr canonical_ivs word_less_nat_alt)
  define d1 where "d1 = d\<lparr>AvailableMemBlocksList := av, blk_size := (blk_size d)(n := 0),
    blk_sva := (blk_sva d)(n := blk_sva d b)\<rparr>"
  have run: "alloc_block_FF 0 d = Inr (Some n, d1)"
    using pos nb(1) word_gt_0 [of "blk_size d b"]
    by (simp add: alloc_block_FF_def fr av list_first_def FF_split_def list_remove_def d1_def
        fun_upd_idem fun_upd_twist)
  have same: "AllocMemBlocksList d1 = AllocMemBlocksList d" "blk_sva d1 n = blk_sva d b"
    "blk_size d1 n = 0" "FreeMemBlocksList d1 = FreeMemBlocksList d"
    "\<And>m. m \<noteq> n \<Longrightarrow> blk_sva d1 m = blk_sva d m \<and> blk_size d1 m = blk_size d m"
    by (simp_all add: d1_def)
  have fs: "free_set d1 = free_set d"
    using nb(1,2) same(4,5) by (simp add: free_set_spans span_def fr) force
  have "\<forall>m\<in>set (AllocMemBlocksList d). blk_sva d1 m = blk_sva d m"
    using same(5) nb(3) by metis
  then have "alloc_sorted d1"
    using k(4) unfolding alloc_wf_def alloc_sorted_def same(1)
    by (auto intro: sorted_wrt_mono_rel [rotated])
  moreover have "blk_sva d1 m \<noteq> blk_sva d1 n" if m: "m \<in> set (AllocMemBlocksList d1)" for m
  proof
    assume eq: "blk_sva d1 m = blk_sva d1 n"
    have m': "m \<in> set (AllocMemBlocksList d)" "m \<noteq> n"
      using m nb(3) by (auto simp: same(1))
    have "unat (blk_sva d b) \<in> free_set d"
      using pos by (auto simp: free_set_spans fr span_def word_less_nat_alt)
    moreover have "unat (blk_sva d b) \<in> span d m"
      using alloc_spans(1) [OF wf m'(1)] eq same(2,5) m'(2) by (simp add: span_def word_less_nat_alt)
    ultimately show False
      using alloc_spans(5) [OF wf m'(1)] by blast
  qed
  ultimately obtain xs ys where al: "AllocMemBlocksList d1 = xs @ ys"
    and ins: "insert_sorted_allocList n d1 = Inr (d1\<lparr>AllocMemBlocksList := xs @ n # ys\<rparr>)"
    using insert_alloc_sorted [of d1 n] nb(3) by (auto simp: same(1))
  have "free_set (d1\<lparr>AllocMemBlocksList := xs @ n # ys\<rparr>) = free_set d"
    using fs by (simp add: free_set_def free_ivs_def)
  moreover have "set (xs @ n # ys) = insert n (set (AllocMemBlocksList d))"
    using al same(1) by (metis Un_insert_right list.simps(15) set_append)
  ultimately show ?thesis
    using run ins same(2,3) by auto
qed

section \<open>Example\<close>

definition uheap_example :: dyn where
  "uheap_example = \<lparr>blk_sva = (\<lambda>_. 0x80000000), blk_size = (\<lambda>_. 0x20000000),
     AvailableMemBlocksList = [1, 2], FreeMemBlocksList = [0], AllocMemBlocksList = []\<rparr>"

definition uproc_example :: uproc where
  "uproc_example = \<lparr>udyn = uheap_example, FirstTimeFlag = False, ukernel = kernel_example\<rparr>"

definition os_example :: os where
  "os_example = \<lparr>os_str = (\<lambda>_. ''x''), os_other = (\<lambda>_. ret_val 0), os_cnt = (0, 0)\<rparr>"

lemma uheap_example_free: "free_set uheap_example = {0x80000000..<0xA0000000}"
  by (simp add: free_set_spans uheap_example_def span_def)

lemma uproc_example_inv: "uproc_inv uproc_example"
proof -
  have "page_sat {0x80000000..<0xA0000000}"
    by (rule page_sat_interval) simp_all
  then have "heap_wf uheap_range uheap_example"
    unfolding heap_wf_def uheap_example_free
    by (simp add: uheap_range_def USER_HEAP_START_def USER_HEAP_MAX_def)
      (simp add: dyn_inv_def free_ivs_def uheap_example_def alloc_wf_def alloc_sorted_def)
  then show ?thesis
    by (simp add: uproc_inv_def uproc_example_def kernel_example_def UHP_PLACE_FIRSTFIT_def)
qed

lemma heap_page_untouched:
  assumes "i = 0x80000000 \<or> i = 0x80001000"
  shows "free_user_table 0 i (kvm kernel_example) = Inr (kvm kernel_example)"
proof -
  let ?v = "kvm kernel_example"
  have dirs: "edir 0 ?v = 0xF0200000" "vmem ?v = kernel_kmem" "disk_env_pgdir (venv ?v 0) = 0xF6002000"
    by (simp_all add: edir_def kernel_example_facts)
      (simp add: kernel_example_def kvm_def ksched_def sched_example_def vm_example_def env_example_def)
  have i: "PDX i = 512" "\<not> CHECK_IF_KERNEL_ADDRESS i"
    using assms by (auto simp: addr_defs CHECK_IF_KERNEL_ADDRESS_def layout_defs)
  have e: "tables kernel_kmem q 512 = 0" for q
    by (simp add: kernel_kmem_def)
  have "to_frame_info 0 kernel_kmem = Inr 0" "frame_va kernel_kmem 0 = 0"
    by (simp_all add: to_frame_info_def kernel_kmem_def kmem_example_def addr_defs)
  then have "get_disk_page_table 0xF6002000 i False kernel_kmem = Inr (0, 0, kernel_kmem)"
    using i e by (simp add: get_disk_page_table_def table_read_def table_address_def
        kheap_virtual_address_def EXTRACT_ADDRESS_def)
  then have "pf_remove_env_page 0 i ?v = Inr ?v"
    by (simp add: pf_remove_env_page_def dirs)
  moreover have "free_empty_table 0xF0200000 i kernel_kmem = Inr kernel_kmem"
    using i e by (simp add: free_empty_table_def get_page_table_def table_read_def TABLE_IN_MEMORY_def
        TABLE_NOT_EXIST_def PERM_PRESENT_def)
  ultimately show ?thesis
    by (simp add: free_user_table_def on_mem_def dirs)
qed

lemma uproc_example_frees:
  "sys_free_user_mem 0x80000000 0x2000 kernel_example = Inr kernel_example"
proof -
  let ?v = "kvm kernel_example"
  have env: "page_WS_max_size (venv ?v 0) = 2"
    "ptr_pageWorkingSet (venv ?v 0) = ptr_pageWorkingSet env_example"
    by (simp_all add: kernel_example_def kvm_def ksched_def sched_example_def vm_example_def env_example_def)
  have pages: "free_user_pages 0 0x80000000 0x80002000 ?v = Inr ?v"
    by (simp add: free_user_pages_def env upt_rec free_ws_entry_def ws_read_def
        env_page_ws_get_virtual_address_def env_page_ws_is_entry_empty_def ROUNDDOWN_def
        PAGE_SIZE_def env_example_def)
  have "for_pages 0x80000000 0x80002000 (free_user_table 0) ?v = Inr ?v"
    using heap_page_untouched by (simp add: for_pages.simps PAGE_SIZE_def)
  then have "free_user_mem 0 0x80000000 0x2000 ?v = Inr ?v"
    using pages by (simp add: free_user_mem_def ROUNDDOWN_def ROUNDUP_def PAGE_SIZE_def)
  moreover have "isBufferingEnabled (sset (ksched kernel_example)) = 0"
    by (simp add: kernel_example_def ksched_def sched_example_def isBufferingEnabled_def)
  moreover have "put_kvm ?v kernel_example = kernel_example"
    by (simp add: put_kvm_def put_sched_def kvm_def ksched_def)
  ultimately show ?thesis
    by (simp add: sys_free_user_mem_def cur_def kernel_example_facts)
qed

lemma uproc_example_request:
  "0x2000 = ROUNDUP 5000 PAGE_SIZE" "(0 :: u32) < 0x2000" "(5000 :: u32) \<noteq> 0"
  "AvailableMemBlocksList (udyn uproc_example) \<noteq> []"
  by (simp_all add: ROUNDUP_def ROUNDDOWN_def PAGE_SIZE_def uproc_example_def uheap_example_def)

lemma malloc_example: "\<exists>p1. malloc os_example 5000 uproc_example = Inr (0x80000000, p1)"
proof -
  have fit: "{0x80000000..<0x80000000 + unat (0x2000 :: u32)} \<subseteq> free_set (udyn uproc_example)"
    by (auto simp: uproc_example_def uheap_example_free)
  obtain v b d where r: "malloc os_example 5000 uproc_example = Inr (v, uproc_example\<lparr>udyn := d\<rparr>)"
    "blk_sva d b = v" "blk_size d b = 0x2000" "span d b \<subseteq> free_set (udyn uproc_example)"
    "unat v \<le> 0x80000000"
    using malloc_run [OF uproc_example_inv uproc_example_request fit, of os_example] fit by blast
  have "unat v \<in> span d b"
    using r(2,3) by (simp add: span_def)
  then have "unat v = unat (0x80000000 :: u32)"
    using r(4,5) by (auto simp: uproc_example_def uheap_example_free)
  then have "v = 0x80000000"
    by (simp only: u32_eq_iff)
  then show ?thesis
    using r(1) by blast
qed

text \<open>The example kernel has no room for shared objects.\<close>

lemma kernel_example_create:
  "\<forall>v. sys_createSharedObject (os_str os_example nm) sz w v (ukernel uproc_example) =
     Inr (E_NO_SHARE, ukernel uproc_example)"
proof
  fix v
  let ?s = "\<lparr>hsched = ksched kernel_example, shares = kshares kernel_example,
    MAX_SHARES = kMAX_SHARES kernel_example\<rparr>"
  have "createSharedObject owner n sz w v ?s = Inr (E_NO_SHARE, ?s)" for owner n
    using create_share_errors [of ?s owner n sz w v]
    by (simp add: kernel_example_def)
  moreover have "(put_sched (ksched kernel_example) kernel_example)
      \<lparr>kshares := kshares kernel_example, kMAX_SHARES := kMAX_SHARES kernel_example\<rparr> = kernel_example"
    by (simp add: put_sched_def ksched_def)
  ultimately show "sys_createSharedObject (os_str os_example nm) sz w v (ukernel uproc_example) =
      Inr (E_NO_SHARE, ukernel uproc_example)"
    by (simp add: uproc_example_def sys_createSharedObject_def cur_def kernel_example_facts on_sharing_def)
qed

lemma kernel_example_size:
  "sys_getSizeOfSharedObject owner nm (ukernel uproc_example) = E_SHARED_MEM_NOT_EXISTS"
  by (simp add: uproc_example_def sys_getSizeOfSharedObject_def getSizeOfSharedObject_def
      get_share_object_ID_def kernel_example_def)

section \<open>The first call\<close>

definition fresh_uheap :: "dyn \<Rightarrow> dyn" where
  "fresh_uheap d = d\<lparr>blk_sva := (blk_sva d)(0 := USER_HEAP_START),
     blk_size := (blk_size d)(0 := USER_HEAP_MAX - USER_HEAP_START),
     AvailableMemBlocksList := rev [1..<unat NUM_OF_UHEAP_PAGES], FreeMemBlocksList := [0],
     AllocMemBlocksList := []\<rparr>"

lemma initial_nodes:
  assumes "0 < n"
  shows "rev [0..<n] = rev [1..<n] @ [0]"
  using assms by (simp add: upt_conv_Cons)

lemma initialize_user_ok:
  assumes "sys_allocate_chunk USER_DYN_BLKS_ARRAY (ROUNDUP (sizeof_MemBlock * NUM_OF_UHEAP_PAGES) PAGE_SIZE)
      (PERM_USER OR PERM_WRITEABLE) (ukernel p) = Inr k'"
  shows "initialize_user_dyn_block_system os p = Inr (p\<lparr>udyn := fresh_uheap (udyn p), ukernel := k'\<rparr>)"
proof -
  have "0 < unat NUM_OF_UHEAP_PAGES"
    by (simp add: NUM_OF_UHEAP_PAGES_def USER_HEAP_MAX_def USER_HEAP_START_def PAGE_SIZE_def)
  note av = initial_nodes [OF this]
  show ?thesis
    by (simp add: initialize_user_dyn_block_system_def ucall_def allocate_chunk_stub ret_none_def
        ret_val_def assms initialize_run av list_last_def list_remove_def remove1_append
        list_insert_tail_def fresh_uheap_def Let_def)
qed

lemma fresh_uheap_wf:
  shows "heap_wf uheap_range (fresh_uheap d)" and "free_set (fresh_uheap d) = uheap_range"
proof -
  have sz: "unat (USER_HEAP_MAX - USER_HEAP_START) = 536870912" "unat USER_HEAP_START = 2147483648"
    "unat USER_HEAP_MAX = 2684354560"
    by (simp_all add: USER_HEAP_START_def USER_HEAP_MAX_def)
  show fs: "free_set (fresh_uheap d) = uheap_range"
    by (simp add: free_set_spans fresh_uheap_def span_def sz uheap_range_def)
  have "page_sat uheap_range"
    unfolding uheap_range_def by (rule page_sat_interval) (simp_all add: sz)
  moreover have "dyn_inv (fresh_uheap d)"
    by (simp add: dyn_inv_def fresh_uheap_def free_ivs_def sz)
  ultimately show "heap_wf uheap_range (fresh_uheap d)"
    by (simp add: heap_wf_def fs) (simp add: alloc_wf_def alloc_sorted_def fresh_uheap_def)
qed

lemma sys_allocate_chunk_strategy:
  "sys_allocate_chunk va sz perms k = Inr k' \<Longrightarrow> UHeapPlacementStrategy k' = UHeapPlacementStrategy k"
  by (auto simp: sys_allocate_chunk_def put_kmem_def put_kvm_def put_sched_def)

text \<open>In the example the first page of the node array is mapped already, and the kernel refuses.\<close>

definition kernel_mapped :: kmem where
  "kernel_mapped = kernel_kmem\<lparr>tables := (\<lambda>p i. if p = 0xF0200000 \<and> i = 511 then 0x14007
     else if p = 0xF6001000 \<and> i = 511 then 0x19007 else 0)\<rparr>"

definition uproc_new :: uproc where
  "uproc_new = \<lparr>udyn = uheap_example, FirstTimeFlag = True,
     ukernel = put_kmem kernel_mapped kernel_example\<rparr>"

lemma put_kmem_facts [simp]:
  "vmem (kvm (put_kmem m k)) = m" "put_kmem m' (put_kmem m k) = put_kmem m' k"
  "curenv (ksched (put_kmem m k)) = curenv (ksched k)"
  "UHeapPlacementStrategy (put_kmem m k) = UHeapPlacementStrategy k"
  by (simp_all add: put_kmem_def put_kvm_def put_sched_def kvm_def ksched_def set_mem_def)

lemma kernel_mapped_refuses:
  "sys_allocate_chunk USER_DYN_BLKS_ARRAY (ROUNDUP (sizeof_MemBlock * NUM_OF_UHEAP_PAGES) PAGE_SIZE)
     (PERM_USER OR PERM_WRITEABLE) (put_kmem kernel_mapped kernel_example) =
   Inr (put_kmem kernel_mapped kernel_example)"
proof -
  have n: "USER_DYN_BLKS_ARRAY = 0x7FDFF000" "ROUNDUP (sizeof_MemBlock * NUM_OF_UHEAP_PAGES) PAGE_SIZE = 0x200000"
    by (simp_all add: USER_DYN_BLKS_ARRAY_def NUM_OF_UHEAP_PAGES_def USER_HEAP_MAX_def
        USER_HEAP_START_def sizeof_MemBlock_def ROUNDUP_def ROUNDDOWN_def PAGE_SIZE_def)
  have "table_at 0xF0200000 0x7FDFF000 0xF6001000 kernel_mapped"
    by (simp add: table_at_def get_page_table_def table_read_def table_address_def
      kheap_virtual_address_def to_frame_info_def kernel_mapped_def kernel_kmem_def kmem_example_def
      perm_defs addr_defs CHECK_IF_KERNEL_ADDRESS_def layout_defs)
  note at = get_frame_info_at [OF this]
  have "PTX 0x7FDFF000 = 511" "tables kernel_mapped 0xF6001000 511 = 0x19007"
    "unat (PPN 0x19007) = 25" "number_of_frames kernel_mapped = 300"
    by (simp_all add: addr_defs kernel_mapped_def kernel_kmem_def kmem_example_def)
  then have "get_frame_info 0xF0200000 0x7FDFF000 kernel_mapped = Inr (Some 25, 0xF6001000)"
    by (simp add: at)
  then have "is_mapped 0xF0200000 kernel_mapped 0x7FDFF000 = Inr True"
    by (simp add: is_mapped_def)
  then have "scan_pages 0x7FDFF000 0x7FFFF000 (is_mapped 0xF0200000 kernel_mapped) = Inr True"
    by (simp add: scan_pages.simps)
  then have "allocate_chunk 0xF0200000 0x7FDFF000 0x200000 perms kernel_mapped = Inr (- 1, kernel_mapped)" for perms
    by (simp add: allocate_chunk_def allocate_chunk_with_def ROUNDUP_def ROUNDDOWN_def PAGE_SIZE_def)
  moreover have "env_page_directory kernel_mapped 0 = 0xF0200000"
    by (simp add: kernel_mapped_def kernel_example_facts)
  ultimately show ?thesis
    by (simp add: sys_allocate_chunk_def cur_def kernel_example_facts n)
qed

section \<open>Properties\<close>

text \<open>The first call of a heap function: whatever the call for the node array gives back, the
  heap is one free block that spans the user heap, every other node is available, and the heap
  invariant holds.\<close>

theorem first_call_initialises:
  assumes "FirstTimeFlag p" and "UHeapPlacementStrategy (ukernel p) = UHP_PLACE_FIRSTFIT"
    and "sys_allocate_chunk USER_DYN_BLKS_ARRAY (ROUNDUP (sizeof_MemBlock * NUM_OF_UHEAP_PAGES) PAGE_SIZE)
      (PERM_USER OR PERM_WRITEABLE) (ukernel p) = Inr k'"
  shows "\<exists>p'. InitializeUHeap os p = Inr p' \<and> uproc_inv p' \<and> ukernel p' = k' \<and>
           free_set (udyn p') = uheap_range \<and>
           length (AvailableMemBlocksList (udyn p')) = unat NUM_OF_UHEAP_PAGES - 1"
proof -
  let ?p = "p\<lparr>udyn := fresh_uheap (udyn p), ukernel := k', FirstTimeFlag := False\<rparr>"
  have "InitializeUHeap os p = Inr ?p"
    by (simp add: InitializeUHeap_def assms(1) initialize_user_ok [OF assms(3)])
  moreover have "uproc_inv ?p"
    using sys_allocate_chunk_strategy [OF assms(3)] assms(2) fresh_uheap_wf
    by (simp add: uproc_inv_def)
  moreover have "length (AvailableMemBlocksList (udyn ?p)) = unat NUM_OF_UHEAP_PAGES - 1"
    by (simp add: fresh_uheap_def)
  ultimately show ?thesis
    by (intro exI [of _ ?p]) (simp add: fresh_uheap_wf)
qed

theorem first_call_initialises_witness:
  "\<exists>p'. InitializeUHeap os_example uproc_new = Inr p' \<and> uproc_inv p'"
proof -
  have "FirstTimeFlag uproc_new" "ukernel uproc_new = put_kmem kernel_mapped kernel_example"
    "UHeapPlacementStrategy (ukernel uproc_new) = UHP_PLACE_FIRSTFIT"
    by (simp_all add: uproc_new_def) (simp add: kernel_example_def UHP_PLACE_FIRSTFIT_def)
  then show ?thesis
    using first_call_initialises [of uproc_new "put_kmem kernel_mapped kernel_example" os_example]
      kernel_mapped_refuses by auto
qed

text \<open>C24: Allocation in the user heap: a request that fits returns the lowest address where it
  fits; the block is recorded with the size rounded up to pages, exactly its range leaves the free
  set, the lists stay well formed, and the kernel is not changed: frames come with the faults.\<close>

theorem malloc_lowest_fit:
  assumes "uproc_inv p" and "rs = ROUNDUP sz PAGE_SIZE" "0 < rs" and "sz \<noteq> 0"
    and "AvailableMemBlocksList (udyn p) \<noteq> []" and "{a..<a + unat rs} \<subseteq> free_set (udyn p)"
  shows "\<exists>v b p'. malloc os sz p = Inr (v, p') \<and> uproc_inv p' \<and> ukernel p' = ukernel p \<and>
           b \<in> set (AllocMemBlocksList (udyn p')) \<and> blk_sva (udyn p') b = v \<and>
           blk_size (udyn p') b = rs \<and> span (udyn p') b \<subseteq> free_set (udyn p) \<and>
           free_set (udyn p') = free_set (udyn p) - span (udyn p') b \<and>
           (\<forall>a. {a..<a + unat rs} \<subseteq> free_set (udyn p) \<longrightarrow> unat v \<le> a)"
proof -
  obtain v b d where "malloc os sz p = Inr (v, p\<lparr>udyn := d\<rparr>)" "heap_wf uheap_range d"
    "b \<in> set (AllocMemBlocksList d)" "blk_sva d b = v" "blk_size d b = rs"
    "span d b \<subseteq> free_set (udyn p)" "free_set d = free_set (udyn p) - span d b"
    "\<forall>a. {a..<a + unat rs} \<subseteq> free_set (udyn p) \<longrightarrow> unat v \<le> a"
    using malloc_run [OF assms] by blast
  then show ?thesis
    using uproc_inv_udyn [OF assms(1)]
    by (intro exI [of _ v] exI [of _ b] exI [of _ "p\<lparr>udyn := d\<rparr>"]) simp
qed

theorem malloc_lowest_fit_witness:
  "\<exists>v p'. malloc os_example 5000 uproc_example = Inr (v, p') \<and> uproc_inv p' \<and>
     ukernel p' = kernel_example \<and> v = 0x80000000"
proof -
  obtain p1 where p1: "malloc os_example 5000 uproc_example = Inr (0x80000000, p1)"
    using malloc_example by blast
  have fit: "{0x80000000..<0x80000000 + unat (0x2000 :: u32)} \<subseteq> free_set (udyn uproc_example)"
    by (auto simp: uproc_example_def uheap_example_free)
  show ?thesis
    using malloc_lowest_fit [OF uproc_example_inv uproc_example_request fit, of os_example] p1
    by (auto simp: uproc_example_def)
qed

text \<open>C25: Allocating and freeing in the user heap: when the kernel releases the range, the free list
  is interval for interval what it was, and the same blocks are recorded.\<close>

theorem malloc_free_roundtrip:
  assumes "uproc_inv p" and "rs = ROUNDUP sz PAGE_SIZE" "0 < rs" and "sz \<noteq> 0"
    and "AvailableMemBlocksList (udyn p) \<noteq> []" and "{a..<a + unat rs} \<subseteq> free_set (udyn p)"
    and "malloc os sz p = Inr (v, p1)" and "sys_free_user_mem v rs (ukernel p) = Inr k'"
  shows "\<exists>p2. free os v p1 = Inr p2 \<and> ukernel p2 = k' \<and> heap_wf uheap_range (udyn p2) \<and>
           free_ivs (udyn p2) = free_ivs (udyn p) \<and>
           set (AllocMemBlocksList (udyn p2)) = set (AllocMemBlocksList (udyn p))"
proof -
  obtain b d where m: "p1 = p\<lparr>udyn := d\<rparr>" "heap_wf uheap_range d"
    "b \<in> set (AllocMemBlocksList d)" "blk_sva d b = v" "blk_size d b = rs"
    "span d b \<subseteq> free_set (udyn p)" "free_set d = free_set (udyn p) - span d b"
    "b \<notin> set (AllocMemBlocksList (udyn p))"
    "set (AllocMemBlocksList d) = insert b (set (AllocMemBlocksList (udyn p)))"
    using malloc_run [OF assms(1-6), of os] assms(7) by auto
  have "sys_free_user_mem v (blk_size (udyn p1) b) (ukernel p1) = Inr k'"
    using assms(8) m(1,5) by simp
  from free_run [OF _ _ _ this, where os = os] obtain d' where
    f: "free os v p1 = Inr (p1\<lparr>udyn := d', ukernel := k'\<rparr>)" "heap_wf uheap_range d'"
      "free_set d' = free_set d \<union> span d b" "set (AllocMemBlocksList d') = set (AllocMemBlocksList d) - {b}"
    using uproc_inv_udyn [OF assms(1) m(2)] m(1,3,4) by auto
  have w: "dyn_inv d'" "dyn_inv (udyn p)"
    using heap_wfD(1) f(2) uproc_invD(3) [OF assms(1)] by auto
  have "free_ivs d' = free_ivs (udyn p)"
  proof (rule canonical_unique)
    show "canonical (free_ivs d')" "canonical (free_ivs (udyn p))"
      using w by (simp_all add: dyn_inv_def)
    show "cover (free_ivs d') = cover (free_ivs (udyn p))"
      using f(3) m(6,7) by (auto simp: free_set_def)
  qed
  then show ?thesis
    using f m(8,9) by (intro exI [of _ "p1\<lparr>udyn := d', ukernel := k'\<rparr>"]) simp
qed

theorem malloc_free_roundtrip_witness:
  "\<exists>p1 p2. malloc os_example 5000 uproc_example = Inr (0x80000000, p1) \<and>
     free os_example 0x80000000 p1 = Inr p2 \<and> free_ivs (udyn p2) = free_ivs uheap_example"
proof -
  obtain p1 where p1: "malloc os_example 5000 uproc_example = Inr (0x80000000, p1)"
    using malloc_example by blast
  have fit: "{0x80000000..<0x80000000 + unat (0x2000 :: u32)} \<subseteq> free_set (udyn uproc_example)"
    by (auto simp: uproc_example_def uheap_example_free)
  have "sys_free_user_mem 0x80000000 0x2000 (ukernel uproc_example) = Inr kernel_example"
    using uproc_example_frees by (simp add: uproc_example_def)
  then show ?thesis
    using malloc_free_roundtrip [OF uproc_example_inv uproc_example_request fit p1] p1
    by (auto simp: uproc_example_def)
qed

text \<open>A request of more than \<^verbatim>\<open>0xFFFFF000\<close> bytes rounds up to no bytes: \<^verbatim>\<open>malloc\<close>
  does not fail but returns the start of the first free block, records an empty block there, and
  reserves nothing: the next caller gets the same address.\<close>

theorem malloc_wraps:
  assumes "uproc_inv p" and "0xFFFFF000 < sz"
    and "FreeMemBlocksList (udyn p) = b # fr" and "AvailableMemBlocksList (udyn p) = n # av"
  shows "\<exists>d. malloc os sz p = Inr (blk_sva (udyn p) b, p\<lparr>udyn := d\<rparr>) \<and> blk_size d n = 0 \<and>
           n \<in> set (AllocMemBlocksList d) \<and> free_set d = free_set (udyn p)"
proof -
  note k = uproc_invD [OF assms(1)]
  obtain d1 d2 where r: "alloc_block_FF 0 (udyn p) = Inr (Some n, d1)"
    "insert_sorted_allocList n d1 = Inr d2" "blk_sva d2 n = blk_sva (udyn p) b" "blk_size d2 n = 0"
    "free_set d2 = free_set (udyn p)" "n \<in> set (AllocMemBlocksList d2)"
    using alloc_nothing [OF k(2) assms(3,4)] by auto
  have "unat sz > 4294963200" "sz \<noteq> 0"
    using assms(2) by (auto simp: word_less_nat_alt)
  then have "malloc os sz p = Inr (blk_sva (udyn p) b, p\<lparr>udyn := d2\<rparr>)"
    by (simp add: malloc_def k(5,6) ROUNDUP_wraps r)
  then show ?thesis
    using r by blast
qed

theorem malloc_wraps_witness:
  "\<exists>d. malloc os_example 0xFFFFF001 uproc_example = Inr (0x80000000, uproc_example\<lparr>udyn := d\<rparr>) \<and>
     free_set d = free_set uheap_example"
  using malloc_wraps [OF uproc_example_inv, of "0xFFFFF001" 0 "[]" 1 "[2]" os_example]
  by (auto simp: uproc_example_def uheap_example_def)

text \<open>Sharing an object that exists already: the kernel refuses, and \<^verbatim>\<open>smalloc\<close> returns
  NULL, but the range it had taken stays out of the free list and is recorded nowhere: it is lost,
  and freeing its address dereferences a null pointer.\<close>

theorem smalloc_loses_range:
  assumes "uproc_inv p" and "rs = ROUNDUP sz PAGE_SIZE" "0 < rs" and "sz \<noteq> 0"
    and "AvailableMemBlocksList (udyn p) \<noteq> []" and "{a..<a + unat rs} \<subseteq> free_set (udyn p)"
    and "\<forall>v. sys_createSharedObject (os_str os nm) rs w v (ukernel p) = Inr (r, ukernel p)"
    and "r < 0" "- 2147483648 \<le> r"
  shows "\<exists>v p'. smalloc os nm sz w p = Inr (0, p') \<and> unat v \<in> free_set (udyn p) \<and>
           free_set (udyn p') = free_set (udyn p) - {unat v..<unat v + unat rs} \<and>
           AllocMemBlocksList (udyn p') = AllocMemBlocksList (udyn p) \<and>
           free os v p' = Inl Null_Deref"
proof -
  note k = uproc_invD [OF assms(1)]
  have ex: "\<exists>b\<in>set (FreeMemBlocksList (udyn p)). rs \<le> blk_size (udyn p) b"
    using fits_block [OF k(3) assms(3,6)] by blast
  obtain n d where ff: "alloc_block_FF rs (udyn p) = Inr (Some n, d)" and t: "took rs n (udyn p) d"
    using alloc_block_FF_fits [OF k(3) assms(3,5) ex] by blast
  let ?v = "blk_sva d n"
  have tk: "blk_size d n = rs" "span d n \<subseteq> free_set (udyn p)"
    "free_set d = free_set (udyn p) - span d n" "AllocMemBlocksList d = AllocMemBlocksList (udyn p)"
    using t by (auto simp: took_def)
  have sp: "span d n = {unat ?v..<unat ?v + unat rs}"
    by (simp add: span_def tk(1))
  have neg: "sint (of_int r :: u32) = r"
    using assms(8,9) by (simp add: signed_of_int signed_take_bit_int_eq_self)
  have "ucall (sys_createSharedObject_stub os nm rs w ?v) (p\<lparr>udyn := d\<rparr>) =
      Inr (of_int r, p\<lparr>udyn := d\<rparr>)"
    using assms(7) by (simp add: ucall_def createSharedObject_stub ret_int_def ret_val_def)
  then have run: "smalloc os nm sz w p = Inr (0, p\<lparr>udyn := d\<rparr>)"
    using assms(4,8) neg by (simp add: smalloc_def k(5,6) assms(2) [symmetric] ff)
  have v: "unat ?v \<in> free_set (udyn p)"
    using tk(2) sp assms(3) by (auto simp: word_less_nat_alt)
  have old: "blk_sva d m = blk_sva (udyn p) m" if "m \<in> set (AllocMemBlocksList (udyn p))" for m
    using t k(3) that by (auto simp: took_def dyn_inv_def)
  have "find_loop d ?v (AllocMemBlocksList d) = None"
    using find_block_free [OF k(2) v] old by (simp add: find_block_def find_loop_None tk(4))
  then have "free os ?v (p\<lparr>udyn := d\<rparr>) = Inl Null_Deref"
    by (simp add: free_def find_block_def)
  then show ?thesis
    using run v tk(3,4) sp by (intro exI [of _ ?v] exI [of _ "p\<lparr>udyn := d\<rparr>"]) simp
qed

theorem smalloc_loses_range_witness:
  "\<exists>v p'. smalloc os_example 0 5000 1 uproc_example = Inr (0, p') \<and>
     free os_example v p' = Inl Null_Deref \<and> unat v \<in> free_set uheap_example"
proof -
  have fit: "{0x80000000..<0x80000000 + unat (0x2000 :: u32)} \<subseteq> free_set (udyn uproc_example)"
    by (auto simp: uproc_example_def uheap_example_free)
  show ?thesis
    using smalloc_loses_range [OF uproc_example_inv uproc_example_request fit kernel_example_create,
        where nm = 0 and w = 1]
    by (simp add: E_NO_SHARE_def) (auto simp: uproc_example_def)
qed

text \<open>Getting an object that does not exist returns NULL and changes nothing, although the
  error of the kernel is taken for a size: no free block is that large.\<close>

theorem sget_missing:
  assumes "uproc_inv p"
    and "sys_getSizeOfSharedObject owner (os_str os nm) (ukernel p) = E_SHARED_MEM_NOT_EXISTS"
  shows "sget os owner nm p = Inr (0, p)"
proof -
  note k = uproc_invD [OF assms(1)]
  have e: "(of_int E_SHARED_MEM_NOT_EXISTS :: u32) = 0xFFFFFFF0"
    by (simp add: E_SHARED_MEM_NOT_EXISTS_def)
  have "\<not> {a..<a + unat (0xFFFFFFF0 :: u32)} \<subseteq> free_set (udyn p)" for a
  proof
    assume "{a..<a + unat (0xFFFFFFF0 :: u32)} \<subseteq> free_set (udyn p)"
    then have "{a..<a + 4294967280} \<subseteq> uheap_range"
      using heap_wfD(3) [OF k(2)] by auto
    then show False
      by (simp add: uheap_range_def USER_HEAP_START_def USER_HEAP_MAX_def)
  qed
  then have "alloc_block_FF 0xFFFFFFF0 (udyn p) = Inr (None, udyn p)"
    using alloc_block_FF_none [OF k(3)] by simp
  then show ?thesis
    by (simp add: sget_def k(5,6) ucall_def getSizeOfSharedObject_stub assms(2) e
        k(6) [unfolded ucall_def])
qed

theorem sget_missing_witness: "sget os_example 100 0 uproc_example = Inr (0, uproc_example)"
  by (rule sget_missing [OF uproc_example_inv kernel_example_size])

end
