(* ===== verification/Trap.thy ===== *)
theory Trap
  imports User_Sys
begin

text \<open>
  The entry into the kernel, \<^verbatim>\<open>trap\<close> and \<^verbatim>\<open>trap_dispatch\<close> of
  \<^verbatim>\<open>kern/trap/trap.c\<close>: the frame of a user program is saved in its environment, the trap is
  dispatched, and the processor goes back to the frame of the current environment, or, for a trap
  inside the kernel, to the frame that was pushed. The flags of a saved frame are the field
  \<^verbatim>\<open>tf_eflags\<close> of the kernel state, which two system calls change.
\<close>

section \<open>Frames\<close>

record trapframe =
  reg_edi :: u32
  reg_esi :: u32
  reg_ebp :: u32
  reg_oesp :: u32
  reg_ebx :: u32
  reg_edx :: u32
  reg_ecx :: u32
  reg_eax :: u32
  tf_es :: u16
  tf_ds :: u16
  tf_trapno :: u32
  tf_err :: u32
  tf_eip :: u32
  tf_cs :: u16
  frame_eflags :: u32
  tf_esp :: u32
  tf_ss :: u16

record machine =
  mkernel :: kernel
  env_tf :: "nat \<Rightarrow> trapframe"

definition T_DBLFLT :: u32 where "T_DBLFLT = 8"
definition T_PGFLT :: u32 where "T_PGFLT = 14"
definition IRQ0_Clock :: u32 where "IRQ0_Clock = 32"
definition T_SYSCALL :: u32 where "T_SYSCALL = 48"

text \<open>Where the processor goes: to an environment, back into the kernel, or to the prompt.\<close>

datatype resume = To_Env nat trapframe | To_Kernel trapframe | To_Prompt

definition saved_frame :: "machine \<Rightarrow> nat \<Rightarrow> trapframe" where
  "saved_frame m e = (env_tf m e)\<lparr>frame_eflags := tf_eflags (mkernel m) e\<rparr>"

definition save_frame :: "nat \<Rightarrow> trapframe \<Rightarrow> machine \<Rightarrow> machine" where
  "save_frame e tf m =
     m\<lparr>env_tf := (env_tf m)(e := tf),
       mkernel := (mkernel m)\<lparr>tf_eflags := (tf_eflags (mkernel m))(e := frame_eflags tf)\<rparr>\<rparr>"

definition user_trap :: "trapframe \<Rightarrow> bool" where
  "user_trap tf \<longleftrightarrow> tf_cs tf AND 3 = 3"

section \<open>Dispatch\<close>

text \<open>
  \<^verbatim>\<open>fault_handler\<close> reads \<^verbatim>\<open>curenv\<close> after it has counted the fault and checked the
  stacks; \<open>cr2\<close> is the address in the register of the processor.
\<close>

definition page_fault :: "u32 \<Rightarrow> trapframe \<Rightarrow> kernel \<Rightarrow> kernel result" where
  "page_fault cr2 tf k =
     (case curenv (ksched k) of
        Some e \<Rightarrow>
          andthen (fault_handler (tf_cs tf) cr2 e (sset (ksched k)) (kvm k)) (\<lambda>(g, v).
            Inr (put_sched ((ksched k)\<lparr>sset := g, svm := v\<rparr>) k))
      | None \<Rightarrow>
          andthen (count_fault cr2 (sset (ksched k))) (\<lambda>g.
            if \<not> user_trap tf \<and> cr2 < KERNEL_STACK_TOP - KERNEL_STACK_SIZE \<and> USER_LIMIT \<le> cr2
            then Inl Panic
            else if user_trap tf \<and> USTACKTOP \<le> cr2 then Inl Panic
            else Inl Null_Deref))"

definition trap_dispatch ::
    "os \<Rightarrow> u32 \<Rightarrow> trapframe \<Rightarrow> kernel \<Rightarrow> (control \<times> trapframe \<times> kernel) result" where
  "trap_dispatch os cr2 tf k =
     (if tf_trapno tf = T_PGFLT then
        andthen
          (if isPageReplacmentAlgorithmLRU PG_REP_LRU_TIME_APPROX (sset (ksched k))
           then andthen (update_WS_time_stamps (curenv (ksched k)) (kvm k)) (\<lambda>v. Inr (put_kvm v k))
           else Inr k) (\<lambda>k.
        andthen (page_fault cr2 tf k) (\<lambda>k. Inr (Returned, tf, k)))
      else if tf_trapno tf = T_SYSCALL then
        andthen (syscall (os_str os) (os_other os) (os_cnt os) (reg_eax tf) (reg_edx tf) (reg_ecx tf)
                   (reg_ebx tf) (reg_edi tf) (reg_esi tf) k) (\<lambda>(ret, c, k).
          Inr (c, if c = Returned then tf\<lparr>reg_eax := ret\<rparr> else tf, k))
      else if tf_trapno tf = T_DBLFLT then Inl Panic
      else if tf_trapno tf = IRQ0_Clock then
        andthen (on_sched (clock_interrupt_handler (os_cnt os)) k) (\<lambda>(c, k). Inr (c, tf, k))
      else Inl Panic)"

section \<open>The trap\<close>

definition resume_of :: "control \<Rightarrow> machine \<Rightarrow> resume" where
  "resume_of c m = (case c of Running e \<Rightarrow> To_Env e (saved_frame m e) | _ \<Rightarrow> To_Prompt)"

definition run_env_now :: "u8 \<times> u8 \<Rightarrow> nat \<Rightarrow> machine \<Rightarrow> resume \<times> machine" where
  "run_env_now cnt e m =
     (let (c, s) = env_run cnt e (ksched (mkernel m));
          m = m\<lparr>mkernel := put_sched s (mkernel m)\<rparr>
      in (resume_of c m, m))"

definition stop_clock :: "machine \<Rightarrow> machine" where
  "stop_clock m =
     (let s = ksched (mkernel m)
      in m\<lparr>mkernel := put_sched (s\<lparr>stimer := kclock_stop (stimer s)\<rparr>) (mkernel m)\<rparr>)"

definition resume_clock :: "u8 \<times> u8 \<Rightarrow> machine \<Rightarrow> machine" where
  "resume_clock cnt m =
     (let s = ksched (mkernel m)
      in m\<lparr>mkernel := put_sched (s\<lparr>stimer := kclock_resume (fst cnt) (snd cnt) (stimer s)\<rparr>) (mkernel m)\<rparr>)"

text \<open>A trap of a user program; \<open>e\<close> is the current environment.\<close>

definition enter_user :: "nat \<Rightarrow> trapframe \<Rightarrow> machine \<Rightarrow> machine" where
  "enter_user e tf m =
     (let m = save_frame e tf m
      in if tf_trapno tf = IRQ0_Clock
         then m\<lparr>mkernel := put_kvm (on_env e (\<lambda>n. n\<lparr>nClocks := nClocks n + 1\<rparr>) (kvm (mkernel m)))
                             (mkernel m)\<rparr>
         else m)"

definition leave_user ::
    "os \<Rightarrow> nat \<Rightarrow> machine \<Rightarrow> control \<times> trapframe \<times> kernel \<Rightarrow> (resume \<times> machine) result" where
  "leave_user os e m x =
     (let (c, tf, k) = x; m = m\<lparr>mkernel := k, env_tf := (env_tf m)(e := tf)\<rparr>
      in if c \<noteq> Returned then Inr (resume_of c m, m)
         else
           (case curenv (ksched k) of
              None \<Rightarrow> Inl Panic
            | Some e' \<Rightarrow>
                if env_status (venv (kvm k) e') \<noteq> ENV_RUNNABLE then Inl Panic
                else Inr (run_env_now (os_cnt os) e' m)))"

definition trap_user :: "os \<Rightarrow> u32 \<Rightarrow> nat \<Rightarrow> trapframe \<Rightarrow> machine \<Rightarrow> (resume \<times> machine) result" where
  "trap_user os cr2 e tf m =
     (let m = enter_user e tf m; skip = bypassInstrLength (mkernel m)
      in if tf_trapno tf = T_PGFLT \<and> skip \<noteq> 0 then
           Inr (run_env_now (os_cnt os) e
                  (m\<lparr>env_tf := (env_tf m)(e := tf\<lparr>tf_eip := tf_eip tf + ucast skip\<rparr>)\<rparr>))
         else andthen (trap_dispatch os cr2 tf (mkernel m)) (leave_user os e m))"

text \<open>A trap inside the kernel returns to the frame that was pushed.\<close>

definition trap_kernel :: "os \<Rightarrow> u32 \<Rightarrow> trapframe \<Rightarrow> machine \<Rightarrow> (resume \<times> machine) result" where
  "trap_kernel os cr2 tf m =
     (if tf_trapno tf = T_PGFLT \<and> bypassInstrLength (mkernel m) \<noteq> 0 then
        Inr (To_Kernel (tf\<lparr>tf_eip := tf_eip tf + ucast (bypassInstrLength (mkernel m))\<rparr>),
             resume_clock (os_cnt os) m)
      else
        andthen (trap_dispatch os cr2 tf (mkernel m)) (\<lambda>(c, tf, k).
          let m = m\<lparr>mkernel := k\<rparr>
          in Inr (if c = Returned then To_Kernel tf else resume_of c m, m)))"

definition trap :: "os \<Rightarrow> u32 \<Rightarrow> trapframe \<Rightarrow> machine \<Rightarrow> (resume \<times> machine) result" where
  "trap os cr2 tf m =
     (let m = stop_clock m
      in if user_trap tf then
           (case curenv (ksched (mkernel m)) of
              None \<Rightarrow> Inl Panic
            | Some e \<Rightarrow> trap_user os cr2 e tf m)
         else trap_kernel os cr2 tf m)"

section \<open>Lemmas\<close>

lemma run_env_now_frames [simp]:
  "env_tf (snd (run_env_now cnt e m)) = env_tf m"
  "fst (run_env_now cnt e m) = To_Env e (saved_frame (snd (run_env_now cnt e m)) e)"
  by (simp_all add: run_env_now_def env_run_def resume_of_def Let_def)

lemma run_env_now_eflags [simp]:
  "tf_eflags (mkernel (snd (run_env_now cnt e m))) = tf_eflags (mkernel m)"
  by (simp add: run_env_now_def env_run_def put_sched_def Let_def)

lemma resume_of_frame: "resume_of c m = To_Env e f \<Longrightarrow> f = saved_frame m e"
  by (cases c) (simp_all add: resume_of_def)

lemma stop_clock_simps [simp]:
  "env_tf (stop_clock m) = env_tf m" "curenv (ksched (mkernel (stop_clock m))) = curenv (ksched (mkernel m))"
  "tf_eflags (mkernel (stop_clock m)) = tf_eflags (mkernel m)"
  "kvm (mkernel (stop_clock m)) = kvm (mkernel m)"
  by (simp_all add: stop_clock_def Let_def put_sched_def ksched_def kvm_def)

lemma save_frame_simps [simp]:
  "env_tf (save_frame e tf m) = (env_tf m)(e := tf)"
  "ksched (mkernel (save_frame e tf m)) = ksched (mkernel m)"
  "kvm (mkernel (save_frame e tf m)) = kvm (mkernel m)"
  "saved_frame (save_frame e tf m) e = tf"
  by (simp_all add: save_frame_def saved_frame_def ksched_def kvm_def)

lemma enter_user_simps [simp]:
  "env_tf (enter_user e tf m) = (env_tf m)(e := tf)"
  "tf_trapno tf \<noteq> IRQ0_Clock \<Longrightarrow> enter_user e tf m = save_frame e tf m"
  by (simp_all add: enter_user_def Let_def)

lemma run_env_now_Inr:
  assumes "run_env_now cnt e m = (r, m')"
  shows "env_tf m' = env_tf m" and "r = To_Env e (saved_frame m' e)"
    and "tf_eflags (mkernel m') = tf_eflags (mkernel m)"
  using run_env_now_frames [of cnt e m] run_env_now_eflags [of cnt e m] assms by simp_all

lemma leave_user_frames:
  assumes "leave_user os e m (c, tf, k) = Inr (r, m')"
  shows "env_tf m' = (env_tf m)(e := tf)" and "\<forall>n f. r = To_Env n f \<longrightarrow> f = saved_frame m' n"
proof -
  let ?m = "m\<lparr>mkernel := k, env_tf := (env_tf m)(e := tf)\<rparr>"
  have "(r = resume_of c ?m \<and> m' = ?m) \<or> (\<exists>e'. run_env_now (os_cnt os) e' ?m = (r, m'))"
  proof (cases "c = Returned")
    case True
    then show ?thesis
      using assms by (cases "curenv (ksched k)") (simp_all add: leave_user_def Let_def split: if_splits, blast)
  next
    case False
    then show ?thesis
      using assms by (auto simp: leave_user_def Let_def)
  qed
  then have "env_tf m' = (env_tf m)(e := tf) \<and> (\<forall>n f. r = To_Env n f \<longrightarrow> f = saved_frame m' n)"
  proof (elim disjE conjE exE)
    assume r: "r = resume_of c ?m" "m' = ?m"
    have "f = saved_frame ?m n" if "r = To_Env n f" for n f
      using resume_of_frame [of c ?m n f] r(1) that by simp
    then show ?thesis
      using r(2) by simp
  next
    fix e'
    assume "run_env_now (os_cnt os) e' ?m = (r, m')"
    from run_env_now_Inr [OF this] show ?thesis
      by simp
  qed
  then show "env_tf m' = (env_tf m)(e := tf)" and "\<forall>n f. r = To_Env n f \<longrightarrow> f = saved_frame m' n"
    by simp_all
qed

lemma trap_user_frames:
  assumes "trap_user os cr2 e tf m = Inr (r, m')"
  shows "(\<forall>n. n \<noteq> e \<longrightarrow> env_tf m' n = env_tf m n) \<and> (\<forall>n f. r = To_Env n f \<longrightarrow> f = saved_frame m' n)"
proof (cases "tf_trapno tf = T_PGFLT \<and> bypassInstrLength (mkernel (enter_user e tf m)) \<noteq> 0")
  case True
  let ?m = "(enter_user e tf m)\<lparr>env_tf := (env_tf (enter_user e tf m))(e := tf\<lparr>tf_eip := tf_eip tf
    + ucast (bypassInstrLength (mkernel (enter_user e tf m)))\<rparr>)\<rparr>"
  have "run_env_now (os_cnt os) e ?m = (r, m')"
    using assms True by (simp add: trap_user_def Let_def)
  from run_env_now_Inr [OF this] show ?thesis
    by simp
next
  case False
  then obtain c tf' k where "leave_user os e (enter_user e tf m) (c, tf', k) = Inr (r, m')"
    using assms unfolding trap_user_def Let_def if_not_P [OF False] by auto
  from leave_user_frames [OF this] show ?thesis
    by simp
qed

lemma trap_kernel_frames:
  assumes "trap_kernel os cr2 tf m = Inr (r, m')"
  shows "env_tf m' = env_tf m \<and> (\<forall>n f. r = To_Env n f \<longrightarrow> f = saved_frame m' n)"
  using assms resume_of_frame
  by (fastforce simp: trap_kernel_def resume_clock_def Let_def split: if_splits)

lemma syscall_trap:
  assumes u: "user_trap tf" and no: "tf_trapno tf = T_SYSCALL"
    and cur: "curenv (ksched (mkernel m)) = Some e"
    and sys: "syscall (os_str os) (os_other os) (os_cnt os) (reg_eax tf) (reg_edx tf) (reg_ecx tf)
      (reg_ebx tf) (reg_edi tf) (reg_esi tf) (mkernel (save_frame e tf (stop_clock m))) = Inr (ret, Returned, k)"
    and resume: "curenv (ksched k) = Some e" "env_status (venv (kvm k) e) = ENV_RUNNABLE"
  shows "\<exists>m'. trap os cr2 tf m = Inr (To_Env e (tf\<lparr>reg_eax := ret, frame_eflags := tf_eflags k e\<rparr>), m') \<and>
           env_tf m' = (env_tf m)(e := tf\<lparr>reg_eax := ret\<rparr>) \<and> tf_eflags (mkernel m') = tf_eflags k"
proof -
  let ?s = "save_frame e tf (stop_clock m)"
  let ?m = "?s\<lparr>mkernel := k, env_tf := (env_tf ?s)(e := tf\<lparr>reg_eax := ret\<rparr>)\<rparr>"
  have n: "T_SYSCALL \<noteq> IRQ0_Clock" "T_SYSCALL \<noteq> T_PGFLT"
    by (simp_all add: T_SYSCALL_def IRQ0_Clock_def T_PGFLT_def)
  have "trap_dispatch os cr2 tf (mkernel ?s) = Inr (Returned, tf\<lparr>reg_eax := ret\<rparr>, k)"
    using n no sys by (simp add: trap_dispatch_def)
  moreover have "leave_user os e ?s (Returned, tf\<lparr>reg_eax := ret\<rparr>, k) = Inr (run_env_now (os_cnt os) e ?m)"
    using resume by (simp add: leave_user_def Let_def)
  ultimately have "trap os cr2 tf m = Inr (run_env_now (os_cnt os) e ?m)"
    using u cur n no by (simp add: trap_def trap_user_def Let_def)
  moreover obtain r m' where run: "run_env_now (os_cnt os) e ?m = (r, m')"
    by (cases "run_env_now (os_cnt os) e ?m")
  moreover have "tf_eflags (mkernel m') = tf_eflags k"
    using run_env_now_Inr(3) [OF run] by simp
  moreover have "env_tf m' = (env_tf m)(e := tf\<lparr>reg_eax := ret\<rparr>)"
    using run_env_now_Inr(1) [OF run] by simp
  moreover from this have "saved_frame m' e = tf\<lparr>reg_eax := ret, frame_eflags := tf_eflags k e\<rparr>"
    using calculation(3) by (simp add: saved_frame_def)
  ultimately show ?thesis
    using run_env_now_Inr(2) [OF run] by simp
qed

section \<open>Example\<close>

definition frame_example :: trapframe where
  "frame_example = \<lparr>reg_edi = 0, reg_esi = 0, reg_ebp = 7, reg_oesp = 0, reg_ebx = 0, reg_edx = 0,
     reg_ecx = 0, reg_eax = 19, tf_es = 0x23, tf_ds = 0x23, tf_trapno = 48, tf_err = 0,
     tf_eip = 0x800020, tf_cs = 0x1B, frame_eflags = 0x202, tf_esp = 0xEEBFE000, tf_ss = 0x23\<rparr>"

definition machine_example :: machine where
  "machine_example = \<lparr>mkernel = kernel_example, env_tf = (\<lambda>_. frame_example)\<rparr>"

lemma machine_example_facts:
  "user_trap frame_example" "tf_trapno frame_example = T_SYSCALL"
  "curenv (ksched (mkernel machine_example)) = Some 0" "frame_eflags frame_example = 0x202"
  by (simp_all add: user_trap_def frame_example_def T_SYSCALL_def machine_example_def kernel_example_facts)

definition os_quiet :: os where
  "os_quiet = \<lparr>os_str = (\<lambda>_. []), os_other = (\<lambda>_. ret_val 0), os_cnt = (0, 0)\<rparr>"

text \<open>The example program disables interrupts.\<close>

definition disabled :: "kernel \<Rightarrow> kernel" where
  "disabled k = k\<lparr>tf_eflags := (tf_eflags k)(0 := tf_eflags k 0 AND NOT FL_IF)\<rparr>"

definition entered :: kernel where
  "entered = mkernel (save_frame 0 frame_example (stop_clock machine_example))"

lemma entered_facts:
  shows "curenv (ksched (disabled entered)) = Some 0" and "tf_eflags (disabled entered) 0 = 2"
    and "env_status (venv (kvm (disabled entered)) 0) = ENV_RUNNABLE"
proof -
  have "ksched (disabled k) = ksched k" "kvm (disabled k) = kvm k" for k
    by (simp_all add: disabled_def ksched_def kvm_def)
  moreover have "env_status (venv (kvm entered) 0) = ENV_RUNNABLE"
    by (simp add: entered_def machine_example_def)
      (simp add: kvm_def kernel_example_def ksched_def sched_example_def vm_example_def env_example_def)
  ultimately show "curenv (ksched (disabled entered)) = Some 0"
    and "env_status (venv (kvm (disabled entered)) 0) = ENV_RUNNABLE"
    using machine_example_facts(3) by (simp_all add: entered_def)
  show "tf_eflags (disabled entered) 0 = 2"
    by (simp add: disabled_def entered_def save_frame_def frame_example_def FL_IF_def)
qed

lemma entered_call:
  "syscall (os_str os_quiet) (os_other os_quiet) (os_cnt os_quiet) (reg_eax frame_example)
     (reg_edx frame_example) (reg_ecx frame_example) (reg_ebx frame_example) (reg_edi frame_example)
     (reg_esi frame_example) (mkernel (save_frame 0 frame_example (stop_clock machine_example))) =
   Inr (0, Returned, disabled entered)"
proof -
  have "sysno_of 19 = Some SYS_disableINTR"
    by (simp add: sysno_of_def sysno_list_def)
  moreover have "reg_eax frame_example = 19"
    by (simp add: frame_example_def)
  moreover have "curenv (ksched (mkernel (save_frame 0 frame_example (stop_clock machine_example)))) = Some 0"
    using machine_example_facts(3) by simp
  ultimately show ?thesis
    by (simp add: syscall_def run_handler_def sys_disable_interrupt_def cur_def ret_none_def
        ret_val_def disabled_def entered_def)
qed

lemma frame_example_runs: "\<exists>r m'. trap os_quiet 0 frame_example machine_example = Inr (r, m')"
  using syscall_trap [OF machine_example_facts(1-3) entered_call entered_facts(1,3)] by blast

section \<open>Properties\<close>

text \<open>C26: A system call from a user program: when the handler returns a value with the program still
  current, the processor goes back to the frame of the trap with only the result register changed,
  and the flags that the kernel keeps for the environment; no other saved frame changes.\<close>

theorem syscall_trap_returns:
  assumes "user_trap tf" and "tf_trapno tf = T_SYSCALL"
    and "curenv (ksched (mkernel m)) = Some e"
    and "syscall (os_str os) (os_other os) (os_cnt os) (reg_eax tf) (reg_edx tf) (reg_ecx tf)
      (reg_ebx tf) (reg_edi tf) (reg_esi tf) (mkernel (save_frame e tf (stop_clock m))) = Inr (ret, Returned, k)"
    and "curenv (ksched k) = Some e" "env_status (venv (kvm k) e) = ENV_RUNNABLE"
  shows "\<exists>m'. trap os cr2 tf m = Inr (To_Env e (tf\<lparr>reg_eax := ret, frame_eflags := tf_eflags k e\<rparr>), m') \<and>
           env_tf m' = (env_tf m)(e := tf\<lparr>reg_eax := ret\<rparr>) \<and> tf_eflags (mkernel m') = tf_eflags k"
  using assms by (rule syscall_trap)

text \<open>The call that disables interrupts: the program goes on with its interrupt flag clear.\<close>

theorem syscall_trap_returns_witness:
  "\<exists>m'. trap os_quiet 0 frame_example machine_example =
     Inr (To_Env 0 (frame_example\<lparr>reg_eax := 0, frame_eflags := 2\<rparr>), m')"
  using syscall_trap_returns [OF machine_example_facts(1-3) entered_call entered_facts(1,3)]
  by (auto simp: entered_facts(2))

text \<open>A trap never touches the saved frame of an environment other than the one it interrupts,
  and a trap inside the kernel touches none: an environment that is resumed, now or later, gets
  the frame that was saved for it.\<close>

theorem trap_keeps_frames:
  assumes "trap os cr2 tf m = Inr (r, m')"
  shows "(\<forall>n. \<not> (user_trap tf \<and> curenv (ksched (mkernel m)) = Some n) \<longrightarrow> env_tf m' n = env_tf m n) \<and>
         (\<forall>n f. r = To_Env n f \<longrightarrow> f = saved_frame m' n)"
proof (cases "user_trap tf")
  case True
  then obtain e where "curenv (ksched (mkernel m)) = Some e"
    and "trap_user os cr2 e tf (stop_clock m) = Inr (r, m')"
    using assms by (auto simp: trap_def split: option.splits)
  with trap_user_frames [OF this(2)] True show ?thesis
    by auto
next
  case False
  then have "trap_kernel os cr2 tf (stop_clock m) = Inr (r, m')"
    using assms by (simp add: trap_def Let_def)
  from trap_kernel_frames [OF this] show ?thesis
    by simp
qed

theorem trap_keeps_frames_witness:
  "\<exists>r m'. trap os_quiet 0 frame_example machine_example = Inr (r, m') \<and> env_tf m' 1 = frame_example"
proof -
  obtain r m' where t: "trap os_quiet 0 frame_example machine_example = Inr (r, m')"
    using frame_example_runs by blast
  have "env_tf m' 1 = env_tf machine_example 1"
    using trap_keeps_frames [OF t] machine_example_facts(3) by simp
  then show ?thesis
    using t by (simp add: machine_example_def)
qed

end
