(* ===== verification/Prog_Load.thy ===== *)
theory Prog_Load
  imports Trap
begin

text \<open>
  Loading a program, \<^verbatim>\<open>env_create\<close> of \<^verbatim>\<open>kern/proc/user_environment.c\<close> and the
  functions it calls: the loadable segments of an ELF image are found, their first pages are mapped
  and entered in the working set, and every segment is written to the page file, page by page.
  The image is a part of the kernel binary: its headers and bytes are constants, read by offset.
\<close>

section \<open>The image\<close>

record proghdr =
  p_type :: u32
  p_offset :: u32
  p_va :: u32
  p_filesz :: u32
  p_memsz :: u32

record elf =
  e_magic :: u32
  e_entry :: u32
  e_phnum :: u16
  elf_ph :: "nat \<Rightarrow> proghdr"
  elf_byte :: "u32 \<Rightarrow> u8"

definition ELF_MAGIC :: u32 where "ELF_MAGIC = 0x464C457F"
definition ELF_PROG_LOAD :: u32 where "ELF_PROG_LOAD = 1"

record segment =
  ptr_start :: u32
  size_in_file :: u32
  size_in_memory :: u32
  seg_va :: u32

definition segment_at :: "elf \<Rightarrow> nat \<Rightarrow> segment" where
  "segment_at im i = \<lparr>ptr_start = p_offset (elf_ph im i), size_in_file = p_filesz (elf_ph im i),
     size_in_memory = p_memsz (elf_ph im i), seg_va = p_va (elf_ph im i)\<rparr>"

text \<open>The header after the last one is read too: the type is tested before the index.\<close>

function seg_scan :: "elf \<Rightarrow> nat \<Rightarrow> nat" where
  "seg_scan im i =
     (if p_type (elf_ph im i) \<noteq> ELF_PROG_LOAD \<and> i < unat (e_phnum im) then seg_scan im (Suc i) else i)"
  by pat_completeness auto
termination by (relation "measure (\<lambda>(im, i). unat (e_phnum im) - i)") auto

declare seg_scan.simps [simp del]

definition program_segment :: "elf \<Rightarrow> nat \<Rightarrow> (nat \<times> segment) option result" where
  "program_segment im i =
     (if e_magic im \<noteq> ELF_MAGIC then Inl Panic
      else (let i = seg_scan im i in
            Inr (if i < unat (e_phnum im) then Some (i, segment_at im i) else None)))"

definition PROGRAM_SEGMENT_FIRST :: "elf \<Rightarrow> (nat \<times> segment) option result" where
  "PROGRAM_SEGMENT_FIRST im = program_segment im 0"

definition PROGRAM_SEGMENT_NEXT :: "nat \<Rightarrow> elf \<Rightarrow> (nat \<times> segment) option result" where
  "PROGRAM_SEGMENT_NEXT segment_id im = program_segment im (Suc segment_id)"

section \<open>State\<close>

text \<open>
  The lists of working set entries that exist only for the list-based replacement, by index.
\<close>

record lru =
  PageWorkingSetList :: "nat list"
  ActiveList :: "nat list"
  SecondList :: "nat list"
  ActiveListSize :: u32
  SecondListSize :: u32

record loader =
  lmach :: machine
  prog_name :: "nat \<Rightarrow> string"
  ws_lists :: "nat \<Rightarrow> lru"
  percentage_of_WS_pages_to_be_removed :: "nat \<Rightarrow> u32"

definition lvm :: "loader \<Rightarrow> vm" where "lvm l = kvm (mkernel (lmach l))"
definition lenv :: "loader \<Rightarrow> nat \<Rightarrow> env" where "lenv l n = venv (lvm l) n"

definition on_kernel :: "(kernel \<Rightarrow> kernel) \<Rightarrow> loader \<Rightarrow> loader" where
  "on_kernel f l = l\<lparr>lmach := (lmach l)\<lparr>mkernel := f (mkernel (lmach l))\<rparr>\<rparr>"

definition put_lvm :: "vm \<Rightarrow> loader \<Rightarrow> loader" where
  "put_lvm v l = on_kernel (put_kvm v) l"

definition on_lvm :: "(vm \<Rightarrow> vm result) \<Rightarrow> loader \<Rightarrow> loader result" where
  "on_lvm f l = andthen (f (lvm l)) (\<lambda>v. Inr (put_lvm v l))"

definition on_lists :: "nat \<Rightarrow> (lru \<Rightarrow> lru result) \<Rightarrow> loader \<Rightarrow> loader result" where
  "on_lists n f l = andthen (f (ws_lists l n)) (\<lambda>x. Inr (l\<lparr>ws_lists := (ws_lists l)(n := x)\<rparr>))"

definition lru_lists_on :: "loader \<Rightarrow> bool" where
  "lru_lists_on l = isPageReplacmentAlgorithmLRU PG_REP_LRU_LISTS_APPROX (sset (ksched (mkernel (lmach l))))"

section \<open>Mapping the first pages of a segment\<close>

text \<open>\<open>room\<close> is how many entries the active list may have before the entry goes to the second list.\<close>

definition list_page :: "u32 \<Rightarrow> nat \<Rightarrow> lru \<Rightarrow> lru result" where
  "list_page room i x =
     andthen (list_remove (PageWorkingSetList x) (Some i)) (\<lambda>pl.
       let x = x\<lparr>PageWorkingSetList := pl\<rparr> in
       if of_nat (length (ActiveList x)) < room
       then andthen (list_insert_head (ActiveList x) (Some i)) (\<lambda>al. Inr (x\<lparr>ActiveList := al\<rparr>))
       else andthen (list_insert_head (SecondList x) (Some i)) (\<lambda>sl. Inr (x\<lparr>SecondList := sl\<rparr>)))"

definition next_ws_index :: "env \<Rightarrow> env" where
  "next_ws_index e = e\<lparr>page_last_WS_index := (page_last_WS_index e + 1) mod page_WS_max_size e\<rparr>"

definition enter_table :: "u32 \<Rightarrow> env \<Rightarrow> env result" where
  "enter_table i e =
     (let t = unat (table_last_WS_index e) in
      if length (ptr_tws e) \<le> t then Inl Out_Of_Bounds
      else
        (let e = e\<lparr>ptr_tws := (ptr_tws e)[t := (ptr_tws e ! t)\<lparr>ws_va := ROUNDDOWN i (PAGE_SIZE * 1024),
                     ws_empty := 0, ws_time_stamp := 0\<rparr>],
                   table_last_WS_index := (table_last_WS_index e + 1) mod of_nat TWS_MAX_SIZE\<rparr>
         in if table_last_WS_index e = 0 then Inl Panic else Inr e))"

definition enter_page :: "u32 \<Rightarrow> env \<Rightarrow> env result" where
  "enter_page i e =
     (let j = unat (page_last_WS_index e) in
      if length (ptr_pageWorkingSet e) \<le> j then Inl Out_Of_Bounds
      else Inr (e\<lparr>ptr_pageWorkingSet := (ptr_pageWorkingSet e)[j :=
             (ptr_pageWorkingSet e ! j)\<lparr>ws_va := i, ws_empty := 0, ws_time_stamp := 0\<rparr>]\<rparr>))"

definition seg_page :: "nat \<Rightarrow> u32 \<Rightarrow> u32 \<times> loader \<Rightarrow> (u32 \<times> loader) result" where
  "seg_page n iVA st =
     (let (lastTableNumber, l) = st in
      andthen (on_lvm (on_mem (\<lambda>m. andthen (allocate_frame m) (\<lambda>(f, m).
        loadtime_map_frame (env_page_directory m n) f iVA (PERM_USER OR PERM_WRITEABLE) m))) l) (\<lambda>l.
      andthen (on_lvm (on_env_res n (enter_page iVA)) l) (\<lambda>l.
      andthen (if lru_lists_on l
               then on_lists n (\<lambda>x. list_page (ActiveListSize x - 1) (unat (page_last_WS_index (lenv l n))) x) l
               else Inr l) (\<lambda>l.
      andthen (on_lvm (on_env_res n (\<lambda>e. Inr (next_ws_index e))) l) (\<lambda>l.
        if PDX iVA \<noteq> lastTableNumber
        then andthen (on_lvm (on_env_res n (enter_table iVA)) l) (\<lambda>l. Inr (PDX iVA, l))
        else Inr (lastTableNumber, l))))))"

function seg_pages ::
    "nat \<Rightarrow> u32 \<Rightarrow> u32 \<Rightarrow> u32 \<Rightarrow> u32 \<Rightarrow> u32 \<times> loader \<Rightarrow> (u32 \<times> u32 \<times> loader) result" where
  "seg_pages n iVA end_vaddr i remaining st =
     (if iVA < end_vaddr \<and> i < remaining
      then andthen (seg_page n iVA st) (seg_pages n (iVA + PAGE_SIZE) end_vaddr (i + 1) remaining)
      else Inr (i, st))"
  by pat_completeness auto
termination
proof (relation "measure (\<lambda>(n, iVA, end_vaddr, i, remaining, st). unat (remaining - i))", goal_cases)
  case (2 n iVA end_vaddr i remaining st)
  then have "remaining - i \<noteq> 0"
    by auto
  then have "unat (remaining - i - 1) < unat (remaining - i)"
    by (rule measure_unat)
  then show ?case by (simp add: diff_diff_eq)
qed simp

declare seg_pages.simps [simp del]

section \<open>Copying to the mapped pages\<close>

text \<open>A byte stored through the directory of the program, which is loaded meanwhile.\<close>

definition store_byte :: "u32 \<Rightarrow> u32 \<Rightarrow> u8 \<Rightarrow> kmem \<Rightarrow> kmem result" where
  "store_byte dir va b s =
     andthen (page_frame dir va s) (\<lambda>f.
       touch dir va (PERM_USED OR PERM_MODIFIED)
         (s\<lparr>ram := (ram s)(f := (ram s f)(unat (PGOFF va) := b))\<rparr>))"

function copy_segment ::
    "elf \<Rightarrow> u32 \<Rightarrow> u32 \<Rightarrow> u32 \<Rightarrow> u32 \<Rightarrow> u32 \<Rightarrow> kmem \<Rightarrow> (u32 \<times> kmem) result" where
  "copy_segment im dir page_end file_end dst_ptr src_ptr s =
     (if dst_ptr < page_end \<and> dst_ptr < file_end
      then andthen (store_byte dir dst_ptr (elf_byte im src_ptr) s)
             (copy_segment im dir page_end file_end (dst_ptr + 1) (src_ptr + 1))
      else Inr (dst_ptr, s))"
  by pat_completeness auto
termination
proof (relation "measure (\<lambda>(im, dir, page_end, file_end, dst, src, s). unat (page_end - dst))", goal_cases)
  case (2 im dir page_end file_end dst src s)
  then have "page_end - dst \<noteq> 0"
    by auto
  then have "unat (page_end - dst - 1) < unat (page_end - dst)"
    by (rule measure_unat)
  then show ?case by (simp add: diff_diff_eq)
qed simp

function zero_segment :: "u32 \<Rightarrow> u32 \<Rightarrow> u32 \<Rightarrow> kmem \<Rightarrow> kmem result" where
  "zero_segment dir page_end dst_ptr s =
     (if dst_ptr < page_end
      then andthen (store_byte dir dst_ptr 0 s) (zero_segment dir page_end (dst_ptr + 1)) else Inr s)"
  by pat_completeness auto
termination
proof (relation "measure (\<lambda>(dir, page_end, dst, s). unat (page_end - dst))", goal_cases)
  case (2 dir page_end dst s)
  then have "page_end - dst \<noteq> 0"
    by auto
  then have "unat (page_end - dst - 1) < unat (page_end - dst)"
    by (rule measure_unat)
  then show ?case by (simp add: diff_diff_eq)
qed simp

declare copy_segment.simps [simp del] zero_segment.simps [simp del]

text \<open>At most six pages of the segment at \<^verbatim>\<open>0x200000\<close>, except for the program \<^verbatim>\<open>tpp\<close>.\<close>

definition program_segment_alloc_map_copy_workingset ::
    "elf \<Rightarrow> nat \<Rightarrow> segment \<Rightarrow> u32 \<Rightarrow> u32 \<times> loader \<Rightarrow> (u32 \<times> u32 \<times> loader) result" where
  "program_segment_alloc_map_copy_workingset im n sg remaining_ws_pages st =
     (let vaddr = seg_va sg;
          end_vaddr = ROUNDUP (vaddr + size_in_memory sg) PAGE_SIZE;
          iVA = ROUNDDOWN vaddr PAGE_SIZE;
          remaining = (if iVA = 0x200000 \<and> prog_name (snd st) n \<noteq> ''tpp''
                       then if remaining_ws_pages < 6 then remaining_ws_pages else 6
                       else remaining_ws_pages)
      in andthen (seg_pages n iVA end_vaddr 0 remaining st) (\<lambda>(allocated_pages, lastTableNumber, l).
         let page_end = iVA + allocated_pages * PAGE_SIZE in
         andthen (on_lvm (on_mem (\<lambda>m.
           andthen (copy_segment im (env_page_directory m n) page_end (vaddr + size_in_file sg) vaddr
                      (ptr_start sg) m) (\<lambda>(dst_ptr, m).
             zero_segment (env_page_directory m n) page_end dst_ptr m))) l) (\<lambda>l.
         Inr (allocated_pages, lastTableNumber, l))))"

section \<open>Writing a segment to the page file\<close>

definition TEMP_FRAME :: nat where "TEMP_FRAME = 2"

definition write_page_or_panic ::
    "nat \<Rightarrow> u32 \<Rightarrow> (kmem \<Rightarrow> ((nat \<Rightarrow> u8) \<times> kmem) result) \<Rightarrow> vm \<Rightarrow> vm result" where
  "write_page_or_panic n va src v =
     andthen (pf_add_env_page n va src v) (\<lambda>(r, v).
       if r = E_NO_PAGE_FILE_SPACE then Inl Panic else Inr v)"

text \<open>A page put together in the temporary page: \<open>cnt\<close> bytes at \<open>offset\<close>, zeros elsewhere.\<close>

definition page_part :: "elf \<Rightarrow> nat \<Rightarrow> nat \<Rightarrow> u32 \<Rightarrow> nat \<Rightarrow> u8" where
  "page_part im offset cnt src j =
     (if offset \<le> j \<and> j < offset + cnt then elf_byte im (src + of_nat (j - offset)) else 0)"

definition write_part :: "elf \<Rightarrow> nat \<Rightarrow> u32 \<Rightarrow> nat \<Rightarrow> nat \<Rightarrow> u32 \<Rightarrow> vm \<Rightarrow> vm result" where
  "write_part im n va offset cnt src v =
     (let data = (\<lambda>j. if j < 4096 then page_part im offset cnt src j else ram (vmem v) TEMP_FRAME j) in
      write_page_or_panic n va (kernel_page TEMP_FRAME)
        (set_mem v ((vmem v)\<lparr>ram := (ram (vmem v))(TEMP_FRAME := data)\<rparr>)))"

definition loop_bytes :: "u32 \<Rightarrow> u32 \<Rightarrow> nat" where
  "loop_bytes a b = (if a < b then unat (b - a) else 0)"

definition write_segment :: "elf \<Rightarrow> nat \<Rightarrow> segment \<Rightarrow> vm \<Rightarrow> vm result" where
  "write_segment im n sg v =
     (let sva = seg_va sg; src = ptr_start sg;
          start_first_page = ROUNDDOWN sva PAGE_SIZE;
          end_first_page = ROUNDUP sva PAGE_SIZE;
          start_last_page = ROUNDDOWN (sva + size_in_file sg) PAGE_SIZE;
          end_last_page = sva + size_in_file sg;
          start_remaining_area = ROUNDUP (sva + size_in_file sg) PAGE_SIZE;
          remainingLength = (sva + size_in_memory sg) - start_remaining_area;
          head = loop_bytes sva end_first_page;
          src1 = src + of_nat head;
          src2 = src1 + of_nat (loop_bytes end_first_page start_last_page)
      in andthen (write_part im n start_first_page (unat (sva - start_first_page)) head src v) (\<lambda>v.
         andthen (for_pages end_first_page start_last_page
           (\<lambda>i. write_page_or_panic n i
              (\<lambda>s. Inr (\<lambda>j. elf_byte im (src1 + (i - end_first_page) + of_nat j), s))) v) (\<lambda>v.
         andthen (write_part im n start_last_page 0 (loop_bytes start_last_page end_last_page) src2 v)
           (for_pages 0 (ROUNDUP remainingLength PAGE_SIZE) (\<lambda>i v.
              andthen (pf_add_empty_env_page n (start_remaining_area + i) 1 v) (\<lambda>(r, v).
                if r = E_NO_PAGE_FILE_SPACE then Inl Panic else Inr v))))))"

section \<open>Creating an environment\<close>

definition load_segment ::
    "elf \<Rightarrow> nat \<Rightarrow> segment \<Rightarrow> u32 \<times> u32 \<times> loader \<Rightarrow> (u32 \<times> u32 \<times> loader) result" where
  "load_segment im n sg st =
     (let (remaining_ws_pages, lastTableNumber, l) = st in
      andthen (program_segment_alloc_map_copy_workingset im n sg remaining_ws_pages (lastTableNumber, l))
        (\<lambda>(allocated_pages, lastTableNumber, l).
      andthen (on_lvm (write_segment im n sg) l) (\<lambda>l.
        Inr (remaining_ws_pages - allocated_pages, lastTableNumber, l))))"

function load_segments ::
    "elf \<Rightarrow> nat \<Rightarrow> nat \<Rightarrow> u32 \<times> u32 \<times> loader \<Rightarrow> (u32 \<times> u32 \<times> loader) result" where
  "load_segments im n i st =
     (if seg_scan im i < unat (e_phnum im)
      then andthen (load_segment im n (segment_at im (seg_scan im i)) st) (load_segments im n (Suc (seg_scan im i)))
      else Inr st)"
  by pat_completeness auto

lemma seg_scan_ge: "i \<le> seg_scan im i"
proof (induction im i rule: seg_scan.induct)
  case (1 im i)
  then show ?case
    by (subst seg_scan.simps) (auto dest: Suc_leD)
qed

termination load_segments
proof (relation "measure (\<lambda>(im, n, i, st). unat (e_phnum im) - i)", goal_cases)
  case (2 im n i st)
  then show ?case
    using seg_scan_ge [of i im] by simp
qed simp

declare load_segments.simps [simp del]

definition clear_modified :: "nat \<Rightarrow> nat \<Rightarrow> vm \<Rightarrow> vm result" where
  "clear_modified n i v =
     (if length (ptr_pageWorkingSet (venv v n)) \<le> i then Inl Out_Of_Bounds
      else
        (let w = ptr_pageWorkingSet (venv v n) ! i in
         if ws_empty w = 0 then
           on_mem (\<lambda>m. andthen (get_page_table (env_page_directory m n) (ws_va w) m) (\<lambda>(_, p).
             andthen (table_read p (PTX (ws_va w)) m) (\<lambda>x.
               table_write p (PTX (ws_va w)) (x AND NOT PERM_MODIFIED) m))) v
         else Inr v))"

definition load_stack_page :: "nat \<Rightarrow> loader \<Rightarrow> loader result" where
  "load_stack_page n l =
     (let stackVa = USTACKTOP - PAGE_SIZE in
      andthen (on_lvm (on_mem (\<lambda>m.
        andthen (allocate_frame m) (\<lambda>(f, m).
        andthen (loadtime_map_frame (env_page_directory m n) f stackVa (PERM_USER OR PERM_WRITEABLE) m) (\<lambda>m.
          store_page (env_page_directory m n) stackVa 4096 (\<lambda>_. 0) m)))) l) (\<lambda>l.
      andthen (on_lvm (on_env_res n
        (\<lambda>e. env_page_ws_set_entry (page_last_WS_index e) stackVa e)) l) (\<lambda>l.
      andthen (if lru_lists_on l
               then on_lists n (\<lambda>x. list_page (ActiveListSize x) (unat (page_last_WS_index (lenv l n))) x) l
               else Inr l) (\<lambda>l.
      andthen (on_lvm (on_env_res n (\<lambda>e. Inr (next_ws_index e))) l) (\<lambda>l.
        on_lvm (\<lambda>v. andthen (pf_add_empty_env_page n stackVa 1 v) (\<lambda>(_, v). Inr v)) l)))))"

definition hide_second :: "nat \<Rightarrow> nat \<Rightarrow> vm \<Rightarrow> vm result" where
  "hide_second n i v =
     on_mem (\<lambda>m. pt_set_page_permissions (env_page_directory m n) (ws_va (ptr_pageWorkingSet (venv v n) ! i))
       0 PERM_PRESENT m) v"

definition GD_UT :: u16 where "GD_UT = 0x18"
definition GD_UD :: u16 where "GD_UD = 0x20"

text \<open>The registers that \<^verbatim>\<open>complete_environment_initialization\<close> sets.\<close>

definition initial_frame :: trapframe where
  "initial_frame = \<lparr>reg_edi = 0, reg_esi = 0, reg_ebp = 0, reg_oesp = 0, reg_ebx = 0, reg_edx = 0,
     reg_ecx = 0, reg_eax = 0, tf_es = GD_UD OR 3, tf_ds = GD_UD OR 3, tf_trapno = 0, tf_err = 0,
     tf_eip = 0, tf_cs = GD_UT OR 3, frame_eflags = FL_IF, tf_esp = USTACKTOP, tf_ss = GD_UD OR 3\<rparr>"

definition set_frame :: "nat \<Rightarrow> trapframe \<Rightarrow> loader \<Rightarrow> loader" where
  "set_frame n tf l = l\<lparr>lmach := save_frame n tf (lmach l)\<rparr>"

definition set_environment_entry_point :: "elf \<Rightarrow> nat \<Rightarrow> loader \<Rightarrow> loader result" where
  "set_environment_entry_point im n l =
     (if e_magic im \<noteq> ELF_MAGIC then Inl Panic
      else Inr (set_frame n ((saved_frame (lmach l) n)\<lparr>tf_eip := e_entry im\<rparr>) l))"

definition PROGNAMELEN :: nat where "PROGNAMELEN = 64"
definition DEFAULT_PERCENT_OF_PAGE_WS_TO_REMOVE :: u32 where
  "DEFAULT_PERCENT_OF_PAGE_WS_TO_REMOVE = 10"

definition get_user_program_info :: "string \<Rightarrow> (string \<times> elf) list \<Rightarrow> (string \<times> elf) option" where
  "get_user_program_info user_program_name progs = List.find (\<lambda>p. fst p = user_program_name) progs"

text \<open>Name, sizes and the list of working set entries, before the directory is initialised.\<close>

definition prepare_env :: "nat \<Rightarrow> string \<Rightarrow> u32 \<Rightarrow> u32 \<Rightarrow> u32 \<Rightarrow> loader \<Rightarrow> loader" where
  "prepare_env n name page_WS_size LRU_second_list_size percent l =
     (let l = l\<lparr>prog_name := (prog_name l)(n := if length name < PROGNAMELEN then name
                                            else take (PROGNAMELEN - 1) name)\<rparr>;
          l = put_lvm (on_env n (\<lambda>e. e\<lparr>page_WS_max_size := page_WS_size\<rparr>) (lvm l)) l;
          l = (if lru_lists_on l
               then l\<lparr>ws_lists := (ws_lists l)(n := (ws_lists l n)\<lparr>SecondListSize := LRU_second_list_size,
                      ActiveListSize := page_WS_size - LRU_second_list_size,
                      PageWorkingSetList := rev [0..<unat page_WS_size] @ PageWorkingSetList (ws_lists l n)\<rparr>)\<rparr>
               else l)
      in l\<lparr>percentage_of_WS_pages_to_be_removed := (percentage_of_WS_pages_to_be_removed l)(n :=
             if percent = 0 then DEFAULT_PERCENT_OF_PAGE_WS_TO_REMOVE else percent)\<rparr>)"

definition on_etab :: "(etab \<Rightarrow> etab result) \<Rightarrow> loader \<Rightarrow> loader result" where
  "on_etab f l = andthen (f (ketab (mkernel (lmach l)))) (\<lambda>t. Inr (on_kernel (\<lambda>k. k\<lparr>ketab := t\<rparr>) l))"

definition load_program :: "elf \<Rightarrow> nat \<Rightarrow> loader \<Rightarrow> loader result" where
  "load_program im n l =
     andthen (PROGRAM_SEGMENT_FIRST im) (\<lambda>_.
     andthen (load_segments im n 0 (page_WS_max_size (lenv l n) - 1, 0xFFFFFFFF, l)) (\<lambda>(_, _, l).
     andthen (on_lvm (\<lambda>v. for_each (clear_modified n) [0..<unat (page_WS_max_size (venv v n))] v) l) (\<lambda>l.
     andthen (set_environment_entry_point im n l) (\<lambda>l.
     andthen (on_lvm (on_env_res n (\<lambda>e. Inr (e\<lparr>initNumStackPages := 1\<rparr>))) l) (\<lambda>l.
     andthen (load_stack_page n l) (\<lambda>l.
       if lru_lists_on l
       then on_lvm (\<lambda>v. for_each (hide_second n) (SecondList (ws_lists l n)) v) l
       else Inr l))))))"

definition env_create ::
    "(string \<times> elf) list \<Rightarrow> string \<Rightarrow> u32 \<Rightarrow> u32 \<Rightarrow> u32 \<Rightarrow> loader \<Rightarrow> (nat option \<times> loader) result" where
  "env_create progs user_program_name page_WS_size LRU_second_list_size percent l =
     (case get_user_program_info user_program_name progs of
        None \<Rightarrow> Inr (None, l)
      | Some (name, im) \<Rightarrow>
          (let (r, eo, t) = allocate_environment (ketab (mkernel (lmach l))) in
           case eo of
             None \<Rightarrow> Inr (None, l)
           | Some n \<Rightarrow>
               (let l = on_kernel (\<lambda>k. k\<lparr>ketab := t\<rparr>) l;
                    l = prepare_env n name page_WS_size LRU_second_list_size percent l
                in andthen (create_user_directory (vmem (lvm l))) (\<lambda>(dir, m).
                   andthen (kheap_physical_address dir m) (\<lambda>pa.
                   andthen (on_etab (initialize_environment n dir pa) (put_lvm (set_mem (lvm l) m) l)) (\<lambda>l.
                   andthen (load_program im n (set_frame n initial_frame l)) (\<lambda>l.
                     Inr (Some n, l))))))))"

definition sys_create_env ::
    "(string \<times> elf) list \<Rightarrow> string \<Rightarrow> u32 \<Rightarrow> u32 \<Rightarrow> u32 \<Rightarrow> loader \<Rightarrow> (int \<times> loader) result" where
  "sys_create_env progs programName page_WS_size LRU_second_list_size percent l =
     andthen (env_create progs programName page_WS_size LRU_second_list_size percent l) (\<lambda>(eo, l).
       case eo of
         None \<Rightarrow> Inr (E_ENV_CREATION_ERROR, l)
       | Some n \<Rightarrow>
           andthen (sched_new_env (Some n) (ksched (mkernel (lmach l)))) (\<lambda>s.
             Inr (sint (env_id (lenv l n)), on_kernel (put_sched s) l)))"

section \<open>The segments that are loaded\<close>

definition is_load :: "elf \<Rightarrow> nat \<Rightarrow> bool" where
  "is_load im i \<longleftrightarrow> p_type (elf_ph im i) = ELF_PROG_LOAD"

lemma seg_scan_filter:
  "filter (is_load im) [i..<unat (e_phnum im)] =
     (if seg_scan im i < unat (e_phnum im)
      then seg_scan im i # filter (is_load im) [Suc (seg_scan im i)..<unat (e_phnum im)] else [])"
proof (induction im i rule: seg_scan.induct)
  case (1 im i)
  show ?case
  proof (cases "p_type (elf_ph im i) \<noteq> ELF_PROG_LOAD \<and> i < unat (e_phnum im)")
    case True
    have "seg_scan im i = seg_scan im (Suc i)"
      using True by (subst seg_scan.simps) simp
    moreover have "filter (is_load im) [i..<unat (e_phnum im)] = filter (is_load im) [Suc i..<unat (e_phnum im)]"
      using True by (simp add: upt_conv_Cons is_load_def)
    ultimately show ?thesis
      using 1 [OF True] by simp
  next
    case False
    have "seg_scan im i = i"
      using False by (subst seg_scan.simps) auto
    then show ?thesis
      using False by (auto simp: upt_conv_Cons is_load_def)
  qed
qed

lemma load_segments_filter:
  "load_segments im n i st =
     for_each (\<lambda>i. load_segment im n (segment_at im i)) (filter (is_load im) [i..<unat (e_phnum im)]) st"
proof (induction im n i st rule: load_segments.induct)
  case (1 im n i st)
  show ?case
  proof (cases "seg_scan im i < unat (e_phnum im)")
    case True
    have "load_segments im n i st = andthen (load_segment im n (segment_at im (seg_scan im i)) st)
        (load_segments im n (Suc (seg_scan im i)))"
      using True by (subst load_segments.simps) simp
    also have "\<dots> = andthen (load_segment im n (segment_at im (seg_scan im i)) st)
        (for_each (\<lambda>i. load_segment im n (segment_at im i))
          (filter (is_load im) [Suc (seg_scan im i)..<unat (e_phnum im)]))"
      using 1 [OF True] by (rule andthen_cong [OF refl])
    finally show ?thesis
      using True by (simp add: seg_scan_filter [of im i])
  next
    case False
    then show ?thesis
      by (subst load_segments.simps) (simp add: seg_scan_filter [of im i])
  qed
qed

section \<open>Room in the working set\<close>

lemma seg_pages_bound:
  assumes "seg_pages n iVA end_vaddr i remaining st = Inr (k, st')" and "i \<le> remaining"
  shows "k \<le> remaining"
  using assms
proof (induction n iVA end_vaddr i remaining st rule: seg_pages.induct)
  case (1 n iVA end_vaddr i remaining st)
  show ?case
  proof (cases "iVA < end_vaddr \<and> i < remaining")
    case True
    then obtain st1 where "seg_page n iVA st = Inr st1"
      and "seg_pages n (iVA + PAGE_SIZE) end_vaddr (i + 1) remaining st1 = Inr (k, st')"
      using 1(2) by (subst (asm) seg_pages.simps) auto
    moreover have "i + 1 \<le> remaining"
      using True by (simp add: inc_le)
    ultimately show ?thesis
      using 1(1) [OF True] by blast
  next
    case False
    then show ?thesis
      using 1(2,3) by (subst (asm) seg_pages.simps) auto
  qed
qed

lemma alloc_room:
  assumes "program_segment_alloc_map_copy_workingset im n sg rem st = Inr (k, lt', l')"
  shows "k \<le> rem"
proof -
  let ?r = "if ROUNDDOWN (seg_va sg) PAGE_SIZE = 0x200000 \<and> prog_name (snd st) n \<noteq> ''tpp''
    then if rem < 6 then rem else 6 else rem"
  obtain st' where "seg_pages n (ROUNDDOWN (seg_va sg) PAGE_SIZE)
      (ROUNDUP (seg_va sg + size_in_memory sg) PAGE_SIZE) 0 ?r st = Inr (k, st')"
    using assms by (auto simp: program_segment_alloc_map_copy_workingset_def Let_def)
  then have "k \<le> ?r"
    by (rule seg_pages_bound) simp
  also have "?r \<le> rem"
    by (auto simp: not_less)
  finally show ?thesis .
qed

lemma load_segment_room:
  assumes "load_segment im n sg (rem, lt, l) = Inr (rem', lt', l')"
  shows "rem' \<le> rem"
proof -
  obtain k lt1 l1 where "program_segment_alloc_map_copy_workingset im n sg rem (lt, l) = Inr (k, lt1, l1)"
    and "rem' = rem - k"
    using assms by (auto simp: load_segment_def)
  moreover from this(1) have "k \<le> rem"
    by (rule alloc_room)
  ultimately show ?thesis
    by (simp add: word_sub_le)
qed

lemma load_segments_room:
  assumes "for_each (\<lambda>i. load_segment im n (segment_at im i)) is (rem, lt, l) = Inr (rem', lt', l')"
  shows "rem' \<le> rem"
  using assms
proof (induction "is" arbitrary: rem lt l)
  case (Cons i "is")
  then obtain r1 t1 l1 where r1: "load_segment im n (segment_at im i) (rem, lt, l) = Inr (r1, t1, l1)"
    and rest: "for_each (\<lambda>i. load_segment im n (segment_at im i)) is (r1, t1, l1) = Inr (rem', lt', l')"
    by auto
  show ?case
    using Cons.IH [OF rest] load_segment_room [OF r1] by (rule order_trans)
qed simp

section \<open>The frame of a new program\<close>

definition lframe :: "loader \<Rightarrow> nat \<Rightarrow> trapframe" where
  "lframe l = saved_frame (lmach l)"

lemma lframe_put [simp]:
  "lframe (put_lvm v l) = lframe l"
  "lframe (l\<lparr>ws_lists := w\<rparr>) = lframe l"
  "lframe (l\<lparr>prog_name := p\<rparr>) = lframe l"
  "lframe (l\<lparr>percentage_of_WS_pages_to_be_removed := q\<rparr>) = lframe l"
  "lframe (on_kernel (\<lambda>k. k\<lparr>ketab := t\<rparr>) l) = lframe l"
  "lframe (set_frame n tf l) = (lframe l)(n := tf)"
  by (auto simp: lframe_def saved_frame_def put_lvm_def on_kernel_def put_kvm_def put_sched_def
      set_frame_def save_frame_def fun_eq_iff)

lemma lframe_on:
  "on_lvm f l = Inr l' \<Longrightarrow> lframe l' = lframe l"
  "on_lists n g l = Inr l' \<Longrightarrow> lframe l' = lframe l"
  "on_etab h l = Inr l' \<Longrightarrow> lframe l' = lframe l"
  by (auto simp: on_lvm_def on_lists_def on_etab_def)

lemma lframe_prepare [simp]: "lframe (prepare_env n name a b c l) = lframe l"
  by (simp add: prepare_env_def Let_def)

lemma lframe_seg_page: "seg_page n i (lt, l) = Inr (lt', l') \<Longrightarrow> lframe l' = lframe l"
  by (auto simp: seg_page_def dest!: lframe_on split: if_splits)

lemma lframe_seg_pages:
  assumes "seg_pages n iVA end_vaddr i remaining (lt, l) = Inr (k, lt', l')"
  shows "lframe l' = lframe l"
  using assms
proof (induction n iVA end_vaddr i remaining "(lt, l)" arbitrary: lt l rule: seg_pages.induct)
  case (1 n iVA end_vaddr i remaining lt l)
  show ?case
  proof (cases "iVA < end_vaddr \<and> i < remaining")
    case True
    then obtain t1 l1 where s1: "seg_page n iVA (lt, l) = Inr (t1, l1)"
      and rest: "seg_pages n (iVA + PAGE_SIZE) end_vaddr (i + 1) remaining (t1, l1) = Inr (k, lt', l')"
      using 1(2) by (subst (asm) seg_pages.simps) auto
    show ?thesis
      using 1(1) [OF True s1 rest] lframe_seg_page [OF s1] by simp
  next
    case False
    then show ?thesis
      using 1(2) by (subst (asm) seg_pages.simps) auto
  qed
qed

lemma lframe_load_segment:
  assumes "load_segment im n sg (rem, lt, l) = Inr (rem', lt', l')"
  shows "lframe l' = lframe l"
proof -
  obtain k lt1 l1 where a: "program_segment_alloc_map_copy_workingset im n sg rem (lt, l) = Inr (k, lt1, l1)"
    and w: "on_lvm (write_segment im n sg) l1 = Inr l'"
    using assms by (auto simp: load_segment_def)
  obtain i t2 l2 f where p: "seg_pages n (ROUNDDOWN (seg_va sg) PAGE_SIZE)
      (ROUNDUP (seg_va sg + size_in_memory sg) PAGE_SIZE) 0 i (lt, l) = Inr (k, t2, l2)"
    and o: "on_lvm f l2 = Inr l1"
    using a by (fastforce simp: program_segment_alloc_map_copy_workingset_def Let_def)
  show ?thesis
    using lframe_seg_pages [OF p] lframe_on(1) [OF o] lframe_on(1) [OF w] by simp
qed

lemma lframe_load_segments:
  assumes "for_each (\<lambda>i. load_segment im n (segment_at im i)) is (rem, lt, l) = Inr (rem', lt', l')"
  shows "lframe l' = lframe l"
  using assms
proof (induction "is" arbitrary: rem lt l)
  case (Cons i "is")
  then obtain r1 t1 l1 where r1: "load_segment im n (segment_at im i) (rem, lt, l) = Inr (r1, t1, l1)"
    and rest: "for_each (\<lambda>i. load_segment im n (segment_at im i)) is (r1, t1, l1) = Inr (rem', lt', l')"
    by auto
  show ?case
    using Cons.IH [OF rest] lframe_load_segment [OF r1] by simp
qed simp

lemma lframe_stack: "load_stack_page n l = Inr l' \<Longrightarrow> lframe l' = lframe l"
  by (auto simp: load_stack_page_def Let_def dest!: lframe_on split: if_splits)

lemma lframe_load_program:
  assumes "load_program im n l = Inr l'"
  shows "e_magic im = ELF_MAGIC" and "lframe l' = (lframe l)(n := (lframe l n)\<lparr>tf_eip := e_entry im\<rparr>)"
proof -
  obtain r t l1 l2 l3 l4 l5 f g where first: "PROGRAM_SEGMENT_FIRST im = Inr f"
    and seg: "load_segments im n 0 (page_WS_max_size (lenv l n) - 1, 0xFFFFFFFF, l) = Inr (r, t, l1)"
    and rest: "on_lvm (\<lambda>v. for_each (clear_modified n) [0..<unat (page_WS_max_size (venv v n))] v) l1 = Inr l2"
      "set_environment_entry_point im n l2 = Inr l3"
      "on_lvm (on_env_res n (\<lambda>e. Inr (e\<lparr>initNumStackPages := 1\<rparr>))) l3 = Inr l4"
      "load_stack_page n l4 = Inr l5"
      "(if lru_lists_on l5 then on_lvm (\<lambda>v. for_each (hide_second n) (SecondList (ws_lists l5 n)) v) l5
        else Inr l5) = Inr l'"
    using assms by (auto simp: load_program_def)
  show "e_magic im = ELF_MAGIC"
    using first by (auto simp: PROGRAM_SEGMENT_FIRST_def program_segment_def split: if_splits)
  have "lframe l1 = lframe l"
    using lframe_load_segments seg by (simp add: load_segments_filter)
  moreover have "lframe l3 = (lframe l2)(n := (lframe l2 n)\<lparr>tf_eip := e_entry im\<rparr>)"
    using rest(2) by (auto simp: set_environment_entry_point_def lframe_def [symmetric] split: if_splits)
  moreover have "lframe l' = lframe l5"
    using rest(5) by (auto dest: lframe_on split: if_splits)
  ultimately show "lframe l' = (lframe l)(n := (lframe l n)\<lparr>tf_eip := e_entry im\<rparr>)"
    using lframe_on(1) [OF rest(1)] lframe_on(1) [OF rest(3)] lframe_stack [OF rest(4)] by simp
qed

lemma lframe_create:
  assumes "env_create progs name wss lru pct l = Inr (Some n, l')"
  shows "\<exists>nm im. get_user_program_info name progs = Some (nm, im) \<and> e_magic im = ELF_MAGIC \<and>
           lframe l' = (lframe l)(n := initial_frame\<lparr>tf_eip := e_entry im\<rparr>)"
proof -
  obtain nm im where info: "get_user_program_info name progs = Some (nm, im)"
    using assms by (auto simp: env_create_def split: option.splits)
  obtain r t where al: "allocate_environment (ketab (mkernel (lmach l))) = (r, Some n, t)"
    using assms by (auto simp: env_create_def info Let_def split: option.splits prod.splits)
  obtain dir m pa l1 where i: "on_etab (initialize_environment n dir pa) (put_lvm (set_mem (lvm
        (prepare_env n nm wss lru pct (on_kernel (\<lambda>k. k\<lparr>ketab := t\<rparr>) l))) m)
        (prepare_env n nm wss lru pct (on_kernel (\<lambda>k. k\<lparr>ketab := t\<rparr>) l))) = Inr l1"
    and ld: "load_program im n (set_frame n initial_frame l1) = Inr l'"
    using assms by (auto simp: env_create_def info al Let_def)
  note f = lframe_load_program [OF ld]
  have "lframe l1 = lframe l"
    using lframe_on(3) [OF i] by simp
  then show ?thesis
    using info f by simp
qed

section \<open>Segments within one page\<close>

lemma page_split: "\<exists>q r. (x :: nat) = 4096 * q + r \<and> r < 4096 \<and> x div 4096 = q \<and> x mod 4096 = r"
  by (intro exI [of _ "x div 4096"] exI [of _ "x mod 4096"]) simp

lemma div_next:
  assumes "x mod 4096 \<noteq> (0 :: nat)"
  shows "(x + 4095) div 4096 = x div 4096 + 1"
proof -
  obtain q r where x: "x = 4096 * q + r" "r < 4096" "x div 4096 = q" "x mod 4096 = r"
    using page_split by blast
  show ?thesis
    unfolding x(3) by (rule div_nat_eqI) (use x(1,2,4) assms in simp_all)
qed

lemma div_same:
  assumes "x mod 4096 + k < (4096 :: nat)"
  shows "(x + k) div 4096 = x div 4096" and "(x + k) mod 4096 = x mod 4096 + k"
proof -
  obtain q r where x: "x = 4096 * q + r" "r < 4096" "x div 4096 = q" "x mod 4096 = r"
    using page_split by blast
  have k: "r + k < 4096"
    using assms x(4) by simp
  show d: "(x + k) div 4096 = x div 4096"
    unfolding x(3) by (rule div_nat_eqI) (use x(1) k in simp_all)
  have "x + k = 4096 * q + (x + k) mod 4096"
    using mult_div_mod_eq [of 4096 "x + k"] d x(3) by simp
  then show "(x + k) mod 4096 = x mod 4096 + k"
    using x(1,4) by simp
qed

lemma dvd_below: "q * 4096 < 4294963200 \<Longrightarrow> q * 4096 + 4096 \<le> (4294963200 :: nat)"
proof -
  assume "q * 4096 < (4294963200 :: nat)"
  then have "q < 1048575"
    by linarith
  then show ?thesis
    by linarith
qed

lemma one_page:
  assumes "unat a mod 4096 \<noteq> 0" and "a < 0xFFFFF000"
  shows "unat (ROUNDUP a PAGE_SIZE) = unat a div 4096 * 4096 + 4096"
    and "ROUNDUP a PAGE_SIZE = ROUNDDOWN a PAGE_SIZE + PAGE_SIZE"
proof -
  have lt: "unat a < 4294963200"
    using assms(2) by (simp add: word_less_nat_alt)
  have "(unat a + 4095) div 4096 = unat a div 4096 + 1"
    by (rule div_next [OF assms(1)])
  then show up: "unat (ROUNDUP a PAGE_SIZE) = unat a div 4096 * 4096 + 4096"
    using lt by (subst ROUNDUP_unat) simp_all
  have "unat (ROUNDDOWN a PAGE_SIZE) = unat a div 4096 * 4096"
    by (simp add: ROUNDDOWN_unat)
  moreover have "unat a div 4096 * 4096 + 4096 < 4294967296"
    using lt by linarith
  ultimately have "unat (ROUNDDOWN a PAGE_SIZE + PAGE_SIZE) = unat a div 4096 * 4096 + 4096"
    by (subst unat_add_u32) simp_all
  then show "ROUNDUP a PAGE_SIZE = ROUNDDOWN a PAGE_SIZE + PAGE_SIZE"
    using up by (simp only: u32_eq_iff)
qed

lemma within_page:
  assumes "unat a mod 4096 \<noteq> 0" and "a < 0xFFFFF000" and "unat a mod 4096 + unat k < 4096"
  shows "ROUNDDOWN (a + k) PAGE_SIZE = ROUNDDOWN a PAGE_SIZE"
    and "ROUNDUP (a + k) PAGE_SIZE = ROUNDDOWN a PAGE_SIZE + PAGE_SIZE"
    and "unat (a + k) = unat a + unat k" and "ROUNDDOWN a PAGE_SIZE < a + k"
    and "ROUNDUP (a + k - (ROUNDDOWN a PAGE_SIZE + PAGE_SIZE)) PAGE_SIZE = 0"
proof -
  have lt: "unat a < 4294963200"
    using assms(2) by (simp add: word_less_nat_alt)
  have am: "unat a = unat a div 4096 * 4096 + unat a mod 4096"
    by simp
  have k: "unat a + unat k < 4294967296"
    using lt assms(3) by linarith
  then show ak: "unat (a + k) = unat a + unat k"
    by (rule unat_add_u32)
  have dv: "(unat a + unat k) div 4096 = unat a div 4096" and md: "(unat a + unat k) mod 4096 \<noteq> 0"
    using div_same [OF assms(3)] assms(1) by simp_all
  show down: "ROUNDDOWN (a + k) PAGE_SIZE = ROUNDDOWN a PAGE_SIZE"
    by (simp add: u32_eq_iff ROUNDDOWN_unat ak dv)
  have top: "a + k < 0xFFFFF000"
  proof -
    have "unat a div 4096 * 4096 + unat a mod 4096 + unat k < 4294963200"
      using lt am assms(3) dvd_below [of "unat a div 4096"] by linarith
    then show ?thesis
      using am by (simp add: word_less_nat_alt ak)
  qed
  show "ROUNDUP (a + k) PAGE_SIZE = ROUNDDOWN a PAGE_SIZE + PAGE_SIZE"
    using one_page(2) [of "a + k"] md top down by (simp add: ak)
  show "ROUNDDOWN a PAGE_SIZE < a + k"
  proof -
    have "unat a div 4096 * 4096 < unat a div 4096 * 4096 + unat a mod 4096 + unat k"
      using assms(1) by linarith
    then show ?thesis
      using am by (simp add: word_less_nat_alt ROUNDDOWN_unat ak)
  qed
  let ?e = "ROUNDDOWN a PAGE_SIZE + PAGE_SIZE"
  have e: "unat ?e = unat a div 4096 * 4096 + 4096"
    using one_page [OF assms(1,2)] by simp
  have "unat (a + k - ?e) > 4294963200"
  proof -
    obtain q r where x: "unat a = 4096 * q + r" "unat a div 4096 = q" "unat a mod 4096 = r"
      using page_split [of "unat a"] by blast
    have "unat (a + k) = 4096 * q + r + unat k"
      using ak unfolding x(1) by simp
    moreover have "unat ?e = q * 4096 + 4096"
      using e unfolding x(2) by simp
    moreover have "r + unat k < 4096" "0 < r"
      using assms(1,3) unfolding x(3) by simp_all
    ultimately show ?thesis
      by (simp add: unat_sub_if')
  qed
  then show "ROUNDUP (a + k - ?e) PAGE_SIZE = 0"
    by (rule ROUNDUP_wraps)
qed

lemma write_one_page:
  assumes "unat (seg_va sg) mod 4096 \<noteq> 0" and "seg_va sg < 0xFFFFF000"
    and "unat (seg_va sg) mod 4096 + unat (size_in_file sg) < 4096"
    and "unat (seg_va sg) mod 4096 + unat (size_in_memory sg) < 4096"
  shows "write_segment im n sg v =
    (let page = ROUNDDOWN (seg_va sg) PAGE_SIZE; off = unat (seg_va sg) mod 4096
     in andthen (write_part im n page off (4096 - off) (ptr_start sg) v)
          (write_part im n page 0 (off + unat (size_in_file sg)) (ptr_start sg + of_nat (4096 - off))))"
proof -
  note f = within_page [OF assms(1-3)] and m = within_page [OF assms(1,2,4)] and p = one_page [OF assms(1,2)]
  let ?a = "seg_va sg" and ?P = "ROUNDDOWN (seg_va sg) PAGE_SIZE"
  have off: "unat (?a - ?P) = unat ?a mod 4096"
    using ROUNDDOWN_le [of ?a PAGE_SIZE] by (simp add: unat_sub_u32 ROUNDDOWN_unat minus_div_mult_eq_mod)
  have am: "unat ?a = unat ?a div 4096 * 4096 + unat ?a mod 4096"
    by simp
  have lt: "?a < ?P + PAGE_SIZE"
    using p am by (simp add: word_less_nat_alt)
  have "unat (?P + PAGE_SIZE - ?a) = 4096 - unat ?a mod 4096"
  proof -
    obtain q r where x: "unat ?a = 4096 * q + r" "unat ?a div 4096 = q" "unat ?a mod 4096 = r"
      using page_split [of "unat ?a"] by blast
    have "unat (?P + PAGE_SIZE) = q * 4096 + 4096"
      using p(1) unfolding p(2) x(2) by simp
    then show ?thesis
      using lt unfolding x(3) by (subst unat_sub_u32) (simp_all add: x(1))
  qed
  then have head: "loop_bytes ?a (?P + PAGE_SIZE) = 4096 - unat ?a mod 4096"
    using lt by (simp add: loop_bytes_def)
  have ge: "\<not> ?P + PAGE_SIZE < ?P"
    using p am by (simp add: word_less_nat_alt ROUNDDOWN_unat)
  then have mid: "loop_bytes (?P + PAGE_SIZE) ?P = 0"
    by (simp add: loop_bytes_def)
  have "unat (?a + size_in_file sg - ?P) = unat ?a mod 4096 + unat (size_in_file sg)"
  proof -
    have "unat (?a + size_in_file sg - ?P) =
        unat ?a + unat (size_in_file sg) - unat ?a div 4096 * 4096"
      using f(3,4) by (subst unat_sub_u32) (simp_all add: ROUNDDOWN_unat)
    then show ?thesis
      using div_mult_mod_eq [of "unat ?a" 4096] by linarith
  qed
  then have last: "loop_bytes ?P (?a + size_in_file sg) = unat ?a mod 4096 + unat (size_in_file sg)"
    using f(4) by (simp add: loop_bytes_def)
  have stop: "for_pages 0 0 body = Inr" for body :: "u32 \<Rightarrow> vm \<Rightarrow> vm result"
    by (rule ext) (simp add: for_pages.simps)
  have done_ok: "andthen x Inr = x" for x :: "vm result"
    by (cases x) simp_all
  show ?thesis
    unfolding write_segment_def Let_def
    by (simp add: f(1,2) m(5) p(2) off head mid last for_pages.simps [of "?P + PAGE_SIZE"] ge
        stop done_ok)
qed

section \<open>The stack page\<close>

lemma lvm_simps [simp]:
  "lvm (put_lvm v l) = v" "lru_lists_on (put_lvm v l) = lru_lists_on l"
  "lvm (set_frame n tf l) = lvm l" "lru_lists_on (set_frame n tf l) = lru_lists_on l"
  "put_lvm v (put_lvm w l) = put_lvm v l"
  by (simp_all add: lvm_def put_lvm_def on_kernel_def kvm_def put_kvm_def put_sched_def ksched_def
      lru_lists_on_def set_frame_def save_frame_def)

definition stackVa :: u32 where "stackVa = USTACKTOP - PAGE_SIZE"

lemma loadtime_map_frame_at:
  assumes "table_at dir va q s"
  shows "loadtime_map_frame dir f va perm s =
    Inr (set_entry q (PTX va) (mapped_entry f perm) (s\<lparr>references := (references s)(f := references s f + 1)\<rparr>))"
proof -
  have "get_page_table dir va s = Inr (TABLE_IN_MEMORY, q)" "q \<noteq> 0"
    using assms by (simp_all add: table_at_def)
  moreover have "PERM_PRESENT \<noteq> 0"
    by (simp add: PERM_PRESENT_def)
  ultimately have "table_read dir (PDX va) s = Inr (tables s dir (PDX va))" "tables s dir (PDX va) \<noteq> 0"
    "table_address va (tables s dir (PDX va)) s = Inr q"
    by (auto simp: get_page_table_def table_read_def split: if_splits)
  then show ?thesis
    using \<open>q \<noteq> 0\<close> by (simp add: loadtime_map_frame_def loadtime_map_frame_with_def Let_def mapped_entry_def
        table_write_def)
qed

text \<open>
  The page directory has a table \<open>q\<close> for the stack page (a new one has none, and mapping the page creates
  it): it is in memory with an empty entry, and its disk table \<open>p\<close> too; frame
  \<open>f\<close> and disk frame \<open>df\<close> come first in their free lists, and the working set has a place at its hand.
\<close>

definition stack_ready :: "nat \<Rightarrow> u32 \<Rightarrow> nat \<Rightarrow> nat list \<Rightarrow> u32 \<Rightarrow> nat \<Rightarrow> nat list \<Rightarrow> vm \<Rightarrow> bool" where
  "stack_ready n q f fl p df dfl v \<longleftrightarrow>
     place_ready n stackVa q f fl v \<and> disk_table_at n stackVa p v \<and> disk_apart n stackVa q f v \<and>
     p \<noteq> q \<and> tables (vmem v) p (PTX stackVa) = 0 \<and> f \<noteq> 1 \<and>
     disk_free_frame_list (vdisk v) = df # dfl \<and> disk_wf (vdisk v) \<and> disk_stop (vdisk v) = None \<and>
     initNumStackPages (venv v n) = 1"

definition stack_env :: "env \<Rightarrow> env" where
  "stack_env e = next_ws_index (e\<lparr>ptr_pageWorkingSet := (ptr_pageWorkingSet e)[unat (page_last_WS_index e) :=
     (ptr_pageWorkingSet e ! unat (page_last_WS_index e))\<lparr>ws_va := stackVa, ws_empty := 0,
        ws_time_stamp := 0x80000000\<rparr>]\<rparr>)"

lemma store_page_at:
  assumes "table_at dir va q t" and "tables t q (PTX va) AND PERM_PRESENT = PERM_PRESENT" and "c \<noteq> 0"
  shows "store_page dir va c data t = Inr (set_entry q (PTX va)
     (tables t q (PTX va) OR (PERM_USED OR PERM_MODIFIED))
     (t\<lparr>ram := (ram t)(unat (PPN (tables t q (PTX va))) :=
        (\<lambda>j. if j < c then data j else ram t (unat (PPN (tables t q (PTX va)))) j))\<rparr>))"
  using assms by (simp add: store_page_def page_frame_at touch_at)

definition stack_entry :: "nat \<Rightarrow> u32" where
  "stack_entry f = mapped_entry f (PERM_USER OR PERM_WRITEABLE) OR (PERM_USED OR PERM_MODIFIED)"

lemma stack_entry_frame:
  assumes "f < 1048576"
  shows "unat (PPN (stack_entry f)) = f"
proof -
  have "drop_bit 12 (PERM_USED OR PERM_MODIFIED) = (0 :: u32)"
    by (simp add: perm_defs)
  then have "PPN (stack_entry f) = PPN (mapped_entry f (PERM_USER OR PERM_WRITEABLE))"
    by (simp only: stack_entry_def PPN_def drop_bit_or) simp
  then show ?thesis
    using mapped_entry_parts(4) [of f "PERM_USER OR PERM_WRITEABLE"] assms by (simp add: perm_defs)
qed

lemma stack_mapped:
  assumes r: "place_ready n stackVa q f fl v"
  shows "\<exists>m. andthen (allocate_frame (vmem v)) (\<lambda>(f, m).
        andthen (loadtime_map_frame (env_page_directory m n) f stackVa (PERM_USER OR PERM_WRITEABLE) m) (\<lambda>m.
          store_page (env_page_directory m n) stackVa 4096 (\<lambda>_. 0) m)) = Inr m \<and>
      tables m = (tables (vmem v))(q := (tables (vmem v) q)(PTX stackVa := stack_entry f)) \<and>
      ram m = (ram (vmem v))(f := (\<lambda>j. if j < 4096 then 0 else ram (vmem v) f j)) \<and>
      frame_va m = (frame_va (vmem v))(f := 0) \<and> number_of_frames m = number_of_frames (vmem v) \<and>
      env_page_directory m = env_page_directory (vmem v) \<and> references m = (references (vmem v))(f := 1)"
proof -
  let ?s = "initialize_frame_info f ((vmem v)\<lparr>free_frame_list := fl\<rparr>)"
  let ?t = "set_entry q (PTX stackVa) (mapped_entry f (PERM_USER OR PERM_WRITEABLE))
      (?s\<lparr>references := (references ?s)(f := references ?s f + 1)\<rparr>)"
  have at: "table_at (edir n v) stackVa q (vmem v)" and pf: "pde_frame (edir n v) stackVa (vmem v) \<noteq> f"
    and f: "f < 1048576"
    using r by (simp_all add: place_ready_def Let_def)
  have at1: "table_at (edir n v) stackVa q ?s"
    using at pf by (subst table_at_cong [of _ _ _ "vmem v"]) (simp_all add: initialize_frame_info_def)
  have at2: "table_at (edir n v) stackVa q ?t"
    using at1 table_at_ne [OF at] by (intro table_at_set_entry) simp_all
  have "PERM_USER OR PERM_WRITEABLE < 0x1000"
    by (simp add: perm_defs)
  then have m: "unat (PPN (mapped_entry f (PERM_USER OR PERM_WRITEABLE))) = f"
    "mapped_entry f (PERM_USER OR PERM_WRITEABLE) AND PERM_PRESENT = PERM_PRESENT"
    using mapped_entry_parts [of f "PERM_USER OR PERM_WRITEABLE"] f by (simp_all add: perm_defs)
  have e: "tables ?t q (PTX stackVa) = mapped_entry f (PERM_USER OR PERM_WRITEABLE)"
    by (simp add: set_entry_def)
  have ed: "env_page_directory ?s n = edir n v" "env_page_directory ?t n = edir n v"
    by (simp_all add: edir_def initialize_frame_info_def)
  let ?u = "set_entry q (PTX stackVa) (stack_entry f)
      (?t\<lparr>ram := (ram ?t)(f := (\<lambda>j. if j < 4096 then 0 else ram ?t f j))\<rparr>)"
  have "store_page (edir n v) stackVa 4096 (\<lambda>_. 0) ?t = Inr ?u"
    using store_page_at [OF at2, of 4096 "\<lambda>_. 0"] m unfolding e by (simp only: stack_entry_def)
  then have "andthen (allocate_frame (vmem v)) (\<lambda>(f, m).
        andthen (loadtime_map_frame (env_page_directory m n) f stackVa (PERM_USER OR PERM_WRITEABLE) m) (\<lambda>m.
          store_page (env_page_directory m n) stackVa 4096 (\<lambda>_. 0) m)) = Inr ?u"
    using loadtime_map_frame_at [OF at1]
    by (simp only: place_maps(1) [OF r] ed andthen_simps prod.case)
  then show ?thesis
    by (intro exI [of _ ?u] conjI) (simp_all add: set_entry_def initialize_frame_info_def cong: if_cong)
qed

lemma stack_facts:
  "ROUNDDOWN stackVa PAGE_SIZE = stackVa" "stackVa < USER_TOP" "\<not> stackVa < USTACKTOP - PAGE_SIZE"
  by (simp_all add: stackVa_def layout_defs addr_defs ROUNDDOWN_def)

lemma stack_to_disk:
  assumes "disk_table_at n stackVa p v" and "tables (vmem v) p (PTX stackVa) = 0"
    and "disk_free_frame_list (vdisk v) = df # dfl" and "disk_wf (vdisk v)"
    and "disk_stop (vdisk v) = None" and "initNumStackPages (venv v n) = 1"
  shows "\<exists>v'. pf_add_empty_env_page n stackVa 1 v = Inr (0, v') \<and> venv v' = venv v \<and>
     vmem v' = set_entry p (PTX stackVa) (of_nat df) (vmem v) \<and>
     disk_free_frame_list (vdisk v') = dfl \<and> (\<forall>j<4096. disk_page v' (of_nat df) j = ram (vmem v) 1 j)"
proof -
  let ?v = "set_mem (v\<lparr>vdisk := (vdisk v)\<lparr>disk_free_frame_list := dfl\<rparr>\<rparr>)
      (set_entry p (PTX stackVa) (of_nat df) (vmem v))"
  have "disk_stop (vdisk ?v) = None"
    using assms(5) by simp
  then obtain v' where "write_disk_page (of_nat df) (ram (vmem v) 1) ?v = Inr (0, v')"
    "vmem v' = vmem ?v" "venv v' = venv ?v" "disk_free_frame_list (vdisk v') = disk_free_frame_list (vdisk ?v)"
    "\<forall>j<4096. disk_page v' (of_nat df) j = ram (vmem v) 1 j"
    using write_disk_page_ok [of ?v "of_nat df" "ram (vmem v) 1"] by blast
  then show ?thesis
    using pf_disk_frame_fresh [OF assms(1-4)] assms(6)
    by (simp add: pf_add_empty_env_page_def stack_facts(3) pf_add_env_page_def kernel_page_def
        E_NO_PAGE_FILE_SPACE_def cong: if_cong)
qed

lemma load_stack_page_ok:
  assumes r: "stack_ready n q f fl p df dfl (lvm l)" and nl: "\<not> lru_lists_on l"
  shows "\<exists>l'. load_stack_page n l = Inr l' \<and> lframe l' = lframe l \<and> \<not> lru_lists_on l' \<and>
     tables (vmem (lvm l')) q (PTX stackVa) = stack_entry f \<and> unat (PPN (stack_entry f)) = f \<and>
     (\<forall>j<4096. ram (vmem (lvm l')) f j = 0) \<and>
     tables (vmem (lvm l')) p (PTX stackVa) = of_nat df \<and>
     (\<forall>j<4096. disk_page (lvm l') (of_nat df) j = ram (vmem (lvm l)) 1 j) \<and>
     venv (lvm l') = (venv (lvm l))(n := stack_env (lenv l n))"
proof -
  let ?v = "lvm l"
  have pr: "place_ready n stackVa q f fl ?v" and d: "disk_table_at n stackVa p ?v"
    and ap: "disk_apart n stackVa q f ?v" and pq: "p \<noteq> q" and e: "tables (vmem ?v) p (PTX stackVa) = 0"
    and f1: "f \<noteq> 1" and dk: "disk_free_frame_list (vdisk ?v) = df # dfl" "disk_wf (vdisk ?v)"
      "disk_stop (vdisk ?v) = None" "initNumStackPages (venv ?v n) = 1"
    using r by (simp_all add: stack_ready_def)
  obtain m where m: "andthen (allocate_frame (vmem ?v)) (\<lambda>(f, m).
        andthen (loadtime_map_frame (env_page_directory m n) f stackVa (PERM_USER OR PERM_WRITEABLE) m) (\<lambda>m.
          store_page (env_page_directory m n) stackVa 4096 (\<lambda>_. 0) m)) = Inr m"
    and mt: "tables m = (tables (vmem ?v))(q := (tables (vmem ?v) q)(PTX stackVa := stack_entry f))"
    and mr: "ram m = (ram (vmem ?v))(f := (\<lambda>j. if j < 4096 then 0 else ram (vmem ?v) f j))"
    and mf: "frame_va m = (frame_va (vmem ?v))(f := 0)" "number_of_frames m = number_of_frames (vmem ?v)"
    using stack_mapped [OF pr] by blast
  let ?v2 = "?v\<lparr>vmem := m, venv := (venv ?v)(n := stack_env (venv ?v n))\<rparr>"
  have ws: "length (ptr_pageWorkingSet (venv ?v n)) = unat (page_WS_max_size (venv ?v n))"
    "page_last_WS_index (venv ?v n) < page_WS_max_size (venv ?v n)"
    using pr by (simp_all add: place_ready_def Let_def)
  have se: "disk_env_pgdir (stack_env e) = disk_env_pgdir e" "initNumStackPages (stack_env e) = initNumStackPages e" for e
    by (simp_all add: stack_env_def next_ws_index_def)
  have d2: "disk_table_at n stackVa p ?v2"
    using d ap by (auto simp: disk_table_at_def disk_apart_def mt mf se Let_def)
  obtain v' where v': "pf_add_empty_env_page n stackVa 1 ?v2 = Inr (0, v')" "venv v' = venv ?v2"
    "vmem v' = set_entry p (PTX stackVa) (of_nat df) (vmem ?v2)"
    "\<forall>j<4096. disk_page v' (of_nat df) j = ram (vmem ?v2) 1 j"
    using stack_to_disk [OF d2] e pq dk by (auto simp: mt se)
  let ?v1 = "?v\<lparr>vmem := m\<rparr>"
  have "env_page_ws_set_entry (page_last_WS_index (venv ?v1 n)) stackVa (venv ?v1 n) =
    Inr ((venv ?v n)\<lparr>ptr_pageWorkingSet := (ptr_pageWorkingSet (venv ?v n))[unat (page_last_WS_index (venv ?v n)) :=
      (ptr_pageWorkingSet (venv ?v n) ! unat (page_last_WS_index (venv ?v n)))\<lparr>ws_va := stackVa, ws_empty := 0,
         ws_time_stamp := 0x80000000\<rparr>]\<rparr>)"
    using set_entry_ws [OF ws stack_facts(2)] by (simp add: stack_facts(1))
  then have "load_stack_page n l = Inr (put_lvm v' l)"
    using m nl v'(1)
    by (simp add: load_stack_page_def stackVa_def [symmetric] on_lvm_def on_mem_def edir_def on_env_res_def
        stack_env_def del: andthen_eq_Inr)
  moreover have "f < 1048576"
    using pr by (simp add: place_ready_def Let_def)
  ultimately show ?thesis
    using v' nl pq f1 by (intro exI [of _ "put_lvm v' l"]) (simp add: mt mr lenv_def stack_entry_frame)
qed

section \<open>Example\<close>

text \<open>
  A program without loadable segments, for an environment with an empty working set of two entries;
  the tables of the stack page are there, in memory at \<open>0xF6001000\<close> and for the disk at
  \<open>0xF6003000\<close>.
\<close>

definition elf_example :: elf where
  "elf_example = \<lparr>e_magic = ELF_MAGIC, e_entry = 0x800020, e_phnum = 0,
     elf_ph = (\<lambda>i. \<lparr>p_type = 0, p_offset = 0, p_va = 0, p_filesz = 0, p_memsz = 0\<rparr>),
     elf_byte = (\<lambda>i. 0)\<rparr>"

definition load_kmem :: kmem where
  "load_kmem = (vmem vm_example)\<lparr>tables := (\<lambda>p i.
       if p = 0xF0200000 \<and> i = 954 then 0x14007
       else if p = 0xF6002000 \<and> i = 954 then 0x16001 else 0)\<rparr>"

definition load_vm :: vm where
  "load_vm = vm_example\<lparr>vmem := load_kmem,
     venv := (\<lambda>n. env_example\<lparr>ptr_pageWorkingSet := replicate 2 blank_wse, page_last_WS_index := 0\<rparr>)\<rparr>"

definition loader_example :: loader where
  "loader_example = \<lparr>lmach = machine_example\<lparr>mkernel := put_kvm load_vm kernel_example\<rparr>,
     prog_name = (\<lambda>n. []), ws_lists = (\<lambda>n. \<lparr>PageWorkingSetList = [], ActiveList = [],
       SecondList = [], ActiveListSize = 0, SecondListSize = 0\<rparr>),
     percentage_of_WS_pages_to_be_removed = (\<lambda>n. 10)\<rparr>"

lemma loader_example_facts:
  "lvm loader_example = load_vm" "\<not> lru_lists_on loader_example"
  by (simp_all add: loader_example_def lvm_def kvm_def put_kvm_def put_sched_def ksched_def
      lru_lists_on_def kernel_example_def sched_example_def isPageReplacmentAlgorithmLRU_def
      PG_REP_CLOCK_def PG_REP_LRU_LISTS_APPROX_def)

lemma load_vm_ready: "stack_ready 0 0xF6001000 30 [31] 0xF6003000 5 [6]
    (load_vm\<lparr>venv := (venv load_vm)(0 := (venv load_vm 0)\<lparr>initNumStackPages := 1\<rparr>)\<rparr>)"
  by (simp add: stack_ready_def place_ready_def load_vm_def load_kmem_def vm_example_def env_example_def
      kmem_example_def Let_def layout_defs addr_defs table_at_def edir_def get_page_table_def
      table_read_def perm_defs table_address_def kheap_virtual_address_def to_frame_info_def
      CHECK_IF_KERNEL_ADDRESS_def pde_frame_def stackVa_def disk_table_at_def disk_apart_def
      disk_wf_def PAGES_PER_FILE_eq)

lemma load_example_runs:
  "\<exists>l'. load_program elf_example 0 (set_frame 0 initial_frame loader_example) = Inr l'"
proof -
  let ?l = "set_frame 0 initial_frame loader_example"
  have none: "load_segments elf_example 0 0 st = Inr st" for st
    by (simp add: load_segments_filter elf_example_def)
  have first: "PROGRAM_SEGMENT_FIRST elf_example = Inr None"
    by (simp add: PROGRAM_SEGMENT_FIRST_def program_segment_def elf_example_def seg_scan.simps)
  have size: "unat (page_WS_max_size (venv load_vm 0)) = 2"
    by (simp add: load_vm_def env_example_def)
  have clear: "for_each (clear_modified 0) [0..<2] load_vm = Inr load_vm"
    by (simp add: upt_rec clear_modified_def load_vm_def blank_wse_def)
  let ?l1 = "put_lvm load_vm ?l"
  let ?l2 = "set_frame 0 ((saved_frame (lmach ?l1) 0)\<lparr>tf_eip := e_entry elf_example\<rparr>) ?l1"
  have entry: "set_environment_entry_point elf_example 0 ?l1 = Inr ?l2"
    by (simp add: set_environment_entry_point_def elf_example_def)
  let ?l3 = "put_lvm (load_vm\<lparr>venv := (venv load_vm)(0 := (venv load_vm 0)\<lparr>initNumStackPages := 1\<rparr>)\<rparr>) ?l2"
  obtain l4 where l4: "load_stack_page 0 ?l3 = Inr l4" "\<not> lru_lists_on l4"
  proof -
    have "stack_ready 0 0xF6001000 30 [31] 0xF6003000 5 [6] (lvm ?l3)" "\<not> lru_lists_on ?l3"
      using load_vm_ready loader_example_facts(2) by simp_all
    from load_stack_page_ok [OF this] show thesis
      using that by blast
  qed
  show ?thesis
    using l4 by (simp add: load_program_def first none on_lvm_def loader_example_facts size clear entry
        on_env_res_def del: andthen_eq_Inr)
qed

section \<open>Properties\<close>

text \<open>The loader's search with \<open>PROGRAM_SEGMENT_NEXT\<close>, started at the first header, handles exactly
  the headers of type \<open>PT_LOAD\<close>, once each and in the order of the file, whatever the image.\<close>

theorem loader_visits_loads:
  "load_segments im n 0 st =
     for_each (\<lambda>i. load_segment im n (segment_at im i))
       (filter (is_load im) [0..<unat (e_phnum im)]) st"
  by (rule load_segments_filter)

text \<open>A program that is loaded has a valid image, and its saved frame, from which the first
  switch to it restores the registers, is the initial one (user segments, interrupts enabled, the
  stack at the top of the user stack) with the entry point of the image; every other saved frame
  is as before.\<close>

theorem loaded_program_starts_at_entry:
  assumes "load_program im n (set_frame n initial_frame l) = Inr l'"
  shows "e_magic im = ELF_MAGIC \<and> lframe l' = (lframe l)(n := initial_frame\<lparr>tf_eip := e_entry im\<rparr>)"
  using lframe_load_program [OF assms] by simp

theorem loaded_program_starts_at_entry_witness:
  "\<exists>l'. load_program elf_example 0 (set_frame 0 initial_frame loader_example) = Inr l' \<and>
     e_magic elf_example = ELF_MAGIC \<and>
     lframe l' = (lframe loader_example)(0 := initial_frame\<lparr>tf_eip := e_entry elf_example\<rparr>)"
proof -
  obtain l' where "load_program elf_example 0 (set_frame 0 initial_frame loader_example) = Inr l'"
    using load_example_runs by blast
  with loaded_program_starts_at_entry [OF this] show ?thesis
    by blast
qed

text \<open>The stack page of a program whose page table and disk table for it exist, as they do not yet for
  a new environment, whose directories are empty: with a free frame and a free page of the page file, the page
  below the top of the stack is mapped to that frame, user accessible and writable, and filled with
  zeros; the entry at the hand of the working set names it and the hand moves on; the page file holds
  a copy of the kernel's zero page under the same address.\<close>

theorem stack_page_loaded:
  assumes "stack_ready n q f fl p df dfl (lvm l)" and "\<not> lru_lists_on l"
  shows "\<exists>l'. load_stack_page n l = Inr l' \<and>
     tables (vmem (lvm l')) q (PTX stackVa) = stack_entry f \<and> unat (PPN (stack_entry f)) = f \<and>
     (\<forall>j<4096. ram (vmem (lvm l')) f j = 0) \<and>
     venv (lvm l') = (venv (lvm l))(n := stack_env (lenv l n)) \<and>
     tables (vmem (lvm l')) p (PTX stackVa) = of_nat df \<and>
     (\<forall>j<4096. disk_page (lvm l') (of_nat df) j = ram (vmem (lvm l)) 1 j)"
  using load_stack_page_ok [OF assms] by blast

theorem stack_page_loaded_witness:
  "\<exists>l l'. load_stack_page 0 l = Inr l' \<and>
     tables (vmem (lvm l')) 0xF6001000 (PTX stackVa) = stack_entry 30 \<and> (\<forall>j<4096. ram (vmem (lvm l')) 30 j = 0)"
proof -
  let ?l = "put_lvm (load_vm\<lparr>venv := (venv load_vm)(0 := (venv load_vm 0)\<lparr>initNumStackPages := 1\<rparr>)\<rparr>) loader_example"
  have "stack_ready 0 0xF6001000 30 [31] 0xF6003000 5 [6] (lvm ?l)" "\<not> lru_lists_on ?l"
    using load_vm_ready loader_example_facts(2) by simp_all
  from stack_page_loaded [OF this] show ?thesis
    by blast
qed

text \<open>A segment that starts and ends inside one page, not at its start, reaches the page file
  corrupted: its page is written twice, first correctly up to the end of the page, and then again
  from the start of the page with the bytes that follow those in the image, \<open>4096 - off\<close> too far.\<close>

theorem one_page_segment_corrupted:
  assumes "unat (seg_va sg) mod 4096 \<noteq> 0" and "seg_va sg < 0xFFFFF000"
    and "unat (seg_va sg) mod 4096 + unat (size_in_file sg) < 4096"
    and "unat (seg_va sg) mod 4096 + unat (size_in_memory sg) < 4096"
  shows "write_segment im n sg v =
    (let page = ROUNDDOWN (seg_va sg) PAGE_SIZE; off = unat (seg_va sg) mod 4096
     in andthen (write_part im n page off (4096 - off) (ptr_start sg) v)
          (write_part im n page 0 (off + unat (size_in_file sg)) (ptr_start sg + of_nat (4096 - off))))"
  using assms by (rule write_one_page)

theorem one_page_segment_corrupted_witness:
  "write_segment elf_example 0 \<lparr>ptr_start = 0x1000, size_in_file = 100, size_in_memory = 100, seg_va = 0x800020\<rparr> load_vm =
     andthen (write_part elf_example 0 0x800000 0x20 4064 0x1000 load_vm) (write_part elf_example 0 0x800000 0 132 0x1FE0)"
  using one_page_segment_corrupted [of "\<lparr>ptr_start = 0x1000, size_in_file = 100, size_in_memory = 100, seg_va = 0x800020\<rparr>" elf_example 0 load_vm]
  by (simp add: ROUNDDOWN_def addr_defs PAGE_SIZE_def)

text \<open>The request for a program that is not in the table, or when no environment is free, is
  answered with \<open>E_ENV_CREATION_ERROR\<close> and changes nothing.\<close>

theorem create_env_refused:
  assumes "get_user_program_info name progs = None \<or> env_free_list (ketab (mkernel (lmach l))) = []"
  shows "sys_create_env progs name wss lru pct l = Inr (E_ENV_CREATION_ERROR, l)"
proof (cases "get_user_program_info name progs")
  case None
  then show ?thesis
    by (simp add: sys_create_env_def env_create_def)
next
  case (Some p)
  then show ?thesis
    using assms by (cases p) (simp add: sys_create_env_def env_create_def allocate_environment_def list_first_def)
qed

theorem create_env_refused_witness:
  "sys_create_env [] ''fos_helloWorld'' 2 0 10 loader_example = Inr (E_ENV_CREATION_ERROR, loader_example)"
  using create_env_refused [of "''fos_helloWorld''" "[]" loader_example 2 0 10] by (simp add: get_user_program_info_def)

end
