(* ===== verification/C_String.thy ===== *)
theory C_String
  imports Fos_Base "HOL-Library.Signed_Division"
begin

text \<open>
  The string and memory routines of \<^verbatim>\<open>lib/string.c\<close> on a memory of bytes with 32-bit
  addresses, which wrap as pointers do. A loop that looks for a terminating 0 and may not find one is
  a partial function: \<open>None\<close> is a call that does not return. The memory is taken to be readable and
  writable everywhere.
\<close>

type_synonym bytes = "u32 \<Rightarrow> u8"

section \<open>Lengths and copies\<close>

partial_function (option) strlen_loop :: "bytes \<Rightarrow> u32 \<Rightarrow> u32 \<Rightarrow> u32 option" where
  "strlen_loop m s n = (if m s \<noteq> 0 then strlen_loop m (s + 1) (n + 1) else Some n)"

definition strlen :: "bytes \<Rightarrow> u32 \<Rightarrow> u32 option" where
  "strlen m s = strlen_loop m s 0"

function strnlen_loop :: "bytes \<Rightarrow> u32 \<Rightarrow> u32 \<Rightarrow> u32 \<Rightarrow> u32" where
  "strnlen_loop m s sz n =
     (if 0 < sz \<and> m s \<noteq> 0 then strnlen_loop m (s + 1) (sz - 1) (n + 1) else n)"
  by pat_completeness auto
termination by (relation "measure (\<lambda>(m, s, sz, n). unat sz)") (auto intro: measure_unat)

definition strnlen :: "bytes \<Rightarrow> u32 \<Rightarrow> u32 \<Rightarrow> u32" where
  "strnlen m s sz = strnlen_loop m s sz 0"

partial_function (option) strcpy_loop :: "u32 \<Rightarrow> u32 \<Rightarrow> bytes \<Rightarrow> bytes option" where
  "strcpy_loop dst src m =
     (let m' = m(dst := m src)
      in if m src \<noteq> 0 then strcpy_loop (dst + 1) (src + 1) m' else Some m')"

definition strcpy :: "u32 \<Rightarrow> u32 \<Rightarrow> bytes \<Rightarrow> (u32 \<times> bytes) option" where
  "strcpy dst src m = map_option (Pair dst) (strcpy_loop dst src m)"

function strncpy_loop :: "u32 \<Rightarrow> u32 \<Rightarrow> u32 \<Rightarrow> u32 \<Rightarrow> bytes \<Rightarrow> bytes" where
  "strncpy_loop i sz dst src m =
     (if i < sz
      then (let m = m(dst := m src)
            in strncpy_loop (i + 1) sz (dst + 1) (if m src \<noteq> 0 then src + 1 else src) m)
      else m)"
  by pat_completeness auto
termination
proof (relation "measure (\<lambda>(i, sz, dst, src, m). unat (sz - i))", goal_cases)
  case (2 i sz dst src m m')
  then have "sz - i \<noteq> 0"
    by auto
  then have "unat (sz - i - 1) < unat (sz - i)"
    by (rule measure_unat)
  then show ?case by (simp add: diff_diff_eq)
qed simp

definition strncpy :: "u32 \<Rightarrow> u32 \<Rightarrow> u32 \<Rightarrow> bytes \<Rightarrow> u32 \<times> bytes" where
  "strncpy dst src sz m = (dst, strncpy_loop 0 sz dst src m)"

function strlcpy_loop :: "u32 \<Rightarrow> u32 \<Rightarrow> u32 \<Rightarrow> bytes \<Rightarrow> u32 \<times> bytes" where
  "strlcpy_loop dst src sz m =
     (if 0 < sz - 1 \<and> m src \<noteq> 0 \<and> sz \<noteq> 0
      then strlcpy_loop (dst + 1) (src + 1) (sz - 1) (m(dst := m src)) else (dst, m))"
  by pat_completeness auto
termination by (relation "measure (\<lambda>(dst, src, sz, m). unat sz)") (auto intro: measure_unat)

definition strlcpy :: "u32 \<Rightarrow> u32 \<Rightarrow> u32 \<Rightarrow> bytes \<Rightarrow> u32 \<times> bytes" where
  "strlcpy dst src sz m =
     (if 0 < sz
      then (let (d, m) = strlcpy_loop dst src sz m in (d - dst, m(d := 0)))
      else (0, m))"

section \<open>Comparison and search\<close>

partial_function (option) strcmp :: "bytes \<Rightarrow> u32 \<Rightarrow> u32 \<Rightarrow> int option" where
  "strcmp m p q =
     (if m p \<noteq> 0 \<and> m p = m q then strcmp m (p + 1) (q + 1) else Some (uint (m p) - uint (m q)))"

function strncmp :: "bytes \<Rightarrow> u32 \<Rightarrow> u32 \<Rightarrow> u32 \<Rightarrow> int" where
  "strncmp m p q n =
     (if 0 < n \<and> m p \<noteq> 0 \<and> m p = m q then strncmp m (p + 1) (q + 1) (n - 1)
      else if n = 0 then 0 else uint (m p) - uint (m q))"
  by pat_completeness auto
termination by (relation "measure (\<lambda>(m, p, q, n). unat n)") (auto intro: measure_unat)

partial_function (option) strchr :: "bytes \<Rightarrow> u32 \<Rightarrow> u8 \<Rightarrow> u32 option" where
  "strchr m s c = (if m s \<noteq> 0 then if m s = c then Some s else strchr m (s + 1) c else Some 0)"

partial_function (option) strfind :: "bytes \<Rightarrow> u32 \<Rightarrow> u8 \<Rightarrow> u32 option" where
  "strfind m s c = (if m s \<noteq> 0 \<and> m s \<noteq> c then strfind m (s + 1) c else Some s)"

section \<open>Blocks of memory\<close>

text \<open>The count of \<^verbatim>\<open>memset\<close> is kept in an \<^verbatim>\<open>int\<close>.\<close>

function memset_loop :: "u32 \<Rightarrow> u32 \<Rightarrow> u8 \<Rightarrow> bytes \<Rightarrow> bytes" where
  "memset_loop n p c m =
     (if 0 \<le> sint (n - 1) \<and> n \<noteq> 0 then memset_loop (n - 1) (p + 1) c (m(p := c)) else m)"
  by pat_completeness auto
termination by (relation "measure (\<lambda>(n, p, c, m). unat n)") (auto intro: measure_unat)

definition memset :: "u32 \<Rightarrow> u32 \<Rightarrow> u32 \<Rightarrow> bytes \<Rightarrow> u32 \<times> bytes" where
  "memset v c n m = (v, memset_loop n v (ucast c) m)"

function copy_up :: "u32 \<Rightarrow> u32 \<Rightarrow> u32 \<Rightarrow> bytes \<Rightarrow> bytes" where
  "copy_up n d s m = (if 0 < n then copy_up (n - 1) (d + 1) (s + 1) (m(d := m s)) else m)"
  by pat_completeness auto
termination by (relation "measure (\<lambda>(n, d, s, m). unat n)") (auto intro: measure_unat)

function copy_down :: "u32 \<Rightarrow> u32 \<Rightarrow> u32 \<Rightarrow> bytes \<Rightarrow> bytes" where
  "copy_down n d s m =
     (if 0 < n then copy_down (n - 1) (d - 1) (s - 1) (m(d - 1 := m (s - 1))) else m)"
  by pat_completeness auto
termination by (relation "measure (\<lambda>(n, d, s, m). unat n)") (auto intro: measure_unat)

definition memcpy :: "u32 \<Rightarrow> u32 \<Rightarrow> u32 \<Rightarrow> bytes \<Rightarrow> u32 \<times> bytes" where
  "memcpy dst src n m = (dst, copy_up n dst src m)"

definition memmove :: "u32 \<Rightarrow> u32 \<Rightarrow> u32 \<Rightarrow> bytes \<Rightarrow> u32 \<times> bytes" where
  "memmove dst src n m =
     (dst, if src < dst \<and> dst < src + n then copy_down n (dst + n) (src + n) m
           else copy_up n dst src m)"

function memcmp :: "bytes \<Rightarrow> u32 \<Rightarrow> u32 \<Rightarrow> u32 \<Rightarrow> int" where
  "memcmp m s1 s2 n =
     (if 0 < n
      then if m s1 \<noteq> m s2 then uint (m s1) - uint (m s2) else memcmp m (s1 + 1) (s2 + 1) (n - 1)
      else 0)"
  by pat_completeness auto
termination by (relation "measure (\<lambda>(m, s1, s2, n). unat n)") (auto intro: measure_unat)

function memfind_loop :: "bytes \<Rightarrow> u32 \<Rightarrow> u8 \<Rightarrow> u32 \<Rightarrow> u32" where
  "memfind_loop m s c ends =
     (if s < ends \<and> m s \<noteq> c then memfind_loop m (s + 1) c ends else s)"
  by pat_completeness auto
termination
proof (relation "measure (\<lambda>(m, s, c, ends). unat (ends - s))", goal_cases)
  case (2 m s c ends)
  then have "ends - s \<noteq> 0"
    by auto
  then have "unat (ends - s - 1) < unat (ends - s)"
    by (rule measure_unat)
  then show ?case by (simp add: diff_diff_eq)
qed simp

definition memfind :: "bytes \<Rightarrow> u32 \<Rightarrow> u32 \<Rightarrow> u32 \<Rightarrow> u32" where
  "memfind m s c n = memfind_loop m s (ucast c) (s + n)"

declare strnlen_loop.simps [simp del] strncpy_loop.simps [simp del] strlcpy_loop.simps [simp del]
  strncmp.simps [simp del] memset_loop.simps [simp del] copy_up.simps [simp del]
  copy_down.simps [simp del] memcmp.simps [simp del] memfind_loop.simps [simp del]

section \<open>Numbers\<close>

partial_function (option) skip_blanks :: "bytes \<Rightarrow> u32 \<Rightarrow> u32 option" where
  "skip_blanks m s = (if m s = 32 \<or> m s = 9 then skip_blanks m (s + 1) else Some s)"

definition digit_of :: "u8 \<Rightarrow> int option" where
  "digit_of c =
     (if 48 \<le> c \<and> c \<le> 57 then Some (uint c - 48)
      else if 97 \<le> c \<and> c \<le> 122 then Some (uint c - 97 + 10)
      else if 65 \<le> c \<and> c \<le> 90 then Some (uint c - 65 + 10)
      else None)"

partial_function (option) strtol_digits ::
    "bytes \<Rightarrow> int \<Rightarrow> u32 \<Rightarrow> u32 \<Rightarrow> (u32 \<times> u32) option" where
  "strtol_digits m b s val =
     (case digit_of (m s) of
        None \<Rightarrow> Some (s, val)
      | Some dig \<Rightarrow>
          if b \<le> dig then Some (s, val)
          else strtol_digits m b (s + 1) (val * of_int b + of_int dig))"

definition strtol :: "bytes \<Rightarrow> u32 \<Rightarrow> int \<Rightarrow> (u32 \<times> u32) option" where
  "strtol m s b =
     Option.bind (skip_blanks m s) (\<lambda>s.
       let (s, neg) = (if m s = 43 then (s + 1, False) else if m s = 45 then (s + 1, True) else (s, False));
           (s, b) = (if (b = 0 \<or> b = 16) \<and> m s = 48 \<and> m (s + 1) = 120 then (s + 2, 16)
                     else if b = 0 \<and> m s = 48 then (s + 1, 8)
                     else if b = 0 then (s, 10) else (s, b))
       in map_option (\<lambda>(s, val). (if neg then - val else val, s)) (strtol_digits m b s 0))"

lemma abs_sdiv: "\<bar>a sdiv 10\<bar> = \<bar>a\<bar> div (10 :: int)"
  by (cases "a = 0") (simp_all add: signed_divide_int_def abs_mult abs_sgn_eq_1)

function ltostr_digits :: "u32 \<Rightarrow> int \<Rightarrow> nat \<Rightarrow> bytes \<Rightarrow> nat \<times> bytes" where
  "ltostr_digits str val s m =
     (let m = m(str + of_nat s := of_int (val smod 10 + 48)); val = val sdiv 10
      in if val smod 10 \<noteq> 0 then ltostr_digits str val (s + 1) m else (s + 1, m))"
  by pat_completeness auto
termination
proof (relation "measure (\<lambda>(str, val, s, m). nat \<bar>val\<bar>)", goal_cases)
  case (2 str val s m m' val')
  then have "val' \<noteq> 0" and "\<bar>val'\<bar> = \<bar>val\<bar> div 10"
    by (auto simp: abs_sdiv signed_modulo_int_def)
  then have "\<bar>val\<bar> div 10 \<noteq> 0"
    by auto
  then have "\<bar>val\<bar> div 10 < \<bar>val\<bar>"
    by (intro int_div_less_self) (auto simp: order.strict_iff_order)
  then show ?case
    using \<open>\<bar>val'\<bar> = \<bar>val\<bar> div 10\<close> by simp
qed simp

function swap_ends :: "u32 \<Rightarrow> nat \<Rightarrow> nat \<Rightarrow> bytes \<Rightarrow> bytes" where
  "swap_ends str start fin m =
     (if start < fin
      then swap_ends str (start + 1) (fin - 1)
             (m(str + of_nat start := m (str + of_nat fin), str + of_nat fin := m (str + of_nat start)))
      else m)"
  by pat_completeness auto
termination by (relation "measure (\<lambda>(str, start, fin, m). fin - start)") auto

text \<open>\<^verbatim>\<open>value * -1\<close> wraps for the smallest value.\<close>

definition ltostr :: "u32 \<Rightarrow> u32 \<Rightarrow> bytes \<Rightarrow> bytes" where
  "ltostr val str m =
     (let neg = sint val < 0;
          m1 = (if neg then m(str := 45) else m);
          v = (if neg then sint (- val) else sint val);
          (s, m2) = ltostr_digits str v (if neg then 1 else 0) m1
      in (swap_ends str (if neg then 1 else 0) (s - 1) m2)(str + of_nat s := 0))"

declare ltostr_digits.simps [simp del] swap_ends.simps [simp del]

section \<open>Joining and splitting\<close>

text \<open>The lengths are \<^verbatim>\<open>int\<close>s: a string of more than 2147483647 bytes is taken for empty.\<close>

definition int_count :: "u32 \<Rightarrow> nat" where
  "int_count n = nat (sint n)"

definition copy_bytes :: "u32 \<Rightarrow> u32 \<Rightarrow> nat \<Rightarrow> bytes \<Rightarrow> bytes" where
  "copy_bytes dst src n m = fold (\<lambda>i m. m(dst + of_nat i := m (src + of_nat i))) [0..<n] m"

definition strcconcat :: "u32 \<Rightarrow> u32 \<Rightarrow> u32 \<Rightarrow> bytes \<Rightarrow> bytes option" where
  "strcconcat str1 str2 final m =
     Option.bind (strlen m str1) (\<lambda>len1.
     Option.bind (strlen m str2) (\<lambda>len2.
       let n1 = int_count len1; n2 = int_count len2;
           m = copy_bytes final str1 n1 m;
           m = copy_bytes (final + of_nat n1) str2 n2 m
       in Some (m(final + of_nat (n1 + n2) := 0))))"

definition MAX_ARGUMENTS :: nat where "MAX_ARGUMENTS = 16"

definition is_split :: "bytes \<Rightarrow> u32 \<Rightarrow> u8 \<Rightarrow> bool option" where
  "is_split m seps c = map_option (\<lambda>p. p \<noteq> 0) (strchr m seps c)"

partial_function (option) trim :: "u32 \<Rightarrow> u32 \<Rightarrow> bytes \<Rightarrow> (u32 \<times> bytes) option" where
  "trim seps s m =
     (if m s = 0 then Some (s, m)
      else Option.bind (is_split m seps (m s)) (\<lambda>b.
             if b then trim seps (s + 1) (m(s := 0)) else Some (s, m)))"

partial_function (option) skip_word :: "bytes \<Rightarrow> u32 \<Rightarrow> u32 \<Rightarrow> u32 option" where
  "skip_word m seps s =
     (if m s = 0 then Some s
      else Option.bind (is_split m seps (m s)) (\<lambda>b. if b then Some s else skip_word m seps (s + 1)))"

text \<open>\<^verbatim>\<open>argv\<close> as the pointers stored so far; the result says whether all words had room.\<close>

partial_function (option) strsplit_loop ::
    "u32 \<Rightarrow> u32 \<Rightarrow> u32 list \<Rightarrow> bytes \<Rightarrow> (bool \<times> u32 list \<times> bytes) option" where
  "strsplit_loop seps s argv m =
     Option.bind (trim seps s m) (\<lambda>(s, m).
       if m s = 0 then Some (True, argv, m)
       else if length argv = MAX_ARGUMENTS - 1 then Some (False, argv, m)
       else Option.bind (skip_word m seps s) (\<lambda>s'. strsplit_loop seps s' (argv @ [s]) m))"

definition strsplit :: "u32 \<Rightarrow> u32 \<Rightarrow> bytes \<Rightarrow> (bool \<times> u32 list \<times> bytes) option" where
  "strsplit s seps m = strsplit_loop seps s [] m"

section \<open>Strings in memory\<close>

text \<open>The bytes of the string at \<open>s\<close>, which ends with a 0.\<close>

primrec cstr :: "bytes \<Rightarrow> u32 \<Rightarrow> u8 list \<Rightarrow> bool" where
  "cstr m s [] \<longleftrightarrow> m s = 0"
| "cstr m s (x # xs) \<longleftrightarrow> m s = x \<and> x \<noteq> 0 \<and> cstr m (s + 1) xs"

lemma cstr_fun: "cstr m s xs \<Longrightarrow> cstr m s ys \<Longrightarrow> xs = ys"
proof (induction xs arbitrary: s ys)
  case Nil
  then show ?case by (cases ys) auto
next
  case (Cons x xs)
  then show ?case by (cases ys) auto
qed

lemma strlen_loop_cstr: "cstr m s xs \<Longrightarrow> strlen_loop m s n = Some (n + of_nat (length xs))"
  by (induction xs arbitrary: s n) (simp_all add: strlen_loop.simps add.assoc)

lemma strlen_loop_only:
  assumes "strlen_loop m s n = Some k"
  shows "\<exists>xs. cstr m s xs \<and> k = n + of_nat (length xs)"
proof (rule strlen_loop.raw_induct
    [where P = "\<lambda>m s n k. \<exists>xs. cstr m s xs \<and> k = n + of_nat (length xs)", OF _ assms])
  fix f and m :: bytes and s n k
  assume IH: "\<And>m s n k. f m s n = Some k \<Longrightarrow> \<exists>xs. cstr m s xs \<and> k = n + of_nat (length xs)"
    and eq: "(if m s \<noteq> 0 then f m (s + 1) (n + 1) else Some n) = Some k"
  show "\<exists>xs. cstr m s xs \<and> k = n + of_nat (length xs)"
  proof (cases "m s = 0")
    case True
    then show ?thesis
      using eq by (intro exI [of _ "[]"]) simp
  next
    case False
    then obtain xs where "cstr m (s + 1) xs" "k = n + 1 + of_nat (length xs)"
      using eq IH [of m "s + 1" "n + 1" k] by auto
    then show ?thesis
      using False by (intro exI [of _ "m s # xs"]) (simp add: add.assoc)
  qed
qed

lemma u8_pos: "(x :: u8) \<noteq> 0 \<Longrightarrow> 0 < uint x"
  using uint_ge_0 [of x] by (simp add: less_le uint_0_iff)

lemma strcmp_cstr:
  "cstr m p xs \<Longrightarrow> cstr m q ys \<Longrightarrow>
   \<exists>r. strcmp m p q = Some r \<and> (r = 0 \<longleftrightarrow> xs = ys) \<and> (r < 0 \<longleftrightarrow> ord_class.lexordp xs ys)"
proof (induction xs arbitrary: p q ys)
  case Nil
  then show ?case
    using u8_pos [of "m q"] by (cases ys) (simp_all add: strcmp.simps [of m p q])
next
  case (Cons x xs)
  show ?case
  proof (cases ys)
    case Nil
    then show ?thesis
      using Cons.prems u8_pos [of x] by (simp add: strcmp.simps [of m p q])
  next
    case (Cons y ys')
    show ?thesis
    proof (cases "x = y")
      case True
      then show ?thesis
        using Cons.prems Cons Cons.IH [of "p + 1" "q + 1" ys'] by (simp add: strcmp.simps [of m p q])
    next
      case False
      then show ?thesis
        using Cons.prems Cons word_uint_eq_iff [of x y]
        by (auto simp: strcmp.simps [of m p q] word_less_def)
    qed
  qed
qed

section \<open>Blocks\<close>

lemma word_index_apart:
  assumes "unat d + k < 4294967296"
  shows "unat (d + of_nat k :: u32) = unat d + k"
proof -
  have "unat (of_nat k :: u32) = k"
    using assms by (simp add: unat_of_nat)
  then show ?thesis
    using assms by (subst unat_add_u32) simp_all
qed

definition in_block :: "u32 \<Rightarrow> nat \<Rightarrow> u32 \<Rightarrow> bool" where
  "in_block d k a \<longleftrightarrow> unat d \<le> unat a \<and> unat a < unat d + k"

lemma in_block_simps [simp]: "\<not> in_block d 0 a" "in_block d (Suc 0) a \<longleftrightarrow> a = d"
  by (auto simp: in_block_def u32_eq_iff)

definition moved :: "u32 \<Rightarrow> u32 \<Rightarrow> nat \<Rightarrow> bytes \<Rightarrow> bytes" where
  "moved d s k m = (\<lambda>a. if in_block d k a then m (s + (a - d)) else m a)"

lemma u32_same: "unat x = unat y \<Longrightarrow> x = (y :: u32)"
  by (simp add: u32_eq_iff)

lemma unat_Suc_u32: "unat (a :: u32) + 1 < 4294967296 \<Longrightarrow> unat (a + 1) = unat a + 1"
  by (subst unat_add_u32) simp_all

lemma copy_up_moved:
  assumes "unat d + k \<le> 4294967296" and "unat s + k \<le> 4294967296" and "k < 4294967296"
    and "unat d \<le> unat s \<or> unat s + k \<le> unat d"
  shows "copy_up (of_nat k) d s m = moved d s k m"
  using assms
proof (induction k arbitrary: d s m)
  case 0
  then show ?case
    by (auto simp: copy_up.simps moved_def in_block_def fun_eq_iff)
next
  case (Suc k)
  have n: "(of_nat (Suc k) :: u32) \<noteq> 0"
    using Suc.prems(3) by (simp add: u32_eq_iff unat_of_nat del: of_nat_Suc)
  then have step: "copy_up (of_nat (Suc k)) d s m = copy_up (of_nat k) (d + 1) (s + 1) (m(d := m s))"
    by (subst copy_up.simps) (simp add: word_greater_zero_iff)
  show ?case
  proof (cases "k = 0")
    case True
    then show ?thesis
      unfolding step by (auto simp: copy_up.simps moved_def fun_eq_iff)
  next
    case False
    have u: "unat (d + 1) = unat d + 1" "unat (s + 1) = unat s + 1"
      using Suc.prems False by (simp_all add: unat_Suc_u32)
    have IH: "copy_up (of_nat k) (d + 1) (s + 1) (m(d := m s)) = moved (d + 1) (s + 1) k (m(d := m s))"
      using Suc.prems by (intro Suc.IH) (auto simp: u)
    have "moved (d + 1) (s + 1) k (m(d := m s)) a = moved d s (Suc k) m a" for a
    proof (cases "in_block (d + 1) k a")
      case True
      then have le: "unat d + 1 \<le> unat a" "unat a \<le> unat d + k"
        by (simp_all add: in_block_def u)
      then have "unat (a - d) = unat a - unat d"
        by (intro unat_sub_u32) (simp add: word_le_nat_alt)
      then have "unat (s + (a - d)) = unat s + (unat a - unat d)"
        using le Suc.prems by (subst unat_add_u32) simp_all
      then have "s + (a - d) \<noteq> d"
        using le Suc.prems(4) by (auto simp: u32_eq_iff)
      moreover have "in_block d (Suc k) a"
        using le by (simp add: in_block_def)
      ultimately show ?thesis
        using True by (simp add: moved_def)
    next
      case False
      then have "in_block d (Suc k) a \<longleftrightarrow> a = d"
        by (auto simp: in_block_def u u32_eq_iff)
      then show ?thesis
        using False by (auto simp: moved_def)
    qed
    then show ?thesis
      unfolding step IH by (rule ext)
  qed
qed

lemma copy_down_moved:
  assumes "unat d + k \<le> 4294967296" and "unat s + k \<le> 4294967296" and "k < 4294967296"
    and "unat s \<le> unat d"
  shows "copy_down (of_nat k) (d + of_nat k) (s + of_nat k) m = moved d s k m"
  using assms
proof (induction k arbitrary: m)
  case 0
  then show ?case
    by (auto simp: copy_down.simps moved_def in_block_def fun_eq_iff)
next
  case (Suc k)
  have n: "(of_nat (Suc k) :: u32) \<noteq> 0"
    using Suc.prems(3) by (simp add: u32_eq_iff unat_of_nat del: of_nat_Suc)
  let ?m = "m(d + of_nat k := m (s + of_nat k))"
  have "copy_down (of_nat (Suc k)) (d + of_nat (Suc k)) (s + of_nat (Suc k)) m =
      copy_down (of_nat k) (d + of_nat k) (s + of_nat k) ?m"
    using n by (subst copy_down.simps) (simp add: word_greater_zero_iff)
  also have "\<dots> = moved d s k ?m"
    using Suc.prems by (intro Suc.IH) auto
  also have "\<dots> = moved d s (Suc k) m"
  proof
    fix a
    have u: "unat (d + of_nat k) = unat d + k"
      using Suc.prems by (intro word_index_apart) simp
    show "moved d s k ?m a = moved d s (Suc k) m a"
    proof (cases "in_block d k a")
      case True
      then have le: "unat d \<le> unat a" "unat a < unat d + k"
        by (simp_all add: in_block_def)
      then have "unat (a - d) = unat a - unat d"
        by (intro unat_sub_u32) (simp add: word_le_nat_alt)
      then have "unat (s + (a - d)) = unat s + (unat a - unat d)"
        using le Suc.prems by (subst unat_add_u32) simp_all
      then have "s + (a - d) \<noteq> d + of_nat k"
        using le Suc.prems(4) u by (auto simp: u32_eq_iff)
      then show ?thesis
        using True le by (simp add: moved_def in_block_def)
    next
      case False
      then have "in_block d (Suc k) a \<longleftrightarrow> a = d + of_nat k"
        by (auto simp: in_block_def u u32_eq_iff)
      then show ?thesis
        using False by (auto simp: moved_def)
    qed
  qed
  finally show ?case .
qed

lemma memmove_moved:
  assumes "unat d + unat n \<le> 4294967296" and "unat s + unat n < 4294967296"
  shows "memmove d s n m = (d, moved d s (unat n) m)"
proof (cases "s < d \<and> d < s + n")
  case True
  then show ?thesis
    using copy_down_moved [of d "unat n" s m] assms by (simp add: memmove_def word_less_nat_alt)
next
  case False
  have "unat (s + n) = unat s + unat n"
    using assms(2) by (rule unat_add_u32)
  then have "unat d \<le> unat s \<or> unat s + unat n \<le> unat d"
    using False by (auto simp: word_less_nat_alt)
  then show ?thesis
    using False copy_up_moved [of d "unat n" s m] assms
    by (simp add: memmove_def del: de_Morgan_conj)
qed

lemma memset_loop_fills:
  assumes "unat p + k \<le> 4294967296" and "k < 2147483648"
  shows "memset_loop (of_nat k) p c m = (\<lambda>a. if in_block p k a then c else m a)"
  using assms
proof (induction k arbitrary: p m)
  case 0
  then show ?case
    by (auto simp: memset_loop.simps in_block_def fun_eq_iff)
next
  case (Suc k)
  have n: "(of_nat (Suc k) :: u32) \<noteq> 0"
    using Suc.prems(2) by (simp add: u32_eq_iff unat_of_nat del: of_nat_Suc)
  have "0 \<le> sint (of_nat k :: u32)"
    using Suc.prems(2) by (simp add: signed_of_nat signed_take_bit_int_eq_self)
  then have step: "memset_loop (of_nat (Suc k)) p c m = memset_loop (of_nat k) (p + 1) c (m(p := c))"
    using n by (subst memset_loop.simps) simp
  show ?case
  proof (cases "k = 0")
    case True
    then show ?thesis
      unfolding step by (auto simp: memset_loop.simps fun_eq_iff)
  next
    case False
    have u: "unat (p + 1) = unat p + 1"
      using Suc.prems False by (simp add: unat_Suc_u32)
    have "memset_loop (of_nat k) (p + 1) c (m(p := c)) =
        (\<lambda>a. if in_block (p + 1) k a then c else (m(p := c)) a)"
      using Suc.prems by (intro Suc.IH) (auto simp: u)
    then show ?thesis
      unfolding step by (auto simp: in_block_def u fun_eq_iff u32_eq_iff)
  qed
qed

section \<open>Numbers and their digits\<close>

definition holds :: "bytes \<Rightarrow> u32 \<Rightarrow> u8 list \<Rightarrow> bool" where
  "holds m s xs \<longleftrightarrow> (\<forall>i<length xs. m (s + of_nat i) = xs ! i)"

definition dchar :: "nat \<Rightarrow> u8" where "dchar k = of_nat (48 + k)"

lemma uint_dchar: "k < 10 \<Longrightarrow> uint (dchar k) = 48 + int k"
proof -
  assume "k < 10"
  then have "take_bit 8 (48 + k) = 48 + k"
    by (intro take_bit_nat_eq_self) simp
  then show ?thesis
    by (simp add: dchar_def unsigned_of_nat del: of_nat_add)
qed

lemma digit_of_dchar: "k < 10 \<Longrightarrow> digit_of (dchar k) = Some (int k)"
  by (simp add: digit_of_def word_le_def uint_dchar)

lemma holds_Cons: "holds m s (x # xs) \<longleftrightarrow> m s = x \<and> holds m (s + 1) xs"
  by (force simp: holds_def All_less_Suc2 add.assoc)

lemma strtol_digits_run:
  assumes "holds m s (map dchar ds)" and "\<forall>k\<in>set ds. k < 10"
  shows "strtol_digits m 10 s v =
    strtol_digits m 10 (s + of_nat (length ds)) (fold (\<lambda>k v. v * 10 + of_nat k) ds v)"
  using assms
proof (induction ds arbitrary: s v)
  case (Cons k ds)
  then have "strtol_digits m 10 s v = strtol_digits m 10 (s + 1) (v * 10 + of_nat k)"
    by (subst strtol_digits.simps) (simp add: holds_Cons digit_of_dchar)
  then show ?case
    using Cons by (simp add: holds_Cons add.assoc)
qed simp

text \<open>The digits that \<^verbatim>\<open>ltostr\<close> writes, the last one first, and the number they denote.\<close>

function dlist :: "nat \<Rightarrow> nat list" where
  "dlist v = v mod 10 # (if v div 10 mod 10 \<noteq> 0 then dlist (v div 10) else [])"
  by pat_completeness auto
termination
proof (relation "measure id", goal_cases)
  case (2 v)
  then have "0 < v" "v div 10 < v"
    by (auto intro: div_less_dividend Nat.gr0I)
  then show ?case by simp
qed simp

primrec dval :: "nat list \<Rightarrow> nat" where
  "dval [] = 0"
| "dval (d # ds) = d + 10 * dval ds"

declare dlist.simps [simp del]

lemma dlist_digits: "\<forall>k\<in>set (dlist v). k < 10"
proof (induction v rule: dlist.induct)
  case (1 v)
  show ?case
  proof (cases "v div 10 mod 10 \<noteq> 0")
    case True
    then have "set (dlist v) = insert (v mod 10) (set (dlist (v div 10)))"
      by (subst dlist.simps) (simp only: if_True not_False_eq_True list.set)
    then show ?thesis
      using 1 [OF True] by (auto simp del: mod_less)
  next
    case False
    then have "set (dlist v) = {v mod 10}"
      by (subst dlist.simps) (simp only: if_False list.set not_not simp_thms)
    then show ?thesis
      by simp
  qed
qed

lemma dval_dlist_mod:
  "0 < k \<Longrightarrow> v div 10 ^ k mod 10 = 0 \<Longrightarrow> (\<And>j. 0 < j \<Longrightarrow> j < k \<Longrightarrow> v div 10 ^ j mod 10 \<noteq> 0) \<Longrightarrow>
    dval (dlist v) = v mod 10 ^ k"
proof (induction v arbitrary: k rule: dlist.induct)
  case (1 v)
  obtain i where i: "k = Suc i"
    using "1.prems"(1) by (cases k) auto
  show ?case
  proof (cases "i = 0")
    case True
    then have "v div 10 mod 10 = 0"
      using "1.prems"(2) i by simp
    then show ?thesis
      using True i by (subst dlist.simps) simp
  next
    case False
    then have ne: "v div 10 mod 10 \<noteq> 0"
      using "1.prems"(3) [of 1] i by simp
    have up: "v div 10 div 10 ^ j = v div 10 ^ Suc j" for j
      by (simp add: div_mult2_eq)
    have "dval (dlist (v div 10)) = v div 10 mod 10 ^ i"
    proof (rule "1.IH" [OF ne])
      show "0 < i" "v div 10 div 10 ^ i mod 10 = 0"
        using False "1.prems"(2) i by (simp_all only: up)
      show "v div 10 div 10 ^ j mod 10 \<noteq> 0" if "0 < j" "j < i" for j
        unfolding up by (rule "1.prems"(3)) (use that i in simp_all)
    qed
    then have "dval (dlist v) = v mod 10 + 10 * (v div 10 mod 10 ^ i)"
      using ne by (subst dlist.simps) simp
    then show ?thesis
      by (simp add: i mod_mult2_eq)
  qed
qed

lemma sint_of_small:
  assumes "d < 2 ^ 31"
  shows "sint (of_nat d :: u32) = int d" "sint (- of_nat d :: u32) = - int d"
proof -
  have "sint (of_int (int d) :: u32) = int d" "sint (of_int (- int d) :: u32) = - int d"
    using assms by (simp_all only: signed_of_int) (simp_all add: signed_take_bit_int_eq_self)
  then show "sint (of_nat d :: u32) = int d" "sint (- of_nat d :: u32) = - int d"
    by simp_all
qed

lemma abs_sint_bound:
  fixes val :: u32
  assumes "val \<noteq> 0x80000000" and "v = nat \<bar>sint val\<bar>"
  shows "v < 2 ^ 31"
proof -
  have "sint val \<noteq> sint (0x80000000 :: u32)"
    using assms(1) signed_word_eqI by blast
  then have "sint val \<noteq> - 2147483648"
    by simp
  then have "- 2147483648 < sint val" "sint val < 2147483648"
    using sint_greater_eq [of val] sint_less [of val] by simp_all
  then show ?thesis
    using assms(2) by simp
qed

lemma length_dlist: "length (dlist v) \<le> v + 1"
proof (induction v rule: dlist.induct)
  case (1 v)
  show ?case
  proof (cases "v div 10 mod 10 = 0")
    case True
    then show ?thesis
      by (subst dlist.simps) simp
  next
    case False
    then have "v div 10 + 1 \<le> v"
      by (metis Suc_eq_plus1 Suc_leI div_0 div_less_dividend gr0I mod_0 numeral_One
          numeral_less_iff semiring_norm(76))
    then show ?thesis
      using 1 [OF False] False by (subst dlist.simps) simp
  qed
qed

lemma fold_digits: "fold (\<lambda>k v. v * 10 + of_nat k) (rev ds) 0 = (of_nat (dval ds) :: u32)"
  by (induction ds) (simp_all add: ac_simps)

lemma offset_eq: "i < 4294967296 \<Longrightarrow> j < 4294967296 \<Longrightarrow> of_nat i = (of_nat j :: u32) \<longleftrightarrow> i = j"
  by (simp add: word_of_nat_eq_iff take_bit_nat_eq_self)

lemma smod_nat: "int v smod 10 = int (v mod 10)" "int v sdiv 10 = int (v div 10)"
  by (simp_all add: signed_modulo_int_def signed_divide_int_def sgn_if zdiv_int zmod_int
      minus_div_mult_eq_mod [symmetric])

lemma ltostr_digits_run:
  assumes "k + length (dlist v) \<le> 4294967296"
  shows "\<exists>m'. ltostr_digits str (int v) k m = (k + length (dlist v), m') \<and>
     (\<forall>i<4294967296. m' (str + of_nat i) =
        (if k \<le> i \<and> i < k + length (dlist v) then dchar (dlist v ! (i - k)) else m (str + of_nat i)))"
  using assms
proof (induction v arbitrary: k m rule: dlist.induct)
  case (1 v)
  let ?m = "m(str + of_nat k := dchar (v mod 10))"
  have c: "of_int (int (v mod 10) + 48) = dchar (v mod 10)"
    by (simp add: dchar_def)
  have k: "k < 4294967296"
    using 1(2) by (subst (asm) dlist.simps) (simp split: if_splits)
  show ?case
  proof (cases "v div 10 mod 10 = 0")
    case True
    have d: "dlist v = [v mod 10]"
      using True by (subst dlist.simps) (simp only: if_False not_not simp_thms)
    have "ltostr_digits str (int v) k m = (k + 1, ?m)"
      using True by (subst ltostr_digits.simps) (simp only: smod_nat c Let_def, simp)
    then show ?thesis
      using k by (auto simp: d offset_eq)
  next
    case False
    have d: "dlist v = v mod 10 # dlist (v div 10)"
      using False by (subst dlist.simps) (simp only: if_True not_False_eq_True)
    have l: "k + 1 + length (dlist (v div 10)) \<le> 4294967296"
      using 1(2) by (simp add: d)
    have "ltostr_digits str (int v) k m = ltostr_digits str (int (v div 10)) (k + 1) ?m"
      using False by (subst ltostr_digits.simps) (simp only: smod_nat c Let_def, simp)
    moreover obtain m' where "ltostr_digits str (int (v div 10)) (k + 1) ?m = (k + 1 + length (dlist (v div 10)), m')"
      and m': "\<forall>i<4294967296. m' (str + of_nat i) =
        (if k + 1 \<le> i \<and> i < k + 1 + length (dlist (v div 10)) then dchar (dlist (v div 10) ! (i - (k + 1)))
         else ?m (str + of_nat i))"
      using 1(1) [OF False l, of ?m] by blast
    moreover have "m' (str + of_nat i) =
        (if k \<le> i \<and> i < k + length (dlist v) then dchar (dlist v ! (i - k)) else m (str + of_nat i))"
      if "i < 4294967296" for i
      using m' [rule_format, OF that] that k by (auto simp: d offset_eq nth_Cons')
    ultimately show ?thesis
      by (simp add: d)
  qed
qed

lemma swap_ends_reverses:
  assumes "fin < 4294967296" and "i < 4294967296"
  shows "swap_ends str start fin m (str + of_nat i) =
    m (str + of_nat (if start \<le> i \<and> i \<le> fin then start + fin - i else i))"
  using assms
proof (induction str start fin m rule: swap_ends.induct)
  case (1 str start fin m)
  show ?case
  proof (cases "start < fin")
    case True
    let ?m = "m(str + of_nat start := m (str + of_nat fin), str + of_nat fin := m (str + of_nat start))"
    have "swap_ends str start fin m = swap_ends str (start + 1) (fin - 1) ?m"
      using True by (subst swap_ends.simps) simp
    moreover have "swap_ends str (start + 1) (fin - 1) ?m (str + of_nat i) =
        ?m (str + of_nat (if start + 1 \<le> i \<and> i \<le> fin - 1 then start + 1 + (fin - 1) - i else i))"
      by (rule 1(1) [OF True]) (use 1(2,3) in simp_all)
    moreover have "?m (str + of_nat j) =
        (if j = fin then m (str + of_nat start) else if j = start then m (str + of_nat fin) else m (str + of_nat j))"
      if "j < 4294967296" for j
      using 1(2) True that by (simp add: offset_eq)
    moreover have "(if start + 1 \<le> i \<and> i \<le> fin - 1 then start + 1 + (fin - 1) - i else i) < 4294967296"
      using 1(2,3) True by auto
    ultimately have "swap_ends str start fin m (str + of_nat i) =
      (let j = if start + 1 \<le> i \<and> i \<le> fin - 1 then start + 1 + (fin - 1) - i else i
       in if j = fin then m (str + of_nat start) else if j = start then m (str + of_nat fin) else m (str + of_nat j))"
      by (simp only: Let_def)
    moreover have "(let j = if start + 1 \<le> i \<and> i \<le> fin - 1 then start + 1 + (fin - 1) - i else i
       in if j = fin then start else if j = start then fin else j) =
      (if start \<le> i \<and> i \<le> fin then start + fin - i else i)"
      using True by (auto simp: Let_def)
    ultimately show ?thesis
      by (auto simp: Let_def split: if_splits)
  next
    case False
    then have "(if start \<le> i \<and> i \<le> fin then start + fin - i else i) = i"
      by auto
    then show ?thesis
      using False by (subst swap_ends.simps) simp
  qed
qed

lemma sint_uminus:
  assumes "(w :: u32) \<noteq> 0x80000000"
  shows "sint (- w) = - sint w"
proof -
  have r: "- 2147483648 \<le> sint w" "sint w < 2147483648"
    using sint_greater_eq [of w] sint_less [of w] by simp_all
  have "sint w \<noteq> sint (0x80000000 :: u32)"
    using assms by (metis signed_word_eqI)
  then have "sint w \<noteq> - 2147483648"
    by simp
  then have "signed_take_bit 31 (- sint w) = - sint w"
    using r by (intro signed_take_bit_int_eq_self) simp_all
  moreover have "- w = of_int (- sint w)"
    by simp
  ultimately show ?thesis
    by (simp only: signed_of_int) simp
qed

text \<open>What \<^verbatim>\<open>ltostr\<close> leaves in memory: a sign, the digits and the terminating 0.\<close>

lemma ltostr_writes:
  assumes "val \<noteq> 0x80000000" and "v = nat \<bar>sint val\<bar>" and "p = (if sint val < 0 then 1 else 0)"
  shows "(sint val < 0 \<longrightarrow> ltostr val str m str = 45) \<and>
     (\<forall>j<length (dlist v). ltostr val str m (str + of_nat (p + j)) = dchar (rev (dlist v) ! j)) \<and>
     ltostr val str m (str + of_nat (p + length (dlist v))) = 0"
proof -
  let ?L = "length (dlist v)"
  let ?m1 = "if sint val < 0 then m(str := 45) else m"
  have v: "(if sint val < 0 then sint (- val) else sint val) = int v"
    using assms(1,2) by (simp add: sint_uminus)
  have "v < 2147483649"
    using sint_greater_eq [of val] sint_less [of val] assms(2) by (simp add: nat_less_iff)
  then have L: "p + ?L < 4294967296" "p \<le> 1"
    using length_dlist [of v] assms(3) by (auto split: if_splits)
  have "0 < ?L"
    by (subst dlist.simps) simp
  obtain m2 where m2: "ltostr_digits str (int v) p ?m1 = (p + ?L, m2)"
    and d: "\<forall>i<4294967296. m2 (str + of_nat i) =
        (if p \<le> i \<and> i < p + ?L then dchar (dlist v ! (i - p)) else ?m1 (str + of_nat i))"
    using ltostr_digits_run [of p v str ?m1] L by auto
  have l: "ltostr val str m = (swap_ends str p (p + ?L - 1) m2)(str + of_nat (p + ?L) := 0)"
    unfolding ltostr_def Let_def v assms(3) [symmetric] m2 by simp
  have at: "ltostr val str m (str + of_nat i) = m2 (str + of_nat (if p \<le> i then p + (p + ?L - 1) - i else i))"
    if "i < p + ?L" for i
  proof -
    have "i \<le> p + ?L - 1" "p + ?L - 1 < 4294967296" "i < 4294967296" "i \<noteq> p + ?L"
      using that L by linarith+
    then show ?thesis
      using L(1) by (simp only: l fun_upd_apply add_left_cancel offset_eq swap_ends_reverses if_False simp_thms)
  qed
  have "ltostr val str m (str + of_nat (p + j)) = dchar (rev (dlist v) ! j)" if "j < ?L" for j
  proof -
    have "p \<le> p + (p + ?L - 1) - (p + j)" "p + (p + ?L - 1) - (p + j) < p + ?L"
      "p + (p + ?L - 1) - (p + j) - p = ?L - 1 - j"
      using that by auto
    then show ?thesis
      using at [of "p + j"] d [rule_format, of "p + (p + ?L - 1) - (p + j)"] that L
      by (simp add: rev_nth del: of_nat_add)
  qed
  moreover have "ltostr val str m str = 45" if "sint val < 0"
    using at [of 0] d [rule_format, of 0] that assms(3) by simp
  ultimately show ?thesis
    by (simp add: l del: of_nat_add)
qed

lemma dchar_above: "k < 10 \<Longrightarrow> uint c < 48 \<Longrightarrow> dchar k \<noteq> c"
  using uint_dchar [of k] by auto

text \<open>Reading a decimal number with an optional minus sign, which ends with a 0.\<close>

lemma strtol_decimal:
  assumes p: "p = (if neg then 1 else 0)" and sign: "neg \<longrightarrow> m str = 45"
    and h: "holds m (str + of_nat p) (map dchar ds)" and dg: "\<forall>k\<in>set ds. k < 10" and ne: "ds \<noteq> []"
    and e: "m (str + of_nat (p + length ds)) = 0"
  shows "strtol m str 10 =
    Some (if neg then - fold (\<lambda>k v. v * 10 + of_nat k) ds 0 else fold (\<lambda>k v. v * 10 + of_nat k) ds 0,
          str + of_nat (p + length ds))"
proof -
  let ?s = "str + of_nat p" and ?v = "fold (\<lambda>k v. v * 10 + of_nat k) ds (0 :: u32)"
  have first: "m ?s = dchar (hd ds)" "hd ds < 10"
    using h dg ne by (cases ds; simp add: holds_Cons)+
  have d: "m ?s \<noteq> 32" "m ?s \<noteq> 9" "m ?s \<noteq> 43" "m ?s \<noteq> 45"
    unfolding first(1) by (rule dchar_above [OF first(2)], simp)+
  have blanks: "skip_blanks m str = Some str"
    using sign d p by (subst skip_blanks.simps) (auto split: if_splits)
  have "strtol_digits m 10 ?s 0 = strtol_digits m 10 (str + of_nat (p + length ds)) ?v"
    using strtol_digits_run [OF h dg, of 0] by (simp only: of_nat_add add.assoc)
  also have "\<dots> = Some (str + of_nat (p + length ds), ?v)"
    by (subst strtol_digits.simps) (simp only: e, simp add: digit_of_def)
  finally show ?thesis
    using sign d p by (simp add: strtol_def blanks split: if_splits)
qed

lemma strtol_ltostr:
  assumes "val \<noteq> 0x80000000" and "v = nat \<bar>sint val\<bar>" and "p = (if sint val < 0 then 1 else 0)"
  shows "strtol (ltostr val str m) str 10 =
    Some (if sint val < 0 then - of_nat (dval (dlist v)) else of_nat (dval (dlist v)),
          str + of_nat (p + length (dlist v)))"
proof -
  let ?m = "ltostr val str m" and ?ds = "rev (dlist v)"
  have w: "sint val < 0 \<longrightarrow> ?m str = 45" "?m (str + of_nat (p + length ?ds)) = 0"
    "\<forall>j<length (dlist v). ?m (str + of_nat (p + j)) = dchar (?ds ! j)"
    using ltostr_writes [OF assms, of str m] by auto
  have dg: "\<forall>k\<in>set ?ds. k < 10"
    using dlist_digits [of v] by simp
  have ne: "?ds \<noteq> []"
    by (subst dlist.simps) simp
  have h: "holds ?m (str + of_nat p) (map dchar ?ds)"
    using w(3) by (simp add: holds_def add.assoc del: rev_map)
  show ?thesis
    using strtol_decimal [OF assms(3) w(1) h dg ne w(2)] by (simp only: fold_digits length_rev)
qed

section \<open>Words of a line\<close>

function tokens :: "(u8 \<Rightarrow> bool) \<Rightarrow> u8 list \<Rightarrow> u8 list list" where
  "tokens P xs =
     (let ys = dropWhile P xs
      in if ys = [] then [] else takeWhile (\<lambda>c. \<not> P c) ys # tokens P (dropWhile (\<lambda>c. \<not> P c) ys))"
  by pat_completeness auto
termination
proof (relation "measure (\<lambda>(P, xs). length xs)", goal_cases)
  case (2 P xs ys)
  then obtain y ys' where ys: "ys = y # ys'"
    by (meson neq_Nil_conv)
  then have "\<not> P y"
    using 2 hd_dropWhile [of P xs] by simp
  then have "length (dropWhile (\<lambda>c. \<not> P c) ys) \<le> length ys'"
    using length_dropWhile_le [of _ ys'] by (simp add: ys)
  moreover have "length ys \<le> length xs"
    using 2 length_dropWhile_le by simp
  ultimately show ?case
    using ys by simp
qed simp

declare tokens.simps [simp del]

lemma cstr_cong:
  "\<forall>i\<le>length xs. m' (s + of_nat i) = m (s + of_nat i) \<Longrightarrow> cstr m' s xs = cstr m s xs"
proof (induction xs arbitrary: s)
  case (Cons x xs)
  have "m' (s + 1 + of_nat i) = m (s + 1 + of_nat i)" if "i \<le> length xs" for i
    using Cons.prems [rule_format, of "Suc i"] that by (simp add: add.assoc [symmetric])
  then show ?case
    using Cons.IH [of "s + 1"] Cons.prems [rule_format, of 0] by simp
qed simp

lemma cstr_nth:
  "cstr m s xs \<Longrightarrow> i < length xs \<Longrightarrow> m (s + of_nat i) = xs ! i \<and> xs ! i \<noteq> 0"
proof (induction xs arbitrary: s i)
  case (Cons x xs)
  then show ?case
    using Cons.IH [of "s + 1" "i - 1"] by (cases i) (simp_all add: add.assoc [symmetric])
qed simp

lemma cstr_end: "cstr m s xs \<Longrightarrow> m (s + of_nat (length xs)) = 0"
  by (induction xs arbitrary: s) (simp_all add: add.assoc [symmetric])

lemma cstr_drop: "cstr m s (xs @ ys) \<Longrightarrow> cstr m (s + of_nat (length xs)) ys"
  by (induction xs arbitrary: s) (simp_all add: add.assoc [symmetric])

lemma cstrI:
  "\<forall>i<length xs. m (s + of_nat i) = xs ! i \<and> xs ! i \<noteq> 0 \<Longrightarrow> m (s + of_nat (length xs)) = 0 \<Longrightarrow> cstr m s xs"
proof (induction xs arbitrary: s)
  case (Cons x xs)
  have "m (s + 1 + of_nat i) = xs ! i \<and> xs ! i \<noteq> 0" if "i < length xs" for i
    using Cons.prems(1) [rule_format, of "Suc i"] that by (simp add: add.assoc [symmetric])
  moreover have "m (s + 1 + of_nat (length xs)) = 0"
    using Cons.prems(2) by (simp add: add.assoc [symmetric])
  ultimately show ?case
    using Cons.IH [of "s + 1"] Cons.prems(1) [rule_format, of 0] by simp
qed simp

text \<open>The separators, none of which is at address 0.\<close>

definition seps_at :: "bytes \<Rightarrow> u32 \<Rightarrow> u8 list \<Rightarrow> bool" where
  "seps_at m p zs \<longleftrightarrow> cstr m p zs \<and> (\<forall>i<length zs. p + of_nat i \<noteq> 0)"

lemma strchr_cstr:
  "cstr m p zs \<Longrightarrow>
   \<exists>q. strchr m p c = Some q \<and> (if c \<in> set zs then \<exists>i<length zs. q = p + of_nat i else q = 0)"
proof (induction zs arbitrary: p)
  case Nil
  then show ?case
    by (simp add: strchr.simps [of m p])
next
  case (Cons z zs)
  show ?case
  proof (cases "z = c")
    case True
    then show ?thesis
      using Cons.prems by (intro exI [of _ p]) (auto simp: strchr.simps [of m p] intro: exI [of _ 0])
  next
    case False
    then obtain q where "strchr m p c = Some q"
      and q: "if c \<in> set zs then \<exists>i<length zs. q = p + 1 + of_nat i else q = 0"
      using Cons.IH [of "p + 1"] Cons.prems by (auto simp: strchr.simps [of m p])
    moreover have "\<exists>j<length (z # zs). q = p + of_nat j" if "i < length zs" "q = p + 1 + of_nat i" for i
      using that by (intro exI [of _ "Suc i"]) (simp add: add.assoc)
    ultimately show ?thesis
      using False by (auto split: if_splits)
  qed
qed

lemma is_split_at: "seps_at m p zs \<Longrightarrow> is_split m p c = Some (c \<in> set zs)"
  using strchr_cstr [of m p zs c] by (auto simp: is_split_def seps_at_def split: if_splits)

lemma skip_word_run:
  "cstr m a xs \<Longrightarrow> seps_at m p zs \<Longrightarrow>
   skip_word m p a = Some (a + of_nat (length (takeWhile (\<lambda>c. c \<notin> set zs) xs)))"
  by (induction xs arbitrary: a) (auto simp: skip_word.simps is_split_at add.assoc)

definition zeroed :: "u32 \<Rightarrow> nat \<Rightarrow> bytes \<Rightarrow> bytes" where
  "zeroed a n m = (\<lambda>x. if \<exists>i<n. x = a + of_nat i then 0 else m x)"

lemma zeroed_Suc: "zeroed a (Suc n) m = zeroed (a + 1) n (m(a := 0))"
proof
  fix x
  have "(\<exists>i<Suc n. x = a + of_nat i) \<longleftrightarrow> x = a \<or> (\<exists>i<n. x = a + 1 + of_nat i)"
    by (simp add: Ex_less_Suc2 add.assoc)
  then show "zeroed a (Suc n) m x = zeroed (a + 1) n (m(a := 0)) x"
    by (auto simp: zeroed_def)
qed

text \<open>Two ranges without a common address.\<close>

definition apart :: "u32 \<Rightarrow> nat \<Rightarrow> u32 \<Rightarrow> nat \<Rightarrow> bool" where
  "apart a n b k \<longleftrightarrow> (\<forall>i<n. \<forall>j<k. a + of_nat i \<noteq> b + of_nat j)"

lemma seps_at_other:
  "seps_at m p zs \<Longrightarrow> \<forall>j<Suc (length zs). m' (p + of_nat j) = m (p + of_nat j) \<Longrightarrow> seps_at m' p zs"
  using cstr_cong [of zs m' p m] by (auto simp: seps_at_def less_Suc_eq_le)

lemma trim_run:
  assumes "cstr m a xs" and "seps_at m p zs" and "apart a (length xs) p (Suc (length zs))"
    and "length xs < 4294967296"
  shows "trim p a m = Some (a + of_nat (length (takeWhile (\<lambda>c. c \<in> set zs) xs)),
     zeroed a (length (takeWhile (\<lambda>c. c \<in> set zs) xs)) m)"
  using assms
proof (induction xs arbitrary: a m)
  case Nil
  then show ?case
    by (simp add: trim.simps zeroed_def)
next
  case (Cons x xs)
  show ?case
  proof (cases "x \<in> set zs")
    case False
    then show ?thesis
      using Cons.prems is_split_at [OF Cons.prems(2)] by (simp add: trim.simps [of p a] zeroed_def)
  next
    case True
    let ?m = "m(a := 0)"
    have "a + 1 + of_nat i \<noteq> a" if "i \<le> length xs" "i < 4294967295" for i
      using that offset_eq [of "Suc i" 0] by (simp add: add.assoc)
    then have "cstr ?m (a + 1) xs"
      using Cons.prems(1,4) by (subst cstr_cong [of _ _ _ m]) auto
    moreover have "a \<noteq> p + of_nat j" if "j < Suc (length zs)" for j
      using Cons.prems(3) [unfolded apart_def, rule_format, of 0 j] that by simp
    then have "seps_at ?m p zs"
      by (intro seps_at_other [OF Cons.prems(2)]) auto
    moreover have "apart (a + 1) (length xs) p (Suc (length zs))"
      unfolding apart_def
    proof (intro allI impI)
      fix i j assume "i < length xs" "j < Suc (length zs)"
      then show "a + 1 + of_nat i \<noteq> p + of_nat j"
        using Cons.prems(3) [unfolded apart_def, rule_format, of "Suc i" j] by (simp add: add.assoc)
    qed
    ultimately have "trim p (a + 1) ?m = Some (a + 1 + of_nat (length (takeWhile (\<lambda>c. c \<in> set zs) xs)),
       zeroed (a + 1) (length (takeWhile (\<lambda>c. c \<in> set zs) xs)) ?m)"
      using Cons.IH Cons.prems(4) by simp
    then show ?thesis
      using True Cons.prems(1) is_split_at [OF Cons.prems(2)]
      by (simp add: trim.simps [of p a] zeroed_Suc add.assoc)
  qed
qed

text \<open>The loop from a place in the line: what it returns and which bytes it changes.\<close>

definition split_result ::
    "u32 \<Rightarrow> u8 list \<Rightarrow> u32 \<Rightarrow> u8 list \<Rightarrow> u32 list \<Rightarrow> bytes \<Rightarrow> bool \<times> u32 list \<times> bytes \<Rightarrow> bool" where
  "split_result p zs a xs argv m r \<longleftrightarrow>
     (let (ok, argv', m') = r; ws = tokens (\<lambda>c. c \<in> set zs) xs in
      ok = (length argv + length ws \<le> 15) \<and>
      (\<exists>ps. argv' = argv @ ps \<and> length ps = min (15 - length argv) (length ws) \<and>
         (\<forall>i<length ps. cstr m' (ps ! i) (ws ! i))) \<and>
      (\<forall>x. m' x \<noteq> m x \<longrightarrow> (\<exists>i<length xs. x = a + of_nat i \<and> xs ! i \<in> set zs)) \<and>
      (xs \<noteq> [] \<longrightarrow> hd xs \<in> set zs \<longrightarrow> m' a = 0))"

lemma seps_apart:
  assumes "seps_at m p zs" and "apart a n p (Suc (length zs))"
    and "\<forall>x. m' x \<noteq> m x \<longrightarrow> (\<exists>i<n. x = a + of_nat i)"
  shows "seps_at m' p zs"
proof (rule seps_at_other [OF assms(1)], intro allI impI)
  fix j assume "j < Suc (length zs)"
  then have "\<not> (\<exists>i<n. p + of_nat j = a + of_nat i)"
    using assms(2) unfolding apart_def by metis
  then show "m' (p + of_nat j) = m (p + of_nat j)"
    using assms(3) by blast
qed

lemma apart_shift: "apart a n p k \<Longrightarrow> i + n' \<le> n \<Longrightarrow> apart (a + of_nat i) n' p k"
  unfolding apart_def by (metis (no_types, lifting) add.assoc add.commute add_less_mono1 le_Suc_ex
      less_le_trans of_nat_add trans_less_add1 nat_add_left_cancel_less)

lemma strsplit_loop_run:
  assumes "cstr m a xs" and "seps_at m p zs" and "apart a (length xs) p (Suc (length zs))"
    and "length xs < 4294967296" and "length argv \<le> 15"
  shows "\<exists>r. strsplit_loop p a argv m = Some r \<and> split_result p zs a xs argv m r"
  using assms
proof (induction "length xs" arbitrary: a xs argv m rule: less_induct)
  case less
  let ?P = "\<lambda>c. c \<in> set zs"
  let ?sp = "takeWhile ?P xs" and ?ys = "dropWhile ?P xs"
  let ?n = "length ?sp" and ?m1 = "zeroed a (length (takeWhile ?P xs)) m"
  let ?a1 = "a + of_nat ?n"
  have trim: "trim p a m = Some (?a1, ?m1)"
    by (rule trim_run [OF less.prems(1-4)])
  have len: "?n + length ?ys = length xs"
    by (metis length_append takeWhile_dropWhile_id)
  have nth: "xs ! i = (if i < ?n then ?sp ! i else ?ys ! (i - ?n))" if "i < length xs" for i
    by (metis nth_append takeWhile_dropWhile_id)
  have ch1: "\<exists>i<?n. x = a + of_nat i" if "?m1 x \<noteq> m x" for x
    using that by (auto simp: zeroed_def split: if_splits)
  have ne: "a + of_nat i \<noteq> a + (of_nat j :: u32)" if "i \<noteq> j" "i < 4294967296" "j < 4294967296" for i j
    using that by (simp add: offset_eq)
  have m1_rest: "?m1 (?a1 + of_nat i) = m (?a1 + of_nat i)" if "i \<le> length ?ys" for i
  proof -
    have "?a1 + of_nat i \<noteq> a + of_nat j" if "j < ?n" for j
      using ne [of "?n + i" j] that \<open>i \<le> length ?ys\<close> len less.prems(4) by (simp add: add.assoc)
    then show ?thesis
      using ch1 by blast
  qed
  have c1: "cstr ?m1 ?a1 ?ys"
    using cstr_drop [of m a ?sp ?ys] less.prems(1) m1_rest by (subst cstr_cong [of _ _ _ m]) simp_all
  have z1: "xs \<noteq> [] \<longrightarrow> hd xs \<in> set zs \<longrightarrow> ?m1 a = 0"
    by (cases xs) (auto simp: zeroed_def intro: exI [of _ 0])
  have sp: "xs ! i \<in> set zs" if "i < ?n" for i
    using that nth_mem [OF that] set_takeWhileD [of "?sp ! i" ?P xs] nth [of i] len by simp
  have ch: "\<exists>i<length xs. x = a + of_nat i \<and> xs ! i \<in> set zs" if "?m1 x \<noteq> m x" for x
  proof -
    have "\<exists>i<?n. x = a + of_nat i"
      by (rule ch1) (fact that)
    then obtain i where "i < ?n" "x = a + of_nat i"
      by blast
    then show ?thesis
      using sp len by (intro exI [of _ i]) simp
  qed
  have stop: "split_result p zs a xs argv m (ok, argv, ?m1)"
    if "ok = (length argv + length (tokens ?P xs) \<le> 15)" "length argv = 15 \<or> tokens ?P xs = []" for ok
    unfolding split_result_def Let_def prod.case
  proof (intro conjI exI [of _ "[]"] allI impI)
    show "length [] = min (15 - length argv) (length (tokens ?P xs))"
      using that(2) by auto
  qed (use that(1) ch z1 in simp_all)
  show ?case
  proof (cases "?ys = []")
    case True
    then have "?m1 ?a1 = 0"
      using c1 by (simp only: cstr.simps)
    then have "strsplit_loop p a argv m = Some (True, argv, ?m1)"
      by (subst strsplit_loop.simps) (simp only: trim bind.bind_lunit prod.case if_True simp_thms)
    moreover have "tokens ?P xs = []"
      using True by (subst tokens.simps) simp
    ultimately show ?thesis
      using stop [of True] less.prems(5) by simp
  next
    case False
    have y: "?m1 ?a1 \<noteq> 0" "hd ?ys \<notin> set zs"
      using cstr_nth [OF c1, of 0] False hd_dropWhile [OF False] by simp_all
    let ?w = "takeWhile (\<lambda>c. c \<notin> set zs) ?ys" and ?rest = "dropWhile (\<lambda>c. c \<notin> set zs) ?ys"
    have tk: "tokens ?P xs = ?w # tokens ?P ?rest"
      using False by (subst tokens.simps) (simp add: Let_def)
    show ?thesis
    proof (cases "length argv = 15")
      case True
      then have "strsplit_loop p a argv m = Some (False, argv, ?m1)"
        using y by (subst strsplit_loop.simps) (simp add: trim MAX_ARGUMENTS_def)
      then show ?thesis
        using stop [of False] True by (simp add: tk)
    next
      case no: False
      let ?k = "length ?w"
      let ?a2 = "?a1 + of_nat ?k"
      have len2: "?k + length ?rest = length ?ys"
        by (metis length_append takeWhile_dropWhile_id)
      have "?w \<noteq> []"
        using y(2) False by (cases ?ys) auto
      then have k0: "0 < ?k"
        by simp
      have s1: "seps_at ?m1 p zs"
        by (rule seps_apart [OF less.prems(2,3)]) (use ch in blast)
      have step: "strsplit_loop p a argv m = strsplit_loop p ?a2 (argv @ [?a1]) ?m1"
        using y no skip_word_run [OF c1 s1] by (subst strsplit_loop.simps) (simp add: trim MAX_ARGUMENTS_def)
      have c2: "cstr ?m1 ?a2 ?rest"
        using cstr_drop [of ?m1 ?a1 ?w ?rest] c1 by simp
      have "apart (a + of_nat (?n + ?k)) (length ?rest) p (Suc (length zs))"
        using len len2 by (intro apart_shift [OF less.prems(3)]) simp
      then have ap: "apart ?a2 (length ?rest) p (Suc (length zs))"
        by (simp add: add.assoc)
      have "length ?rest < length xs" "length ?rest < 4294967296"
        using len len2 k0 less.prems(4) by linarith+
      then obtain r where r: "strsplit_loop p ?a2 (argv @ [?a1]) ?m1 = Some r"
        "split_result p zs ?a2 ?rest (argv @ [?a1]) ?m1 r"
        using less.hyps [of ?rest ?m1 ?a2 "argv @ [?a1]"] c2 s1 ap no less.prems(5) by auto
      obtain ok argv' m' where r': "r = (ok, argv', m')"
        by (cases r) auto
      note sr = r(2) [unfolded split_result_def r' Let_def prod.case]
      have ok: "ok = (length argv + 1 + length (tokens ?P ?rest) \<le> 15)"
        using sr [THEN conjunct1] by simp
      obtain ps where "argv' = (argv @ [?a1]) @ ps"
        and "length ps = min (15 - length (argv @ [?a1])) (length (tokens ?P ?rest))"
        and ps3: "\<forall>i<length ps. cstr m' (ps ! i) (tokens ?P ?rest ! i)"
        using sr by blast
      then have ps: "argv' = argv @ ?a1 # ps" "length ps = min (14 - length argv) (length (tokens ?P ?rest))"
        by simp_all
      have ch2: "\<exists>i<length ?rest. x = ?a2 + of_nat i \<and> ?rest ! i \<in> set zs" if "m' x \<noteq> ?m1 x" for x
        using sr that by blast
      have z: "?rest \<noteq> [] \<longrightarrow> hd ?rest \<in> set zs \<longrightarrow> m' ?a2 = 0"
        using sr by blast
      have keep: "m' (a + of_nat i) = ?m1 (a + of_nat i)" if "i < ?n + ?k" for i
      proof (rule ccontr)
        assume "m' (a + of_nat i) \<noteq> ?m1 (a + of_nat i)"
        then obtain j where j: "j < length ?rest" "a + of_nat i = ?a2 + of_nat j"
          using ch2 by blast
        moreover from j(2) have "a + of_nat i = a + (of_nat (?n + ?k + j) :: u32)"
          by (simp only: of_nat_add add.assoc)
        ultimately
        show False
          using ne [of i "?n + ?k + j"] that len len2 less.prems(4) by linarith
      qed
      have "cstr m' ?a1 ?w"
      proof (rule cstrI)
        show "\<forall>i<?k. m' (?a1 + of_nat i) = ?w ! i \<and> ?w ! i \<noteq> 0"
        proof (intro allI impI)
          fix i assume "i < ?k"
          then show "m' (?a1 + of_nat i) = ?w ! i \<and> ?w ! i \<noteq> 0"
            using keep [of "?n + i"] cstr_nth [OF c1, of i] len2
            by (simp add: add.assoc takeWhile_nth)
        qed
        show "m' ?a2 = 0"
        proof (cases "?rest = []")
          case True
          then have "\<not> (\<exists>i<length ?rest. ?a2 = ?a2 + of_nat i \<and> ?rest ! i \<in> set zs)"
            by (simp only: list.size not_less_zero simp_thms)
          then have "m' ?a2 = ?m1 ?a2"
            using ch2 by blast
          also have "\<dots> = 0"
            using c2 True by (simp only: cstr.simps)
          finally show ?thesis .
        next
          case False
          then show ?thesis
            using z hd_dropWhile [OF False] by simp
        qed
      qed
      then have "\<forall>i<length (?a1 # ps). cstr m' ((?a1 # ps) ! i) (tokens ?P xs ! i)"
        using ps3 by (simp add: tk All_less_Suc2)
      moreover have "\<exists>i<length xs. x = a + of_nat i \<and> xs ! i \<in> set zs" if "m' x \<noteq> m x" for x
      proof (cases "m' x = ?m1 x")
        case True
        then show ?thesis
          using ch [of x] that by simp
      next
        case False
        then obtain i where i: "i < length ?rest" "x = ?a2 + of_nat i" "?rest ! i \<in> set zs"
          using ch2 by auto
        have "?ys ! (?k + i) = ?rest ! i"
          by (metis nth_append_length_plus takeWhile_dropWhile_id)
        then show ?thesis
          using i len len2 nth [of "?n + (?k + i)"]
          by (intro exI [of _ "?n + (?k + i)"]) (simp add: add.assoc)
      qed
      moreover have "m' a = 0" if "xs \<noteq> []" "hd xs \<in> set zs"
        using keep [of 0] z1 k0 that by simp
      ultimately show ?thesis
        using step r(1) r' ok ps(1,2) no less.prems(5)
        by (intro exI [of _ r]) (auto simp: split_result_def tk intro!: exI [of _ "?a1 # ps"])
    qed
  qed
qed

section \<open>Properties\<close>

text \<open>\<^verbatim>\<open>strlen\<close> returns exactly when a terminator can be reached, and then the number of
  bytes before it (in 32 bits); over memory without a 0 it never returns.\<close>

theorem strlen_counts:
  "strlen m s = Some n \<longleftrightarrow> (\<exists>xs. cstr m s xs \<and> n = of_nat (length xs))"
  using strlen_loop_cstr [of m s _ 0] strlen_loop_only [of m s 0 n] by (auto simp: strlen_def)

text \<open>\<^verbatim>\<open>strcmp\<close> on two terminated strings returns and is the lexicographic order of their
  bytes, taken as unsigned: 0 exactly for equal strings, negative exactly when the first is smaller.\<close>

theorem strcmp_lexicographic:
  assumes "cstr m p xs" and "cstr m q ys"
  shows "\<exists>r. strcmp m p q = Some r \<and> (r = 0 \<longleftrightarrow> xs = ys) \<and> (r < 0 \<longleftrightarrow> ord_class.lexordp xs ys)"
  using assms by (rule strcmp_cstr)

theorem strcmp_lexicographic_witness:
  "\<exists>r. strcmp (\<lambda>a. if a = 0x100 then 0x80 else if a = 0x200 then 0x41 else 0) 0x100 0x200 = Some r \<and> \<not> r < 0"
  using strcmp_lexicographic [of "\<lambda>a. if a = 0x100 then 0x80 else if a = 0x200 then 0x41 else 0"
      "0x100" "[0x80]" "0x200" "[0x41]"] by auto

text \<open>\<^verbatim>\<open>memmove\<close> is correct for every overlap: the destination gets the former contents of
  the source and no other byte changes, if neither block reaches past the end of the address space.\<close>

theorem memmove_any_overlap:
  assumes "unat d + unat n \<le> 4294967296" and "unat s + unat n < 4294967296"
  shows "memmove d s n m = (d, \<lambda>a. if in_block d (unat n) a then m (s + (a - d)) else m a)"
  using memmove_moved [OF assms] by (simp add: moved_def)

theorem memmove_any_overlap_witness:
  "snd (memmove 0x101 0x100 3 (\<lambda>a. ucast a)) 0x103 = 2"
  using memmove_any_overlap [of "0x101" "3" "0x100" "\<lambda>a. ucast a"] by (simp add: in_block_def)

text \<open>\<^verbatim>\<open>memset\<close> sets the \<open>n\<close> bytes of the block to the low byte of \<open>c\<close> and nothing
  else, for \<open>n\<close> below \<open>2 ^ 31\<close>.\<close>

theorem memset_fills:
  assumes "unat v + unat n \<le> 4294967296" and "n < 0x80000000"
  shows "memset v c n m = (v, \<lambda>a. if in_block v (unat n) a then ucast c else m a)"
  using memset_loop_fills [of v "unat n" "ucast c" m] assms by (simp add: memset_def word_less_nat_alt)

theorem memset_fills_witness: "snd (memset 0x100 0x141 2 (\<lambda>a. 0)) 0x101 = 0x41"
  using memset_fills [of "0x100" "2" "0x141" "\<lambda>a. 0"] by (simp add: in_block_def)

text \<open>Above \<open>2 ^ 31\<close> bytes the count is negative and nothing is set.\<close>

theorem memset_large_writes_nothing:
  assumes "0x80000000 < n"
  shows "memset v c n m = (v, m)"
proof -
  have "unat (n - 1) = unat n - 1"
    using assms by (subst unat_sub_u32) (simp_all add: word_le_nat_alt word_less_nat_alt)
  moreover have "2147483648 < unat n" "unat n < 4294967296"
    using assms by (simp_all add: word_less_nat_alt)
  ultimately have "2147483648 * 1 \<le> unat (n - 1)"
    by linarith
  moreover have "unat (n - 1) < 2147483648 * Suc 1"
    by simp
  ultimately have "unat (n - 1) div 2147483648 = 1"
    by (rule div_nat_eqI)
  then have "(n - 1) div 2147483648 = 1"
    by (simp add: u32_eq_iff unat_div)
  then have "bit (n - 1) 31"
    by (simp add: bit_iff_odd)
  then have "sint (n - 1) < 0"
    using bit_last_iff [of "n - 1"] by simp
  then show ?thesis
    by (simp add: memset_def memset_loop.simps)
qed

theorem memset_large_writes_nothing_witness: "memset 0x100 0 0x90000000 (\<lambda>a. 7) = (0x100, \<lambda>a. 7)"
  using memset_large_writes_nothing [of "0x90000000" "0x100" 0 "\<lambda>a. 7"] by simp

text \<open>C30: For every number but the smallest, printing it with \<^verbatim>\<open>ltostr\<close> and reading the
  text with \<^verbatim>\<open>strtol\<close> gives the number back exactly when none of its decimal digits above the
  units is 0. In general \<^verbatim>\<open>ltostr\<close> keeps the sign and the digits below the lowest place
  \<open>k\<close> above the units with a 0 (in front of the number there are only zeros): what is read has the absolute
  value modulo \<open>10 ^ k\<close>, so that 100 and -100 come back as 0 and -1203 as -3.\<close>

theorem long_roundtrip_iff:
  assumes "val \<noteq> 0x80000000" and "v = nat \<bar>sint val\<bar>"
    and "k = (LEAST k. 0 < k \<and> v div 10 ^ k mod 10 = 0)"
  shows "\<exists>r e. strtol (ltostr val str m) str 10 = Some (r, e) \<and>
    sint r = (if sint val < 0 then - int (v mod 10 ^ k) else int (v mod 10 ^ k)) \<and>
    (r = val \<longleftrightarrow> (\<forall>j>0. 10 ^ j \<le> v \<longrightarrow> v div 10 ^ j mod 10 \<noteq> 0))"
proof -
  have ex: "0 < v + 1 \<and> v div 10 ^ (v + 1) mod 10 = 0"
  proof -
    have "v < 10 ^ (v + 1)"
      using power_gt_expt [of 10 "v + 1"] by simp
    then show ?thesis
      by simp
  qed
  note lk = LeastI [of "\<lambda>k. 0 < k \<and> v div 10 ^ k mod 10 = 0", OF ex, folded assms(3)]
  have less: "v div 10 ^ j mod 10 \<noteq> 0" if "0 < j" "j < k" for j
    using not_less_Least [of j "\<lambda>k. 0 < k \<and> v div 10 ^ k mod 10 = 0", folded assms(3)] that by simp
  let ?d = "v mod 10 ^ k"
  have d: "dval (dlist v) = ?d"
    by (rule dval_dlist_mod) (use lk less in blast)+
  have v: "v < 2 ^ 31"
    by (rule abs_sint_bound [OF assms(1,2)])
  then have "?d < 2 ^ 31"
    by (rule le_less_trans [OF mod_less_eq_dividend])
  define r where "r = (if sint val < 0 then - of_nat ?d else (of_nat ?d :: u32))"
  have sr: "sint r = (if sint val < 0 then - int ?d else int ?d)"
    unfolding r_def using sint_of_small [OF \<open>?d < 2 ^ 31\<close>] by simp
  have "r = val \<longleftrightarrow> sint r = sint val"
    using signed_word_eqI by blast
  also have "\<dots> \<longleftrightarrow> ?d = v"
    unfolding sr using assms(2) by auto
  also have "\<dots> \<longleftrightarrow> v < 10 ^ k"
    by (metis mod_less mod_less_divisor zero_less_numeral zero_less_power)
  also have "\<dots> \<longleftrightarrow> (\<forall>j>0. 10 ^ j \<le> v \<longrightarrow> v div 10 ^ j mod 10 \<noteq> 0)"
  proof (intro iffI allI impI)
    fix j assume lt: "v < 10 ^ k" and "0 < j" and le: "10 ^ j \<le> v"
    have "(10 :: nat) ^ j < 10 ^ k"
      using le lt by (rule le_less_trans)
    then have "j < k"
      by simp
    then show "v div 10 ^ j mod 10 \<noteq> 0"
      by (rule less [OF \<open>0 < j\<close>])
  next
    assume "\<forall>j>0. 10 ^ j \<le> v \<longrightarrow> v div 10 ^ j mod 10 \<noteq> 0"
    then show "v < 10 ^ k"
      using lk by (meson not_le)
  qed
  finally show ?thesis
    using sr strtol_ltostr [OF assms(1,2) refl, of str m] unfolding d r_def by blast
qed

theorem long_roundtrip_iff_witness:
  "\<exists>r e. strtol (ltostr 100 0x200 (\<lambda>a. 0)) 0x200 10 = Some (r, e) \<and> sint r = 0 \<and> r \<noteq> 100"
proof -
  have k: "(1 :: nat) = (LEAST k. 0 < k \<and> (100 :: nat) div 10 ^ k mod 10 = 0)"
    by (rule Least_equality [symmetric]) simp_all
  have "100 = nat \<bar>sint (100 :: u32)\<bar>"
    by simp
  from long_roundtrip_iff [OF _ this, of 1 "0x200" "\<lambda>a. 0"] k
  obtain r e where "strtol (ltostr 100 0x200 (\<lambda>a. 0)) 0x200 10 = Some (r, e)" "sint r = 0"
    by auto
  then show ?thesis
    by force
qed

text \<open>\<^verbatim>\<open>strsplit\<close> always returns and finds the words of the line: it succeeds exactly
  for at most 15 words, the arguments are the first 15 words in order, each a terminated string in
  the changed line. The line must not overlap the separators, none of which is at address 0.\<close>

theorem strsplit_words:
  assumes "cstr m s xs" and "seps_at m p zs" and "apart s (length xs) p (Suc (length zs))"
    and "length xs < 4294967296" and "ws = tokens (\<lambda>c. c \<in> set zs) xs"
  shows "\<exists>argv m'. strsplit s p m = Some (length ws \<le> 15, argv, m') \<and>
     length argv = min 15 (length ws) \<and> (\<forall>i<length argv. cstr m' (argv ! i) (ws ! i))"
  using strsplit_loop_run [OF assms(1-4), of "[]"]
  by (auto simp: strsplit_def split_result_def Let_def assms(5))

theorem strsplit_words_witness:
  "\<exists>argv m'. strsplit 0x100 0x200 (\<lambda>a. if a = 0x101 \<or> a = 0x200 then 32 else if a = 0x100 \<or> a = 0x102 then 65 else 0)
     = Some (True, argv, m') \<and> length argv = 2 \<and> cstr m' (argv ! 1) [65]"
proof -
  let ?m = "\<lambda>a :: u32. if a = 0x101 \<or> a = 0x200 then 32 else if a = 0x100 \<or> a = 0x102 then 65 else (0 :: u8)"
  have "cstr ?m 0x100 [65, 32, 65]" "seps_at ?m 0x200 [32]" "apart 0x100 3 0x200 2"
  proof -
    have "(\<forall>i<3. Q i) \<longleftrightarrow> Q 0 \<and> Q 1 \<and> Q (2 :: nat)" "(\<forall>i<2. Q i) \<longleftrightarrow> Q 0 \<and> Q (1 :: nat)" for Q
      by (auto simp: numeral_eq_Suc less_Suc_eq)
    then show "cstr ?m 0x100 [65, 32, 65]" "seps_at ?m 0x200 [32]" "apart 0x100 3 0x200 2"
      by (simp_all add: seps_at_def apart_def)
  qed
  moreover have "tokens (\<lambda>c. c \<in> set [32]) [65, 32, 65] = [[65], [65 :: u8]]"
    by (simp add: tokens.simps)
  ultimately show ?thesis
    using strsplit_words [of ?m "0x100" "[65, 32, 65]" "0x200" "[32]"]
    by (simp add: numeral_2_eq_2 numeral_3_eq_3) auto
qed

end
