(* ===== verification/Print_Fmt.thy ===== *)
theory Print_Fmt
  imports C_String
begin

text \<open>
  Formatted printing, \<^verbatim>\<open>lib/printfmt.c\<close>, with the buffers of \<^verbatim>\<open>lib/printf.c\<close>: the
  characters that are handed to \<^verbatim>\<open>putch\<close> are collected in a list, in order, and the callbacks are
  folds over it. The arguments are the words on the stack above the format, read one after the other.
  The field width is a mathematical integer (in C more than 2147483647 is undefined).
\<close>

section \<open>Numbers\<close>

definition hexdigit :: "nat \<Rightarrow> u32" where
  "hexdigit d = (if d < 10 then of_nat (48 + d) else of_nat (87 + d))"

text \<open>The base is 10 or 16; a base below 2 would recurse for ever and is cut off here.\<close>

function printnum :: "nat \<Rightarrow> nat \<Rightarrow> int \<Rightarrow> u32 \<Rightarrow> u32 list" where
  "printnum num b width padc =
     (if b \<le> num \<and> 1 < b then printnum (num div b) b (width - 1) padc
      else replicate (nat (width - 1)) padc) @ [hexdigit (num mod b)]"
  by pat_completeness auto
termination by (relation "measure (\<lambda>(num, b, width, padc). num)") auto

declare printnum.simps [simp del]

type_synonym va_list = "nat \<Rightarrow> u32"

definition va_long_long :: "va_list \<Rightarrow> nat \<Rightarrow> 64 word" where
  "va_long_long ap i = push_bit 32 (ucast (ap (i + 1))) + ucast (ap i)"

definition getuint :: "va_list \<Rightarrow> nat \<Rightarrow> nat \<Rightarrow> 64 word \<times> nat" where
  "getuint ap i lflag = (if 2 \<le> lflag then (va_long_long ap i, i + 2) else (ucast (ap i), i + 1))"

definition getint :: "va_list \<Rightarrow> nat \<Rightarrow> nat \<Rightarrow> 64 word \<times> nat" where
  "getint ap i lflag = (if 2 \<le> lflag then (va_long_long ap i, i + 2) else (scast (ap i), i + 1))"

section \<open>Directives\<close>

record fspec =
  padc :: u8
  width :: int
  precision :: int
  lflag :: nat
  altflag :: bool

definition fspec_init :: fspec where
  "fspec_init = \<lparr>padc = 32, width = - 1, precision = - 1, lflag = 0, altflag = False\<rparr>"

definition process_precision :: "int \<Rightarrow> fspec \<Rightarrow> fspec" where
  "process_precision p sp =
     (if width sp < 0 then sp\<lparr>width := p, precision := - 1\<rparr> else sp\<lparr>precision := p\<rparr>)"

partial_function (option) width_digits :: "bytes \<Rightarrow> u32 \<Rightarrow> int \<Rightarrow> u8 \<Rightarrow> (int \<times> u32) option" where
  "width_digits m fmt p ch =
     (let p = p * 10 + uint ch - 48; ch = m fmt
      in if ch < 48 \<or> 57 < ch then Some (p, fmt) else width_digits m (fmt + 1) p ch)"

text \<open>The flags and the width after a \<^verbatim>\<open>%\<close>, up to the conversion character.\<close>

partial_function (option) directive ::
    "bytes \<Rightarrow> va_list \<Rightarrow> u32 \<Rightarrow> fspec \<Rightarrow> nat \<Rightarrow> (u8 \<times> u32 \<times> fspec \<times> nat) option" where
  "directive m ap fmt sp i =
     (let ch = m fmt; fmt = fmt + 1 in
      if ch = 45 then directive m ap fmt (sp\<lparr>padc := 45\<rparr>) i
      else if ch = 48 then directive m ap fmt (sp\<lparr>padc := 48\<rparr>) i
      else if 49 \<le> ch \<and> ch \<le> 57 then
        Option.bind (width_digits m fmt 0 ch) (\<lambda>(p, fmt). directive m ap fmt (process_precision p sp) i)
      else if ch = 42 then directive m ap fmt (process_precision (sint (ap i)) sp) (i + 1)
      else if ch = 46 then directive m ap fmt (if width sp < 0 then sp\<lparr>width := 0\<rparr> else sp) i
      else if ch = 35 then directive m ap fmt (sp\<lparr>altflag := True\<rparr>) i
      else if ch = 108 then directive m ap fmt (sp\<lparr>lflag := lflag sp + 1\<rparr>) i
      else Some (ch, fmt, sp, i))"

section \<open>Conversions\<close>

text \<open>A string as the bytes from its start on; its characters are signed.\<close>

partial_function (option) print_chars ::
    "(nat \<Rightarrow> u8) \<Rightarrow> nat \<Rightarrow> bool \<Rightarrow> int \<Rightarrow> int \<Rightarrow> u32 list \<Rightarrow> (int \<times> u32 list) option" where
  "print_chars src j alt p w out =
     (let ch = src j in
      if ch \<noteq> 0 \<and> (p < 0 \<or> 0 \<le> p - 1)
      then print_chars src (j + 1) alt (if p < 0 then p else p - 1) (w - 1)
             (out @ [if alt \<and> (sint ch < 32 \<or> 126 < sint ch) then 63 else scast ch])
      else Some (w, out))"

definition print_str :: "(nat \<Rightarrow> u8) \<Rightarrow> fspec \<Rightarrow> u32 list option" where
  "print_str src sp =
     (let left = (if 0 < width sp \<and> padc sp \<noteq> 45
                  then width sp - sint (strnlen (\<lambda>a. src (unat a)) 0 (of_int (precision sp))) else 0);
          w = (if 0 < width sp \<and> padc sp \<noteq> 45 then min left 0 else width sp)
      in map_option (\<lambda>(w, out). replicate (nat left) (scast (padc sp)) @ out @ replicate (nat w) 32)
           (print_chars src 0 (altflag sp) (precision sp) w []))"

definition literal :: "string \<Rightarrow> nat \<Rightarrow> u8" where
  "literal s j = (if j < length s then of_char (s ! j) else 0)"

definition string_at :: "bytes \<Rightarrow> u32 \<Rightarrow> nat \<Rightarrow> u8" where
  "string_at m p = (if p = 0 then literal ''(null)'' else (\<lambda>j. m (p + of_nat j)))"

definition MAXERROR :: int where "MAXERROR = 100"

text \<open>The entries that are not initialised are null pointers.\<close>

definition error_string :: "string option list" where
  "error_string = [None, Some ''unspecified error'', Some ''bad environment'', Some ''invalid parameter'',
     Some ''out of memory'', Some ''out of environments'', Some ''segmentation fault''] @ replicate 94 None"

definition print_signed :: "64 word \<Rightarrow> fspec \<Rightarrow> u32 list" where
  "print_signed num sp =
     (if sint num < 0 then 45 # printnum (unat (- num)) 10 (width sp) (scast (padc sp))
      else printnum (unat num) 10 (width sp) (scast (padc sp)))"

text \<open>
  The nested \<^verbatim>\<open>printfmt\<close> calls print \<^verbatim>\<open>"error %d"\<close> and \<^verbatim>\<open>"%s"\<close>; the negation
  wraps for the smallest number, which is then no index of the table.
\<close>

definition print_error :: "u32 \<Rightarrow> u32 list option" where
  "print_error arg =
     (let err = sint (if sint arg < 0 then - arg else arg) in
      if err < 0 then None
      else (case if MAXERROR < err then None else error_string ! nat err of
              None \<Rightarrow> Some (map (\<lambda>c. of_char c) ''error '' @ print_signed (of_int err) fspec_init)
            | Some p \<Rightarrow> print_str (literal p) fspec_init))"

text \<open>An unknown conversion prints the \<^verbatim>\<open>%\<close> and goes back behind it.\<close>

partial_function (option) rewind_fmt :: "bytes \<Rightarrow> u32 \<Rightarrow> u32 option" where
  "rewind_fmt m fmt = (if m (fmt - 1) \<noteq> 37 then rewind_fmt m (fmt - 1) else Some fmt)"

definition convert ::
    "bytes \<Rightarrow> va_list \<Rightarrow> u8 \<times> u32 \<times> fspec \<times> nat \<Rightarrow> (u32 list \<times> u32 \<times> nat) option" where
  "convert m ap d =
     (let (ch, fmt, sp, i) = d in
      if ch = 99 then Some ([ap i], fmt, i + 1)
      else if ch = 101 then map_option (\<lambda>out. (out, fmt, i + 1)) (print_error (ap i))
      else if ch = 115 then map_option (\<lambda>out. (out, fmt, i + 1)) (print_str (string_at m (ap i)) sp)
      else if ch = 100 then (let (num, i) = getint ap i (lflag sp) in Some (print_signed num sp, fmt, i))
      else if ch = 117 then
        (let (num, i) = getuint ap i (lflag sp)
         in Some (printnum (unat num) 10 (width sp) (scast (padc sp)), fmt, i))
      else if ch = 111 then Some ([88, 88, 88], fmt, i)
      else if ch = 112 then Some ([48, 120] @ printnum (unat (ap i)) 16 (width sp) (scast (padc sp)), fmt, i + 1)
      else if ch = 120 then
        (let (num, i) = getuint ap i (lflag sp)
         in Some (printnum (unat num) 16 (width sp) (scast (padc sp)), fmt, i))
      else if ch = 37 then Some ([ucast ch], fmt, i)
      else map_option (\<lambda>fmt. ([37], fmt, i)) (rewind_fmt m (fmt - 1)))"

partial_function (option) vprintfmt :: "bytes \<Rightarrow> va_list \<Rightarrow> u32 \<Rightarrow> nat \<Rightarrow> u32 list \<Rightarrow> u32 list option" where
  "vprintfmt m ap fmt i out =
     (let ch = m fmt in
      if ch = 37 then
        Option.bind (directive m ap (fmt + 1) fspec_init i) (\<lambda>d.
        Option.bind (convert m ap d) (\<lambda>(cs, fmt, i). vprintfmt m ap fmt i (out @ cs)))
      else if ch = 0 then Some out
      else vprintfmt m ap (fmt + 1) i (out @ [ucast ch]))"

section \<open>Printing to a buffer\<close>

record sprintbuf =
  buf :: u32
  ebuf :: u32
  cnt :: u32
  sbytes :: bytes

definition sprintputch :: "u32 \<Rightarrow> sprintbuf \<Rightarrow> sprintbuf" where
  "sprintputch ch b =
     (let b = b\<lparr>cnt := cnt b + 1\<rparr>
      in if buf b < ebuf b then b\<lparr>sbytes := (sbytes b)(buf b := ucast ch), buf := buf b + 1\<rparr> else b)"

text \<open>The format and the strings it prints are read before the buffer is written: a call in which they
  overlap the buffer is not modelled.\<close>

definition vsnprintf :: "u32 \<Rightarrow> u32 \<Rightarrow> u32 \<Rightarrow> va_list \<Rightarrow> bytes \<Rightarrow> (int \<times> bytes) option" where
  "vsnprintf bp n fmt ap m =
     (if bp = 0 \<or> sint n < 1 then Some (- E_INVAL, m)
      else map_option (\<lambda>out.
             let b = fold sprintputch out \<lparr>buf = bp, ebuf = bp + n - 1, cnt = 0, sbytes = m\<rparr>
             in (sint (cnt b), (sbytes b)(buf b := 0)))
           (vprintfmt m ap fmt 0 []))"

section \<open>Printing to the console\<close>

text \<open>The buffer of \<^verbatim>\<open>lib/printf.c\<close> and the system calls that empty it.\<close>

record printbuf =
  idx :: nat
  pcnt :: nat
  pbuf :: "u8 list"
  cputs :: "u8 list list"

definition print_putch :: "u32 \<Rightarrow> printbuf \<Rightarrow> printbuf" where
  "print_putch ch b =
     (let b = b\<lparr>pbuf := take (idx b) (pbuf b) @ [ucast ch], idx := idx b + 1\<rparr>;
          b = (if idx b = 256 - 1 then b\<lparr>cputs := cputs b @ [pbuf b], idx := 0\<rparr> else b)
      in b\<lparr>pcnt := pcnt b + 1\<rparr>)"

definition vcprintf :: "u32 \<Rightarrow> va_list \<Rightarrow> bytes \<Rightarrow> (nat \<times> u8 list list) option" where
  "vcprintf fmt ap m =
     map_option (\<lambda>out.
       let b = fold print_putch out \<lparr>idx = 0, pcnt = 0, pbuf = [], cputs = []\<rparr>
       in (pcnt b, cputs b @ [take (idx b) (pbuf b)]))
     (vprintfmt m ap fmt 0 [])"

text \<open>In the kernel \<^verbatim>\<open>*cnt++\<close> moves the pointer and leaves the count alone.\<close>

definition kernel_putch :: "u32 \<Rightarrow> int \<times> u32 list \<Rightarrow> int \<times> u32 list" where
  "kernel_putch ch st = (fst st, snd st @ [ch])"

definition kernel_vcprintf :: "u32 \<Rightarrow> va_list \<Rightarrow> bytes \<Rightarrow> (int \<times> u32 list) option" where
  "kernel_vcprintf fmt ap m = map_option (\<lambda>out. fold kernel_putch out (0, [])) (vprintfmt m ap fmt 0 [])"

section \<open>Reading a line\<close>

definition BUFLEN :: nat where "BUFLEN = 1024"

text \<open>
  The characters typed so far are a list; when they are used up the program waits for more (\<open>None\<close>).
  The result is the buffer and what was echoed.
\<close>

fun readline_loop :: "bool \<Rightarrow> u32 \<Rightarrow> nat \<Rightarrow> int list \<Rightarrow> bytes \<Rightarrow> int list \<Rightarrow> (bytes \<times> int list) option" where
  "readline_loop echoing b i [] m out = None"
| "readline_loop echoing b i (c # cs) m out =
     (if c < 0 then Some (m, out)
      else if 32 \<le> c \<and> i < BUFLEN - 1
      then readline_loop echoing b (i + 1) cs (m(b + of_nat i := of_int c)) (if echoing then out @ [c] else out)
      else if c = 8 \<and> 0 < i
      then readline_loop echoing b (i - 1) cs m (if echoing then out @ [c] else out)
      else if c = 10 \<or> c = 13
      then Some (m(b + of_nat i := 0), if echoing then out @ [c] else out)
      else readline_loop echoing b i cs m out)"

definition readline :: "bool \<Rightarrow> u32 \<Rightarrow> int list \<Rightarrow> bytes \<Rightarrow> (bytes \<times> int list) option" where
  "readline echoing b cs m = readline_loop echoing b 0 cs m []"

section \<open>Digits\<close>

function digits :: "nat \<Rightarrow> nat \<Rightarrow> nat list" where
  "digits b n = (if b \<le> n \<and> 1 < b then digits b (n div b) else []) @ [n mod b]"
  by pat_completeness auto
termination by (relation "measure snd") auto

declare digits.simps [simp del]

definition number_of :: "nat \<Rightarrow> nat list \<Rightarrow> nat" where
  "number_of b ds = foldl (\<lambda>a d. a * b + d) 0 ds"

lemma number_of_snoc: "number_of b (ds @ [d]) = number_of b ds * b + d"
  by (simp add: number_of_def)

lemma digits_ne [simp]: "digits b n \<noteq> []"
  by (subst digits.simps) simp

lemma digits_correct:
  assumes "1 < b"
  shows "number_of b (digits b n) = n \<and> (\<forall>d\<in>set (digits b n). d < b) \<and> (hd (digits b n) = 0 \<longrightarrow> n = 0)"
  using assms
proof (induction b n rule: digits.induct)
  case (1 b n)
  show ?case
  proof (cases "b \<le> n")
    case True
    have d: "digits b n = digits b (n div b) @ [n mod b]"
      using True 1(2) by (subst digits.simps) simp
    have c: "b \<le> n \<and> 1 < b"
      using True 1(2) by simp
    note IH = 1(1) [OF c 1(2)]
    have "n div b \<noteq> 0"
      using c by (simp add: div_eq_0_iff)
    moreover have "number_of b (digits b n) = n"
      using IH unfolding d number_of_snoc by (metis div_mult_mod_eq)
    moreover have "n mod b < b"
      using c by simp
    ultimately show ?thesis
      using IH unfolding d by (metis (no_types, lifting) Un_iff digits_ne empty_iff hd_append2 list.set(1) set_ConsD set_append)
  next
    case False
    then have "digits b n = [n]"
      by (subst digits.simps) simp
    then show ?thesis
      using False by (simp add: number_of_def)
  qed
qed

lemma printnum_digits:
  "printnum num b w c = replicate (nat (w - int (length (digits b num)))) c @ map hexdigit (digits b num)"
proof (induction num b w c rule: printnum.induct)
  case (1 num b w c)
  show ?case
  proof (cases "b \<le> num \<and> 1 < b")
    case True
    have d: "digits b num = digits b (num div b) @ [num mod b]"
      using True by (subst digits.simps) simp
    have "w - 1 - int (length (digits b (num div b))) = w - int (length (digits b num))"
      by (simp add: d)
    then show ?thesis
      using 1 [OF True] True by (subst printnum.simps) (simp add: d)
  next
    case False
    have d: "digits b num = [num mod b]"
      using False by (subst digits.simps) simp
    show ?thesis
      by (subst printnum.simps, subst if_not_P [OF False]) (simp add: d)
  qed
qed

section \<open>The buffer\<close>

lemma fold_sprintputch:
  assumes "unat (buf b) + k < 4294967296" and "ebuf b = buf b + of_nat k"
  shows "\<exists>b'. fold sprintputch out b = b' \<and> buf b' = buf b + of_nat (min (length out) k) \<and>
     cnt b' = cnt b + of_nat (length out) \<and>
     sbytes b' = (\<lambda>a. if in_block (buf b) (min (length out) k) a
                      then ucast (out ! (unat a - unat (buf b))) else sbytes b a)"
  using assms
proof (induction out arbitrary: b k)
  case Nil
  then show ?case
    by simp
next
  case (Cons c out)
  show ?case
  proof (cases k)
    case 0
    then have "sprintputch c b = b\<lparr>cnt := cnt b + 1\<rparr>"
      using Cons.prems(2) by (simp add: sprintputch_def)
    then show ?thesis
      using Cons.IH [of "b\<lparr>cnt := cnt b + 1\<rparr>" 0] Cons.prems 0 by (simp add: add.assoc)
  next
    case (Suc j)
    let ?b = "b\<lparr>cnt := cnt b + 1, sbytes := (sbytes b)(buf b := ucast c), buf := buf b + 1\<rparr>"
    have "unat (ebuf b) = unat (buf b) + k"
      unfolding Cons.prems(2) using Cons.prems(1) by (rule word_index_apart)
    then have "sprintputch c b = ?b"
      using Suc by (simp add: sprintputch_def word_less_nat_alt)
    moreover have u: "unat (buf b + 1) = unat (buf b) + 1"
      using Cons.prems(1) Suc by (intro unat_Suc_u32) simp
    moreover have "ebuf ?b = buf ?b + of_nat j"
      using Cons.prems(2) Suc by (simp add: add.assoc)
    ultimately obtain b' where b': "fold sprintputch out ?b = b'" "buf b' = buf ?b + of_nat (min (length out) j)"
      "cnt b' = cnt ?b + of_nat (length out)"
      "sbytes b' = (\<lambda>a. if in_block (buf ?b) (min (length out) j) a
                        then ucast (out ! (unat a - unat (buf ?b))) else sbytes ?b a)"
      using Cons.IH [of ?b j] Cons.prems(1) Suc by auto
    have "sbytes b' a = (if in_block (buf b) (min (length (c # out)) k) a
       then ucast ((c # out) ! (unat a - unat (buf b))) else sbytes b a)" for a
    proof (cases "a = buf b")
      case True
      then show ?thesis
        using u Suc by (simp add: b'(4) in_block_def)
    next
      case False
      then have "unat a \<noteq> unat (buf b)"
        by (simp add: u32_eq_iff)
      then show ?thesis
        using u Suc False by (auto simp: b'(4) in_block_def nth_Cons')
    qed
    then show ?thesis
      using b'(1-3) Suc \<open>sprintputch c b = ?b\<close> by (intro exI [of _ b']) (simp add: fun_eq_iff add.assoc)
  qed
qed

text \<open>What is in the buffer after printing \<open>out\<close>: as much as fits, and a terminator.\<close>

definition printed :: "u32 \<Rightarrow> nat \<Rightarrow> u32 list \<Rightarrow> bytes \<Rightarrow> bytes" where
  "printed bp n out m =
     (let k = min (length out) (n - 1)
      in (\<lambda>a. if in_block bp k a then ucast (out ! (unat a - unat bp)) else if a = bp + of_nat k then 0 else m a))"

lemma vsnprintf_out:
  assumes "vprintfmt m ap fmt 0 [] = Some out" and "bp \<noteq> 0" and "0 < sint n"
    and "unat bp + unat n \<le> 4294967296"
  shows "vsnprintf bp n fmt ap m = Some (sint (of_nat (length out) :: u32), printed bp (unat n) out m)"
proof -
  let ?b = "\<lparr>buf = bp, ebuf = bp + n - 1, cnt = 0, sbytes = m\<rparr>"
  have "n \<noteq> 0"
    using assms(3) by auto
  then have n: "0 < unat n"
    by (simp add: unat_gt_0)
  then have "n - 1 = of_nat (unat n - 1)"
    by (simp add: of_nat_diff)
  then have "bp + n - 1 = bp + of_nat (unat n - 1)"
    by (metis add_diff_eq)
  then have e: "unat (buf ?b) + (unat n - 1) < 4294967296" "ebuf ?b = buf ?b + of_nat (unat n - 1)"
    using n assms(4) by simp_all
  obtain b' where b': "fold sprintputch out ?b = b'" "buf b' = bp + of_nat (min (length out) (unat n - 1))"
     "cnt b' = of_nat (length out)"
     "sbytes b' = (\<lambda>a. if in_block bp (min (length out) (unat n - 1)) a
                      then ucast (out ! (unat a - unat bp)) else m a)"
    using fold_sprintputch [OF e, of out] by (simp only: sprintbuf.simps add_0_left) blast
  have "unat (bp + of_nat (min (length out) (unat n - 1))) = unat bp + min (length out) (unat n - 1)"
    using n assms(4) by (intro word_index_apart) simp
  then have "(sbytes b')(buf b' := 0) = printed bp (unat n) out m"
    unfolding printed_def Let_def b'(2,4) by (auto simp: fun_eq_iff in_block_def)
  then show ?thesis
    using assms by (simp add: vsnprintf_def b'(1,3) not_less)
qed

section \<open>Decimal numbers\<close>

lemma sint_scast: "sint (scast (v :: u32) :: 64 word) = sint v"
proof -
  have "- 9223372036854775808 \<le> sint v" "sint v < 9223372036854775808"
    using sint_greater_eq [of v] sint_less [of v] by simp_all
  then have "signed_take_bit 63 (sint v) = sint v"
    by (intro signed_take_bit_int_eq_self) simp_all
  then show ?thesis
    by (simp add: signed_scast_eq)
qed

lemma unat_of_sint:
  assumes "0 \<le> k" and "k < 18446744073709551616"
  shows "unat (of_int k :: 64 word) = nat k"
proof -
  have "take_bit 64 k = k"
    using assms by (intro take_bit_int_eq_self) simp_all
  then show ?thesis
    by (simp add: unsigned_of_int)
qed

lemma print_decimal:
  "print_signed (scast (v :: u32)) fspec_init =
    (if sint v < 0 then [45] else []) @ map hexdigit (digits 10 (nat \<bar>sint v\<bar>))"
proof -
  have r: "- 2147483648 \<le> sint v" "sint v < 2147483648"
    using sint_greater_eq [of v] sint_less [of v] by simp_all
  have s: "(scast v :: 64 word) = of_int (sint v)"
    by (rule scast_eq)
  show ?thesis
  proof (cases "sint v < 0")
    case True
    have "- (scast v :: 64 word) = of_int (- sint v)"
      by (simp only: s of_int_minus)
    then have "unat (- (scast v :: 64 word)) = nat \<bar>sint v\<bar>"
      using True r by (simp only: unat_of_sint [of "- sint v"] abs_of_neg)
    then show ?thesis
      using True by (simp add: print_signed_def sint_scast fspec_init_def printnum_digits)
  next
    case False
    then have "unat (scast v :: 64 word) = nat \<bar>sint v\<bar>"
      using r by (simp only: s unat_of_sint [of "sint v"] not_less abs_of_nonneg)
    then show ?thesis
      using False by (simp add: print_signed_def sint_scast fspec_init_def printnum_digits)
  qed
qed

lemma length_digits: "1 < b \<Longrightarrow> 0 < k \<Longrightarrow> n < b ^ k \<Longrightarrow> length (digits b n) \<le> k"
proof (induction b n arbitrary: k rule: digits.induct)
  case (1 b n)
  show ?case
  proof (cases "b \<le> n")
    case True
    have d: "digits b n = digits b (n div b) @ [n mod b]"
      using True 1(2) by (subst digits.simps) simp
    obtain j where k: "k = Suc j"
      using 1(3) by (cases k) auto
    have "0 < j"
      using True 1(4) k by (cases j) auto
    moreover have "n div b < b ^ j"
      using 1(4) k by (simp add: less_mult_imp_div_less mult.commute)
    ultimately show ?thesis
      using 1(1) [of j] True 1(2) by (simp add: d k)
  next
    case False
    then have "digits b n = [n mod b]"
      by (subst digits.simps) simp
    then show ?thesis
      using 1(3) by simp
  qed
qed

lemma fold_number: "fold (\<lambda>k v. v * 10 + of_nat k) ds (of_nat a) = (of_nat (foldl (\<lambda>a d. a * 10 + d) a ds) :: u32)"
proof (induction ds arbitrary: a)
  case (Cons d ds)
  then show ?case
    using Cons.IH [of "a * 10 + d"] by simp
qed simp

lemma vprintfmt_d:
  assumes "cstr m fmt [37, 100]"
  shows "vprintfmt m ap fmt 0 [] = Some (print_signed (scast (ap 0)) fspec_init)"
proof -
  have f: "m fmt = 37" "m (fmt + 1) = 100" "m (fmt + 1 + 1) = 0"
    using assms by simp_all
  have "directive m ap (fmt + 1) fspec_init 0 = Some (100, fmt + 1 + 1, fspec_init, 0)"
    by (subst directive.simps) (simp only: f Let_def, simp)
  moreover have "convert m ap (100, fmt + 1 + 1, fspec_init, 0) =
      Some (print_signed (scast (ap 0)) fspec_init, fmt + 1 + 1, 1)"
    by (simp add: convert_def getint_def fspec_init_def)
  moreover have "vprintfmt m ap (fmt + 1 + 1) 1 out = Some out" for out
    by (subst vprintfmt.simps) (simp only: f Let_def, simp)
  ultimately show ?thesis
    by (subst vprintfmt.simps) (simp only: f Let_def bind.bind_lunit prod.case append_Nil, simp)
qed

lemma hexdigit_dchar: "d < 10 \<Longrightarrow> ucast (hexdigit d) = dchar d"
proof -
  assume "d < 10"
  moreover from this have "take_bit 32 (48 + d) = 48 + d"
    by (intro take_bit_nat_eq_self) simp
  ultimately show ?thesis
    by (simp add: hexdigit_def dchar_def unsigned_of_nat del: of_nat_add)
qed

lemma printed_at:
  assumes "length out < n" and "unat bp + n \<le> 4294967296"
  shows "\<forall>j<length out. printed bp n out m (bp + of_nat j) = ucast (out ! j)"
    and "printed bp n out m (bp + of_nat (length out)) = 0"
proof -
  have u: "unat (bp + of_nat j) = unat bp + j" if "j \<le> length out" for j
    using assms that by (intro word_index_apart) simp
  have k: "min (length out) (n - 1) = length out"
    using assms(1) by simp
  show "\<forall>j<length out. printed bp n out m (bp + of_nat j) = ucast (out ! j)"
    unfolding printed_def k Let_def by (auto simp: in_block_def u)
  show "printed bp n out m (bp + of_nat (length out)) = 0"
    unfolding printed_def k Let_def by (simp add: in_block_def u)
qed

lemma decimal_print_parse:
  assumes "cstr m fmt [37, 100]" and "bp \<noteq> 0" and "0 < sint n" and "12 \<le> unat n" and "unat bp + unat n \<le> 4294967296"
  shows "\<exists>k m' e. vsnprintf bp n fmt ap m = Some (k, m') \<and> strtol m' bp 10 = Some (ap 0, e)"
proof -
  let ?v = "ap 0" and ?ds = "digits 10 (nat \<bar>sint (ap 0)\<bar>)"
  let ?p = "if sint ?v < 0 then 1 else (0 :: nat)"
  let ?out = "(if sint ?v < 0 then [45] else []) @ map hexdigit ?ds"
  let ?m = "printed bp (unat n) ?out m"
  have out: "vprintfmt m ap fmt 0 [] = Some ?out"
    using vprintfmt_d [OF assms(1)] by (simp only: print_decimal)
  note pr = vsnprintf_out [OF out assms(2,3,5)]
  have "nat \<bar>sint ?v\<bar> < 10 ^ 10"
    using sint_greater_eq [of ?v] sint_less [of ?v] by (simp add: nat_less_iff)
  then have "length ?ds \<le> 10"
    by (intro length_digits) simp_all
  moreover have "length ?out = ?p + length ?ds" "?p \<le> 1"
    by simp_all
  ultimately have len: "length ?out < unat n" "length ?out = ?p + length ?ds"
    using assms(4) by linarith+
  have dg: "\<forall>d\<in>set ?ds. d < 10" and num: "number_of 10 ?ds = nat \<bar>sint ?v\<bar>"
    using digits_correct [of 10 "nat \<bar>sint ?v\<bar>"] by simp_all
  note at = printed_at [OF len(1) assms(5), of m]
  have "?m (bp + of_nat ?p + of_nat i) = map dchar ?ds ! i" if "i < length ?ds" for i
    using at(1) [rule_format, of "?p + i"] that dg len(2)
    by (simp add: nth_append hexdigit_dchar add.assoc split: if_splits)
  then have h: "holds ?m (bp + of_nat ?p) (map dchar ?ds)"
    by (simp add: holds_def)
  have "0 < length ?out" "bp + of_nat 0 = bp"
    by simp_all
  then have "?m bp = ucast (?out ! 0)"
    using at(1) by metis
  moreover have "sint ?v < 0 \<longrightarrow> ucast (?out ! 0) = (45 :: u8)"
    by simp
  ultimately have sign: "sint ?v < 0 \<longrightarrow> ?m bp = 45"
    by (simp only: simp_thms)
  have "strtol ?m bp 10 = Some (if sint ?v < 0 then - fold (\<lambda>k v. v * 10 + of_nat k) ?ds 0
      else fold (\<lambda>k v. v * 10 + of_nat k) ?ds 0, bp + of_nat (?p + length ?ds))"
    using at(2) unfolding len(2) by (rule strtol_decimal [OF refl sign h dg digits_ne])
  moreover have "fold (\<lambda>k v. v * 10 + of_nat k) ?ds (0 :: u32) = of_nat (nat \<bar>sint ?v\<bar>)"
    using fold_number [of ?ds 0] num by (simp add: number_of_def)
  moreover have "(if sint ?v < 0 then - of_nat (nat \<bar>sint ?v\<bar>) else of_nat (nat \<bar>sint ?v\<bar>)) = ?v"
  proof -
    have "of_int (sint ?v) = (if sint ?v < 0 then - of_nat (nat \<bar>sint ?v\<bar>) else (of_nat (nat \<bar>sint ?v\<bar>) :: u32))"
      by (simp add: of_nat_nat)
    then show ?thesis
      by simp
  qed
  ultimately show ?thesis
    using pr by (auto split: if_splits)
qed

section \<open>Chunks and lines\<close>

lemma print_putch_step:
  assumes "idx b < 255" and "idx b \<le> length (pbuf b)"
  shows "idx (print_putch c b) < 255" and "idx (print_putch c b) \<le> length (pbuf (print_putch c b))"
    and "concat (cputs (print_putch c b)) @ take (idx (print_putch c b)) (pbuf (print_putch c b)) =
      (concat (cputs b) @ take (idx b) (pbuf b)) @ [ucast c]"
    and "pcnt (print_putch c b) = pcnt b + 1"
    and "\<forall>x\<in>set (cputs b). length x = 255 \<Longrightarrow> \<forall>x\<in>set (cputs (print_putch c b)). length x = 255"
proof -
  have l: "length (take (idx b) (pbuf b)) = idx b"
    using assms(2) by simp
  consider (full) "idx b = 254" | (more) "idx b < 254"
    using assms(1) by linarith
  then have "idx (print_putch c b) < 255 \<and> idx (print_putch c b) \<le> length (pbuf (print_putch c b)) \<and>
    concat (cputs (print_putch c b)) @ take (idx (print_putch c b)) (pbuf (print_putch c b)) =
      (concat (cputs b) @ take (idx b) (pbuf b)) @ [ucast c] \<and> pcnt (print_putch c b) = pcnt b + 1 \<and>
    ((\<forall>x\<in>set (cputs b). length x = 255) \<longrightarrow> (\<forall>x\<in>set (cputs (print_putch c b)). length x = 255))"
  proof cases
    case full
    then have "print_putch c b = b\<lparr>pbuf := take 254 (pbuf b) @ [ucast c],
        cputs := cputs b @ [take 254 (pbuf b) @ [ucast c]], idx := 0, pcnt := pcnt b + 1\<rparr>"
      by (simp add: print_putch_def)
    then show ?thesis
      using full l by auto
  next
    case more
    then have "print_putch c b = b\<lparr>pbuf := take (idx b) (pbuf b) @ [ucast c], idx := idx b + 1, pcnt := pcnt b + 1\<rparr>"
      by (simp add: print_putch_def)
    then show ?thesis
      using more l by simp
  qed
  then show "idx (print_putch c b) < 255" "idx (print_putch c b) \<le> length (pbuf (print_putch c b))"
    "concat (cputs (print_putch c b)) @ take (idx (print_putch c b)) (pbuf (print_putch c b)) =
      (concat (cputs b) @ take (idx b) (pbuf b)) @ [ucast c]"
    "pcnt (print_putch c b) = pcnt b + 1"
    "\<forall>x\<in>set (cputs b). length x = 255 \<Longrightarrow> \<forall>x\<in>set (cputs (print_putch c b)). length x = 255"
    by blast+
qed

lemma fold_print_putch:
  assumes "idx b < 255" and "idx b \<le> length (pbuf b)" and "\<forall>x\<in>set (cputs b). length x = 255"
  shows "let b' = fold print_putch out b in
     idx b' < 255 \<and> idx b' \<le> length (pbuf b') \<and> (\<forall>x\<in>set (cputs b'). length x = 255) \<and>
     pcnt b' = pcnt b + length out \<and>
     concat (cputs b') @ take (idx b') (pbuf b') = concat (cputs b) @ take (idx b) (pbuf b) @ map ucast out"
  using assms
proof (induction out arbitrary: b)
  case (Cons c out)
  note st = print_putch_step [OF Cons.prems(1,2), of c]
  let ?b = "print_putch c b"
  let ?f = "fold print_putch out ?b"
  have IH: "idx ?f < 255" "idx ?f \<le> length (pbuf ?f)" "\<forall>x\<in>set (cputs ?f). length x = 255"
    "pcnt ?f = pcnt ?b + length out"
    "concat (cputs ?f) @ take (idx ?f) (pbuf ?f) = (concat (cputs ?b) @ take (idx ?b) (pbuf ?b)) @ map ucast out"
    using Cons.IH [OF st(1,2) st(5) [OF Cons.prems(3)]] unfolding Let_def append_assoc by blast+
  show ?case
    using IH(1-3) IH(4,5) [unfolded st(3,4)] by (simp only: Let_def fold_Cons comp_apply append_assoc) simp
qed simp

text \<open>What a person who types \<open>cs\<close> sees in the line.\<close>

fun edited :: "u8 list \<Rightarrow> int list \<Rightarrow> u8 list option" where
  "edited xs [] = None"
| "edited xs (c # cs) =
     (if c = 10 \<or> c = 13 then Some xs
      else if 32 \<le> c \<and> length xs < 1023 then edited (xs @ [of_int c]) cs
      else if c = 8 then edited (butlast xs) cs
      else edited xs cs)"

lemma readline_loop_edited:
  assumes "\<forall>c\<in>set cs. 0 \<le> c \<and> c < 256" and "unat b + 1024 \<le> 4294967296"
    and "holds m b xs" and "0 \<notin> set xs" and "length xs \<le> 1023"
    and "\<forall>a. \<not> in_block b 1024 a \<longrightarrow> m a = m0 a"
  shows "case edited xs cs of
     None \<Rightarrow> readline_loop e b (length xs) cs m out = None
   | Some ys \<Rightarrow> length ys \<le> 1023 \<and> (\<exists>m' out'. readline_loop e b (length xs) cs m out = Some (m', out') \<and>
       cstr m' b ys \<and> (\<forall>a. \<not> in_block b 1024 a \<longrightarrow> m' a = m0 a))"
  using assms
proof (induction cs arbitrary: xs m out)
  case (Cons c cs)
  have u: "unat (b + of_nat j) = unat b + j" if "j \<le> 1023" for j
    using Cons.prems(2) that by (intro word_index_apart) simp
  have inb: "in_block b 1024 (b + of_nat (length xs))"
    using Cons.prems(5) by (simp add: in_block_def u)
  have outside: "\<forall>a. \<not> in_block b 1024 a \<longrightarrow> (m(b + of_nat (length xs) := x)) a = m0 a" for x
    using Cons.prems(6) inb by auto
  have old: "(m(b + of_nat (length xs) := x)) (b + of_nat i) = xs ! i" if "i < length xs" for i x
  proof -
    have "b + of_nat i \<noteq> b + (of_nat (length xs) :: u32)"
      using that Cons.prems(5) by (simp add: offset_eq)
    then show ?thesis
      using Cons.prems(3) that by (simp add: holds_def)
  qed
  consider (nl) "c = 10 \<or> c = 13" | (ch) "32 \<le> c" "length xs < 1023" "c \<noteq> 10" "c \<noteq> 13"
    | (bs) "c = 8" "0 < length xs" | (skip) "c = 8 \<and> xs = [] \<or> c \<noteq> 8 \<and> c \<noteq> 10 \<and> c \<noteq> 13 \<and> (c < 32 \<or> length xs = 1023)"
    using Cons.prems(5) by force
  then show ?case
  proof cases
    case nl
    have "cstr (m(b + of_nat (length xs) := 0)) b xs"
      using old [of _ 0] Cons.prems(4) by (intro cstrI) (auto simp: in_set_conv_nth)
    then show ?thesis
      using nl Cons.prems(5) outside [of 0] by auto
  next
    case ch
    let ?m = "m(b + of_nat (length xs) := of_int c)"
    have h: "holds ?m b (xs @ [of_int c])"
      using old [of _ "of_int c"] by (auto simp: holds_def nth_append less_Suc_eq)
    have z: "(of_int c :: u8) \<noteq> 0"
    proof -
      have "uint (of_int c :: u8) = c"
        using ch(1) Cons.prems(1) by (simp add: unsigned_of_int take_bit_int_eq_self)
      then show ?thesis
        using ch(1) by auto
    qed
    have IH: "case edited (xs @ [of_int c]) cs of
     None \<Rightarrow> readline_loop e b (length (xs @ [of_int c])) cs ?m (if e then out @ [c] else out) = None
   | Some ys \<Rightarrow> length ys \<le> 1023 \<and> (\<exists>m' out'. readline_loop e b (length (xs @ [of_int c])) cs ?m
         (if e then out @ [c] else out) = Some (m', out') \<and>
       cstr m' b ys \<and> (\<forall>a. \<not> in_block b 1024 a \<longrightarrow> m' a = m0 a))"
      by (rule Cons.IH [OF _ Cons.prems(2) h _ _ outside]) (use Cons.prems(1,4) ch z in auto)
    have "readline_loop e b (length xs) (c # cs) m out =
        readline_loop e b (length (xs @ [of_int c])) cs ?m (if e then out @ [c] else out)"
      using ch by (simp add: BUFLEN_def)
    moreover have "edited xs (c # cs) = edited (xs @ [of_int c]) cs"
      using ch by simp
    ultimately show ?thesis
      using IH by (simp only:)
  next
    case bs
    have h: "holds m b (butlast xs)"
      using Cons.prems(3) by (auto simp: holds_def nth_butlast)
    have z: "0 \<notin> set (butlast xs)"
      using Cons.prems(4) in_set_butlastD by fastforce
    have IH: "case edited (butlast xs) cs of
     None \<Rightarrow> readline_loop e b (length (butlast xs)) cs m (if e then out @ [c] else out) = None
   | Some ys \<Rightarrow> length ys \<le> 1023 \<and> (\<exists>m' out'. readline_loop e b (length (butlast xs)) cs m
         (if e then out @ [c] else out) = Some (m', out') \<and>
       cstr m' b ys \<and> (\<forall>a. \<not> in_block b 1024 a \<longrightarrow> m' a = m0 a))"
      by (rule Cons.IH [OF _ Cons.prems(2) h z _ Cons.prems(6)]) (use Cons.prems(1,5) in auto)
    have "readline_loop e b (length xs) (c # cs) m out =
        readline_loop e b (length (butlast xs)) cs m (if e then out @ [c] else out)"
      using bs by (simp add: BUFLEN_def)
    moreover have "edited xs (c # cs) = edited (butlast xs) cs"
      using bs by simp
    ultimately show ?thesis
      using IH by (simp only:)
  next
    case skip
    then have "edited xs (c # cs) = edited xs cs"
      using Cons.prems(5) by auto
    moreover have "readline_loop e b (length xs) (c # cs) m out = readline_loop e b (length xs) cs m out"
      using skip Cons.prems(1) by (auto simp: BUFLEN_def)
    moreover have "case edited xs cs of
     None \<Rightarrow> readline_loop e b (length xs) cs m out = None
   | Some ys \<Rightarrow> length ys \<le> 1023 \<and> (\<exists>m' out'. readline_loop e b (length xs) cs m out = Some (m', out') \<and>
       cstr m' b ys \<and> (\<forall>a. \<not> in_block b 1024 a \<longrightarrow> m' a = m0 a))"
      by (rule Cons.IH [OF _ Cons.prems(2-6)]) (use Cons.prems(1) in auto)
    ultimately show ?thesis
      by (simp only:)
  qed
qed simp

section \<open>Properties\<close>

text \<open>\<^verbatim>\<open>printnum\<close> prints the digits of the number in the base, without leading zeros,
  after the padding that makes up the width.\<close>

theorem printnum_exact:
  assumes "1 < b"
  shows "\<exists>ds. printnum num b w c = replicate (nat (w - int (length ds))) c @ map hexdigit ds \<and>
     number_of b ds = num \<and> (\<forall>d\<in>set ds. d < b) \<and> ds \<noteq> [] \<and> (hd ds = 0 \<longrightarrow> num = 0)"
  using printnum_digits [of num b w c] digits_correct [OF assms, of num]
  by (intro exI [of _ "digits b num"]) simp

theorem printnum_exact_witness:
  "\<exists>ds. printnum 255 16 4 48 = replicate (nat (4 - int (length ds))) 48 @ map hexdigit ds \<and>
     number_of 16 ds = 255"
  using printnum_exact [of 16 255 4 48] by auto

text \<open>C31: \<^verbatim>\<open>vsnprintf\<close> never writes outside the buffer of \<open>n\<close> bytes: it stores the
  first \<open>n - 1\<close> characters, or fewer, and a terminator, and returns the length of the full text.\<close>

theorem vsnprintf_in_bounds:
  assumes "vprintfmt m ap fmt 0 [] = Some out" and "bp \<noteq> 0" and "0 < sint n"
    and "unat bp + unat n \<le> 4294967296"
  shows "\<exists>m'. vsnprintf bp n fmt ap m = Some (sint (of_nat (length out) :: u32), m') \<and>
     (\<forall>j<min (length out) (unat n - 1). m' (bp + of_nat j) = ucast (out ! j)) \<and>
     m' (bp + of_nat (min (length out) (unat n - 1))) = 0 \<and>
     (\<forall>a. \<not> in_block bp (unat n) a \<longrightarrow> m' a = m a)"
proof -
  let ?k = "min (length out) (unat n - 1)"
  have "0 < unat n"
    using assms(3) by (auto simp: unat_gt_0)
  have u: "unat (bp + of_nat j) = unat bp + j" if "j \<le> ?k" for j
  proof -
    have "j \<le> unat n - 1"
      using that by simp
    then show ?thesis
      using \<open>0 < unat n\<close> assms(4) by (intro word_index_apart) linarith
  qed
  have "?k < unat n"
    using \<open>0 < unat n\<close> by simp
  then have "\<not> in_block bp (unat n) a \<longrightarrow> printed bp (unat n) out m a = m a" for a
    using u [of ?k] by (auto simp: printed_def in_block_def Let_def)
  moreover have "printed bp (unat n) out m (bp + of_nat j) = ucast (out ! j)" if "j < ?k" for j
    using that u [of j] by (simp add: printed_def in_block_def Let_def)
  moreover have "printed bp (unat n) out m (bp + of_nat ?k) = 0"
    using u [of ?k] by (simp add: printed_def in_block_def Let_def)
  ultimately show ?thesis
    using vsnprintf_out [OF assms] by simp
qed

theorem vsnprintf_in_bounds_witness:
  "\<exists>m'. vsnprintf 0x200 2 0x100 (\<lambda>i. 0) (\<lambda>a. if a = 0x100 \<or> a = 0x101 then 65 else 0) = Some (2, m') \<and>
     m' 0x200 = 65 \<and> m' 0x201 = 0"
proof -
  let ?m = "\<lambda>a :: u32. if a = 0x100 \<or> a = 0x101 then 65 else (0 :: u8)"
  have "vprintfmt ?m (\<lambda>i. 0) 0x100 0 [] = Some [65, 65]"
    by (simp add: vprintfmt.simps)
  moreover have k: "min (length [65, 65 :: u32]) (unat (2 :: u32) - 1) = 1"
    by simp
  ultimately obtain m' where m': "vsnprintf 0x200 2 0x100 (\<lambda>i. 0) ?m = Some (sint (of_nat (length [65, 65 :: u32]) :: u32), m')"
    and "\<forall>j<1. m' (0x200 + of_nat j) = ucast ([65, 65 :: u32] ! j)" "m' (0x200 + of_nat 1) = 0"
    using vsnprintf_in_bounds [of ?m "\<lambda>i. 0" "0x100" "[65, 65]" "0x200" 2] unfolding k by fastforce
  then show ?thesis
    by (intro exI [of _ m']) simp
qed

text \<open>Every number survives printing with \<^verbatim>\<open>"%d"\<close> into a buffer of at least 12 bytes and
  reading back with \<^verbatim>\<open>strtol\<close>, the smallest one included.\<close>

theorem print_parse_roundtrip:
  assumes "cstr m fmt [37, 100]" and "bp \<noteq> 0" and "0 < sint n" and "12 \<le> unat n"
    and "unat bp + unat n \<le> 4294967296"
  shows "\<exists>k m' e. vsnprintf bp n fmt ap m = Some (k, m') \<and> strtol m' bp 10 = Some (ap 0, e)"
  using assms by (rule decimal_print_parse)

theorem print_parse_roundtrip_witness:
  "\<exists>k m' e. vsnprintf 0x200 16 0x100 (\<lambda>i. 0x80000000) (\<lambda>a. if a = 0x100 then 37 else if a = 0x101 then 100 else 0)
     = Some (k, m') \<and> strtol m' 0x200 10 = Some (0x80000000, e)"
  using print_parse_roundtrip [of "\<lambda>a. if a = 0x100 then 37 else if a = 0x101 then 100 else 0" "0x100" "0x200" 16
      "\<lambda>i. 0x80000000"] by simp

text \<open>The user library's \<^verbatim>\<open>vcprintf\<close> hands the text to the kernel completely and in
  order, in pieces of at most 255 bytes, and returns its length.\<close>

theorem vcprintf_chunks:
  assumes "vprintfmt m ap fmt 0 [] = Some out"
  shows "\<exists>chunks. vcprintf fmt ap m = Some (length out, chunks) \<and> concat chunks = map ucast out \<and>
     (\<forall>c\<in>set chunks. length c \<le> 255)"
  using fold_print_putch [of "\<lparr>idx = 0, pcnt = 0, pbuf = [], cputs = []\<rparr>" out] assms
  by (auto simp: vcprintf_def Let_def)

theorem vcprintf_chunks_witness:
  "\<exists>chunks. vcprintf 0x100 (\<lambda>i. 0) (\<lambda>a. if a = 0x100 then 65 else 0) = Some (1, chunks) \<and> concat chunks = [65]"
proof -
  have "vprintfmt (\<lambda>a. if a = 0x100 then 65 else 0) (\<lambda>i. 0) 0x100 0 [] = Some [65]"
    by (simp add: vprintfmt.simps)
  from vcprintf_chunks [OF this] show ?thesis
    by auto
qed

text \<open>C33: \<^verbatim>\<open>readline\<close> returns when the line is finished, with the edited line as a terminated
  string in a buffer of 1024 bytes, and writes nothing outside it however much is typed.\<close>

theorem readline_edits:
  assumes "\<forall>c\<in>set cs. 0 \<le> c \<and> c < 256" and "unat b + 1024 \<le> 4294967296"
  shows "case edited [] cs of
     None \<Rightarrow> readline e b cs m = None
   | Some ys \<Rightarrow> length ys \<le> 1023 \<and> (\<exists>m' out. readline e b cs m = Some (m', out) \<and> cstr m' b ys \<and>
       (\<forall>a. \<not> in_block b 1024 a \<longrightarrow> m' a = m a))"
  using readline_loop_edited [OF assms, of m "[]" m e "[]"]
  by (cases "edited [] cs") (simp_all add: readline_def holds_def)

theorem readline_edits_witness:
  "\<exists>m' out. readline True 0x100 [65, 66, 8, 67, 10] (\<lambda>a. 0) = Some (m', out) \<and> cstr m' 0x100 [65, 67]"
  using readline_edits [of "[65, 66, 8, 67, 10]" "0x100" True "\<lambda>a. 0"] by auto

end
