(* ===== verification/Console.thy ===== *)
theory Console
  imports Print_Fmt
begin

text \<open>
  The console: \<^verbatim>\<open>kern/cons/console.c\<close> with its keyboard, serial port, parallel port and
  text screen, and the calls of \<^verbatim>\<open>lib/console.c\<close>. The bytes that have arrived at a device
  and are not read yet are a list; the writes to ports are a list, oldest first.
\<close>

record console =
  com_in :: "u8 list"
  kbd_in :: "u8 list"
  cports :: "(u16 \<times> u8) list"
  serial_exists :: bool
  addr_6845 :: u32
  crt_buf :: "nat \<Rightarrow> u16"
  crt_pos :: u16
  kbd_shift :: u32
  cons_buf :: "nat \<Rightarrow> u8"
  rpos :: u32
  wpos :: u32

definition cons_outb :: "u32 \<Rightarrow> u8 \<Rightarrow> console \<Rightarrow> console" where
  "cons_outb port data s = s\<lparr>cports := cports s @ [(ucast port, data)]\<rparr>"

definition MONO_BASE :: u32 where "MONO_BASE = 0x3B4"
definition CGA_BASE :: u32 where "CGA_BASE = 0x3D4"
definition CRT_ROWS :: nat where "CRT_ROWS = 25"
definition CRT_COLS :: nat where "CRT_COLS = 80"
definition CRT_SIZE :: nat where "CRT_SIZE = CRT_ROWS * CRT_COLS"

section \<open>The parallel port\<close>

text \<open>The wait for the printer reads its status at most 2800 times and changes nothing.\<close>

definition lpt_putc :: "u32 \<Rightarrow> console \<Rightarrow> console" where
  "lpt_putc c s = cons_outb 0x37A 0x08 (cons_outb 0x37A 0x0D (cons_outb 0x378 (ucast c) s))"

section \<open>The screen\<close>

text \<open>
  Whether the colour memory at \<^verbatim>\<open>CGA_BUF\<close> keeps the test word, and the two bytes of the
  cursor position, come from the hardware.
\<close>

definition cga_init :: "bool \<Rightarrow> u8 \<Rightarrow> u8 \<Rightarrow> console \<Rightarrow> console" where
  "cga_init colour high low s =
     (let s = s\<lparr>addr_6845 := if colour then CGA_BASE else MONO_BASE\<rparr>;
          s = cons_outb (addr_6845 s) 15 (cons_outb (addr_6845 s) 14 s);
          pos = push_bit 8 (ucast high :: u32) OR ucast low
      in s\<lparr>crt_pos := ucast pos\<rparr>)"

definition attribute :: "u32 \<Rightarrow> u32" where
  "attribute c = (if c AND NOT 0xFF = 0 then c OR 0x0700 else c)"

text \<open>The copy of the lower rows runs upwards through the memory.\<close>

definition cga_scroll :: "console \<Rightarrow> console" where
  "cga_scroll s =
     (if CRT_SIZE \<le> unat (crt_pos s) then
        let b = fold (\<lambda>i b. b(i := b (i + CRT_COLS))) [0..<CRT_SIZE - CRT_COLS] (crt_buf s);
            b = fold (\<lambda>i b. b(i := 0x0720)) [CRT_SIZE - CRT_COLS..<CRT_SIZE] b
        in s\<lparr>crt_buf := b, crt_pos := crt_pos s - of_nat CRT_COLS\<rparr>
      else s)"

definition cga_cursor :: "console \<Rightarrow> console" where
  "cga_cursor s =
     cons_outb (addr_6845 s + 1) (ucast (crt_pos s)) (cons_outb (addr_6845 s) 15
       (cons_outb (addr_6845 s + 1) (ucast (drop_bit 8 (crt_pos s))) (cons_outb (addr_6845 s) 14 s)))"

lemma attribute_low [simp]: "attribute c AND 0xFF = c AND 0xFF"
  by (simp add: attribute_def word_ao_dist)

definition line_start :: "u16 \<Rightarrow> u16" where
  "line_start p = p - p mod of_nat CRT_COLS"

text \<open>The two routines call each other: a tab is five blanks.\<close>

function (sequential) cga_putc :: "u32 \<Rightarrow> console \<Rightarrow> console"
  and cons_putc :: "u32 \<Rightarrow> console \<Rightarrow> console" where
  "cga_putc c s =
     (let c = attribute c; l = c AND 0xFF;
          s = (if l = 8 then
                 (if 0 < crt_pos s
                  then s\<lparr>crt_pos := crt_pos s - 1,
                         crt_buf := (crt_buf s)(unat (crt_pos s - 1) := ucast ((c AND NOT 0xFF) OR 32))\<rparr>
                  else s)
               else if l = 10 then s\<lparr>crt_pos := line_start (crt_pos s + of_nat CRT_COLS)\<rparr>
               else if l = 13 then s\<lparr>crt_pos := line_start (crt_pos s)\<rparr>
               else if l = 9 then
                 cons_putc 32 (cons_putc 32 (cons_putc 32 (cons_putc 32 (cons_putc 32 s))))
               else s\<lparr>crt_buf := (crt_buf s)(unat (crt_pos s) := ucast c), crt_pos := crt_pos s + 1\<rparr>)
      in cga_cursor (cga_scroll s))"
| "cons_putc c s = cga_putc c (lpt_putc c s)"
  by pat_completeness auto
termination
  by (relation "measure (\<lambda>x. case x of Inl (c, s) \<Rightarrow> (if c AND 0xFF = 9 then 2 else 0)
                                  | Inr (c, s) \<Rightarrow> (if c AND 0xFF = 9 then 3 else 1))") auto

declare cga_putc.simps [simp del] cons_putc.simps [simp del]

definition cputchar :: "u32 \<Rightarrow> console \<Rightarrow> console" where
  "cputchar c = cons_putc c"

section \<open>The keyboard\<close>

definition SHIFT :: u32 where "SHIFT = 1"
definition CTL :: u32 where "CTL = 2"
definition ALT :: u32 where "ALT = 4"
definition CAPSLOCK :: u32 where "CAPSLOCK = 8"
definition NUMLOCK :: u32 where "NUMLOCK = 16"
definition SCROLLLOCK :: u32 where "SCROLLLOCK = 32"
definition E0ESC :: u32 where "E0ESC = 64"

definition KEY_HOME :: u8 where "KEY_HOME = 0xE0"
definition KEY_END :: u8 where "KEY_END = 0xE1"
definition KEY_UP :: u8 where "KEY_UP = 0xE2"
definition KEY_DN :: u8 where "KEY_DN = 0xE3"
definition KEY_LF :: u8 where "KEY_LF = 0xE4"
definition KEY_RT :: u8 where "KEY_RT = 0xE5"
definition KEY_PGUP :: u8 where "KEY_PGUP = 0xE6"
definition KEY_PGDN :: u8 where "KEY_PGDN = 0xE7"
definition KEY_INS :: u8 where "KEY_INS = 0xE8"
definition KEY_DEL :: u8 where "KEY_DEL = 0xE9"

text \<open>A table of 256 entries: the leading ones in order, single ones by index, the rest 0.\<close>

definition table :: "u8 list \<Rightarrow> (u8 \<times> u8) list \<Rightarrow> u8 \<Rightarrow> u8" where
  "table row single d =
     (case map_of single d of Some c \<Rightarrow> c
      | None \<Rightarrow> if unat d < length row then row ! unat d else 0)"

definition shiftcode :: "u8 \<Rightarrow> u32" where
  "shiftcode d = (if d = 0x1D \<or> d = 0x9D then CTL else if d = 0x2A \<or> d = 0x36 then SHIFT
                  else if d = 0x38 \<or> d = 0xB8 then ALT else 0)"

definition togglecode :: "u8 \<Rightarrow> u32" where
  "togglecode d = (if d = 0x3A then CAPSLOCK else if d = 0x45 then NUMLOCK
                   else if d = 0x46 then SCROLLLOCK else 0)"

definition arrow_keys :: "(u8 \<times> u8) list" where
  "arrow_keys = [(0xC8, KEY_UP), (0xC9, KEY_PGUP), (0xCB, KEY_LF), (0xCD, KEY_RT), (0xCF, KEY_END),
                 (0xD0, KEY_DN), (0xD1, KEY_PGDN), (0xD2, KEY_INS), (0xD3, KEY_DEL)]"

abbreviation ascii :: "string \<Rightarrow> u8 list" where
  "ascii \<equiv> map of_char"

definition keypad_row :: "u8 list" where
  "keypad_row = [42, 0, 32] @ replicate 13 0 @ ascii ''789-456+1230.''"

definition normal_row :: "u8 list" where
  "normal_row = [0, 0x1B] @ ascii ''1234567890-='' @ [8, 9] @ ascii ''qwertyuiop[]'' @ [10, 0] @
      ascii ''asdfghjkl;'' @ [39, 96, 0, 92] @ ascii ''zxcvbnm,./'' @ [0] @ keypad_row"

definition normalmap :: "u8 \<Rightarrow> u8" where
  "normalmap = table normal_row
     ([(0x97, KEY_HOME), (0x9C, 10), (0xB5, 47)] @ arrow_keys)"

definition shift_row :: "u8 list" where
  "shift_row = [0, 0x1B] @ ascii ''!@#$%^&*()_+'' @ [8, 9] @ ascii ''QWERTYUIOP{}'' @ [10, 0] @
      ascii ''ASDFGHJKL:'' @ [34, 126, 0, 124] @ ascii ''ZXCVBNM<>?'' @ [0] @ keypad_row"

definition shiftmap :: "u8 \<Rightarrow> u8" where
  "shiftmap = table shift_row
     ([(0x97, KEY_HOME), (0x9C, 10), (0xB5, 47)] @ arrow_keys)"

definition ctrl :: "u8 \<Rightarrow> u8" where
  "ctrl x = x - 64"

definition ctl_row :: "u8 list" where
  "ctl_row = replicate 16 0 @ map ctrl (ascii ''QWERTYUIOP'') @ [0, 0, 13, 0] @ map ctrl (ascii ''ASDFGHJKL'') @
      [0, 0, 0, 0, ctrl 92] @ map ctrl (ascii ''ZXCVBNM'') @ [0, 0, ctrl 47, 0, 0]"

definition ctlmap :: "u8 \<Rightarrow> u8" where
  "ctlmap = table ctl_row
     ([(0x97, KEY_HOME), (0xB5, ctrl 47)] @ arrow_keys)"

definition charcode :: "u32 \<Rightarrow> u8 \<Rightarrow> u8" where
  "charcode i = (if i = 0 then normalmap else if i = 1 then shiftmap else ctlmap)"

definition caps :: "u32 \<Rightarrow> u32" where
  "caps c = (if 97 \<le> c \<and> c \<le> 122 then c + 65 - 97 else if 65 \<le> c \<and> c \<le> 90 then c + 97 - 65 else c)"

definition reboot_message :: "u32 list" where
  "reboot_message = map of_char ''Rebooting!'' @ [10]"

text \<open>What one byte does: the character it finishes (0 for none) and the modifiers held afterwards.\<close>

definition key_step :: "u32 \<Rightarrow> u8 \<Rightarrow> u32 \<times> u32" where
  "key_step shift data =
     (if data = 0xE0 then (0, shift OR E0ESC)
      else if data AND 0x80 \<noteq> 0 then
        (let data = (if shift AND E0ESC \<noteq> 0 then data else data AND 0x7F)
         in (0, shift AND NOT (shiftcode data OR E0ESC)))
      else
        (let (data, shift) = (if shift AND E0ESC \<noteq> 0 then (data OR 0x80, shift AND NOT E0ESC) else (data, shift));
             shift = (shift OR shiftcode data) XOR togglecode data;
             c = ucast (charcode (shift AND (CTL OR SHIFT)) data)
         in (if shift AND CAPSLOCK \<noteq> 0 then caps c else c, shift)))"

text \<open>The result is -1 when there is no byte.\<close>

definition kbd_proc_data :: "console \<Rightarrow> u32 \<times> console" where
  "kbd_proc_data s =
     (case kbd_in s of [] \<Rightarrow> (- 1, s)
      | data # rest \<Rightarrow>
        (let (c, shift) = key_step (kbd_shift s) data; s = s\<lparr>kbd_in := rest, kbd_shift := shift\<rparr>
         in (c, if NOT shift AND (CTL OR ALT) = 0 \<and> c = ucast KEY_DEL
                then cons_outb 0x92 0x3 (fold cputchar reboot_message s) else s)))"

section \<open>The serial port\<close>

definition COM1 :: u32 where "COM1 = 0x3F8"

definition serial_proc_data :: "console \<Rightarrow> u32 \<times> console" where
  "serial_proc_data s =
     (case com_in s of [] \<Rightarrow> (- 1, s) | data # rest \<Rightarrow> (ucast data, s\<lparr>com_in := rest\<rparr>))"

text \<open>The line status is read from the hardware; the last read throws a waiting byte away.\<close>

definition serial_init :: "u8 \<Rightarrow> console \<Rightarrow> console" where
  "serial_init line_status s =
     (let s = fold (\<lambda>(p, d). cons_outb (COM1 + p) d)
                [(2, 0), (3, 0x80), (0, 12), (1, 0), (3, 0x03), (4, 0), (1, 0x01)] s
      in s\<lparr>serial_exists := line_status \<noteq> 0xFF, com_in := tl (com_in s)\<rparr>)"

section \<open>The input buffer\<close>

definition CONSBUFSIZE :: u32 where "CONSBUFSIZE = 512"

definition cons_store :: "u32 \<Rightarrow> console \<Rightarrow> console" where
  "cons_store c s =
     (let s = s\<lparr>cons_buf := (cons_buf s)(unat (wpos s) := ucast c), wpos := wpos s + 1\<rparr>
      in if wpos s = CONSBUFSIZE then s\<lparr>wpos := 0\<rparr> else s)"

definition cons_take :: "console \<Rightarrow> u32 \<times> console" where
  "cons_take s =
     (if rpos s \<noteq> wpos s then
        let c = cons_buf s (unat (rpos s)); s = s\<lparr>rpos := rpos s + 1\<rparr>
        in (ucast c, if rpos s = CONSBUFSIZE then s\<lparr>rpos := 0\<rparr> else s)
      else (0, s))"

partial_function (option) cons_intr :: "(console \<Rightarrow> u32 \<times> console) \<Rightarrow> console \<Rightarrow> console option" where
  "cons_intr proc s =
     (let (c, s) = proc s in
      if c = - 1 then Some s
      else if c = 0 then cons_intr proc s
      else cons_intr proc (cons_store c s))"

definition serial_intr :: "console \<Rightarrow> console option" where
  "serial_intr s = (if serial_exists s then cons_intr serial_proc_data s else Some s)"

definition kbd_intr :: "console \<Rightarrow> console option" where
  "kbd_intr s = cons_intr kbd_proc_data s"

definition cons_getc :: "console \<Rightarrow> (u32 \<times> console) option" where
  "cons_getc s = Option.bind (serial_intr s) (\<lambda>s. map_option cons_take (kbd_intr s))"

text \<open>The system call reads at most one byte of each device, and answers for the keyboard only.\<close>

definition cons_getc2 :: "console \<Rightarrow> u32 \<times> console" where
  "cons_getc2 s =
     (let s = (if serial_exists s then
                 (let (c1, s) = serial_proc_data s in if c1 \<noteq> - 1 \<and> c1 \<noteq> 0 then cons_store c1 s else s)
               else s);
          (c2, s) = kbd_proc_data s;
          s = (if c2 \<noteq> - 1 \<and> c2 \<noteq> 0 then cons_store c2 s else s)
      in if 0 < sint c2 then cons_take s else (0, s))"

text \<open>Waiting for a key that was not typed yet is \<open>None\<close>.\<close>

partial_function (option) getchar :: "console \<Rightarrow> (u32 \<times> console) option" where
  "getchar s = Option.bind (cons_getc s) (\<lambda>(c, s). if c = 0 then getchar s else Some (c, s))"

partial_function (option) user_getchar :: "console \<Rightarrow> (u32 \<times> console) option" where
  "user_getchar s = (let (c, s) = cons_getc2 s in if c = 0 then user_getchar s else Some (c, s))"

text \<open>A process passes its character through a signed \<^verbatim>\<open>char\<close>.\<close>

definition user_cputchar :: "u32 \<Rightarrow> console \<Rightarrow> console" where
  "user_cputchar c = cputchar (scast (ucast c :: u8))"

definition no_serial_message :: "u32 list" where
  "no_serial_message = map of_char ''Serial port does not exist!'' @ [10]"

definition console_initialize :: "bool \<Rightarrow> u8 \<Rightarrow> u8 \<Rightarrow> u8 \<Rightarrow> console \<Rightarrow> console" where
  "console_initialize colour high low line_status s =
     (let s = serial_init line_status (cga_init colour high low s)
      in if \<not> serial_exists s then fold cputchar no_serial_message s else s)"

section \<open>The screen is a window on a roll of paper\<close>

text \<open>
  The abstract terminal: an endless sheet of 80 columns, the place of the next character, and the
  first row that is still in view; \<open>beyond\<close> is the memory behind the screen.
\<close>

record paper =
  tape :: "nat \<Rightarrow> u16"
  place :: nat
  top :: nat
  beyond :: "nat \<Rightarrow> u16"

definition feed :: "paper \<Rightarrow> paper" where
  "feed p = p\<lparr>top := max (top p) (place p div CRT_COLS - (CRT_ROWS - 1))\<rparr>"

definition paper_plain :: "u32 \<Rightarrow> paper \<Rightarrow> paper" where
  "paper_plain c p = p\<lparr>tape := (tape p)(place p := ucast (attribute c)), place := place p + 1\<rparr>"

definition paper_putc :: "u32 \<Rightarrow> paper \<Rightarrow> paper" where
  "paper_putc c p =
     (let l = c AND 0xFF in
      if l = 8 then
        (if CRT_COLS * top p < place p
         then p\<lparr>place := place p - 1,
                tape := (tape p)(place p - 1 := ucast ((attribute c AND NOT 0xFF) OR 32))\<rparr>
         else p)
      else if l = 10 then feed (p\<lparr>place := (place p div CRT_COLS + 1) * CRT_COLS\<rparr>)
      else if l = 13 then p\<lparr>place := place p div CRT_COLS * CRT_COLS\<rparr>
      else if l = 9 then ((\<lambda>p. feed (paper_plain 32 p)) ^^ 5) p
      else feed (paper_plain c p))"

definition window :: "nat \<Rightarrow> console \<Rightarrow> paper \<Rightarrow> bool" where
  "window k s p \<longleftrightarrow>
     unat (crt_pos s) < k \<and> place p = CRT_COLS * top p + unat (crt_pos s) \<and>
     (\<forall>i<CRT_SIZE. crt_buf s i = tape p (CRT_COLS * top p + i)) \<and>
     (\<forall>i\<ge>CRT_COLS * top p + CRT_SIZE. tape p i = 0x0720) \<and>
     (\<forall>i\<ge>CRT_SIZE. crt_buf s i = beyond p i)"

abbreviation in_view :: "console \<Rightarrow> paper \<Rightarrow> bool" where
  "in_view \<equiv> window CRT_SIZE"

lemmas crt_size = CRT_SIZE_def CRT_ROWS_def CRT_COLS_def

lemma fold_copy:
  "fold (\<lambda>i b. b(i := b (i + k))) [0..<n] b = (\<lambda>i. if i < n then b (i + k) else b i)"
  if "0 < k" for b :: "nat \<Rightarrow> 'a"
  using that by (induction n) auto

lemma fold_blank:
  "fold (\<lambda>i b. b(i := v)) [m..<n] b = (\<lambda>i. if m \<le> i \<and> i < n then v else b i)"
  by (induction n) auto

lemma cga_scroll_eq:
  "cga_scroll s =
     (if CRT_SIZE \<le> unat (crt_pos s) then
        s\<lparr>crt_buf := \<lambda>i. if i < CRT_SIZE - CRT_COLS then crt_buf s (i + CRT_COLS)
                          else if i < CRT_SIZE then 0x0720 else crt_buf s i,
          crt_pos := crt_pos s - of_nat CRT_COLS\<rparr>
      else s)"
proof -
  have p: "0 < CRT_COLS" and q: "CRT_SIZE - CRT_COLS < CRT_SIZE"
    by (simp_all add: crt_size)
  show ?thesis
    unfolding cga_scroll_def Let_def fold_blank fold_copy [OF p]
    using q by (auto intro!: arg_cong [where f = "\<lambda>f. s\<lparr>crt_buf := f, crt_pos := crt_pos s - of_nat CRT_COLS\<rparr>"] ext)
qed

lemma feed_top: "feed p = (if CRT_COLS * top p + CRT_SIZE \<le> place p then p\<lparr>top := place p div CRT_COLS - 24\<rparr> else p)"
proof (cases "2000 + 80 * top p \<le> place p")
  case True
  then have "top p \<le> place p div 80 - 24"
    by linarith
  then show ?thesis
    using True by (simp add: feed_def crt_size)
next
  case False
  then have "place p div 80 - 24 \<le> top p"
    by linarith
  then show ?thesis
    using False by (simp add: feed_def crt_size)
qed

lemma scroll_in_view:
  assumes "window (CRT_SIZE + CRT_COLS) s p"
  shows "in_view (cga_scroll s) (feed p)"
proof (cases "2000 \<le> unat (crt_pos s)")
  case True
  have p: "place p = 80 * top p + unat (crt_pos s)" "unat (crt_pos s) < 2080"
    using assms by (auto simp: window_def crt_size)
  have t: "place p div 80 - 24 = top p + 1"
    using p True by simp
  have u: "unat (crt_pos s - 80) = unat (crt_pos s) - 80"
    using True by (subst unat_sub) (simp_all add: word_le_nat_alt)
  have b: "\<forall>i<2000. crt_buf s i = tape p (80 * top p + i)" "\<forall>i\<ge>80 * top p + 2000. tape p i = 0x0720"
    "\<forall>i\<ge>2000. crt_buf s i = beyond p i"
    using assms by (auto simp: window_def crt_size)
  have "i < 1920 \<Longrightarrow> crt_buf s (i + 80) = tape p (80 * top p + (i + 80))" for i
    using b(1) by simp
  then show ?thesis
    using True p t u b by (auto simp: window_def feed_top cga_scroll_eq crt_size ac_simps)
next
  case False
  then show ?thesis
    using assms by (auto simp: window_def feed_top cga_scroll_eq crt_size)
qed

lemma window_cga_cursor [simp]: "window k (cga_cursor s) p = window k s p"
  by (simp add: window_def cga_cursor_def cons_outb_def)

lemma window_lpt_putc [simp]: "window k (lpt_putc c s) p = window k s p"
  by (simp add: window_def lpt_putc_def cons_outb_def)

lemma plain_in_view:
  assumes "in_view s p"
  shows "window (CRT_SIZE + CRT_COLS)
    (s\<lparr>crt_buf := (crt_buf s)(unat (crt_pos s) := ucast (attribute c)), crt_pos := crt_pos s + 1\<rparr>) (paper_plain c p)"
proof -
  have "unat (crt_pos s) < 2000"
    using assms by (simp add: window_def crt_size)
  moreover from this have "unat (crt_pos s + 1) = unat (crt_pos s) + 1"
    by (subst unat_add_lem [THEN iffD1]) simp_all
  ultimately show ?thesis
    using assms by (auto simp: window_def paper_plain_def crt_size)
qed

lemma unat_line_start: "unat (line_start q) = unat q div 80 * 80"
proof -
  have m: "unat (q mod 80) = unat q mod 80"
    by (simp add: unat_mod)
  have "unat (q - q mod 80) = unat q - unat (q mod 80)"
    by (rule unat_sub) (simp add: word_le_nat_alt m)
  then show ?thesis
    unfolding line_start_def CRT_COLS_def of_nat_numeral by (simp only: m minus_mod_eq_div_mult)
qed

lemma return_in_view:
  assumes "window k s p" and "k \<le> CRT_SIZE + CRT_COLS"
  shows "window k (s\<lparr>crt_pos := line_start (crt_pos s)\<rparr>) (p\<lparr>place := place p div CRT_COLS * CRT_COLS\<rparr>)"
  using assms by (auto simp: window_def unat_line_start CRT_COLS_def)

lemma newline_in_view:
  assumes "in_view s p"
  shows "window (CRT_SIZE + CRT_COLS) (s\<lparr>crt_pos := line_start (crt_pos s + of_nat CRT_COLS)\<rparr>)
           (p\<lparr>place := (place p div CRT_COLS + 1) * CRT_COLS\<rparr>)"
proof -
  have "unat (crt_pos s) < 2000"
    using assms by (simp add: window_def crt_size)
  moreover from this have "unat (crt_pos s + 80) = unat (crt_pos s) + 80"
    by (subst unat_add_lem [THEN iffD1]) simp_all
  moreover have "(unat (crt_pos s) + 80) div 80 = unat (crt_pos s) div 80 + 1"
    by simp
  ultimately show ?thesis
    using assms by (auto simp: window_def unat_line_start crt_size)
qed

lemma backspace_in_view:
  assumes "in_view s p" and "0 < crt_pos s"
  shows "in_view (s\<lparr>crt_pos := crt_pos s - 1, crt_buf := (crt_buf s)(unat (crt_pos s - 1) := v)\<rparr>)
           (p\<lparr>place := place p - 1, tape := (tape p)(place p - 1 := v)\<rparr>)"
proof -
  have "0 < unat (crt_pos s)"
    using assms(2) by (simp add: word_less_nat_alt)
  moreover from this have "unat (crt_pos s - 1) = unat (crt_pos s) - 1"
    by (subst unat_sub) (simp_all add: word_le_nat_alt)
  ultimately show ?thesis
    using assms(1) by (auto simp: window_def crt_size)
qed

lemma scroll_id: "in_view s p \<Longrightarrow> cga_scroll s = s"
  by (simp add: cga_scroll_eq window_def)

lemma cga_plain_in_view:
  assumes "in_view s p" and "c AND 0xFF \<notin> {8, 9, 10, 13}"
  shows "in_view (cga_putc c s) (feed (paper_plain c p))"
  using assms(2) scroll_in_view [OF plain_in_view [OF assms(1)]]
  by (subst cga_putc.simps) (simp add: Let_def)

lemma cons_blank_in_view:
  assumes "in_view s p"
  shows "in_view (cons_putc 32 s) (feed (paper_plain 32 p))"
proof -
  have "in_view (lpt_putc 32 s) p"
    using assms by simp
  then show ?thesis
    by (subst cons_putc.simps) (rule cga_plain_in_view, simp_all)
qed

lemma cga_putc_in_view:
  assumes "in_view s p"
  shows "in_view (cga_putc c s) (paper_putc c p)"
proof -
  note sc = scroll_id [THEN sym]
  consider "c AND 0xFF = 8" | "c AND 0xFF = 10" | "c AND 0xFF = 13" | "c AND 0xFF = 9"
    | "c AND 0xFF \<notin> {8, 9, 10, 13}"
    by auto
  then show ?thesis
  proof cases
    case 1
    have b: "CRT_COLS * top p < place p \<longleftrightarrow> 0 < crt_pos s"
      using assms by (simp add: window_def word_less_nat_alt)
    show ?thesis
    proof (cases "0 < crt_pos s")
      case True
      show ?thesis
        using 1 True backspace_in_view [OF assms True, THEN scroll_id] backspace_in_view [OF assms True]
        by (subst cga_putc.simps) (simp add: Let_def paper_putc_def b)
    next
      case False
      then show ?thesis
        using 1 assms scroll_id [OF assms] by (subst cga_putc.simps) (simp add: Let_def paper_putc_def b)
    qed
  next
    case 2
    then show ?thesis
      using scroll_in_view [OF newline_in_view [OF assms]]
      by (subst cga_putc.simps) (simp add: Let_def paper_putc_def)
  next
    case 3
    then show ?thesis
      using return_in_view [OF assms] scroll_id [OF return_in_view [OF assms]]
      by (subst cga_putc.simps) (simp add: Let_def paper_putc_def)
  next
    case 4
    have "in_view (cons_putc 32 (cons_putc 32 (cons_putc 32 (cons_putc 32 (cons_putc 32 s)))))
            (((\<lambda>p. feed (paper_plain 32 p)) ^^ 5) p)"
      by (simp add: numeral_eq_Suc cons_blank_in_view assms)
    from this scroll_id [OF this] show ?thesis
      using 4 by (subst cga_putc.simps) (simp add: Let_def paper_putc_def)
  next
    case 5
    then show ?thesis
      using cga_plain_in_view [OF assms 5] by (simp add: paper_putc_def Let_def)
  qed
qed

lemma beyond_feed_plain: "beyond (((\<lambda>p. feed (paper_plain c p)) ^^ n) p) = beyond p"
  by (induction n) (simp_all add: feed_def paper_plain_def)

lemma beyond_paper_putc: "beyond (fold paper_putc cs p) = beyond p"
proof (induction cs arbitrary: p)
  case (Cons c cs)
  have "beyond (paper_putc c p) = beyond p"
    unfolding paper_putc_def Let_def by (simp add: beyond_feed_plain) (simp add: feed_def paper_plain_def)
  then show ?case
    using Cons by simp
qed simp

lemma fold_in_view:
  assumes "\<And>c s p. R s p \<Longrightarrow> R (f c s) (g c p)" and "R s p"
  shows "R (fold f cs s) (fold g cs p)"
  using assms by (induction cs arbitrary: s p) auto

lemma cons_putc_in_view: "in_view s p \<Longrightarrow> in_view (cons_putc c s) (paper_putc c p)"
  by (subst cons_putc.simps) (rule cga_putc_in_view, simp)

text \<open>C35: The screen is a window on a roll of paper. Whatever is printed (control characters
  included), the 25 rows of the screen are the 25 rows of the paper from the first row in view on, the
  cursor is on the screen, at the place on the paper, and the cells behind the screen's memory keep their
  contents.\<close>

theorem screen_shows_paper:
  assumes "in_view s p"
  shows "in_view (fold cputchar cs s) (fold paper_putc cs p) \<and>
         (\<forall>i\<ge>CRT_SIZE. crt_buf (fold cputchar cs s) i = crt_buf s i)"
proof -
  have *: "in_view (fold cputchar cs s) (fold paper_putc cs p)"
    using assms by (rule fold_in_view [rotated]) (simp add: cputchar_def cons_putc_in_view)
  then show ?thesis
    using assms by (auto simp: window_def beyond_paper_putc)
qed


text \<open>A screen on its last row: printing a letter and a new line there rolls the paper.\<close>

definition last_row :: console where
  "last_row = \<lparr>com_in = [], kbd_in = [], cports = [], serial_exists = False, addr_6845 = CGA_BASE,
     crt_buf = \<lambda>i. if i < CRT_SIZE then of_nat i else 7,
     crt_pos = 1999, kbd_shift = 0, cons_buf = \<lambda>_. 0, rpos = 0, wpos = 0\<rparr>"

definition last_paper :: paper where
  "last_paper = \<lparr>tape = \<lambda>i. if i < CRT_SIZE then of_nat i else 0x0720, place = 1999, top = 0,
     beyond = \<lambda>_. 7\<rparr>"

lemma last_paper_prints:
  "place (fold paper_putc [65, 10] last_paper) = 2080 \<and> top (fold paper_putc [65, 10] last_paper) = 2 \<and>
   tape (fold paper_putc [65, 10] last_paper) 1999 = 0x0741"
  by (simp add: paper_putc_def paper_plain_def feed_def attribute_def last_paper_def crt_size Let_def)

theorem screen_shows_paper_witness:
  "crt_pos (fold cputchar [65, 10] last_row) = 1920 \<and>
   crt_buf (fold cputchar [65, 10] last_row) 1839 = 0x0741 \<and>
   crt_buf (fold cputchar [65, 10] last_row) 5000 = 7"
proof -
  have v: "in_view last_row last_paper"
    by (simp add: window_def last_row_def last_paper_def crt_size)
  note w = screen_shows_paper [OF v, of "[65, 10]"]
  have i: "in_view (fold cputchar [65, 10] last_row) (fold paper_putc [65, 10] last_paper)"
    and b: "\<forall>i\<ge>2000. crt_buf (fold cputchar [65, 10] last_row) i = crt_buf last_row i"
    using w unfolding crt_size by simp_all
  have "unat (crt_pos (fold cputchar [65, 10] last_row)) = 1920"
    using i last_paper_prints unfolding window_def crt_size by simp
  then have "crt_pos (fold cputchar [65, 10] last_row) = 1920"
    by (simp add: word_unat_eq_iff)
  moreover have "crt_buf (fold cputchar [65, 10] last_row) 1839 = 0x0741"
    using i last_paper_prints unfolding window_def crt_size by simp
  moreover have "crt_buf (fold cputchar [65, 10] last_row) 5000 = 7"
    using b [rule_format, of 5000] by (simp add: last_row_def crt_size)
  ultimately show ?thesis
    by blast
qed

section \<open>The input buffer is a queue\<close>

text \<open>What a bounded buffer promises as long as it does not overflow.\<close>

locale bounded_fifo =
  fixes inv :: "'s \<Rightarrow> bool"
    and items :: "'s \<Rightarrow> 'a list"
    and cap :: nat
    and good :: "'a \<Rightarrow> bool"
    and put :: "'a \<Rightarrow> 's \<Rightarrow> 's"
    and get :: "'s \<Rightarrow> 'a \<times> 's"
    and none :: 'a
  assumes inv_put: "inv s \<Longrightarrow> inv (put c s)"
    and inv_get: "inv s \<Longrightarrow> inv (snd (get s))"
    and put_items: "inv s \<Longrightarrow> good c \<Longrightarrow> length (items s) < cap \<Longrightarrow> items (put c s) = items s @ [c]"
    and get_none: "inv s \<Longrightarrow> items s = [] \<Longrightarrow> get s = (none, s)"
    and get_first: "inv s \<Longrightarrow> items s = c # cs \<Longrightarrow> fst (get s) = c \<and> items (snd (get s)) = cs"

fun drain :: "('s \<Rightarrow> 'a \<times> 's) \<Rightarrow> nat \<Rightarrow> 's \<Rightarrow> 'a list \<times> 's" where
  "drain get 0 s = ([], s)"
| "drain get (Suc n) s = (case get s of (c, s) \<Rightarrow> apfst (Cons c) (drain get n s))"

context bounded_fifo begin

lemma put_all:
  assumes "inv s" and "list_all good cs" and "length (items s) + length cs \<le> cap"
  shows "inv (fold put cs s) \<and> items (fold put cs s) = items s @ cs"
  using assms
proof (induction cs arbitrary: s)
  case (Cons c cs)
  have "items (put c s) = items s @ [c]"
    using Cons.prems by (intro put_items) simp_all
  then show ?case
    using Cons.IH [of "put c s"] Cons.prems inv_put by simp
qed simp

lemma drain_items:
  assumes "inv s" and "n \<le> length (items s)"
  shows "inv (snd (drain get n s)) \<and> fst (drain get n s) = take n (items s) \<and>
         items (snd (drain get n s)) = drop n (items s)"
  using assms
proof (induction n arbitrary: s)
  case (Suc n)
  then obtain c cs where i: "items s = c # cs"
    by (cases "items s") auto
  note g = get_first [OF Suc.prems(1) i]
  show ?case
    using Suc.IH [of "snd (get s)"] Suc.prems g i inv_get [OF Suc.prems(1)] by (auto split: prod.split)
qed simp

lemma put_drain:
  assumes "inv s" and "list_all good cs" and "length (items s) + length cs \<le> cap"
  shows "fst (drain get (length (items s) + length cs) (fold put cs s)) = items s @ cs"
  using drain_items [of "fold put cs s" "length (items s) + length cs"] put_all [OF assms] by simp

end

definition ring_inv :: "console \<Rightarrow> bool" where
  "ring_inv s \<longleftrightarrow> rpos s < 512 \<and> wpos s < 512"

definition ring_slot :: "console \<Rightarrow> nat \<Rightarrow> u32" where
  "ring_slot s i = ucast (cons_buf s ((unat (rpos s) + i) mod 512))"

definition ring_count :: "console \<Rightarrow> nat" where
  "ring_count s = (unat (wpos s) + (512 - unat (rpos s))) mod 512"

definition pending :: "console \<Rightarrow> u32 list" where
  "pending s = map (ring_slot s) [0..<ring_count s]"

lemma ring_next:
  assumes "(x :: u32) < 512"
  shows "(if x + 1 = 512 then 0 else x + 1) < 512 \<and> unat (if x + 1 = 512 then 0 else x + 1) = (unat x + 1) mod 512"
proof (cases "x = 511")
  case False
  have "unat x < 512" "unat x \<noteq> 511"
    using assms False by (simp_all add: word_less_nat_alt word_unat_eq_iff)
  moreover from this have "unat (x + 1) = unat x + 1"
    by (subst unat_add_lem [THEN iffD1]) simp_all
  moreover from calculation have "x + 1 \<noteq> 512"
    by (simp add: word_unat_eq_iff)
  ultimately show ?thesis
    by (simp add: word_less_nat_alt)
qed simp

lemma cons_store_eq:
  "cons_store c s = s\<lparr>cons_buf := (cons_buf s)(unat (wpos s) := ucast c),
                     wpos := if wpos s + 1 = 512 then 0 else wpos s + 1\<rparr>"
  by (simp add: cons_store_def CONSBUFSIZE_def)

lemma cons_take_eq:
  "cons_take s = (if rpos s \<noteq> wpos s
     then (ucast (cons_buf s (unat (rpos s))), s\<lparr>rpos := if rpos s + 1 = 512 then 0 else rpos s + 1\<rparr>)
     else (0, s))"
  by (simp add: cons_take_def CONSBUFSIZE_def)

lemma ring_unat: "ring_inv s \<Longrightarrow> unat (rpos s) < 512 \<and> unat (wpos s) < 512"
  by (simp add: ring_inv_def word_less_nat_alt)

lemma ring_count_eq:
  "ring_inv s \<Longrightarrow> ring_count s = (if unat (rpos s) \<le> unat (wpos s) then unat (wpos s) - unat (rpos s)
     else unat (wpos s) + 512 - unat (rpos s))"
  using ring_unat [of s] by (auto simp: ring_count_def mod_if)

lemma ring_wpos: "ring_inv s \<Longrightarrow> unat (wpos s) = (unat (rpos s) + ring_count s) mod 512"
  using ring_unat [of s] by (auto simp: ring_count_eq mod_if)

lemma ring_slot_inj:
  assumes "(r + i) mod 512 = (r + j) mod 512" and "i < 512" and "j < 512" and "r < (512 :: nat)"
  shows "i = j"
  using assms by (auto simp: mod_if split: if_splits)

lemma byte_back: "(c :: u32) < 256 \<Longrightarrow> ucast (ucast c :: u8) = c"
  by (simp add: word_unat_eq_iff unsigned_ucast_eq unsigned_take_bit_eq take_bit_eq_mod word_less_nat_alt unat_mod)

lemma ring_inv_store: "ring_inv s \<Longrightarrow> ring_inv (cons_store c s)"
  using ring_next [of "wpos s"] by (simp add: ring_inv_def cons_store_eq)

lemma ring_inv_take: "ring_inv s \<Longrightarrow> ring_inv (snd (cons_take s))"
  using ring_next [of "rpos s"] by (auto simp: ring_inv_def cons_take_eq)

lemma ring_count_store:
  assumes "ring_inv s" and "ring_count s < 511"
  shows "ring_count (cons_store c s) = ring_count s + 1"
proof -
  have "unat (wpos (cons_store c s)) = (unat (wpos s) + 1) mod 512" "rpos (cons_store c s) = rpos s"
    using ring_next [of "wpos s"] assms(1) by (simp_all add: ring_inv_def cons_store_eq)
  then show ?thesis
    using ring_count_eq [OF ring_inv_store [OF assms(1)], of c] ring_count_eq [OF assms(1)] assms(2)
      ring_unat [OF assms(1)] by (auto simp: mod_if split: if_splits)
qed

lemma ring_count_take:
  assumes "ring_inv s" and "rpos s \<noteq> wpos s"
  shows "ring_count (snd (cons_take s)) = ring_count s - 1"
proof -
  have "unat (rpos (snd (cons_take s))) = (unat (rpos s) + 1) mod 512" "wpos (snd (cons_take s)) = wpos s"
    using ring_next [of "rpos s"] assms by (simp_all add: ring_inv_def cons_take_eq)
  moreover have "unat (rpos s) \<noteq> unat (wpos s)"
    using assms(2) by (simp add: word_unat_eq_iff)
  ultimately show ?thesis
    using ring_count_eq [OF ring_inv_take [OF assms(1)]] ring_count_eq [OF assms(1)]
      ring_unat [OF assms(1)] by (auto simp: mod_if split: if_splits)
qed

interpretation console_ring: bounded_fifo ring_inv pending 511 "\<lambda>c. c < 256" cons_store cons_take 0
proof (unfold_locales, goal_cases)
  case (1 s c)
  then show ?case
    by (rule ring_inv_store)
next
  case (2 s)
  then show ?case
    by (rule ring_inv_take)
next
  case (3 s c)
  have w: "unat (wpos s) = (unat (rpos s) + ring_count s) mod 512" and k: "ring_count s < 511"
    using ring_wpos [OF 3(1)] 3(3) by (simp_all add: pending_def)
  have c: "ring_count (cons_store c s) = ring_count s + 1"
    by (rule ring_count_store [OF 3(1) k])
  have b: "ucast (ucast c :: u8) = c"
    using 3(2) by (rule byte_back)
  have "ring_slot (cons_store c s) i = (if i = ring_count s then c else ring_slot s i)" if "i \<le> ring_count s" for i
    using ring_slot_inj [of "unat (rpos s)" i "ring_count s"] that k b ring_unat [OF 3(1)]
    by (auto simp: ring_slot_def cons_store_eq w)
  then show ?case
    by (simp add: pending_def c)
next
  case (4 s)
  have "ring_count s = 0"
    using 4(2) by (simp add: pending_def)
  then have "unat (rpos s) = unat (wpos s)"
    using ring_unat [OF 4(1)] ring_count_eq [OF 4(1)] by (auto split: if_splits)
  then have "rpos s = wpos s"
    by (simp add: word_unat_eq_iff)
  then show ?case
    by (simp add: cons_take_eq)
next
  case (5 s c cs)
  have k: "0 < ring_count s"
    using 5(2) by (cases "ring_count s") (simp_all add: pending_def)
  have e: "c = ring_slot s 0" and t: "cs = map (ring_slot s) [1..<ring_count s]"
    using 5(2) unfolding pending_def upt_conv_Cons [OF k] by simp_all
  have n: "rpos s \<noteq> wpos s"
    using k ring_count_eq [OF 5(1)] by auto
  have u: "unat (if rpos s + 1 = 512 then 0 else rpos s + 1) = (unat (rpos s) + 1) mod 512"
    using ring_next [of "rpos s"] 5(1) by (simp add: ring_inv_def)
  have c: "ring_count (snd (cons_take s)) = ring_count s - 1"
    by (rule ring_count_take [OF 5(1) n])
  have "ring_slot (snd (cons_take s)) i = ring_slot s (i + 1)" for i
    using u n by (simp add: ring_slot_def cons_take_eq mod_simps ac_simps)
  then have "pending (snd (cons_take s)) = map (\<lambda>i. ring_slot s (i + 1)) [0..<ring_count s - 1]"
    by (simp add: pending_def c)
  also have "\<dots> = cs"
    unfolding t by (rule nth_equalityI) simp_all
  finally show ?case
    using n e ring_unat [OF 5(1)] by (simp add: cons_take_eq ring_slot_def)
qed

section \<open>Interrupts and readers\<close>

text \<open>The state without what was put out.\<close>

definition inputs :: "console \<Rightarrow> console" where
  "inputs s = s\<lparr>cports := [], crt_buf := \<lambda>_. 0, crt_pos := 0\<rparr>"

lemma inputs_putc:
  "inputs (cga_putc c s) = inputs s" "inputs (cons_putc c s) = inputs s"
proof (induction c s and c s rule: cga_putc_cons_putc.induct)
  case (1 c s)
  have o: "inputs (cga_cursor (cga_scroll s)) = inputs s" for s
    by (simp add: cga_cursor_def cga_scroll_def cons_outb_def inputs_def Let_def)
  have f: "inputs (s\<lparr>crt_buf := b\<rparr>) = inputs s" "inputs (s\<lparr>crt_pos := p\<rparr>) = inputs s"
    "inputs (s\<lparr>crt_pos := p, crt_buf := b\<rparr>) = inputs s" for s b p
    by (simp_all add: inputs_def)
  show ?case
    using 1 by (subst cga_putc.simps) (simp add: o f Let_def)
next
  case (2 c s)
  then show ?case
    by (subst cons_putc.simps) (simp add: lpt_putc_def cons_outb_def inputs_def)
qed

lemma inputs_fold: "inputs (fold cputchar cs s) = inputs s"
  by (induction cs arbitrary: s) (simp_all add: cputchar_def inputs_putc)

lemma inputs_store: "inputs (cons_store c s) = cons_store c (inputs s)"
  by (simp add: inputs_def cons_store_eq)

lemma inputs_queue [simp]: "pending (inputs s) = pending s" "ring_inv (inputs s) = ring_inv s"
  by (simp_all add: inputs_def pending_def ring_slot_def[abs_def] ring_count_def ring_inv_def)

fun decode :: "u32 \<Rightarrow> u8 list \<Rightarrow> u32 list \<times> u32" where
  "decode sh [] = ([], sh)"
| "decode sh (d # ds) =
     (case key_step sh d of (c, sh) \<Rightarrow> apfst (\<lambda>cs. if c = 0 then cs else c # cs) (decode sh ds))"

lemma caps_byte: "c < 256 \<Longrightarrow> caps c < 256"
proof -
  assume c: "c < 256"
  have "unat (c - 32) = unat c - 32" if "97 \<le> c"
    using that unat_sub [of 32 c] by (simp add: word_le_nat_alt)
  moreover have "unat (32 + c) = unat c + 32"
    using c by (subst unat_add_lem [THEN iffD1]) (simp_all add: word_less_nat_alt)
  ultimately show ?thesis
    using c by (auto simp: caps_def word_less_nat_alt word_le_nat_alt)
qed

lemma byte_small: "(ucast (x :: u8) :: u32) < 256"
  using unsigned_less [of x, where 'a = nat]
  by (simp add: word_less_nat_alt unsigned_ucast_eq unsigned_take_bit_eq take_bit_eq_mod)

lemma key_step_byte: "fst (key_step sh d) < 256"
  by (simp add: key_step_def Let_def caps_byte byte_small split: prod.split)

lemma decode_bytes: "list_all (\<lambda>c. c < 256) (fst (decode sh ds))"
proof (induction sh ds rule: decode.induct)
  case (2 sh d ds)
  then show ?case
    using key_step_byte [of sh d] by (auto split: prod.split)
qed simp

lemma kbd_intr_decodes:
  "\<exists>s'. kbd_intr s = Some s' \<and>
     inputs s' = fold cons_store (fst (decode (kbd_shift s) (kbd_in s)))
                   ((inputs s)\<lparr>kbd_in := [], kbd_shift := snd (decode (kbd_shift s) (kbd_in s))\<rparr>)"
proof (induction "kbd_in s" arbitrary: s)
  case Nil
  then show ?case
    by (auto simp: kbd_intr_def cons_intr.simps kbd_proc_data_def inputs_def)
next
  case (Cons d ds)
  obtain c sh where k: "key_step (kbd_shift s) d = (c, sh)"
    by (cases "key_step (kbd_shift s) d") auto
  have c: "c \<noteq> - 1"
    using key_step_byte [of "kbd_shift s" d] k by auto
  define s1 where "s1 = snd (kbd_proc_data s)"
  have p: "kbd_proc_data s = (c, s1)"
    using k by (simp add: kbd_proc_data_def s1_def Cons.hyps(2) [symmetric] Let_def)
  have i: "inputs s1 = (inputs s)\<lparr>kbd_in := ds, kbd_shift := sh\<rparr>"
  proof -
    have o: "inputs (cons_outb x y s) = inputs s" for x y s
      by (simp add: inputs_def cons_outb_def)
    show ?thesis
      using k by (simp add: kbd_proc_data_def s1_def Cons.hyps(2) [symmetric] o inputs_fold Let_def)
        (simp add: inputs_def)
  qed
  define s2 where "s2 = (if c = 0 then s1 else cons_store c s1)"
  have r: "kbd_intr s = kbd_intr s2"
    using c by (simp add: kbd_intr_def cons_intr.simps [of _ s] p s2_def)
  have i2: "inputs s2 = (if c = 0 then inputs s1 else cons_store c (inputs s1))"
    by (simp add: s2_def inputs_store)
  have "kbd_in s2 = kbd_in (inputs s2)" "kbd_shift s2 = kbd_shift (inputs s2)"
    by (simp_all add: inputs_def)
  then have f: "kbd_in s2 = ds" "kbd_shift s2 = sh"
    unfolding i2 i by (simp_all add: cons_store_eq)
  have e: "(inputs s2)\<lparr>kbd_in := [], kbd_shift := x\<rparr> =
      fold cons_store (if c = 0 then [] else [c]) ((inputs s)\<lparr>kbd_in := [], kbd_shift := x\<rparr>)" for x
    unfolding i2 i by (simp add: cons_store_eq)
  show ?case
    using Cons.hyps(1) [of s2] f unfolding r e
    by (cases "c = 0") (simp_all add: Cons.hyps(2) [symmetric] k)
qed

lemma serial_intr_stores:
  "cons_intr serial_proc_data s =
     Some (fold cons_store (filter (\<lambda>c. c \<noteq> 0) (map ucast (com_in s))) (s\<lparr>com_in := []\<rparr>))"
proof (induction "com_in s" arbitrary: s)
  case Nil
  then show ?case
    by (simp add: cons_intr.simps serial_proc_data_def Nil [symmetric])
next
  case (Cons d ds)
  have c: "(ucast d :: u32) \<noteq> - 1"
  proof -
    have "(ucast d :: u32) < 256"
      by (rule byte_small)
    then show ?thesis
      by auto
  qed
  have e: "(cons_store c (s\<lparr>com_in := ds\<rparr>))\<lparr>com_in := []\<rparr> = cons_store c (s\<lparr>com_in := []\<rparr>)" for c
    by (simp add: cons_store_eq)
  have f: "com_in (cons_store c (s\<lparr>com_in := ds\<rparr>)) = ds" for c
    by (simp add: cons_store_eq)
  show ?case
    using Cons.hyps(1) [of "s\<lparr>com_in := ds\<rparr>"] Cons.hyps(1) [of "cons_store (ucast d) (s\<lparr>com_in := ds\<rparr>)"]
    by (subst cons_intr.simps)
       (simp add: serial_proc_data_def Cons.hyps(2) [symmetric] c e f)
qed

section \<open>What the readers return\<close>

definition serial_typed :: "console \<Rightarrow> u32 list" where
  "serial_typed s = (if serial_exists s then filter (\<lambda>c. c \<noteq> 0) (map ucast (com_in s)) else [])"

definition typed :: "console \<Rightarrow> u32 list" where
  "typed s = pending s @ serial_typed s @ fst (decode (kbd_shift s) (kbd_in s))"

lemma inputs_shift: "kbd_shift (inputs s) = kbd_shift s"
  by (simp add: inputs_def)

lemma inputs_fields [simp]: "kbd_in (inputs s) = kbd_in s" "serial_typed (inputs s) = serial_typed s"
  by (simp_all add: inputs_def serial_typed_def)

lemma serial_bytes: "list_all (\<lambda>c. c < 256) (serial_typed s)"
  by (auto simp: serial_typed_def list_all_iff byte_small)

lemma store_fields [simp]:
  "kbd_in (cons_store c s) = kbd_in s" "kbd_shift (cons_store c s) = kbd_shift s"
  "com_in (cons_store c s) = com_in s" "serial_exists (cons_store c s) = serial_exists s"
  by (simp_all add: cons_store_eq)

lemma store_all_fields [simp]:
  "kbd_in (fold cons_store cs s) = kbd_in s" "kbd_shift (fold cons_store cs s) = kbd_shift s"
  "com_in (fold cons_store cs s) = com_in s" "serial_exists (fold cons_store cs s) = serial_exists s"
  by (induction cs arbitrary: s) simp_all

lemma take_fields [simp]:
  "kbd_in (snd (cons_take s)) = kbd_in s" "kbd_shift (snd (cons_take s)) = kbd_shift s"
  "com_in (snd (cons_take s)) = com_in s" "serial_exists (snd (cons_take s)) = serial_exists s"
  by (simp_all add: cons_take_eq)

lemma queue_cong:
  "pending (s\<lparr>com_in := x\<rparr>) = pending s" "ring_inv (s\<lparr>com_in := x\<rparr>) = ring_inv s"
  "pending (s\<lparr>kbd_in := y, kbd_shift := z\<rparr>) = pending s" "ring_inv (s\<lparr>kbd_in := y, kbd_shift := z\<rparr>) = ring_inv s"
  by (simp_all add: pending_def ring_slot_def [abs_def] ring_count_def ring_inv_def)

lemma polled:
  assumes "ring_inv s" and "length (typed s) \<le> 511"
  shows "\<exists>s'. Option.bind (serial_intr s) kbd_intr = Some s' \<and> ring_inv s' \<and> pending s' = typed s \<and>
           kbd_in s' = [] \<and> serial_typed s' = []"
proof -
  define s1 where "s1 = (if serial_exists s then fold cons_store (serial_typed s) (s\<lparr>com_in := []\<rparr>) else s)"
  have i: "serial_intr s = Some s1"
    by (simp add: serial_intr_def serial_intr_stores s1_def serial_typed_def)
  have p1: "ring_inv s1 \<and> pending s1 = pending s @ serial_typed s"
    using console_ring.put_all [of "s\<lparr>com_in := []\<rparr>" "serial_typed s"] assms serial_bytes [of s]
    by (auto simp: s1_def queue_cong typed_def) (simp add: serial_typed_def)
  have f1: "kbd_in s1 = kbd_in s" "kbd_shift s1 = kbd_shift s" "serial_typed s1 = []"
    by (simp_all add: s1_def) (simp add: serial_typed_def)
  let ?d = "decode (kbd_shift s1) (kbd_in s1)"
  obtain s2 where k: "kbd_intr s1 = Some s2"
    and n: "inputs s2 = fold cons_store (fst ?d) ((inputs s1)\<lparr>kbd_in := [], kbd_shift := snd ?d\<rparr>)"
    using kbd_intr_decodes [of s1] by auto
  have "ring_inv (inputs s2) \<and> pending (inputs s2) = pending s1 @ fst ?d"
    using console_ring.put_all [of "(inputs s1)\<lparr>kbd_in := [], kbd_shift := snd ?d\<rparr>" "fst ?d"]
      p1 f1 assms(2) decode_bytes [of "kbd_shift s1" "kbd_in s1"]
    unfolding n by (simp add: queue_cong typed_def)
  moreover have "kbd_in (inputs s2) = []" "serial_typed (inputs s2) = serial_typed (inputs s1)"
    unfolding n by (simp_all add: serial_typed_def [abs_def])
  ultimately show ?thesis
    using i k p1 f1 by (simp add: typed_def)
qed

lemma cons_getc_polls:
  assumes "ring_inv s" and "length (typed s) \<le> 511"
  shows "\<exists>s'. cons_getc s = Some (case typed s of [] \<Rightarrow> 0 | c # _ \<Rightarrow> c, s') \<and> ring_inv s' \<and> typed s' = tl (typed s)"
proof -
  obtain s1 where s1: "Option.bind (serial_intr s) kbd_intr = Some s1" "ring_inv s1" "pending s1 = typed s"
      "kbd_in s1 = []" "serial_typed s1 = []"
    using polled [OF assms] by auto
  have g: "cons_getc s = Some (cons_take s1)"
    using s1(1) by (cases "serial_intr s") (simp_all add: cons_getc_def)
  have t: "typed (snd (cons_take s1)) = pending (snd (cons_take s1))"
    using s1(4,5) by (simp add: typed_def serial_typed_def split: if_splits)
  show ?thesis
  proof (cases "typed s")
    case Nil
    then show ?thesis
      using g s1 t console_ring.get_none [of s1] by simp
  next
    case (Cons c cs)
    then have "fst (cons_take s1) = c \<and> pending (snd (cons_take s1)) = cs"
      using s1(2,3) console_ring.get_first by simp
    then show ?thesis
      using g s1(2) t Cons by (auto simp: ring_inv_take prod_eq_iff)
  qed
qed

fun read_keys :: "nat \<Rightarrow> console \<Rightarrow> (u32 list \<times> console) option" where
  "read_keys 0 s = Some ([], s)"
| "read_keys (Suc n) s =
     Option.bind (getchar s) (\<lambda>(c, s). map_option (apfst (Cons c)) (read_keys n s))"

lemma getchar_waits:
  assumes "ring_inv s" and "typed s = []"
  shows "getchar s = None"
proof -
  have "getchar s = Some r \<Longrightarrow> \<not> (ring_inv s \<and> typed s = [])" for r
  proof (erule getchar.raw_induct [rotated])
    fix getc :: "console \<Rightarrow> (u32 \<times> console) option" and s r
    assume ih: "\<And>s r. getc s = Some r \<Longrightarrow> \<not> (ring_inv s \<and> typed s = [])"
      and r: "Option.bind (cons_getc s) (\<lambda>(c, s). if c = 0 then getc s else Some (c, s)) = Some r"
    show "\<not> (ring_inv s \<and> typed s = [])"
    proof
      assume *: "ring_inv s \<and> typed s = []"
      obtain s' where "cons_getc s = Some (0, s')" "ring_inv s'" "typed s' = []"
        using cons_getc_polls [of s] * by auto
      then show False
        using r ih [of s'] by simp
    qed
  qed
  then show ?thesis
    using assms by (cases "getchar s") auto
qed

lemma typed_nonzero:
  assumes "0 \<notin> set (pending s)"
  shows "0 \<notin> set (typed s)"
proof -
  have "0 \<notin> set (fst (decode sh ds))" for sh ds
    by (induction sh ds rule: decode.induct) (auto split: prod.splits)
  then show ?thesis
    using assms by (simp add: typed_def serial_typed_def)
qed

lemma getchar_first:
  assumes "ring_inv s" and "typed s = c # cs" and "length (typed s) \<le> 511" and "0 \<notin> set (typed s)"
  shows "\<exists>s'. getchar s = Some (c, s') \<and> ring_inv s' \<and> typed s' = cs"
proof -
  obtain s' where "cons_getc s = Some (c, s')" "ring_inv s'" "typed s' = cs"
    using cons_getc_polls [OF assms(1,3)] assms(2) by auto
  moreover have "c \<noteq> 0"
    using assms(2,4) by auto
  ultimately show ?thesis
    by (subst getchar.simps) simp
qed

text \<open>C39: The kernel reads what was typed, in order. With at most 511 characters waiting (in the buffer,
  at the serial port and in the keyboard's scan codes), reading \<open>n\<close> characters one after the other
  returns the first \<open>n\<close> of them and leaves the others; asking for more than were typed waits.\<close>

theorem kernel_reads_in_order:
  assumes "ring_inv s" and "length (typed s) \<le> 511" and "0 \<notin> set (pending s)"
  shows "if n \<le> length (typed s)
         then \<exists>s'. read_keys n s = Some (take n (typed s), s') \<and> typed s' = drop n (typed s)
         else read_keys n s = None"
  using assms(1,2) typed_nonzero [OF assms(3)]
proof (induction n arbitrary: s)
  case (Suc n)
  show ?case
  proof (cases "typed s")
    case Nil
    then show ?thesis
      using getchar_waits Suc.prems(1) by simp
  next
    case (Cons c cs)
    then obtain s' where s': "getchar s = Some (c, s')" "ring_inv s'" "typed s' = cs"
      using getchar_first Suc.prems by blast
    then show ?thesis
      using Suc.IH [of s'] Suc.prems Cons by (auto split: if_splits)
  qed
qed simp

definition quiet_console :: console where
  "quiet_console = \<lparr>com_in = [], kbd_in = [], cports = [], serial_exists = False, addr_6845 = CGA_BASE,
     crt_buf = \<lambda>_. 0x0720, crt_pos = 0, kbd_shift = 0, cons_buf = \<lambda>_. 0, rpos = 0, wpos = 0\<rparr>"

text \<open>The scan codes of \<open>a\<close>, shift held, \<open>b\<close>, shift let go, caps lock, \<open>c\<close>.\<close>

definition typing :: "u8 list" where
  "typing = [0x1E, 0x9E, 0x2A, 0x30, 0xB0, 0xAA, 0x3A, 0xBA, 0x2E]"

lemma quiet_ring: "ring_inv (quiet_console\<lparr>kbd_in := ds\<rparr>)" "pending (quiet_console\<lparr>kbd_in := ds\<rparr>) = []"
  by (simp_all add: ring_inv_def pending_def ring_count_def quiet_console_def)

lemma typing_decoded: "fst (decode 0 typing) = [97, 66, 67]"
  by code_simp

theorem kernel_reads_in_order_witness:
  "\<exists>s'. read_keys 3 (quiet_console\<lparr>kbd_in := typing\<rparr>) = Some ([97, 66, 67], s') \<and> typed s' = []"
proof -
  have t: "typed (quiet_console\<lparr>kbd_in := typing\<rparr>) = [97, 66, 67]"
    by (simp add: typed_def quiet_ring serial_typed_def) (simp add: quiet_console_def typing_decoded)
  show ?thesis
    using kernel_reads_in_order [of "quiet_console\<lparr>kbd_in := typing\<rparr>" "3"] unfolding t by (simp add: quiet_ring)
qed

text \<open>The input buffer counts to 511. When the 512th character comes in before any was read, the
  read and write positions meet, the buffer looks empty and all of them are lost.\<close>

theorem full_buffer_looks_empty:
  assumes "ring_inv s" and "length (pending s) = 511"
  shows "pending (cons_store c s) = [] \<and> fst (cons_take (cons_store c s)) = 0"
proof -
  have "ring_count s = 511"
    using assms(2) by (simp add: pending_def)
  then have e: "unat (wpos (cons_store c s)) = unat (rpos s)" "rpos (cons_store c s) = rpos s"
    using ring_count_eq [OF assms(1)] ring_unat [OF assms(1)] ring_next [of "wpos s"] assms(1)
    by (auto simp: cons_store_eq ring_inv_def mod_if split: if_splits)
  then have "pending (cons_store c s) = []"
    using ring_unat [OF assms(1)] by (simp add: pending_def ring_count_def)
  then show ?thesis
    using console_ring.get_none [OF ring_inv_store [OF assms(1)]] by simp
qed

theorem full_buffer_looks_empty_witness:
  "pending (cons_store 65 (quiet_console\<lparr>wpos := 511\<rparr>)) = [] \<and>
   fst (cons_take (cons_store 65 (quiet_console\<lparr>wpos := 511\<rparr>))) = 0"
  by (rule full_buffer_looks_empty) (simp_all add: quiet_console_def ring_inv_def pending_def ring_count_def)

text \<open>A process that waits for a character does not see the serial port: as long as no scan code
  arrives, the call never returns, whatever came in over the line or is in the buffer.\<close>

theorem process_deaf_to_serial:
  assumes "kbd_in s = []"
  shows "user_getchar s = None"
proof -
  have "user_getchar s = Some r \<Longrightarrow> kbd_in s \<noteq> []" for r
  proof (erule user_getchar.raw_induct [rotated])
    fix getc :: "console \<Rightarrow> (u32 \<times> console) option" and s r
    assume ih: "\<And>s r. getc s = Some r \<Longrightarrow> kbd_in s \<noteq> []"
      and r: "(let (c, s) = cons_getc2 s in if c = 0 then getc s else Some (c, s)) = Some r"
    show "kbd_in s \<noteq> []"
    proof
      assume n: "kbd_in s = []"
      have p: "kbd_in (snd (serial_proc_data s)) = []"
        using n by (simp add: serial_proc_data_def split: list.split)
      define s1 where "s1 = (if serial_exists s then
          (let (c1, s) = serial_proc_data s in if c1 \<noteq> - 1 \<and> c1 \<noteq> 0 then cons_store c1 s else s) else s)"
      have "kbd_in s1 = []"
        using n p by (auto simp: s1_def Let_def split: prod.split)
      then have "cons_getc2 s = (0, s1)"
        by (simp add: cons_getc2_def s1_def [symmetric] kbd_proc_data_def Let_def)
      then show False
        using r ih [of s1] \<open>kbd_in s1 = []\<close> by simp
    qed
  qed
  then show ?thesis
    using assms by (cases "user_getchar s") auto
qed

theorem process_deaf_to_serial_witness:
  "user_getchar (quiet_console\<lparr>serial_exists := True, com_in := [65, 66]\<rparr>) = None"
  by (rule process_deaf_to_serial) (simp add: quiet_console_def)

section \<open>Keys and modifiers\<close>

lemma small_byte_all:
  assumes "list_all P (map of_nat [0..<128])" and "(d :: u8) < 128"
  shows "P d"
proof -
  have "\<forall>n<128. P (of_nat n)"
    using assms(1) by (simp add: list_all_iff)
  moreover have "unat d < 128"
    using assms(2) by (simp add: word_less_nat_alt)
  ultimately have "P (of_nat (unat d))"
    by blast
  then show ?thesis
    by simp
qed

lemma press_bytes:
  assumes "(d :: u8) < 128"
  shows "d \<noteq> 0xE0 \<and> d AND 0x80 = 0 \<and> (d \<noteq> 0x60 \<longrightarrow> d OR 0x80 \<noteq> 0xE0) \<and>
         (d OR 0x80) AND 0x80 \<noteq> 0 \<and> (d OR 0x80) AND 0x7F = d \<and>
         shiftcode d AND E0ESC = 0 \<and> togglecode d AND E0ESC = 0"
  by (rule small_byte_all [OF _ assms]) code_simp

lemma and_not_or: "x AND m = 0 \<Longrightarrow> x AND NOT a AND NOT m = x AND NOT a" for x :: "'a::len word"
  by (auto simp: bit_eq_iff bit_simps)

lemma or_xor_and_not: "((x OR a) XOR b) AND NOT a = (x XOR b) AND NOT a" for x :: "'a::len word"
  by (auto simp: bit_eq_iff bit_simps)

lemma or_xor_and_zero:
  "x AND m = 0 \<Longrightarrow> a AND m = 0 \<Longrightarrow> b AND m = 0 \<Longrightarrow> ((x OR a) XOR b) AND m = 0" for x :: "'a::len word"
  by (auto simp: bit_eq_iff bit_simps)

text \<open>Pressing a key and letting it go: a modifier is released again, a lock key toggles its lock.\<close>

lemma press_release:
  assumes "d < 128" and "d \<noteq> 0x60" and "sh AND E0ESC = 0"
  shows "decode sh [d, d OR 0x80] =
    (filter (\<lambda>c. c \<noteq> 0) [fst (key_step sh d)], (sh XOR togglecode d) AND NOT (shiftcode d))"
proof -
  note b = press_bytes [OF assms(1)]
  have n: "snd (key_step sh d) = (sh OR shiftcode d) XOR togglecode d"
    using b assms(3) by (simp add: key_step_def Let_def)
  have z: "((sh OR shiftcode d) XOR togglecode d) AND E0ESC = 0"
    using assms(3) b by (simp add: or_xor_and_zero)
  have "key_step ((sh OR shiftcode d) XOR togglecode d) (d OR 0x80) =
      (0, (sh XOR togglecode d) AND NOT (shiftcode d))"
    using b assms(2) z by (simp add: key_step_def Let_def and_not_or or_xor_and_not)
  then show ?thesis
    using n by (auto split: prod.split)
qed

lemma normal_row_values [code]:
  "normal_row =
     [0, 27, 49, 50, 51, 52, 53, 54, 55, 56, 57, 48, 45, 61, 8, 9, 113, 119, 101, 114, 116, 121,
      117, 105, 111, 112, 91, 93, 10, 0, 97, 115, 100, 102, 103, 104, 106, 107, 108, 59, 39, 96,
      0, 92, 122, 120, 99, 118, 98, 110, 109, 44, 46, 47, 0, 42, 0, 32, 0, 0, 0, 0, 0, 0, 0, 0,
      0, 0, 0, 0, 0, 55, 56, 57, 45, 52, 53, 54, 43, 49, 50, 51, 48, 46]"
  by code_simp

lemma shift_row_values [code]:
  "shift_row =
     [0, 27, 33, 64, 35, 36, 37, 94, 38, 42, 40, 41, 95, 43, 8, 9, 81, 87, 69, 82, 84, 89, 85,
      73, 79, 80, 123, 125, 10, 0, 65, 83, 68, 70, 71, 72, 74, 75, 76, 58, 34, 126, 0, 124, 90,
      88, 67, 86, 66, 78, 77, 60, 62, 63, 0, 42, 0, 32, 0, 0, 0, 0, 0, 0, 0, 0, 0, 0, 0, 0, 0,
      55, 56, 57, 45, 52, 53, 54, 43, 49, 50, 51, 48, 46]"
  by code_simp

lemma ctl_row_values [code]:
  "ctl_row =
     [0, 0, 0, 0, 0, 0, 0, 0, 0, 0, 0, 0, 0, 0, 0, 0, 17, 23, 5, 18, 20, 25, 21, 9, 15, 16, 0,
      0, 13, 0, 1, 19, 4, 6, 7, 8, 10, 11, 12, 0, 0, 0, 0, 28, 26, 24, 3, 22, 2, 14, 13, 0, 0,
      239, 0, 0]"
  by code_simp

definition letter_keys :: "(u8 \<times> u8) list" where
  "letter_keys = zip (map of_nat ([16..<26] @ [30..<39] @ [44..<51])) (ascii ''qwertyuiopasdfghjklzxcvbnm'')"

lemma letter_tables:
  assumes "(d, l) \<in> set letter_keys"
  shows "d < 128 \<and> d \<noteq> 0x60 \<and> shiftcode d = 0 \<and> togglecode d = 0 \<and> 97 \<le> l \<and> l \<le> 122 \<and>
         normalmap d = l \<and> shiftmap d = l - 32 \<and> ctlmap d = l - 96"
proof -
  have "list_all (\<lambda>(d, l). d < 128 \<and> d \<noteq> 0x60 \<and> shiftcode d = 0 \<and> togglecode d = 0 \<and> 97 \<le> l \<and> l \<le> 122 \<and>
         normalmap d = l \<and> shiftmap d = l - 32 \<and> ctlmap d = l - 96) letter_keys"
    by code_simp
  then show ?thesis
    using assms by (auto simp: list_all_iff)
qed

lemma letter_cases:
  assumes "97 \<le> (l :: u8)" and "l \<le> 122"
  shows "caps (ucast l) = ucast l - 32 \<and> (ucast (l - 32) :: u32) = ucast l - 32 \<and>
         caps (ucast l - 32) = ucast l \<and> (ucast (l - 96) :: u32) = ucast l - 96 \<and>
         caps (ucast l - 96) = ucast l - 96 \<and> (ucast l :: u32) \<noteq> 0 \<and> (ucast l :: u32) - 32 \<noteq> 0 \<and> (ucast l :: u32) - 96 \<noteq> 0"
proof -
  have "list_all (\<lambda>l :: u8. 97 \<le> l \<and> l \<le> 122 \<longrightarrow>
         caps (ucast l) = ucast l - 32 \<and> (ucast (l - 32) :: u32) = ucast l - 32 \<and>
         caps (ucast l - 32) = ucast l \<and> (ucast (l - 96) :: u32) = ucast l - 96 \<and>
         caps (ucast l - 96) = ucast l - 96 \<and> (ucast l :: u32) \<noteq> 0 \<and> (ucast l :: u32) - 32 \<noteq> 0 \<and>
         (ucast l :: u32) - 96 \<noteq> 0) (map of_nat [0..<128])"
    by code_simp
  moreover have "l < 128"
    using assms(2) by (rule order_le_less_trans) simp
  ultimately show ?thesis
    using small_byte_all [of _ l] assms by blast
qed

lemma modifier_index:
  "(sh AND (CTL OR SHIFT) = 0) = (sh AND CTL = 0 \<and> sh AND SHIFT = 0)" (is ?A)
  "sh AND CTL = 0 \<Longrightarrow> sh AND SHIFT \<noteq> 0 \<Longrightarrow> sh AND (CTL OR SHIFT) = 1"
  "sh AND CTL \<noteq> 0 \<Longrightarrow> sh AND (CTL OR SHIFT) \<noteq> 0 \<and> sh AND (CTL OR SHIFT) \<noteq> 1"
proof -
  have "sh AND (2 OR 1) = (sh AND 2) OR (sh AND 1)"
    by (rule bit.conj_disj_distrib)
  moreover have "sh AND 2 = (if bit sh 1 then 2 else 0)"
    by (rule bit_word_eqI) (auto simp: bit_and_iff bit_2_iff)
  moreover have "sh AND 1 = (if bit sh 0 then 1 else 0)"
    by (rule bit_word_eqI) (auto simp: bit_and_iff bit_1_iff intro: gr0I)
  ultimately show ?A
    "sh AND CTL = 0 \<Longrightarrow> sh AND SHIFT \<noteq> 0 \<Longrightarrow> sh AND (CTL OR SHIFT) = 1"
    "sh AND CTL \<noteq> 0 \<Longrightarrow> sh AND (CTL OR SHIFT) \<noteq> 0 \<and> sh AND (CTL OR SHIFT) \<noteq> 1"
    by (cases "bit sh 0"; cases "bit sh 1"; simp add: CTL_def SHIFT_def)+
qed

text \<open>A letter key types its letter, a capital when exactly one of shift and caps lock is on, the
  control character of the letter when control is held, once for a press and release; the modifiers
  stay as they were.\<close>

theorem letter_key_types:
  assumes "(d, l) \<in> set letter_keys" and "sh AND E0ESC = 0"
  shows "decode sh [d, d OR 0x80] =
    ([if sh AND CTL \<noteq> 0 then ucast l - 96
      else if (sh AND SHIFT \<noteq> 0) = (sh AND CAPSLOCK \<noteq> 0) then ucast l else ucast l - 32], sh)"
proof -
  note t = letter_tables [OF assms(1)]
  note c = letter_cases [of l]
  have "fst (key_step sh d) = (if sh AND CTL \<noteq> 0 then ucast l - 96
      else if (sh AND SHIFT \<noteq> 0) = (sh AND CAPSLOCK \<noteq> 0) then ucast l else ucast l - 32)"
    using t c press_bytes [of d] assms(2) modifier_index [of sh]
    by (auto simp: key_step_def Let_def charcode_def)
  then show ?thesis
    using press_release [of d sh] t c assms(2) by simp
qed

theorem letter_key_types_witness:
  "decode (SHIFT OR CAPSLOCK) [0x1E, 0x1E OR 0x80] = ([97], SHIFT OR CAPSLOCK)"
proof -
  have k: "(0x1E, 97) \<in> set letter_keys"
    by code_simp
  have m: "(SHIFT OR CAPSLOCK) AND E0ESC = 0" "(SHIFT OR CAPSLOCK) AND CTL = 0"
    "((SHIFT OR CAPSLOCK) AND SHIFT \<noteq> 0) = ((SHIFT OR CAPSLOCK) AND CAPSLOCK \<noteq> 0)"
    by (simp_all add: SHIFT_def CAPSLOCK_def E0ESC_def CTL_def)
  show ?thesis
    using letter_key_types [OF k m(1)] m by simp
qed

section \<open>The console as a machine\<close>

definition console_wf :: "console \<Rightarrow> bool" where
  "console_wf s \<longleftrightarrow> unat (crt_pos s) < CRT_SIZE \<and> ring_inv s \<and> kbd_shift s AND NOT 0x7F = 0"

text \<open>Bytes arrive at the devices, interrupts are served, and the kernel and the processes read and print.\<close>

inductive console_step :: "console \<Rightarrow> console \<Rightarrow> bool" where
  key_arrives: "console_step s (s\<lparr>kbd_in := kbd_in s @ [d]\<rparr>)"
| byte_arrives: "console_step s (s\<lparr>com_in := com_in s @ [d]\<rparr>)"
| kbd_irq: "kbd_intr s = Some s' \<Longrightarrow> console_step s s'"
| serial_irq: "serial_intr s = Some s' \<Longrightarrow> console_step s s'"
| prints: "console_step s (cputchar c s)"
| process_prints: "console_step s (user_cputchar c s)"
| kernel_reads: "cons_getc s = Some (c, s') \<Longrightarrow> console_step s s'"
| process_reads: "cons_getc2 s = (c, s') \<Longrightarrow> console_step s s'"

lemma wf_fields:
  "console_wf (s\<lparr>kbd_in := ds\<rparr>) = console_wf s" "console_wf (s\<lparr>com_in := ds\<rparr>) = console_wf s"
  "console_wf (cons_outb x y s) = console_wf s"
  by (simp_all add: console_wf_def ring_inv_def cons_outb_def)

lemma wf_store: "console_wf s \<Longrightarrow> console_wf (cons_store c s)"
  using ring_inv_store [of s c] by (simp add: console_wf_def cons_store_eq)

lemma wf_take: "console_wf s \<Longrightarrow> console_wf (snd (cons_take s))"
  using ring_inv_take [of s] by (simp add: console_wf_def cons_take_eq)

lemma putc_on_screen:
  assumes "unat (crt_pos s) < CRT_SIZE"
  shows "unat (crt_pos (cputchar c s)) < CRT_SIZE"
proof -
  have "in_view s \<lparr>tape = \<lambda>i. if i < CRT_SIZE then crt_buf s i else 0x0720, place = unat (crt_pos s), top = 0,
      beyond = crt_buf s\<rparr>"
    using assms by (simp add: window_def)
  from cons_putc_in_view [OF this] show ?thesis
    by (simp add: window_def cputchar_def)
qed

lemma wf_putc: "console_wf s \<Longrightarrow> console_wf (cputchar c s)"
proof -
  assume w: "console_wf s"
  have "inputs (cputchar c s) = inputs s"
    by (simp add: cputchar_def inputs_putc)
  then have "ring_inv (cputchar c s) = ring_inv s" "kbd_shift (cputchar c s) = kbd_shift s"
    by (metis inputs_queue(2), metis inputs_shift)
  then show ?thesis
    using w putc_on_screen [of s c] by (simp add: console_wf_def)
qed

lemma wf_fold_putc: "console_wf s \<Longrightarrow> console_wf (fold cputchar cs s)"
  by (induction cs arbitrary: s) (simp_all add: wf_putc)

lemma key_step_modifiers:
  assumes "sh AND NOT 0x7F = 0"
  shows "snd (key_step sh d) AND NOT 0x7F = 0"
proof -
  define m :: u32 where "m = NOT 0x7F"
  have s: "sh AND m = 0"
    using assms by (simp add: m_def)
  have sc: "shiftcode d AND m = 0" "togglecode d AND m = 0" "E0ESC AND m = 0" for d
    by (simp_all add: m_def shiftcode_def togglecode_def CTL_def SHIFT_def ALT_def CAPSLOCK_def NUMLOCK_def
          SCROLLLOCK_def E0ESC_def)
  have a: "x AND m = 0 \<Longrightarrow> (x AND y) AND m = 0" for x y m :: u32
    by (auto simp: bit_eq_iff bit_simps)
  have o: "x AND m = 0 \<Longrightarrow> y AND m = 0 \<Longrightarrow> (x OR y) AND m = 0" for x y m :: u32
    by (simp add: word_ao_dist)
  show ?thesis
    unfolding key_step_def Let_def m_def [symmetric] by (simp add: a o or_xor_and_zero s sc)
qed

lemma wf_kbd_proc_data: "console_wf s \<Longrightarrow> console_wf (snd (kbd_proc_data s))"
proof (cases "kbd_in s")
  case (Cons d ds)
  assume w: "console_wf s"
  define s1 where "s1 = s\<lparr>kbd_in := ds, kbd_shift := snd (key_step (kbd_shift s) d)\<rparr>"
  have "console_wf s1"
    using w key_step_modifiers [of "kbd_shift s" d] by (simp add: s1_def console_wf_def ring_inv_def)
  then show ?thesis
    by (simp add: kbd_proc_data_def Cons Let_def s1_def [symmetric] wf_fields wf_fold_putc split_beta)
qed (simp add: kbd_proc_data_def)

lemma wf_serial_proc_data: "console_wf s \<Longrightarrow> console_wf (snd (serial_proc_data s))"
  by (simp add: serial_proc_data_def wf_fields split: list.split)

lemma wf_cons_intr:
  assumes "cons_intr proc s = Some s'"
  shows "(\<forall>s. console_wf s \<longrightarrow> console_wf (snd (proc s))) \<longrightarrow> console_wf s \<longrightarrow> console_wf s'"
  using assms
proof (rule cons_intr.raw_induct [rotated])
  fix intr :: "(console \<Rightarrow> u32 \<times> console) \<Rightarrow> console \<Rightarrow> console option" and proc s s'
  assume ih: "\<And>proc s s'. intr proc s = Some s' \<Longrightarrow>
      (\<forall>s. console_wf s \<longrightarrow> console_wf (snd (proc s))) \<longrightarrow> console_wf s \<longrightarrow> console_wf s'"
    and r: "(let (c, s) = proc s in if c = - 1 then Some s else if c = 0 then intr proc s
             else intr proc (cons_store c s)) = Some s'"
  show "(\<forall>s. console_wf s \<longrightarrow> console_wf (snd (proc s))) \<longrightarrow> console_wf s \<longrightarrow> console_wf s'"
  proof (intro impI)
    assume p: "\<forall>s. console_wf s \<longrightarrow> console_wf (snd (proc s))" and w: "console_wf s"
    obtain c s1 where c: "proc s = (c, s1)"
      by (cases "proc s")
    then have "console_wf s1"
      using p w by (metis snd_conv)
    then show "console_wf s'"
      using r ih [of proc s1 s'] ih [of proc "cons_store c s1" s'] p wf_store
      by (auto simp: c split: if_splits)
  qed
qed

lemma wf_interrupts:
  "console_wf s \<Longrightarrow> kbd_intr s = Some s' \<Longrightarrow> console_wf s'"
  "console_wf s \<Longrightarrow> serial_intr s = Some s' \<Longrightarrow> console_wf s'"
  using wf_cons_intr [of kbd_proc_data s s'] wf_cons_intr [of serial_proc_data s s']
  by (auto simp: kbd_intr_def serial_intr_def wf_kbd_proc_data wf_serial_proc_data split: if_splits)

lemma wf_cons_getc2: "console_wf s \<Longrightarrow> console_wf (snd (cons_getc2 s))"
proof -
  assume w: "console_wf s"
  define s1 where "s1 = (if serial_exists s then
      (let (c1, s) = serial_proc_data s in if c1 \<noteq> - 1 \<and> c1 \<noteq> 0 then cons_store c1 s else s) else s)"
  have w1: "console_wf s1"
    using w wf_serial_proc_data [OF w] by (auto simp: s1_def wf_store Let_def split: prod.split)
  obtain c2 s2 where k: "kbd_proc_data s1 = (c2, s2)"
    by (cases "kbd_proc_data s1")
  have "console_wf s2"
    using wf_kbd_proc_data [OF w1] k by simp
  then show ?thesis
    by (simp add: cons_getc2_def s1_def [symmetric] k Let_def wf_store wf_take)
qed

lemma wf_step: "console_step s s' \<Longrightarrow> console_wf s \<Longrightarrow> console_wf s'"
proof (induction rule: console_step.induct)
  case (kernel_reads s c s')
  then obtain s1 s2 where "serial_intr s = Some s1" "kbd_intr s1 = Some s2" "s' = snd (cons_take s2)"
    by (auto simp: cons_getc_def bind_eq_Some_conv)
  then show ?case
    using wf_interrupts wf_take kernel_reads.prems by blast
next
  case (process_reads s c s')
  then show ?case
    using wf_cons_getc2 [of s] by simp
qed (auto simp: wf_fields wf_putc user_cputchar_def intro: wf_interrupts)

text \<open>C40: The console stays well formed: through arriving bytes, interrupts, reading and printing in any
  order, the cursor stays on the screen, the read and write positions inside the input buffer, and only the
  seven modifier bits of the keyboard are ever set.\<close>

theorem console_stays_wf:
  assumes "console_step\<^sup>*\<^sup>* s s'" and "console_wf s"
  shows "console_wf s'"
  using assms by (induction rule: rtranclp_induct) (auto intro: wf_step)

theorem console_stays_wf_witness:
  "console_wf (cputchar 10 (snd (cons_getc2 (quiet_console\<lparr>kbd_in := [0x1E]\<rparr>))))"
proof -
  have w: "console_wf quiet_console"
    by (simp add: quiet_console_def console_wf_def ring_inv_def CRT_SIZE_def CRT_ROWS_def CRT_COLS_def)
  have "console_step quiet_console (quiet_console\<lparr>kbd_in := [0x1E]\<rparr>)"
    using key_arrives [of quiet_console "0x1E"] by (simp add: quiet_console_def)
  moreover have "console_step (quiet_console\<lparr>kbd_in := [0x1E]\<rparr>) (snd (cons_getc2 (quiet_console\<lparr>kbd_in := [0x1E]\<rparr>)))"
    by (rule process_reads [of _ "fst (cons_getc2 (quiet_console\<lparr>kbd_in := [0x1E]\<rparr>))"]) simp
  ultimately have "console_step\<^sup>*\<^sup>* quiet_console
      (cputchar 10 (snd (cons_getc2 (quiet_console\<lparr>kbd_in := [0x1E]\<rparr>))))"
    using prints by (blast intro: converse_rtranclp_into_rtranclp rtranclp.rtrancl_refl)
  then show ?thesis
    by (rule console_stays_wf) (rule w)
qed

end
