(* ===== verification/Commands.thy ===== *)
theory Commands
  imports Prog_Load Print_Fmt "HOL-Library.Sublist"
begin

text \<open>
  The kernel's command prompt: \<^verbatim>\<open>kern/cmd/command_prompt.c\<close> and the commands of
  \<^verbatim>\<open>kern/cmd/commands.c\<close>. A command gets the command line, which is memory of the kernel's stack
  apart from what the commands change, and the places of its words; reading a word that was not typed is
  reading an array that was never set (\<open>Out_Of_Bounds\<close>). What is printed is recorded as the calls of
  \<^verbatim>\<open>cprintf\<close>: the first line of the format, without the line feed and without the lines on the usage
  that follow in some messages, and the values. The bodies of the kernel tests are an argument.
\<close>

section \<open>The state behind the prompt\<close>

datatype parg = PNum u32 | PStr string

record monitor =
  mload :: loader
  mout :: "(string \<times> parg list) list"
  numOfKheapVACalls :: nat
  chkstatus :: u8

text \<open>
  What the commands use from outside: the programs linked to the kernel with their descriptions, the bytes
  read from the interval counter, the test functions by name, the line that is typed when a command asks
  for one, the symbols of the linker and the memory behind the name of a command.
\<close>

record host =
  h_progs :: "(string \<times> elf) list"
  h_desc :: "string \<Rightarrow> string"
  h_cnt :: "u8 \<times> u8"
  h_test :: "string \<Rightarrow> monitor \<Rightarrow> monitor result"
  h_typed :: bytes
  h_symbols :: "u32 \<times> u32 \<times> u32 \<times> u32"
  h_behind :: "string \<Rightarrow> nat \<Rightarrow> u8"

type_synonym outcome = "(int \<times> control \<times> monitor) result"
type_synonym command_fn = "host \<Rightarrow> bytes \<Rightarrow> u32 list \<Rightarrow> monitor \<Rightarrow> outcome"

definition cprintf :: "string \<Rightarrow> parg list \<Rightarrow> monitor \<Rightarrow> monitor" where
  "cprintf fmt args s = s\<lparr>mout := mout s @ [(fmt, args)]\<rparr>"

definition ret0 :: "monitor \<Rightarrow> outcome" where "ret0 s = Inr (0, Returned, s)"

definition say :: "string \<Rightarrow> parg list \<Rightarrow> monitor \<Rightarrow> outcome" where
  "say fmt args s = ret0 (cprintf fmt args s)"

definition mkern :: "monitor \<Rightarrow> kernel" where "mkern s = mkernel (lmach (mload s))"
definition msched :: "monitor \<Rightarrow> sched" where "msched s = ksched (mkern s)"
definition mmem :: "monitor \<Rightarrow> kmem" where "mmem s = vmem (lvm (mload s))"

definition put_mkern :: "kernel \<Rightarrow> monitor \<Rightarrow> monitor" where
  "put_mkern k s = s\<lparr>mload := on_kernel (\<lambda>_. k) (mload s)\<rparr>"

definition put_mmem :: "kmem \<Rightarrow> monitor \<Rightarrow> monitor" where
  "put_mmem m s = put_mkern (put_kmem m (mkern s)) s"

definition settings_of :: "monitor \<Rightarrow> settings" where "settings_of s = sset (msched s)"

definition put_settings :: "settings \<Rightarrow> monitor \<Rightarrow> monitor" where
  "put_settings g s = put_mkern (put_sched ((msched s)\<lparr>sset := g\<rparr>) (mkern s)) s"

definition on_scheduler :: "(sched \<Rightarrow> (control \<times> sched) result) \<Rightarrow> monitor \<Rightarrow> outcome" where
  "on_scheduler f s = andthen (on_sched f (mkern s)) (\<lambda>(c, k). Inr (0, c, put_mkern k s))"

section \<open>Arguments\<close>

definition arg :: "u32 list \<Rightarrow> nat \<Rightarrow> u32 result" where
  "arg args i = (if i < length args then Inr (args ! i) else Inl Out_Of_Bounds)"

definition num_at :: "bytes \<Rightarrow> u32 \<Rightarrow> int \<Rightarrow> u32 result" where
  "num_at m p b = (case strtol m p b of None \<Rightarrow> Inl No_Fuel | Some (v, _) \<Rightarrow> Inr v)"

definition num_arg :: "bytes \<Rightarrow> u32 list \<Rightarrow> nat \<Rightarrow> int \<Rightarrow> u32 result" where
  "num_arg m args i b = andthen (arg args i) (\<lambda>p. num_at m p b)"

definition str_at :: "bytes \<Rightarrow> u32 \<Rightarrow> u8 list result" where
  "str_at m p =
     (case strlen m p of None \<Rightarrow> Inl No_Fuel | Some n \<Rightarrow> Inr (map (\<lambda>i. m (p + of_nat i)) [0..<unat n]))"

definition str_arg :: "bytes \<Rightarrow> u32 list \<Rightarrow> nat \<Rightarrow> u8 list result" where
  "str_arg m args i = andthen (arg args i) (str_at m)"

definition char_arg0 :: "bytes \<Rightarrow> u32 list \<Rightarrow> nat \<Rightarrow> u8 result" where
  "char_arg0 m args i = andthen (arg args i) (\<lambda>p. Inr (m p))"

text \<open>\<^verbatim>\<open>strcmp\<close> of a word with a string of the program is 0.\<close>

fun same_str :: "bytes \<Rightarrow> u32 \<Rightarrow> string \<Rightarrow> bool" where
  "same_str m p [] = (m p = 0)"
| "same_str m p (c # cs) = (m p = of_char c \<and> same_str m (p + 1) cs)"

definition env_arg :: "bytes \<Rightarrow> u32 list \<Rightarrow> nat \<Rightarrow> monitor \<Rightarrow> nat option result" where
  "env_arg m args i s =
     andthen (num_arg m args i 10) (\<lambda>envId.
     andthen (envid2env envId False (ketab (mkern s))) (\<lambda>(_, e). Inr e))"

section \<open>Help and information\<close>

definition command_kernel_info :: command_fn where
  "command_kernel_info h m args s =
     (let (start_of_kernel, end_of_kernel_code_section, start_of_uninitialized_data_section, end_of_kernel) = h_symbols h;
          s = cprintf ''Special kernel symbols:'' [] s;
          s = cprintf ''  Start Address of the kernel 			%08x (virt)  %08x (phys)''
                [PNum start_of_kernel, PNum (start_of_kernel - KERNEL_BASE)] s;
          s = cprintf ''  End address of kernel code  			%08x (virt)  %08x (phys)''
                [PNum end_of_kernel_code_section, PNum (end_of_kernel_code_section - KERNEL_BASE)] s;
          s = cprintf ''  Start addr. of uninitialized data section 	%08x (virt)  %08x (phys)''
                [PNum start_of_uninitialized_data_section, PNum (start_of_uninitialized_data_section - KERNEL_BASE)] s;
          s = cprintf ''  End address of the kernel   			%08x (virt)  %08x (phys)''
                [PNum end_of_kernel, PNum (end_of_kernel - KERNEL_BASE)] s
      in say ''Kernel executable memory footprint: %d KB''
           [PNum (of_int ((sint (end_of_kernel - start_of_kernel) + 1023) sdiv 1024))] s)"

text \<open>The functions that are left as exercises.\<close>

definition command_kernel_base_info :: command_fn where "command_kernel_base_info h m args s = Inl Panic"
definition command_del_kernel_base :: command_fn where "command_del_kernel_base h m args s = Inl Panic"
definition command_share_page :: command_fn where "command_share_page h m args s = Inl Panic"
definition command_show_mapping :: command_fn where "command_show_mapping h m args s = Inl Panic"
definition command_set_permission :: command_fn where "command_set_permission h m args s = Inl Panic"
definition command_share_range :: command_fn where "command_share_range h m args s = Inl Panic"
definition command_nr :: command_fn where "command_nr h m args s = Inl Panic"
definition command_asp :: command_fn where "command_asp h m args s = Inl Panic"
definition command_cfp :: command_fn where "command_cfp h m args s = Inl Panic"
definition command_ft :: command_fn where "command_ft h m args s = ret0 s"

section \<open>Pages and bytes\<close>

definition on_kmem :: "(kmem \<Rightarrow> kmem result) \<Rightarrow> monitor \<Rightarrow> outcome" where
  "on_kmem f s = andthen (f (mmem s)) (\<lambda>k. ret0 (put_mmem k s))"

definition command_ap :: command_fn where
  "command_ap h m args s =
     andthen (num_arg m args 1 16) (\<lambda>va.
       on_kmem (\<lambda>k. andthen (allocate_frame k) (\<lambda>(f, k).
         map_frame (ptr_page_directory k) f va (PERM_USER OR PERM_WRITEABLE) k)) s)"

definition command_fp :: command_fn where
  "command_fp h m args s =
     andthen (num_arg m args 1 16) (\<lambda>va. on_kmem (\<lambda>k. unmap_frame (ptr_page_directory k) va k) s)"

definition load_byte :: "u32 \<Rightarrow> u32 \<Rightarrow> kmem \<Rightarrow> (u8 \<times> kmem) result" where
  "load_byte dir va s =
     andthen (page_frame dir va s) (\<lambda>f.
     andthen (touch dir va PERM_USED s) (\<lambda>s. Inr (ram s f (unat (PGOFF va)), s)))"

definition command_writeusermem :: command_fn where
  "command_writeusermem h m args s =
     (if length args = 3 then
        andthen (num_arg m args 1 16) (\<lambda>address.
        andthen (char_arg0 m args 2) (\<lambda>c.
          on_kmem (\<lambda>k. store_byte (ptr_page_directory k) address c k) s))
      else if length args = 4 then
        andthen (env_arg m args 1 s) (\<lambda>env.
        andthen (num_arg m args 2 16) (\<lambda>address.
          case env of None \<Rightarrow> ret0 s
          | Some e \<Rightarrow>
              andthen (char_arg0 m args 3) (\<lambda>c.
                on_kmem (\<lambda>k. store_byte (env_page_directory k e) address c k) s)))
      else say ''wum command: invalid number of arguments'' [] s)"

fun store_bytes :: "u32 \<Rightarrow> u32 \<Rightarrow> u8 list \<Rightarrow> kmem \<Rightarrow> kmem result" where
  "store_bytes dir address [] k = Inr k"
| "store_bytes dir address (b # bs) k = andthen (store_byte dir address b k) (store_bytes dir (address + 1) bs)"

definition command_writemem_k :: command_fn where
  "command_writemem_k h m args s =
     andthen (num_arg m args 1 16) (\<lambda>a.
     andthen (num_arg m args 2 10) (\<lambda>size.
     andthen (str_arg m args 3) (\<lambda>str.
       on_kmem (\<lambda>k. store_bytes (ptr_page_directory k) (a + KERNEL_BASE)
         (concat (replicate (nat (sint size)) str)) k) s)))"

definition show_byte :: "string \<Rightarrow> u32 \<Rightarrow> u32 \<Rightarrow> monitor \<Rightarrow> monitor result" where
  "show_byte fmt dir address s =
     andthen (load_byte dir address (mmem s)) (\<lambda>(b, k).
       Inr (cprintf fmt [PNum address, PNum (ucast b)] (put_mmem k s)))"

definition command_readusermem :: command_fn where
  "command_readusermem h m args s =
     (let fmt = ''value at address %x = %c'' in
      if length args = 2 then
        andthen (num_arg m args 1 16) (\<lambda>address.
        andthen (show_byte fmt (ptr_page_directory (mmem s)) address s) ret0)
      else if length args = 3 then
        andthen (env_arg m args 1 s) (\<lambda>env.
        andthen (num_arg m args 2 16) (\<lambda>address.
          case env of None \<Rightarrow> ret0 s
          | Some e \<Rightarrow> andthen (show_byte fmt (env_page_directory (mmem s) e) address s) ret0))
      else say ''rum command: invalid number of arguments'' [] s)"

fun show_bytes :: "(u32 \<Rightarrow> u8 \<Rightarrow> monitor \<Rightarrow> monitor) \<Rightarrow> u32 \<Rightarrow> u32 \<Rightarrow> nat \<Rightarrow> monitor \<Rightarrow> monitor result" where
  "show_bytes pr dir address 0 s = Inr s"
| "show_bytes pr dir address (Suc n) s =
     andthen (load_byte dir address (mmem s)) (\<lambda>(b, k).
       show_bytes pr dir (address + 1) n (pr address b (put_mmem k s)))"

definition command_readmem_k :: command_fn where
  "command_readmem_k h m args s =
     andthen (num_arg m args 1 16) (\<lambda>a.
     andthen (num_arg m args 2 10) (\<lambda>size.
     andthen (show_bytes (\<lambda>a b. cprintf ''%c'' [PNum (ucast b)]) (ptr_page_directory (mmem s)) (a + KERNEL_BASE)
       (nat (sint size)) s) (say [] [])))"

definition command_readuserblock :: command_fn where
  "command_readuserblock h m args s =
     andthen (env_arg m args 1 s) (\<lambda>env.
     andthen (num_arg m args 2 16) (\<lambda>address.
     andthen (num_arg m args 3 10) (\<lambda>nBytes.
       case env of None \<Rightarrow> ret0 s
       | Some e \<Rightarrow>
           andthen (show_bytes (\<lambda>a b. cprintf ''%08x : %02x  %c'' [PNum a, PNum (ucast b), PNum (ucast b)])
             (env_page_directory (mmem s) e) address (nat (sint nBytes)) s) ret0)))"

definition command_remove_table :: command_fn where
  "command_remove_table h m args s =
     andthen (env_arg m args 1 s) (\<lambda>env.
       case env of None \<Rightarrow> ret0 s
       | Some e \<Rightarrow>
           andthen (num_arg m args 2 16) (\<lambda>address.
             on_kmem (\<lambda>k. let dir = env_page_directory k e in
               andthen (table_read dir (PDX address) k) (\<lambda>pde.
               andthen (if \<not> CHECK_IF_KERNEL_ADDRESS address
                        then andthen (kheap_virtual_address (pde AND 0xFFFFF000) k) (\<lambda>va. kfree va k)
                        else andthen (to_frame_info (pde AND 0xFFFFF000) k) (\<lambda>f.
                               free_frame f (k\<lparr>references := (references k)(f := 0)\<rparr>))) (\<lambda>k.
               andthen (table_read dir (PDX address) k) (\<lambda>pde.
                 table_write dir (PDX address) (pde AND NOT PERM_PRESENT) k)))) s))"

definition command_allocuserpage :: command_fn where
  "command_allocuserpage h m args s =
     (if length args < 3 \<or> 4 < length args then say ''aup command: invalid number of arguments'' [] s
      else andthen (env_arg m args 1 s) (\<lambda>env.
        case env of None \<Rightarrow> ret0 s
        | Some e \<Rightarrow>
            andthen (num_arg m args 2 16) (\<lambda>va.
            andthen (allocate_frame (mmem s)) (\<lambda>(f, k).
            andthen (if length args = 3 then Inr (PERM_WRITEABLE OR PERM_USER, s)
                     else andthen (char_arg0 m args 3) (\<lambda>c.
                       Inr (if c = of_char (CHR ''r'') \<or> c = of_char (CHR ''R'') then (PERM_USER, s)
                            else if c = of_char (CHR ''w'') \<or> c = of_char (CHR ''W'') then (PERM_WRITEABLE OR PERM_USER, s)
                            else (PERM_WRITEABLE OR PERM_USER,
                                  cprintf ''aup command: wrong permission (r/w)... will continue as writable'' [] s))))
              (\<lambda>(perm, s). on_kmem (\<lambda>_. map_frame (env_page_directory k e) f va perm k) s)))))"

definition command_meminfo :: command_fn where
  "command_meminfo h m args s =
     (let c = calculate_available_frames (mmem s);
          s = cprintf ''Total available frames = %d Free Buffered = %d Free Not Buffered = %d Modified = %d''
                [PNum (freeBuffered c + freeNotBuffered c + modified c), PNum (freeBuffered c),
                 PNum (freeNotBuffered c), PNum (modified c)] s
      in say ''Num of calls for kheap_virtual_address [in last run] = %d'' [PNum (of_nat (numOfKheapVACalls s))] s)"

section \<open>Environments\<close>

definition PWS_MAX_SIZE :: u32 where "PWS_MAX_SIZE = 5000"

text \<open>The sizes that the words give, or \<open>None\<close> after a message: working set, second list, percentage.\<close>

definition create_sizes :: "bytes \<Rightarrow> u32 list \<Rightarrow> monitor \<Rightarrow> ((u32 \<times> u32 \<times> u32) option \<times> monitor) result" where
  "create_sizes m args s =
     (let lists = isPageReplacmentAlgorithmLRU PG_REP_LRU_LISTS_APPROX (settings_of s);
          err = (\<lambda>fmt. Inr (None, cprintf fmt [] s)) in
      if length args = 5 then
        (if \<not> lists then err ''ERROR: Current Replacement is NOT LRU LISTS, invalid number of args''
         else andthen (num_arg m args 4 10) (\<lambda>percent.
              andthen (num_arg m args 3 10) (\<lambda>second.
              andthen (num_arg m args 2 10) (\<lambda>ws. Inr (Some (ws, second, percent), s)))))
      else if length args = 4 then
        andthen (num_arg m args 3 10) (\<lambda>x.
        andthen (num_arg m args 2 10) (\<lambda>ws. Inr (Some (ws, if lists then (x, 0) else (0, x)), s)))
      else if length args = 3 then
        (if lists then err ''ERROR: Current Replacement is LRU LISTS, Please specify a working set size in the 3rd arg and LRU second list size in the 4th arg, aborting.''
         else andthen (num_arg m args 2 10) (\<lambda>ws. Inr (Some (ws, 0, 0), s)))
      else err ''ERROR: invalid number of args'')"

definition CreateEnv :: "host \<Rightarrow> bytes \<Rightarrow> u32 list \<Rightarrow> monitor \<Rightarrow> (nat option \<times> monitor) result" where
  "CreateEnv h m args s =
     andthen (create_sizes m args s) (\<lambda>(sizes, s).
       case sizes of None \<Rightarrow> Inr (None, s)
       | Some (ws, second, percent) \<Rightarrow>
           if PWS_MAX_SIZE < ws then
             Inr (None, cprintf ''ERROR: size of WS must be less than or equal to %d... aborting'' [PNum PWS_MAX_SIZE] s)
           else if isPageReplacmentAlgorithmLRU PG_REP_LRU_LISTS_APPROX (settings_of s) \<and> ws - 1 < second then
             Inr (None, cprintf ''ERROR: size of LRU second list can't equal/exceed the size of the page WS... aborting'' [] s)
           else if 100 < percent then Inl Panic
           else andthen (str_arg m args 1) (\<lambda>name.
                andthen (env_create (h_progs h) (map (\<lambda>c. char_of (unat c)) name) ws second percent (mload s)) (\<lambda>(e, l).
                  Inr (e, s\<lparr>mload := l\<rparr>))))"

definition menv_id :: "nat \<Rightarrow> monitor \<Rightarrow> u32" where "menv_id e s = env_id (lenv (mload s) e)"

definition insert_new :: "nat \<Rightarrow> monitor \<Rightarrow> monitor result" where
  "insert_new e s =
     andthen (sched_new_env (Some e) (msched s)) (\<lambda>c. Inr (put_mkern (put_sched c (mkern s)) s))"

definition command_run_program :: command_fn where
  "command_run_program h m args s =
     andthen (CreateEnv h m args s) (\<lambda>(env, s).
       case env of None \<Rightarrow> ret0 s
       | Some e \<Rightarrow>
           (let s = (cprintf ''Environment Id= %d'' [PNum (menv_id e s)] s)\<lparr>numOfKheapVACalls := 0\<rparr> in
            andthen (insert_new e s) (\<lambda>s. on_scheduler (sched_run_env (h_cnt h) (menv_id e s)) s)))"

definition command_kill_program :: command_fn where
  "command_kill_program h m args s =
     andthen (num_arg m args 1 10) (\<lambda>envId. on_scheduler (sched_kill_env (h_cnt h) envId) s)"

definition commnad_load_env :: command_fn where
  "commnad_load_env h m args s =
     andthen (CreateEnv h m args s) (\<lambda>(env, s).
       case env of None \<Rightarrow> ret0 s
       | Some e \<Rightarrow> andthen (insert_new e s) (\<lambda>s. say ''Environment Id= %d'' [PNum (menv_id e s)] s))"

definition command_run_all :: command_fn where
  "command_run_all h m args s = on_scheduler (sched_run_all (h_cnt h)) (s\<lparr>numOfKheapVACalls := 0\<rparr>)"

definition print_envs :: "string \<Rightarrow> string \<Rightarrow> parg list \<Rightarrow> nat list \<Rightarrow> monitor \<Rightarrow> monitor" where
  "print_envs head none a es s =
     (if es \<noteq> [] then
        fold (\<lambda>e s. cprintf ''	[%d] %s'' [PNum (menv_id e s), PStr (prog_name (mload s) e)] s) es (cprintf head a s)
      else cprintf none a s)"

definition command_print_all :: command_fn where
  "command_print_all h m args s =
     (let (new, ready, exited) = sched_print_all (msched s);
          rule = cprintf ''================================================'' [];
          s = rule (print_envs ''The processes in NEW queue are:'' ''No processes in NEW queue'' [] new s);
          s = fold (\<lambda>(i, q) s. rule (print_envs ''The processes in READY queue #%d are:''
                     ''No processes in READY queue #%d'' [PNum (of_nat i)] q s)) (zip [0..<length ready] ready) s
      in ret0 (print_envs ''The processes in EXIT queue are:'' ''No processes in EXIT queue'' [] exited s))"

definition command_kill_all :: command_fn where
  "command_kill_all h m args s = on_scheduler (sched_kill_all (h_cnt h)) s"

section \<open>Page replacement\<close>

definition change :: "(settings \<Rightarrow> settings) \<Rightarrow> string \<Rightarrow> monitor \<Rightarrow> outcome" where
  "change f fmt s = say fmt [] (put_settings (f (settings_of s)) s)"

definition command_set_page_rep_LRU :: command_fn where
  "command_set_page_rep_LRU h m args s =
     (if length args < 2
      then say ''ERROR: please specify the LRU Approx Type (1: TimeStamp Approx, 2: Lists Approx), aborting...'' [] s
      else andthen (num_arg m args 1 10) (\<lambda>LRU_TYPE.
        if LRU_TYPE = PG_REP_LRU_TIME_APPROX \<or> LRU_TYPE = PG_REP_LRU_LISTS_APPROX then
          andthen (setPageReplacmentAlgorithmLRU LRU_TYPE (settings_of s)) (\<lambda>g.
            say (if LRU_TYPE = PG_REP_LRU_TIME_APPROX
                 then ''Page replacement algorithm is now LRU with TimeStamp approximation''
                 else ''Page replacement algorithm is now LRU with LISTS approximation'') [] (put_settings g s))
        else say ''ERROR: Invalid LRU Approx Type (1: TimeStamp Approx, 2: Lists Approx), aborting...'' [] s))"

definition command_set_page_rep_nthCLOCK :: command_fn where
  "command_set_page_rep_nthCLOCK h m args s =
     andthen (num_arg m args 1 10) (\<lambda>PageWSMaxSweeps.
       change (setPageReplacmentAlgorithmNchanceCLOCK PageWSMaxSweeps) ''Page replacement algorithm is now N chance CLOCK'' s)"

definition command_set_page_rep_CLOCK :: command_fn where
  "command_set_page_rep_CLOCK h m args =
     change setPageReplacmentAlgorithmCLOCK ''Page replacement algorithm is now CLOCK''"

definition command_set_page_rep_FIFO :: command_fn where
  "command_set_page_rep_FIFO h m args =
     change setPageReplacmentAlgorithmFIFO ''Page replacement algorithm is now FIFO''"

definition command_set_page_rep_ModifiedCLOCK :: command_fn where
  "command_set_page_rep_ModifiedCLOCK h m args =
     change setPageReplacmentAlgorithmModifiedCLOCK ''Page replacement algorithm is now Modified CLOCK''"

definition command_print_page_rep :: command_fn where
  "command_print_page_rep h m args s =
     (let g = settings_of s in
      if isPageReplacmentAlgorithmCLOCK g then say ''Page replacement algorithm is CLOCK'' [] s
      else if isPageReplacmentAlgorithmLRU PG_REP_LRU_TIME_APPROX g
      then say ''Page replacement algorithm is LRU with TimeStamp approximation'' [] s
      else if isPageReplacmentAlgorithmLRU PG_REP_LRU_LISTS_APPROX g
      then say ''Page replacement algorithm is LRU with LISTS approximation'' [] s
      else if isPageReplacmentAlgorithmFIFO g then say ''Page replacement algorithm is FIFO'' [] s
      else if isPageReplacmentAlgorithmModifiedCLOCK g then say ''Page replacement algorithm is Modified CLOCK'' [] s
      else say ''Page replacement algorithm is UNDEFINED'' [] s)"

section \<open>The scheduler\<close>

definition print_quantums :: "monitor \<Rightarrow> monitor" where
  "print_quantums s =
     fold (\<lambda>q. cprintf ''%d   '' [PNum (ucast q)]) (take (num_of_ready_queues (msched s)) (quantums (msched s))) s"

definition command_sch_RR :: command_fn where
  "command_sch_RR h m args s =
     andthen (num_arg m args 1 10) (\<lambda>quantum.
     andthen (sched_init_RR (ucast quantum) (msched s)) (\<lambda>c.
       let s = put_mkern (put_sched c (mkern s)) s
       in say ''Scheduler is now set to Round Robin with quantum %d ms'' [PNum (ucast (quantums c ! 0))] s))"

definition command_sch_MLFQ :: command_fn where
  "command_sch_MLFQ h m args s =
     andthen (num_arg m args 1 10) (\<lambda>numOfLevels.
     andthen (for_each (\<lambda>i qs. andthen (num_arg m args i 10) (\<lambda>q. Inr (qs @ [ucast q]))) [2..<length args] []) (\<lambda>qs.
     andthen (sched_init_MLFQ (unat (ucast numOfLevels :: u8)) qs (msched s)) (\<lambda>c.
       let s = put_mkern (put_sched c (mkern s)) s
       in say [] [] (print_quantums (cprintf ''Scheduler is now set to MLFQ with quantums: '' [] s)))))"

definition command_print_sch_method :: command_fn where
  "command_print_sch_method h m args s =
     (if isSchedMethodMLFQ (msched s)
      then say [] [] (print_quantums (cprintf ''Current scheduler method is MLFQ with quantums: '' [] s))
      else if isSchedMethodRR (msched s)
      then (if quantums (msched s) = [] then Inl Null_Deref
            else say ''Current scheduler method is Round Robin with quantum %d ms''
                   [PNum (ucast (quantums (msched s) ! 0))] s)
      else say ''Current scheduler method is UNDEFINED'' [] s)"

definition command_sch_test :: command_fn where
  "command_sch_test h m args s =
     andthen (num_arg m args 1 10) (\<lambda>status.
       let s = s\<lparr>chkstatus := ucast status\<rparr> in
       if status = 0 then say ''Testing the scheduler is TURNED OFF'' [] s
       else if status = 1 then say ''Testing the scheduler is TURNED ON'' [] s
       else ret0 s)"

section \<open>Heap strategies\<close>

definition set_uheap :: "u32 \<Rightarrow> string \<Rightarrow> monitor \<Rightarrow> outcome" where
  "set_uheap v fmt s = say fmt [] (put_mkern ((mkern s)\<lparr>UHeapPlacementStrategy := v\<rparr>) s)"

definition command_set_uheap_plac_FIRSTFIT :: command_fn where
  "command_set_uheap_plac_FIRSTFIT h m args =
     set_uheap UHP_PLACE_FIRSTFIT ''User Heap placement strategy is now FIRST FIT''"
definition command_set_uheap_plac_BESTFIT :: command_fn where
  "command_set_uheap_plac_BESTFIT h m args =
     set_uheap UHP_PLACE_BESTFIT ''User Heap placement strategy is now BEST FIT''"
definition command_set_uheap_plac_NEXTFIT :: command_fn where
  "command_set_uheap_plac_NEXTFIT h m args =
     set_uheap UHP_PLACE_NEXTFIT ''User Heap placement strategy is now NEXT FIT''"
definition command_set_uheap_plac_WORSTFIT :: command_fn where
  "command_set_uheap_plac_WORSTFIT h m args =
     set_uheap UHP_PLACE_WORSTFIT ''User Heap placement strategy is now WORST FIT''"

definition command_print_uheap_plac :: command_fn where
  "command_print_uheap_plac h m args s =
     (let v = UHeapPlacementStrategy (mkern s) in
      if v = UHP_PLACE_FIRSTFIT then say ''User Heap placement strategy is FIRST FIT'' [] s
      else if v = UHP_PLACE_BESTFIT then say ''User Heap placement strategy is BEST FIT'' [] s
      else if v = UHP_PLACE_NEXTFIT then say ''User Heap placement strategy is NEXT FIT'' [] s
      else if v = UHP_PLACE_WORSTFIT then say ''User Heap placement strategy is WORST FIT'' [] s
      else say ''User Heap placement strategy is UNDEFINED'' [] s)"

definition KHP_PLACE_CONTALLOC :: u32 where "KHP_PLACE_CONTALLOC = 0"
definition KHP_PLACE_WORSTFIT :: u32 where "KHP_PLACE_WORSTFIT = 4"

definition set_kheap :: "u32 \<Rightarrow> string \<Rightarrow> monitor \<Rightarrow> outcome" where
  "set_kheap v fmt s = say fmt [] (put_mmem ((mmem s)\<lparr>KHeapPlacementStrategy := v\<rparr>) s)"

definition command_set_kheap_plac_CONTALLOC :: command_fn where
  "command_set_kheap_plac_CONTALLOC h m args =
     set_kheap KHP_PLACE_CONTALLOC ''Kernel Heap placement strategy is now FIRST FIT''"
definition command_set_kheap_plac_FIRSTFIT :: command_fn where
  "command_set_kheap_plac_FIRSTFIT h m args =
     set_kheap KHP_PLACE_FIRSTFIT ''Kernel Heap placement strategy is now FIRST FIT''"
definition command_set_kheap_plac_BESTFIT :: command_fn where
  "command_set_kheap_plac_BESTFIT h m args =
     set_kheap KHP_PLACE_BESTFIT ''Kernel Heap placement strategy is now BEST FIT''"
definition command_set_kheap_plac_NEXTFIT :: command_fn where
  "command_set_kheap_plac_NEXTFIT h m args =
     set_kheap KHP_PLACE_NEXTFIT ''Kernel Heap placement strategy is now NEXT FIT''"
definition command_set_kheap_plac_WORSTFIT :: command_fn where
  "command_set_kheap_plac_WORSTFIT h m args =
     set_kheap KHP_PLACE_WORSTFIT ''Kernel Heap placement strategy is now WORST FIT''"

definition command_print_kheap_plac :: command_fn where
  "command_print_kheap_plac h m args s =
     (let v = KHeapPlacementStrategy (mmem s) in
      if v = KHP_PLACE_CONTALLOC then say ''Kernel Heap placement strategy is CONTINUOUS ALLOCATION'' [] s
      else if v = KHP_PLACE_FIRSTFIT then say ''Kernel Heap placement strategy is FIRST FIT'' [] s
      else if v = KHP_PLACE_BESTFIT then say ''Kernel Heap placement strategy is BEST FIT'' [] s
      else if v = KHP_PLACE_NEXTFIT then say ''Kernel Heap placement strategy is NEXT FIT'' [] s
      else if v = KHP_PLACE_WORSTFIT then say ''Kernel Heap placement strategy is WORST FIT'' [] s
      else say ''Kernel Heap placement strategy is UNDEFINED'' [] s)"

section \<open>Buffering\<close>

definition modified_buffer :: "u32 \<Rightarrow> string \<Rightarrow> monitor \<Rightarrow> outcome" where
  "modified_buffer v fmt s =
     (if isBufferingEnabled (settings_of s) = 0
      then say ''Buffering is not enabled. Please enable buffering first.'' [] s
      else change (enableModifiedBuffer v) fmt s)"

definition command_disable_modified_buffer :: command_fn where
  "command_disable_modified_buffer h m args = modified_buffer 0 ''Modified Buffer is now DISABLED''"
definition command_enable_modified_buffer :: command_fn where
  "command_enable_modified_buffer h m args = modified_buffer 1 ''Modified Buffer is now ENABLED''"

definition command_disable_buffering :: command_fn where
  "command_disable_buffering h m args =
     change (\<lambda>g. enableModifiedBuffer 0 (enableBuffering 0 g)) ''Buffering is now DISABLED''"

definition set_length_to :: "u32 \<Rightarrow> monitor \<Rightarrow> monitor" where
  "set_length_to v s =
     (let s = put_settings (setModifiedBufferLength v (settings_of s)) s
      in cprintf ''Modified buffer length updated = %d'' [PNum (getModifiedBufferLength (settings_of s))] s)"

definition command_enable_buffering :: command_fn where
  "command_enable_buffering h m args s =
     (let s = put_settings (enableModifiedBuffer 1 (enableBuffering 1 (settings_of s))) s in
      andthen (if getModifiedBufferLength (settings_of s) = 0
               then andthen (num_at (h_typed h) 0 10) (\<lambda>v.
                      Inr (set_length_to v (cprintf ''Modified buffer enabled but with length = 0'' [] s)))
               else Inr s)
        (say ''Buffering is now ENABLED'' []))"

definition warn_buffering :: "monitor \<Rightarrow> monitor" where
  "warn_buffering s =
     (if isBufferingEnabled (settings_of s) = 0
      then cprintf ''Buffering is not enabled. Please enable buffering to use the modified buffer.'' [] s
      else if isModifiedBufferEnabled (settings_of s) = 0
      then cprintf ''Modified Buffering is not enabled. Please enable modified buffering.'' [] s
      else s)"

definition command_set_modified_buffer_length :: command_fn where
  "command_set_modified_buffer_length h m args s =
     andthen (num_arg m args 1 10) (\<lambda>v. ret0 (set_length_to v (warn_buffering s)))"

definition command_get_modified_buffer_length :: command_fn where
  "command_get_modified_buffer_length h m args s =
     say ''Modified buffer length = %d'' [PNum (getModifiedBufferLength (settings_of s))] (warn_buffering s)"

section \<open>Test commands\<close>

definition run_test :: "host \<Rightarrow> string \<Rightarrow> monitor \<Rightarrow> outcome" where
  "run_test h name s = andthen (h_test h name s) ret0"

definition strategy_is :: "u32 \<Rightarrow> monitor \<Rightarrow> bool" where
  "strategy_is v s \<longleftrightarrow> KHeapPlacementStrategy (mmem s) = v"

text \<open>The test of a number among those of a strategy; 0 is refused.\<close>

definition numbered_test :: "host \<Rightarrow> u32 \<Rightarrow> string \<Rightarrow> (u32 \<times> string) list \<Rightarrow> monitor \<Rightarrow> outcome" where
  "numbered_test h testNum err tests s =
     (if testNum = 0 then say err [] s
      else case map_of tests testNum of Some name \<Rightarrow> run_test h name s | None \<Rightarrow> ret0 s)"

definition FF_test_error :: string where
  "FF_test_error = ''Error: [Kernel.FirstFit] must specify the test number (1 or 2) as an argument''"
definition BF_test_error :: string where
  "BF_test_error = ''Error: [Kernel.BestFit] must specify the test number (1, 2, 3) as an argument''"
definition NF_test_error :: string where
  "NF_test_error = ''Error: [Kernel.NextFit] must specify the test number (1 or 2) as an argument''"

definition BF_tests :: "(u32 \<times> string) list" where
  "BF_tests = [(1, ''test_kmalloc''), (2, ''test_kmalloc_bestfit1''), (3, ''test_kmalloc_bestfit2'')]"
definition NF_tests :: "(u32 \<times> string) list" where
  "NF_tests = [(1, ''test_kmalloc''), (2, ''test_kmalloc_nextfit'')]"

definition command_test_kmalloc :: command_fn where
  "command_test_kmalloc h m args s =
     andthen (if length args = 2 then num_arg m args 1 10 else Inr 0) (\<lambda>testNum.
       if strategy_is KHP_PLACE_CONTALLOC s then run_test h ''test_kmalloc'' s
       else if strategy_is KHP_PLACE_FIRSTFIT s
       then numbered_test h testNum FF_test_error [(1, ''test_kmalloc_firstfit1''), (2, ''test_kmalloc_firstfit2'')] s
       else if strategy_is KHP_PLACE_BESTFIT s then numbered_test h testNum BF_test_error BF_tests s
       else if strategy_is KHP_PLACE_NEXTFIT s then numbered_test h testNum NF_test_error NF_tests s
       else if strategy_is KHP_PLACE_WORSTFIT s then run_test h ''test_kmalloc_worstfit'' s
       else ret0 s)"

definition command_test_kfree :: command_fn where
  "command_test_kfree h m args s =
     (if strategy_is KHP_PLACE_BESTFIT s \<or> strategy_is KHP_PLACE_FIRSTFIT s
      then run_test h ''test_kfree_bestfirstfit'' s else run_test h ''test_kfree'' s)"

definition command_test_krealloc :: command_fn where
  "command_test_krealloc h m args s =
     (if strategy_is KHP_PLACE_NEXTFIT s then run_test h ''test_krealloc'' s
      else if strategy_is KHP_PLACE_BESTFIT s then run_test h ''test_krealloc_BF'' s
      else ret0 s)"

definition test_command :: "string \<Rightarrow> command_fn" where
  "test_command name h m args s = run_test h name s"

definition command_test_kheap_phys_addr :: command_fn where
  "command_test_kheap_phys_addr = test_command ''test_kheap_phys_addr''"
definition command_test_kheap_virt_addr :: command_fn where
  "command_test_kheap_virt_addr = test_command ''test_kheap_virt_addr''"
definition command_test_three_creation_functions :: command_fn where
  "command_test_three_creation_functions = test_command ''test_three_creation_functions''"
definition command_test_kfreeall :: command_fn where
  "command_test_kfreeall = test_command ''test_kfreeall''"
definition command_test_kexpand :: command_fn where
  "command_test_kexpand = test_command ''test_kexpand''"
definition command_test_kshrink :: command_fn where
  "command_test_kshrink = test_command ''test_kshrink''"
definition command_test_kfreelast :: command_fn where
  "command_test_kfreelast = test_command ''test_kfreelast''"
definition command_test_priority1 :: command_fn where
  "command_test_priority1 = test_command ''test_priority_normal_and_higher''"
definition command_test_priority2 :: command_fn where
  "command_test_priority2 = test_command ''test_priority_normal_and_lower''"
definition command_test_autocomplete :: command_fn where
  "command_test_autocomplete = test_command ''TestAutoCompleteCommand''"

text \<open>Slaves at the front of the exit queue: the count stops at the first other environment behind them.\<close>

fun count_slaves :: "(nat \<Rightarrow> string) \<Rightarrow> nat list \<Rightarrow> bool \<Rightarrow> nat \<Rightarrow> nat" where
  "count_slaves nm [] firstTime k = k"
| "count_slaves nm (e # es) firstTime k =
     (if nm e = ''tmlfq_2'' then count_slaves nm es False (k + 1)
      else if firstTime then count_slaves nm es firstTime k else k)"

definition command_test_sc_MLFQ :: command_fn where
  "command_test_sc_MLFQ h m args s =
     andthen (num_arg m args 1 10) (\<lambda>numOfSlave2.
       if int (count_slaves (prog_name (mload s)) (env_exit_queue (msched s)) True 0) = sint numOfSlave2
       then say ''Congratulations... MLFQScenario# completed successfully'' [] s
       else Inl Panic)"

text \<open>A command with the name of a test as its second word.\<close>

fun pick_test :: "bytes \<Rightarrow> u32 \<Rightarrow> (string list \<times> string) list \<Rightarrow> string option" where
  "pick_test m p [] = None"
| "pick_test m p ((names, t) # rest) = (if list_ex (same_str m p) names then Some t else pick_test m p rest)"

definition named_tests :: "string \<Rightarrow> (string list \<times> string) list \<Rightarrow> command_fn" where
  "named_tests usage tests h m args s =
     (if length args \<noteq> 2 then say usage [] s
      else case pick_test m (args ! 1) tests of Some t \<Rightarrow> run_test h t s | None \<Rightarrow> ret0 s)"

definition command_test_lists :: command_fn where
  "command_test_lists = named_tests ''Invalid number of arguments! USAGE: tstlsts <testname>''
     [([''init''], ''test_initialize_MemBlocksList''), ([''insrt''], ''test_insert_sorted_allocList''),
      ([''find''], ''test_find_block''), ([''FF'', ''ff''], ''test_alloc_block_FF''),
      ([''BF'', ''bf''], ''test_alloc_block_BF''), ([''NF'', ''nf''], ''test_alloc_block_NF''),
      ([''MERGE'', ''merge''], ''test_insert_sorted_with_merge_freeList'')]"

definition command_test_chunks :: command_fn where
  "command_test_chunks = named_tests ''Invalid number of arguments! USAGE: tstchunk <testname>''
     [([''cutpaste''], ''test_cut_paste_pages''), ([''copypaste''], ''test_copy_paste_chunk''),
      ([''share''], ''test_share_chunk''), ([''allocate''], ''test_allocate_chunk''),
      ([''required_space''], ''test_calculate_required_frames''),
      ([''allocated_space''], ''test_calculate_allocated_space'')]"

definition command_test_paging_manipulation :: command_fn where
  "command_test_paging_manipulation = named_tests ''Invalid number of arguments! USAGE: tstpg <testname>''
     [([''scperm1''], ''test_pt_set_page_permissions''),
      ([''scperm2''], ''test_pt_set_page_permissions_invalid_va''),
      ([''getperm''], ''test_pt_get_page_permissions''), ([''clear1''], ''test_pt_clear_page_table_entry''),
      ([''clear2''], ''test_pt_clear_page_table_entry_invalid_va''), ([''v2p''], ''test_virtual_to_physical'')]"

definition set_test_strategy :: "bytes \<Rightarrow> u32 \<Rightarrow> monitor \<Rightarrow> monitor" where
  "set_test_strategy m p s =
     (let set = (\<lambda>v fmt. cprintf fmt [] (put_mmem ((mmem s)\<lparr>KHeapPlacementStrategy := v\<rparr>) s)) in
      if same_str m p ''FF'' \<or> same_str m p ''ff'' then set KHP_PLACE_FIRSTFIT ''Kernel Heap placement strategy is FIRST FIT''
      else if same_str m p ''BF'' \<or> same_str m p ''bf'' then set KHP_PLACE_BESTFIT ''Kernel Heap placement strategy is BEST FIT''
      else if same_str m p ''NF'' \<or> same_str m p ''nf'' then set KHP_PLACE_NEXTFIT ''Kernel Heap placement strategy is NEXT FIT''
      else s)"

definition command_test_kheap :: command_fn where
  "command_test_kheap h m args s =
     andthen (arg args 2) (\<lambda>t.
       if same_str m t ''kmalloc'' \<and> length args \<noteq> 4
       then say ''Invalid number of arguments! USAGE: tstkheap <Strategy> kmalloc <1 or 2 or 3>'' [] s
       else if \<not> same_str m t ''kmalloc'' \<and> length args \<noteq> 3
       then say ''Invalid number of arguments! USAGE: tstkheap <Strategy> <testname>'' [] s
       else
         (let s = set_test_strategy m (args ! 1) s in
          if same_str m t ''kmalloc'' then
            andthen (num_arg m args 3 10) (\<lambda>testNum.
              if strategy_is KHP_PLACE_FIRSTFIT s
              then numbered_test h testNum FF_test_error [(1, ''test_kmalloc''), (2, ''test_kmalloc_firstfit1''),
                     (3, ''test_kmalloc_firstfit2'')] s
              else if strategy_is KHP_PLACE_BESTFIT s then numbered_test h testNum BF_test_error BF_tests s
              else if strategy_is KHP_PLACE_NEXTFIT s then numbered_test h testNum NF_test_error NF_tests s
              else ret0 s)
          else if same_str m t ''kfree'' then command_test_kfree h m args s
          else if same_str m t ''kphysaddr'' then run_test h ''test_kheap_phys_addr'' s
          else if same_str m t ''kvirtaddr'' then run_test h ''test_kheap_virt_addr'' s
          else if same_str m t ''krealloc''
          then (if strategy_is KHP_PLACE_BESTFIT s then run_test h ''test_krealloc_BF'' s else ret0 s)
          else ret0 s))"

section \<open>The table of commands\<close>

text \<open>The table is split: \<^verbatim>\<open>help\<close> is in it and prints its names and descriptions.\<close>

definition command_names :: "(string \<times> string) list" where
  "command_names =
    [(''help'', ''Display this list of commands''),
     (''kernel_info'', ''Display information about the kernel''),
     (''ikb'', ''Lab3.Example: shows mapping info of KERNEL_BASE''),
     (''dkb'', ''Lab3.Example: delete the mapping of KERNEL_BASE''),
     (''shr'', ''Lab3.Example: share one page on another''),
     (''sm'', ''Lab4.HandsOn: display the mapping info for the given virtual address''),
     (''sp'', ''Lab4.HandsOn: set the desired permission to a given virtual address page''),
     (''sr'', ''Lab4.HandsOn: shares the physical frames of the first virtual range with the 2nd virtual range''),
     (''nr'', ''Lab5.Example: show the number of references of the physical frame''),
     (''ap'', ''Lab5.Example: allocate one page [if not exists] in the user space at the given virtual address''),
     (''fp'', ''Lab5.Example: free one page in the user space at the given virtual address''),
     (''asp'', ''Lab5.HandsOn: allocate 2 shared pages with the given virtual addresses''),
     (''cfp'', ''Lab5.HandsOn: count the number of free pages in the given range''),
     (''ft'', ''Lab6.Example: Free table''),
     (''run'', ''runs a single user program''),
     (''kill'', ''kill the given environment (by its ID) from the system''),
     (''wum'', ''writes one byte to specific location in given environment''),
     (''rum'', ''reads one byte from specific location in given environment''),
     (''wm'', ''writes one byte to specific location''),
     (''rm'', ''reads one byte from specific location''),
     (''rub'', ''reads block of bytes from specific location in given environment''),
     (''rut'', []), (''aup'', []), (''meminfo'', []),
     (''schedMLFQ'', ''switch the scheduler to MLFQ with given # queues & quantums''),
     (''schedRR'', ''switch the scheduler to RR with given quantum''),
     (''sched?'', ''print current scheduler algorithm''),
     (''schedTest'', ''Used for turning on/off the scheduler test''),
     (''load'', ''load a single user program to mem with status = NEW''),
     (''runall'', ''run all loaded programs''), (''printall'', ''print all loaded programs''),
     (''killall'', ''kill all environments in the system''),
     (''lru'', ''set replacement algorithm to LRU''), (''fifo'', ''set replacement algorithm to FIFO''),
     (''clock'', ''set replacement algorithm to CLOCK''),
     (''modifiedclock'', ''set replacement algorithm to modified CLOCK''),
     (''nclock'', ''set replacement algorithm to Nth chance CLOCK''),
     (''rep?'', ''print current replacement algorithm''),
     (''uhfirstfit'', ''set USER heap placement strategy to FIRST FIT''),
     (''uhbestfit'', ''set USER heap placement strategy to BEST FIT''),
     (''uhnextfit'', ''set USER heap placement strategy to NEXT FIT''),
     (''uhworstfit'', ''set USER heap placement strategy to WORST FIT''),
     (''uheap?'', ''print current USER heap placement strategy''),
     (''khcontalloc'', ''set KERNEL heap placement strategy to CONTINUOUS ALLOCATION''),
     (''khfirstfit'', ''set KERNEL heap placement strategy to FIRST FIT''),
     (''khbestfit'', ''set KERNEL heap placement strategy to BEST FIT''),
     (''khnextfit'', ''set KERNEL heap placement strategy to NEXT FIT''),
     (''khworstfit'', ''set KERNEL heap placement strategy to WORST FIT''),
     (''kheap?'', ''print current KERNEL heap placement strategy''),
     (''nobuff'', []), (''buff'', []), (''nomodbuff'', []), (''modbuff'', []),
     (''modbufflength?'', []), (''modbufflength'', []),
     (''tstkmalloc'', ''Kernel Heap: test kmalloc (return address, size, mem access...etc)''),
     (''tstkfree'', ''Kernel Heap: test kfree (freed frames, mem access...etc)''),
     (''tstkphysaddr'', ''Kernel Heap: test kheap_phys_addr''),
     (''tstkvirtaddr'', ''Kernel Heap: test kheap_virt_addr''),
     (''tst3functions'', ''Env Load: test the creation of new dir, tables and pages WS''),
     (''tstkfreeall'', ''Kernel Heap: test kfreeall (freed frames, mem access...etc)''),
     (''tstkexpand'', ''Kernel Heap: test expanding last allocated var''),
     (''tstkshrink'', ''Kernel Heap: test srinking last allocated var''),
     (''tstkfreelast'', ''Kernel Heap: test freeing last allocated var''),
     (''tstkrealloc'', ''Kernel realloc: test realloc (virtual address = 0)''),
     (''tstpriority1'', ''Tests the priority of the program (Normal and Higher)''),
     (''tstpriority2'', ''Tests the priority of the program (Normal and Lower)''),
     (''tstsc4'', ''Scenario#4: MLFQ''), (''autocomplete'', ''Test commands autcomplte''),
     (''tstlsts'', ''Test lists manipulation for dynamic blocks management''),
     (''tstpg'', ''Test paging manipulation for a specific page''),
     (''tstchunks'', ''Test chunk manipulations''), (''tstkheap'', ''Test KHEAP functions'')]"

definition command_help :: command_fn where
  "command_help h m args s =
     (let s = fold (\<lambda>(n, d). cprintf ''%s - %s'' [PStr n, PStr d]) command_names s;
          s = cprintf ''-------------------'' [] s
      in ret0 (fold (\<lambda>(n, im). cprintf ''run %s - %s [User Program]'' [PStr n, PStr (h_desc h n)]) (h_progs h) s))"

definition command_functions :: "command_fn list" where
  "command_functions =
    [command_help, command_kernel_info, command_kernel_base_info, command_del_kernel_base, command_share_page,
     command_show_mapping, command_set_permission, command_share_range, command_nr, command_ap, command_fp,
     command_asp, command_cfp, command_ft, command_run_program, command_kill_program,
     command_writeusermem, command_readusermem, command_writemem_k, command_readmem_k, command_readuserblock,
     command_remove_table, command_allocuserpage, command_meminfo,
     command_sch_MLFQ, command_sch_RR, command_print_sch_method, command_sch_test,
     commnad_load_env, command_run_all, command_print_all, command_kill_all,
     command_set_page_rep_LRU, command_set_page_rep_FIFO, command_set_page_rep_CLOCK,
     command_set_page_rep_ModifiedCLOCK, command_set_page_rep_nthCLOCK, command_print_page_rep,
     command_set_uheap_plac_FIRSTFIT, command_set_uheap_plac_BESTFIT, command_set_uheap_plac_NEXTFIT,
     command_set_uheap_plac_WORSTFIT, command_print_uheap_plac,
     command_set_kheap_plac_CONTALLOC, command_set_kheap_plac_FIRSTFIT, command_set_kheap_plac_BESTFIT,
     command_set_kheap_plac_NEXTFIT, command_set_kheap_plac_WORSTFIT, command_print_kheap_plac,
     command_disable_buffering, command_enable_buffering, command_disable_modified_buffer,
     command_enable_modified_buffer, command_get_modified_buffer_length, command_set_modified_buffer_length,
     command_test_kmalloc, command_test_kfree, command_test_kheap_phys_addr,
     command_test_kheap_virt_addr, command_test_three_creation_functions,
     command_test_kfreeall, command_test_kexpand, command_test_kshrink,
     command_test_kfreelast, command_test_krealloc,
     command_test_priority1, command_test_priority2,
     command_test_sc_MLFQ, command_test_autocomplete,
     command_test_lists, command_test_paging_manipulation, command_test_chunks, command_test_kheap]"

definition commands :: "(string \<times> command_fn) list" where
  "commands = zip (map fst command_names) command_functions"

section \<open>The interpreter\<close>

definition WHITESPACE :: "u8 list" where "WHITESPACE = [9, 13, 10, 32]"

fun find_command :: "bytes \<Rightarrow> u32 \<Rightarrow> (string \<times> command_fn) list \<Rightarrow> command_fn option" where
  "find_command m p [] = None"
| "find_command m p ((n, f) # cs) = (if same_str m p n then Some f else find_command m p cs)"

text \<open>The name of a command as bytes; the comparison may read behind its end.\<close>

definition name_byte :: "host \<Rightarrow> string \<Rightarrow> nat \<Rightarrow> u8" where
  "name_byte h n j = (if j < length n then of_char (n ! j) else if j = length n then 0
                      else h_behind h n (j - length n - 1))"

definition matches :: "host \<Rightarrow> bytes \<Rightarrow> u32 \<Rightarrow> nat \<Rightarrow> string \<Rightarrow> nat" where
  "matches h m p len n = length (filter (\<lambda>j. m (p + of_nat j) = name_byte h n j) [0..<len])"

text \<open>Completion: the names that the word could be the start of.\<close>

definition unknown_command :: string where
  "unknown_command = ''Unknown command '' @ [CHR 0x27] @ ''%s'' @ [CHR 0x27]"

definition complete :: "host \<Rightarrow> bytes \<Rightarrow> u32 \<Rightarrow> monitor \<Rightarrow> monitor result" where
  "complete h m p s =
     andthen (str_at m p) (\<lambda>w.
       let len = length w;
           found = filter (\<lambda>n. matches h m p len n = len) (map fst command_names);
           s = fold (\<lambda>n. cprintf ''%s'' [PStr n]) found s
       in Inr (if found = [] then cprintf unknown_command [PStr (map (\<lambda>c. char_of (unat c)) w)] s else s))"

text \<open>\<open>line\<close> is the place of the command line and \<open>ws\<close> of the white space.\<close>

definition execute_command :: "host \<Rightarrow> u32 \<Rightarrow> u32 \<Rightarrow> bytes \<Rightarrow> monitor \<Rightarrow> outcome option" where
  "execute_command h ws line m s =
     map_option (\<lambda>(_, args, m).
       if args = [] then ret0 s
       else case find_command m (args ! 0) commands of
              Some f \<Rightarrow> f h m args s
            | None \<Rightarrow> andthen (complete h m (args ! 0) s) ret0)
     (strsplit line ws m)"

text \<open>
  The prompt: one line after the other, until a command returns a negative value, does not come back or
  panics. \<open>None\<close> waits for the next line.
\<close>

fun run_command_prompt :: "host \<Rightarrow> u32 \<Rightarrow> u32 \<Rightarrow> bytes list \<Rightarrow> monitor \<Rightarrow> outcome option" where
  "run_command_prompt h ws line [] s = None"
| "run_command_prompt h ws line (m # ms) s =
     Option.bind (execute_command h ws line m s) (\<lambda>r.
       case r of
         Inl e \<Rightarrow> Some (Inl e)
       | Inr (v, c, s) \<Rightarrow>
           if c = Returned \<and> 0 \<le> v then run_command_prompt h ws line ms s else Some (Inr (v, c, s)))"

section \<open>Finding the command\<close>

lemma same_str_cstr:
  "cstr m p w \<Longrightarrow> 0 \<notin> (of_char ` set n :: u8 set) \<Longrightarrow> same_str m p n \<longleftrightarrow> w = map of_char n"
proof (induction n arbitrary: p w)
  case Nil
  then show ?case by (cases w) auto
next
  case (Cons c n)
  have "of_char c \<noteq> (0 :: u8)"
    using Cons.prems(2) by force
  moreover have "0 \<notin> (of_char ` set n :: u8 set)"
    using Cons.prems(2) by auto
  ultimately show ?case
    using Cons.prems(1) Cons.IH by (cases w) auto
qed

lemma inj_of_char_u8: "inj (of_char :: char \<Rightarrow> u8)"
proof
  fix a b :: char
  assume "(of_char a :: u8) = of_char b"
  moreover have "unat (of_char c :: u8) = of_char c" for c :: char
  proof -
    have "unat (of_nat (of_char c) :: u8) = of_char c"
      by (simp add: unat_of_nat)
    then show ?thesis
      by (simp only: of_nat_of_char)
  qed
  ultimately have "(of_char a :: nat) = of_char b"
    by metis
  then show "a = b"
    by simp
qed

definition encode :: "string \<Rightarrow> u8 list" where "encode n = map of_char n"

lemma encode_eq [simp]: "encode a = encode b \<longleftrightarrow> a = b"
  by (simp add: encode_def inj_map_eq_map inj_of_char_u8)

lemma prefix_encode [simp]: "prefix (encode a) (encode b) \<longleftrightarrow> prefix a b"
  by (auto simp: prefix_def encode_def inj_map_eq_map inj_of_char_u8 map_eq_append_conv)

lemma find_command_map:
  assumes "cstr m p w" "\<forall>(n, f)\<in>set cs. 0 \<notin> (of_char ` set n :: u8 set)"
  shows "find_command m p cs = map_of (map (\<lambda>(n, f). (encode n, f)) cs) w"
  using assms by (induction cs) (auto simp: same_str_cstr encode_def)

lemma command_table:
  "length command_functions = length command_names" "distinct (map fst command_names)"
  "list_all (\<lambda>n. 0 \<notin> (of_char ` set n :: u8 set)) (map fst command_names)"
  by (simp add: command_functions_def command_names_def) code_simp+

lemma commands_fst: "map fst commands = map fst command_names"
  by (simp add: commands_def command_table(1))

lemma commands_no_zero: "\<forall>(n, f)\<in>set commands. 0 \<notin> (of_char ` set n :: u8 set)"
proof -
  have "\<forall>n\<in>set (map fst commands). 0 \<notin> (of_char ` set n :: u8 set)"
    unfolding commands_fst using command_table(3) unfolding list_all_iff .
  then show ?thesis
    by force
qed

lemma find_command_listed:
  assumes "cstr m p (encode n)" and "(n, f) \<in> set commands"
  shows "find_command m p commands = Some f"
proof -
  have "distinct (map fst commands)"
    by (simp add: commands_fst command_table(2))
  moreover have "map_of (map (\<lambda>(n, f). (encode n, f)) cs) (encode n) = map_of cs n" for cs :: "(string \<times> command_fn) list"
    by (induction cs) auto
  ultimately show ?thesis
    using assms by (simp add: find_command_map [OF _ commands_no_zero])
qed

lemma find_command_unlisted:
  assumes "cstr m p w" and "w \<notin> encode ` fst ` set command_names"
  shows "find_command m p commands = None"
proof -
  have "w \<notin> fst ` set (map (\<lambda>(n, f). (encode n, f)) commands)"
    using assms(2) unfolding set_map [symmetric] commands_fst [symmetric] by force
  then show ?thesis
    by (simp add: find_command_map [OF assms(1) commands_no_zero] map_of_eq_None_iff)
qed

section \<open>Completion\<close>

lemma name_byte_end: "j = length n \<Longrightarrow> name_byte h n j = 0"
  by (simp add: name_byte_def)

lemma filter_all_length: "length (filter P xs) = length xs \<longleftrightarrow> (\<forall>x\<in>set xs. P x)"
proof (induction xs)
  case (Cons x xs)
  have "length (filter P xs) \<noteq> Suc (length xs)"
    using length_filter_le [of P xs] by linarith
  then show ?case
    using Cons.IH by simp
qed simp

lemma matches_prefix:
  assumes "cstr m p w"
  shows "matches h m p (length w) n = length w \<longleftrightarrow> prefix w (encode n)"
proof -
  have "matches h m p (length w) n = length w \<longleftrightarrow> (\<forall>j<length w. w ! j = name_byte h n j)"
    using filter_all_length [of "\<lambda>j. m (p + of_nat j) = name_byte h n j" "[0..<length w]"]
      cstr_nth [OF assms] by (auto simp: matches_def)
  also have "\<dots> \<longleftrightarrow> prefix w (encode n)"
  proof
    assume l: "\<forall>j<length w. w ! j = name_byte h n j"
    have "length w \<le> length n"
    proof (rule ccontr)
      assume "\<not> length w \<le> length n"
      then have "w ! length n = 0"
        using l by (simp add: name_byte_end)
      moreover have "w ! length n \<noteq> 0"
        using cstr_nth [OF assms] \<open>\<not> length w \<le> length n\<close> by simp
      ultimately show False
        by simp
    qed
    then have "w = take (length w) (encode n)"
      using l by (intro nth_equalityI) (simp_all add: name_byte_def encode_def)
    then show "prefix w (encode n)"
      by (metis take_is_prefix)
  next
    assume "prefix w (encode n)"
    then obtain r where r: "encode n = w @ r"
      by (auto simp: prefix_def)
    then have "length w \<le> length n"
      by (metis encode_def length_append length_map le_add1)
    moreover have "w ! j = encode n ! j" if "j < length w" for j
      using that r by (simp add: nth_append)
    ultimately show "\<forall>j<length w. w ! j = name_byte h n j"
      by (simp add: name_byte_def encode_def)
  qed
  finally show ?thesis .
qed

lemma str_at_cstr:
  assumes "cstr m p w" "length w < 4294967296"
  shows "str_at m p = Inr w"
proof -
  have "strlen m p = Some (of_nat (length w))"
    using strlen_loop_cstr [OF assms(1), of 0] by (simp add: strlen_def)
  moreover have "unat (of_nat (length w) :: u32) = length w"
    using assms(2) by (simp add: unat_of_nat take_bit_nat_eq_self)
  ultimately show ?thesis
    using cstr_nth [OF assms(1)] by (auto simp: str_at_def intro: nth_equalityI)
qed

lemma mout_fold:
  "fold (\<lambda>n. cprintf fmt [PStr n]) ns s = s\<lparr>mout := mout s @ map (\<lambda>n. (fmt, [PStr n])) ns\<rparr>"
  by (induction ns arbitrary: s) (simp_all add: cprintf_def)

text \<open>What completion prints for the word \<open>w\<close>.\<close>

definition completions :: "u8 list \<Rightarrow> (string \<times> parg list) list" where
  "completions w =
     (case filter (\<lambda>n. prefix w (encode n)) (map fst command_names) of
        [] \<Rightarrow> [(unknown_command, [PStr (map (\<lambda>c. char_of (unat c)) w)])]
      | found \<Rightarrow> map (\<lambda>n. (''%s'', [PStr n])) found)"

lemma complete_lists:
  assumes "cstr m p w" "length w < 4294967296"
  shows "complete h m p s = Inr (s\<lparr>mout := mout s @ completions w\<rparr>)"
  by (simp add: complete_def str_at_cstr [OF assms] matches_prefix [OF assms(1)] Let_def mout_fold
      completions_def cprintf_def split: list.split)

section \<open>The line\<close>

text \<open>The line \<open>xs\<close> at \<open>line\<close>, with the separators at \<open>ws\<close>.\<close>

definition typed_line :: "bytes \<Rightarrow> u32 \<Rightarrow> u8 list \<Rightarrow> u32 \<Rightarrow> bool" where
  "typed_line m line xs ws \<longleftrightarrow>
     cstr m line xs \<and> seps_at m ws WHITESPACE \<and> apart line (length xs) ws 5 \<and> length xs < 1024"

definition line_words :: "u8 list \<Rightarrow> u8 list list" where
  "line_words xs = tokens (\<lambda>c. c \<in> set WHITESPACE) xs"

lemma split_line:
  assumes "typed_line m line xs ws"
  shows "\<exists>ok args m'. strsplit line ws m = Some (ok, args, m') \<and>
     length args = min 15 (length (line_words xs)) \<and> (\<forall>i<length args. cstr m' (args ! i) (line_words xs ! i))"
proof -
  have "Suc (length WHITESPACE) = 5"
    by (simp add: WHITESPACE_def)
  then show ?thesis
    using strsplit_loop_run [of m line xs ws WHITESPACE "[]"] assms
    by (auto simp: strsplit_def split_result_def Let_def typed_line_def line_words_def)
qed

lemma first_word_length:
  assumes "line_words xs = w # rest"
  shows "length w \<le> length xs"
proof -
  let ?ys = "dropWhile (\<lambda>c. c \<in> set WHITESPACE) xs"
  have "w = takeWhile (\<lambda>c. c \<notin> set WHITESPACE) ?ys"
    using assms unfolding line_words_def by (subst (asm) tokens.simps) (simp add: Let_def split: if_splits)
  then show ?thesis
    using length_takeWhile_le [of "\<lambda>c. c \<notin> set WHITESPACE" ?ys]
      length_dropWhile_le [of "\<lambda>c. c \<in> set WHITESPACE" xs] by simp
qed

section \<open>Every command returns 0\<close>

definition returns_0 :: "outcome \<Rightarrow> bool" where
  "returns_0 r \<longleftrightarrow> (\<forall>v c s. r = Inr (v, c, s) \<longrightarrow> v = 0)"

named_theorems zero

lemma returns_0_basic [zero]:
  "returns_0 (Inl e)" "returns_0 (Inr (0, c, s))" "returns_0 (ret0 s)" "returns_0 (say fmt args s)"
  "returns_0 (change g fmt s)" "returns_0 (set_uheap v fmt s)" "returns_0 (set_kheap v fmt s)"
  by (simp_all add: returns_0_def ret0_def say_def change_def set_uheap_def set_kheap_def)

lemma returns_0_andthen [zero]: "(\<And>x. returns_0 (f x)) \<Longrightarrow> returns_0 (andthen r f)"
  by (cases r) (simp_all add: zero)

lemma returns_0_if [zero]: "returns_0 a \<Longrightarrow> returns_0 b \<Longrightarrow> returns_0 (if P then a else b)"
  by simp

lemma returns_0_option [zero]:
  "returns_0 a \<Longrightarrow> (\<And>x. returns_0 (f x)) \<Longrightarrow> returns_0 (case r of None \<Rightarrow> a | Some x \<Rightarrow> f x)"
  by (cases r) simp_all

lemma returns_0_prod [zero]: "(\<And>x y. returns_0 (f x y)) \<Longrightarrow> returns_0 (case r of (x, y) \<Rightarrow> f x y)"
  by (cases r) simp

lemma returns_0_let [zero]: "(\<And>x. returns_0 (f x)) \<Longrightarrow> returns_0 (let x = r in f x)"
  by simp

lemma returns_0_parts [zero]:
  "returns_0 (on_kmem g s)" "returns_0 (on_scheduler k s)" "returns_0 (run_test h nm s)"
  "returns_0 (modified_buffer v fmt s)" "returns_0 (numbered_test h n err ts s)"
  "returns_0 (named_tests usage tests h m args s)"
  unfolding on_kmem_def on_scheduler_def run_test_def modified_buffer_def numbered_test_def named_tests_def
  by (intro zero)+

lemmas simple_commands =
  command_kernel_base_info_def command_del_kernel_base_def command_share_page_def command_show_mapping_def
  command_set_permission_def command_share_range_def command_nr_def command_asp_def command_cfp_def
  command_ft_def command_ap_def command_fp_def command_kill_program_def command_run_all_def command_kill_all_def
  command_set_page_rep_nthCLOCK_def command_set_page_rep_CLOCK_def command_set_page_rep_FIFO_def
  command_set_page_rep_ModifiedCLOCK_def command_set_uheap_plac_FIRSTFIT_def
  command_set_uheap_plac_BESTFIT_def command_set_uheap_plac_NEXTFIT_def command_set_uheap_plac_WORSTFIT_def
  command_set_kheap_plac_CONTALLOC_def command_set_kheap_plac_FIRSTFIT_def command_set_kheap_plac_BESTFIT_def
  command_set_kheap_plac_NEXTFIT_def command_set_kheap_plac_WORSTFIT_def command_disable_modified_buffer_def
  command_enable_modified_buffer_def command_disable_buffering_def test_command_def command_test_lists_def
  command_test_kheap_phys_addr_def command_test_kheap_virt_addr_def command_test_three_creation_functions_def
  command_test_kfreeall_def command_test_kexpand_def command_test_kshrink_def
  command_test_kfreelast_def command_test_priority1_def command_test_priority2_def
  command_test_autocomplete_def
  command_test_chunks_def command_test_paging_manipulation_def

lemmas branching_commands =
  command_help_def command_kernel_info_def command_writeusermem_def command_readusermem_def
  command_writemem_k_def command_readmem_k_def command_readuserblock_def command_remove_table_def
  command_allocuserpage_def command_meminfo_def command_run_program_def commnad_load_env_def
  command_print_all_def command_set_page_rep_LRU_def command_print_page_rep_def command_sch_RR_def
  command_sch_MLFQ_def command_print_sch_method_def command_sch_test_def command_print_uheap_plac_def
  command_print_kheap_plac_def command_enable_buffering_def command_set_modified_buffer_length_def
  command_get_modified_buffer_length_def command_test_kmalloc_def command_test_kfree_def
  command_test_krealloc_def command_test_sc_MLFQ_def command_test_kheap_def

lemma commands_return_0: "f \<in> set command_functions \<Longrightarrow> returns_0 (f h m args s)"
proof -
  have "\<forall>f\<in>set command_functions. returns_0 (f h m args s)"
    unfolding command_functions_def list.set ball_simps simple_commands branching_commands
    by (intro conjI zero TrueI)
  then show "f \<in> set command_functions \<Longrightarrow> returns_0 (f h m args s)" ..
qed

lemma execute_returns_0: "execute_command h ws line m s = Some r \<Longrightarrow> returns_0 r"
proof -
  assume e: "execute_command h ws line m s = Some r"
  then obtain ok args m' where sp: "strsplit line ws m = Some (ok, args, m')"
    by (auto simp: execute_command_def)
  have "f \<in> set command_functions" if "(n, f) \<in> set cs" "cs = commands" for n f cs
    using that set_zip_rightD by (fastforce simp: commands_def)
  then have "find_command m' p cs = Some f \<Longrightarrow> set cs \<subseteq> set commands \<Longrightarrow> f \<in> set command_functions" for p f cs
    by (induction cs) (auto split: if_splits)
  then have "find_command m' (args ! 0) commands = Some f \<Longrightarrow> returns_0 (f h m' args s)" for f
    using commands_return_0 by blast
  then show "returns_0 r"
    using e by (auto simp: execute_command_def sp intro!: zero split: if_splits option.splits)
qed

lemma line_runs:
  assumes "typed_line m line xs ws" and "line_words xs = encode n # rest" and "(n, f) \<in> set commands"
  shows "\<exists>args m'. execute_command h ws line m s = Some (f h m' args s) \<and>
     length args = min 15 (length (line_words xs)) \<and> (\<forall>i<length args. cstr m' (args ! i) (line_words xs ! i))"
proof -
  obtain ok args m' where sp: "strsplit line ws m = Some (ok, args, m')"
    and len: "length args = min 15 (length (line_words xs))"
    and str: "\<forall>i<length args. cstr m' (args ! i) (line_words xs ! i)"
    using split_line [OF assms(1)] by blast
  have "args \<noteq> []" "cstr m' (args ! 0) (encode n)"
    using len str assms(2) by auto
  then have "execute_command h ws line m s = Some (f h m' args s)"
    by (simp add: execute_command_def sp find_command_listed [OF _ assms(3)])
  then show ?thesis
    using len str by blast
qed

section \<open>Bytes written and read back\<close>

lemma put_mmem_simps [simp]:
  "mmem (put_mmem k s) = k" "mout (put_mmem k s) = mout s" "put_mmem k (put_mmem k' s) = put_mmem k s"
  "put_mmem k (cprintf fmt a s) = cprintf fmt a (put_mmem k s)" "mmem (cprintf fmt a s) = mmem s"
  by (simp_all add: mmem_def put_mmem_def put_mkern_def mkern_def put_kmem_def set_mem_def lvm_def
      on_kernel_def kvm_def put_kvm_def put_sched_def ksched_def cprintf_def)

lemma etab_put_mmem:
  "tenv (ketab (mkern (put_mmem k s))) n = tenv (ketab (mkern s)) n"
  "curenv (esched (ketab (mkern (put_mmem k s)))) = curenv (esched (ketab (mkern s)))"
  by (simp_all add: put_mmem_def put_mkern_def mkern_def put_kmem_def set_mem_def
      on_kernel_def put_kvm_def put_sched_def ksched_def kvm_def tenv_def env_of_def)

lemma env_arg_put_mmem [simp]: "env_arg m args i (put_mmem k s) = env_arg m args i s"
proof -
  have "envid2env x False (ketab (mkern (put_mmem k s))) = envid2env x False (ketab (mkern s))" for x
    by (simp add: envid2env_def Let_def etab_put_mmem)
  then show ?thesis
    by (simp only: env_arg_def)
qed

lemma accessed_bits:
  assumes "bits = PERM_USED \<or> bits = PERM_USED OR PERM_MODIFIED"
  shows "(e OR bits) AND PERM_PRESENT = e AND PERM_PRESENT" "EXTRACT_ADDRESS (e OR bits) = EXTRACT_ADDRESS e"
    "PPN (e OR bits) = PPN e"
proof -
  show "(e OR bits) AND PERM_PRESENT = e AND PERM_PRESENT" "EXTRACT_ADDRESS (e OR bits) = EXTRACT_ADDRESS e"
    using assms by (auto simp: perm_defs EXTRACT_ADDRESS_def word_ao_dist)
  show "PPN (e OR bits) = PPN e"
    using assms by (intro PPN_or_perm) (auto simp: perm_defs)
qed

lemma page_frame_touched:
  assumes "touch dir va bits k = Inr k'" and "page_frame dir va k = Inr f"
    and "bits = PERM_USED \<or> bits = PERM_USED OR PERM_MODIFIED"
  shows "page_frame dir va k' = Inr f"
proof -
  note b = accessed_bits [OF assms(3)]
  obtain ret p where p: "get_page_table dir va k = Inr (ret, p)" "p \<noteq> 0"
    and k': "k' = set_entry p (PTX va) (tables k p (PTX va) OR bits) k"
    using assms(1) by (auto simp: touch_def split: if_splits)
  obtain pde where pde: "table_read dir (PDX va) k = Inr pde" "pde AND PERM_PRESENT = PERM_PRESENT"
    "table_address va pde k = Inr p"
    using p by (auto simp: get_page_table_def split: if_splits)
  have "table_read dir (PDX va) k' = Inr pde \<or> table_read dir (PDX va) k' = Inr (pde OR bits)"
    using pde(1) by (auto simp: k' table_read_def set_entry_def split: if_splits)
  moreover have "table_address va (pde OR bits) k = table_address va pde k"
    by (simp add: table_address_def b)
  moreover have "table_address va x k' = table_address va x k" for x
    by (simp add: k' table_address_def set_entry_def kheap_virtual_address_def to_frame_info_def
        STATIC_KERNEL_VIRTUAL_ADDRESS_def)
  ultimately have "get_page_table dir va k' = Inr (TABLE_IN_MEMORY, p)"
    using pde b(1) [of pde] by (auto simp: get_page_table_def)
  then show ?thesis
    using assms(2) p b by (auto simp: page_frame_def k' set_entry_def Let_def split: if_splits)
qed

text \<open>A byte that was stored is the byte that is loaded.\<close>

lemma load_after_store:
  assumes "store_byte dir va b k = Inr k'"
  shows "\<exists>k''. load_byte dir va k' = Inr (b, k'')"
proof -
  obtain f where f: "page_frame dir va k = Inr f"
    and t: "touch dir va (PERM_USED OR PERM_MODIFIED) (k\<lparr>ram := (ram k)(f := (ram k f)(unat (PGOFF va) := b))\<rparr>) = Inr k'"
    using assms by (auto simp: store_byte_def)
  have f': "page_frame dir va (k\<lparr>ram := r\<rparr>) = Inr f" for r
  proof -
    have "get_page_table dir va (k\<lparr>ram := r\<rparr>) = get_page_table dir va k"
      by (simp add: get_page_table_def table_read_def table_address_def kheap_virtual_address_def
          to_frame_info_def STATIC_KERNEL_VIRTUAL_ADDRESS_def cong: andthen_cong)
    then show ?thesis
      using f by (auto simp: page_frame_def split: if_splits)
  qed
  have pf: "page_frame dir va k' = Inr f"
    by (rule page_frame_touched [OF t f']) simp
  then obtain k'' where t2: "touch dir va PERM_USED k' = Inr k''"
    by (auto simp: touch_def page_frame_def split: if_splits)
  have "ram k' f (unat (PGOFF va)) = b"
    using t by (auto simp: touch_def set_entry_def split: if_splits)
  moreover have "ram k'' = ram k'"
    using t2 by (auto simp: touch_def set_entry_def split: if_splits)
  ultimately show ?thesis
    using pf t2 by (simp add: load_byte_def)
qed

lemma directories_store_byte:
  "store_byte dir va b k = Inr k' \<Longrightarrow>
   ptr_page_directory k' = ptr_page_directory k \<and> env_page_directory k' = env_page_directory k"
  by (auto simp: store_byte_def touch_def set_entry_def split: if_splits)

lemma show_after_store:
  assumes "store_byte dir va b k = Inr k'"
  shows "\<exists>s''. show_byte fmt dir va (put_mmem k' s) = Inr s'' \<and> mout s'' = mout s @ [(fmt, [PNum va, PNum (ucast b)])]"
proof -
  obtain k'' where "load_byte dir va k' = Inr (b, k'')"
    using load_after_store [OF assms] by blast
  then show ?thesis
    by (simp add: show_byte_def) (simp add: cprintf_def)
qed

lemma num_arg_take: "i < k \<Longrightarrow> num_arg m (take k args) i b = num_arg m args i b"
  by (simp add: num_arg_def arg_def)

lemma env_arg_take: "i < k \<Longrightarrow> env_arg m (take k args) i s = env_arg m args i s"
  by (simp only: env_arg_def num_arg_take)

section \<open>Example\<close>

text \<open>
  A stopped scheduler without environments, a line typed at \<open>0x100\<close> with the separators at \<open>0x800\<close>, and
  a page mapped at address 0.
\<close>

definition host_example :: host where
  "host_example = \<lparr>h_progs = [], h_desc = (\<lambda>n. []), h_cnt = (0, 0), h_test = (\<lambda>n s. Inr s), h_typed = (\<lambda>a. 0),
     h_symbols = (0, 0, 0, 0), h_behind = (\<lambda>n j. 97)\<rparr>"

definition monitor_base :: monitor where
  "monitor_base = \<lparr>mload = loader_example, mout = [], numOfKheapVACalls = 0, chkstatus = 0\<rparr>"

definition idle_sched :: sched where
  "idle_sched = sched_example\<lparr>env_new_queue := [], env_ready_queues := [[]], curenv := None,
     scheduler_status := SCH_STOPPED, scheduler_method := 7\<rparr>"

definition monitor_example :: monitor where
  "monitor_example = put_mmem (kmem_example\<lparr>tables :=
       (\<lambda>p i. if p = 0xF0100000 \<and> i = 0 then 0x14007 else if p = 0xF6001000 \<and> i = 0 then 0x1E007 else 0)\<rparr>)
     (put_mkern (put_sched idle_sched (mkern monitor_base)) monitor_base)"

definition line_mem :: "u8 list \<Rightarrow> bytes" where
  "line_mem xs a =
     (let i = unat a in
      if 0x100 \<le> i \<and> i < 0x100 + length xs then xs ! (i - 0x100)
      else if 0x800 \<le> i \<and> i < 0x804 then WHITESPACE ! (i - 0x800) else 0)"

lemma command_at:
  "i < length command_names \<Longrightarrow> (fst (command_names ! i), command_functions ! i) \<in> set commands"
  using command_table(1) by (auto simp: commands_def in_set_zip intro: exI [of _ i])

lemma listed_examples:
  "(''runall'', command_run_all) \<in> set commands" "(''rum'', command_readusermem) \<in> set commands"
proof -
  have "command_names ! 29 = (''runall'', ''run all loaded programs'')"
    "command_names ! 17 = (''rum'', ''reads one byte from specific location in given environment'')"
    "length command_names = 73"
    unfolding command_names_def by simp_all
  moreover have "command_functions ! 29 = command_run_all" "command_functions ! 17 = command_readusermem"
    unfolding command_functions_def by simp_all
  ultimately show "(''runall'', command_run_all) \<in> set commands" "(''rum'', command_readusermem) \<in> set commands"
    using command_at [of 29] command_at [of 17] by simp_all
qed

lemma typed_line_mem:
  assumes "0 \<notin> set xs" "length xs < 1024"
  shows "typed_line (line_mem xs) 0x100 xs 0x800"
proof -
  have u: "unat (0x100 + of_nat i :: u32) = 0x100 + i" "unat (0x800 + of_nat i :: u32) = 0x800 + i"
    if "i \<le> 1024" for i
    using that by (simp_all add: unat_word_ariths take_bit_nat_eq_self unat_of_nat)
  have "xs ! i \<noteq> 0" if "i < length xs" for i
    using assms(1) that by (metis nth_mem)
  then have "cstr (line_mem xs) 0x100 xs"
    using assms u by (intro cstrI) (auto simp: line_mem_def Let_def)
  moreover have "cstr (line_mem xs) 0x800 WHITESPACE"
    using u assms(2) by (intro cstrI) (auto simp: line_mem_def Let_def WHITESPACE_def nth_Cons split: nat.split)
  moreover have "0x800 + of_nat i \<noteq> (0 :: u32)" if "i < 4" for i
    using u(2) [of i] that by auto
  moreover have "0x100 + of_nat i \<noteq> (0x800 + of_nat j :: u32)" if "i < length xs" "j < 5" for i j
    using u(1) [of i] u(2) [of j] that assms(2) by (auto dest: arg_cong [where f = unat])
  ultimately show ?thesis
    using assms(2) by (auto simp: typed_line_def seps_at_def apart_def WHITESPACE_def)
qed

lemma idle_run_all:
  "\<exists>s'. on_scheduler (sched_run_all (0, 0)) (monitor_example\<lparr>numOfKheapVACalls := 0\<rparr>) = Inr (0, Prompt, s')"
  by (simp add: on_scheduler_def on_sched_def sched_run_all_def start_if_stopped_def monitor_example_def put_mmem_def
      put_mkern_def mkern_def put_kmem_def put_kvm_def kvm_def put_sched_def ksched_def on_kernel_def set_mem_def
      idle_sched_def fos_scheduler_def Let_def SCH_RR_def SCH_MLFQ_def)

text \<open>The prompt never ends by a return value: every command of the table returns 0, so the loop of
  \<^verbatim>\<open>run_command_prompt\<close> is left only by a command that does not come back (it starts an
  environment) or by a panic.\<close>

theorem prompt_never_exits:
  assumes "run_command_prompt h ws line ms s = Some (Inr (v, c, s'))"
  shows "v = 0 \<and> c \<noteq> Returned"
  using assms
proof (induction ms arbitrary: s)
  case (Cons m ms)
  then obtain r where r: "execute_command h ws line m s = Some r"
    by (auto simp: Option.bind_eq_Some_conv)
  note zero = execute_returns_0 [OF r, unfolded returns_0_def]
  show ?case
    using Cons r zero by (cases r) (auto split: prod.splits if_splits)
qed simp

theorem prompt_never_exits_witness:
  "\<exists>v c s'. run_command_prompt host_example 0x800 0x100 [line_mem (encode ''runall'')] monitor_example =
     Some (Inr (v, c, s')) \<and> v = 0 \<and> c \<noteq> Returned"
proof -
  have "typed_line (line_mem (encode ''runall'')) 0x100 (encode ''runall'') 0x800"
    by (rule typed_line_mem) (simp_all add: encode_def)
  moreover have "line_words (encode ''runall'') = encode ''runall'' # []"
    by (simp add: line_words_def encode_def tokens.simps WHITESPACE_def Let_def)
  moreover note listed_examples(1)
  ultimately obtain args m' where "execute_command host_example 0x800 0x100 (line_mem (encode ''runall'')) monitor_example =
      Some (command_run_all host_example m' args monitor_example)"
    using line_runs by blast
  then obtain s' where r: "run_command_prompt host_example 0x800 0x100 [line_mem (encode ''runall'')] monitor_example =
      Some (Inr (0, Prompt, s'))"
    using idle_run_all by (auto simp: command_run_all_def host_example_def)
  show ?thesis
    using r prompt_never_exits [OF r] by blast
qed

text \<open>C29: A line whose first word is the name of a command runs that command, with the first 15 words of the
  line as terminated strings: the table has one entry for each name and every entry can be reached.\<close>

theorem line_runs_command:
  assumes "typed_line m line xs ws" and "line_words xs = encode n # rest" and "(n, f) \<in> set commands"
  shows "\<exists>args m'. execute_command h ws line m s = Some (f h m' args s) \<and>
     length args = min 15 (length (line_words xs)) \<and> (\<forall>i<length args. cstr m' (args ! i) (line_words xs ! i))"
  by (rule line_runs [OF assms])

theorem line_runs_command_witness:
  "\<exists>args m'. execute_command host_example 0x800 0x100 (line_mem (encode ''rum 5'')) monitor_example =
     Some (command_readusermem host_example m' args monitor_example) \<and> length args = 2 \<and> cstr m' (args ! 1) (encode ''5'')"
proof -
  have "typed_line (line_mem (encode ''rum 5'')) 0x100 (encode ''rum 5'') 0x800"
    by (rule typed_line_mem) (simp_all add: encode_def)
  moreover have w: "line_words (encode ''rum 5'') = encode ''rum'' # [encode ''5'']"
    by (simp add: line_words_def encode_def tokens.simps WHITESPACE_def Let_def)
  moreover note listed_examples(2)
  ultimately have "\<exists>args m'. execute_command host_example 0x800 0x100 (line_mem (encode ''rum 5'')) monitor_example =
      Some (command_readusermem host_example m' args monitor_example) \<and>
      length args = min 15 (length (line_words (encode ''rum 5''))) \<and>
      (\<forall>i<length args. cstr m' (args ! i) (line_words (encode ''rum 5'') ! i))"
    by (rule line_runs_command)
  then obtain args m' where "execute_command host_example 0x800 0x100 (line_mem (encode ''rum 5'')) monitor_example =
      Some (command_readusermem host_example m' args monitor_example)"
    "length args = 2" "\<forall>i<2. cstr m' (args ! i) (line_words (encode ''rum 5'') ! i)"
    by (auto simp: w)
  moreover from this have "cstr m' (args ! 1) (line_words (encode ''rum 5'') ! 1)"
    by simp
  ultimately show ?thesis
    by (intro exI [of _ args] exI [of _ m']) (simp add: w)
qed

text \<open>A line whose first word is not the name of a command completes it: the names it is a prefix of are
  printed in the order of the table, or that the command is unknown when there is none, whatever lies in
  memory behind the names.\<close>

theorem completion_lists_prefixes:
  assumes "typed_line m line xs ws" and "line_words xs = w # rest" and "w \<notin> encode ` fst ` set command_names"
  shows "execute_command h ws line m s = Some (Inr (0, Returned, s\<lparr>mout := mout s @ completions w\<rparr>))"
proof -
  obtain ok args m' where sp: "strsplit line ws m = Some (ok, args, m')"
    and len: "length args = min 15 (length (line_words xs))"
    and str: "\<forall>i<length args. cstr m' (args ! i) (line_words xs ! i)"
    using split_line [OF assms(1)] by blast
  have a: "args \<noteq> []" "cstr m' (args ! 0) w"
    using len str assms(2) by auto
  have "length w < 4294967296"
    using first_word_length [OF assms(2)] assms(1) by (simp add: typed_line_def)
  then show ?thesis
    using a(1) by (simp add: execute_command_def sp find_command_unlisted [OF a(2) assms(3)]
      complete_lists [OF a(2)] ret0_def)
qed

theorem completion_lists_prefixes_witness:
  "execute_command host_example 0x800 0x100 (line_mem (encode ''ru'')) monitor_example =
     Some (Inr (0, Returned, monitor_example\<lparr>mout := mout monitor_example @
       map (\<lambda>n. (''%s'', [PStr n])) [''run'', ''rum'', ''rub'', ''rut'', ''runall'']\<rparr>))"
proof -
  have "typed_line (line_mem (encode ''ru'')) 0x100 (encode ''ru'') 0x800"
    by (rule typed_line_mem) (simp_all add: encode_def)
  moreover have "line_words (encode ''ru'') = encode ''ru'' # []"
    by (simp add: line_words_def encode_def tokens.simps WHITESPACE_def Let_def)
  moreover have "encode ''ru'' \<notin> encode ` fst ` set command_names"
  proof -
    have "list_all (\<lambda>n. n \<noteq> ''ru'') (map fst command_names)"
      by code_simp
    then show ?thesis
      by (force simp: list_all_iff)
  qed
  moreover have "completions (encode ''ru'') = map (\<lambda>n. (''%s'', [PStr n])) [''run'', ''rum'', ''rub'', ''rut'', ''runall'']"
  proof -
    have "filter (prefix ''ru'') (map fst command_names) = [''run'', ''rum'', ''rub'', ''rut'', ''runall'']"
      by code_simp
    then show ?thesis
      by (simp only: completions_def prefix_encode) simp
  qed
  ultimately show ?thesis
    using completion_lists_prefixes by metis
qed

text \<open>C22: \<^verbatim>\<open>wum\<close> and \<^verbatim>\<open>rum\<close>: the byte that was written, in the memory of the kernel or in that of an
  environment, is the byte that is shown when the same address is read.\<close>

theorem written_byte_is_read:
  assumes "command_writeusermem h m args s = Inr (0, Returned, s')"
    and "length args = Suc k" "k = 2 \<or> k = 3" "num_arg m args (k - 1) 16 = Inr address"
    and "k = 3 \<longrightarrow> env_arg m args 1 s \<noteq> Inr None"
  shows "\<exists>s''. command_readusermem h m (take k args) s' = Inr (0, Returned, s'') \<and>
     mout s'' = mout s @ [(''value at address %x = %c'', [PNum address, PNum (ucast (m (args ! k)))])]"
proof -
  note defs = command_writeusermem_def command_readusermem_def on_kmem_def ret0_def char_arg0_def arg_def
  show ?thesis
  proof (cases "k = 2")
    case True
    then obtain k' where k': "store_byte (ptr_page_directory (mmem s)) address (m (args ! 2)) (mmem s) = Inr k'"
      "s' = put_mmem k' s"
      using assms(1,2,4) by (auto simp: defs)
    show ?thesis
      using show_after_store [OF k'(1), of "''value at address %x = %c''" s] directories_store_byte [OF k'(1)]
        assms(2,4) True k'(2) by (auto simp: defs num_arg_take Let_def)
  next
    case False
    then have k: "k = 3"
      using assms(3) by simp
    then obtain e k' where e: "env_arg m args 1 s = Inr (Some e)"
      and k': "store_byte (env_page_directory (mmem s) e) address (m (args ! 3)) (mmem s) = Inr k'"
      "s' = put_mmem k' s"
      using assms(1,2,4,5) by (auto simp: defs split: option.splits)
    show ?thesis
      using show_after_store [OF k'(1), of "''value at address %x = %c''" s] directories_store_byte [OF k'(1)]
        assms(2,4) k k'(2) e by (auto simp: defs num_arg_take env_arg_take Let_def)
  qed
qed

theorem written_byte_is_read_witness:
  "\<exists>m s' s''. command_writeusermem host_example m [0x100, 0x110, 0x120] monitor_example = Inr (0, Returned, s') \<and>
     command_readusermem host_example m [0x100, 0x110] s' = Inr (0, Returned, s'') \<and>
     mout s'' = [(''value at address %x = %c'', [PNum 5, PNum 0x41])]"
proof -
  let ?m = "\<lambda>a :: u32. if a = 0x110 then 0x35 else if a = 0x120 then 0x41 else (0 :: u8)"
  have n: "num_arg ?m [0x100, 0x110, 0x120] (2 - 1) 16 = Inr 5"
    by (simp add: num_arg_def arg_def num_at_def strtol_def skip_blanks.simps strtol_digits.simps digit_of_def)
  obtain s' where w: "command_writeusermem host_example ?m [0x100, 0x110, 0x120] monitor_example = Inr (0, Returned, s')"
  proof -
    obtain k where "store_byte 0xF0100000 5 0x41 (mmem monitor_example) = Inr k"
      by (simp add: monitor_example_def store_byte_def page_frame_def touch_def get_page_table_def table_read_def
          table_address_def kheap_virtual_address_def to_frame_info_def kmem_example_def perm_defs addr_defs
          CHECK_IF_KERNEL_ADDRESS_def layout_defs)
    moreover have "ptr_page_directory (mmem monitor_example) = 0xF0100000"
      by (simp add: monitor_example_def kmem_example_def)
    ultimately show thesis
      using n that by (simp add: command_writeusermem_def char_arg0_def arg_def on_kmem_def ret0_def)
  qed
  have "mout monitor_example = []"
    by (simp add: monitor_example_def put_mkern_def monitor_base_def)
  then obtain s'' where "command_readusermem host_example ?m [0x100, 0x110] s' = Inr (0, Returned, s'')"
    "mout s'' = [(''value at address %x = %c'', [PNum 5, PNum 0x41])]"
    using written_byte_is_read [OF w _ _ n] by auto
  then show ?thesis
    using w by blast
qed

end
