(* ===== verification/Boot_Mem.thy ===== *)
theory Boot_Mem
  imports Env_Table
begin

text \<open>
  The address space of the kernel, built while paging is off: \<^verbatim>\<open>kern/mem/boot_memory_manager.c\<close>, the
  NVRAM reads of \<^verbatim>\<open>kern/cpu/kclock.c\<close> it measures memory with, and the check
  \<^verbatim>\<open>check_boot_pgdir\<close> of \<^verbatim>\<open>kern/tests/utilities.c\<close> that it ends with. The page tables
  are those of \<open>kmem\<close>; their first contents are whatever is in memory.
\<close>

section \<open>The size of memory\<close>

text \<open>\<open>cmos\<close> is what the clock chip holds: the port is written with the number and then read.\<close>

definition mc146818_read :: "(u8 \<Rightarrow> u8) \<Rightarrow> u32 \<Rightarrow> u32" where
  "mc146818_read cmos reg = ucast (cmos (ucast reg))"

definition mc146818_write :: "u32 \<Rightarrow> u32 \<Rightarrow> (u8 \<Rightarrow> u8) \<Rightarrow> (u8 \<Rightarrow> u8)" where
  "mc146818_write reg datum cmos = cmos(ucast reg := ucast datum)"

definition NVRAM_BASELO :: u32 where "NVRAM_BASELO = 0x15"
definition NVRAM_EXTLO :: u32 where "NVRAM_EXTLO = 0x17"

definition nvram_read :: "(u8 \<Rightarrow> u8) \<Rightarrow> u32 \<Rightarrow> u32" where
  "nvram_read cmos r = mc146818_read cmos r OR push_bit 8 (mc146818_read cmos (r + 1))"

record boot =
  bvm :: vm
  ptr_free_mem :: u32
  phys_page_directory :: u32
  frames_info :: u32
  disk_frames_info :: u32
  envs :: u32
  memory_scarce_threshold_percentage :: u32
  boot_cr0 :: u32
  boot_cr3 :: u32

definition bkm :: "boot \<Rightarrow> kmem" where "bkm s = vmem (bvm s)"

definition put_bkm :: "kmem \<Rightarrow> boot \<Rightarrow> boot" where
  "put_bkm k s = s\<lparr>bvm := (bvm s)\<lparr>vmem := k\<rparr>\<rparr>"

definition boot_dir :: "boot \<Rightarrow> u32" where "boot_dir s = ptr_page_directory (bkm s)"

definition max_pa :: "(u8 \<Rightarrow> u8) \<Rightarrow> u32" where
  "max_pa cmos =
     (let size_of_extended_mem = ROUNDDOWN (nvram_read cmos NVRAM_EXTLO * 1024) PAGE_SIZE;
          size_of_other_mem = ROUNDDOWN (nvram_read cmos 0x34 * 1024 * 64) PAGE_SIZE
      in if 0 < size_of_other_mem then size_of_other_mem + 16 * 1024 * 1024
         else if size_of_extended_mem \<noteq> 0 then PHYS_EXTENDED_MEM + size_of_extended_mem
         else size_of_extended_mem)"

definition detect_memory :: "(u8 \<Rightarrow> u8) \<Rightarrow> boot \<Rightarrow> boot" where
  "detect_memory cmos s = put_bkm ((bkm s)\<lparr>number_of_frames := unat (max_pa cmos div PAGE_SIZE)\<rparr>) s"

section \<open>Allocation and tables before paging\<close>

definition boot_allocate_space :: "u32 \<Rightarrow> u32 \<Rightarrow> u32 \<Rightarrow> boot \<Rightarrow> u32 \<times> boot" where
  "boot_allocate_space end_of_kernel sz align s =
     (let free = ROUNDUP (if ptr_free_mem s = 0 then end_of_kernel else ptr_free_mem s) align
      in (free, s\<lparr>ptr_free_mem := free + sz\<rparr>))"

definition boot_get_page_table :: "u32 \<Rightarrow> u32 \<Rightarrow> u32 \<Rightarrow> bool \<Rightarrow> boot \<Rightarrow> (u32 \<times> boot) result" where
  "boot_get_page_table end_of_kernel dir virtual_address create s =
     andthen (table_read dir (PDX virtual_address) (bkm s)) (\<lambda>page_directory_entry.
     let phys_page_table = EXTRACT_ADDRESS page_directory_entry in
     andthen (STATIC_KERNEL_VIRTUAL_ADDRESS phys_page_table (bkm s)) (\<lambda>ptr_page_table.
       if phys_page_table = 0 then
         (if create then
            (let (ptr_page_table, s) = boot_allocate_space end_of_kernel PAGE_SIZE PAGE_SIZE s in
             andthen (STATIC_KERNEL_PHYSICAL_ADDRESS ptr_page_table) (\<lambda>phys_page_table.
             andthen (table_write dir (PDX virtual_address)
                        (CONSTRUCT_ENTRY phys_page_table (PERM_PRESENT OR PERM_WRITEABLE)) (bkm s)) (\<lambda>k.
               Inr (ptr_page_table, put_bkm k s))))
          else Inr (0, s))
       else Inr (ptr_page_table, s)))"

definition boot_map_page :: "u32 \<Rightarrow> u32 \<Rightarrow> u32 \<Rightarrow> u32 \<times> u32 \<times> boot \<Rightarrow> (u32 \<times> u32 \<times> boot) result" where
  "boot_map_page end_of_kernel dir perm st =
     (let (virtual_address, physical_address, s) = st in
      andthen (boot_get_page_table end_of_kernel dir virtual_address True s) (\<lambda>(ptr_page_table, s).
      andthen (table_write ptr_page_table (PTX virtual_address)
                 (CONSTRUCT_ENTRY physical_address (perm OR PERM_PRESENT)) (bkm s)) (\<lambda>k.
        Inr (virtual_address + PAGE_SIZE, physical_address + PAGE_SIZE, put_bkm k s))))"

definition boot_map_range :: "u32 \<Rightarrow> u32 \<Rightarrow> u32 \<Rightarrow> u32 \<Rightarrow> u32 \<Rightarrow> u32 \<Rightarrow> boot \<Rightarrow> boot result" where
  "boot_map_range end_of_kernel dir virtual_address sz physical_address perm s =
     andthen (for_pages 0 sz (\<lambda>i. boot_map_page end_of_kernel dir perm)
                (virtual_address, physical_address, s)) (\<lambda>(_, _, s). Inr s)"

text \<open>The tables of the kernel's part, by a 64-bit address.\<close>

function boot_tables :: "u32 \<Rightarrow> u32 \<Rightarrow> u64 \<Rightarrow> boot \<Rightarrow> boot result" where
  "boot_tables end_of_kernel dir sva s =
     (if sva < 0xFFFFFFFF
      then andthen (boot_get_page_table end_of_kernel dir (ucast sva) True s)
             (\<lambda>(_, s). boot_tables end_of_kernel dir (sva + ucast PTSIZE) s)
      else Inr s)"
  by pat_completeness auto
termination
proof (relation "measure (\<lambda>(e, d, sva, s). 0x100400000 - unat sva)", goal_cases)
  case (2 e d sva s a b s')
  have "unat sva < 0xFFFFFFFF"
    using 2(1) by (simp add: word_less_nat_alt)
  then have "unat (sva + ucast PTSIZE) = unat sva + 4194304"
    by (simp add: unat_word_ariths PTSIZE_def)
  then show ?case
    using \<open>unat sva < 0xFFFFFFFF\<close> by simp
qed simp

declare boot_tables.simps [simp del]

section \<open>The arrays\<close>

definition sizeof_FrameInfo :: u32 where "sizeof_FrameInfo = 24"
definition DEFAULT_MEM_SCARCE_PERCENTAGE :: u32 where "DEFAULT_MEM_SCARCE_PERCENTAGE = 25"

definition clear_directory :: "u32 \<Rightarrow> boot \<Rightarrow> boot" where
  "clear_directory dir s = put_bkm ((bkm s)\<lparr>tables := (tables (bkm s))(dir := (\<lambda>_. 0))\<rparr>) s"

definition clear_frames :: "nat \<Rightarrow> boot \<Rightarrow> boot" where
  "clear_frames n s =
     (let k = bkm s in
      put_bkm (k\<lparr>references := (\<lambda>f. if f < n then 0 else references k f),
        frame_va := (\<lambda>f. if f < n then 0 else frame_va k f),
        frame_environment := (\<lambda>f. if f < n then None else frame_environment k f),
        isBuffered := (\<lambda>f. if f < n then 0 else isBuffered k f)\<rparr>) s)"

definition clear_envs :: "nat \<Rightarrow> boot \<Rightarrow> boot" where
  "clear_envs n s =
     s\<lparr>bvm := (bvm s)\<lparr>
         venv := (\<lambda>e. if e < n then zero_env else venv (bvm s) e),
         vmem := (bkm s)\<lparr>env_page_directory := (\<lambda>e. if e < n then 0 else env_page_directory (bkm s) e)\<rparr>\<rparr>\<rparr>"

definition setup_listing_to_all_page_tables_entries :: "boot \<Rightarrow> boot result" where
  "setup_listing_to_all_page_tables_entries s =
     andthen (STATIC_KERNEL_PHYSICAL_ADDRESS (boot_dir s)) (\<lambda>phys.
     andthen (table_write (boot_dir s) (PDX VPT) (CONSTRUCT_ENTRY phys (PERM_PRESENT OR PERM_WRITEABLE)) (bkm s)) (\<lambda>k.
     andthen (table_write (boot_dir s) (PDX UVPT) (phys OR PERM_USER OR PERM_PRESENT) k) (\<lambda>k.
       Inr (put_bkm k s))))"

section \<open>The check of the directory\<close>

definition check_va2pa :: "u32 \<Rightarrow> u32 \<Rightarrow> kmem \<Rightarrow> u32 result" where
  "check_va2pa dir va k =
     andthen (table_read dir (PDX va) k) (\<lambda>dirEntry.
       if dirEntry AND PERM_PRESENT = 0 then Inr (NOT 0)
       else
         andthen (STATIC_KERNEL_VIRTUAL_ADDRESS (EXTRACT_ADDRESS dirEntry) k) (\<lambda>p.
         andthen (table_read p (PTX va) k) (\<lambda>e.
           if e AND PERM_PRESENT = 0 then Inr (NOT 0) else Inr (EXTRACT_ADDRESS e))))"

definition assert_that :: "bool \<Rightarrow> unit result" where
  "assert_that b = (if b then Inr () else Inl Panic)"

definition assert_pa :: "u32 \<Rightarrow> u32 \<Rightarrow> u32 \<Rightarrow> kmem \<Rightarrow> unit result" where
  "assert_pa dir va pa k = andthen (check_va2pa dir va k) (\<lambda>x. assert_that (x = pa))"

definition assert_pde :: "u32 \<Rightarrow> kmem \<Rightarrow> nat \<Rightarrow> unit result" where
  "assert_pde dir k i =
     andthen (table_read dir (of_nat i) k) (\<lambda>e.
       assert_that
         (if of_nat i \<in> {PDX VPT, PDX UVPT, PDX (KERNEL_STACK_TOP - 1), PDX UENVS} then e \<noteq> 0
          else if unat (PDX KERNEL_BASE) \<le> i then e \<noteq> 0 else e = 0))"

definition check_boot_pgdir :: "u32 \<Rightarrow> boot \<Rightarrow> unit result" where
  "check_boot_pgdir ptr_stack_bottom s =
     (let dir = boot_dir s; k = bkm s in
      andthen (for_pages KERNEL_BASE (ptr_free_mem s) (\<lambda>va _. assert_pa dir va (va - KERNEL_BASE) k) ()) (\<lambda>_.
      andthen (for_pages 0 KERNEL_STACK_SIZE (\<lambda>i _.
        andthen (STATIC_KERNEL_PHYSICAL_ADDRESS ptr_stack_bottom) (\<lambda>pa.
          assert_pa dir (KERNEL_STACK_TOP - KERNEL_STACK_SIZE + i) (pa + i) k)) ()) (\<lambda>_.
      for_each (\<lambda>i _. assert_pde dir k i) [0..<1024] ())))"

section \<open>Turning on paging\<close>

text \<open>The number of directory entries that are copied down: those of the tables below the one of \<open>free\<close>.\<close>

definition low_entries :: "u32 \<Rightarrow> nat" where
  "low_entries free = unat (PDX free) - unat (PDX KERNEL_BASE)"

definition map_low :: "boot \<Rightarrow> boot" where
  "map_low s = put_bkm (fold (\<lambda>j k. set_entry (boot_dir s) (of_nat j)
       (tables k (boot_dir s) (PDX KERNEL_BASE + of_nat j)) k) [0..<low_entries (ptr_free_mem s)] (bkm s)) s"

definition unmap_low :: "boot \<Rightarrow> boot" where
  "unmap_low s = put_bkm (fold (\<lambda>j. set_entry (boot_dir s) (of_nat j) 0) [0..<low_entries (ptr_free_mem s)] (bkm s)) s"

definition CR0_PE :: u32 where "CR0_PE = 0x00000001"
definition CR0_MP :: u32 where "CR0_MP = 0x00000002"
definition CR0_EM :: u32 where "CR0_EM = 0x00000004"
definition CR0_TS :: u32 where "CR0_TS = 0x00000008"
definition CR0_NE :: u32 where "CR0_NE = 0x00000020"
definition CR0_WP :: u32 where "CR0_WP = 0x00010000"
definition CR0_AM :: u32 where "CR0_AM = 0x00040000"
definition CR0_PG :: u32 where "CR0_PG = 0x80000000"

definition paging_cr0 :: "u32 \<Rightarrow> u32" where
  "paging_cr0 cr0 =
     (cr0 OR (CR0_PE OR CR0_PG OR CR0_AM OR CR0_WP OR CR0_NE OR CR0_TS OR CR0_EM OR CR0_MP)) AND NOT (CR0_TS OR CR0_EM)"

text \<open>The state in which the segments are still the old ones and paging is on.\<close>

definition paging_on :: "boot \<Rightarrow> boot" where
  "paging_on s = (map_low s)\<lparr>boot_cr3 := phys_page_directory s, boot_cr0 := paging_cr0 (boot_cr0 s)\<rparr>"

definition turn_on_paging :: "boot \<Rightarrow> boot" where
  "turn_on_paging s = (unmap_low (paging_on s))\<lparr>boot_cr3 := phys_page_directory s\<rparr>"

section \<open>The kernel's address space\<close>

definition map_envs :: "u32 \<Rightarrow> boot \<Rightarrow> boot result" where
  "map_envs end_of_kernel s =
     (let envs_size = of_nat NENV * sizeof_Env;
          (p, s) = boot_allocate_space end_of_kernel envs_size PAGE_SIZE s;
          s = clear_envs NENV (s\<lparr>envs := p\<rparr>);
          dir = boot_dir s in
      andthen (STATIC_KERNEL_PHYSICAL_ADDRESS p) (\<lambda>pa.
      andthen (boot_map_range end_of_kernel dir UENVS envs_size pa PERM_USER s) (\<lambda>s.
      andthen (table_read dir (PDX UENVS) (bkm s)) (\<lambda>e.
      andthen (table_write dir (PDX UENVS) (e OR (PERM_USER OR (PERM_PRESENT AND NOT PERM_WRITEABLE))) (bkm s)) (\<lambda>k.
        Inr (put_bkm k s))))))"

definition boot_arrays :: "u32 \<Rightarrow> boot \<Rightarrow> boot" where
  "boot_arrays end_of_kernel s =
     (let array_size = of_nat (number_of_frames (bkm s)) * sizeof_FrameInfo;
          (p, s) = boot_allocate_space end_of_kernel array_size PAGE_SIZE s;
          s = clear_frames (unat (array_size div sizeof_FrameInfo)) (s\<lparr>frames_info := p\<rparr>);
          disk_array_size = of_nat PAGES_PER_FILE * sizeof_FrameInfo;
          (p, s) = boot_allocate_space end_of_kernel disk_array_size PAGE_SIZE s
      in s\<lparr>disk_frames_info := p\<rparr>)"

definition initialize_kernel_VM :: "u32 \<Rightarrow> u32 \<Rightarrow> boot \<Rightarrow> boot result" where
  "initialize_kernel_VM end_of_kernel ptr_stack_bottom s =
     (let (dir, s) = boot_allocate_space end_of_kernel PAGE_SIZE PAGE_SIZE s;
          s = clear_directory dir (put_bkm ((bkm s)\<lparr>ptr_page_directory := dir\<rparr>) s) in
      andthen (STATIC_KERNEL_PHYSICAL_ADDRESS dir) (\<lambda>pa.
      let s = s\<lparr>phys_page_directory := pa\<rparr> in
      andthen (STATIC_KERNEL_PHYSICAL_ADDRESS ptr_stack_bottom) (\<lambda>pa.
      andthen (boot_map_range end_of_kernel dir (KERNEL_STACK_TOP - KERNEL_STACK_SIZE) KERNEL_STACK_SIZE pa
                 PERM_WRITEABLE s) (\<lambda>s.
      andthen (boot_tables end_of_kernel dir (ucast KERNEL_BASE) s) (\<lambda>s.
      andthen (setup_listing_to_all_page_tables_entries (boot_arrays end_of_kernel s)) (\<lambda>s.
      andthen (map_envs end_of_kernel s) (\<lambda>s.
      andthen (boot_map_range end_of_kernel dir KERNEL_BASE (ptr_free_mem s - KERNEL_BASE) 0 PERM_WRITEABLE s) (\<lambda>s.
      andthen (check_boot_pgdir ptr_stack_bottom s) (\<lambda>_.
        Inr (turn_on_paging (s\<lparr>memory_scarce_threshold_percentage := DEFAULT_MEM_SCARCE_PERCENTAGE\<rparr>)))))))))))"

section \<open>Entries and pages\<close>

lemma aligned_frame:
  assumes "4096 dvd unat a"
  shows "to_physical_address (unat a div 4096) = a" and "unat a div 4096 < 1048576"
proof -
  show "unat a div 4096 < 1048576"
    using unat_lt_2p32 [of a] by (intro less_mult_imp_div_less) linarith
  have "drop_bit 12 a = of_nat (unat a div 4096)"
  proof -
    have "unat (drop_bit 12 a) = unat a div 4096"
      using unat_drop_bit_u32 [of 12 a] by simp
    then have "of_nat (unat (drop_bit 12 a)) = (of_nat (unat a div 4096) :: u32)"
      by (simp only:)
    then show ?thesis
      by simp
  qed
  moreover have "push_bit 12 (drop_bit 12 a) = a"
  proof -
    have "unat (a AND mask 12) = 0"
      using assms by (simp add: unat_mask_and)
    then have "a AND mask 12 = 0"
      by (simp add: unat_eq_zero)
    then have "take_bit 12 a = 0"
      by (simp add: take_bit_eq_mask)
    then show ?thesis
      by (metis add.right_neutral bits_ident)
  qed
  ultimately show "to_physical_address (unat a div 4096) = a"
    by (simp add: to_physical_address_def)
qed

lemma aligned_entry:
  assumes "4096 dvd unat a" "perm < 4096"
  shows "EXTRACT_ADDRESS (CONSTRUCT_ENTRY a perm) = a"
  using entry_parts(1) [OF aligned_frame(2) [OF assms(1)] assms(2)] by (simp add: aligned_frame(1) [OF assms(1)])

lemma unat_PPN: "unat (PPN a) = unat a div 4096"
  by (simp add: PPN_def unat_drop_bit_u32)

lemma unat_ROUNDUP_page:
  "unat a \<le> 4294963200 \<Longrightarrow> unat (ROUNDUP a PAGE_SIZE) = (unat a + 4095) div 4096 * 4096"
  using ROUNDUP_unat [of PAGE_SIZE a] by simp

lemma round_up_bounds: "n \<le> (n + 4095) div 4096 * 4096" "(n + 4095) div 4096 * 4096 < n + (4096 :: nat)"
  by linarith+

lemma round_up_aligned: "4096 dvd n \<Longrightarrow> (n + 4095) div 4096 * 4096 = (n :: nat)"
  by (auto elim!: dvdE)

lemma bkm_put [simp]:
  "bkm (put_bkm k s) = k" "ptr_free_mem (put_bkm k s) = ptr_free_mem s" "put_bkm k (put_bkm k' s) = put_bkm k s"
  "put_bkm (bkm s) s = s" "venv (bvm (put_bkm k s)) = venv (bvm s)"
  "phys_page_directory (put_bkm k s) = phys_page_directory s" "envs (put_bkm k s) = envs s"
  by (simp_all add: bkm_def put_bkm_def)

lemma bkm_update [simp]:
  "bkm (s\<lparr>ptr_free_mem := x\<rparr>) = bkm s" "bkm (s\<lparr>phys_page_directory := x\<rparr>) = bkm s" "bkm (s\<lparr>envs := x\<rparr>) = bkm s"
  "bkm (s\<lparr>frames_info := x\<rparr>) = bkm s" "bkm (s\<lparr>disk_frames_info := x\<rparr>) = bkm s"
  "bkm (s\<lparr>memory_scarce_threshold_percentage := x\<rparr>) = bkm s" "bkm (s\<lparr>boot_cr0 := x\<rparr>) = bkm s"
  "bkm (s\<lparr>boot_cr3 := x\<rparr>) = bkm s"
  by (simp_all add: bkm_def)

section \<open>The tables that exist\<close>

text \<open>\<open>KERNEL_BASE\<close> and the end of the part that is mapped to memory at boot, as numbers.\<close>

definition kbase :: nat where "kbase = 4026531840"
definition ktop :: nat where "ktop = 4127195136"

definition leads :: "u32 \<Rightarrow> u32 \<Rightarrow> bool" where
  "leads e p \<longleftrightarrow> EXTRACT_ADDRESS e = p - KERNEL_BASE \<and> e AND PERM_PRESENT \<noteq> 0"

definition boot_page :: "u32 \<Rightarrow> boot \<Rightarrow> bool" where
  "boot_page p s \<longleftrightarrow> 4096 dvd unat p \<and> kbase < unat p \<and> unat p + 4096 \<le> unat (ptr_free_mem s)"

definition boot_room :: "boot \<Rightarrow> nat \<Rightarrow> bool" where
  "boot_room s n \<longleftrightarrow> unat (ptr_free_mem s) \<noteq> 0 \<and> unat (ptr_free_mem s) + n \<le> ktop \<and>
     unat (ptr_free_mem s) + n \<le> kbase + 4096 * number_of_frames (bkm s)"

text \<open>
  The table of each directory entry, by its address; the two entries through which the directory shows
  itself are apart.
\<close>

definition boot_tabs :: "u32 \<Rightarrow> (nat \<Rightarrow> u32 option) \<Rightarrow> boot \<Rightarrow> bool" where
  "boot_tabs dir tabs s \<longleftrightarrow>
     boot_page dir s \<and> boot_room s 0 \<and> tabs 957 = None \<and> tabs 959 = None \<and>
     (\<forall>i p. tabs i = Some p \<longrightarrow> i < 1024 \<and> boot_page p s \<and> p \<noteq> dir \<and>
        leads (tables (bkm s) dir (of_nat i)) p \<and> (\<forall>j. tabs j = Some p \<longrightarrow> i = j)) \<and>
     (\<forall>i<1024. tabs i = None \<longrightarrow> i \<noteq> 957 \<longrightarrow> i \<noteq> 959 \<longrightarrow> tables (bkm s) dir (of_nat i) = 0)"

lemma boot_tabsD:
  assumes "boot_tabs dir tabs s"
  shows "boot_page dir s" "boot_room s 0" "tabs 957 = None" "tabs 959 = None"
    "tabs i = Some p \<Longrightarrow> i < 1024" "tabs i = Some p \<Longrightarrow> boot_page p s" "tabs i = Some p \<Longrightarrow> p \<noteq> dir"
    "tabs i = Some p \<Longrightarrow> leads (tables (bkm s) dir (of_nat i)) p"
    "tabs i = Some p \<Longrightarrow> tabs j = Some p \<Longrightarrow> i = j"
    "tabs i = None \<Longrightarrow> i < 1024 \<Longrightarrow> i \<noteq> 957 \<Longrightarrow> i \<noteq> 959 \<Longrightarrow> tables (bkm s) dir (of_nat i) = 0"
  using assms by (simp_all add: boot_tabs_def)

lemma boot_tabsI:
  assumes "boot_page dir s" "boot_room s 0" "tabs 957 = None" "tabs 959 = None"
    "\<And>i p. tabs i = Some p \<Longrightarrow> i < 1024" "\<And>i p. tabs i = Some p \<Longrightarrow> boot_page p s"
    "\<And>i p. tabs i = Some p \<Longrightarrow> p \<noteq> dir"
    "\<And>i p. tabs i = Some p \<Longrightarrow> leads (tables (bkm s) dir (of_nat i)) p"
    "\<And>i j p. tabs i = Some p \<Longrightarrow> tabs j = Some p \<Longrightarrow> i = j"
    "\<And>i. tabs i = None \<Longrightarrow> i < 1024 \<Longrightarrow> i \<noteq> 957 \<Longrightarrow> i \<noteq> 959 \<Longrightarrow> tables (bkm s) dir (of_nat i) = 0"
  shows "boot_tabs dir tabs s"
  unfolding boot_tabs_def using assms by blast

lemma of_nat_PDX: "of_nat (unat (PDX va)) = PDX va"
  by simp

lemma PDX_lt: "unat (PDX va) < 1024"
  using unat_lt_2p32 [of va] unfolding unat_PDX by (intro less_mult_imp_div_less) linarith

lemma boot_page_nz: "boot_page p s \<Longrightarrow> p \<noteq> 0 \<and> p \<noteq> KERNEL_BASE \<and> KERNEL_BASE \<le> p"
  by (auto simp: boot_page_def kbase_def KERNEL_BASE_def word_le_nat_alt)

lemma phys_page:
  assumes "boot_page p s" "boot_room s 0"
  shows "unat (p - KERNEL_BASE) = unat p - kbase" "p - KERNEL_BASE \<noteq> 0" "4096 dvd unat (p - KERNEL_BASE)"
    "STATIC_KERNEL_VIRTUAL_ADDRESS (p - KERNEL_BASE) (bkm s) = Inr p"
    "STATIC_KERNEL_PHYSICAL_ADDRESS p = Inr (p - KERNEL_BASE)"
proof -
  have le: "KERNEL_BASE \<le> p" and ne: "p \<noteq> KERNEL_BASE"
    using boot_page_nz [OF assms(1)] by auto
  show u: "unat (p - KERNEL_BASE) = unat p - kbase"
    using unat_sub_u32 [OF le] by (simp add: kbase_def KERNEL_BASE_def)
  show "p - KERNEL_BASE \<noteq> 0"
    using ne by auto
  show d: "4096 dvd unat (p - KERNEL_BASE)"
    using assms(1) unfolding u by (auto simp: boot_page_def kbase_def intro: dvd_diff_nat)
  have "unat p - kbase + 4096 \<le> 4096 * number_of_frames (bkm s)"
    using assms by (auto simp: boot_page_def boot_room_def)
  then have "unat (PPN (p - KERNEL_BASE)) < number_of_frames (bkm s)"
    unfolding unat_PPN u by (intro less_mult_imp_div_less) linarith
  then show "STATIC_KERNEL_VIRTUAL_ADDRESS (p - KERNEL_BASE) (bkm s) = Inr p"
    by (simp add: STATIC_KERNEL_VIRTUAL_ADDRESS_def)
  show "STATIC_KERNEL_PHYSICAL_ADDRESS p = Inr (p - KERNEL_BASE)"
    using le by (simp add: STATIC_KERNEL_PHYSICAL_ADDRESS_def not_less)
qed

lemma boot_tabs_entry:
  assumes "boot_tabs dir tabs s" "tabs (unat (PDX va)) = Some p"
  shows "boot_page p s" "leads (tables (bkm s) dir (PDX va)) p" "dir \<noteq> 0" "boot_room s 0"
  using boot_tabsD(1,2,6,8) [OF assms(1)] assms(2) boot_page_nz [of dir s] of_nat_PDX [of va] by metis+

lemma get_existing:
  assumes "boot_tabs dir tabs s" "tabs (unat (PDX va)) = Some p"
  shows "boot_get_page_table e dir va c s = Inr (p, s)"
  using boot_tabs_entry [OF assms] phys_page [of p s]
  by (simp add: boot_get_page_table_def table_read_def leads_def Let_def)

lemma alloc_effect:
  assumes "boot_room s 4096" "unat sz \<le> 100000000"
  shows "boot_allocate_space e sz PAGE_SIZE s =
      (ROUNDUP (ptr_free_mem s) PAGE_SIZE, s\<lparr>ptr_free_mem := ROUNDUP (ptr_free_mem s) PAGE_SIZE + sz\<rparr>)"
    and "unat (ROUNDUP (ptr_free_mem s) PAGE_SIZE) = (unat (ptr_free_mem s) + 4095) div 4096 * 4096"
    and "unat (ROUNDUP (ptr_free_mem s) PAGE_SIZE + sz) = (unat (ptr_free_mem s) + 4095) div 4096 * 4096 + unat sz"
proof -
  have nz: "ptr_free_mem s \<noteq> 0"
    using assms(1) by (auto simp: boot_room_def)
  show "boot_allocate_space e sz PAGE_SIZE s =
      (ROUNDUP (ptr_free_mem s) PAGE_SIZE, s\<lparr>ptr_free_mem := ROUNDUP (ptr_free_mem s) PAGE_SIZE + sz\<rparr>)"
    using nz by (simp add: boot_allocate_space_def Let_def)
  show u: "unat (ROUNDUP (ptr_free_mem s) PAGE_SIZE) = (unat (ptr_free_mem s) + 4095) div 4096 * 4096"
    using assms(1) by (intro unat_ROUNDUP_page) (simp add: boot_room_def ktop_def)
  have "unat (ROUNDUP (ptr_free_mem s) PAGE_SIZE) \<le> ktop"
    unfolding u using assms(1) round_up_bounds(2) [of "unat (ptr_free_mem s)"] by (simp add: boot_room_def)
  then show "unat (ROUNDUP (ptr_free_mem s) PAGE_SIZE + sz) = (unat (ptr_free_mem s) + 4095) div 4096 * 4096 + unat sz"
    using assms(2) by (subst unat_add_u32) (simp_all add: u ktop_def)
qed

lemma unat_of_nat_small: "n < 4294967296 \<Longrightarrow> unat (of_nat n :: u32) = n"
  by (simp add: unat_of_nat)

lemma boot_page_mono: "boot_page p s \<Longrightarrow> unat (ptr_free_mem s) \<le> unat (ptr_free_mem s') \<Longrightarrow> boot_page p s'"
  by (simp add: boot_page_def)

text \<open>Operations that leave the directory alone keep the tables.\<close>

lemma boot_tabs_keep:
  assumes "boot_tabs dir tabs s" "boot_room s' 0" "unat (ptr_free_mem s) \<le> unat (ptr_free_mem s')"
    and "\<And>i. i < 1024 \<Longrightarrow> i \<noteq> 957 \<Longrightarrow> i \<noteq> 959 \<Longrightarrow> tables (bkm s') dir (of_nat i) = tables (bkm s) dir (of_nat i)"
  shows "boot_tabs dir tabs s'"
proof -
  note D = boot_tabsD [OF assms(1)]
  show ?thesis
  proof (rule boot_tabsI)
    fix i p assume "tabs i = Some p"
    then show "boot_page p s'" "leads (tables (bkm s') dir (of_nat i)) p"
      using D(5) [of i p] D(6) [of i p] D(8) [of i p] D(3,4) boot_page_mono [OF _ assms(3)] assms(4) [of i]
      by force+
  qed (use D boot_page_mono [OF _ assms(3)] assms(2,4) in auto)
qed

lemma new_table_entry:
  assumes "boot_page p s" "boot_room s 0"
  shows "leads (CONSTRUCT_ENTRY (p - KERNEL_BASE) (PERM_PRESENT OR PERM_WRITEABLE)) p"
proof -
  have "CONSTRUCT_ENTRY (p - KERNEL_BASE) (PERM_PRESENT OR PERM_WRITEABLE) AND PERM_PRESENT \<noteq> 0"
    using entry_present [of "p - KERNEL_BASE" PERM_WRITEABLE] by (simp add: perm_defs)
  moreover have "EXTRACT_ADDRESS (CONSTRUCT_ENTRY (p - KERNEL_BASE) (PERM_PRESENT OR PERM_WRITEABLE)) = p - KERNEL_BASE"
    by (rule aligned_entry [OF phys_page(3) [OF assms]]) (simp add: perm_defs)
  ultimately show ?thesis
    by (simp add: leads_def)
qed

lemma get_new:
  assumes b: "boot_tabs dir tabs s" and room: "boot_room s 8192"
    and i: "i = unat (PDX va)" "tabs i = None" "i \<noteq> 957" "i \<noteq> 959"
  defines "p \<equiv> ROUNDUP (ptr_free_mem s) PAGE_SIZE"
  defines "s' \<equiv> put_bkm (set_entry dir (PDX va) (CONSTRUCT_ENTRY (p - KERNEL_BASE) (PERM_PRESENT OR PERM_WRITEABLE)) (bkm s))
      (s\<lparr>ptr_free_mem := p + PAGE_SIZE\<rparr>)"
  shows "boot_get_page_table e dir va True s = Inr (p, s')" "boot_tabs dir (tabs(i \<mapsto> p)) s'"
    "unat p = (unat (ptr_free_mem s) + 4095) div 4096 * 4096" "unat (ptr_free_mem s') = unat p + 4096"
proof -
  have r: "boot_room s 4096" "boot_room s 0"
    using room by (auto simp: boot_room_def)
  note al = alloc_effect [OF r(1), of PAGE_SIZE, unfolded unat_PAGE_SIZE]
  show up: "unat p = (unat (ptr_free_mem s) + 4095) div 4096 * 4096"
    using al(2) by (simp add: p_def)
  have uf: "unat (p + PAGE_SIZE) = unat p + 4096"
    using al(2,3) by (simp add: p_def)
  show fr: "unat (ptr_free_mem s') = unat p + 4096"
    by (simp add: s'_def uf)
  note rb = round_up_bounds [of "unat (ptr_free_mem s)", folded up]
  have dir: "boot_page dir s"
    using b by (simp add: boot_tabs_def)
  have bp: "boot_page p s'"
    using rb dir by (auto simp: boot_page_def fr up kbase_def)
  have room': "boot_room s' 0"
    using room rb by (auto simp: boot_room_def fr) (auto simp: s'_def set_entry_def)
  have ne: "p \<noteq> dir"
    using dir rb by (auto simp: boot_page_def)
  have pp: "STATIC_KERNEL_PHYSICAL_ADDRESS p = Inr (p - KERNEL_BASE)"
    using phys_page(5) [OF bp room'] .
  note D = boot_tabsD [OF b]
  have z: "tables (bkm s) dir (PDX va) = 0"
    using D(10) [of i] i PDX_lt [of va] of_nat_PDX [of va] by simp
  have z2: "dir \<noteq> 0"
    using boot_page_nz [OF dir] by simp
  have "0 < number_of_frames (bkm s)"
    using r(2) dir by (auto simp: boot_room_def boot_page_def kbase_def)
  then show "boot_get_page_table e dir va True s = Inr (p, s')"
    using z z2 pp al(1) [of e] by (simp add: boot_get_page_table_def table_read_def table_write_def Let_def s'_def
        EXTRACT_ADDRESS_def STATIC_KERNEL_VIRTUAL_ADDRESS_def PPN_def p_def)
  have inj: "tabs j \<noteq> Some p" for j
    using D(6) [of j p] rb by (auto simp: boot_page_def)
  have same: "tables (bkm s') dir (of_nat j) = tables (bkm s) dir (of_nat j)" if "j < 1024" "j \<noteq> i" for j
  proof -
    have "unat (of_nat j :: u32) = j"
      using that(1) by (intro unat_of_nat_small) simp
    then have "of_nat j \<noteq> PDX va"
      using that(2) i(1) by metis
    then show ?thesis
      by (simp add: s'_def set_entry_def)
  qed
  have new: "leads (tables (bkm s') dir (of_nat i)) p"
  proof -
    have "tables (bkm s') dir (PDX va) = CONSTRUCT_ENTRY (p - KERNEL_BASE) (PERM_PRESENT OR PERM_WRITEABLE)"
      by (simp add: s'_def set_entry_def)
    moreover have "of_nat i = PDX va"
      by (simp only: i(1) of_nat_PDX)
    ultimately show ?thesis
      using new_table_entry [OF bp room'] by (simp only:)
  qed
  have mono: "boot_page x s \<Longrightarrow> boot_page x s'" for x
    using rb(1) fr by (elim boot_page_mono) linarith
  show "boot_tabs dir (tabs(i \<mapsto> p)) s'"
  proof (rule boot_tabsI)
    fix j q assume "(tabs(i \<mapsto> p)) j = Some q"
    then consider "j = i" "q = p" | "j \<noteq> i" "tabs j = Some q"
      by (auto split: if_splits)
    then show "j < 1024" "boot_page q s'" "q \<noteq> dir" "leads (tables (bkm s') dir (of_nat j)) q"
      using D(5) [of j q] D(6) [of j q] D(7) [of j q] D(8) [of j q] i(1) PDX_lt [of va] bp ne new mono [of q]
        same [of j] by (metis+)
  next
    fix j l q assume "(tabs(i \<mapsto> p)) j = Some q" "(tabs(i \<mapsto> p)) l = Some q"
    then show "j = l"
      using D(9) [of j q l] inj by (auto split: if_splits)
  next
    fix j assume "(tabs(i \<mapsto> p)) j = None" "j < 1024" "j \<noteq> 957" "j \<noteq> 959"
    then show "tables (bkm s') dir (of_nat j) = 0"
      using D(10) [of j] same [of j] by (auto split: if_splits)
  qed (use D(3,4) i mono [OF dir] room' in auto)
qed

section \<open>Mapping a range whose tables exist\<close>

lemma for_pages_upto:
  assumes "unat i + 4096 * n < 4294967296" "unat eva \<le> unat i + 4096 * n" "unat i + 4096 * n < unat eva + 4096"
  shows "for_pages i eva body s = for_each body (page_list i n) s"
  using assms
proof (induction n arbitrary: i s)
  case 0
  then show ?case
    by (subst for_pages.simps) (simp add: word_less_nat_alt)
next
  case (Suc n)
  note st = page_step [OF Suc.prems(1)]
  have "i < eva"
    using Suc.prems(3) by (simp add: word_less_nat_alt)
  then show ?case
    using Suc.IH [of "i + PAGE_SIZE"] Suc.prems st(1,2)
    by (subst for_pages.simps) (simp cong: andthen_cong)
qed

definition page_at :: "u32 \<Rightarrow> nat \<Rightarrow> u32" where "page_at va j = va + of_nat j * PAGE_SIZE"

lemma page_at_simps [simp]: "page_at va 0 = va" "page_at (va + PAGE_SIZE) j = page_at va (Suc j)"
  by (simp_all add: page_at_def algebra_simps)

lemma unat_page_at: "unat va + 4096 * j < 4294967296 \<Longrightarrow> unat (page_at va j) = unat va + 4096 * j"
  by (simp add: page_at_def PAGE_SIZE_def unat_word_ariths unat_of_nat)

text \<open>The pages of a range have different entries.\<close>

lemma page_at_apart:
  assumes "4096 dvd unat va" "unat va + 4096 * i < 4294967296" "unat va + 4096 * j < 4294967296"
    "PDX (page_at va i) = PDX (page_at va j)" "PTX (page_at va i) = PTX (page_at va j)"
  shows "i = j"
proof -
  have "4096 dvd unat (page_at va i)" "4096 dvd unat (page_at va j)"
    unfolding unat_page_at [OF assms(2)] unat_page_at [OF assms(3)] using assms(1) by (auto intro: dvd_add)
  then have "page_at va i = page_at va j"
    by (rule same_page [OF assms(4,5)])
  then have "unat va + 4096 * i = unat va + 4096 * j"
    using assms(2,3) by (metis unat_page_at)
  then show ?thesis
    by simp
qed

lemma map_pages:
  assumes "boot_tabs dir tabs s" "4096 dvd unat va" "unat va + 4096 * n < 4294967296" "length xs = n"
    and "\<And>j. j < n \<Longrightarrow> tabs (unat (PDX (page_at va j))) = Some (q j)"
  shows "\<exists>T. for_each (\<lambda>_. boot_map_page e dir perm) xs (va, pa, s) =
       Inr (page_at va n, page_at pa n, put_bkm ((bkm s)\<lparr>tables := T\<rparr>) s) \<and>
     (\<forall>j<n. T (q j) (PTX (page_at va j)) = CONSTRUCT_ENTRY (page_at pa j) (perm OR PERM_PRESENT)) \<and>
     (\<forall>p i. (\<forall>j<n. p = q j \<longrightarrow> i \<noteq> PTX (page_at va j)) \<longrightarrow> T p i = tables (bkm s) p i)"
  using assms
proof (induction n arbitrary: va pa s xs q)
  case 0
  then show ?case
    by (auto intro: exI [of _ "tables (bkm s)"])
next
  case (Suc n)
  obtain x xs' where xs: "xs = x # xs'" "length xs' = n"
    using Suc.prems(4) by (cases xs) auto
  have t0: "tabs (unat (PDX va)) = Some (q 0)"
    using Suc.prems(5) [of 0] by simp
  note b = Suc.prems(1)
  let ?v = "CONSTRUCT_ENTRY pa (perm OR PERM_PRESENT)"
  let ?s = "put_bkm (set_entry (q 0) (PTX va) ?v (bkm s)) s"
  have q0: "q 0 \<noteq> 0" "q 0 \<noteq> dir"
    using boot_tabsD(6,7) [OF b t0] boot_page_nz by blast+
  have one: "boot_map_page e dir perm (va, pa, s) = Inr (va + PAGE_SIZE, pa + PAGE_SIZE, ?s)"
    using get_existing [OF b t0] q0 by (simp add: boot_map_page_def table_write_def)
  have b': "boot_tabs dir tabs ?s"
    using boot_tabsD(2) [OF b] q0
    by (intro boot_tabs_keep [OF b]) (simp_all add: boot_room_def set_entry_def)
  have u: "unat (va + PAGE_SIZE) = unat va + 4096"
    using Suc.prems(3) by (subst unat_add_u32) simp_all
  obtain T where T: "for_each (\<lambda>_. boot_map_page e dir perm) xs' (va + PAGE_SIZE, pa + PAGE_SIZE, ?s) =
       Inr (page_at va (Suc n), page_at pa (Suc n), put_bkm ((bkm ?s)\<lparr>tables := T\<rparr>) ?s)"
    and T1: "\<forall>j<n. T (q (Suc j)) (PTX (page_at va (Suc j))) = CONSTRUCT_ENTRY (page_at pa (Suc j)) (perm OR PERM_PRESENT)"
    and T2: "\<forall>p i. (\<forall>j<n. p = q (Suc j) \<longrightarrow> i \<noteq> PTX (page_at va (Suc j))) \<longrightarrow> T p i = tables (bkm ?s) p i"
    using Suc.IH [of ?s "va + PAGE_SIZE" xs' "\<lambda>j. q (Suc j)" "pa + PAGE_SIZE"] Suc.prems xs(2) b' by (simp add: u) blast
  have first: "T (q 0) (PTX va) = ?v"
  proof -
    have "PTX va \<noteq> PTX (page_at va (Suc j))" if "j < n" "q 0 = q (Suc j)" for j
    proof
      assume "PTX va = PTX (page_at va (Suc j))"
      moreover have "unat (PDX va) = unat (PDX (page_at va (Suc j)))"
        using boot_tabsD(9) [OF b t0] Suc.prems(5) [of "Suc j"] that by simp
      ultimately have "0 = Suc j"
        using page_at_apart [of va 0 "Suc j"] Suc.prems(2,3) that(1) by (simp add: u32_eq_iff)
      then show False
        by simp
    qed
    then show ?thesis
      using T2 by (simp add: set_entry_def)
  qed
  show ?case
  proof (intro exI [of _ T] conjI allI impI)
    show "for_each (\<lambda>_. boot_map_page e dir perm) xs (va, pa, s) =
        Inr (page_at va (Suc n), page_at pa (Suc n), put_bkm ((bkm s)\<lparr>tables := T\<rparr>) s)"
      using one T by (simp add: xs(1) set_entry_def)
    show "T (q j) (PTX (page_at va j)) = CONSTRUCT_ENTRY (page_at pa j) (perm OR PERM_PRESENT)" if "j < Suc n" for j
      using that first T1 by (cases j) auto
    show "T p i = tables (bkm s) p i" if "\<forall>j<Suc n. p = q j \<longrightarrow> i \<noteq> PTX (page_at va j)" for p i
    proof -
      have "\<forall>j<n. p = q (Suc j) \<longrightarrow> i \<noteq> PTX (page_at va (Suc j))"
        using that by auto
      moreover have "p = q 0 \<longrightarrow> i \<noteq> PTX va"
        using that [rule_format, of 0] by simp
      ultimately show ?thesis
        using T2 by (simp add: set_entry_def)
    qed
  qed
qed

lemma map_range:
  assumes "boot_tabs dir tabs s" "4096 dvd unat va" "unat va + 4096 * n < 4294967296"
    and "unat sz \<le> 4096 * n" "4096 * n < unat sz + 4096"
    and "\<And>j. j < n \<Longrightarrow> tabs (unat (PDX (page_at va j))) = Some (q j)"
  shows "\<exists>T. boot_map_range e dir va sz pa perm s = Inr (put_bkm ((bkm s)\<lparr>tables := T\<rparr>) s) \<and>
     (\<forall>j<n. T (q j) (PTX (page_at va j)) = CONSTRUCT_ENTRY (page_at pa j) (perm OR PERM_PRESENT)) \<and>
     (\<forall>p i. (\<forall>j<n. p = q j \<longrightarrow> i \<noteq> PTX (page_at va j)) \<longrightarrow> T p i = tables (bkm s) p i)"
proof -
  have "for_pages 0 sz (\<lambda>i. boot_map_page e dir perm) st = for_each (\<lambda>_. boot_map_page e dir perm) (page_list 0 n) st" for st
    using assms(3-5) by (intro for_pages_upto) simp_all
  moreover have "length (page_list 0 n) = n"
    by (simp add: page_list_eq)
  ultimately show ?thesis
    using map_pages [of dir tabs s va n "page_list 0 n" q e perm pa, OF assms(1-3) _ assms(6)]
    by (simp add: boot_map_range_def) blast
qed

text \<open>The first step makes the table, as a call before the loop would.\<close>

lemma map_range_first:
  assumes "boot_get_page_table e dir va True s = Inr (p, s')" "boot_get_page_table e dir va True s' = Inr (p, s')" "0 < sz"
  shows "boot_map_range e dir va sz pa perm s = boot_map_range e dir va sz pa perm s'"
proof -
  have "boot_map_page e dir perm (va, pa, s) = boot_map_page e dir perm (va, pa, s')"
    using assms(1,2) by (simp add: boot_map_page_def)
  then have "for_pages 0 sz (\<lambda>i. boot_map_page e dir perm) (va, pa, s) = for_pages 0 sz (\<lambda>i. boot_map_page e dir perm) (va, pa, s')"
    using assms(3) by (subst (1 2) for_pages.simps) simp
  then show ?thesis
    by (simp add: boot_map_range_def)
qed

text \<open>The tables of the kernel's part.\<close>

lemma boot_tables_run:
  assumes "n \<le> 64" "boot_tabs dir tabs s" "\<And>i. 1024 - n \<le> i \<Longrightarrow> tabs i = None"
    and "boot_room s (4096 * (n + 1))" "4096 dvd unat (ptr_free_mem s)"
  shows "\<exists>T f tabs'. boot_tables e dir (of_nat (4194304 * (1024 - n))) s =
        Inr (put_bkm ((bkm s)\<lparr>tables := T\<rparr>) (s\<lparr>ptr_free_mem := f\<rparr>)) \<and>
      boot_tabs dir tabs' (put_bkm ((bkm s)\<lparr>tables := T\<rparr>) (s\<lparr>ptr_free_mem := f\<rparr>)) \<and>
      unat f = unat (ptr_free_mem s) + 4096 * n \<and>
      (\<forall>i<1024 - n. tabs' i = tabs i) \<and> (\<forall>i. 1024 - n \<le> i \<longrightarrow> i < 1024 \<longrightarrow> tabs' i \<noteq> None) \<and>
      (\<forall>p i. p \<noteq> dir \<longrightarrow> T p i = tables (bkm s) p i)"
  using assms
proof (induction n arbitrary: s tabs)
  case 0
  have "put_bkm ((bkm s)\<lparr>tables := tables (bkm s)\<rparr>) (s\<lparr>ptr_free_mem := ptr_free_mem s\<rparr>) = s"
    by simp
  then show ?case
    using 0(2) by (subst boot_tables.simps)
      (auto intro!: exI [of _ "tables (bkm s)"] exI [of _ "ptr_free_mem s"] exI [of _ tabs])
next
  case (Suc n)
  define i where "i = 1024 - Suc n"
  define m where "m = 4194304 * i"
  have i: "i < 1024" "960 \<le> i" "1024 - n = Suc i" and m: "m < 4294967296" "m + 4194304 = 4194304 * Suc i" "m < 4294967295"
    using Suc.prems(1) by (auto simp: i_def m_def)
  let ?sva = "of_nat m :: u64" and ?va = "of_nat m :: u32"
  have uv: "unat ?va = m" "unat ?sva = m"
    using m(1) by (simp_all add: unat_of_nat)
  have cast: "ucast ?sva = ?va"
    by (simp add: unsigned_of_nat take_bit_nat_eq_self u32_eq_iff m(1))
  have pdx: "i = unat (PDX ?va)"
    unfolding unat_PDX uv by (simp add: m_def)
  have none: "tabs i = None"
    using Suc.prems(3) by (simp add: i_def)
  have room: "boot_room s 8192"
    using Suc.prems(4) by (auto simp: boot_room_def)
  define p where "p = ROUNDUP (ptr_free_mem s) PAGE_SIZE"
  define T0 where "T0 = (tables (bkm s))(dir := (tables (bkm s) dir)(PDX ?va :=
      CONSTRUCT_ENTRY (p - KERNEL_BASE) (PERM_PRESENT OR PERM_WRITEABLE)))"
  let ?s = "put_bkm ((bkm s)\<lparr>tables := T0\<rparr>) (s\<lparr>ptr_free_mem := p + PAGE_SIZE\<rparr>)"
  note new = get_new [OF Suc.prems(2) room pdx none, folded p_def, unfolded set_entry_def, folded T0_def]
  have ne: "i \<noteq> 957" "i \<noteq> 959"
    using i by auto
  have up: "unat p = unat (ptr_free_mem s)"
    using new(3) ne Suc.prems(5) by (simp add: round_up_aligned)
  have f': "unat (ptr_free_mem ?s) = unat (ptr_free_mem s) + 4096"
    using new(4) ne up by simp
  have c1: "boot_room ?s (4096 * (n + 1))"
    using Suc.prems(4) up f' by (auto simp: boot_room_def)
  have c2: "4096 dvd unat (ptr_free_mem ?s)"
    unfolding f' using Suc.prems(5) by (auto intro: dvd_add)
  have c3: "\<And>j. 1024 - n \<le> j \<Longrightarrow> (tabs(i \<mapsto> p)) j = None"
    using Suc.prems(3) i by (auto simp: i_def)
  have c4: "n \<le> 64"
    using Suc.prems(1) by simp
  from Suc.IH [OF c4 new(2) [OF ne] c3 c1 c2] obtain T f tabs' where r: "boot_tables e dir (of_nat (4194304 * (1024 - n))) ?s =
        Inr (put_bkm ((bkm ?s)\<lparr>tables := T\<rparr>) (?s\<lparr>ptr_free_mem := f\<rparr>))"
      "boot_tabs dir tabs' (put_bkm ((bkm ?s)\<lparr>tables := T\<rparr>) (?s\<lparr>ptr_free_mem := f\<rparr>))"
      "unat f = unat (ptr_free_mem ?s) + 4096 * n" "\<forall>j<1024 - n. tabs' j = (tabs(i \<mapsto> p)) j"
      "\<forall>j. 1024 - n \<le> j \<longrightarrow> j < 1024 \<longrightarrow> tabs' j \<noteq> None" "\<forall>p i. p \<noteq> dir \<longrightarrow> T p i = tables (bkm ?s) p i"
    by blast
  have "?sva < 0xFFFFFFFF"
    using m uv by (simp add: word_less_nat_alt)
  moreover have "?sva + ucast PTSIZE = of_nat (4194304 * (1024 - n))"
    by (simp only: i(3) m(2) [symmetric]) (simp add: PTSIZE_def)
  ultimately have run: "boot_tables e dir ?sva s = Inr (put_bkm ((bkm ?s)\<lparr>tables := T\<rparr>) (?s\<lparr>ptr_free_mem := f\<rparr>))"
    using new(1) [OF ne, of e] r(1) by (subst boot_tables.simps) (simp add: cast)
  have same: "put_bkm ((bkm ?s)\<lparr>tables := T\<rparr>) (?s\<lparr>ptr_free_mem := f\<rparr>) =
      put_bkm ((bkm s)\<lparr>tables := T\<rparr>) (s\<lparr>ptr_free_mem := f\<rparr>)"
    by (simp add: put_bkm_def bkm_def)
  have "m = 4194304 * (1024 - Suc n)"
    by (simp add: m_def i_def)
  then have "boot_tables e dir (of_nat (4194304 * (1024 - Suc n))) s =
      Inr (put_bkm ((bkm s)\<lparr>tables := T\<rparr>) (s\<lparr>ptr_free_mem := f\<rparr>))"
    using run same by metis
  moreover have "unat f = unat (ptr_free_mem s) + 4096 * Suc n"
    using r(3) f' by simp
  moreover have "\<forall>j<1024 - Suc n. tabs' j = tabs j"
    using r(4) i by (auto simp: i_def)
  moreover have "\<forall>j. 1024 - Suc n \<le> j \<longrightarrow> j < 1024 \<longrightarrow> tabs' j \<noteq> None"
  proof (intro allI impI)
    fix j assume "1024 - Suc n \<le> j" "j < 1024"
    then show "tabs' j \<noteq> None"
      using r(4,5) i by (cases "j = i") (auto simp: i_def)
  qed
  moreover have "\<forall>p i. p \<noteq> dir \<longrightarrow> T p i = tables (bkm s) p i"
    using r(6) by (simp add: T0_def)
  moreover have "boot_tabs dir tabs' (put_bkm ((bkm s)\<lparr>tables := T\<rparr>) (s\<lparr>ptr_free_mem := f\<rparr>))"
    using r(2) same by simp
  ultimately show ?case
    by blast
qed

section \<open>Mapped ranges\<close>

text \<open>The \<open>n\<close> pages from \<open>va\<close> on are mapped to the \<open>n\<close> frames from \<open>pa\<close> on.\<close>

definition maps_to :: "(nat \<Rightarrow> u32 option) \<Rightarrow> u32 \<Rightarrow> u32 \<Rightarrow> u32 \<Rightarrow> nat \<Rightarrow> boot \<Rightarrow> bool" where
  "maps_to tabs va pa perm n s \<longleftrightarrow>
     (\<forall>j<n. \<exists>p. tabs (unat (PDX (page_at va j))) = Some p \<and>
        tables (bkm s) p (PTX (page_at va j)) = CONSTRUCT_ENTRY (page_at pa j) (perm OR PERM_PRESENT))"

text \<open>The states differ in the page tables and in what was allocated.\<close>

definition grown :: "boot \<Rightarrow> boot \<Rightarrow> bool" where
  "grown s s' \<longleftrightarrow> s' = put_bkm ((bkm s)\<lparr>tables := tables (bkm s')\<rparr>) (s\<lparr>ptr_free_mem := ptr_free_mem s'\<rparr>)"

lemma grown_put: "grown s (put_bkm ((bkm s)\<lparr>tables := T\<rparr>) (s\<lparr>ptr_free_mem := f\<rparr>))"
  by (simp add: grown_def put_bkm_def bkm_def)

lemma grown_put': "grown s (put_bkm ((bkm s)\<lparr>tables := T\<rparr>) s)"
  using grown_put [of s T "ptr_free_mem s"] by simp

lemma grownD:
  assumes "grown s s'"
  shows "number_of_frames (bkm s') = number_of_frames (bkm s)" "boot_dir s' = boot_dir s" "envs s' = envs s"
    "phys_page_directory s' = phys_page_directory s" "venv (bvm s') = venv (bvm s)"
    "frames_info s' = frames_info s"
  by (subst assms [unfolded grown_def], simp add: boot_dir_def put_bkm_def bkm_def)+

lemma grown_trans: "grown s s' \<Longrightarrow> grown s' s'' \<Longrightarrow> grown s s''"
proof -
  assume a: "grown s s'" "grown s' s''"
  have "s'' = put_bkm ((bkm s')\<lparr>tables := tables (bkm s'')\<rparr>) (s'\<lparr>ptr_free_mem := ptr_free_mem s''\<rparr>)"
    using a(2) by (simp only: grown_def)
  moreover have "put_bkm ((bkm s')\<lparr>tables := t\<rparr>) (s'\<lparr>ptr_free_mem := f\<rparr>) =
      put_bkm ((bkm s)\<lparr>tables := t\<rparr>) (s\<lparr>ptr_free_mem := f\<rparr>)" for t f
    by (subst (1 2) a(1) [unfolded grown_def]) (simp add: put_bkm_def bkm_def)
  ultimately show ?thesis
    by (simp only: grown_def)
qed

lemma maps_to_mono:
  assumes "maps_to tabs va pa perm n s" "boot_tabs dir tabs s"
    and "\<And>i p. tabs i = Some p \<Longrightarrow> tabs' i = Some p"
    and "\<And>p i. p \<noteq> dir \<Longrightarrow> tables (bkm s') p i = tables (bkm s) p i"
  shows "maps_to tabs' va pa perm n s'"
  unfolding maps_to_def
proof (intro allI impI)
  fix j assume "j < n"
  then obtain p where p: "tabs (unat (PDX (page_at va j))) = Some p"
    "tables (bkm s) p (PTX (page_at va j)) = CONSTRUCT_ENTRY (page_at pa j) (perm OR PERM_PRESENT)"
    using assms(1) by (auto simp: maps_to_def)
  then show "\<exists>p. tabs' (unat (PDX (page_at va j))) = Some p \<and>
      tables (bkm s') p (PTX (page_at va j)) = CONSTRUCT_ENTRY (page_at pa j) (perm OR PERM_PRESENT)"
    using assms(3) [OF p(1)] assms(4) boot_tabsD(7) [OF assms(2) p(1)] by auto
qed

lemma map_stage:
  assumes b: "boot_tabs dir tabs s" and va: "4096 dvd unat va" "unat va + 4096 * n < 4294967296"
    and sz: "unat sz \<le> 4096 * n" "4096 * n < unat sz + 4096"
    and t: "\<And>j. j < n \<Longrightarrow> tabs (unat (PDX (page_at va j))) \<noteq> None"
  shows "\<exists>s'. boot_map_range e dir va sz pa perm s = Inr s' \<and> boot_tabs dir tabs s' \<and> grown s s' \<and>
      ptr_free_mem s' = ptr_free_mem s \<and> maps_to tabs va pa perm n s' \<and>
      (\<forall>i. tables (bkm s') dir i = tables (bkm s) dir i) \<and>
      (\<forall>va' pa' perm' m. maps_to tabs va' pa' perm' m s \<longrightarrow>
         (\<forall>j<m. \<forall>i<n. PDX (page_at va' j) \<noteq> PDX (page_at va i)) \<longrightarrow> maps_to tabs va' pa' perm' m s')"
proof -
  define q where "q j = the (tabs (unat (PDX (page_at va j))))" for j
  have q: "tabs (unat (PDX (page_at va j))) = Some (q j)" if "j < n" for j
    using t [OF that] by (auto simp: q_def)
  obtain T where T: "boot_map_range e dir va sz pa perm s = Inr (put_bkm ((bkm s)\<lparr>tables := T\<rparr>) s)"
      "\<forall>j<n. T (q j) (PTX (page_at va j)) = CONSTRUCT_ENTRY (page_at pa j) (perm OR PERM_PRESENT)"
      "\<forall>p i. (\<forall>j<n. p = q j \<longrightarrow> i \<noteq> PTX (page_at va j)) \<longrightarrow> T p i = tables (bkm s) p i"
    using map_range [of dir tabs s va n sz q e pa perm, OF b va sz q] by blast
  let ?s = "put_bkm ((bkm s)\<lparr>tables := T\<rparr>) s"
  have dir: "T dir i = tables (bkm s) dir i" for i
  proof -
    have "\<forall>j<n. dir \<noteq> q j"
      using boot_tabsD(7) [OF b q] by auto
    then show ?thesis
      using T(3) by blast
  qed
  have "boot_tabs dir tabs ?s"
    using dir boot_tabsD(2) [OF b] by (intro boot_tabs_keep [OF b]) (simp_all add: boot_room_def)
  moreover have "maps_to tabs va pa perm n ?s"
    using T(2) q by (simp add: maps_to_def)
  moreover have "maps_to tabs va' pa' perm' m ?s"
    if m: "maps_to tabs va' pa' perm' m s" and ne: "\<forall>j<m. \<forall>i<n. PDX (page_at va' j) \<noteq> PDX (page_at va i)"
    for va' pa' perm' m
    unfolding maps_to_def
  proof (intro allI impI)
    fix j assume j: "j < m"
    then obtain p where p: "tabs (unat (PDX (page_at va' j))) = Some p"
      "tables (bkm s) p (PTX (page_at va' j)) = CONSTRUCT_ENTRY (page_at pa' j) (perm' OR PERM_PRESENT)"
      using m by (auto simp: maps_to_def)
    have "p \<noteq> q i" if "i < n" for i
    proof
      assume "p = q i"
      then have "unat (PDX (page_at va' j)) = unat (PDX (page_at va i))"
        using boot_tabsD(9) [OF b p(1)] q [OF that] by blast
      then have "PDX (page_at va' j) = PDX (page_at va i)"
        by (simp only: u32_eq_iff)
      then show False
        using ne j that by blast
    qed
    then have "T p (PTX (page_at va' j)) = tables (bkm s) p (PTX (page_at va' j))"
      using T(3) by blast
    then show "\<exists>p. tabs (unat (PDX (page_at va' j))) = Some p \<and>
        tables (bkm ?s) p (PTX (page_at va' j)) = CONSTRUCT_ENTRY (page_at pa' j) (perm' OR PERM_PRESENT)"
      using p by auto
  qed
  ultimately show ?thesis
    using T(1) dir grown_put' by (intro exI [of _ ?s]) auto
qed

text \<open>A range within one directory entry that has no table yet.\<close>

lemma map_stage_new:
  assumes b: "boot_tabs dir tabs s" and va: "4096 dvd unat va" "unat va + 4096 * n < 4294967296"
    and sz: "unat sz \<le> 4096 * n" "4096 * n < unat sz + 4096" "0 < n"
    and t: "\<And>j. j < n \<Longrightarrow> unat (PDX (page_at va j)) = k" "tabs k = None" "k \<noteq> 957" "k \<noteq> 959"
    and room: "boot_room s 8192"
  shows "\<exists>s' p. boot_map_range e dir va sz pa perm s = Inr s' \<and> boot_tabs dir (tabs(k \<mapsto> p)) s' \<and> grown s s' \<and>
      unat (ptr_free_mem s') = (unat (ptr_free_mem s) + 4095) div 4096 * 4096 + 4096 \<and>
      maps_to (tabs(k \<mapsto> p)) va pa perm n s' \<and>
      (\<forall>i. i \<noteq> PDX va \<longrightarrow> tables (bkm s') dir i = tables (bkm s) dir i) \<and>
      (\<forall>va' pa' perm' m. maps_to tabs va' pa' perm' m s \<longrightarrow> maps_to (tabs(k \<mapsto> p)) va' pa' perm' m s')"
proof -
  have k: "k = unat (PDX va)"
    using t(1) [of 0] sz(3) by simp
  define p where "p = ROUNDUP (ptr_free_mem s) PAGE_SIZE"
  define s1 where "s1 = put_bkm (set_entry dir (PDX va) (CONSTRUCT_ENTRY (p - KERNEL_BASE) (PERM_PRESENT OR PERM_WRITEABLE)) (bkm s))
      (s\<lparr>ptr_free_mem := p + PAGE_SIZE\<rparr>)"
  note new = get_new [OF b room k t(2-4), folded p_def, folded s1_def]
  let ?tabs = "tabs(k \<mapsto> p)"
  have two: "boot_get_page_table e dir va True s1 = Inr (p, s1)"
    by (rule get_existing [OF new(2)]) (simp add: k)
  have "0 < sz"
    using sz by (auto simp: word_gt_0 unat_eq_zero)
  then have eq: "boot_map_range e dir va sz pa perm s = boot_map_range e dir va sz pa perm s1"
    by (rule map_range_first [OF new(1) two])
  obtain s' where s': "boot_map_range e dir va sz pa perm s1 = Inr s'" "boot_tabs dir ?tabs s'" "grown s1 s'"
      "ptr_free_mem s' = ptr_free_mem s1" "maps_to ?tabs va pa perm n s'"
      "\<forall>i. tables (bkm s') dir i = tables (bkm s1) dir i"
      "\<forall>va' pa' perm' m. maps_to ?tabs va' pa' perm' m s1 \<longrightarrow>
         (\<forall>j<m. \<forall>i<n. PDX (page_at va' j) \<noteq> PDX (page_at va i)) \<longrightarrow> maps_to ?tabs va' pa' perm' m s'"
    using map_stage [OF new(2) va sz(1,2), of e pa perm] t(1) by auto
  have g: "grown s s1"
    by (simp add: s1_def set_entry_def grown_put)
  have keep: "maps_to ?tabs va' pa' perm' m s'" if m: "maps_to tabs va' pa' perm' m s" for va' pa' perm' m
  proof -
    have "maps_to ?tabs va' pa' perm' m s1"
      by (rule maps_to_mono [OF m b]) (use t(2) in \<open>auto simp: s1_def set_entry_def\<close>)
    moreover have "PDX (page_at va' j) \<noteq> PDX (page_at va i)" if "j < m" "i < n" for i j
      using m that t(1) [OF that(2)] t(2) by (auto simp: maps_to_def)
    ultimately show ?thesis
      using s'(7) by blast
  qed
  have "unat (ptr_free_mem s') = (unat (ptr_free_mem s) + 4095) div 4096 * 4096 + 4096"
    using new(3,4) s'(4) by simp
  moreover have "\<forall>i. i \<noteq> PDX va \<longrightarrow> tables (bkm s') dir i = tables (bkm s) dir i"
    using s'(6) by (simp add: s1_def set_entry_def)
  ultimately show ?thesis
    using s'(1,2,5) eq grown_trans [OF g s'(3)] keep by (intro exI [of _ s'] exI [of _ p]) simp
qed

section \<open>The steps of \<^verbatim>\<open>initialize_kernel_VM\<close>\<close>

lemma check_mapped:
  assumes "boot_tabs dir tabs s" "maps_to tabs va pa perm n s" "j < n" "4096 dvd unat pa"
    and "unat pa + 4096 * n < 4294967296" "perm OR PERM_PRESENT < 4096"
    and "PDX a = PDX (page_at va j)" "PTX a = PTX (page_at va j)"
  shows "check_va2pa dir a (bkm s) = Inr (page_at pa j)"
proof -
  obtain p where p: "tabs (unat (PDX a)) = Some p"
    "tables (bkm s) p (PTX a) = CONSTRUCT_ENTRY (page_at pa j) (perm OR PERM_PRESENT)"
    using assms(2,3,7,8) by (auto simp: maps_to_def)
  note e = boot_tabs_entry [OF assms(1) p(1)]
  have "unat (page_at pa j) = unat pa + 4096 * j"
    using assms(3,5) by (intro unat_page_at) simp
  then have "4096 dvd unat (page_at pa j)"
    using assms(4) by (auto intro: dvd_add)
  then have "EXTRACT_ADDRESS (tables (bkm s) p (PTX a)) = page_at pa j"
    unfolding p(2) by (rule aligned_entry [OF _ assms(6)])
  moreover have "tables (bkm s) p (PTX a) AND PERM_PRESENT \<noteq> 0"
    unfolding p(2) entry_present by (simp add: perm_defs)
  moreover have "p \<noteq> 0"
    using boot_page_nz [OF e(1)] by simp
  ultimately show ?thesis
    using e phys_page(4) [OF e(1,4)] by (simp add: check_va2pa_def table_read_def leads_def)
qed

text \<open>
  The memory of the boot data: they lie below the kernel heap and in frames that exist; what the tables and
  the arrays of fixed size need is at most 0x460000 bytes.
\<close>

definition boot_input :: "u32 \<Rightarrow> u32 \<Rightarrow> boot \<Rightarrow> bool" where
  "boot_input end_of_kernel ptr_stack_bottom s \<longleftrightarrow>
     (let top = unat end_of_kernel + 24 * number_of_frames (bkm s) + 0x460000 in
      ptr_free_mem s = 0 \<and> kbase + 0x100000 \<le> unat end_of_kernel \<and> top \<le> ktop \<and>
      top \<le> kbase + 4096 * number_of_frames (bkm s) \<and>
      4096 dvd unat ptr_stack_bottom \<and> kbase \<le> unat ptr_stack_bottom \<and> unat ptr_stack_bottom \<le> ktop)"

definition stack_va :: u32 where "stack_va = KERNEL_STACK_TOP - KERNEL_STACK_SIZE"

definition built :: "u32 \<Rightarrow> u32 \<Rightarrow> nat \<Rightarrow> nat set \<Rightarrow> nat \<Rightarrow> (nat \<Rightarrow> u32 option) \<Rightarrow> boot \<Rightarrow> bool" where
  "built dir stack nf S N tabs s \<longleftrightarrow>
     boot_tabs dir tabs s \<and> boot_dir s = dir \<and> number_of_frames (bkm s) = nf \<and> unat (ptr_free_mem s) = N \<and>
     phys_page_directory s = dir - KERNEL_BASE \<and>
     (\<forall>i. tabs i = None \<longleftrightarrow> i \<notin> S) \<and> maps_to tabs stack_va (stack - KERNEL_BASE) PERM_WRITEABLE 8 s"

definition boot_first :: "u32 \<Rightarrow> boot \<Rightarrow> boot" where
  "boot_first e s =
     (let dir = ROUNDUP e PAGE_SIZE in
      (clear_directory dir (put_bkm ((bkm s)\<lparr>ptr_page_directory := dir\<rparr>) (s\<lparr>ptr_free_mem := dir + PAGE_SIZE\<rparr>)))
        \<lparr>phys_page_directory := dir - KERNEL_BASE\<rparr>)"

lemma boot_first_tabs:
  assumes "boot_input e stack s"
  defines "dir \<equiv> ROUNDUP e PAGE_SIZE"
  shows "boot_allocate_space e PAGE_SIZE PAGE_SIZE s = (dir, s\<lparr>ptr_free_mem := dir + PAGE_SIZE\<rparr>)"
    "STATIC_KERNEL_PHYSICAL_ADDRESS dir = Inr (dir - KERNEL_BASE)"
    "boot_tabs dir Map.empty (boot_first e s)" "boot_dir (boot_first e s) = dir"
    "number_of_frames (bkm (boot_first e s)) = number_of_frames (bkm s)"
    "unat dir = (unat e + 4095) div 4096 * 4096" "unat (ptr_free_mem (boot_first e s)) = unat dir + 4096"
proof -
  have e: "unat e \<le> 4294963200"
    using assms(1) by (auto simp: boot_input_def Let_def ktop_def)
  show u: "unat dir = (unat e + 4095) div 4096 * 4096"
    unfolding dir_def by (rule unat_ROUNDUP_page [OF e])
  note rb = round_up_bounds [of "unat e", folded u]
  have f: "unat (dir + PAGE_SIZE) = unat dir + 4096"
    using rb(2) assms(1) by (subst unat_add_u32) (auto simp: boot_input_def Let_def ktop_def)
  show "boot_allocate_space e PAGE_SIZE PAGE_SIZE s = (dir, s\<lparr>ptr_free_mem := dir + PAGE_SIZE\<rparr>)"
    using assms(1) by (simp add: boot_allocate_space_def boot_input_def Let_def dir_def)
  have k: "kbase < unat dir"
    using rb(1) assms(1) by (auto simp: boot_input_def Let_def)
  then show "STATIC_KERNEL_PHYSICAL_ADDRESS dir = Inr (dir - KERNEL_BASE)"
    by (simp add: STATIC_KERNEL_PHYSICAL_ADDRESS_def word_less_nat_alt KERNEL_BASE_def kbase_def)
  have km: "bkm (boot_first e s) = (bkm s)\<lparr>ptr_page_directory := dir, tables := (tables (bkm s))(dir := (\<lambda>_. 0))\<rparr>"
    "ptr_free_mem (boot_first e s) = dir + PAGE_SIZE"
    by (simp_all add: boot_first_def dir_def [symmetric] clear_directory_def Let_def)
  show "boot_dir (boot_first e s) = dir" "number_of_frames (bkm (boot_first e s)) = number_of_frames (bkm s)"
    "unat (ptr_free_mem (boot_first e s)) = unat dir + 4096"
    by (simp_all add: boot_dir_def km f)
  have "4096 dvd unat dir"
    unfolding u by simp
  then show "boot_tabs dir Map.empty (boot_first e s)"
    using assms(1) rb k by (intro boot_tabsI) (auto simp: km f boot_page_def boot_room_def boot_input_def Let_def)
qed

lemma div_exactly: "k * d \<le> x \<Longrightarrow> x < Suc k * d \<Longrightarrow> x div d = (k :: nat)"
  by (rule div_nat_eqI) (simp_all add: mult.commute)

lemma boot_numbers:
  "unat stack_va = 4022304768" "unat KERNEL_STACK_SIZE = 32768" "unat UENVS = 4005560320" "unat KERNEL_BASE = kbase"
  "ucast KERNEL_BASE = (of_nat (4194304 * (1024 - 64)) :: u64)"
  "PDX VPT = 959" "PDX UVPT = 957" "PDX UENVS = 955"
  by (simp_all add: stack_va_def layout_defs kbase_def PDX_def)

lemma boot_stack:
  assumes "boot_input e stack s"
  defines "dir \<equiv> ROUNDUP e PAGE_SIZE"
  shows "\<exists>s' tabs. boot_map_range e dir stack_va KERNEL_STACK_SIZE (stack - KERNEL_BASE) PERM_WRITEABLE (boot_first e s) = Inr s' \<and>
      built dir stack (number_of_frames (bkm s)) {958} (unat dir + 8192) tabs s'"
proof -
  note first = boot_first_tabs [OF assms(1), folded dir_def]
  have page: "unat (PDX (page_at stack_va j)) = 958" if "j < 8" for j
    unfolding unat_PDX using that by (subst unat_page_at) (auto simp: boot_numbers intro!: div_exactly)
  have room: "boot_room (boot_first e s) 8192"
    using assms(1) first(5,6,7) round_up_bounds [of "unat e"] by (auto simp: boot_room_def boot_input_def Let_def)
  have al: "(unat dir + 4096 + 4095) div 4096 * 4096 = unat dir + 4096"
    using first(6) by (intro round_up_aligned) auto
  have "\<exists>s' p. boot_map_range e dir stack_va KERNEL_STACK_SIZE (stack - KERNEL_BASE) PERM_WRITEABLE (boot_first e s) = Inr s' \<and>
      boot_tabs dir (Map.empty(958 \<mapsto> p)) s' \<and> grown (boot_first e s) s' \<and>
      unat (ptr_free_mem s') = (unat (ptr_free_mem (boot_first e s)) + 4095) div 4096 * 4096 + 4096 \<and>
      maps_to (Map.empty(958 \<mapsto> p)) stack_va (stack - KERNEL_BASE) PERM_WRITEABLE 8 s' \<and>
      (\<forall>i. i \<noteq> PDX stack_va \<longrightarrow> tables (bkm s') dir i = tables (bkm (boot_first e s)) dir i) \<and>
      (\<forall>va' pa' perm' m. maps_to Map.empty va' pa' perm' m (boot_first e s) \<longrightarrow> maps_to (Map.empty(958 \<mapsto> p)) va' pa' perm' m s')"
    by (rule map_stage_new [OF first(3)]) (use page room in \<open>simp_all add: boot_numbers\<close>)
  then obtain s' p where s': "boot_map_range e dir stack_va KERNEL_STACK_SIZE (stack - KERNEL_BASE) PERM_WRITEABLE (boot_first e s) = Inr s'"
      "boot_tabs dir (Map.empty(958 \<mapsto> p)) s'" "grown (boot_first e s) s'"
      "unat (ptr_free_mem s') = (unat (ptr_free_mem (boot_first e s)) + 4095) div 4096 * 4096 + 4096"
      "maps_to (Map.empty(958 \<mapsto> p)) stack_va (stack - KERNEL_BASE) PERM_WRITEABLE 8 s'"
    by blast
  then show ?thesis
    using first(4,5,7) grownD(1,2,4) [OF s'(3)] al
    by (intro exI [of _ s'] exI [of _ "Map.empty(958 \<mapsto> p)"]) (simp add: built_def boot_first_def dir_def Let_def)
qed

lemma boot_kernel_tables:
  assumes "built dir stack nf {958} N tabs s" "4096 dvd N" "N + 266240 \<le> ktop" "N + 266240 \<le> kbase + 4096 * nf" "0 < N"
  shows "\<exists>s' tabs'. boot_tables e dir (ucast KERNEL_BASE) s = Inr s' \<and>
      built dir stack nf ({958} \<union> {960..<1024}) (N + 262144) tabs' s'"
proof -
  have b: "boot_tabs dir tabs s" "unat (ptr_free_mem s) = N" "number_of_frames (bkm s) = nf" "boot_dir s = dir"
    "\<And>i. tabs i = None \<longleftrightarrow> i \<noteq> 958" "maps_to tabs stack_va (stack - KERNEL_BASE) PERM_WRITEABLE 8 s"
    "phys_page_directory s = dir - KERNEL_BASE"
    using assms(1) by (auto simp: built_def)
  have room: "boot_room s (4096 * (64 + 1))"
    using assms(3-5) b(2,3) by (simp add: boot_room_def)
  have "(64 :: nat) \<le> 64" "\<And>i. 1024 - 64 \<le> i \<Longrightarrow> tabs i = None" "4096 dvd unat (ptr_free_mem s)"
    using b(2,5) assms(2) by simp_all
  from boot_tables_run [OF this(1) b(1) this(2) room this(3), of e]
  obtain T f tabs' where T: "boot_tables e dir (of_nat (4194304 * (1024 - 64))) s =
        Inr (put_bkm ((bkm s)\<lparr>tables := T\<rparr>) (s\<lparr>ptr_free_mem := f\<rparr>))"
      "boot_tabs dir tabs' (put_bkm ((bkm s)\<lparr>tables := T\<rparr>) (s\<lparr>ptr_free_mem := f\<rparr>))"
      "unat f = unat (ptr_free_mem s) + 4096 * 64"
      "\<forall>i<1024 - 64. tabs' i = tabs i" "\<forall>i. 1024 - 64 \<le> i \<longrightarrow> i < 1024 \<longrightarrow> tabs' i \<noteq> None"
      "\<forall>p i. p \<noteq> dir \<longrightarrow> T p i = tables (bkm s) p i"
    by blast
  let ?s = "put_bkm ((bkm s)\<lparr>tables := T\<rparr>) (s\<lparr>ptr_free_mem := f\<rparr>)"
  have some: "tabs' i = Some p" if "tabs i = Some p" for i p
    using that b(5) [of i] T(4) by (cases "i = 958") auto
  have "maps_to tabs' stack_va (stack - KERNEL_BASE) PERM_WRITEABLE 8 ?s"
    by (rule maps_to_mono [OF b(6,1) some]) (use T(6) in simp_all)
  moreover have "tabs' i = None \<longleftrightarrow> i \<notin> {958} \<union> {960..<1024}" for i
  proof (cases "i < 960")
    case True
    then show ?thesis
      using T(4) b(5) by simp
  next
    case False
    have "i < 1024 \<Longrightarrow> tabs' i \<noteq> None"
      using T(5) [rule_format, of i] False by simp
    moreover have "i < 1024" if some: "tabs' i \<noteq> None"
    proof -
      obtain p where "tabs' i = Some p"
        using some by blast
      then show ?thesis
        by (rule boot_tabsD(5) [OF T(2)])
    qed
    moreover have "i \<notin> {958} \<union> {960..<1024} \<longleftrightarrow> \<not> i < 1024"
      using False by auto
    ultimately show ?thesis
      by blast
  qed
  ultimately show ?thesis
    using T(1-3) b(2-4,7)
    by (intro exI [of _ ?s] exI [of _ tabs']) (simp add: built_def boot_numbers(5) boot_dir_def)
qed

lemma built_same_tables:
  assumes "built dir stack nf S N tabs s" "tables (bkm s') = tables (bkm s)" "boot_dir s' = boot_dir s"
    "number_of_frames (bkm s') = nf" "unat (ptr_free_mem s') = N'" "N \<le> N'" "N' \<le> ktop" "N' \<le> kbase + 4096 * nf" "0 < N'"
    "phys_page_directory s' = phys_page_directory s"
  shows "built dir stack nf S N' tabs s'"
proof -
  have "boot_tabs dir tabs s'"
    by (rule boot_tabs_keep [of dir tabs s]) (use assms in \<open>auto simp: built_def boot_room_def\<close>)
  then show ?thesis
    using assms by (auto simp: built_def maps_to_def)
qed

text \<open>The arrays of frames: only the end of the memory in use and the descriptions of the frames change.\<close>

lemma PAGES_PER_FILE_number: "PAGES_PER_FILE = 133120"
  by (simp add: PAGES_PER_FILE_def PAGE_FILE_SIZE_def PAGE_SIZE_def push_bit_eq_mult unat_div)

lemma boot_arrays_step:
  assumes "built dir stack nf S N tabs s" "4096 dvd N" "0 < N" "24 * nf \<le> 100000000"
    and "N + 24 * nf + 3203072 \<le> ktop" "N + 24 * nf + 3203072 \<le> kbase + 4096 * nf"
  shows "\<exists>N'. built dir stack nf S N' tabs (boot_arrays e s) \<and> N' \<le> N + 24 * nf + 3198976 \<and> N + 3194880 \<le> N'"
proof -
  have b: "unat (ptr_free_mem s) = N" "number_of_frames (bkm s) = nf"
    using assms(1) by (auto simp: built_def)
  let ?sz = "of_nat nf * sizeof_FrameInfo"
  have usz: "unat ?sz = 24 * nf"
    using assms(4) by (simp add: sizeof_FrameInfo_def unat_word_ariths unat_of_nat)
  define p where "p = ROUNDUP (ptr_free_mem s) PAGE_SIZE"
  have room: "boot_room s 4096"
    using assms(3,5,6) b by (simp add: boot_room_def)
  note a = alloc_effect [OF room, of ?sz, folded p_def, unfolded usz b(1)]
  have up: "unat p = N"
    using a(2) assms(4) round_up_aligned [OF assms(2)] by simp
  let ?s = "clear_frames (unat (?sz div sizeof_FrameInfo)) (s\<lparr>ptr_free_mem := p + ?sz, frames_info := p\<rparr>)"
  have us: "unat (ptr_free_mem ?s) = N + 24 * nf" "tables (bkm ?s) = tables (bkm s)" "boot_dir ?s = boot_dir s"
    "number_of_frames (bkm ?s) = nf" "phys_page_directory ?s = phys_page_directory s"
    using a(3) assms(4) up round_up_aligned [OF assms(2)] b by (simp_all add: clear_frames_def Let_def boot_dir_def)
  define p' where "p' = ROUNDUP (ptr_free_mem ?s) PAGE_SIZE"
  let ?sz' = "of_nat PAGES_PER_FILE * sizeof_FrameInfo"
  have usz': "unat ?sz' = 3194880"
    by (simp add: PAGES_PER_FILE_number sizeof_FrameInfo_def)
  have room': "boot_room ?s 4096"
    using assms(3,5,6) us by (simp add: boot_room_def)
  note a' = alloc_effect [OF room', of ?sz', folded p'_def, unfolded usz' us(1)]
  let ?s' = "?s\<lparr>ptr_free_mem := p' + ?sz', disk_frames_info := p'\<rparr>"
  have run: "boot_arrays e s = ?s'"
    using a(1) [of e] a'(1) [of e] assms(4) b
    by (simp add: boot_arrays_def Let_def case_prod_beta)
  have N': "unat (ptr_free_mem ?s') = (N + 24 * nf + 4095) div 4096 * 4096 + 3194880"
    using a'(3) by simp
  note rb = round_up_bounds [of "N + 24 * nf"]
  have "built dir stack nf S ((N + 24 * nf + 4095) div 4096 * 4096 + 3194880) tabs ?s'"
    by (rule built_same_tables [OF assms(1)]) (use N' us rb assms(5,6) in \<open>auto simp: boot_dir_def\<close>)
  then show ?thesis
    using rb unfolding run by (intro exI [of _ "(N + 24 * nf + 4095) div 4096 * 4096 + 3194880"]) auto
qed

definition listed :: "boot \<Rightarrow> bool" where
  "listed s \<longleftrightarrow> (\<forall>i\<in>{957, 959}. tables (bkm s) (boot_dir s) (of_nat i) = (boot_dir s - KERNEL_BASE) OR
     (if i = 957 then PERM_USER OR PERM_PRESENT else PERM_PRESENT OR PERM_WRITEABLE))"

lemma boot_listing:
  assumes "built dir stack nf S N tabs s"
  shows "\<exists>s'. setup_listing_to_all_page_tables_entries s = Inr s' \<and> built dir stack nf S N tabs s' \<and> listed s' \<and>
     ptr_free_mem s' = ptr_free_mem s"
proof -
  have b: "boot_tabs dir tabs s" "boot_dir s = dir"
    using assms by (auto simp: built_def)
  note D = boot_tabsD(1,2) [OF b(1)]
  let ?a = "CONSTRUCT_ENTRY (dir - KERNEL_BASE) (PERM_PRESENT OR PERM_WRITEABLE)"
  let ?b = "dir - KERNEL_BASE OR PERM_USER OR PERM_PRESENT"
  let ?k = "set_entry dir 957 ?b (set_entry dir 959 ?a (bkm s))"
  have run: "setup_listing_to_all_page_tables_entries s = Inr (put_bkm ?k s)"
    using phys_page(5) [OF D] boot_page_nz [OF D(1)]
    by (simp add: setup_listing_to_all_page_tables_entries_def b(2) table_write_def boot_numbers)
  have apart: "of_nat i \<noteq> (957 :: u32)" "of_nat i \<noteq> (959 :: u32)" if "i < 1024" "i \<noteq> 957" "i \<noteq> 959" for i
  proof -
    have "unat (of_nat i :: u32) = i"
      using that(1) by (intro unat_of_nat_small) simp
    moreover have "unat (957 :: u32) = 957" "unat (959 :: u32) = 959"
      by simp_all
    ultimately show "of_nat i \<noteq> (957 :: u32)" "of_nat i \<noteq> (959 :: u32)"
      using that(2,3) by metis+
  qed
  have "tables (bkm (put_bkm ?k s)) dir (of_nat i) = tables (bkm s) dir (of_nat i)"
    if "i < 1024" "i \<noteq> 957" "i \<noteq> 959" for i
    using apart [OF that] by (simp add: set_entry_def)
  then have tabs: "boot_tabs dir tabs (put_bkm ?k s)"
    using D(2) by (intro boot_tabs_keep [OF b(1)]) (simp_all add: set_entry_def boot_room_def)
  have "maps_to tabs stack_va (stack - KERNEL_BASE) PERM_WRITEABLE 8 s"
    using assms by (simp add: built_def)
  then have "maps_to tabs stack_va (stack - KERNEL_BASE) PERM_WRITEABLE 8 (put_bkm ?k s)"
    by (rule maps_to_mono [OF _ b(1)]) (simp_all add: set_entry_def)
  then have "built dir stack nf S N tabs (put_bkm ?k s)"
    using assms tabs by (simp add: built_def boot_dir_def set_entry_def)
  moreover have "listed (put_bkm ?k s)"
    using b(2) by (simp add: listed_def boot_dir_def set_entry_def CONSTRUCT_ENTRY_def or.assoc)
  ultimately show ?thesis
    using run by (intro exI [of _ "put_bkm ?k s"]) simp
qed

text \<open>The array of environments: its page table is new, and its pages are for the user to read.\<close>

lemma leads_user:
  assumes "leads e p"
  shows "leads (e OR (PERM_USER OR (PERM_PRESENT AND NOT PERM_WRITEABLE))) p"
proof -
  have n: "PERM_USER OR (PERM_PRESENT AND NOT PERM_WRITEABLE) = 5"
    by (simp add: perm_defs)
  have "(e OR 5) AND PERM_PRESENT = (e AND PERM_PRESENT) OR 1"
    by (simp add: perm_defs bit.conj_disj_distrib2)
  then have "(e OR 5) AND PERM_PRESENT \<noteq> 0"
    by (simp add: or_eq_0_iff)
  moreover have "EXTRACT_ADDRESS (e OR 5) = EXTRACT_ADDRESS e"
    by (simp add: EXTRACT_ADDRESS_def bit.conj_disj_distrib2)
  ultimately show ?thesis
    using assms unfolding n leads_def by simp
qed

lemma boot_tabs_user:
  assumes "boot_tabs dir tabs s" "tabs 955 = Some p"
  shows "boot_tabs dir tabs (put_bkm (set_entry dir 955
      (tables (bkm s) dir 955 OR (PERM_USER OR (PERM_PRESENT AND NOT PERM_WRITEABLE))) (bkm s)) s)"
    (is "boot_tabs dir tabs ?s'")
proof -
  note D = boot_tabsD [OF assms(1)]
  have same: "tables (bkm ?s') dir (of_nat i) = tables (bkm s) dir (of_nat i)" if "i < 1024" "i \<noteq> 955" for i
  proof -
    have "unat (of_nat i :: u32) = i" "unat (955 :: u32) = 955"
      using that(1) by (simp_all add: unat_of_nat_small)
    then have "of_nat i \<noteq> (955 :: u32)"
      using that(2) by metis
    then show ?thesis
      by (simp add: set_entry_def)
  qed
  have new: "leads (tables (bkm ?s') dir (of_nat 955)) p"
    using leads_user D(8) [OF assms(2)] by (simp add: set_entry_def)
  have page: "boot_page q s \<Longrightarrow> boot_page q ?s'" for q
    by (simp add: boot_page_def)
  show ?thesis
  proof (rule boot_tabsI)
    fix i q assume i: "tabs i = Some q"
    show "leads (tables (bkm ?s') dir (of_nat i)) q"
    proof (cases "i = 955")
      case True
      then show ?thesis
        using new i assms(2) by simp
    next
      case False
      then show ?thesis
        using D(8) [OF i] same [OF D(5) [OF i]] by simp
    qed
    show "i < 1024" "boot_page q ?s'" "q \<noteq> dir"
      using D(5-7) [OF i] page by blast+
  next
    fix i assume i: "tabs i = None" "i < 1024" "i \<noteq> 957" "i \<noteq> 959"
    then have "i \<noteq> 955"
      using assms(2) by auto
    then show "tables (bkm ?s') dir (of_nat i) = 0"
      using D(10) [OF i] same i(2) by simp
  next
    show "boot_room ?s' 0"
      using D(2) by (simp add: boot_room_def set_entry_def)
  qed (use D(3,4,9) page [OF D(1)] in blast)+
qed

definition env_pages :: "u32 \<Rightarrow> (nat \<Rightarrow> u32 option) \<Rightarrow> boot \<Rightarrow> bool" where
  "env_pages p tabs s \<longleftrightarrow> envs s = p \<and> boot_page p s \<and> maps_to tabs UENVS (p - KERNEL_BASE) PERM_USER 256 s"

lemma map_envs_step:
  assumes "built dir stack nf ({958} \<union> {960..<1024}) N tabs s" "listed s"
    and "0 < N" "N + 1100000 \<le> ktop" "N + 1100000 \<le> kbase + 4096 * nf"
  shows "\<exists>s' tabs' p N'. map_envs e s = Inr s' \<and> built dir stack nf ({955, 958} \<union> {960..<1024}) N' tabs' s' \<and> listed s' \<and>
      env_pages p tabs' s' \<and> N' \<le> N + 1100000 \<and> N + 1047280 \<le> N'"
proof -
  have b: "boot_tabs dir tabs s" "unat (ptr_free_mem s) = N" "number_of_frames (bkm s) = nf" "boot_dir s = dir"
    "\<And>i. tabs i = None \<longleftrightarrow> i \<notin> {958} \<union> {960..<1024}" "maps_to tabs stack_va (stack - KERNEL_BASE) PERM_WRITEABLE 8 s"
    "phys_page_directory s = dir - KERNEL_BASE"
    using assms(1) by (simp_all add: built_def)
  let ?sz = "of_nat NENV * sizeof_Env"
  have usz: "unat ?sz = 1047280"
    by (simp add: env_constants sizeof_Env_def)
  define p where "p = ROUNDUP (ptr_free_mem s) PAGE_SIZE"
  have room: "boot_room s 4096"
    using assms(3-5) b by (simp add: boot_room_def)
  note a = alloc_effect [OF room, of ?sz, folded p_def, unfolded usz b(2)]
  note rb = round_up_bounds [of N]
  define s1 where "s1 = clear_envs NENV (s\<lparr>ptr_free_mem := p + ?sz, envs := p\<rparr>)"
  have s1: "tables (bkm s1) = tables (bkm s)" "boot_dir s1 = dir" "number_of_frames (bkm s1) = nf" "envs s1 = p"
    "unat (ptr_free_mem s1) = unat p + 1047280" "phys_page_directory s1 = phys_page_directory s"
    using a b by (simp_all add: s1_def clear_envs_def boot_dir_def bkm_def)
  have up: "unat p = (N + 4095) div 4096 * 4096"
    using a(2) by simp
  have b1: "built dir stack nf ({958} \<union> {960..<1024}) (unat p + 1047280) tabs s1"
    by (rule built_same_tables [OF assms(1)]) (use s1 up rb assms(4,5) b(4) in \<open>simp_all\<close>)
  then have t1: "boot_tabs dir tabs s1"
    by (simp add: built_def)
  have bp: "boot_page p s1"
    using boot_tabsD(1) [OF b(1)] rb up s1(5) b(2) by (auto simp: boot_page_def)
  have pa: "STATIC_KERNEL_PHYSICAL_ADDRESS p = Inr (p - KERNEL_BASE)"
    using phys_page(5) [OF bp boot_tabsD(2) [OF t1]] .
  have page: "unat (PDX (page_at UENVS j)) = 955" if "j < 256" for j
    unfolding unat_PDX using that by (subst unat_page_at) (auto simp: boot_numbers intro!: div_exactly)
  have room1: "boot_room s1 8192"
    using s1 rb up assms(4,5) boot_tabsD(2) [OF t1] by (simp add: boot_room_def)
  have "\<exists>s' q. boot_map_range e dir UENVS ?sz (p - KERNEL_BASE) PERM_USER s1 = Inr s' \<and>
      boot_tabs dir (tabs(955 \<mapsto> q)) s' \<and> grown s1 s' \<and>
      unat (ptr_free_mem s') = (unat (ptr_free_mem s1) + 4095) div 4096 * 4096 + 4096 \<and>
      maps_to (tabs(955 \<mapsto> q)) UENVS (p - KERNEL_BASE) PERM_USER 256 s' \<and>
      (\<forall>i. i \<noteq> PDX UENVS \<longrightarrow> tables (bkm s') dir i = tables (bkm s1) dir i) \<and>
      (\<forall>va' pa' perm' m. maps_to tabs va' pa' perm' m s1 \<longrightarrow> maps_to (tabs(955 \<mapsto> q)) va' pa' perm' m s')"
    by (rule map_stage_new [OF t1]) (use page room1 b(5) in \<open>simp_all add: boot_numbers usz\<close>)
  then obtain s2 q where s2: "boot_map_range e dir UENVS ?sz (p - KERNEL_BASE) PERM_USER s1 = Inr s2"
      "boot_tabs dir (tabs(955 \<mapsto> q)) s2" "grown s1 s2"
      "unat (ptr_free_mem s2) = (unat (ptr_free_mem s1) + 4095) div 4096 * 4096 + 4096"
      "maps_to (tabs(955 \<mapsto> q)) UENVS (p - KERNEL_BASE) PERM_USER 256 s2"
      "\<forall>i. i \<noteq> PDX UENVS \<longrightarrow> tables (bkm s2) dir i = tables (bkm s1) dir i"
      "\<forall>va' pa' perm' m. maps_to tabs va' pa' perm' m s1 \<longrightarrow> maps_to (tabs(955 \<mapsto> q)) va' pa' perm' m s2"
    by blast
  have stk: "maps_to (tabs(955 \<mapsto> q)) stack_va (stack - KERNEL_BASE) PERM_WRITEABLE 8 s2"
    using s2(7) b1 by (simp add: built_def)
  let ?tabs = "tabs(955 \<mapsto> q)"
  let ?s = "put_bkm (set_entry dir 955
      (tables (bkm s2) dir 955 OR (PERM_USER OR (PERM_PRESENT AND NOT PERM_WRITEABLE))) (bkm s2)) s2"
  have nz: "dir \<noteq> 0"
    using boot_page_nz [OF boot_tabsD(1) [OF t1]] by simp
  have run: "map_envs e s = Inr ?s"
    using a(1) [of e] s1(2) pa s2(1) nz
    by (simp add: map_envs_def Let_def usz case_prod_beta s1_def [symmetric] table_read_def table_write_def boot_numbers)
  note g = grownD [OF s2(3)]
  have t: "boot_tabs dir ?tabs ?s"
    by (rule boot_tabs_user [OF s2(2)]) simp
  have keep: "maps_to ?tabs va pa perm n ?s" if "maps_to ?tabs va pa perm n s2" for va pa perm n
    by (rule maps_to_mono [OF that s2(2)]) (simp_all add: set_entry_def)
  define N' where "N' = unat (ptr_free_mem s2)"
  have "built dir stack nf ({955, 958} \<union> {960..<1024}) N' ?tabs ?s"
    using t keep [OF stk] b(5,7) g(1,2,4) s1(2,3,6) by (auto simp: built_def boot_dir_def set_entry_def N'_def)
  moreover have "listed ?s"
    using assms(2) s2(6) s1(1,2) g(2) b(4) by (simp add: listed_def boot_dir_def set_entry_def boot_numbers(8))
  moreover have "boot_page p s2"
    using bp s2(4) round_up_bounds(1) [of "unat (ptr_free_mem s1)"] by (elim boot_page_mono) linarith
  then have "env_pages p ?tabs ?s"
    using keep [OF s2(5)] g(3) s1(4) by (simp add: env_pages_def boot_page_def)
  moreover have "N' \<le> N + 1100000" "N + 1047280 \<le> N'"
    using s2(4) s1(5) up rb round_up_bounds [of "unat (ptr_free_mem s1)"] by (simp_all add: N'_def)
  ultimately show ?thesis
    using run by blast
qed

text \<open>The kernel's own range, at the end.\<close>

definition pages_in :: "nat \<Rightarrow> nat" where "pages_in N = (N - kbase + 4095) div 4096"

lemma pages_in_bounds:
  assumes "kbase < N"
  shows "N \<le> kbase + 4096 * pages_in N" "kbase + 4096 * pages_in N < N + 4096"
  using assms round_up_bounds [of "N - kbase"] by (simp_all add: pages_in_def mult.commute)

lemma kernel_page:
  assumes "kbase + 4096 * j < 4294967296"
  shows "unat (page_at KERNEL_BASE j) = kbase + 4096 * j" "960 \<le> unat (PDX (page_at KERNEL_BASE j))"
proof -
  show u: "unat (page_at KERNEL_BASE j) = kbase + 4096 * j"
    using assms by (subst unat_page_at) (simp_all add: boot_numbers)
  have "960 * 4194304 div 4194304 \<le> (kbase + 4096 * j) div 4194304"
    by (rule div_le_mono) (simp add: kbase_def)
  then show "960 \<le> unat (PDX (page_at KERNEL_BASE j))"
    unfolding unat_PDX u by simp
qed

lemma low_pages:
  shows "j < 8 \<Longrightarrow> unat (PDX (page_at stack_va j)) = 958" "j < 256 \<Longrightarrow> unat (PDX (page_at UENVS j)) = 955"
  unfolding unat_PDX by (subst unat_page_at; auto simp: boot_numbers intro!: div_exactly)+

definition maps_kernel :: "(nat \<Rightarrow> u32 option) \<Rightarrow> boot \<Rightarrow> bool" where
  "maps_kernel tabs s \<longleftrightarrow> maps_to tabs KERNEL_BASE 0 PERM_WRITEABLE (pages_in (unat (ptr_free_mem s))) s"

lemma boot_kernel_range:
  assumes "built dir stack nf ({955, 958} \<union> {960..<1024}) N tabs s" "listed s" "env_pages p tabs s"
  shows "\<exists>s'. boot_map_range e dir KERNEL_BASE (ptr_free_mem s - KERNEL_BASE) 0 PERM_WRITEABLE s = Inr s' \<and>
      built dir stack nf ({955, 958} \<union> {960..<1024}) N tabs s' \<and> listed s' \<and> env_pages p tabs s' \<and> maps_kernel tabs s' \<and>
      grown s s'"
proof -
  have b: "boot_tabs dir tabs s" "unat (ptr_free_mem s) = N" "number_of_frames (bkm s) = nf" "boot_dir s = dir"
    "\<And>i. tabs i = None \<longleftrightarrow> i \<notin> {955, 958} \<union> {960..<1024}" "maps_to tabs stack_va (stack - KERNEL_BASE) PERM_WRITEABLE 8 s"
    "phys_page_directory s = dir - KERNEL_BASE"
    using assms(1) by (simp_all add: built_def)
  have N: "kbase < N" "N \<le> ktop"
    using boot_tabsD(1,2) [OF b(1)] b(2) by (auto simp: boot_page_def boot_room_def)
  let ?n = "pages_in N"
  note pb = pages_in_bounds [OF N(1)]
  have lim: "kbase + 4096 * j < 4294967296" if "j \<le> ?n" for j
    using that pb N(2) mult_le_mono2 [OF that, of 4096] by (simp add: ktop_def)
  have sz: "unat (ptr_free_mem s - KERNEL_BASE) = N - kbase"
    using N(1) b(2) by (subst unat_sub_u32) (simp_all add: boot_numbers word_le_nat_alt)
  have "tabs (unat (PDX (page_at KERNEL_BASE j))) \<noteq> None" if "j < ?n" for j
    using b(5) kernel_page(2) [OF lim [of j]] PDX_lt that by simp
  moreover have "4096 dvd unat KERNEL_BASE" "unat KERNEL_BASE + 4096 * ?n < 4294967296"
    "unat (ptr_free_mem s - KERNEL_BASE) \<le> 4096 * ?n" "4096 * ?n < unat (ptr_free_mem s - KERNEL_BASE) + 4096"
    using lim [of ?n] pb N(1) by (simp_all add: sz boot_numbers) (simp add: kbase_def)
  ultimately obtain s' where s': "boot_map_range e dir KERNEL_BASE (ptr_free_mem s - KERNEL_BASE) 0 PERM_WRITEABLE s = Inr s'"
      "boot_tabs dir tabs s'" "grown s s'" "ptr_free_mem s' = ptr_free_mem s" "maps_to tabs KERNEL_BASE 0 PERM_WRITEABLE ?n s'"
      "\<forall>i. tables (bkm s') dir i = tables (bkm s) dir i"
      "\<forall>va' pa' perm' m. maps_to tabs va' pa' perm' m s \<longrightarrow>
         (\<forall>j<m. \<forall>i<?n. PDX (page_at va' j) \<noteq> PDX (page_at KERNEL_BASE i)) \<longrightarrow> maps_to tabs va' pa' perm' m s'"
    using map_stage [OF b(1), of KERNEL_BASE ?n "ptr_free_mem s - KERNEL_BASE" e 0 PERM_WRITEABLE] by blast
  have "PDX (page_at stack_va j) \<noteq> PDX (page_at KERNEL_BASE i)" if "j < 8" "i < ?n" for i j
    using low_pages(1) [OF that(1)] kernel_page(2) [OF lim [of i]] that(2) by fastforce
  then have "maps_to tabs stack_va (stack - KERNEL_BASE) PERM_WRITEABLE 8 s'"
    using s'(7) b(6) by blast
  moreover have "PDX (page_at UENVS j) \<noteq> PDX (page_at KERNEL_BASE i)" if "j < 256" "i < ?n" for i j
    using low_pages(2) [OF that(1)] kernel_page(2) [OF lim [of i]] that(2) by fastforce
  then have "maps_to tabs UENVS (p - KERNEL_BASE) PERM_USER 256 s'"
    using s'(7) assms(3) unfolding env_pages_def by blast
  moreover note g = grownD [OF s'(3)]
  ultimately have "built dir stack nf ({955, 958} \<union> {960..<1024}) N tabs s'" "listed s'" "env_pages p tabs s'"
    "maps_kernel tabs s'"
    using s'(2,4-6) b(2-5,7) g assms(2,3)
    by (auto simp: built_def listed_def env_pages_def maps_kernel_def boot_page_def)
  then show ?thesis
    using s'(1,3) by blast
qed

section \<open>The check succeeds\<close>

lemma page_of:
  assumes "KERNEL_BASE \<le> va"
  defines "j \<equiv> (unat va - kbase) div 4096"
  shows "PDX va = PDX (page_at KERNEL_BASE j)" "PTX va = PTX (page_at KERNEL_BASE j)"
    "page_at 0 j = ROUNDDOWN va PAGE_SIZE - KERNEL_BASE"
proof -
  have kb: "kbase \<le> unat va"
    using assms(1) by (simp add: word_le_nat_alt boot_numbers)
  define x where "x = unat va - kbase"
  have va: "unat va = kbase + x" "x < 268435456"
    using kb unat_lt_2p32 [of va] unfolding x_def kbase_def by linarith+
  have j: "j = x div 4096"
    by (simp add: j_def x_def)
  have d: "(kbase + x) div 4096 = 983040 + x div 4096"
    using div_mult_self3 [of 4096 983040 x] by (simp add: kbase_def)
  have up: "unat (page_at KERNEL_BASE j) = (kbase + x) div 4096 * 4096"
  proof (subst kernel_page(1))
    show "kbase + 4096 * j < 4294967296"
      using va(2) unfolding j kbase_def by linarith
    show "kbase + 4096 * j = (kbase + x) div 4096 * 4096"
      unfolding d j by (simp add: kbase_def)
  qed
  have e: "unat (page_at KERNEL_BASE j) div 4096 = unat va div 4096"
    unfolding up va by simp
  have "a div 4194304 = a div 4096 div 1024" for a :: nat
    by (simp add: div_mult2_eq [symmetric])
  then show "PDX va = PDX (page_at KERNEL_BASE j)" "PTX va = PTX (page_at KERNEL_BASE j)"
    unfolding u32_eq_iff unat_PDX unat_PTX using e by (simp_all only:)
  have r: "unat (ROUNDDOWN va PAGE_SIZE) = kbase + x div 4096 * 4096"
    unfolding ROUNDDOWN_unat va unat_PAGE_SIZE d by (simp add: kbase_def)
  then have "unat (ROUNDDOWN va PAGE_SIZE - KERNEL_BASE) = x div 4096 * 4096"
    by (subst unat_sub_u32) (simp_all add: word_le_nat_alt boot_numbers)
  moreover have "unat (page_at 0 j) = x div 4096 * 4096"
  proof (subst unat_page_at)
    show "unat (0 :: u32) + 4096 * j < 4294967296"
      using va(2) unfolding j by simp
  qed (simp add: j)
  ultimately show "page_at 0 j = ROUNDDOWN va PAGE_SIZE - KERNEL_BASE"
    by (simp only: u32_eq_iff)
qed

lemma perms_fit: "PERM_WRITEABLE OR PERM_PRESENT < 4096" "PERM_USER OR PERM_PRESENT < 4096"
  by (simp_all add: perm_defs)

lemma kernel_address:
  assumes "built dir stack nf S N tabs s" "maps_kernel tabs s" "KERNEL_BASE \<le> va" "va < ptr_free_mem s"
  shows "check_va2pa dir va (bkm s) = Inr (ROUNDDOWN va PAGE_SIZE - KERNEL_BASE)"
proof -
  have t: "boot_tabs dir tabs s"
    using assms(1) by (simp add: built_def)
  define j where "j = (unat va - kbase) div 4096"
  let ?N = "unat (ptr_free_mem s)"
  have N: "kbase < ?N" "?N \<le> ktop" "kbase \<le> unat va" "unat va < ?N"
    using boot_tabsD(1,2) [OF t] assms(3,4)
    by (auto simp: boot_page_def boot_room_def word_le_nat_alt word_less_nat_alt boot_numbers)
  note pb = pages_in_bounds [OF N(1)]
  have "j < pages_in ?N"
    unfolding j_def using N(3,4) pb(1) by (intro less_mult_imp_div_less) linarith
  then have "check_va2pa dir va (bkm s) = Inr (page_at 0 j)"
    using N(2) pb(2) page_of [OF assms(3)] perms_fit
    by (intro check_mapped [OF t assms(2) [unfolded maps_kernel_def]]) (simp_all add: ktop_def kbase_def j_def)
  then show ?thesis
    using page_of(3) [OF assms(3)] by (simp add: j_def)
qed

lemma stack_address:
  assumes "built dir stack nf S N tabs s" "j < 8" "4096 dvd unat stack" "kbase \<le> unat stack" "unat stack \<le> ktop"
  shows "check_va2pa dir (page_at stack_va j) (bkm s) = Inr (page_at (stack - KERNEL_BASE) j)"
proof -
  have u: "unat (stack - KERNEL_BASE) = unat stack - kbase"
    using assms(4) by (subst unat_sub_u32) (simp_all add: boot_numbers word_le_nat_alt)
  have d: "4096 dvd unat (stack - KERNEL_BASE)"
    unfolding u using assms(3) by (intro dvd_diff_nat) (simp_all add: kbase_def)
  have "unat (stack - KERNEL_BASE) + 4096 * 8 < 4294967296"
    unfolding u using assms(5) by (simp add: ktop_def)
  moreover have "boot_tabs dir tabs s" "maps_to tabs stack_va (stack - KERNEL_BASE) PERM_WRITEABLE 8 s"
    using assms(1) by (simp_all add: built_def)
  ultimately show ?thesis
    using check_mapped [of dir tabs s stack_va "stack - KERNEL_BASE" PERM_WRITEABLE 8 j] assms(2) d perms_fit(1) by simp
qed

lemma env_address:
  assumes "built dir stack nf S N tabs s" "env_pages p tabs s" "j < 256"
  shows "check_va2pa dir (page_at UENVS j) (bkm s) = Inr (page_at (p - KERNEL_BASE) j)"
proof -
  have t: "boot_tabs dir tabs s"
    using assms(1) by (simp add: built_def)
  have p: "boot_page p s" "maps_to tabs UENVS (p - KERNEL_BASE) PERM_USER 256 s"
    using assms(2) by (simp_all add: env_pages_def)
  note ph = phys_page(1,3) [OF p(1) boot_tabsD(2) [OF t]]
  have "unat (p - KERNEL_BASE) + 4096 * 256 < 4294967296"
    unfolding ph(1) kbase_def using unat_lt_2p32 [of p] by linarith
  then show ?thesis
    using check_mapped [OF t p(2) assms(3) ph(2)] perms_fit(2) by simp
qed

lemma for_each_unit: "(\<And>x. x \<in> set xs \<Longrightarrow> body x () = Inr ()) \<Longrightarrow> for_each body xs () = Inr ()"
  by (induction xs) simp_all

lemma boot_entries:
  assumes "built dir stack nf ({955, 958} \<union> {960..<1024}) N tabs s" "listed s" "i < 1024"
  shows "assert_pde dir (bkm s) i = Inr ()"
proof -
  have t: "boot_tabs dir tabs s" "boot_dir s = dir" "\<And>i. tabs i = None \<longleftrightarrow> i \<notin> {955, 958} \<union> {960..<1024}"
    using assms(1) by (simp_all add: built_def)
  have ui: "unat (of_nat i :: u32) = i"
    using assms(3) by (intro unat_of_nat_small) simp
  have nz: "dir \<noteq> 0"
    using boot_page_nz [OF boot_tabsD(1) [OF t(1)]] by simp
  have n: "unat (955 :: u32) = 955" "unat (957 :: u32) = 957" "unat (958 :: u32) = 958" "unat (959 :: u32) = 959"
    by simp_all
  have stk: "PDX (KERNEL_STACK_TOP - 1) = 958" "unat (PDX KERNEL_BASE) = 960"
    by (simp_all add: layout_defs PDX_def)
  have special: "of_nat i \<in> {PDX VPT, PDX UVPT, PDX (KERNEL_STACK_TOP - 1), PDX UENVS} \<longleftrightarrow> i \<in> {955, 957, 958, 959}"
    unfolding boot_numbers stk insert_iff empty_iff u32_eq_iff ui n by auto
  consider (own) "i \<in> {955, 958} \<union> {960..<1024}" | (listing) "i = 957 \<or> i = 959"
    | (none) "i \<notin> {955, 957, 958, 959} \<union> {960..<1024}"
    by blast
  then show ?thesis
  proof cases
    case own
    then obtain p where "tabs i = Some p"
      using t(3) [of i] by blast
    then have "tables (bkm s) dir (of_nat i) AND PERM_PRESENT \<noteq> 0"
      using boot_tabsD(8) [OF t(1)] by (simp add: leads_def)
    then have "tables (bkm s) dir (of_nat i) \<noteq> 0"
      by auto
    then show ?thesis
      using own nz unfolding assert_pde_def special by (auto simp: table_read_def assert_that_def stk)
  next
    case listing
    then have "tables (bkm s) dir (of_nat i) = dir - KERNEL_BASE OR (if i = 957 then PERM_USER OR PERM_PRESENT else PERM_PRESENT OR PERM_WRITEABLE)"
      using assms(2) t(2) unfolding listed_def by blast
    then have "tables (bkm s) dir (of_nat i) \<noteq> 0"
      by (simp add: or_eq_0_iff perm_defs)
    then show ?thesis
      using listing nz unfolding assert_pde_def special by (auto simp: table_read_def assert_that_def stk)
  next
    case none
    then have "tables (bkm s) dir (of_nat i) = 0"
      using boot_tabsD(10) [OF t(1), of i] t(3) [of i] assms(3) by simp
    then show ?thesis
      using none assms(3) nz unfolding assert_pde_def special by (auto simp: table_read_def assert_that_def stk)
  qed
qed

lemma boot_check:
  assumes "built dir stack nf ({955, 958} \<union> {960..<1024}) N tabs s" "listed s" "maps_kernel tabs s"
    and "4096 dvd unat stack" "kbase \<le> unat stack" "unat stack \<le> ktop"
  shows "check_boot_pgdir stack s = Inr ()"
proof -
  have t: "boot_tabs dir tabs s" "boot_dir s = dir"
    using assms(1) by (simp_all add: built_def)
  let ?N = "unat (ptr_free_mem s)"
  have N: "kbase < ?N" "?N \<le> ktop"
    using boot_tabsD(1,2) [OF t(1)] by (auto simp: boot_page_def boot_room_def)
  note pb = pages_in_bounds [OF N(1)]
  have one: "for_pages KERNEL_BASE (ptr_free_mem s) (\<lambda>va _. assert_pa dir va (va - KERNEL_BASE) (bkm s)) () = Inr ()"
  proof (subst for_pages_upto)
    show "unat KERNEL_BASE + 4096 * pages_in ?N < 4294967296" "?N \<le> unat KERNEL_BASE + 4096 * pages_in ?N"
      "unat KERNEL_BASE + 4096 * pages_in ?N < ?N + 4096"
      using pb N(2) by (simp_all add: boot_numbers ktop_def)
    show "for_each (\<lambda>va _. assert_pa dir va (va - KERNEL_BASE) (bkm s)) (page_list KERNEL_BASE (pages_in ?N)) () = Inr ()"
    proof (rule for_each_unit)
      fix va assume "va \<in> set (page_list KERNEL_BASE (pages_in ?N))"
      then obtain j where j: "j < pages_in ?N" "va = page_at KERNEL_BASE j"
        by (auto simp: page_list_eq page_at_def)
      have "kbase + 4096 * Suc j \<le> kbase + 4096 * pages_in ?N"
        using j(1) by (intro add_left_mono mult_le_mono2) simp
      then have lim: "kbase + 4096 * j < ?N" "kbase + 4096 * j < 4294967296"
        using pb(2) N(2) by (simp_all add: ktop_def)
      note u = kernel_page(1) [OF lim(2), folded j(2)]
      have in_range: "KERNEL_BASE \<le> va" "va < ptr_free_mem s"
        using u lim(1) by (simp_all add: word_le_nat_alt word_less_nat_alt boot_numbers)
      have "unat PAGE_SIZE dvd unat va"
        unfolding u unat_PAGE_SIZE by (intro dvd_add) (simp_all add: kbase_def)
      then have "ROUNDDOWN va PAGE_SIZE = va"
        by (rule ROUNDDOWN_idem)
      then show "assert_pa dir va (va - KERNEL_BASE) (bkm s) = Inr ()"
        using kernel_address [OF assms(1,3) in_range] by (simp add: assert_pa_def assert_that_def)
    qed
  qed
  have pa: "STATIC_KERNEL_PHYSICAL_ADDRESS stack = Inr (stack - KERNEL_BASE)"
    using assms(5) by (simp add: STATIC_KERNEL_PHYSICAL_ADDRESS_def word_less_nat_alt boot_numbers)
  have two: "for_pages 0 KERNEL_STACK_SIZE (\<lambda>i _. andthen (STATIC_KERNEL_PHYSICAL_ADDRESS stack) (\<lambda>pa.
      assert_pa dir (KERNEL_STACK_TOP - KERNEL_STACK_SIZE + i) (pa + i) (bkm s))) () = Inr ()"
  proof (subst for_pages_upto [where n = 8])
    show "for_each (\<lambda>i _. andthen (STATIC_KERNEL_PHYSICAL_ADDRESS stack) (\<lambda>pa.
        assert_pa dir (KERNEL_STACK_TOP - KERNEL_STACK_SIZE + i) (pa + i) (bkm s))) (page_list 0 8) () = Inr ()"
    proof (rule for_each_unit)
      fix i assume "i \<in> set (page_list 0 8)"
      then obtain j where j: "j < 8" "i = of_nat j * PAGE_SIZE"
        by (auto simp: page_list_eq)
      show "andthen (STATIC_KERNEL_PHYSICAL_ADDRESS stack) (\<lambda>pa.
          assert_pa dir (KERNEL_STACK_TOP - KERNEL_STACK_SIZE + i) (pa + i) (bkm s)) = Inr ()"
        using stack_address [OF assms(1) j(1) assms(4-6)]
        by (simp add: pa assert_pa_def assert_that_def page_at_def stack_va_def j(2))
    qed
  qed (simp_all add: boot_numbers)
  have "for_each (\<lambda>i _. assert_pde dir (bkm s) i) [0..<1024] () = Inr ()"
    using boot_entries [OF assms(1,2)] by (intro for_each_unit) simp
  then show ?thesis
    using one two by (simp add: check_boot_pgdir_def t(2) Let_def del: upt_rec_numeral)
qed

text \<open>The threshold is apart from the memory.\<close>

lemma threshold_apart [simp]:
  "boot_page q (s\<lparr>memory_scarce_threshold_percentage := x\<rparr>) = boot_page q s"
  "boot_room (s\<lparr>memory_scarce_threshold_percentage := x\<rparr>) n = boot_room s n"
  "boot_tabs dir tabs (s\<lparr>memory_scarce_threshold_percentage := x\<rparr>) = boot_tabs dir tabs s"
  "maps_to tabs va pa perm n (s\<lparr>memory_scarce_threshold_percentage := x\<rparr>) = maps_to tabs va pa perm n s"
  "boot_dir (s\<lparr>memory_scarce_threshold_percentage := x\<rparr>) = boot_dir s"
  by (simp_all add: boot_tabs_def boot_page_def boot_room_def maps_to_def boot_dir_def)

text \<open>The state in which the check is made.\<close>

definition checked :: "u32 \<Rightarrow> u32 \<Rightarrow> nat \<Rightarrow> (nat \<Rightarrow> u32 option) \<Rightarrow> u32 \<Rightarrow> boot \<Rightarrow> bool" where
  "checked e stack nf tabs p s \<longleftrightarrow>
     built (ROUNDUP e PAGE_SIZE) stack nf ({955, 958} \<union> {960..<1024}) (unat (ptr_free_mem s)) tabs s \<and> listed s \<and>
     env_pages p tabs s \<and> maps_kernel tabs s \<and> unat e + 0x400000 \<le> unat (ptr_free_mem s) \<and>
     memory_scarce_threshold_percentage s = DEFAULT_MEM_SCARCE_PERCENTAGE"

lemma boot_builds:
  assumes "boot_input e stack s"
  shows "\<exists>s' tabs p. initialize_kernel_VM e stack s = Inr (turn_on_paging s') \<and>
      checked e stack (number_of_frames (bkm s)) tabs p s'"
proof -
  let ?dir = "ROUNDUP e PAGE_SIZE"
  let ?nf = "number_of_frames (bkm s)"
  have in_bounds: "kbase + 0x100000 \<le> unat e" "unat e + 24 * ?nf + 0x460000 \<le> ktop"
    "unat e + 24 * ?nf + 0x460000 \<le> kbase + 4096 * ?nf"
    "4096 dvd unat stack" "kbase \<le> unat stack" "unat stack \<le> ktop"
    using assms by (simp_all add: boot_input_def Let_def)
  note first = boot_first_tabs [OF assms]
  note rb = round_up_bounds [of "unat e", folded first(6)]
  obtain s1 tabs1 where s1: "boot_map_range e ?dir stack_va KERNEL_STACK_SIZE (stack - KERNEL_BASE) PERM_WRITEABLE (boot_first e s) = Inr s1"
      "built ?dir stack ?nf {958} (unat ?dir + 8192) tabs1 s1"
    using boot_stack [OF assms] by blast
  have al: "4096 dvd unat ?dir + 8192"
    unfolding first(6) by (intro dvd_add) simp_all
  have "\<exists>s2 tabs2. boot_tables e ?dir (ucast KERNEL_BASE) s1 = Inr s2 \<and>
      built ?dir stack ?nf ({958} \<union> {960..<1024}) (unat ?dir + 8192 + 262144) tabs2 s2"
    by (rule boot_kernel_tables [OF s1(2) al]) (use in_bounds rb in simp_all)
  then obtain s2 tabs2 where s2: "boot_tables e ?dir (ucast KERNEL_BASE) s1 = Inr s2"
      "built ?dir stack ?nf ({958} \<union> {960..<1024}) (unat ?dir + 8192 + 262144) tabs2 s2"
    by blast
  have "4096 dvd unat ?dir + 8192 + 262144"
    by (rule dvd_add [OF al]) simp
  then have "\<exists>N'. built ?dir stack ?nf ({958} \<union> {960..<1024}) N' tabs2 (boot_arrays e s2) \<and>
      N' \<le> unat ?dir + 8192 + 262144 + 24 * ?nf + 3198976 \<and> unat ?dir + 8192 + 262144 + 3194880 \<le> N'"
    by (rule boot_arrays_step [OF s2(2)]) (use in_bounds rb in \<open>simp_all add: ktop_def kbase_def\<close>)
  then obtain N3 where s3: "built ?dir stack ?nf ({958} \<union> {960..<1024}) N3 tabs2 (boot_arrays e s2)"
      "N3 \<le> unat ?dir + 24 * ?nf + 3469312" "unat ?dir + 3465216 \<le> N3"
    by auto
  obtain s4 where s4: "setup_listing_to_all_page_tables_entries (boot_arrays e s2) = Inr s4"
      "built ?dir stack ?nf ({958} \<union> {960..<1024}) N3 tabs2 s4" "listed s4"
    using boot_listing [OF s3(1)] by blast
  have "\<exists>s5 tabs5 p N5. map_envs e s4 = Inr s5 \<and> built ?dir stack ?nf ({955, 958} \<union> {960..<1024}) N5 tabs5 s5 \<and> listed s5 \<and>
      env_pages p tabs5 s5 \<and> N5 \<le> N3 + 1100000 \<and> N3 + 1047280 \<le> N5"
    by (rule map_envs_step [OF s4(2,3)]) (use s3(2,3) in_bounds rb in simp_all)
  then obtain s5 tabs5 p N5 where s5: "map_envs e s4 = Inr s5" "built ?dir stack ?nf ({955, 958} \<union> {960..<1024}) N5 tabs5 s5"
      "listed s5" "env_pages p tabs5 s5" "N3 + 1047280 \<le> N5"
    by blast
  obtain s6 where s6: "boot_map_range e ?dir KERNEL_BASE (ptr_free_mem s5 - KERNEL_BASE) 0 PERM_WRITEABLE s5 = Inr s6"
      "built ?dir stack ?nf ({955, 958} \<union> {960..<1024}) N5 tabs5 s6" "listed s6" "env_pages p tabs5 s6" "maps_kernel tabs5 s6"
    using boot_kernel_range [OF s5(2-4)] by blast
  have chk: "check_boot_pgdir stack s6 = Inr ()"
    by (rule boot_check [OF s6(2,3,5) in_bounds(4-6)])
  have stk: "STATIC_KERNEL_PHYSICAL_ADDRESS stack = Inr (stack - KERNEL_BASE)"
    using in_bounds(5) by (simp add: STATIC_KERNEL_PHYSICAL_ADDRESS_def word_less_nat_alt boot_numbers)
  let ?s = "s6\<lparr>memory_scarce_threshold_percentage := DEFAULT_MEM_SCARCE_PERCENTAGE\<rparr>"
  have start: "(clear_directory ?dir (put_bkm ((bkm s)\<lparr>ptr_page_directory := ?dir\<rparr>) (s\<lparr>ptr_free_mem := ?dir + PAGE_SIZE\<rparr>)))
        \<lparr>phys_page_directory := ?dir - KERNEL_BASE\<rparr> = boot_first e s"
    by (simp add: boot_first_def Let_def)
  have "initialize_kernel_VM e stack s = Inr (turn_on_paging ?s)"
    using first(1,2) stk s1(1) s2(1) s4(1) s5(1) s6(1) chk start
    by (simp add: initialize_kernel_VM_def Let_def stack_va_def)
  moreover have "built ?dir stack ?nf ({955, 958} \<union> {960..<1024}) N5 tabs5 ?s \<and> listed ?s \<and> env_pages p tabs5 ?s \<and> maps_kernel tabs5 ?s"
    using s6(2-5) by (simp add: built_def listed_def env_pages_def maps_kernel_def)
  moreover have "unat (ptr_free_mem ?s) = N5"
    using s6(2) by (simp add: built_def)
  ultimately show ?thesis
    using s3(3) s5(5) rb unfolding checked_def
    by (intro exI [of _ ?s] exI [of _ tabs5] exI [of _ p]) simp
qed

section \<open>The switch\<close>

lemma low_entries_bounds:
  assumes "kbase < unat free" "unat free \<le> ktop"
  shows "low_entries free \<le> 24" "kbase + 4194304 * low_entries free \<le> unat free"
    "unat free < kbase + 4194304 * (low_entries free + 1)"
proof -
  define x where "x = unat free - kbase"
  have free: "unat free = x + 960 * 4194304"
    using assms(1) by (simp add: x_def kbase_def)
  have "unat (PDX free) = x div 4194304 + 960"
    unfolding unat_PDX free by simp
  moreover have "unat (PDX KERNEL_BASE) = 960"
    by (simp add: layout_defs PDX_def)
  ultimately have low: "low_entries free = x div 4194304"
    by (simp add: low_entries_def)
  have "x \<le> 24 * 4194304"
    using assms by (simp add: x_def ktop_def kbase_def)
  then show "low_entries free \<le> 24"
    unfolding low using div_le_mono [of x "24 * 4194304" 4194304] by simp
  show "kbase + 4194304 * low_entries free \<le> unat free" "unat free < kbase + 4194304 * (low_entries free + 1)"
    unfolding low using free dividend_less_div_times [of 4194304 x] div_times_less_eq_dividend [of x 4194304]
    by (simp_all add: kbase_def)
qed

lemma fold_entries:
  assumes "n \<le> 64"
  shows "fold (\<lambda>j. set_entry dir (of_nat j) (f j)) [0..<n] k =
    k\<lparr>tables := (tables k)(dir := (\<lambda>i. if unat i < n then f (unat i) else tables k dir i))\<rparr>"
  using assms
proof (induction n)
  case (Suc n)
  have "i = of_nat n \<longleftrightarrow> unat i = n" for i :: u32
    using Suc.prems unat_of_nat_small [of n] by auto
  then show ?case
    using Suc by (auto simp: set_entry_def fun_eq_iff less_Suc_eq)
qed (simp add: fun_eq_iff)

lemma fold_copy_low:
  assumes "n \<le> 64"
  shows "fold (\<lambda>j k. set_entry dir (of_nat j) (tables k dir (PDX KERNEL_BASE + of_nat j)) k) [0..<n] k =
    fold (\<lambda>j. set_entry dir (of_nat j) (tables k dir (PDX KERNEL_BASE + of_nat j))) [0..<n] k"
  using assms
proof (induction n)
  case (Suc n)
  have "unat (PDX KERNEL_BASE + of_nat n) = 960 + n"
    using Suc.prems by (subst unat_add_u32) (simp_all add: layout_defs PDX_def unat_of_nat_small)
  then have "\<not> unat (PDX KERNEL_BASE + of_nat n) < n"
    by simp
  then show ?case
    using Suc fold_entries [of n] by simp
qed simp

lemma map_low_tables:
  assumes "low_entries (ptr_free_mem s) \<le> 24"
  shows "bkm (map_low s) = (bkm s)\<lparr>tables := (tables (bkm s))(boot_dir s := (\<lambda>i.
      if unat i < low_entries (ptr_free_mem s) then tables (bkm s) (boot_dir s) (PDX KERNEL_BASE + i)
      else tables (bkm s) (boot_dir s) i))\<rparr>"
  using assms by (simp add: map_low_def fold_copy_low fold_entries cong: if_cong)

lemma turn_on_paging_restores:
  assumes "low_entries (ptr_free_mem s) \<le> 24"
    and "\<And>i. unat i < low_entries (ptr_free_mem s) \<Longrightarrow> tables (bkm s) (boot_dir s) i = 0"
  shows "turn_on_paging s = s\<lparr>boot_cr3 := phys_page_directory s, boot_cr0 := paging_cr0 (boot_cr0 s)\<rparr>"
proof -
  have "bkm (unmap_low (paging_on s)) = bkm s"
  proof -
    have [simp]: "bkm (paging_on s) = bkm (map_low s)" "ptr_free_mem (paging_on s) = ptr_free_mem s"
      "boot_dir (paging_on s) = boot_dir s"
      by (simp_all add: paging_on_def boot_dir_def map_low_tables [OF assms(1)]) (simp add: map_low_def)
    have "(\<lambda>i. if unat i < low_entries (ptr_free_mem s) then 0 else tables (bkm s) (boot_dir s) i) = tables (bkm s) (boot_dir s)"
      using assms(2) by (auto simp: fun_eq_iff)
    then show ?thesis
      using assms(1) by (simp add: unmap_low_def fold_entries map_low_tables cong: if_cong)
  qed
  then show ?thesis
    by (simp add: turn_on_paging_def unmap_low_def paging_on_def map_low_def put_bkm_def bkm_def)
qed

lemma check_va2pa_same:
  assumes "tables k dir (PDX a) = tables k' dir (PDX b)" "PTX a = PTX b" "number_of_frames k = number_of_frames k'"
    and "\<And>p i. p \<noteq> dir \<Longrightarrow> tables k p i = tables k' p i"
    and "STATIC_KERNEL_VIRTUAL_ADDRESS (EXTRACT_ADDRESS (tables k' dir (PDX b))) k' \<noteq> Inr dir"
  shows "check_va2pa dir a k = check_va2pa dir b k'"
proof -
  have "STATIC_KERNEL_VIRTUAL_ADDRESS x k = STATIC_KERNEL_VIRTUAL_ADDRESS x k'" for x
    using assms(3) by (simp add: STATIC_KERNEL_VIRTUAL_ADDRESS_def)
  then show ?thesis
    using assms(1,2,4,5)
    by (cases "STATIC_KERNEL_VIRTUAL_ADDRESS (EXTRACT_ADDRESS (tables k' dir (PDX b))) k'")
      (auto simp: check_va2pa_def table_read_def andthen_def)
qed

lemma checkedD:
  assumes "checked e stack nf tabs p s"
  defines "dir \<equiv> ROUNDUP e PAGE_SIZE"
  shows "built dir stack nf ({955, 958} \<union> {960..<1024}) (unat (ptr_free_mem s)) tabs s" "listed s"
    "env_pages p tabs s" "maps_kernel tabs s" "unat e + 0x400000 \<le> unat (ptr_free_mem s)"
    "boot_tabs dir tabs s" "boot_dir s = dir" "phys_page_directory s = dir - KERNEL_BASE"
    "tabs i = None \<longleftrightarrow> i \<notin> {955, 958} \<union> {960..<1024}"
    "kbase < unat (ptr_free_mem s)" "unat (ptr_free_mem s) \<le> ktop"
proof -
  show a: "built dir stack nf ({955, 958} \<union> {960..<1024}) (unat (ptr_free_mem s)) tabs s" "listed s"
    "env_pages p tabs s" "maps_kernel tabs s" "unat e + 0x400000 \<le> unat (ptr_free_mem s)"
    using assms by (simp_all add: checked_def)
  then show b: "boot_tabs dir tabs s" "boot_dir s = dir" "phys_page_directory s = dir - KERNEL_BASE"
    "tabs i = None \<longleftrightarrow> i \<notin> {955, 958} \<union> {960..<1024}"
    by (simp_all add: built_def)
  show "kbase < unat (ptr_free_mem s)" "unat (ptr_free_mem s) \<le> ktop"
    using boot_tabsD(1,2) [OF b(1)] by (auto simp: boot_page_def boot_room_def)
qed

lemma empty_entry:
  assumes "checked e stack nf tabs p s" "unat i < 955"
  shows "tables (bkm s) (boot_dir s) i = 0"
proof -
  have "tabs (unat i) = None" "unat i \<noteq> 957" "unat i \<noteq> 959"
    using checkedD(9) [OF assms(1), of "unat i"] assms(2) by simp_all
  then show ?thesis
    using boot_tabsD(10) [OF checkedD(6) [OF assms(1)], of "unat i"] assms(2) checkedD(7) [OF assms(1)] by simp
qed

lemma no_entry: "tables k dir (PDX va) = 0 \<Longrightarrow> dir \<noteq> 0 \<Longrightarrow> check_va2pa dir va k = Inr (NOT 0)"
  by (simp add: check_va2pa_def table_read_def)

lemma after_switch:
  assumes "checked e stack nf tabs p s"
  shows "turn_on_paging s = s\<lparr>boot_cr3 := phys_page_directory s, boot_cr0 := paging_cr0 (boot_cr0 s)\<rparr>"
    and "low_entries (ptr_free_mem s) \<le> 24"
proof -
  show "low_entries (ptr_free_mem s) \<le> 24"
    using low_entries_bounds(1) checkedD(10,11) [OF assms] by blast
  then show "turn_on_paging s = s\<lparr>boot_cr3 := phys_page_directory s, boot_cr0 := paging_cr0 (boot_cr0 s)\<rparr>"
    using empty_entry [OF assms] by (intro turn_on_paging_restores) auto
qed

lemma PDX_user: "va < UENVS \<Longrightarrow> unat (PDX va) < 955"
proof -
  assume "va < UENVS"
  then have "unat va < 955 * 4194304"
    by (simp add: word_less_nat_alt boot_numbers)
  then show "unat (PDX va) < 955"
    unfolding unat_PDX by (rule less_mult_imp_div_less)
qed

lemma dir_nonzero: "checked e stack nf tabs p s \<Longrightarrow> boot_dir s \<noteq> 0"
  using boot_page_nz boot_tabsD(1) checkedD(6,7) by metis

text \<open>C11: Booting builds the kernel's address space and its own check of it succeeds: when the function
  returns, every address from KERNEL_BASE to the end of the boot data is mapped to the frame at its offset,
  the kernel stack and the array of environments are mapped where the kernel will use them, the user's
  part of the space is empty, paging is on, and the directory register holds the directory's frame.\<close>

theorem boot_maps_kernel:
  assumes "boot_input e stack s"
  shows "\<exists>s'. initialize_kernel_VM e stack s = Inr s' \<and>
    (\<forall>va. KERNEL_BASE \<le> va \<and> va < ptr_free_mem s' \<longrightarrow>
       check_va2pa (boot_dir s') va (bkm s') = Inr (ROUNDDOWN va PAGE_SIZE - KERNEL_BASE)) \<and>
    (\<forall>j<8. check_va2pa (boot_dir s') (page_at (KERNEL_STACK_TOP - KERNEL_STACK_SIZE) j) (bkm s') =
       Inr (page_at (stack - KERNEL_BASE) j)) \<and>
    (\<forall>j<256. check_va2pa (boot_dir s') (page_at UENVS j) (bkm s') = Inr (page_at (envs s' - KERNEL_BASE) j)) \<and>
    (\<forall>va<UENVS. check_va2pa (boot_dir s') va (bkm s') = Inr (NOT 0)) \<and>
    e < ptr_free_mem s' \<and> boot_cr3 s' = boot_dir s' - KERNEL_BASE \<and> boot_cr0 s' AND CR0_PG \<noteq> 0"
proof -
  obtain s1 tabs p where s1: "initialize_kernel_VM e stack s = Inr (turn_on_paging s1)"
      "checked e stack (number_of_frames (bkm s)) tabs p s1"
    using boot_builds [OF assms] by blast
  note c = checkedD [OF s1(2)]
  define s' where "s' = turn_on_paging s1"
  have s': "s' = s1\<lparr>boot_cr3 := phys_page_directory s1, boot_cr0 := paging_cr0 (boot_cr0 s1)\<rparr>"
    unfolding s'_def by (rule after_switch(1) [OF s1(2)])
  have same: "bkm s' = bkm s1" "boot_dir s' = boot_dir s1" "ptr_free_mem s' = ptr_free_mem s1" "envs s' = envs s1"
    by (simp_all add: s' boot_dir_def)
  have "4096 dvd unat stack" "kbase \<le> unat stack" "unat stack \<le> ktop"
    using assms by (simp_all add: boot_input_def Let_def)
  then have "\<forall>j<8. check_va2pa (boot_dir s') (page_at (KERNEL_STACK_TOP - KERNEL_STACK_SIZE) j) (bkm s') =
       Inr (page_at (stack - KERNEL_BASE) j)"
    using stack_address [OF c(1)] unfolding same stack_va_def c(7) by blast
  moreover have "\<forall>va. KERNEL_BASE \<le> va \<and> va < ptr_free_mem s' \<longrightarrow>
       check_va2pa (boot_dir s') va (bkm s') = Inr (ROUNDDOWN va PAGE_SIZE - KERNEL_BASE)"
    using kernel_address [OF c(1,4)] unfolding same c(7) by blast
  moreover have "envs s1 = p"
    using c(3) by (simp add: env_pages_def)
  then have "\<forall>j<256. check_va2pa (boot_dir s') (page_at UENVS j) (bkm s') = Inr (page_at (envs s' - KERNEL_BASE) j)"
    using env_address [OF c(1,3)] unfolding same c(7) by blast
  moreover have "\<forall>va<UENVS. check_va2pa (boot_dir s') va (bkm s') = Inr (NOT 0)"
    using no_entry [OF empty_entry [OF s1(2) PDX_user] dir_nonzero [OF s1(2)]] unfolding same by blast
  moreover have "e < ptr_free_mem s'"
    using c(5) unfolding same by (simp add: word_less_nat_alt)
  moreover have "boot_cr3 s' = boot_dir s' - KERNEL_BASE"
    using c(7,8) unfolding same by (simp add: s')
  moreover have "bit (paging_cr0 x) 31" for x
    by (simp add: paging_cr0_def CR0_PE_def CR0_PG_def CR0_AM_def CR0_WP_def CR0_NE_def CR0_TS_def CR0_EM_def CR0_MP_def bit_simps)
  then have "bit (boot_cr0 s' AND CR0_PG) 31"
    by (simp add: s' CR0_PG_def bit_simps)
  then have "boot_cr0 s' AND CR0_PG \<noteq> 0"
    by (metis bit_0_eq bot_apply bot_bool_def)
  ultimately show ?thesis
    using s1(1) unfolding s'_def by blast
qed

definition boot_example :: boot where
  "boot_example =
     \<lparr>bvm = vm_example\<lparr>vmem := (vmem vm_example)\<lparr>number_of_frames := 8192\<rparr>\<rparr>, ptr_free_mem = 0, phys_page_directory = 0,
      frames_info = 0, disk_frames_info = 0, envs = 0, memory_scarce_threshold_percentage = 0, boot_cr0 = 1, boot_cr3 = 0\<rparr>"

lemma boot_example_input: "boot_input 0xF0136A40 0xF0120000 boot_example"
  by (simp add: boot_input_def boot_example_def bkm_def Let_def kbase_def ktop_def)

theorem boot_maps_kernel_witness:
  "\<exists>s'. initialize_kernel_VM 0xF0136A40 0xF0120000 boot_example = Inr s' \<and>
    (\<forall>va. KERNEL_BASE \<le> va \<and> va < ptr_free_mem s' \<longrightarrow>
       check_va2pa (boot_dir s') va (bkm s') = Inr (ROUNDDOWN va PAGE_SIZE - KERNEL_BASE)) \<and>
    (\<forall>j<8. check_va2pa (boot_dir s') (page_at (KERNEL_STACK_TOP - KERNEL_STACK_SIZE) j) (bkm s') =
       Inr (page_at (0xF0120000 - KERNEL_BASE) j)) \<and>
    (\<forall>j<256. check_va2pa (boot_dir s') (page_at UENVS j) (bkm s') = Inr (page_at (envs s' - KERNEL_BASE) j)) \<and>
    (\<forall>va<UENVS. check_va2pa (boot_dir s') va (bkm s') = Inr (NOT 0)) \<and>
    0xF0136A40 < ptr_free_mem s' \<and> boot_cr3 s' = boot_dir s' - KERNEL_BASE \<and> boot_cr0 s' AND CR0_PG \<noteq> 0"
  by (rule boot_maps_kernel [OF boot_example_input])

text \<open>The same walk in the state where the low part is mapped too.\<close>

lemma kernel_offset:
  assumes "unat x < 268435456"
  shows "unat (KERNEL_BASE + x) = kbase + unat x" "PDX (KERNEL_BASE + x) = PDX KERNEL_BASE + PDX x"
    "unat (PDX (KERNEL_BASE + x)) = 960 + unat (PDX x)" "PTX (KERNEL_BASE + x) = PTX x"
proof -
  show u: "unat (KERNEL_BASE + x) = kbase + unat x"
    using assms by (subst unat_add_u32) (simp_all add: boot_numbers kbase_def)
  have k: "kbase + unat x = unat x + 960 * 4194304" "kbase + unat x = unat x + 983040 * 4096"
    by (simp_all add: kbase_def)
  show p: "unat (PDX (KERNEL_BASE + x)) = 960 + unat (PDX x)"
    unfolding unat_PDX u k(1) by simp
  have kb: "unat (PDX KERNEL_BASE) = 960"
    by (simp add: layout_defs PDX_def)
  have "unat (PDX KERNEL_BASE + PDX x) = 960 + unat (PDX x)"
    using PDX_lt [of x] by (subst unat_add_u32) (simp_all add: kb)
  then show "PDX (KERNEL_BASE + x) = PDX KERNEL_BASE + PDX x"
    unfolding u32_eq_iff p by simp
  have "(unat x + 983040 * 4096) div 4096 = unat x div 4096 + 960 * 1024"
    by simp
  then have "(unat x + 983040 * 4096) div 4096 mod 1024 = unat x div 4096 mod 1024"
    by (simp only: mod_mult_self1)
  then show "PTX (KERNEL_BASE + x) = PTX x"
    unfolding u32_eq_iff unat_PTX u k(2) .
qed

lemma ROUNDDOWN_offset:
  assumes "unat x < 268435456"
  shows "ROUNDDOWN (KERNEL_BASE + x) PAGE_SIZE - KERNEL_BASE = ROUNDDOWN x PAGE_SIZE"
proof -
  have "kbase + unat x = unat x + 983040 * 4096" "(unat x + 983040 * 4096) div 4096 = unat x div 4096 + 983040"
    by (simp_all add: kbase_def)
  then have "(kbase + unat x) div 4096 = unat x div 4096 + 983040"
    by (simp only:)
  then have r: "unat (ROUNDDOWN (KERNEL_BASE + x) PAGE_SIZE) = kbase + unat x div 4096 * 4096"
    unfolding ROUNDDOWN_unat kernel_offset(1) [OF assms] unat_PAGE_SIZE by (simp add: kbase_def)
  have "unat (ROUNDDOWN (KERNEL_BASE + x) PAGE_SIZE - KERNEL_BASE) = unat x div 4096 * 4096"
    by (subst unat_sub_u32) (simp_all add: r word_le_nat_alt boot_numbers)
  then show ?thesis
    by (simp add: u32_eq_iff ROUNDDOWN_unat)
qed

lemma low_walk:
  assumes "checked e stack nf tabs p s" "unat x < 4194304 * low_entries (ptr_free_mem s)"
  shows "check_va2pa (boot_dir s) x (bkm (map_low s)) = check_va2pa (boot_dir s) (KERNEL_BASE + x) (bkm s)"
    and "check_va2pa (boot_dir s) (KERNEL_BASE + x) (bkm (map_low s)) = check_va2pa (boot_dir s) (KERNEL_BASE + x) (bkm s)"
proof -
  note c = checkedD [OF assms(1)]
  note low = after_switch(2) [OF assms(1)]
  have "4194304 * low_entries (ptr_free_mem s) \<le> 4194304 * 24"
    using low by (rule mult_le_mono2)
  then have x: "unat x < 268435456"
    using assms(2) by simp
  have d: "unat (PDX x) < low_entries (ptr_free_mem s)"
    unfolding unat_PDX using assms(2) by (intro less_mult_imp_div_less) (simp add: mult.commute)
  note off = kernel_offset [OF x]
  have "tabs (unat (PDX (KERNEL_BASE + x))) \<noteq> None"
    unfolding c(9) using off(3) PDX_lt [of "KERNEL_BASE + x"] by simp
  then obtain q where q: "tabs (unat (PDX (KERNEL_BASE + x))) = Some q"
    by blast
  note t = boot_tabs_entry [OF c(6) q]
  have ne: "STATIC_KERNEL_VIRTUAL_ADDRESS (EXTRACT_ADDRESS (tables (bkm s) (boot_dir s) (PDX (KERNEL_BASE + x)))) (bkm s)
      \<noteq> Inr (boot_dir s)"
    using phys_page(4) [OF t(1,4)] t(2) boot_tabsD(7) [OF c(6) q] by (simp add: leads_def c(7))
  note m = map_low_tables [OF low]
  show "check_va2pa (boot_dir s) x (bkm (map_low s)) = check_va2pa (boot_dir s) (KERNEL_BASE + x) (bkm s)"
    by (rule check_va2pa_same [OF _ _ _ _ ne]) (simp_all add: m d off(2,4))
  have "\<not> unat (PDX (KERNEL_BASE + x)) < low_entries (ptr_free_mem s)"
    using off(3) low by simp
  then show "check_va2pa (boot_dir s) (KERNEL_BASE + x) (bkm (map_low s)) = check_va2pa (boot_dir s) (KERNEL_BASE + x) (bkm s)"
    by (intro check_va2pa_same [OF _ _ _ _ ne]) (simp_all add: m)
qed

text \<open>C12: The switch to paging is safe for the code that makes it. While paging is on and the segments are
  still the old ones, whose base takes KERNEL_BASE away, every address of the kernel image is mapped to
  itself, and its own address to the same frame; afterwards nothing is mapped there.\<close>

theorem paging_switch_keeps_kernel:
  assumes "boot_input e stack s"
  shows "\<exists>s1. initialize_kernel_VM e stack s = Inr (turn_on_paging s1) \<and> check_boot_pgdir stack s1 = Inr () \<and>
    (\<forall>x. unat x < unat e - unat KERNEL_BASE \<longrightarrow>
       check_va2pa (boot_dir s1) x (bkm (paging_on s1)) = Inr (ROUNDDOWN x PAGE_SIZE) \<and>
       check_va2pa (boot_dir s1) (KERNEL_BASE + x) (bkm (paging_on s1)) = Inr (ROUNDDOWN x PAGE_SIZE) \<and>
       check_va2pa (boot_dir s1) x (bkm (turn_on_paging s1)) = Inr (NOT 0))"
proof -
  obtain s1 tabs p where s1: "initialize_kernel_VM e stack s = Inr (turn_on_paging s1)"
      "checked e stack (number_of_frames (bkm s)) tabs p s1"
    using boot_builds [OF assms] by blast
  note c = checkedD [OF s1(2)]
  have "4096 dvd unat stack" "kbase \<le> unat stack" "unat stack \<le> ktop"
    using assms by (simp_all add: boot_input_def Let_def)
  then have chk: "check_boot_pgdir stack s1 = Inr ()"
    using boot_check [OF c(1,2,4)] by blast
  have same: "bkm (paging_on s1) = bkm (map_low s1)" "bkm (turn_on_paging s1) = bkm s1"
    by (simp_all add: paging_on_def after_switch(1) [OF s1(2)])
  note lb = low_entries_bounds [OF c(10,11)]
  have walk: "check_va2pa (boot_dir s1) x (bkm (paging_on s1)) = Inr (ROUNDDOWN x PAGE_SIZE) \<and>
       check_va2pa (boot_dir s1) (KERNEL_BASE + x) (bkm (paging_on s1)) = Inr (ROUNDDOWN x PAGE_SIZE) \<and>
       check_va2pa (boot_dir s1) x (bkm (turn_on_paging s1)) = Inr (NOT 0)"
    if x: "unat x < unat e - unat KERNEL_BASE" for x
  proof -
    have "unat e < kbase + 4194304 * low_entries (ptr_free_mem s1)"
      using c(5) lb(3) by simp
    then have low: "unat x < 4194304 * low_entries (ptr_free_mem s1)" "unat x < unat e - kbase"
      using x by (simp_all add: boot_numbers)
    have xs: "unat x < 100663296"
      using low(2) c(5,11) by (simp add: ktop_def kbase_def)
    then have off: "unat (KERNEL_BASE + x) = kbase + unat x"
      by (intro kernel_offset(1)) simp
    then have "KERNEL_BASE \<le> KERNEL_BASE + x" "KERNEL_BASE + x < ptr_free_mem s1"
      using low(2) c(5) by (simp_all add: word_le_nat_alt word_less_nat_alt boot_numbers)
    then have "check_va2pa (boot_dir s1) (KERNEL_BASE + x) (bkm s1) = Inr (ROUNDDOWN (KERNEL_BASE + x) PAGE_SIZE - KERNEL_BASE)"
      using kernel_address [OF c(1,4)] unfolding c(7) by blast
    moreover have "ROUNDDOWN (KERNEL_BASE + x) PAGE_SIZE - KERNEL_BASE = ROUNDDOWN x PAGE_SIZE"
      using xs by (intro ROUNDDOWN_offset) simp
    moreover have "unat (PDX x) < 955"
      unfolding unat_PDX using xs by (intro less_mult_imp_div_less) simp
    then have "check_va2pa (boot_dir s1) x (bkm s1) = Inr (NOT 0)"
      by (intro no_entry empty_entry [OF s1(2)] dir_nonzero [OF s1(2)])
    ultimately show ?thesis
      using low_walk [OF s1(2) low(1)] unfolding same by simp
  qed
  then show ?thesis
    using s1(1) chk by blast
qed

theorem paging_switch_keeps_kernel_witness:
  "\<exists>s1. initialize_kernel_VM 0xF0136A40 0xF0120000 boot_example = Inr (turn_on_paging s1) \<and>
    check_boot_pgdir 0xF0120000 s1 = Inr () \<and>
    (\<forall>x. unat x < unat (0xF0136A40 :: u32) - unat KERNEL_BASE \<longrightarrow>
       check_va2pa (boot_dir s1) x (bkm (paging_on s1)) = Inr (ROUNDDOWN x PAGE_SIZE) \<and>
       check_va2pa (boot_dir s1) (KERNEL_BASE + x) (bkm (paging_on s1)) = Inr (ROUNDDOWN x PAGE_SIZE) \<and>
       check_va2pa (boot_dir s1) x (bkm (turn_on_paging s1)) = Inr (NOT 0))"
  by (rule paging_switch_keeps_kernel [OF boot_example_input])

section \<open>What is measured\<close>


lemma unat_u8: "unat (b :: u8) < 256" "unat (ucast b :: u32) = unat b"
proof -
  show lt: "unat b < 256"
    using unsigned_less [of b, where 'a = nat] by simp
  then show "unat (ucast b :: u32) = unat b"
    by (simp add: unsigned_ucast_eq take_bit_nat_eq_self)
qed

lemma nvram_word: "unat (nvram_read cmos r) = unat (cmos (ucast r)) + 256 * unat (cmos (ucast (r + 1)))"
proof -
  let ?a = "ucast (cmos (ucast r)) :: u32" and ?b = "ucast (cmos (ucast (r + 1))) :: u32"
  have ub: "unat ?a < 256" "unat ?b < 256" "unat ?a = unat (cmos (ucast r))" "unat ?b = unat (cmos (ucast (r + 1)))"
    by (simp_all add: unat_u8)
  have "\<not> bit ?a i \<or> \<not> bit (push_bit 8 ?b) i" for i
    by (auto simp: bit_simps dest: bit_imp_le_length)
  then have "?a + push_bit 8 ?b = ?a OR push_bit 8 ?b"
    by (rule disjunctive_add)
  moreover have "unat (push_bit 8 ?b) = 256 * unat ?b"
    using ub(2) by (simp add: push_bit_eq_mult unat_word_ariths)
  then have "unat (?a + push_bit 8 ?b) = unat ?a + 256 * unat ?b"
    using ub(1,2) by (subst unat_add_u32) simp_all
  ultimately show ?thesis
    using ub(3,4) by (simp add: nvram_read_def mc146818_read_def)
qed

lemma nvram_less: "unat (nvram_read cmos r) < 65536"
  using unat_u8(1) [of "cmos (ucast r)"] unat_u8(1) [of "cmos (ucast (r + 1))"] by (simp add: nvram_word)

text \<open>The number of frames that booting finds, from what the clock chip reports: \<open>n\<close> units of 64 KB
  above 16 MB and \<open>m\<close> KB above 1 MB. With neither it is zero, the memory below 1 MB notwithstanding, and
  from 65280 units on (a total of 4 GB and more) the sum wraps, so that only the excess is counted.\<close>

theorem frames_detected:
  "number_of_frames (bkm (detect_memory cmos s)) =
    (let n = unat (cmos 0x34) + 256 * unat (cmos 0x35); m = unat (cmos 0x17) + 256 * unat (cmos 0x18) in
     if n = 0 then (if m < 4 then 0 else 256 + m div 4)
     else if n < 65280 then 4096 + 16 * n else 16 * (n - 65280))"
proof -
  let ?n = "nvram_read cmos 0x34" and ?m = "nvram_read cmos NVRAM_EXTLO"
  have nm: "unat ?n = unat (cmos 0x34) + 256 * unat (cmos 0x35)" "unat ?m = unat (cmos 0x17) + 256 * unat (cmos 0x18)"
    by (simp_all add: nvram_word NVRAM_EXTLO_def)
  note lt = nvram_less [of cmos "0x34"] nvram_less [of cmos NVRAM_EXTLO]
  have un: "unat (?n * 1024 * 64) = 65536 * unat ?n" "unat (?m * 1024) = 1024 * unat ?m"
    using lt by (simp_all add: unat_word_ariths)
  have on: "unat (ROUNDDOWN (?n * 1024 * 64) PAGE_SIZE) = 65536 * unat ?n"
    unfolding ROUNDDOWN_unat un by simp
  have "1024 * x div 4096 = x div 4" for x :: nat
    by simp
  then have om: "unat (ROUNDDOWN (?m * 1024) PAGE_SIZE) = unat ?m div 4 * 4096"
    unfolding ROUNDDOWN_unat un by simp
  have other: "0 < ROUNDDOWN (?n * 1024 * 64) PAGE_SIZE \<longleftrightarrow> unat ?n \<noteq> 0"
    unfolding word_less_nat_alt on by simp
  have ext: "ROUNDDOWN (?m * 1024) PAGE_SIZE \<noteq> 0 \<longleftrightarrow> 4 \<le> unat ?m"
    unfolding unat_eq_zero [symmetric] om by (simp, linarith)
  have "unat (max_pa cmos div PAGE_SIZE) =
     (if unat ?n = 0 then (if unat ?m < 4 then 0 else 256 + unat ?m div 4)
      else if unat ?n < 65280 then 4096 + 16 * unat ?n else 16 * (unat ?n - 65280))"
  proof (cases "unat ?n = 0")
    case True
    have "unat (PHYS_EXTENDED_MEM + ROUNDDOWN (?m * 1024) PAGE_SIZE) = 1048576 + unat ?m div 4 * 4096"
      using lt(2) by (subst unat_add_u32) (simp_all add: om PHYS_EXTENDED_MEM_def)
    then show ?thesis
      using True other ext om by (simp add: max_pa_def Let_def unat_div)
  next
    case False
    have "unat (ROUNDDOWN (?n * 1024 * 64) PAGE_SIZE + 16 * 1024 * 1024) = (65536 * unat ?n + 16777216) mod 4294967296"
      unfolding unat_word_ariths on by simp
    moreover have "(65536 * unat ?n + 16777216) mod 4294967296 =
        (if unat ?n < 65280 then 65536 * unat ?n + 16777216 else 65536 * (unat ?n - 65280))"
      using lt(1) by (auto simp: mod_if)
    ultimately show ?thesis
      using False other by (simp add: max_pa_def Let_def unat_div)
  qed
  then show ?thesis
    by (simp add: detect_memory_def nm Let_def)
qed

end
