(* ===== verification/Descriptors.thy ===== *)
theory Descriptors
  imports Trap Prog_Load Commands
begin

text \<open>
  The descriptor tables of the processor: the segments of \<^verbatim>\<open>inc/mmu.h\<close> and
  \<^verbatim>\<open>kern/mem/boot_memory_manager.c\<close>, the gates and the task state that
  \<^verbatim>\<open>idt_init\<close> of \<^verbatim>\<open>kern/trap/trap.c\<close> sets up, and the printing of a trap frame.
  The bit fields of the structures are words of their width. What the processor reads from a descriptor is
  stated beside it.
\<close>

type_synonym u1 = "1 word"
type_synonym u2 = "2 word"
type_synonym u4 = "4 word"

section \<open>Segments\<close>

record Segdesc =
  sd_lim_15_0 :: u16
  sd_base_15_0 :: u16
  sd_base_23_16 :: u8
  sd_type :: u4
  sd_s :: u1
  sd_dpl :: u2
  sd_p :: u1
  sd_lim_19_16 :: u4
  sd_avl :: u1
  sd_rsv1 :: u1
  sd_db :: u1
  sd_g :: u1
  sd_base_31_24 :: u8

definition SEG_NULL :: Segdesc where
  "SEG_NULL = \<lparr>sd_lim_15_0 = 0, sd_base_15_0 = 0, sd_base_23_16 = 0, sd_type = 0, sd_s = 0, sd_dpl = 0, sd_p = 0,
     sd_lim_19_16 = 0, sd_avl = 0, sd_rsv1 = 0, sd_db = 0, sd_g = 0, sd_base_31_24 = 0\<rparr>"

definition SEG_FAULT :: Segdesc where
  "SEG_FAULT = \<lparr>sd_lim_15_0 = 0, sd_base_15_0 = 0, sd_base_23_16 = 0, sd_type = 0, sd_s = 1, sd_dpl = 0, sd_p = 1,
     sd_lim_19_16 = 0, sd_avl = 0, sd_rsv1 = 0, sd_db = 1, sd_g = 0, sd_base_31_24 = 0\<rparr>"

definition SEG :: "u32 \<Rightarrow> u32 \<Rightarrow> u32 \<Rightarrow> u32 \<Rightarrow> Segdesc" where
  "SEG type base lim dpl =
     \<lparr>sd_lim_15_0 = ucast (drop_bit 12 lim AND 0xFFFF), sd_base_15_0 = ucast (base AND 0xFFFF),
      sd_base_23_16 = ucast (drop_bit 16 base AND 0xFF), sd_type = ucast type, sd_s = 1, sd_dpl = ucast dpl, sd_p = 1,
      sd_lim_19_16 = ucast (drop_bit 28 lim), sd_avl = 0, sd_rsv1 = 0, sd_db = 1, sd_g = 1,
      sd_base_31_24 = ucast (drop_bit 24 base)\<rparr>"

definition SEG16 :: "u32 \<Rightarrow> u32 \<Rightarrow> u32 \<Rightarrow> u32 \<Rightarrow> Segdesc" where
  "SEG16 type base lim dpl =
     \<lparr>sd_lim_15_0 = ucast (lim AND 0xFFFF), sd_base_15_0 = ucast (base AND 0xFFFF),
      sd_base_23_16 = ucast (drop_bit 16 base AND 0xFF), sd_type = ucast type, sd_s = 1, sd_dpl = ucast dpl, sd_p = 1,
      sd_lim_19_16 = ucast (drop_bit 16 lim), sd_avl = 0, sd_rsv1 = 0, sd_db = 1, sd_g = 0,
      sd_base_31_24 = ucast (drop_bit 24 base)\<rparr>"

text \<open>What the processor reads: the base, and the last offset of the segment.\<close>

definition seg_base :: "Segdesc \<Rightarrow> u32" where
  "seg_base d = ucast (sd_base_15_0 d) OR push_bit 16 (ucast (sd_base_23_16 d)) OR push_bit 24 (ucast (sd_base_31_24 d))"

definition seg_limit :: "Segdesc \<Rightarrow> u32" where
  "seg_limit d =
     (let l = ucast (sd_lim_15_0 d) OR push_bit 16 (ucast (sd_lim_19_16 d))
      in if sd_g d = 1 then push_bit 12 l OR 0xFFF else l)"

definition STA_X :: u32 where "STA_X = 0x8"
definition STA_W :: u32 where "STA_W = 0x2"
definition STA_R :: u32 where "STA_R = 0x2"
definition STS_T32A :: u32 where "STS_T32A = 0x9"
definition STS_CG32 :: u32 where "STS_CG32 = 0xC"
definition STS_IG32 :: u32 where "STS_IG32 = 0xE"
definition STS_TG32 :: u32 where "STS_TG32 = 0xF"

definition GD_KT :: u16 where "GD_KT = 0x08"
definition GD_KD :: u16 where "GD_KD = 0x10"
definition GD_TSS :: u16 where "GD_TSS = 0x28"

definition gdt_index :: "u16 \<Rightarrow> nat" where "gdt_index sel = unat (drop_bit 3 sel)"

definition gdt :: "Segdesc list" where
  "gdt = [SEG_NULL, SEG (STA_X OR STA_R) 0x0 0xFFFFFFFF 0, SEG STA_W 0x0 0xFFFFFFFF 0,
     SEG (STA_X OR STA_R) 0x0 0xFFFFFFFF 3, SEG STA_W 0x0 0xFFFFFFFF 3, SEG_NULL]"

record Pseudodesc =
  pd_lim :: u16
  pd_base :: u32

definition gdt_pd :: "u32 \<Rightarrow> Pseudodesc" where
  "gdt_pd gdt_address = \<lparr>pd_lim = of_nat (8 * length gdt - 1), pd_base = gdt_address\<rparr>"

section \<open>Gates and the task state\<close>

record Gatedesc =
  gd_off_15_0 :: u16
  gd_ss :: u16
  gd_args :: "5 word"
  gd_rsv1 :: "3 word"
  gd_type :: u4
  gd_s :: u1
  gd_dpl :: u2
  gd_p :: u1
  gd_off_31_16 :: u16

definition SETGATE :: "bool \<Rightarrow> u16 \<Rightarrow> u32 \<Rightarrow> u32 \<Rightarrow> Gatedesc" where
  "SETGATE istrap sel off dpl =
     \<lparr>gd_off_15_0 = ucast (off AND 0xFFFF), gd_ss = sel, gd_args = 0, gd_rsv1 = 0,
      gd_type = ucast (if istrap then STS_TG32 else STS_IG32), gd_s = 0, gd_dpl = ucast dpl, gd_p = 1,
      gd_off_31_16 = ucast (drop_bit 16 off)\<rparr>"

definition SETCALLGATE :: "u16 \<Rightarrow> u32 \<Rightarrow> u32 \<Rightarrow> Gatedesc" where
  "SETCALLGATE ss off dpl =
     \<lparr>gd_off_15_0 = ucast (off AND 0xFFFF), gd_ss = ss, gd_args = 0, gd_rsv1 = 0,
      gd_type = ucast STS_CG32, gd_s = 0, gd_dpl = ucast dpl, gd_p = 1,
      gd_off_31_16 = ucast (drop_bit 16 off)\<rparr>"

definition empty_gate :: Gatedesc where
  "empty_gate = \<lparr>gd_off_15_0 = 0, gd_ss = 0, gd_args = 0, gd_rsv1 = 0, gd_type = 0, gd_s = 0, gd_dpl = 0, gd_p = 0,
     gd_off_31_16 = 0\<rparr>"

definition gate_offset :: "Gatedesc \<Rightarrow> u32" where
  "gate_offset g = ucast (gd_off_15_0 g) OR push_bit 16 (ucast (gd_off_31_16 g))"

record Taskstate =
  ts_esp0 :: u32
  ts_ss0 :: u16

definition sizeof_Taskstate :: u32 where "sizeof_Taskstate = 104"

record descriptors =
  d_gdt :: "Segdesc list"
  d_idt :: "Gatedesc list"
  d_ts :: Taskstate
  task_register :: u16
  idt_register :: Pseudodesc

definition T_DIVIDE :: nat where "T_DIVIDE = 0"
definition T_DEBUG :: nat where "T_DEBUG = 1"
definition T_NMI :: nat where "T_NMI = 2"
definition T_BRKPT :: nat where "T_BRKPT = 3"
definition T_OFLOW :: nat where "T_OFLOW = 4"
definition T_BOUND :: nat where "T_BOUND = 5"
definition T_ILLOP :: nat where "T_ILLOP = 6"
definition T_DEVICE :: nat where "T_DEVICE = 7"
definition T_TSS :: nat where "T_TSS = 10"
definition T_SEGNP :: nat where "T_SEGNP = 11"
definition T_STACK :: nat where "T_STACK = 12"
definition T_GPFLT :: nat where "T_GPFLT = 13"
definition T_FPERR :: nat where "T_FPERR = 16"
definition T_ALIGN :: nat where "T_ALIGN = 17"
definition T_MCHK :: nat where "T_MCHK = 18"
definition T_SIMDERR :: nat where "T_SIMDERR = 19"

text \<open>
  The entry points are labels of the assembly file: \<open>entry v\<close> is the address of the one that is made for
  vector \<open>v\<close>. The gates are given as the vector, whether it is a trap gate, and the level that may raise it.
\<close>

definition gate_list :: "(nat \<times> bool \<times> u32) list" where
  "gate_list =
     [(unat T_PGFLT, False, 0), (unat T_SYSCALL, False, 3), (unat T_DBLFLT, False, 0),
      (T_DIVIDE, False, 3), (T_DEBUG, True, 3), (T_NMI, False, 3), (T_BRKPT, True, 3), (T_OFLOW, True, 3),
      (T_BOUND, False, 3), (T_ILLOP, False, 3), (T_DEVICE, False, 3),
      (T_TSS, False, 3), (T_SEGNP, False, 3), (T_STACK, False, 3), (T_GPFLT, False, 3),
      (T_FPERR, False, 3), (T_ALIGN, False, 3), (T_MCHK, False, 3), (T_SIMDERR, False, 3),
      (unat IRQ0_Clock, False, 3), (33, False, 3), (34, False, 3), (35, False, 3), (36, False, 3), (37, False, 3),
      (38, False, 3), (39, False, 3), (40, False, 3), (41, False, 3), (42, False, 3), (43, False, 3), (44, False, 3),
      (45, False, 3), (46, False, 3), (47, False, 3)]"

definition idt_pd :: "u32 \<Rightarrow> Pseudodesc" where
  "idt_pd idt_address = \<lparr>pd_lim = 8 * 256 - 1, pd_base = idt_address\<rparr>"

definition idt_init :: "(nat \<Rightarrow> u32) \<Rightarrow> u32 \<Rightarrow> u32 \<Rightarrow> descriptors \<Rightarrow> descriptors" where
  "idt_init entry ts_address idt_address d =
     (let d = d\<lparr>d_idt := fold (\<lambda>(v, istrap, dpl) idt. idt[v := SETGATE istrap GD_KT (entry v) dpl]) gate_list (d_idt d)\<rparr>;
          d = d\<lparr>d_ts := (d_ts d)\<lparr>ts_esp0 := KERNEL_STACK_TOP, ts_ss0 := GD_KD\<rparr>\<rparr>;
          d = d\<lparr>d_gdt := (d_gdt d)[gdt_index GD_TSS := SEG16 STS_T32A ts_address sizeof_Taskstate 0]\<rparr>;
          d = d\<lparr>d_gdt := (d_gdt d)[gdt_index GD_TSS := (d_gdt d ! gdt_index GD_TSS)\<lparr>sd_s := 0\<rparr>]\<rparr>
      in d\<lparr>task_register := GD_TSS, idt_register := idt_pd idt_address\<rparr>)"

section \<open>Printing a frame\<close>

definition excnames :: "string list" where
  "excnames = [''Divide error'', ''Debug'', ''Non-Maskable Interrupt'', ''Breakpoint'', ''Overflow'',
     ''BOUND Range Exceeded'', ''Invalid Opcode'', ''Device Not Available'', ''Double Fault'',
     ''Coprocessor Segment Overrun'', ''Invalid TSS'', ''Segment Not Present'', ''Stack Fault'',
     ''General Protection'', ''Page Fault'', ''(unknown trap)'', ''x87 FPU Floating-Point Error'',
     ''Alignment Check'', ''Machine-Check'', ''SIMD Floating-Point Exception'']"

definition trapname :: "u32 \<Rightarrow> string" where
  "trapname trapno =
     (if unat trapno < length excnames then excnames ! unat trapno
      else if trapno = T_SYSCALL then ''System call'' else ''(unknown trap)'')"

definition print_regs :: "trapframe \<Rightarrow> monitor \<Rightarrow> monitor" where
  "print_regs tf =
     fold (\<lambda>(fmt, x). cprintf fmt [PNum x])
       [(''  edi  0x%08x\<newline>'', reg_edi tf), (''  esi  0x%08x\<newline>'', reg_esi tf), (''  ebp  0x%08x\<newline>'', reg_ebp tf),
        (''  oesp 0x%08x\<newline>'', reg_oesp tf), (''  ebx  0x%08x\<newline>'', reg_ebx tf), (''  edx  0x%08x\<newline>'', reg_edx tf),
        (''  ecx  0x%08x\<newline>'', reg_ecx tf), (''  eax  0x%08x\<newline>'', reg_eax tf)]"

definition print_trapframe :: "u32 \<Rightarrow> trapframe \<Rightarrow> monitor \<Rightarrow> monitor" where
  "print_trapframe tf_address tf s =
     fold (\<lambda>(fmt, args). cprintf fmt args)
       [(''  es   0x----%04x\<newline>'', [PNum (ucast (tf_es tf))]), (''  ds   0x----%04x\<newline>'', [PNum (ucast (tf_ds tf))]),
        (''  trap 0x%08x %s - %d\<newline>'', [PNum (tf_trapno tf), PStr (trapname (tf_trapno tf)), PNum (tf_trapno tf)]),
        (''  err  0x%08x\<newline>'', [PNum (tf_err tf)]), (''  eip  0x%08x\<newline>'', [PNum (tf_eip tf)]),
        (''  cs   0x----%04x\<newline>'', [PNum (ucast (tf_cs tf))]), (''  flag 0x%08x\<newline>'', [PNum (frame_eflags tf)]),
        (''  esp  0x%08x\<newline>'', [PNum (tf_esp tf)]), (''  ss   0x----%04x\<newline>'', [PNum (ucast (tf_ss tf))])]
       (print_regs tf (cprintf ''TRAP frame at %p\<newline>'' [PNum tf_address] s))"

section \<open>What the processor reads\<close>

lemma mask_words: "(0xFFFF :: u32) = mask 16" "(0xFF :: u32) = mask 8" "(0xFFF :: u32) = mask 12"
  by (simp_all add: mask_eq_exp_minus_1)

lemma split_24:
  "ucast (ucast (w AND mask 16) :: u16) OR push_bit 16 (ucast (ucast (drop_bit 16 w AND mask 8) :: u8)) OR
     push_bit 24 (ucast (ucast (drop_bit 24 w) :: u8)) = (w :: u32)"
proof (rule bit_eqI)
  fix n
  assume "possible_bit TYPE(32 word) n"
  then show "bit (ucast (ucast (w AND mask 16) :: u16) OR push_bit 16 (ucast (ucast (drop_bit 16 w AND mask 8) :: u8)) OR
     push_bit 24 (ucast (ucast (drop_bit 24 w) :: u8)) :: u32) n = bit w n"
    by (cases "n < 16"; cases "n < 24") (auto simp: bit_simps not_less)
qed

lemma split_20:
  "(push_bit 12 (ucast (ucast (drop_bit 12 w AND mask 16) :: u16)) OR push_bit 28 (ucast (ucast (drop_bit 28 w) :: u4))) OR mask 12
     = (w :: u32) OR mask 12"
proof (rule bit_eqI)
  fix n
  assume "possible_bit TYPE(32 word) n"
  then show "bit ((push_bit 12 (ucast (ucast (drop_bit 12 w AND mask 16) :: u16)) OR
     push_bit 28 (ucast (ucast (drop_bit 28 w) :: u4))) OR mask 12 :: u32) n = bit (w OR mask 12) n"
    by (cases "n < 12"; cases "n < 28") (auto simp: bit_simps not_less)
qed

lemma split_bytes: "take_bit 20 w = w \<Longrightarrow>
  ucast (ucast (w AND mask 16) :: u16) OR push_bit 16 (ucast (ucast (drop_bit 16 w) :: u4)) = (w :: u32)"
proof (rule bit_eqI)
  fix n
  assume "take_bit 20 w = w" "possible_bit TYPE(32 word) n"
  then have "bit w n \<Longrightarrow> n < 20"
    by (metis bit_take_bit_iff)
  then show "bit (ucast (ucast (w AND mask 16) :: u16) OR push_bit 16 (ucast (ucast (drop_bit 16 w) :: u4)) :: u32) n = bit w n"
    by (cases "n < 16") (auto simp: bit_simps not_less)
qed

lemma seg_base_SEG: "seg_base (SEG type base lim dpl) = base" "seg_base (SEG16 type base lim dpl) = base"
  unfolding seg_base_def SEG_def SEG16_def mask_words by (simp_all add: split_24)

lemma seg_limit_SEG:
  "seg_limit (SEG type base lim dpl) = lim OR 0xFFF"
  "take_bit 20 lim = lim \<Longrightarrow> seg_limit (SEG16 type base lim dpl) = lim"
  unfolding seg_limit_def SEG_def SEG16_def mask_words by (simp_all add: split_20 split_bytes)

lemma gate_offset_SETGATE: "gate_offset (SETGATE istrap sel off dpl) = off"
  unfolding gate_offset_def SETGATE_def mask_words
  by (rule bit_eqI) (auto simp: bit_simps)

section \<open>The gates\<close>

lemma fold_gates:
  assumes "distinct (map fst gs)" "\<forall>v\<in>fst ` set gs. v < length idt"
  shows "length (fold (\<lambda>(v, istrap, dpl) idt. idt[v := SETGATE istrap GD_KT (entry v) dpl]) gs idt) = length idt \<and>
    (\<forall>v. fold (\<lambda>(v, istrap, dpl) idt. idt[v := SETGATE istrap GD_KT (entry v) dpl]) gs idt ! v =
      (case map_of gs v of Some (istrap, dpl) \<Rightarrow> SETGATE istrap GD_KT (entry v) dpl | None \<Rightarrow> idt ! v))"
  using assms
proof (induction gs arbitrary: idt)
  case (Cons g gs)
  obtain v istrap dpl where g: "g = (v, istrap, dpl)"
    by (cases g) auto
  let ?idt = "idt[v := SETGATE istrap GD_KT (entry v) dpl]"
  have v: "map_of gs v = None" "v < length idt"
    using Cons.prems by (simp_all add: g map_of_eq_None_iff)
  have IH: "length (fold (\<lambda>(v, istrap, dpl) idt. idt[v := SETGATE istrap GD_KT (entry v) dpl]) gs ?idt) = length ?idt \<and>
    (\<forall>v. fold (\<lambda>(v, istrap, dpl) idt. idt[v := SETGATE istrap GD_KT (entry v) dpl]) gs ?idt ! v =
      (case map_of gs v of Some (istrap, dpl) \<Rightarrow> SETGATE istrap GD_KT (entry v) dpl | None \<Rightarrow> ?idt ! v))"
    using Cons.prems by (intro Cons.IH) (simp_all add: g)
  then show ?case
    using v by (simp add: g nth_list_update split: option.splits)
qed simp

definition gate_vectors :: "nat set" where "gate_vectors = {0..8} \<union> {10..14} \<union> {16..19} \<union> {32..48}"

lemma gate_list_facts:
  "distinct (map fst gate_list)" "fst ` set gate_list = gate_vectors"
  "\<And>v istrap dpl. (v, istrap, dpl) \<in> set gate_list \<Longrightarrow> dpl = (if v = 8 \<or> v = 14 then 0 else 3)"
proof -
  show "distinct (map fst gate_list)"
    by code_simp
  have "sort (map fst gate_list) = [0..<9] @ [10..<15] @ [16..<20] @ [32..<49]"
    by code_simp
  then have "set (map fst gate_list) = set ([0..<9] @ [10..<15] @ [16..<20] @ [32..<49])"
    by (metis set_sort)
  moreover have "set ([0..<9] @ [10..<15] @ [16..<20] @ [32..<49]) = gate_vectors"
    by (auto simp: gate_vectors_def simp del: upt_rec_numeral)
  ultimately show "fst ` set gate_list = gate_vectors"
    by (simp del: upt_rec_numeral)
  have "\<forall>(v, istrap, dpl)\<in>set gate_list. dpl = (if v = 8 \<or> v = 14 then 0 else 3)"
    by code_simp
  then show "\<And>v istrap dpl. (v, istrap, dpl) \<in> set gate_list \<Longrightarrow> dpl = (if v = 8 \<or> v = 14 then 0 else 3)"
    by blast
qed

definition boot_descriptors :: "descriptors \<Rightarrow> bool" where
  "boot_descriptors d \<longleftrightarrow> d_idt d = replicate 256 empty_gate \<and> d_gdt d = gdt"

lemma gates_after_init:
  assumes "boot_descriptors d" "v < 256"
  shows "d_idt (idt_init entry ts_address idt_address d) ! v =
    (case map_of gate_list v of Some (istrap, dpl) \<Rightarrow> SETGATE istrap GD_KT (entry v) dpl | None \<Rightarrow> empty_gate)"
proof -
  have "\<forall>v\<in>fst ` set gate_list. v < length (d_idt d)"
    unfolding gate_list_facts(2) using assms(1) by (auto simp: gate_vectors_def boot_descriptors_def)
  then show ?thesis
    using fold_gates [OF gate_list_facts(1), of "d_idt d" entry] assms
    by (simp add: idt_init_def boot_descriptors_def Let_def split: option.splits)
qed

lemma gate_fields: "gd_p (SETGATE istrap sel off dpl) = 1" "gd_ss (SETGATE istrap sel off dpl) = sel"
  "gd_dpl (SETGATE istrap sel off dpl) = ucast dpl" "gd_p empty_gate = 0"
  by (simp_all add: SETGATE_def empty_gate_def)

lemma gate_cases:
  assumes "boot_descriptors d" "v < 256"
  obtains (gate) istrap where "v \<in> gate_vectors"
      "d_idt (idt_init entry ts_address idt_address d) ! v = SETGATE istrap GD_KT (entry v) (if v = 8 \<or> v = 14 then 0 else 3)"
    | (none) "v \<notin> gate_vectors" "d_idt (idt_init entry ts_address idt_address d) ! v = empty_gate"
proof (cases "map_of gate_list v")
  case None
  then have "v \<notin> gate_vectors"
    using gate_list_facts(2) by (simp add: map_of_eq_None_iff)
  moreover have "d_idt (idt_init entry ts_address idt_address d) ! v = empty_gate"
    using None gates_after_init [OF assms, of entry ts_address idt_address] by simp
  ultimately show ?thesis
    by (rule none)
next
  case (Some x)
  obtain istrap dpl where x: "x = (istrap, dpl)"
    by (cases x)
  have m: "(v, istrap, dpl) \<in> set gate_list"
    using Some by (simp add: x map_of_SomeD)
  then have "v \<in> gate_vectors"
    using gate_list_facts(2) by (metis fst_conv image_eqI)
  then show ?thesis
    using gate gates_after_init [OF assms, of entry ts_address idt_address] Some gate_list_facts(3) [OF m] by (simp add: x)
qed

text \<open>C16: What the processor reads from the tables that booting makes. A gate is present exactly for the
  vectors with a handler, each leads into the kernel's code segment to its own entry point, and a program may
  raise all of them by an instruction but the page fault and the double fault. The task descriptor holds the
  address of the task state, which holds the kernel's stack; and every segment starts at address 0 and ends
  at the last address, so that addresses within a segment are virtual addresses.\<close>

theorem descriptor_tables_read:
  fixes entry :: "nat \<Rightarrow> u32" and ts_address idt_address :: u32
  assumes "boot_descriptors d"
  defines "d' \<equiv> idt_init entry ts_address idt_address d"
  shows "(\<forall>v<256. gd_p (d_idt d' ! v) = 1 \<longleftrightarrow> v \<in> {0..8} \<union> {10..14} \<union> {16..19} \<union> {32..48}) \<and>
    (\<forall>v<256. gd_p (d_idt d' ! v) = 1 \<longrightarrow> gate_offset (d_idt d' ! v) = entry v \<and> gd_ss (d_idt d' ! v) = GD_KT \<and>
       (gd_dpl (d_idt d' ! v) = 3 \<longleftrightarrow> v \<noteq> 8 \<and> v \<noteq> 14)) \<and>
    seg_base (d_gdt d' ! gdt_index (task_register d')) = ts_address \<and>
    seg_limit (d_gdt d' ! gdt_index (task_register d')) = sizeof_Taskstate \<and>
    ts_esp0 (d_ts d') = KERNEL_STACK_TOP \<and> ts_ss0 (d_ts d') = GD_KD \<and>
    (\<forall>sel\<in>{GD_KT, GD_KD, GD_UT, GD_UD}. seg_base (d_gdt d' ! gdt_index sel) = 0 \<and>
       seg_limit (d_gdt d' ! gdt_index sel) = 0xFFFFFFFF \<and> sd_dpl (d_gdt d' ! gdt_index sel) = (if sel \<in> {GD_UT, GD_UD} then 3 else 0))"
    (is "?A \<and> ?B \<and> ?C \<and> ?D \<and> ?E \<and> ?F \<and> ?G")
proof -
  have level: "ucast (if v = 8 \<or> v = 14 then 0 else 3 :: u32) = (3 :: u2) \<longleftrightarrow> v \<noteq> 8 \<and> v \<noteq> 14" for v :: nat
    by simp
  have ?A
  proof (intro allI impI)
    fix v :: nat assume "v < 256"
    then show "gd_p (d_idt d' ! v) = 1 \<longleftrightarrow> v \<in> {0..8} \<union> {10..14} \<union> {16..19} \<union> {32..48}"
      unfolding d'_def gate_vectors_def [symmetric]
      by (cases rule: gate_cases [OF assms(1), of v entry ts_address idt_address]) (simp_all add: gate_fields)
  qed
  moreover have ?B
  proof (intro allI impI)
    fix v :: nat assume "v < 256" "gd_p (d_idt d' ! v) = 1"
    then show "gate_offset (d_idt d' ! v) = entry v \<and> gd_ss (d_idt d' ! v) = GD_KT \<and>
       (gd_dpl (d_idt d' ! v) = 3 \<longleftrightarrow> v \<noteq> 8 \<and> v \<noteq> 14)"
      unfolding d'_def
      by (cases rule: gate_cases [OF assms(1), of v entry ts_address idt_address])
        (simp_all add: gate_fields gate_offset_SETGATE level del: if_split)
  qed
  moreover have g: "d_gdt d' = gdt[5 := (SEG16 STS_T32A ts_address sizeof_Taskstate 0)\<lparr>sd_s := 0\<rparr>]"
    "task_register d' = GD_TSS" ?E ?F
    using assms(1) by (simp_all add: d'_def idt_init_def boot_descriptors_def Let_def gdt_index_def GD_TSS_def gdt_def)
  have idx: "gdt_index GD_KT = 1" "gdt_index GD_KD = 2" "gdt_index GD_UT = 3" "gdt_index GD_UD = 4" "gdt_index GD_TSS = 5"
    by (simp_all add: gdt_index_def GD_KT_def GD_KD_def GD_UT_def GD_UD_def GD_TSS_def)
  have s: "seg_base (x\<lparr>sd_s := y\<rparr>) = seg_base x" "seg_limit (x\<lparr>sd_s := y\<rparr>) = seg_limit x" for x y
    by (simp_all add: seg_base_def seg_limit_def)
  have ?C ?D
    by (simp_all add: g(1,2) idx gdt_def s seg_base_SEG seg_limit_SEG sizeof_Taskstate_def take_bit_eq_mod)
  moreover have ?G
    by (simp add: g(1) idx gdt_def seg_base_SEG seg_limit_SEG) (simp add: SEG_def GD_KT_def GD_KD_def GD_UT_def GD_UD_def)
  ultimately show ?thesis
    using g(3,4) by blast
qed

definition no_segments :: descriptors where
  "no_segments = \<lparr>d_gdt = gdt, d_idt = replicate 256 empty_gate, d_ts = \<lparr>ts_esp0 = 0, ts_ss0 = 0\<rparr>, task_register = 0,
     idt_register = \<lparr>pd_lim = 0, pd_base = 0\<rparr>\<rparr>"

lemma no_segments_boot: "boot_descriptors no_segments"
  by (simp add: boot_descriptors_def no_segments_def)

theorem descriptor_tables_read_witness:
  "gate_offset (d_idt (idt_init (\<lambda>v. 0xF0100000 + of_nat v) 0xF0110000 0xF0120000 no_segments) ! 48) = 0xF0100030 \<and>
   gd_p (d_idt (idt_init (\<lambda>v. 0xF0100000 + of_nat v) 0xF0110000 0xF0120000 no_segments) ! 9) \<noteq> 1"
proof -
  let ?d = "idt_init (\<lambda>v. 0xF0100000 + of_nat v) 0xF0110000 0xF0120000 no_segments"
  note r = descriptor_tables_read [OF no_segments_boot, of "\<lambda>v. 0xF0100000 + of_nat v" "0xF0110000" "0xF0120000"]
  have p: "gd_p (d_idt ?d ! v) = 1 \<longleftrightarrow> v \<in> {0..8} \<union> {10..14} \<union> {16..19} \<union> {32..48}" if "v < 256" for v
    using r that by blast
  have o: "gate_offset (d_idt ?d ! v) = 0xF0100000 + of_nat v" if "v < 256" "gd_p (d_idt ?d ! v) = 1" for v
    using r that by blast
  have "gd_p (d_idt ?d ! 48) = 1"
    using p [of 48] by simp
  then have "gate_offset (d_idt ?d ! 48) = 0xF0100000 + of_nat 48"
    by (intro o) simp_all
  then show ?thesis
    using p [of 9] by simp
qed

text \<open>C17: A program can stop the kernel. Every vector but that of system calls and that of the clock, whose
  gate lets a program raise it by an instruction, leads to a panic of the kernel, whatever the program's
  registers and whatever state the kernel is in.\<close>

theorem program_stops_kernel:
  assumes "boot_descriptors d" "v < 256" "v \<noteq> unat T_SYSCALL" "v \<noteq> unat IRQ0_Clock"
    and "gd_p (d_idt (idt_init entry ts_address idt_address d) ! v) = 1"
    and "gd_dpl (d_idt (idt_init entry ts_address idt_address d) ! v) = 3"
    and "user_trap tf" "tf_trapno tf = of_nat v"
  shows "trap os cr2 tf m = Inl Panic"
proof -
  have "v \<noteq> 14"
    using assms(1,2,5,6) by (cases rule: gate_cases [OF assms(1,2), of entry ts_address idt_address])
      (auto simp: gate_fields)
  moreover have "unat (tf_trapno tf) = v"
    using assms(2,8) by (simp add: unat_of_nat)
  ultimately have t: "tf_trapno tf \<noteq> T_PGFLT" "tf_trapno tf \<noteq> T_SYSCALL" "tf_trapno tf \<noteq> IRQ0_Clock"
    using assms(3,4) by (auto simp: T_PGFLT_def)
  then have "trap_dispatch os cr2 tf k = Inl Panic" for k
    by (simp add: trap_dispatch_def)
  then show ?thesis
    using t assms(7) by (simp add: trap_def trap_user_def Let_def split: option.splits)
qed

theorem program_stops_kernel_witness:
  "trap os_quiet 0 (frame_example\<lparr>tf_trapno := 33\<rparr>) machine_example = Inl Panic"
proof -
  let ?d = "idt_init (\<lambda>v. 0xF0100000 + of_nat v) 0xF0110000 0xF0120000 no_segments"
  have "gd_p (d_idt ?d ! 33) = 1" "gd_dpl (d_idt ?d ! 33) = 3"
    by (cases rule: gate_cases [OF no_segments_boot, of 33 "\<lambda>v. 0xF0100000 + of_nat v" "0xF0110000" "0xF0120000"];
      simp add: gate_fields gate_vectors_def)+
  moreover have "user_trap (frame_example\<lparr>tf_trapno := 33\<rparr>)"
    by (simp add: user_trap_def frame_example_def)
  ultimately show ?thesis
    by (intro program_stops_kernel [OF no_segments_boot, of 33]) (simp_all add: T_SYSCALL_def IRQ0_Clock_def)
qed

end
