(* ===== verification/Boot_Load.thy ===== *)
theory Boot_Load
  imports C_String
begin

text \<open>
  The boot loader \<^verbatim>\<open>boot/main.c\<close>, which reads the image of the kernel sector by sector from the first
  disk and jumps to it. The drive is driven through its ports: a write sets a register, and the data that the
  processor then reads are those of the sector that the registers name. What the drive answers to a poll of
  its status, and what is on the disks, are arguments: \<open>status t\<close> is the answer to the \<open>t\<close>-th poll and
  \<open>disk d lba i\<close> is byte \<open>i\<close> of sector \<open>lba\<close> of the drive that \<open>d\<close> selects.
\<close>

section \<open>The disk\<close>











section \<open>The image\<close>








section \<open>Reading sectors\<close>













section \<open>Loading the kernel\<close>

























end
