(* ===== verification/Kdebug.thy ===== *)
theory Kdebug
  imports C_String
begin

text \<open>
  Debug information, \<^verbatim>\<open>kern/trap/kdebug.c\<close>: the search of the symbol table for the file and the
  function that contain an instruction address. The table is a function from indices to entries of
  \<^verbatim>\<open>inc/stab.h\<close>; it is taken to have fewer than \<open>2 ^ 30\<close> entries, so that the indices, which the
  program keeps in machine integers, are integers here. An address is a pointer to a word, so that adding 1 to it adds 4.
\<close>

section \<open>The search\<close>

record Stab =
  n_strx :: u32
  n_type :: u8
  n_other :: u8
  n_desc :: u16
  n_value :: u32

definition N_FUN :: u8 where "N_FUN = 0x24"
definition N_SO :: u8 where "N_SO = 0x64"
definition N_SOL :: u8 where "N_SOL = 0x84"

text \<open>The earliest entry of a type, going down from \<open>m\<close> to \<open>l\<close>.\<close>

function scan_down :: "(int \<Rightarrow> Stab) \<Rightarrow> u8 \<Rightarrow> int \<Rightarrow> int \<Rightarrow> int" where
  "scan_down stabs ty l m = (if l \<le> m \<and> n_type (stabs m) \<noteq> ty then scan_down stabs ty l (m - 1) else m)"
  by pat_completeness auto
termination by (relation "measure (\<lambda>(stabs, ty, l, m). nat (m - l + 1))") auto

declare scan_down.simps [simp del]

lemma scan_down_props:
  "scan_down stabs ty l m \<le> m" "l - 1 \<le> m \<Longrightarrow> l - 1 \<le> scan_down stabs ty l m"
  "scan_down stabs ty l m < i \<Longrightarrow> i \<le> m \<Longrightarrow> n_type (stabs i) \<noteq> ty"
  "l \<le> scan_down stabs ty l m \<Longrightarrow> n_type (stabs (scan_down stabs ty l m)) = ty"
proof (induction stabs ty l m rule: scan_down.induct)
  case (1 stabs ty l m)
  {
    case 1
    show ?case using "1.IH"(1) by (subst scan_down.simps) force
  next
    case 2
    then show ?case using "1.IH"(2) by (subst scan_down.simps) auto
  next
    case 3
    show ?case
    proof (cases "l \<le> m \<and> n_type (stabs m) \<noteq> ty")
      case True
      then show ?thesis
        using 3 "1.IH"(3) [OF True] by (cases "i = m") (simp_all add: scan_down.simps [of stabs ty l m])
    next
      case False
      then have "scan_down stabs ty l m = m"
        by (subst scan_down.simps) auto
      then show ?thesis
        using 3 by simp
    qed
  next
    case 4
    then show ?case using "1.IH"(4) by (subst scan_down.simps, subst (asm) scan_down.simps) (auto split: if_splits)
  }
qed

text \<open>Division by 2 as C does it, towards zero.\<close>

definition half :: "int \<Rightarrow> int" where "half x = (if 0 \<le> x then x div 2 else - ((- x) div 2))"

lemma half_bounds: "l \<le> r \<Longrightarrow> l \<le> half (l + r)" "l \<le> r \<Longrightarrow> half (l + r) \<le> r"
  unfolding half_def by (simp_all split: if_split) presburger+

text \<open>The last argument says whether an entry of the type was seen; the two before it are the region.\<close>

function stab_loop :: "(int \<Rightarrow> Stab) \<Rightarrow> u8 \<Rightarrow> int \<Rightarrow> int \<Rightarrow> u32 \<Rightarrow> int \<times> int \<times> bool \<Rightarrow> int \<times> int \<times> bool" where
  "stab_loop stabs ty l r addr (left, right, any_matches) =
     (if l \<le> r
      then (let true_m = half (l + r); m = scan_down stabs ty l true_m
            in if m < l then stab_loop stabs ty (true_m + 1) r addr (left, right, any_matches)
               else if n_value (stabs m) < addr then stab_loop stabs ty (true_m + 1) r addr (m, right, True)
               else if addr < n_value (stabs m) then stab_loop stabs ty l (m - 1) addr (left, m - 1, True)
               else stab_loop stabs ty m r (addr + 4) (m, right, True))
      else (left, right, any_matches))"
  by pat_completeness auto

termination
proof (relation "measures [\<lambda>(stabs, ty, l, r, addr, _). nat (r - l + 1),
    \<lambda>(stabs, ty, l, r, addr, _). if n_value (stabs (scan_down stabs ty l (half (l + r)))) = addr then 1 else 0]", goal_cases)
  case 1
  show ?case by simp
next
  case (2 stabs ty l r addr left right any_matches true_m m)
  then show ?case using half_bounds [of l r] by auto
next
  case (3 stabs ty l r addr left right any_matches true_m m)
  then show ?case using half_bounds [of l r] by auto
next
  case (4 stabs ty l r addr left right any_matches true_m m)
  have "m \<le> true_m"
    using 4(3) scan_down_props(1) by simp
  then show ?case using 4 half_bounds [of l r] by auto
next
  case (5 stabs ty l r addr left right any_matches true_m m)
  have "m \<le> true_m" "n_value (stabs m) = addr"
    using 5 scan_down_props(1) by auto
  moreover have "addr \<noteq> addr + 4"
    by simp
  ultimately show ?case
    using 5 half_bounds [of l r] by (cases "m = l") auto
qed

declare stab_loop.simps [simp del]

function back_to :: "(int \<Rightarrow> Stab) \<Rightarrow> u8 \<Rightarrow> int \<Rightarrow> int \<Rightarrow> int" where
  "back_to stabs ty left l = (if left < l \<and> n_type (stabs l) \<noteq> ty then back_to stabs ty left (l - 1) else l)"
  by pat_completeness auto
termination by (relation "measure (\<lambda>(stabs, ty, left, l). nat (l - left))") auto

declare back_to.simps [simp del]

definition stab_binsearch :: "(int \<Rightarrow> Stab) \<Rightarrow> int \<times> int \<Rightarrow> u8 \<Rightarrow> u32 \<Rightarrow> int \<times> int" where
  "stab_binsearch stabs region ty addr =
     (let (region_left, region_right) = region;
          (region_left, region_right, any_matches) =
            stab_loop stabs ty region_left region_right addr (region_left, region_right, False)
      in if \<not> any_matches then (region_left, region_left - 1)
         else (back_to stabs ty region_left region_right, region_right))"

text \<open>The example of the comment before the function, and what happens at neighbours four bytes apart.\<close>

definition stabs_of :: "(int \<times> u8 \<times> u32) list \<Rightarrow> int \<Rightarrow> Stab" where
  "stabs_of entries i =
     (case map_of entries i of
        Some (ty, v) \<Rightarrow> \<lparr>n_strx = 0, n_type = ty, n_other = 0, n_desc = 0, n_value = v\<rparr>
      | None \<Rightarrow> \<lparr>n_strx = 0, n_type = 0, n_other = 0, n_desc = 0, n_value = 0\<rparr>)"

definition comment_stabs :: "int \<Rightarrow> Stab" where
  "comment_stabs = stabs_of [(0, N_SO, 0xF0100000), (13, N_SO, 0xF0100040), (117, N_SO, 0xF0100176), (118, N_SO, 0xF0100178),
     (555, N_SO, 0xF0100652), (556, N_SO, 0xF0100654), (657, N_SO, 0xF0100849)]"

lemma comment_example: "stab_binsearch comment_stabs (0, 657) N_SO 0xF0100184 = (118, 554)"
  by code_simp

lemma neighbours_missed:
  "stab_binsearch (stabs_of [(0, N_FUN, 0xF0100000), (1, N_FUN, 0xF0100040), (2, N_FUN, 0xF0100044)]) (0, 2) N_FUN 0xF0100040 = (2, 2)"
  by code_simp

lemma below_all:
  "stab_binsearch (stabs_of [(0, N_SO, 0xF0100000), (2, N_SO, 0xF0100040)]) (0, 2) N_SO 0x1000 = (- 1, - 1)"
  by code_simp

section \<open>What the search finds\<close>

definition of_type :: "(int \<Rightarrow> Stab) \<Rightarrow> u8 \<Rightarrow> int set \<Rightarrow> int set" where
  "of_type stabs ty I = {i \<in> I. n_type (stabs i) = ty}"

text \<open>Entries of the type in order, and the addresses of two of them more than four apart.\<close>

definition spaced :: "(int \<Rightarrow> Stab) \<Rightarrow> u8 \<Rightarrow> int \<Rightarrow> int \<Rightarrow> bool" where
  "spaced stabs ty left right \<longleftrightarrow>
     (\<forall>i\<in>of_type stabs ty {left..right}. \<forall>j\<in>of_type stabs ty {left..right}.
        i < j \<longrightarrow> unat (n_value (stabs i)) + 4 < unat (n_value (stabs j)))"

definition stab_inv :: "(int \<Rightarrow> Stab) \<Rightarrow> u8 \<Rightarrow> int \<Rightarrow> int \<Rightarrow> u32 \<Rightarrow> int \<Rightarrow> int \<Rightarrow> u32 \<Rightarrow> int \<Rightarrow> int \<Rightarrow> bool \<Rightarrow> bool" where
  "stab_inv stabs ty L R a l r addr left right any_matches \<longleftrightarrow>
     L \<le> l \<and> r \<le> R \<and> right = r \<and>
     (\<forall>i\<in>of_type stabs ty {L..<l}. n_value (stabs i) \<le> a) \<and>
     (\<forall>i\<in>of_type stabs ty {r<..R}. a < n_value (stabs i)) \<and>
     (r = R \<or> r + 1 \<in> of_type stabs ty {L..R}) \<and>
     (left = L \<or> left \<in> of_type stabs ty {L..R} \<and> n_value (stabs left) \<le> a) \<and>
     (addr = a \<or> addr = a + 4 \<and> (\<exists>i\<in>of_type stabs ty {L..R}. n_value (stabs i) = a)) \<and>
     (any_matches \<longrightarrow> of_type stabs ty {L..R} \<noteq> {}) \<and>
     (any_matches \<or> of_type stabs ty {L..<l} = {} \<and> r = R \<and> left = L)"

text \<open>What is compared is on the same side of \<open>addr\<close> as of \<open>a\<close>.\<close>

lemma stab_side:
  assumes "spaced stabs ty L R" "unat a + 4 < 2 ^ 32" "m \<in> of_type stabs ty {L..R}"
    and "addr = a \<or> addr = a + 4 \<and> (\<exists>i\<in>of_type stabs ty {L..R}. n_value (stabs i) = a)"
  shows "n_value (stabs m) < addr \<Longrightarrow> n_value (stabs m) \<le> a" "addr < n_value (stabs m) \<Longrightarrow> a < n_value (stabs m)"
    "n_value (stabs m) = addr \<Longrightarrow> addr = a"
proof -
  have u: "unat (a + 4) = unat a + 4"
    using assms(2) by (simp add: unat_word_ariths)
  have far: "unat a + 4 < unat (n_value (stabs m)) \<or> n_value (stabs m) \<le> a" if "addr = a + 4"
  proof -
    have "addr \<noteq> a"
      using that by simp
    obtain i where i: "i \<in> of_type stabs ty {L..R}" "n_value (stabs i) = a"
      using assms(4) \<open>addr \<noteq> a\<close> by auto
    consider "i < m" | "m < i" | "m = i"
      by linarith
    then show ?thesis
    proof cases
      case 1
      then show ?thesis
        using assms(1,3) i unfolding spaced_def by blast
    next
      case 2
      then have "unat (n_value (stabs m)) + 4 < unat (n_value (stabs i))"
        using assms(1,3) i(1) unfolding spaced_def by blast
      then show ?thesis
        by (simp add: i(2) word_le_nat_alt)
    qed (simp add: i(2))
  qed
  show "n_value (stabs m) \<le> a" if "n_value (stabs m) < addr"
    using that far assms(4) u by (auto simp: word_less_nat_alt word_le_nat_alt)
  show "a < n_value (stabs m)" if "addr < n_value (stabs m)"
    using that far assms(4) u by (auto simp: word_less_nat_alt word_le_nat_alt)
  show "addr = a" if "n_value (stabs m) = addr"
    using that far assms(4) u by (auto simp: word_less_nat_alt word_le_nat_alt)
qed

lemma spaced_less:
  "spaced stabs ty L R \<Longrightarrow> i \<in> of_type stabs ty {L..R} \<Longrightarrow> j \<in> of_type stabs ty {L..R} \<Longrightarrow> i < j \<Longrightarrow>
    n_value (stabs i) < n_value (stabs j)"
  unfolding spaced_def word_less_nat_alt by force

text \<open>The four ways the loop goes on.\<close>

lemma stab_inv_step:
  assumes "spaced stabs ty L R" "unat a + 4 < 2 ^ 32" "stab_inv stabs ty L R a l r addr left right any_matches" "l \<le> r"
  defines "t \<equiv> half (l + r)" and "m \<equiv> scan_down stabs ty l (half (l + r))"
  shows "m < l \<Longrightarrow> stab_inv stabs ty L R a (t + 1) r addr left right any_matches"
    "l \<le> m \<Longrightarrow> n_value (stabs m) < addr \<Longrightarrow> stab_inv stabs ty L R a (t + 1) r addr m right True"
    "l \<le> m \<Longrightarrow> addr < n_value (stabs m) \<Longrightarrow> stab_inv stabs ty L R a l (m - 1) addr left (m - 1) True"
    "l \<le> m \<Longrightarrow> n_value (stabs m) = addr \<Longrightarrow> stab_inv stabs ty L R a m r (addr + 4) m right True"
proof -
  note I = assms(3) [unfolded stab_inv_def]
  have t: "l \<le> t" "t \<le> r"
    using half_bounds [OF assms(4)] by (simp_all add: t_def)
  have m: "m = scan_down stabs ty l t"
    by (simp add: m_def t_def)
  have none: "i \<in> of_type stabs ty {L..<t + 1} \<Longrightarrow> i \<le> m \<or> i < l" for i
    using scan_down_props(3) [of stabs ty l t i] unfolding m [symmetric] of_type_def by force
  have old: "i \<in> of_type stabs ty {L..<k} \<Longrightarrow> i < l \<Longrightarrow> i \<in> of_type stabs ty {L..<l}" for i k
    by (simp add: of_type_def)
  have tR: "i \<in> of_type stabs ty {L..<t + 1} \<Longrightarrow> i \<in> of_type stabs ty {L..R}" for i
    using t I by (auto simp: of_type_def)
  show "stab_inv stabs ty L R a (t + 1) r addr left right any_matches" if "m < l"
  proof -
    have "i \<in> of_type stabs ty {L..<l}" if "i \<in> of_type stabs ty {L..<t + 1}" for i
      using none [OF that] old [OF that] \<open>m < l\<close> by force
    then have sub: "of_type stabs ty {L..<t + 1} \<subseteq> of_type stabs ty {L..<l}"
      by blast
    have "L \<le> t + 1"
      using I t by linarith
    then show ?thesis
      using I sub unfolding stab_inv_def by blast
  qed
  assume lm: "l \<le> m"
  have ty: "n_type (stabs m) = ty" and mt: "m \<le> t"
    using scan_down_props(4) [of l stabs ty t] scan_down_props(1) [of stabs ty l t] lm unfolding m [symmetric] by blast+
  have mR: "m \<in> of_type stabs ty {L..R}"
    using ty lm mt t I by (simp add: of_type_def)
  then have ne: "of_type stabs ty {L..R} \<noteq> {}"
    by blast
  note side = stab_side [OF assms(1,2) mR, of addr]
  have ad: "addr = a \<or> addr = a + 4 \<and> (\<exists>i\<in>of_type stabs ty {L..R}. n_value (stabs i) = a)"
    using I by blast
  show "stab_inv stabs ty L R a (t + 1) r addr m right True" if v: "n_value (stabs m) < addr"
  proof -
    have ma: "n_value (stabs m) \<le> a"
      by (rule side(1) [OF ad v])
    have "n_value (stabs i) \<le> a" if it: "i \<in> of_type stabs ty {L..<t + 1}" for i
    proof -
      consider "i < l" | "i = m" | "i < m"
        using none [OF it] lm by linarith
      then show ?thesis
      proof cases
        case 1
        then show ?thesis
          using old [OF it] I by blast
      next
        case 3
        then show ?thesis
          using spaced_less [OF assms(1) tR [OF it] mR] ma by force
      qed (simp add: ma)
    qed
    then show ?thesis
      using I t mR ne ma unfolding stab_inv_def by simp
  qed
  show "stab_inv stabs ty L R a l (m - 1) addr left (m - 1) True" if v: "addr < n_value (stabs m)"
  proof -
    have ma: "a < n_value (stabs m)"
      by (rule side(2) [OF ad v])
    have "a < n_value (stabs i)" if i: "i \<in> of_type stabs ty {m - 1<..R}" for i
    proof (cases "i = m")
      case False
      then have "m < i" "i \<in> of_type stabs ty {L..R}"
        using i I lm by (auto simp: of_type_def)
      then show ?thesis
        using spaced_less [OF assms(1) mR] ma by force
    qed (simp add: ma)
    moreover have "m - 1 \<le> R"
      using mt t I by linarith
    ultimately show ?thesis
      using I mR ne unfolding stab_inv_def by simp
  qed
  show "stab_inv stabs ty L R a m r (addr + 4) m right True" if v: "n_value (stabs m) = addr"
  proof -
    have a: "addr = a"
      by (rule side(3) [OF ad v])
    have "n_value (stabs i) \<le> a" if i: "i \<in> of_type stabs ty {L..<m}" for i
    proof -
      have "i \<in> of_type stabs ty {L..R}" "i < m"
        using i mR by (auto simp: of_type_def)
      then show ?thesis
        using spaced_less [OF assms(1) _ mR, of i] v a by force
    qed
    then show ?thesis
      using I lm mR ne v a unfolding stab_inv_def by auto
  qed
qed

lemma stab_loop_inv:
  "spaced stabs ty L R \<Longrightarrow> unat a + 4 < 2 ^ 32 \<Longrightarrow> stab_inv stabs ty L R a l r addr left right any_matches \<Longrightarrow>
    \<exists>l' left' right' addr' any'. stab_loop stabs ty l r addr (left, right, any_matches) = (left', right', any') \<and>
      right' < l' \<and> stab_inv stabs ty L R a l' right' addr' left' right' any'"
proof (induction stabs ty l r addr "(left, right, any_matches)" arbitrary: left right any_matches rule: stab_loop.induct)
  case (1 stabs ty l r addr left right any_matches)
  let ?m = "scan_down stabs ty l (half (l + r))"
  show ?case
  proof (cases "l \<le> r")
    case False
    then have "stab_loop stabs ty l r addr (left, right, any_matches) = (left, right, any_matches)"
      by (subst stab_loop.simps) simp
    moreover have "right = r"
      using "1.prems"(3) by (simp add: stab_inv_def)
    ultimately show ?thesis
      using "1.prems"(3) False by force
  next
    case lr: True
    note S = stab_inv_step [OF "1.prems" lr]
    consider "?m < l" | "l \<le> ?m" "n_value (stabs ?m) < addr" | "l \<le> ?m" "addr < n_value (stabs ?m)"
      | "l \<le> ?m" "n_value (stabs ?m) = addr"
      by force
    then show ?thesis
    proof cases
      case 1
      then show ?thesis
        using "1.hyps"(1) [OF lr refl refl _ "1.prems"(1,2) S(1)] lr by (subst stab_loop.simps) (simp add: Let_def)
    next
      case 2
      then show ?thesis
        using "1.hyps"(2) [OF lr refl refl _ _ "1.prems"(1,2) S(2)] lr by (subst stab_loop.simps) (simp add: Let_def)
    next
      case 3
      then have "\<not> n_value (stabs ?m) < addr"
        by (simp add: not_less less_imp_le)
      with 3 show ?thesis
        using "1.hyps"(3) [OF lr refl refl _ _ _ "1.prems"(1,2) S(3)] lr by (subst stab_loop.simps) (simp add: Let_def)
    next
      case 4
      then show ?thesis
        using "1.hyps"(4) [OF lr refl refl _ _ _ "1.prems"(1,2) S(4)] lr by (subst stab_loop.simps) (simp add: Let_def)
    qed
  qed
qed

lemma back_to_props:
  "left \<le> l \<Longrightarrow> left \<le> back_to stabs ty left l" "back_to stabs ty left l \<le> l"
  "back_to stabs ty left l < i \<Longrightarrow> i \<le> l \<Longrightarrow> n_type (stabs i) \<noteq> ty"
  "left < back_to stabs ty left l \<Longrightarrow> n_type (stabs (back_to stabs ty left l)) = ty"
proof (induction stabs ty left l rule: back_to.induct)
  case (1 stabs ty left l)
  {
    case 1
    then show ?case using "1.IH"(1) by (subst back_to.simps) auto
  next
    case 2
    show ?case using "1.IH"(2) by (subst back_to.simps) force
  next
    case 3
    show ?case
    proof (cases "left < l \<and> n_type (stabs l) \<noteq> ty")
      case True
      then show ?thesis
        using 3 "1.IH"(3) [OF True] by (cases "i = l") (simp_all add: back_to.simps [of stabs ty left l])
    next
      case False
      then have "back_to stabs ty left l = l"
        by (subst back_to.simps) auto
      then show ?thesis
        using 3 by simp
    qed
  next
    case 4
    then show ?case using "1.IH"(4) by (subst back_to.simps, subst (asm) back_to.simps) (auto split: if_splits)
  }
qed

text \<open>
  The region of an address: it ends before the first entry of the type that is above the address, and it
  begins at the last entry that is not, if there is one. If there is none the result looks like a region
  too, with an entry that is not of the type, or one before the table, in front of the first of the type.
\<close>

definition entries_below :: "(int \<Rightarrow> Stab) \<Rightarrow> u8 \<Rightarrow> int \<Rightarrow> int \<Rightarrow> u32 \<Rightarrow> int set" where
  "entries_below stabs ty L R a = {i \<in> of_type stabs ty {L..R}. n_value (stabs i) \<le> a}"

definition entries_above :: "(int \<Rightarrow> Stab) \<Rightarrow> u8 \<Rightarrow> int \<Rightarrow> int \<Rightarrow> u32 \<Rightarrow> int set" where
  "entries_above stabs ty L R a = {i \<in> of_type stabs ty {L..R}. a < n_value (stabs i)}"

definition region_end :: "(int \<Rightarrow> Stab) \<Rightarrow> u8 \<Rightarrow> int \<Rightarrow> int \<Rightarrow> u32 \<Rightarrow> int" where
  "region_end stabs ty L R a = (if entries_above stabs ty L R a = {} then R else Min (entries_above stabs ty L R a) - 1)"

lemma stab_binsearch_region:
  assumes "spaced stabs ty L R" "unat a + 4 < 2 ^ 32" "L \<le> R + 1"
  shows "stab_binsearch stabs (L, R) ty a =
    (if entries_below stabs ty L R a \<noteq> {} then (Max (entries_below stabs ty L R a), region_end stabs ty L R a)
     else if entries_above stabs ty L R a \<noteq> {} then (min L (region_end stabs ty L R a), region_end stabs ty L R a)
     else (L, L - 1))"
proof -
  let ?T = "of_type stabs ty {L..R}"
  have start: "stab_inv stabs ty L R a L R a L R False"
    by (simp add: stab_inv_def of_type_def)
  obtain l left right addr any where
      e: "stab_loop stabs ty L R a (L, R, False) = (left, right, any)"
      and rl: "right < l" and inv: "stab_inv stabs ty L R a l right addr left right any"
    using stab_loop_inv [OF assms(1,2) start] by blast
  note I = inv [unfolded stab_inv_def]
  have fin: "finite {i \<in> ?T. P i}" for P
    by (rule finite_subset [of _ "{L..R}"]) (auto simp: of_type_def)
  have bel: "{i \<in> ?T. n_value (stabs i) \<le> a} = {i \<in> ?T. i \<le> right}"
  proof -
    have "n_value (stabs i) \<le> a \<longleftrightarrow> i \<le> right" if "i \<in> ?T" for i
    proof (cases "i \<le> right")
      case True
      then have "i \<in> of_type stabs ty {L..<l}"
        using that rl by (simp add: of_type_def)
      then show ?thesis
        using I True by blast
    next
      case False
      then have "i \<in> of_type stabs ty {right<..R}"
        using that by (simp add: of_type_def)
      then show ?thesis
        using I False by (meson not_le)
    qed
    then show ?thesis
      by blast
  qed
  have abv: "{i \<in> ?T. a < n_value (stabs i)} = {i \<in> ?T. right < i}"
    using bel by (auto simp: not_le [symmetric])
  have low: "left \<le> right \<or> left = L"
    using I bel by blast
  show ?thesis
  proof (cases any)
    case False
    then have "?T = {}"
      using I rl by (auto simp: of_type_def)
    then show ?thesis
      using I e False by (simp add: region_end_def entries_below_def entries_above_def stab_binsearch_def)
  next
    case True
    let ?b = "back_to stabs ty left right"
    have res: "stab_binsearch stabs (L, R) ty a = (?b, right)"
      using e True by (simp add: stab_binsearch_def)
    have "L \<le> left"
      using I by (auto simp: of_type_def)
    have rL: "L - 1 \<le> right"
      using I assms(3) by (auto simp: of_type_def)
    have up: "right = Min {i \<in> ?T. right < i} - 1" if "{i \<in> ?T. right < i} \<noteq> {}"
    proof -
      have "right \<noteq> R"
        using that by (auto simp: of_type_def)
      then have "right + 1 \<in> ?T"
        using I by blast
      then have "Min {i \<in> ?T. right < i} = right + 1"
        by (intro Min_eqI fin) auto
      then show ?thesis
        by simp
    qed
    have all_up: "right = R" if "{i \<in> ?T. right < i} = {}"
      using I that by auto
    have b_low: "?b = min L right" if "{i \<in> ?T. i \<le> right} = {}"
    proof -
      have l: "left = L"
        using I that low by blast
      show ?thesis
      proof (cases "L \<le> right")
        case True
        have "\<not> L < ?b"
        proof
          assume "L < ?b"
          then have "?b \<in> {i \<in> ?T. i \<le> right}"
            using back_to_props(4) [of L stabs ty right] back_to_props(2) [of stabs ty L right] I l by (simp add: of_type_def)
          then show False
            using that by blast
        qed
        then show ?thesis
          using back_to_props(1) [of L right stabs ty] True l by simp
      next
        case False
        then show ?thesis
          using l by (subst back_to.simps) simp
      qed
    qed
    have b_max: "?b = Max {i \<in> ?T. i \<le> right}" if ne: "{i \<in> ?T. i \<le> right} \<noteq> {}"
    proof -
      obtain i where i: "i \<in> ?T" "i \<le> right"
        using ne by blast
      then have "left \<le> right"
        using low by (auto simp: of_type_def)
      note B = back_to_props(1) [OF this, of stabs ty] back_to_props(2) [of stabs ty left right]
      have "n_type (stabs ?b) = ty"
      proof (rule ccontr)
        assume no: "n_type (stabs ?b) \<noteq> ty"
        then have "?b = left"
          using B(1) back_to_props(4) [of left stabs ty right] by force
        then have "left = L" "i \<noteq> L"
          using no I i by (auto simp: of_type_def)
        then have "?b < i"
          using i \<open>?b = left\<close> by (simp add: of_type_def)
        then show False
          using back_to_props(3) [of stabs ty left right i] i by (simp add: of_type_def)
      qed
      then have "?b \<in> {i \<in> ?T. i \<le> right}"
        using B \<open>L \<le> left\<close> I by (simp add: of_type_def)
      moreover have "j \<le> ?b" if "j \<in> {i \<in> ?T. i \<le> right}" for j
        using back_to_props(3) [of stabs ty left right j] that by (force simp: of_type_def)
      ultimately show ?thesis
        by (intro Max_eqI [symmetric] fin) blast+
    qed
    show ?thesis
    proof (cases "{i \<in> ?T. i \<le> right} = {}")
      case None: True
      then have "?T \<noteq> {}"
        using True I by blast
      then have "{i \<in> ?T. right < i} \<noteq> {}"
        using None by force
      then show ?thesis
        using None up b_low
        by (simp add: region_end_def entries_below_def entries_above_def bel abv res del: Collect_empty_eq empty_Collect_eq)
    next
      case False
      then show ?thesis
        using up all_up b_max by (cases "{i \<in> ?T. right < i} = {}") (simp_all add: region_end_def entries_below_def entries_above_def bel abv res del: Collect_empty_eq empty_Collect_eq)
    qed
  qed
qed

section \<open>The file and the function of an address\<close>

record Eipdebuginfo =
  eip_file :: u32
  eip_line :: int
  eip_fn_name :: u32
  eip_fn_namelen :: u32
  eip_fn_addr :: u32
  eip_fn_narg :: int

text \<open>A symbol table: its entries, how many there are, and its string table.\<close>

record UserStabData =
  stabs :: "int \<Rightarrow> Stab"
  stab_count :: int
  stabstr :: u32
  stabstr_end :: u32

function file_line :: "(int \<Rightarrow> Stab) \<Rightarrow> int \<Rightarrow> int \<Rightarrow> int" where
  "file_line st lfile lline =
     (if lfile \<le> lline \<and> n_type (st lline) \<noteq> N_SOL \<and> (n_type (st lline) \<noteq> N_SO \<or> n_value (st lline) = 0)
      then file_line st lfile (lline - 1) else lline)"
  by pat_completeness auto
termination by (relation "measure (\<lambda>(st, lfile, lline). nat (lline - lfile + 1))") auto

declare file_line.simps [simp del]

text \<open>
  The table of the kernel and that of the program, the memory with the strings, and where the string
  \<^verbatim>\<open>"<unknown>"\<close> lies are arguments. The offset in the function, which the program computes and then
  does not use, is left out. What is behind the ends of the table is whatever \<open>stabs\<close> gives.
\<close>

definition debuginfo_eip ::
    "UserStabData \<Rightarrow> UserStabData \<Rightarrow> u32 \<Rightarrow> bytes \<Rightarrow> u32 \<Rightarrow> (int \<times> Eipdebuginfo) option" where
  "debuginfo_eip kernel_stabs usd unknown m addr =
     (let info = \<lparr>eip_file = unknown, eip_line = 0, eip_fn_name = unknown, eip_fn_namelen = 9, eip_fn_addr = addr,
                  eip_fn_narg = 0\<rparr>;
          tab = (if USER_LIMIT \<le> addr then kernel_stabs else usd);
          st = stabs tab
      in if stabstr_end tab \<le> stabstr tab \<or> m (stabstr_end tab - 1) \<noteq> 0 then Some (- 1, info)
         else (let (lfile, rfile) = stab_binsearch st (0, stab_count tab - 1) N_SO addr
               in if lfile = 0 then Some (- 1, info)
                  else (let (lfun, rfun) = stab_binsearch st (lfile, rfile) N_FUN addr;
                            (info, lline) =
                              (if lfun \<le> rfun
                               then (let info = (if n_strx (st lfun) < stabstr_end tab - stabstr tab
                                                 then info\<lparr>eip_fn_name := stabstr tab + n_strx (st lfun)\<rparr> else info)
                                     in (info\<lparr>eip_fn_addr := n_value (st lfun)\<rparr>, lfun))
                               else (info\<lparr>eip_fn_addr := addr\<rparr>, lfile))
                        in Option.bind (strfind m (eip_fn_name info) 58) (\<lambda>e.
                             let info = info\<lparr>eip_fn_namelen := e - eip_fn_name info\<rparr>;
                                 lline = file_line st lfile lline;
                                 info = (if lfile \<le> lline \<and> n_strx (st lline) < stabstr_end tab - stabstr tab
                                         then info\<lparr>eip_file := stabstr tab + n_strx (st lline)\<rparr> else info)
                             in Some (0, info)))))"

lemma strfind_returns: "m (s + of_nat k) = 0 \<Longrightarrow> \<exists>e. strfind m s c = Some e"
proof (induction k arbitrary: s)
  case 0
  then show ?case
    by (subst strfind.simps) simp
next
  case (Suc k)
  then have "m (s + 1 + of_nat k) = 0"
    by (simp add: add.assoc)
  then have "\<exists>e. strfind m (s + 1) c = Some e"
    by (rule Suc.IH)
  then show ?case
    by (subst strfind.simps) auto
qed

lemma entries_below_Max:
  assumes "entries_below st ty L R a \<noteq> {}"
  shows "Max (entries_below st ty L R a) \<in> of_type st ty {L..R}" "n_value (st (Max (entries_below st ty L R a))) \<le> a"
    "L \<le> Max (entries_below st ty L R a)" "Max (entries_below st ty L R a) \<le> R"
proof -
  have "finite (entries_below st ty L R a)"
    by (rule finite_subset [of _ "{L..R}"]) (auto simp: entries_below_def of_type_def)
  then have m: "Max (entries_below st ty L R a) \<in> entries_below st ty L R a"
    using assms by (rule Max_in)
  then show "Max (entries_below st ty L R a) \<in> of_type st ty {L..R}" "n_value (st (Max (entries_below st ty L R a))) \<le> a"
    unfolding entries_below_def by blast+
  then show "L \<le> Max (entries_below st ty L R a)" "Max (entries_below st ty L R a) \<le> R"
    by (simp_all add: of_type_def)
qed

text \<open>C34: For an address at least four below the end of the address space, a string table that is not empty and
  ends with a 0, and a symbol table in which the entries for files, and those for functions in the file of the
  address, are in order and more than four bytes apart, the information is found when the file is not the first
  entry of the table and one of its functions begins at or below the address: the function is the last such
  one, and its name is the string of its entry up to the colon.\<close>

theorem debuginfo_finds_function:
  fixes addr :: u32 and kernel_stabs usd :: UserStabData
  defines "tab \<equiv> if USER_LIMIT \<le> addr then kernel_stabs else usd"
  defines "files \<equiv> entries_below (stabs tab) N_SO 0 (stab_count tab - 1) addr"
  defines "rfile \<equiv> region_end (stabs tab) N_SO 0 (stab_count tab - 1) addr"
  defines "funs \<equiv> entries_below (stabs tab) N_FUN (Max files) rfile addr"
  assumes "unat addr + 4 < 2 ^ 32" "stabstr tab < stabstr_end tab" "m (stabstr_end tab - 1) = 0"
    and "spaced (stabs tab) N_SO 0 (stab_count tab - 1)" "files \<noteq> {}" "0 < Max files"
    and "spaced (stabs tab) N_FUN (Max files) rfile" "funs \<noteq> {}"
    and "n_strx (stabs tab (Max funs)) < stabstr_end tab - stabstr tab"
  shows "\<exists>info e. debuginfo_eip kernel_stabs usd unknown m addr = Some (0, info) \<and>
    eip_fn_addr info = n_value (stabs tab (Max funs)) \<and>
    eip_fn_name info = stabstr tab + n_strx (stabs tab (Max funs)) \<and>
    strfind m (eip_fn_name info) 58 = Some e \<and> eip_fn_namelen info = e - eip_fn_name info"
proof -
  let ?st = "stabs tab" and ?name = "stabstr tab + n_strx (stabs tab (Max funs))"
  note F = entries_below_Max [OF assms(9) [unfolded files_def], folded files_def]
  note G = entries_below_Max [OF assms(12) [unfolded funs_def], folded funs_def]
  have "0 \<le> stab_count tab - 1 + 1"
    using F by linarith
  then have so: "stab_binsearch ?st (0, stab_count tab - 1) N_SO addr = (Max files, rfile)"
    using stab_binsearch_region [OF assms(8,5)] assms(9) by (simp add: files_def rfile_def)
  have "Max files \<le> rfile + 1"
    using G by linarith
  then have fu: "stab_binsearch ?st (Max files, rfile) N_FUN addr = (Max funs, region_end ?st N_FUN (Max files) rfile addr)"
    using stab_binsearch_region [OF assms(11,5)] assms(12) by (simp add: funs_def)
  have le: "Max funs \<le> region_end ?st N_FUN (Max files) rfile addr"
  proof (cases "entries_above ?st N_FUN (Max files) rfile addr = {}")
    case True
    then show ?thesis
      using G by (simp add: region_end_def)
  next
    case False
    have fa: "finite (entries_above ?st N_FUN (Max files) rfile addr)"
      by (rule finite_subset [of _ "{Max files..rfile}"]) (auto simp: entries_above_def of_type_def)
    then obtain k where k: "k \<in> entries_above ?st N_FUN (Max files) rfile addr" "k = Min (entries_above ?st N_FUN (Max files) rfile addr)"
      using Min_in False by blast
    have kk: "k \<in> of_type ?st N_FUN {Max files..rfile}" "n_value (?st (Max funs)) < n_value (?st k)"
      using k(1) G(2) by (auto simp: entries_above_def)
    then have "Max funs < k"
      using spaced_less [OF assms(11) kk(1) G(1)] by (cases "k = Max funs") force+
    then show ?thesis
      using k(2) False by (simp add: region_end_def)
  qed
  have "?name + of_nat (unat (stabstr_end tab - stabstr tab - n_strx (?st (Max funs)) - 1)) = stabstr_end tab - 1"
    by simp
  then obtain e where e: "strfind m ?name 58 = Some e"
    using strfind_returns [of m ?name] assms(7) by metis
  have "\<not> stabstr_end tab \<le> stabstr tab" "Max files \<noteq> 0"
    using assms(6,10) by simp_all
  then show ?thesis
    using so fu le e assms(7,13) by (simp add: debuginfo_eip_def Let_def tab_def [symmetric])
qed

text \<open>A table with a file and two functions, the second of which is named \<^verbatim>\<open>f\<close>.\<close>

definition debug_example :: UserStabData where
  "debug_example =
     \<lparr>stabs = (\<lambda>i. if i = 1 then \<lparr>n_strx = 0, n_type = N_SO, n_other = 0, n_desc = 0, n_value = 0xF0100000\<rparr>
                   else if i = 2 then \<lparr>n_strx = 1, n_type = N_FUN, n_other = 0, n_desc = 0, n_value = 0xF0100000\<rparr>
                   else if i = 3 then \<lparr>n_strx = 3, n_type = N_FUN, n_other = 0, n_desc = 0, n_value = 0xF0100040\<rparr>
                   else \<lparr>n_strx = 0, n_type = 0, n_other = 0, n_desc = 0, n_value = 0\<rparr>),
      stab_count = 4, stabstr = 0x100, stabstr_end = 0x108\<rparr>"

definition debug_strings :: bytes where
  "debug_strings a = (if a = 0x103 then 102 else if a = 0x104 then 58 else 0)"

theorem debuginfo_finds_function_witness:
  "\<exists>info. debuginfo_eip debug_example debug_example 0x200 debug_strings 0xF0100050 = Some (0, info) \<and>
     eip_fn_addr info = 0xF0100040 \<and> eip_fn_name info = 0x103 \<and> eip_fn_namelen info = 1"
proof -
  let ?st = "stabs debug_example"
  have types: "of_type ?st N_SO {0..3} = {1}" "of_type ?st N_FUN {1..3} = {2, 3}"
    by (auto simp: of_type_def debug_example_def N_SO_def N_FUN_def split: if_splits)
  have vals: "n_value (?st 1) = 0xF0100000" "n_value (?st 2) = 0xF0100000" "n_value (?st 3) = 0xF0100040" "n_strx (?st 3) = 3"
    by (simp_all add: debug_example_def)
  have tab: "(if USER_LIMIT \<le> (0xF0100050 :: u32) then debug_example else debug_example) = debug_example"
    "stab_count debug_example = 4" "stabstr debug_example = 0x100" "stabstr_end debug_example = 0x108"
    by (simp_all add: debug_example_def)
  have sets: "entries_below ?st N_SO 0 3 0xF0100050 = {1}" "entries_above ?st N_SO 0 3 0xF0100050 = {}"
    "entries_below ?st N_FUN 1 3 0xF0100050 = {2, 3}"
    by (auto simp: entries_below_def entries_above_def types vals)
  have "spaced ?st N_SO 0 3" "spaced ?st N_FUN 1 3"
    by (simp_all add: spaced_def types vals)
  moreover have "Max {2, 3 :: int} = 3"
    by simp
  ultimately obtain info e where info: "debuginfo_eip debug_example debug_example 0x200 debug_strings 0xF0100050 = Some (0, info)"
      "eip_fn_addr info = 0xF0100040" "eip_fn_name info = 0x103"
      "strfind debug_strings (eip_fn_name info) 58 = Some e" "eip_fn_namelen info = e - eip_fn_name info"
    using debuginfo_finds_function [of "0xF0100050" debug_example debug_example debug_strings "0x200"]
    by (auto simp: tab sets region_end_def vals debug_strings_def)
  have "strfind debug_strings 0x103 58 = Some 0x104"
    by (subst strfind.simps, simp add: debug_strings_def, subst strfind.simps, simp add: debug_strings_def)
  then show ?thesis
    using info by auto
qed

end
