(* ===== verification/User_Sort.thy ===== *)
theory User_Sort
  imports Fos_Base "HOL-Library.Multiset" "HOL-Library.Signed_Division"
begin

text \<open>
  The sorting programs under \<^verbatim>\<open>src/user\<close>: quicksort with the first element as pivot
  (\<^verbatim>\<open>quicksort_heap.c\<close>) and with a random one (\<^verbatim>\<open>arrayOperations_quicksort.c\<close>),
  the k-th element and the statistics of \<^verbatim>\<open>arrayOperations_stats.c\<close> and the merge sort of
  \<^verbatim>\<open>mergesort_noleakage.c\<close>. An array is the list of its elements, machine integers that are
  compared signed; positions are integers, as in the code. \<open>None\<close> is a call that does not return.
\<close>

type_synonym elements = "u32 list"

definition el :: "elements \<Rightarrow> int \<Rightarrow> int" where
  "el E i = sint (E ! nat i)"

section \<open>Quicksort\<close>

definition Swap :: "elements \<Rightarrow> int \<Rightarrow> int \<Rightarrow> elements" where
  "Swap E a b = E[nat a := E ! nat b, nat b := E ! nat a]"

function (sequential) qs_up :: "elements \<Rightarrow> int \<Rightarrow> int \<Rightarrow> int \<Rightarrow> int" where
  "qs_up E s f i = (if i \<le> f \<and> el E i \<le> el E s then qs_up E s f (i + 1) else i)"
  by pat_completeness auto
termination by (relation "measure (\<lambda>(E, s, f, i). nat (f + 1 - i))") auto

function (sequential) qs_down :: "elements \<Rightarrow> int \<Rightarrow> int \<Rightarrow> int" where
  "qs_down E s j = (if s < j \<and> el E s \<le> el E j then qs_down E s (j - 1) else j)"
  by pat_completeness auto
termination by (relation "measure (\<lambda>(E, s, j). nat (j - s))") auto

declare qs_up.simps [simp del] qs_down.simps [simp del]

partial_function (option) qs_loop ::
    "int \<Rightarrow> int \<Rightarrow> elements \<Rightarrow> int \<Rightarrow> int \<Rightarrow> (elements \<times> int \<times> int) option" where
  "qs_loop s f E i j =
     (if i \<le> j then
        (let i = qs_up E s f i; j = qs_down E s j
         in qs_loop s f (if i \<le> j then Swap E i j else E) i j)
      else Some (E, i, j))"

definition qs_partition :: "elements \<Rightarrow> int \<Rightarrow> int \<Rightarrow> (elements \<times> int \<times> int) option" where
  "qs_partition E s f = map_option (\<lambda>(E, i, j). (Swap E s j, i, j)) (qs_loop s f E (s + 1) f)"

partial_function (option) QSort :: "elements \<Rightarrow> int \<Rightarrow> int \<Rightarrow> elements option" where
  "QSort E startIndex finalIndex =
     (if finalIndex \<le> startIndex then Some E
      else Option.bind (qs_partition E startIndex finalIndex) (\<lambda>(E, i, j).
           Option.bind (QSort E startIndex (j - 1)) (\<lambda>E. QSort E i finalIndex)))"

definition QuickSort :: "elements \<Rightarrow> elements option" where
  "QuickSort E = QSort E 0 (int (length E) - 1)"

definition CheckSorted :: "elements \<Rightarrow> u32" where
  "CheckSorted E = (if \<exists>i\<in>set [0..int (length E) - 2]. el E (i + 1) < el E i then 0 else 1)"

section \<open>A random pivot\<close>

text \<open>
  The macro \<^verbatim>\<open>RAND\<close> reads the clock. No range is sorted twice in a run, so what the clock gives
  is a function of the range.
\<close>

definition RAND :: "(int \<Rightarrow> int \<Rightarrow> u32) \<Rightarrow> int \<Rightarrow> int \<Rightarrow> int" where
  "RAND time s e = uint (time s e mod of_int (e - s) + of_int s)"

partial_function (option) RQSort :: "(int \<Rightarrow> int \<Rightarrow> u32) \<Rightarrow> elements \<Rightarrow> int \<Rightarrow> int \<Rightarrow> elements option" where
  "RQSort time E startIndex finalIndex =
     (if finalIndex \<le> startIndex then Some E
      else let pvtIndex = RAND time startIndex finalIndex; E = Swap E startIndex pvtIndex in
           Option.bind (qs_partition E startIndex finalIndex) (\<lambda>(E, i, j).
           Option.bind (RQSort time E startIndex (j - 1)) (\<lambda>E. RQSort time E i finalIndex)))"

definition RQuickSort :: "(int \<Rightarrow> int \<Rightarrow> u32) \<Rightarrow> elements \<Rightarrow> elements option" where
  "RQuickSort time E = RQSort time E 0 (int (length E) - 1)"

partial_function (option) KSort ::
    "(int \<Rightarrow> int \<Rightarrow> u32) \<Rightarrow> elements \<Rightarrow> int \<Rightarrow> int \<Rightarrow> int \<Rightarrow> (u32 \<times> elements) option" where
  "KSort time E startIndex finalIndex kIndex =
     (if finalIndex \<le> startIndex then Some (E ! nat finalIndex, E)
      else let pvtIndex = RAND time startIndex finalIndex; E = Swap E startIndex pvtIndex in
           Option.bind (qs_partition E startIndex finalIndex) (\<lambda>(E, i, j).
             if kIndex = j then Some (E ! nat kIndex, E)
             else if kIndex < j then KSort time E startIndex (j - 1) kIndex
             else KSort time E i finalIndex kIndex))"

definition KthElement :: "(int \<Rightarrow> int \<Rightarrow> u32) \<Rightarrow> elements \<Rightarrow> int \<Rightarrow> (u32 \<times> elements) option" where
  "KthElement time E k = KSort time E 0 (int (length E) - 1) (k - 1)"

section \<open>Merge sort\<close>

text \<open>
  Positions count from 1. The two halves are copied to arrays of their own from the heap, which are
  apart from the sorted one.
\<close>

fun merge_halves :: "elements \<Rightarrow> elements \<Rightarrow> nat list \<Rightarrow> nat \<Rightarrow> nat \<Rightarrow> elements \<Rightarrow> elements" where
  "merge_halves L R [] l r A = A"
| "merge_halves L R (k # ks) l r A =
     (if l < length L \<and> r < length R then
        if sint (L ! l) < sint (R ! r) then merge_halves L R ks (l + 1) r (A[k - 1 := L ! l])
        else merge_halves L R ks l (r + 1) (A[k - 1 := R ! r])
      else if l < length L then merge_halves L R ks (l + 1) r (A[k - 1 := L ! l])
      else merge_halves L R ks l (r + 1) (A[k - 1 := R ! r]))"

definition Merge :: "elements \<Rightarrow> nat \<Rightarrow> nat \<Rightarrow> nat \<Rightarrow> elements" where
  "Merge A p q r =
     (let leftCapacity = q - p + 1; rightCapacity = r - q;
          L = map (\<lambda>i. A ! (p + i - 1)) [0..<leftCapacity];
          R = map (\<lambda>j. A ! (q + j)) [0..<rightCapacity]
      in merge_halves L R [p..<r + 1] 0 0 A)"

function (sequential) MSort :: "elements \<Rightarrow> nat \<Rightarrow> nat \<Rightarrow> elements" where
  "MSort A p r =
     (if r \<le> p then A
      else let q = (p + r) div 2
           in Merge (MSort (MSort A p q) (q + 1) r) p q r)"
  by pat_completeness auto
termination by (relation "measure (\<lambda>(A, p, r). r - p)") auto

declare MSort.simps [simp del]

section \<open>Statistics\<close>

record stats =
  smean :: u32
  svar :: u32
  smin :: u32
  smax :: u32
  smed :: u32

definition int_div :: "u32 \<Rightarrow> u32 \<Rightarrow> u32" where
  "int_div a b = of_int (sint a sdiv sint b)"

definition sum_min_max :: "elements \<Rightarrow> u32 \<times> u32 \<times> u32" where
  "sum_min_max E =
     fold (\<lambda>x (mean, mn, mx). (mean + x, if sint x < sint mn then x else mn, if sint mx < sint x then x else mx))
       E (0, 0x7FFFFFFF, 0x80000000)"

text \<open>An empty array is read in front of its start.\<close>

definition ArrayStats :: "(int \<Rightarrow> int \<Rightarrow> u32) \<Rightarrow> elements \<Rightarrow> (stats \<times> elements) result option" where
  "ArrayStats time E =
     (let (mean, mn, mx) = sum_min_max E; n = of_nat (length E) in
      if E = [] then Some (Inl Out_Of_Bounds)
      else map_option (\<lambda>(med, E).
             let mean = int_div mean n;
                 var = fold (\<lambda>x v. v + (x - mean) * (x - mean)) E 0
             in Inr (\<lparr>smean = mean, svar = int_div var n, smin = mn, smax = mx, smed = med\<rparr>, E))
           (KthElement time E (int (length E) div 2)))"

section \<open>Filling the array\<close>

definition InitializeAscending :: "nat \<Rightarrow> elements" where
  "InitializeAscending n = map of_nat [0..<n]"

definition InitializeDescending :: "nat \<Rightarrow> elements" where
  "InitializeDescending n = map (\<lambda>i. of_nat n - of_nat i - 1) [0..<n]"

text \<open>With fewer than three elements the remainder by 0 is a fault.\<close>

definition InitializeSemiRandom :: "nat \<Rightarrow> elements option" where
  "InitializeSemiRandom n =
     (let Repetition = n div 3
      in if n \<noteq> 0 \<and> Repetition = 0 then None else Some (map (\<lambda>i. of_nat (i mod Repetition)) [0..<n]))"

section \<open>Rearranging a segment\<close>

text \<open>\<open>E'\<close> has the elements of \<open>E\<close>, and the same ones outside \<open>a..b\<close>.\<close>

definition perm_within :: "int \<Rightarrow> int \<Rightarrow> elements \<Rightarrow> elements \<Rightarrow> bool" where
  "perm_within a b E E' \<longleftrightarrow> length E' = length E \<and> mset E' = mset E \<and>
     (\<forall>k. 0 \<le> k \<and> k < int (length E) \<and> (k < a \<or> b < k) \<longrightarrow> E' ! nat k = E ! nat k)"

lemma perm_within_refl [simp]: "perm_within a b E E"
  by (simp add: perm_within_def)

lemma perm_within_trans: "perm_within a b E E' \<Longrightarrow> perm_within a b E' E'' \<Longrightarrow> perm_within a b E E''"
  by (simp add: perm_within_def)

lemma perm_within_mono: "perm_within a b E E' \<Longrightarrow> a' \<le> a \<Longrightarrow> b \<le> b' \<Longrightarrow> perm_within a' b' E E'"
  by (auto simp: perm_within_def)

lemma perm_within_el:
  "perm_within a b E E' \<Longrightarrow> 0 \<le> k \<Longrightarrow> k < int (length E) \<Longrightarrow> k < a \<or> b < k \<Longrightarrow> el E' k = el E k"
  by (simp add: perm_within_def el_def)

lemma perm_within_segment:
  assumes "perm_within a b E E'" and "0 \<le> a" and "b < int (length E)"
  shows "mset (take (nat (b + 1 - a)) (drop (nat a) E')) = mset (take (nat (b + 1 - a)) (drop (nat a) E))"
proof -
  let ?n = "nat a" and ?m = "nat (b + 1 - a)"
  have split: "mset xs = mset (take ?n xs) + mset (take ?m (drop ?n xs)) + mset (drop ?m (drop ?n xs))"
    for xs :: elements
    by (metis append_take_drop_id mset_append union_assoc)
  have l: "length E' = length E" "mset E' = mset E"
    using assms(1) by (simp_all add: perm_within_def)
  have o: "E' ! k = E ! k" if "k < length E" "int k < a \<or> b < int k" for k
    using assms(1) that unfolding perm_within_def by (metis nat_int of_nat_0_le_iff of_nat_less_iff)
  have "take ?n E' = take ?n E"
    by (rule nth_equalityI) (use l in \<open>auto intro!: o\<close>)
  moreover have "drop ?m (drop ?n E') = drop ?m (drop ?n E)"
    by (rule nth_equalityI) (use l assms(2) in \<open>auto intro!: o split: if_splits\<close>)
  ultimately show ?thesis
    using split [of E] split [of E'] l(2) by simp
qed

lemma segment_set:
  assumes "0 \<le> a" and "b < int (length E)"
  shows "set (take (nat (b + 1 - a)) (drop (nat a) E)) = {E ! nat k |k. a \<le> k \<and> k \<le> b}"
proof -
  have "set (take (nat (b + 1 - a)) (drop (nat a) E)) = {E ! (nat a + i) |i. i < nat (b + 1 - a)}"
    using assms by (auto simp: set_conv_nth) force
  also have "\<dots> = {E ! nat k |k. a \<le> k \<and> k \<le> b}"
  proof safe
    fix i assume "i < nat (b + 1 - a)"
    then show "\<exists>k. E ! (nat a + i) = E ! nat k \<and> a \<le> k \<and> k \<le> b"
      using assms(1) by (intro exI [of _ "a + int i"]) (auto simp: nat_add_distrib)
  next
    fix k assume "a \<le> k" "k \<le> b"
    then show "\<exists>i. E ! nat k = E ! (nat a + i) \<and> i < nat (b + 1 - a)"
      using assms(1) by (intro exI [of _ "nat (k - a)"]) (auto simp: nat_diff_distrib)
  qed
  finally show ?thesis .
qed

lemma perm_within_all:
  assumes "perm_within a b E E'" and "0 \<le> a" and "b < int (length E)" and "\<forall>k. a \<le> k \<and> k \<le> b \<longrightarrow> P (el E k)"
    and "a \<le> k" and "k \<le> b"
  shows "P (el E' k)"
proof -
  have "set (take (nat (b + 1 - a)) (drop (nat a) E')) = set (take (nat (b + 1 - a)) (drop (nat a) E))"
    using perm_within_segment [OF assms(1-3)] by (rule mset_eq_setD)
  then have "{E' ! nat k |k. a \<le> k \<and> k \<le> b} = {E ! nat k |k. a \<le> k \<and> k \<le> b}"
    using segment_set [OF assms(2,3)] segment_set [OF assms(2), of b E'] assms(1,3)
    by (simp only: perm_within_def)
  then obtain k' where "E' ! nat k = E ! nat k'" "a \<le> k'" "k' \<le> b"
    using assms(5,6) by blast
  then show ?thesis
    using assms(4) by (auto simp: el_def)
qed

lemma Swap_perm:
  assumes "a \<le> x" and "x \<le> b" and "a \<le> y" and "y \<le> b" and "0 \<le> a" and "b < int (length E)"
  shows "perm_within a b E (Swap E x y)"
proof -
  have "mset (Swap E x y) = mset E"
    unfolding Swap_def by (rule mset_swap) (use assms in auto)
  then show ?thesis
    using assms by (auto simp: perm_within_def Swap_def nth_list_update)
qed

lemma Swap_el:
  assumes "0 \<le> x" and "x < int (length E)" and "0 \<le> y" and "y < int (length E)" and "0 \<le> k"
  shows "el (Swap E x y) k = (if k = y then el E x else if k = x then el E y else el E k)"
  using assms by (auto simp: Swap_def el_def nth_list_update eq_nat_nat_iff)

section \<open>The partition\<close>

lemma qs_up_spec:
  assumes "i \<le> f + 1"
  shows "i \<le> qs_up E s f i \<and> qs_up E s f i \<le> f + 1 \<and> (\<forall>k. i \<le> k \<and> k < qs_up E s f i \<longrightarrow> el E k \<le> el E s) \<and>
         (qs_up E s f i \<le> f \<longrightarrow> el E s < el E (qs_up E s f i))"
  using assms
proof (induction E s f i rule: qs_up.induct)
  case (1 E s f i)
  show ?case
  proof (cases "i \<le> f \<and> el E i \<le> el E s")
    case True
    have IH: "i + 1 \<le> qs_up E s f (i + 1) \<and> qs_up E s f (i + 1) \<le> f + 1 \<and>
        (\<forall>k. i + 1 \<le> k \<and> k < qs_up E s f (i + 1) \<longrightarrow> el E k \<le> el E s) \<and>
        (qs_up E s f (i + 1) \<le> f \<longrightarrow> el E s < el E (qs_up E s f (i + 1)))"
      using 1(1) True by simp
    from True have e: "qs_up E s f i = qs_up E s f (i + 1)"
      by (subst qs_up.simps) simp
    have "el E k \<le> el E s" if "i \<le> k" "k < qs_up E s f (i + 1)" for k
      using IH True that by (cases "k = i") auto
    then show ?thesis
      using IH True by (simp add: e)
  next
    case False
    then show ?thesis
      using 1(2) by (subst (1 2 3 4 5) qs_up.simps) auto
  qed
qed

lemma qs_down_spec:
  assumes "s \<le> j"
  shows "s \<le> qs_down E s j \<and> qs_down E s j \<le> j \<and> (\<forall>k. qs_down E s j < k \<and> k \<le> j \<longrightarrow> el E s \<le> el E k) \<and>
         (s < qs_down E s j \<longrightarrow> el E (qs_down E s j) < el E s)"
  using assms
proof (induction E s j rule: qs_down.induct)
  case (1 E s j)
  show ?case
  proof (cases "s < j \<and> el E s \<le> el E j")
    case True
    have IH: "s \<le> qs_down E s (j - 1) \<and> qs_down E s (j - 1) \<le> j - 1 \<and>
        (\<forall>k. qs_down E s (j - 1) < k \<and> k \<le> j - 1 \<longrightarrow> el E s \<le> el E k) \<and>
        (s < qs_down E s (j - 1) \<longrightarrow> el E (qs_down E s (j - 1)) < el E s)"
      using 1(1) True by simp
    from True have e: "qs_down E s j = qs_down E s (j - 1)"
      by (subst qs_down.simps) simp
    have "el E s \<le> el E k" if "qs_down E s (j - 1) < k" "k \<le> j" for k
      using IH True that by (cases "k = j") auto
    then show ?thesis
      using IH True by (simp add: e)
  next
    case False
    then show ?thesis
      using 1(2) by (subst (1 2 3 4 5) qs_down.simps) auto
  qed
qed

text \<open>The two hands of the partition: what lies behind them is on its side of the pivot.\<close>

definition qs_inv :: "int \<Rightarrow> int \<Rightarrow> int \<Rightarrow> elements \<Rightarrow> int \<Rightarrow> int \<Rightarrow> bool" where
  "qs_inv s f p E i j \<longleftrightarrow> 0 \<le> s \<and> s < i \<and> i \<le> f + 1 \<and> s \<le> j \<and> j \<le> f \<and> f < int (length E) \<and> el E s = p \<and>
     (\<forall>k. s < k \<and> k < i \<longrightarrow> el E k \<le> p) \<and> (\<forall>k. j < k \<and> k \<le> f \<longrightarrow> p \<le> el E k)"

definition qs_measure :: "elements \<Rightarrow> int \<Rightarrow> int \<Rightarrow> int \<Rightarrow> nat" where
  "qs_measure E p i j = (if i \<le> j then 2 * nat (j - i + 1) + (if p < el E i \<and> el E j < p then 1 else 0) else 0)"

lemma qs_step:
  assumes inv: "qs_inv s f p E i j" and "i \<le> j"
    and i': "i' = qs_up E s f i" and j': "j' = qs_down E s j" and E': "E' = (if i' \<le> j' then Swap E i' j' else E)"
  shows "qs_inv s f p E' i' j' \<and> perm_within s f E E' \<and> qs_measure E' p i' j' < qs_measure E p i j"
proof -
  have b: "0 \<le> s" "s < i" "i \<le> f + 1" "s \<le> j" "j \<le> f" "f < int (length E)" "el E s = p"
    and lo: "\<forall>k. s < k \<and> k < i \<longrightarrow> el E k \<le> p" and hi: "\<forall>k. j < k \<and> k \<le> f \<longrightarrow> p \<le> el E k"
    using inv by (simp_all add: qs_inv_def)
  note up = qs_up_spec [OF b(3), of E s, folded i', unfolded b(7)]
  note down = qs_down_spec [OF b(4), of E, folded j', unfolded b(7)]
  have lo': "\<forall>k. s < k \<and> k < i' \<longrightarrow> el E k \<le> p"
    using lo up by (meson not_le)
  have hi': "\<forall>k. j' < k \<and> k \<le> f \<longrightarrow> p \<le> el E k"
    using hi down by (meson not_le)
  show ?thesis
  proof (cases "i' \<le> j'")
    case False
    have "qs_inv s f p E i' j'"
      using b up down lo' hi' by (simp add: qs_inv_def)
    moreover have "qs_measure E p i' j' < qs_measure E p i j"
      using False assms(2) by (simp add: qs_measure_def)
    ultimately show ?thesis
      using False E' by simp
  next
    case True
    have gt: "p < el E i'" "el E j' < p" "i' < j'"
    proof -
      show 1: "p < el E i'" "el E j' < p"
        using up down True b by auto
      show "i' < j'"
        using 1 True by (cases "i' = j'") auto
    qed
    have r: "s < i'" "j' \<le> f" "0 \<le> i'" "i' < int (length E)" "0 \<le> j'" "j' < int (length E)"
      using up down b True by auto
    have e: "el E' k = (if k = j' then el E i' else if k = i' then el E j' else el E k)" if "0 \<le> k" for k
      using E' True Swap_el r that by simp
    have "qs_inv s f p E' i' j'"
    proof -
      have "length E' = length E"
        using E' by (simp add: Swap_def)
      then show ?thesis
        using b up down lo' hi' r gt True by (auto simp: qs_inv_def e)
    qed
    moreover have "perm_within s f E E'"
      using E' True Swap_perm [of s i' f j' E] r b by simp
    moreover have "qs_measure E' p i' j' < qs_measure E p i j"
    proof -
      have m: "qs_measure E' p i' j' = 2 * nat (j' - i' + 1)"
        using True gt r by (simp add: qs_measure_def e)
      show ?thesis
      proof (cases "i' = i \<and> j' = j")
        case True
        then show ?thesis
          using gt assms(2) m by (simp add: qs_measure_def)
      next
        case False
        then have "nat (j' - i' + 1) < nat (j - i + 1)"
          using up down True by auto
        then show ?thesis
          using m assms(2) by (simp add: qs_measure_def)
      qed
    qed
    ultimately show ?thesis
      by blast
  qed
qed

lemma qs_loop_returns:
  assumes "qs_inv s f p E i j"
  shows "\<exists>E' i' j'. qs_loop s f E i j = Some (E', i', j') \<and> qs_inv s f p E' i' j' \<and> j' < i' \<and> perm_within s f E E'"
  using assms
proof (induction "qs_measure E p i j" arbitrary: E i j rule: less_induct)
  case less
  show ?case
  proof (cases "i \<le> j")
    case True
    define i' j' where ij: "i' = qs_up E s f i" "j' = qs_down E s j"
    define E' where E': "E' = (if i' \<le> j' then Swap E i' j' else E)"
    have s: "qs_inv s f p E' i' j'" "perm_within s f E E'" "qs_measure E' p i' j' < qs_measure E p i j"
      using qs_step [OF less.prems True ij E'] by auto
    have e: "qs_loop s f E i j = qs_loop s f E' i' j'"
      using True by (subst qs_loop.simps) (simp add: ij E' Let_def)
    show ?thesis
      using less.hyps [OF s(3,1)] s(2) perm_within_trans unfolding e by blast
  next
    case False
    then have "qs_loop s f E i j = Some (E, i, j)"
      by (subst qs_loop.simps) simp
    then show ?thesis
      using less.prems False by auto
  qed
qed

lemma qs_partition_returns:
  assumes "0 \<le> s" and "s < f" and "f < int (length E)"
  shows "\<exists>E' i j. qs_partition E s f = Some (E', i, j) \<and> perm_within s f E E' \<and>
     s \<le> j \<and> j \<le> f \<and> j < i \<and> i \<le> f + 1 \<and> el E' j = el E s \<and>
     (\<forall>k. s \<le> k \<and> k < i \<longrightarrow> el E' k \<le> el E s) \<and> (\<forall>k. j \<le> k \<and> k \<le> f \<longrightarrow> el E s \<le> el E' k)"
proof -
  have "qs_inv s f (el E s) E (s + 1) f"
    using assms by (auto simp: qs_inv_def)
  from qs_loop_returns [OF this] obtain E' i j where
    l: "qs_loop s f E (s + 1) f = Some (E', i, j)" "qs_inv s f (el E s) E' i j" "j < i" "perm_within s f E E'"
    by blast
  have b: "s < i" "i \<le> f + 1" "s \<le> j" "j \<le> f" "f < int (length E')" "el E' s = el E s"
    and lo: "\<forall>k. s < k \<and> k < i \<longrightarrow> el E' k \<le> el E s" and hi: "\<forall>k. j < k \<and> k \<le> f \<longrightarrow> el E s \<le> el E' k"
    using l(2) by (simp_all add: qs_inv_def)
  have e: "el (Swap E' s j) k = (if k = j then el E' s else if k = s then el E' j else el E' k)" if "0 \<le> k" for k
    using Swap_el [of s E' j k] b assms that by simp
  have p: "perm_within s f E (Swap E' s j)"
    using perm_within_trans [OF l(4)] Swap_perm [of s s f j E'] b assms by simp
  have j: "el E' j \<le> el E s"
    using lo b l(3) by (cases "j = s") auto
  have "\<forall>k. s \<le> k \<and> k < i \<longrightarrow> el (Swap E' s j) k \<le> el E s"
    using lo j b assms by (auto simp: e)
  moreover have "\<forall>k. j \<le> k \<and> k \<le> f \<longrightarrow> el E s \<le> el (Swap E' s j) k"
    using hi b assms by (auto simp: e)
  moreover have "el (Swap E' s j) j = el E s"
    using b assms by (simp add: e)
  ultimately show ?thesis
    using l p b by (auto simp: qs_partition_def)
qed

section \<open>Quicksort sorts\<close>

definition sorted_seg :: "elements \<Rightarrow> int \<Rightarrow> int \<Rightarrow> bool" where
  "sorted_seg E a b \<longleftrightarrow> (\<forall>k l. a \<le> k \<and> k \<le> l \<and> l \<le> b \<longrightarrow> el E k \<le> el E l)"

text \<open>Sorting both sides of a partition sorts the whole.\<close>

lemma sort_both_sides:
  assumes "0 \<le> s" and "f < int (length E)" and "s \<le> j" and "j \<le> f" and "j < i" and "i \<le> f + 1"
    and lo: "\<forall>k. s \<le> k \<and> k < i \<longrightarrow> el E k \<le> p" and hi: "\<forall>k. j \<le> k \<and> k \<le> f \<longrightarrow> p \<le> el E k"
    and l: "perm_within s (j - 1) E E1" "sorted_seg E1 s (j - 1)"
    and r: "perm_within i f E1 E2" "sorted_seg E2 i f"
  shows "perm_within s f E E2 \<and> sorted_seg E2 s f"
proof -
  have len: "length E1 = length E" "length E2 = length E"
    using l(1) r(1) by (simp_all add: perm_within_def)
  have e1: "el E1 k = el E k" if "0 \<le> k" "k \<le> f" "j \<le> k" for k
    using perm_within_el [OF l(1), of k] that assms(2) by simp
  have e2: "el E2 k = el E1 k" if "0 \<le> k" "k \<le> f" "k < i" for k
    using perm_within_el [OF r(1), of k] that assms(2) len by simp
  have L: "el E2 k \<le> p" if "s \<le> k" "k < i" for k
  proof (cases "k < j")
    case True
    have "el E1 k \<le> p"
      by (rule perm_within_all [OF l(1) assms(1), where P = "\<lambda>v. v \<le> p"]) (use that True assms lo in auto)
    then show ?thesis
      using e2 [of k] that assms by simp
  next
    case False
    then show ?thesis
      using e1 [of k] e2 [of k] lo that assms by simp
  qed
  have H: "p \<le> el E2 k" if "j \<le> k" "k \<le> f" for k
  proof (cases "k < i")
    case True
    then show ?thesis
      using e1 [of k] e2 [of k] hi that assms by simp
  next
    case False
    show ?thesis
      by (rule perm_within_all [OF r(1), where P = "\<lambda>v. p \<le> v"]) (use that False assms hi e1 len in auto)
  qed
  have "el E2 k \<le> el E2 m" if "s \<le> k" "k \<le> m" "m \<le> f" for k m
  proof (cases "m < j")
    case True
    then show ?thesis
      using l(2) e2 that assms by (simp add: sorted_seg_def)
  next
    case False
    show ?thesis
    proof (cases "i \<le> k")
      case True
      then show ?thesis
        using r(2) that by (simp add: sorted_seg_def)
    next
      case k: False
      show ?thesis
        using L [of k] H [of m] that k False by linarith
    qed
  qed
  moreover have "perm_within s f E E2"
    using perm_within_trans [OF perm_within_mono [OF l(1)] perm_within_mono [OF r(1)]] assms by simp
  ultimately show ?thesis
    by (simp add: sorted_seg_def)
qed

lemma sorted_seg_short:
  assumes "b \<le> a"
  shows "sorted_seg E a b"
  unfolding sorted_seg_def
proof (intro allI impI)
  fix k l assume "a \<le> k \<and> k \<le> l \<and> l \<le> b"
  then have "k = l"
    using assms by linarith
  then show "el E k \<le> el E l"
    by simp
qed

lemma QSort_returns:
  assumes "0 \<le> s" and "f < int (length E)"
  shows "\<exists>E'. QSort E s f = Some E' \<and> perm_within s f E E' \<and> sorted_seg E' s f"
  using assms
proof (induction "nat (f - s + 1)" arbitrary: E s f rule: less_induct)
  case less
  show ?case
  proof (cases "f \<le> s")
    case True
    then show ?thesis
      by (subst QSort.simps) (simp add: sorted_seg_short)
  next
    case False
    then obtain E1 i j where p: "qs_partition E s f = Some (E1, i, j)" "perm_within s f E E1"
      "s \<le> j" "j \<le> f" "j < i" "i \<le> f + 1"
      "\<forall>k. s \<le> k \<and> k < i \<longrightarrow> el E1 k \<le> el E s" "\<forall>k. j \<le> k \<and> k \<le> f \<longrightarrow> el E s \<le> el E1 k"
      using qs_partition_returns [of s f E] less.prems by auto
    have len: "length E1 = length E"
      using p(2) by (simp add: perm_within_def)
    obtain E2 where l: "QSort E1 s (j - 1) = Some E2" "perm_within s (j - 1) E1 E2" "sorted_seg E2 s (j - 1)"
      using less.hyps [of "j - 1" s E1] p len less.prems False by auto
    have len2: "length E2 = length E"
      using l(2) len by (simp add: perm_within_def)
    obtain E3 where r: "QSort E2 i f = Some E3" "perm_within i f E2 E3" "sorted_seg E3 i f"
      using less.hyps [of f i E2] p len2 less.prems False by auto
    have "perm_within s f E1 E3 \<and> sorted_seg E3 s f"
      by (rule sort_both_sides [OF less.prems(1) _ p(3-8) l(2,3) r(2,3)]) (use less.prems(2) len in simp)
    moreover have "QSort E s f = Some E3"
      using False p(1) l(1) r(1) by (subst QSort.simps) simp
    ultimately show ?thesis
      using p(2) perm_within_trans by blast
  qed
qed

lemma sorted_seg_all:
  assumes "sorted_seg E 0 (int (length E) - 1)"
  shows "sorted (map sint E)"
proof -
  have "sint (E ! k) \<le> sint (E ! l)" if "k \<le> l" "l < length E" for k l
    using assms [unfolded sorted_seg_def, rule_format, of "int k" "int l"] that by (simp add: el_def)
  then show ?thesis
    by (simp add: sorted_iff_nth_mono)
qed

text \<open>C32: Quicksort returns and sorts: for every array it comes back with a rearrangement of the same
  elements in ascending order.\<close>

theorem quicksort_sorts:
  "\<exists>E'. QuickSort E = Some E' \<and> mset E' = mset E \<and> sorted (map sint E')"
proof -
  obtain E' where E': "QSort E 0 (int (length E) - 1) = Some E'" "perm_within 0 (int (length E) - 1) E E'"
    "sorted_seg E' 0 (int (length E) - 1)"
    using QSort_returns [of 0 "int (length E) - 1" E] by auto
  then have "length E' = length E" "mset E' = mset E"
    by (simp_all add: perm_within_def)
  then show ?thesis
    using E' sorted_seg_all [of E'] by (simp add: QuickSort_def)
qed

text \<open>The same with a random pivot.\<close>

lemma RAND_range:
  assumes "0 \<le> s" and "s < e" and "e < 2147483648"
  shows "s \<le> RAND time s e \<and> RAND time s e < e"
proof -
  let ?r = "time s e mod of_int (e - s)"
  have d: "uint (of_int (e - s) :: u32) = e - s" and u: "uint (of_int s :: u32) = s"
    using assms by (simp_all add: uint_word_of_int del: of_int_diff)
  have m: "uint ?r = uint (time s e) mod (e - s)"
    using d by (simp add: uint_mod)
  have r: "0 \<le> uint ?r" "uint ?r < e - s"
    using assms(2) unfolding m by (simp_all add: pos_mod_bound)
  have "uint (?r + of_int s) = uint ?r + s"
    using r assms by (simp add: uint_word_ariths u)
  then show ?thesis
    using r by (simp add: RAND_def)
qed

lemma RQSort_returns:
  assumes "0 \<le> s" and "f < int (length E)" and "length E < 2147483648"
  shows "\<exists>E'. RQSort time E s f = Some E' \<and> perm_within s f E E' \<and> sorted_seg E' s f"
  using assms
proof (induction "nat (f - s + 1)" arbitrary: E s f rule: less_induct)
  case less
  show ?case
  proof (cases "f \<le> s")
    case True
    then show ?thesis
      by (subst RQSort.simps) (simp add: sorted_seg_short)
  next
    case False
    define E0 where "E0 = Swap E s (RAND time s f)"
    have p0: "perm_within s f E E0"
      unfolding E0_def by (rule Swap_perm) (use RAND_range [of s f time] less.prems False in auto)
    then have len0: "length E0 = length E"
      by (simp add: perm_within_def)
    obtain E1 i j where p: "qs_partition E0 s f = Some (E1, i, j)" "perm_within s f E0 E1"
      "s \<le> j" "j \<le> f" "j < i" "i \<le> f + 1"
      "\<forall>k. s \<le> k \<and> k < i \<longrightarrow> el E1 k \<le> el E0 s" "\<forall>k. j \<le> k \<and> k \<le> f \<longrightarrow> el E0 s \<le> el E1 k"
      using qs_partition_returns [of s f E0] less.prems False len0 by auto
    have len: "length E1 = length E"
      using p(2) len0 by (simp add: perm_within_def)
    obtain E2 where l: "RQSort time E1 s (j - 1) = Some E2" "perm_within s (j - 1) E1 E2" "sorted_seg E2 s (j - 1)"
      using less.hyps [of "j - 1" s E1] p len less.prems False by auto
    have len2: "length E2 = length E"
      using l(2) len by (simp add: perm_within_def)
    obtain E3 where r: "RQSort time E2 i f = Some E3" "perm_within i f E2 E3" "sorted_seg E3 i f"
      using less.hyps [of f i E2] p len2 less.prems False by auto
    have "perm_within s f E1 E3 \<and> sorted_seg E3 s f"
      by (rule sort_both_sides [OF less.prems(1) _ p(3-8) l(2,3) r(2,3)]) (use less.prems(2) len in simp)
    moreover have "RQSort time E s f = Some E3"
      using False p(1) l(1) r(1) by (subst RQSort.simps) (simp add: E0_def Let_def)
    ultimately show ?thesis
      using p0 p(2) perm_within_trans by blast
  qed
qed

text \<open>Quicksort with a random pivot sorts whatever the clock gives.\<close>

theorem random_quicksort_sorts:
  assumes "length E < 2147483648"
  shows "\<exists>E'. RQuickSort time E = Some E' \<and> mset E' = mset E \<and> sorted (map sint E')"
proof -
  obtain E' where E': "RQSort time E 0 (int (length E) - 1) = Some E'" "perm_within 0 (int (length E) - 1) E E'"
    "sorted_seg E' 0 (int (length E) - 1)"
    using RQSort_returns [of 0 "int (length E) - 1" E] assms by auto
  then have "length E' = length E" "mset E' = mset E"
    by (simp_all add: perm_within_def)
  then show ?thesis
    using E' sorted_seg_all [of E'] by (simp add: RQuickSort_def)
qed

theorem random_quicksort_sorts_witness:
  "\<exists>E'. RQuickSort (\<lambda>s e. 7) [3, - 1, 2, 3] = Some E' \<and> mset E' = {#3, - 1, 2, 3#} \<and> sorted (map sint E')"
  using random_quicksort_sorts [of "[3, - 1, 2, 3]" "\<lambda>s e. 7"] by simp

text \<open>The test that the programs make afterwards.\<close>

lemma CheckSorted_iff: "CheckSorted E = 1 \<longleftrightarrow> sorted (map sint E)"
proof -
  have "(\<exists>i\<in>set [0..int (length E) - 2]. el E (i + 1) < el E i) \<longleftrightarrow>
        (\<exists>n. Suc n < length E \<and> sint (E ! Suc n) < sint (E ! n))"
  proof
    assume "\<exists>i\<in>set [0..int (length E) - 2]. el E (i + 1) < el E i"
    then obtain i where "0 \<le> i" "i \<le> int (length E) - 2" "el E (i + 1) < el E i"
      by auto
    then show "\<exists>n. Suc n < length E \<and> sint (E ! Suc n) < sint (E ! n)"
      by (intro exI [of _ "nat i"]) (auto simp: el_def nat_add_distrib)
  next
    assume "\<exists>n. Suc n < length E \<and> sint (E ! Suc n) < sint (E ! n)"
    then obtain n where "Suc n < length E" "sint (E ! Suc n) < sint (E ! n)"
      by blast
    then show "\<exists>i\<in>set [0..int (length E) - 2]. el E (i + 1) < el E i"
      by (intro bexI [of _ "int n"]) (auto simp: el_def nat_add_distrib)
  qed
  also have "\<dots> \<longleftrightarrow> \<not> sorted (map sint E)"
    by (auto simp: sorted_iff_nth_Suc not_le)
  finally show ?thesis
    by (simp add: CheckSorted_def)
qed

section \<open>The k-th element\<close>

lemma rank_nth:
  assumes "k < length E" and "\<forall>a<k. sint (E ! a) \<le> sint (E ! k)"
    and "\<forall>b. k < b \<and> b < length E \<longrightarrow> sint (E ! k) \<le> sint (E ! b)"
  shows "sort (map sint E) ! k = sint (E ! k)"
proof -
  let ?l = "map sint (take k E)" and ?x = "sint (E ! k)" and ?r = "map sint (drop (Suc k) E)"
  have "map sint E = ?l @ ?x # ?r"
    by (metis assms(1) id_take_nth_drop list.simps(9) map_append)
  then have "mset (sort ?l @ ?x # sort ?r) = mset (map sint E)"
    by simp
  moreover have "sint (E ! i) \<le> sint (E ! Suc (k + j))" if "i < k" "j < length E - Suc k" for i j
    using assms(2) [rule_format, of i] assms(3) [rule_format, of "Suc (k + j)"] that
    by (simp add: less_diff_conv)
  then have "sorted (sort ?l @ ?x # sort ?r)"
    using assms by (auto simp: sorted_append in_set_conv_nth)
  ultimately have "sort (map sint E) = sort ?l @ ?x # sort ?r"
    by (rule properties_for_sort)
  then show ?thesis
    using assms(1) by (simp add: nth_append)
qed

text \<open>Everything below the segment is smaller than what is in it, everything above is greater.\<close>

definition apart_from :: "elements \<Rightarrow> int \<Rightarrow> int \<Rightarrow> bool" where
  "apart_from E s f \<longleftrightarrow>
     (\<forall>a b. 0 \<le> a \<and> a < s \<and> s \<le> b \<and> b < int (length E) \<longrightarrow> el E a \<le> el E b) \<and>
     (\<forall>a b. 0 \<le> a \<and> a \<le> f \<and> f < b \<and> b < int (length E) \<longrightarrow> el E a \<le> el E b)"

lemma perm_within_split:
  assumes "perm_within s f E E'" and "0 \<le> s" and "f < int (length E)" and "apart_from E s f"
  shows "apart_from E' s f"
proof -
  have len: "length E' = length E"
    using assms(1) by (simp add: perm_within_def)
  have e: "el E' k = el E k" if "0 \<le> k" "k < int (length E)" "k < s \<or> f < k" for k
    using perm_within_el [OF assms(1) that] .
  have all: "P (el E' k)" if "0 \<le> k" "k < int (length E)" "s \<le> k" "k \<le> f" "\<forall>k. s \<le> k \<and> k \<le> f \<longrightarrow> P (el E k)" for k P
    using perm_within_all [OF assms(1-3) that(5,3,4)] .
  have "el E' a \<le> el E' b" if "0 \<le> a" "a < s" "s \<le> b" "b < int (length E)" for a b
  proof (cases "b \<le> f")
    case True
    have "el E a \<le> el E' b"
      by (rule all [where P = "\<lambda>v. el E a \<le> v"]) (use that True assms in \<open>auto simp: apart_from_def\<close>)
    then show ?thesis
      using e [of a] that by simp
  next
    case False
    then show ?thesis
      using e [of a] e [of b] that assms(4) by (simp add: apart_from_def)
  qed
  moreover have "el E' a \<le> el E' b" if "0 \<le> a" "a \<le> f" "f < b" "b < int (length E)" for a b
  proof (cases "s \<le> a")
    case True
    have "el E' a \<le> el E b"
      by (rule all [where P = "\<lambda>v. v \<le> el E b"]) (use that True assms in \<open>auto simp: apart_from_def\<close>)
    then show ?thesis
      using e [of b] that by simp
  next
    case False
    then show ?thesis
      using e [of a] e [of b] that assms(4) by (simp add: apart_from_def)
  qed
  ultimately show ?thesis
    by (simp add: apart_from_def len)
qed

lemma apart_from_narrow:
  assumes "apart_from E s f" and "0 \<le> s" and "s \<le> j" and "j \<le> f" and "f < int (length E)"
    and lo: "\<forall>k. s \<le> k \<and> k \<le> j \<longrightarrow> el E k \<le> p" and hi: "\<forall>k. j \<le> k \<and> k \<le> f \<longrightarrow> p \<le> el E k"
  shows "apart_from E s (j - 1)" "apart_from E (j + 1) f"
    "\<forall>a. 0 \<le> a \<and> a < j \<longrightarrow> el E a \<le> el E j" "\<forall>b. j < b \<and> b < int (length E) \<longrightarrow> el E j \<le> el E b"
proof -
  have ab: "el E a \<le> el E b" if "0 \<le> a" "a \<le> j" "j \<le> b" "b < int (length E)" for a b
  proof (cases "s \<le> a \<and> b \<le> f")
    case True
    then show ?thesis
      using lo [rule_format, of a] hi [rule_format, of b] that by simp
  next
    case False
    then show ?thesis
      using assms(1-5) that by (auto simp: apart_from_def)
  qed
  then show "apart_from E s (j - 1)" "apart_from E (j + 1) f"
    using assms(1,3,4) by (auto simp: apart_from_def)
  show "\<forall>a. 0 \<le> a \<and> a < j \<longrightarrow> el E a \<le> el E j" "\<forall>b. j < b \<and> b < int (length E) \<longrightarrow> el E j \<le> el E b"
    using ab assms by auto
qed

lemma distinct_el:
  assumes "distinct E" and "0 \<le> a" and "a < int (length E)" and "0 \<le> b" and "b < int (length E)" and "el E a = el E b"
  shows "a = b"
proof -
  have "E ! nat a = E ! nat b"
    using assms(6) by (simp add: el_def signed_word_eqI)
  then show ?thesis
    using assms by (simp add: nth_eq_iff_index_eq nat_eq_iff)
qed

lemma KSort_selects:
  assumes "0 \<le> s" and "s \<le> k" and "k \<le> f" and "f < int (length E)" and "length E < 2147483648"
    and "distinct E" and "apart_from E s f"
  shows "\<exists>x E'. KSort time E s f k = Some (x, E') \<and> mset E' = mset E \<and> sint x = sort (map sint E) ! nat k"
  using assms
proof (induction "nat (f - s + 1)" arbitrary: E s f rule: less_induct)
  case less
  have sel: "sint (E ! nat k) = sort (map sint E) ! nat k"
    if "\<forall>a. 0 \<le> a \<and> a < k \<longrightarrow> el E a \<le> el E k" "\<forall>b. k < b \<and> b < int (length E) \<longrightarrow> el E k \<le> el E b"
      "length E = n" "0 \<le> k" "k < int (length E)" for E :: elements and n
  proof (rule rank_nth [symmetric])
    show "nat k < length E"
      using that by simp
    show "\<forall>a<nat k. sint (E ! a) \<le> sint (E ! nat k)"
    proof (intro allI impI)
      fix a assume "a < nat k"
      then show "sint (E ! a) \<le> sint (E ! nat k)"
        using that(1) [rule_format, of "int a"] by (simp add: el_def)
    qed
    show "\<forall>b. nat k < b \<and> b < length E \<longrightarrow> sint (E ! nat k) \<le> sint (E ! b)"
    proof (intro allI impI)
      fix b assume b: "nat k < b \<and> b < length E"
      then have "k < int b"
        using that(4) by linarith
      then show "sint (E ! nat k) \<le> sint (E ! b)"
        using that(2) [rule_format, of "int b"] b by (simp add: el_def)
    qed
  qed
  show ?case
  proof (cases "f \<le> s")
    case True
    then have k: "s = k" "f = k"
      using less.prems by auto
    have "sint (E ! nat k) = sort (map sint E) ! nat k"
      by (rule sel) (use less.prems k in \<open>auto simp: apart_from_def\<close>)
    then show ?thesis
      using True k by (subst KSort.simps) simp
  next
    case False
    define E0 where "E0 = Swap E s (RAND time s f)"
    have p0: "perm_within s f E E0"
      unfolding E0_def by (rule Swap_perm) (use RAND_range [of s f time] less.prems False in auto)
    then have len0: "length E0 = length E"
      by (simp add: perm_within_def)
    obtain E1 i j where p: "qs_partition E0 s f = Some (E1, i, j)" "perm_within s f E0 E1"
      "s \<le> j" "j \<le> f" "j < i" "i \<le> f + 1" "el E1 j = el E0 s"
      "\<forall>k. s \<le> k \<and> k < i \<longrightarrow> el E1 k \<le> el E0 s" "\<forall>k. j \<le> k \<and> k \<le> f \<longrightarrow> el E0 s \<le> el E1 k"
      using qs_partition_returns [of s f E0] less.prems False len0 by auto
    note p1 = perm_within_trans [OF p0 p(2)]
    have len: "length E1 = length E" and ms: "mset E1 = mset E"
      using p1 by (simp_all add: perm_within_def)
    have d: "distinct E1"
      using ms less.prems(6) by (metis distinct_count_atmost_1 mset_eq_setD)
    have ij: "i = j + 1"
    proof (rule ccontr)
      assume "i \<noteq> j + 1"
      then have "el E1 (j + 1) = el E1 j"
        using p(3-9) by (intro order_antisym) auto
      then show False
        using distinct_el [OF d, of "j + 1" j] p(3-6) \<open>i \<noteq> j + 1\<close> less.prems(1,4) len by simp
    qed
    note ap = perm_within_split [OF p1 less.prems(1,4,7)]
    note nar = apart_from_narrow [OF ap less.prems(1) p(3,4) _ _ p(9)]
    have f1: "f < int (length E1)" and lo: "\<forall>k. s \<le> k \<and> k \<le> j \<longrightarrow> el E1 k \<le> el E0 s"
      using less.prems(4) len p(5,8) by auto
    have e: "KSort time E s f k = (if k = j then Some (E1 ! nat k, E1)
        else if k < j then KSort time E1 s (j - 1) k else KSort time E1 i f k)"
      using False p(1) by (subst KSort.simps) (simp add: E0_def Let_def)
    have so: "sort (map sint E1) = sort (map sint E)"
      using ms by (metis mset_map sorted_list_of_multiset_mset)
    consider "k = j" | "k < j" | "j < k"
      by linarith
    then show ?thesis
    proof cases
      case 1
      have "sint (E1 ! nat k) = sort (map sint E1) ! nat k"
        by (rule sel) (use nar(3,4) [OF f1 lo] 1 less.prems len in auto)
      then show ?thesis
        unfolding e using 1 ms so by auto
    next
      case 2
      have "\<exists>x E'. KSort time E1 s (j - 1) k = Some (x, E') \<and> mset E' = mset E1 \<and> sint x = sort (map sint E1) ! nat k"
        by (rule less.hyps) (use 2 nar(1) [OF f1 lo] less.prems len d p(3,4) in auto)
      then show ?thesis
        using 2 by (simp add: e so ms)
    next
      case 3
      have "\<exists>x E'. KSort time E1 i f k = Some (x, E') \<and> mset E' = mset E1 \<and> sint x = sort (map sint E1) ! nat k"
        by (rule less.hyps) (use 3 nar(2) [OF f1 lo] less.prems len d p(3,4) ij in auto)
      then show ?thesis
        using 3 by (simp add: e so ms)
    qed
  qed
qed

lemma kth_element_selected:
  assumes "distinct E" and "1 \<le> k" and "k \<le> length E" and "length E < 2147483648"
  shows "\<exists>x E'. KthElement time E (int k) = Some (x, E') \<and> mset E' = mset E \<and> sint x = sort (map sint E) ! (k - 1)"
proof -
  have "apart_from E 0 (int (length E) - 1)"
    by (auto simp: apart_from_def)
  then have "\<exists>x E'. KSort time E 0 (int (length E) - 1) (int k - 1) = Some (x, E') \<and> mset E' = mset E \<and>
      sint x = sort (map sint E) ! nat (int k - 1)"
    by (intro KSort_selects) (use assms in auto)
  moreover have "nat (int k - 1) = k - 1"
    using assms(2) by simp
  ultimately show ?thesis
    by (simp add: KthElement_def)
qed

text \<open>The k-th element of an array without duplicates is the k-th of the sorted array, whatever the
  clock gives, and the call returns with the elements rearranged.\<close>

theorem kth_element_selects:
  assumes "distinct E" and "1 \<le> k" and "k \<le> length E" and "length E < 2147483648"
  shows "\<exists>x E'. KthElement time E (int k) = Some (x, E') \<and> mset E' = mset E \<and> sint x = sort (map sint E) ! (k - 1)"
  using assms by (rule kth_element_selected)

theorem kth_element_selects_witness:
  "\<exists>x E'. KthElement (\<lambda>s e. 7) [30, - 1, 20] 2 = Some (x, E') \<and> mset E' = {#30, - 1, 20#} \<and> sint x = 20"
  using kth_element_selects [of "[30, - 1, 20]" "2" "\<lambda>s e. 7"] by simp

text \<open>With duplicates the selection can miss: the elements equal to the pivot lie between the two hands,
  and a position among them is looked for on the right. The second element of 5, 5, 9 comes out as 9.\<close>

theorem kth_element_misses_duplicate:
  "map_option fst (KthElement (\<lambda>s e. 0) [5, 5, 9] 2) = Some 9 \<and> sort (map sint [5, 5, 9 :: u32]) ! 1 = 5"
  by (simp add: KthElement_def KSort.simps qs_partition_def qs_loop.simps qs_up.simps qs_down.simps RAND_def
       Swap_def el_def)

section \<open>Merge sort sorts\<close>

fun merged :: "elements \<Rightarrow> elements \<Rightarrow> elements" where
  "merged [] ys = ys"
| "merged xs [] = xs"
| "merged (x # xs) (y # ys) = (if sint x < sint y then x # merged xs (y # ys) else y # merged (x # xs) ys)"

lemma merged_Nil [simp]: "merged xs [] = xs"
  by (cases xs) simp_all

lemma mset_merged [simp]: "mset (merged xs ys) = mset xs + mset ys"
  by (induction xs ys rule: merged.induct) simp_all

lemma length_merged [simp]: "length (merged xs ys) = length xs + length ys"
  by (metis mset_merged size_mset size_union)

lemma set_merged [simp]: "set (merged xs ys) = set xs \<union> set ys"
  by (metis mset_merged set_mset_mset set_mset_union)

lemma sorted_merged: "sorted (map sint xs) \<Longrightarrow> sorted (map sint ys) \<Longrightarrow> sorted (map sint (merged xs ys))"
  by (induction xs ys rule: merged.induct) (auto simp: not_less intro: order_trans less_imp_le)

text \<open>The loop writes the merged rest of both halves.\<close>

lemma merge_halves_eq:
  assumes "length Z = (length L - l) + (length R - r)" and "l \<le> length L" and "r \<le> length R" and "k = Suc (length P)"
  shows "merge_halves L R [k..<k + length Z] l r (P @ Z @ Q) = P @ merged (drop l L) (drop r R) @ Q"
  using assms
proof (induction Z arbitrary: l r k P)
  case (Cons z Z)
  have u: "[k..<k + length (z # Z)] = k # [Suc k..<Suc k + length Z]"
    by (simp add: upt_conv_Cons del: upt_Suc)
  have w: "(P @ (z # Z) @ Q)[k - 1 := x] = (P @ [x]) @ Z @ Q" for x
    using Cons.prems(4) by (simp add: list_update_append)
  have L: "merge_halves L R [Suc k..<Suc k + length Z] (l + 1) r ((P @ [L ! l]) @ Z @ Q) =
      (P @ [L ! l]) @ merged (drop (l + 1) L) (drop r R) @ Q" if "l < length L"
    by (rule Cons.IH) (use Cons.prems that in auto)
  have R: "merge_halves L R [Suc k..<Suc k + length Z] l (r + 1) ((P @ [R ! r]) @ Z @ Q) =
      (P @ [R ! r]) @ merged (drop l L) (drop (r + 1) R) @ Q" if "r < length R"
    by (rule Cons.IH) (use Cons.prems that in auto)
  consider "l < length L" "r < length R" | "l < length L" "r = length R" | "l = length L" "r < length R"
    using Cons.prems by (cases "l = length L"; cases "r = length R"; simp)
  then show ?case
  proof cases
    case 1
    then show ?thesis
      unfolding u merge_halves.simps w L [OF 1(1)] R [OF 1(2)] by (simp add: Cons_nth_drop_Suc [symmetric])
  next
    case 2
    then show ?thesis
      unfolding u merge_halves.simps w L [OF 2(1)] by (simp add: Cons_nth_drop_Suc [symmetric])
  next
    case 3
    then show ?thesis
      unfolding u merge_halves.simps w R [OF 3(2)] by (simp add: Cons_nth_drop_Suc [symmetric])
  qed
qed simp

lemma Merge_eq:
  assumes "X \<noteq> []"
  shows "Merge (P @ X @ Y @ Q) (Suc (length P)) (length P + length X) (length P + length X + length Y) =
    P @ merged X Y @ Q"
proof -
  have c: "length P + length X - Suc (length P) + 1 = length X"
    "length P + length X + length Y - (length P + length X) = length Y"
    using assms by (simp_all add: Suc_le_eq)
  have L: "map (\<lambda>i. (P @ X @ Y @ Q) ! (Suc (length P) + i - 1)) [0..<length X] = X"
    by (rule nth_equalityI) (simp_all add: nth_append)
  have R: "map (\<lambda>j. (P @ X @ Y @ Q) ! (length P + length X + j)) [0..<length Y] = Y"
    by (rule nth_equalityI) (simp_all add: nth_append)
  have k: "[Suc (length P)..<length P + length X + length Y + 1] = [Suc (length P)..<Suc (length P) + length (X @ Y)]"
    by (rule arg_cong2 [where f = upt]) simp_all
  have "merge_halves X Y [Suc (length P)..<Suc (length P) + length (X @ Y)] 0 0 (P @ (X @ Y) @ Q) =
      P @ merged (drop 0 X) (drop 0 Y) @ Q"
    by (rule merge_halves_eq) simp_all
  then show ?thesis
    unfolding Merge_def Let_def c L R k by simp
qed

lemma MSort_segment:
  assumes "X \<noteq> []"
  shows "\<exists>S. MSort (P @ X @ Q) (Suc (length P)) (length P + length X) = P @ S @ Q \<and> mset S = mset X \<and>
     sorted (map sint S)"
  using assms
proof (induction "length X" arbitrary: P X Q rule: less_induct)
  case less
  show ?case
  proof (cases "length X = 1")
    case True
    then obtain x where "X = [x]"
      by (metis One_nat_def length_0_conv length_Suc_conv)
    then show ?thesis
      by (intro exI [of _ X]) (simp add: MSort.simps)
  next
    case False
    define n where "n = (length X + 1) div 2"
    define X1 X2 where "X1 = take n X" and "X2 = drop n X"
    have "length X \<noteq> 0"
      using less.prems by simp
    then have n: "0 < n" "n < length X"
      using False unfolding n_def by linarith+
    have X: "X = X1 @ X2" and ne: "X1 \<noteq> []" "X2 \<noteq> []" and l: "length X1 = n" "length X2 = length X - n"
      using n by (auto simp: X1_def X2_def)
    obtain S1 where S1: "MSort (P @ X1 @ X2 @ Q) (Suc (length P)) (length P + length X1) = P @ S1 @ X2 @ Q"
      "mset S1 = mset X1" "sorted (map sint S1)"
      using less.hyps [of X1 P "X2 @ Q"] n l ne by auto
    have l1: "length S1 = length X1"
      using S1(2) by (rule mset_eq_length)
    have "length X2 < length X"
      using n l by simp
    from less.hyps [OF this ne(2), of "P @ S1" Q]
    obtain S2 where S2: "MSort ((P @ S1) @ X2 @ Q) (Suc (length (P @ S1))) (length (P @ S1) + length X2) = (P @ S1) @ S2 @ Q"
      "mset S2 = mset X2" "sorted (map sint S2)"
      by blast
    have l2: "length S2 = length X2"
      using S2(2) by (rule mset_eq_length)
    have q: "(Suc (length P) + (length P + length X)) div 2 = length P + length X1"
      by (simp add: l n_def)
    have m: "Merge (P @ S1 @ S2 @ Q) (Suc (length P)) (length P + length S1) (length P + length S1 + length S2) =
        P @ merged S1 S2 @ Q"
      by (rule Merge_eq) (use ne l1 in auto)
    have "MSort (P @ X @ Q) (Suc (length P)) (length P + length X) = P @ merged S1 S2 @ Q"
    proof -
      have nl: "\<not> length P + length X \<le> Suc (length P)"
        using n by simp
      have lx: "length P + length S1 + length X2 = length P + length X"
        "length P + length S1 + length S2 = length P + length X"
        using l l1 l2 n by simp_all
      have e1: "MSort (P @ X @ Q) (Suc (length P)) (length P + length X1) = P @ S1 @ X2 @ Q"
        using S1(1) by (simp only: X append_assoc)
      have e2: "MSort (P @ S1 @ X2 @ Q) (length P + length X1 + 1) (length P + length X) = P @ S1 @ S2 @ Q"
        using S2(1) lx(1) unfolding append_assoc length_append l1 by simp
      show ?thesis
        using m lx(2) unfolding l1
        by (subst MSort.simps) (simp only: nl if_False Let_def q e1 e2 lx)
    qed
    then show ?thesis
      using S1 S2 sorted_merged X by auto
  qed
qed

text \<open>Merge sort sorts: for every array it gives a rearrangement of the same elements in ascending
  order.\<close>

theorem mergesort_sorts:
  "mset (MSort A 1 (length A)) = mset A \<and> sorted (map sint (MSort A 1 (length A)))"
proof (cases "A = []")
  case False
  then show ?thesis
    using MSort_segment [of A "[]" "[]"] by auto
qed (simp add: MSort.simps)

section \<open>The statistics\<close>

lemma sum_min_max_fold:
  "fold (\<lambda>x (mean, mn, mx). (mean + x, if sint x < sint mn then x else mn, if sint mx < sint x then x else mx)) E (m, a, b) =
     (m + sum_list E, fold (\<lambda>x a. if sint x < sint a then x else a) E a, fold (\<lambda>x b. if sint b < sint x then x else b) E b)"
  by (induction E arbitrary: m a b) (simp_all add: add.assoc)

lemma fold_min: "sint (fold (\<lambda>x a. if sint x < sint a then x else a) E a) = fold min (map sint E) (sint a)"
  by (induction E arbitrary: a) (simp_all add: min_def not_less cong: if_cong)

lemma fold_max: "sint (fold (\<lambda>x a. if sint a < sint x then x else a) E a) = fold max (map sint E) (sint a)"
  by (induction E arbitrary: a) (simp_all add: max_def not_less cong: if_cong)

lemma sint_range: "- 2147483648 \<le> sint (x :: u32)" "sint (x :: u32) \<le> 2147483647"
  using sint_greater_eq [of x] sint_lt [of x] by simp_all

lemma sum_min_max_eq:
  assumes "E \<noteq> []"
  shows "\<exists>mn mx. sum_min_max E = (sum_list E, mn, mx) \<and> sint mn = Min (sint ` set E) \<and> sint mx = Max (sint ` set E)"
proof -
  have "fold min (map sint E) 2147483647 = Min (sint ` set E)"
  proof -
    have r: "Min (sint ` set E) \<le> 2147483647"
      by (rule order_trans [OF Min_le sint_range(2) [of "hd E"]]) (use assms in auto)
    have "fold min (map sint E) 2147483647 = Min (set (2147483647 # map sint E))"
      by (simp only: Min.set_eq_fold)
    also have "\<dots> = min 2147483647 (Min (sint ` set E))"
      using assms by simp
    finally show ?thesis
      using r by simp
  qed
  moreover have "fold max (map sint E) (- 2147483648) = Max (sint ` set E)"
  proof -
    have r: "- 2147483648 \<le> Max (sint ` set E)"
      by (rule order_trans [OF sint_range(1) [of "hd E"] Max_ge]) (use assms in auto)
    have "fold max (map sint E) (- 2147483648) = Max (set (- 2147483648 # map sint E))"
      by (simp only: Max.set_eq_fold)
    also have "\<dots> = max (- 2147483648) (Max (sint ` set E))"
      using assms by simp
    finally show ?thesis
      using r by simp
  qed
  ultimately show ?thesis
    unfolding sum_min_max_def sum_min_max_fold by (simp add: fold_min fold_max)
qed

lemma sint_small: "- 2147483648 \<le> k \<Longrightarrow> k < 2147483648 \<Longrightarrow> sint (of_int k :: u32) = k"
  using signed_take_bit_int_eq_self_iff [of 31 k] by (simp add: signed_of_int)

lemma sint_sum_list:
  assumes "- 2147483648 \<le> (\<Sum>x\<leftarrow>E. sint x)" and "(\<Sum>x\<leftarrow>E. sint x) < 2147483648"
  shows "sint (sum_list E :: u32) = (\<Sum>x\<leftarrow>E. sint x)"
proof -
  have "sum_list E = (of_int (\<Sum>x\<leftarrow>E. sint x) :: u32)"
    by (induction E) simp_all
  then show ?thesis
    using assms by (simp add: sint_small)
qed

text \<open>The statistics of an array of at least two different elements whose sum does not overflow: the
  smallest and the greatest element, the median as the element in the middle of the sorted array and the
  truncated mean, whatever the clock gives.\<close>

theorem array_stats_exact:
  assumes "distinct E" and "2 \<le> length E" and "length E < 2147483648"
    and "- 2147483648 \<le> (\<Sum>x\<leftarrow>E. sint x)" and "(\<Sum>x\<leftarrow>E. sint x) < 2147483648"
  shows "\<exists>st E'. ArrayStats time E = Some (Inr (st, E')) \<and> sint (smin st) = Min (sint ` set E) \<and>
     sint (smax st) = Max (sint ` set E) \<and> sint (smed st) = sort (map sint E) ! (length E div 2 - 1) \<and>
     sint (smean st) = (\<Sum>x\<leftarrow>E. sint x) sdiv int (length E)"
proof -
  have ne: "E \<noteq> []"
    using assms(2) by auto
  obtain mn mx where m: "sum_min_max E = (sum_list E, mn, mx)" "sint mn = Min (sint ` set E)" "sint mx = Max (sint ` set E)"
    using sum_min_max_eq [OF ne] by blast
  obtain x E' where k: "KthElement time E (int (length E div 2)) = Some (x, E')"
    "sint x = sort (map sint E) ! (length E div 2 - 1)"
    using kth_element_selected [of E "length E div 2" time] assms by (auto simp: div_greater_zero_iff Suc_le_eq)
  have n: "sint (of_nat (length E) :: u32) = int (length E)"
    using sint_small [of "int (length E)"] assms(3) by simp
  have d: "sint (int_div (sum_list E) (of_nat (length E))) = (\<Sum>x\<leftarrow>E. sint x) sdiv int (length E)"
  proof -
    have b: "- 2147483648 \<le> a sdiv n \<and> a sdiv n < 2147483648"
      if "- 2147483648 \<le> a" "a < 2147483648" "0 < n" for a n :: int
    proof (cases "0 \<le> a")
      case True
      then show ?thesis
        using sdiv_int_range [of a n] that by auto
    next
      case False
      then have "a sdiv n \<le> 0"
        using that by (simp add: signed_divide_int_def pos_imp_zdiv_nonneg_iff)
      then show ?thesis
        using sdiv_int_range [of a n] that False by auto
    qed
    show ?thesis
      unfolding int_div_def n sint_sum_list [OF assms(4,5)]
      by (rule sint_small) (use b [OF assms(4,5)] ne in auto)
  qed
  show ?thesis
    using ne m k d by (simp add: ArrayStats_def zdiv_int Let_def)
qed

theorem array_stats_exact_witness:
  "\<exists>st E'. ArrayStats (\<lambda>s e. 5) [7, - 2, 4] = Some (Inr (st, E')) \<and> sint (smin st) = - 2 \<and> sint (smax st) = 7 \<and>
     sint (smed st) = - 2 \<and> sint (smean st) = 3"
  using array_stats_exact [of "[7, - 2, 4]" "\<lambda>s e. 5"] by simp

end
