(* ===== verification/Sem_Prog.thy ===== *)
theory Sem_Prog
  imports Semaphore
begin

text \<open>
  Programs that run side by side and synchronise by the kernel's semaphores. A program says, for what its
  locals and its place in the text are, what it does next; the processes take turns in any order, and the
  state of a semaphore and of who sleeps on it changes as \<^verbatim>\<open>waitSemaphore\<close> and
  \<^verbatim>\<open>signalSemaphore\<close> change it, which is proved at the end. The locale collects what holds of all
  such programs.
\<close>

section \<open>Processes\<close>

text \<open>\<open>Do\<close> reads and writes the shared variables, \<open>Value\<close> is \<^verbatim>\<open>sys_getSemaphoreValue\<close>.\<close>

datatype ('n, 'l, 'm) action =
    Wait 'n 'l | Signal 'n 'l | Value 'n "int \<Rightarrow> 'l" | Do "'m \<Rightarrow> 'm \<times> 'l" | Stop

record ('n, 'l, 'm) procs =
  shared :: 'm
  locals :: "nat \<Rightarrow> 'l"
  sval :: "'n \<Rightarrow> int"
  squeue :: "'n \<Rightarrow> nat list"
  asleep :: "nat \<Rightarrow> bool"

definition goto :: "nat \<Rightarrow> 'l \<Rightarrow> ('n, 'l, 'm) procs \<Rightarrow> ('n, 'l, 'm) procs" where
  "goto p l s = s\<lparr>locals := (locals s)(p := l)\<rparr>"

definition sem_wait :: "nat \<Rightarrow> 'n \<Rightarrow> ('n, 'l, 'm) procs \<Rightarrow> ('n, 'l, 'm) procs" where
  "sem_wait p n s =
     (let s = s\<lparr>sval := (sval s)(n := sval s n - 1)\<rparr>
      in if sval s n < 0
         then s\<lparr>squeue := (squeue s)(n := p # squeue s n), asleep := (asleep s)(p := True)\<rparr>
         else s)"

definition sem_signal :: "'n \<Rightarrow> ('n, 'l, 'm) procs \<Rightarrow> ('n, 'l, 'm) procs" where
  "sem_signal n s =
     (let s = s\<lparr>sval := (sval s)(n := sval s n + 1)\<rparr>
      in if sval s n \<le> 0
         then s\<lparr>squeue := (squeue s)(n := butlast (squeue s n)), asleep := (asleep s)(last (squeue s n) := False)\<rparr>
         else s)"

fun act :: "nat \<Rightarrow> ('n, 'l, 'm) action \<Rightarrow> ('n, 'l, 'm) procs \<Rightarrow> ('n, 'l, 'm) procs option" where
  "act p (Wait n l) s = Some (sem_wait p n (goto p l s))"
| "act p (Signal n l) s = Some (sem_signal n (goto p l s))"
| "act p (Value n f) s = Some (goto p (f (sval s n)) s)"
| "act p (Do f) s = (let (m, l) = f (shared s) in Some (goto p l (s\<lparr>shared := m\<rparr>)))"
| "act p Stop s = None"

definition run_step ::
    "(nat \<Rightarrow> 'l \<Rightarrow> ('n, 'l, 'm) action) \<Rightarrow> nat \<Rightarrow> ('n, 'l, 'm) procs \<Rightarrow> ('n, 'l, 'm) procs option" where
  "run_step prog p s = (if asleep s p then None else act p (prog p (locals s p)) s)"

inductive runs :: "(nat \<Rightarrow> 'l \<Rightarrow> ('n, 'l, 'm) action) \<Rightarrow> nat set \<Rightarrow> ('n, 'l, 'm) procs \<Rightarrow> ('n, 'l, 'm) procs \<Rightarrow> bool"
  for prog ps s0 where
  begins: "runs prog ps s0 s0"
| steps: "runs prog ps s0 s \<Longrightarrow> p \<in> ps \<Longrightarrow> run_step prog p s = Some s' \<Longrightarrow> runs prog ps s0 s'"

text \<open>A schedule that is played.\<close>

fun play :: "(nat \<Rightarrow> 'l \<Rightarrow> ('n, 'l, 'm) action) \<Rightarrow> nat list \<Rightarrow> ('n, 'l, 'm) procs \<Rightarrow> ('n, 'l, 'm) procs option" where
  "play prog [] s = Some s"
| "play prog (p # sched) s = (case run_step prog p s of None \<Rightarrow> None | Some s' \<Rightarrow> play prog sched s')"

text \<open>At the start nobody sleeps.\<close>

definition fresh :: "('n, 'l, 'm) procs \<Rightarrow> bool" where
  "fresh s \<longleftrightarrow> (\<forall>n. squeue s n = [] \<and> 0 \<le> sval s n) \<and> (\<forall>p. \<not> asleep s p)"

text \<open>No process can go on.\<close>

definition stuck :: "(nat \<Rightarrow> 'l \<Rightarrow> ('n, 'l, 'm) action) \<Rightarrow> nat set \<Rightarrow> ('n, 'l, 'm) procs \<Rightarrow> bool" where
  "stuck prog ps s \<longleftrightarrow> (\<forall>p\<in>ps. run_step prog p s = None)"

lemma play_runs_from: "play prog sched s = Some s' \<Longrightarrow> set sched \<subseteq> ps \<Longrightarrow> runs prog ps s0 s \<Longrightarrow> runs prog ps s0 s'"
  by (induction sched arbitrary: s) (auto split: option.splits intro: runs.steps)

lemma play_runs: "play prog sched s0 = Some s \<Longrightarrow> set sched \<subseteq> ps \<Longrightarrow> runs prog ps s0 s"
  using play_runs_from [OF _ _ runs.begins] .

lemma goto_simps [simp]:
  "shared (goto p l s) = shared s" "sval (goto p l s) = sval s" "squeue (goto p l s) = squeue s"
  "asleep (goto p l s) = asleep s" "locals (goto p l s) = (locals s)(p := l)"
  by (simp_all add: goto_def)

lemma sem_ops_simps [simp]:
  "shared (sem_wait p n s) = shared s" "locals (sem_wait p n s) = locals s"
  "shared (sem_signal n s) = shared s" "locals (sem_signal n s) = locals s"
  "sval (sem_wait p n s) = (sval s)(n := sval s n - 1)" "sval (sem_signal n s) = (sval s)(n := sval s n + 1)"
  by (simp_all add: sem_wait_def sem_signal_def Let_def)

lemma run_step_cases:
  assumes "run_step prog p s = Some s'"
  obtains (Wait) n l where "\<not> asleep s p" "prog p (locals s p) = Wait n l" "s' = sem_wait p n (goto p l s)"
    | (Signal) n l where "\<not> asleep s p" "prog p (locals s p) = Signal n l" "s' = sem_signal n (goto p l s)"
    | (Value) n f where "\<not> asleep s p" "prog p (locals s p) = Value n f" "s' = goto p (f (sval s n)) s"
    | (Do) f m l where "\<not> asleep s p" "prog p (locals s p) = Do f" "f (shared s) = (m, l)" "s' = goto p l (s\<lparr>shared := m\<rparr>)"
  using assms by (cases "prog p (locals s p)") (auto simp: run_step_def Let_def split: if_splits prod.splits)

section \<open>What holds of every program\<close>

text \<open>
  A process sleeps exactly when it is in the queue of a semaphore, in one and once; the last thing it did
  was to wait for that semaphore; and a queue is as long as the value is below zero.
\<close>

definition queues_wf :: "(nat \<Rightarrow> 'l \<Rightarrow> ('n, 'l, 'm) action) \<Rightarrow> nat set \<Rightarrow> ('n, 'l, 'm) procs \<Rightarrow> bool" where
  "queues_wf prog ps s \<longleftrightarrow>
     (\<forall>n. int (length (squeue s n)) = max 0 (- sval s n) \<and> distinct (squeue s n) \<and> set (squeue s n) \<subseteq> ps) \<and>
     (\<forall>p. asleep s p \<longleftrightarrow> (\<exists>n. p \<in> set (squeue s n))) \<and>
     (\<forall>p n n'. p \<in> set (squeue s n) \<longrightarrow> p \<in> set (squeue s n') \<longrightarrow> n = n') \<and>
     (\<forall>p n. p \<in> set (squeue s n) \<longrightarrow> (\<exists>l. prog p l = Wait n (locals s p)))"

lemma queues_wfD:
  assumes "queues_wf prog ps s"
  shows "int (length (squeue s n)) = max 0 (- sval s n)" "distinct (squeue s n)" "set (squeue s n) \<subseteq> ps"
    "asleep s p \<longleftrightarrow> (\<exists>n. p \<in> set (squeue s n))"
    "p \<in> set (squeue s n) \<Longrightarrow> p \<in> set (squeue s n') \<Longrightarrow> n = n'"
    "p \<in> set (squeue s n) \<Longrightarrow> \<exists>l. prog p l = Wait n (locals s p)"
  using assms by (simp_all add: queues_wf_def)

lemma queues_wfI:
  assumes "\<And>n. int (length (squeue s n)) = max 0 (- sval s n)" "\<And>n. distinct (squeue s n)"
    "\<And>n p. p \<in> set (squeue s n) \<Longrightarrow> p \<in> ps" "\<And>p. asleep s p \<longleftrightarrow> (\<exists>n. p \<in> set (squeue s n))"
    "\<And>p n n'. p \<in> set (squeue s n) \<Longrightarrow> p \<in> set (squeue s n') \<Longrightarrow> n = n'"
    "\<And>p n. p \<in> set (squeue s n) \<Longrightarrow> \<exists>l. prog p l = Wait n (locals s p)"
  shows "queues_wf prog ps s"
  using assms unfolding queues_wf_def by blast

lemma queues_wf_other:
  assumes "queues_wf prog ps s" "\<not> asleep s p"
    and "squeue s' = squeue s" "sval s' = sval s" "asleep s' = asleep s" "locals s' = (locals s)(p := l)"
  shows "queues_wf prog ps s'"
proof -
  note D = queues_wfD [OF assms(1)]
  have "p \<notin> set (squeue s n)" for n
    using D(4) assms(2) by blast
  then show ?thesis
    using assms(1,3-6) unfolding queues_wf_def by (auto simp: fun_upd_def)
qed

lemma queues_wf_wait:
  assumes "queues_wf prog ps s" "\<not> asleep s p" "p \<in> ps" "prog p (locals s p) = Wait n l"
  shows "queues_wf prog ps (sem_wait p n (goto p l s))"
proof -
  note D = queues_wfD [OF assms(1)]
  have np: "p \<notin> set (squeue s k)" for k
    using D(4) assms(2) by blast
  show ?thesis
  proof (cases "sval s n - 1 < 0")
    case True
    then have len: "int (length (p # squeue s n)) = max 0 (- (sval s n - 1))"
      using D(1) [of n] by simp
    have new: "\<exists>l'. prog p l' = Wait n l"
      using assms(4) by blast
    let ?s = "sem_wait p n (goto p l s)"
    have q': "squeue ?s = (squeue s)(n := p # squeue s n)" "asleep ?s = (asleep s)(p := True)"
      using True by (simp_all add: sem_wait_def Let_def)
    have mem: "q \<in> set (squeue ?s k) \<longleftrightarrow> q \<in> set (squeue s k) \<or> k = n \<and> q = p" for q k
      by (auto simp: q')
    show ?thesis
    proof (rule queues_wfI)
      show "int (length (squeue ?s k)) = max 0 (- sval ?s k)" "distinct (squeue ?s k)" for k
        using D(1,2) np len by (auto simp: q')
      show "q \<in> set (squeue ?s k) \<Longrightarrow> q \<in> ps" for q k
        using D(3) assms(3) unfolding mem by blast
      show "asleep ?s q \<longleftrightarrow> (\<exists>k. q \<in> set (squeue ?s k))" for q
        using D(4) [of q] unfolding mem q' by auto
      show "k = k'" if "q \<in> set (squeue ?s k)" "q \<in> set (squeue ?s k')" for q k k'
        using that D(5) [of q k k'] np unfolding mem by blast
      show "\<exists>l'. prog q l' = Wait k (locals ?s q)" if "q \<in> set (squeue ?s k)" for q k
        using that D(6) [of q k] np new unfolding mem by auto
    qed
  next
    case False
    then have "squeue s n = []"
      using D(1) [of n] by simp
    then show ?thesis
      using False D np unfolding queues_wf_def by (auto simp: sem_wait_def Let_def)
  qed
qed

lemma queues_wf_signal:
  assumes "queues_wf prog ps s" "\<not> asleep s p"
  shows "queues_wf prog ps (sem_signal n (goto p l s))"
proof -
  note D = queues_wfD [OF assms(1)]
  have np: "p \<notin> set (squeue s k)" for k
    using D(4) assms(2) by blast
  show ?thesis
  proof (cases "sval s n + 1 \<le> 0")
    case True
    then have ne: "squeue s n \<noteq> []"
      using D(1) [of n] by auto
    define e where "e = last (squeue s n)"
    have el: "squeue s n = butlast (squeue s n) @ [e]"
      using ne by (simp add: e_def)
    have en: "e \<notin> set (butlast (squeue s n))"
      using D(2) [of n] el by (metis distinct_append disjoint_iff list.set_intros(1))
    have other: "e \<notin> set (squeue s k)" if "k \<noteq> n" for k
      using D(5) [of e n k] el that by (metis in_set_conv_decomp)
    have len: "int (length (butlast (squeue s n))) = max 0 (- (sval s n + 1))"
      using D(1) [of n] True by simp
    have sub: "q \<in> set (butlast (squeue s n)) \<Longrightarrow> q \<in> set (squeue s n)" for q
      by (rule in_set_butlastD)
    have mem: "q \<in> set (squeue s n) \<longleftrightarrow> q \<in> set (butlast (squeue s n)) \<or> q = e" for q
      by (subst el) auto
    let ?s = "sem_signal n (goto p l s)"
    have q': "squeue ?s = (squeue s)(n := butlast (squeue s n))" "asleep ?s = (asleep s)(e := False)"
      using True by (simp_all add: sem_signal_def Let_def e_def)
    have sl: "asleep ?s q \<longleftrightarrow> (\<exists>k. q \<in> set (squeue ?s k))" for q
    proof (cases "q = e")
      case True
      then show ?thesis
        using en other by (auto simp: q')
    next
      case False
      then show ?thesis
        using D(4) [of q] mem [of q] by (auto simp: q')
    qed
    have "int (length (squeue ?s k)) = max 0 (- sval ?s k)" "distinct (squeue ?s k)" for k
      using D(1,2) len by (auto simp: q' distinct_butlast)
    moreover have "q \<in> ps" if "q \<in> set (squeue ?s k)" for q k
      using that D(3) [of k] sub by (auto simp: q' split: if_splits)
    moreover note sl
    moreover have "k = k'" if "q \<in> set (squeue ?s k)" "q \<in> set (squeue ?s k')" for q k k'
      using that D(5) [of q k k'] sub by (auto simp: q' split: if_splits)
    moreover have "\<exists>l'. prog q l' = Wait k (locals ?s q)" if "q \<in> set (squeue ?s k)" for q k
    proof -
      have "q \<in> set (squeue s k)"
        using that sub by (auto simp: q' split: if_splits)
      then show ?thesis
        using D(6) [of q k] np by auto
    qed
    ultimately show ?thesis
      by (rule queues_wfI)
  next
    case False
    then have "squeue s n = []"
      using D(1) [of n] by simp
    then show ?thesis
      using False D np unfolding queues_wf_def by (auto simp: sem_signal_def Let_def)
  qed
qed

lemma queues_wf_step:
  assumes "queues_wf prog ps s" "p \<in> ps" "run_step prog p s = Some s'"
  shows "queues_wf prog ps s'"
  using assms(3)
proof (cases rule: run_step_cases)
  case (Wait n l)
  then show ?thesis
    using queues_wf_wait [OF assms(1) _ assms(2)] by simp
next
  case (Signal n l)
  then show ?thesis
    using queues_wf_signal [OF assms(1)] by simp
next
  case (Value n f)
  then show ?thesis
    by (intro queues_wf_other [OF assms(1)]) simp_all
next
  case (Do f m l)
  then show ?thesis
    by (intro queues_wf_other [OF assms(1)]) simp_all
qed

lemma queues_wf_fresh: "fresh s \<Longrightarrow> queues_wf prog ps s"
  by (rule queues_wfI) (simp_all add: fresh_def)

lemma runs_queues_wf: "runs prog ps s0 s \<Longrightarrow> fresh s0 \<Longrightarrow> queues_wf prog ps s"
  by (induction rule: runs.induct) (auto intro: queues_wf_fresh queues_wf_step)

text \<open>A state that every step takes to a smaller one by some measure is followed by finitely many.\<close>

lemma no_endless_run:
  fixes \<mu> :: "('n, 'l, 'm) procs \<Rightarrow> nat"
  assumes "\<And>s s' p. runs prog ps s0 s \<Longrightarrow> p \<in> ps \<Longrightarrow> run_step prog p s = Some s' \<Longrightarrow> \<mu> s' < \<mu> s"
  shows "\<not> (\<exists>f. f 0 = s0 \<and> (\<forall>i. \<exists>p\<in>ps. run_step prog p (f i) = Some (f (Suc i))))"
proof
  assume "\<exists>f. f 0 = s0 \<and> (\<forall>i. \<exists>p\<in>ps. run_step prog p (f i) = Some (f (Suc i)))"
  then obtain f where f: "f 0 = s0" "\<And>i. \<exists>p\<in>ps. run_step prog p (f i) = Some (f (Suc i))"
    by blast
  have r: "runs prog ps s0 (f i)" for i
  proof (induction i)
    case 0
    show ?case
      by (simp add: f(1) runs.begins)
  next
    case (Suc i)
    then show ?case
      using f(2) [of i] runs.steps by blast
  qed
  have "\<mu> (f i) + i \<le> \<mu> (f 0)" for i
  proof (induction i)
    case (Suc i)
    obtain p where "p \<in> ps" "run_step prog p (f i) = Some (f (Suc i))"
      using f(2) by blast
    then have "\<mu> (f (Suc i)) < \<mu> (f i)"
      using assms r by blast
    then show ?case
      using Suc by simp
  qed simp
  from this [of "Suc (\<mu> (f 0))"] show False
    by simp
qed

section \<open>Counting waits\<close>

text \<open>
  The contract of a program with its semaphores: \<open>held\<close> says, for every place in the text, how many more
  waits than signals on a semaphore lie behind it.
\<close>

locale sem_program =
  fixes prog :: "nat \<Rightarrow> 'l \<Rightarrow> ('n, 'l, 'm) action" and ps :: "nat set" and held :: "nat \<Rightarrow> 'l \<Rightarrow> 'n \<Rightarrow> int"
  assumes finite_ps: "finite ps"
    and held_wait: "p \<in> ps \<Longrightarrow> prog p l = Wait n l' \<Longrightarrow> held p l' k = held p l k + (if k = n then 1 else 0)"
    and held_signal: "p \<in> ps \<Longrightarrow> prog p l = Signal n l' \<Longrightarrow> held p l' k = held p l k - (if k = n then 1 else 0)"
    and held_value: "p \<in> ps \<Longrightarrow> prog p l = Value n f \<Longrightarrow> held p (f v) k = held p l k"
    and held_do: "p \<in> ps \<Longrightarrow> prog p l = Do g \<Longrightarrow> g m = (m', l') \<Longrightarrow> held p l' k = held p l k"
begin

definition total :: "('n, 'l, 'm) procs \<Rightarrow> 'n \<Rightarrow> int" where
  "total s n = (\<Sum>p\<in>ps. held p (locals s p) n)"

lemma total_update:
  assumes "p \<in> ps" "locals s' = (locals s)(p := l)"
  shows "total s' n = total s n + held p l n - held p (locals s p) n"
proof -
  have "total s' n = held p l n + (\<Sum>q\<in>ps - {p}. held q (locals s q) n)"
    using assms finite_ps by (simp add: total_def sum.remove [of ps p])
  moreover have "total s n = held p (locals s p) n + (\<Sum>q\<in>ps - {p}. held q (locals s q) n)"
    using assms(1) finite_ps by (simp add: total_def sum.remove [of ps p])
  ultimately show ?thesis
    by simp
qed

lemma balance_step:
  assumes "p \<in> ps" "run_step prog p s = Some s'"
  shows "sval s' n + total s' n = sval s n + total s n"
  using assms(2)
proof (cases rule: run_step_cases)
  case (Wait k l)
  then show ?thesis
    using total_update [OF assms(1), of s' s l n] held_wait [OF assms(1) Wait(2), of n] by simp
next
  case (Signal k l)
  then show ?thesis
    using total_update [OF assms(1), of s' s l n] held_signal [OF assms(1) Signal(2), of n] by simp
next
  case (Value k f)
  then show ?thesis
    using total_update [OF assms(1), of s' s "f (sval s k)" n] held_value [OF assms(1) Value(2), of _ n] by simp
next
  case (Do f m l)
  then show ?thesis
    using total_update [OF assms(1), of s' s l n] held_do [OF assms(1) Do(2,3), of n] by simp
qed

lemma balance: "runs prog ps s0 s \<Longrightarrow> sval s n + total s n = sval s0 n + total s0 n"
  by (induction rule: runs.induct) (simp_all add: balance_step)

text \<open>A semaphore around a section: who has passed it, and not left, is at most as many as it began with.\<close>

definition holders :: "'n \<Rightarrow> ('n, 'l, 'm) procs \<Rightarrow> nat set" where
  "holders n s = {p \<in> ps. held p (locals s p) n = 1}"

definition inside :: "'n \<Rightarrow> ('n, 'l, 'm) procs \<Rightarrow> nat set" where
  "inside n s = holders n s - set (squeue s n)"

lemma holders_card:
  assumes "\<And>p l. p \<in> ps \<Longrightarrow> held p l n \<in> {0, 1}"
  shows "total s n = int (card (holders n s))"
proof -
  have "total s n = (\<Sum>p\<in>ps. if p \<in> holders n s then 1 else 0)"
    unfolding total_def using assms by (intro sum.cong) (auto simp: holders_def)
  also have "\<dots> = int (card (holders n s))"
  proof -
    have "ps \<inter> {p. p \<in> holders n s} = holders n s"
      by (auto simp: holders_def)
    then show ?thesis
      using finite_ps by (simp add: sum.If_cases)
  qed
  finally show ?thesis .
qed

lemma inside_card:
  assumes "runs prog ps s0 s" "fresh s0" and bin: "\<And>p l. p \<in> ps \<Longrightarrow> held p l n \<in> {0, 1}"
    and "total s0 n = 0"
  shows "int (card (inside n s)) = min (sval s0 n) (int (card (holders n s)))"
    and "sval s n = sval s0 n - int (card (holders n s))" and "finite (inside n s)"
proof -
  note D = queues_wfD [OF runs_queues_wf [OF assms(1,2)]]
  show v: "sval s n = sval s0 n - int (card (holders n s))"
    using balance [OF assms(1), of n] holders_card [OF bin, of s] assms(4) by simp
  have fin: "finite (holders n s)"
    using finite_ps by (simp add: holders_def)
  then show "finite (inside n s)"
    by (simp add: inside_def)
  have sub: "set (squeue s n) \<subseteq> holders n s"
  proof
    fix p assume p: "p \<in> set (squeue s n)"
    then have mem: "p \<in> ps"
      using D(3) by blast
    obtain l where "prog p l = Wait n (locals s p)"
      using D(6) [OF p] by blast
    then have "held p (locals s p) n = held p l n + 1"
      using held_wait [OF mem, of l n _ n] by simp
    then show "p \<in> holders n s"
      using bin [OF mem, of l] bin [OF mem, of "locals s p"] mem by (auto simp: holders_def)
  qed
  have "card (set (squeue s n)) = length (squeue s n)"
    using D(2) by (rule distinct_card)
  then have "int (card (inside n s)) = int (card (holders n s)) - int (length (squeue s n))"
    using fin sub card_mono [OF fin sub] by (simp add: inside_def card_Diff_subset)
  also have "\<dots> = min (sval s0 n) (int (card (holders n s)))"
    using D(1) [of n] v assms(2) by (auto simp: fresh_def)
  finally show "int (card (inside n s)) = min (sval s0 n) (int (card (holders n s)))" .
qed

lemma inside_le:
  assumes "runs prog ps s0 s" "fresh s0" "\<And>p l. p \<in> ps \<Longrightarrow> held p l n \<in> {0, 1}" "total s0 n = 0"
  shows "int (card (inside n s)) \<le> sval s0 n"
  using inside_card [OF assms] by simp

lemma inside_one:
  assumes "runs prog ps s0 s" "fresh s0" "\<And>p l. p \<in> ps \<Longrightarrow> held p l n \<in> {0, 1}" "total s0 n = 0"
    and "sval s0 n = 1" "p \<in> inside n s" "q \<in> inside n s"
  shows "p = q"
proof -
  have "card (inside n s) \<le> 1"
    using inside_le [OF assms(1-4)] assms(5) by simp
  then have "\<forall>a\<in>inside n s. \<forall>b\<in>inside n s. a = b"
    using card_le_Suc0_iff_eq [OF inside_card(3) [OF assms(1-4)]] by simp
  then show ?thesis
    using assms(6,7) by blast
qed

lemma awake_holder:
  assumes "\<not> asleep s p" "p \<in> ps" "held p (locals s p) n = 1" "runs prog ps s0 s" "fresh s0"
  shows "p \<in> inside n s"
  using assms queues_wfD(4) [OF runs_queues_wf [OF assms(4,5)]] by (auto simp: inside_def holders_def)

end

section \<open>The kernel's semaphores behave so\<close>

text \<open>
  The semaphores of a set of programs, in the kernel: each by its index, with its value and its queue; the
  processes are environments, and those that sleep are blocked.
\<close>

definition kernel_shows :: "('n \<Rightarrow> nat) \<Rightarrow> sems \<Rightarrow> ('n, 'l, 'm) procs \<Rightarrow> bool" where
  "kernel_shows ix k s \<longleftrightarrow>
     (\<forall>n. sval s n = sint (sem_value (semaphores k ! ix n)) \<and> squeue s n = env_queue (semaphores k ! ix n))"

lemma wait_others:
  assumes "waitSemaphore cnt owner name s = Inr (c, s')" "sem_found owner name i s"
    and "length (semaphores s) = unat (MAX_SEMAPHORES s)" "j \<noteq> i"
  shows "semaphores s' ! j = semaphores s ! j"
proof -
  note fd = sem_found_facts [OF assms(2,3)]
  show ?thesis
    using assms(1) fd(3) assms(4)
    by (auto simp: waitSemaphore_def Let_def andthen_def split: if_splits sum.splits option.splits prod.splits)
qed

lemma signal_others:
  assumes "signalSemaphore owner name s = Inr s'" "sem_found owner name i s"
    and "length (semaphores s) = unat (MAX_SEMAPHORES s)" "j \<noteq> i"
  shows "semaphores s' ! j = semaphores s ! j"
proof -
  note fd = sem_found_facts [OF assms(2,3)]
  show ?thesis
    using assms(1) fd(3) assms(4)
    by (auto simp: signalSemaphore_def Let_def andthen_def split: if_splits sum.splits option.splits prod.splits)
qed

lemma kernel_waits:
  assumes "sem_inv k" "kernel_shows ix k s" "inj ix" "sem_found owner name (ix n) k" "curenv (ssched k) = Some p"
  shows "\<exists>c k'. waitSemaphore cnt owner name k = Inr (c, k') \<and> sem_inv k' \<and> kernel_shows ix k' (sem_wait p n s) \<and>
    (asleep (sem_wait p n s) p \<and> \<not> asleep s p \<longrightarrow> env_status (env_of (ssched k') p) = ENV_BLOCKED)"
proof -
  have len: "length (semaphores k) = unat (MAX_SEMAPHORES k)"
    using assms(1) by (simp add: sem_inv_def)
  note fd = sem_found_facts [OF assms(4) len]
  obtain c k' where w: "waitSemaphore cnt owner name k = Inr (c, k')" "sem_inv k'"
      "sem_value (semaphores k' ! ix n) = sem_value (semaphores k ! ix n) - 1"
      "env_queue (semaphores k' ! ix n) = (if sint (sem_value (semaphores k ! ix n)) \<le> 0
         then p # env_queue (semaphores k ! ix n) else env_queue (semaphores k ! ix n))"
      "sint (sem_value (semaphores k ! ix n)) \<le> 0 \<longrightarrow> env_status (env_of (ssched k') p) = ENV_BLOCKED"
    using wait_ok [OF assms(1,4,5), of cnt] by blast
  have v: "sint (sem_value (semaphores k ! ix n) - 1) = sint (sem_value (semaphores k ! ix n)) - 1"
    by (rule sint_dec) (rule sem_value_bound [OF assms(1) fd(1,2)])
  have o: "semaphores k' ! ix m = semaphores k ! ix m" if "m \<noteq> n" for m
    using wait_others [OF w(1) assms(4) len] that assms(3) by (metis injD)
  have s: "sval s m = sint (sem_value (semaphores k ! ix m))" "squeue s m = env_queue (semaphores k ! ix m)" for m
    using assms(2) by (simp_all add: kernel_shows_def)
  have "kernel_shows ix k' (sem_wait p n s)"
    unfolding kernel_shows_def
  proof (intro allI conjI)
    fix m
    show "sval (sem_wait p n s) m = sint (sem_value (semaphores k' ! ix m))"
      using o [of m] w(3) v s(1) by simp
    show "squeue (sem_wait p n s) m = env_queue (semaphores k' ! ix m)"
      using o [of m] w(4) s by (auto simp: sem_wait_def Let_def)
  qed
  moreover have "asleep (sem_wait p n s) p \<and> \<not> asleep s p \<longrightarrow> env_status (env_of (ssched k') p) = ENV_BLOCKED"
    using w(5) s(1) [of n] by (auto simp: sem_wait_def Let_def split: if_splits)
  ultimately show ?thesis
    using w(1,2) by blast
qed

lemma kernel_signals:
  assumes "sem_inv k" "kernel_shows ix k s" "inj ix" "sem_found owner name (ix n) k"
    and "sval s n < 2147483647"
  shows "\<exists>k'. signalSemaphore owner name k = Inr k' \<and> sem_inv k' \<and> kernel_shows ix k' (sem_signal n s) \<and>
    (sval s n < 0 \<longrightarrow> env_status (env_of (ssched k') (last (squeue s n))) = ENV_READY)"
proof -
  have len: "length (semaphores k) = unat (MAX_SEMAPHORES k)"
    using assms(1) by (simp add: sem_inv_def)
  note fd = sem_found_facts [OF assms(4) len]
  have s: "sval s m = sint (sem_value (semaphores k ! ix m))" "squeue s m = env_queue (semaphores k ! ix m)" for m
    using assms(2) by (simp_all add: kernel_shows_def)
  have mx: "sint (sem_value (semaphores k ! ix n)) < 2147483647"
    using assms(5) s(1) by simp
  obtain k' where w: "signalSemaphore owner name k = Inr k'" "sem_inv k'"
      "sem_value (semaphores k' ! ix n) = sem_value (semaphores k ! ix n) + 1"
      "if sint (sem_value (semaphores k ! ix n)) < 0
       then env_queue (semaphores k' ! ix n) = butlast (env_queue (semaphores k ! ix n)) \<and>
         env_status (env_of (ssched k') (last (env_queue (semaphores k ! ix n)))) = ENV_READY
       else env_queue (semaphores k' ! ix n) = env_queue (semaphores k ! ix n)"
    using signal_ok [OF assms(1,4) mx] by (auto split: if_splits)
  note v = sint_inc [OF mx]
  have o: "semaphores k' ! ix m = semaphores k ! ix m" if "m \<noteq> n" for m
    using signal_others [OF w(1) assms(4) len] that assms(3) by (metis injD)
  have "kernel_shows ix k' (sem_signal n s)"
    unfolding kernel_shows_def
  proof (intro allI conjI)
    fix m
    show "sval (sem_signal n s) m = sint (sem_value (semaphores k' ! ix m))"
      using o [of m] w(3) v s(1) by simp
    show "squeue (sem_signal n s) m = env_queue (semaphores k' ! ix m)"
      using o [of m] w(4) s by (auto simp: sem_signal_def Let_def split: if_splits)
  qed
  moreover have "sval s n < 0 \<longrightarrow> env_status (env_of (ssched k') (last (squeue s n))) = ENV_READY"
    using w(4) s by auto
  ultimately show ?thesis
    using w(1,2) by blast
qed

end
