(* ===== verification/User_Sem.thy ===== *)
theory User_Sem
  imports Sem_Prog
begin

text \<open>
  The programs that test the semaphores: \<^verbatim>\<open>user/tst_semaphore_1master.c\<close> and its slaves, which
  enter a critical section, \<^verbatim>\<open>user/tst_semaphore_2master.c\<close> and its slaves, which enter a shop of
  limited capacity, and \<^verbatim>\<open>user/MidTermEx_Master.c\<close> with its two processes, which change a shared
  variable. The masters are modelled from where they have created the semaphores and started the others;
  sleeping is letting the others run. What is printed is shared.
\<close>

section \<open>Critical section and shop\<close>

datatype tst_sem = CS | DEPEND

text \<open>Places in the text of a slave: what it does next.\<close>

datatype slave =
    S_before | S_wait | S_inside | S_id | S_value | S_check int | S_sleep | S_leave | S_after | S_depend | S_return | S_panic

type_synonym line = "string \<times> int list"

definition print_line :: "string \<Rightarrow> int list \<Rightarrow> 'l \<Rightarrow> ('n, 'l, line list) action" where
  "print_line fmt args l = Do (\<lambda>out. (out @ [(fmt, args)], l))"

fun sem1_slave :: "nat \<Rightarrow> slave \<Rightarrow> (tst_sem, slave, line list) action" where
  "sem1_slave me S_before = print_line ''%d: before the critical section'' [int me] S_wait"
| "sem1_slave me S_wait = Wait CS S_inside"
| "sem1_slave me S_inside = print_line ''%d: inside the critical section'' [int me] S_id"
| "sem1_slave me S_id = print_line ''my ID is %d'' [int me] S_value"
| "sem1_slave me S_value = Value CS S_check"
| "sem1_slave me (S_check sem1val) = Do (\<lambda>out. (out, if 0 < sem1val then S_panic else S_sleep))"
| "sem1_slave me S_sleep = Do (\<lambda>out. (out, S_leave))"
| "sem1_slave me S_leave = Signal CS S_after"
| "sem1_slave me S_after = print_line ''%d: after the critical section'' [int me] S_depend"
| "sem1_slave me S_depend = Signal DEPEND S_return"
| "sem1_slave me S_return = Stop"
| "sem1_slave me S_panic = Stop"

datatype shopper = C_wait | C_inside | C_sleep | C_leave | C_exit | C_depend | C_return

fun sem2_slave :: "nat \<Rightarrow> shopper \<Rightarrow> (tst_sem, shopper, line list) action" where
  "sem2_slave me C_wait = Wait CS C_inside"
| "sem2_slave me C_inside = print_line ''Cust %d: inside the shop'' [int me] C_sleep"
| "sem2_slave me C_sleep = Do (\<lambda>out. (out, C_leave))"
| "sem2_slave me C_leave = Signal CS C_exit"
| "sem2_slave me C_exit = print_line ''Cust %d: exit the shop'' [int me] C_depend"
| "sem2_slave me C_depend = Signal DEPEND C_return"
| "sem2_slave me C_return = Stop"

text \<open>The master: the \<open>i\<close>-th wait for a slave, the reading of both values, and the verdict.\<close>

datatype sem_master = M_wait nat | M_value1 | M_value2 int | M_print int int | M_return bool

fun tst_master :: "string \<Rightarrow> nat \<Rightarrow> int \<Rightarrow> sem_master \<Rightarrow> (tst_sem, sem_master, line list) action" where
  "tst_master congratulations n capacity (M_wait i) =
     (if i < n then Wait DEPEND (M_wait (i + 1)) else Do (\<lambda>out. (out, M_value1)))"
| "tst_master congratulations n capacity M_value1 = Value CS M_value2"
| "tst_master congratulations n capacity (M_value2 sem1val) = Value DEPEND (M_print sem1val)"
| "tst_master congratulations n capacity (M_print sem1val sem2val) =
     (if sem2val = 0 \<and> sem1val = capacity then print_line congratulations [] (M_return True)
      else print_line ''Error: wrong semaphore value... please review your semaphore code again...'' [] (M_return False))"
| "tst_master congratulations n capacity (M_return b) = Stop"

definition sem1_master :: "sem_master \<Rightarrow> (tst_sem, sem_master, line list) action" where
  "sem1_master = tst_master ''Congratulations!! Test of Semaphores [1] completed successfully!!'' 3 1"

definition sem2_master :: "nat \<Rightarrow> int \<Rightarrow> sem_master \<Rightarrow> (tst_sem, sem_master, line list) action" where
  "sem2_master totalNumOfCusts shopCapacity =
     tst_master ''Congratulations!! Test of Semaphores [2] completed successfully!!'' totalNumOfCusts shopCapacity"

text \<open>Process 0 is the master, the processes from 1 on are the slaves.\<close>

datatype 'c tst_locals = Master sem_master | Slave 'c

fun lift_action :: "('l \<Rightarrow> 'k) \<Rightarrow> ('n, 'l, 'm) action \<Rightarrow> ('n, 'k, 'm) action" where
  "lift_action h (Wait n l) = Wait n (h l)"
| "lift_action h (Signal n l) = Signal n (h l)"
| "lift_action h (Value n f) = Value n (h \<circ> f)"
| "lift_action h (Do f) = Do (\<lambda>m. let (m, l) = f m in (m, h l))"
| "lift_action h Stop = Stop"

fun tst_prog ::
    "(sem_master \<Rightarrow> (tst_sem, sem_master, line list) action) \<Rightarrow> (nat \<Rightarrow> 'c \<Rightarrow> (tst_sem, 'c, line list) action) \<Rightarrow>
     nat \<Rightarrow> 'c tst_locals \<Rightarrow> (tst_sem, 'c tst_locals, line list) action" where
  "tst_prog m s p (Master l) = lift_action Master (m l)"
| "tst_prog m s p (Slave l) = lift_action Slave (s p l)"

definition tst_start :: "'c \<Rightarrow> int \<Rightarrow> (tst_sem, 'c tst_locals, line list) procs" where
  "tst_start first capacity =
     \<lparr>shared = [], locals = (\<lambda>p. if p = 0 then Master (M_wait 0) else Slave first),
      sval = (\<lambda>n. case n of CS \<Rightarrow> capacity | DEPEND \<Rightarrow> 0), squeue = (\<lambda>_. []), asleep = (\<lambda>_. False)\<rparr>"

definition sem1_prog :: "nat \<Rightarrow> slave tst_locals \<Rightarrow> (tst_sem, slave tst_locals, line list) action" where
  "sem1_prog = tst_prog sem1_master sem1_slave"

definition sem2_prog :: "nat \<Rightarrow> int \<Rightarrow> nat \<Rightarrow> shopper tst_locals \<Rightarrow> (tst_sem, shopper tst_locals, line list) action" where
  "sem2_prog n capacity = tst_prog (sem2_master n capacity) sem2_slave"

section \<open>What the tests need of a slave\<close>

text \<open>Waits less signals behind a place, for a slave by its phase: outside, inside, gone, and signalled.\<close>

fun tst_held :: "('c \<Rightarrow> nat) \<Rightarrow> nat \<Rightarrow> 'c tst_locals \<Rightarrow> tst_sem \<Rightarrow> int" where
  "tst_held phase n (Master (M_wait i)) DEPEND = int (min i n)"
| "tst_held phase n (Master _) DEPEND = int n"
| "tst_held phase n (Master _) CS = 0"
| "tst_held phase n (Slave l) CS = (if phase l = 1 then 1 else 0)"
| "tst_held phase n (Slave l) DEPEND = (if phase l = 3 then - 1 else 0)"

fun master_weight :: "nat \<Rightarrow> sem_master \<Rightarrow> nat" where
  "master_weight n (M_wait i) = 5 + (n - i)"
| "master_weight n M_value1 = 4"
| "master_weight n (M_value2 v) = 3"
| "master_weight n (M_print v v') = 2"
| "master_weight n (M_return b) = 1"

text \<open>
  A slave does only what leads on, waits only outside and signals only inside and once gone; and it goes wrong
  only when it reads, inside, a value as high as at the start.
\<close>

locale tst_slave =
  fixes slave :: "nat \<Rightarrow> 'c \<Rightarrow> (tst_sem, 'c, line list) action" and phase :: "'c \<Rightarrow> nat"
    and weight :: "'c \<Rightarrow> nat" and first :: 'c and bad :: "'c \<Rightarrow> bool" and n :: nat and capacity :: int
    and congratulations :: string
  assumes first_outside: "phase first = 0" "\<not> bad first"
    and slave_wait: "slave p l = Wait k l' \<Longrightarrow> k = CS \<and> phase l = 0 \<and> phase l' = 1 \<and> weight l' < weight l \<and> \<not> bad l'"
    and slave_signal: "slave p l = Signal k l' \<Longrightarrow> weight l' < weight l \<and> \<not> bad l' \<and>
          (k = CS \<and> phase l = 1 \<and> phase l' = 2 \<or> k = DEPEND \<and> phase l = 2 \<and> phase l' = 3)"
    and slave_value: "slave p l = Value k f \<Longrightarrow> k = CS \<and> phase l = 1 \<and> phase (f v) = 1 \<and> weight (f v) < weight l \<and>
          (v < capacity \<longrightarrow> \<not> bad (f v))"
    and slave_do: "slave p l = Do g \<Longrightarrow> g m = (m', l') \<Longrightarrow>
          phase l' = phase l \<and> weight l' < weight l \<and> (\<not> bad l \<longrightarrow> \<not> bad l')"
    and slave_stop: "slave p l = Stop \<Longrightarrow> phase l = 3 \<or> bad l"
begin

definition prog :: "nat \<Rightarrow> 'c tst_locals \<Rightarrow> (tst_sem, 'c tst_locals, line list) action" where
  "prog = tst_prog (tst_master congratulations n capacity) slave"

text \<open>What a process does next, for each kind.\<close>

lemma lift_cases:
  "lift_action h a = Wait k l' \<longleftrightarrow> (\<exists>l. a = Wait k l \<and> l' = h l)"
  "lift_action h a = Signal k l' \<longleftrightarrow> (\<exists>l. a = Signal k l \<and> l' = h l)"
  "lift_action h a = Value k f \<longleftrightarrow> (\<exists>f'. a = Value k f' \<and> f = h \<circ> f')"
  "lift_action h a = Do g \<longleftrightarrow> (\<exists>g'. a = Do g' \<and> g = (\<lambda>m. let (m, l) = g' m in (m, h l)))"
  "lift_action h a = Stop \<longleftrightarrow> a = Stop"
  by (cases a; auto)+

lemma master_cases:
  "tst_master c n v l = Wait k l' \<Longrightarrow> \<exists>i<n. l = M_wait i \<and> k = DEPEND \<and> l' = M_wait (i + 1)"
  "tst_master c n v l = Signal k l' \<Longrightarrow> False"
  "tst_master c n v l = Value k f \<Longrightarrow> l = M_value1 \<and> k = CS \<and> f = M_value2 \<or>
     (\<exists>x. l = M_value2 x \<and> k = DEPEND \<and> f = M_print x)"
  "tst_master c n v l = Do g \<Longrightarrow> g m = (m', l') \<Longrightarrow>
     (\<exists>i\<ge>n. l = M_wait i \<and> l' = M_value1) \<or> (\<exists>x y. l = M_print x y \<and> l' = M_return (y = 0 \<and> x = v))"
  "tst_master c n v l = Stop \<Longrightarrow> \<exists>b. l = M_return b"
  by (cases "(c, n, v, l)" rule: tst_master.cases; auto simp: print_line_def split: if_splits)+

end

sublocale tst_slave \<subseteq> sem_program prog "{..n}" "\<lambda>p. tst_held phase n"
proof
  show "finite {..n}"
    by simp
next
  fix p k l l' j assume "p \<in> {..n}" and a: "prog p l = Wait k l'"
  show "tst_held phase n l' j = tst_held phase n l j + (if j = k then 1 else 0)"
  proof (cases l)
    case (Master x)
    then show ?thesis
      using a master_cases(1) [of congratulations capacity x] by (cases j) (auto simp: prog_def lift_cases)
  next
    case (Slave x)
    then show ?thesis
      using a slave_wait [of p x] by (cases j) (auto simp: prog_def lift_cases)
  qed
next
  fix p k l l' j assume "p \<in> {..n}" and a: "prog p l = Signal k l'"
  show "tst_held phase n l' j = tst_held phase n l j - (if j = k then 1 else 0)"
  proof (cases l)
    case (Master x)
    then show ?thesis
      using a master_cases(2) [of congratulations capacity x] by (auto simp: prog_def lift_cases)
  next
    case (Slave x)
    then show ?thesis
      using a slave_signal [of p x] by (cases j) (auto simp: prog_def lift_cases)
  qed
next
  fix p k l f v j assume "p \<in> {..n}" and a: "prog p l = Value k f"
  show "tst_held phase n (f v) j = tst_held phase n l j"
  proof (cases l)
    case (Master x)
    then show ?thesis
      using a master_cases(3) [of congratulations capacity x] by (cases j) (auto simp: prog_def lift_cases)
  next
    case (Slave x)
    then show ?thesis
      using a slave_value [of p x] by (cases j) (auto simp: prog_def lift_cases)
  qed
next
  fix p l g m m' l' j assume "p \<in> {..n}" and a: "prog p l = Do g" "g m = (m', l')"
  show "tst_held phase n l' j = tst_held phase n l j"
  proof (cases l)
    case (Master x)
    then obtain h y where h: "tst_master congratulations n capacity x = Do h" "h m = (m', y)" "l' = Master y"
      using a by (auto simp: prog_def lift_cases split: prod.splits)
    show ?thesis
      using master_cases(4) [OF h(1,2)] by (cases j) (auto simp: Master h(3))
  next
    case (Slave x)
    then show ?thesis
      using a slave_do [of p x] by (cases j) (auto simp: prog_def lift_cases split: prod.splits)
  qed
qed

context tst_slave
begin

abbreviation start :: "(tst_sem, 'c tst_locals, line list) procs" where "start \<equiv> tst_start first capacity"

lemma start_facts: "0 \<le> capacity \<Longrightarrow> fresh start" "total start CS = 0" "total start DEPEND = 0"
  "sval start CS = capacity" "sval start DEPEND = 0"
proof -
  show "fresh start" if "0 \<le> capacity"
    using that by (simp add: fresh_def tst_start_def split: tst_sem.splits)
  have "tst_held phase n (locals start p) k = 0" for p k
    using first_outside(1) by (cases k) (simp_all add: tst_start_def)
  then show "total start CS = 0" "total start DEPEND = 0"
    by (simp_all add: total_def)
qed (simp_all add: tst_start_def)

lemma roles: "runs prog {..n} start s \<Longrightarrow> (\<exists>l. locals s 0 = Master l) \<and> (\<forall>p>0. \<exists>l. locals s p = Slave l)"
proof (induction rule: runs.induct)
  case (steps s p s')
  have *: "(\<exists>x. l = Master x) \<longleftrightarrow> (\<exists>x. l' = Master x)" if "prog p l = Wait k l' \<or> prog p l = Signal k l'" for l l' k
    using that by (cases l) (auto simp: prog_def lift_cases)
  have 2: "(\<exists>x. l = Master x) \<longleftrightarrow> (\<exists>x. f v = Master x)" if "prog p l = Value k f" for l f v k
    using that by (cases l) (auto simp: prog_def lift_cases)
  have 3: "(\<exists>x. l = Master x) \<longleftrightarrow> (\<exists>x. l' = Master x)" if "prog p l = Do g" "g m = (m', l')" for l l' g m m'
    using that by (cases l) (auto simp: prog_def lift_cases split: prod.splits)
  have "locals s' q = locals s q \<or> q = p \<and> ((\<exists>x. locals s q = Master x) \<longleftrightarrow> (\<exists>x. locals s' q = Master x))" for q
    using steps(3) by (cases rule: run_step_cases) (use * 2 3 in auto)
  moreover have "(\<exists>x. l = Slave x) \<longleftrightarrow> \<not> (\<exists>x. l = Master x)" for l :: "'c tst_locals"
    by (cases l) auto
  ultimately show ?case
    using steps.IH by (metis not_less_zero gr0I)
qed (simp add: tst_start_def)

text \<open>Every step leads on, so that no run is endless.\<close>

fun tst_weight :: "'c tst_locals \<Rightarrow> nat" where
  "tst_weight (Master l) = master_weight n l"
| "tst_weight (Slave l) = weight l"

lemma weight_step:
  assumes "run_step prog p s = Some s'"
  shows "tst_weight (locals s' p) < tst_weight (locals s p) \<and> (\<forall>q. q \<noteq> p \<longrightarrow> locals s' q = locals s q)"
  using assms
proof (cases rule: run_step_cases)
  case (Wait k l)
  then show ?thesis
    using master_cases(1) slave_wait by (cases "locals s p") (fastforce simp: prog_def lift_cases)+
next
  case (Signal k l)
  then show ?thesis
    using master_cases(2) slave_signal by (cases "locals s p") (fastforce simp: prog_def lift_cases)+
next
  case (Value k f)
  then show ?thesis
    using master_cases(3) slave_value by (cases "locals s p") (fastforce simp: prog_def lift_cases)+
next
  case (Do g m l)
  show ?thesis
  proof (cases "locals s p")
    case (Master x)
    then obtain h y where h: "tst_master congratulations n capacity x = Do h" "h (shared s) = (m, y)" "l = Master y"
      using Do by (auto simp: prog_def lift_cases split: prod.splits)
    show ?thesis
      using master_cases(4) [OF h(1,2)] Do(4) Master h(3) by auto
  next
    case (Slave x)
    then obtain h y where h: "slave p x = Do h" "h (shared s) = (m, y)" "l = Slave y"
      using Do by (auto simp: prog_def lift_cases split: prod.splits)
    show ?thesis
      using slave_do [OF h(1,2)] Do(4) Slave h(3) by simp
  qed
qed

lemma ends: "\<not> (\<exists>f. f 0 = start \<and> (\<forall>i. \<exists>p\<in>{..n}. run_step prog p (f i) = Some (f (Suc i))))"
proof (rule no_endless_run [where \<mu> = "\<lambda>s. \<Sum>p\<le>n. tst_weight (locals s p)"])
  fix s s' p assume "p \<in> {..n}" "run_step prog p s = Some s'"
  then have w: "tst_weight (locals s' p) < tst_weight (locals s p)" "\<forall>q\<in>{..n}. tst_weight (locals s' q) \<le> tst_weight (locals s q)"
    using weight_step [of p s s'] by (auto simp: le_less)
  then show "(\<Sum>p\<le>n. tst_weight (locals s' p)) < (\<Sum>p\<le>n. tst_weight (locals s p))"
    using \<open>p \<in> {..n}\<close> by (intro sum_strict_mono_ex1) auto
qed

definition all_done :: "(tst_sem, 'c tst_locals, line list) procs \<Rightarrow> bool" where
  "all_done s \<longleftrightarrow> (\<forall>p\<in>{1..n}. \<exists>l. locals s p = Slave l \<and> phase l = 3)"

definition good :: "(tst_sem, 'c tst_locals, line list) procs \<Rightarrow> bool" where
  "good s \<longleftrightarrow>
     (\<forall>p\<in>{1..n}. \<forall>l. locals s p = Slave l \<longrightarrow> \<not> bad l) \<and>
     (\<forall>m. locals s 0 = Master m \<longrightarrow> (case m of
        M_wait i \<Rightarrow> True
      | M_value1 \<Rightarrow> all_done s
      | M_value2 v \<Rightarrow> all_done s \<and> v = capacity
      | M_print v w \<Rightarrow> all_done s \<and> v = capacity \<and> w = 0
      | M_return b \<Rightarrow> b \<and> all_done s))"

lemma binary_CS: "tst_held phase n l CS \<in> {0, 1}"
  by (cases "(phase, n, l, CS)" rule: tst_held.cases) auto

lemma total_split: "total s k = tst_held phase n (locals s 0) k + (\<Sum>p\<in>{1..n}. tst_held phase n (locals s p) k)"
proof -
  have "{..n} = insert 0 {1..n}"
    by auto
  then show ?thesis
    unfolding total_def by simp
qed

lemma all_done_values:
  assumes "runs prog {..n} start s" "all_done s"
  shows "sval s CS = capacity" "sval s DEPEND = int n - tst_held phase n (locals s 0) DEPEND"
proof -
  obtain m where m: "locals s 0 = Master m"
    using roles [OF assms(1)] by blast
  have each: "tst_held phase n (locals s p) CS = 0" "tst_held phase n (locals s p) DEPEND = - 1" if "p \<in> {1..n}" for p
    using assms(2) that by (force simp: all_done_def)+
  then have "(\<Sum>p\<in>{1..n}. tst_held phase n (locals s p) DEPEND) = (\<Sum>p\<in>{1..n}. - 1)"
    by (intro sum.cong) auto
  then have "total s CS = 0" "total s DEPEND = tst_held phase n (locals s 0) DEPEND - int n"
    using each(1) m by (simp_all add: total_split)
  then show "sval s CS = capacity" "sval s DEPEND = int n - tst_held phase n (locals s 0) DEPEND"
    using balance [OF assms(1), of CS] balance [OF assms(1), of DEPEND] start_facts by simp_all
qed

text \<open>Only the master waits for the slaves, so that once it has, they are done.\<close>

lemma queue_members:
  assumes "runs prog {..n} start s" "0 \<le> capacity"
  shows "p \<in> set (squeue s DEPEND) \<Longrightarrow> p = 0" "p \<in> set (squeue s CS) \<Longrightarrow> 0 < p"
proof -
  note D = queues_wfD [OF runs_queues_wf [OF assms(1) start_facts(1) [OF assms(2)]]]
  show "p = 0" if q: "p \<in> set (squeue s DEPEND)"
  proof (rule ccontr)
    assume "p \<noteq> 0"
    then obtain l' where l': "locals s p = Slave l'"
      using roles [OF assms(1)] by blast
    obtain l where "prog p l = Wait DEPEND (Slave l')"
      using D(6) [OF q] l' by auto
    then show False
      using slave_wait [of p _ DEPEND l'] by (cases l) (auto simp: prog_def lift_cases)
  qed
  show "0 < p" if q: "p \<in> set (squeue s CS)"
  proof (rule ccontr)
    assume "\<not> 0 < p"
    then obtain l' where l': "locals s p = Master l'"
      using roles [OF assms(1)] by auto
    obtain l where "prog p l = Wait CS (Master l')"
      using D(6) [OF q] l' by auto
    then show False
      using master_cases(1) [of congratulations capacity _ CS l'] by (cases l) (auto simp: prog_def lift_cases)
  qed
qed

lemma waited_for_all:
  assumes "runs prog {..n} start s" "0 \<le> capacity" "\<not> asleep s 0" "locals s 0 = Master (M_wait i)" "n \<le> i"
  shows "all_done s"
proof -
  note D = queues_wfD [OF runs_queues_wf [OF assms(1) start_facts(1) [OF assms(2)]]]
  have "squeue s DEPEND = []"
    using queue_members(1) [OF assms(1,2)] D(4) [of 0] assms(3) by (metis list.set_intros(1) neq_Nil_conv)
  then have "0 \<le> sval s DEPEND"
    using D(1) [of DEPEND] by simp
  then have "total s DEPEND \<le> 0"
    using balance [OF assms(1), of DEPEND] start_facts by simp
  then have le: "int n + (\<Sum>p\<in>{1..n}. tst_held phase n (locals s p) DEPEND) \<le> 0"
    using assms(4,5) by (simp add: total_split min_absorb2)
  have slv: "\<exists>l. locals s p = Slave l" if "p \<in> {1..n}" for p
    using conjunct2 [OF roles [OF assms(1)]] that by simp
  have low: "- 1 \<le> tst_held phase n (locals s p) DEPEND" if p: "p \<in> {1..n}" for p
  proof -
    obtain l where "locals s p = Slave l"
      using slv [OF p] by blast
    then show ?thesis
      by simp
  qed
  show ?thesis
  proof (rule ccontr)
    assume "\<not> all_done s"
    then obtain p where p: "p \<in> {1..n}" "\<not> (\<exists>l. locals s p = Slave l \<and> phase l = 3)"
      by (auto simp: all_done_def)
    obtain l where l: "locals s p = Slave l"
      using slv [OF p(1)] by blast
    have "(\<Sum>p\<in>{1..n}. - 1) < (\<Sum>p\<in>{1..n}. tst_held phase n (locals s p) DEPEND)"
    proof (rule sum_strict_mono_ex1)
      show "\<exists>p\<in>{1..n}. - 1 < tst_held phase n (locals s p) DEPEND"
        using p l by (intro bexI [of _ p]) simp_all
      show "\<forall>p\<in>{1..n}. - 1 \<le> tst_held phase n (locals s p) DEPEND"
        using low by blast
    qed simp
    then show False
      using le by simp
  qed
qed

lemma all_done_kept:
  assumes "all_done s" "run_step prog p s = Some s'" "runs prog {..n} start s"
  shows "all_done s'"
  unfolding all_done_def
proof
  fix q assume q: "q \<in> {1..n}"
  then obtain l where l: "locals s q = Slave l" "phase l = 3"
    using assms(1) unfolding all_done_def by blast
  show "\<exists>l. locals s' q = Slave l \<and> phase l = 3"
  proof (cases "q = p")
    case False
    then show ?thesis
      using weight_step [OF assms(2)] l by simp
  next
    case True
    note l = l [unfolded True]
    from assms(2) show ?thesis
    proof (cases rule: run_step_cases)
      case (Wait k l')
      then show ?thesis
        using slave_wait [of p l] l by (auto simp: prog_def lift_cases)
    next
      case (Signal k l')
      then show ?thesis
        using slave_signal [of p l] l by (auto simp: prog_def lift_cases)
    next
      case (Value k f)
      then show ?thesis
        using slave_value [of p l] l by (auto simp: prog_def lift_cases)
    next
      case (Do g m l')
      then obtain h y where h: "slave p l = Do h" "h (shared s) = (m, y)" "l' = Slave y"
        using l by (auto simp: prog_def lift_cases split: prod.splits)
      then show ?thesis
        using slave_do [OF h(1,2)] l Do(4) True by simp
    qed
  qed
qed

lemma good_slave_step:
  assumes "runs prog {..n} start s" "0 < capacity" "good s" "p \<in> {1..n}" "run_step prog p s = Some s'"
    "locals s' p = Slave l'"
  shows "\<not> bad l'"
proof -
  have cap: "0 \<le> capacity"
    using assms(2) by simp
  have "0 < p"
    using assms(4) by simp
  then obtain l where l: "locals s p = Slave l"
    using conjunct2 [OF roles [OF assms(1)]] by blast
  have nb: "\<not> bad l"
    using assms(3,4) l by (auto simp: good_def)
  from assms(5) show ?thesis
  proof (cases rule: run_step_cases)
    case (Wait k x)
    then show ?thesis
      using slave_wait [of p l] l assms(6) by (auto simp: prog_def lift_cases)
  next
    case (Signal k x)
    then show ?thesis
      using slave_signal [of p l] l assms(6) by (auto simp: prog_def lift_cases)
  next
    case (Do g m x)
    then obtain h y where h: "slave p l = Do h" "h (shared s) = (m, y)" "x = Slave y"
      using l by (auto simp: prog_def lift_cases split: prod.splits)
    then show ?thesis
      using slave_do [OF h(1,2)] Do(4) assms(6) nb by simp
  next
    case (Value k f)
    then obtain h where h: "slave p l = Value k h" "f = Slave \<circ> h"
      using l by (auto simp: prog_def lift_cases)
    have v: "k = CS" "phase l = 1" "sval s CS < capacity \<longrightarrow> \<not> bad (h (sval s CS))"
      using slave_value [OF h(1)] by blast+
    have "p \<in> holders CS s"
      using assms(4) l v(2) by (simp add: holders_def)
    moreover have "finite (holders CS s)"
      by (simp add: holders_def)
    ultimately have "1 \<le> int (card (holders CS s))"
      by (simp add: Suc_le_eq card_gt_0_iff) blast
    then have "sval s CS < capacity"
      using inside_card(2) [OF assms(1) start_facts(1) [OF cap] binary_CS start_facts(2)] start_facts(4) by simp
    then show ?thesis
      using v h(2) Value(3) assms(6) by simp
  qed
qed

lemma good_master_step:
  assumes "runs prog {..n} start s" "0 < capacity" "good s" "run_step prog 0 s = Some s'" "locals s' 0 = Master m'"
  shows "case m' of M_wait i \<Rightarrow> True | M_value1 \<Rightarrow> all_done s' | M_value2 v \<Rightarrow> all_done s' \<and> v = capacity
    | M_print v w \<Rightarrow> all_done s' \<and> v = capacity \<and> w = 0 | M_return b \<Rightarrow> b \<and> all_done s'"
proof -
  have cap: "0 \<le> capacity"
    using assms(2) by simp
  obtain m where m: "locals s 0 = Master m"
    using roles [OF assms(1)] by blast
  note kept = all_done_kept [OF _ assms(4,1)]
  note vals = all_done_values [OF assms(1)]
  from assms(4) show ?thesis
  proof (cases rule: run_step_cases)
    case (Wait k x)
    then show ?thesis
      using master_cases(1) [of congratulations capacity m] m assms(5) by (fastforce simp: prog_def lift_cases)
  next
    case (Signal k x)
    then show ?thesis
      using master_cases(2) [of congratulations capacity m] m by (auto simp: prog_def lift_cases)
  next
    case (Value k f)
    then obtain h where h: "tst_master congratulations n capacity m = Value k h" "f = Master \<circ> h"
      using m by (auto simp: prog_def lift_cases)
    have m': "m' = h (sval s k)"
      using h(2) Value(3) assms(5) by simp
    consider "m = M_value1" "k = CS" "h = M_value2" | x where "m = M_value2 x" "k = DEPEND" "h = M_print x"
      using master_cases(3) [OF h(1)] by blast
    then show ?thesis
    proof cases
      case 1
      then have "all_done s"
        using assms(3) m by (auto simp: good_def)
      then show ?thesis
        using kept vals m' 1 by simp
    next
      case 2
      then have "all_done s" "x = capacity"
        using assms(3) m by (auto simp: good_def)
      then show ?thesis
        using kept vals(2) m' 2 m by simp
    qed
  next
    case (Do g y x)
    then obtain h z where h: "tst_master congratulations n capacity m = Do h" "h (shared s) = (y, z)" "x = Master z"
      using m by (auto simp: prog_def lift_cases split: prod.splits)
    have m': "m' = z"
      using h(3) Do(4) assms(5) by simp
    consider i where "n \<le> i" "m = M_wait i" "z = M_value1" | v w where "m = M_print v w" "z = M_return (w = 0 \<and> v = capacity)"
      using master_cases(4) [OF h(1,2)] by blast
    then show ?thesis
    proof cases
      case 1
      then show ?thesis
        using kept waited_for_all [OF assms(1) cap Do(1)] m m' by simp
    next
      case 2
      then have "all_done s" "v = capacity" "w = 0"
        using assms(3) m by (auto simp: good_def)
      then show ?thesis
        using kept m' 2 by simp
    qed
  qed
qed

lemma runs_good: "runs prog {..n} start s \<Longrightarrow> 0 < capacity \<Longrightarrow> good s"
proof (induction rule: runs.induct)
  case begins
  then show ?case
    using first_outside by (auto simp: good_def tst_start_def)
next
  case (steps s p s')
  have g: "good s"
    using steps by blast
  have other: "locals s' q = locals s q" if "q \<noteq> p" for q
    using weight_step [OF steps(3)] that by blast
  have dn: "all_done s \<Longrightarrow> all_done s'"
    by (rule all_done_kept [OF _ steps(3,1)])
  show ?case
    unfolding good_def
  proof (intro conjI ballI allI impI)
    fix q l assume q: "q \<in> {1..n}" "locals s' q = Slave l"
    show "\<not> bad l"
    proof (cases "q = p")
      case True
      then show ?thesis
        using good_slave_step [OF steps(1) steps(5) g _ steps(3)] q by simp
    next
      case False
      then show ?thesis
        using g q other by (auto simp: good_def)
    qed
  next
    fix m assume m: "locals s' 0 = Master m"
    show "case m of M_wait i \<Rightarrow> True | M_value1 \<Rightarrow> all_done s' | M_value2 v \<Rightarrow> all_done s' \<and> v = capacity
      | M_print v w \<Rightarrow> all_done s' \<and> v = capacity \<and> w = 0 | M_return b \<Rightarrow> b \<and> all_done s'"
    proof (cases "p = 0")
      case True
      then show ?thesis
        using good_master_step [OF steps(1) steps(5) g _ m] steps(3) by blast
    next
      case False
      then have "locals s 0 = Master m"
        using other m by simp
      then show ?thesis
        using g dn unfolding good_def by (cases m) auto
    qed
  qed
qed

text \<open>When nobody can go on, everybody is through, and the master has congratulated.\<close>

lemma stuck_done:
  assumes "runs prog {..n} start s" "0 < capacity" "stuck prog {..n} s"
  shows "all_done s" "locals s 0 = Master (M_return True)"
proof -
  have cap: "0 \<le> capacity"
    using assms(2) by simp
  have g: "good s"
    by (rule runs_good [OF assms(1,2)])
  note fresh = start_facts(1) [OF cap]
  note D = queues_wfD [OF runs_queues_wf [OF assms(1) fresh]]
  have no: "asleep s p \<or> prog p (locals s p) = Stop" if "p \<le> n" for p
  proof (rule ccontr)
    assume a: "\<not> (asleep s p \<or> prog p (locals s p) = Stop)"
    then have "run_step prog p s \<noteq> None"
      by (cases "prog p (locals s p)") (auto simp: run_step_def split: prod.splits)
    then show False
      using assms(3) that by (simp add: stuck_def)
  qed
  have slv: "\<exists>l. locals s p = Slave l" if "p \<in> {1..n}" for p
    using conjunct2 [OF roles [OF assms(1)]] that by simp
  have stopped: "\<exists>l. locals s p = Slave l \<and> phase l = 3" if p: "p \<in> {1..n}" "\<not> asleep s p" for p
  proof -
    obtain l where l: "locals s p = Slave l"
      using slv [OF p(1)] by blast
    then have "slave p l = Stop"
      using no [of p] p by (simp add: prog_def lift_cases)
    then show ?thesis
      using slave_stop [of p l] g l p(1) by (auto simp: good_def)
  qed
  have empty: "inside CS s = {}"
  proof (rule ccontr)
    assume "inside CS s \<noteq> {}"
    then obtain p where p: "p \<le> n" "tst_held phase n (locals s p) CS = 1" "p \<notin> set (squeue s CS)"
      by (auto simp: inside_def holders_def)
    have "0 < p"
      using roles [OF assms(1)] p(2) by (cases "p = 0") auto
    then have "p \<in> {1..n}"
      using p(1) by simp
    moreover have "\<not> asleep s p"
    proof
      assume "asleep s p"
      then obtain k where "p \<in> set (squeue s k)"
        using D(4) by blast
      then show False
        using p(3) \<open>0 < p\<close> queue_members(1) [OF assms(1) cap, of p] by (cases k) auto
    qed
    ultimately show False
      using stopped p(2) by fastforce
  qed
  have "squeue s CS = []"
  proof -
    have "int (card (holders CS s)) \<le> 0"
      using inside_card(1) [OF assms(1) fresh binary_CS start_facts(2)] empty assms(2) start_facts(4) by simp
    then have "0 \<le> sval s CS"
      using inside_card(2) [OF assms(1) fresh binary_CS start_facts(2)] assms(2) start_facts(4) by simp
    then show ?thesis
      using D(1) [of CS] by simp
  qed
  then have awake: "\<not> asleep s p" if "p \<in> {1..n}" for p
    using D(4) [of p] queue_members(1) [OF assms(1) cap, of p] that by (metis (full_types) One_nat_def atLeastAtMost_iff empty_iff list.set(1) not_one_le_zero tst_sem.exhaust)
  show dn: "all_done s"
    using stopped awake by (simp add: all_done_def)
  obtain m where m: "locals s 0 = Master m"
    using roles [OF assms(1)] by blast
  have "0 \<le> sval s DEPEND"
    using all_done_values(2) [OF assms(1) dn] m by (cases m) auto
  then have "squeue s DEPEND = []"
    using D(1) [of DEPEND] by simp
  then have "\<not> asleep s 0"
    using D(4) [of 0] queue_members(2) [OF assms(1) cap, of 0] by (metis empty_iff less_irrefl list.set(1) tst_sem.exhaust)
  then have "tst_master congratulations n capacity m = Stop"
    using no [of 0] m by (simp add: prog_def lift_cases)
  then obtain b where "m = M_return b"
    using master_cases(5) by blast
  then show "locals s 0 = Master (M_return True)"
    using g m by (auto simp: good_def)
qed

end

section \<open>The two tests\<close>

fun slave_phase :: "slave \<Rightarrow> nat" where
  "slave_phase S_before = 0" | "slave_phase S_wait = 0"
| "slave_phase S_after = 2" | "slave_phase S_depend = 2"
| "slave_phase S_return = 3"
| "slave_phase _ = 1"

fun slave_weight :: "slave \<Rightarrow> nat" where
  "slave_weight S_before = 11" | "slave_weight S_wait = 10" | "slave_weight S_inside = 9" | "slave_weight S_id = 8"
| "slave_weight S_value = 7" | "slave_weight (S_check v) = 6" | "slave_weight S_sleep = 5" | "slave_weight S_leave = 4"
| "slave_weight S_after = 3" | "slave_weight S_depend = 2" | "slave_weight S_return = 1" | "slave_weight S_panic = 1"

fun slave_bad :: "slave \<Rightarrow> bool" where
  "slave_bad (S_check v) \<longleftrightarrow> 0 < v"
| "slave_bad S_panic \<longleftrightarrow> True"
| "slave_bad _ \<longleftrightarrow> False"

fun shopper_phase :: "shopper \<Rightarrow> nat" where
  "shopper_phase C_wait = 0" | "shopper_phase C_exit = 2" | "shopper_phase C_depend = 2"
| "shopper_phase C_return = 3" | "shopper_phase _ = 1"

fun shopper_weight :: "shopper \<Rightarrow> nat" where
  "shopper_weight C_wait = 7" | "shopper_weight C_inside = 6" | "shopper_weight C_sleep = 5"
| "shopper_weight C_leave = 4" | "shopper_weight C_exit = 3" | "shopper_weight C_depend = 2"
| "shopper_weight C_return = 1"

interpretation sem1: tst_slave sem1_slave slave_phase slave_weight S_before slave_bad 3 1
  "''Congratulations!! Test of Semaphores [1] completed successfully!!''"
proof
  show "sem1_slave p l = Wait k l' \<Longrightarrow> k = CS \<and> slave_phase l = 0 \<and> slave_phase l' = 1 \<and>
      slave_weight l' < slave_weight l \<and> \<not> slave_bad l'" for p l k l'
    by (cases l) (auto simp: print_line_def)
  show "sem1_slave p l = Signal k l' \<Longrightarrow> slave_weight l' < slave_weight l \<and> \<not> slave_bad l' \<and>
      (k = CS \<and> slave_phase l = 1 \<and> slave_phase l' = 2 \<or> k = DEPEND \<and> slave_phase l = 2 \<and> slave_phase l' = 3)" for p l k l'
    by (cases l) (auto simp: print_line_def)
  show "sem1_slave p l = Value k f \<Longrightarrow> k = CS \<and> slave_phase l = 1 \<and> slave_phase (f v) = 1 \<and>
      slave_weight (f v) < slave_weight l \<and> (v < 1 \<longrightarrow> \<not> slave_bad (f v))" for p l k f v
    by (cases l) (auto simp: print_line_def)
  show "sem1_slave p l = Do g \<Longrightarrow> g m = (m', l') \<Longrightarrow> slave_phase l' = slave_phase l \<and>
      slave_weight l' < slave_weight l \<and> (\<not> slave_bad l \<longrightarrow> \<not> slave_bad l')" for p l g m m' l'
    by (cases l) (auto simp: print_line_def)
  show "sem1_slave p l = Stop \<Longrightarrow> slave_phase l = 3 \<or> slave_bad l" for p l
    by (cases l) (auto simp: print_line_def)
qed simp_all

interpretation sem2: tst_slave sem2_slave shopper_phase shopper_weight C_wait "\<lambda>_. False" n capacity
  "''Congratulations!! Test of Semaphores [2] completed successfully!!''" for n capacity
proof
  show "sem2_slave p l = Wait k l' \<Longrightarrow> k = CS \<and> shopper_phase l = 0 \<and> shopper_phase l' = 1 \<and>
      shopper_weight l' < shopper_weight l \<and> \<not> False" for p l k l'
    by (cases l) (auto simp: print_line_def)
  show "sem2_slave p l = Signal k l' \<Longrightarrow> shopper_weight l' < shopper_weight l \<and> \<not> False \<and>
      (k = CS \<and> shopper_phase l = 1 \<and> shopper_phase l' = 2 \<or> k = DEPEND \<and> shopper_phase l = 2 \<and> shopper_phase l' = 3)" for p l k l'
    by (cases l) (auto simp: print_line_def)
  show "sem2_slave p l = Value k f \<Longrightarrow> k = CS \<and> shopper_phase l = 1 \<and> shopper_phase (f v) = 1 \<and>
      shopper_weight (f v) < shopper_weight l \<and> (v < capacity \<longrightarrow> \<not> False)" for p l k f v
    by (cases l) (auto simp: print_line_def)
  show "sem2_slave p l = Do g \<Longrightarrow> g m = (m', l') \<Longrightarrow> shopper_phase l' = shopper_phase l \<and>
      shopper_weight l' < shopper_weight l \<and> (\<not> False \<longrightarrow> \<not> False)" for p l g m m' l'
    by (cases l) (auto simp: print_line_def)
  show "sem2_slave p l = Stop \<Longrightarrow> shopper_phase l = 3 \<or> False" for p l
    by (cases l) (auto simp: print_line_def)
qed simp_all

lemma sem_progs: "sem1.prog = sem1_prog" "sem2.prog n capacity = sem2_prog n capacity"
  by (simp_all add: sem1.prog_def sem2.prog_def sem1_prog_def sem2_prog_def sem1_master_def sem2_master_def fun_eq_iff)

text \<open>The test of the critical section, however its processes are interleaved: a slave never finds the
  value positive inside, no run is endless, and when no process can go on every slave has returned and the
  master has congratulated.\<close>

theorem critical_section_test:
  "(\<forall>s. runs sem1_prog {..3} (tst_start S_before 1) s \<longrightarrow>
      (\<forall>p\<in>{1..3}. locals s p \<noteq> Slave S_panic) \<and>
      (stuck sem1_prog {..3} s \<longrightarrow> locals s 0 = Master (M_return True) \<and> (\<forall>p\<in>{1..3}. locals s p = Slave S_return))) \<and>
   \<not> (\<exists>f. f 0 = tst_start S_before 1 \<and> (\<forall>i. \<exists>p\<in>{..3}. run_step sem1_prog p (f i) = Some (f (Suc i))))"
proof (intro conjI allI impI ballI)
  fix s assume r: "runs sem1_prog {..3} (tst_start S_before 1) s"
  show "locals s p \<noteq> Slave S_panic" if "p \<in> {1..3}" for p
  proof
    assume "locals s p = Slave S_panic"
    moreover have "\<forall>p\<in>{1..3}. \<forall>l. locals s p = Slave l \<longrightarrow> \<not> slave_bad l"
      using sem1.runs_good [unfolded sem_progs, OF r] unfolding sem1.good_def by simp
    ultimately have "\<not> slave_bad S_panic"
      using that by blast
    then show False
      by simp
  qed
  assume st: "stuck sem1_prog {..3} s"
  note d = sem1.stuck_done [unfolded sem_progs, OF r zero_less_one st]
  show "locals s 0 = Master (M_return True)"
    using d by simp
  fix p :: nat assume p: "p \<in> {1..3}"
  then obtain l where "locals s p = Slave l" "slave_phase l = 3"
    using d(1) unfolding sem1.all_done_def by blast
  then show "locals s p = Slave S_return"
    by (cases l) simp_all
next
  show "\<not> (\<exists>f. f 0 = tst_start S_before 1 \<and> (\<forall>i. \<exists>p\<in>{..3}. run_step sem1_prog p (f i) = Some (f (Suc i))))"
    by (rule sem1.ends [unfolded sem_progs])
qed

text \<open>What a schedule of the first test comes to: where the processes are, and who can go on.\<close>

definition sem1_end :: "nat list \<Rightarrow> (slave tst_locals list \<times> bool list) option" where
  "sem1_end sched =
     (case play sem1_prog sched (tst_start S_before 1) of
        None \<Rightarrow> None
      | Some s \<Rightarrow> Some (map (locals s) [0, 1, 2, 3], map (\<lambda>p. Option.is_none (run_step sem1_prog p s)) [0, 1, 2, 3]))"

theorem critical_section_test_witness:
  "\<exists>s. runs sem1_prog {..3} (tst_start S_before 1) s \<and> stuck sem1_prog {..3} s \<and>
     locals s 0 = Master (M_return True) \<and> (\<forall>p\<in>{1..3}. locals s p = Slave S_return \<and> locals s p \<noteq> Slave S_panic)"
proof -
  let ?sched = "[2, 2, 0, 1, 1, 2, 3, 3, 2, 2, 2, 2, 2, 2] @ [1, 1, 1, 1, 1, 1, 2, 1, 1] @ [3, 3, 3, 3, 3, 3, 3, 3] @ [0, 0, 0, 0, 0, 0]"
  have "Option.is_none (sem1_end ?sched) = False" "map_option snd (sem1_end ?sched) = Some [True, True, True, True]"
    by code_simp+
  then obtain s where s: "play sem1_prog ?sched (tst_start S_before 1) = Some s"
      "run_step sem1_prog 0 s = None" "run_step sem1_prog 1 s = None" "run_step sem1_prog 2 s = None" "run_step sem1_prog 3 s = None"
    by (auto simp: sem1_end_def is_none_simps Option.is_none_def split: option.splits)
  have r: "runs sem1_prog {..3} (tst_start S_before 1) s"
    by (rule play_runs [OF s(1)]) simp
  have "p \<in> {0, 1, 2, 3}" if "p \<le> 3" for p :: nat
    using that by auto
  then have st: "stuck sem1_prog {..3} s"
    unfolding stuck_def using s by blast
  show ?thesis
    using critical_section_test r st by blast
qed

text \<open>C36: The test of the shop, for any number of customers and any positive capacity, however the processes
  are interleaved: never are more customers inside than the capacity, no run is endless, and when no process
  can go on every customer has gone and the master has congratulated.\<close>

theorem shop_test:
  assumes "0 < capacity"
  shows "(\<forall>s. runs (sem2_prog n capacity) {..n} (tst_start C_wait capacity) s \<longrightarrow>
      int (card {p \<in> {1..n}. \<not> asleep s p \<and> locals s p \<in> Slave ` {C_inside, C_sleep, C_leave}}) \<le> capacity \<and>
      (stuck (sem2_prog n capacity) {..n} s \<longrightarrow>
         locals s 0 = Master (M_return True) \<and> (\<forall>p\<in>{1..n}. locals s p = Slave C_return))) \<and>
   \<not> (\<exists>f. f 0 = tst_start C_wait capacity \<and>
      (\<forall>i. \<exists>p\<in>{..n}. run_step (sem2_prog n capacity) p (f i) = Some (f (Suc i))))"
proof (intro conjI allI impI ballI)
  fix s assume r: "runs (sem2_prog n capacity) {..n} (tst_start C_wait capacity) s"
  have fresh: "fresh (tst_start C_wait capacity)"
    using assms by (intro sem2.start_facts(1)) simp
  have "{p \<in> {1..n}. \<not> asleep s p \<and> locals s p \<in> Slave ` {C_inside, C_sleep, C_leave}} \<subseteq> sem2.inside n CS s"
  proof
    fix p assume "p \<in> {p \<in> {1..n}. \<not> asleep s p \<and> locals s p \<in> Slave ` {C_inside, C_sleep, C_leave}}"
    then show "p \<in> sem2.inside n CS s"
      using sem2.awake_holder [unfolded sem_progs, OF _ _ _ r fresh, of p CS] by auto
  qed
  moreover have "finite (sem2.inside n CS s)"
    using sem2.inside_card(3) [unfolded sem_progs, OF r fresh sem2.binary_CS sem2.start_facts(2)] .
  ultimately have "card {p \<in> {1..n}. \<not> asleep s p \<and> locals s p \<in> Slave ` {C_inside, C_sleep, C_leave}} \<le> card (sem2.inside n CS s)"
    by (intro card_mono)
  then show "int (card {p \<in> {1..n}. \<not> asleep s p \<and> locals s p \<in> Slave ` {C_inside, C_sleep, C_leave}}) \<le> capacity"
    using sem2.inside_le [unfolded sem_progs, OF r fresh sem2.binary_CS sem2.start_facts(2)] sem2.start_facts(4) [of capacity] by simp
  assume st: "stuck (sem2_prog n capacity) {..n} s"
  note d = sem2.stuck_done [unfolded sem_progs, OF r assms st]
  show "locals s 0 = Master (M_return True)"
    by (rule d(2))
  fix p :: nat assume p: "p \<in> {1..n}"
  then obtain l where "locals s p = Slave l" "shopper_phase l = 3"
    using d(1) unfolding sem2.all_done_def by blast
  then show "locals s p = Slave C_return"
    by (cases l) simp_all
next
  show "\<not> (\<exists>f. f 0 = tst_start C_wait capacity \<and>
      (\<forall>i. \<exists>p\<in>{..n}. run_step (sem2_prog n capacity) p (f i) = Some (f (Suc i))))"
    by (rule sem2.ends [unfolded sem_progs])
qed

definition sem2_end :: "nat list \<Rightarrow> bool list option" where
  "sem2_end sched =
     map_option (\<lambda>s. map (\<lambda>p. Option.is_none (run_step (sem2_prog 2 1) p s)) [0, 1, 2])
       (play (sem2_prog 2 1) sched (tst_start C_wait 1))"

theorem shop_test_witness:
  "\<exists>s. runs (sem2_prog 2 1) {..2} (tst_start C_wait 1) s \<and> stuck (sem2_prog 2 1) {..2} s \<and>
     locals s 0 = Master (M_return True) \<and> locals s 1 = Slave C_return \<and> locals s 2 = Slave C_return"
proof -
  let ?sched = "[0, 2, 1, 2, 2, 2, 2, 2, 1, 1, 1, 1, 1, 0, 0, 0, 0, 0]"
  have "sem2_end ?sched = Some [True, True, True]"
    by code_simp
  then obtain s where s: "play (sem2_prog 2 1) ?sched (tst_start C_wait 1) = Some s"
      "run_step (sem2_prog 2 1) 0 s = None" "run_step (sem2_prog 2 1) 1 s = None" "run_step (sem2_prog 2 1) 2 s = None"
    by (auto simp: sem2_end_def Option.is_none_def)
  have r: "runs (sem2_prog 2 1) {..2} (tst_start C_wait 1) s"
    by (rule play_runs [OF s(1)]) simp
  have "p \<in> {0, 1, 2}" if "p \<le> 2" for p :: nat
    using that by auto
  then have st: "stuck (sem2_prog 2 1) {..2} s"
    unfolding stuck_def using s by blast
  have "(1 :: nat) \<in> {1..2}" "(2 :: nat) \<in> {1..2}"
    by simp_all
  then show ?thesis
    using shop_test [OF zero_less_one, of 2] r st by blast
qed

section \<open>The shared variable\<close>

record midterm =
  var_X :: int
  finishedCount :: int
  out :: "line list"

datatype process_A = A_read | A_write int | A_signal | A_count | A_store int | A_return
datatype process_B = B_wait | B_read | B_write int | B_count | B_store int | B_return
datatype midterm_master = MM_loop | MM_print | MM_return
datatype midterm_locals = LM (un_LM: midterm_master) | LA (un_LA: process_A) | LB (un_LB: process_B)

text \<open>\<^verbatim>\<open>(*finishedCount)++\<close> reads and then writes.\<close>

fun ProcessA :: "bool \<Rightarrow> process_A \<Rightarrow> (unit, process_A, midterm) action" where
  "ProcessA useSem A_read = Do (\<lambda>m. (m, A_write (var_X m * 2)))"
| "ProcessA useSem (A_write Y) = Do (\<lambda>m. (m\<lparr>var_X := Y\<rparr>, A_signal))"
| "ProcessA useSem A_signal = (if useSem then Signal () A_count else Do (\<lambda>m. (m, A_count)))"
| "ProcessA useSem A_count = Do (\<lambda>m. (m, A_store (finishedCount m)))"
| "ProcessA useSem (A_store c) = Do (\<lambda>m. (m\<lparr>finishedCount := c + 1\<rparr>, A_return))"
| "ProcessA useSem A_return = Stop"

fun ProcessB :: "bool \<Rightarrow> process_B \<Rightarrow> (unit, process_B, midterm) action" where
  "ProcessB useSem B_wait = (if useSem then Wait () B_read else Do (\<lambda>m. (m, B_read)))"
| "ProcessB useSem B_read = Do (\<lambda>m. (m, B_write (var_X m + 1)))"
| "ProcessB useSem (B_write Z) = Do (\<lambda>m. (m\<lparr>var_X := Z\<rparr>, B_count))"
| "ProcessB useSem B_count = Do (\<lambda>m. (m, B_store (finishedCount m)))"
| "ProcessB useSem (B_store c) = Do (\<lambda>m. (m\<lparr>finishedCount := c + 1\<rparr>, B_return))"
| "ProcessB useSem B_return = Stop"

fun midterm_main :: "midterm_master \<Rightarrow> (unit, midterm_master, midterm) action" where
  "midterm_main MM_loop = Do (\<lambda>m. (m, if finishedCount m \<noteq> 2 then MM_loop else MM_print))"
| "midterm_main MM_print = Do (\<lambda>m. (m\<lparr>out := out m @ [(''Final value of X = %d'', [var_X m])]\<rparr>, MM_return))"
| "midterm_main MM_return = Stop"

fun midterm_prog :: "bool \<Rightarrow> nat \<Rightarrow> midterm_locals \<Rightarrow> (unit, midterm_locals, midterm) action" where
  "midterm_prog useSem p (LM l) = lift_action LM (midterm_main l)"
| "midterm_prog useSem p (LA l) = lift_action LA (ProcessA useSem l)"
| "midterm_prog useSem p (LB l) = lift_action LB (ProcessB useSem l)"

text \<open>The master is process 0, the others are 1 and 2.\<close>

definition midterm_start :: "(unit, midterm_locals, midterm) procs" where
  "midterm_start =
     \<lparr>shared = \<lparr>var_X = 5, finishedCount = 0, out = []\<rparr>,
      locals = (\<lambda>p. if p = 0 then LM MM_loop else if p = 1 then LA A_read else LB B_wait),
      sval = (\<lambda>_. 0), squeue = (\<lambda>_. []), asleep = (\<lambda>_. False)\<rparr>"

text \<open>Where the processes are, what the variables then hold, and who sleeps on the semaphore.\<close>

fun A_ok :: "process_A \<Rightarrow> process_B \<Rightarrow> int \<Rightarrow> int \<Rightarrow> bool" where
  "A_ok A_read b x c \<longleftrightarrow> x = 5"
| "A_ok (A_write y) b x c \<longleftrightarrow> x = 5 \<and> y = 10"
| "A_ok (A_store t) b x c \<longleftrightarrow> t \<le> (if b = B_return then 1 else 0)"
| "A_ok _ b x c \<longleftrightarrow> True"

fun B_ok :: "process_A \<Rightarrow> process_B \<Rightarrow> int \<Rightarrow> int \<Rightarrow> bool" where
  "B_ok a (B_write z) x c \<longleftrightarrow> x = 10 \<and> z = 11"
| "B_ok a B_count x c \<longleftrightarrow> x = 11"
| "B_ok a (B_store t) x c \<longleftrightarrow> x = 11 \<and> t \<le> (if a = A_return then 1 else 0)"
| "B_ok a B_return x c \<longleftrightarrow> x = 11"
| "B_ok a _ x c \<longleftrightarrow> (a \<notin> range A_write \<union> {A_read} \<longrightarrow> x = 10)"

fun signalled :: "process_A \<Rightarrow> bool" where
  "signalled A_count = True" | "signalled (A_store c) = True" | "signalled A_return = True" | "signalled _ = False"

definition midterm_at :: "midterm_master \<Rightarrow> process_A \<Rightarrow> process_B \<Rightarrow> (unit, midterm_locals, midterm) procs \<Rightarrow> bool" where
  "midterm_at m a b s \<longleftrightarrow>
     locals s 0 = LM m \<and> locals s 1 = LA a \<and> locals s 2 = LB b \<and>
     A_ok a b (var_X (shared s)) (finishedCount (shared s)) \<and> B_ok a b (var_X (shared s)) (finishedCount (shared s)) \<and>
     finishedCount (shared s) \<le> (if a = A_return then 1 else 0) + (if b = B_return then 1 else 0) \<and>
     (if b = B_wait then squeue s () = [] \<and> sval s () = (if signalled a then 1 else 0) \<and> \<not> asleep s 2
      else if signalled a then squeue s () = [] \<and> sval s () = 0 \<and> \<not> asleep s 2
      else b = B_read \<and> squeue s () = [2] \<and> sval s () = - 1 \<and> asleep s 2) \<and>
     \<not> asleep s 0 \<and> \<not> asleep s 1 \<and>
     (m = MM_loop \<and> out (shared s) = [] \<or>
      m = MM_print \<and> out (shared s) = [] \<and> a = A_return \<and> b = B_return \<or>
      m = MM_return \<and> out (shared s) = [(''Final value of X = %d'', [11])] \<and> a = A_return \<and> b = B_return)"

lemma midterm_master_step:
  assumes "midterm_at m a b s" "run_step (midterm_prog True) 0 s = Some s'"
  shows "\<exists>m'. midterm_at m' a b s'"
proof (cases m)
  case MM_loop
  show ?thesis
  proof (cases "finishedCount (shared s) = 2")
    case True
    then have "a = A_return" "b = B_return"
      using assms(1) by (auto simp: midterm_at_def split: if_splits)
    then have "midterm_at MM_print a b s'"
      using assms MM_loop True by (auto simp: midterm_at_def run_step_def)
    then show ?thesis ..
  next
    case False
    then have "s' = goto 0 (LM MM_loop) s"
      using assms MM_loop by (simp add: midterm_at_def run_step_def)
    then have "midterm_at MM_loop a b s'"
      using assms(1) MM_loop by (simp add: midterm_at_def)
    then show ?thesis ..
  qed
next
  case MM_print
  then have "midterm_at MM_return a b s'"
    using assms by (auto simp: midterm_at_def run_step_def)
  then show ?thesis ..
next
  case MM_return
  then show ?thesis
    using assms by (simp add: midterm_at_def run_step_def)
qed

lemma midterm_A_step:
  assumes "midterm_at m a b s" "run_step (midterm_prog True) 1 s = Some s'"
  shows "\<exists>a'. midterm_at m a' b s'"
proof (cases a)
  case A_read
  then have "s' = goto 1 (LA (A_write (var_X (shared s) * 2))) s"
    using assms by (simp add: midterm_at_def run_step_def)
  then have "midterm_at m (A_write (var_X (shared s) * 2)) b s'"
    using assms(1) A_read by (cases b) (simp_all add: midterm_at_def)
  then show ?thesis ..
next
  case (A_write y)
  then have "s' = goto 1 (LA A_signal) (s\<lparr>shared := (shared s)\<lparr>var_X := y\<rparr>\<rparr>)"
    using assms by (simp add: midterm_at_def run_step_def)
  then have "midterm_at m A_signal b s'"
    using assms(1) A_write by (cases b) (simp_all add: midterm_at_def)
  then show ?thesis ..
next
  case A_signal
  then have "s' = sem_signal () (goto 1 (LA A_count) s)"
    using assms by (simp add: midterm_at_def run_step_def)
  then have "midterm_at m A_count b s'"
    using assms(1) A_signal by (cases b) (simp_all add: midterm_at_def sem_signal_def Let_def image_iff)
  then show ?thesis ..
next
  case A_count
  then have "s' = goto 1 (LA (A_store (finishedCount (shared s)))) s"
    using assms by (simp add: midterm_at_def run_step_def)
  then have "midterm_at m (A_store (finishedCount (shared s))) b s'"
    using assms(1) A_count by (cases b) (simp_all add: midterm_at_def image_iff)
  then show ?thesis ..
next
  case (A_store t)
  then have "s' = goto 1 (LA A_return) (s\<lparr>shared := (shared s)\<lparr>finishedCount := t + 1\<rparr>\<rparr>)"
    using assms by (simp add: midterm_at_def run_step_def)
  then have "midterm_at m A_return b s'"
    using assms(1) A_store by (cases b) (simp_all add: midterm_at_def image_iff)
  then show ?thesis ..
next
  case A_return
  then show ?thesis
    using assms by (simp add: midterm_at_def run_step_def)
qed

lemma midterm_B_step:
  assumes "midterm_at m a b s" "run_step (midterm_prog True) 2 s = Some s'"
  shows "\<exists>b'. midterm_at m a b' s'"
proof (cases b)
  case B_wait
  then have "s' = sem_wait 2 () (goto 2 (LB B_read) s)"
    using assms by (simp add: midterm_at_def run_step_def)
  then have "midterm_at m a B_read s'"
    using assms(1) B_wait by (cases a) (simp_all add: midterm_at_def sem_wait_def Let_def)
  then show ?thesis ..
next
  case B_read
  then have "s' = goto 2 (LB (B_write (var_X (shared s) + 1))) s" "\<not> asleep s 2"
    using assms by (auto simp: midterm_at_def run_step_def split: if_splits)
  then have "midterm_at m a (B_write (var_X (shared s) + 1)) s'"
    using assms(1) B_read by (cases a) (simp_all add: midterm_at_def image_iff)
  then show ?thesis ..
next
  case (B_write z)
  then have "s' = goto 2 (LB B_count) (s\<lparr>shared := (shared s)\<lparr>var_X := z\<rparr>\<rparr>)"
    using assms by (auto simp: midterm_at_def run_step_def split: if_splits)
  then have "midterm_at m a B_count s'"
    using assms(1) B_write by (cases a) (simp_all add: midterm_at_def)
  then show ?thesis ..
next
  case B_count
  then have "s' = goto 2 (LB (B_store (finishedCount (shared s)))) s"
    using assms by (auto simp: midterm_at_def run_step_def split: if_splits)
  then have "midterm_at m a (B_store (finishedCount (shared s))) s'"
    using assms(1) B_count by (cases a) (simp_all add: midterm_at_def)
  then show ?thesis ..
next
  case (B_store t)
  then have "s' = goto 2 (LB B_return) (s\<lparr>shared := (shared s)\<lparr>finishedCount := t + 1\<rparr>\<rparr>)"
    using assms by (auto simp: midterm_at_def run_step_def split: if_splits)
  then have "midterm_at m a B_return s'"
    using assms(1) B_store by (cases a) (simp_all add: midterm_at_def)
  then show ?thesis ..
next
  case B_return
  then show ?thesis
    using assms by (simp add: midterm_at_def run_step_def split: if_splits)
qed

lemma midterm_runs: "runs (midterm_prog True) {..2} midterm_start s \<Longrightarrow> \<exists>m a b. midterm_at m a b s"
proof (induction rule: runs.induct)
  case begins
  have "midterm_at MM_loop A_read B_wait midterm_start"
    by (simp add: midterm_at_def midterm_start_def)
  then show ?case
    by blast
next
  case (steps s p s')
  obtain m a b where at: "midterm_at m a b s"
    using steps.IH by blast
  consider "p = 0" | "p = 1" | "p = 2"
    using steps(2) by force
  then show ?case
    using midterm_master_step [OF at] midterm_A_step [OF at] midterm_B_step [OF at] steps(3) by cases blast+
qed

text \<open>With the semaphore the second process changes the variable only after the first has: whatever the
  interleaving, the master prints nothing or that the final value is 11, and 11 it is when both are through.\<close>

theorem midterm_ordered:
  assumes "runs (midterm_prog True) {..2} midterm_start s"
  shows "out (shared s) \<in> {[], [(''Final value of X = %d'', [11])]} \<and>
    (locals s 1 = LA A_return \<and> locals s 2 = LB B_return \<longrightarrow> var_X (shared s) = 11)"
  using midterm_runs [OF assms] by (auto simp: midterm_at_def)

definition midterm_end :: "nat list \<Rightarrow> bool \<Rightarrow> (int \<times> int \<times> line list) option" where
  "midterm_end sched useSem =
     (case play (midterm_prog useSem) sched midterm_start of
        None \<Rightarrow> None
      | Some s \<Rightarrow> if locals s 0 = LM MM_loop \<and> locals s 1 = LA A_return \<and> locals s 2 = LB B_return
                then Some (var_X (shared s), finishedCount (shared s), out (shared s)) else None)"

lemma midterm_played:
  assumes "midterm_end sched useSem = Some (x, c, ls)" "set sched \<subseteq> {..2}"
  obtains s where "runs (midterm_prog useSem) {..2} midterm_start s" "locals s 0 = LM MM_loop"
    "locals s 1 = LA A_return" "locals s 2 = LB B_return" "var_X (shared s) = x" "finishedCount (shared s) = c" "out (shared s) = ls"
  using assms play_runs [of "midterm_prog useSem" sched midterm_start _ "{..2}"]
  by (auto simp: midterm_end_def split: option.splits if_splits)

theorem midterm_ordered_witness:
  "\<exists>s. runs (midterm_prog True) {..2} midterm_start s \<and> locals s 1 = LA A_return \<and> locals s 2 = LB B_return \<and>
     var_X (shared s) = 11 \<and> out (shared s) \<in> {[], [(''Final value of X = %d'', [11])]}"
proof -
  have "midterm_end [1, 1, 2, 1, 1, 1, 2, 2, 2, 2] True = Some (11, 2, [])"
    by code_simp
  moreover have "set [1, 1, 2, 1, 1, 1, 2, 2, 2, 2] \<subseteq> {..2 :: nat}"
    by simp
  ultimately obtain s where s: "runs (midterm_prog True) {..2} midterm_start s" "locals s 0 = LM MM_loop"
      "locals s 1 = LA A_return" "locals s 2 = LB B_return"
    by (rule midterm_played)
  then show ?thesis
    using midterm_ordered [OF s(1)] by blast
qed

text \<open>C38: The counter by which the two processes tell the master that they are through is not protected: both
  can read it before either writes. Then both have returned, the counter is 1, and from there the master
  loops in every continuation and prints nothing.\<close>

theorem midterm_master_waits_forever:
  "\<exists>s. runs (midterm_prog True) {..2} midterm_start s \<and> locals s 1 = LA A_return \<and> locals s 2 = LB B_return \<and>
     finishedCount (shared s) = 1 \<and>
     (\<forall>s'. runs (midterm_prog True) {..2} s s' \<longrightarrow> locals s' 0 = LM MM_loop \<and> out (shared s') = [])"
proof -
  have "midterm_end [1, 1, 1, 2, 2, 2, 1, 2, 1, 2] True = Some (11, 1, [])"
    by code_simp
  moreover have "set [1, 1, 1, 2, 2, 2, 1, 2, 1, 2] \<subseteq> {..2 :: nat}"
    by simp
  ultimately obtain s where s: "runs (midterm_prog True) {..2} midterm_start s" "locals s 0 = LM MM_loop"
      "locals s 1 = LA A_return" "locals s 2 = LB B_return" "finishedCount (shared s) = 1" "out (shared s) = []"
    by (rule midterm_played)
  have "locals s' 0 = LM MM_loop \<and> locals s' 1 = LA A_return \<and> locals s' 2 = LB B_return \<and>
      finishedCount (shared s') = 1 \<and> out (shared s') = []" if "runs (midterm_prog True) {..2} s s'" for s'
    using that
  proof (induction rule: runs.induct)
    case begins
    then show ?case
      using s by simp
  next
    case (steps t p t')
    consider "p = 0" | "p = 1" | "p = 2"
      using steps(2) by force
    then show ?case
      using steps.IH steps(3) by cases (auto simp: run_step_def split: if_splits)
  qed
  then show ?thesis
    using s by blast
qed

theorem midterm_master_waits_forever_witness:
  "\<exists>s s'. runs (midterm_prog True) {..2} midterm_start s \<and> run_step (midterm_prog True) 0 s = Some s' \<and>
     locals s' 0 = LM MM_loop \<and> out (shared s') = []"
proof -
  obtain s where s: "runs (midterm_prog True) {..2} midterm_start s"
      and stays: "\<And>s'. runs (midterm_prog True) {..2} s s' \<Longrightarrow> locals s' 0 = LM MM_loop \<and> out (shared s') = []"
    using midterm_master_waits_forever by blast
  have "\<not> asleep s 0"
    using midterm_runs [OF s] by (auto simp: midterm_at_def)
  then obtain s' where s': "run_step (midterm_prog True) 0 s = Some s'"
    using stays [OF runs.begins] by (auto simp: run_step_def)
  have "runs (midterm_prog True) {..2} s s'"
    by (rule runs.steps [OF runs.begins _ s']) simp
  then show ?thesis
    using s s' stays by blast
qed

text \<open>Without the semaphore: what the variable can be when both processes have returned.\<close>

fun A_free :: "process_A \<Rightarrow> process_B \<Rightarrow> int \<Rightarrow> bool" where
  "A_free A_read B_wait x \<longleftrightarrow> x = 5"
| "A_free A_read B_read x \<longleftrightarrow> x = 5"
| "A_free A_read (B_write z) x \<longleftrightarrow> x = 5 \<and> z = 6"
| "A_free A_read b x \<longleftrightarrow> x = 6"
| "A_free (A_write y) B_wait x \<longleftrightarrow> x = 5 \<and> y = 10"
| "A_free (A_write y) B_read x \<longleftrightarrow> x = 5 \<and> y = 10"
| "A_free (A_write y) (B_write z) x \<longleftrightarrow> x = 5 \<and> y = 10 \<and> z = 6"
| "A_free (A_write y) b x \<longleftrightarrow> x = 6 \<and> y \<in> {10, 12}"
| "A_free a B_wait x \<longleftrightarrow> x = 10"
| "A_free a B_read x \<longleftrightarrow> x = 10"
| "A_free a (B_write z) x \<longleftrightarrow> x = 10 \<and> z \<in> {6, 11}"
| "A_free a b x \<longleftrightarrow> x \<in> {6, 10, 11, 12}"

definition free_at :: "(unit, midterm_locals, midterm) procs \<Rightarrow> bool" where
  "free_at s \<longleftrightarrow>
     (\<exists>a b. locals s 1 = LA a \<and> locals s 2 = LB b \<and> A_free a b (var_X (shared s))) \<and> (\<exists>m. locals s 0 = LM m)"

lemma free_runs: "runs (midterm_prog False) {..2} midterm_start s \<Longrightarrow> free_at s"
proof (induction rule: runs.induct)
  case begins
  show ?case
    by (simp add: free_at_def midterm_start_def)
next
  case (steps s p s')
  obtain a b m where at: "locals s 1 = LA a" "locals s 2 = LB b" "A_free a b (var_X (shared s))" "locals s 0 = LM m"
    using steps.IH by (auto simp: free_at_def)
  consider "p = 0" | "p = 1" | "p = 2"
    using steps(2) by force
  then show ?case
  proof cases
    case 1
    then show ?thesis
      using at steps(3) by (cases m) (auto simp: free_at_def run_step_def split: if_splits)
  next
    case 2
    have "\<exists>a'. locals s' = (locals s)(1 := LA a') \<and> A_free a' b (var_X (shared s'))"
      using at 2 steps(3) by (cases a; cases b) (auto simp: run_step_def split: if_splits)
    then show ?thesis
      using at by (auto simp: free_at_def)
  next
    case 3
    have "\<exists>b'. locals s' = (locals s)(2 := LB b') \<and> A_free a b' (var_X (shared s'))"
      using at 3 steps(3) by (cases a; cases b) (auto simp: run_step_def split: if_splits)
    then show ?thesis
      using at by (auto simp: free_at_def)
  qed
qed

text \<open>C37: Without the semaphore the final value depends on the interleaving: it can be 6, 10, 11 and 12, and
  nothing else.\<close>

theorem midterm_race:
  "{var_X (shared s) | s. runs (midterm_prog False) {..2} midterm_start s \<and>
      locals s 1 = LA A_return \<and> locals s 2 = LB B_return} = {6, 10, 11, 12}"
proof -
  let ?X = "{var_X (shared s) | s. runs (midterm_prog False) {..2} midterm_start s \<and>
      locals s 1 = LA A_return \<and> locals s 2 = LB B_return}"
  have seen: "x \<in> ?X" if m: "midterm_end sched False = Some (x, 2, [])" "set sched \<subseteq> {..2}" for sched x
  proof -
    obtain s where "runs (midterm_prog False) {..2} midterm_start s" "locals s 1 = LA A_return"
        "locals s 2 = LB B_return" "var_X (shared s) = x"
      using m by (rule midterm_played)
    then show ?thesis
      by auto
  qed
  have "midterm_end [1, 2, 2, 1, 2, 1, 1, 1, 2, 2] False = Some (6, 2, [])"
      "midterm_end [1, 2, 2, 2, 1, 1, 1, 1, 2, 2] False = Some (10, 2, [])"
      "midterm_end [1, 1, 2, 2, 2, 1, 1, 1, 2, 2] False = Some (11, 2, [])"
      "midterm_end [2, 2, 2, 1, 1, 1, 1, 1, 2, 2] False = Some (12, 2, [])"
    by code_simp+
  then have "6 \<in> ?X" "10 \<in> ?X" "11 \<in> ?X" "12 \<in> ?X"
    using seen by (fastforce simp del: mem_Collect_eq)+
  moreover have "x \<in> {6, 10, 11, 12}" if "x \<in> ?X" for x
  proof -
    obtain s where s: "runs (midterm_prog False) {..2} midterm_start s" "locals s 1 = LA A_return"
        "locals s 2 = LB B_return" "x = var_X (shared s)"
      using \<open>x \<in> ?X\<close> by blast
    show ?thesis
      using free_runs [OF s(1)] s by (simp add: free_at_def)
  qed
  ultimately show ?thesis
    by blast
qed

end
