(* ===== verification/Spec2Isabelle.thy ===== *)
theory Spec2Isabelle
  imports Syscalls Block_Heap User_Sys U_Heap Trap Prog_Load Console Commands Boot_Mem Descriptors Boot_Load Kdebug User_Sort User_Sem
begin

text \<open>
  A verification development for FOS, a teaching operating system for 32-bit x86: the kernel under
  \<^verbatim>\<open>src/kern\<close>, the library it shares with programs under \<^verbatim>\<open>src/lib\<close> and the
  headers under \<^verbatim>\<open>src/inc\<close>.

  \<^bold>\<open>Parts and theories\<close>, from the bottom up.

  \<^item> \<^verbatim>\<open>Fos_Base\<close>: the result type \<open>fault + 'a\<close> of an operation that may panic,
    dereference a null pointer, read out of bounds or exhaust its fuel, sequencing
    (\<open>andthen\<close>), loops over pages and lists, the integer types, macros and constants of
    \<^verbatim>\<open>inc/types.h\<close>, \<^verbatim>\<open>inc/mmu.h\<close>, \<^verbatim>\<open>inc/memlayout.h\<close> and
    \<^verbatim>\<open>inc/error.h\<close>.
  \<^item> \<^verbatim>\<open>Fos_Queue\<close>: the \<^verbatim>\<open>LIST_*\<close> macros of \<^verbatim>\<open>inc/queue.h\<close> on a
    heap of links, refined to operations on HOL lists; all other theories use the lists.
  \<^item> \<^verbatim>\<open>Dyn_Alloc\<close>: \<^verbatim>\<open>lib/dynamic_allocator.c\<close>, the block lists of the kernel and
    user heaps: first, best and next fit, insertion with merging.
  \<^item> \<^verbatim>\<open>Memory_Manager\<close>: \<^verbatim>\<open>kern/mem/memory_manager.c\<close> and
    \<^verbatim>\<open>paging_helpers.c\<close>: the record \<open>kmem\<close> holds the frame table, the lists of frames,
    the page directories and tables and the contents of memory.
  \<^item> \<^verbatim>\<open>Kheap\<close>: \<^verbatim>\<open>kern/mem/kheap.c\<close> with \<^verbatim>\<open>create_page_table\<close>, whose
    mutual recursion with \<^verbatim>\<open>kmalloc\<close> is unfolded with fuel.
  \<^item> \<^verbatim>\<open>Chunk_Ops\<close>: the operations on ranges of pages of
    \<^verbatim>\<open>kern/mem/chunk_operations.c\<close>; \<^verbatim>\<open>User_Mem\<close>: releasing user memory.
  \<^item> \<^verbatim>\<open>Working_Set\<close>: \<^verbatim>\<open>kern/mem/working_set_manager.c\<close> on the record \<open>env\<close>.
  \<^item> \<^verbatim>\<open>Page_File\<close>: \<^verbatim>\<open>lib/disk.c\<close> and \<^verbatim>\<open>kern/disk/pagefile_manager.c\<close> on
    \<open>vm\<close>, which joins memory, disk and environments.
  \<^item> \<^verbatim>\<open>Fault_Handler\<close>: \<^verbatim>\<open>kern/trap/fault_handler.c\<close>, the fault entry of
    \<^verbatim>\<open>kern/trap/trap.c\<close> and the time stamps of \<^verbatim>\<open>kern/cpu/sched.c\<close>.
  \<^item> \<^verbatim>\<open>Kclock\<close>: the timer and the interrupt controller as sequences of port writes.
  \<^item> \<^verbatim>\<open>Sched\<close>: \<^verbatim>\<open>kern/cpu/sched.c\<close> on \<open>sched\<close>: the queues and the running
    environment; a context switch is the \<open>control\<close> value that an operation returns.
  \<^item> \<^verbatim>\<open>Env_Table\<close>: the environment table of \<^verbatim>\<open>kern/proc/user_environment.c\<close>.
  \<^item> \<^verbatim>\<open>Boot_Mem\<close>: \<^verbatim>\<open>kern/mem/boot_memory_manager.c\<close>, the construction of the
    kernel's address space while paging is off, its check and the switch, on the record \<open>boot\<close>, which holds
    the memory of \<open>vm\<close>.
  \<^item> \<^verbatim>\<open>Descriptors\<close>: the segment and gate descriptors of \<^verbatim>\<open>inc/mmu.h\<close>, the
    tables that booting and \<^verbatim>\<open>idt_init\<close> make, and what the processor reads from them.
  \<^item> \<^verbatim>\<open>Boot_Load\<close>: the boot loader \<^verbatim>\<open>boot/main.c\<close>, which reads the kernel image from
    the disk through the registers of the drive, on \<open>loading\<close>. \<^verbatim>\<open>Kdebug\<close>: the search of the symbol
    table in \<^verbatim>\<open>kern/trap/kdebug.c\<close>.
  \<^item> \<^verbatim>\<open>Semaphore\<close>: \<^verbatim>\<open>kern/conc/semaphore_manager.c\<close>; \<^verbatim>\<open>Shared_Mem\<close>:
    \<^verbatim>\<open>kern/mem/shared_memory_manager.c\<close>.
  \<^item> \<^verbatim>\<open>Syscalls\<close>: \<^verbatim>\<open>kern/trap/syscall.c\<close>, the handlers and the dispatcher on the
    whole kernel state \<open>kernel\<close>.
  \<^item> \<^verbatim>\<open>User_Sys\<close>: the stubs of \<^verbatim>\<open>lib/syscall.c\<close> above the dispatcher;
    \<^verbatim>\<open>Trap\<close>: \<^verbatim>\<open>kern/trap/trap.c\<close>, the frames of the environments and the way
    back to them. What lies outside the kernel state is in \<open>os\<close>.
  \<^item> \<^verbatim>\<open>Block_Heap\<close>: the laws of a heap over the block allocator, a locale for the placement
    strategies with an interpretation for each; \<^verbatim>\<open>U_Heap\<close>: \<^verbatim>\<open>lib/uheap.c\<close>, a process
    \<open>uproc\<close> with its block lists and the kernel below it.
  \<^item> \<^verbatim>\<open>Prog_Load\<close>: \<^verbatim>\<open>env_create\<close> of \<^verbatim>\<open>kern/proc/user_environment.c\<close>, which
    loads a program image into memory and the page file, on \<open>loader\<close>.
  \<^item> \<^verbatim>\<open>C_String\<close>: \<^verbatim>\<open>lib/string.c\<close> on a memory of bytes; \<open>None\<close> is a call that
    does not return. \<^verbatim>\<open>Print_Fmt\<close>: \<^verbatim>\<open>lib/printfmt.c\<close>, \<^verbatim>\<open>lib/printf.c\<close>
    and \<^verbatim>\<open>lib/readline.c\<close>; the characters handed to a callback are a list.
    \<^verbatim>\<open>Console\<close>: \<^verbatim>\<open>kern/cons/console.c\<close> and \<^verbatim>\<open>lib/console.c\<close> on
    \<open>console\<close>, the screen memory, the keyboard state and the input buffer; the bytes waiting at a device
    are a list, and arrive as steps of \<open>console_step\<close>.
  \<^item> \<^verbatim>\<open>Commands\<close>: \<^verbatim>\<open>kern/cmd/command_prompt.c\<close> and \<^verbatim>\<open>kern/cmd/commands.c\<close> on
    \<open>monitor\<close>, the loader's state and what was printed; the programs linked to the kernel and the bodies of
    the kernel tests are in \<open>host\<close>.
  \<^item> \<^verbatim>\<open>User_Sort\<close>: the algorithms of the sorting and statistics programs under
    \<^verbatim>\<open>src/user\<close>, on lists of machine integers.
  \<^item> \<^verbatim>\<open>Sem_Prog\<close>: programs that run side by side and synchronise by semaphores, with the proof
    that the kernel's semaphores behave as these do; the counting laws of a semaphore are a locale.
    \<^verbatim>\<open>User_Sem\<close>: the semaphore tests and the midterm example under \<^verbatim>\<open>src/user\<close>.

  \<^bold>\<open>What the lemmas show.\<close> The allocator: each strategy returns the block it promises and the
  free list stays sorted, disjoint and merged. Paging: mapping installs exactly one entry, unmapping
  restores it, references count the entries. Booting: the loader puts every segment
  of a kernel image in its place and jumps to the entry point; the kernel, its stack and its arrays are mapped
  when paging is turned on, and the code that turns it on stays mapped all through; gates lead
  to their handlers, and which of them a program may raise. The page file: what is written is read back and nothing
  else on the disk changes. Faults: replacement is the second-chance algorithm on the circular
  working set, and a fault brings the right contents. Scheduling: no environment is ever on two
  queues (rule induction on the reachable states), and round robin serves every ready environment.
  Semaphores: blocked environments are never lost and are woken in order. The user
  heap: \<^verbatim>\<open>malloc\<close> is first fit on the heap's range and \<^verbatim>\<open>free\<close> undoes it, with
  the kernel's answer as a hypothesis. Traps: the result of a call reaches the register of the program
  that made it and no other frame changes. Loading: every loadable segment is handled once, in order,
  and the program starts at its entry point on an empty stack. The console: the screen is a window on an unbounded sheet,
  the input buffer is a queue (a locale, interpreted on the ring buffer), and keys give the characters of
  their tables. Debug information: the function of an address is the
  last one that begins at or below it, for tables with entries far enough apart. The prompt: a line runs the command it names, any other word is completed to the names
  it starts, and every command returns to the prompt with 0. The sorting programs return a sorted rearrangement for every array. Programs with
  semaphores, in every interleaving: the test of the shop never admits too many customers and always ends
  well; what the processes of the midterm example can leave in their variable. The error properties state
  what the code does where it does not do what its comments say.

  \<^bold>\<open>Fuel.\<close> \<open>table_fuel = 2\<close>: \<^verbatim>\<open>create_page_table\<close> for a user address calls
  \<^verbatim>\<open>kmalloc\<close>, which may call \<^verbatim>\<open>create_page_table\<close> for a kernel address, whose
  tables exist after initialisation. \<open>clock_fuel = 2\<close>: the first round of the clock clears every
  used bit, so the second finds a victim. Both are proved to suffice.

  \<^bold>\<open>Not modelled.\<close> The assembly of the boot sector and of the kernel's and the traps' entry points
  (hardware state); the translation look-aside buffer; \<^verbatim>\<open>kern/init.c\<close>, which calls the initialisations in turn;
  \<^verbatim>\<open>sys_get_virtual_time\<close>, which passes the addresses of locals; tests and the other user programs. In
  \<open>syscall\<close> the handlers of these parts are an argument.
\<close>

end
